(* ===== verification/Config.thy ===== *)
theory Config
  imports Prelude
begin

text \<open>
  The \<^verbatim>\<open>config\<close> package: the environment name, which file is read, the expansion of
  \<^verbatim>\<open>${...}\<close> references, the directory search and the optional durations. The process
  environment is a function from variable names to values, empty when unset
  (\<^verbatim>\<open>os.Getenv\<close>); YAML and the file system are arguments. Durations are in milliseconds
  in every theory that uses \<open>dur_or\<close>.
\<close>

section \<open>Durations\<close>

text \<open>\<^verbatim>\<open>Duration.Or\<close>: the value, or the default when it is zero.\<close>

definition dur_or :: "int \<Rightarrow> int \<Rightarrow> int" where
  "dur_or d def = (if d = 0 then def else d)"

section \<open>The environment\<close>

type_synonym env = "string \<Rightarrow> string"

definition Env :: "env \<Rightarrow> string" where
  "Env env = (if env ''APP_ENV'' \<noteq> [] then env ''APP_ENV'' else ''local'')"

definition IsLocal :: "env \<Rightarrow> bool" where
  "IsLocal env \<longleftrightarrow> Env env = ''local''"

text \<open>\<^verbatim>\<open>strings.Cut\<close>: around the first occurrence of the separator.\<close>

fun cut :: "string \<Rightarrow> string \<Rightarrow> (string \<times> string) option" where
  "cut [] sep = (if sep = [] then Some ([], []) else None)"
| "cut (c # s) sep =
     (if has_prefix (c # s) sep then Some ([], drop (length sep) (c # s))
      else map_option (apfst ((#) c)) (cut s sep))"

definition Expand :: "env \<Rightarrow> string \<Rightarrow> string" where
  "Expand env key =
     (case cut key '':-'' of
        Some (name, def) \<Rightarrow> if env name \<noteq> [] then env name else def
      | None \<Rightarrow> env key)"

section \<open>Expanding a file\<close>

text \<open>
  \<^verbatim>\<open>os.Expand\<close>: the name that starts after a dollar sign, and how many characters it
  takes (no name and a width: bad syntax, which is eaten).
\<close>

definition special_var :: "char \<Rightarrow> bool" where
  "special_var c \<longleftrightarrow> c \<in> set ''*#$@!?-0123456789''"

definition alnum_char :: "char \<Rightarrow> bool" where
  "alnum_char c = (let n = of_char c :: nat in n = 95 \<or> (48 \<le> n \<and> n \<le> 57) \<or> (97 \<le> n \<and> n \<le> 122) \<or> (65 \<le> n \<and> n \<le> 90))"

definition shell_name :: "string \<Rightarrow> string \<times> nat" where
  "shell_name s =
     (if hd s = CHR ''{'' then
        (if length s > 2 \<and> special_var (s ! 1) \<and> s ! 2 = CHR ''}'' then ([s ! 1], 3)
         else case index_byte CHR ''}'' (tl s) of
             None \<Rightarrow> ([], 1)
           | Some i \<Rightarrow> if i = 0 then ([], 2) else (take i (tl s), i + 2))
      else if special_var (hd s) then ([hd s], 1)
      else (let w = takeWhile alnum_char s in (w, length w)))"

function os_expand :: "(string \<Rightarrow> string) \<Rightarrow> string \<Rightarrow> string" where
  "os_expand f [] = []"
| "os_expand f (c # s) =
     (if c = CHR ''$'' \<and> s \<noteq> [] then
        (case shell_name s of (name, w) \<Rightarrow>
           (if name = [] then (if w > 0 then [] else [c]) else f name) @ os_expand f (drop w s))
      else c # os_expand f s)"
  by pat_completeness auto

termination by (relation "measure (\<lambda>(f, s). length s)") auto

section \<open>Loading\<close>

datatype read_result = Missing | Unreadable string | FileData string

datatype load_error = NoFile string string | ReadFailed string | ParseFailed string string

text \<open>
  \<^verbatim>\<open>LoadFile\<close>: what is read into \<open>out\<close> (\<open>unmarshal\<close>: YAML). A missing file names the
  file and the environment.
\<close>

definition LoadFile :: "(string \<Rightarrow> read_result) \<Rightarrow> (string \<Rightarrow> 'o \<Rightarrow> string + 'o) \<Rightarrow> env \<Rightarrow> string \<Rightarrow> 'o \<Rightarrow> load_error + 'o" where
  "LoadFile read unmarshal env path out =
     (case read path of
        Missing \<Rightarrow> Inl (NoFile path (Env env))
      | Unreadable e \<Rightarrow> Inl (ReadFailed e)
      | FileData d \<Rightarrow>
          (case unmarshal (os_expand (Expand env) d) out of
             Inl e \<Rightarrow> Inl (ParseFailed path e)
           | Inr x \<Rightarrow> Inr x))"

text \<open>
  \<^verbatim>\<open>Dir\<close>: \<open>exe\<close> is the directory of the executable, when it is known; \<open>join\<close> is
  \<^verbatim>\<open>filepath.Join\<close>.
\<close>

definition dirs_tried :: "(string list \<Rightarrow> string) \<Rightarrow> string option \<Rightarrow> string list" where
  "dirs_tried join exe =
     ''conf'' # (case exe of None \<Rightarrow> [] | Some base \<Rightarrow> [join [base, ''conf''], join [base, ''..'', ''conf'']])"

definition Dir :: "(string list \<Rightarrow> string) \<Rightarrow> (string \<Rightarrow> bool) \<Rightarrow> string option \<Rightarrow> env \<Rightarrow> string list + string" where
  "Dir join is_dir exe env =
     (if env ''CONF_DIR'' \<noteq> [] then (if is_dir (env ''CONF_DIR'') then Inr (env ''CONF_DIR'') else Inl [env ''CONF_DIR''])
      else case find is_dir (dirs_tried join exe) of Some d \<Rightarrow> Inr d | None \<Rightarrow> Inl (dirs_tried join exe))"

section \<open>References expand once\<close>

lemma os_expand_plain: "CHR ''$'' \<notin> set s \<Longrightarrow> os_expand f (s @ t) = s @ os_expand f t"
  by (induction s) auto

definition ref_name :: "string \<Rightarrow> bool" where
  "ref_name n \<longleftrightarrow> n \<noteq> [] \<and> CHR ''}'' \<notin> set n"

lemma index_byte_hit: "c \<notin> set a \<Longrightarrow> index_byte c (a @ c # b) = Some (length a)"
  by (induction a) auto

lemma shell_name_ref: "ref_name n \<Longrightarrow> shell_name (''{'' @ n @ CHR ''}'' # t) = (n, length n + 2)"
proof -
  assume n: "ref_name n"
  then have i: "index_byte CHR ''}'' (n @ CHR ''}'' # t) = Some (length n)" by (simp add: ref_name_def index_byte_hit)
  show ?thesis
  proof (cases n)
    case Nil
    with n show ?thesis by (simp add: ref_name_def)
  next
    case (Cons c m)
    then show ?thesis using n i by (cases m) (auto simp: shell_name_def ref_name_def)
  qed
qed

lemma os_expand_ref:
  assumes "ref_name n"
  shows "os_expand f (''${'' @ n @ CHR ''}'' # t) = f n @ os_expand f t"
proof -
  have "drop (length n + 2) (''{'' @ n @ CHR ''}'' # t) = t" by simp
  with assms shell_name_ref [OF assms, of t] show ?thesis by (simp add: ref_name_def)
qed

text \<open>A file as text and references.\<close>

datatype piece = Lit string | Ref string

fun piece_text :: "piece \<Rightarrow> string" where
  "piece_text (Lit s) = s"
| "piece_text (Ref n) = ''${'' @ n @ ''}''"

fun piece_value :: "env \<Rightarrow> piece \<Rightarrow> string" where
  "piece_value env (Lit s) = s"
| "piece_value env (Ref n) = Expand env n"

fun piece_ok :: "piece \<Rightarrow> bool" where
  "piece_ok (Lit s) = (CHR ''$'' \<notin> set s)"
| "piece_ok (Ref n) = ref_name n"

lemma os_expand_pieces:
  "list_all piece_ok ps \<Longrightarrow> os_expand (Expand env) (concat (map piece_text ps)) = concat (map (piece_value env) ps)"
proof (induction ps)
  case (Cons p ps)
  then show ?case
  proof (cases p)
    case (Lit s)
    with Cons show ?thesis by (simp add: os_expand_plain)
  next
    case (Ref n)
    with Cons.prems have "ref_name n" by simp
    from os_expand_ref [OF this, of "Expand env" "concat (map piece_text ps)"] Ref Cons
    show ?thesis by (simp del: os_expand.simps)
  qed
qed simp

lemma cut_name: "CHR '':'' \<notin> set n \<Longrightarrow> cut (n @ '':-'' @ d) '':-'' = Some (n, d)"
  by (induction n) auto

lemma cut_no_colon: "CHR '':'' \<notin> set n \<Longrightarrow> cut n '':-'' = None"
  by (induction n) auto

lemma Expand_plain: "CHR '':'' \<notin> set n \<Longrightarrow> Expand env n = env n"
  by (simp add: Expand_def cut_no_colon)

lemma Expand_default: "CHR '':'' \<notin> set n \<Longrightarrow> Expand env (n @ '':-'' @ d) = (if env n \<noteq> [] then env n else d)"
  unfolding Expand_def by (subst cut_name) simp_all

section \<open>Properties\<close>

text \<open>
  A configuration file expands in one pass: its text stays as it is, every reference
  becomes the value of its variable or, unset or empty, its default, and a value is not
  expanded again, whatever it holds.
\<close>

lemma references_expand_once:
  assumes "list_all piece_ok ps"
  shows "os_expand (Expand env) (concat (map piece_text ps)) = concat (map (piece_value env) ps) \<and>
    (\<forall>name def. CHR '':'' \<notin> set name \<longrightarrow>
       piece_value env (Ref name) = env name \<and>
       piece_value env (Ref (name @ '':-'' @ def)) = (if env name \<noteq> [] then env name else def))"
  using os_expand_pieces [OF assms] Expand_plain Expand_default by simp

lemma references_expand_once_witness:
  "let env = (\<lambda>n. if n = ''DB'' then ''${PW}'' else [])
   in os_expand (Expand env) ''addr: ${DB:-x} port: ${PORT:-3306}'' = ''addr: ${PW} port: 3306''"
proof -
  let ?env = "\<lambda>n. if n = ''DB'' then ''${PW}'' else []"
  let ?ps = "[Lit ''addr: '', Ref (''DB'' @ '':-'' @ ''x''), Lit '' port: '', Ref (''PORT'' @ '':-'' @ ''3306'')]"
  have "list_all piece_ok ?ps" by (simp add: ref_name_def)
  then have "os_expand (Expand ?env) (concat (map piece_text ?ps)) = concat (map (piece_value ?env) ?ps)"
    using references_expand_once [of ?ps ?env] by blast
  moreover have "concat (map (piece_value ?env) ?ps) = ''addr: ${PW} port: 3306''" by (simp add: Expand_def)
  ultimately show ?thesis by (simp add: Let_def del: os_expand.simps)
qed

text \<open>A dollar sign in a value is a reference too, braces or not.\<close>

lemma bare_dollar_expands: "os_expand (Expand (\<lambda>_. [])) ''password: pa$word'' = ''password: pa''"
  by code_simp

end
