(* ===== verification/NetAddr.thy ===== *)
theory NetAddr
  imports Prelude
begin

text \<open>
  Addresses of the form \<^verbatim>\<open>host:port\<close>: the functions of Go's \<^verbatim>\<open>net\<close> package that the
  code takes them apart and puts them together with, and the settings that hold one:
  where a service listens and what it registers (\<^verbatim>\<open>kitexx/kitexx.go\<close>,
  \<^verbatim>\<open>nacosx/naming.go\<close>).
\<close>

section \<open>Host and port\<close>

definition last_index :: "char \<Rightarrow> string \<Rightarrow> nat option" where
  "last_index c s = map_option (\<lambda>i. length s - 1 - i) (index_byte c (rev s))"

text \<open>
  \<^verbatim>\<open>net.SplitHostPort\<close>: the port is what follows the last colon; a host with a colon
  stands in brackets.
\<close>

definition SplitHostPort :: "string \<Rightarrow> (string \<times> string) option" where
  "SplitHostPort s =
     (case last_index CHR '':'' s of
        None \<Rightarrow> None
      | Some i \<Rightarrow>
          if hd s = CHR ''['' then
            (case index_byte CHR '']'' s of
               None \<Rightarrow> None
             | Some e \<Rightarrow>
                 if Suc e = i \<and> CHR ''['' \<notin> set (drop 1 s) \<and> CHR '']'' \<notin> set (drop (Suc e) s)
                 then Some (take (e - 1) (drop 1 s), drop (Suc i) s) else None)
          else
            if CHR '':'' \<in> set (take i s) \<or> CHR ''['' \<in> set s \<or> CHR '']'' \<in> set s then None
            else Some (take i s, drop (Suc i) s))"

definition JoinHostPort :: "string \<Rightarrow> string \<Rightarrow> string" where
  "JoinHostPort host port =
     (if CHR '':'' \<in> set host then ''['' @ host @ '']:'' @ port else host @ '':'' @ port)"

lemma index_byte_append: "c \<notin> set a \<Longrightarrow> index_byte c (a @ c # b) = Some (length a)"
  by (induction a) auto

lemma index_byte_None: "index_byte c s = None \<longleftrightarrow> c \<notin> set s"
  by (induction s) auto

lemma last_index_append: "c \<notin> set b \<Longrightarrow> last_index c (a @ c # b) = Some (length a)"
  by (simp add: last_index_def index_byte_append)

lemma last_index_None: "last_index c s = None \<longleftrightarrow> c \<notin> set s"
  by (simp add: last_index_def index_byte_None)

lemma index_byte_Some: "index_byte c s = Some i \<Longrightarrow> \<exists>a b. s = a @ c # b \<and> c \<notin> set a \<and> length a = i"
proof (induction s arbitrary: i)
  case (Cons d s)
  show ?case
  proof (cases "d = c")
    case True
    with Cons.prems show ?thesis by (intro exI [of _ "[]"] exI [of _ s]) simp
  next
    case False
    with Cons.prems obtain j where "index_byte c s = Some j" "i = Suc j" by auto
    with Cons.IH obtain a b where "s = a @ c # b" "c \<notin> set a" "length a = j" by blast
    with False \<open>i = Suc j\<close> show ?thesis by (intro exI [of _ "d # a"] exI [of _ b]) simp
  qed
qed simp

lemma last_index_Some: "last_index c s = Some i \<Longrightarrow> \<exists>a b. s = a @ c # b \<and> c \<notin> set b \<and> length a = i"
proof -
  assume "last_index c s = Some i"
  then obtain j where j: "index_byte c (rev s) = Some j" and i: "i = length s - 1 - j" by (auto simp: last_index_def)
  from index_byte_Some [OF j] obtain a b where ab: "rev s = a @ c # b" "c \<notin> set a" "length a = j" by blast
  then have "s = rev b @ c # rev a" by (metis append.assoc append_Cons append_Nil rev.simps(2) rev_append rev_rev_ident)
  with ab i show ?thesis by (intro exI [of _ "rev b"] exI [of _ "rev a"]) simp
qed

definition plain_host :: "string \<Rightarrow> bool" where
  "plain_host h \<longleftrightarrow> CHR ''['' \<notin> set h \<and> CHR '']'' \<notin> set h"

text \<open>What is joined comes apart again.\<close>

lemma split_join_host_port:
  assumes "plain_host h" and "plain_host p" and "CHR '':'' \<notin> set p"
  shows "SplitHostPort (JoinHostPort h p) = Some (h, p)"
proof (cases "CHR '':'' \<in> set h")
  case True
  have i: "last_index CHR '':'' ((''['' @ h @ '']'') @ CHR '':'' # p) = Some (length (''['' @ h @ '']''))"
    using assms by (intro last_index_append)
  have e: "index_byte CHR '']'' ((''['' @ h) @ CHR '']'' # '':'' @ p) = Some (length (''['' @ h))"
    using assms by (intro index_byte_append) (simp add: plain_host_def)
  from True assms i e show ?thesis by (simp add: SplitHostPort_def JoinHostPort_def plain_host_def)
next
  case False
  have i: "last_index CHR '':'' (h @ CHR '':'' # p) = Some (length h)" using assms by (intro last_index_append)
  moreover have "hd (h @ CHR '':'' # p) \<noteq> CHR ''[''" using assms by (cases h) (auto simp: plain_host_def)
  ultimately show ?thesis using False assms by (simp add: SplitHostPort_def JoinHostPort_def plain_host_def)
qed

text \<open>What comes apart has such a host and port.\<close>

lemma SplitHostPort_plain:
  assumes "SplitHostPort s = Some (h, p)"
  shows "plain_host h \<and> plain_host p \<and> CHR '':'' \<notin> set p"
proof -
  from assms obtain i where i: "last_index CHR '':'' s = Some i" by (auto simp: SplitHostPort_def split: option.splits)
  from last_index_Some [OF i] obtain a b where s: "s = a @ CHR '':'' # b" and nb: "CHR '':'' \<notin> set b" and la: "length a = i" by blast
  show ?thesis
  proof (cases "hd s = CHR ''[''")
    case False
    with assms i s nb la show ?thesis by (auto simp: SplitHostPort_def plain_host_def split: if_splits)
  next
    case True
    with assms i obtain e where e: "index_byte CHR '']'' s = Some e"
      and c: "Suc e = i" "CHR ''['' \<notin> set (drop 1 s)" "CHR '']'' \<notin> set (drop (Suc e) s)"
      and hp: "h = take (e - 1) (drop 1 s)" "p = drop (Suc i) s"
      by (auto simp: SplitHostPort_def split: option.splits if_splits)
    from index_byte_Some [OF e] obtain u v where uv: "s = u @ CHR '']'' # v" "CHR '']'' \<notin> set u" "length u = e" by blast
    from True uv obtain u' where u: "u = CHR ''['' # u'" by (cases u) auto
    with uv have h: "h = u'" using hp(1) by simp
    have p: "p = b" using hp(2) s la by simp
    from c(1) have "drop (Suc e) s = CHR '':'' # b" using s la by simp
    with c(3) p have "CHR '']'' \<notin> set p" by simp
    moreover have "CHR ''['' \<notin> set p" using c(2) s la c(1) p by (cases a) auto
    moreover have "CHR ''['' \<notin> set h" "CHR '']'' \<notin> set h" using c(2) uv u h by auto
    ultimately show ?thesis using nb p by (simp add: plain_host_def)
  qed
qed

section \<open>Where a service listens\<close>

definition normalizeAddr :: "string \<Rightarrow> string" where
  "normalizeAddr v =
     (let v = trim_space v; v = (if v = [] then ''8888'' else v)
      in if CHR '':'' \<in> set v then v else CHR '':'' # v)"

definition port_number :: "string \<Rightarrow> int option" where
  "port_number p = (case parse_int64 p of None \<Rightarrow> None | Some n \<Rightarrow> if n < 1 \<or> n > 65535 then None else Some n)"

datatype addr_error = NotHostPort string | BadPort string string | NotResolved string | NoHost string

text \<open>\<^verbatim>\<open>ListenAddr\<close>; \<open>resolve\<close> is \<^verbatim>\<open>net.ResolveTCPAddr\<close>, which asks the network.\<close>

definition ListenAddr :: "(string \<Rightarrow> 'a option) \<Rightarrow> string \<Rightarrow> addr_error + 'a" where
  "ListenAddr resolve v =
     (let norm = normalizeAddr v
      in case SplitHostPort norm of
           None \<Rightarrow> Inl (NotHostPort v)
         | Some (_, port) \<Rightarrow>
             (case port_number port of
                None \<Rightarrow> Inl (BadPort v port)
              | Some _ \<Rightarrow> (case resolve norm of None \<Rightarrow> Inl (NotResolved v) | Some a \<Rightarrow> Inr a)))"

definition callbacks_ListenAddr :: "(string \<Rightarrow> 'a option) \<Rightarrow> string \<Rightarrow> addr_error + 'a" where
  "callbacks_ListenAddr resolve a =
     (let a = trim_space a in ListenAddr resolve (if a = [] then ''8081'' else a))"

text \<open>\<^verbatim>\<open>advertiseAddr\<close>: \<open>Inr None\<close> when nothing is set. \<open>is_ip\<close>: \<^verbatim>\<open>net.ParseIP\<close> succeeds.\<close>

definition advertiseAddr :: "(string \<Rightarrow> bool) \<Rightarrow> string \<Rightarrow> int \<Rightarrow> addr_error + string option" where
  "advertiseAddr is_ip v listen_port =
     (let v = trim_space v
      in if v = [] then Inr None
         else if SplitHostPort v = None \<and> CHR '':'' \<in> set v \<and> \<not> is_ip v then Inl (NotHostPort v)
         else case (case SplitHostPort v of Some hp \<Rightarrow> hp | None \<Rightarrow> (v, show_int listen_port)) of
             (host, port) \<Rightarrow>
               if port_number port = None then Inl (BadPort v port)
               else if host = [] \<or> host = ''0.0.0.0'' \<or> host = ''::'' then Inl (NoHost v)
               else Inr (Some (JoinHostPort host port)))"

text \<open>
  \<^verbatim>\<open>instanceAddr\<close> of a registration; \<open>own\<close>: the address this machine reaches Nacos from,
  or its first address that is no loopback (\<^verbatim>\<open>outboundIP\<close>, \<^verbatim>\<open>localIPv4\<close>).
\<close>

definition parse_uint16 :: "string \<Rightarrow> nat option" where
  "parse_uint16 p = (case parse_nat p of None \<Rightarrow> None | Some n \<Rightarrow> if n < 2 ^ 16 then Some n else None)"

definition instanceAddr :: "string option \<Rightarrow> string \<Rightarrow> addr_error + string \<times> nat" where
  "instanceAddr own a =
     (case SplitHostPort a of
        None \<Rightarrow> Inl (NotHostPort a)
      | Some (host, port) \<Rightarrow>
          (case parse_uint16 port of
             None \<Rightarrow> Inl (BadPort a port)
           | Some n \<Rightarrow>
               if n = 0 then Inl (BadPort a port)
               else if host = [] \<or> host = ''::'' \<or> host = ''0.0.0.0''
               then (case own of None \<Rightarrow> Inl (NoHost a) | Some h \<Rightarrow> Inr (h, n))
               else Inr (host, n)))"

section \<open>What is registered\<close>

lemma port_number_range: "port_number p = Some n \<Longrightarrow> 1 \<le> n \<and> n \<le> 65535"
  by (auto simp: port_number_def split: option.splits if_splits)

lemma parse_uint16_range: "parse_uint16 p = Some n \<Longrightarrow> n < 2 ^ 16"
  by (auto simp: parse_uint16_def split: option.splits if_splits)

lemma ListenAddr_port:
  assumes "ListenAddr resolve v = Inr a"
  obtains h p n where "SplitHostPort (normalizeAddr v) = Some (h, p)" and "port_number p = Some n" and "resolve (normalizeAddr v) = Some a"
  using assms that by (auto simp: ListenAddr_def Let_def split: option.splits)

lemma show_int_brackets: "c = CHR ''['' \<or> c = CHR '']'' \<Longrightarrow> c \<notin> set (show_int i)"
proof -
  have "char_digit CHR ''['' = None" "char_digit CHR '']'' = None" by (simp_all add: char_digit_def)
  then have dig: "d < 10 \<Longrightarrow> digit_char d \<noteq> CHR ''['' \<and> digit_char d \<noteq> CHR '']''" for d
    by (metis char_digit_digit_char option.distinct(1))
  have nat: "c = CHR ''['' \<or> c = CHR '']'' \<Longrightarrow> c \<notin> set (show_nat n)" for c n
    using set_show_nat [of c n] dig by metis
  assume "c = CHR ''['' \<or> c = CHR '']''"
  with nat show ?thesis by (auto simp: show_int_def)
qed

definition wildcard :: "string \<Rightarrow> bool" where
  "wildcard h \<longleftrightarrow> h = [] \<or> h = ''::'' \<or> h = ''0.0.0.0''"

text \<open>
  An advertised host is never replaced by the machine's own address: what is registered is
  the host and the port that were written, whatever the machine's own addresses are.
\<close>

lemma advertised_is_registered:
  assumes adv: "advertiseAddr is_ip v listen_port = Inr (Some a)"
    and plain: "plain_host (trim_space v) \<or> SplitHostPort (trim_space v) \<noteq> None"
    and reg: "instanceAddr own a = Inr (h, n)"
  shows "\<not> wildcard h \<and> (\<exists>port. a = JoinHostPort h port \<and> parse_uint16 port = Some n \<and>
    (SplitHostPort (trim_space v) = Some (h, port) \<or> h = trim_space v \<and> port = show_int listen_port))"
proof -
  from adv obtain host port where hp: "(host, port) = (case SplitHostPort (trim_space v) of Some hp \<Rightarrow> hp | None \<Rightarrow> (trim_space v, show_int listen_port))"
    and a: "a = JoinHostPort host port" and w: "\<not> wildcard host"
    by (auto simp: advertiseAddr_def Let_def wildcard_def split: if_splits prod.splits)
  have pl: "plain_host host \<and> plain_host port \<and> CHR '':'' \<notin> set port"
  proof (cases "SplitHostPort (trim_space v)")
    case None
    with hp plain show ?thesis using show_int_brackets by (auto simp: plain_host_def)
  next
    case (Some x)
    with hp SplitHostPort_plain [of "trim_space v" host port] show ?thesis by simp
  qed
  then have "SplitHostPort a = Some (host, port)" unfolding a by (intro split_join_host_port) simp_all
  with reg w have "h = host" "parse_uint16 port = Some n"
    by (auto simp: instanceAddr_def wildcard_def split: option.splits if_splits)
  with hp a w show ?thesis by (cases "SplitHostPort (trim_space v)") auto
qed

end
