(* ===== verification/Takeover.thy ===== *)
theory Takeover
  imports Config NetAddr Complex_Main
begin

text \<open>
  Takeover mode (\<^verbatim>\<open>config/takeover.go\<close>, \<^verbatim>\<open>kitexx/devroute.go\<close>): a service on a
  developer's machine that finds a fresh marker of itself runs against the environment the
  tool has tunnelled. The marker is read once; what it changes of the process (its
  variables, its profile, its addresses, its configuration), and whether the process
  registers itself (\<^verbatim>\<open>nacosx/nacosx.go\<close>, \<^verbatim>\<open>nacosx/naming.go\<close>). Paths, files and the
  JSON of a marker are arguments. Times are milliseconds.
\<close>

section \<open>The marker\<close>

record marker =
  tm_Service :: string
  tm_Tag :: string
  tm_Env :: string
  tm_Heartbeat :: int
  tm_EnvVars :: "(string \<times> string) list"
  tm_Rewrite :: "(string \<times> string) list"
  tm_Services :: "string \<Rightarrow> string option"
  tm_Path :: string

record ack =
  ta_Service :: string
  ta_Tag :: string
  ta_PID :: int
  ta_Since :: int

text \<open>Go's \<^verbatim>\<open>filepath\<close>, the file system and the JSON of a marker.\<close>

record host_lib =
  hl_join :: "string list \<Rightarrow> string"
  hl_parent :: "string \<Rightarrow> string"
  hl_base :: "string \<Rightarrow> string"
  hl_abs :: "string \<Rightarrow> string option"
  hl_is_dir :: "string \<Rightarrow> bool"
  hl_exe :: "string option"
  hl_read :: "string \<Rightarrow> string option"
  hl_marker :: "string \<Rightarrow> marker option"
  hl_pid :: int

datatype ignored = NoNote | WrongEnv string | Incomplete string | OtherService string string | StaleBy int

definition TakeoverFresh :: int where "TakeoverFresh = 15000"

definition service_dir :: "host_lib \<Rightarrow> env \<Rightarrow> string option" where
  "service_dir L env =
     (case Dir (hl_join L) (hl_is_dir L) (hl_exe L) env of
        Inl _ \<Rightarrow> None
      | Inr d \<Rightarrow> Some (hl_parent L (case hl_abs L d of Some a \<Rightarrow> a | None \<Rightarrow> d)))"

definition marker_path :: "host_lib \<Rightarrow> string \<Rightarrow> string" where
  "marker_path L sdir = hl_join L [sdir, ''.devkit/takeover.json'']"

text \<open>\<open>None\<close>: no marker, and nothing to say.\<close>

definition read_marker :: "host_lib \<Rightarrow> env \<Rightarrow> int \<Rightarrow> (ignored + marker) option" where
  "read_marker L env now =
     (case service_dir L env of
        None \<Rightarrow> None
      | Some sdir \<Rightarrow>
          (case hl_read L (marker_path L sdir) of
             None \<Rightarrow> None
           | Some b \<Rightarrow>
               if env ''APP_ENV'' \<noteq> [] \<and> env ''APP_ENV'' \<noteq> ''local'' then Some (Inl (WrongEnv (env ''APP_ENV'')))
               else (case hl_marker L b of
                   None \<Rightarrow> Some (Inl (Incomplete (marker_path L sdir)))
                 | Some m \<Rightarrow>
                     if tm_Service m = [] \<or> tm_Env m = [] then Some (Inl (Incomplete (marker_path L sdir)))
                     else if tm_Service m \<noteq> hl_base L sdir then Some (Inl (OtherService (tm_Service m) (hl_base L sdir)))
                     else if now - tm_Heartbeat m > TakeoverFresh then Some (Inl (StaleBy (now - tm_Heartbeat m)))
                     else Some (Inr (m\<lparr>tm_Path := marker_path L sdir\<rparr>)))))"

fun set_missing :: "(string \<times> string) list \<Rightarrow> env \<Rightarrow> env" where
  "set_missing [] env = env"
| "set_missing ((k, v) # l) env = set_missing l (if env k = [] then env(k := v) else env)"

section \<open>The process\<close>

text \<open>\<open>pr_off\<close>: \<^verbatim>\<open>DisableTakeover\<close> was called. \<open>pr_acks\<close>: the acknowledgements written.\<close>

record own_process =
  pr_env :: env
  pr_off :: bool
  pr_once :: bool
  pr_marker :: "marker option"
  pr_note :: ignored
  pr_acks :: "(string \<times> ack) list"

definition new_process :: "env \<Rightarrow> own_process" where
  "new_process env = \<lparr>pr_env = env, pr_off = False, pr_once = False, pr_marker = None, pr_note = NoNote, pr_acks = []\<rparr>"

definition take_marker :: "host_lib \<Rightarrow> int \<Rightarrow> own_process \<Rightarrow> own_process" where
  "take_marker L now st =
     (let st = st\<lparr>pr_once := True\<rparr>
      in case read_marker L (pr_env st) now of
           None \<Rightarrow> st
         | Some (Inl why) \<Rightarrow> st\<lparr>pr_note := why\<rparr>
         | Some (Inr m) \<Rightarrow>
             st\<lparr>pr_env := set_missing (tm_EnvVars m) (pr_env st), pr_marker := Some m,
               pr_acks := (tm_Path m @ ''.ack'',
                 \<lparr>ta_Service = tm_Service m, ta_Tag = tm_Tag m, ta_PID = hl_pid L, ta_Since = now\<rparr>) # pr_acks st\<rparr>)"

definition Takeover :: "host_lib \<Rightarrow> int \<Rightarrow> own_process \<Rightarrow> marker option \<times> own_process" where
  "Takeover L now st =
     (if pr_off st then (None, st)
      else let st = (if pr_once st then st else take_marker L now st) in (pr_marker st, st))"

definition TakeoverIgnored :: "host_lib \<Rightarrow> int \<Rightarrow> own_process \<Rightarrow> ignored \<times> own_process" where
  "TakeoverIgnored L now st = (let st = snd (Takeover L now st) in (pr_note st, st))"

definition DisableTakeover :: "own_process \<Rightarrow> own_process" where
  "DisableTakeover st = st\<lparr>pr_off := True\<rparr>"

section \<open>Addresses\<close>

definition config_normalizeAddr :: "string \<Rightarrow> string" where
  "config_normalizeAddr a =
     (let a = trim_space a
      in case SplitHostPort a of
           None \<Rightarrow> to_lower (trim_suffix a ''.'')
         | Some (host, port) \<Rightarrow> JoinHostPort (to_lower (trim_suffix host ''.'')) port)"

definition rewrite_by :: "marker option \<Rightarrow> string \<Rightarrow> string" where
  "rewrite_by m a =
     (case m of
        None \<Rightarrow> a
      | Some m \<Rightarrow> if tm_Rewrite m = [] then a
          else (case map_of (tm_Rewrite m) (config_normalizeAddr a) of Some to \<Rightarrow> to | None \<Rightarrow> a))"

definition RewriteAddr :: "host_lib \<Rightarrow> int \<Rightarrow> string \<Rightarrow> own_process \<Rightarrow> string \<times> own_process" where
  "RewriteAddr L now a st = (case Takeover L now st of (m, st) \<Rightarrow> (rewrite_by m a, st))"

text \<open>\<^verbatim>\<open>net/url\<close>: parsing, the host of a URL, and its text with another host.\<close>

record 'u url_lib =
  ul_parse :: "string \<Rightarrow> 'u option"
  ul_host :: "'u \<Rightarrow> string"
  ul_text :: "'u \<Rightarrow> string \<Rightarrow> string"

definition rewrite_url_by :: "'u url_lib \<Rightarrow> marker option \<Rightarrow> string \<Rightarrow> string" where
  "rewrite_url_by U m u =
     (case m of
        None \<Rightarrow> u
      | Some mk \<Rightarrow> if tm_Rewrite mk = [] then u
          else (case ul_parse U u of
              None \<Rightarrow> rewrite_by m u
            | Some p \<Rightarrow>
                if ul_host U p = [] then rewrite_by m u
                else let to = rewrite_by m (ul_host U p) in if to = ul_host U p then u else ul_text U p to))"

definition RewriteURL :: "'u url_lib \<Rightarrow> host_lib \<Rightarrow> int \<Rightarrow> string \<Rightarrow> own_process \<Rightarrow> string \<times> own_process" where
  "RewriteURL U L now u st = (case Takeover L now st of (m, st) \<Rightarrow> (rewrite_url_by U m u, st))"

section \<open>The configuration\<close>

text \<open>\<^verbatim>\<open>Load\<close>: the profile the marker names, else that of the environment.\<close>

definition Load ::
  "host_lib \<Rightarrow> (string \<Rightarrow> read_result) \<Rightarrow> (string \<Rightarrow> 'o \<Rightarrow> string + 'o) \<Rightarrow> int \<Rightarrow> string \<Rightarrow> 'o \<Rightarrow> own_process \<Rightarrow>
     (load_error + 'o) \<times> own_process" where
  "Load L read unmarshal now dir out st =
     (let profile = Env (pr_env st)
      in case Takeover L now st of
           (m, st) \<Rightarrow>
             let p = (case m of None \<Rightarrow> [] | Some m \<Rightarrow> tm_Env m); profile = (if p \<noteq> [] then p else profile)
             in (LoadFile read unmarshal (pr_env st) (hl_join L [dir, profile @ ''.yaml'']) out, st))"

text \<open>What of a service's configuration takeover mode touches.\<close>

record svc_conf =
  sc_name :: string
  sc_nacos_addrs :: "string list"
  sc_register :: "bool option"
  sc_metrics :: bool
  sc_devroute :: "bool option"

definition applyTakeover :: "marker option \<Rightarrow> svc_conf \<Rightarrow> svc_conf" where
  "applyTakeover m cfg =
     (case m of
        None \<Rightarrow> cfg
      | Some m \<Rightarrow> if tm_Service m \<noteq> sc_name cfg then cfg else cfg\<lparr>sc_register := Some False, sc_metrics := False\<rparr>)"

definition inTakeover :: "marker option \<Rightarrow> svc_conf \<Rightarrow> bool" where
  "inTakeover m cfg \<longleftrightarrow> (case m of None \<Rightarrow> False | Some m \<Rightarrow> tm_Service m = sc_name cfg)"

text \<open>\<^verbatim>\<open>devroute.Config.Enabled\<close>.\<close>

definition devroute_Enabled :: "env \<Rightarrow> marker option \<Rightarrow> bool option \<Rightarrow> bool" where
  "devroute_Enabled env m on = (case on of Some b \<Rightarrow> b | None \<Rightarrow> Env env = ''dev'' \<or> m \<noteq> None)"

section \<open>Registering\<close>

definition Registers :: "svc_conf \<Rightarrow> bool" where
  "Registers cfg \<longleftrightarrow> (case sc_register cfg of None \<Rightarrow> True | Some b \<Rightarrow> b)"

text \<open>\<open>loop_ip\<close>: the text is an IP address that is a loopback.\<close>

definition trim_brackets :: "string \<Rightarrow> string" where
  "trim_brackets s = (let b = (\<lambda>c. c = CHR ''['' \<or> c = CHR '']'') in rev (dropWhile b (rev (dropWhile b s))))"

definition isLoopback :: "(string \<Rightarrow> bool) \<Rightarrow> string \<Rightarrow> bool" where
  "isLoopback loop_ip a =
     (let host = (case SplitHostPort a of Some (h, _) \<Rightarrow> h | None \<Rightarrow> a)
      in to_lower host = ''localhost'' \<or> loop_ip (trim_brackets host))"

definition CheckRegistration :: "(string \<Rightarrow> bool) \<Rightarrow> env \<Rightarrow> svc_conf \<Rightarrow> string option" where
  "CheckRegistration loop_ip env cfg =
     (if \<not> Registers cfg \<or> \<not> IsLocal env then None else find (\<lambda>a. \<not> isLoopback loop_ip a) (sc_nacos_addrs cfg))"

text \<open>
  \<^verbatim>\<open>Client.Register\<close> up to the request: refused, not wanted, or what Nacos is asked for.
\<close>

datatype registering = Refused string | NotWanted | Asked string string nat rat

definition Register :: "(string \<Rightarrow> bool) \<Rightarrow> string option \<Rightarrow> env \<Rightarrow> bool \<Rightarrow> svc_conf \<Rightarrow> string \<Rightarrow> string \<Rightarrow> rat \<Rightarrow> registering" where
  "Register loop_ip own env offline cfg service a weight =
     (if service = [] then Refused ''Registration.Service is empty''
      else if offline then NotWanted
      else if \<not> Registers cfg then NotWanted
      else case CheckRegistration loop_ip env cfg of
          Some bad \<Rightarrow> Refused bad
        | None \<Rightarrow>
            (case instanceAddr own a of
               Inl _ \<Rightarrow> Refused a
             | Inr (ip, port) \<Rightarrow> Asked service ip port (if weight \<le> 0 then 10 else weight)))"

section \<open>Lemmas\<close>

lemma set_missing_keeps: "env k \<noteq> [] \<Longrightarrow> set_missing l env k = env k"
proof (induction l env rule: set_missing.induct)
  case (2 k' v l env)
  then have "(if env k' = [] then env(k' := v) else env) k \<noteq> []" by auto
  with 2 have "set_missing ((k', v) # l) env k = (if env k' = [] then env(k' := v) else env) k" by simp
  with 2 show ?case by (auto split: if_splits)
qed simp

lemma set_missing_other: "k \<notin> fst ` set l \<Longrightarrow> set_missing l env k = env k"
proof (induction l env rule: set_missing.induct)
  case (2 k' v l env)
  then show ?case by (cases "env k' = []") (auto simp: fun_upd_def)
qed simp

lemma read_markerE:
  assumes "read_marker L env now = Some (Inr m)"
  obtains sdir b m0 where "service_dir L env = Some sdir" and "hl_read L (marker_path L sdir) = Some b"
    and "env ''APP_ENV'' = [] \<or> env ''APP_ENV'' = ''local''" and "hl_marker L b = Some m0"
    and "m = m0\<lparr>tm_Path := marker_path L sdir\<rparr>" and "tm_Service m = hl_base L sdir" and "tm_Env m \<noteq> []"
    and "now - tm_Heartbeat m \<le> TakeoverFresh"
  using assms that by (auto simp: read_marker_def Let_def split: option.splits if_splits)

text \<open>In an environment, no marker is taken, whatever it says.\<close>

lemma read_marker_deployed:
  "env ''APP_ENV'' \<noteq> [] \<Longrightarrow> env ''APP_ENV'' \<noteq> ''local'' \<Longrightarrow> read_marker L env now = None \<or> (\<exists>why. read_marker L env now = Some (Inl why))"
  by (auto simp: read_marker_def split: option.split)

lemma Takeover_again: "Takeover L now st = (m, st') \<Longrightarrow> Takeover L' now' st' = (m, st')"
  by (auto simp: Takeover_def take_marker_def Let_def split: if_splits option.splits sum.splits)

lemma Takeover_some:
  assumes "Takeover L now (new_process env) = (Some m, st)"
  shows "read_marker L env now = Some (Inr m) \<and> pr_env st = set_missing (tm_EnvVars m) env \<and> pr_marker st = Some m \<and>
    pr_acks st = [(tm_Path m @ ''.ack'', \<lparr>ta_Service = tm_Service m, ta_Tag = tm_Tag m, ta_PID = hl_pid L, ta_Since = now\<rparr>)]"
  using assms by (auto simp: Takeover_def take_marker_def new_process_def Let_def split: option.splits sum.splits)

lemma Takeover_none:
  assumes "Takeover L now (new_process env) = (None, st)"
  shows "pr_env st = env \<and> pr_acks st = [] \<and> pr_marker st = None \<and> pr_once st"
  using assms by (auto simp: Takeover_def take_marker_def new_process_def Let_def split: option.splits sum.splits)

lemma rewrite_by_None [simp]: "rewrite_by None a = a"
  by (simp add: rewrite_by_def)

lemma rewrite_url_by_None [simp]: "rewrite_url_by U None u = u"
  by (simp add: rewrite_url_by_def)

lemma Asked_needs:
  assumes "Register loop_ip own env offline cfg service a weight = Asked sv ip port wt"
  shows "Registers cfg \<and> (\<not> IsLocal env \<or> list_all (isLoopback loop_ip) (sc_nacos_addrs cfg))"
  using assms by (auto simp: Register_def CheckRegistration_def find_None_iff list_all_iff split: if_splits option.splits sum.splits)

section \<open>A developer's machine\<close>

text \<open>
  A machine with one service in \<^verbatim>\<open>/w/order\<close>, started there, and the tool's marker beside
  its \<^verbatim>\<open>conf\<close>.
\<close>

definition dev_machine :: "string \<Rightarrow> marker \<Rightarrow> host_lib" where
  "dev_machine dirname m =
     \<lparr>hl_join = go_join ''/'', hl_parent = (\<lambda>_. ''/w/'' @ dirname), hl_base = (\<lambda>_. dirname), hl_abs = (\<lambda>_. None),
      hl_is_dir = (\<lambda>_. True), hl_exe = None, hl_read = (\<lambda>_. Some ''marker''), hl_marker = (\<lambda>_. Some m), hl_pid = 7\<rparr>"

definition dev_marker :: "string \<Rightarrow> marker" where
  "dev_marker service =
     \<lparr>tm_Service = service, tm_Tag = ''alice'', tm_Env = ''dev'', tm_Heartbeat = 1000,
      tm_EnvVars = [(''DB_PW'', ''s'')], tm_Rewrite = [(''10.2.0.7:8848'', ''127.0.0.1:40001'')],
      tm_Services = Map.empty, tm_Path = []\<rparr>"

lemma dev_machine_reads:
  "name \<noteq> [] \<Longrightarrow> Takeover (dev_machine name (dev_marker name)) 2000 (new_process (\<lambda>_. [])) =
     (Some (dev_marker name\<lparr>tm_Path := ''/w/'' @ name @ ''/.devkit/takeover.json''\<rparr>),
      \<lparr>pr_env = (\<lambda>_. [])(''DB_PW'' := ''s''), pr_off = False, pr_once = True,
       pr_marker = Some (dev_marker name\<lparr>tm_Path := ''/w/'' @ name @ ''/.devkit/takeover.json''\<rparr>), pr_note = NoNote,
       pr_acks = [((''/w/'' @ name @ ''/.devkit/takeover.json'') @ ''.ack'', \<lparr>ta_Service = name, ta_Tag = ''alice'', ta_PID = 7, ta_Since = 2000\<rparr>)]\<rparr>)"
  by (simp add: Takeover_def take_marker_def new_process_def Let_def read_marker_def service_dir_def Dir_def dirs_tried_def
      marker_path_def dev_machine_def dev_marker_def TakeoverFresh_def)

text \<open>
  The marker is for the directory; the service checks its own name against it once more and
  says it ignores a marker of another name. By then the process reads the environment's
  profile and its addresses are the tunnels': it runs against the environment with all of its
  workers, and it registers, the Nacos at the end of a tunnel being on this machine.
\<close>

lemma half_a_takeover:
  "let L = dev_machine ''order'' (dev_marker ''order'');
       cfg = \<lparr>sc_name = ''ser-order'', sc_nacos_addrs = [''127.0.0.1:40001''], sc_register = None, sc_metrics = True, sc_devroute = None\<rparr>
   in case Takeover L 2000 (new_process (\<lambda>_. [])) of
        (m, st) \<Rightarrow> applyTakeover m cfg = cfg \<and> \<not> inTakeover m cfg \<and> rewrite_by m ''10.2.0.7:8848'' = ''127.0.0.1:40001'' \<and>
          Register (\<lambda>h. h = ''127.0.0.1'') (Some ''192.168.0.9'') (pr_env st) False (applyTakeover m cfg) ''ser-order'' '':8888'' 10 =
            Asked ''ser-order'' ''192.168.0.9'' 8888 10"
proof -
  have key: "config_normalizeAddr ''10.2.0.7:8848'' = ''10.2.0.7:8848''" by code_simp
  have split: "SplitHostPort '':8888'' = Some ([], ''8888'')" by code_simp
  have "parse_uint16 ''8888'' = Some 8888" by (simp add: parse_uint16_def parse_nat_def char_digit_def)
  with split have addr: "instanceAddr (Some ''192.168.0.9'') '':8888'' = Inr (''192.168.0.9'', 8888)" by (simp add: instanceAddr_def)
  have loop: "isLoopback (\<lambda>h. h = ''127.0.0.1'') ''127.0.0.1:40001''" by code_simp
  have nonempty: "''order'' \<noteq> ([] :: string)" by simp
  show ?thesis
    unfolding Let_def dev_machine_reads [OF nonempty] prod.case
    by (simp add: applyTakeover_def inTakeover_def rewrite_by_def Register_def CheckRegistration_def
        Registers_def key addr loop dev_marker_def)
qed

section \<open>Properties\<close>

text \<open>
  A process goes into takeover mode only on a developer's machine, with a marker that
  lies beside its configuration, names the directory it lies in and was refreshed in the
  last fifteen seconds; the acknowledgement it writes names that service; a variable that
  was set keeps its value and only those of the marker are set; and the decision is never
  made again.
\<close>

lemma takeover_needs_its_marker:
  assumes taken: "Takeover L now (new_process env) = (Some m, st)"
  shows "(env ''APP_ENV'' = [] \<or> env ''APP_ENV'' = ''local'') \<and>
    (\<exists>sdir b m0. service_dir L env = Some sdir \<and> hl_read L (marker_path L sdir) = Some b \<and> hl_marker L b = Some m0 \<and>
       m = m0\<lparr>tm_Path := marker_path L sdir\<rparr> \<and> tm_Service m = hl_base L sdir) \<and>
    now - tm_Heartbeat m \<le> 15000 \<and>
    map (ta_Service \<circ> snd) (pr_acks st) = [tm_Service m] \<and>
    (\<forall>k. env k \<noteq> [] \<or> k \<notin> fst ` set (tm_EnvVars m) \<longrightarrow> pr_env st k = env k) \<and>
    Takeover L' now' st = (Some m, st)"
proof -
  note t = Takeover_some [OF taken]
  from t have "read_marker L env now = Some (Inr m)" by simp
  then show ?thesis
  proof (rule read_markerE)
    fix sdir b m0
    assume r: "service_dir L env = Some sdir" "hl_read L (marker_path L sdir) = Some b"
      "env ''APP_ENV'' = [] \<or> env ''APP_ENV'' = ''local''" "hl_marker L b = Some m0"
      "m = m0\<lparr>tm_Path := marker_path L sdir\<rparr>" "tm_Service m = hl_base L sdir" "now - tm_Heartbeat m \<le> TakeoverFresh"
    have "\<forall>k. env k \<noteq> [] \<or> k \<notin> fst ` set (tm_EnvVars m) \<longrightarrow> pr_env st k = env k"
      using t set_missing_keeps set_missing_other by metis
    moreover have "map (ta_Service \<circ> snd) (pr_acks st) = [tm_Service m]" using t by simp
    ultimately show ?thesis
      using r Takeover_again [OF taken, of L' now'] unfolding TakeoverFresh_def by blast
  qed
qed

lemma takeover_needs_its_marker_witness:
  "\<exists>m st. Takeover (dev_machine ''order'' (dev_marker ''order'')) 2000 (new_process (\<lambda>_. [])) = (Some m, st) \<and>
     map (ta_Service \<circ> snd) (pr_acks st) = [''order''] \<and> 2000 - tm_Heartbeat m \<le> 15000"
  using takeover_needs_its_marker [OF dev_machine_reads [of "''order''"]] dev_machine_reads [of "''order''"]
  by (auto simp: dev_marker_def)

text \<open>
  A deployment never takes over. With \<^verbatim>\<open>APP_ENV\<close> set to an environment, whatever
  files lie around, the process reads the profile of its environment with the variables it
  was given, uses every address as it is written, and tagged routing is on only in dev or
  where the configuration says so.
\<close>

lemma deployment_is_untouched:
  assumes "env ''APP_ENV'' = e" and "e \<noteq> []" and "e \<noteq> ''local''"
  shows "fst (Load L read unmarshal now dir out (new_process env)) = LoadFile read unmarshal env (hl_join L [dir, e @ ''.yaml'']) out \<and>
    fst (RewriteAddr L now a (new_process env)) = a \<and> fst (RewriteURL U L now u (new_process env)) = u \<and>
    (case Takeover L now (new_process env) of (m, st) \<Rightarrow>
       applyTakeover m cfg = cfg \<and> pr_env st = env \<and> pr_acks st = [] \<and>
       devroute_Enabled (pr_env st) m on = (case on of Some b \<Rightarrow> b | None \<Rightarrow> e = ''dev''))"
proof -
  obtain m st where t: "Takeover L now (new_process env) = (m, st)" by fastforce
  have m: "m = None"
  proof (cases m)
    case (Some mk)
    with t Takeover_some [of L now env mk st] read_marker_deployed [of env L now] assms show ?thesis by auto
  qed simp
  with t Takeover_none [of L now env st] have "pr_env st = env" "pr_acks st = []" by auto
  with t m assms show ?thesis
    by (auto simp: Load_def RewriteAddr_def RewriteURL_def applyTakeover_def devroute_Enabled_def Env_def new_process_def split: option.split)
qed

theorem deployment_is_untouched_witness:
  "fst (RewriteAddr (dev_machine ''order'' (dev_marker ''order'')) 2000 ''10.2.0.7:8848''
     (new_process (\<lambda>k. if k = ''APP_ENV'' then ''uat'' else []))) = ''10.2.0.7:8848''"
  by (rule deployment_is_untouched [where e = "''uat''", THEN conjunct2, THEN conjunct1]) simp_all

text \<open>
  C24. A developer's machine keeps to itself. A process started there asks Nacos to list it
  only when it is not in takeover mode and every Nacos it knows is on that machine, provided
  the directory of the service has the service's name.
\<close>

theorem laptop_keeps_to_itself:
  assumes lap: "env ''APP_ENV'' = [] \<or> env ''APP_ENV'' = ''local''"
    and name: "service_dir L env = Some sdir" "hl_base L sdir = sc_name cfg"
    and t: "Takeover L now (new_process env) = (m, st)"
    and asked: "Register loop_ip own (pr_env st) offline (applyTakeover m cfg) service a weight = Asked sv ip port wt"
  shows "m = None \<and> list_all (isLoopback loop_ip) (sc_nacos_addrs cfg)"
proof (cases m)
  case None
  with t Takeover_none [of L now env st] lap have "IsLocal (pr_env st)" by (auto simp: IsLocal_def Env_def)
  with None Asked_needs [OF asked] show ?thesis by (simp add: applyTakeover_def)
next
  case (Some mk)
  with t Takeover_some [of L now env mk st] have "read_marker L env now = Some (Inr mk)" by simp
  then have "tm_Service mk = sc_name cfg" using name by (auto elim: read_markerE)
  with Some Asked_needs [OF asked] show ?thesis by (simp add: applyTakeover_def Registers_def)
qed

theorem laptop_keeps_to_itself_witness:
  "let cfg = \<lparr>sc_name = ''order'', sc_nacos_addrs = [''127.0.0.1:8848''], sc_register = None, sc_metrics = True, sc_devroute = None\<rparr>
   in Register (\<lambda>h. h = ''127.0.0.1'') (Some ''127.0.0.1'') (\<lambda>_. []) False cfg ''order'' '':8888'' 10 = Asked ''order'' ''127.0.0.1'' 8888 10 \<and>
      list_all (isLoopback (\<lambda>h. h = ''127.0.0.1'')) (sc_nacos_addrs cfg)"
proof -
  let ?cfg = "\<lparr>sc_name = ''order'', sc_nacos_addrs = [''127.0.0.1:8848''], sc_register = None, sc_metrics = True, sc_devroute = None\<rparr>"
  let ?L = "dev_machine ''order'' (dev_marker ''order'')\<lparr>hl_read := \<lambda>_. None\<rparr>"
  have dir: "service_dir ?L (\<lambda>_. []) = Some ''/w/order''" "hl_base ?L ''/w/order'' = sc_name ?cfg"
    by (simp_all add: service_dir_def Dir_def dirs_tried_def dev_machine_def)
  have t: "Takeover ?L 2000 (new_process (\<lambda>_. [])) = (None, (new_process (\<lambda>_. []))\<lparr>pr_once := True\<rparr>)"
    by (simp add: Takeover_def take_marker_def new_process_def Let_def read_marker_def dir(1)) 
  have split: "SplitHostPort '':8888'' = Some ([], ''8888'')" by code_simp
  have "parse_uint16 ''8888'' = Some 8888" by (simp add: parse_uint16_def parse_nat_def char_digit_def)
  with split have addr: "instanceAddr (Some ''127.0.0.1'') '':8888'' = Inr (''127.0.0.1'', 8888)" by (simp add: instanceAddr_def)
  have loop: "isLoopback (\<lambda>h. h = ''127.0.0.1'') ''127.0.0.1:8848''" by code_simp
  have asked: "Register (\<lambda>h. h = ''127.0.0.1'') (Some ''127.0.0.1'') (\<lambda>_. []) False ?cfg ''order'' '':8888'' 10 =
      Asked ''order'' ''127.0.0.1'' 8888 10"
    by (simp add: Register_def CheckRegistration_def Registers_def addr loop)
  from laptop_keeps_to_itself [OF _ dir t, of "\<lambda>h. h = ''127.0.0.1''" "Some ''127.0.0.1''" False "''order''" "'':8888''" 10 "''order''" "''127.0.0.1''" 8888 10] asked
  show ?thesis by (simp add: Let_def applyTakeover_def new_process_def)
qed

end
