(* ===== verification/RedisConf.thy ===== *)
theory RedisConf
  imports Prelude
begin

text \<open>
  The \<^verbatim>\<open>redis:\<close> section of a service's configuration (\<^verbatim>\<open>redisx/redisx.go\<close>): its
  check and the server it names. Connecting is the client library's.
\<close>

record redis_config =
  rc_Enabled :: bool
  rc_Source :: string
  rc_Role :: string
  rc_Addr :: string
  rc_Username :: string
  rc_Password :: string
  rc_DB :: int

record target =
  t_Addr :: string
  t_Username :: string
  t_Password :: string
  t_DB :: int

definition redis_SourceName :: "redis_config \<Rightarrow> string" where
  "redis_SourceName c = (let s = trim_space (rc_Source c) in if s \<noteq> [] then s else ''static'')"

definition redis_RoleName :: "redis_config \<Rightarrow> string" where
  "redis_RoleName c = (let r = trim_space (rc_Role c) in if r \<noteq> [] then r else ''tenant'')"

datatype redis_config_error = RedisRole string | RedisSource string | RedisDbName string

definition redis_Validate :: "redis_config \<Rightarrow> redis_config_error option" where
  "redis_Validate c =
     (if \<not> rc_Enabled c then None
      else if redis_SourceName c = ''static'' then None
      else if redis_SourceName c = ''platform'' then
        (if redis_RoleName c = ''tenant'' \<or> redis_RoleName c = ''platform'' then None
         else Some (RedisRole (rc_Role c)))
      else Some (RedisSource (rc_Source c)))"

definition redis_Static :: "redis_config \<Rightarrow> target" where
  "redis_Static c =
     (let addr = trim_space (rc_Addr c)
      in \<lparr>t_Addr = (if addr = [] then ''127.0.0.1:6379'' else addr),
          t_Username = trim_space (rc_Username c), t_Password = rc_Password c, t_DB = rc_DB c\<rparr>)"

text \<open>\<^verbatim>\<open>strconv.Atoi\<close> of the row's index is \<^const>\<open>parse_int64\<close>.\<close>

definition TargetFromRow :: "string \<Rightarrow> string \<Rightarrow> string \<Rightarrow> redis_config_error + target" where
  "TargetFromRow addr dbName password =
     (let s = trim_space dbName in
      if s = [] then Inr \<lparr>t_Addr = addr, t_Username = [], t_Password = password, t_DB = 0\<rparr>
      else (case parse_int64 s of
              None \<Rightarrow> Inl (RedisDbName dbName)
            | Some n \<Rightarrow>
                if n < 0 then Inl (RedisDbName dbName)
                else Inr \<lparr>t_Addr = addr, t_Username = [], t_Password = password, t_DB = n\<rparr>))"

lemma redis_Validate_None:
  "redis_Validate c = None \<longleftrightarrow>
     \<not> rc_Enabled c \<or> redis_SourceName c = ''static'' \<or>
     redis_SourceName c = ''platform'' \<and> redis_RoleName c \<in> {''tenant'', ''platform''}"
  by (auto simp: redis_Validate_def)

lemma redis_Static_has_address: "t_Addr (redis_Static c) \<noteq> []"
  by (simp add: redis_Static_def Let_def)

lemma TargetFromRow_index: "TargetFromRow a d p = Inr t \<Longrightarrow> 0 \<le> t_DB t \<and> t_DB t < 2 ^ 63"
  by (auto simp: TargetFromRow_def parse_int64_def Let_def split: if_splits option.splits)

lemma TargetFromRow_shown:
  assumes "0 \<le> n" "n < 2 ^ 63" "trim_space (show_int n) = show_int n" "show_int n \<noteq> []"
  shows "TargetFromRow a (show_int n) p = Inr \<lparr>t_Addr = a, t_Username = [], t_Password = p, t_DB = n\<rparr>"
  using assms by (simp add: TargetFromRow_def Let_def del: show_int_inject)

end
