(* ===== verification/Targets.thy ===== *)
theory Targets
  imports Takeover RedisConf
begin

text \<open>
  Where a service's database, Redis and Kafka are, and the accounts it uses there
  (\<^verbatim>\<open>kitexx/runtime.go\<close>, \<^verbatim>\<open>mysqlx/mysqlx.go\<close>): from the configuration itself, from the
  platform's datasource table, or the service's own database. Nacos and the query of the
  table are arguments; so are the environment and the marker of a takeover, by which every
  address goes.
\<close>

section \<open>The configuration of MySQL\<close>

record mysql_config =
  my_Enabled :: bool
  my_Source :: string
  my_Role :: string
  my_Domain :: string
  my_PasswordEnv :: string
  my_Addr :: string
  my_DB :: string
  my_User :: string
  my_Password :: string
  my_Params :: string

record sql_target =
  sq_Addr :: string
  sq_DB :: string
  sq_User :: string
  sq_Password :: string
  sq_Params :: string

datatype target_error = TenantNotSet | BadDomain string | NameTooLong string | BadRole string | BadSource string | NeedsDB | NeedsUser | NoRow string string string | RowFailed string | VariableNotSet string | InfraFailed string string | PlatformIncomplete | BadIndex redis_config_error | CentrifugoIncomplete | NoCentrifugoKey string string

definition mysql_SourceName :: "mysql_config \<Rightarrow> string" where
  "mysql_SourceName c = (let s = trim_space (my_Source c) in if s \<noteq> [] then s else ''static'')"

definition mysql_RoleName :: "mysql_config \<Rightarrow> string" where
  "mysql_RoleName c = (let r = trim_space (my_Role c) in if r \<noteq> [] then r else ''tenant'')"

definition trim_prefix :: "string \<Rightarrow> string \<Rightarrow> string" where
  "trim_prefix s p = (if has_prefix s p then drop (length p) s else s)"

definition DomainName :: "mysql_config \<Rightarrow> string \<Rightarrow> string" where
  "DomainName c service =
     (let d = trim_space (my_Domain c) in if d \<noteq> [] then d else replace_str ''-'' ''_'' (trim_prefix service ''ser-''))"

definition PasswordEnvName :: "mysql_config \<Rightarrow> string" where
  "PasswordEnvName c = (let e = trim_space (my_PasswordEnv c) in if e \<noteq> [] then e else ''MYSQL_SERVICE_PASSWORD'')"

definition domain_char :: "char \<Rightarrow> bool" where
  "domain_char c = (let n = of_char c :: nat in (97 \<le> n \<and> n \<le> 122) \<or> (48 \<le> n \<and> n \<le> 57) \<or> n = 95)"

definition domainRE :: "string \<Rightarrow> bool" where
  "domainRE d \<longleftrightarrow> d \<noteq> [] \<and> list_all domain_char d"

definition maxAccountName :: nat where "maxAccountName = 32"

definition ServiceDatabase :: "string \<Rightarrow> string \<Rightarrow> target_error + string" where
  "ServiceDatabase tenant domain =
     (if tenant = [] then Inl TenantNotSet
      else if \<not> domainRE domain then Inl (BadDomain domain)
      else let name = tenant @ ''_'' @ domain
        in if length name > maxAccountName then Inl (NameTooLong name) else Inr name)"

definition mysql_Validate :: "mysql_config \<Rightarrow> target_error option" where
  "mysql_Validate c =
     (if \<not> my_Enabled c then None
      else if mysql_SourceName c = ''service'' then
        (if trim_space (my_Domain c) \<noteq> [] \<and> \<not> domainRE (trim_space (my_Domain c)) then Some (BadDomain (trim_space (my_Domain c)))
         else if mysql_RoleName c \<noteq> ''tenant'' then Some (BadRole (my_Role c)) else None)
      else if mysql_SourceName c = ''static'' then
        (if my_DB c = [] then Some NeedsDB else if my_User c = [] then Some NeedsUser else None)
      else if mysql_SourceName c = ''platform'' then
        (if mysql_RoleName c = ''tenant'' \<or> mysql_RoleName c = ''platform'' then None else Some (BadRole (my_Role c)))
      else Some (BadSource (my_Source c)))"

definition mysql_Static :: "mysql_config \<Rightarrow> sql_target" where
  "mysql_Static c =
     (let a = trim_space (my_Addr c)
      in \<lparr>sq_Addr = (if a = [] then ''127.0.0.1:3306'' else a), sq_DB = my_DB c, sq_User = my_User c,
          sq_Password = my_Password c, sq_Params = my_Params c\<rparr>)"

text \<open>The parameters of a connection, as \<^verbatim>\<open>url.Values\<close> prints them.\<close>

definition DSN :: "sql_target \<Rightarrow> string" where
  "DSN t =
     sq_User t @ '':'' @ sq_Password t @ ''@tcp('' @ sq_Addr t @ '')/'' @ sq_DB t @
     ''?charset=utf8mb4&loc=UTC&parseTime=true&readTimeout=30s&time_zone=%27%2B00%3A00%27&timeout=5s&writeTimeout=30s'' @
     (let p = trim_space (sq_Params t) in if p = [] then [] else ''&'' @ trim_prefix p ''&'')"

section \<open>The datasource table\<close>

text \<open>A row: host, port, database, user, the variable of its password, parameters.\<close>

record row =
  ro_host :: string
  ro_port :: int
  ro_db :: string
  ro_user :: string
  ro_password_env :: string
  ro_params :: string

text \<open>The query on a platform database, for a tenant, a role and a kind.\<close>

type_synonym datasource = "sql_target \<Rightarrow> string \<Rightarrow> string \<Rightarrow> string \<Rightarrow> string + row option"

definition ResolveKind :: "datasource \<Rightarrow> sql_target \<Rightarrow> string \<Rightarrow> string \<Rightarrow> string \<Rightarrow> env \<Rightarrow> target_error + sql_target" where
  "ResolveKind ask platform tenant role kind env =
     (let code = (if role = ''platform'' then ''platform'' else tenant)
      in if code = [] then Inl TenantNotSet
         else case ask platform code role kind of
             Inl e \<Rightarrow> Inl (RowFailed e)
           | Inr None \<Rightarrow> Inl (NoRow kind code role)
           | Inr (Some r) \<Rightarrow>
               if ro_password_env r \<noteq> [] \<and> env (ro_password_env r) = [] then Inl (VariableNotSet (ro_password_env r))
               else Inr \<lparr>sq_Addr = JoinHostPort (ro_host r) (show_int (ro_port r)), sq_DB = ro_db r, sq_User = ro_user r,
                 sq_Password = (if ro_password_env r = [] then [] else env (ro_password_env r)), sq_Params = ro_params r\<rparr>)"

section \<open>The infrastructure in Nacos\<close>

record infra_mysql =
  im_Addr :: string
  im_DB :: string
  im_User :: string
  im_PasswordEnv :: string
  im_Params :: string

record infra =
  in_mysql :: "string \<Rightarrow> infra_mysql option"
  in_cf_APIAddr :: string
  in_cf_APIKeyEnv :: string
  in_cf_TokenHMACEnv :: string
  in_sr_Addr :: string
  in_sr_DB :: string
  in_sr_User :: string
  in_sr_PasswordEnv :: string

definition no_mysql :: infra_mysql where
  "no_mysql = \<lparr>im_Addr = [], im_DB = [], im_User = [], im_PasswordEnv = [], im_Params = []\<rparr>"

definition mysql_entry :: "infra \<Rightarrow> string \<Rightarrow> infra_mysql" where
  "mysql_entry doc k = (case in_mysql doc k of Some e \<Rightarrow> e | None \<Rightarrow> no_mysql)"

text \<open>
  The world of a start: reading \<^verbatim>\<open>infra.yaml\<close> for a purpose, the datasource table, the
  environment, the marker. \<open>env ''TENANT_CODE''\<close> says whom the deployment serves.
\<close>

record start =
  st_infra :: "string \<Rightarrow> string + infra"
  st_ask :: datasource
  st_env :: env
  st_marker :: "marker option"

definition tenant_of :: "start \<Rightarrow> string" where
  "tenant_of w = trim_space (st_env w ''TENANT_CODE'')"

definition infraDocument :: "start \<Rightarrow> string \<Rightarrow> target_error + infra" where
  "infraDocument w what = (case st_infra w what of Inl e \<Rightarrow> Inl (InfraFailed what e) | Inr d \<Rightarrow> Inr d)"

definition platformDatabase :: "start \<Rightarrow> string \<Rightarrow> target_error + sql_target" where
  "platformDatabase w what =
     (case infraDocument w what of
        Inl e \<Rightarrow> Inl e
      | Inr doc \<Rightarrow>
          let p = mysql_entry doc ''platform''
          in if im_Addr p = [] \<or> im_DB p = [] \<or> im_User p = [] \<or> im_PasswordEnv p = [] then Inl PlatformIncomplete
             else if st_env w (im_PasswordEnv p) = [] then Inl (VariableNotSet (im_PasswordEnv p))
             else Inr \<lparr>sq_Addr = rewrite_by (st_marker w) (im_Addr p), sq_DB = im_DB p, sq_User = im_User p,
                 sq_Password = st_env w (im_PasswordEnv p), sq_Params = []\<rparr>)"

definition from_platform :: "start \<Rightarrow> string \<Rightarrow> string \<Rightarrow> string \<Rightarrow> string \<Rightarrow> target_error + sql_target" where
  "from_platform w what tenant role kind =
     (case platformDatabase w what of Inl e \<Rightarrow> Inl e | Inr p \<Rightarrow> ResolveKind (st_ask w) p tenant role kind (st_env w))"

definition rewritten :: "start \<Rightarrow> sql_target \<Rightarrow> sql_target" where
  "rewritten w t = t\<lparr>sq_Addr := rewrite_by (st_marker w) (sq_Addr t)\<rparr>"

section \<open>The database\<close>

datatype rule = RuleStatic | RulePlatform | RuleService | RuleFallback

datatype missing = NoPassword string | NoAddress string

record resolution =
  rs_target :: sql_target
  rs_rule :: rule
  rs_domain :: string
  rs_reason :: "missing option"

definition serviceMySQL :: "start \<Rightarrow> mysql_config \<Rightarrow> string \<Rightarrow> string \<Rightarrow> infra \<Rightarrow> target_error + resolution \<times> missing option" where
  "serviceMySQL w c service tenant doc =
     (let domain = DomainName c service
      in case ServiceDatabase tenant domain of
           Inl e \<Rightarrow> Inl e
         | Inr name \<Rightarrow>
             let entry = mysql_entry doc tenant; pw = st_env w (PasswordEnvName c)
             in Inr (\<lparr>rs_target = \<lparr>sq_Addr = rewrite_by (st_marker w) (im_Addr entry), sq_DB = name, sq_User = name,
                        sq_Password = pw, sq_Params = im_Params entry\<rparr>,
                      rs_rule = RuleService, rs_domain = domain, rs_reason = None\<rparr>,
                  if pw = [] then Some (NoPassword (PasswordEnvName c))
                  else if im_Addr entry = [] then Some (NoAddress tenant) else None))"

definition mysqlTarget :: "start \<Rightarrow> mysql_config \<Rightarrow> string \<Rightarrow> target_error + resolution" where
  "mysqlTarget w c service =
     (if mysql_SourceName c = ''static'' then
        Inr \<lparr>rs_target = rewritten w (mysql_Static c), rs_rule = RuleStatic, rs_domain = [], rs_reason = None\<rparr>
      else if mysql_SourceName c = ''service'' then
        (case infraDocument w ''mysql.source service'' of
           Inl e \<Rightarrow> Inl e
         | Inr doc \<Rightarrow>
             (case serviceMySQL w c service (tenant_of w) doc of
                Inl e \<Rightarrow> Inl e
              | Inr (res, None) \<Rightarrow> Inr res
              | Inr (res, Some why) \<Rightarrow>
                  (case from_platform w ''mysql.source service (fallback)'' (tenant_of w) ''tenant'' ''mysql'' of
                     Inl e \<Rightarrow> Inl e
                   | Inr t \<Rightarrow> Inr \<lparr>rs_target = rewritten w t, rs_rule = RuleFallback, rs_domain = rs_domain res, rs_reason = Some why\<rparr>)))
      else
        (case from_platform w ''mysql.source platform'' (tenant_of w) (mysql_RoleName c) ''mysql'' of
           Inl e \<Rightarrow> Inl e
         | Inr t \<Rightarrow> Inr \<lparr>rs_target = rewritten w t, rs_rule = RulePlatform, rs_domain = [], rs_reason = None\<rparr>))"

section \<open>Redis, Kafka, the push server\<close>

definition rowUser :: "string \<Rightarrow> string \<Rightarrow> string" where
  "rowUser user service = replace_str ''${SERVICE}'' service (trim_space user)"

definition redisTarget :: "start \<Rightarrow> redis_config \<Rightarrow> string \<Rightarrow> target_error + target" where
  "redisTarget w c service =
     (if redis_SourceName c = ''static'' then Inr (redis_Static c)
      else case from_platform w ''redis.source platform'' (tenant_of w) (redis_RoleName c) ''valkey'' of
          Inl e \<Rightarrow> Inl e
        | Inr r \<Rightarrow>
            (case TargetFromRow (rewrite_by (st_marker w) (sq_Addr r)) (sq_DB r) (sq_Password r) of
               Inl e \<Rightarrow> Inl (BadIndex e)
             | Inr t \<Rightarrow> Inr (t\<lparr>t_Username := rowUser (sq_User r) service\<rparr>)))"

record kafka_conf =
  kc_Source :: string
  kc_Role :: string
  kc_Brokers :: "string list"
  kc_Username :: string
  kc_Password :: string

record kafka_target =
  kt_Brokers :: "string list"
  kt_Username :: string
  kt_Password :: string
  kt_RewriteAddr :: "(string \<Rightarrow> string) option"

definition or_default :: "string \<Rightarrow> string \<Rightarrow> string" where
  "or_default s d = (let s = trim_space s in if s \<noteq> [] then s else d)"

definition kafka_Static :: "kafka_conf \<Rightarrow> kafka_target" where
  "kafka_Static c = \<lparr>kt_Brokers = (if kc_Brokers c = [] then [''127.0.0.1:9092''] else kc_Brokers c),
     kt_Username = kc_Username c, kt_Password = kc_Password c, kt_RewriteAddr = None\<rparr>"

text \<open>Several brokers: their hosts with commas between, and the port of the row.\<close>

definition after_last_colon :: "string \<Rightarrow> string" where
  "after_last_colon a = (case last_index CHR '':'' a of None \<Rightarrow> a | Some i \<Rightarrow> drop (Suc i) a)"

definition broker_list :: "string \<Rightarrow> string list" where
  "broker_list a =
     map (\<lambda>h. if CHR '':'' \<in> set h then h else h @ '':'' @ after_last_colon a)
       (filter (\<lambda>h. h \<noteq> []) (map trim_space (split_on CHR '','' a)))"

definition kafkaTarget :: "start \<Rightarrow> kafka_conf \<Rightarrow> svc_conf \<Rightarrow> target_error + kafka_target" where
  "kafkaTarget w c cfg =
     (if or_default (kc_Source c) ''static'' = ''static'' then Inr (kafka_Static c)
      else case from_platform w ''kafka.source platform'' (tenant_of w) (or_default (kc_Role c) ''tenant'') ''kafka'' of
          Inl e \<Rightarrow> Inl e
        | Inr r \<Rightarrow>
            let brokers = broker_list (sq_Addr r)
            in Inr \<lparr>kt_Brokers = (if inTakeover (st_marker w) cfg then map (rewrite_by (st_marker w)) brokers else brokers),
                 kt_Username = rowUser (sq_User r) (sc_name cfg), kt_Password = sq_Password r,
                 kt_RewriteAddr = (if inTakeover (st_marker w) cfg then Some (rewrite_by (st_marker w)) else None)\<rparr>)"

record push_target =
  pt_APIAddr :: string
  pt_APIKey :: string
  pt_TokenSecret :: string

definition centrifugoTarget :: "'u url_lib \<Rightarrow> start \<Rightarrow> string \<Rightarrow> push_target \<Rightarrow> target_error + push_target" where
  "centrifugoTarget U w source static =
     (if source = ''static'' then Inr static
      else case infraDocument w ''centrifugo.source platform'' of
          Inl e \<Rightarrow> Inl e
        | Inr doc \<Rightarrow>
            if in_cf_APIAddr doc = [] \<or> in_cf_APIKeyEnv doc = [] then Inl CentrifugoIncomplete
            else let key = st_env w (in_cf_APIKeyEnv doc);
                     secret = (if in_cf_TokenHMACEnv doc \<noteq> [] then st_env w (in_cf_TokenHMACEnv doc) else [])
              in if key = [] \<and> secret = [] then Inl (NoCentrifugoKey (in_cf_APIKeyEnv doc) (in_cf_TokenHMACEnv doc))
                 else Inr \<lparr>pt_APIAddr = rewrite_url_by U (st_marker w) (in_cf_APIAddr doc), pt_APIKey = key, pt_TokenSecret = secret\<rparr>)"

section \<open>The service's own database\<close>

lemma ServiceDatabase_Inr:
  "ServiceDatabase tenant d = Inr own \<longleftrightarrow>
     tenant \<noteq> [] \<and> domainRE d \<and> own = tenant @ ''_'' @ d \<and> length own \<le> maxAccountName"
  by (auto simp: ServiceDatabase_def Let_def)

lemma domain_char_listed:
  assumes "domain_char c"
  shows "c \<in> set ''abcdefghijklmnopqrstuvwxyz0123456789_''"
proof -
  have all: "\<forall>n \<in> set ([97..<123] @ [48..<58] @ [95]). (char_of (n :: nat) :: char) \<in> set ''abcdefghijklmnopqrstuvwxyz0123456789_''"
    by code_simp
  have "(of_char c :: nat) \<in> {97..<123} \<union> {48..<58} \<union> {95}"
    using assms unfolding domain_char_def Let_def by (elim disjE conjE) (simp_all add: less_Suc_eq_le)
  then have "(of_char c :: nat) \<in> set ([97..<123] @ [48..<58] @ [95])" unfolding set_append set_upt by simp
  from bspec [OF all this] show ?thesis by (simp only: char_of_char)
qed

text \<open>
  The tenant's code is not looked at beyond that it is there: with a code that no account
  can have, the name is handed out all the same.
\<close>

lemma ServiceDatabase_any_tenant: "ServiceDatabase ''Acme `x'' ''member'' = Inr ''Acme `x_member''"
  by code_simp

text \<open>Within a tenant two domains have two databases.\<close>

lemma ServiceDatabase_inject:
  "ServiceDatabase tenant d = Inr own \<Longrightarrow> ServiceDatabase tenant e = Inr own \<Longrightarrow> d = e"
  by (simp add: ServiceDatabase_Inr)

text \<open>Two tenants may have one name between them, and two services one domain.\<close>

lemma ServiceDatabase_tenants_collide:
  "ServiceDatabase ''acme'' ''eu_member'' = ServiceDatabase ''acme_eu'' ''member''"
  by (simp add: ServiceDatabase_def domainRE_def domain_char_def maxAccountName_def)

lemma DomainName_collides:
  assumes "trim_space (my_Domain c) = []"
  shows "DomainName c ''ser-pay-out'' = ''pay_out'' \<and> DomainName c ''ser-pay_out'' = ''pay_out'' \<and> DomainName c ''pay-out'' = ''pay_out''"
  using assms by (simp add: DomainName_def trim_prefix_def)

lemma serviceMySQL_Inr:
  "serviceMySQL w c service tenant doc = Inr (res, why) \<Longrightarrow>
     ServiceDatabase tenant (DomainName c service) = Inr (sq_DB (rs_target res)) \<and>
     sq_User (rs_target res) = sq_DB (rs_target res) \<and>
     sq_Password (rs_target res) = st_env w (PasswordEnvName c) \<and>
     sq_Addr (rs_target res) = rewrite_by (st_marker w) (im_Addr (mysql_entry doc tenant)) \<and>
     rs_rule res = RuleService \<and> rs_domain res = DomainName c service \<and> rs_reason res = None \<and>
     (why = None \<longleftrightarrow> st_env w (PasswordEnvName c) \<noteq> [] \<and> im_Addr (mysql_entry doc tenant) \<noteq> [])"
  by (auto simp: serviceMySQL_def Let_def split: sum.splits if_split_asm)

text \<open>What the datasource table says does not enter into it when nothing is missing.\<close>

lemma mysqlTarget_own:
  assumes "mysql_SourceName c = ''service''" and "infraDocument w ''mysql.source service'' = Inr doc"
    and "serviceMySQL w c service (tenant_of w) doc = Inr (res, None)"
  shows "mysqlTarget (w\<lparr>st_ask := ask\<rparr>) c service = Inr res"
proof -
  have "infraDocument (w\<lparr>st_ask := ask\<rparr>) ''mysql.source service'' = Inr doc" "tenant_of (w\<lparr>st_ask := ask\<rparr>) = tenant_of w"
    using assms(2) by (simp_all add: infraDocument_def tenant_of_def)
  moreover have "serviceMySQL (w\<lparr>st_ask := ask\<rparr>) c service (tenant_of w) doc = Inr (res, None)"
    using assms(3) by (auto simp: serviceMySQL_def Let_def split: sum.splits if_split_asm)
  ultimately show ?thesis using assms(1) by (simp add: mysqlTarget_def)
qed

text \<open>The password of a row is that of the variable the row names.\<close>

lemma ResolveKind_Inr:
  assumes "ResolveKind ask platform tenant role kind e = Inr t"
  shows "\<exists>r. ask platform (if role = ''platform'' then ''platform'' else tenant) role kind = Inr (Some r) \<and>
       sq_Addr t = JoinHostPort (ro_host r) (show_int (ro_port r)) \<and> sq_DB t = ro_db r \<and> sq_User t = ro_user r \<and>
       (if ro_password_env r = [] then sq_Password t = [] else sq_Password t = e (ro_password_env r) \<and> sq_Password t \<noteq> [])"
proof -
  define code where "code = (if role = ''platform'' then ''platform'' else tenant)"
  have eq: "ResolveKind ask platform tenant role kind e = Inr t" "code \<noteq> []"
    using assms by (auto simp: ResolveKind_def code_def Let_def split: if_split_asm)
  obtain r where r: "ask platform code role kind = Inr (Some r)"
    using eq unfolding ResolveKind_def Let_def code_def [symmetric] by (cases "ask platform code role kind") (auto split: option.splits)
  show ?thesis
    using eq r unfolding ResolveKind_def Let_def code_def [symmetric]
    by (intro exI [of _ r]) (auto split: if_split_asm)
qed

lemma platformDatabase_Inr:
  "platformDatabase w what = Inr p \<Longrightarrow>
     sq_Password p \<noteq> [] \<and> (\<exists>doc. st_infra w what = Inr doc \<and> sq_Password p = st_env w (im_PasswordEnv (mysql_entry doc ''platform'')))"
  by (auto simp: platformDatabase_def infraDocument_def Let_def split: if_splits sum.splits)

section \<open>Brokers\<close>

lemma after_last_colon_append [simp]:
  "CHR '':'' \<notin> set p \<Longrightarrow> after_last_colon (h @ CHR '':'' # p) = p"
  by (simp add: after_last_colon_def last_index_append)

definition plain_broker :: "string \<Rightarrow> bool" where
  "plain_broker h \<longleftrightarrow> h \<noteq> [] \<and> (\<forall>x \<in> set h. \<not> is_space x \<and> x \<noteq> CHR '':'' \<and> x \<noteq> CHR '','')"

lemma go_join_snoc: "go_join sep (xs @ [x]) @ y = go_join sep (xs @ [x @ y])"
proof (induction xs)
  case (Cons z zs)
  then show ?case by (cases zs) simp_all
qed simp

lemma split_on_hosts:
  assumes "\<forall>h \<in> set hs. plain_broker h" and "hs \<noteq> []" and "CHR '','' \<notin> set p"
  shows "split_on CHR '','' (go_join '','' hs @ CHR '':'' # p) = butlast hs @ [last hs @ CHR '':'' # p]"
proof -
  have eq: "go_join '','' hs @ CHR '':'' # p = go_join '','' (butlast hs @ [last hs @ CHR '':'' # p])"
    using go_join_snoc [of "'',''" "butlast hs" "last hs" "CHR '':'' # p"] assms(2) by simp
  have plain: "CHR '','' \<notin> set h" if "h \<in> set hs" for h
    using assms(1) that unfolding plain_broker_def by blast
  have "CHR '','' \<notin> set x" if "x \<in> set (butlast hs @ [last hs @ CHR '':'' # p])" for x
  proof (cases "x = last hs @ CHR '':'' # p")
    case True
    then show ?thesis using plain [OF last_in_set [OF assms(2)]] assms(3) by simp
  next
    case False
    with that show ?thesis using plain [OF in_set_butlastD] by simp
  qed
  then show ?thesis unfolding eq by (intro split_on_go_join) blast+
qed

lemma show_int_no_break: "x \<in> set (show_int n) \<Longrightarrow> \<not> is_space x \<and> x \<noteq> CHR '','' \<and> x \<noteq> CHR '':''"
proof -
  assume x: "x \<in> set (show_int n)"
  have digit: "\<not> is_space (digit_char d) \<and> digit_char d \<noteq> CHR '',''" if "d < 10" for d
  proof -
    have "char_digit CHR '','' = None" by (simp add: char_digit_def)
    moreover have "char_digit (digit_char d) = Some d" using that by simp
    moreover have "\<not> is_space (digit_char d)" using that by (simp add: is_space_def digit_char_def of_char_of)
    ultimately show ?thesis by fastforce
  qed
  from x have "x = CHR ''-'' \<or> (\<exists>m. x \<in> set (show_nat m))" by (auto simp: show_int_def split: if_split_asm)
  then have "\<not> is_space x \<and> x \<noteq> CHR '',''"
  proof
    assume "x = CHR ''-''"
    then show ?thesis by (simp add: is_space_def)
  next
    assume "\<exists>m. x \<in> set (show_nat m)"
    then obtain m where "x \<in> set (show_nat m)" by (elim exE)
    from set_show_nat [OF this] obtain d where "d < 10" "x = digit_char d" by (elim exE conjE)
    with digit [of d] show ?thesis by simp
  qed
  with x show ?thesis using show_int_no_colon by metis
qed

lemma plain_broker_trim: "plain_broker h \<Longrightarrow> trim_space h = h"
  by (intro trim_space_no_space) (simp add: plain_broker_def)

lemma plain_brokerD: "plain_broker h \<Longrightarrow> h \<noteq> [] \<and> trim_space h = h \<and> CHR '':'' \<notin> set h"
  using plain_broker_trim unfolding plain_broker_def by blast

lemma broker_list_hosts:
  assumes hs: "\<forall>h \<in> set hs. plain_broker h" "hs \<noteq> []"
  shows "broker_list (JoinHostPort (go_join '','' hs) (show_int n)) = map (\<lambda>h. h @ '':'' @ show_int n) hs"
proof -
  define port where "port = show_int n"
  have port: "\<not> is_space x \<and> x \<noteq> CHR '','' \<and> x \<noteq> CHR '':''" if "x \<in> set port" for x
    using show_int_no_break that unfolding port_def by blast
  have nc: "CHR '':'' \<notin> set (go_join '','' hs)"
  proof
    assume "CHR '':'' \<in> set (go_join '','' hs)"
    from set_go_join [OF _ this] obtain h where "h \<in> set hs" "CHR '':'' \<in> set h" by auto
    with hs show False unfolding plain_broker_def by blast
  qed
  have join: "JoinHostPort (go_join '','' hs) port = go_join '','' hs @ CHR '':'' # port" using nc by (simp add: JoinHostPort_def)
  have np: "CHR '','' \<notin> set port" "CHR '':'' \<notin> set port" using port by blast+
  have cut: "split_on CHR '','' (go_join '','' hs @ CHR '':'' # port) = butlast hs @ [last hs @ CHR '':'' # port]"
    using split_on_hosts [OF hs np(1)] .
  have l: "last hs \<in> set hs" using hs by simp
  have b: "h \<noteq> [] \<and> trim_space h = h \<and> CHR '':'' \<notin> set h" if "h \<in> set (butlast hs)" for h
    by (rule plain_brokerD [OF bspec [OF hs(1) in_set_butlastD [OF that]]])
  have tl: "trim_space (last hs @ CHR '':'' # port) = last hs @ CHR '':'' # port"
  proof (intro trim_space_no_space ballI)
    fix x assume "x \<in> set (last hs @ CHR '':'' # port)"
    then have "x \<in> set (last hs) \<or> x = CHR '':'' \<or> x \<in> set port" by auto
    then show "\<not> is_space x"
    proof (elim disjE)
      assume "x \<in> set (last hs)"
      moreover have "plain_broker (last hs)" by (rule bspec [OF hs(1) l])
      ultimately show ?thesis unfolding plain_broker_def by blast
    next
      assume "x = CHR '':''"
      then show ?thesis by (simp add: is_space_def)
    next
      assume "x \<in> set port"
      from port [OF this] show ?thesis by (rule conjunct1)
    qed
  qed
  have "map trim_space (butlast hs @ [last hs @ CHR '':'' # port]) = butlast hs @ [last hs @ CHR '':'' # port]"
    using b tl by (simp add: map_idI)
  moreover have "filter (\<lambda>h. h \<noteq> []) (butlast hs @ [last hs @ CHR '':'' # port]) = butlast hs @ [last hs @ CHR '':'' # port]"
    using b by (simp add: filter_id_conv)
  moreover have "after_last_colon (go_join '','' hs @ CHR '':'' # port) = port" using np(2) by simp
  ultimately have "broker_list (JoinHostPort (go_join '','' hs) port) =
      map (\<lambda>h. if CHR '':'' \<in> set h then h else h @ '':'' @ port) (butlast hs @ [last hs @ CHR '':'' # port])"
    unfolding broker_list_def join cut by simp
  also have "\<dots> = map (\<lambda>h. h @ '':'' @ port) (butlast hs @ [last hs])" using b by simp
  also have "butlast hs @ [last hs] = hs" using hs by simp
  finally show ?thesis by (simp add: port_def)
qed

text \<open>A row whose hosts carry ports of their own is taken apart in the wrong places.\<close>

lemma brokers_with_ports_garbled:
  "broker_list (JoinHostPort ''b1:9092,b2:9093'' ''9092'') = [''[b1:9092'', ''b2:9093]:9092'']"
  by code_simp

text \<open>In takeover mode a static MySQL goes by the tunnel, a static Redis does not.\<close>

lemma static_redis_untunnelled:
  assumes "redis_SourceName r = ''static''" and "mysql_SourceName c = ''static''"
  shows "redisTarget w r service = Inr (redis_Static r) \<and>
    (\<exists>res. mysqlTarget w c service = Inr res \<and> sq_Addr (rs_target res) = rewrite_by (st_marker w) (sq_Addr (mysql_Static c)))"
  using assms by (simp add: redisTarget_def mysqlTarget_def rewritten_def)

section \<open>Where the data of a service is\<close>

text \<open>
  C11. A service's data stays in one place. A service that asks for its own database and
  gets one gets the database and the account named after its tenant and its domain: the
  tenant's code, which is set, an underscore and the domain, which is a word of small
  letters, digits and underscores; at most 32 characters in all. (Of the tenant's code
  nothing else is checked.) It has the password of its own variable, on the tenant's MySQL;
  and it has it whatever the platform's table says. It is given the shared database only
  while that variable or that address is not set, and the start says which of them.
\<close>

theorem own_database:
  assumes src: "mysql_SourceName c = ''service''" and ok: "mysqlTarget w c service = Inr res"
  shows "\<exists>own doc. ServiceDatabase (tenant_of w) (DomainName c service) = Inr own \<and> length own \<le> 32 \<and>
    own = tenant_of w @ ''_'' @ DomainName c service \<and> tenant_of w \<noteq> [] \<and> DomainName c service \<noteq> [] \<and>
    set (DomainName c service) \<subseteq> set ''abcdefghijklmnopqrstuvwxyz0123456789_'' \<and>
    st_infra w ''mysql.source service'' = Inr doc \<and>
    (let addr = im_Addr (mysql_entry doc (tenant_of w)); pw = st_env w (PasswordEnvName c) in
     if pw \<noteq> [] \<and> addr \<noteq> [] then
       rs_rule res = RuleService \<and> rs_reason res = None \<and>
       sq_DB (rs_target res) = own \<and> sq_User (rs_target res) = own \<and> sq_Password (rs_target res) = pw \<and>
       sq_Addr (rs_target res) = rewrite_by (st_marker w) addr \<and>
       (\<forall>ask. mysqlTarget (w\<lparr>st_ask := ask\<rparr>) c service = Inr res)
     else rs_rule res = RuleFallback \<and>
       rs_reason res = Some (if pw = [] then NoPassword (PasswordEnvName c) else NoAddress (tenant_of w)) \<and>
       (\<exists>t. from_platform w ''mysql.source service (fallback)'' (tenant_of w) ''tenant'' ''mysql'' = Inr t \<and> rs_target res = rewritten w t))"
proof -
  obtain doc where d: "infraDocument w ''mysql.source service'' = Inr doc"
    using src ok by (auto simp: mysqlTarget_def split: sum.splits)
  obtain own why where s: "serviceMySQL w c service (tenant_of w) doc = Inr (own, why)"
    using src ok d by (auto simp: mysqlTarget_def split: sum.splits)
  note so = serviceMySQL_Inr [OF s]
  have st: "st_infra w ''mysql.source service'' = Inr doc" using d by (simp add: infraDocument_def split: sum.splits)
  have len: "length (sq_DB (rs_target own)) \<le> 32" and name: "sq_DB (rs_target own) = tenant_of w @ ''_'' @ DomainName c service"
    "tenant_of w \<noteq> []" and re: "domainRE (DomainName c service)"
    using so unfolding ServiceDatabase_Inr maxAccountName_def by blast+
  have dom: "DomainName c service \<noteq> []" "set (DomainName c service) \<subseteq> set ''abcdefghijklmnopqrstuvwxyz0123456789_''"
    using re domain_char_listed unfolding domainRE_def list_all_iff by blast+
  show ?thesis
  proof (cases why)
    case None
    with s src d ok have "res = own" by (simp add: mysqlTarget_def)
    moreover have "mysqlTarget (w\<lparr>st_ask := ask\<rparr>) c service = Inr own" for ask
      using mysqlTarget_own [OF src d] s None by simp
    ultimately show ?thesis
      using so st len None name dom by (intro exI [of _ "sq_DB (rs_target own)"] exI [of _ doc]) (simp add: Let_def del: set_simps)
  next
    case (Some m)
    then obtain t where t: "from_platform w ''mysql.source service (fallback)'' (tenant_of w) ''tenant'' ''mysql'' = Inr t"
      and res: "res = \<lparr>rs_target = rewritten w t, rs_rule = RuleFallback, rs_domain = rs_domain own, rs_reason = Some m\<rparr>"
      using src ok d s by (auto simp: mysqlTarget_def split: sum.splits)
    have "m = (if st_env w (PasswordEnvName c) = [] then NoPassword (PasswordEnvName c) else NoAddress (tenant_of w))"
      using s Some by (auto simp: serviceMySQL_def Let_def split: sum.splits if_split_asm)
    then show ?thesis
      using so st len Some t res name dom by (intro exI [of _ "sq_DB (rs_target own)"] exI [of _ doc]) (simp add: Let_def del: set_simps)
  qed
qed

definition sample_infra :: infra where
  "sample_infra = \<lparr>in_mysql = (\<lambda>k. if k = ''tenant_a'' then Some (no_mysql\<lparr>im_Addr := ''db-a:3306''\<rparr>)
       else if k = ''platform'' then Some \<lparr>im_Addr = ''db:3306'', im_DB = ''platform'', im_User = ''reader'', im_PasswordEnv = ''PLATFORM_PW'', im_Params = []\<rparr>
       else None),
     in_cf_APIAddr = [], in_cf_APIKeyEnv = [], in_cf_TokenHMACEnv = [],
     in_sr_Addr = [], in_sr_DB = [], in_sr_User = [], in_sr_PasswordEnv = []\<rparr>"

definition sample_start :: "string \<Rightarrow> start" where
  "sample_start pw = \<lparr>st_infra = (\<lambda>what. Inr sample_infra),
     st_ask = (\<lambda>p code role kind. Inr (if code = ''tenant_a'' \<and> kind = ''mysql'' then
       Some \<lparr>ro_host = ''shared'', ro_port = 3306, ro_db = ''tenant_a'', ro_user = ''app'', ro_password_env = [], ro_params = []\<rparr> else None)),
     st_env = (\<lambda>k. if k = ''TENANT_CODE'' then ''tenant_a'' else if k = ''MYSQL_SERVICE_PASSWORD'' then pw
       else if k = ''PLATFORM_PW'' then ''secret'' else []),
     st_marker = None\<rparr>"

definition sample_mysql :: mysql_config where
  "sample_mysql = \<lparr>my_Enabled = True, my_Source = ''service'', my_Role = [], my_Domain = [], my_PasswordEnv = [], my_Addr = [],
     my_DB = [], my_User = [], my_Password = [], my_Params = []\<rparr>"

lemma sample_target:
  "mysql_SourceName sample_mysql = ''service''"
  "mysqlTarget (sample_start ''pw'') sample_mysql ''ser-member'' =
     Inr \<lparr>rs_target = \<lparr>sq_Addr = ''db-a:3306'', sq_DB = ''tenant_a_member'', sq_User = ''tenant_a_member'', sq_Password = ''pw'', sq_Params = []\<rparr>,
       rs_rule = RuleService, rs_domain = ''member'', rs_reason = None\<rparr>"
  by code_simp+

theorem own_database_witness:
  "\<exists>res. mysqlTarget (sample_start ''pw'') sample_mysql ''ser-member'' = Inr res \<and> rs_rule res = RuleService \<and>
     (\<forall>ask. mysqlTarget (sample_start ''pw''\<lparr>st_ask := ask\<rparr>) sample_mysql ''ser-member'' = Inr res)"
proof -
  have there: "st_env (sample_start ''pw'') (PasswordEnvName sample_mysql) = ''pw''" "tenant_of (sample_start ''pw'') = ''tenant_a''"
    "im_Addr (mysql_entry sample_infra ''tenant_a'') = ''db-a:3306''" by code_simp+
  have "st_infra (sample_start ''pw'') what = Inr sample_infra" for what by (simp add: sample_start_def)
  with own_database [OF sample_target] there show ?thesis unfolding sample_target(2) Let_def by auto
qed

end
