(* ===== verification/Report.thy ===== *)
theory Report
  imports Targets
begin

text \<open>
  The report database (\<^verbatim>\<open>starrocksx/starrocksx.go\<close>, \<^verbatim>\<open>kitexx/runtime.go\<close>): where it
  is, and the only two things a service can do with it, \<^verbatim>\<open>Query\<close> and
  \<^verbatim>\<open>QueryRow\<close>: the check of a statement, the tenant put into it, and the rows it answers.
  The database behind the driver is an argument.
\<close>

section \<open>Where it is\<close>

record report_config =
  rp_Enabled :: bool
  rp_Source :: string
  rp_Addr :: string
  rp_DB :: string
  rp_User :: string
  rp_Password :: string
  rp_Timeout :: int
  rp_MaxRows :: int
  rp_MaxOpenConns :: int

record report_target =
  rt_Addr :: string
  rt_DB :: string
  rt_User :: string
  rt_Password :: string

definition report_SourceName :: "report_config \<Rightarrow> string" where
  "report_SourceName c = or_default (rp_Source c) ''platform''"

datatype report_error = ReportNeedsAddress | BadReportSource string | ReportTarget target_error | ReportIncomplete | NoReportPassword string
  | TargetIncomplete | NoTenantCode | NotReadOnly | NoTenant | TooManyMarks nat | MarksLeft nat nat | ReportFailed string
  | ColumnUnknown string | TooManyColumns nat | TooManyRows | NoRows

definition report_Validate :: "report_config \<Rightarrow> report_error option" where
  "report_Validate c =
     (if report_SourceName c = ''static'' then
        (if rp_Addr c = [] \<or> rp_DB c = [] \<or> rp_User c = [] then Some ReportNeedsAddress else None)
      else if report_SourceName c = ''platform'' then None
      else Some (BadReportSource (rp_Source c)))"

text \<open>Times in seconds.\<close>

definition report_timeout :: "report_config \<Rightarrow> int" where "report_timeout c = dur_or (rp_Timeout c) 30"

definition report_maxRows :: "report_config \<Rightarrow> int" where
  "report_maxRows c = (if rp_MaxRows c \<le> 0 then 10000 else rp_MaxRows c)"

definition report_maxOpen :: "report_config \<Rightarrow> int" where
  "report_maxOpen c = (if rp_MaxOpenConns c \<le> 0 then 8 else rp_MaxOpenConns c)"

definition report_Static :: "report_config \<Rightarrow> report_target" where
  "report_Static c = \<lparr>rt_Addr = rp_Addr c, rt_DB = rp_DB c, rt_User = rp_User c, rt_Password = rp_Password c\<rparr>"

definition report_place :: "start \<Rightarrow> report_config \<Rightarrow> report_error + report_target" where
  "report_place w c =
     (if report_SourceName c = ''static'' then Inr (report_Static c)
      else case infraDocument w ''report.source platform'' of
          Inl e \<Rightarrow> Inl (ReportTarget e)
        | Inr doc \<Rightarrow>
            if in_sr_Addr doc = [] \<or> in_sr_DB doc = [] \<or> in_sr_User doc = [] then Inl ReportIncomplete
            else if in_sr_PasswordEnv doc \<noteq> [] \<and> st_env w (in_sr_PasswordEnv doc) = [] then Inl (NoReportPassword (in_sr_PasswordEnv doc))
            else Inr \<lparr>rt_Addr = rewrite_by (st_marker w) (in_sr_Addr doc), rt_DB = in_sr_DB doc, rt_User = in_sr_User doc,
              rt_Password = (if in_sr_PasswordEnv doc = [] then [] else st_env w (in_sr_PasswordEnv doc))\<rparr>)"

definition report_tenant :: "start \<Rightarrow> report_config \<Rightarrow> string" where
  "report_tenant w c = (if tenant_of w = [] \<and> report_SourceName c = ''static'' then ''tenant_a'' else tenant_of w)"

text \<open>A client. \<open>ping\<close>: what the first contact with the server answers.\<close>

record report_client =
  cl_tenant :: string
  cl_timeout :: int
  cl_maxRows :: int
  cl_dbName :: string

definition report_Open :: "(report_target \<Rightarrow> string option) \<Rightarrow> report_target \<Rightarrow> report_config \<Rightarrow> string \<Rightarrow> report_error + report_client" where
  "report_Open ping t c tenant =
     (if rt_Addr t = [] \<or> rt_DB t = [] \<or> rt_User t = [] then Inl TargetIncomplete
      else if tenant = [] then Inl NoTenantCode
      else case ping t of
          Some e \<Rightarrow> Inl (ReportFailed e)
        | None \<Rightarrow> Inr \<lparr>cl_tenant = tenant, cl_timeout = report_timeout c, cl_maxRows = report_maxRows c, cl_dbName = rt_DB t\<rparr>)"

definition openReport :: "(report_target \<Rightarrow> string option) \<Rightarrow> start \<Rightarrow> report_config \<Rightarrow> report_error + report_client option" where
  "openReport ping w c =
     (if \<not> rp_Enabled c then Inr None
      else case report_Validate c of
          Some e \<Rightarrow> Inl e
        | None \<Rightarrow>
            (case report_place w c of
               Inl e \<Rightarrow> Inl e
             | Inr t \<Rightarrow> map_sum id Some (report_Open ping t c (report_tenant w c))))"

section \<open>The check of a statement\<close>

text \<open>
  A word of a case-insensitive expression: \<^verbatim>\<open>s\<close> is also the long s of Unicode, two bytes
  in UTF-8. The rest of the text after the word.
\<close>

fun match_word :: "string \<Rightarrow> string \<Rightarrow> string option" where
  "match_word [] s = Some s"
| "match_word (p # ps) [] = None"
| "match_word (p # ps) (c # s) =
     (if lower_char c = p then match_word ps s
      else if p = CHR ''s'' \<and> c = CHR 0xC5 \<and> s \<noteq> [] \<and> hd s = CHR 0xBF then match_word ps (tl s) else None)"

definition ends_word :: "string \<Rightarrow> bool" where
  "ends_word s \<longleftrightarrow> s = [] \<or> \<not> word_char (hd s)"

definition keyword_at :: "string \<Rightarrow> bool" where
  "keyword_at s \<longleftrightarrow> list_ex (\<lambda>k. case match_word k s of None \<Rightarrow> False | Some r \<Rightarrow> ends_word r) [''select'', ''with'']"

text \<open>
  \<^verbatim>\<open>leading\<close>: blanks and comments, then the word. The expression matches when any reading
  of it does, so a comment may be taken to end at any \<^verbatim>\<open>*/\<close>, not only at the next.
\<close>

function leads :: "string \<Rightarrow> bool" and in_comment :: "string \<Rightarrow> bool" where
  "leads s =
     (let t = dropWhile re_space s
      in keyword_at t \<or>
         (if has_prefix t ''--'' then
            (case dropWhile (\<lambda>c. c \<noteq> CHR 0x0A) (drop 2 t) of [] \<Rightarrow> False | _ # r \<Rightarrow> leads r)
          else if has_prefix t ''/*'' then in_comment (drop 2 t) else False))"
| "in_comment [] = False"
| "in_comment (c # r) = (has_prefix (c # r) ''*/'' \<and> leads (drop 1 r) \<or> in_comment r)"
  by pat_completeness auto

termination
proof (relation "measure (case_sum length length)", goal_cases)
  case (2 s t x r)
  have "length (dropWhile (\<lambda>c. c \<noteq> CHR 0x0A) (drop 2 t)) \<le> length (drop 2 t)" by (rule length_dropWhile_le)
  with 2 have "Suc (length r) \<le> length t" by simp
  moreover have "length t \<le> length s" using 2 length_dropWhile_le by metis
  ultimately show ?case by simp
next
  case (3 s t)
  then have "2 \<le> length t" by (auto simp: has_prefix_iff)
  moreover have "length t \<le> length s" using 3 length_dropWhile_le by metis
  ultimately show ?case by simp
qed simp_all

definition leading :: "string \<Rightarrow> bool" where "leading q \<longleftrightarrow> leads q"

text \<open>\<^verbatim>\<open>tenantPH\<close>: the placeholder, wherever it stands.\<close>

definition tenant_at :: "string \<Rightarrow> bool" where
  "tenant_at s \<longleftrightarrow> has_prefix s '':tenant'' \<and> ends_word (drop 7 s)"

fun tenantPH :: "string \<Rightarrow> bool" where
  "tenantPH [] = False"
| "tenantPH (c # s) = (tenant_at (c # s) \<or> tenantPH s)"

definition quote_char :: "char \<Rightarrow> bool" where
  "quote_char c \<longleftrightarrow> c = CHR 0x27 \<or> c = CHR 0x22 \<or> c = CHR 0x60"

text \<open>
  The pass over the statement: the open quote, the text, the arguments not used yet; the
  text and the arguments that go out, and those that are left. None: too few arguments.
\<close>

function fill :: "'a \<Rightarrow> char option \<Rightarrow> string \<Rightarrow> 'a list \<Rightarrow> (string \<times> 'a list \<times> 'a list) option" where
  "fill tv str [] args = Some ([], [], args)"
| "fill tv (Some q) (c # s) args =
     map_option (map_prod ((#) c) id) (fill tv (if c = q then None else Some q) s args)"
| "fill tv None (c # s) args =
     (if quote_char c then map_option (map_prod ((#) c) id) (fill tv (Some c) s args)
      else if c = CHR ''?'' then
        (case args of [] \<Rightarrow> None | a # as \<Rightarrow> map_option (map_prod ((#) c) (map_prod ((#) a) id)) (fill tv None s as))
      else if tenant_at (c # s) then map_option (map_prod ((#) CHR ''?'') (map_prod ((#) tv) id)) (fill tv None (drop 6 s) args)
      else map_option (map_prod ((#) c) id) (fill tv None s args))"
  by pat_completeness auto

termination by (relation "measure (\<lambda>(tv, str, s, args). length s)") auto

definition prepare_statement :: "'a \<Rightarrow> string \<Rightarrow> 'a list \<Rightarrow> report_error + string \<times> 'a list" where
  "prepare_statement tv q args =
     (if \<not> leading q then Inl NotReadOnly
      else if \<not> tenantPH q then Inl NoTenant
      else case fill tv None q args of
          None \<Rightarrow> Inl (TooManyMarks (length args))
        | Some (t, out, rest) \<Rightarrow>
            if rest \<noteq> [] then Inl (MarksLeft (length args - length rest) (length args)) else Inr (t, out))"

section \<open>Rows into Go values\<close>

text \<open>
  What a query scans into: the fields of a struct, named by a tag or by their own name in
  snake case, those of an embedded struct among them; or a scalar.
\<close>

datatype gofield = Field string string bool | Embedded bool "gofield list"

datatype element = Struct "gofield list" | Scalar

definition field_name :: "string \<Rightarrow> string \<Rightarrow> string" where
  "field_name f tag = (if tag = [] then snake_from None f else tag)"

text \<open>\<^verbatim>\<open>walk\<close>: names and index paths, in the order of the writes into the map.\<close>

fun walk_field :: "nat list \<Rightarrow> nat \<Rightarrow> gofield \<Rightarrow> (string \<times> nat list) list"
  and walk_fields :: "nat list \<Rightarrow> nat \<Rightarrow> gofield list \<Rightarrow> (string \<times> nat list) list" where
  "walk_field prefix i (Field f tag exported) =
     (if \<not> exported \<or> field_name f tag = ''-'' then [] else [(to_lower (field_name f tag), prefix @ [i])])"
| "walk_field prefix i (Embedded exported fs) = (if exported then walk_fields (prefix @ [i]) 0 fs else [])"
| "walk_fields prefix i [] = []"
| "walk_fields prefix i (f # fs) = walk_field prefix i f @ walk_fields prefix (Suc i) fs"

definition byName :: "gofield list \<Rightarrow> string \<Rightarrow> nat list option" where
  "byName fs col = map_of (rev (walk_fields [] 0 fs)) (to_lower col)"

fun field_paths :: "gofield list \<Rightarrow> string list \<Rightarrow> report_error + nat list list" where
  "field_paths fs [] = Inr []"
| "field_paths fs (col # cols) =
     (case byName fs col of
        None \<Rightarrow> Inl (ColumnUnknown col)
      | Some p \<Rightarrow> map_sum id ((#) p) (field_paths fs cols))"

definition scan_paths :: "element \<Rightarrow> string list \<Rightarrow> report_error + nat list list" where
  "scan_paths elem cols =
     (case elem of
        Struct fs \<Rightarrow> field_paths fs cols
      | Scalar \<Rightarrow> if length cols \<noteq> 1 then Inl (TooManyColumns (length cols)) else Inr [[]])"

text \<open>
  The rows as they come: \<open>scan\<close> one into a value at these paths; \<open>n\<close> have been taken. The
  values in the slice, and the error. \<open>broken\<close>: the error after the last row, if any.
\<close>

fun scan_rows :: "('r \<Rightarrow> string + 'v) \<Rightarrow> int \<Rightarrow> string option \<Rightarrow> nat \<Rightarrow> 'r list \<Rightarrow> 'v list \<times> report_error option" where
  "scan_rows scan maxRows broken n [] = ([], map_option ReportFailed broken)"
| "scan_rows scan maxRows broken n (r # rs) =
     (if int n \<ge> maxRows then ([], Some TooManyRows)
      else case scan r of
          Inl e \<Rightarrow> ([], Some (ReportFailed e))
        | Inr v \<Rightarrow> map_prod ((#) v) id (scan_rows scan maxRows broken (Suc n) rs))"

section \<open>A query\<close>

text \<open>
  The answer of the server to a statement with its arguments: the columns, the rows, how
  the rows end. \<open>scan\<close>: a row into a value at these index paths.
\<close>

record 'r reply_rows =
  rr_cols :: "string list"
  rr_rows :: "'r list"
  rr_end :: "string option"

record ('a, 'r, 'v) report_lib =
  rl_query :: "string \<Rightarrow> 'a list \<Rightarrow> string + 'r reply_rows"
  rl_scan :: "nat list list \<Rightarrow> 'r \<Rightarrow> string + 'v"
  rl_tenant :: "string \<Rightarrow> 'a"

definition report_Query ::
  "('a, 'r, 'v) report_lib \<Rightarrow> report_client \<Rightarrow> element \<Rightarrow> string \<Rightarrow> 'a list \<Rightarrow> 'v list \<times> report_error option" where
  "report_Query L c elem q args =
     (case prepare_statement (rl_tenant L (cl_tenant c)) q args of
        Inl e \<Rightarrow> ([], Some e)
      | Inr (t, out) \<Rightarrow>
          (case rl_query L t out of
             Inl e \<Rightarrow> ([], Some (ReportFailed e))
           | Inr rows \<Rightarrow>
               (case scan_paths elem (rr_cols rows) of
                  Inl e \<Rightarrow> ([], Some e)
                | Inr ps \<Rightarrow> scan_rows (rl_scan L ps) (cl_maxRows c) (rr_end rows) 0 (rr_rows rows))))"

definition report_QueryRow ::
  "('a, 'r, 'v) report_lib \<Rightarrow> report_client \<Rightarrow> element \<Rightarrow> string \<Rightarrow> 'a list \<Rightarrow> report_error + 'v" where
  "report_QueryRow L c elem q args =
     (case report_Query L c elem q args of
        (_, Some e) \<Rightarrow> Inl e
      | ([], None) \<Rightarrow> Inl NoRows
      | (v # _, None) \<Rightarrow> Inr v)"

section \<open>What a statement means\<close>

text \<open>
  The statement as the server reads it, quoted text apart: its bytes, and the values in the
  places of the marks; the code's \<open>:tenant\<close> read the same way.
\<close>

datatype 'a statement_piece = Byte char | Val 'a

function bind_marks :: "char option \<Rightarrow> string \<Rightarrow> 'a list \<Rightarrow> 'a statement_piece list option" where
  "bind_marks str [] args = (if args = [] then Some [] else None)"
| "bind_marks (Some q) (c # s) args = map_option ((#) (Byte c)) (bind_marks (if c = q then None else Some q) s args)"
| "bind_marks None (c # s) args =
     (if quote_char c then map_option ((#) (Byte c)) (bind_marks (Some c) s args)
      else if c = CHR ''?'' then (case args of [] \<Rightarrow> None | a # as \<Rightarrow> map_option ((#) (Val a)) (bind_marks None s as))
      else map_option ((#) (Byte c)) (bind_marks None s args))"
  by pat_completeness auto

termination by (relation "measure (\<lambda>(str, s, args). length s)") auto

function bind_tenant :: "'a \<Rightarrow> char option \<Rightarrow> string \<Rightarrow> 'a list \<Rightarrow> 'a statement_piece list option" where
  "bind_tenant tv str [] args = (if args = [] then Some [] else None)"
| "bind_tenant tv (Some q) (c # s) args = map_option ((#) (Byte c)) (bind_tenant tv (if c = q then None else Some q) s args)"
| "bind_tenant tv None (c # s) args =
     (if tenant_at (c # s) then map_option ((#) (Val tv)) (bind_tenant tv None (drop 6 s) args)
      else if quote_char c then map_option ((#) (Byte c)) (bind_tenant tv (Some c) s args)
      else if c = CHR ''?'' then (case args of [] \<Rightarrow> None | a # as \<Rightarrow> map_option ((#) (Val a)) (bind_tenant tv None s as))
      else map_option ((#) (Byte c)) (bind_tenant tv None s args))"
  by pat_completeness auto

termination by (relation "measure (\<lambda>(tv, str, s, args). length s)") auto

lemma colon_not_quote [simp]: "\<not> quote_char CHR '':''"
  by (simp add: quote_char_def)

lemma tenant_at_colon: "tenant_at (c # s) \<Longrightarrow> c = CHR '':'' \<and> \<not> quote_char c"
  by (simp add: tenant_at_def quote_char_def)

text \<open>What goes out means what was written, and something goes out exactly when that has a meaning.\<close>

definition refill :: "char option \<Rightarrow> (string \<times> 'a list \<times> 'a list) option \<Rightarrow> 'a statement_piece list option" where
  "refill str r = (case r of Some (t, out, []) \<Rightarrow> bind_marks str t out | _ \<Rightarrow> None)"

lemma refill_simps [simp]:
  "refill str None = None"
  "refill str (Some (t, out, [])) = bind_marks str t out"
  "refill str (Some (t, out, a # as)) = None"
  by (simp_all add: refill_def)

lemma refill_byte:
  fixes x :: "(string \<times> 'a list \<times> 'a list) option"
  assumes "\<And>t (out :: 'a list). bind_marks str (c # t) out = map_option ((#) (Byte c)) (bind_marks str' t out)"
  shows "refill str (map_option (map_prod ((#) c) id) x) = map_option ((#) (Byte c)) (refill str' x)"
proof (cases x)
  case (Some y)
  then obtain t out r where "x = Some (t, out, r)" by (cases y) auto
  with assms show ?thesis by (cases r) simp_all
qed simp

lemma refill_mark:
  "refill None (map_option (map_prod ((#) CHR ''?'') (map_prod ((#) a) id)) x) = map_option ((#) (Val a)) (refill None x)"
proof (cases x)
  case (Some y)
  then obtain t out r where "x = Some (t, out, r)" by (cases y) auto
  then show ?thesis by (cases r) (simp_all add: quote_char_def)
qed simp

lemma fill_bind: "refill str (fill tv str s args) = bind_tenant tv str s args"
proof (induction tv str s args rule: fill.induct)
  case (1 tv str args)
  then show ?case by (cases args) simp_all
next
  case (2 tv q c s args)
  have "refill (Some q) (map_option (map_prod ((#) c) id) (fill tv (if c = q then None else Some q) s args)) =
      map_option ((#) (Byte c)) (refill (if c = q then None else Some q) (fill tv (if c = q then None else Some q) s args))"
    by (rule refill_byte) simp
  with 2 show ?case by simp
next
  case (3 tv c s args)
  consider (tenant) "tenant_at (c # s)" | (quote) "\<not> tenant_at (c # s)" "quote_char c"
    | (mark) "\<not> tenant_at (c # s)" "\<not> quote_char c" "c = CHR ''?''" | (other) "\<not> tenant_at (c # s)" "\<not> quote_char c" "c \<noteq> CHR ''?''"
    by blast
  then show ?case
  proof cases
    case tenant
    note c = tenant_at_colon [OF this]
    with tenant 3(3) show ?thesis by (simp add: refill_mark)
  next
    case quote
    with 3(1) show ?thesis by (simp add: refill_byte [where str = None and str' = "Some c"])
  next
    case mark
    with 3(2) show ?thesis by (cases args) (simp_all add: refill_mark)
  next
    case other
    with 3(4) show ?thesis by (simp add: refill_byte [where str = None and str' = None])
  qed
qed

lemma fill_marks: "fill tv str s args = Some (t, out, r) \<Longrightarrow> bind_marks str t out \<noteq> None"
proof (induction tv str s args arbitrary: t out r rule: fill.induct)
  case (1 tv str args)
  then show ?case by simp
next
  case (2 tv q c s args)
  from "2.prems" obtain u where "t = c # u" "fill tv (if c = q then None else Some q) s args = Some (u, out, r)" by auto
  with "2.IH" [of u out r] show ?case by simp
next
  case (3 tv c s args)
  consider (tenant) "tenant_at (c # s)" | (quote) "\<not> tenant_at (c # s)" "quote_char c"
    | (mark) "\<not> tenant_at (c # s)" "\<not> quote_char c" "c = CHR ''?''" | (other) "\<not> tenant_at (c # s)" "\<not> quote_char c" "c \<noteq> CHR ''?''"
    by blast
  then show ?case
  proof cases
    case tenant
    note c = tenant_at_colon [OF this]
    with tenant "3.prems" obtain u o' where "t = CHR ''?'' # u" "out = tv # o'" "fill tv None (drop 6 s) args = Some (u, o', r)" by auto
    with "3.IH"(3) tenant c show ?thesis by (simp add: quote_char_def)
  next
    case quote
    with "3.prems" obtain u where "t = c # u" "fill tv (Some c) s args = Some (u, out, r)" by auto
    with "3.IH"(1) quote show ?thesis by simp
  next
    case mark
    with "3.prems" obtain a as u o' where "args = a # as" "t = CHR ''?'' # u" "out = a # o'" "fill tv None s as = Some (u, o', r)"
      by (auto split: list.splits)
    with "3.IH"(2) mark show ?thesis by (simp add: quote_char_def)
  next
    case other
    with "3.prems" obtain u where "t = c # u" "fill tv None s args = Some (u, out, r)" by auto
    with "3.IH"(4) other show ?thesis by simp
  qed
qed

lemma prepare_means:
  "prepare_statement tv q args = Inr (t, out) \<Longrightarrow>
     leading q \<and> tenantPH q \<and> bind_tenant tv None q args \<noteq> None \<and> bind_marks None t out = bind_tenant tv None q args"
proof -
  assume "prepare_statement tv q args = Inr (t, out)"
  then have f: "leading q" "tenantPH q" "fill tv None q args = Some (t, out, [])"
    by (auto simp: prepare_statement_def split: if_split_asm option.splits)
  with fill_bind [of None tv q args] have "bind_marks None t out = bind_tenant tv None q args" by simp
  moreover have "bind_marks None t out \<noteq> None" by (rule fill_marks [OF f(3)])
  ultimately show ?thesis using f by simp
qed

lemma scan_rows_all:
  "scan_rows scan m broken n rs = (vs, None) \<Longrightarrow>
     map scan rs = map Inr vs \<and> broken = None \<and> (rs = [] \<or> int (n + length rs) \<le> m)"
proof (induction rs arbitrary: n vs)
  case (Cons r rs)
  from Cons.prems obtain v ws where "int n < m" "scan r = Inr v" "scan_rows scan m broken (Suc n) rs = (ws, None)" "vs = v # ws"
    by (cases "scan_rows scan m broken (Suc n) rs") (auto split: if_split_asm sum.splits)
  with Cons.IH [of "Suc n" ws] show ?case by auto
qed simp

section \<open>The client\<close>

lemma openReport_client:
  assumes "openReport ping w c = Inr (Some k)"
  shows "cl_tenant k = report_tenant w c \<and> cl_tenant k \<noteq> [] \<and> 0 < cl_maxRows k"
  using assms
  by (auto simp: openReport_def report_Open_def report_maxRows_def split: if_split_asm option.splits sum.splits)

text \<open>Without \<^verbatim>\<open>TENANT_CODE\<close> a static source reads a tenant of its own choice, on any machine.\<close>

lemma static_source_defaults_tenant:
  "tenant_of w = [] \<Longrightarrow> report_SourceName c = ''static'' \<Longrightarrow> report_tenant w c = ''tenant_a''"
  by (simp add: report_tenant_def)

text \<open>
  Where the check is weaker than it says. A placeholder in quotes satisfies it and filters
  nothing; a comment that is taken to end later hides the statement; an apostrophe in a
  comment opens a quote, and the placeholder after it stays as it is.
\<close>

lemma quoted_tenant_unfiltered:
  "prepare_statement ''t1'' (''select * from t where n = '' @ [CHR 0x27] @ '':tenant'' @ [CHR 0x27]) [] =
     Inr (''select * from t where n = '' @ [CHR 0x27] @ '':tenant'' @ [CHR 0x27], [])"
  by code_simp

lemma comment_hides_statement:
  "prepare_statement ''t1'' ''/**/insert into a /**/select * from b where c = :tenant'' [] =
     Inr (''/**/insert into a /**/select * from b where c = ?'', [''t1''])"
  by code_simp

lemma apostrophe_in_comment_unbinds:
  "prepare_statement ''t1'' (''-- it'' @ [CHR 0x27] @ ''s'' @ [CHR 0x0A] @ ''select a from b where c = :tenant'') [] =
     Inr (''-- it'' @ [CHR 0x27] @ ''s'' @ [CHR 0x0A] @ ''select a from b where c = :tenant'', [])"
  by code_simp

text \<open>
  C18. What a report answers. When \<^verbatim>\<open>Query\<close> succeeds, the statement passed the
  check, and what was sent means what was written with this deployment's tenant in the place
  of each \<^verbatim>\<open>:tenant\<close> outside quotes and the arguments, all of them, in the places of the
  marks; every row of the answer is in the result, in its order, and there are no more than
  the limit. A longer answer, a column without a field, a row that does not fit or an answer
  that breaks off is an error.
\<close>

theorem report_query_answers:
  assumes ok: "report_Query L c elem q args = (vs, None)"
  shows "\<exists>t out rows ps meaning. leading q \<and> tenantPH q \<and>
    bind_tenant (rl_tenant L (cl_tenant c)) None q args = Some meaning \<and> bind_marks None t out = Some meaning \<and>
    rl_query L t out = Inr rows \<and> rr_end rows = None \<and>
    scan_paths elem (rr_cols rows) = Inr ps \<and> map (rl_scan L ps) (rr_rows rows) = map Inr vs \<and>
    int (length vs) \<le> max 0 (cl_maxRows c)"
proof -
  obtain t out where p: "prepare_statement (rl_tenant L (cl_tenant c)) q args = Inr (t, out)"
    using ok by (auto simp: report_Query_def split: sum.splits)
  obtain rows where r: "rl_query L t out = Inr rows" using ok p by (auto simp: report_Query_def split: sum.splits)
  obtain ps where s: "scan_paths elem (rr_cols rows) = Inr ps" using ok p r by (auto simp: report_Query_def split: sum.splits)
  have sc: "scan_rows (rl_scan L ps) (cl_maxRows c) (rr_end rows) 0 (rr_rows rows) = (vs, None)"
    using ok p r s by (simp add: report_Query_def)
  note all = scan_rows_all [OF sc]
  then have "length vs = length (rr_rows rows)" by (metis length_map)
  with all have "int (length vs) \<le> max 0 (cl_maxRows c)" by auto
  moreover obtain m where m: "bind_tenant (rl_tenant L (cl_tenant c)) None q args = Some m" "bind_marks None t out = Some m"
    using prepare_means [OF p] by auto
  ultimately show ?thesis
    using prepare_means [OF p] r s all
    by (intro exI [of _ t] exI [of _ out] exI [of _ rows] exI [of _ ps] exI [of _ m]) simp
qed

definition sample_report :: "(string, string, string) report_lib" where
  "sample_report = \<lparr>rl_query = (\<lambda>t out. Inr \<lparr>rr_cols = [''Name''], rr_rows = [''ann'', ''bob''], rr_end = None\<rparr>),
     rl_scan = (\<lambda>ps r. Inr r), rl_tenant = id\<rparr>"

definition sample_client :: report_client where
  "sample_client = \<lparr>cl_tenant = ''tenant_a'', cl_timeout = 30, cl_maxRows = 2, cl_dbName = ''report''\<rparr>"

lemma sample_query:
  "report_Query sample_report sample_client (Struct [Field ''Name'' [] True]) ''SELECT name FROM m WHERE t = :tenant'' [] = ([''ann'', ''bob''], None)"
  by code_simp

theorem report_query_answers_witness:
  "\<exists>t out meaning. bind_tenant ''tenant_a'' None ''SELECT name FROM m WHERE t = :tenant'' [] = Some meaning \<and>
     bind_marks None t out = Some meaning"
proof -
  have "rl_tenant sample_report (cl_tenant sample_client) = ''tenant_a''" by code_simp
  with report_query_answers [OF sample_query] obtain t out m where
    "bind_tenant ''tenant_a'' None ''SELECT name FROM m WHERE t = :tenant'' [] = Some m" "bind_marks None t out = Some m"
    by (elim exE conjE) (simp only:)
  then show ?thesis by (intro exI conjI)
qed

end
