(* ===== verification/Redis.thy ===== *)
theory Redis
  imports Prelude
begin

text \<open>
  Redis as the services use it. The server is not part of the repository: it is a
  parameter \<open>exec\<close>, which runs a list of commands (one command, a pipeline or a
  MULTI / EXEC transaction) on an unknown server state and either answers or fails.
  What the code relies on is the locale \<open>redis_server\<close>: \<open>store\<close> reads the live keys
  of the server state, an answered list of commands has had exactly the documented effect
  of its commands, in order, and a failed one has had either all of it or none (the
  connection may break before or after the server ran it). Keys may also expire between
  two calls; that is a step of the environment, stated where it matters.

  The Lua scripts of the repository (\<^verbatim>\<open>redisx/lock.go\<close>, \<^verbatim>\<open>idx/idx.go\<close>)
  have one shape, \<open>if <test on the value of KEYS[1]> then return <command> else return 0\<close>;
  the command \<open>EVAL\<close> carries that shape.
\<close>

section \<open>Commands and replies\<close>

datatype lua_test = GetEquals | GetFind
datatype lua_then = CallPexpire | CallDel

datatype cmd =
    GET string
  | SET string string int        \<comment> \<open>key, value, time to live in ms (0: none)\<close>
  | SETNX string string int
  | DEL "string list"
  | EXISTS string
  | PEXPIRE string int
  | INCR string
  | SADD string string
  | SREM string string
  | SMEMBERS string
  | EVAL lua_test lua_then string string int  \<comment> \<open>script, KEYS[1], ARGV[1], ARGV[2]\<close>

datatype reply = RNil | RBulk string | RInt int | ROk | RList "string list" | RErr

datatype redis_err = RedisDown | RedisProto

text \<open>The live keys: string values, sets (members in the server's order), times to live.\<close>

record rstate =
  kv :: "string \<Rightarrow> string option"
  sets :: "string \<Rightarrow> string list"
  ttl :: "string \<Rightarrow> int option"

definition empty_rstate :: rstate where
  "empty_rstate = \<lparr>kv = (\<lambda>_. None), sets = (\<lambda>_. []), ttl = (\<lambda>_. None)\<rparr>"

definition has_key :: "rstate \<Rightarrow> string \<Rightarrow> bool" where
  "has_key r k \<longleftrightarrow> kv r k \<noteq> None \<or> sets r k \<noteq> []"

definition set_key :: "string \<Rightarrow> string \<Rightarrow> int \<Rightarrow> rstate \<Rightarrow> rstate" where
  "set_key k v t r = r\<lparr>kv := (kv r)(k := Some v), sets := (sets r)(k := []),
     ttl := (ttl r)(k := (if t > 0 then Some t else None))\<rparr>"

definition del_key :: "string \<Rightarrow> rstate \<Rightarrow> rstate" where
  "del_key k r = r\<lparr>kv := (kv r)(k := None), sets := (sets r)(k := []), ttl := (ttl r)(k := None)\<rparr>"

definition expire_key :: "string \<Rightarrow> int \<Rightarrow> rstate \<Rightarrow> rstate" where
  "expire_key k t r = (if has_key r k then r\<lparr>ttl := (ttl r)(k := Some t)\<rparr> else r)"

fun lua_holds :: "lua_test \<Rightarrow> string option \<Rightarrow> string \<Rightarrow> bool" where
  "lua_holds GetEquals v a = (v = Some a)"
| "lua_holds GetFind v a = contains (case v of None \<Rightarrow> [] | Some s \<Rightarrow> s) a"

text \<open>The documented effect of a command on the live keys, and its reply.\<close>

fun apply_cmd :: "cmd \<Rightarrow> rstate \<Rightarrow> reply \<times> rstate" where
  "apply_cmd (GET k) r = ((case kv r k of None \<Rightarrow> RNil | Some v \<Rightarrow> RBulk v), r)"
| "apply_cmd (SET k v t) r = (ROk, set_key k v t r)"
| "apply_cmd (SETNX k v t) r =
     (if has_key r k then (RInt 0, r) else (RInt 1, set_key k v t r))"
| "apply_cmd (DEL ks) r =
     (RInt (int (length (filter (has_key r) (remdups ks)))), fold del_key ks r)"
| "apply_cmd (EXISTS k) r = (RInt (if has_key r k then 1 else 0), r)"
| "apply_cmd (PEXPIRE k t) r = (RInt (if has_key r k then 1 else 0), expire_key k t r)"
| "apply_cmd (INCR k) r =
     (case kv r k of
        None \<Rightarrow> (RInt 1, r\<lparr>kv := (kv r)(k := Some (show_int 1))\<rparr>)
      | Some v \<Rightarrow> (case parse_int v of
            None \<Rightarrow> (RErr, r)
          | Some i \<Rightarrow> (RInt (i + 1), r\<lparr>kv := (kv r)(k := Some (show_int (i + 1)))\<rparr>)))"
| "apply_cmd (SADD k m) r =
     (if m \<in> set (sets r k) then (RInt 0, r)
      else (RInt 1, r\<lparr>sets := (sets r)(k := sets r k @ [m])\<rparr>))"
| "apply_cmd (SREM k m) r =
     (RInt (if m \<in> set (sets r k) then 1 else 0),
      r\<lparr>sets := (sets r)(k := filter (\<lambda>x. x \<noteq> m) (sets r k))\<rparr>)"
| "apply_cmd (SMEMBERS k) r = (RList (sets r k), r)"
| "apply_cmd (EVAL t a k v n) r =
     (if lua_holds t (kv r k) v
      then (case a of CallPexpire \<Rightarrow> (RInt (if has_key r k then 1 else 0), expire_key k n r)
                    | CallDel \<Rightarrow> (RInt (if has_key r k then 1 else 0), del_key k r))
      else (RInt 0, r))"

fun run_cmds :: "cmd list \<Rightarrow> rstate \<Rightarrow> reply list \<times> rstate" where
  "run_cmds [] r = ([], r)"
| "run_cmds (c # cs) r =
     (case apply_cmd c r of (a, r') \<Rightarrow> (case run_cmds cs r' of (as, r'') \<Rightarrow> (a # as, r'')))"

type_synonym 's exec = "cmd list \<Rightarrow> 's \<Rightarrow> (redis_err + reply list) \<times> 's"

section \<open>The client's calls\<close>

text \<open>
  One command through the client: the error, or its reply read as the Go type. The
  \<^verbatim>\<open>redis.Nil\<close> error of the client for a missing key is \<open>Inr None\<close>.
\<close>

definition call1 :: "'s exec \<Rightarrow> cmd \<Rightarrow> (reply \<Rightarrow> 'a option) \<Rightarrow> 's \<Rightarrow> (redis_err + 'a) \<times> 's" where
  "call1 exec c rd s =
     (case exec [c] s of
        (Inl e, s') \<Rightarrow> (Inl e, s')
      | (Inr rs, s') \<Rightarrow>
          ((case rs of [a] \<Rightarrow> (case rd a of Some x \<Rightarrow> Inr x | None \<Rightarrow> Inl RedisProto)
                     | _ \<Rightarrow> Inl RedisProto), s'))"

fun read_bulk :: "reply \<Rightarrow> string option option" where
  "read_bulk RNil = Some None"
| "read_bulk (RBulk v) = Some (Some v)"
| "read_bulk _ = None"

fun read_int :: "reply \<Rightarrow> int option" where
  "read_int (RInt i) = Some i"
| "read_int _ = None"

fun read_bool :: "reply \<Rightarrow> bool option" where
  "read_bool (RInt i) = Some (i \<noteq> 0)"
| "read_bool _ = None"

fun read_ok :: "reply \<Rightarrow> unit option" where
  "read_ok ROk = Some ()"
| "read_ok _ = None"

fun read_list :: "reply \<Rightarrow> string list option" where
  "read_list (RList xs) = Some xs"
| "read_list _ = None"

definition r_get :: "'s exec \<Rightarrow> string \<Rightarrow> 's \<Rightarrow> (redis_err + string option) \<times> 's" where
  "r_get exec k = call1 exec (GET k) read_bulk"

definition r_set :: "'s exec \<Rightarrow> string \<Rightarrow> string \<Rightarrow> int \<Rightarrow> 's \<Rightarrow> (redis_err + unit) \<times> 's" where
  "r_set exec k v t = call1 exec (SET k v t) read_ok"

definition r_setnx :: "'s exec \<Rightarrow> string \<Rightarrow> string \<Rightarrow> int \<Rightarrow> 's \<Rightarrow> (redis_err + bool) \<times> 's" where
  "r_setnx exec k v t = call1 exec (SETNX k v t) read_bool"

definition r_del :: "'s exec \<Rightarrow> string list \<Rightarrow> 's \<Rightarrow> (redis_err + int) \<times> 's" where
  "r_del exec ks = call1 exec (DEL ks) read_int"

definition r_exists :: "'s exec \<Rightarrow> string \<Rightarrow> 's \<Rightarrow> (redis_err + int) \<times> 's" where
  "r_exists exec k = call1 exec (EXISTS k) read_int"

definition r_srem :: "'s exec \<Rightarrow> string \<Rightarrow> string \<Rightarrow> 's \<Rightarrow> (redis_err + int) \<times> 's" where
  "r_srem exec k m = call1 exec (SREM k m) read_int"

definition r_smembers :: "'s exec \<Rightarrow> string \<Rightarrow> 's \<Rightarrow> (redis_err + string list) \<times> 's" where
  "r_smembers exec k = call1 exec (SMEMBERS k) read_list"

definition r_eval ::
  "'s exec \<Rightarrow> lua_test \<times> lua_then \<Rightarrow> string \<Rightarrow> string \<Rightarrow> int \<Rightarrow> 's \<Rightarrow> (redis_err + int) \<times> 's" where
  "r_eval exec script k v n = call1 exec (EVAL (fst script) (snd script) k v n) read_int"

lemmas client_defs = r_get_def r_set_def r_setnx_def r_del_def r_exists_def r_srem_def
  r_smembers_def r_eval_def

section \<open>The contract\<close>

locale redis_server =
  fixes exec :: "cmd list \<Rightarrow> 's \<Rightarrow> (redis_err + reply list) \<times> 's"
    and store :: "'s \<Rightarrow> rstate"
  assumes exec_ok: "exec cs s = (Inr rs, s') \<Longrightarrow> run_cmds cs (store s) = (rs, store s')"
    and exec_err: "exec cs s = (Inl e, s') \<Longrightarrow>
      store s' = store s \<or> store s' = snd (run_cmds cs (store s))"
begin

lemma exec_store:
  assumes "exec cs s = (r, s')"
  shows "store s' = store s \<or> store s' = snd (run_cmds cs (store s))"
proof (cases r)
  case (Inl e)
  with assms show ?thesis by (simp add: exec_err)
next
  case (Inr rs)
  with assms have "run_cmds cs (store s) = (rs, store s')" by (simp add: exec_ok)
  then show ?thesis by simp
qed

lemma call1_ok:
  assumes "call1 exec c rd s = (Inr x, s')"
  shows "rd (fst (apply_cmd c (store s))) = Some x \<and> store s' = snd (apply_cmd c (store s))"
proof -
  obtain rs where e: "exec [c] s = (Inr rs, s')"
    using assms by (auto simp: call1_def split: prod.splits sum.splits)
  obtain a r' where a: "apply_cmd c (store s) = (a, r')" by (cases "apply_cmd c (store s)")
  from exec_ok [OF e] a have "rs = [a]" "store s' = r'" by auto
  with assms e a show ?thesis
    by (auto simp: call1_def split: option.splits)
qed

lemma call1_store:
  assumes "call1 exec c rd s = (r, s')"
  shows "store s' = store s \<or> store s' = snd (apply_cmd c (store s))"
proof -
  obtain a where e: "exec [c] s = (a, s')"
    using assms by (auto simp: call1_def split: prod.splits sum.splits)
  show ?thesis using exec_store [OF e] by (auto split: prod.splits)
qed

lemma get_ok: "r_get exec k s = (Inr v, s') \<Longrightarrow> v = kv (store s) k \<and> store s' = store s"
  by (auto simp: r_get_def split: option.splits dest!: call1_ok)

lemma get_store: "r_get exec k s = (r, s') \<Longrightarrow> store s' = store s"
  by (auto simp: r_get_def dest!: call1_store)

lemma set_ok: "r_set exec k v t s = (Inr u, s') \<Longrightarrow> store s' = set_key k v t (store s)"
  by (auto simp: r_set_def dest!: call1_ok)

lemma setnx_true:
  "r_setnx exec k v t s = (Inr True, s') \<Longrightarrow>
     \<not> has_key (store s) k \<and> store s' = set_key k v t (store s)"
  by (auto simp: r_setnx_def split: if_splits dest!: call1_ok)

lemma setnx_false:
  "r_setnx exec k v t s = (Inr False, s') \<Longrightarrow> has_key (store s) k \<and> store s' = store s"
  by (auto simp: r_setnx_def split: if_splits dest!: call1_ok)

lemma setnx_taken:
  assumes "has_key (store s) k" and "r_setnx exec k v t s = (r, s')"
  shows "r \<noteq> Inr True \<and> store s' = store s"
proof -
  from assms(2) have "store s' = store s \<or> store s' = snd (apply_cmd (SETNX k v t) (store s))"
    unfolding r_setnx_def by (rule call1_store)
  then have "store s' = store s" using assms(1) by auto
  moreover have "r \<noteq> Inr True" using assms setnx_true by blast
  ultimately show ?thesis by simp
qed

lemma set_store:
  "r_set exec k v t s = (r, s') \<Longrightarrow> store s' = store s \<or> store s' = set_key k v t (store s)"
  by (auto simp: r_set_def dest!: call1_store)

lemma del_store:
  "r_del exec ks s = (r, s') \<Longrightarrow> store s' = store s \<or> store s' = fold del_key ks (store s)"
  by (auto simp: r_del_def dest!: call1_store)

lemma call1_up:
  assumes "\<And>cs v. \<exists>rs v'. exec cs v = (Inr rs, v')"
  shows "\<exists>v'. exec [c] v = (Inr [fst (apply_cmd c (store v))], v') \<and> store v' = snd (apply_cmd c (store v))"
proof -
  obtain rs v' where e: "exec [c] v = (Inr rs, v')" using assms by blast
  obtain a r' where a: "apply_cmd c (store v) = (a, r')" by (cases "apply_cmd c (store v)")
  from exec_ok [OF e] a have "rs = [a]" "store v' = r'" by auto
  with e a show ?thesis by simp
qed

lemma setnx_free:
  assumes up: "\<And>cs v. \<exists>rs v'. exec cs v = (Inr rs, v')" and free: "\<not> has_key (store v) k"
  shows "\<exists>v'. r_setnx exec k x t v = (Inr True, v')"
  using call1_up [OF up, of "SETNX k x t" v] free by (auto simp: r_setnx_def call1_def)

lemma del_up:
  assumes up: "\<And>cs v. \<exists>rs v'. exec cs v = (Inr rs, v')"
  shows "\<exists>n v'. r_del exec ks v = (Inr n, v')"
  using call1_up [OF up, of "DEL ks" v] by (auto simp: r_del_def call1_def)

lemma del_ok: "r_del exec ks s = (Inr n, s') \<Longrightarrow> store s' = fold del_key ks (store s)"
  by (auto simp: r_del_def dest!: call1_ok)

lemma exists_ok:
  "r_exists exec k s = (Inr n, s') \<Longrightarrow>
     n = (if has_key (store s) k then 1 else 0) \<and> store s' = store s"
  by (auto simp: r_exists_def dest!: call1_ok)

lemma exists_store: "r_exists exec k s = (r, s') \<Longrightarrow> store s' = store s"
  by (auto simp: r_exists_def dest!: call1_store)

lemma smembers_ok:
  "r_smembers exec k s = (Inr xs, s') \<Longrightarrow> xs = sets (store s) k \<and> store s' = store s"
  by (auto simp: r_smembers_def dest!: call1_ok)

lemma smembers_store: "r_smembers exec k s = (r, s') \<Longrightarrow> store s' = store s"
  by (auto simp: r_smembers_def dest!: call1_store)

end

section \<open>Time\<close>

text \<open>What passing time leaves of the keys: those whose time to live is up are gone.\<close>

definition pass_time :: "int \<Rightarrow> rstate \<Rightarrow> rstate" where
  "pass_time d r =
     (let gone = (\<lambda>k. case ttl r k of None \<Rightarrow> False | Some t \<Rightarrow> t \<le> d)
      in \<lparr>kv = (\<lambda>k. if gone k then None else kv r k), sets = (\<lambda>k. if gone k then [] else sets r k),
          ttl = (\<lambda>k. case ttl r k of None \<Rightarrow> None | Some t \<Rightarrow> if t \<le> d then None else Some (t - d))\<rparr>)"

lemma pass_time_kept:
  assumes "ttl r k = Some t" and "d < t"
  shows "kv (pass_time d r) k = kv r k" "ttl (pass_time d r) k = Some (t - d)"
  using assms by (simp_all add: pass_time_def Let_def)

lemma pass_time_gone: "ttl r k = Some t \<Longrightarrow> t \<le> d \<Longrightarrow> \<not> has_key (pass_time d r) k"
  by (simp add: pass_time_def Let_def has_key_def)

section \<open>Lemmas on the live keys\<close>

lemma kv_set_key [simp]: "kv (set_key k v t r) = (kv r)(k := Some v)"
  and sets_set_key [simp]: "sets (set_key k v t r) = (sets r)(k := [])"
  and ttl_set_key [simp]: "ttl (set_key k v t r) = (ttl r)(k := (if t > 0 then Some t else None))"
  by (simp_all add: set_key_def)

lemma kv_del_key [simp]: "kv (del_key k r) = (kv r)(k := None)"
  and sets_del_key [simp]: "sets (del_key k r) = (sets r)(k := [])"
  and ttl_del_key [simp]: "ttl (del_key k r) = (ttl r)(k := None)"
  by (simp_all add: del_key_def)

lemma kv_expire_key [simp]: "kv (expire_key k t r) = kv r"
  and sets_expire_key [simp]: "sets (expire_key k t r) = sets r"
  by (simp_all add: expire_key_def)

lemma has_key_set_key [simp]: "has_key (set_key k v t r) k' \<longleftrightarrow> k' = k \<or> has_key r k'"
  by (auto simp: has_key_def)

lemma has_key_del_key [simp]: "has_key (del_key k r) k' \<longleftrightarrow> k' \<noteq> k \<and> has_key r k'"
  by (auto simp: has_key_def)

lemma has_key_kv: "kv r k = Some v \<Longrightarrow> has_key r k"
  by (simp add: has_key_def)

section \<open>An in-memory server\<close>

text \<open>
  A server that follows the documentation and fails on a schedule: each call takes the
  next entry, \<open>Up\<close> (or none left) answers, \<open>DownBefore\<close> fails without running the
  commands, \<open>DownAfter\<close> runs them and loses the answer. It plays the part of the
  in-process server the repository's tests use.
\<close>

datatype fault = Up | DownBefore | DownAfter

fun mem_exec :: "cmd list \<Rightarrow> fault list \<times> rstate \<Rightarrow> (redis_err + reply list) \<times> (fault list \<times> rstate)" where
  "mem_exec cs (DownBefore # fs, r) = (Inl RedisDown, (fs, r))"
| "mem_exec cs (DownAfter # fs, r) = (Inl RedisDown, (fs, snd (run_cmds cs r)))"
| "mem_exec cs (Up # fs, r) = (case run_cmds cs r of (rs, r') \<Rightarrow> (Inr rs, (fs, r')))"
| "mem_exec cs ([], r) = (case run_cmds cs r of (rs, r') \<Rightarrow> (Inr rs, ([], r')))"

interpretation mem: redis_server mem_exec snd
proof
  show "run_cmds cs (snd s) = (rs, snd s')" if "mem_exec cs s = (Inr rs, s')" for cs s rs s'
    using that by (cases "(cs, s)" rule: mem_exec.cases) (auto split: prod.splits)
  show "snd s' = snd s \<or> snd s' = snd (run_cmds cs (snd s))" if "mem_exec cs s = (Inl e, s')" for cs s e s'
    using that by (cases "(cs, s)" rule: mem_exec.cases) (auto split: prod.splits)
qed

text \<open>A server that never fails.\<close>

definition live_exec :: "rstate exec" where
  "live_exec cs r = (case run_cmds cs r of (rs, r') \<Rightarrow> (Inr rs, r'))"

interpretation live: redis_server live_exec "\<lambda>r. r"
  by unfold_locales (auto simp: live_exec_def split: prod.splits)

lemma live_up: "\<exists>rs v'. live_exec cs v = (Inr rs, v')"
  by (simp add: live_exec_def split: prod.splits)

end
