(* ===== verification/Base64.thy ===== *)
theory Base64
  imports Prelude
begin

text \<open>
  Go's \<^verbatim>\<open>encoding/base64\<close> (\<^verbatim>\<open>RawStdEncoding\<close>, \<^verbatim>\<open>StdEncoding\<close>) and
  \<^verbatim>\<open>encoding/hex\<close> as the password hashes and the callbacks use them. A string is a list
  of bytes. Decoding skips line ends and ignores the bits left over in the last group, as the
  package does without its strict mode.
\<close>

section \<open>The alphabet\<close>

definition b64_char :: "nat \<Rightarrow> char" where
  "b64_char n = (if n < 26 then char_of (65 + n) else if n < 52 then char_of (71 + n)
     else if n < 62 then char_of (n - 4) else if n = 62 then char_of (43 :: nat) else char_of (47 :: nat))"

definition b64_val :: "char \<Rightarrow> nat option" where
  "b64_val c = (let n = of_char c :: nat in
     if 65 \<le> n \<and> n \<le> 90 then Some (n - 65) else if 97 \<le> n \<and> n \<le> 122 then Some (n - 71)
     else if 48 \<le> n \<and> n \<le> 57 then Some (n + 4) else if n = 43 then Some 62
     else if n = 47 then Some 63 else None)"

lemma b64_val_char [simp]: "n < 64 \<Longrightarrow> b64_val (b64_char n) = Some n"
  by (auto simp: b64_val_def b64_char_def Let_def of_char_of)

section \<open>Groups of six bits\<close>

fun sextets :: "nat list \<Rightarrow> nat list" where
  "sextets [] = []"
| "sextets [a] = [a div 4, a mod 4 * 16]"
| "sextets [a, b] = [a div 4, a mod 4 * 16 + b div 16, b mod 16 * 4]"
| "sextets (a # b # c # r) =
     a div 4 # (a mod 4 * 16 + b div 16) # (b mod 16 * 4 + c div 64) # c mod 64 # sextets r"

fun octets :: "nat list \<Rightarrow> nat list option" where
  "octets [] = Some []"
| "octets [a] = None"
| "octets [a, b] = Some [a * 4 + b div 16]"
| "octets [a, b, c] = Some [a * 4 + b div 16, b mod 16 * 16 + c div 4]"
| "octets (a # b # c # d # r) =
     map_option (\<lambda>s. (a * 4 + b div 16) # (b mod 16 * 16 + c div 4) # (c mod 4 * 64 + d) # s) (octets r)"

lemma sextets_bound: "\<forall>a \<in> set s. a < 256 \<Longrightarrow> \<forall>n \<in> set (sextets s). n < 64"
  by (induction s rule: sextets.induct) (auto simp: less_mult_imp_div_less)

lemma octets_sextets: "\<forall>a \<in> set s. a < 256 \<Longrightarrow> octets (sextets s) = Some s"
proof (induction s rule: sextets.induct)
  case (3 a b)
  then have "b div 16 < 16" by auto
  then show ?case by simp
next
  case (4 a b c r)
  then have "b div 16 < 16" "c div 64 < 4" by auto
  with 4 show ?case by simp
qed simp_all

section \<open>Encoding and decoding\<close>

definition bytes_of :: "string \<Rightarrow> nat list" where
  "bytes_of s = map of_char s"

definition raw_encode :: "string \<Rightarrow> string" where
  "raw_encode s = map b64_char (sextets (bytes_of s))"

definition raw_decode :: "string \<Rightarrow> string option" where
  "raw_decode s =
     (case those (map b64_val (filter (\<lambda>c. c \<noteq> CHR 0x0A \<and> c \<noteq> CHR 0x0D) s)) of
        None \<Rightarrow> None
      | Some ns \<Rightarrow> map_option (map char_of) (octets ns))"

fun padding :: "nat \<Rightarrow> string option" where
  "padding n = (if n mod 4 = 0 then Some [] else if n mod 4 = 2 then Some ''=='' else if n mod 4 = 3 then Some ''='' else None)"

definition std_encode :: "string \<Rightarrow> string" where
  "std_encode s = raw_encode s @ (case padding (length (raw_encode s)) of None \<Rightarrow> [] | Some p \<Rightarrow> p)"

definition std_decode :: "string \<Rightarrow> string option" where
  "std_decode s =
     (let t = filter (\<lambda>c. c \<noteq> CHR 0x0A \<and> c \<noteq> CHR 0x0D) s; body = takeWhile (\<lambda>c. c \<noteq> CHR ''='') t
      in if Some (drop (length body) t) = padding (length body) then raw_decode body else None)"

definition hex_encode :: "string \<Rightarrow> string" where
  "hex_encode s = concat (map (\<lambda>c. let n = of_char c :: nat in
     [''0123456789abcdef'' ! (n div 16), ''0123456789abcdef'' ! (n mod 16)]) s)"

section \<open>Round trips\<close>

lemma b64_val_stops: "b64_val CHR 0x0A = None" "b64_val CHR 0x0D = None" "b64_val CHR ''='' = None" "b64_val CHR ''$'' = None"
  by (simp_all add: b64_val_def)

lemma b64_char_plain:
  assumes "n < 64"
  shows "b64_char n \<notin> {CHR 0x0A, CHR 0x0D, CHR ''='', CHR ''$''}"
proof
  assume "b64_char n \<in> {CHR 0x0A, CHR 0x0D, CHR ''='', CHR ''$''}"
  then have "b64_val (b64_char n) = None" using b64_val_stops by (elim insertE emptyE) simp_all
  with assms show False by simp
qed

lemma sextets_bytes: "n \<in> set (sextets (bytes_of s)) \<Longrightarrow> n < 64"
  using sextets_bound [of "bytes_of s"] by (auto simp: bytes_of_def)

lemma raw_encode_plain: "c \<in> set (raw_encode s) \<Longrightarrow> c \<notin> {CHR 0x0A, CHR 0x0D, CHR ''='', CHR ''$''}"
  using b64_char_plain sextets_bytes by (fastforce simp: raw_encode_def)

lemma those_map_Some: "(\<And>x. x \<in> set xs \<Longrightarrow> f x = Some (g x)) \<Longrightarrow> those (map f xs) = Some (map g xs)"
  by (induction xs) auto

lemma raw_decode_encode [simp]: "raw_decode (raw_encode s) = Some s"
proof -
  have f: "filter (\<lambda>c. c \<noteq> CHR 0x0A \<and> c \<noteq> CHR 0x0D) (raw_encode s) = raw_encode s"
    by (rule filter_True) (use raw_encode_plain in blast)
  have t: "those (map b64_val (raw_encode s)) = Some (sextets (bytes_of s))"
    unfolding raw_encode_def map_map
    using those_map_Some [of "sextets (bytes_of s)" "b64_val \<circ> b64_char" id] sextets_bytes by simp
  have "octets (sextets (bytes_of s)) = Some (bytes_of s)"
    by (rule octets_sextets) (auto simp: bytes_of_def)
  moreover have "map char_of (bytes_of s) = s" by (simp add: bytes_of_def map_idI)
  ultimately show ?thesis unfolding raw_decode_def f t by simp
qed

lemma padding_sextets: "padding (length (sextets s)) \<noteq> None"
  by (induction s rule: sextets.induct) (auto split: if_splits)

lemma std_decode_encode [simp]: "std_decode (std_encode s) = Some s"
proof -
  obtain p where p: "padding (length (raw_encode s)) = Some p"
    using padding_sextets [of "bytes_of s"] by (auto simp: raw_encode_def simp del: padding.simps)
  then have set: "set p \<subseteq> {CHR ''=''}" and hd: "p = [] \<or> hd p = CHR ''=''"
    by (auto split: if_splits)
  have f: "filter (\<lambda>c. c \<noteq> CHR 0x0A \<and> c \<noteq> CHR 0x0D) (raw_encode s @ p) = raw_encode s @ p"
    by (rule filter_True) (use raw_encode_plain set in auto)
  have "takeWhile (\<lambda>c. c \<noteq> CHR ''='') (raw_encode s @ p) = raw_encode s @ takeWhile (\<lambda>c. c \<noteq> CHR ''='') p"
    by (rule takeWhile_append2) (use raw_encode_plain in blast)
  moreover have "takeWhile (\<lambda>c. c \<noteq> CHR ''='') p = []" using hd by (cases p) auto
  ultimately have b: "takeWhile (\<lambda>c. c \<noteq> CHR ''='') (raw_encode s @ p) = raw_encode s" by simp
  have e: "std_encode s = raw_encode s @ p" by (simp only: std_encode_def p option.case)
  show ?thesis unfolding std_decode_def Let_def e f b by (simp add: p del: padding.simps)
qed

end
