(* ===== verification/Webhook.thy ===== *)
theory Webhook
  imports Redis Config Base64
begin

text \<open>
  Callbacks of providers (\<^verbatim>\<open>webhookx/webhookx.go\<close>, their configuration in
  \<^verbatim>\<open>httpx/callback.go\<close>): the source address, the body limit, the signature, the event
  id, the raw copy, the check for a redelivery, and the handler. HMAC-SHA256 (\<open>hmac\<close>: secret, message) and
  the JSON parser are arguments; Redis is the \<open>exec\<close> of \<open>Redis\<close>; publishing the raw copy and the
  handler act on the world \<open>'w\<close>. Times are milliseconds.
\<close>

section \<open>Configuration\<close>

record verify_cfg =
  v_Type :: string
  v_Secret :: string
  v_Header :: string
  v_Payload :: string
  v_Encoding :: string
  v_TimestampHeader :: string
  v_MaxSkew :: int
  v_Username :: string
  v_Password :: string

record callback_cfg =
  cb_Verify :: verify_cfg
  cb_AllowCIDRs :: "string list"
  cb_EventHeader :: string
  cb_EventJSON :: string
  cb_DedupeTTL :: int
  cb_ArchiveTopic :: string
  cb_MaxBody :: int

definition Configured :: "callback_cfg \<Rightarrow> bool" where
  "Configured c \<longleftrightarrow> v_Type (cb_Verify c) \<noteq> [] \<or> cb_AllowCIDRs c \<noteq> [] \<or> cb_EventHeader c \<noteq> [] \<or> cb_EventJSON c \<noteq> []"

datatype callback_error = NeedsType | NeedsSecret | BadEncoding string | NeedsCredentials | BadType string
  | BadCIDR string | TwoEventIds

definition callback_Validate :: "(string \<Rightarrow> bool) \<Rightarrow> callback_cfg \<Rightarrow> callback_error option" where
  "callback_Validate is_cidr c =
     (let v = cb_Verify c;
          e = (if v_Type v = [] then (if cb_AllowCIDRs c = [] then Some NeedsType else None)
               else if v_Type v = ''hmac-sha256'' then
                 (if trim_space (v_Secret v) = [] then Some NeedsSecret
                  else if v_Encoding v \<notin> set [[], ''hex'', ''base64''] then Some (BadEncoding (v_Encoding v)) else None)
               else if v_Type v = ''basic'' then
                 (if v_Username v = [] \<or> v_Password v = [] then Some NeedsCredentials else None)
               else if v_Type v = ''custom'' then None else Some (BadType (v_Type v)))
      in if \<not> Configured c then None
         else case e of
             Some x \<Rightarrow> Some x
           | None \<Rightarrow>
               (case find (\<lambda>s. \<not> is_cidr s) (cb_AllowCIDRs c) of
                  Some s \<Rightarrow> Some (BadCIDR s)
                | None \<Rightarrow> if cb_EventHeader c \<noteq> [] \<and> cb_EventJSON c \<noteq> [] then Some TwoEventIds else None))"

definition archiveTopic :: "string \<Rightarrow> callback_cfg \<Rightarrow> string" where
  "archiveTopic provider c =
     (if cb_ArchiveTopic c = ''-'' then [] else if cb_ArchiveTopic c = [] then ''callbacks.'' @ provider
      else cb_ArchiveTopic c)"

section \<open>The signature\<close>

record callback =
  c_Method :: string
  c_Path :: string
  c_Query :: string
  c_Headers :: "(string \<times> string) list"
  c_Body :: string

text \<open>\<^verbatim>\<open>Headers.Get\<close>: the first value, names without case.\<close>

definition Get :: "callback \<Rightarrow> string \<Rightarrow> string" where
  "Get ev h = (case find (\<lambda>(k, v). to_lower k = to_lower h) (c_Headers ev) of Some (k, v) \<Rightarrow> v | None \<Rightarrow> [])"

text \<open>
  \<^verbatim>\<open>strings.NewReplacer\<close>: from left to right, at each place the first pair whose old
  string is there; what was put in is not read again.
\<close>

function replacer :: "(string \<times> string) list \<Rightarrow> string \<Rightarrow> string" where
  "replacer ps [] = []"
| "replacer ps (c # s) =
     (case find (\<lambda>(old, new). has_prefix (c # s) old) ps of
        Some (old, new) \<Rightarrow> new @ replacer ps (drop (length old - 1) s)
      | None \<Rightarrow> c # replacer ps s)"
  by pat_completeness auto

termination by (relation "measure (\<lambda>(ps, s). length s)") auto

type_synonym hmac = "string \<Rightarrow> string \<Rightarrow> string"

definition parseBasic :: "string \<Rightarrow> (string \<times> string) option" where
  "parseBasic h =
     (if \<not> has_prefix h ''Basic '' then None
      else case std_decode (drop 6 h) of None \<Rightarrow> None | Some b \<Rightarrow> cut b '':'')"

text \<open>What follows the last \<^verbatim>\<open>=\<close>.\<close>

definition after_equals :: "string \<Rightarrow> string" where
  "after_equals s = (if CHR ''='' \<in> set s then rev (takeWhile (\<lambda>c. c \<noteq> CHR ''='') (rev s)) else s)"

datatype bad_callback = BadCustom string | BadBasic | NoSignature | BadTimestamp | StaleTimestamp | SignatureMismatch
  | UnknownType

definition signed_payload :: "verify_cfg \<Rightarrow> callback \<Rightarrow> string \<Rightarrow> string" where
  "signed_payload v ev ts =
     replacer [([CHR 0x5C, CHR ''n''], [CHR 0x0A]), (''{method}'', c_Method ev), (''{path}'', c_Path ev),
       (''{query}'', c_Query ev), (''{timestamp}'', ts), (''{body}'', c_Body ev)]
       (if v_Payload v = [] then ''{body}'' else v_Payload v)"

text \<open>The timestamp a payload asks for: the text, or why it is refused.\<close>

definition check_timestamp :: "verify_cfg \<Rightarrow> int \<Rightarrow> callback \<Rightarrow> bad_callback + string" where
  "check_timestamp v now ev =
     (if \<not> contains (if v_Payload v = [] then ''{body}'' else v_Payload v) ''{timestamp}'' then Inr []
      else let ts = trim_space (Get ev (if v_TimestampHeader v = [] then ''X-Timestamp'' else v_TimestampHeader v))
           in case parse_int64 ts of
                None \<Rightarrow> Inl BadTimestamp
              | Some sec \<Rightarrow> if \<bar>now - sec * 1000\<bar> > dur_or (v_MaxSkew v) 300000 then Inl StaleTimestamp else Inr ts)"

definition want_signature :: "hmac \<Rightarrow> verify_cfg \<Rightarrow> callback \<Rightarrow> string \<Rightarrow> string" where
  "want_signature C v ev ts =
     (let sum = C (v_Secret v) (signed_payload v ev ts)
      in if v_Encoding v = ''base64'' then std_encode sum else hex_encode sum)"

definition verify :: "hmac \<Rightarrow> (callback \<Rightarrow> string option) \<Rightarrow> verify_cfg \<Rightarrow> int \<Rightarrow> callback \<Rightarrow> bad_callback option" where
  "verify C custom v now ev =
     (if v_Type v = [] then None
      else if v_Type v = ''custom'' then map_option BadCustom (custom ev)
      else if v_Type v = ''basic'' then
        (case parseBasic (Get ev ''Authorization'') of
           None \<Rightarrow> Some BadBasic
         | Some (u, p) \<Rightarrow> if u \<noteq> v_Username v \<or> p \<noteq> v_Password v then Some BadBasic else None)
      else if v_Type v = ''hmac-sha256'' then
        (let got = trim_space (Get ev (if v_Header v = [] then ''X-Signature'' else v_Header v))
         in if got = [] then Some NoSignature
            else case check_timestamp v now ev of
                Inl e \<Rightarrow> Some e
              | Inr ts \<Rightarrow>
                  let sig = (if v_Encoding v = ''base64'' then got else after_equals got)
                  in if to_lower sig \<noteq> to_lower (want_signature C v ev ts) then Some SignatureMismatch else None)
      else Some UnknownType)"

section \<open>The event id\<close>

text \<open>
  A JSON document as \<^verbatim>\<open>encoding/json\<close> decodes it into \<^verbatim>\<open>any\<close>: an integer literal
  becomes the nearest float64; \<open>JFloat\<close> is any other number, as its float64 cut to a whole
  number.
\<close>

datatype json = JStr string | JInt int | JFloat int | JObj "(string \<times> json) list" | JOther

text \<open>The float64 nearest to an integer: 53 bits, ties to even.\<close>

fun bit_length :: "nat \<Rightarrow> nat" where
  "bit_length n = (if n = 0 then 0 else Suc (bit_length (n div 2)))"

declare bit_length.simps [simp del]

definition float64 :: "int \<Rightarrow> int" where
  "float64 i =
     (let a = \<bar>i\<bar>; k = bit_length (nat a) - 53; u = 2 ^ k; q = a div u; r = a mod u
      in sgn i * ((if 2 * r > u \<or> (2 * r = u \<and> odd q) then q + 1 else q) * u))"

text \<open>\<^verbatim>\<open>int64(v)\<close> of a float64; out of range is the smallest int64 (amd64).\<close>

definition to_int64 :: "int \<Rightarrow> int" where
  "to_int64 i = (if - (2 ^ 63) \<le> i \<and> i < 2 ^ 63 then i else - (2 ^ 63))"

fun json_path :: "json \<Rightarrow> string list \<Rightarrow> json option" where
  "json_path j [] = Some j"
| "json_path (JObj fs) (p # ps) = (case map_of (rev fs) p of None \<Rightarrow> None | Some j \<Rightarrow> json_path j ps)"
| "json_path j (p # ps) = None"

definition eventID :: "(string \<Rightarrow> json option) \<Rightarrow> callback_cfg \<Rightarrow> callback \<Rightarrow> string" where
  "eventID parse c ev =
     (if cb_EventHeader c \<noteq> [] then trim_space (Get ev (cb_EventHeader c))
      else if cb_EventJSON c \<noteq> [] then
        (case parse (c_Body ev) of
           None \<Rightarrow> []
         | Some doc \<Rightarrow>
             (case json_path doc (split_on CHR ''.'' (cb_EventJSON c)) of
                Some (JStr s) \<Rightarrow> s
              | Some (JInt i) \<Rightarrow> show_int (to_int64 (float64 i))
              | Some (JFloat i) \<Rightarrow> show_int (to_int64 i)
              | _ \<Rightarrow> []))
      else [])"

section \<open>Serving a callback\<close>

datatype callback_answer = Replied | Status int string

definition cb_key :: "string \<Rightarrow> string \<Rightarrow> string" where
  "cb_key provider i = ''cb:'' @ provider @ '':'' @ i"

text \<open>
  From the claim of the id on: \<open>stamp\<close> is the value kept, \<open>h\<close> the handler with its panics
  turned into errors.
\<close>

definition run_handler ::
  "'w exec option \<Rightarrow> string \<Rightarrow> (string \<Rightarrow> 'w \<Rightarrow> string option \<times> 'w) \<Rightarrow> string \<Rightarrow> 'w \<Rightarrow> callback_answer \<times> 'w" where
  "run_handler rdb key h i w =
     (case h i w of
        (None, w') \<Rightarrow> (Replied, w')
      | (Some e, w') \<Rightarrow>
          (Status 500 ''handler_error'',
           if key = [] then w' else case rdb of None \<Rightarrow> w' | Some exec \<Rightarrow> snd (r_del exec [key] w')))"

definition claim_and_run ::
  "'w exec option \<Rightarrow> string \<Rightarrow> callback_cfg \<Rightarrow> string \<Rightarrow> (string \<Rightarrow> 'w \<Rightarrow> string option \<times> 'w) \<Rightarrow> string \<Rightarrow> 'w \<Rightarrow> callback_answer \<times> 'w" where
  "claim_and_run rdb provider c stamp h i w =
     (case rdb of
        None \<Rightarrow> run_handler rdb [] h i w
      | Some exec \<Rightarrow>
          if i = [] then run_handler rdb [] h i w
          else (case r_setnx exec (cb_key provider i) stamp (dur_or (cb_DedupeTTL c) (7 * 24 * 3600000)) w of
                  (Inl e, w1) \<Rightarrow> (Status 500 ''dedupe_unavailable'', w1)
                | (Inr False, w1) \<Rightarrow> (Replied, w1)
                | (Inr True, w1) \<Rightarrow> run_handler rdb (cb_key provider i) h i w1))"

text \<open>
  \<open>source\<close> says whether the client's address is in the allowed networks; \<open>archive\<close> publishes
  the raw copy (\<open>None\<close>: no Kafka) and says whether it worked.
\<close>

definition serve ::
  "hmac \<Rightarrow> (callback \<Rightarrow> string option) \<Rightarrow> (string \<Rightarrow> json option) \<Rightarrow> 'w exec option \<Rightarrow> (string \<Rightarrow> string \<Rightarrow> callback \<Rightarrow> 'w \<Rightarrow> bool \<times> 'w) option \<Rightarrow>
   string \<Rightarrow> callback_cfg \<Rightarrow> bool \<Rightarrow> int \<Rightarrow> string \<Rightarrow> (string \<Rightarrow> 'w \<Rightarrow> string option \<times> 'w) \<Rightarrow> callback \<Rightarrow> 'w \<Rightarrow> callback_answer \<times> 'w" where
  "serve C custom parse rdb archive provider c source now stamp h ev w =
     (if cb_AllowCIDRs c \<noteq> [] \<and> \<not> source then (Status 403 ''bad_source'', w)
      else if int (length (c_Body ev)) > (if cb_MaxBody c \<le> 0 then 1024 * 1024 else cb_MaxBody c)
      then (Status 413 ''too_large'', w)
      else case verify C custom (cb_Verify c) now ev of
          Some e \<Rightarrow> (Status 401 ''bad_signature'', w)
        | None \<Rightarrow>
            let i = eventID parse c ev; topic = archiveTopic provider c
            in case (if topic = [] then None else archive) of
                 None \<Rightarrow> claim_and_run rdb provider c stamp h i w
               | Some publish \<Rightarrow>
                   (case publish topic (if i \<noteq> [] then i else provider) ev w of
                      (False, w1) \<Rightarrow> (Status 500 ''archive_failed'', w1)
                    | (True, w1) \<Rightarrow> claim_and_run rdb provider c stamp h i w1))"

section \<open>Lemmas\<close>

text \<open>Several deliveries in order: clock, stamp, handler and request of each.\<close>

fun serve_all ::
  "hmac \<Rightarrow> (callback \<Rightarrow> string option) \<Rightarrow> (string \<Rightarrow> json option) \<Rightarrow> 'w exec option \<Rightarrow> (string \<Rightarrow> string \<Rightarrow> callback \<Rightarrow> 'w \<Rightarrow> bool \<times> 'w) option \<Rightarrow>
   string \<Rightarrow> callback_cfg \<Rightarrow> (bool \<times> int \<times> string \<times> (string \<Rightarrow> 'w \<Rightarrow> string option \<times> 'w) \<times> callback) list \<Rightarrow> 'w \<Rightarrow> callback_answer list \<times> 'w" where
  "serve_all C custom parse rdb archive provider c [] w = ([], w)"
| "serve_all C custom parse rdb archive provider c ((source, now, stamp, h, ev) # ds) w =
     (case serve C custom parse rdb archive provider c source now stamp h ev w of
        (a, w1) \<Rightarrow> (case serve_all C custom parse rdb archive provider c ds w1 of (as, w2) \<Rightarrow> (a # as, w2)))"

text \<open>Publishing and handling an id keep its key.\<close>

definition publish_keeps :: "('w \<Rightarrow> rstate) \<Rightarrow> (string \<Rightarrow> string \<Rightarrow> callback \<Rightarrow> 'w \<Rightarrow> bool \<times> 'w) option \<Rightarrow> string \<Rightarrow> bool" where
  "publish_keeps store archive k \<longleftrightarrow> (\<forall>publish topic key e v. archive = Some publish \<longrightarrow>
     has_key (store v) k \<longrightarrow> has_key (store (snd (publish topic key e v))) k)"

definition handler_keeps :: "('w \<Rightarrow> rstate) \<Rightarrow> (string \<Rightarrow> 'w \<Rightarrow> string option \<times> 'w) \<Rightarrow> string \<Rightarrow> string \<Rightarrow> bool" where
  "handler_keeps store h i k \<longleftrightarrow> (\<forall>v. has_key (store v) k \<longrightarrow> has_key (store (snd (h i v))) k)"

text \<open>The checks in front of the claim, and the answers that come from them.\<close>

definition admitted :: "hmac \<Rightarrow> (callback \<Rightarrow> string option) \<Rightarrow> callback_cfg \<Rightarrow> bool \<Rightarrow> int \<Rightarrow> callback \<Rightarrow> bool" where
  "admitted C custom c source now ev \<longleftrightarrow>
     (cb_AllowCIDRs c = [] \<or> source) \<and>
     int (length (c_Body ev)) \<le> (if cb_MaxBody c \<le> 0 then 1024 * 1024 else cb_MaxBody c) \<and>
     verify C custom (cb_Verify c) now ev = None"

definition refusals :: "callback_answer set" where
  "refusals = {Status 403 ''bad_source'', Status 413 ''too_large'', Status 401 ''bad_signature''}"

lemma serve_refused:
  "\<not> admitted C custom c source now ev \<Longrightarrow>
     fst (serve C custom parse rdb archive provider c source now stamp h ev w) \<in> refusals \<and>
     snd (serve C custom parse rdb archive provider c source now stamp h ev w) = w"
  by (auto simp: serve_def admitted_def refusals_def split: option.splits)

lemma serve_admitted:
  assumes "admitted C custom c source now ev"
  shows "serve C custom parse rdb archive provider c source now stamp h ev w =
    (case (if archiveTopic provider c = [] then None else archive) of
       None \<Rightarrow> claim_and_run rdb provider c stamp h (eventID parse c ev) w
     | Some publish \<Rightarrow>
         (case publish (archiveTopic provider c)
             (if eventID parse c ev \<noteq> [] then eventID parse c ev else provider) ev w of
            (False, w1) \<Rightarrow> (Status 500 ''archive_failed'', w1)
          | (True, w1) \<Rightarrow> claim_and_run rdb provider c stamp h (eventID parse c ev) w1))"
  using assms by (auto simp: serve_def admitted_def Let_def)

context redis_server
begin

lemma claim_taken:
  assumes "i \<noteq> []" and "has_key (store w) (cb_key provider i)"
    and "claim_and_run (Some exec) provider c stamp h i w = (a, w')"
  shows "store w' = store w" and "a \<in> {Replied, Status 500 ''dedupe_unavailable''}"
    and "\<And>h'. claim_and_run (Some exec) provider c stamp h' i w = (a, w')"
proof -
  obtain r w1 where sn: "r_setnx exec (cb_key provider i) stamp (dur_or (cb_DedupeTTL c) (7 * 24 * 3600000)) w = (r, w1)"
    by (cases "r_setnx exec (cb_key provider i) stamp (dur_or (cb_DedupeTTL c) (7 * 24 * 3600000)) w")
  from setnx_taken [OF assms(2) sn] have t: "r \<noteq> Inr True" "store w1 = store w" by auto
  have eq: "claim_and_run (Some exec) provider c stamp h' i w =
      (case r of Inl e \<Rightarrow> (Status 500 ''dedupe_unavailable'', w1) | Inr _ \<Rightarrow> (Replied, w1))" for h'
    using assms(1) sn t(1) by (auto simp: claim_and_run_def split: sum.splits bool.splits)
  show "store w' = store w" "a \<in> {Replied, Status 500 ''dedupe_unavailable''}"
    "\<And>h'. claim_and_run (Some exec) provider c stamp h' i w = (a, w')"
    using assms(3) t(2) unfolding eq by (auto split: sum.splits)
qed

lemma claim_done:
  assumes "i \<noteq> []" and "claim_and_run (Some exec) provider c stamp h i w = (Replied, w')"
    and frame: "handler_keeps store h i (cb_key provider i)"
  shows "has_key (store w') (cb_key provider i)"
proof -
  let ?ttl = "dur_or (cb_DedupeTTL c) (7 * 24 * 3600000)"
  obtain r w1 where sn: "r_setnx exec (cb_key provider i) stamp ?ttl w = (r, w1)"
    by (cases "r_setnx exec (cb_key provider i) stamp ?ttl w")
  show ?thesis
  proof (cases "r = Inr True")
    case True
    from setnx_true sn True have k: "has_key (store w1) (cb_key provider i)" by fastforce
    from assms(1,2) sn True have "h i w1 = (None, w')"
      by (auto simp: claim_and_run_def run_handler_def split: prod.splits option.splits)
    with frame k show ?thesis by (metis handler_keeps_def snd_conv)
  next
    case False
    with assms(1,2) sn have "r = Inr False" "w' = w1"
      by (auto simp: claim_and_run_def split: sum.splits bool.splits)
    with sn setnx_false show ?thesis by fastforce
  qed
qed

text \<open>A delivery of an id whose key is there: no handler runs and the key stays.\<close>

lemma serve_taken:
  assumes i: "eventID parse c ev = i" "i \<noteq> []" and k: "has_key (store w) (cb_key provider i)"
    and frame: "publish_keeps store archive (cb_key provider i)"
    and run: "serve C custom parse (Some exec) archive provider c source now stamp h ev w = (a, w')"
  shows "has_key (store w') (cb_key provider i)"
    and "a \<in> refusals \<union> {Replied, Status 500 ''dedupe_unavailable'', Status 500 ''archive_failed''}"
    and "serve C custom parse (Some exec) archive provider c source now stamp h' ev w = (a, w')"
proof -
  have "has_key (store w') (cb_key provider i) \<and>
    a \<in> refusals \<union> {Replied, Status 500 ''dedupe_unavailable'', Status 500 ''archive_failed''} \<and>
    serve C custom parse (Some exec) archive provider c source now stamp h' ev w = (a, w')"
  proof (cases "admitted C custom c source now ev")
    case False
    with serve_refused [OF False] run k show ?thesis
      by (auto simp: serve_def admitted_def refusals_def split: option.splits)
  next
    case True
    note s = serve_admitted [OF True, of parse "Some exec" archive provider stamp _ w, unfolded i(1)]
    show ?thesis
    proof (cases "if archiveTopic provider c = [] then None else archive")
      case None
      with run s have c: "claim_and_run (Some exec) provider c stamp h i w = (a, w')" by simp
      with claim_taken [OF i(2) k c] k None s show ?thesis by auto
    next
      case (Some publish)
      then have arch: "archive = Some publish" by (auto split: if_splits)
      obtain b w1 where p: "publish (archiveTopic provider c) (if i \<noteq> [] then i else provider) ev w = (b, w1)"
        by fastforce
      from frame arch k p have k1: "has_key (store w1) (cb_key provider i)" by (metis publish_keeps_def snd_conv)
      show ?thesis
      proof (cases b)
        case False
        with Some p run s k1 show ?thesis by auto
      next
        case True
        with Some p run s have c: "claim_and_run (Some exec) provider c stamp h i w1 = (a, w')" by simp
        with claim_taken [OF i(2) k1 c] k1 Some True p s show ?thesis by auto
      qed
    qed
  qed
  then show "has_key (store w') (cb_key provider i)"
    and "a \<in> refusals \<union> {Replied, Status 500 ''dedupe_unavailable'', Status 500 ''archive_failed''}"
    and "serve C custom parse (Some exec) archive provider c source now stamp h' ev w = (a, w')"
    by simp_all
qed

end

section \<open>Where the check for a redelivery goes wrong\<close>

text \<open>
  A numeric id is read as a float64: ids above \<open>2 ^ 53\<close> that differ in the last digits are
  one id, so the second event counts as a redelivery of the first.
\<close>

lemma bit_length_unique: "n < 2 ^ k \<Longrightarrow> 2 ^ k \<le> 2 * n \<Longrightarrow> bit_length n = k"
proof (induction k arbitrary: n)
  case 0
  then show ?case by simp
next
  case (Suc k)
  then have n: "0 < n" by (cases n) auto
  have "n div 2 < 2 ^ k" using Suc.prems(1) by (simp add: less_mult_imp_div_less)
  moreover have "k = 0 \<or> 2 ^ k \<le> 2 * (n div 2)" using Suc.prems(2)
    by (cases k) (auto simp: less_eq_div_iff_mult_less_eq)
  ultimately have "bit_length (n div 2) = k"
    using Suc.IH [of "n div 2"] by (cases k) (auto simp: bit_length.simps [of 0])
  with n show ?case by (subst bit_length.simps) simp
qed

lemma eventID_numeric_collision:
  assumes "cb_EventHeader c = []" and "cb_EventJSON c = ''id''"
    and "parse (c_Body ev) = Some (JObj [(''id'', JInt 9007199254740992)])"
    and "parse (c_Body ev') = Some (JObj [(''id'', JInt 9007199254740993)])"
  shows "eventID parse c ev = eventID parse c ev'"
proof -
  have len: "bit_length 9007199254740992 = 54" "bit_length 9007199254740993 = 54"
    by (rule bit_length_unique; simp)+
  have "float64 9007199254740993 = float64 9007199254740992"
    by (simp add: float64_def Let_def len)
  with assms show ?thesis by (simp add: eventID_def)
qed

text \<open>
  A process that stops between the claim and the end of the handler: the retry finds the key
  and is answered as handled.
\<close>

lemma crash_after_claim_loses_callback:
  assumes redis: "redis_server exec store" and up: "\<And>cs v. \<exists>rs v'. exec cs v = (Inr rs, v')"
    and "i \<noteq> []"
    and claim: "r_setnx exec (cb_key provider i) stamp t w = (Inr True, w1)"
  shows "\<exists>w2. \<forall>h. claim_and_run (Some exec) provider c stamp' h i w1 = (Replied, w2)"
proof -
  have "has_key (store w1) (cb_key provider i)" using redis_server.setnx_true [OF redis claim] by simp
  then obtain w2 where "r_setnx exec (cb_key provider i) stamp' (dur_or (cb_DedupeTTL c) (7 * 24 * 3600000)) w1 = (Inr False, w2)"
    using redis_server.call1_up [OF redis up, of "SETNX (cb_key provider i) stamp' (dur_or (cb_DedupeTTL c) (7 * 24 * 3600000))" w1]
    by (auto simp: r_setnx_def call1_def)
  with assms(3) show ?thesis by (intro exI [of _ w2]) (simp add: claim_and_run_def)
qed

section \<open>Properties\<close>

lemma serve_all_taken:
  assumes redis: "redis_server exec store" and i: "i \<noteq> []"
    and frame: "publish_keeps store archive (cb_key provider i)"
    and ids: "\<forall>(source, now, stamp, h, ev) \<in> set ds. eventID parse c ev = i"
    and same: "map (\<lambda>(source, now, stamp, h, ev). (source, now, stamp, ev)) ds'
             = map (\<lambda>(source, now, stamp, h, ev). (source, now, stamp, ev)) ds"
    and k: "has_key (store w) (cb_key provider i)"
    and run: "serve_all C custom parse (Some exec) archive provider c ds w = (as, w')"
  shows "set as \<subseteq> refusals \<union> {Replied, Status 500 ''dedupe_unavailable'', Status 500 ''archive_failed''} \<and>
    serve_all C custom parse (Some exec) archive provider c ds' w = (as, w') \<and>
    has_key (store w') (cb_key provider i)"
  using ids same k run
proof (induction ds arbitrary: ds' w as)
  case Nil
  then show ?case by simp
next
  case (Cons d ds)
  obtain source now stamp h ev where d: "d = (source, now, stamp, h, ev)" by (cases d)
  from Cons.prems(2) obtain h' es where ds': "ds' = (source, now, stamp, h', ev) # es"
    and es: "map (\<lambda>(source, now, stamp, h, ev). (source, now, stamp, ev)) es
           = map (\<lambda>(source, now, stamp, h, ev). (source, now, stamp, ev)) ds"
    by (auto simp: d Cons_eq_map_conv map_eq_Cons_conv)
  obtain a w1 where s: "serve C custom parse (Some exec) archive provider c source now stamp h ev w = (a, w1)"
    by fastforce
  obtain as' where r: "serve_all C custom parse (Some exec) archive provider c ds w1 = (as', w')" and as: "as = a # as'"
    using Cons.prems(4) s by (auto simp: d split: prod.splits)
  have ev: "eventID parse c ev = i" using Cons.prems(1) by (simp add: d)
  note t = redis_server.serve_taken [OF redis ev i Cons.prems(3) frame s]
  have "\<forall>(source, now, stamp, h, ev) \<in> set ds. eventID parse c ev = i" using Cons.prems(1) by simp
  from Cons.IH [OF this es t(1) r] t(2,3) show ?case by (simp add: ds' as)
qed

text \<open>A provider that signs with HMAC and one told by its address, and their requests.\<close>

definition sample_cfg :: "string \<Rightarrow> callback_cfg" where
  "sample_cfg type = \<lparr>cb_Verify = \<lparr>v_Type = type, v_Secret = ''k'', v_Header = [], v_Payload = [], v_Encoding = [],
     v_TimestampHeader = [], v_MaxSkew = 0, v_Username = [], v_Password = []\<rparr>, cb_AllowCIDRs = [''10.0.0.0/8''],
     cb_EventHeader = ''X-Id'', cb_EventJSON = [], cb_DedupeTTL = 0, cb_ArchiveTopic = [], cb_MaxBody = 0\<rparr>"

definition sample_call :: "string \<Rightarrow> string \<Rightarrow> callback" where
  "sample_call sig body = \<lparr>c_Method = ''POST'', c_Path = ''/cb'', c_Query = [],
     c_Headers = [(''X-Id'', ''e1''), (''X-Signature'', sig)], c_Body = body\<rparr>"

text \<open>
  C2. A callback that was handled is not handled again. After a callback with an event id was
  answered as handled, every further delivery with that id, however often, whatever its
  source, time, body and signature, and whichever calls to Redis and Kafka fail, is refused
  by the checks, answered as handled, or answered 500; the answers and the world are the same
  for every handler, so none ran. The handler and the publishing may do anything but remove
  the key of the id, which lives for seven days unless configured otherwise.
\<close>

theorem webhook_once:
  assumes redis: "redis_server exec store"
    and handler: "handler_keeps store h (eventID parse c ev) (cb_key provider (eventID parse c ev))"
    and publishing: "publish_keeps store archive (cb_key provider (eventID parse c ev))"
    and first: "serve C custom parse (Some exec) archive provider c source now stamp h ev w = (Replied, w1)"
    and id: "eventID parse c ev \<noteq> []"
    and again: "\<forall>(source', now', stamp', h', ev') \<in> set ds. eventID parse c ev' = eventID parse c ev"
    and same: "map (\<lambda>(source, now, stamp, h, ev). (source, now, stamp, ev)) ds'
             = map (\<lambda>(source, now, stamp, h, ev). (source, now, stamp, ev)) ds"
    and run: "serve_all C custom parse (Some exec) archive provider c ds w1 = (as, w2)"
  shows "set as \<subseteq> refusals \<union> {Replied, Status 500 ''dedupe_unavailable'', Status 500 ''archive_failed''} \<and>
    serve_all C custom parse (Some exec) archive provider c ds' w1 = (as, w2)"
proof -
  have adm: "admitted C custom c source now ev"
    using first serve_refused [of C custom c source now ev parse "Some exec" archive provider stamp h w]
    by (auto simp: refusals_def)
  have "\<exists>v. claim_and_run (Some exec) provider c stamp h (eventID parse c ev) v = (Replied, w1)"
    using first unfolding serve_admitted [OF adm] by (auto split: option.splits prod.splits bool.splits if_splits)
  then have "has_key (store w1) (cb_key provider (eventID parse c ev))"
    using redis_server.claim_done [OF redis id _ handler] by blast
  from serve_all_taken [OF redis id publishing again same this run] show ?thesis by simp
qed

theorem webhook_once_witness:
  "serve_all (\<lambda>s m. []) (\<lambda>ev. None) (\<lambda>s. None) (Some live_exec) None ''pay'' (sample_cfg [])
     [(True, 7, ''t'', \<lambda>i w. (None, set_key ''paid'' ''twice'' 0 w), sample_call [] ''x'')]
     (snd (serve (\<lambda>s m. []) (\<lambda>ev. None) (\<lambda>s. None) (Some live_exec) None ''pay'' (sample_cfg []) True 5 ''t''
        (\<lambda>i w. (None, set_key ''paid'' ''once'' 0 w)) (sample_call [] ''x'') empty_rstate))
   = serve_all (\<lambda>s m. []) (\<lambda>ev. None) (\<lambda>s. None) (Some live_exec) None ''pay'' (sample_cfg [])
     [(True, 7, ''t'', \<lambda>i w. (None, w), sample_call [] ''x'')]
     (snd (serve (\<lambda>s m. []) (\<lambda>ev. None) (\<lambda>s. None) (Some live_exec) None ''pay'' (sample_cfg []) True 5 ''t''
        (\<lambda>i w. (None, set_key ''paid'' ''once'' 0 w)) (sample_call [] ''x'') empty_rstate))"
proof -
  let ?h = "\<lambda>i w. (None, set_key ''paid'' ''once'' 0 w) :: string option \<times> rstate"
  let ?first = "serve (\<lambda>s m. []) (\<lambda>ev. None) (\<lambda>s. None) (Some live_exec) None ''pay'' (sample_cfg []) True 5 ''t''
        ?h (sample_call [] ''x'') empty_rstate"
  have id: "eventID (\<lambda>s. None) (sample_cfg []) (sample_call [] ''x'') = ''e1''" by code_simp
  have a: "fst ?first = Replied" by code_simp
  have f: "?first = (Replied, snd ?first)" by (subst a [symmetric]) simp
  have k: "handler_keeps (\<lambda>r. r) ?h i k" for i k by (simp add: handler_keeps_def)
  have p: "publish_keeps (\<lambda>r :: rstate. r) None k" for k by (simp add: publish_keeps_def)
  show ?thesis
    using webhook_once [OF live.redis_server_axioms k p f _ _ _ surjective_pairing,
        of "[(True, 7, ''t'', \<lambda>i w. (None, w), sample_call [] ''x'')]"
           "[(True, 7, ''t'', \<lambda>i w. (None, set_key ''paid'' ''twice'' 0 w), sample_call [] ''x'')]"] id
    by simp
qed

text \<open>
  A request that fails the checks changes nothing. Whatever it is, a request from a source
  that is not allowed, with a body over the limit, or whose signature does not verify is
  answered 401, 403 or 413 without a copy, a claim or a run of the handler; and with a secret
  configured, what verifies carries the HMAC of its own body, within the allowed time when
  the payload has a timestamp.
\<close>

lemma webhook_gate:
  assumes "serve C custom parse rdb archive provider c source now stamp h ev w = (a, w')"
    and "v_Type (cb_Verify c) = ''hmac-sha256''"
    and "w' \<noteq> w \<or> a \<notin> refusals"
  shows "(cb_AllowCIDRs c = [] \<or> source) \<and>
    (\<exists>ts. check_timestamp (cb_Verify c) now ev = Inr ts \<and>
      (\<exists>sig. sig \<in> {trim_space (Get ev (if v_Header (cb_Verify c) = [] then ''X-Signature'' else v_Header (cb_Verify c))),
            after_equals (trim_space (Get ev (if v_Header (cb_Verify c) = [] then ''X-Signature'' else v_Header (cb_Verify c))))} \<and>
        to_lower sig = to_lower (want_signature C (cb_Verify c) ev ts)))"
proof -
  have "admitted C custom c source now ev"
    using assms(1,3) serve_refused [of C custom c source now ev parse rdb archive provider stamp h w] by auto
  then have src: "cb_AllowCIDRs c = [] \<or> source" and v: "verify C custom (cb_Verify c) now ev = None"
    by (auto simp: admitted_def)
  from v assms(2) obtain ts where "check_timestamp (cb_Verify c) now ev = Inr ts"
    by (auto simp: verify_def Let_def split: if_splits sum.splits)
  with v assms(2) src show ?thesis
    by (auto simp: verify_def Let_def split: if_splits)
qed

theorem webhook_gate_witness:
  "\<exists>ts. check_timestamp (cb_Verify (sample_cfg ''hmac-sha256'')) 5 (sample_call ''sha256=6B78'' ''x'') = Inr ts"
proof -
  have "serve (\<lambda>s m. s @ m) (\<lambda>ev. None) (\<lambda>s. None) None None ''pay'' (sample_cfg ''hmac-sha256'') True 5 ''t''
      (\<lambda>i w. (None, Suc w)) (sample_call ''sha256=6B78'' ''x'') 0 = (Replied, 1)" by code_simp
  from webhook_gate [OF this] show ?thesis by (auto simp: sample_cfg_def)
qed

end
