(* ===== verification/Httpx.thy ===== *)
theory Httpx
  imports Webhook
begin

text \<open>
  Calls to external APIs (\<^verbatim>\<open>httpx\<close>): the configuration of a provider, what is masked in
  logs and errors, the addresses that are refused, the concurrency limit and the circuit
  breaker around an attempt, which failures may be tried again, and the signing of a request.
  A request on the wire is the \<open>callback\<close> of \<open>Webhook\<close>. The circuit breaker, the OAuth token
  source and HMAC are arguments.
\<close>

section \<open>Configuration of a provider\<close>

record provider =
  pr_Timeout :: int
  pr_Retries :: "int option"
  pr_MaxConcurrent :: "int option"
  pr_BreakerFailures :: "int option"
  pr_BreakerOpenFor :: int
  pr_DenyPrivateHosts :: bool

definition maxConcurrent :: "provider \<Rightarrow> int" where
  "maxConcurrent p = (case pr_MaxConcurrent p of None \<Rightarrow> 64 | Some n \<Rightarrow> max 0 n)"

definition breakerFailures :: "provider \<Rightarrow> int" where
  "breakerFailures p = (case pr_BreakerFailures p of None \<Rightarrow> 5 | Some n \<Rightarrow> max 0 n)"

definition provider_retries :: "provider \<Rightarrow> int" where
  "provider_retries p = (case pr_Retries p of None \<Rightarrow> 2 | Some n \<Rightarrow> max 0 n)"

section \<open>Masking\<close>

text \<open>
  The regular expression of \<^verbatim>\<open>redact.go\<close>: a name after \<^verbatim>\<open>?\<close> or \<^verbatim>\<open>&\<close>, an equals
  sign and a value; the value becomes three stars.
\<close>

definition stop_char :: "char \<Rightarrow> bool" where
  "stop_char c \<longleftrightarrow> c \<in> {CHR ''&'', CHR 0x09, CHR 0x0A, CHR 0x0C, CHR 0x0D, CHR '' '', CHR 0x22, CHR 0x27, CHR ''<'', CHR ''>''}"

definition name_char :: "char \<Rightarrow> bool" where
  "name_char c \<longleftrightarrow> \<not> stop_char c \<and> c \<noteq> CHR ''=''"

function redactQuery :: "string \<Rightarrow> string" where
  "redactQuery [] = []"
| "redactQuery (c # s) =
     (let n = takeWhile name_char s; r = dropWhile name_char s
      in if c \<in> {CHR ''?'', CHR ''&''} \<and> n \<noteq> [] \<and> r \<noteq> [] \<and> hd r = CHR ''=''
         then c # n @ ''=***'' @ redactQuery (dropWhile (\<lambda>x. \<not> stop_char x) (tl r))
         else c # redactQuery s)"
  by pat_completeness auto

termination
proof (relation "measure length")
  fix c :: char and s n r :: string
  assume r: "r = dropWhile name_char s"
  have "length (dropWhile (\<lambda>x. \<not> stop_char x) (tl r)) \<le> length (tl r)" by (rule length_dropWhile_le)
  also have "\<dots> \<le> length s" using length_dropWhile_le [of name_char s] r by simp
  finally show "(dropWhile (\<lambda>x. \<not> stop_char x) (tl r), c # s) \<in> measure length" by simp
qed simp_all

declare redactQuery.simps(2) [simp del]

text \<open>\<^verbatim>\<open>strings.ReplaceAll\<close> by three stars, of a text that is not empty.\<close>

function replace_all :: "string \<Rightarrow> string \<Rightarrow> string" where
  "replace_all v [] = []"
| "replace_all v (c # s) =
     (if v \<noteq> [] \<and> has_prefix (c # s) v then ''***'' @ replace_all v (drop (length v) (c # s))
      else c # replace_all v s)"
  by pat_completeness auto

termination by (relation "measure (\<lambda>(v, s). length s)") (auto simp: Suc_le_eq)

text \<open>\<^verbatim>\<open>url.PathEscape\<close> and \<^verbatim>\<open>url.QueryEscape\<close>.\<close>

definition unreserved :: "char \<Rightarrow> bool" where
  "unreserved c \<longleftrightarrow> (let n = of_char c :: nat in (48 \<le> n \<and> n \<le> 57) \<or> (65 \<le> n \<and> n \<le> 90) \<or> (97 \<le> n \<and> n \<le> 122))
     \<or> c \<in> {CHR ''-'', CHR ''_'', CHR ''.'', CHR ''~''}"

definition percent :: "char \<Rightarrow> string" where
  "percent c = (let n = of_char c :: nat in [CHR ''%'', ''0123456789ABCDEF'' ! (n div 16), ''0123456789ABCDEF'' ! (n mod 16)])"

definition PathEscape :: "string \<Rightarrow> string" where
  "PathEscape s = concat (map (\<lambda>c. if unreserved c \<or> c \<in> {CHR ''$'', CHR ''&'', CHR ''+'', CHR '':'', CHR ''='', CHR ''@''}
     then [c] else percent c) s)"

definition QueryEscape :: "string \<Rightarrow> string" where
  "QueryEscape s = concat (map (\<lambda>c. if unreserved c then [c] else if c = CHR '' '' then ''+'' else percent c) s)"

definition Secret :: "string list \<Rightarrow> string list \<Rightarrow> string list" where
  "Secret vs keep = keep @ concat (map (\<lambda>v. if v = [] then []
     else v # (if PathEscape v \<noteq> v then [PathEscape v] else []) @ (if QueryEscape v \<noteq> v then [QueryEscape v] else [])) vs)"

definition redactSecrets :: "string list \<Rightarrow> string \<Rightarrow> string" where
  "redactSecrets keep s = fold replace_all keep s"

definition redact :: "string list \<Rightarrow> string \<Rightarrow> string" where
  "redact keep s = redactSecrets keep (redactQuery s)"

section \<open>Addresses that are refused\<close>

datatype ip = V4 "8 word" "8 word" "8 word" "8 word" | V6 "8 word list"   \<comment> \<open>sixteen bytes\<close>

unbundle bit_operations_syntax

text \<open>\<^verbatim>\<open>To4\<close>: an IPv4 address in IPv6 form is the IPv4 address.\<close>

fun To4 :: "ip \<Rightarrow> ip" where
  "To4 (V4 a b c d) = V4 a b c d"
| "To4 (V6 bs) =
     (if length bs = 16 \<and> take 10 bs = replicate 10 0 \<and> bs ! 10 = 0xFF \<and> bs ! 11 = 0xFF
      then V4 (bs ! 12) (bs ! 13) (bs ! 14) (bs ! 15) else V6 bs)"

fun IsLoopback :: "ip \<Rightarrow> bool" where
  "IsLoopback (V4 a b c d) \<longleftrightarrow> a = 127"
| "IsLoopback (V6 bs) \<longleftrightarrow> bs = replicate 15 0 @ [1]"

fun IsPrivate :: "ip \<Rightarrow> bool" where
  "IsPrivate (V4 a b c d) \<longleftrightarrow> a = 10 \<or> (a = 172 \<and> b AND 0xF0 = 16) \<or> (a = 192 \<and> b = 168)"
| "IsPrivate (V6 bs) \<longleftrightarrow> length bs = 16 \<and> bs ! 0 AND 0xFE = 0xFC"

fun IsLinkLocalUnicast :: "ip \<Rightarrow> bool" where
  "IsLinkLocalUnicast (V4 a b c d) \<longleftrightarrow> a = 169 \<and> b = 254"
| "IsLinkLocalUnicast (V6 bs) \<longleftrightarrow> length bs = 16 \<and> bs ! 0 = 0xFE \<and> bs ! 1 AND 0xC0 = 0x80"

fun IsLinkLocalMulticast :: "ip \<Rightarrow> bool" where
  "IsLinkLocalMulticast (V4 a b c d) \<longleftrightarrow> a = 224 \<and> b = 0 \<and> c = 0"
| "IsLinkLocalMulticast (V6 bs) \<longleftrightarrow> length bs = 16 \<and> bs ! 0 = 0xFF \<and> bs ! 1 AND 0x0F = 0x02"

fun IsInterfaceLocalMulticast :: "ip \<Rightarrow> bool" where
  "IsInterfaceLocalMulticast (V4 a b c d) \<longleftrightarrow> False"
| "IsInterfaceLocalMulticast (V6 bs) \<longleftrightarrow> length bs = 16 \<and> bs ! 0 = 0xFF \<and> bs ! 1 AND 0x0F = 0x01"

fun IsMulticast :: "ip \<Rightarrow> bool" where
  "IsMulticast (V4 a b c d) \<longleftrightarrow> a AND 0xF0 = 0xE0"
| "IsMulticast (V6 bs) \<longleftrightarrow> length bs = 16 \<and> bs ! 0 = 0xFF"

fun IsUnspecified :: "ip \<Rightarrow> bool" where
  "IsUnspecified (V4 a b c d) \<longleftrightarrow> a = 0 \<and> b = 0 \<and> c = 0 \<and> d = 0"
| "IsUnspecified (V6 bs) \<longleftrightarrow> bs = replicate 16 0"

text \<open>100.64.0.0/10.\<close>

fun cgnat :: "ip \<Rightarrow> bool" where
  "cgnat (V4 a b c d) \<longleftrightarrow> a AND 0xFF = 100 \<and> b AND 0xC0 = 64"
| "cgnat (V6 bs) \<longleftrightarrow> False"

definition isPrivateOrLocal :: "ip \<Rightarrow> bool" where
  "isPrivateOrLocal ip0 = (let ip = To4 ip0 in IsLoopback ip \<or> IsPrivate ip \<or> IsLinkLocalUnicast ip \<or> IsLinkLocalMulticast ip \<or>
     IsInterfaceLocalMulticast ip \<or> IsMulticast ip \<or> IsUnspecified ip \<or> cgnat ip)"

text \<open>The dialer's hook: \<open>split\<close> and \<open>parse\<close> read an address and an IP. True: refused.\<close>

definition denyPrivateHosts :: "(string \<Rightarrow> (string \<times> string) option) \<Rightarrow> (string \<Rightarrow> ip option) \<Rightarrow> string \<Rightarrow> bool" where
  "denyPrivateHosts split parse address =
     (case split address of
        None \<Rightarrow> True
      | Some (host, port) \<Rightarrow> (case parse host of None \<Rightarrow> True | Some ip \<Rightarrow> isPrivateOrLocal ip))"

section \<open>An attempt\<close>

datatype http_error = ErrCircuitOpen | ErrTooManyInFlight | ErrNetwork | ErrOther

type_synonym response = "http_error + int"   \<comment> \<open>an error, or the status\<close>

text \<open>What the breaker counts as a failure.\<close>

fun failed_attempt :: "response \<Rightarrow> bool" where
  "failed_attempt (Inr status) = (status \<ge> 500 \<or> status = 429)"
| "failed_attempt (Inl e) = (e = ErrNetwork)"

text \<open>
  The circuit breaker: whether it lets the call through, and what it becomes after one that
  failed or not.
\<close>

record 'b breaker =
  br_allows :: "int \<Rightarrow> 'b \<Rightarrow> bool"
  br_after :: "int \<Rightarrow> bool \<Rightarrow> 'b \<Rightarrow> 'b"

text \<open>
  \<open>slots\<close> are the calls in flight; with a limit and no free slot the call waits for one
  (\<open>freed\<close>) or for the end of its context.
\<close>

definition RoundTrip ::
  "provider \<Rightarrow> 'b breaker \<Rightarrow> int \<Rightarrow> nat \<Rightarrow> bool \<Rightarrow> ('w \<Rightarrow> response \<times> 'w) \<Rightarrow> 'b \<Rightarrow> 'w \<Rightarrow> response \<times> 'b \<times> 'w" where
  "RoundTrip p B now slots freed nxt b w =
     (if maxConcurrent p > 0 \<and> int slots \<ge> maxConcurrent p \<and> \<not> freed then (Inl ErrTooManyInFlight, b, w)
      else if breakerFailures p \<le> 0 then (case nxt w of (r, w') \<Rightarrow> (r, b, w'))
      else if \<not> br_allows B now b then (Inl ErrCircuitOpen, b, w)
      else (case nxt w of (r, w') \<Rightarrow> (r, br_after B now (failed_attempt r) b, w')))"

text \<open>May the attempt be made again: \<open>sent\<close> says a request was built for the wire.\<close>

definition retryCondition :: "bool \<Rightarrow> string \<Rightarrow> response \<Rightarrow> bool" where
  "retryCondition sent meth r =
     (if r = Inl ErrCircuitOpen \<or> r = Inl ErrTooManyInFlight then False
      else if \<not> sent then \<not> is_ok r
      else if meth \<notin> {''GET'', ''HEAD'', ''OPTIONS'', ''PUT'', ''DELETE''} then False
      else case r of Inl e \<Rightarrow> True | Inr status \<Rightarrow> status = 429 \<or> status \<ge> 500)"

section \<open>Signing\<close>

record auth =
  au_Type :: string
  au_Token :: string
  au_Username :: string
  au_Password :: string
  au_Secret :: string
  au_Header :: string
  au_TimestampHeader :: string
  au_Payload :: string
  au_Encoding :: string
  au_TokenURL :: string
  au_ClientID :: string
  au_ClientSecret :: string

datatype auth_problem = Required string | BadAuthEncoding string | BadAuthType string

fun need :: "(string \<times> string) list \<Rightarrow> auth_problem option" where
  "need [] = None"
| "need ((f, v) # fs) = (if trim_space v = [] then Some (Required f) else need fs)"

definition auth_Validate :: "auth \<Rightarrow> auth_problem option" where
  "auth_Validate a =
     (if au_Type a = [] \<or> au_Type a = ''custom'' then None
      else if au_Type a = ''bearer'' then need [(''token'', au_Token a)]
      else if au_Type a = ''basic'' then need [(''username'', au_Username a), (''password'', au_Password a)]
      else if au_Type a = ''hmac-sha256'' then
        (if au_Encoding a \<notin> {[], ''hex'', ''base64''} then Some (BadAuthEncoding (au_Encoding a)) else need [(''secret'', au_Secret a)])
      else if au_Type a = ''oauth2'' then
        need [(''token_url'', au_TokenURL a), (''client_id'', au_ClientID a), (''client_secret'', au_ClientSecret a)]
      else Some (BadAuthType (au_Type a)))"

text \<open>\<^verbatim>\<open>Header.Set\<close>.\<close>

definition set_header :: "string \<Rightarrow> string \<Rightarrow> callback \<Rightarrow> callback" where
  "set_header h v q = q\<lparr>c_Headers := filter (\<lambda>(k, x). to_lower k \<noteq> to_lower h) (c_Headers q) @ [(h, v)]\<rparr>"

definition payloadTemplate :: "auth \<Rightarrow> string" where
  "payloadTemplate a = (if au_Payload a = [] then ''{method}'' @ [CHR 0x0A] @ ''{path}'' @ [CHR 0x0A] @ ''{timestamp}'' @ [CHR 0x0A] @ ''{body}''
     else au_Payload a)"

text \<open>
  \<open>sec\<close> is the Unix time. The path is that of the URL (\<^verbatim>\<open>req.URL.Path\<close>). The receiver
  of \<open>Webhook\<close> reads the same field for \<^verbatim>\<open>c.Path()\<close>: paths that Hertz would clean on
  arrival are outside the model.
\<close>

definition signHMAC :: "hmac \<Rightarrow> auth \<Rightarrow> int \<Rightarrow> callback \<Rightarrow> callback" where
  "signHMAC C a sec q =
     (let ts = show_int sec;
          payload = replacer [([CHR 0x5C, CHR ''n''], [CHR 0x0A]), (''{method}'', c_Method q), (''{path}'', c_Path q),
            (''{query}'', c_Query q), (''{timestamp}'', ts), (''{body}'', c_Body q)] (payloadTemplate a);
          sum = C (au_Secret a) payload;
          sig = (if au_Encoding a = ''base64'' then std_encode sum else hex_encode sum);
          q1 = set_header (if au_Header a = [] then ''X-Signature'' else au_Header a) sig q;
          tsHeader = (if au_TimestampHeader a = [] \<and> contains (payloadTemplate a) ''{timestamp}'' then ''X-Timestamp''
                      else au_TimestampHeader a)
      in if tsHeader \<noteq> [] then set_header tsHeader ts q1 else q1)"

datatype auth_failure = NoToken string | NoSigner | SignError string

text \<open>\<open>token\<close> is the OAuth token source, \<open>signer\<close> the vendor's own.\<close>

definition auth_RoundTrip ::
  "hmac \<Rightarrow> (unit \<Rightarrow> string + string) \<Rightarrow> (callback \<Rightarrow> string + callback) option \<Rightarrow> auth \<Rightarrow> int \<Rightarrow> callback \<Rightarrow> auth_failure + callback" where
  "auth_RoundTrip C token signer a sec q =
     (if au_Type a = ''bearer'' then Inr (set_header ''Authorization'' (''Bearer '' @ au_Token a) q)
      else if au_Type a = ''basic'' then
        Inr (set_header ''Authorization'' (''Basic '' @ std_encode (au_Username a @ '':'' @ au_Password a)) q)
      else if au_Type a = ''oauth2'' then
        (case token () of Inl e \<Rightarrow> Inl (NoToken e) | Inr t \<Rightarrow> Inr (set_header ''Authorization'' (''Bearer '' @ t) q))
      else if au_Type a = ''hmac-sha256'' then Inr (signHMAC C a sec q)
      else if au_Type a = ''custom'' then
        (case signer of None \<Rightarrow> Inl NoSigner | Some f \<Rightarrow> (case f q of Inl e \<Rightarrow> Inl (SignError e) | Inr q' \<Rightarrow> Inr q'))
      else Inr q)"

section \<open>Lemmas on masking\<close>

lemma takeWhile_dropWhile_at:
  assumes "\<forall>x \<in> set n. P x" and "r = [] \<or> \<not> P (hd r)"
  shows "takeWhile P (n @ r) = n" and "dropWhile P (n @ r) = r"
  using assms by (induction n; cases r; simp)+

lemma eq_not_name [simp]: "\<not> name_char CHR ''=''" by (simp add: name_char_def)

lemma question_name [simp]: "name_char CHR ''?''" "\<not> stop_char CHR ''?''" "stop_char CHR ''&''" "\<not> name_char CHR ''&''" "\<not> stop_char CHR ''=''"
  by (simp_all add: name_char_def stop_char_def)

text \<open>One parameter at the front: its value is cut off.\<close>

lemma redactQuery_parameter:
  assumes "c = CHR ''?'' \<or> c = CHR ''&''" and "n \<noteq> []" and "\<forall>x \<in> set n. name_char x"
  shows "redactQuery (c # n @ CHR ''='' # s) = c # n @ ''=***'' @ redactQuery (dropWhile (\<lambda>x. \<not> stop_char x) s)"
proof -
  have "takeWhile name_char (n @ CHR ''='' # s) = n" "dropWhile name_char (n @ CHR ''='' # s) = CHR ''='' # s"
    using takeWhile_dropWhile_at [OF assms(3), of "CHR ''='' # s"] by simp_all
  with assms(1,2) show ?thesis by (subst redactQuery.simps) (auto simp: Let_def)
qed

lemma redactQuery_plain: "c \<noteq> CHR ''?'' \<Longrightarrow> c \<noteq> CHR ''&'' \<Longrightarrow> redactQuery (c # s) = c # redactQuery s"
  by (subst redactQuery.simps) (simp add: Let_def)

lemma redactQuery_no_match:
  assumes "takeWhile name_char s = [] \<or> dropWhile name_char s = [] \<or> hd (dropWhile name_char s) \<noteq> CHR ''=''"
  shows "redactQuery (c # s) = c # redactQuery s"
  using assms by (subst redactQuery.simps) (auto simp: Let_def)

lemma dropWhile_value:
  "\<forall>x \<in> set v. \<not> stop_char x \<Longrightarrow> r = [] \<or> stop_char (hd r) \<Longrightarrow> dropWhile (\<lambda>x. \<not> stop_char x) (v @ r) = r"
  using takeWhile_dropWhile_at(2) [of v "\<lambda>x. \<not> stop_char x" r] by simp

text \<open>
  What comes before a parameter does not matter: the value is cut off wherever the scan
  stands when it gets there.
\<close>

lemma redactQuery_hides:
  assumes c: "c = CHR ''?'' \<or> c = CHR ''&''" and n: "n \<noteq> []" "\<forall>x \<in> set n. name_char x"
    and v: "\<forall>x \<in> set v. \<not> stop_char x" and v': "\<forall>x \<in> set v'. \<not> stop_char x"
    and r: "r = [] \<or> stop_char (hd r)"
  shows "redactQuery (a @ c # n @ CHR ''='' # v @ r) = redactQuery (a @ c # n @ CHR ''='' # v' @ r)"
proof (induction "length a" arbitrary: a rule: less_induct)
  case less
  let ?X = "\<lambda>v. c # n @ CHR ''='' # v @ r"
  show ?case
  proof (cases a)
    case Nil
    with redactQuery_parameter [OF c n] dropWhile_value [OF v r] dropWhile_value [OF v' r] show ?thesis by simp
  next
    case (Cons d b)
    have IH: "redactQuery (b @ ?X v) = redactQuery (b @ ?X v')" using less [of b] Cons by simp
    show ?thesis
    proof (cases "d = CHR ''?'' \<or> d = CHR ''&''")
      case False
      with Cons IH show ?thesis by (simp add: redactQuery_plain)
    next
      case d: True
      show ?thesis
      proof (cases "\<forall>x \<in> set b. name_char x")
        case True
        show ?thesis
        proof (cases "c = CHR ''?''")
          case True
          have m: "b @ c # n \<noteq> []" "\<forall>x \<in> set (b @ c # n). name_char x" using \<open>\<forall>x \<in> set b. name_char x\<close> n True by auto
          from redactQuery_parameter [OF d m] dropWhile_value [OF v r] dropWhile_value [OF v' r]
          show ?thesis by (simp add: Cons)
        next
          case False
          with c have "c = CHR ''&''" by simp
          with True have "dropWhile name_char (b @ ?X u) = ?X u" for u
            using takeWhile_dropWhile_at(2) [of b name_char "?X u"] by simp
          with False c have "redactQuery (d # b @ ?X u) = d # redactQuery (b @ ?X u)" for u
            by (intro redactQuery_no_match) auto
          with IH Cons show ?thesis by simp
        qed
      next
        case False
        then obtain x where "\<exists>b1 b2. b = b1 @ x # b2 \<and> (\<forall>y \<in> set b1. name_char y) \<and> \<not> name_char x"
          using split_list_first_prop [of b "\<lambda>x. \<not> name_char x"] by auto
        then obtain b1 b2 where b: "b = b1 @ x # b2" and b1: "\<forall>y \<in> set b1. name_char y" and x: "\<not> name_char x" by blast
        have tw: "takeWhile name_char (b @ z) = b1" "dropWhile name_char (b @ z) = x # b2 @ z" for z
          using takeWhile_dropWhile_at [OF b1, of "x # b2 @ z"] x by (simp_all add: b)
        show ?thesis
        proof (cases "b1 \<noteq> [] \<and> x = CHR ''=''")
          case True
          then have "redactQuery (d # b @ z) = d # b1 @ ''=***'' @ redactQuery (dropWhile (\<lambda>x. \<not> stop_char x) (b2 @ z))" for z
            using redactQuery_parameter [OF d, of b1 "b2 @ z"] b1 by (simp add: b)
          moreover have "redactQuery (dropWhile (\<lambda>x. \<not> stop_char x) (b2 @ ?X v)) = redactQuery (dropWhile (\<lambda>x. \<not> stop_char x) (b2 @ ?X v'))"
          proof (cases "\<forall>x \<in> set b2. \<not> stop_char x")
            case True
            show ?thesis
            proof (cases "c = CHR ''?''")
              case True
              have ns: "\<not> stop_char y" if "y \<in> set n" for y using n that by (auto simp: name_char_def)
              have "dropWhile (\<lambda>x. \<not> stop_char x) ((b2 @ c # n @ CHR ''='' # u) @ r) = r" if "\<forall>x \<in> set u. \<not> stop_char x" for u
                by (rule dropWhile_value) (use \<open>\<forall>x \<in> set b2. \<not> stop_char x\<close> True ns that r in auto)
              from this [OF v] this [OF v'] show ?thesis by simp
            next
              case False
              with c have "dropWhile (\<lambda>x. \<not> stop_char x) (b2 @ ?X u) = ?X u" for u
                using dropWhile_value [OF True, of "?X u"] by simp
              with less [of "[]"] Cons show ?thesis by simp
            qed
          next
            case False
            then have "dropWhile (\<lambda>x. \<not> stop_char x) (b2 @ z) = dropWhile (\<lambda>x. \<not> stop_char x) b2 @ z" for z
              by (auto simp: dropWhile_append1)
            moreover have "length (dropWhile (\<lambda>x. \<not> stop_char x) b2) < length a"
              using length_dropWhile_le [of "\<lambda>x. \<not> stop_char x" b2] by (simp add: Cons b)
            ultimately show ?thesis using less by simp
          qed
          ultimately show ?thesis by (simp add: Cons)
        next
          case False
          then have "redactQuery (d # b @ z) = d # redactQuery (b @ z)" for z
            by (intro redactQuery_no_match) (auto simp: tw)
          with IH Cons show ?thesis by simp
        qed
      qed
    qed
  qed
qed

text \<open>A text without stars occurs in the masked string only where it occurred before.\<close>

lemma prefix_replaced:
  "CHR ''*'' \<notin> set v \<Longrightarrow> has_prefix (replace_all w s) v \<Longrightarrow> has_prefix s v"
proof (induction w s arbitrary: v rule: replace_all.induct)
  case (1 w)
  then show ?case by simp
next
  case (2 w c s)
  show ?case
  proof (cases v)
    case Nil
    then show ?thesis by simp
  next
    case (Cons x xs)
    with 2 show ?thesis by (auto split: if_splits)
  qed
qed

lemma contains_drop: "contains (drop n s) v \<Longrightarrow> contains s v"
proof (induction n arbitrary: s)
  case 0
  then show ?case by simp
next
  case (Suc n)
  then show ?case by (cases s) auto
qed

lemma contains_replaced:
  "CHR ''*'' \<notin> set v \<Longrightarrow> v \<noteq> [] \<Longrightarrow> contains (replace_all w s) v \<Longrightarrow> contains s v"
proof (induction w s rule: replace_all.induct)
  case (1 w)
  then show ?case by simp
next
  case (2 w c s)
  have star: "\<not> has_prefix (CHR ''*'' # z) v" for z using 2 by (cases v) auto
  show ?case
  proof (cases "w \<noteq> [] \<and> has_prefix (c # s) w")
    case True
    with 2 star have "contains (replace_all w (drop (length w) (c # s))) v" by simp
    with 2 True have "contains (drop (length w) (c # s)) v" by blast
    then show ?thesis by (rule contains_drop)
  next
    case False
    with 2 have "has_prefix (c # replace_all w s) v \<or> contains (replace_all w s) v" by auto
    then show ?thesis
    proof
      assume "has_prefix (c # replace_all w s) v"
      then have "has_prefix (replace_all w (c # s)) v" using False by (simp only: replace_all.simps if_False)
      with prefix_replaced [OF "2.prems"(1)] have "has_prefix (c # s) v" by blast
      then show ?thesis by simp
    next
      assume "contains (replace_all w s) v"
      with 2 False show ?thesis by auto
    qed
  qed
qed

lemma replaced_gone: "CHR ''*'' \<notin> set v \<Longrightarrow> v \<noteq> [] \<Longrightarrow> \<not> contains (replace_all v s) v"
proof (induction v s rule: replace_all.induct)
  case (1 v)
  then show ?case by simp
next
  case (2 v c s)
  have star: "\<not> has_prefix (CHR ''*'' # z) v" for z using 2 by (cases v) auto
  show ?case
  proof (cases "has_prefix (c # s) v")
    case True
    with 2 star show ?thesis by simp
  next
    case False
    then have "\<not> has_prefix (replace_all v (c # s)) v" using prefix_replaced [OF "2.prems"(1)] by blast
    with False 2 show ?thesis by simp
  qed
qed

lemma contains_masked:
  assumes "CHR ''*'' \<notin> set v" and "v \<noteq> []"
  shows "contains (fold replace_all ws s) v \<Longrightarrow> contains s v"
proof (induction ws arbitrary: s)
  case Nil
  then show ?case by simp
next
  case (Cons w ws)
  then have "contains (replace_all w s) v" by simp
  with contains_replaced [OF assms] show ?case .
qed

lemma redactSecrets_gone:
  assumes "CHR ''*'' \<notin> set v" and "v \<noteq> []"
  shows "v \<in> set keep \<Longrightarrow> \<not> contains (redactSecrets keep s) v"
proof (induction keep arbitrary: s)
  case Nil
  then show ?case by simp
next
  case (Cons w ws)
  show ?case
  proof (cases "v \<in> set ws")
    case True
    with Cons.IH [of "replace_all w s"] show ?thesis by (simp add: redactSecrets_def)
  next
    case False
    with Cons.prems have "w = v" by simp
    with contains_masked [OF assms, of ws "replace_all v s"] replaced_gone [OF assms, of s]
    show ?thesis by (auto simp: redactSecrets_def)
  qed
qed

section \<open>Lemmas on signing\<close>

lemma Get_set_header_same [simp]: "Get (set_header h v q) h = v"
proof -
  have "find (\<lambda>(x, y). to_lower x = to_lower h) (filter (\<lambda>(x, y). to_lower x \<noteq> to_lower h) l @ [(h, v)]) = Some (h, v)" for l
    by (induction l) auto
  then show ?thesis by (simp add: Get_def set_header_def)
qed

lemma Get_set_header_other: "to_lower k \<noteq> to_lower h \<Longrightarrow> Get (set_header h v q) k = Get q k"
proof -
  assume ne: "to_lower k \<noteq> to_lower h"
  have "find (\<lambda>(x, y). to_lower x = to_lower k) (filter (\<lambda>(x, y). to_lower x \<noteq> to_lower h) l @ [(h, v)])
      = find (\<lambda>(x, y). to_lower x = to_lower k) l" for l
    using ne by (induction l) auto
  then show ?thesis by (simp add: Get_def set_header_def)
qed

lemma set_header_same [simp]:
  "c_Method (set_header h v q) = c_Method q" "c_Path (set_header h v q) = c_Path q"
  "c_Query (set_header h v q) = c_Query q" "c_Body (set_header h v q) = c_Body q"
  by (simp_all add: set_header_def)

lemma digit_plain: "d < 10 \<Longrightarrow> \<not> is_space (digit_char d)"
  by (simp add: is_space_def digit_char_def Let_def of_char_of)

lemma show_int_plain: "c \<in> set (show_int i) \<Longrightarrow> \<not> is_space c"
proof -
  assume c: "c \<in> set (show_int i)"
  have "\<not> is_space CHR ''-''" by (simp add: is_space_def)
  with c set_show_nat digit_plain show ?thesis by (fastforce simp: show_int_def split: if_splits)
qed

lemma hex_plain: "c \<in> set (hex_encode s) \<Longrightarrow> c \<in> set ''0123456789abcdef''"
proof -
  assume "c \<in> set (hex_encode s)"
  then obtain x where c: "c = ''0123456789abcdef'' ! (of_char x div 16) \<or> c = ''0123456789abcdef'' ! (of_char x mod 16)"
    by (auto simp: hex_encode_def Let_def)
  have "(of_char x :: nat) div 16 < 16" "(of_char x :: nat) mod 16 < 16"
    by (simp_all add: less_mult_imp_div_less)
  then have "(of_char x :: nat) div 16 < length ''0123456789abcdef''" "(of_char x :: nat) mod 16 < length ''0123456789abcdef''"
    by simp_all
  with c nth_mem show ?thesis by blast
qed

lemma hex_no_space: "c \<in> set (hex_encode s) \<Longrightarrow> \<not> is_space c \<and> c \<noteq> CHR ''=''"
  using hex_plain [of c s] by (auto simp: is_space_def)

lemma raw_encode_no_space: "c \<in> set (raw_encode s) \<Longrightarrow> \<not> is_space c"
proof -
  assume "c \<in> set (raw_encode s)"
  then obtain n where "c = b64_char n" "n < 64" using sextets_bytes by (auto simp: raw_encode_def)
  then have "b64_val c \<noteq> None" by simp
  then show "\<not> is_space c" by (auto simp: is_space_def b64_val_def Let_def split: if_splits)
qed

lemma std_encode_no_space: "c \<in> set (std_encode s) \<Longrightarrow> \<not> is_space c"
  using raw_encode_no_space by (auto simp: std_encode_def is_space_def split: if_splits)

lemma after_equals_plain: "CHR ''='' \<notin> set s \<Longrightarrow> after_equals s = s"
  by (simp add: after_equals_def)

lemma encode_nonempty: "s \<noteq> [] \<Longrightarrow> std_encode s \<noteq> []" "s \<noteq> [] \<Longrightarrow> hex_encode s \<noteq> []"
proof -
  show "std_encode s \<noteq> []" if "s \<noteq> []"
  proof
    assume "std_encode s = []"
    then have "raw_encode s = []" by (simp add: std_encode_def)
    then have "raw_decode (raw_encode s) = raw_decode (raw_encode [])" by (simp add: raw_encode_def bytes_of_def)
    with that show False by simp
  qed
  show "hex_encode s \<noteq> []" if "s \<noteq> []" using that by (cases s) (auto simp: hex_encode_def Let_def)
qed

text \<open>What the signing puts into the headers.\<close>

lemma signHMAC_request [simp]:
  "c_Method (signHMAC C a sec q) = c_Method q" "c_Path (signHMAC C a sec q) = c_Path q"
  "c_Query (signHMAC C a sec q) = c_Query q" "c_Body (signHMAC C a sec q) = c_Body q"
  by (simp_all add: signHMAC_def Let_def)

lemma cut_colon: "CHR '':'' \<notin> set u \<Longrightarrow> cut (u @ CHR '':'' # p) '':'' = Some (u, p)"
  by (induction u) auto

text \<open>Basic credentials are read back, unless the user name has a colon.\<close>

lemma basic_auth_verifies:
  assumes "au_Type a = ''basic''" and "v_Type v = ''basic''" and "v_Username v = au_Username a"
    and "v_Password v = au_Password a" and "CHR '':'' \<notin> set (au_Username a)"
  shows "\<exists>q'. auth_RoundTrip C token signer a sec q = Inr q' \<and> verify C custom v now q' = None"
proof -
  have "parseBasic (''Basic '' @ std_encode (au_Username a @ '':'' @ au_Password a)) = Some (au_Username a, au_Password a)"
    using assms(5) by (simp add: parseBasic_def cut_colon)
  with assms show ?thesis by (simp add: auth_RoundTrip_def verify_def)
qed

section \<open>Lemmas on retries\<close>

text \<open>
  A request that reached the wire is tried again only when its method may be repeated and the
  provider failed; one the breaker or the limit refused is not.
\<close>

lemma retried_only_when_safe:
  assumes "retryCondition True meth r"
  shows "meth \<in> {''GET'', ''HEAD'', ''OPTIONS'', ''PUT'', ''DELETE''} \<and> r \<noteq> Inl ErrCircuitOpen \<and> r \<noteq> Inl ErrTooManyInFlight \<and>
    (\<forall>status. r = Inr status \<longrightarrow> status = 429 \<or> status \<ge> 500)"
  using assms by (auto simp: retryCondition_def split: if_splits)

text \<open>A refused attempt does not reach the provider and does not move the breaker.\<close>

lemma RoundTrip_refused:
  assumes "RoundTrip p B now slots freed nxt b w = (r, b', w')"
    and "w' \<noteq> w \<or> b' \<noteq> b"
  shows "r = fst (nxt w) \<and> w' = snd (nxt w)"
  using assms by (auto simp: RoundTrip_def split: if_splits prod.splits)

section \<open>Lemmas on addresses\<close>

lemma byte_all:
  assumes "list_all (\<lambda>i. P (word_of_int i :: 8 word)) [0..255]"
  shows "P x"
proof -
  have "uint x \<in> set [0..255]" using uint_lt2p [of x] by simp
  with assms have "P (word_of_int (uint x))" unfolding list_all_iff by blast
  then show ?thesis by simp
qed

lemma byte_tests:
  fixes b :: "8 word"
  shows "b AND 0xF0 = 16 \<longleftrightarrow> 16 \<le> uint b \<and> uint b \<le> 31"
    and "b AND 0xF0 = 0xE0 \<longleftrightarrow> 224 \<le> uint b \<and> uint b \<le> 239"
    and "b AND 0xC0 = 64 \<longleftrightarrow> 64 \<le> uint b \<and> uint b \<le> 127"
    and "b AND 0xFF = b"
proof -
  have "list_all (\<lambda>i. (word_of_int i :: 8 word) AND 0xF0 = 16 \<longleftrightarrow> 16 \<le> uint (word_of_int i :: 8 word) \<and> uint (word_of_int i :: 8 word) \<le> 31) [0..255]"
    by code_simp
  then show "b AND 0xF0 = 16 \<longleftrightarrow> 16 \<le> uint b \<and> uint b \<le> 31" by (rule byte_all)
  have "list_all (\<lambda>i. (word_of_int i :: 8 word) AND 0xF0 = 0xE0 \<longleftrightarrow> 224 \<le> uint (word_of_int i :: 8 word) \<and> uint (word_of_int i :: 8 word) \<le> 239) [0..255]"
    by code_simp
  then show "b AND 0xF0 = 0xE0 \<longleftrightarrow> 224 \<le> uint b \<and> uint b \<le> 239" by (rule byte_all)
  have "list_all (\<lambda>i. (word_of_int i :: 8 word) AND 0xC0 = 64 \<longleftrightarrow> 64 \<le> uint (word_of_int i :: 8 word) \<and> uint (word_of_int i :: 8 word) \<le> 127) [0..255]"
    by code_simp
  then show "b AND 0xC0 = 64 \<longleftrightarrow> 64 \<le> uint b \<and> uint b \<le> 127" by (rule byte_all)
  have "list_all (\<lambda>i. (word_of_int i :: 8 word) AND 0xFF = word_of_int i) [0..255]" by code_simp
  then show "b AND 0xFF = b" by (rule byte_all)
qed

section \<open>Properties\<close>

lemma replacer_unused:
  "\<not> contains s p \<Longrightarrow> p \<noteq> [] \<Longrightarrow> replacer (ps @ (p, x) # qs) s = replacer (ps @ (p, y) # qs) s"
proof (induction s rule: measure_induct_rule [of length])
  case (less s)
  show ?case
  proof (cases s)
    case Nil
    then show ?thesis by simp
  next
    case (Cons c t)
    have np: "\<not> has_prefix (c # t) p" and nt: "\<not> contains t p" using less.prems Cons by auto
    have d: "replacer (ps @ (p, x) # qs) (drop n t) = replacer (ps @ (p, y) # qs) (drop n t)" for n
    proof -
      have "length (drop n t) < length s" by (simp add: Cons less_Suc_eq_le)
      moreover have "\<not> contains (drop n t) p" using nt contains_drop by blast
      ultimately show ?thesis using less.IH less.prems(2) by blast
    qed
    have f: "find (\<lambda>(old, new). has_prefix (c # t) old) (ps @ (p, z) # qs) = find (\<lambda>(old, new). has_prefix (c # t) old) (ps @ qs)" for z
      using np by (induction ps) auto
    show ?thesis using d [of 0] d by (simp add: Cons f split: option.splits prod.splits)
  qed
qed

lemma payloadTemplate_nonempty [simp]: "payloadTemplate a \<noteq> []"
  by (simp add: payloadTemplate_def)

text \<open>
  C30. What one service signs, another verifies. A request signed with HMAC-SHA256 passes the
  check of the callbacks when both sides have the same secret, payload template, encoding and
  headers, the two headers differ, and the clocks differ by no more than the allowed skew. The path
  of the request is one Hertz leaves as it is: the signer reads the path of the URL, the
  receiver the path after its cleaning (no empty, dot or escaped segments), and the request
  on the wire has one field for both.
\<close>

theorem signed_request_verifies:
  assumes "v_Type v = ''hmac-sha256''" and "v_Secret v = au_Secret a" and "v_Encoding v = au_Encoding a"
    and "v_Payload v = payloadTemplate a" and "v_Header v = au_Header a" and "v_TimestampHeader v = au_TimestampHeader a"
    and "to_lower (if au_Header a = [] then ''X-Signature'' else au_Header a)
       \<noteq> to_lower (if au_TimestampHeader a = [] then ''X-Timestamp'' else au_TimestampHeader a)"
    and "- (2 ^ 63) \<le> sec" and "sec < 2 ^ 63" and "\<bar>now - sec * 1000\<bar> \<le> dur_or (v_MaxSkew v) 300000"
    and "\<And>s m. C s m \<noteq> []"
  shows "verify C custom v now (signHMAC C a sec q) = None"
proof -
  let ?h = "if au_Header a = [] then ''X-Signature'' else au_Header a"
  let ?t = "if au_TimestampHeader a = [] then ''X-Timestamp'' else au_TimestampHeader a"
  let ?q = "signHMAC C a sec q"
  let ?payload = "\<lambda>ts. replacer [([CHR 0x5C, CHR ''n''], [CHR 0x0A]), (''{method}'', c_Method q), (''{path}'', c_Path q),
            (''{query}'', c_Query q), (''{timestamp}'', ts), (''{body}'', c_Body q)] (payloadTemplate a)"
  let ?sum = "C (au_Secret a) (?payload (show_int sec))"
  let ?sig = "if au_Encoding a = ''base64'' then std_encode ?sum else hex_encode ?sum"
  have h: "Get ?q ?h = ?sig"
    using assms(7) by (auto simp: signHMAC_def Let_def Get_set_header_other)
  have plain: "\<forall>c \<in> set ?sig. \<not> is_space c" using std_encode_no_space hex_no_space by auto
  then have got: "trim_space (Get ?q ?h) = ?sig" unfolding h by (rule trim_space_no_space)
  have ne: "?sig \<noteq> []" using encode_nonempty assms(11) by simp
  have ts: "\<exists>ts. check_timestamp v now ?q = Inr ts \<and> ?payload ts = ?payload (show_int sec)"
  proof (cases "contains (payloadTemplate a) ''{timestamp}''")
    case True
    have "Get ?q ?t = show_int sec" using True by (simp add: signHMAC_def Let_def)
    then have "trim_space (Get ?q ?t) = show_int sec" using show_int_plain trim_space_no_space by metis
    with True assms(4,6,8-10) have "check_timestamp v now ?q = Inr (show_int sec)"
      by (cases "au_TimestampHeader a = []") (simp_all add: check_timestamp_def Let_def)
    then show ?thesis by blast
  next
    case False
    then have "?payload [] = ?payload (show_int sec)"
      using replacer_unused [of "payloadTemplate a" "''{timestamp}''"
          "[([CHR 0x5C, CHR ''n''], [CHR 0x0A]), (''{method}'', c_Method q), (''{path}'', c_Path q), (''{query}'', c_Query q)]"
          "[]" "[(''{body}'', c_Body q)]" "show_int sec"] by (simp del: replacer.simps)
    with False assms(4) show ?thesis by (simp add: check_timestamp_def Let_def del: replacer.simps)
  qed
  then obtain ts where ts: "check_timestamp v now ?q = Inr ts" "?payload ts = ?payload (show_int sec)" by blast
  have want: "want_signature C v ?q ts = ?sig"
    using ts(2) assms(2-4) by (simp add: want_signature_def signed_payload_def Let_def del: replacer.simps)
  have tail: "(if au_Encoding a = ''base64'' then ?sig else after_equals ?sig) = ?sig"
    using hex_no_space after_equals_plain by auto
  show ?thesis
    unfolding verify_def assms(1,3,5) using ne ts(1) want got tail by (simp add: Let_def)
qed

theorem signed_request_verifies_witness:
  "verify (\<lambda>s m. CHR ''k'' # s @ m) (\<lambda>ev. None)
     \<lparr>v_Type = ''hmac-sha256'', v_Secret = ''s'', v_Header = [], v_Payload = ''{timestamp}.{body}'', v_Encoding = ''base64'',
       v_TimestampHeader = [], v_MaxSkew = 0, v_Username = [], v_Password = []\<rparr> 1700000009000
     (signHMAC (\<lambda>s m. CHR ''k'' # s @ m)
       \<lparr>au_Type = ''hmac-sha256'', au_Token = [], au_Username = [], au_Password = [], au_Secret = ''s'', au_Header = [],
         au_TimestampHeader = [], au_Payload = ''{timestamp}.{body}'', au_Encoding = ''base64'', au_TokenURL = [],
         au_ClientID = [], au_ClientSecret = []\<rparr> 1700000000 (sample_call [] ''{}'')) = None"
  by (rule signed_request_verifies) (simp_all add: payloadTemplate_def dur_or_def to_lower_def lower_char_def)

text \<open>
  No value of a query reaches a log. Whatever stands around a parameter, in an address, an
  error or a log line, what is written is the same for every value of the parameter: the
  value has left no trace.
\<close>

lemma query_values_masked:
  assumes "c \<in> {CHR ''?'', CHR ''&''}" and "n \<noteq> []" and "\<forall>x \<in> set n. name_char x"
    and "\<forall>x \<in> set v \<union> set v'. \<not> stop_char x" and "r = [] \<or> stop_char (hd r)"
  shows "redact keep (a @ [c] @ n @ ''='' @ v @ r) = redact keep (a @ [c] @ n @ ''='' @ v' @ r)"
  using redactQuery_hides [of c n v v' r a] assms by (simp add: redact_def)

theorem query_values_masked_witness:
  "redact [] (''Get https://h/p'' @ [CHR ''?''] @ ''key'' @ ''='' @ ''abc'' @ '': timeout'')
   = redact [] (''Get https://h/p'' @ [CHR ''?''] @ ''key'' @ ''='' @ ''zzzz'' @ '': timeout'')"
  using query_values_masked [of "CHR ''?''" "''key''" "''abc:''" "''zzzz:''" "'' timeout''" "[]" "''Get https://h/p''"]
  by (simp add: name_char_def stop_char_def)

lemma percent_nonempty [simp]: "percent c \<noteq> []"
  unfolding percent_def Let_def by (rule list.distinct(2))

lemma concat_nonempty: "(\<And>c. f c \<noteq> []) \<Longrightarrow> s \<noteq> [] \<Longrightarrow> concat (map f s) \<noteq> []"
  by (induction s) auto

lemma escape_nonempty: "s \<noteq> [] \<Longrightarrow> PathEscape s \<noteq> []" "s \<noteq> [] \<Longrightarrow> QueryEscape s \<noteq> []"
  unfolding PathEscape_def QueryEscape_def by (rule concat_nonempty; simp)+

lemma Secret_forms:
  assumes "s \<in> set vs" and "s \<noteq> []"
  shows "{s, PathEscape s, QueryEscape s} \<subseteq> set (Secret vs keep)"
proof -
  let ?forms = "\<lambda>v. if v = [] then [] else v # (if PathEscape v \<noteq> v then [PathEscape v] else [])
      @ (if QueryEscape v \<noteq> v then [QueryEscape v] else [])"
  have "s \<in> set (?forms s)" using assms(2) by simp
  moreover have "PathEscape s \<in> set (?forms s)" using assms(2) by (cases "PathEscape s = s") simp_all
  moreover have "QueryEscape s \<in> set (?forms s)" using assms(2) by (cases "QueryEscape s = s") simp_all
  moreover have "set (?forms s) \<subseteq> set (Secret vs keep)" unfolding Secret_def set_append set_concat set_map using assms(1) by blast
  ultimately show ?thesis by blast
qed

text \<open>
  A registered secret never shows. In nothing the client writes does a registered secret
  without stars occur, in the form given or escaped for a path or a query.
\<close>

lemma registered_secrets_masked:
  assumes "s \<in> set vs" and "s \<noteq> []" and "x \<in> {s, PathEscape s, QueryEscape s}" and "CHR ''*'' \<notin> set x"
  shows "\<not> contains (redact (Secret vs keep) msg) x"
proof -
  have "x \<in> set (Secret vs keep)" using assms(3) Secret_forms [OF assms(1,2)] by (rule subsetD [rotated])
  moreover have "x \<noteq> []" using assms(3) escape_nonempty [OF assms(2)] assms(2) by (elim insertE emptyE) simp_all
  ultimately show ?thesis unfolding redact_def using redactSecrets_gone [OF assms(4)] by blast
qed

theorem registered_secrets_masked_witness:
  "\<not> contains (redact (Secret [''a/b''] []) ''https://api/bota%2Fb/x?y=1'') ''a%2Fb''"
proof -
  have "PathEscape ''a/b'' = ''a%2Fb''" by code_simp
  then show ?thesis by (intro registered_secrets_masked [of "''a/b''"]) simp_all
qed

text \<open>The refused IPv4 addresses, from and to.\<close>

definition ip4 :: "int \<Rightarrow> int \<Rightarrow> int \<Rightarrow> int \<Rightarrow> int" where
  "ip4 a b c d = ((a * 256 + b) * 256 + c) * 256 + d"

definition refused_ranges :: "(int \<times> int) list" where
  "refused_ranges = [(ip4 0 0 0 0, ip4 0 0 0 0), (ip4 10 0 0 0, ip4 10 255 255 255), (ip4 100 64 0 0, ip4 100 127 255 255),
     (ip4 127 0 0 0, ip4 127 255 255 255), (ip4 169 254 0 0, ip4 169 254 255 255), (ip4 172 16 0 0, ip4 172 31 255 255),
     (ip4 192 168 0 0, ip4 192 168 255 255), (ip4 224 0 0 0, ip4 239 255 255 255)]"

lemma ip4_range:
  assumes "0 \<le> a" "a \<le> 255" "0 \<le> b" "b \<le> 255" "0 \<le> c" "c \<le> 255" "0 \<le> d" "d \<le> 255"
  shows "ip4 lo 0 0 0 \<le> ip4 a b c d \<and> ip4 a b c d \<le> ip4 hi 255 255 255 \<longleftrightarrow> lo \<le> a \<and> a \<le> hi"
    and "0 \<le> lo \<Longrightarrow> hi \<le> 255 \<Longrightarrow>
      ip4 n lo 0 0 \<le> ip4 a b c d \<and> ip4 a b c d \<le> ip4 n hi 255 255 \<longleftrightarrow> a = n \<and> lo \<le> b \<and> b \<le> hi"
    and "ip4 a b c d = ip4 0 0 0 0 \<longleftrightarrow> a = 0 \<and> b = 0 \<and> c = 0 \<and> d = 0"
proof -
  have num: "ip4 x y z w = 16777216 * x + 65536 * y + 256 * z + w" for x y z w by (simp add: ip4_def)
  show "ip4 lo 0 0 0 \<le> ip4 a b c d \<and> ip4 a b c d \<le> ip4 hi 255 255 255 \<longleftrightarrow> lo \<le> a \<and> a \<le> hi"
    using assms unfolding num by (intro iffI conjI) linarith+
  show "ip4 n lo 0 0 \<le> ip4 a b c d \<and> ip4 a b c d \<le> ip4 n hi 255 255 \<longleftrightarrow> a = n \<and> lo \<le> b \<and> b \<le> hi"
    if "0 \<le> lo" "hi \<le> 255"
  proof
    assume r: "ip4 n lo 0 0 \<le> ip4 a b c d \<and> ip4 a b c d \<le> ip4 n hi 255 255"
    then have "a = n" using assms that unfolding num by linarith
    with r assms that show "a = n \<and> lo \<le> b \<and> b \<le> hi" unfolding num by (intro conjI) linarith+
  qed (use assms that in \<open>simp add: num\<close>)
  show "ip4 a b c d = ip4 0 0 0 0 \<longleftrightarrow> a = 0 \<and> b = 0 \<and> c = 0 \<and> d = 0"
    using assms unfolding num by (intro iffI conjI) linarith+
qed

text \<open>
  The refused addresses are the ranges meant. The tests on the bytes refuse an IPv4
  address, written as such or in IPv6 form, exactly when it lies in one of eight ranges:
  unspecified, private, shared, loopback, link-local and multicast.
\<close>

lemma private_addresses:
  "isPrivateOrLocal (V4 a b c d) = list_ex (\<lambda>(lo, hi). lo \<le> ip4 (uint a) (uint b) (uint c) (uint d) \<and>
      ip4 (uint a) (uint b) (uint c) (uint d) \<le> hi) refused_ranges \<and>
   isPrivateOrLocal (V6 (replicate 10 0 @ [0xFF, 0xFF, a, b, c, d])) = isPrivateOrLocal (V4 a b c d)"
proof
  have lo: "0 \<le> uint x" and hi: "uint x \<le> 255" for x :: "8 word" using uint_lt2p [of x] by simp_all
  note r = ip4_range [OF lo [of a] hi [of a] lo [of b] hi [of b] lo [of c] hi [of c] lo [of d] hi [of d]]
  have eq: "x = y \<longleftrightarrow> uint x = uint y" for x y :: "8 word" by (simp add: word_uint_eq_iff)
  have one: "k \<le> x \<and> x \<le> k \<longleftrightarrow> x = k" for k x :: int by linarith
  have nums: "uint (127 :: 8 word) = 127" "uint (10 :: 8 word) = 10" "uint (172 :: 8 word) = 172" "uint (192 :: 8 word) = 192"
    "uint (168 :: 8 word) = 168" "uint (169 :: 8 word) = 169" "uint (254 :: 8 word) = 254" "uint (224 :: 8 word) = 224"
    "uint (100 :: 8 word) = 100" "uint (0 :: 8 word) = 0" by simp_all
  have mc: "uint a = 224 \<Longrightarrow> 224 \<le> uint a \<and> uint a \<le> 239" by simp
  have right: "list_ex (\<lambda>(lo, hi). lo \<le> ip4 (uint a) (uint b) (uint c) (uint d) \<and>
      ip4 (uint a) (uint b) (uint c) (uint d) \<le> hi) refused_ranges \<longleftrightarrow>
      (uint a = 0 \<and> uint b = 0 \<and> uint c = 0 \<and> uint d = 0) \<or> uint a = 10 \<or> (uint a = 100 \<and> 64 \<le> uint b \<and> uint b \<le> 127) \<or>
      uint a = 127 \<or> (uint a = 169 \<and> uint b = 254) \<or> (uint a = 172 \<and> 16 \<le> uint b \<and> uint b \<le> 31) \<or>
      (uint a = 192 \<and> uint b = 168) \<or> (224 \<le> uint a \<and> uint a \<le> 239)"
    unfolding refused_ranges_def list_ex_Nil_iff list_ex_Cons_iff prod.case r(1) [of 10 10] r(1) [of 127 127] r(1) [of 224 239] one r(3)
      r(2) [of 64 127 100, simplified] r(2) [of 254 254 169, simplified] r(2) [of 16 31 172, simplified]
      r(2) [of 168 168 192, simplified]
    by blast
  show "isPrivateOrLocal (V4 a b c d) = list_ex (\<lambda>(lo, hi). lo \<le> ip4 (uint a) (uint b) (uint c) (uint d) \<and>
      ip4 (uint a) (uint b) (uint c) (uint d) \<le> hi) refused_ranges"
    unfolding right isPrivateOrLocal_def Let_def To4.simps IsLoopback.simps IsPrivate.simps IsLinkLocalUnicast.simps
      IsLinkLocalMulticast.simps IsInterfaceLocalMulticast.simps IsMulticast.simps IsUnspecified.simps cgnat.simps byte_tests
    unfolding eq nums
    using mc by blast
  show "isPrivateOrLocal (V6 (replicate 10 0 @ [0xFF, 0xFF, a, b, c, d])) = isPrivateOrLocal (V4 a b c d)"
    by (simp add: isPrivateOrLocal_def numeral_eq_Suc)
qed

end
