(* ===== verification/ObjectStore.thy ===== *)
theory ObjectStore
  imports Httpx Targets
begin

text \<open>
  Object storage (\<^verbatim>\<open>s3x/s3x.go\<close>, \<^verbatim>\<open>kitexx/runtime.go\<close>): where the buckets are,
  the keys of a service inside them, the operations of a client, and the address of a
  public object. The server is an argument, with what S3 documents in the locale
  \<open>object_server\<close>.
\<close>

section \<open>The configuration\<close>

record s3_config =
  sg_Enabled :: bool
  sg_Source :: string
  sg_Endpoint :: string
  sg_Bucket :: string
  sg_AccessKey :: string
  sg_SecretKey :: string
  sg_Region :: string
  sg_PathStyle :: "bool option"
  sg_Prefix :: string
  sg_PublicBucket :: string
  sg_PublicEndpoint :: string
  sg_PublicURL :: string
  sg_Timeout :: int

record s3_target =
  s3_Endpoint :: string
  s3_Bucket :: string
  s3_AccessKey :: string
  s3_SecretKey :: string
  s3_Region :: string
  s3_PathStyle :: bool
  s3_PublicBucket :: string
  s3_PublicEndpoint :: string
  s3_PublicURL :: string

datatype s3_error = S3NeedsBucket | BadS3Source string | S3Target target_error | BadParams string | NoSecretKey string | NoBucket
  | S3Incomplete | BucketUnusable string string | PublicIsPrivate string | ObjectNotFound | S3Failed string

definition s3_SourceName :: "s3_config \<Rightarrow> string" where
  "s3_SourceName c = (if sg_Source c = [] then ''static'' else sg_Source c)"

definition s3_Validate :: "s3_config \<Rightarrow> s3_error option" where
  "s3_Validate c =
     (if s3_SourceName c = ''static'' then (if sg_Endpoint c = [] \<or> sg_Bucket c = [] then Some S3NeedsBucket else None)
      else if s3_SourceName c = ''platform'' then None
      else Some (BadS3Source (sg_Source c)))"

definition s3_Static :: "s3_config \<Rightarrow> s3_target" where
  "s3_Static c = \<lparr>s3_Endpoint = sg_Endpoint c, s3_Bucket = sg_Bucket c, s3_AccessKey = sg_AccessKey c, s3_SecretKey = sg_SecretKey c,
     s3_Region = sg_Region c, s3_PathStyle = (case sg_PathStyle c of None \<Rightarrow> True | Some b \<Rightarrow> b),
     s3_PublicBucket = sg_PublicBucket c, s3_PublicEndpoint = sg_PublicEndpoint c, s3_PublicURL = sg_PublicURL c\<rparr>"

text \<open>
  \<^verbatim>\<open>url.QueryUnescape\<close> and \<^verbatim>\<open>url.PathUnescape\<close> (\<open>form\<close>: a plus is a space),
  \<^verbatim>\<open>url.ParseQuery\<close> and \<^verbatim>\<open>Values.Get\<close>.
\<close>

definition hex_val :: "char \<Rightarrow> nat option" where
  "hex_val c = (let n = of_char c :: nat in
     if 48 \<le> n \<and> n \<le> 57 then Some (n - 48) else if 65 \<le> n \<and> n \<le> 70 then Some (n - 55)
     else if 97 \<le> n \<and> n \<le> 102 then Some (n - 87) else None)"

fun unescape :: "bool \<Rightarrow> string \<Rightarrow> string option" where
  "unescape form [] = Some []"
| "unescape form (c # s) =
     (if c = CHR ''%'' then
        (case s of
           a # b # r \<Rightarrow>
             (case (hex_val a, hex_val b) of
                (Some m, Some n) \<Rightarrow> map_option ((#) (char_of (16 * m + n))) (unescape form r)
              | _ \<Rightarrow> None)
         | _ \<Rightarrow> None)
      else map_option ((#) (if form \<and> c = CHR ''+'' then CHR '' '' else c)) (unescape form s))"

definition query_pair :: "string \<Rightarrow> (string \<times> string) option" where
  "query_pair p =
     (if CHR '';'' \<in> set p then None
      else case (unescape True (takeWhile (\<lambda>c. c \<noteq> CHR ''='') p), unescape True (drop 1 (dropWhile (\<lambda>c. c \<noteq> CHR ''='') p))) of
          (Some k, Some v) \<Rightarrow> Some (k, v)
        | _ \<Rightarrow> None)"

definition ParseQuery :: "string \<Rightarrow> (string \<times> string) list option" where
  "ParseQuery s =
     (let ps = map query_pair (filter (\<lambda>p. p \<noteq> []) (split_on CHR ''&'' s))
      in if None \<in> set ps then None else Some (map the ps))"

definition query_Get :: "(string \<times> string) list \<Rightarrow> string \<Rightarrow> string" where
  "query_Get q k = (case map_of q k of Some v \<Rightarrow> v | None \<Rightarrow> [])"

definition s3_TargetFromRow :: "string \<Rightarrow> string \<Rightarrow> string \<Rightarrow> string \<Rightarrow> env \<Rightarrow> s3_error + s3_target" where
  "s3_TargetFromRow addr bucket accessKey params e =
     (case ParseQuery params of
        None \<Rightarrow> Inl (BadParams params)
      | Some q \<Rightarrow>
          let get = query_Get q; var = get ''secret_env''; secret = (if var = [] then [] else e var)
          in if var \<noteq> [] \<and> secret = [] then Inl (NoSecretKey var)
             else if bucket = [] then Inl NoBucket
             else Inr \<lparr>s3_Endpoint = (if get ''insecure'' = ''true'' then ''http'' else ''https'') @ ''://'' @ addr, s3_Bucket = bucket,
               s3_AccessKey = accessKey, s3_SecretKey = secret, s3_Region = get ''region'', s3_PathStyle = (get ''path_style'' \<noteq> ''false''),
               s3_PublicBucket = get ''public_bucket'', s3_PublicEndpoint = get ''public_endpoint'', s3_PublicURL = get ''public_url''\<rparr>)"

text \<open>The tenant here is \<^verbatim>\<open>TENANT_CODE\<close> as it stands, blanks and all.\<close>

definition s3Target :: "'u url_lib \<Rightarrow> start \<Rightarrow> s3_config \<Rightarrow> s3_error + s3_target" where
  "s3Target U w c =
     (if s3_SourceName c = ''static'' then Inr (s3_Static c)
      else case from_platform w ''s3.source platform'' (st_env w ''TENANT_CODE'') ''tenant'' ''s3'' of
          Inl e \<Rightarrow> Inl (S3Target e)
        | Inr r \<Rightarrow> s3_TargetFromRow (rewrite_url_by U (st_marker w) (rewrite_by (st_marker w) (sq_Addr r))) (sq_DB r) (sq_Password r)
            (sq_Params r) (st_env w))"

section \<open>A client\<close>

text \<open>One bucket seen through one prefix; \<open>sc_baseURL\<close> is empty on the private bucket.\<close>

record s3_client =
  sc_bucket :: string
  sc_prefix :: string
  sc_baseURL :: string
  sc_signs_for :: string

definition publicBase :: "(string \<Rightarrow> (string \<times> string) option) \<Rightarrow> string \<Rightarrow> string \<Rightarrow> bool \<Rightarrow> string" where
  "publicBase scheme_host endpoint bucket pathStyle =
     (if pathStyle then endpoint @ ''/'' @ bucket
      else case scheme_host endpoint of
          Some (scheme, host) \<Rightarrow> if host \<noteq> [] then scheme @ ''://'' @ bucket @ ''.'' @ host else endpoint @ ''/'' @ bucket
        | None \<Rightarrow> endpoint @ ''/'' @ bucket)"

text \<open>
  \<^verbatim>\<open>Open\<close>: the private client and the public one. \<open>check\<close>: listing one key of the
  bucket under the prefix. \<open>scheme_host\<close>: \<^verbatim>\<open>url.Parse\<close>, its scheme and its host.
\<close>

definition s3_Open ::
  "(string \<Rightarrow> (string \<times> string) option) \<Rightarrow> (string \<Rightarrow> string \<Rightarrow> string option) \<Rightarrow> s3_target \<Rightarrow> s3_config \<Rightarrow> string \<Rightarrow>
     s3_error + s3_client \<times> s3_client option" where
  "s3_Open scheme_host check t c service =
     (if s3_Endpoint t = [] \<or> s3_Bucket t = [] then Inl S3Incomplete
      else
        let inner = trim_right_slash (s3_Endpoint t); outer = trim_right_slash (s3_PublicEndpoint t);
            signs = (if outer \<noteq> [] \<and> outer \<noteq> inner then outer else s3_Endpoint t);
            p = trim_left_slash (trim_right_slash (sg_Prefix c)); prefix = (if p = [] then service else p);
            private = \<lparr>sc_bucket = s3_Bucket t, sc_prefix = prefix, sc_baseURL = [], sc_signs_for = signs\<rparr>
        in case check (s3_Bucket t) (prefix @ ''/'') of
             Some e \<Rightarrow> Inl (BucketUnusable (s3_Bucket t) e)
           | None \<Rightarrow>
               if s3_PublicBucket t = [] then Inr (private, None)
               else if s3_PublicBucket t = s3_Bucket t then Inl (PublicIsPrivate (s3_Bucket t))
               else
                 let url = trim_right_slash (s3_PublicURL t);
                     base = (if url \<noteq> [] then url
                       else publicBase scheme_host (if outer \<noteq> [] then outer else inner) (s3_PublicBucket t) (s3_PathStyle t))
                 in case check (s3_PublicBucket t) (prefix @ ''/'') of
                      Some e \<Rightarrow> Inl (BucketUnusable (s3_PublicBucket t) e)
                    | None \<Rightarrow> Inr (private, Some (private\<lparr>sc_bucket := s3_PublicBucket t, sc_baseURL := base\<rparr>)))"

definition full_key :: "s3_client \<Rightarrow> string \<Rightarrow> string" where
  "full_key c key = sc_prefix c @ ''/'' @ trim_left_slash key"

definition IsPublic :: "s3_client \<Rightarrow> bool" where "IsPublic c \<longleftrightarrow> sc_baseURL c \<noteq> []"

definition object_URL :: "s3_client \<Rightarrow> string \<Rightarrow> string" where
  "object_URL c key =
     (if sc_baseURL c = [] then []
      else sc_baseURL c @ ''/'' @ go_join ''/'' (map PathEscape (split_on CHR ''/'' (full_key c key))))"

section \<open>Operations\<close>

text \<open>
  An object in a bucket, and \<^verbatim>\<open>Object\<close>: what a client is told of one, under the key it
  asked for.
\<close>

record s3_object =
  ob_data :: string
  ob_type :: string
  ob_modified :: int
  ob_etag :: string

record Object =
  oj_Key :: string
  oj_Size :: nat
  oj_ContentType :: string
  oj_LastModified :: int
  oj_ETag :: string

text \<open>A failure as the SDK reports it: its type, or the status of the answer, or neither.\<close>

datatype s3_fault = TypeNotFound | TypeNoSuchKey | S3Status int string | S3Other string

definition mapErr :: "s3_fault \<Rightarrow> s3_error" where
  "mapErr f = (case f of TypeNotFound \<Rightarrow> ObjectNotFound | TypeNoSuchKey \<Rightarrow> ObjectNotFound
     | S3Status n e \<Rightarrow> if n = 404 then ObjectNotFound else S3Failed e | S3Other e \<Rightarrow> S3Failed e)"

definition fault_error :: "s3_fault \<Rightarrow> s3_error" where
  "fault_error f = (case f of TypeNotFound \<Rightarrow> S3Failed ''NotFound'' | TypeNoSuchKey \<Rightarrow> S3Failed ''NoSuchKey'' | S3Status n e \<Rightarrow> S3Failed e | S3Other e \<Rightarrow> S3Failed e)"

text \<open>
  The SDK's calls. A write may leave the content type to the server; a head and an entry of
  a listing have the size, the time and the tag, a head the type too.
\<close>

record 'w s3_api =
  sa_put :: "string \<Rightarrow> string \<Rightarrow> string \<Rightarrow> string option \<Rightarrow> 'w \<Rightarrow> s3_fault option \<times> 'w"
  sa_get :: "string \<Rightarrow> string \<Rightarrow> 'w \<Rightarrow> s3_fault + s3_object"
  sa_head :: "string \<Rightarrow> string \<Rightarrow> 'w \<Rightarrow> s3_fault + string \<times> nat \<times> int \<times> string"
  sa_delete :: "string \<Rightarrow> string \<Rightarrow> 'w \<Rightarrow> s3_fault option \<times> 'w"
  sa_list :: "string \<Rightarrow> string \<Rightarrow> nat \<Rightarrow> 'w \<Rightarrow> s3_fault + (string \<times> nat \<times> int \<times> string) list"

definition s3_Put :: "'w s3_api \<Rightarrow> s3_client \<Rightarrow> string \<Rightarrow> string \<Rightarrow> string \<Rightarrow> 'w \<Rightarrow> s3_error option \<times> 'w" where
  "s3_Put A c key data contentType w =
     map_prod (map_option fault_error) id
       (sa_put A (sc_bucket c) (full_key c key) data (if contentType \<noteq> [] then Some contentType else None) w)"

definition s3_Get :: "'w s3_api \<Rightarrow> s3_client \<Rightarrow> string \<Rightarrow> 'w \<Rightarrow> s3_error + string \<times> Object" where
  "s3_Get A c key w =
     map_sum mapErr (\<lambda>ob. (ob_data ob, \<lparr>oj_Key = key, oj_Size = length (ob_data ob), oj_ContentType = ob_type ob,
         oj_LastModified = ob_modified ob, oj_ETag = ob_etag ob\<rparr>))
       (sa_get A (sc_bucket c) (full_key c key) w)"

definition s3_Stat :: "'w s3_api \<Rightarrow> s3_client \<Rightarrow> string \<Rightarrow> 'w \<Rightarrow> s3_error + Object" where
  "s3_Stat A c key w =
     map_sum mapErr (\<lambda>(ty, n, t, tag). \<lparr>oj_Key = key, oj_Size = n, oj_ContentType = ty, oj_LastModified = t, oj_ETag = tag\<rparr>)
       (sa_head A (sc_bucket c) (full_key c key) w)"

definition s3_Delete :: "'w s3_api \<Rightarrow> s3_client \<Rightarrow> string \<Rightarrow> 'w \<Rightarrow> s3_error option \<times> 'w" where
  "s3_Delete A c key w = map_prod (map_option fault_error) id (sa_delete A (sc_bucket c) (full_key c key) w)"

definition list_prefix :: "s3_client \<Rightarrow> string \<Rightarrow> string" where
  "list_prefix c dir = full_key c (trim_right_slash dir) @ ''/''"

definition list_max :: "int \<Rightarrow> nat" where
  "list_max limit = (if 0 < limit \<and> limit < 1000 then nat limit else 1000)"

definition s3_List :: "'w s3_api \<Rightarrow> s3_client \<Rightarrow> string \<Rightarrow> int \<Rightarrow> 'w \<Rightarrow> s3_error + Object list" where
  "s3_List A c dir limit w =
     map_sum fault_error (map (\<lambda>(k, n, t, tag). \<lparr>oj_Key = trim_prefix k (sc_prefix c @ ''/''), oj_Size = n, oj_ContentType = [],
         oj_LastModified = t, oj_ETag = tag\<rparr>))
       (sa_list A (sc_bucket c) (list_prefix c dir) (list_max limit) w)"

section \<open>Keys\<close>

lemma trim_left_slash_id: "\<not> has_prefix k ''/'' \<Longrightarrow> trim_left_slash k = k"
  by (cases k) (simp_all add: trim_left_slash_def)

lemma full_key_prefix: "has_prefix (full_key c k) (sc_prefix c @ ''/'')"
  by (simp add: full_key_def has_prefix_iff)

lemma full_key_strip: "trim_prefix (full_key c k) (sc_prefix c @ ''/'') = trim_left_slash k"
  using full_key_prefix [of c k] by (simp add: trim_prefix_def full_key_def)

lemma trim_left_slash_hd: "has_prefix (trim_left_slash k) ''/'' \<Longrightarrow> False"
proof -
  assume "has_prefix (trim_left_slash k) ''/''"
  then obtain t where "dropWhile (\<lambda>c. c = CHR ''/'') k = CHR ''/'' # t" by (auto simp: trim_left_slash_def has_prefix_iff)
  then show False by (metis (mono_tags, lifting) dropWhile_eq_Cons_conv)
qed

text \<open>
  Two services share no key unless the prefix of one, with a slash, begins that of the other.
\<close>

lemma prefixes_apart:
  assumes "full_key c k = full_key d l"
  shows "sc_prefix c = sc_prefix d \<or> has_prefix (sc_prefix c) (sc_prefix d @ ''/'') \<or> has_prefix (sc_prefix d) (sc_prefix c @ ''/'')"
proof -
  from assms have eq: "sc_prefix c @ CHR ''/'' # trim_left_slash k = sc_prefix d @ CHR ''/'' # trim_left_slash l"
    by (simp add: full_key_def)
  then obtain us where "sc_prefix c = sc_prefix d @ us \<and> us @ CHR ''/'' # trim_left_slash k = CHR ''/'' # trim_left_slash l \<or>
      sc_prefix c @ us = sc_prefix d \<and> CHR ''/'' # trim_left_slash k = us @ CHR ''/'' # trim_left_slash l"
    by (auto simp: append_eq_append_conv2)
  then have "sc_prefix c = sc_prefix d @ us \<and> (us = [] \<or> (\<exists>v. us = CHR ''/'' # v)) \<or>
      sc_prefix d = sc_prefix c @ us \<and> (us = [] \<or> (\<exists>v. us = CHR ''/'' # v))"
    by (cases us) auto
  then show ?thesis by (auto simp: has_prefix_iff)
qed

text \<open>A key lies in the folder that is listed for \<open>dir\<close> when \<open>dir\<close> and a slash begin it.\<close>

lemma list_prefix_folder: "list_prefix c dir = (sc_prefix c @ ''/'') @ trim_left_slash (trim_right_slash dir) @ ''/''"
  by (simp add: list_prefix_def full_key_def)

lemma in_folder: "has_prefix (full_key c k) (list_prefix c dir) \<longleftrightarrow> has_prefix (trim_left_slash k) (trim_left_slash (trim_right_slash dir) @ ''/'')"
  by (auto simp: list_prefix_folder full_key_def has_prefix_iff)

text \<open>
  The objects right under the prefix cannot be listed: the folder asked for ends in two
  slashes, and no key of the client does.
\<close>

lemma root_is_never_listed: "\<not> has_prefix (full_key c k) (list_prefix c [])"
proof
  assume "has_prefix (full_key c k) (list_prefix c [])"
  then have "has_prefix (trim_left_slash k) ''/''"
    by (auto simp: full_key_def list_prefix_def trim_right_slash_def trim_left_slash_def has_prefix_iff)
  then show False by (rule trim_left_slash_hd)
qed

section \<open>The address of a public object\<close>

lemma hex_digit:
  assumes "i < 16"
  shows "hex_val (''0123456789ABCDEF'' ! i) = Some i \<and> ''0123456789ABCDEF'' ! i \<noteq> CHR ''/''"
proof -
  have "\<forall>i \<in> set [0..<16]. hex_val (''0123456789ABCDEF'' ! i) = Some i \<and> ''0123456789ABCDEF'' ! i \<noteq> CHR ''/''"
    by code_simp
  then show ?thesis using assms by simp
qed

lemma byte_digits: "(of_char c :: nat) div 16 < 16 \<and> (of_char c :: nat) mod 16 < 16"
proof -
  have "(of_char c :: nat) < 16 * 16" using of_char_mod_256 [of c] mod_less_divisor [of 256 "of_char c :: nat"] by simp
  then show ?thesis by (simp add: less_mult_imp_div_less)
qed

lemma unescape_percent [simp]: "unescape form (percent c @ s) = map_option ((#) c) (unescape form s)"
proof -
  have "(of_char c :: nat) div 16 < 16" "(of_char c :: nat) mod 16 < 16" using byte_digits by auto
  moreover have "char_of (16 * ((of_char c :: nat) div 16) + of_char c mod 16) = c" by simp
  ultimately show ?thesis using hex_digit by (simp add: percent_def Let_def)
qed

definition path_plain :: "char \<Rightarrow> bool" where
  "path_plain c \<longleftrightarrow> unreserved c \<or> c \<in> {CHR ''$'', CHR ''&'', CHR ''+'', CHR '':'', CHR ''='', CHR ''@''}"

lemma path_plain_special: "path_plain c \<Longrightarrow> c \<noteq> CHR ''%'' \<and> c \<noteq> CHR ''/''"
  by (auto simp: path_plain_def unreserved_def)

lemma PathEscape_Cons: "PathEscape (c # s) = (if path_plain c then [c] else percent c) @ PathEscape s"
  by (simp add: PathEscape_def path_plain_def)

lemma unescape_PathEscape: "unescape False (PathEscape s) = Some s"
  by (induction s) (auto simp: PathEscape_Cons path_plain_special, simp add: PathEscape_def)

lemma PathEscape_no_slash: "CHR ''/'' \<notin> set (PathEscape s)"
proof (induction s)
  case (Cons c s)
  have "CHR ''/'' \<notin> set (percent c)"
    using hex_digit [of "of_char c div 16"] hex_digit [of "of_char c mod 16"] byte_digits [of c] by (auto simp: percent_def Let_def)
  with Cons show ?case by (auto simp: PathEscape_Cons dest: path_plain_special)
qed (simp add: PathEscape_def)

lemma go_join_split: "go_join [c] (split_on c s) = s"
proof (induction s)
  case (Cons d s)
  then show ?case
  proof (cases "split_on c s")
    case (Cons w ws)
    with Cons.IH show ?thesis by (cases ws) auto
  qed simp
qed simp

text \<open>The key an address leads to: its path after the base, taken apart and unescaped.\<close>

definition key_of_URL :: "string \<Rightarrow> string \<Rightarrow> string option" where
  "key_of_URL base u =
     (if \<not> has_prefix u (base @ ''/'') then None
      else let ps = map (unescape False) (split_on CHR ''/'' (drop (Suc (length base)) u))
        in if None \<in> set ps then None else Some (go_join ''/'' (map the ps)))"

lemma key_of_object_URL:
  assumes "IsPublic c"
  shows "key_of_URL (sc_baseURL c) (object_URL c k) = Some (full_key c k)"
proof -
  define ps where "ps = split_on CHR ''/'' (full_key c k)"
  define path where "path = go_join ''/'' (map PathEscape ps)"
  have ne: "map PathEscape ps \<noteq> []" by (simp add: ps_def)
  have sp: "split_on CHR ''/'' path = map PathEscape ps"
    unfolding path_def by (rule split_on_go_join [OF ne]) (auto simp: PathEscape_no_slash)
  have un: "map (unescape False) (map PathEscape ps) = map Some ps" by (simp add: unescape_PathEscape)
  have key: "go_join ''/'' ps = full_key c k" unfolding ps_def by (rule go_join_split)
  have url: "object_URL c k = (sc_baseURL c @ ''/'') @ path"
    using assms by (simp add: object_URL_def IsPublic_def ps_def path_def)
  have dr: "drop (Suc (length (sc_baseURL c))) ((sc_baseURL c @ ''/'') @ path) = path" by simp
  have "None \<notin> set (map Some ps)" "map the (map Some ps) = ps" by (simp_all add: o_def)
  then show ?thesis
    unfolding key_of_URL_def url dr sp un Let_def using key has_prefix_append [of "sc_baseURL c @ ''/''" path] by simp
qed

section \<open>The server\<close>

text \<open>
  What S3 documents, for a world \<open>w\<close> whose objects are \<open>objs w bucket\<close>: a successful write
  is what is read afterwards, with the type it named or, where it named none, one of the
  server's; nothing else changes, a write that failed may have been made; a listing has the
  objects of the prefix, all of them when they are fewer than asked for.
\<close>

locale object_server =
  fixes A :: "'w s3_api" and objs :: "'w \<Rightarrow> string \<Rightarrow> string \<Rightarrow> s3_object option"
  assumes put: "sa_put A b k d ct w = (r, w') \<Longrightarrow>
      (\<exists>ob. ob_data ob = d \<and> (\<forall>t. ct = Some t \<longrightarrow> ob_type ob = t) \<and> objs w' = (objs w)(b := (objs w b)(k \<mapsto> ob))) \<or>
      (r \<noteq> None \<and> objs w' = objs w)"
    and delete: "sa_delete A b k w = (r, w') \<Longrightarrow>
      objs w' = (objs w)(b := (objs w b)(k := None)) \<or> (r \<noteq> None \<and> objs w' = objs w)"
    and get: "sa_get A b k w = Inr ob \<Longrightarrow> objs w b k = Some ob"
    and missing: "sa_get A b k w = Inl f \<Longrightarrow> mapErr f = ObjectNotFound \<Longrightarrow> objs w b k = None"
    and head: "sa_head A b k w = Inr m \<Longrightarrow>
      \<exists>ob. objs w b k = Some ob \<and> m = (ob_type ob, length (ob_data ob), ob_modified ob, ob_etag ob)"
    and head_missing: "sa_head A b k w = Inl f \<Longrightarrow> mapErr f = ObjectNotFound \<Longrightarrow> objs w b k = None"
    and listed: "sa_list A b p n w = Inr xs \<Longrightarrow> (k, entry) \<in> set xs \<Longrightarrow>
      has_prefix k p \<and> (\<exists>ob. objs w b k = Some ob \<and> entry = (length (ob_data ob), ob_modified ob, ob_etag ob))"
    and complete: "sa_list A b p n w = Inr xs \<Longrightarrow> length xs < n \<Longrightarrow> objs w b k = Some ob \<Longrightarrow> has_prefix k p \<Longrightarrow>
      (k, length (ob_data ob), ob_modified ob, ob_etag ob) \<in> set xs"
    and at_most: "sa_list A b p n w = Inr xs \<Longrightarrow> length xs \<le> n"
begin

lemma Put_outside:
  assumes "s3_Put A c k d ty w = (r, w')"
  shows "objs w' b l = objs w b l \<or> (b = sc_bucket c \<and> l = full_key c k)"
proof -
  let ?ct = "if ty \<noteq> [] then Some ty else None"
  obtain f where "sa_put A (sc_bucket c) (full_key c k) d ?ct w = (f, w')"
    using assms by (cases "sa_put A (sc_bucket c) (full_key c k) d ?ct w") (auto simp: s3_Put_def)
  from put [OF this] show ?thesis by (auto split: if_split_asm)
qed

lemma Delete_outside:
  assumes "s3_Delete A c k w = (r, w')"
  shows "objs w' b l = objs w b l \<or> (b = sc_bucket c \<and> l = full_key c k)"
proof -
  obtain f where "sa_delete A (sc_bucket c) (full_key c k) w = (f, w')"
    using assms by (cases "sa_delete A (sc_bucket c) (full_key c k) w") (auto simp: s3_Delete_def)
  from delete [OF this] show ?thesis by (auto split: if_split_asm)
qed

lemma Put_stored:
  assumes "s3_Put A c k d ty w = (None, w')"
  shows "\<exists>ob. objs w' (sc_bucket c) (full_key c k) = Some ob \<and> ob_data ob = d \<and> (ty \<noteq> [] \<longrightarrow> ob_type ob = ty)"
proof -
  let ?ct = "if ty \<noteq> [] then Some ty else None"
  obtain r where r: "sa_put A (sc_bucket c) (full_key c k) d ?ct w = (r, w')" "r = None"
    using assms by (cases "sa_put A (sc_bucket c) (full_key c k) d ?ct w") (auto simp: s3_Put_def)
  from put [OF r(1)] r(2) show ?thesis by auto
qed

lemma Delete_gone:
  assumes "s3_Delete A c k w = (None, w')"
  shows "objs w' (sc_bucket c) (full_key c k) = None"
proof -
  obtain r where "sa_delete A (sc_bucket c) (full_key c k) w = (r, w')" "r = None"
    using assms by (cases "sa_delete A (sc_bucket c) (full_key c k) w") (auto simp: s3_Delete_def)
  with delete show ?thesis by fastforce
qed

lemma Get_found:
  "s3_Get A c k w = Inr (body, o') \<Longrightarrow>
     \<exists>ob. objs w (sc_bucket c) (full_key c k) = Some ob \<and> body = ob_data ob \<and>
       o' = \<lparr>oj_Key = k, oj_Size = length (ob_data ob), oj_ContentType = ob_type ob, oj_LastModified = ob_modified ob, oj_ETag = ob_etag ob\<rparr>"
  by (cases "sa_get A (sc_bucket c) (full_key c k) w") (auto simp: s3_Get_def dest: get)

lemma Get_missing: "s3_Get A c k w = Inl ObjectNotFound \<Longrightarrow> objs w (sc_bucket c) (full_key c k) = None"
  by (cases "sa_get A (sc_bucket c) (full_key c k) w") (auto simp: s3_Get_def dest: missing)

lemma Stat_found:
  "s3_Stat A c k w = Inr o' \<Longrightarrow>
     \<exists>ob. objs w (sc_bucket c) (full_key c k) = Some ob \<and>
       o' = \<lparr>oj_Key = k, oj_Size = length (ob_data ob), oj_ContentType = ob_type ob, oj_LastModified = ob_modified ob, oj_ETag = ob_etag ob\<rparr>"
  by (cases "sa_head A (sc_bucket c) (full_key c k) w") (auto simp: s3_Stat_def dest!: head)

lemma Stat_missing: "s3_Stat A c k w = Inl ObjectNotFound \<Longrightarrow> objs w (sc_bucket c) (full_key c k) = None"
  by (cases "sa_head A (sc_bucket c) (full_key c k) w") (auto simp: s3_Stat_def dest: head_missing)

lemma List_found:
  assumes "s3_List A c dir limit w = Inr xs" and "x \<in> set xs"
  shows "\<exists>k ob. oj_Key x = trim_prefix k (sc_prefix c @ ''/'') \<and> objs w (sc_bucket c) k = Some ob \<and>
    oj_Size x = length (ob_data ob) \<and> has_prefix k (list_prefix c dir)"
proof -
  obtain ys where ys: "sa_list A (sc_bucket c) (list_prefix c dir) (list_max limit) w = Inr ys"
    and xs: "xs = map (\<lambda>(k, n, t, tag). \<lparr>oj_Key = trim_prefix k (sc_prefix c @ ''/''), oj_Size = n, oj_ContentType = [],
         oj_LastModified = t, oj_ETag = tag\<rparr>) ys"
    using assms(1) by (cases "sa_list A (sc_bucket c) (list_prefix c dir) (list_max limit) w") (auto simp: s3_List_def)
  from assms(2) xs obtain k n t tag where "(k, n, t, tag) \<in> set ys" "oj_Key x = trim_prefix k (sc_prefix c @ ''/'')" "oj_Size x = n"
    by auto
  with listed [OF ys this(1)] show ?thesis by blast
qed

lemma List_all:
  assumes "s3_List A c dir limit w = Inr xs" and "length xs < list_max limit"
    and "objs w (sc_bucket c) (full_key c k) = Some ob" and "has_prefix (full_key c k) (list_prefix c dir)"
  shows "\<lparr>oj_Key = trim_left_slash k, oj_Size = length (ob_data ob), oj_ContentType = [], oj_LastModified = ob_modified ob,
    oj_ETag = ob_etag ob\<rparr> \<in> set xs"
proof -
  obtain ys where ys: "sa_list A (sc_bucket c) (list_prefix c dir) (list_max limit) w = Inr ys"
    and xs: "xs = map (\<lambda>(k, n, t, tag). \<lparr>oj_Key = trim_prefix k (sc_prefix c @ ''/''), oj_Size = n, oj_ContentType = [],
         oj_LastModified = t, oj_ETag = tag\<rparr>) ys"
    using assms(1) by (cases "sa_list A (sc_bucket c) (list_prefix c dir) (list_max limit) w") (auto simp: s3_List_def)
  have "(full_key c k, length (ob_data ob), ob_modified ob, ob_etag ob) \<in> set ys" using complete [OF ys _ assms(3,4)] assms(2) xs by simp
  then show ?thesis unfolding xs using full_key_strip [of c k] by (force simp: image_iff)
qed

text \<open>Every name in a listing has a slash, so a key without one is in none.\<close>

lemma List_names_slash:
  assumes "s3_List A c dir limit w = Inr xs" and "x \<in> set xs"
  shows "CHR ''/'' \<in> set (oj_Key x)"
proof -
  from List_found [OF assms] obtain k where k: "oj_Key x = trim_prefix k (sc_prefix c @ ''/'')" "has_prefix k (list_prefix c dir)" by blast
  then obtain r where "k = (sc_prefix c @ ''/'') @ (trim_left_slash (trim_right_slash dir) @ ''/'') @ r"
    by (auto simp: list_prefix_folder has_prefix_iff)
  then have "oj_Key x = (trim_left_slash (trim_right_slash dir) @ ''/'') @ r"
    using k(1) has_prefix_append [of "sc_prefix c @ ''/''"] by (simp add: trim_prefix_def)
  then show ?thesis by simp
qed

end

text \<open>A server in memory, which answers nothing while it is down and has a type of its own for those that name none.\<close>

record mem_s3 =
  ms_objects :: "string \<Rightarrow> (string \<times> s3_object) list"
  ms_up :: bool

definition list_entry :: "string \<Rightarrow> s3_object \<Rightarrow> string \<times> nat \<times> int \<times> string" where
  "list_entry k ob = (k, length (ob_data ob), ob_modified ob, ob_etag ob)"

definition mem_list :: "(string \<times> s3_object) list \<Rightarrow> string \<Rightarrow> (string \<times> nat \<times> int \<times> string) list" where
  "mem_list xs p = map (\<lambda>k. list_entry k (the (map_of xs k))) (filter (\<lambda>k. has_prefix k p) (sort (remdups (map fst xs))))"

definition mem_object :: "string \<Rightarrow> string option \<Rightarrow> s3_object" where
  "mem_object d ct = \<lparr>ob_data = d, ob_type = (case ct of None \<Rightarrow> ''binary/octet-stream'' | Some t \<Rightarrow> t), ob_modified = 0, ob_etag = []\<rparr>"

definition mem_api :: "mem_s3 s3_api" where
  "mem_api = \<lparr>sa_put = (\<lambda>b k d ct w. if ms_up w then (None, w\<lparr>ms_objects := (ms_objects w)(b := (k, mem_object d ct) # ms_objects w b)\<rparr>)
       else (Some (S3Other ''down''), w)),
     sa_get = (\<lambda>b k w. if \<not> ms_up w then Inl (S3Other ''down'')
       else case map_of (ms_objects w b) k of None \<Rightarrow> Inl TypeNoSuchKey | Some ob \<Rightarrow> Inr ob),
     sa_head = (\<lambda>b k w. if \<not> ms_up w then Inl (S3Other ''down'')
       else case map_of (ms_objects w b) k of None \<Rightarrow> Inl TypeNotFound
         | Some ob \<Rightarrow> Inr (ob_type ob, length (ob_data ob), ob_modified ob, ob_etag ob)),
     sa_delete = (\<lambda>b k w. if ms_up w then (None, w\<lparr>ms_objects := (ms_objects w)(b := filter (\<lambda>x. fst x \<noteq> k) (ms_objects w b))\<rparr>)
       else (Some (S3Other ''down''), w)),
     sa_list = (\<lambda>b p n w. if ms_up w then Inr (take n (mem_list (ms_objects w b) p)) else Inl (S3Other ''down''))\<rparr>"

definition mem_objs :: "mem_s3 \<Rightarrow> string \<Rightarrow> string \<Rightarrow> s3_object option" where
  "mem_objs w b = map_of (ms_objects w b)"

lemma map_of_without: "map_of (filter (\<lambda>x. fst x \<noteq> k) xs) = (map_of xs)(k := None)"
  by (induction xs) auto

lemma mem_list_iff:
  "(k, m) \<in> set (mem_list xs p) \<longleftrightarrow> has_prefix k p \<and> (\<exists>ob. map_of xs k = Some ob \<and> (k, m) = list_entry k ob)"
proof -
  have "k \<in> fst ` set xs \<longleftrightarrow> (\<exists>ob. map_of xs k = Some ob)" by (metis domD domI dom_map_of_conv_image_fst)
  then show ?thesis by (auto simp: mem_list_def list_entry_def)
qed

lemma take_short: "length (take n xs) < n \<Longrightarrow> take n xs = xs"
  by simp

interpretation ms3: object_server mem_api mem_objs
proof (unfold_locales, goal_cases)
  case (1 b k d ct w r w')
  show ?case
  proof (cases "ms_up w")
    case True
    with 1 have "mem_objs w' = (mem_objs w)(b := (mem_objs w b)(k \<mapsto> mem_object d ct))"
      by (auto simp: mem_api_def mem_objs_def fun_eq_iff)
    moreover have "ob_data (mem_object d ct) = d \<and> (\<forall>t. ct = Some t \<longrightarrow> ob_type (mem_object d ct) = t)" by (simp add: mem_object_def)
    ultimately show ?thesis by blast
  next
    case False
    with 1 show ?thesis by (auto simp: mem_api_def)
  qed
next
  case (7 b p n w xs k m)
  then have "(k, m) \<in> set (mem_list (ms_objects w b) p)" by (auto simp: mem_api_def split: if_split_asm dest: in_set_takeD)
  then show ?case by (auto simp: mem_list_iff mem_objs_def list_entry_def)
next
  case (8 b p n w xs k ob)
  then have xs: "xs = take n (mem_list (ms_objects w b) p)" by (simp add: mem_api_def split: if_split_asm)
  with 8(2) have "xs = mem_list (ms_objects w b) p" using take_short by metis
  with 8(3,4) show ?case by (simp add: mem_list_iff mem_objs_def list_entry_def)
qed (auto simp: mem_api_def mem_objs_def map_of_without mapErr_def fun_eq_iff split: if_split_asm option.splits)

section \<open>Files\<close>

text \<open>
  C32. A file comes back, and nothing else is touched. Whatever the server holds, after a
  successful \<^verbatim>\<open>Put\<close> a \<^verbatim>\<open>Get\<close> of the key answers the content or fails, a
  \<^verbatim>\<open>Stat\<close> its size or fails, both with the type that was given, where one was (without
  one the type is the server's), and neither answers that there is nothing. A listing of a
  folder the key is in, which is not cut, names it with its size; a key that is in no folder,
  right under the service's prefix, is named by no listing at all. Every other object, of
  this bucket or another, is what it was, and the one written is under the prefix.
\<close>

theorem object_kept:
  assumes S: "object_server A objs" and put: "s3_Put A c k d ty w = (None, w')"
  shows "s3_Get A c k w' \<noteq> Inl ObjectNotFound \<and> s3_Stat A c k w' \<noteq> Inl ObjectNotFound \<and>
    (\<forall>body ob. s3_Get A c k w' = Inr (body, ob) \<longrightarrow>
       body = d \<and> oj_Key ob = k \<and> oj_Size ob = length d \<and> (ty \<noteq> [] \<longrightarrow> oj_ContentType ob = ty)) \<and>
    (\<forall>ob. s3_Stat A c k w' = Inr ob \<longrightarrow> oj_Key ob = k \<and> oj_Size ob = length d \<and> (ty \<noteq> [] \<longrightarrow> oj_ContentType ob = ty)) \<and>
    (\<forall>dir limit xs. s3_List A c dir limit w' = Inr xs \<longrightarrow>
       (if CHR ''/'' \<notin> set (trim_left_slash k) then trim_left_slash k \<notin> oj_Key ` set xs
        else length xs < list_max limit \<and> has_prefix (trim_left_slash k) (trim_left_slash (trim_right_slash dir) @ ''/'') \<longrightarrow>
          (\<exists>x \<in> set xs. oj_Key x = trim_left_slash k \<and> oj_Size x = length d))) \<and>
    (\<forall>b l. (b, l) \<noteq> (sc_bucket c, full_key c k) \<longrightarrow> objs w' b l = objs w b l) \<and>
    has_prefix (full_key c k) (sc_prefix c @ ''/'')"
proof (intro conjI allI impI)
  from object_server.Put_stored [OF S put] obtain st where
    st: "objs w' (sc_bucket c) (full_key c k) = Some st" "ob_data st = d" "ty \<noteq> [] \<longrightarrow> ob_type st = ty" by blast
  show "s3_Get A c k w' \<noteq> Inl ObjectNotFound" using st(1) object_server.Get_missing [OF S, of c k w'] by auto
  show "s3_Stat A c k w' \<noteq> Inl ObjectNotFound" using st(1) object_server.Stat_missing [OF S, of c k w'] by auto
  show "body = d" "oj_Key ob = k" "oj_Size ob = length d" "ty \<noteq> [] \<Longrightarrow> oj_ContentType ob = ty"
    if "s3_Get A c k w' = Inr (body, ob)" for body ob
    using object_server.Get_found [OF S that] st by auto
  show "oj_Key ob = k" "oj_Size ob = length d" "ty \<noteq> [] \<Longrightarrow> oj_ContentType ob = ty"
    if "s3_Stat A c k w' = Inr ob" for ob
    using object_server.Stat_found [OF S that] st by auto
  show "if CHR ''/'' \<notin> set (trim_left_slash k) then trim_left_slash k \<notin> oj_Key ` set xs
      else length xs < list_max limit \<and> has_prefix (trim_left_slash k) (trim_left_slash (trim_right_slash dir) @ ''/'') \<longrightarrow>
        (\<exists>x \<in> set xs. oj_Key x = trim_left_slash k \<and> oj_Size x = length d)"
    if l: "s3_List A c dir limit w' = Inr xs" for dir limit xs
  proof (cases "CHR ''/'' \<in> set (trim_left_slash k)")
    case True
    with object_server.List_all [OF S l _ st(1)] st(2) show ?thesis unfolding in_folder by force
  next
    case False
    with object_server.List_names_slash [OF S l] show ?thesis by auto
  qed
  show "objs w' b l = objs w b l" if "(b, l) \<noteq> (sc_bucket c, full_key c k)" for b l
    using that object_server.Put_outside [OF S put, of b l] by auto
  show "has_prefix (full_key c k) (sc_prefix c @ ''/'')" by (rule full_key_prefix)
qed

definition sample_bucket :: s3_client where
  "sample_bucket = \<lparr>sc_bucket = ''files'', sc_prefix = ''ser-a'', sc_baseURL = [], sc_signs_for = []\<rparr>"

theorem object_kept_witness:
  "\<exists>w'. s3_Put mem_api sample_bucket ''x/1.png'' ''d'' [] \<lparr>ms_objects = (\<lambda>b. []), ms_up = True\<rparr> = (None, w') \<and>
     s3_Get mem_api sample_bucket ''x/1.png'' w' \<noteq> Inl ObjectNotFound"
proof -
  obtain r w' where p: "s3_Put mem_api sample_bucket ''x/1.png'' ''d'' [] \<lparr>ms_objects = (\<lambda>b. []), ms_up = True\<rparr> = (r, w')" by fastforce
  then have "r = None" by (simp add: s3_Put_def mem_api_def)
  with object_kept [OF ms3.object_server_axioms p [unfolded \<open>r = None\<close>]] p show ?thesis by blast
qed

end
