(* ===== verification/Push.thy ===== *)
theory Push
  imports Targets
begin

text \<open>
  The push server (\<^verbatim>\<open>centrifugox/centrifugox.go\<close>): its configuration, the client a
  service gets, the tokens it signs and its calls. The JWT library and HTTP are arguments.
  Times are seconds.
\<close>

section \<open>The configuration\<close>

record push_config =
  pc_Enabled :: bool
  pc_Source :: string
  pc_APIAddr :: string
  pc_APIKey :: string
  pc_TokenSecret :: string
  pc_TokenTTL :: int
  pc_UserChannel :: string

datatype push_error = PushNeedsAddress | BadPushSource string | PushTarget target_error | PushIncomplete | PushUnreachable string
  | NoTokenSecret | NoSubject | NoAPIKey | CallFailed string | CallStatus int string | BadAnswer string | ServerError int string

definition push_SourceName :: "push_config \<Rightarrow> string" where
  "push_SourceName c = or_default (pc_Source c) ''static''"

definition push_Validate :: "push_config \<Rightarrow> push_error option" where
  "push_Validate c =
     (if \<not> pc_Enabled c then None
      else if push_SourceName c = ''static'' then (if trim_space (pc_APIAddr c) = [] then Some PushNeedsAddress else None)
      else if push_SourceName c = ''platform'' then None
      else Some (BadPushSource (pc_Source c)))"

definition push_Static :: "push_config \<Rightarrow> push_target" where
  "push_Static c = \<lparr>pt_APIAddr = trim_right_slash (trim_space (pc_APIAddr c)), pt_APIKey = pc_APIKey c, pt_TokenSecret = pc_TokenSecret c\<rparr>"

section \<open>Calls\<close>

record push_client =
  pl_api :: string
  pl_key :: string
  pl_secret :: string
  pl_ttl :: int
  pl_userChannel :: string

text \<open>
  \<open>http\<close>: address, key and body to the status and the body of the answer; \<open>decode\<close>: its error
  (code and message, if there is one) and its result.
\<close>

record ('p, 'w) push_lib =
  pu_body :: "'p \<Rightarrow> string + string"
  pu_http :: "string \<Rightarrow> string \<Rightarrow> string \<Rightarrow> 'w \<Rightarrow> (string + int \<times> string) \<times> 'w"
  pu_decode :: "string \<Rightarrow> ((int \<times> string) option \<times> string) option"

definition push_call :: "('p, 'w) push_lib \<Rightarrow> push_client \<Rightarrow> string \<Rightarrow> 'p \<Rightarrow> 'w \<Rightarrow> (push_error + string) \<times> 'w" where
  "push_call L c meth params w =
     (if pl_key c = [] then (Inl NoAPIKey, w)
      else case pu_body L params of
          Inl e \<Rightarrow> (Inl (CallFailed e), w)
        | Inr body \<Rightarrow>
            (case pu_http L (pl_api c @ ''/api/'' @ meth) (pl_key c) body w of
               (Inl e, w1) \<Rightarrow> (Inl (CallFailed e), w1)
             | (Inr (code, b), w1) \<Rightarrow>
                 let raw = take 1048576 b
                 in (if code \<noteq> 200 then Inl (CallStatus code (trim_space raw))
                     else case pu_decode L raw of
                         None \<Rightarrow> Inl (BadAnswer (trim_space raw))
                       | Some (Some (n, m), res) \<Rightarrow> if n \<noteq> 0 then Inl (ServerError n m) else Inr res
                       | Some (None, res) \<Rightarrow> Inr res, w1)))"

text \<open>\<^verbatim>\<open>Open\<close>: with the token secret alone the server is not called.\<close>

definition push_Open :: "('p, 'w) push_lib \<Rightarrow> 'p \<Rightarrow> push_target \<Rightarrow> push_config \<Rightarrow> 'w \<Rightarrow> (push_error + push_client) \<times> 'w" where
  "push_Open L no_params t c w =
     (if pt_APIAddr t = [] \<or> (pt_APIKey t = [] \<and> pt_TokenSecret t = []) then (Inl PushIncomplete, w)
      else
        let k = \<lparr>pl_api = trim_right_slash (pt_APIAddr t), pl_key = pt_APIKey t, pl_secret = pt_TokenSecret t,
                 pl_ttl = dur_or (pc_TokenTTL c) 86400, pl_userChannel = (if pc_UserChannel c = [] then ''user:'' else pc_UserChannel c)\<rparr>
        in if pl_key k = [] then (Inr k, w)
           else case push_call L k ''info'' no_params w of (Inl e, w1) \<Rightarrow> (Inl e, w1) | (Inr _, w1) \<Rightarrow> (Inr k, w1))"

definition openCentrifugo ::
  "'u url_lib \<Rightarrow> ('p, 'w) push_lib \<Rightarrow> 'p \<Rightarrow> start \<Rightarrow> push_config \<Rightarrow> 'w \<Rightarrow> (push_error + push_client option) \<times> 'w" where
  "openCentrifugo U L no_params st c w =
     (if \<not> pc_Enabled c then (Inr None, w)
      else case push_Validate c of
          Some e \<Rightarrow> (Inl e, w)
        | None \<Rightarrow>
            (case centrifugoTarget U st (push_SourceName c) (push_Static c) of
               Inl e \<Rightarrow> (Inl (PushTarget e), w)
             | Inr t \<Rightarrow> map_prod (map_sum id Some) id (push_Open L no_params t c w)))"

section \<open>Tokens\<close>

record push_claims =
  pk_sub :: string
  pk_iat :: int
  pk_exp :: int
  pk_channels :: "string list"

definition UserChannel :: "push_client \<Rightarrow> string \<Rightarrow> string" where
  "UserChannel c uid = pl_userChannel c @ uid"

text \<open>\<open>sign\<close>: the JWT of the claims under a secret.\<close>

definition ConnectionTokenChannels ::
  "(push_claims \<Rightarrow> string \<Rightarrow> string + string) \<Rightarrow> int \<Rightarrow> push_client \<Rightarrow> string \<Rightarrow> string list \<Rightarrow> push_error + string" where
  "ConnectionTokenChannels sign t c subject channels =
     (if pl_secret c = [] then Inl NoTokenSecret
      else if trim_space subject = [] then Inl NoSubject
      else case sign \<lparr>pk_sub = subject, pk_iat = t, pk_exp = t + pl_ttl c, pk_channels = channels\<rparr> (pl_secret c) of
          Inl e \<Rightarrow> Inl (CallFailed e)
        | Inr tok \<Rightarrow> Inr tok)"

definition ConnectionToken ::
  "(push_claims \<Rightarrow> string \<Rightarrow> string + string) \<Rightarrow> int \<Rightarrow> push_client \<Rightarrow> string \<Rightarrow> string list \<Rightarrow> push_error + string" where
  "ConnectionToken sign t c uid extra = ConnectionTokenChannels sign t c uid (UserChannel c uid # extra)"

text \<open>A token is for a subject, ends, and holds the channels it was asked for; a member's begins with its own.\<close>

lemma ConnectionToken_claims:
  assumes "ConnectionToken sign t c uid extra = Inr tok"
  shows "sign \<lparr>pk_sub = uid, pk_iat = t, pk_exp = t + pl_ttl c, pk_channels = UserChannel c uid # extra\<rparr> (pl_secret c) = Inr tok \<and>
    trim_space uid \<noteq> [] \<and> pl_secret c \<noteq> []"
  using assms by (auto simp: ConnectionToken_def ConnectionTokenChannels_def split: if_split_asm sum.splits)

lemma UserChannel_inject: "UserChannel c u = UserChannel c v \<longleftrightarrow> u = v"
  by (simp add: UserChannel_def)

text \<open>A service that was given the token secret alone never calls the server.\<close>

lemma token_secret_alone_calls_nothing:
  assumes "pt_APIKey t = []" and "push_Open L np t c w = (Inr k, w1)"
  shows "w1 = w \<and> push_call L k meth ps v = (Inl NoAPIKey, v)"
  using assms by (auto simp: push_Open_def push_call_def Let_def split: if_split_asm)

text \<open>From the platform's table, a client can do one of the two things at least.\<close>

lemma openCentrifugo_useful:
  assumes "openCentrifugo U L np st c w = (Inr (Some k), w1)"
  shows "pl_key k \<noteq> [] \<or> pl_secret k \<noteq> []"
  using assms
  by (auto simp: openCentrifugo_def push_Open_def Let_def split: if_split_asm option.splits sum.splits prod.splits)

end
