(* ===== verification/Outgoing.thy ===== *)
theory Outgoing
  imports Config
begin

text \<open>
  Calls that leave the process: how an RPC client is protected
  (\<^verbatim>\<open>kitexx/rpcclient.go\<close>), and where a service with external providers may run
  (\<^verbatim>\<open>kitexx/runtime.go\<close>, \<^verbatim>\<open>kitexx/kitexx.go\<close>). Kitex's retrying is the locale
  \<open>kitex_retry\<close>. Times are milliseconds.
\<close>

section \<open>The protections of a client\<close>

record rpc_client_config =
  rk_Timeout :: int
  rk_ConnectTimeout :: int
  rk_Retries :: "int option"
  rk_Breaker :: "bool option"

definition rpc_retries :: "rpc_client_config \<Rightarrow> int" where
  "rpc_retries c = (case rk_Retries c of None \<Rightarrow> 1 | Some n \<Rightarrow> max 0 n)"

definition rpc_breaker :: "rpc_client_config \<Rightarrow> bool" where
  "rpc_breaker c \<longleftrightarrow> (case rk_Breaker c of None \<Rightarrow> True | Some b \<Rightarrow> b)"

text \<open>An error: the errors of its chain, as \<^verbatim>\<open>errors.Is\<close> finds them.\<close>

datatype rpc_fault = GetConnection | NoConnection | NoDestAddress | NoDestService | RPCTimeout | CircuitBreak | RemoteFailed | TransportFailed

type_synonym rpc_error = "rpc_fault list"

definition retryOnlyUnsent :: "rpc_error \<Rightarrow> bool" where
  "retryOnlyUnsent e \<longleftrightarrow> GetConnection \<in> set e \<or> NoConnection \<in> set e \<or> NoDestAddress \<in> set e \<or> NoDestService \<in> set e"

text \<open>An option of a client; the suite of breakers is made for each client it is given to.\<close>

datatype client_option = CallTimeout int | ConnectTimeout int | FailureRetry nat "rpc_error \<Rightarrow> bool" | OwnBreakers

definition rpcClientOptions :: "rpc_client_config \<Rightarrow> client_option list" where
  "rpcClientOptions c =
     [CallTimeout (dur_or (rk_Timeout c) 3000), ConnectTimeout (dur_or (rk_ConnectTimeout c) 1000)] @
     (if rpc_retries c > 0 then [FailureRetry (nat (rpc_retries c)) retryOnlyUnsent] else []) @
     (if rpc_breaker c then [OwnBreakers] else [])"

text \<open>The retrying an option list asks for: how often, and after which errors.\<close>

fun retry_policy :: "client_option list \<Rightarrow> nat \<times> (rpc_error \<Rightarrow> bool)" where
  "retry_policy [] = (0, \<lambda>e. False)"
| "retry_policy (FailureRetry n f # r) = (n, f)"
| "retry_policy (o' # r) = retry_policy r"

section \<open>Retrying\<close>

text \<open>
  What Kitex documents: the answer of an attempt is the answer of the call when it is no
  error, or one that is not to be retried, or none are left; else it is that all the same
  (the breaker, the time), or the call goes on with one attempt less.
\<close>

type_synonym ('r, 'w) attempt = "'w \<Rightarrow> (rpc_error + 'r) \<times> 'w"

locale kitex_retry =
  fixes calling :: "nat \<Rightarrow> (rpc_error \<Rightarrow> bool) \<Rightarrow> ('r, 'w) attempt \<Rightarrow> ('r, 'w) attempt"
  assumes final: "f w = (r, w1) \<Longrightarrow> n = 0 \<or> (\<forall>e. r = Inl e \<longrightarrow> \<not> again e) \<Longrightarrow> calling n again f w = (r, w1)"
    and goes_on: "f w = (Inl e, w1) \<Longrightarrow> again e \<Longrightarrow>
      calling (Suc n) again f w = (Inl e, w1) \<or> calling (Suc n) again f w = calling n again f w1"
begin

text \<open>When only attempts that did nothing are repeated, the whole does what one attempt does.\<close>

lemma does_at_most:
  assumes one: "\<And>w r w1. f w = (r, w1) \<Longrightarrow> count w1 \<le> count w + (1 :: nat)"
    and idle: "\<And>w e w1. f w = (Inl e, w1) \<Longrightarrow> again e \<Longrightarrow> count w1 = count w"
  shows "count (snd (calling n again f w)) \<le> count w + 1"
proof (induction n arbitrary: w)
  case 0
  obtain r w1 where "f w = (r, w1)" by (cases "f w") auto
  with final [of f w r w1 0 again] one show ?case by simp
next
  case (Suc n)
  obtain r w1 where f: "f w = (r, w1)" by (cases "f w") auto
  show ?case
  proof (cases "\<exists>e. r = Inl e \<and> again e")
    case True
    then obtain e where e: "r = Inl e" "again e" by auto
    have "count w1 = count w" by (rule idle [OF f [unfolded e(1)] e(2)])
    with goes_on [of f w e w1 again n] f e one Suc [of w1] show ?thesis by auto
  next
    case False
    with f one final [of f w r w1 "Suc n" again] show ?thesis by auto
  qed
qed

end

text \<open>Repeating until it is enough.\<close>

fun simple_retry :: "nat \<Rightarrow> (rpc_error \<Rightarrow> bool) \<Rightarrow> ('r, 'w) attempt \<Rightarrow> ('r, 'w) attempt" where
  "simple_retry 0 again f w = f w"
| "simple_retry (Suc n) again f w =
     (case f w of
        (Inl e, w1) \<Rightarrow> if again e then simple_retry n again f w1 else (Inl e, w1)
      | (Inr r, w1) \<Rightarrow> (Inr r, w1))"

interpretation sr: kitex_retry simple_retry
proof (unfold_locales, goal_cases)
  case (1 f w r w1 n again)
  then show ?case by (cases n; cases r) auto
next
  case (2 f w e w1 again n)
  then show ?case by simp
qed

text \<open>A call of a client with these options.\<close>

definition client_call ::
  "(nat \<Rightarrow> (rpc_error \<Rightarrow> bool) \<Rightarrow> ('r, 'w) attempt \<Rightarrow> ('r, 'w) attempt) \<Rightarrow> rpc_client_config \<Rightarrow> ('r, 'w) attempt \<Rightarrow> ('r, 'w) attempt" where
  "client_call calling c f = (case retry_policy (rpcClientOptions c) of (n, again) \<Rightarrow> calling n again f)"

lemma policy_of_options:
  "retry_policy (rpcClientOptions c) = (nat (rpc_retries c), if rpc_retries c > 0 then retryOnlyUnsent else (\<lambda>e. False))"
  by (simp add: rpcClientOptions_def)

text \<open>
  Retrying executes nothing twice. However a client is configured, when an attempt
  that reached the server ends in none of the errors of a request that was never sent, a call
  with its retries executes the method at most once.
\<close>

lemma call_executed_once:
  assumes K: "kitex_retry calling"
    and one: "\<And>w r w1. f w = (r, w1) \<Longrightarrow> ran_times w1 \<le> ran_times w + (1 :: nat)"
    and sent: "\<And>w e w1. f w = (Inl e, w1) \<Longrightarrow> ran_times w1 \<noteq> ran_times w \<Longrightarrow>
      set e \<inter> {GetConnection, NoConnection, NoDestAddress, NoDestService} = {}"
  shows "ran_times (snd (client_call calling c f w)) \<le> ran_times w + 1"
proof -
  have "ran_times w1 = ran_times w" if "f w = (Inl e, w1)" "retryOnlyUnsent e" for w e w1
    using sent [OF that(1)] that(2) unfolding retryOnlyUnsent_def by blast
  then show ?thesis
    unfolding client_call_def policy_of_options split
    by (intro kitex_retry.does_at_most [OF K]) (auto dest: one split: if_split_asm)
qed

section \<open>Providers\<close>

record egress_config =
  eg_Check :: "bool option"
  eg_NamespaceSuffix :: string

definition egress_check :: "egress_config \<Rightarrow> bool" where
  "egress_check c \<longleftrightarrow> (case eg_Check c of None \<Rightarrow> True | Some b \<Rightarrow> b)"

definition egress_suffix :: "egress_config \<Rightarrow> string" where
  "egress_suffix c = (if eg_NamespaceSuffix c = [] then ''-provider'' else eg_NamespaceSuffix c)"

datatype provider_error = NoEgress "string list" string string | ProviderBad string

text \<open>\<open>mk\<close>: a client of a provider from its configuration, or what is wrong with it.\<close>

fun make_all :: "(string \<Rightarrow> 'p \<Rightarrow> string + 'c) \<Rightarrow> (string \<times> 'p) list \<Rightarrow> provider_error + (string \<times> 'c) list" where
  "make_all mk [] = Inr []"
| "make_all mk ((name, p) # r) =
     (case mk name p of
        Inl e \<Rightarrow> Inl (ProviderBad e)
      | Inr c \<Rightarrow> map_sum id ((#) (name, c)) (make_all mk r))"

definition openProviders ::
  "(string \<Rightarrow> 'p \<Rightarrow> string + 'c) \<Rightarrow> egress_config \<Rightarrow> env \<Rightarrow> (string \<times> 'p) list \<Rightarrow> provider_error + (string \<times> 'c) list" where
  "openProviders mk eg e ps =
     (let ns = e ''POD_NAMESPACE''
      in if ps = [] then Inr []
         else if egress_check eg \<and> ns \<noteq> [] \<and> \<not> has_suffix ns (egress_suffix eg)
           then Inl (NoEgress (sort (map fst ps)) ns (egress_suffix eg))
         else make_all mk ps)"

text \<open>\<^verbatim>\<open>Provider\<close>; None is its panic.\<close>

definition Provider :: "(string \<times> 'c) list \<Rightarrow> string \<Rightarrow> 'c option" where
  "Provider cs name = map_of cs name"

lemma make_all_names: "make_all mk ps = Inr cs \<Longrightarrow> map fst cs = map fst ps"
  by (induction mk ps arbitrary: cs rule: make_all.induct) (auto split: sum.splits simp: map_sum_def)

text \<open>Every configured provider is there once the service has started, and the namespace has a way out.\<close>

lemma providers_ready:
  assumes "openProviders mk eg e ps = Inr cs" and "name \<in> fst ` set ps"
  shows "Provider cs name \<noteq> None \<and> (egress_check eg \<and> e ''POD_NAMESPACE'' \<noteq> [] \<longrightarrow> has_suffix (e ''POD_NAMESPACE'') (egress_suffix eg))"
proof -
  have ne: "ps \<noteq> []" using assms(2) by auto
  with assms(1) have ok: "make_all mk ps = Inr cs"
    "egress_check eg \<and> e ''POD_NAMESPACE'' \<noteq> [] \<longrightarrow> has_suffix (e ''POD_NAMESPACE'') (egress_suffix eg)"
    by (auto simp: openProviders_def Let_def split: if_split_asm)
  have "fst ` set cs = fst ` set ps" using make_all_names [OF ok(1)] by (metis list.set_map)
  with assms(2) ok(2) show ?thesis by (simp add: Provider_def map_of_eq_None_iff)
qed

text \<open>A client that counts: two attempts do not connect, the third runs.\<close>

definition sample_attempt :: "(string, nat \<times> nat) attempt" where
  "sample_attempt = (\<lambda>(n, k). if n < 2 then (Inl [GetConnection], (Suc n, k)) else (Inr ''ok'', (Suc n, Suc k)))"

lemma call_executed_once_witness:
  "snd (snd (client_call simple_retry \<lparr>rk_Timeout = 0, rk_ConnectTimeout = 0, rk_Retries = Some 5, rk_Breaker = None\<rparr> sample_attempt (0, 0))) \<le> snd (0 :: nat, 0 :: nat) + 1"
proof (rule call_executed_once [OF sr.kitex_retry_axioms])
  show "snd w1 \<le> snd w + 1" if "sample_attempt w = (r, w1)" for w r w1
    using that by (auto simp: sample_attempt_def split: prod.splits if_split_asm)
  show "set e \<inter> {GetConnection, NoConnection, NoDestAddress, NoDestService} = {}"
    if "sample_attempt w = (Inl e, w1)" "snd w1 \<noteq> snd w" for w e w1
    using that by (auto simp: sample_attempt_def split: prod.splits if_split_asm)
qed

end
