(* ===== verification/Sampling.thy ===== *)
theory Sampling
  imports Prelude "HOL-Library.Multiset"
begin

text \<open>
  The report of what the sampling of the log leaves out (\<^verbatim>\<open>zlog/sampling.go\<close>): every
  record that is dropped is counted, and once a second, and at the end, the counts are
  written. Levels are a parameter; the sampler itself is zap's.
\<close>

section \<open>The reporter\<close>

definition maxDropKeys :: nat where "maxDropKeys = 64"

text \<open>\<open>pending\<close>: by level and message, each once; \<open>armed\<close>: the timer is set.\<close>

record 'l drop_reporter =
  dr_pending :: "(('l \<times> string) \<times> nat) list"
  dr_other :: nat
  dr_armed :: bool

definition idle_reporter :: "'l drop_reporter" where
  "idle_reporter = \<lparr>dr_pending = [], dr_other = 0, dr_armed = False\<rparr>"

fun count_up :: "'k \<Rightarrow> ('k \<times> nat) list \<Rightarrow> ('k \<times> nat) list" where
  "count_up k [] = [(k, 1)]"
| "count_up k ((j, n) # r) = (if j = k then (j, Suc n) # r else (j, n) # count_up k r)"

definition drop_hook :: "bool \<Rightarrow> 'l \<Rightarrow> string \<Rightarrow> 'l drop_reporter \<Rightarrow> 'l drop_reporter" where
  "drop_hook dropped level msg d =
     (if \<not> dropped then d
      else let k = (level, msg);
               d = (if k \<in> fst ` set (dr_pending d) \<or> length (dr_pending d) < maxDropKeys
                    then d\<lparr>dr_pending := count_up k (dr_pending d)\<rparr> else d\<lparr>dr_other := Suc (dr_other d)\<rparr>)
        in d\<lparr>dr_armed := True\<rparr>)"

text \<open>
  The records of a report: of a level and a message, or of all the messages beyond the
  limit; the worst first, equal counts by the message.
\<close>

datatype 'l drop_record = DropOf 'l string nat | DropOther nat

fun record_count :: "'l drop_record \<Rightarrow> nat" where
  "record_count (DropOf l m n) = n"
| "record_count (DropOther n) = n"

definition by_worst :: "(('l \<times> string) \<times> nat) list \<Rightarrow> (('l \<times> string) \<times> nat) list" where
  "by_worst ps = sort_key (\<lambda>(k, n). - int n) (sort_key (\<lambda>(k, n). snd k) ps)"

definition drop_flush :: "'l drop_reporter \<Rightarrow> 'l drop_record list \<times> 'l drop_reporter" where
  "drop_flush d =
     (map (\<lambda>((l, m), n). DropOf l m n) (by_worst (dr_pending d)) @ (if dr_other d > 0 then [DropOther (dr_other d)] else []),
      idle_reporter)"

text \<open>
  A process: records the sampler decides on, and flushes: by the timer, while it is armed,
  or by a sync. What has been written so far.
\<close>

datatype 'l log_event = Decided bool 'l string | TimerFires | Synced

definition sampling_step :: "'l log_event \<Rightarrow> 'l drop_reporter \<times> 'l drop_record list \<Rightarrow> 'l drop_reporter \<times> 'l drop_record list" where
  "sampling_step ev s =
     (case ev of
        Decided dropped l m \<Rightarrow> (drop_hook dropped l m (fst s), snd s)
      | TimerFires \<Rightarrow> if dr_armed (fst s) then (case drop_flush (fst s) of (rs, d) \<Rightarrow> (d, snd s @ rs)) else s
      | Synced \<Rightarrow> (case drop_flush (fst s) of (rs, d) \<Rightarrow> (d, snd s @ rs)))"

definition sampled :: "'l log_event list \<Rightarrow> 'l drop_reporter \<times> 'l drop_record list" where
  "sampled evs = fold sampling_step evs (idle_reporter, [])"

section \<open>What is counted\<close>

definition is_drop :: "'l log_event \<Rightarrow> bool" where
  "is_drop ev \<longleftrightarrow> (case ev of Decided dropped l m \<Rightarrow> dropped | _ \<Rightarrow> False)"

definition waiting :: "'l drop_reporter \<Rightarrow> nat" where
  "waiting d = sum_list (map snd (dr_pending d)) + dr_other d"

lemma sum_count_up: "sum_list (map snd (count_up k ps)) = Suc (sum_list (map snd ps))"
  by (induction k ps rule: count_up.induct) auto

lemma keys_count_up: "map fst (count_up k ps) = (if k \<in> fst ` set ps then map fst ps else map fst ps @ [k])"
  by (induction k ps rule: count_up.induct) auto

lemma waiting_hook: "waiting (drop_hook dropped l m d) = waiting d + (if dropped then 1 else 0)"
  by (simp add: drop_hook_def waiting_def Let_def sum_count_up)

lemma mset_by_worst: "mset (by_worst ps) = mset ps"
  by (simp add: by_worst_def)

lemma sum_by_worst: "sum_list (map f (by_worst ps)) = (sum_list (map f ps) :: nat)"
  by (metis mset_by_worst mset_map sum_mset_sum_list)

text \<open>What a record says of a level and a message, and what is pending of it.\<close>

definition said :: "'l \<times> string \<Rightarrow> 'l drop_record \<Rightarrow> nat" where
  "said k r = (case r of DropOf l m n \<Rightarrow> if (l, m) = k then n else 0 | DropOther _ \<Rightarrow> 0)"

definition pending_of :: "'l \<times> string \<Rightarrow> ('l \<times> string) \<times> nat \<Rightarrow> nat" where
  "pending_of k p = (if fst p = k then snd p else 0)"

lemma report_sums:
  "sum_list (map record_count (map (\<lambda>((l, m), n). DropOf l m n) ps)) = sum_list (map snd ps)"
  "sum_list (map (said k) (map (\<lambda>((l, m), n). DropOf l m n) ps)) = sum_list (map (pending_of k) ps)"
  by (induction ps) (auto simp: said_def pending_of_def)

lemma waiting_flush: "sum_list (map record_count (fst (drop_flush d))) = waiting d"
  using report_sums(1) [of "by_worst (dr_pending d)"]
  by (simp add: drop_flush_def waiting_def sum_by_worst del: map_map)

lemma said_flush: "sum_list (map (said k) (fst (drop_flush d))) = sum_list (map (pending_of k) (dr_pending d))"
  using report_sums(2) [of k "by_worst (dr_pending d)"]
  by (simp add: drop_flush_def sum_by_worst del: map_map) (simp add: said_def)

lemma waiting_idle [simp]: "waiting idle_reporter = 0" "waiting (snd (drop_flush d)) = 0"
  by (simp_all add: waiting_def idle_reporter_def drop_flush_def)

lemma pending_count_up: "sum_list (map (pending_of k) (count_up j ps)) = sum_list (map (pending_of k) ps) + (if j = k then 1 else 0)"
  by (induction j ps rule: count_up.induct) (auto simp: pending_of_def)

definition reporter_ok :: "'l drop_reporter \<Rightarrow> bool" where
  "reporter_ok d \<longleftrightarrow> distinct (map fst (dr_pending d)) \<and> length (dr_pending d) \<le> maxDropKeys \<and> (waiting d = 0 \<or> dr_armed d)"

lemma reporter_ok_idle [simp]: "reporter_ok idle_reporter"
  by (simp add: reporter_ok_def idle_reporter_def waiting_def)

lemma reporter_ok_hook:
  assumes "reporter_ok d"
  shows "reporter_ok (drop_hook dropped l m d)"
proof -
  have len: "length (count_up (l, m) ps) = (if (l, m) \<in> fst ` set ps then length ps else Suc (length ps))" for ps :: "(('a \<times> string) \<times> nat) list"
    using keys_count_up [of "(l, m)" ps] by (metis length_map length_append_singleton)
  have dist: "distinct (map fst (count_up (l, m) (dr_pending d)))"
    using assms keys_count_up [of "(l, m)" "dr_pending d"] by (auto simp: reporter_ok_def)
  show ?thesis using assms dist len by (simp add: reporter_ok_def drop_hook_def Let_def)
qed

lemma sampled_snoc: "sampled (evs @ [e]) = sampling_step e (sampled evs)"
  by (simp add: sampled_def)

lemma pending_hook:
  "sum_list (map (pending_of k) (dr_pending (drop_hook dropped l m d)))
     \<le> sum_list (map (pending_of k) (dr_pending d)) + (if dropped \<and> (l, m) = k then 1 else 0)"
  by (auto simp: drop_hook_def Let_def pending_count_up)

lemma flush_idle: "snd (drop_flush d) = idle_reporter"
  by (simp add: drop_flush_def)

lemma sampled_step:
  assumes "reporter_ok (fst (sampled evs)) \<and>
      sum_list (map record_count (snd (sampled evs))) + waiting (fst (sampled evs)) = length (filter is_drop evs) \<and>
      sum_list (map (said (l, m)) (snd (sampled evs))) + sum_list (map (pending_of (l, m)) (dr_pending (fst (sampled evs))))
        \<le> length (filter (\<lambda>e. e = Decided True l m) evs)"
  shows "reporter_ok (fst (sampled (evs @ [e]))) \<and>
      sum_list (map record_count (snd (sampled (evs @ [e])))) + waiting (fst (sampled (evs @ [e]))) = length (filter is_drop (evs @ [e])) \<and>
      sum_list (map (said (l, m)) (snd (sampled (evs @ [e])))) + sum_list (map (pending_of (l, m)) (dr_pending (fst (sampled (evs @ [e])))))
        \<le> length (filter (\<lambda>e. e = Decided True l m) (evs @ [e]))"
proof -
  obtain d rs where s: "sampled evs = (d, rs)" by fastforce
  have idle: "dr_pending (idle_reporter :: 'a drop_reporter) = []" by (simp add: idle_reporter_def)
  have flushed: "sampling_step e (d, rs) = (idle_reporter, rs @ fst (drop_flush d)) \<Longrightarrow> \<not> is_drop e \<Longrightarrow> ?thesis"
    using assms by (simp add: sampled_snoc s waiting_flush said_flush idle)
  show ?thesis
  proof (cases e)
    case (Decided dropped l' m')
    then show ?thesis
      using assms pending_hook [of "(l, m)" dropped l' m' d] reporter_ok_hook [of d dropped l' m']
      by (auto simp: sampled_snoc s sampling_step_def waiting_hook is_drop_def split: if_split_asm)
  next
    case TimerFires
    show ?thesis
    proof (cases "dr_armed d")
      case True
      then show ?thesis using TimerFires flushed by (simp add: sampling_step_def flush_idle is_drop_def split_beta)
    next
      case False
      with TimerFires assms show ?thesis by (simp add: sampled_snoc s sampling_step_def is_drop_def)
    qed
  next
    case Synced
    then show ?thesis using flushed by (simp add: sampling_step_def flush_idle is_drop_def split_beta)
  qed
qed

text \<open>
  Nothing is dropped in silence. Whatever the sampler drops and whenever the timer fires
  or the log is synced, each record that was dropped is counted once, in a record of the
  report or among the counts that wait; while counts wait the timer is set, and a sync leaves
  none; no message is said to have been dropped more often than it was; and no more than 64
  messages are remembered.
\<close>

lemma drops_accounted:
  "case sampled evs of (d, rs) \<Rightarrow>
     sum_list (map record_count rs) + waiting d = length (filter is_drop evs) \<and>
     (waiting d = 0 \<or> dr_armed d) \<and> waiting (fst (sampled (evs @ [Synced]))) = 0 \<and>
     sum_list (map (said (l, m)) rs) + sum_list (map (pending_of (l, m)) (dr_pending d)) \<le> length (filter (\<lambda>e. e = Decided True l m) evs) \<and>
     length (dr_pending d) \<le> 64"
proof -
  have "reporter_ok (fst (sampled evs)) \<and>
      sum_list (map record_count (snd (sampled evs))) + waiting (fst (sampled evs)) = length (filter is_drop evs) \<and>
      sum_list (map (said (l, m)) (snd (sampled evs))) + sum_list (map (pending_of (l, m)) (dr_pending (fst (sampled evs))))
        \<le> length (filter (\<lambda>e. e = Decided True l m) evs)"
  proof (induction evs rule: rev_induct)
    case Nil
    show ?case by (simp add: sampled_def) (simp add: idle_reporter_def)
  next
    case (snoc e evs)
    then show ?case by (rule sampled_step)
  qed
  moreover have "waiting (fst (sampled (evs @ [Synced]))) = 0"
    by (simp add: sampled_snoc sampling_step_def flush_idle split_beta)
  ultimately show ?thesis by (simp add: reporter_ok_def maxDropKeys_def split_beta)
qed

end
