(* ===== verification/Table.thy ===== *)
theory Table
  imports Prelude
begin

text \<open>
  A database table as the list of its rows, with the statements the code issues on it:
  \<open>UPDATE ... WHERE\<close>, \<open>DELETE ... WHERE ... LIMIT\<close>, \<open>SELECT ... WHERE ... ORDER BY ...
  LIMIT\<close> with the rows another transaction has locked skipped, and the number of affected
  rows. \<open>key\<close> is the primary key in the lemmas.
\<close>

definition update_where :: "('r \<Rightarrow> bool) \<Rightarrow> ('r \<Rightarrow> 'r) \<Rightarrow> 'r list \<Rightarrow> 'r list" where
  "update_where p f rows = map (\<lambda>t. if p t then f t else t) rows"

fun delete_where :: "nat \<Rightarrow> ('r \<Rightarrow> bool) \<Rightarrow> 'r list \<Rightarrow> 'r list" where
  "delete_where n p [] = []"
| "delete_where n p (t # ts) =
     (if n > 0 \<and> p t then delete_where (n - 1) p ts else t # delete_where n p ts)"

definition count_where :: "('r \<Rightarrow> bool) \<Rightarrow> 'r list \<Rightarrow> int" where
  "count_where p rows = int (length (filter p rows))"

definition select_where :: "('r \<Rightarrow> bool) \<Rightarrow> ('r \<Rightarrow> int) \<Rightarrow> nat \<Rightarrow> 'r list \<Rightarrow> 'r list" where
  "select_where p order n rows = take n (sort_key order (filter p rows))"

lemma keys_update_where [row_simps]:
  "(\<And>t. key (f t) = key t) \<Longrightarrow> map key (update_where p f rs) = map key rs"
  by (induction rs) (auto simp: update_where_def)

lemma in_update_where: "t \<in> set (update_where p f rs) \<longleftrightarrow> (\<exists>s \<in> set rs. t = (if p s then f s else s))"
  by (auto simp: update_where_def)

lemma update_where_keeps: "t \<in> set rs \<Longrightarrow> \<not> p t \<Longrightarrow> t \<in> set (update_where p f rs)"
  by (force simp: in_update_where)

lemma update_where_hits: "t \<in> set rs \<Longrightarrow> p t \<Longrightarrow> f t \<in> set (update_where p f rs)"
  by (force simp: in_update_where)

lemma set_delete_where: "set (delete_where n p ts) \<subseteq> set ts"
  by (induction n p ts rule: delete_where.induct) auto

lemma delete_where_keeps: "t \<in> set ts \<Longrightarrow> \<not> p t \<Longrightarrow> t \<in> set (delete_where n p ts)"
  by (induction n p ts rule: delete_where.induct) auto

lemma distinct_delete_where: "distinct (map key ts) \<Longrightarrow> distinct (map key (delete_where n p ts))"
  using set_delete_where by (induction n p ts rule: delete_where.induct) force+

lemma in_select_where: "t \<in> set (select_where p ord n rs) \<Longrightarrow> t \<in> set rs \<and> p t"
  by (auto simp: select_where_def dest!: in_set_takeD)

lemma length_select_where: "length (select_where p ord n rs) \<le> n"
  by (simp add: select_where_def)

lemma sorted_select_where: "sorted (map ord (select_where p ord n rs))"
  by (simp add: select_where_def take_map [symmetric] sorted_wrt_take)

lemma distinct_select_where:
  assumes "distinct (map key rs)"
  shows "distinct (map key (select_where p ord n rs))"
proof -
  have "distinct (map key (filter p rs))" by (rule distinct_map_filter [OF assms])
  then have "distinct (map key (sort_key ord (filter p rs)))"
    by (simp add: distinct_map)
  then show ?thesis by (simp add: select_where_def take_map [symmetric])
qed

text \<open>What \<open>take n\<close> of a sorted list leaves out is no smaller than what it takes.\<close>

lemma sorted_take_drop:
  assumes "sorted (map f xs)" and "x \<in> set xs" and "x \<notin> set (take n xs)"
  shows "length (take n xs) = n \<and> (\<forall>y \<in> set (take n xs). f y \<le> f x)"
proof -
  have "x \<in> set (drop n xs)"
    using assms(2,3) by (metis Un_iff append_take_drop_id set_append)
  then have "n < length xs" by (metis drop_eq_Nil empty_iff empty_set leI)
  moreover have "\<forall>y \<in> set (take n xs). \<forall>z \<in> set (drop n xs). f y \<le> f z"
    using assms(1) by (metis (no_types, lifting) append_take_drop_id image_eqI list.set_map map_append sorted_append)
  ultimately show ?thesis using \<open>x \<in> set (drop n xs)\<close> by auto
qed

lemma select_where_first:
  assumes "t \<in> set rs" and "p t" and "t \<notin> set (select_where p ord n rs)"
  shows "length (select_where p ord n rs) = n \<and> (\<forall>s \<in> set (select_where p ord n rs). ord s \<le> ord t)"
  using assms unfolding select_where_def by (intro sorted_take_drop) auto

end
