(* ===== verification/Delayx.thy ===== *)
theory Delayx
  imports Table
begin

text \<open>
  The delayed tasks of \<^verbatim>\<open>delayx/delay.go\<close>. Times are milliseconds. The table
  \<^verbatim>\<open>delayed_task\<close> is the list of its rows; each SQL statement of the code is a
  function on it with the statement's own WHERE condition. The first part models the
  operations of one scheduler; the second the whole service: any number of replicas
  (processes) that claim, run, heartbeat and finish tasks of one table, crash and stop, in
  any order, as a step function over events.
\<close>

section \<open>Configuration\<close>

record config =
  poll_interval :: int
  batch_cfg :: int
  max_attempts_cfg :: int
  timeout_cfg :: int
  retention_cfg :: int
  long_workers_cfg :: int
  heartbeat_cfg :: int

definition orDur :: "int \<Rightarrow> int \<Rightarrow> int" where
  "orDur d def = (if d = 0 then def else d)"

definition orInt :: "int \<Rightarrow> int \<Rightarrow> int" where
  "orInt v def = (if v \<le> 0 then def else v)"

definition interval :: "config \<Rightarrow> int" where "interval c = orDur (poll_interval c) 1000"
definition batch :: "config \<Rightarrow> int" where "batch c = orInt (batch_cfg c) 50"
definition maxAttempts :: "config \<Rightarrow> int" where "maxAttempts c = orInt (max_attempts_cfg c) 5"
definition timeout :: "config \<Rightarrow> int" where "timeout c = orDur (timeout_cfg c) 60000"
definition retention :: "config \<Rightarrow> int" where "retention c = orDur (retention_cfg c) (168 * 3600000)"
definition longWorkers :: "config \<Rightarrow> int" where "longWorkers c = orInt (long_workers_cfg c) 1"
definition heartbeat :: "config \<Rightarrow> int" where "heartbeat c = orDur (heartbeat_cfg c) 30000"
definition stale :: "config \<Rightarrow> int" where "stale c = 3 * heartbeat c"

section \<open>Rows\<close>

datatype status = StatusPending | StatusRunning | StatusDone | StatusFailed | StatusCancel

record task =
  t_id :: int
  kind :: string
  task_key :: string
  run_at :: int
  payload :: string
  status :: status
  attempts :: int
  last_error :: string
  locked_at :: "int option"
  updated_at :: int

section \<open>Schedule, Cancel, Abort\<close>

datatype schedule_error = NoTx | NoKind | BadPayload | DBError

text \<open>
  \<open>tx\<close> says whether a transaction handle was passed, \<open>body\<close> is the encoded payload, \<open>dbok\<close>
  whether the INSERT succeeds. The result is the row's id, whether the poller is nudged,
  and the table with its next AUTO_INCREMENT value.
\<close>

definition schedule ::
  "config \<Rightarrow> int \<Rightarrow> bool \<Rightarrow> bool \<Rightarrow> string \<Rightarrow> string \<Rightarrow> int \<Rightarrow> string option \<Rightarrow> int \<Rightarrow> task list \<Rightarrow>
   schedule_error + (int \<times> bool) \<times> int \<times> task list" where
  "schedule c now tx dbok knd key at body next_id rows =
     (if \<not> tx then Inl NoTx
      else if knd = [] then Inl NoKind
      else case body of
          None \<Rightarrow> Inl BadPayload
        | Some b \<Rightarrow>
            if \<not> dbok then Inl DBError
            else let t = \<lparr>t_id = next_id, kind = knd, task_key = key, run_at = at, payload = b,
                          status = StatusPending, attempts = 0, last_error = [],
                          locked_at = None, updated_at = now\<rparr>
                 in Inr ((next_id, at - now \<le> interval c), next_id + 1, rows @ [t]))"

definition cancel_where :: "string \<Rightarrow> string \<Rightarrow> task \<Rightarrow> bool" where
  "cancel_where knd key t \<longleftrightarrow> kind t = knd \<and> task_key t = key \<and> status t = StatusPending"

definition cancel_op :: "int \<Rightarrow> string \<Rightarrow> string \<Rightarrow> task list \<Rightarrow> int \<times> task list" where
  "cancel_op now knd key rows =
     (count_where (cancel_where knd key) rows,
      update_where (cancel_where knd key) (\<lambda>t. t\<lparr>status := StatusCancel, updated_at := now\<rparr>) rows)"

definition live_status :: "task \<Rightarrow> bool" where
  "live_status t \<longleftrightarrow> status t = StatusPending \<or> status t = StatusRunning"

definition abort_ids :: "string \<Rightarrow> string \<Rightarrow> task list \<Rightarrow> int list" where
  "abort_ids knd key rows = map t_id (filter (\<lambda>t. kind t = knd \<and> task_key t = key \<and> live_status t) rows)"

text \<open>The ids found are the ones cancelled, and whose local runs are ended.\<close>

definition abort_op :: "int \<Rightarrow> string \<Rightarrow> string \<Rightarrow> task list \<Rightarrow> int \<times> int list \<times> task list" where
  "abort_op now knd key rows =
     (let ids = abort_ids knd key rows in
      if ids = [] then (0, [], rows)
      else let p = (\<lambda>t. t_id t \<in> set ids \<and> live_status t)
           in (count_where p rows, ids,
               update_where p (\<lambda>t. t\<lparr>status := StatusCancel, locked_at := None, updated_at := now\<rparr>) rows))"

section \<open>Claiming\<close>

record spec =
  long :: bool
  spec_timeout :: int

type_synonym specs = "(string \<times> spec) list"

definition kinds_short :: "specs \<Rightarrow> string list" where
  "kinds_short sp = map fst (filter (\<lambda>(k, s). \<not> long s) sp)"

definition kinds_long :: "specs \<Rightarrow> string list" where
  "kinds_long sp = map fst (filter (\<lambda>(k, s). long s) sp)"

definition kinds_all :: "specs \<Rightarrow> string list" where
  "kinds_all sp = kinds_short sp @ kinds_long sp"

definition run_timeout :: "config \<Rightarrow> spec \<Rightarrow> int" where
  "run_timeout c sp = (if spec_timeout sp \<le> 0 then timeout c else spec_timeout sp)"

text \<open>The WHERE condition of the claim: due, or running with a stopped heartbeat.\<close>

definition is_due :: "config \<Rightarrow> int \<Rightarrow> task \<Rightarrow> bool" where
  "is_due c now t \<longleftrightarrow> (status t = StatusPending \<and> run_at t \<le> now) \<or>
     (status t = StatusRunning \<and> (case locked_at t of None \<Rightarrow> False | Some l \<Rightarrow> l < now - stale c))"

text \<open>\<open>skip\<close> holds the ids another transaction has locked (SKIP LOCKED).\<close>

definition due_rows :: "config \<Rightarrow> int \<Rightarrow> int list \<Rightarrow> int \<Rightarrow> string list \<Rightarrow> task list \<Rightarrow> task list" where
  "due_rows c now skip limit kinds rows =
     select_where (\<lambda>t. kind t \<in> set kinds \<and> is_due c now t \<and> t_id t \<notin> set skip) run_at (nat limit) rows"

definition mark_running :: "int \<Rightarrow> task \<Rightarrow> task" where
  "mark_running now t = t\<lparr>status := StatusRunning, locked_at := Some now, updated_at := now\<rparr>"

definition claim_rows :: "config \<Rightarrow> specs \<Rightarrow> int \<Rightarrow> int list \<Rightarrow> int \<Rightarrow> task list \<Rightarrow> task list" where
  "claim_rows c sp now skip free rows =
     (if kinds_short sp = [] then [] else due_rows c now skip (batch c) (kinds_short sp) rows) @
     (if kinds_long sp = [] \<or> free \<le> 0 then [] else due_rows c now skip free (kinds_long sp) rows)"

text \<open>The claim transaction of \<^verbatim>\<open>RunOnce\<close>: the claimed tasks and the table.\<close>

definition claim :: "config \<Rightarrow> specs \<Rightarrow> int \<Rightarrow> int list \<Rightarrow> int \<Rightarrow> task list \<Rightarrow> task list \<times> task list" where
  "claim c sp now skip free rows =
     (let cl = claim_rows c sp now skip free rows
      in (map (mark_running now) cl,
          update_where (\<lambda>t. t_id t \<in> t_id ` set cl) (mark_running now) rows))"

section \<open>The outcome of a run\<close>

datatype cause = ErrAborted | ErrShutdown | DeadlineExceeded

definition clip :: "string \<Rightarrow> string" where
  "clip msg = (if length msg > 500 then take 500 msg else msg)"

text \<open>\<^verbatim>\<open>time.Minute << uint(min(attempts-1, 10))\<close>, capped at one hour.\<close>

definition backoff :: "int \<Rightarrow> int" where
  "backoff n = (let d = push_bit (nat (min (n - 1) 10)) (60000 :: int)
                in if d > 3600000 then 3600000 else d)"

datatype outcome = NoHandler | Aborted | Requeued | Ok | FailedForGood | Retry

text \<open>
  Which outcome a run has: \<open>cs\<close> is the cause its context ended with, \<open>err\<close> what the handler
  returned, \<open>over\<close> whether the poller's own context is over.
\<close>

definition outcome_of :: "config \<Rightarrow> task \<Rightarrow> cause option \<Rightarrow> string option \<Rightarrow> bool \<Rightarrow> outcome" where
  "outcome_of c t cs err over =
     (if cs = Some ErrAborted then Aborted
      else if err \<noteq> None \<and> (cs = Some ErrShutdown \<or> over) then Requeued
      else if err = None then Ok
      else if attempts t + 1 \<ge> maxAttempts c then FailedForGood
      else Retry)"

text \<open>The columns it writes; \<open>t\<close> is the task as it was claimed.\<close>

fun outcome_fields :: "int \<Rightarrow> task \<Rightarrow> string option \<Rightarrow> outcome \<Rightarrow> task \<Rightarrow> task" where
  "outcome_fields now t err NoHandler r = r\<lparr>status := StatusPending, locked_at := None,
     last_error := ''no handler for kind '' @ kind t, updated_at := now\<rparr>"
| "outcome_fields now t err Aborted r = r\<lparr>status := StatusCancel, locked_at := None,
     last_error := clip ''delayx: task aborted'', updated_at := now\<rparr>"
| "outcome_fields now t err Requeued r = r\<lparr>status := StatusPending, locked_at := None,
     run_at := now, last_error := clip ''delayx: service stopping'', updated_at := now\<rparr>"
| "outcome_fields now t err Ok r = r\<lparr>status := StatusDone, attempts := attempts t + 1,
     last_error := [], locked_at := None, updated_at := now\<rparr>"
| "outcome_fields now t err FailedForGood r = r\<lparr>status := StatusFailed, attempts := attempts t + 1,
     last_error := clip (case err of None \<Rightarrow> [] | Some e \<Rightarrow> e), locked_at := None, updated_at := now\<rparr>"
| "outcome_fields now t err Retry r = r\<lparr>status := StatusPending, attempts := attempts t + 1,
     last_error := clip (case err of None \<Rightarrow> [] | Some e \<Rightarrow> e), locked_at := None,
     run_at := now + backoff (attempts t + 1), updated_at := now\<rparr>"

text \<open>The guarded write, by primary key and \<^verbatim>\<open>status = 'running'\<close>.\<close>

definition running_row :: "int \<Rightarrow> task \<Rightarrow> bool" where
  "running_row i t \<longleftrightarrow> t_id t = i \<and> status t = StatusRunning"

definition finish_rows :: "config \<Rightarrow> specs \<Rightarrow> int \<Rightarrow> task \<Rightarrow> cause option \<Rightarrow> string option \<Rightarrow> bool \<Rightarrow> task list \<Rightarrow> task list" where
  "finish_rows c sp now t cs err over rows =
     (let o' = (if map_of sp (kind t) = None then NoHandler else outcome_of c t cs err over)
      in update_where (running_row (t_id t)) (outcome_fields now t err o') rows)"

section \<open>Heartbeat, cleanup, counts\<close>

definition beat_rows :: "int \<Rightarrow> int \<Rightarrow> task list \<Rightarrow> int \<times> task list" where
  "beat_rows now i rows =
     (count_where (running_row i) rows,
      update_where (running_row i) (\<lambda>t. t\<lparr>locked_at := Some now, updated_at := now\<rparr>) rows)"

definition cleanup_where :: "config \<Rightarrow> specs \<Rightarrow> int \<Rightarrow> task \<Rightarrow> bool" where
  "cleanup_where c sp now t \<longleftrightarrow> kind t \<in> set (kinds_all sp) \<and>
     (status t = StatusDone \<or> status t = StatusCancel) \<and> updated_at t < now - retention c"

definition cleanup :: "config \<Rightarrow> specs \<Rightarrow> int \<Rightarrow> task list \<Rightarrow> task list" where
  "cleanup c sp now rows = delete_where 10000 (cleanup_where c sp now) rows"

definition failedCount :: "specs \<Rightarrow> task list \<Rightarrow> int" where
  "failedCount sp rows = (if kinds_all sp = [] then 0
     else count_where (\<lambda>t. kind t \<in> set (kinds_all sp) \<and> status t = StatusFailed) rows)"

text \<open>The age of the oldest due pending task; 0 when there is none.\<close>

definition overdue :: "specs \<Rightarrow> int \<Rightarrow> task list \<Rightarrow> int" where
  "overdue sp now rows =
     (if kinds_all sp = [] then 0
      else case map run_at (filter (\<lambda>t. kind t \<in> set (kinds_all sp) \<and> status t = StatusPending \<and> run_at t \<le> now) rows) of
          [] \<Rightarrow> 0
        | a # as \<Rightarrow> now - fold min as a)"

section \<open>The service: replicas on one table\<close>

text \<open>
  A run is a claimed task in a process, from the claim to the write of its outcome. \<open>started\<close>
  is whether \<^verbatim>\<open>run\<close> has reached it (the short tasks of a batch wait for each other);
  only a started run is tracked, so only it heartbeats and can be ended by Abort or Stop.
\<close>

record drun =
  run_no :: nat
  proc :: nat
  rtask :: task
  started :: bool
  rcause :: "cause option"

record dstate =
  rows :: "task list"
  next_id :: int
  now :: int
  runs :: "drun list"
  next_run :: nat
  stopping :: "nat set"

definition init_dstate :: dstate where
  "init_dstate = \<lparr>rows = [], next_id = 1, now = 0, runs = [], next_run = 0, stopping = {}\<rparr>"

datatype event =
    Tick int                                  \<comment> \<open>time passes\<close>
  | Schedule string string int string         \<comment> \<open>kind, key, run_at, payload\<close>
  | Cancel string string
  | Abort nat string string                   \<comment> \<open>the process it is called in\<close>
  | Claim nat "int list"                      \<comment> \<open>RunOnce of a process; ids locked by others\<close>
  | Start nat                                 \<comment> \<open>run reaches the claimed task\<close>
  | Beat nat bool                             \<comment> \<open>a heartbeat; whether the database answered\<close>
  | Timeout nat
  | Finish nat "string option" bool           \<comment> \<open>the handler returned; whether the write went through\<close>
  | Stop nat
  | Crash nat
  | Cleanup

definition is_long :: "specs \<Rightarrow> drun \<Rightarrow> bool" where
  "is_long sp r = (case map_of sp (kind (rtask r)) of None \<Rightarrow> False | Some s \<Rightarrow> long s)"

definition end_run :: "cause \<Rightarrow> drun \<Rightarrow> drun" where
  "end_run c r = (if rcause r = None then r\<lparr>rcause := Some c\<rparr> else r)"

definition map_runs :: "(drun \<Rightarrow> bool) \<Rightarrow> (drun \<Rightarrow> drun) \<Rightarrow> drun list \<Rightarrow> drun list" where
  "map_runs p f rs = map (\<lambda>r. if p r then f r else r) rs"

definition find_run :: "nat \<Rightarrow> dstate \<Rightarrow> drun option" where
  "find_run n st = find (\<lambda>r. run_no r = n) (runs st)"

text \<open>The long pool of a process is a semaphore of \<^verbatim>\<open>long_workers\<close>.\<close>

definition free_slots :: "config \<Rightarrow> specs \<Rightarrow> nat \<Rightarrow> dstate \<Rightarrow> int" where
  "free_slots c sp p st = longWorkers c - int (length (filter (\<lambda>r. proc r = p \<and> is_long sp r) (runs st)))"

text \<open>The poller is busy until the short tasks of its last batch are finished.\<close>

definition poller_busy :: "specs \<Rightarrow> nat \<Rightarrow> dstate \<Rightarrow> bool" where
  "poller_busy sp p st \<longleftrightarrow> (\<exists>r \<in> set (runs st). proc r = p \<and> \<not> is_long sp r)"

fun new_runs :: "specs \<Rightarrow> nat \<Rightarrow> nat \<Rightarrow> task list \<Rightarrow> drun list" where
  "new_runs sp p n [] = []"
| "new_runs sp p n (t # ts) =
     (let r = \<lparr>run_no = n, proc = p, rtask = t, started = False, rcause = None\<rparr>
      in r\<lparr>started := is_long sp r\<rparr> # new_runs sp p (Suc n) ts)"

text \<open>
  A short run starts when no other short run of its process is under way and it is the
  first of the batch still waiting; a long one was started by the claim.
\<close>

definition may_start :: "specs \<Rightarrow> drun \<Rightarrow> dstate \<Rightarrow> bool" where
  "may_start sp r st \<longleftrightarrow> \<not> started r \<and>
     find (\<lambda>q. proc q = proc r \<and> \<not> is_long sp q) (runs st) = Some r"

fun dstep :: "config \<Rightarrow> specs \<Rightarrow> event \<Rightarrow> dstate \<Rightarrow> dstate" where
  "dstep c sp (Tick d) st = (if d < 0 then st else st\<lparr>now := now st + d\<rparr>)"
| "dstep c sp (Schedule k key at b) st =
     (case schedule c (now st) True True k key at (Some b) (next_id st) (rows st) of
        Inl _ \<Rightarrow> st
      | Inr (_, n, rs) \<Rightarrow> st\<lparr>rows := rs, next_id := n\<rparr>)"
| "dstep c sp (Cancel k key) st = st\<lparr>rows := snd (cancel_op (now st) k key (rows st))\<rparr>"
| "dstep c sp (Abort p k key) st =
     (case abort_op (now st) k key (rows st) of
        (_, ids, rs) \<Rightarrow> st\<lparr>rows := rs,
          runs := map_runs (\<lambda>r. proc r = p \<and> started r \<and> t_id (rtask r) \<in> set ids) (end_run ErrAborted) (runs st)\<rparr>)"
| "dstep c sp (Claim p skip) st =
     (if poller_busy sp p st \<or> p \<in> stopping st then st
      else case claim c sp (now st) skip (free_slots c sp p st) (rows st) of
        (cl, rs) \<Rightarrow> st\<lparr>rows := rs, runs := runs st @ new_runs sp p (next_run st) cl,
                       next_run := next_run st + length cl\<rparr>)"
| "dstep c sp (Start n) st =
     (case find_run n st of
        None \<Rightarrow> st
      | Some r \<Rightarrow> if may_start sp r st
                 then st\<lparr>runs := map_runs (\<lambda>q. run_no q = n) (\<lambda>q. q\<lparr>started := True\<rparr>) (runs st)\<rparr>
                 else st)"
| "dstep c sp (Beat n ok) st =
     (case find_run n st of
        None \<Rightarrow> st
      | Some r \<Rightarrow>
          if \<not> started r \<or> rcause r \<noteq> None \<or> \<not> ok then st
          else (case beat_rows (now st) (t_id (rtask r)) (rows st) of
             (cnt, rs) \<Rightarrow> st\<lparr>rows := rs,
               runs := (if cnt = 0 then map_runs (\<lambda>q. run_no q = n) (end_run ErrAborted) (runs st) else runs st)\<rparr>))"
| "dstep c sp (Timeout n) st =
     st\<lparr>runs := map_runs (\<lambda>q. run_no q = n \<and> started q) (end_run DeadlineExceeded) (runs st)\<rparr>"
| "dstep c sp (Finish n err ok) st =
     (case find_run n st of
        None \<Rightarrow> st
      | Some r \<Rightarrow>
          if \<not> started r then st
          else st\<lparr>rows := (if ok then finish_rows c sp (now st) (rtask r) (rcause r) err
                               (proc r \<in> stopping st) (rows st) else rows st),
                  runs := filter (\<lambda>q. run_no q \<noteq> n) (runs st)\<rparr>)"
| "dstep c sp (Stop p) st =
     st\<lparr>runs := map_runs (\<lambda>q. proc q = p \<and> started q) (end_run ErrShutdown) (runs st),
        stopping := insert p (stopping st)\<rparr>"
| "dstep c sp (Crash p) st = st\<lparr>runs := filter (\<lambda>q. proc q \<noteq> p) (runs st)\<rparr>"
| "dstep c sp Cleanup st = st\<lparr>rows := cleanup c sp (now st) (rows st)\<rparr>"

definition drun_events :: "config \<Rightarrow> specs \<Rightarrow> event list \<Rightarrow> dstate \<Rightarrow> dstate" where
  "drun_events c sp es st = fold (dstep c sp) es st"

inductive dreachable :: "config \<Rightarrow> specs \<Rightarrow> dstate \<Rightarrow> bool" for c sp where
  dinit: "dreachable c sp init_dstate"
| dnext: "dreachable c sp st \<Longrightarrow> dreachable c sp (dstep c sp e st)"

section \<open>UPDATE lemmas\<close>

lemma t_id_outcome_fields [simp]: "t_id (outcome_fields n t err oc r) = t_id r"
  by (cases oc) auto

lemma t_id_mark_running [simp]: "t_id (mark_running n t) = t_id t"
  by (simp add: mark_running_def)

lemma set_due_rows: "t \<in> set (due_rows c n sk l ks rs) \<Longrightarrow> t \<in> set rs \<and> is_due c n t \<and> kind t \<in> set ks"
  by (auto simp: due_rows_def dest!: in_select_where)

lemma set_claim_rows: "t \<in> set (claim_rows c sp n sk fr rs) \<Longrightarrow>
    t \<in> set rs \<and> is_due c n t \<and> kind t \<in> set (kinds_all sp)"
  by (auto simp: claim_rows_def kinds_all_def split: if_splits dest!: set_due_rows)

section \<open>The invariant of the service\<close>

text \<open>
  Ids are unique and below the next AUTO_INCREMENT value; a row is locked exactly while it
  is running; attempts never exceed the limit, and a row that can still run has one left.
  A run carries a task that was claimed with an attempt left.
\<close>

definition row_ok :: "config \<Rightarrow> task \<Rightarrow> bool" where
  "row_ok c t \<longleftrightarrow> (status t = StatusRunning \<longleftrightarrow> locked_at t \<noteq> None) \<and>
     0 \<le> attempts t \<and> attempts t \<le> maxAttempts c \<and>
     (live_status t \<longrightarrow> attempts t < maxAttempts c) \<and>
     (status t = StatusFailed \<longrightarrow> attempts t = maxAttempts c)"

definition run_ok :: "config \<Rightarrow> drun \<Rightarrow> bool" where
  "run_ok c r \<longleftrightarrow> 0 \<le> attempts (rtask r) \<and> attempts (rtask r) < maxAttempts c"

definition dinv :: "config \<Rightarrow> dstate \<Rightarrow> bool" where
  "dinv c st \<longleftrightarrow> (\<forall>t \<in> set (rows st). row_ok c t \<and> t_id t < next_id st) \<and>
     distinct (map t_id (rows st)) \<and> (\<forall>r \<in> set (runs st). run_ok c r)"

lemma maxAttempts_pos [simp]: "0 < maxAttempts c"
  by (simp add: maxAttempts_def orInt_def)

lemma maxAttempts_nonneg [simp]: "0 \<le> maxAttempts c"
  using maxAttempts_pos [of c] by linarith

lemma dinv_init: "dinv c init_dstate"
  by (simp add: dinv_def init_dstate_def)

lemma row_ok_simps [row_simps]:
  "row_ok c (t\<lparr>updated_at := u\<rparr>) = row_ok c t"
  "row_ok c (t\<lparr>last_error := e\<rparr>) = row_ok c t"
  "row_ok c (t\<lparr>run_at := a\<rparr>) = row_ok c t"
  by (simp_all add: row_ok_def live_status_def)

text \<open>An UPDATE that keeps ids and well-formed rows keeps the table's part.\<close>

lemma dinv_update:
  assumes "dinv c st" and "\<And>t. t_id (f t) = t_id t"
    and "\<And>t. t \<in> set (rows st) \<Longrightarrow> p t \<Longrightarrow> row_ok c t \<Longrightarrow> row_ok c (f t)"
  shows "dinv c (st\<lparr>rows := update_where p f (rows st)\<rparr>)"
  using assms by (auto simp: dinv_def in_update_where row_simps)

lemma dinv_runs:
  assumes "dinv c st" and "\<forall>r \<in> set rs. run_ok c r"
  shows "dinv c (st\<lparr>runs := rs\<rparr>)"
  using assms by (simp add: dinv_def)

lemma run_ok_map_runs:
  assumes "\<forall>r \<in> set rs. run_ok c r" and "\<And>r. rtask (f r) = rtask r"
  shows "\<forall>r \<in> set (map_runs p f rs). run_ok c r"
  using assms by (auto simp: map_runs_def run_ok_def)

lemma rtask_end_run [simp]: "rtask (end_run cs r) = rtask r"
  by (simp add: end_run_def)

lemma row_ok_cancel: "row_ok c t \<Longrightarrow> live_status t \<Longrightarrow>
    row_ok c (t\<lparr>status := StatusCancel, locked_at := None, updated_at := u\<rparr>)"
  by (auto simp: row_ok_def live_status_def)

lemma row_ok_cancel_pending: "row_ok c t \<Longrightarrow> status t = StatusPending \<Longrightarrow>
    row_ok c (t\<lparr>status := StatusCancel, updated_at := u\<rparr>)"
  by (auto simp: row_ok_def live_status_def)

lemma row_ok_mark_running: "row_ok c t \<Longrightarrow> live_status t \<Longrightarrow> row_ok c (mark_running u t)"
  by (auto simp: row_ok_def live_status_def mark_running_def)

lemma row_ok_beat: "row_ok c t \<Longrightarrow> status t = StatusRunning \<Longrightarrow>
    row_ok c (t\<lparr>locked_at := Some u, updated_at := v\<rparr>)"
  by (auto simp: row_ok_def live_status_def)

lemma is_due_live: "is_due c n t \<Longrightarrow> live_status t"
  by (auto simp: is_due_def live_status_def)

text \<open>The outcome of a run that had an attempt left.\<close>

lemma row_ok_outcome:
  assumes "row_ok c r" and "status r = StatusRunning"
    and "0 \<le> attempts t" and "attempts t < maxAttempts c"
    and "oc = NoHandler \<or> oc = outcome_of c t cs err over"
  shows "row_ok c (outcome_fields u t err oc r)"
  using assms
  by (cases oc) (auto simp: row_ok_def live_status_def outcome_of_def split: if_splits)

declare outcome_fields.simps [simp del]

lemma dinv_map_runs:
  assumes "dinv c st" and "\<And>r. rtask (f r) = rtask r"
  shows "dinv c (st\<lparr>runs := map_runs p f (runs st)\<rparr>)"
  using assms by (auto simp: dinv_def map_runs_def run_ok_def)

section \<open>Every event keeps the invariant\<close>

lemma dinv_schedule: "dinv c st \<Longrightarrow> dinv c (dstep c sp (Schedule k key at b) st)"
  by (cases "k = []") (auto simp: dinv_def schedule_def row_ok_def live_status_def Let_def dest: less_le_trans)

lemma dinv_cancel: "dinv c st \<Longrightarrow> dinv c (dstep c sp (Cancel k key) st)"
  by (auto simp: cancel_op_def cancel_where_def intro!: dinv_update row_ok_cancel_pending)

lemma dinv_abort:
  assumes "dinv c st"
  shows "dinv c (dstep c sp (Abort p k key) st)"
proof -
  obtain n ids rs where a: "abort_op (now st) k key (rows st) = (n, ids, rs)"
    by (cases "abort_op (now st) k key (rows st)")
  have "dinv c (st\<lparr>rows := rs\<rparr>)"
  proof (cases "abort_ids k key (rows st) = []")
    case True
    with a assms show ?thesis by (simp add: abort_op_def dinv_def)
  next
    case False
    with a have rs: "rs = update_where (\<lambda>t. t_id t \<in> set ids \<and> live_status t)
        (\<lambda>t. t\<lparr>status := StatusCancel, locked_at := None, updated_at := now st\<rparr>) (rows st)"
      by (auto simp: abort_op_def Let_def)
    show ?thesis unfolding rs by (rule dinv_update [OF assms]) (auto intro: row_ok_cancel)
  qed
  moreover have "\<forall>r \<in> set (map_runs (\<lambda>r. proc r = p \<and> started r \<and> t_id (rtask r) \<in> set ids)
      (end_run ErrAborted) (runs st)). run_ok c r"
    using assms by (intro run_ok_map_runs) (auto simp: dinv_def)
  ultimately show ?thesis using a by (simp add: dinv_def)
qed

lemma run_ok_new_runs:
  assumes "\<forall>t \<in> set ts. 0 \<le> attempts t \<and> attempts t < maxAttempts c"
  shows "\<forall>r \<in> set (new_runs sp p n ts). run_ok c r"
  using assms by (induction sp p n ts rule: new_runs.induct) (auto simp: run_ok_def Let_def)

text \<open>The rows a claim marks are the claimed ones, since ids are unique.\<close>

lemma claimed_row:
  assumes "distinct (map t_id (rows st))" and "t \<in> set (rows st)"
    and "t_id t \<in> t_id ` set (claim_rows c sp n sk fr (rows st))"
  shows "t \<in> set (claim_rows c sp n sk fr (rows st))"
proof -
  from assms(3) obtain s where s: "s \<in> set (claim_rows c sp n sk fr (rows st))" "t_id s = t_id t" by auto
  from set_claim_rows [OF s(1)] have "s \<in> set (rows st)" by blast
  with s assms(1,2) have "s = t" by (auto simp: distinct_map dest: inj_onD)
  with s show ?thesis by simp
qed

lemma dinv_claim_rows:
  assumes "dinv c st"
  shows "dinv c (st\<lparr>rows := snd (claim c sp (now st) sk fr (rows st))\<rparr>)"
  unfolding claim_def Let_def snd_conv
proof (rule dinv_update [OF assms])
  fix t
  assume t: "t \<in> set (rows st)" "t_id t \<in> t_id ` set (claim_rows c sp (now st) sk fr (rows st))" "row_ok c t"
  from assms have "distinct (map t_id (rows st))" by (simp add: dinv_def)
  from claimed_row [OF this t(1,2)] have "live_status t"
    by (blast dest: set_claim_rows is_due_live)
  with t(3) show "row_ok c (mark_running (now st) t)" by (rule row_ok_mark_running)
qed simp

lemma run_ok_claimed:
  assumes "dinv c st"
  shows "\<forall>r \<in> set (new_runs sp p n (fst (claim c sp (now st) sk fr (rows st)))). run_ok c r"
proof (rule run_ok_new_runs, rule ballI)
  fix t
  assume "t \<in> set (fst (claim c sp (now st) sk fr (rows st)))"
  then obtain s where s: "t = mark_running (now st) s" "s \<in> set (claim_rows c sp (now st) sk fr (rows st))"
    by (auto simp: claim_def Let_def)
  from set_claim_rows [OF s(2)] have "s \<in> set (rows st)" "live_status s" by (auto dest: is_due_live)
  with assms have "0 \<le> attempts s \<and> attempts s < maxAttempts c" by (auto simp: dinv_def row_ok_def)
  with s(1) show "0 \<le> attempts t \<and> attempts t < maxAttempts c" by (simp add: mark_running_def)
qed

lemma dinv_claim:
  assumes "dinv c st"
  shows "dinv c (dstep c sp (Claim p sk) st)"
proof -
  obtain cl rs where c: "claim c sp (now st) sk (free_slots c sp p st) (rows st) = (cl, rs)"
    by (cases "claim c sp (now st) sk (free_slots c sp p st) (rows st)")
  have "dinv c (st\<lparr>rows := rs\<rparr>)" using dinv_claim_rows [OF assms] c by (metis snd_conv)
  moreover have "\<forall>r \<in> set (new_runs sp p (next_run st) cl). run_ok c r"
    using run_ok_claimed [OF assms] c by (metis fst_conv)
  ultimately show ?thesis using assms c by (auto simp: dinv_def)
qed

lemma find_run_in: "find_run n st = Some r \<Longrightarrow> r \<in> set (runs st) \<and> run_no r = n"
  by (auto simp: find_run_def find_Some_iff)

lemma dinv_start: "dinv c st \<Longrightarrow> dinv c (dstep c sp (Start n) st)"
  by (auto split: option.splits intro: dinv_map_runs)

lemma dinv_beat:
  assumes "dinv c st"
  shows "dinv c (dstep c sp (Beat n ok) st)"
proof (cases "find_run n st")
  case None
  with assms show ?thesis by simp
next
  case (Some r)
  let ?rs = "snd (beat_rows (now st) (t_id (rtask r)) (rows st))"
  have up: "dinv c (st\<lparr>rows := ?rs\<rparr>)"
    unfolding beat_rows_def snd_conv
    by (rule dinv_update [OF assms]) (auto simp: running_row_def intro: row_ok_beat)
  have "\<forall>q \<in> set (map_runs (\<lambda>q. run_no q = n) (end_run ErrAborted) (runs st)). run_ok c q"
    using assms by (intro run_ok_map_runs) (auto simp: dinv_def)
  with Some up assms show ?thesis by (auto simp: dinv_def split: prod.splits)
qed

lemma dinv_finish:
  assumes "dinv c st"
  shows "dinv c (dstep c sp (Finish n err ok) st)"
proof (cases "find_run n st")
  case None
  with assms show ?thesis by simp
next
  case (Some r)
  then have "run_ok c r" using assms find_run_in by (auto simp: dinv_def)
  then have "dinv c (st\<lparr>rows := finish_rows c sp (now st) (rtask r) (rcause r) err (proc r \<in> stopping st) (rows st)\<rparr>)"
    unfolding finish_rows_def Let_def
    using assms by (intro dinv_update) (auto simp: running_row_def run_ok_def intro!: row_ok_outcome)
  with Some assms show ?thesis by (auto simp: dinv_def)
qed

lemma dinv_cleanup: "dinv c st \<Longrightarrow> dinv c (dstep c sp Cleanup st)"
  using set_delete_where distinct_delete_where by (fastforce simp: dinv_def cleanup_def)

lemma dinv_step: "dinv c st \<Longrightarrow> dinv c (dstep c sp e st)"
proof (cases e)
  case (Timeout n)
  assume "dinv c st"
  with Timeout show ?thesis by (auto intro: dinv_map_runs)
next
  case (Stop p)
  assume "dinv c st"
  moreover have "\<forall>r \<in> set (map_runs (\<lambda>q. proc q = p \<and> started q) (end_run ErrShutdown) (runs st)). run_ok c r"
    using calculation by (intro run_ok_map_runs) (auto simp: dinv_def)
  ultimately show ?thesis using Stop by (simp add: dinv_def)
next
  case (Tick d)
  assume "dinv c st"
  with Tick show ?thesis by (simp add: dinv_def)
next
  case (Crash p)
  assume "dinv c st"
  with Crash show ?thesis by (simp add: dinv_def)
qed (simp_all only: dinv_schedule dinv_cancel dinv_abort dinv_claim dinv_start dinv_beat dinv_finish dinv_cleanup)

section \<open>Rows that are over\<close>

definition is_over :: "task \<Rightarrow> bool" where
  "is_over t \<longleftrightarrow> status t = StatusDone \<or> status t = StatusFailed \<or> status t = StatusCancel"

lemma over_not_live: "is_over t \<longleftrightarrow> \<not> live_status t"
  by (cases "status t") (auto simp: is_over_def live_status_def)

lemma claim_keeps_over:
  assumes "dinv c st" and "t \<in> set (rows st)" and "is_over t"
  shows "t \<in> set (snd (claim c sp (now st) sk fr (rows st)))"
proof -
  have "t_id t \<notin> t_id ` set (claim_rows c sp (now st) sk fr (rows st))"
  proof
    assume c: "t_id t \<in> t_id ` set (claim_rows c sp (now st) sk fr (rows st))"
    from assms(1) have "distinct (map t_id (rows st))" by (simp add: dinv_def)
    from claimed_row [OF this assms(2) c] have "live_status t" by (blast dest: set_claim_rows is_due_live)
    with assms(3) show False by (simp add: over_not_live)
  qed
  with assms(2) show ?thesis by (simp add: claim_def Let_def) (rule update_where_keeps)
qed

lemma over_stays:
  assumes "dinv c st" and "t \<in> set (rows st)" and "is_over t"
  shows "t \<in> set (rows (dstep c sp e st)) \<or> (e = Cleanup \<and> cleanup_where c sp (now st) t)"
proof (cases e)
  case (Schedule k key at b)
  with assms show ?thesis by (auto simp: schedule_def Let_def split: sum.splits)
next
  case (Cancel k key)
  with assms show ?thesis
    by (auto simp: cancel_op_def cancel_where_def is_over_def intro!: update_where_keeps)
next
  case (Abort p k key)
  have "t \<in> set (snd (snd (abort_op (now st) k key (rows st))))"
    using assms by (auto simp: abort_op_def Let_def over_not_live intro!: update_where_keeps)
  with Abort show ?thesis by (auto split: prod.splits)
next
  case (Claim p sk)
  with claim_keeps_over [OF assms, of sp sk "free_slots c sp p st"] assms(2) show ?thesis
    by (auto split: prod.splits)
next
  case (Beat n ok)
  have "t \<in> set (snd (beat_rows (now st) i (rows st)))" for i
    using assms by (auto simp: beat_rows_def running_row_def is_over_def intro!: update_where_keeps)
  with Beat assms show ?thesis by (auto split: option.splits prod.splits) (metis snd_conv)+
next
  case (Finish n err ok)
  have "t \<in> set (finish_rows c sp (now st) x cs err ov (rows st))" for x cs ov
    using assms by (auto simp: finish_rows_def Let_def running_row_def is_over_def intro!: update_where_keeps)
  with Finish assms show ?thesis by (auto split: option.splits)
next
  case Cleanup
  with assms show ?thesis
    by (cases "cleanup_where c sp (now st) t") (auto simp: cleanup_def intro: delete_where_keeps)
qed (use assms in \<open>auto split: option.splits\<close>)

section \<open>Claims and backoff\<close>

lemma due_rows_oldest:
  assumes "t \<in> set rs" and "kind t \<in> set ks" and "is_due c n t" and "t_id t \<notin> set sk"
    and "t \<notin> set (due_rows c n sk l ks rs)"
  shows "length (due_rows c n sk l ks rs) = nat l \<and> (\<forall>s \<in> set (due_rows c n sk l ks rs). run_at s \<le> run_at t)"
  using assms unfolding due_rows_def by (intro select_where_first) auto

lemma backoff_eq:
  assumes "1 \<le> n"
  shows "backoff n = min (60000 * 2 ^ nat (n - 1)) 3600000"
proof (cases "n \<le> 7")
  case True
  with assms have "n = 1 \<or> n = 2 \<or> n = 3 \<or> n = 4 \<or> n = 5 \<or> n = 6 \<or> n = 7" by presburger
  then show ?thesis by (elim disjE) (simp_all add: backoff_def Let_def push_bit_eq_mult)
next
  case False
  then have "6 \<le> nat (min (n - 1) 10)" "6 \<le> nat (n - 1)" by auto
  then have "(2::int) ^ 6 \<le> 2 ^ nat (min (n - 1) 10)" "(2::int) ^ 6 \<le> 2 ^ nat (n - 1)"
    by (simp_all only: power_increasing_iff one_less_numeral_iff semiring_norm)
  then show ?thesis by (simp add: backoff_def Let_def push_bit_eq_mult)
qed

section \<open>Abort and the runs\<close>

lemma find_map_runs:
  assumes "\<And>r. run_no (f r) = run_no r"
  shows "find (\<lambda>r. run_no r = n) (map_runs p f rs)
       = map_option (\<lambda>r. if p r then f r else r) (find (\<lambda>r. run_no r = n) rs)"
  using assms by (induction rs) (auto simp: map_runs_def)

lemma run_no_end_run [simp]: "run_no (end_run cs r) = run_no r"
  by (simp add: end_run_def)

lemma started_end_run [simp]: "started (end_run cs r) = started r"
  by (simp add: end_run_def)

lemma rcause_end_run: "rcause (end_run cs r) = (if rcause r = None then Some cs else rcause r)"
  by (simp add: end_run_def)

text \<open>Abort makes every live row of its kind and key cancelled; ids being unique, no row of that id runs.\<close>

lemma abort_rows:
  assumes "distinct (map t_id rs)" and "t \<in> set rs" and "live_status t"
    and "abort_op n (kind t) (task_key t) rs = (cnt, ids, rs')"
  shows "t_id t \<in> set ids \<and> t\<lparr>status := StatusCancel, locked_at := None, updated_at := n\<rparr> \<in> set rs' \<and>
    count_where (running_row (t_id t)) rs' = 0"
proof -
  have i: "t_id t \<in> set (abort_ids (kind t) (task_key t) rs)"
    using assms(2,3) by (auto simp: abort_ids_def)
  then have ids: "ids = abort_ids (kind t) (task_key t) rs"
    and rs': "rs' = update_where (\<lambda>s. t_id s \<in> set ids \<and> live_status s)
      (\<lambda>s. s\<lparr>status := StatusCancel, locked_at := None, updated_at := n\<rparr>) rs"
    using assms(4) by (auto simp: abort_op_def Let_def split: if_splits)
  have "\<not> running_row (t_id t) s" if "s \<in> set rs'" for s
  proof
    assume r: "running_row (t_id t) s"
    from that rs' obtain u where u: "u \<in> set rs" and s: "s = (if t_id u \<in> set ids \<and> live_status u
        then u\<lparr>status := StatusCancel, locked_at := None, updated_at := n\<rparr> else u)"
      by (auto simp: in_update_where)
    from r s have "t_id u = t_id t" by (auto simp: running_row_def split: if_splits)
    with u assms(1,2) have "u = t" by (auto simp: distinct_map dest: inj_onD)
    with r s i ids assms(3) show False by (simp add: running_row_def)
  qed
  moreover have "t\<lparr>status := StatusCancel, locked_at := None, updated_at := n\<rparr> \<in> set rs'"
    using assms(2,3) i ids rs' by (auto simp: in_update_where intro!: bexI [of _ t])
  ultimately show ?thesis using i ids by (simp add: count_where_def filter_empty_conv)
qed

lemma beat_not_running:
  assumes "find_run n st = Some r" and "started r" and "rcause r = None"
    and "count_where (running_row (t_id (rtask r))) (rows st) = 0"
  shows "find_run n (dstep c sp (Beat n True) st) = Some (end_run ErrAborted r)"
proof -
  have "run_no r = n" using assms(1) find_run_in by blast
  then have "find (\<lambda>q. run_no q = n) (map_runs (\<lambda>q. run_no q = n) (end_run ErrAborted) (runs st))
      = Some (end_run ErrAborted r)"
    using assms(1) by (simp add: find_map_runs find_run_def)
  with assms show ?thesis by (simp add: beat_rows_def find_run_def [of n "_\<lparr>rows := _, runs := _\<rparr>"])
qed

lemma beat_ended:
  assumes "find_run n st = Some r" and "rcause r \<noteq> None"
  shows "dstep c sp (Beat n ok) st = st"
  using assms by simp

lemma dreachable_fold: "dreachable c sp st \<Longrightarrow> dreachable c sp (fold (dstep c sp) es st)"
  by (induction es arbitrary: st) (auto intro: dnext)

lemma dreachable_events: "dreachable c sp (drun_events c sp es init_dstate)"
  unfolding drun_events_def by (rule dreachable_fold) (rule dinit)

text \<open>A concrete configuration and service for the witnesses.\<close>

definition default_config :: config where
  "default_config = \<lparr>poll_interval = 0, batch_cfg = 0, max_attempts_cfg = 0, timeout_cfg = 0,
     retention_cfg = 0, long_workers_cfg = 0, heartbeat_cfg = 0\<rparr>"

definition short_specs :: specs where
  "short_specs = [(''k'', \<lparr>long = False, spec_timeout = 0\<rparr>)]"

definition long_specs :: specs where
  "long_specs = [(''export'', \<lparr>long = True, spec_timeout = 600000\<rparr>)]"

definition sample_task :: task where
  "sample_task = \<lparr>t_id = 1, kind = ''k'', task_key = ''a'', run_at = 0, payload = ''{}'',
     status = StatusPending, attempts = 0, last_error = [], locked_at = None, updated_at = 0\<rparr>"

section \<open>Properties\<close>

text \<open>
  C6. In every state the service can reach, whatever the replicas do and whenever they
  crash: task ids are unique, a row is locked exactly while it is running, no row has more
  attempts than the limit, a pending or running row has an attempt left, and a failed row
  used them all.
\<close>

theorem delayx_invariant:
  assumes "dreachable c sp st"
  shows "distinct (map t_id (rows st)) \<and>
    (\<forall>t \<in> set (rows st).
       (status t = StatusRunning \<longleftrightarrow> locked_at t \<noteq> None) \<and>
       0 \<le> attempts t \<and> attempts t \<le> maxAttempts c \<and>
       (status t = StatusPending \<or> status t = StatusRunning \<longrightarrow> attempts t < maxAttempts c) \<and>
       (status t = StatusFailed \<longrightarrow> attempts t = maxAttempts c))"
proof -
  from assms have "dinv c st"
    by (induction rule: dreachable.induct) (auto intro: dinv_init dinv_step)
  then show ?thesis by (auto simp: dinv_def row_ok_def live_status_def)
qed

theorem delayx_invariant_witness:
  "distinct (map t_id (rows (drun_events default_config short_specs
     [Schedule ''k'' ''a'' 0 ''{}'', Claim 1 [], Start 0, Finish 0 None True] init_dstate)))"
  by (rule delayx_invariant [OF dreachable_events, THEN conjunct1])

text \<open>
  What is over stays over. Once a task is done, failed or cancelled, no event of any
  replica changes its row (a late outcome, a heartbeat, a claim, a second Cancel or Abort
  included); it only disappears by the cleanup, and then it was done or cancelled, of a
  registered kind, and older than the retention.
\<close>

lemma delayx_over_is_final:
  assumes "dreachable c sp st" and "t \<in> set (rows st)"
    and "status t = StatusDone \<or> status t = StatusFailed \<or> status t = StatusCancel"
  shows "t \<in> set (rows (dstep c sp e st)) \<or>
    (e = Cleanup \<and> status t \<noteq> StatusFailed \<and> kind t \<in> set (kinds_all sp) \<and> updated_at t < now st - retention c)"
proof -
  from assms(1) have "dinv c st"
    by (induction rule: dreachable.induct) (auto intro: dinv_init dinv_step)
  from over_stays [OF this assms(2), of sp e] assms(3) show ?thesis
    by (auto simp: is_over_def cleanup_where_def)
qed

theorem delayx_over_is_final_witness:
  "\<exists>t. status t = StatusDone \<and>
     t \<in> set (rows (dstep default_config short_specs (Cancel ''k'' ''a'')
       (drun_events default_config short_specs
         [Schedule ''k'' ''a'' 0 ''{}'', Claim 1 [], Start 0, Finish 0 None True] init_dstate)))"
proof -
  let ?st = "drun_events default_config short_specs
         [Schedule ''k'' ''a'' 0 ''{}'', Claim 1 [], Start 0, Finish 0 None True] init_dstate"
  have "map status (rows ?st) = [StatusDone]" by code_simp
  then obtain t where t: "t \<in> set (rows ?st)" "status t = StatusDone" by (cases "rows ?st") auto
  then show ?thesis
    using delayx_over_is_final [OF dreachable_events t(1), of "Cancel ''k'' ''a''"] by blast
qed

text \<open>
  A claim takes the oldest due tasks. When a due task of a short kind that no other
  transaction holds is left behind by a claim, the claim took a full batch of short tasks,
  and every one of them was due no later.
\<close>

lemma claim_takes_oldest:
  assumes "t \<in> set rs" and "kind t \<in> set (kinds_short sp)" and "is_due c n t" and "t_id t \<notin> set sk"
    and "t \<notin> set (claim_rows c sp n sk fr rs)"
  shows "\<exists>xs ys. claim_rows c sp n sk fr rs = xs @ ys \<and> length xs = nat (batch c) \<and>
    (\<forall>s \<in> set xs. kind s \<in> set (kinds_short sp) \<and> run_at s \<le> run_at t)"
proof -
  let ?xs = "due_rows c n sk (batch c) (kinds_short sp) rs"
  from assms(2) have ne: "kinds_short sp \<noteq> []" by auto
  with assms(5) have "t \<notin> set ?xs" by (simp add: claim_rows_def)
  from due_rows_oldest [OF assms(1-4) this]
  have "length ?xs = nat (batch c)" "\<forall>s \<in> set ?xs. run_at s \<le> run_at t" by simp_all
  moreover have "\<forall>s \<in> set ?xs. kind s \<in> set (kinds_short sp)" by (blast dest: set_due_rows)
  moreover have "\<exists>ys. claim_rows c sp n sk fr rs = ?xs @ ys"
    using ne by (simp add: claim_rows_def)
  ultimately show ?thesis by blast
qed

theorem claim_takes_oldest_witness:
  "\<exists>xs ys. claim_rows (default_config\<lparr>batch_cfg := 1\<rparr>) short_specs 10 [] 1
      [sample_task\<lparr>run_at := 5\<rparr>, sample_task\<lparr>t_id := 2\<rparr>] = xs @ ys \<and> length xs = 1 \<and>
    (\<forall>s \<in> set xs. run_at s \<le> 5)"
proof -
  let ?c = "default_config\<lparr>batch_cfg := 1\<rparr>" and ?t = "sample_task\<lparr>run_at := 5\<rparr>"
  let ?rs = "[sample_task\<lparr>run_at := 5\<rparr>, sample_task\<lparr>t_id := 2\<rparr>]"
  have h: "?t \<in> set ?rs" "kind ?t \<in> set (kinds_short short_specs)" "is_due ?c 10 ?t" "t_id ?t \<notin> set []"
    by (simp, code_simp, code_simp, simp)
  have n: "?t \<notin> set (claim_rows ?c short_specs 10 [] 1 ?rs)" by code_simp
  have b: "nat (batch ?c) = 1" "run_at ?t = 5" by code_simp+
  show ?thesis using claim_takes_oldest [OF h n] unfolding b by blast
qed

text \<open>
  A task that heartbeats is left alone: a running row whose heartbeat is at most
  \<open>stale\<close> (three heartbeat intervals) old is not claimed by any replica.
\<close>

lemma heartbeat_protects:
  assumes "status t = StatusRunning" and "locked_at t = Some l" and "n - stale c \<le> l"
  shows "t \<notin> set (claim_rows c sp n sk fr rs)"
proof
  assume "t \<in> set (claim_rows c sp n sk fr rs)"
  with set_claim_rows have "is_due c n t" by blast
  with assms show False by (simp add: is_due_def)
qed

theorem heartbeat_protects_witness:
  "mark_running 50 sample_task \<notin> set (claim_rows default_config short_specs 1000 [] 1 [mark_running 50 sample_task])"
  by (rule heartbeat_protects [where l = 50])
    (simp_all add: mark_running_def stale_def heartbeat_def orDur_def default_config_def)

text \<open>
  The retry delay after the \<open>n\<close>th failed attempt is one minute doubled \<open>n - 1\<close> times,
  never more than an hour: the capped shift of the code computes exactly that, for any \<open>n\<close>.
\<close>

lemma backoff_doubles_capped:
  assumes "1 \<le> n"
  shows "backoff n = min (60000 * 2 ^ nat (n - 1)) 3600000"
  using assms by (rule backoff_eq)

text \<open>
  What a run does to its task, branch by branch. When the outcome of a run is written
  to a row that is still running: success makes it done with one attempt more; an error
  makes it pending again with one attempt more, due after the backoff, or failed when that
  was the last attempt; an error while the service stops makes it pending again, due now,
  with the attempts it had; an aborted run leaves it cancelled. It is unlocked in every case.
\<close>

lemma finish_outcomes:
  assumes "t \<in> set rs" and "status t = StatusRunning" and "t_id t = t_id q"
    and "map_of sp (kind q) = Some s" and "attempts t = attempts q"
  shows "\<exists>t' \<in> set (finish_rows c sp n q cs err over rs). t_id t' = t_id t \<and> locked_at t' = None \<and>
    (if cs = Some ErrAborted then status t' = StatusCancel \<and> attempts t' = attempts t
     else case err of
       None \<Rightarrow> status t' = StatusDone \<and> attempts t' = attempts t + 1
     | Some e \<Rightarrow>
         if cs = Some ErrShutdown \<or> over
         then status t' = StatusPending \<and> attempts t' = attempts t \<and> run_at t' = n
         else if attempts t + 1 \<ge> maxAttempts c
         then status t' = StatusFailed \<and> attempts t' = attempts t + 1 \<and> last_error t' = clip e
         else status t' = StatusPending \<and> attempts t' = attempts t + 1 \<and>
              run_at t' = n + backoff (attempts t + 1))"
proof -
  let ?f = "outcome_fields n q err (outcome_of c q cs err over)"
  have "?f t \<in> set (finish_rows c sp n q cs err over rs)"
    using assms(1-4) by (auto simp: finish_rows_def in_update_where running_row_def intro!: bexI [of _ t])
  then show ?thesis
    by (rule bexI [rotated])
      (use assms(5) in \<open>auto simp: outcome_of_def outcome_fields.simps split: option.splits\<close>)
qed

theorem finish_outcomes_witness:
  "\<exists>t' \<in> set (finish_rows default_config short_specs 7 sample_task None (Some ''db'') False
      [mark_running 0 sample_task]). status t' = StatusPending \<and> attempts t' = 1 \<and> run_at t' = 60007"
  using finish_outcomes [where t = "mark_running 0 sample_task" and q = sample_task and sp = short_specs
      and c = default_config and rs = "[mark_running 0 sample_task]" and n = 7 and cs = None
      and err = "Some ''db''" and over = False, OF _ _ _ _ _]
  by (fastforce simp: mark_running_def sample_task_def short_specs_def maxAttempts_def orInt_def
      default_config_def backoff_eq)

text \<open>
  Abort reaches every replica. After Abort is called in any process for the kind and
  key of a live task, its row is cancelled, and a started run of it, in whichever process,
  has its context ended with the abort cause at the latest after its next heartbeat.
\<close>

lemma abort_reaches_runs:
  assumes "dreachable c sp st" and "t \<in> set (rows st)" and "live_status t"
    and "find_run n st = Some r" and "t_id (rtask r) = t_id t" and "started r" and "rcause r = None"
  shows "(\<exists>t' \<in> set (rows (dstep c sp (Abort p (kind t) (task_key t)) st)).
      t_id t' = t_id t \<and> status t' = StatusCancel) \<and>
    (\<exists>r'. find_run n (dstep c sp (Beat n True) (dstep c sp (Abort p (kind t) (task_key t)) st)) = Some r' \<and>
      rcause r' = Some ErrAborted)"
proof -
  obtain cnt ids rs where a: "abort_op (now st) (kind t) (task_key t) (rows st) = (cnt, ids, rs)"
    by (cases "abort_op (now st) (kind t) (task_key t) (rows st)")
  from assms(1) have "dinv c st"
    by (induction rule: dreachable.induct) (auto intro: dinv_init dinv_step)
  then have d: "distinct (map t_id (rows st))" by (simp add: dinv_def)
  note rows' = abort_rows [OF d assms(2,3) a]
  let ?p = "\<lambda>q. proc q = p \<and> started q \<and> t_id (rtask q) \<in> set ids"
  let ?st = "dstep c sp (Abort p (kind t) (task_key t)) st"
  have st: "?st = st\<lparr>rows := rs, runs := map_runs ?p (end_run ErrAborted) (runs st)\<rparr>"
    using a by simp
  have f: "find_run n ?st = Some (if ?p r then end_run ErrAborted r else r)"
    using assms(4) unfolding st by (simp add: find_run_def find_map_runs)
  have "\<exists>r'. find_run n (dstep c sp (Beat n True) ?st) = Some r' \<and> rcause r' = Some ErrAborted"
  proof (cases "?p r")
    case True
    with f assms(7) beat_ended [of n ?st "end_run ErrAborted r"] show ?thesis
      by (simp add: rcause_end_run del: dstep.simps)
  next
    case False
    with f have "find_run n ?st = Some r" by (simp del: dstep.simps)
    moreover have "count_where (running_row (t_id (rtask r))) (rows ?st) = 0"
      using rows' assms(5) unfolding st by simp
    ultimately show ?thesis
      using beat_not_running [OF _ assms(6,7), of n ?st c sp] assms(7)
      by (simp add: rcause_end_run del: dstep.simps)
  qed
  moreover have "\<exists>t' \<in> set rs. t_id t' = t_id t \<and> status t' = StatusCancel"
    using rows' by (intro bexI [of _ "t\<lparr>status := StatusCancel, locked_at := None, updated_at := now st\<rparr>"]) auto
  moreover have "rows ?st = rs" unfolding st by simp
  ultimately show ?thesis by metis
qed

theorem abort_reaches_runs_witness:
  "\<exists>r'. find_run 0 (dstep default_config short_specs (Beat 0 True)
      (dstep default_config short_specs (Abort 2 ''k'' ''a'')
        (drun_events default_config short_specs [Schedule ''k'' ''a'' 0 ''{}'', Claim 1 [], Start 0] init_dstate)))
     = Some r' \<and> rcause r' = Some ErrAborted"
proof -
  let ?st = "drun_events default_config short_specs [Schedule ''k'' ''a'' 0 ''{}'', Claim 1 [], Start 0] init_dstate"
  let ?t = "\<lparr>t_id = 1, kind = ''k'', task_key = ''a'', run_at = 0, payload = ''{}'',
     status = StatusRunning, attempts = 0, last_error = [], locked_at = Some 0, updated_at = 0\<rparr>"
  have "rows ?st = [?t]" by code_simp
  moreover have "find_run 0 ?st = Some \<lparr>run_no = 0, proc = 1, rtask = ?t, started = True, rcause = None\<rparr>"
    by code_simp
  ultimately show ?thesis
    using abort_reaches_runs [OF dreachable_events, of ?t default_config short_specs
        "[Schedule ''k'' ''a'' 0 ''{}'', Claim 1 [], Start 0]" 0 _ 2]
    by (simp add: live_status_def del: dstep.simps)
qed

definition lost_task_events :: "event list" where
  "lost_task_events =
     [Schedule ''export'' ''e1'' 0 ''{}'', Claim 1 [], Start 0, Beat 0 False, Tick 90001,
      Claim 2 [], Finish 0 (Some ''deadlock'') True, Beat 1 True, Tick 60000,
      Claim 3 [], Finish 1 (Some ''context canceled'') True, Finish 2 (Some ''deadlock'') True]"

text \<open>
  A task can be lost without anyone cancelling it. There is a run of the service, with
  no Cancel, Abort, Stop or crash in it, at whose end a task that failed once (of five
  attempts) is cancelled. A replica whose heartbeats failed finishes with an error after
  another replica took the task over; the second one's heartbeat takes the row, pending by
  then, for an abort; when the task is claimed a third time and the second run returns, its
  outcome finds a running row, which is the third run's, and writes it cancelled: the guard
  asks whether the row is running, not whether it is this run that is running it.
\<close>

lemma delayx_lost_task:
  "dreachable default_config long_specs
     (drun_events default_config long_specs lost_task_events init_dstate) \<and>
   list_all (\<lambda>e. case e of Cancel _ _ \<Rightarrow> False | Abort _ _ _ \<Rightarrow> False | Stop _ \<Rightarrow> False
      | Crash _ \<Rightarrow> False | _ \<Rightarrow> True) lost_task_events \<and>
   map (\<lambda>t. (status t, attempts t))
     (rows (drun_events default_config long_specs
        lost_task_events init_dstate)) = [(StatusCancel, 1)]"
  by (intro conjI dreachable_events; code_simp)

definition double_run_events :: "event list" where
  "double_run_events =
     [Schedule ''k'' ''a'' 0 ''{}'', Schedule ''k'' ''b'' 0 ''{}'', Schedule ''k'' ''c'' 0 ''{}'',
      Claim 1 [], Start 0, Tick 30000, Beat 0 True, Tick 20000, Finish 0 None True,
      Start 1, Tick 30000, Beat 1 True, Tick 20000, Finish 1 None True,
      Claim 2 [], Start 3, Start 2]"

text \<open>
  A claimed task that waits for its turn has no heartbeat. There is a run of the
  service in which every process is alive and every heartbeat succeeds, at whose end two
  processes are running the same task: it was the third of a batch, and the two before it
  took longer together than a row may go without a heartbeat.
\<close>

lemma delayx_double_run:
  "dreachable default_config short_specs
     (drun_events default_config short_specs double_run_events init_dstate) \<and>
   list_all (\<lambda>e. case e of Crash _ \<Rightarrow> False | Stop _ \<Rightarrow> False | Beat _ ok \<Rightarrow> ok
      | Finish _ _ ok \<Rightarrow> ok | _ \<Rightarrow> True) double_run_events \<and>
   map (\<lambda>r. (proc r, t_id (rtask r), started r, rcause r))
     (runs (drun_events default_config short_specs
        double_run_events init_dstate)) = [(1, 3, True, None), (2, 3, True, None)]"
  by (intro conjI dreachable_events; code_simp)

end
