(* ===== verification/Outbox.thy ===== *)
theory Outbox
  imports Table Config "HOL-Library.Multiset"
begin

text \<open>
  The outbox of \<^verbatim>\<open>kafkax/outbox.go\<close>: events written in the transaction of the change
  they belong to, and the relay that publishes them. The first part is one round of the
  relay as a function on the table; the second the service with any number of replicas whose
  rounds interleave (\<open>FOR UPDATE SKIP LOCKED\<close>), roll back and crash, as a step relation.
  Times are milliseconds. What Kafka answers to a row, and whether a statement fails, are
  arguments.
\<close>

section \<open>Configuration\<close>

record outbox_config =
  ob_Enabled :: "bool option"
  ob_PollInterval :: int
  ob_Batch :: int
  ob_Retention :: int
  ob_PublishTimeout :: int

definition ob_enabled :: "outbox_config \<Rightarrow> bool" where
  "ob_enabled c \<longleftrightarrow> ob_Enabled c = None \<or> ob_Enabled c = Some True"

definition ob_interval :: "outbox_config \<Rightarrow> int" where "ob_interval c = dur_or (ob_PollInterval c) 500"

definition ob_batch :: "outbox_config \<Rightarrow> int" where
  "ob_batch c = (if ob_Batch c \<le> 0 then 100 else ob_Batch c)"

definition ob_retention :: "outbox_config \<Rightarrow> int" where
  "ob_retention c = dur_or (ob_Retention c) (168 * 3600000)"

definition ob_publishTimeout :: "outbox_config \<Rightarrow> int" where
  "ob_publishTimeout c = dur_or (ob_PublishTimeout c) 10000"

text \<open>\<^verbatim>\<open>time.Second << uint(min(attempts, 10))\<close>, capped at five minutes.\<close>

definition ob_backoff :: "int \<Rightarrow> int" where
  "ob_backoff n = (let d = push_bit (nat (min n 10)) (1000 :: int) in if d > 300000 then 300000 else d)"

section \<open>Rows and messages\<close>

record outbox_row =
  ID :: int
  Service :: string
  EventID :: string
  Topic :: string
  Key :: string
  EventType :: string
  Payload :: string
  Trace :: string
  CreatedAt :: int
  SentAt :: "int option"
  Attempts :: int
  NextAttemptAt :: int
  LastError :: string

record envelope =
  e_id :: string
  e_type :: string
  e_tenant :: string
  e_time :: int
  e_data :: string

text \<open>The record handed to Kafka; its value is the JSON of the envelope.\<close>

record message =
  m_topic :: string
  m_key :: string
  m_value :: envelope
  m_headers :: "(string \<times> string) list"

definition message_of :: "string \<Rightarrow> outbox_row \<Rightarrow> message" where
  "message_of tenant row = \<lparr>m_topic = Topic row, m_key = Key row,
     m_value = \<lparr>e_id = EventID row, e_type = EventType row, e_tenant = tenant,
       e_time = CreatedAt row, e_data = Payload row\<rparr>,
     m_headers = [(''content-type'', ''application/json''), (''event-type'', EventType row),
       (''outbox-id'', show_int (ID row))]\<rparr>"

datatype publish_error = PublishNoTx | PublishEncode | PublishInsert

text \<open>
  \<^verbatim>\<open>PublishTx\<close>: the row to insert in the caller's transaction. \<open>body\<close> is the encoded
  payload, \<open>inserted\<close> whether the INSERT succeeds, \<open>i\<close> the AUTO_INCREMENT value.
\<close>

definition PublishTx ::
  "bool \<Rightarrow> string option \<Rightarrow> bool \<Rightarrow> string \<Rightarrow> string \<Rightarrow> string \<Rightarrow> int \<Rightarrow> string \<Rightarrow> string \<Rightarrow> string \<Rightarrow> int \<Rightarrow>
   publish_error + outbox_row" where
  "PublishTx tx body inserted service uuid trc i tpc key typ now =
     (if \<not> tx then Inl PublishNoTx
      else case body of
          None \<Rightarrow> Inl PublishEncode
        | Some b \<Rightarrow>
            if \<not> inserted then Inl PublishInsert
            else Inr \<lparr>ID = i, Service = service, EventID = uuid, Topic = tpc, Key = key, EventType = typ,
                      Payload = b, Trace = trc, CreatedAt = now, SentAt = None, Attempts = 0,
                      NextAttemptAt = now, LastError = []\<rparr>)"

section \<open>One round of the relay\<close>

definition ob_due :: "string \<Rightarrow> int \<Rightarrow> outbox_row \<Rightarrow> bool" where
  "ob_due service now r \<longleftrightarrow> Service r = service \<and> SentAt r = None \<and> NextAttemptAt r \<le> now"

text \<open>\<open>skip\<close>: the ids other transactions have locked.\<close>

definition ob_rows :: "string \<Rightarrow> int \<Rightarrow> int list \<Rightarrow> int \<Rightarrow> outbox_row list \<Rightarrow> outbox_row list" where
  "ob_rows service now skip batch tbl =
     select_where (\<lambda>r. ob_due service now r \<and> ID r \<notin> set skip) ID (nat batch) tbl"

text \<open>The columns after a try: \<open>err\<close> is what producing answered, \<open>now\<close> the time after it.\<close>

definition row_after :: "string option \<Rightarrow> int \<Rightarrow> outbox_row \<Rightarrow> outbox_row" where
  "row_after err now row =
     (case err of
        None \<Rightarrow> row\<lparr>SentAt := Some now, Attempts := Attempts row + 1, LastError := []\<rparr>
      | Some msg \<Rightarrow> row\<lparr>Attempts := Attempts row + 1,
          LastError := (if length msg > 500 then take 500 msg else msg),
          NextAttemptAt := now + ob_backoff (Attempts row + 1)\<rparr>)"

text \<open>
  The rows of a round, in order. A row is tried once a round: \<open>answer\<close> is what producing it
  answered, \<open>at\<close> the time after, \<open>updated\<close> whether its UPDATE succeeds. The result is the
  rows Kafka took and the table as the transaction sees it, or that it must roll back.
\<close>

fun relay_rows ::
  "(outbox_row \<Rightarrow> string option) \<Rightarrow> (outbox_row \<Rightarrow> int) \<Rightarrow> (outbox_row \<Rightarrow> bool) \<Rightarrow>
   outbox_row list \<Rightarrow> outbox_row list \<Rightarrow> outbox_row list \<times> outbox_row list option" where
  "relay_rows answer at updated [] tbl = ([], Some tbl)"
| "relay_rows answer at updated (row # rows) tbl =
     (let pub = (if answer row = None then [row] else [])
      in if \<not> updated row then (pub, None)
         else case relay_rows answer at updated rows
                (update_where (\<lambda>r. ID r = ID row) (row_after (answer row) (at row)) tbl) of
             (pub', res) \<Rightarrow> (pub @ pub', res))"

text \<open>
  \<^verbatim>\<open>relayOnce\<close>: how many rows were looked at, whether the round failed, what Kafka took
  and the table. \<open>found\<close>: BEGIN and SELECT succeed; \<open>commit\<close>: what the COMMIT answered and
  whether it took effect.
\<close>

definition relayOnce ::
  "string \<Rightarrow> bool \<Rightarrow> (bool \<times> bool) \<Rightarrow> (outbox_row \<Rightarrow> string option) \<Rightarrow> (outbox_row \<Rightarrow> int) \<Rightarrow>
   (outbox_row \<Rightarrow> bool) \<Rightarrow> int \<Rightarrow> int list \<Rightarrow> int \<Rightarrow> outbox_row list \<Rightarrow>
   (nat \<times> bool) \<times> outbox_row list \<times> outbox_row list" where
  "relayOnce service found commit answer at updated now skip batch tbl =
     (if \<not> found then ((0, True), [], tbl)
      else let rows = ob_rows service now skip batch tbl
           in case relay_rows answer at updated rows tbl of
                (pub, None) \<Rightarrow> ((length rows, True), pub, tbl)
              | (pub, Some tbl') \<Rightarrow> ((length rows, \<not> fst commit), pub, if snd commit then tbl' else tbl))"

text \<open>\<^verbatim>\<open>cleanupOutbox\<close>, and the counts of \<^verbatim>\<open>observeOutbox\<close> and \<^verbatim>\<open>unownedOutboxRows\<close>.\<close>

definition ob_old :: "int \<Rightarrow> int \<Rightarrow> outbox_row \<Rightarrow> bool" where
  "ob_old keep now r \<longleftrightarrow> (case SentAt r of None \<Rightarrow> False | Some t \<Rightarrow> t < now - keep)"

definition cleanupOutbox :: "int \<Rightarrow> int \<Rightarrow> outbox_row list \<Rightarrow> outbox_row list" where
  "cleanupOutbox keep now tbl = delete_where 10000 (ob_old keep now) tbl"

definition observeOutbox :: "string \<Rightarrow> int \<Rightarrow> outbox_row list \<Rightarrow> int \<times> int" where
  "observeOutbox service now tbl =
     (let unsent = filter (\<lambda>r. Service r = service \<and> SentAt r = None) tbl
      in (int (length unsent), if unsent = [] then 0 else now - Min (CreatedAt ` set unsent)))"

definition unownedOutboxRows :: "outbox_row list \<Rightarrow> int" where
  "unownedOutboxRows tbl = count_where (\<lambda>r. Service r = [] \<and> SentAt r = None) tbl"

section \<open>Replicas\<close>

text \<open>
  The service: transactions of requests that hold a queued row (\<open>open_tx\<close>), the table, and
  the rounds under way. A round holds the locks of its rows until it commits or is gone;
  \<open>todo\<close> are the rows still to try, \<open>upd\<close> the updates only its transaction sees.
  \<open>published\<close> is what Kafka has, in order, and \<open>committed\<close> the rows whose transaction
  committed; no code reads either.
\<close>

record oround =
  r_id :: nat
  todo :: "outbox_row list"
  upd :: "(int \<times> outbox_row) list"

record ostate =
  tbl :: "outbox_row list"
  open_tx :: "outbox_row list"
  rounds :: "oround list"
  published :: "message list"
  committed :: "outbox_row list"
  next_id :: int
  onow :: int

definition locked :: "oround \<Rightarrow> int list" where
  "locked R = map ID (todo R) @ map fst (upd R)"

definition all_locked :: "ostate \<Rightarrow> int list" where
  "all_locked st = concat (map locked (rounds st))"

definition apply_upd :: "(int \<times> outbox_row) list \<Rightarrow> outbox_row list \<Rightarrow> outbox_row list" where
  "apply_upd us rs = map (\<lambda>r. case map_of us (ID r) of None \<Rightarrow> r | Some r' \<Rightarrow> r') rs"

definition find_round :: "nat \<Rightarrow> ostate \<Rightarrow> oround option" where
  "find_round k st = find (\<lambda>R. r_id R = k) (rounds st)"

definition drop_round :: "nat \<Rightarrow> oround list \<Rightarrow> oround list" where
  "drop_round k Rs = filter (\<lambda>R. r_id R \<noteq> k) Rs"

datatype oevent =
    Queue string string string string string   \<comment> \<open>\<^verbatim>\<open>PublishTx\<close>: event id, topic, key, type, payload\<close>
  | TxCommit int                               \<comment> \<open>the transaction of a queued row commits\<close>
  | TxRollback int
  | RoundBegin nat                             \<comment> \<open>a round selects and locks its rows\<close>
  | RoundTry nat "string option" bool          \<comment> \<open>the next row: what producing answered, whether Kafka has it\<close>
  | RoundCommit nat
  | RoundGone nat bool                         \<comment> \<open>an error or a crash; a COMMIT may have taken effect unanswered\<close>
  | Cleanup int                                \<comment> \<open>the retention\<close>
  | OTick nat

fun ostep :: "string \<Rightarrow> string \<Rightarrow> int \<Rightarrow> oevent \<Rightarrow> ostate \<Rightarrow> ostate" where
  "ostep service tenant batch (Queue uuid tpc key typ b) st =
     (case PublishTx True (Some b) True service uuid [] (next_id st) tpc key typ (onow st) of
        Inl _ \<Rightarrow> st
      | Inr row \<Rightarrow> st\<lparr>open_tx := row # open_tx st, next_id := next_id st + 1\<rparr>)"
| "ostep service tenant batch (TxCommit i) st =
     (case find (\<lambda>r. ID r = i) (open_tx st) of
        None \<Rightarrow> st
      | Some r \<Rightarrow> st\<lparr>open_tx := filter (\<lambda>s. ID s \<noteq> i) (open_tx st), tbl := tbl st @ [r],
                    committed := r # committed st\<rparr>)"
| "ostep service tenant batch (TxRollback i) st = st\<lparr>open_tx := filter (\<lambda>s. ID s \<noteq> i) (open_tx st)\<rparr>"
| "ostep service tenant batch (RoundBegin k) st =
     (if k \<in> set (map r_id (rounds st)) then st
      else st\<lparr>rounds := \<lparr>r_id = k, todo = ob_rows service (onow st) (all_locked st) batch (tbl st), upd = []\<rparr>
                # rounds st\<rparr>)"
| "ostep service tenant batch (RoundTry k err taken) st =
     (case find_round k st of
        None \<Rightarrow> st
      | Some R \<Rightarrow>
          (case todo R of
             [] \<Rightarrow> st
           | row # rows \<Rightarrow>
               st\<lparr>rounds := map (\<lambda>Q. if r_id Q = k
                    then Q\<lparr>todo := rows, upd := (ID row, row_after err (onow st) row) # upd R\<rparr> else Q) (rounds st),
                  published := published st @ (if err = None \<or> taken then [message_of tenant row] else [])\<rparr>))"
| "ostep service tenant batch (RoundCommit k) st =
     (case find_round k st of
        None \<Rightarrow> st
      | Some R \<Rightarrow> if todo R \<noteq> [] then st
                 else st\<lparr>tbl := apply_upd (upd R) (tbl st), rounds := drop_round k (rounds st)\<rparr>)"
| "ostep service tenant batch (RoundGone k applied) st =
     (case find_round k st of
        None \<Rightarrow> st
      | Some R \<Rightarrow> st\<lparr>tbl := (if applied \<and> todo R = [] then apply_upd (upd R) (tbl st) else tbl st),
                    rounds := drop_round k (rounds st)\<rparr>)"
| "ostep service tenant batch (Cleanup keep) st = st\<lparr>tbl := cleanupOutbox keep (onow st) (tbl st)\<rparr>"
| "ostep service tenant batch (OTick d) st = st\<lparr>onow := onow st + int d\<rparr>"

definition init_ostate :: ostate where
  "init_ostate = \<lparr>tbl = [], open_tx = [], rounds = [], published = [], committed = [], next_id = 1, onow = 0\<rparr>"

definition orun :: "string \<Rightarrow> string \<Rightarrow> int \<Rightarrow> oevent list \<Rightarrow> ostate \<Rightarrow> ostate" where
  "orun service tenant batch es st = fold (ostep service tenant batch) es st"

inductive oreachable :: "string \<Rightarrow> string \<Rightarrow> int \<Rightarrow> ostate \<Rightarrow> bool" for service tenant batch where
  oinit: "oreachable service tenant batch init_ostate"
| onext: "oreachable service tenant batch st \<Longrightarrow> oreachable service tenant batch (ostep service tenant batch e st)"

lemma orun_reachable: "oreachable sv tn b st \<Longrightarrow> oreachable sv tn b (orun sv tn b es st)"
  unfolding orun_def by (induction es arbitrary: st) (simp_all add: oreachable.onext del: ostep.simps)

section \<open>The invariant\<close>

definition rows_inv :: "string \<Rightarrow> ostate \<Rightarrow> bool" where
  "rows_inv tenant st \<longleftrightarrow>
     distinct (map ID (tbl st @ open_tx st)) \<and> (\<forall>r \<in> set (tbl st @ open_tx st). ID r < next_id st) \<and>
     (\<forall>r \<in> set (open_tx st). SentAt r = None) \<and>
     (\<forall>r \<in> set (tbl st). message_of tenant r \<in> message_of tenant ` set (committed st) \<and>
        (SentAt r \<noteq> None \<longrightarrow> message_of tenant r \<in> set (published st)))"

definition upd_ok :: "string \<Rightarrow> outbox_row list \<Rightarrow> message list \<Rightarrow> int \<times> outbox_row \<Rightarrow> bool" where
  "upd_ok tenant rs ms u \<longleftrightarrow> (\<exists>r \<in> set rs. ID r = fst u \<and> SentAt r = None \<and> ID (snd u) = fst u \<and>
     message_of tenant (snd u) = message_of tenant r \<and>
     (SentAt (snd u) \<noteq> None \<longrightarrow> message_of tenant r \<in> set ms))"

definition round_ok :: "string \<Rightarrow> outbox_row list \<Rightarrow> message list \<Rightarrow> oround \<Rightarrow> bool" where
  "round_ok tenant rs ms R \<longleftrightarrow>
     (\<forall>r \<in> set (todo R). r \<in> set rs \<and> SentAt r = None) \<and> (\<forall>u \<in> set (upd R). upd_ok tenant rs ms u)"

definition rounds_inv :: "string \<Rightarrow> ostate \<Rightarrow> bool" where
  "rounds_inv tenant st \<longleftrightarrow> distinct (map r_id (rounds st)) \<and> distinct (all_locked st) \<and>
     (\<forall>R \<in> set (rounds st). round_ok tenant (tbl st) (published st) R)"

definition events_inv :: "string \<Rightarrow> ostate \<Rightarrow> bool" where
  "events_inv tenant st \<longleftrightarrow>
     (\<forall>m \<in> set (published st). m \<in> message_of tenant ` set (committed st)) \<and>
     (\<forall>c \<in> set (committed st). message_of tenant c \<in> set (published st) \<or>
        (\<exists>r \<in> set (tbl st). message_of tenant r = message_of tenant c \<and> SentAt r = None))"

definition oinv :: "string \<Rightarrow> ostate \<Rightarrow> bool" where
  "oinv tenant st \<longleftrightarrow> rows_inv tenant st \<and> rounds_inv tenant st \<and> events_inv tenant st"

lemma oinvI: "rows_inv tn st \<Longrightarrow> rounds_inv tn st \<Longrightarrow> events_inv tn st \<Longrightarrow> oinv tn st"
  by (simp add: oinv_def)

lemma row_after_fixed [simp]: "ID (row_after e n r) = ID r" "message_of tn (row_after e n r) = message_of tn r"
  by (simp_all add: row_after_def message_of_def split: option.split)

lemma row_after_sent: "SentAt r = None \<Longrightarrow> SentAt (row_after e n r) \<noteq> None \<Longrightarrow> e = None"
  by (simp add: row_after_def split: option.splits)

lemma upd_ok_mono:
  assumes "upd_ok tn rs ms u" and "\<And>r. r \<in> set rs \<Longrightarrow> SentAt r = None \<Longrightarrow> ID r = fst u \<Longrightarrow> r \<in> set rs'"
    and "set ms \<subseteq> set ms'"
  shows "upd_ok tn rs' ms' u"
  using assms unfolding upd_ok_def by blast

lemma round_ok_mono:
  assumes ok: "round_ok tn rs ms R"
    and keep: "\<And>r. r \<in> set rs \<Longrightarrow> SentAt r = None \<Longrightarrow> ID r \<in> set (locked R) \<Longrightarrow> r \<in> set rs'"
    and ms: "set ms \<subseteq> set ms'"
  shows "round_ok tn rs' ms' R"
  unfolding round_ok_def
proof (intro conjI ballI)
  fix r assume "r \<in> set (todo R)"
  with ok keep show "r \<in> set rs'" and "SentAt r = None" by (auto simp: round_ok_def locked_def)
next
  fix u assume "u \<in> set (upd R)"
  with ok have "upd_ok tn rs ms u" by (simp add: round_ok_def)
  then show "upd_ok tn rs' ms' u"
    by (rule upd_ok_mono [OF _ keep ms]) (use \<open>u \<in> set (upd R)\<close> in \<open>auto simp: locked_def\<close>)
qed

lemma find_round_in: "find_round k st = Some R \<Longrightarrow> R \<in> set (rounds st) \<and> r_id R = k"
  by (auto simp: find_round_def find_Some_iff)

text \<open>The rounds with round \<open>k\<close> taken out: their locks are disjoint from its own.\<close>

lemma locked_disjoint:
  assumes "distinct (concat (map locked Rs))" and "R \<in> set Rs" and "Q \<in> set Rs" and "Q \<noteq> R"
  shows "set (locked Q) \<inter> set (locked R) = {}"
  using assms
proof (induction Rs)
  case (Cons P Rs)
  from Cons.prems(1) have d: "set (locked P) \<inter> (\<Union>S \<in> set Rs. set (locked S)) = {}" and ds: "distinct (concat (map locked Rs))"
    by simp_all
  consider "Q = P" "R \<in> set Rs" | "R = P" "Q \<in> set Rs" | "Q \<in> set Rs" "R \<in> set Rs"
    using Cons.prems(2-4) by auto
  then show ?case
  proof cases
    case 3
    with Cons.IH [OF ds] Cons.prems(4) show ?thesis by blast
  qed (use d in blast)+
qed simp

lemma distinct_locked_filter:
  "distinct (concat (map locked Rs)) \<Longrightarrow> distinct (concat (map locked (filter p Rs)))"
  by (induction Rs) auto

lemma apply_upd_other: "r \<in> set rs \<Longrightarrow> ID r \<notin> fst ` set us \<Longrightarrow> r \<in> set (apply_upd us rs)"
  unfolding apply_upd_def set_map by (rule image_eqI [where x = r]) (simp_all add: map_of_eq_None_iff [THEN iffD2])

lemma in_apply_upd:
  assumes "r' \<in> set (apply_upd us rs)"
  obtains r where "r \<in> set rs" and "r' = r \<or> (ID r, r') \<in> set us"
proof -
  from assms obtain r where r: "r \<in> set rs" "r' = (case map_of us (ID r) of None \<Rightarrow> r | Some x \<Rightarrow> x)"
    by (auto simp: apply_upd_def)
  then have "r' = r \<or> (ID r, r') \<in> set us"
    by (cases "map_of us (ID r)") (auto dest: map_of_SomeD)
  with r(1) show thesis by (rule that)
qed

lemma keys_apply_upd:
  assumes "\<forall>u \<in> set us. ID (snd u) = fst u"
  shows "map ID (apply_upd us rs) = map ID rs"
  using assms by (auto simp: apply_upd_def dest!: map_of_SomeD split: option.split)

section \<open>Each step keeps the invariant\<close>

lemma oinvD:
  assumes "oinv tn st"
  shows "distinct (map ID (tbl st))" "distinct (map ID (open_tx st))" "distinct (map r_id (rounds st))"
    "distinct (concat (map locked (rounds st)))"
    "\<And>R. R \<in> set (rounds st) \<Longrightarrow> round_ok tn (tbl st) (published st) R"
  using assms by (auto simp: oinv_def rows_inv_def rounds_inv_def all_locked_def)

lemma oinv_ids: "oinv tn st \<Longrightarrow> \<forall>r \<in> set (tbl st @ open_tx st). ID r < next_id st"
  by (unfold oinv_def rows_inv_def, elim conjE)

lemma oinv_queue:
  assumes inv: "oinv tn st"
  shows "oinv tn (ostep sv tn b (Queue u t k y d) st)"
proof (rule oinvI)
  let ?st = "ostep sv tn b (Queue u t k y d) st"
  have lt: "ID r \<le> next_id st" if "r \<in> set (tbl st) \<or> r \<in> set (open_tx st)" for r
  proof -
    have "\<forall>r \<in> set (tbl st @ open_tx st). ID r < next_id st"
      using inv by (rule oinv_ids)
    with that show ?thesis by (auto intro: less_imp_le)
  qed
  show "rows_inv tn ?st"
    using inv by (auto simp: oinv_def rows_inv_def PublishTx_def lt)
  show "rounds_inv tn ?st" "events_inv tn ?st"
    using inv by (simp_all add: oinv_def rounds_inv_def events_inv_def all_locked_def PublishTx_def)
qed

lemma oinv_rollback:
  assumes inv: "oinv tn st"
  shows "oinv tn (ostep sv tn b (TxRollback i) st)"
proof (rule oinvI)
  show "rows_inv tn (ostep sv tn b (TxRollback i) st)"
    using inv by (auto simp: oinv_def rows_inv_def distinct_map_filter)
qed (use inv in \<open>simp_all add: oinv_def rounds_inv_def events_inv_def all_locked_def\<close>)

lemma oinv_commit:
  assumes inv: "oinv tn st" and r: "find (\<lambda>r. ID r = i) (open_tx st) = Some r" 
  shows "oinv tn (st\<lparr>open_tx := filter (\<lambda>s. ID s \<noteq> i) (open_tx st), tbl := tbl st @ [r], committed := r # committed st\<rparr>)"
    (is "oinv tn ?st")
proof (rule oinvI)
  from r have ro: "r \<in> set (open_tx st)" "ID r = i" by (auto simp: find_Some_iff)
  with inv have none: "SentAt r = None" by (simp add: oinv_def rows_inv_def)
  show "rows_inv tn ?st"
    using inv ro none by (auto simp: oinv_def rows_inv_def distinct_map_filter)
  show "rounds_inv tn ?st"
    using inv by (auto simp: oinv_def rounds_inv_def all_locked_def intro: round_ok_mono)
  show "events_inv tn ?st"
    using inv none by (auto simp: oinv_def events_inv_def)
qed

lemma oinv_begin:
  assumes inv: "oinv tn st" and new: "k \<notin> set (map r_id (rounds st))"
  shows "oinv tn (st\<lparr>rounds := \<lparr>r_id = k, todo = ob_rows sv n (all_locked st) b (tbl st), upd = []\<rparr> # rounds st\<rparr>)"
    (is "oinv tn (st\<lparr>rounds := ?R # rounds st\<rparr>)")
proof (rule oinvI)
  have sel: "r \<in> set (tbl st) \<and> SentAt r = None \<and> ID r \<notin> set (all_locked st)" if "r \<in> set (todo ?R)" for r
    using that by (auto simp: ob_rows_def ob_due_def dest!: in_select_where)
  have "distinct (map ID (todo ?R))"
    using oinvD(1) [OF inv] by (simp add: ob_rows_def distinct_select_where)
  moreover have "set (locked ?R) \<inter> set (all_locked st) = {}" using sel by (auto simp: locked_def)
  moreover have "round_ok tn (tbl st) (published st) ?R" using sel by (auto simp: round_ok_def)
  ultimately show "rounds_inv tn (st\<lparr>rounds := ?R # rounds st\<rparr>)"
    using inv new by (auto simp: oinv_def rounds_inv_def all_locked_def locked_def)
qed (use inv in \<open>simp_all add: oinv_def rows_inv_def events_inv_def\<close>)

text \<open>A round that tries a row moves its lock from \<open>todo\<close> to \<open>upd\<close>.\<close>

lemma distinct_locked_map:
  assumes "\<And>R. R \<in> set Rs \<Longrightarrow> mset (locked (f R)) = mset (locked R)"
  shows "mset (concat (map locked (map f Rs))) = mset (concat (map locked Rs))"
  using assms by (induction Rs) auto

lemma rounds_inv_map:
  assumes inv: "rounds_inv tn st"
    and f: "\<And>Q. Q \<in> set (rounds st) \<Longrightarrow> r_id (f Q) = r_id Q \<and> mset (locked (f Q)) = mset (locked Q) \<and>
      round_ok tn (tbl st) ms (f Q)"
  shows "rounds_inv tn (st\<lparr>rounds := map f (rounds st), published := ms\<rparr>)"
proof -
  have "map r_id (map f (rounds st)) = map r_id (rounds st)" using f by simp
  then have ids: "distinct (map r_id (map f (rounds st)))"
    using inv unfolding rounds_inv_def by metis
  have "mset (concat (map locked (map f (rounds st)))) = mset (concat (map locked (rounds st)))"
    by (rule distinct_locked_map) (simp add: f)
  then have "distinct (concat (map locked (map f (rounds st))))"
    using inv mset_eq_imp_distinct_iff unfolding rounds_inv_def all_locked_def by blast
  with ids f show ?thesis by (simp add: rounds_inv_def all_locked_def)
qed

lemma oinv_try:
  assumes inv: "oinv tn st" and R: "R \<in> set (rounds st)" "r_id R = k" and todo: "todo R = row # rws"
    and ms: "ms = published st @ (if tk then [message_of tn row] else [])" and taken: "err = None \<Longrightarrow> tk"
    and f: "f = (\<lambda>Q. if r_id Q = k then Q\<lparr>todo := rws, upd := (ID row, row_after err n row) # upd R\<rparr> else Q)"
  shows "oinv tn (st\<lparr>rounds := map f (rounds st), published := ms\<rparr>)"
proof (rule oinvI)
  have one: "Q = R" if "Q \<in> set (rounds st)" "r_id Q = k" for Q
    using that R inj_onD [of r_id "set (rounds st)" Q R] oinvD(3) [OF inv] by (simp add: distinct_map)
  have okR: "round_ok tn (tbl st) (published st) R" by (rule oinvD(5) [OF inv R(1)])
  with todo have row: "row \<in> set (tbl st)" "SentAt row = None" by (auto simp: round_ok_def)
  have sub: "set (published st) \<subseteq> set ms" by (simp add: ms)
  have new: "upd_ok tn (tbl st) ms (ID row, row_after err n row)"
    using row taken row_after_sent [OF row(2), of err n] by (auto simp: upd_ok_def ms)
  show "rounds_inv tn (st\<lparr>rounds := map f (rounds st), published := ms\<rparr>)"
  proof (rule rounds_inv_map)
    show "rounds_inv tn st" using inv by (simp add: oinv_def)
    fix Q assume Q: "Q \<in> set (rounds st)"
    have ok: "round_ok tn (tbl st) ms Q" by (rule round_ok_mono [OF oinvD(5) [OF inv Q] _ sub])
    show "r_id (f Q) = r_id Q \<and> mset (locked (f Q)) = mset (locked Q) \<and> round_ok tn (tbl st) ms (f Q)"
    proof (cases "r_id Q = k")
      case True
      with one Q have "Q = R" by blast
      with ok new todo R show ?thesis by (simp add: f round_ok_def locked_def)
    qed (simp add: f ok)
  qed
  have "message_of tn row \<in> message_of tn ` set (committed st)"
    using inv row(1) by (simp add: oinv_def rows_inv_def)
  then show "events_inv tn (st\<lparr>rounds := map f (rounds st), published := ms\<rparr>)"
    using inv by (auto simp: oinv_def events_inv_def ms)
  show "rows_inv tn (st\<lparr>rounds := map f (rounds st), published := ms\<rparr>)"
    using inv sub by (auto simp: oinv_def rows_inv_def)
qed

text \<open>Ending a round, with its updates or without.\<close>

lemma oinv_end:
  assumes inv: "oinv tn st" and R: "R \<in> set (rounds st)" "r_id R = k"
  shows "oinv tn (st\<lparr>rounds := drop_round k (rounds st)\<rparr>)"
proof (rule oinvI)
  show "rounds_inv tn (st\<lparr>rounds := drop_round k (rounds st)\<rparr>)"
    using inv by (auto simp: oinv_def rounds_inv_def drop_round_def all_locked_def distinct_locked_filter distinct_map_filter)
qed (use inv in \<open>simp_all add: oinv_def rows_inv_def events_inv_def\<close>)

text \<open>A row after the updates of a round comes from a row before, of the same event.\<close>

lemma apply_upd_orig:
  assumes inv: "oinv tn st" and R: "R \<in> set (rounds st)" and r': "r' \<in> set (apply_upd (upd R) (tbl st))"
  obtains r where "r \<in> set (tbl st)" and "ID r' = ID r" and "message_of tn r' = message_of tn r"
    and "SentAt r' \<noteq> None \<longrightarrow> message_of tn r \<in> set (published st)"
proof -
  have ok: "upd_ok tn (tbl st) (published st) u" if "u \<in> set (upd R)" for u
    using oinvD(5) [OF inv R] that by (simp add: round_ok_def)
  from r' obtain r where r: "r \<in> set (tbl st)" "r' = r \<or> (ID r, r') \<in> set (upd R)" by (rule in_apply_upd)
  show thesis
  proof (cases "r' = r")
    case True
    with r(1) inv show ?thesis by (intro that [of r]) (simp_all add: oinv_def rows_inv_def)
  next
    case False
    with r ok have "upd_ok tn (tbl st) (published st) (ID r, r')" by blast
    then obtain s where "s \<in> set (tbl st)" "ID r' = ID s" "message_of tn r' = message_of tn s"
      "SentAt r' \<noteq> None \<longrightarrow> message_of tn s \<in> set (published st)" by (auto simp: upd_ok_def)
    then show ?thesis by (rule that)
  qed
qed

lemma keys_apply_round:
  assumes "oinv tn st" and "R \<in> set (rounds st)"
  shows "map ID (apply_upd (upd R) (tbl st)) = map ID (tbl st)"
proof -
  have "\<forall>u \<in> set (upd R). ID (snd u) = fst u"
    using oinvD(5) [OF assms] by (auto simp: round_ok_def upd_ok_def)
  then show ?thesis by (simp add: keys_apply_upd)
qed

lemma rows_inv_apply:
  assumes inv: "oinv tn st" and R: "R \<in> set (rounds st)"
  shows "rows_inv tn (st\<lparr>tbl := apply_upd (upd R) (tbl st)\<rparr>)" (is "rows_inv tn ?st")
proof -
  have keys: "map ID (tbl ?st) = map ID (tbl st)" using keys_apply_round [OF assms] by simp
  have "ID ` set (tbl ?st) = ID ` set (tbl st)" using keys by (metis list.set_map)
  then have "\<forall>r \<in> set (tbl ?st). ID r < next_id st"
    using oinv_ids [OF inv] by (metis (no_types, lifting) Un_iff image_iff set_append)
  moreover have "message_of tn r \<in> message_of tn ` set (committed st) \<and>
      (SentAt r \<noteq> None \<longrightarrow> message_of tn r \<in> set (published st))" if "r \<in> set (tbl ?st)" for r
    using apply_upd_orig [OF inv R, of r] that inv by (simp add: oinv_def rows_inv_def) metis
  moreover have "distinct (map ID (tbl ?st @ open_tx st))"
    using inv keys unfolding oinv_def rows_inv_def by (metis map_append)
  moreover have "\<forall>r \<in> set (open_tx st). ID r < next_id st" using oinv_ids [OF inv] by simp
  moreover have "\<forall>r \<in> set (open_tx st). SentAt r = None" using inv by (simp add: oinv_def rows_inv_def)
  ultimately show ?thesis unfolding rows_inv_def by auto
qed

lemma rounds_inv_apply:
  assumes inv: "oinv tn st" and R: "R \<in> set (rounds st)" "r_id R = k"
  shows "rounds_inv tn (st\<lparr>tbl := apply_upd (upd R) (tbl st), rounds := drop_round k (rounds st)\<rparr>)"
proof -
  have "round_ok tn (apply_upd (upd R) (tbl st)) (published st) Q" if Q: "Q \<in> set (rounds st)" "r_id Q \<noteq> k" for Q
  proof (rule round_ok_mono [OF oinvD(5) [OF inv Q(1)]])
    have "set (locked Q) \<inter> set (locked R) = {}"
      using locked_disjoint [OF oinvD(4) [OF inv] R(1) Q(1)] Q(2) R(2) by blast
    then show "r \<in> set (apply_upd (upd R) (tbl st))" if "r \<in> set (tbl st)" "ID r \<in> set (locked Q)" for r
      using that by (intro apply_upd_other) (auto simp: locked_def)
  qed simp
  moreover have "rounds_inv tn (st\<lparr>rounds := drop_round k (rounds st)\<rparr>)"
    using oinv_end [OF inv R] by (simp add: oinv_def)
  ultimately show ?thesis by (auto simp: rounds_inv_def drop_round_def all_locked_def)
qed

lemma events_inv_apply:
  assumes inv: "oinv tn st" and R: "R \<in> set (rounds st)"
  shows "events_inv tn (st\<lparr>tbl := apply_upd (upd R) (tbl st)\<rparr>)" (is "events_inv tn ?st")
proof -
  have "message_of tn c \<in> set (published st) \<or>
      (\<exists>r \<in> set (tbl ?st). message_of tn r = message_of tn c \<and> SentAt r = None)" if c: "c \<in> set (committed st)" for c
  proof (cases "message_of tn c \<in> set (published st)")
    case False
    with inv c obtain r where r: "r \<in> set (tbl st)" "message_of tn r = message_of tn c" "SentAt r = None"
      by (auto simp: oinv_def events_inv_def)
    have "ID r \<in> ID ` set (tbl ?st)"
      using keys_apply_round [OF assms] r(1) by (metis image_eqI list.set_map ostate.select_convs(1) ostate.surjective ostate.update_convs(1))
    then obtain r' where r': "r' \<in> set (apply_upd (upd R) (tbl st))" "ID r' = ID r" by auto
    from apply_upd_orig [OF inv R r'(1)] obtain s where s: "s \<in> set (tbl st)" "ID r' = ID s"
      "message_of tn r' = message_of tn s" "SentAt r' \<noteq> None \<longrightarrow> message_of tn s \<in> set (published st)" .
    from oinvD(1) [OF inv] r(1) s(1,2) r'(2) have "s = r" by (metis distinct_map inj_onD)
    with s r r'(1) False show ?thesis by auto
  qed blast
  with inv show ?thesis by (simp add: oinv_def events_inv_def)
qed

lemma oinv_apply:
  assumes "oinv tn st" and "R \<in> set (rounds st)" "r_id R = k"
  shows "oinv tn (st\<lparr>tbl := apply_upd (upd R) (tbl st), rounds := drop_round k (rounds st)\<rparr>)"
  using rows_inv_apply [OF assms(1,2)] rounds_inv_apply [OF assms] events_inv_apply [OF assms(1,2)]
  by (intro oinvI) (simp_all add: rows_inv_def events_inv_def)

lemma oinv_cleanup:
  assumes inv: "oinv tn st"
  shows "oinv tn (st\<lparr>tbl := cleanupOutbox keep n (tbl st)\<rparr>)" (is "oinv tn ?st")
proof (rule oinvI)
  have sub: "set (tbl ?st) \<subseteq> set (tbl st)" by (simp add: cleanupOutbox_def set_delete_where)
  have kept: "r \<in> set (tbl ?st)" if "r \<in> set (tbl st)" "SentAt r = None" for r
    using that by (simp add: cleanupOutbox_def delete_where_keeps ob_old_def)
  have "distinct (map ID (tbl ?st))"
    using oinvD(1) [OF inv] by (simp add: cleanupOutbox_def distinct_delete_where)
  with inv sub show "rows_inv tn ?st" by (auto simp: oinv_def rows_inv_def)
  show "rounds_inv tn ?st"
    using inv kept by (auto simp: oinv_def rounds_inv_def all_locked_def intro: round_ok_mono)
  show "events_inv tn ?st"
    unfolding events_inv_def
  proof (intro conjI ballI)
    fix c assume "c \<in> set (committed ?st)"
    then have "message_of tn c \<in> set (published st) \<or>
        (\<exists>r \<in> set (tbl st). message_of tn r = message_of tn c \<and> SentAt r = None)"
      using inv by (simp add: oinv_def events_inv_def)
    with kept show "message_of tn c \<in> set (published ?st) \<or>
        (\<exists>r \<in> set (tbl ?st). message_of tn r = message_of tn c \<and> SentAt r = None)" by auto
  qed (use inv in \<open>simp add: oinv_def events_inv_def\<close>)
qed

lemma oinv_step:
  assumes "oinv tn st"
  shows "oinv tn (ostep sv tn b e st)"
proof (cases e)
  case (Queue u t k y d)
  with assms show ?thesis by (simp add: oinv_queue del: ostep.simps)
next
  case (TxCommit i)
  with assms show ?thesis by (auto simp: oinv_commit split: option.split)
next
  case (TxRollback i)
  with assms show ?thesis by (simp add: oinv_rollback del: ostep.simps)
next
  case (RoundBegin k)
  with assms show ?thesis by (auto simp: oinv_begin)
next
  case (RoundTry k err taken)
  show ?thesis
  proof (cases "find_round k st")
    case (Some R)
    then have R: "R \<in> set (rounds st)" "r_id R = k" using find_round_in by blast+
    show ?thesis
    proof (cases "todo R")
      case (Cons row rws)
      from oinv_try [OF assms R Cons refl _ refl, of err "err = None \<or> taken"]
      show ?thesis by (simp add: RoundTry Some Cons)
    qed (simp add: RoundTry Some assms)
  qed (simp add: RoundTry assms)
next
  case (RoundCommit k)
  with assms show ?thesis by (auto split: option.split dest!: find_round_in intro: oinv_apply)
next
  case (RoundGone k applied)
  with assms show ?thesis by (auto split: option.split dest!: find_round_in intro: oinv_apply oinv_end)
next
  case (Cleanup keep)
  with assms show ?thesis by (simp add: oinv_cleanup)
next
  case (OTick d)
  with assms show ?thesis by (simp add: oinv_def rows_inv_def rounds_inv_def events_inv_def all_locked_def)
qed

lemma oinv_reachable: "oreachable sv tn b st \<Longrightarrow> oinv tn st"
proof (induction rule: oreachable.induct)
  case oinit
  then show ?case by (simp add: init_ostate_def oinv_def rows_inv_def rounds_inv_def events_inv_def all_locked_def)
qed (rule oinv_step)

section \<open>One round\<close>

definition row_tried :: "(outbox_row \<Rightarrow> string option) \<Rightarrow> (outbox_row \<Rightarrow> int) \<Rightarrow> outbox_row list \<Rightarrow> outbox_row \<Rightarrow> outbox_row" where
  "row_tried answer at rs r =
     (case find (\<lambda>x. ID x = ID r) rs of None \<Rightarrow> r | Some x \<Rightarrow> row_after (answer x) (at x) r)"

lemma relay_rows_ok:
  assumes "relay_rows answer at updated rs tb = (pub, Some tb')" and "distinct (map ID rs)"
  shows "pub = filter (\<lambda>r. answer r = None) rs \<and> tb' = map (row_tried answer at rs) tb"
  using assms
proof (induction rs arbitrary: tb pub)
  case Nil
  then show ?case by (simp add: row_tried_def)
next
  case (Cons row rs)
  let ?tb = "update_where (\<lambda>r. ID r = ID row) (row_after (answer row) (at row)) tb"
  obtain pub' where rest: "relay_rows answer at updated rs ?tb = (pub', Some tb')"
    and pub: "pub = (if answer row = None then [row] else []) @ pub'"
    using Cons.prems(1) by (auto simp: Let_def split: if_splits prod.splits)
  from Cons.IH [OF rest] Cons.prems(2)
  have "pub' = filter (\<lambda>r. answer r = None) rs" and tb': "tb' = map (row_tried answer at rs) ?tb" by simp_all
  moreover have "row_tried answer at rs (if ID r = ID row then row_after (answer row) (at row) r else r)
      = row_tried answer at (row # rs) r" for r
  proof (cases "ID r = ID row")
    case True
    have "find (\<lambda>x. ID x = ID row) rs = None"
      using Cons.prems(2) by (auto simp: find_None_iff image_iff)
    with True show ?thesis by (simp add: row_tried_def)
  qed (simp add: row_tried_def)
  ultimately show ?case by (simp add: pub update_where_def)
qed

lemma tried_row:
  assumes "distinct (map ID tb)" and "set rs \<subseteq> set tb" and "r \<in> set tb"
  shows "row_tried answer at rs r = (if r \<in> set rs then row_after (answer r) (at r) r else r)"
proof -
  have one: "x = r" if "x \<in> set rs" "ID x = ID r" for x
    using assms that by (meson distinct_map inj_onD subsetD)
  show ?thesis
  proof (cases "find (\<lambda>x. ID x = ID r) rs")
    case None
    then have "r \<notin> set rs" by (auto simp: find_None_iff)
    with None show ?thesis by (simp add: row_tried_def)
  next
    case (Some x)
    then have "x \<in> set rs" "ID x = ID r" by (auto simp: find_Some_iff)
    with one Some show ?thesis by (auto simp: row_tried_def)
  qed
qed

lemma ob_rows_first:
  assumes "distinct (map ID tb)" and "r \<in> set tb" "ob_due sv n r" "ID r \<notin> set skip" "r \<notin> set (ob_rows sv n skip b tb)"
  shows "length (ob_rows sv n skip b tb) = nat b \<and> (\<forall>s \<in> set (ob_rows sv n skip b tb). ID s < ID r)"
proof -
  have "length (ob_rows sv n skip b tb) = nat b \<and> (\<forall>s \<in> set (ob_rows sv n skip b tb). ID s \<le> ID r)"
    using assms(2-5) unfolding ob_rows_def by (intro select_where_first) simp_all
  moreover have "ID s \<noteq> ID r" if "s \<in> set (ob_rows sv n skip b tb)" for s
  proof -
    from that have "s \<in> set tb" by (auto simp: ob_rows_def dest!: in_select_where)
    with assms(1,2,5) that show ?thesis by (metis distinct_map inj_onD)
  qed
  ultimately show ?thesis by (meson order_le_imp_less_or_eq)
qed

text \<open>The first wait of a failed row is two seconds, and five minutes is the longest.\<close>

lemma row_after_first_wait: "Attempts r = 0 \<Longrightarrow> NextAttemptAt (row_after (Some e) now r) = now + 2000"
  by (simp add: row_after_def ob_backoff_def push_bit_eq_mult)

lemma ob_backoff_cap: "ob_backoff n \<le> 300000"
  by (simp add: ob_backoff_def Let_def)

section \<open>A round is a run of steps\<close>

lemma apply_upd_cons:
  assumes "distinct (map ID T)" and "row \<in> set T" and "ID row \<notin> fst ` set us"
    and ids: "\<forall>u \<in> set us. ID (snd u) = fst u"
  shows "apply_upd ((ID row, row_after e t row) # us) T
    = update_where (\<lambda>r. ID r = ID row) (row_after e t) (apply_upd us T)"
proof -
  have "(case map_of ((ID row, row_after e t row) # us) (ID r) of None \<Rightarrow> r | Some x \<Rightarrow> x)
      = (let x = (case map_of us (ID r) of None \<Rightarrow> r | Some x \<Rightarrow> x) in if ID x = ID row then row_after e t x else x)"
    if r: "r \<in> set T" for r
  proof (cases "ID r = ID row")
    case True
    with assms(1,2) r have "r = row" by (auto simp: distinct_map dest: inj_onD)
    moreover have "map_of us (ID row) = None" using assms(3) by (simp add: map_of_eq_None_iff)
    ultimately show ?thesis by simp
  next
    case False
    show ?thesis
    proof (cases "map_of us (ID r)")
      case (Some x)
      with ids have "ID x = ID r" by (auto dest!: map_of_SomeD)
      with False Some show ?thesis by simp
    qed (use False in simp)
  qed
  then show ?thesis by (simp add: apply_upd_def update_where_def Let_def)
qed

text \<open>A state in the middle of round \<open>k\<close>, which is the latest one.\<close>

definition in_round ::
  "nat \<Rightarrow> outbox_row list \<Rightarrow> (int \<times> outbox_row) list \<Rightarrow> oround list \<Rightarrow> message list \<Rightarrow> int \<Rightarrow> ostate \<Rightarrow> ostate" where
  "in_round k rows us Rs ms t st
    = st\<lparr>rounds := \<lparr>r_id = k, todo = rows, upd = us\<rparr> # Rs, published := ms, onow := t\<rparr>"

lemma orun_append: "orun sv tn b (es @ fs) st = orun sv tn b fs (orun sv tn b es st)"
  by (simp add: orun_def)

lemma try_in_round:
  assumes "k \<notin> r_id ` set Rs" and "t \<le> t'"
  shows "orun sv tn b [OTick (nat (t' - t)), RoundTry k err False] (in_round k (row # rows) us Rs ms t st)
    = in_round k rows ((ID row, row_after err t' row) # us) Rs
        (ms @ (if err = None then [message_of tn row] else [])) t' st"
proof -
  have "map (\<lambda>Q. if r_id Q = k then Q\<lparr>todo := rows, upd := us'\<rparr> else Q) Rs = Rs" for us'
    using assms(1) by (intro map_idI) auto
  with assms(2) show ?thesis by (simp add: orun_def in_round_def find_round_def)
qed

lemma relay_rows_steps:
  assumes "relay_rows answer at updated rows (apply_upd us T) = (pub, res)"
    and "distinct (map ID T)" and "set rows \<subseteq> set T" and "distinct (map ID rows)"
    and "ID ` set rows \<inter> fst ` set us = {}" and "\<forall>u \<in> set us. ID (snd u) = fst u"
    and k: "k \<notin> r_id ` set Rs" and "sorted (t # map at rows)"
  shows "\<exists>es rest us' t'. orun sv tn b es (in_round k rows us Rs ms t st)
      = in_round k rest us' Rs (ms @ map (message_of tn) pub) t' st \<and>
    (\<forall>T'. res = Some T' \<longrightarrow> rest = [] \<and> apply_upd us' T = T')"
  using assms
proof (induction rows arbitrary: us pub ms t)
  case Nil
  then show ?case
    by (intro exI [where x = "[]"] exI [where x = us] exI [where x = t]) (auto simp: orun_def)
next
  case (Cons row rows)
  let ?us = "(ID row, row_after (answer row) (at row) row) # us"
  let ?ms = "ms @ (if answer row = None then [message_of tn row] else [])"
  let ?tries = "[OTick (nat (at row - t)), RoundTry k (answer row) False]"
  have one: "orun sv tn b ?tries (in_round k (row # rows) us Rs ms t st) = in_round k rows ?us Rs ?ms (at row) st"
    using Cons.prems(8) by (intro try_in_round [OF k]) simp
  show ?case
  proof (cases "updated row")
    case False
    with Cons.prems(1) have "pub = (if answer row = None then [row] else [])" "res = None"
      by (auto simp: Let_def)
    with one show ?thesis
      by (intro exI [where x = ?tries] exI [where x = rows] exI [where x = ?us] exI [where x = "at row"]) auto
  next
    case True
    have upd: "update_where (\<lambda>r. ID r = ID row) (row_after (answer row) (at row)) (apply_upd us T) = apply_upd ?us T"
      using Cons.prems by (intro apply_upd_cons [symmetric]) auto
    obtain pub' where rest: "relay_rows answer at updated rows (apply_upd ?us T) = (pub', res)"
      and pub: "pub = (if answer row = None then [row] else []) @ pub'"
      using Cons.prems(1) True upd by (auto simp: Let_def split: prod.splits)
    obtain es rest' us' t' where es: "orun sv tn b es (in_round k rows ?us Rs ?ms (at row) st)
        = in_round k rest' us' Rs (?ms @ map (message_of tn) pub') t' st"
      and fin: "\<forall>T'. res = Some T' \<longrightarrow> rest' = [] \<and> apply_upd us' T = T'"
      using Cons.IH [OF rest Cons.prems(2) _ _ _ _ k, of "at row" ?ms] Cons.prems by auto
    have ms: "?ms @ map (message_of tn) pub' = ms @ map (message_of tn) pub" by (simp add: pub)
    have "orun sv tn b (?tries @ es) (in_round k (row # rows) us Rs ms t st)
        = in_round k rest' us' Rs (ms @ map (message_of tn) pub) t' st"
      unfolding orun_append one es ms by (rule refl)
    with fin show ?thesis by blast
  qed
qed

lemma begin_in_round:
  assumes "k \<notin> r_id ` set (rounds st)"
  shows "orun sv tn b [RoundBegin k] st
    = in_round k (ob_rows sv (onow st) (all_locked st) b (tbl st)) [] (rounds st) (published st) (onow st) st"
  using assms by (simp add: orun_def in_round_def)

lemma drop_in_round: "k \<notin> r_id ` set Rs \<Longrightarrow> drop_round k (\<lparr>r_id = k, todo = rows, upd = us\<rparr> # Rs) = Rs"
  by (simp add: drop_round_def filter_id_conv) blast

lemma commit_in_round:
  assumes "k \<notin> r_id ` set Rs"
  shows "orun sv tn b [RoundCommit k] (in_round k [] us Rs ms t st)
    = st\<lparr>tbl := apply_upd us (tbl st), rounds := Rs, published := ms, onow := t\<rparr>"
  using drop_in_round [OF assms] by (simp add: orun_def in_round_def find_round_def)

lemma gone_in_round:
  assumes "k \<notin> r_id ` set Rs"
  shows "orun sv tn b [RoundGone k False] (in_round k rows us Rs ms t st)
    = st\<lparr>rounds := Rs, published := ms, onow := t\<rparr>"
  using drop_in_round [OF assms] by (simp add: orun_def in_round_def find_round_def)

section \<open>Properties\<close>

text \<open>
  C19. The outbox loses nothing and makes nothing up. In every state the service can reach,
  with any number of relay rounds interleaved, rolled back, crashed in the middle or with a
  commit whose answer was lost: the event of every committed transaction is in Kafka or
  still waits unsent in the table; everything in Kafka belongs to a committed transaction; a
  row marked sent is in Kafka; and no two rounds hold the same row.
\<close>

theorem outbox_delivers_committed:
  assumes "oreachable sv tn b st"
  shows "(\<forall>c \<in> set (committed st). message_of tn c \<in> set (published st) \<or>
       (\<exists>r \<in> set (tbl st). message_of tn r = message_of tn c \<and> SentAt r = None)) \<and>
     (\<forall>m \<in> set (published st). m \<in> message_of tn ` set (committed st)) \<and>
     (\<forall>r \<in> set (tbl st). SentAt r \<noteq> None \<longrightarrow> message_of tn r \<in> set (published st)) \<and>
     distinct (all_locked st)"
  using oinv_reachable [OF assms] by (simp add: oinv_def events_inv_def rows_inv_def rounds_inv_def)

theorem outbox_delivers_committed_witness:
  "let st = orun ''svc'' ''t1'' 10
     [Queue ''e1'' ''bets'' ''p7'' ''bet.placed'' ''{}'', Queue ''e2'' ''bets'' ''p8'' ''bet.placed'' ''{}'',
      TxCommit 1, TxRollback 2, RoundBegin 0, RoundTry 0 None True, RoundGone 0 False] init_ostate
   in distinct (all_locked st)"
  using outbox_delivers_committed [OF orun_reachable [OF oreachable.oinit]] by (simp add: Let_def)

text \<open>
  One round of the relay. When rows could be read, it takes the due, unlocked, unsent
  rows of its own service in the order of their ids, at most a batch (a due row it leaves
  out is behind a full batch of smaller ids). A round that reports no error published
  exactly the rows Kafka accepted, marked those sent, gave each other row one more attempt,
  the error and a time to wait, and changed no other row. A round whose transaction did not
  take effect leaves the table as it was.
\<close>

lemma relayOnce_round:
  assumes "distinct (map ID tb)"
    and "relayOnce sv True commit answer at updated now skip batch tb = ((n, failed), pub, tb')"
    and "fst commit \<longrightarrow> snd commit"
    and "rs = ob_rows sv now skip batch tb"
  shows "n = length rs \<and> sorted (map ID rs) \<and> list_all (ob_due sv now) rs \<and>
    (\<forall>r. r \<in> set tb \<and> ob_due sv now r \<and> ID r \<notin> set skip \<and> r \<notin> set rs \<longrightarrow>
       n = nat batch \<and> list_all (\<lambda>s. ID s < ID r) rs) \<and>
    (\<not> failed \<longrightarrow> pub = filter (\<lambda>r. answer r = None) rs \<and>
       tb' = map (\<lambda>r. if r \<in> set rs then row_after (answer r) (at r) r else r) tb) \<and>
    (\<not> snd commit \<longrightarrow> tb' = tb)"
proof -
  obtain p res where run: "relay_rows answer at updated rs tb = (p, res)" by fastforce
  have sub: "set rs \<subseteq> set tb" and due: "list_all (ob_due sv now) rs"
    using assms(4) by (auto simp: ob_rows_def list_all_iff dest!: in_select_where)
  have dist: "distinct (map ID rs)" using assms(1,4) by (simp add: ob_rows_def distinct_select_where)
  have res: "n = length rs" "pub = p" "failed = (res = None \<or> \<not> fst commit)"
    "tb' = (case res of None \<Rightarrow> tb | Some t \<Rightarrow> if snd commit then t else tb)"
    using assms(2) run unfolding relayOnce_def assms(4) [symmetric] by (auto simp: Let_def split: option.splits)
  have "pub = filter (\<lambda>r. answer r = None) rs \<and>
      tb' = map (\<lambda>r. if r \<in> set rs then row_after (answer r) (at r) r else r) tb" if "\<not> failed"
  proof -
    from that res(3,4) obtain t where t: "res = Some t" "tb' = t" using assms(3) by auto
    with relay_rows_ok [OF run [unfolded t] dist] res(2) tried_row [OF assms(1) sub] show ?thesis by simp
  qed
  moreover have "sorted (map ID rs)" using assms(4) by (simp add: ob_rows_def sorted_select_where)
  ultimately show ?thesis
    using res(1,4) due ob_rows_first [OF assms(1), of _ sv now skip batch] assms(4)
    by (auto simp: list_all_iff split: option.split)
qed

definition demo_row :: "int \<Rightarrow> string \<Rightarrow> outbox_row" where
  "demo_row i k = \<lparr>ID = i, Service = ''svc'', EventID = ''e'' @ show_int i, Topic = ''bets'', Key = k,
     EventType = ''bet.placed'', Payload = ''{}'', Trace = [], CreatedAt = 0, SentAt = None, Attempts = 0,
     NextAttemptAt = 0, LastError = []\<rparr>"

theorem relayOnce_round_witness:
  "let tb = [demo_row 3 ''p8'', demo_row 1 ''p7'']
   in snd (snd (relayOnce ''svc'' True (True, True) (\<lambda>r. if ID r = 1 then Some ''timeout'' else None) (\<lambda>_. 5)
        (\<lambda>_. True) 5 [] 10 tb))
      = [row_after None 5 (demo_row 3 ''p8''), row_after (Some ''timeout'') 5 (demo_row 1 ''p7'')]"
proof -
  let ?tb = "[demo_row 3 ''p8'', demo_row 1 ''p7'']" and ?a = "\<lambda>r. if ID r = 1 then Some ''timeout'' else None"
  let ?run = "relayOnce ''svc'' True (True, True) ?a (\<lambda>_. 5) (\<lambda>_. True) 5 [] 10 ?tb"
  have rs: "ob_rows ''svc'' 5 [] 10 ?tb = [demo_row 1 ''p7'', demo_row 3 ''p8'']"
    by (simp add: ob_rows_def select_where_def ob_due_def demo_row_def)
  obtain n failed pub tb' where run: "?run = ((n, failed), pub, tb')" by (metis surj_pair)
  have "\<not> failed"
    using run unfolding relayOnce_def rs by (auto simp: update_where_def)
  moreover have "distinct (map ID ?tb)" by (simp add: demo_row_def)
  ultimately have "tb' = map (\<lambda>r. if r \<in> set (ob_rows ''svc'' 5 [] 10 ?tb) then row_after (?a r) 5 r else r) ?tb"
    using relayOnce_round [OF _ run _ refl] by simp
  then show ?thesis unfolding rs Let_def run by (simp add: demo_row_def)
qed

text \<open>
  The order within a key is not kept. Two events of one key are queued and committed in
  order; Kafka refuses the first once, so it waits, and the second is published before it:
  Kafka has the second event first. (\<^verbatim>\<open>outbox.go\<close> promises order per key within a topic.)
\<close>

lemma outbox_overtakes:
  "let st = orun ''svc'' ''t1'' 100
     [Queue ''e1'' ''bets'' ''p7'' ''bet.placed'' ''{}'', TxCommit 1,
      Queue ''e2'' ''bets'' ''p7'' ''bet.settled'' ''{}'', TxCommit 2,
      RoundBegin 0, RoundTry 0 (Some ''timeout'') False, RoundTry 0 None True, RoundCommit 0,
      OTick 2000, RoundBegin 1, RoundTry 1 None True, RoundCommit 1] init_ostate
   in map (\<lambda>r. (ID r, Key r, EventID r)) (tbl st) = [(1, ''p7'', ''e1''), (2, ''p7'', ''e2'')] \<and>
      list_all (\<lambda>r. SentAt r \<noteq> None) (tbl st) \<and>
      map (\<lambda>m. (m_topic m, m_key m, e_id (m_value m))) (published st) = [(''bets'', ''p7'', ''e2''), (''bets'', ''p7'', ''e1'')]"
  by code_simp

text \<open>
  C20. One round of the relay is a run of the service's steps. In any state that can be
  reached, whatever rows other rounds hold, whatever Kafka answers, whichever statement
  fails and whatever became of the COMMIT, there are steps of the service that put the table
  where \<open>relayOnce\<close> puts it and give Kafka the same messages in the same order, and change
  nothing else. So what holds of every run of steps holds of rounds.
\<close>

theorem relay_refines_steps:
  assumes reach: "oreachable sv tn b st" and k: "k \<notin> r_id ` set (rounds st)"
    and times: "sorted (onow st # map at (ob_rows sv (onow st) (all_locked st) b (tbl st)))"
    and round: "relayOnce sv found commit answer at updated (onow st) (all_locked st) b (tbl st) = (r, pub, T')"
  shows "\<exists>es t. orun sv tn b es st
    = st\<lparr>tbl := T', published := published st @ map (message_of tn) pub, onow := t\<rparr>"
proof (cases found)
  case False
  with round show ?thesis by (intro exI [where x = "[]"] exI [where x = "onow st"]) (auto simp: relayOnce_def orun_def)
next
  case True
  let ?rows = "ob_rows sv (onow st) (all_locked st) b (tbl st)"
  obtain res where rr: "relay_rows answer at updated ?rows (apply_upd [] (tbl st)) = (pub, res)"
    and T': "T' = (case res of None \<Rightarrow> tbl st | Some x \<Rightarrow> if snd commit then x else tbl st)"
    using round True by (auto simp: relayOnce_def Let_def apply_upd_def split: prod.splits option.splits)
  have ids: "distinct (map ID (tbl st))"
    using oinv_reachable [OF reach] by (simp add: oinv_def rows_inv_def)
  have rows: "set ?rows \<subseteq> set (tbl st)" "distinct (map ID ?rows)"
    using distinct_select_where [OF ids] by (auto simp: ob_rows_def dest: in_select_where)
  obtain es rest us t where es: "orun sv tn b es (in_round k ?rows [] (rounds st) (published st) (onow st) st)
      = in_round k rest us (rounds st) (published st @ map (message_of tn) pub) t st"
    and fin: "\<forall>x. res = Some x \<longrightarrow> rest = [] \<and> apply_upd us (tbl st) = x"
    using relay_rows_steps [OF rr ids rows _ _ k times, of sv tn b "published st" st] by auto
  let ?last = "if res \<noteq> None \<and> snd commit then RoundCommit k else RoundGone k False"
  have "orun sv tn b ([RoundBegin k] @ es @ [?last]) st
      = orun sv tn b [?last] (in_round k rest us (rounds st) (published st @ map (message_of tn) pub) t st)"
    by (simp only: orun_append begin_in_round [OF k] es)
  also have "\<dots> = st\<lparr>tbl := T', published := published st @ map (message_of tn) pub, onow := t\<rparr>"
    using fin T' commit_in_round [OF k] gone_in_round [OF k] by (auto split: option.splits)
  finally show ?thesis by blast
qed

theorem relay_refines_steps_witness:
  "\<exists>es. map SentAt (tbl (orun ''pay'' ''acme'' 100 es init_ostate)) = [Some 5] \<and>
     map m_topic (published (orun ''pay'' ''acme'' 100 es init_ostate)) = [''orders'']"
proof -
  define row where "row = \<lparr>ID = 1, Service = ''pay'', EventID = ''u1'', Topic = ''orders'', Key = ''7'',
    EventType = ''order.paid'', Payload = ''{}'', Trace = [], CreatedAt = 0, SentAt = None, Attempts = 0,
    NextAttemptAt = 0, LastError = []\<rparr>"
  let ?es = "[Queue ''u1'' ''orders'' ''7'' ''order.paid'' ''{}'', TxCommit 1]"
  define st where "st = orun ''pay'' ''acme'' 100 ?es init_ostate"
  have st: "rounds st = []" "onow st = 0" "published st = []" "all_locked st = []" "tbl st = [row]"
    by (simp_all add: st_def orun_def init_ostate_def PublishTx_def all_locked_def row_def)
  have rows: "ob_rows ''pay'' 0 [] 100 [row] = [row]"
    by (simp add: ob_rows_def select_where_def ob_due_def row_def)
  have round: "relayOnce ''pay'' True (True, True) (\<lambda>_. None) (\<lambda>_. 5) (\<lambda>_. True) (onow st) (all_locked st) 100 (tbl st)
      = ((1, False), [row], [row_after None 5 row])"
    by (simp add: relayOnce_def st rows update_where_def)
  have "oreachable ''pay'' ''acme'' 100 st"
    unfolding st_def by (rule orun_reachable [OF oinit])
  from relay_refines_steps [OF this _ _ round]
  obtain es t where "orun ''pay'' ''acme'' 100 es st
      = st\<lparr>tbl := [row_after None 5 row], published := [message_of ''acme'' row], onow := t\<rparr>"
    by (auto simp: st rows)
  then have "orun ''pay'' ''acme'' 100 (?es @ es) init_ostate
      = st\<lparr>tbl := [row_after None 5 row], published := [message_of ''acme'' row], onow := t\<rparr>"
    by (simp only: orun_append st_def)
  then show ?thesis
    by (intro exI [where x = "?es @ es"]) (simp add: row_after_def message_of_def row_def)
qed

end
