(* ===== verification/IdlDeps.thy ===== *)
theory IdlDeps
  imports Config "HOL-Library.AList"
begin

text \<open>
  IDL generations and the gate a service waits at before it listens
  (\<^verbatim>\<open>kitexx/idldeps.go\<close>): the file \<^verbatim>\<open>idl.deps\<close>, what an instance registers of it,
  what the gate asks of the instances of the services it calls, and the wait. Whole
  releases, whose services start when their gates open, are a step relation (\<open>fleet_step\<close>).
\<close>

section \<open>The file\<close>

record idl_deps =
  d_Commit :: string
  d_Self :: string
  d_SelfGen :: int
  d_Deps :: "(string \<times> int) list"   \<comment> \<open>by name, each name once\<close>

definition no_deps :: idl_deps where
  "no_deps = \<lparr>d_Commit = [], d_Self = [], d_SelfGen = 0, d_Deps = []\<rparr>"

definition Empty :: "idl_deps \<Rightarrow> bool" where "Empty d \<longleftrightarrow> d_Self d = []"

datatype deps_error = NotAGeneration nat string string | SecondSelf nat string | BadLine nat string | DepWithoutSelf

definition deps_line :: "nat \<Rightarrow> string \<Rightarrow> idl_deps \<Rightarrow> deps_error + idl_deps" where
  "deps_line n raw d =
     (let line = trim_space raw in
      if line = [] \<or> has_prefix line ''#'' then Inr d
      else case go_fields line of
          [k, commit] \<Rightarrow> if k = ''idl'' then Inr (d\<lparr>d_Commit := commit\<rparr>) else Inl (BadLine n line)
        | [k, name, g] \<Rightarrow>
            if k \<noteq> ''self'' \<and> k \<noteq> ''dep'' then Inl (BadLine n line)
            else (case parse_int64 g of
                None \<Rightarrow> Inl (NotAGeneration n g line)
              | Some gen \<Rightarrow>
                  if gen < 0 then Inl (NotAGeneration n g line)
                  else if k = ''self'' then
                    (if d_Self d \<noteq> [] then Inl (SecondSelf n line) else Inr (d\<lparr>d_Self := name, d_SelfGen := gen\<rparr>))
                  else Inr (d\<lparr>d_Deps := AList.update name gen (d_Deps d)\<rparr>))
        | _ \<Rightarrow> Inl (BadLine n line))"

fun deps_lines :: "nat \<Rightarrow> string list \<Rightarrow> idl_deps \<Rightarrow> deps_error + idl_deps" where
  "deps_lines n [] d = Inr d"
| "deps_lines n (l # ls) d = (case deps_line n l d of Inl e \<Rightarrow> Inl e | Inr d' \<Rightarrow> deps_lines (Suc n) ls d')"

text \<open>
  \<^verbatim>\<open>bufio.Scanner\<close>: lines up to one that does not fit its buffer of 64 KiB, where it stops
  (its error is not looked at).
\<close>

definition scan_lines :: "string \<Rightarrow> string list" where
  "scan_lines text = takeWhile (\<lambda>l. int (length l) < 65536) (split_on (CHR 0x0A) text)"

definition ParseIDLDeps :: "string \<Rightarrow> deps_error + idl_deps" where
  "ParseIDLDeps text =
     (case deps_lines 1 (scan_lines text) no_deps of
        Inl e \<Rightarrow> Inl e
      | Inr d \<Rightarrow> if d_Self d = [] \<and> d_Deps d \<noteq> [] then Inl DepWithoutSelf else Inr d)"

section \<open>What an instance registers\<close>

definition depNames :: "idl_deps \<Rightarrow> string list" where
  "depNames d = sort (map fst (d_Deps d))"

definition Metadata :: "idl_deps \<Rightarrow> (string \<times> string) list" where
  "Metadata d =
     (if Empty d then []
      else (''idl.gen'', show_int (d_SelfGen d)) #
        (if depNames d \<noteq> [] then [(''idl.deps'', go_join '','' (depNames d))] else []))"

definition RegistrationMetadata :: "idl_deps \<Rightarrow> (string \<Rightarrow> string option) \<Rightarrow> string \<Rightarrow> string option" where
  "RegistrationMetadata d base = (if Metadata d = [] then base else base ++ map_of (Metadata d))"

section \<open>The gate\<close>

record instance_of =
  in_Addr :: string
  in_Metadata :: "string \<Rightarrow> string option"

datatype gate_reason = LookupError string string | NoInstance string | OldGen string string int int
datatype gate_warning = Cycle string | NoGen string string | BadGen string string string

definition containsName :: "string \<Rightarrow> string \<Rightarrow> bool" where
  "containsName l name \<longleftrightarrow> name \<in> set (map trim_space (split_on (CHR '','') l))"

definition calls_back :: "string \<Rightarrow> instance_of \<Rightarrow> bool" where
  "calls_back self i \<longleftrightarrow>
     (case in_Metadata i ''idl.deps'' of None \<Rightarrow> False | Some theirs \<Rightarrow> theirs \<noteq> [] \<and> self \<noteq> [] \<and> containsName theirs self)"

fun judge :: "string \<Rightarrow> string \<Rightarrow> int \<Rightarrow> instance_of list \<Rightarrow> gate_reason list \<times> gate_warning list" where
  "judge self name need [] = ([], [])"
| "judge self name need (i # r) =
     (if calls_back self i then ([], [Cycle name])
      else case in_Metadata i ''idl.gen'' of
          None \<Rightarrow> (case judge self name need r of (u, ws) \<Rightarrow> (u, NoGen name (in_Addr i) # ws))
        | Some raw \<Rightarrow>
            (case parse_int64 raw of
               None \<Rightarrow> (case judge self name need r of (u, ws) \<Rightarrow> (u, BadGen name (in_Addr i) raw # ws))
             | Some gen \<Rightarrow>
                 if gen < need then (case judge self name need r of (u, ws) \<Rightarrow> (OldGen name (in_Addr i) gen need # u, ws))
                 else judge self name need r))"

type_synonym 'w lookup = "string \<Rightarrow> 'w \<Rightarrow> (string + instance_of list) \<times> 'w"

fun unmet_from :: "idl_deps \<Rightarrow> 'w lookup \<Rightarrow> string list \<Rightarrow> 'w \<Rightarrow> (gate_reason list \<times> gate_warning list) \<times> 'w" where
  "unmet_from d lookup [] w = (([], []), w)"
| "unmet_from d lookup (name # names) w =
     (case lookup name w of
        (r, w1) \<Rightarrow>
          (case unmet_from d lookup names w1 of
             ((u, ws), w2) \<Rightarrow>
               (case r of
                  Inl e \<Rightarrow> ((LookupError name e # u, ws), w2)
                | Inr l \<Rightarrow>
                    if l = [] then ((NoInstance name # u, ws), w2)
                    else (case judge (d_Self d) name (the (map_of (d_Deps d) name)) l of (u', ws') \<Rightarrow> ((u' @ u, ws' @ ws), w2)))))"

definition unmet :: "idl_deps \<Rightarrow> 'w lookup \<Rightarrow> 'w \<Rightarrow> (gate_reason list \<times> gate_warning list) \<times> 'w" where
  "unmet d lookup w = unmet_from d lookup (depNames d) w"

text \<open>The wait, in milliseconds: tries every two seconds (\<^verbatim>\<open>depsGatePoll\<close>) until after the deadline.\<close>

definition depsGatePoll :: int where "depsGatePoll = 2000"
definition depsGateTimeout :: int where "depsGateTimeout = 600000"

function wait_deps :: "idl_deps \<Rightarrow> 'w lookup \<Rightarrow> int \<Rightarrow> int \<Rightarrow> 'w \<Rightarrow> (gate_reason list + unit) \<times> 'w" where
  "wait_deps d lookup deadline now w =
     (case unmet d lookup w of
        ((u, ws), w1) \<Rightarrow>
          if u = [] then (Inr (), w1)
          else if now > deadline then (Inl u, w1)
          else wait_deps d lookup deadline (now + depsGatePoll) w1)"
  by pat_completeness auto

termination
  by (relation "measure (\<lambda>(d, lookup, deadline, now, w). nat (deadline + 1 - now))") (auto simp: depsGatePoll_def)

declare wait_deps.simps [simp del]

datatype gate_error = NacosError string | StillWaiting "gate_reason list"

definition WaitIDLDeps ::
  "bool \<Rightarrow> env \<Rightarrow> idl_deps \<Rightarrow> string + 'w lookup \<Rightarrow> int \<Rightarrow> 'w \<Rightarrow> (gate_error + unit) \<times> 'w" where
  "WaitIDLDeps registry_disabled env d nacos now w =
     (if registry_disabled \<or> IsLocal env \<or> to_lower (env ''DEPS_GATE'') = ''off'' \<or> Empty d \<or> d_Deps d = [] then (Inr (), w)
      else case nacos of
          Inl e \<Rightarrow> (Inl (NacosError e), w)
        | Inr lookup \<Rightarrow>
            (case wait_deps d lookup (now + depsGateTimeout) now w of
               (Inl u, w') \<Rightarrow> (Inl (StillWaiting u), w')
             | (Inr x, w') \<Rightarrow> (Inr x, w')))"

section \<open>Lemmas\<close>

lemma containsName_join:
  assumes "xs \<noteq> []" and "\<forall>x \<in> set xs. CHR '','' \<notin> set x \<and> (\<forall>c \<in> set x. \<not> is_space c)"
  shows "containsName (go_join '','' xs) name \<longleftrightarrow> name \<in> set xs"
proof -
  have "map trim_space xs = xs" using assms(2) by (intro map_idI) (simp add: trim_space_no_space)
  with assms show ?thesis by (simp add: containsName_def split_on_go_join)
qed

text \<open>When the instances of one service keep nobody waiting.\<close>

definition old_instance :: "int \<Rightarrow> instance_of \<Rightarrow> bool" where
  "old_instance need i \<longleftrightarrow> (\<exists>raw gen. in_Metadata i ''idl.gen'' = Some raw \<and> parse_int64 raw = Some gen \<and> gen < need)"

lemma judge_unmet:
  "fst (judge self name need l) = [] \<longleftrightarrow> (\<forall>i \<in> set (takeWhile (\<lambda>i. \<not> calls_back self i) l). \<not> old_instance need i)"
  by (induction l) (auto simp: old_instance_def split: option.splits prod.splits)

definition service_met :: "string \<Rightarrow> int \<Rightarrow> string + instance_of list \<Rightarrow> bool" where
  "service_met self need r \<longleftrightarrow> (\<exists>l. r = Inr l \<and> l \<noteq> [] \<and>
     (\<forall>i \<in> set (takeWhile (\<lambda>i. \<not> calls_back self i) l). \<not> old_instance need i))"

text \<open>A registry whose answers depend on the state and leave it alone.\<close>

definition registry :: "('w \<Rightarrow> string \<Rightarrow> string + instance_of list) \<Rightarrow> 'w lookup" where
  "registry f name w = (f w name, w)"

lemma registry_app: "registry f name w = (f w name, w)"
  by (simp add: registry_def)

lemma unmet_registry:
  "unmet_from d (registry f) names w = (r, w') \<Longrightarrow>
   w' = w \<and> (fst r = [] \<longleftrightarrow> (\<forall>n \<in> set names. service_met (d_Self d) (the (map_of (d_Deps d) n)) (f w n)))"
proof (induction names arbitrary: r w')
  case (Cons n ns)
  obtain u ws w1 where r1: "unmet_from d (registry f) ns w = ((u, ws), w1)" by (metis surj_pair)
  from Cons.IH [OF r1] have ih: "w1 = w"
    "u = [] \<longleftrightarrow> (\<forall>n \<in> set ns. service_met (d_Self d) (the (map_of (d_Deps d) n)) (f w n))" by simp_all
  show ?case
  proof (cases "f w n")
    case (Inl e)
    with Cons.prems r1 [unfolded registry_app [abs_def]] ih show ?thesis by (auto simp: registry_app [abs_def] service_met_def)
  next
    case (Inr l)
    obtain u' ws' where j: "judge (d_Self d) n (the (map_of (d_Deps d) n)) l = (u', ws')" by fastforce
    have "service_met (d_Self d) (the (map_of (d_Deps d) n)) (f w n) \<longleftrightarrow> l \<noteq> [] \<and> u' = []"
      using Inr judge_unmet [of "d_Self d" n "the (map_of (d_Deps d) n)" l] j by (simp add: service_met_def)
    with Cons.prems r1 [unfolded registry_app [abs_def]] ih Inr j show ?thesis by (auto simp: registry_app [abs_def] split: if_splits)
  qed
qed simp

definition gate_open :: "idl_deps \<Rightarrow> (string \<Rightarrow> string + instance_of list) \<Rightarrow> bool" where
  "gate_open d f \<longleftrightarrow> (\<forall>(n, need) \<in> set (d_Deps d). service_met (d_Self d) need (f n))"

lemma unmet_gate:
  assumes "distinct (map fst (d_Deps d))"
  shows "fst (fst (unmet d (registry f) w)) = [] \<longleftrightarrow> gate_open d (f w)"
proof -
  obtain r w' where r: "unmet d (registry f) w = (r, w')" by fastforce
  from unmet_registry [OF this [unfolded unmet_def]]
  have "fst r = [] \<longleftrightarrow> (\<forall>n \<in> fst ` set (d_Deps d). service_met (d_Self d) (the (map_of (d_Deps d) n)) (f w n))"
    by (simp add: depNames_def)
  also have "\<dots> \<longleftrightarrow> gate_open d (f w)"
    using assms by (force simp: gate_open_def map_of_is_SomeI)
  finally show ?thesis using r by simp
qed

section \<open>A file and its contents\<close>

text \<open>The file as \<^verbatim>\<open>make gen\<close> writes it: the commit, the service, and the services it calls.\<close>

definition plain_word :: "string \<Rightarrow> bool" where
  "plain_word x \<longleftrightarrow> x \<noteq> [] \<and> (\<forall>c \<in> set x. \<not> is_space c)"

definition file_line :: "string list \<Rightarrow> string" where "file_line = go_join '' ''"

definition print_lines :: "idl_deps \<Rightarrow> string list" where
  "print_lines d = file_line [''idl'', d_Commit d] # file_line [''self'', d_Self d, show_int (d_SelfGen d)] #
     map (\<lambda>(n, g). file_line [''dep'', n, show_int g]) (d_Deps d)"

definition print_deps :: "idl_deps \<Rightarrow> string" where
  "print_deps d = go_join [CHR 0x0A] (print_lines d)"

definition generation :: "int \<Rightarrow> bool" where "generation g \<longleftrightarrow> 0 \<le> g \<and> g < 2 ^ 63"

definition well_formed :: "idl_deps \<Rightarrow> bool" where
  "well_formed d \<longleftrightarrow> plain_word (d_Commit d) \<and> plain_word (d_Self d) \<and> generation (d_SelfGen d) \<and>
     distinct (map fst (d_Deps d)) \<and> (\<forall>(n, g) \<in> set (d_Deps d). plain_word n \<and> generation g) \<and>
     (\<forall>l \<in> set (print_lines d). length l < 65536)"

lemma trim_space_ends: "s \<noteq> [] \<Longrightarrow> \<not> is_space (hd s) \<Longrightarrow> \<not> is_space (last s) \<Longrightarrow> trim_space s = s"
proof -
  assume "s \<noteq> []" "\<not> is_space (hd s)" "\<not> is_space (last s)"
  moreover have "dropWhile is_space t = t" if "t \<noteq> []" "\<not> is_space (hd t)" for t using that by (cases t) auto
  ultimately show ?thesis by (simp add: trim_space_def hd_rev)
qed

lemma go_join_ends:
  "xs \<noteq> [] \<Longrightarrow> \<forall>x \<in> set xs. x \<noteq> [] \<Longrightarrow>
   go_join sep xs \<noteq> [] \<and> hd (go_join sep xs) = hd (hd xs) \<and> last (go_join sep xs) = last (last xs)"
  by (induction sep xs rule: go_join.induct) auto

lemma plain_number: "generation g \<Longrightarrow> plain_word (show_int g)"
  by (auto simp: plain_word_def show_int_def generation_def is_space_def digit_char_def dest!: set_show_nat)

lemma file_line_read:
  assumes "ws \<noteq> []" and plain: "\<forall>x \<in> set ws. plain_word x" and "hd (hd ws) \<noteq> CHR ''#''"
  shows "trim_space (file_line ws) = file_line ws" and "go_fields (file_line ws) = ws"
    and "\<not> has_prefix (file_line ws) ''#''" and "CHR 0x0A \<notin> set (file_line ws)" and "file_line ws \<noteq> []"
proof -
  have ne: "\<forall>x \<in> set ws. x \<noteq> []" using plain by (simp add: plain_word_def)
  note ends = go_join_ends [OF assms(1) ne, of "'' ''"]
  have "plain_word (hd ws)" "plain_word (last ws)" using plain assms(1) by simp_all
  then have "\<not> is_space (hd (file_line ws))" "\<not> is_space (last (file_line ws))"
    using ends by (simp_all add: file_line_def plain_word_def)
  with ends show "trim_space (file_line ws) = file_line ws" by (intro trim_space_ends) (simp_all add: file_line_def)
  show "go_fields (file_line ws) = ws"
    unfolding file_line_def using plain by (intro go_fields_join) (auto simp: plain_word_def)
  show "\<not> has_prefix (file_line ws) ''#''" "file_line ws \<noteq> []"
    using ends assms(3) by (cases "file_line ws"; simp add: file_line_def)+
  have "c \<noteq> CHR 0x0A" if "c \<in> set (file_line ws)" for c
  proof -
    from set_go_join [OF _ that [unfolded file_line_def]] consider "c = CHR '' ''" | x where "x \<in> set ws" "c \<in> set x" by auto
    then show ?thesis
    proof cases
      case 1
      then show ?thesis by simp
    next
      case 2
      with plain have "\<not> is_space c" by (simp add: plain_word_def)
      moreover have "is_space (CHR 0x0A)" by (simp add: is_space_def)
      ultimately show ?thesis by metis
    qed
  qed
  then show "CHR 0x0A \<notin> set (file_line ws)" by blast
qed

lemma plain_keywords: "plain_word ''idl''" "plain_word ''self''" "plain_word ''dep''"
  by (simp_all add: plain_word_def is_space_def)

lemma deps_line_idl: "plain_word c \<Longrightarrow> deps_line n (file_line [''idl'', c]) d = Inr (d\<lparr>d_Commit := c\<rparr>)"
  using file_line_read [of "[''idl'', c]"] plain_keywords by (simp add: deps_line_def)

lemma deps_line_self:
  "plain_word s \<Longrightarrow> generation g \<Longrightarrow> d_Self d = [] \<Longrightarrow>
   deps_line n (file_line [''self'', s, show_int g]) d = Inr (d\<lparr>d_Self := s, d_SelfGen := g\<rparr>)"
  using file_line_read [of "[''self'', s, show_int g]"] plain_keywords plain_number [of g]
  by (simp add: deps_line_def generation_def)

lemma deps_line_dep:
  "plain_word s \<Longrightarrow> generation g \<Longrightarrow>
   deps_line n (file_line [''dep'', s, show_int g]) d = Inr (d\<lparr>d_Deps := AList.update s g (d_Deps d)\<rparr>)"
  using file_line_read [of "[''dep'', s, show_int g]"] plain_keywords plain_number [of g]
  by (simp add: deps_line_def generation_def)

lemma update_new: "k \<notin> fst ` set l \<Longrightarrow> AList.update k v l = l @ [(k, v)]"
  by (induction l) auto

lemma deps_lines_deps:
  "\<forall>(s, g) \<in> set l. plain_word s \<and> generation g \<Longrightarrow> distinct (map fst (d_Deps d @ l)) \<Longrightarrow>
   deps_lines n (map (\<lambda>(s, g). file_line [''dep'', s, show_int g]) l) d = Inr (d\<lparr>d_Deps := d_Deps d @ l\<rparr>)"
proof (induction l arbitrary: n d)
  case (Cons p l)
  obtain s g where p: "p = (s, g)" by fastforce
  with Cons.prems have "AList.update s g (d_Deps d) = d_Deps d @ [(s, g)]" by (intro update_new) auto
  with Cons p show ?case by (simp add: deps_line_dep)
qed simp

lemma idl_deps_roundtrip: "well_formed d \<Longrightarrow> ParseIDLDeps (print_deps d) = Inr d"
proof -
  assume ok: "well_formed d"
  then have w: "plain_word (d_Commit d)" "plain_word (d_Self d)" "generation (d_SelfGen d)"
    "\<forall>(n, g) \<in> set (d_Deps d). plain_word n \<and> generation g" "distinct (map fst (d_Deps d))" by (auto simp: well_formed_def)
  have "\<forall>l \<in> set (print_lines d). CHR 0x0A \<notin> set l"
    using w file_line_read(4) [of "[_, _]"] file_line_read(4) [of "[_, _, _]"] plain_keywords plain_number
    by (auto simp: print_lines_def)
  then have "split_on (CHR 0x0A) (print_deps d) = print_lines d"
    unfolding print_deps_def by (intro split_on_go_join) (simp_all add: print_lines_def)
  moreover have "takeWhile (\<lambda>l. int (length l) < 65536) (print_lines d) = print_lines d"
    using ok by (auto simp: well_formed_def takeWhile_eq_all_conv)
  ultimately have "scan_lines (print_deps d) = print_lines d" by (simp add: scan_lines_def)
  with w show ?thesis
    by (simp add: ParseIDLDeps_def print_lines_def deps_line_idl deps_line_self deps_lines_deps no_deps_def plain_word_def)
qed

section \<open>A release\<close>

text \<open>
  The services of a release and the registry. A service registers when its gate is open: its
  new instance comes first and an old one at its address is gone. Any instance may leave.
\<close>

type_synonym fleet = "string \<Rightarrow> instance_of list"

definition new_instance :: "(string \<Rightarrow> idl_deps) \<Rightarrow> (string \<Rightarrow> string \<Rightarrow> string option) \<Rightarrow> string \<Rightarrow> instance_of" where
  "new_instance rel base s = \<lparr>in_Addr = s, in_Metadata = RegistrationMetadata (rel s) (base s)\<rparr>"

definition open_for :: "(string \<Rightarrow> idl_deps) \<Rightarrow> string \<Rightarrow> fleet \<Rightarrow> bool" where
  "open_for rel s fl \<longleftrightarrow> fst (fst (unmet (rel s) (registry (\<lambda>fl n. Inr (fl n))) fl)) = []"

inductive fleet_step :: "(string \<Rightarrow> idl_deps) \<Rightarrow> (string \<Rightarrow> string \<Rightarrow> string option) \<Rightarrow> fleet \<Rightarrow> fleet \<Rightarrow> bool" for rel base where
  start: "open_for rel s fl \<Longrightarrow>
    fleet_step rel base fl (fl(s := new_instance rel base s # removeAll (new_instance rel base s) (fl s)))"
| leave: "fleet_step rel base fl (fl(s := removeAll i (fl s)))"

abbreviation fleet_steps :: "(string \<Rightarrow> idl_deps) \<Rightarrow> (string \<Rightarrow> string \<Rightarrow> string option) \<Rightarrow> fleet \<Rightarrow> fleet \<Rightarrow> bool" where
  "fleet_steps rel base \<equiv> (fleet_step rel base)\<^sup>*\<^sup>*"

definition calls :: "(string \<Rightarrow> idl_deps) \<Rightarrow> (string \<times> string) set" where
  "calls rel = {(t, s). t \<in> fst ` set (d_Deps (rel s))}"

text \<open>The files of a release: names once, generations of 64 bits, and none asks for more than its callee has.\<close>

definition release_ok :: "(string \<Rightarrow> idl_deps) \<Rightarrow> string set \<Rightarrow> bool" where
  "release_ok rel S \<longleftrightarrow> finite S \<and>
     (\<forall>s \<in> S. d_Self (rel s) = s \<and> s \<noteq> [] \<and> d_SelfGen (rel s) < 2 ^ 63 \<and> - (2 ^ 63) \<le> d_SelfGen (rel s) \<and>
        distinct (map fst (d_Deps (rel s))) \<and>
        (\<forall>(t, need) \<in> set (d_Deps (rel s)). t \<in> S \<and> need \<le> d_SelfGen (rel t)))"

lemma open_for_iff:
  "distinct (map fst (d_Deps (rel s))) \<Longrightarrow> open_for rel s fl \<longleftrightarrow> gate_open (rel s) (\<lambda>n. Inr (fl n))"
  by (simp add: open_for_def unmet_gate)

lemma new_instance_gen:
  "d_Self (rel s) \<noteq> [] \<Longrightarrow> in_Metadata (new_instance rel base s) ''idl.gen'' = Some (show_int (d_SelfGen (rel s)))"
  by (simp add: new_instance_def RegistrationMetadata_def Metadata_def Empty_def map_add_def)

lemma open_when_renewed:
  assumes ok: "release_ok rel S" and s: "s \<in> S"
    and renewed: "\<forall>(t, need) \<in> set (d_Deps (rel s)). fl t = [new_instance rel base t]"
  shows "open_for rel s fl"
proof -
  have "service_met (d_Self (rel s)) need (Inr (fl t))" if "(t, need) \<in> set (d_Deps (rel s))" for t need
  proof -
    from that ok s have t: "t \<in> S" "need \<le> d_SelfGen (rel t)" unfolding release_ok_def by fast+
    with ok have "d_Self (rel t) \<noteq> []" "d_SelfGen (rel t) < 2 ^ 63" "- (2 ^ 63) \<le> d_SelfGen (rel t)"
      unfolding release_ok_def by auto
    then have "\<not> old_instance need (new_instance rel base t)"
      using t(2) by (simp add: old_instance_def new_instance_gen)
    with renewed that show ?thesis by (auto simp: service_met_def)
  qed
  then have "gate_open (rel s) (\<lambda>n. Inr (fl n))" by (auto simp: gate_open_def)
  with ok s show ?thesis by (simp add: open_for_iff release_ok_def)
qed

text \<open>All but one instance of a service leave, one after the other.\<close>

lemma others_leave:
  "fl s = x # ys \<Longrightarrow> x \<notin> set ys \<Longrightarrow> fleet_steps rel base fl (fl(s := [x]))"
proof (induction "length ys" arbitrary: ys fl rule: less_induct)
  case less
  show ?case
  proof (cases ys)
    case Nil
    with less.prems(1) have "fl(s := [x]) = fl" by (simp add: fun_upd_idem)
    then show ?thesis by simp
  next
    case (Cons y r)
    let ?fl = "fl(s := removeAll y (fl s))"
    have step: "fleet_step rel base fl ?fl" by (rule leave)
    have fl: "?fl s = x # removeAll y ys" "x \<notin> set (removeAll y ys)" using less.prems Cons by auto
    have "length (removeAll y ys) < length ys" using Cons length_removeAll_less by (metis list.set_intros(1))
    from less.hyps [OF this, of ?fl] fl have "fleet_steps rel base ?fl (fl(s := [x]))" by simp
    with step show ?thesis by (rule converse_rtranclp_into_rtranclp)
  qed
qed

lemma renew:
  assumes "open_for rel s fl"
  shows "fleet_steps rel base fl (fl(s := [new_instance rel base s]))"
proof -
  let ?n = "new_instance rel base s"
  let ?fl = "fl(s := ?n # removeAll ?n (fl s))"
  have "fleet_step rel base fl ?fl" using assms by (rule start)
  moreover have "fleet_steps rel base ?fl (?fl(s := [?n]))" by (rule others_leave) auto
  ultimately show ?thesis by (simp add: converse_rtranclp_into_rtranclp)
qed

lemma release_completes:
  assumes ok: "release_ok rel S" and acyclic: "acyclic (calls rel \<inter> S \<times> S)"
  shows "\<exists>fl'. fleet_steps rel base fl fl' \<and> (\<forall>s \<in> S. fl' s = [new_instance rel base s])"
proof (induction "card {s \<in> S. fl s \<noteq> [new_instance rel base s]}" arbitrary: fl rule: less_induct)
  case less
  let ?todo = "\<lambda>fl. {s \<in> S. fl s \<noteq> [new_instance rel base s]}"
  have fin: "finite S" using ok by (simp add: release_ok_def)
  show ?case
  proof (cases "?todo fl = {}")
    case True
    then show ?thesis by blast
  next
    case False
    have "wf (calls rel \<inter> S \<times> S)" using fin acyclic by (intro finite_acyclic_wf) simp_all
    with False obtain s where s: "s \<in> ?todo fl" "\<forall>t. (t, s) \<in> calls rel \<inter> S \<times> S \<longrightarrow> t \<notin> ?todo fl"
      by (meson wfE_min ex_in_conv)
    have "\<forall>(t, need) \<in> set (d_Deps (rel s)). fl t = [new_instance rel base t]"
      using s ok unfolding release_ok_def calls_def by fastforce
    then have "open_for rel s fl" using ok s(1) by (intro open_when_renewed) auto
    then have steps: "fleet_steps rel base fl (fl(s := [new_instance rel base s]))" by (rule renew)
    have "?todo (fl(s := [new_instance rel base s])) \<subset> ?todo fl" using s(1) by auto
    then have "card (?todo (fl(s := [new_instance rel base s]))) < card (?todo fl)"
      using fin by (intro psubset_card_mono) auto
    from less.hyps [OF this] steps show ?thesis by (meson rtranclp_trans)
  qed
qed

text \<open>A circle of services each of which waits for an instance of the next.\<close>

definition waiting_circle :: "(string \<Rightarrow> idl_deps) \<Rightarrow> string set \<Rightarrow> fleet \<Rightarrow> bool" where
  "waiting_circle rel C fl \<longleftrightarrow>
     (\<forall>s \<in> C. \<exists>(t, need) \<in> set (d_Deps (rel s)). t \<in> C \<and>
        (\<forall>i \<in> set (fl t). old_instance need i \<and> \<not> calls_back (d_Self (rel s)) i))"

lemma circle_waits:
  assumes "waiting_circle rel C fl" and "fleet_step rel base fl fl'" and "\<forall>s \<in> C. distinct (map fst (d_Deps (rel s)))"
  shows "waiting_circle rel C fl' \<and> (\<forall>s \<in> C. set (fl' s) \<subseteq> set (fl s)) \<and> (\<forall>s \<in> C. \<not> open_for rel s fl)"
proof -
  have closed: "\<not> open_for rel s fl" if "s \<in> C" for s
  proof -
    from assms(1) that obtain t need where t: "(t, need) \<in> set (d_Deps (rel s))"
      "\<forall>i \<in> set (fl t). old_instance need i \<and> \<not> calls_back (d_Self (rel s)) i"
      unfolding waiting_circle_def by blast
    have "\<not> service_met (d_Self (rel s)) need (Inr (fl t))"
    proof (cases "fl t")
      case Nil
      then show ?thesis by (simp add: service_met_def)
    next
      case (Cons i r)
      with t(2) show ?thesis by (auto simp: service_met_def)
    qed
    with t(1) have "\<not> gate_open (rel s) (\<lambda>n. Inr (fl n))" by (auto simp: gate_open_def)
    with assms(3) that show ?thesis by (simp add: open_for_iff)
  qed
  have sub: "set (fl' s) \<subseteq> set (fl s)" if "s \<in> C" for s
    using assms(2) closed that by cases auto
  have "waiting_circle rel C fl'"
    using assms(1) sub unfolding waiting_circle_def by (fast dest: subsetD)
  with sub closed show ?thesis by blast
qed

lemma circle_waits_forever:
  assumes "fleet_steps rel base fl fl'" and "waiting_circle rel C fl" and "\<forall>s \<in> C. distinct (map fst (d_Deps (rel s)))"
  shows "waiting_circle rel C fl' \<and> (\<forall>s \<in> C. set (fl' s) \<subseteq> set (fl s))"
  using assms(1)
proof (induction rule: rtranclp_induct)
  case base
  then show ?case using assms(2) by simp
next
  case (step fl1 fl2)
  with circle_waits [OF _ step.hyps(2) assms(3)] show ?case by (meson order_trans)
qed

lemma deps_line_distinct:
  "deps_line n l d = Inr d' \<Longrightarrow> distinct (map fst (d_Deps d)) \<Longrightarrow> distinct (map fst (d_Deps d'))"
  by (auto simp: deps_line_def Let_def distinct_update split: if_splits list.splits option.splits)

lemma deps_lines_distinct:
  "deps_lines n ls d = Inr d' \<Longrightarrow> distinct (map fst (d_Deps d)) \<Longrightarrow> distinct (map fst (d_Deps d'))"
  by (induction n ls d rule: deps_lines.induct) (auto dest: deps_line_distinct split: sum.splits)

lemma parse_distinct: "ParseIDLDeps text = Inr d \<Longrightarrow> distinct (map fst (d_Deps d))"
  by (auto simp: ParseIDLDeps_def no_deps_def dest: deps_lines_distinct split: sum.splits if_splits)

text \<open>The tries of a wait.\<close>

definition tried :: "'w lookup \<Rightarrow> (nat \<times> 'w) lookup" where
  "tried lookup name w = (case lookup name (snd w) of (r, w') \<Rightarrow> (r, (Suc (fst w), w')))"

lemma unmet_from_tried:
  "unmet_from d (tried lookup) names (n, w) = (case unmet_from d lookup names w of (r, w') \<Rightarrow> (r, (n + length names, w')))"
  by (induction names arbitrary: n w) (auto simp: tried_def [abs_def] split: prod.splits sum.splits)

text \<open>
  The wait ends: \<open>k\<close> tries of every service the file names, the last but one not after the
  deadline; and it ends without an error only when nothing is waited for.
\<close>

lemma gate_wait_ends:
  "wait_deps d (tried lookup) deadline now (n, w) = (r, (m, w')) \<Longrightarrow>
   \<exists>k > 0. m = n + k * length (depNames d) \<and> (k = 1 \<or> now + (int k - 2) * depsGatePoll \<le> deadline) \<and> r \<noteq> Inl []"
proof (induction d "tried lookup" deadline now "(n, w)" arbitrary: n w rule: wait_deps.induct)
  case (1 d deadline now n w)
  obtain u ws w1 where u: "unmet d lookup w = ((u, ws), w1)" by (metis surj_pair)
  then have t: "unmet d (tried lookup) (n, w) = ((u, ws), (n + length (depNames d), w1))"
    by (simp add: unmet_def unmet_from_tried)
  show ?case
  proof (cases "u = [] \<or> now > deadline")
    case True
    with "1.prems" t show ?thesis
      by (subst (asm) wait_deps.simps) (auto intro: exI [where x = 1] split: if_splits)
  next
    case False
    with "1.prems" t have "wait_deps d (tried lookup) deadline (now + depsGatePoll) (n + length (depNames d), w1) = (r, (m, w'))"
      by (subst (asm) wait_deps.simps) simp
    from "1.hyps" [OF t [symmetric] refl _ _ this] False obtain k where k: "k > 0"
      "m = n + length (depNames d) + k * length (depNames d)"
      "k = 1 \<or> now + depsGatePoll + (int k - 2) * depsGatePoll \<le> deadline" "r \<noteq> Inl []" by auto
    then have "m = n + Suc k * length (depNames d)" "now + (int (Suc k) - 2) * depsGatePoll \<le> deadline"
      using False by (auto simp: algebra_simps)
    with k(4) show ?thesis by (intro exI [where x = "Suc k"]) simp
  qed
qed

section \<open>Properties\<close>

text \<open>
  What the gate asks. For a file that was read, nothing is waited for exactly when every
  service it names was looked up and has an instance, and every instance listed before the
  first that calls this service back is not older than the generation asked for (one whose
  generation is missing or no number is let pass).
\<close>

lemma gate_exact:
  assumes "ParseIDLDeps text = Inr d"
  shows "fst (fst (unmet d (registry f) w)) = [] \<longleftrightarrow>
    (\<forall>(name, need) \<in> set (d_Deps d). \<exists>l. f w name = Inr l \<and> l \<noteq> [] \<and>
       (\<forall>i \<in> set (takeWhile (\<lambda>i. \<not> calls_back (d_Self d) i) l). \<forall>raw gen.
          in_Metadata i ''idl.gen'' = Some raw \<longrightarrow> parse_int64 raw = Some gen \<longrightarrow> need \<le> gen))"
  unfolding unmet_gate [OF parse_distinct [OF assms]] gate_open_def service_met_def old_instance_def
  by (simp add: not_less)

theorem gate_exact_witness:
  "fst (fst (unmet \<lparr>d_Commit = [], d_Self = ''shop'', d_SelfGen = 4, d_Deps = [(''pay'', 7)]\<rparr>
     (registry (\<lambda>_ _. Inr [\<lparr>in_Addr = ''a'', in_Metadata = [''idl.gen'' \<mapsto> ''6'']\<rparr>])) ())) \<noteq> []"
proof -
  have d: "ParseIDLDeps (''self shop 4'' @ CHR 0x0A # ''dep pay 7'') =
    Inr \<lparr>d_Commit = [], d_Self = ''shop'', d_SelfGen = 4, d_Deps = [(''pay'', 7)]\<rparr>" by code_simp
  have "parse_int64 ''6'' = Some 6" by code_simp
  then show ?thesis by (subst gate_exact [OF d]) (auto simp: calls_back_def)
qed

text \<open>
  C13. A release needs no order. When no service of a release asks for more than its callee
  brings, and no circle of services calls itself, then from any registry the services can
  all start and take the place of the old instances, whatever was registered before.
\<close>

theorem release_needs_no_order:
  assumes "release_ok rel S" and "acyclic (calls rel \<inter> S \<times> S)"
  shows "\<exists>fl'. fleet_steps rel base fl fl' \<and> (\<forall>s \<in> S. fl' s = [new_instance rel base s])"
  by (rule release_completes [OF assms])

text \<open>
  A circle never starts. When each service of a circle calls one whose instances are all
  of an older generation and do not call it back (or that has no instance at all), none of
  them can ever start, whatever else starts or leaves: two services that call each other and
  have no instance registered wait for each other, and so do three in a ring.
\<close>

lemma circle_never_starts:
  assumes "waiting_circle rel C fl" and "\<forall>s \<in> C. distinct (map fst (d_Deps (rel s)))"
    and "fleet_steps rel base fl fl'"
  shows "\<forall>s \<in> C. \<not> open_for rel s fl' \<and> set (fl' s) \<subseteq> set (fl s)"
proof -
  have "waiting_circle rel C fl' \<and> (\<forall>s \<in> C. set (fl' s) \<subseteq> set (fl s))"
    by (rule circle_waits_forever [OF assms(3,1,2)])
  with circle_waits [OF _ leave assms(2)] show ?thesis by blast
qed

definition pair_release :: "string \<Rightarrow> idl_deps" where
  "pair_release s = \<lparr>d_Commit = [], d_Self = s, d_SelfGen = 1, d_Deps = [(if s = ''a'' then ''b'' else ''a'', 1)]\<rparr>"

definition chain_release :: "string \<Rightarrow> idl_deps" where
  "chain_release s = \<lparr>d_Commit = [], d_Self = s, d_SelfGen = 1, d_Deps = (if s = ''a'' then [(''b'', 1)] else [])\<rparr>"

theorem release_needs_no_order_witness:
  "\<exists>fl'. fleet_steps chain_release (\<lambda>_. Map.empty) (\<lambda>_. []) fl' \<and> (\<forall>s \<in> {''a'', ''b''}. fl' s \<noteq> [])"
proof -
  have ok: "release_ok chain_release {''a'', ''b''}" by (auto simp: release_ok_def chain_release_def)
  have "calls chain_release \<inter> {''a'', ''b''} \<times> {''a'', ''b''} = {(''b'', ''a'')}"
    by (auto simp: calls_def chain_release_def split: if_splits)
  moreover have "acyclic {(''b'', ''a'')}" using acyclic_insert [of "''b''" "''a''" "{}"] by (simp add: acyclic_def)
  ultimately show ?thesis using release_needs_no_order [OF ok, of "\<lambda>_. Map.empty" "\<lambda>_. []"] by fastforce
qed

theorem circle_never_starts_witness:
  "\<not> open_for pair_release ''a'' (\<lambda>_. []) \<and> \<not> open_for pair_release ''b'' (\<lambda>_. [])"
proof -
  have "waiting_circle pair_release {''a'', ''b''} (\<lambda>_. [])"
    by (auto simp: waiting_circle_def pair_release_def)
  from circle_never_starts [OF this _ rtranclp.rtrancl_refl] show ?thesis by (simp add: pair_release_def)
qed

end
