(* ===== verification/Devroute.thy ===== *)
theory Devroute
  imports Prelude
begin

text \<open>
  Tagged routing (\<^verbatim>\<open>devroute/devroute.go\<close>, \<^verbatim>\<open>devroute/balancer.go\<close>): the tags of a
  request, and the load balancer that sends a tagged request to the takeover instance of its
  tag and everything else to the baseline. The balancer Kitex uses by default is the
  parameter \<open>base\<close>: which of a list of instances it picks, given a random number.
\<close>

section \<open>Tags\<close>

definition MaxTags :: nat where "MaxTags = 3"

definition tag_char :: "char \<Rightarrow> bool" where
  "tag_char c = (let n = of_char c :: nat in (97 \<le> n \<and> n \<le> 122) \<or> (48 \<le> n \<and> n \<le> 57) \<or> n = 45)"

definition ValidTag :: "string \<Rightarrow> bool" where
  "ValidTag t \<longleftrightarrow> 1 \<le> length t \<and> length t \<le> 32 \<and> list_all tag_char t"

fun parse_tags :: "string list \<Rightarrow> string list option" where
  "parse_tags [] = Some []"
| "parse_tags (p # ps) =
     (let t = trim_space p in
      if \<not> ValidTag t then None else map_option ((#) t) (parse_tags ps))"

definition ParseTags :: "string \<Rightarrow> string list option" where
  "ParseTags header =
     (let h = trim_space header in
      if h = [] then None
      else let parts = split_on CHR '','' h
           in if length parts > MaxTags then None else parse_tags parts)"

text \<open>\<^verbatim>\<open>strings.Join\<close>, and the persistent value of the context (\<open>None\<close>: not set).\<close>

fun join_tags :: "string list \<Rightarrow> string" where
  "join_tags [] = []"
| "join_tags [t] = t"
| "join_tags (t # ts) = t @ CHR '','' # join_tags ts"

definition WithTags :: "string option \<Rightarrow> string list \<Rightarrow> string option" where
  "WithTags v tags = (if tags = [] then v else Some (join_tags tags))"

definition Tags :: "string option \<Rightarrow> string list" where
  "Tags v = (case v of
      None \<Rightarrow> []
    | Some s \<Rightarrow> if s = [] then [] else (case ParseTags s of None \<Rightarrow> [] | Some ts \<Rightarrow> ts))"

definition TagString :: "string option \<Rightarrow> string" where
  "TagString v = (case v of None \<Rightarrow> [] | Some s \<Rightarrow> s)"

section \<open>The balancer\<close>

text \<open>An instance: its address and its \<^verbatim>\<open>dev-tag\<close> metadata.\<close>

record inst =
  addr :: string
  dev_tag :: "string option"

record result =
  cacheable :: bool
  cache_key :: string
  instances :: "inst list"

definition takeover :: "inst \<Rightarrow> bool" where
  "takeover i \<longleftrightarrow> (case dev_tag i of None \<Rightarrow> False | Some t \<Rightarrow> t \<noteq> [])"

definition with_tag :: "string \<Rightarrow> inst list \<Rightarrow> inst list" where
  "with_tag t ins = filter (\<lambda>i. dev_tag i = Some t \<and> t \<noteq> []) ins"

text \<open>
  What \<^verbatim>\<open>build\<close> makes: the baseline's picker, or a picker with the tagged instances and
  its round-robin counter.
\<close>

datatype picker = Baseline "inst list" | Routed "inst list" "inst list" "64 word"

definition build :: "result \<Rightarrow> picker" where
  "build r =
     (let baseline = filter (\<lambda>i. \<not> takeover i) (instances r); tagged = filter takeover (instances r)
      in if tagged = [] then Baseline baseline else Routed baseline tagged 0)"

type_synonym pick = "inst list \<Rightarrow> nat \<Rightarrow> inst option"

fun tag_pick :: "inst list \<Rightarrow> 64 word \<Rightarrow> string list \<Rightarrow> inst option" where
  "tag_pick tagged n [] = None"
| "tag_pick tagged n (t # ts) =
     (let l = with_tag t tagged in
      if l \<noteq> [] then Some (l ! (unat (n + 1) mod length l)) else tag_pick tagged n ts)"

text \<open>\<^verbatim>\<open>Next\<close>: the instance for a request with the tags, and the picker after it.\<close>

fun next_pick :: "pick \<Rightarrow> string list \<Rightarrow> nat \<Rightarrow> picker \<Rightarrow> inst option \<times> picker" where
  "next_pick base tags rnd (Baseline bs) = (base bs rnd, Baseline bs)"
| "next_pick base tags rnd (Routed bs tagged n) =
     (case tag_pick tagged n tags of
        Some i \<Rightarrow> (Some i, Routed bs tagged (n + 1))
      | None \<Rightarrow> (if bs = [] then None else base bs rnd, Routed bs tagged n))"

text \<open>The balancer's pickers and the process's active tags, both by cache key.\<close>

record bstate =
  pickers :: "string \<Rightarrow> picker option"
  active :: "string \<Rightarrow> string list option"

definition tags_of :: "result \<Rightarrow> string list" where
  "tags_of r = remdups (map (the \<circ> dev_tag) (filter takeover (instances r)))"

definition note_active :: "result \<Rightarrow> bstate \<Rightarrow> bstate" where
  "note_active r b = (if cacheable r then b\<lparr>active := (active b)(cache_key r := Some (tags_of r))\<rparr> else b)"

definition GetPicker :: "result \<Rightarrow> bstate \<Rightarrow> picker \<times> bstate" where
  "GetPicker r b =
     (if \<not> cacheable r then (build r, b)
      else case pickers b (cache_key r) of
          Some p \<Rightarrow> (p, b)
        | None \<Rightarrow> (build r, (note_active r b)\<lparr>pickers := (pickers b)(cache_key r := Some (build r))\<rparr>))"

definition Rebalance :: "result \<Rightarrow> bstate \<Rightarrow> bstate" where
  "Rebalance r b =
     (if \<not> cacheable r then b
      else (note_active r b)\<lparr>pickers := (pickers b)(cache_key r := Some (build r))\<rparr>)"

definition Delete :: "result \<Rightarrow> bstate \<Rightarrow> bstate" where
  "Delete r b =
     (if \<not> cacheable r then b
      else b\<lparr>pickers := (pickers b)(cache_key r := None), active := (active b)(cache_key r := None)\<rparr>)"

text \<open>\<open>keys\<close>: the keys of the process's clients.\<close>

definition Active :: "string list \<Rightarrow> string list \<Rightarrow> bstate \<Rightarrow> bool" where
  "Active keys tags b \<longleftrightarrow> tags \<noteq> [] \<and>
     list_ex (\<lambda>k. case active b k of None \<Rightarrow> False | Some ts \<Rightarrow> list_ex (\<lambda>t. t \<in> set ts) tags) keys"

section \<open>A client's calls\<close>

text \<open>
  What Kitex does with the balancer: it tells it about changes, and for a request takes the
  picker of what the resolver returned and asks it for an instance.
\<close>

datatype bevent = Change result | Gone result | Request result "string option" nat

definition request :: "pick \<Rightarrow> result \<Rightarrow> string option \<Rightarrow> nat \<Rightarrow> bstate \<Rightarrow> inst option \<times> bstate" where
  "request base r tagv rnd b =
     (case GetPicker r b of
        (p, b') \<Rightarrow>
          (case next_pick base (Tags tagv) rnd p of
             (i, p') \<Rightarrow> (i, if cacheable r then b'\<lparr>pickers := (pickers b')(cache_key r := Some p')\<rparr> else b')))"

fun bstep :: "pick \<Rightarrow> bevent \<Rightarrow> bstate \<Rightarrow> bstate" where
  "bstep base (Change r) b = Rebalance r b"
| "bstep base (Gone r) b = Delete r b"
| "bstep base (Request r tagv rnd) b = snd (request base r tagv rnd b)"

definition empty_balancer :: bstate where
  "empty_balancer = \<lparr>pickers = Map.empty, active = Map.empty\<rparr>"

definition brun :: "pick \<Rightarrow> bevent list \<Rightarrow> bstate \<Rightarrow> bstate" where
  "brun base es b = fold (bstep base) es b"

text \<open>The instances of a key the balancer was told last: by a change, or by the first request.\<close>

fun told :: "string \<Rightarrow> bevent list \<Rightarrow> inst list option \<Rightarrow> inst list option" where
  "told k [] known = known"
| "told k (e # es) known = told k es
     (case e of
        Change r \<Rightarrow> if cacheable r \<and> cache_key r = k then Some (instances r) else known
      | Gone r \<Rightarrow> if cacheable r \<and> cache_key r = k then None else known
      | Request r _ _ \<Rightarrow> if cacheable r \<and> cache_key r = k \<and> known = None then Some (instances r) else known)"

section \<open>Lemmas\<close>

text \<open>What a picker is made of.\<close>

fun picker_of :: "inst list \<Rightarrow> picker \<Rightarrow> bool" where
  "picker_of ins (Baseline bs) = (bs = filter (\<lambda>i. \<not> takeover i) ins \<and> filter takeover ins = [])"
| "picker_of ins (Routed bs ts n) = (bs = filter (\<lambda>i. \<not> takeover i) ins \<and> ts = filter takeover ins)"

lemma picker_of_build: "picker_of (instances r) (build r)"
  by (simp add: build_def Let_def)

lemma picker_of_next: "picker_of ins p \<Longrightarrow> picker_of ins (snd (next_pick base tags rnd p))"
  by (cases p) (auto split: option.split)

lemma tag_pick_some:
  "tag_pick ts n tags = Some i \<Longrightarrow>
     \<exists>t pre post. tags = pre @ t # post \<and> i \<in> set ts \<and> dev_tag i = Some t \<and> t \<noteq> [] \<and>
       list_all (\<lambda>u. with_tag u ts = []) pre"
proof (induction tags)
  case (Cons t tags)
  show ?case
  proof (cases "with_tag t ts = []")
    case True
    with Cons.prems have "tag_pick ts n tags = Some i" by (simp add: Let_def)
    with Cons.IH obtain u pre post where "tags = pre @ u # post" "i \<in> set ts" "dev_tag i = Some u" "u \<noteq> []"
      "list_all (\<lambda>u. with_tag u ts = []) pre" by auto
    with True show ?thesis by (intro exI [of _ u] exI [of _ "t # pre"] exI [of _ post]) simp
  next
    case False
    with Cons.prems have "i = with_tag t ts ! (unat (n + 1) mod length (with_tag t ts))" by (simp add: Let_def)
    with False have "i \<in> set (with_tag t ts)" by (simp add: nth_mem)
    then show ?thesis by (intro exI [of _ t] exI [of _ "[]"] exI [of _ tags]) (simp add: with_tag_def)
  qed
qed simp

lemma tag_pick_none: "tag_pick ts n tags = None \<longleftrightarrow> list_all (\<lambda>t. with_tag t ts = []) tags"
  by (induction tags) (simp_all add: Let_def)

definition binv :: "(string \<Rightarrow> inst list option) \<Rightarrow> bstate \<Rightarrow> bool" where
  "binv known b \<longleftrightarrow> (\<forall>k. case known k of
      None \<Rightarrow> pickers b k = None
    | Some ins \<Rightarrow> (\<exists>p. pickers b k = Some p \<and> picker_of ins p))"

lemma binv_step:
  assumes "binv known b"
  shows "binv (\<lambda>k. told k [e] (known k)) (bstep base e b)"
proof (cases e)
  case (Change r)
  show ?thesis
    unfolding binv_def
  proof (intro allI)
    fix k
    show "case told k [e] (known k) of None \<Rightarrow> pickers (bstep base e b) k = None
        | Some ins \<Rightarrow> \<exists>p. pickers (bstep base e b) k = Some p \<and> picker_of ins p"
      using assms [unfolded binv_def, rule_format, of k] Change
      by (cases "known k") (auto simp: Rebalance_def note_active_def picker_of_build)
  qed
next
  case (Gone r)
  show ?thesis
    unfolding binv_def
  proof (intro allI)
    fix k
    show "case told k [e] (known k) of None \<Rightarrow> pickers (bstep base e b) k = None
        | Some ins \<Rightarrow> \<exists>p. pickers (bstep base e b) k = Some p \<and> picker_of ins p"
      using assms [unfolded binv_def, rule_format, of k] Gone by (cases "known k") (auto simp: Delete_def)
  qed
next
  case (Request r tagv rnd)
  show ?thesis
  proof (cases "cacheable r")
    case False
    with assms Request show ?thesis by (simp add: request_def GetPicker_def split: prod.split)
  next
    case True
    obtain p b' where gp: "GetPicker r b = (p, b')" by fastforce
    obtain i p' where np: "next_pick base (Tags tagv) rnd p = (i, p')" by fastforce
    let ?ins = "case known (cache_key r) of None \<Rightarrow> instances r | Some ins \<Rightarrow> ins"
    have p: "picker_of ?ins p \<and> (\<forall>k. k \<noteq> cache_key r \<longrightarrow> pickers b' k = pickers b k)"
    proof (cases "known (cache_key r)")
      case None
      with assms have "pickers b (cache_key r) = None" by (auto simp: binv_def split: option.splits dest: spec [of _ "cache_key r"])
      with gp True None show ?thesis by (auto simp: GetPicker_def note_active_def picker_of_build)
    next
      case (Some ins)
      with assms obtain q where "pickers b (cache_key r) = Some q" "picker_of ins q"
        by (auto simp: binv_def split: option.splits dest: spec [of _ "cache_key r"])
      with gp True Some show ?thesis by (auto simp: GetPicker_def)
    qed
    then have p': "picker_of ?ins p'" using picker_of_next [of ?ins p base "Tags tagv" rnd] np by simp
    from True gp np have st: "snd (request base r tagv rnd b) = b'\<lparr>pickers := (pickers b')(cache_key r := Some p')\<rparr>"
      by (simp add: request_def)
    show ?thesis
      unfolding binv_def
    proof (intro allI)
      fix k
      show "case told k [e] (known k) of None \<Rightarrow> pickers (bstep base e b) k = None
          | Some ins \<Rightarrow> \<exists>p. pickers (bstep base e b) k = Some p \<and> picker_of ins p"
      proof (cases "k = cache_key r")
        case True
        with \<open>cacheable r\<close> p' Request show ?thesis by (cases "known k") (simp_all add: st)
      next
        case False
        then have eqs: "pickers (bstep base e b) k = pickers b k" "told k [e] (known k) = known k"
          using p Request by (simp_all add: st)
        show ?thesis unfolding eqs by (rule assms [unfolded binv_def, rule_format])
      qed
    qed
  qed
qed

lemma told_append: "told k (es @ fs) known = told k fs (told k es known)"
  by (induction es arbitrary: known) simp_all

lemma binv_brun: "binv (\<lambda>k. told k es None) (brun base es empty_balancer)"
proof (induction es rule: rev_induct)
  case Nil
  then show ?case by (simp add: binv_def brun_def empty_balancer_def)
next
  case (snoc e es)
  from binv_step [OF snoc, of e base] show ?case by (simp add: brun_def told_append)
qed

text \<open>Joined tags parse back.\<close>

lemma tag_char_plain: "tag_char c \<Longrightarrow> c \<noteq> CHR '','' \<and> \<not> is_space c"
proof -
  assume t: "tag_char c"
  have "tag_char CHR '','' = False" by (simp add: tag_char_def)
  with t show ?thesis by (auto simp: tag_char_def is_space_def Let_def)
qed

lemma trim_tag: "list_all tag_char t \<Longrightarrow> trim_space t = t"
  by (rule trim_space_no_space) (auto simp: list_all_iff dest: tag_char_plain)

lemma split_join_tags:
  "ts \<noteq> [] \<Longrightarrow> list_all (list_all tag_char) ts \<Longrightarrow> split_on CHR '','' (join_tags ts) = ts"
proof (induction ts rule: join_tags.induct)
  case (2 t)
  then have "CHR '','' \<notin> set t" by (auto simp: list_all_iff dest: tag_char_plain)
  then show ?case by (simp add: split_on_no_sep)
next
  case (3 t u ts)
  then have "CHR '','' \<notin> set t" by (auto simp: list_all_iff dest: tag_char_plain)
  with 3 show ?case by (simp add: split_on_append)
qed simp

lemma parse_valid_tags: "list_all ValidTag ts \<Longrightarrow> parse_tags ts = Some ts"
  by (induction ts) (simp_all add: ValidTag_def trim_tag Let_def)

lemma join_tags_chars: "list_all (list_all tag_char) ts \<Longrightarrow> c \<in> set (join_tags ts) \<Longrightarrow> c = CHR '','' \<or> tag_char c"
  by (induction ts rule: join_tags.induct) (auto simp: list_all_iff)

lemma Tags_WithTags:
  assumes "ts \<noteq> []" and "length ts \<le> 3" and ok: "list_all ValidTag ts"
  shows "Tags (WithTags v ts) = ts"
proof -
  have ch: "list_all (list_all tag_char) ts" using ok by (auto simp: list_all_iff ValidTag_def)
  have trim: "trim_space (join_tags ts) = join_tags ts"
    using join_tags_chars [OF ch] tag_char_plain by (intro trim_space_no_space) (fastforce simp: is_space_def)
  have "join_tags ts \<noteq> []"
    using assms(1) ok by (cases ts rule: join_tags.cases) (auto simp: ValidTag_def)
  then show ?thesis
    using assms split_join_tags [OF assms(1) ch] parse_valid_tags [OF ok]
    by (simp add: Tags_def WithTags_def ParseTags_def trim MaxTags_def)
qed

section \<open>The balancer of Kitex\<close>

text \<open>All the code relies on: an instance picked is one of those given.\<close>

locale kitex_balancer =
  fixes base :: pick
  assumes picks_given: "base l n = Some i \<Longrightarrow> i \<in> set l"
begin

lemma next_pick_untagged:
  assumes "picker_of ins p" and "tag_pick (filter takeover ins) (case p of Baseline _ \<Rightarrow> 0 | Routed _ _ n \<Rightarrow> n) tags = None"
    and "fst (next_pick base tags rnd p) = Some i"
  shows "i \<in> set ins \<and> \<not> takeover i"
proof -
  have "base (filter (\<lambda>i. \<not> takeover i) ins) rnd = Some i"
    using assms by (cases p) (auto split: if_splits)
  from picks_given [OF this] show ?thesis by simp
qed

end

text \<open>The random number modulo the number of instances: a balancer of equal weights.\<close>

definition equal_weights :: pick where
  "equal_weights l n = (if l = [] then None else Some (l ! (n mod length l)))"

interpretation equal: kitex_balancer equal_weights
  by unfold_locales (auto simp: equal_weights_def split: if_splits)

text \<open>What a request gets after any run of events.\<close>

lemma routing_picks:
  assumes base: "kitex_balancer base"
    and r: "cacheable r"
    and known: "told (cache_key r) es None = Some ins \<or> told (cache_key r) es None = None \<and> ins = instances r"
    and got: "request base r tagv rnd (brun base es empty_balancer) = (got, b')"
  shows "(\<forall>i. got = Some i \<longrightarrow> i \<in> set ins \<and>
      (takeover i \<longrightarrow> (\<exists>t pre post. Tags tagv = pre @ t # post \<and> dev_tag i = Some t \<and>
         list_all (\<lambda>u. with_tag u ins = []) pre))) \<and>
    (list_ex (\<lambda>t. with_tag t ins \<noteq> []) (Tags tagv) \<longrightarrow> (\<exists>i. got = Some i \<and> takeover i))"
proof -
  let ?b = "brun base es empty_balancer"
  obtain p b1 where gp: "GetPicker r ?b = (p, b1)" by fastforce
  have "case told (cache_key r) es None of None \<Rightarrow> pickers ?b (cache_key r) = None
      | Some ins \<Rightarrow> \<exists>p. pickers ?b (cache_key r) = Some p \<and> picker_of ins p"
    using binv_brun [of es base] unfolding binv_def by (rule spec)
  then have p: "picker_of ins p"
    using known gp r picker_of_build [of r] by (auto simp: GetPicker_def)
  have tag: "with_tag t (filter takeover ins) = with_tag t ins" for t
    by (auto simp: with_tag_def takeover_def intro!: filter_cong)
  have got': "got = fst (next_pick base (Tags tagv) rnd p)"
    using got gp by (auto simp: request_def split: prod.splits)
  show ?thesis
  proof (cases "tag_pick (filter takeover ins) (case p of Baseline _ \<Rightarrow> 0 | Routed _ _ n \<Rightarrow> n) (Tags tagv)")
    case None
    then have none: "list_all (\<lambda>t. with_tag t ins = []) (Tags tagv)" by (simp add: tag_pick_none tag)
    have "i \<in> set ins \<and> \<not> takeover i" if "got = Some i" for i
      using kitex_balancer.next_pick_untagged [OF base p None] got' that by simp
    with none show ?thesis by (auto simp: list_all_iff list_ex_iff)
  next
    case (Some i)
    have "got = Some i"
      using Some p got' tag_pick_some [OF Some] by (cases p) auto
    moreover from tag_pick_some [OF Some] obtain t pre post where
      "Tags tagv = pre @ t # post" "i \<in> set (filter takeover ins)" "dev_tag i = Some t" "t \<noteq> []"
      "list_all (\<lambda>u. with_tag u (filter takeover ins) = []) pre" by blast
    ultimately show ?thesis by (auto simp: tag)
  qed
qed

section \<open>Properties\<close>

text \<open>
  C26. Tagged routing keeps to its tag and follows the changes. Whatever changes, removals and
  requests a client has seen, an instance picked for a cacheable target is one of those the
  balancer was last told of; it is a takeover instance only when its own tag is among the
  tags of the request, and then no earlier tag of the request has an instance; and a request
  one of whose tags has an instance always gets one. \<open>base\<close> is any balancer that picks from
  the instances it is given (\<open>kitex_balancer\<close>).
\<close>

theorem routing_keeps_to_tags:
  assumes base: "kitex_balancer base"
    and r: "cacheable r"
    and known: "told (cache_key r) es None = Some ins \<or> told (cache_key r) es None = None \<and> ins = instances r"
    and got: "request base r tagv rnd (brun base es empty_balancer) = (got, b')"
  shows "(\<forall>i. got = Some i \<longrightarrow> i \<in> set ins \<and>
      (takeover i \<longrightarrow> (\<exists>t pre post. Tags tagv = pre @ t # post \<and> dev_tag i = Some t \<and>
         list_all (\<lambda>u. with_tag u ins = []) pre))) \<and>
    (list_ex (\<lambda>t. with_tag t ins \<noteq> []) (Tags tagv) \<longrightarrow> (\<exists>i. got = Some i \<and> takeover i))"
  using assms by (rule routing_picks)

theorem routing_keeps_to_tags_witness:
  "let pod = \<lparr>addr = ''10.2.0.7'', dev_tag = None\<rparr>; alice = \<lparr>addr = ''10.9.0.1'', dev_tag = Some ''alice''\<rparr>;
       r = \<lparr>cacheable = True, cache_key = ''order'', instances = [pod, alice]\<rparr>
   in takeover (the (fst (request equal_weights r (Some ''bob,alice'') 0 (brun equal_weights [Change r] empty_balancer))))"
proof -
  let ?pod = "\<lparr>addr = ''10.2.0.7'', dev_tag = None\<rparr>" and ?alice = "\<lparr>addr = ''10.9.0.1'', dev_tag = Some ''alice''\<rparr>"
  let ?r = "\<lparr>cacheable = True, cache_key = ''order'', instances = [?pod, ?alice]\<rparr>"
  obtain got b' where got: "request equal_weights ?r (Some ''bob,alice'') 0 (brun equal_weights [Change ?r] empty_balancer) = (got, b')"
    by fastforce
  have tags: "Tags (Some ''bob,alice'') = [''bob'', ''alice'']" by code_simp
  have "list_ex (\<lambda>t. with_tag t (instances ?r) \<noteq> []) (Tags (Some ''bob,alice''))"
    by (simp add: tags with_tag_def)
  then have "\<exists>i. got = Some i \<and> takeover i"
    using routing_keeps_to_tags [OF equal.kitex_balancer_axioms _ _ got, of "instances ?r"] by simp
  then show ?thesis unfolding Let_def got by auto
qed

end
