(* ===== verification/Discovery.thy ===== *)
theory Discovery
  imports Devroute Takeover Complex_Main "HOL-Library.Multiset"
begin

text \<open>
  Finding the instances of a service: what of a list of Nacos is used, recorded and told to
  subscribers (\<^verbatim>\<open>nacosx/naming.go\<close>), and the resolver of tagged routing, which decides
  whose instances a client may be sent to (\<^verbatim>\<open>kitexx/nacos.go\<close>,
  \<^verbatim>\<open>kitexx/devroute.go\<close>). The SDK of Nacos and the parser of IP addresses are
  parameters; weights are exact numbers.
\<close>

section \<open>Instances\<close>

record ninst =
  ni_Addr :: string
  ni_Weight :: rat
  ni_Healthy :: bool
  ni_Enabled :: bool
  ni_Metadata :: "string \<Rightarrow> string option"

definition usable :: "ninst \<Rightarrow> bool" where
  "usable i \<longleftrightarrow> ni_Healthy i \<and> ni_Enabled i \<and> ni_Weight i > 0"

text \<open>\<^verbatim>\<open>state\<close>: what about an instance matters to a caller.\<close>

definition inst_state :: "ninst \<Rightarrow> rat \<times> bool \<times> bool" where
  "inst_state i = (ni_Weight i, ni_Healthy i, ni_Enabled i)"

text \<open>
  A Go map of instances by address is the list of its values in the order of their
  addresses; of two instances of one address the later stays.
\<close>

definition at_addr :: "ninst list \<Rightarrow> string \<Rightarrow> ninst option" where
  "at_addr l a = find (\<lambda>i. ni_Addr i = a) l"

definition by_addr :: "ninst list \<Rightarrow> ninst list" where
  "by_addr l = map (\<lambda>a. the (at_addr (rev l) a)) (sort (remdups (map ni_Addr l)))"

datatype change = Added ninst | Removed ninst | Changed ninst "rat \<times> bool \<times> bool"

fun change_addr :: "change \<Rightarrow> string" where
  "change_addr (Added i) = ni_Addr i"
| "change_addr (Removed i) = ni_Addr i"
| "change_addr (Changed i _) = ni_Addr i"

definition instanceDiff :: "ninst list \<Rightarrow> ninst list \<Rightarrow> change list" where
  "instanceDiff old cur = sort_key change_addr
     (concat (map (\<lambda>i. case at_addr old (ni_Addr i) of
          None \<Rightarrow> [Added i]
        | Some was \<Rightarrow> if inst_state was \<noteq> inst_state i then [Changed i (inst_state was)] else []) cur) @
      map Removed (filter (\<lambda>i. at_addr cur (ni_Addr i) = None) old))"

section \<open>What a client knows of a service\<close>

text \<open>\<open>sv_subs\<close>: the list each subscriber was called with last.\<close>

record service =
  sv_seen :: bool
  sv_known :: "ninst list"
  sv_subs :: "ninst list list"

datatype list_log = NoneUsable | Discovered | InstancesChanged

definition observe :: "ninst list \<Rightarrow> bool \<Rightarrow> service \<Rightarrow> list_log option \<times> service" where
  "observe l pushed s =
     (if l = [] \<and> \<not> pushed \<and> sv_seen s then (None, s)
      else let cur = by_addr l; first = \<not> sv_seen s; changes = instanceDiff (sv_known s) cur;
               s' = s\<lparr>sv_seen := True, sv_known := cur\<rparr>
        in if changes = [] \<and> \<not> first then (None, s')
           else (Some (if filter usable l = [] then NoneUsable else if first then Discovered else InstancesChanged),
                 s'\<lparr>sv_subs := map (\<lambda>_. cur) (sv_subs s)\<rparr>))"

text \<open>\<^verbatim>\<open>Lookup\<close> and \<^verbatim>\<open>Instances\<close> of the list the SDK answers; \<open>Subscribe\<close>.\<close>

definition Lookup :: "string + ninst list \<Rightarrow> service \<Rightarrow> (string + ninst list) \<times> service" where
  "Lookup answer s = (case answer of Inl e \<Rightarrow> (Inl e, s)
     | Inr l \<Rightarrow> (let l' = sort_key ni_Addr l in (Inr (filter usable l'), snd (observe l' False s))))"

definition Instances :: "string + ninst list \<Rightarrow> service \<Rightarrow> (string + ninst list) \<times> service" where
  "Instances answer s = (case Lookup answer s of
     (Inl e, s') \<Rightarrow> (Inl e, s')
   | (Inr l, s') \<Rightarrow> (if l = [] then Inl ''no instance can take requests'' else Inr l, s'))"

definition Subscribe :: "service \<Rightarrow> service" where
  "Subscribe s = s\<lparr>sv_subs := sv_subs s @ [sv_known s]\<rparr>"

text \<open>\<^verbatim>\<open>Pick\<close>, for a random number below one.\<close>

fun pick_from :: "rat \<Rightarrow> ninst list \<Rightarrow> ninst option" where
  "pick_from x [] = None"
| "pick_from x (i # l) = (if x - ni_Weight i < 0 then Some i else pick_from (x - ni_Weight i) l)"

definition Pick :: "rat \<Rightarrow> ninst list \<Rightarrow> ninst" where
  "Pick r l = (case pick_from (r * sum_list (map ni_Weight l)) l of Some i \<Rightarrow> i | None \<Rightarrow> last l)"

section \<open>The resolver of tagged routing\<close>

text \<open>Go's \<^verbatim>\<open>net.ParseIP\<close> and a network's \<^verbatim>\<open>Contains\<close>.\<close>

record ('ip, 'net) addr_lib =
  al_ip :: "string \<Rightarrow> 'ip option"
  al_in :: "'net \<Rightarrow> 'ip \<Rightarrow> bool"

text \<open>
  The guard: no guard, or its baseline networks. \<open>newInstanceGuard\<close>: those configured that
  parse, else the process's own /16 (\<open>own\<close>).
\<close>

definition newInstanceGuard :: "(string \<Rightarrow> 'net option) \<Rightarrow> string list \<Rightarrow> 'net option \<Rightarrow> 'net list" where
  "newInstanceGuard parse cidrs own =
     (let given = List.map_filter (\<lambda>c. parse (trim_space c)) cidrs
      in if given = [] then (case own of Some n \<Rightarrow> [n] | None \<Rightarrow> []) else given)"

definition inBaselineNet :: "('ip, 'net) addr_lib \<Rightarrow> 'net list \<Rightarrow> 'ip \<Rightarrow> bool" where
  "inBaselineNet L g ip \<longleftrightarrow> list_ex (\<lambda>n. al_in L n ip) g"

definition allowBaseline :: "('ip, 'net) addr_lib \<Rightarrow> 'net list option \<Rightarrow> string \<Rightarrow> bool" where
  "allowBaseline L g a =
     (case g of
        None \<Rightarrow> True
      | Some nets \<Rightarrow>
          if nets = [] then True
          else case SplitHostPort a of
              None \<Rightarrow> False
            | Some (host, port) \<Rightarrow> (case al_ip L host of None \<Rightarrow> False | Some ip \<Rightarrow> inBaselineNet L nets ip))"

definition TakeoverPortMin :: int where "TakeoverPortMin = 20000"
definition TakeoverPortMax :: int where "TakeoverPortMax = 32000"

definition allowTakeover :: "('ip, 'net) addr_lib \<Rightarrow> 'net list option \<Rightarrow> string \<Rightarrow> bool" where
  "allowTakeover L g a =
     (case SplitHostPort a of
        None \<Rightarrow> False
      | Some (host, port) \<Rightarrow>
          (case parse_int64 port of
             None \<Rightarrow> False
           | Some p \<Rightarrow>
               if p < TakeoverPortMin \<or> p \<ge> TakeoverPortMax then False
               else (case al_ip L host of
                   None \<Rightarrow> False
                 | Some ip \<Rightarrow> (case g of None \<Rightarrow> True | Some nets \<Rightarrow> nets = [] \<or> \<not> inBaselineNet L nets ip))))"

definition new_inst :: "ninst \<Rightarrow> inst" where
  "new_inst i = \<lparr>addr = ni_Addr i, dev_tag = ni_Metadata i ''dev-tag''\<rparr>"

definition tag_meta :: "ninst \<Rightarrow> string" where
  "tag_meta i = (case ni_Metadata i ''dev-tag'' of None \<Rightarrow> [] | Some t \<Rightarrow> t)"

definition mergeInstances :: "('ip, 'net) addr_lib \<Rightarrow> ninst list \<Rightarrow> ninst list \<Rightarrow> 'net list option \<Rightarrow> inst list" where
  "mergeInstances L base takeovers g =
     map new_inst (filter (\<lambda>i. tag_meta i = [] \<and> allowBaseline L g (ni_Addr i)) base) @
     map new_inst (filter (\<lambda>i. ValidTag (tag_meta i) \<and> allowTakeover L g (ni_Addr i)) takeovers)"

text \<open>
  \<^verbatim>\<open>Resolve\<close>: what Kitex is told of a service, given what the SDK answers. \<open>watcher\<close>:
  the answer of the takeover group and what the second client knows of the service there;
  \<open>None\<close>: tagged routing is off, or the second client could not be made.
\<close>

definition Resolve ::
  "('ip, 'net) addr_lib \<Rightarrow> 'net list option \<Rightarrow> string \<Rightarrow> string + ninst list \<Rightarrow> service \<Rightarrow>
     ((string + ninst list) \<times> service) option \<Rightarrow> (string + result) \<times> service \<times> service option" where
  "Resolve L g desc answer s watcher =
     (case watcher of
        None \<Rightarrow>
          (case Instances answer s of
             (Inl e, s') \<Rightarrow> (Inl e, s', None)
           | (Inr l, s') \<Rightarrow> (Inr \<lparr>cacheable = True, cache_key = desc, instances = map new_inst l\<rparr>, s', None))
      | Some (wanswer, ws) \<Rightarrow>
          (case Lookup answer s of
             (Inl e, s') \<Rightarrow> (Inl e, s', Some ws)
           | (Inr l, s') \<Rightarrow>
               (case Lookup wanswer ws of
                  (w, ws') \<Rightarrow>
                    let ins = mergeInstances L l (case w of Inl _ \<Rightarrow> [] | Inr t \<Rightarrow> t) g
                    in (if ins = [] then Inl ''no instance can take requests''
                        else Inr \<lparr>cacheable = True, cache_key = desc, instances = ins\<rparr>, s', Some ws'))))"

text \<open>\<^verbatim>\<open>diffWithTags\<close>: whether a change is seen. \<open>default\<close>: Kitex's \<^verbatim>\<open>DefaultDiff\<close>.\<close>

definition tagSignature :: "inst list \<Rightarrow> string" where
  "tagSignature l = go_join '';'' (sort (map (\<lambda>i. addr i @ ''='' @ (case dev_tag i of None \<Rightarrow> [] | Some t \<Rightarrow> t)) l))"

definition diffWithTags :: "(inst list \<Rightarrow> inst list \<Rightarrow> bool) \<Rightarrow> inst list \<Rightarrow> inst list \<Rightarrow> bool" where
  "diffWithTags differs prev next_list \<longleftrightarrow> differs prev next_list \<or> tagSignature prev \<noteq> tagSignature next_list"

text \<open>
  The resolver of a takeover instance: the tunnels of its marker, and nothing else; and which
  resolver a service's clients have (\<^verbatim>\<open>ClientOptions\<close>). \<open>watcher\<close>: the second client could
  be made.
\<close>

definition takeover_Resolve :: "(string \<Rightarrow> string option) \<Rightarrow> string \<Rightarrow> string + result" where
  "takeover_Resolve services desc =
     (case services desc of
        None \<Rightarrow> Inl ''takeover mode has no tunnel to the service''
      | Some a \<Rightarrow> Inr \<lparr>cacheable = True, cache_key = desc, instances = [\<lparr>addr = a, dev_tag = None\<rparr>]\<rparr>)"

datatype 'net resolver = NoDiscovery | ByTunnels "string \<Rightarrow> string option" | ByNacos bool "'net list option"

definition client_resolver :: "bool \<Rightarrow> marker option \<Rightarrow> svc_conf \<Rightarrow> env \<Rightarrow> bool \<Rightarrow> 'net list \<Rightarrow> 'net resolver" where
  "client_resolver registry_disabled m cfg env watcher guard =
     (if registry_disabled then NoDiscovery
      else case (if inTakeover m cfg then m else None) of
          Some mk \<Rightarrow> ByTunnels (tm_Services mk)
        | None \<Rightarrow>
            if devroute_Enabled env m (sc_devroute cfg) then ByNacos watcher (Some guard) else ByNacos False None)"

definition resolve_with ::
  "'net resolver \<Rightarrow> ('ip, 'net) addr_lib \<Rightarrow> string \<Rightarrow> string + ninst list \<Rightarrow> service \<Rightarrow> string + ninst list \<Rightarrow> service \<Rightarrow> string + result" where
  "resolve_with r L desc answer s wanswer ws =
     (case r of
        NoDiscovery \<Rightarrow> Inl ''no discovery''
      | ByTunnels services \<Rightarrow> takeover_Resolve services desc
      | ByNacos watcher guard \<Rightarrow> fst (Resolve L guard desc answer s (if watcher then Some (wanswer, ws) else None)))"

section \<open>Lists of instances\<close>

definition in_order :: "ninst list \<Rightarrow> bool" where
  "in_order l \<longleftrightarrow> sorted (map ni_Addr l) \<and> distinct (map ni_Addr l)"

text \<open>What matters of a list to a caller.\<close>

definition inst_states :: "ninst list \<Rightarrow> (string \<times> rat \<times> bool \<times> bool) list" where
  "inst_states l = map (\<lambda>i. (ni_Addr i, inst_state i)) l"

lemma at_addr_Some: "at_addr l a = Some i \<Longrightarrow> i \<in> set l \<and> ni_Addr i = a"
  by (auto simp: at_addr_def find_Some_iff in_set_conv_nth)

lemma at_addr_None: "at_addr l a = None \<longleftrightarrow> a \<notin> ni_Addr ` set l"
  by (auto simp: at_addr_def find_None_iff)

lemma at_addr_mem: "distinct (map ni_Addr l) \<Longrightarrow> i \<in> set l \<Longrightarrow> at_addr l (ni_Addr i) = Some i"
  by (induction l) (auto simp: at_addr_def)

lemma at_addr_the: "a \<in> ni_Addr ` set l \<Longrightarrow> \<exists>i. at_addr l a = Some i"
  using at_addr_None [of l a] by auto

lemma map_addr_by_addr: "map ni_Addr (by_addr l) = sort (remdups (map ni_Addr l))"
  unfolding by_addr_def map_map
proof (rule map_idI)
  fix a
  assume "a \<in> set (sort (remdups (map ni_Addr l)))"
  then obtain i where "at_addr (rev l) a = Some i" using at_addr_the [of a "rev l"] by auto
  then show "(ni_Addr \<circ> (\<lambda>a. the (at_addr (rev l) a))) a = a" by (auto dest: at_addr_Some)
qed

lemma in_order_by_addr: "in_order (by_addr l)"
  by (simp add: in_order_def map_addr_by_addr)

lemma by_addr_Nil: "by_addr [] = []"
  by (simp add: by_addr_def)

lemma states_by_addr:
  "distinct (map ni_Addr l) \<Longrightarrow> inst_states l = map (\<lambda>a. (a, inst_state (the (at_addr l a)))) (map ni_Addr l)"
  by (simp add: inst_states_def at_addr_mem cong: map_cong)

lemma sort_key_Nil [simp]: "sort_key f l = [] \<longleftrightarrow> l = []"
  by (metis length_0_conv length_sort)

text \<open>Two lists differ exactly when an address or the state of an address does.\<close>

lemma instanceDiff_Nil:
  "instanceDiff old cur = [] \<longleftrightarrow>
     (\<forall>i\<in>set cur. \<exists>was. at_addr old (ni_Addr i) = Some was \<and> inst_state was = inst_state i) \<and>
     ni_Addr ` set old \<subseteq> ni_Addr ` set cur"
proof -
  have "instanceDiff old cur = [] \<longleftrightarrow>
     (\<forall>i\<in>set cur. (case at_addr old (ni_Addr i) of
          None \<Rightarrow> [Added i]
        | Some was \<Rightarrow> if inst_state was \<noteq> inst_state i then [Changed i (inst_state was)] else []) = []) \<and>
     (\<forall>i\<in>set old. at_addr cur (ni_Addr i) \<noteq> None)"
    by (simp add: instanceDiff_def filter_empty_conv del: not_None_eq)
  also have "(\<forall>i\<in>set old. at_addr cur (ni_Addr i) \<noteq> None) \<longleftrightarrow> ni_Addr ` set old \<subseteq> ni_Addr ` set cur"
    unfolding at_addr_None by auto
  also have "(\<forall>i\<in>set cur. (case at_addr old (ni_Addr i) of
          None \<Rightarrow> [Added i]
        | Some was \<Rightarrow> if inst_state was \<noteq> inst_state i then [Changed i (inst_state was)] else []) = []) \<longleftrightarrow>
      (\<forall>i\<in>set cur. \<exists>was. at_addr old (ni_Addr i) = Some was \<and> inst_state was = inst_state i)"
    by (intro ball_cong refl) (auto split: option.split)
  finally show ?thesis .
qed

lemma instanceDiff_exact:
  assumes "in_order old" and "in_order cur"
  shows "instanceDiff old cur = [] \<longleftrightarrow> inst_states old = inst_states cur"
proof
  assume "instanceDiff old cur = []"
  then have st: "\<And>i. i \<in> set cur \<Longrightarrow> \<exists>was. at_addr old (ni_Addr i) = Some was \<and> inst_state was = inst_state i"
    and sub: "ni_Addr ` set old \<subseteq> ni_Addr ` set cur"
    by (simp_all add: instanceDiff_Nil)
  have "ni_Addr ` set cur \<subseteq> ni_Addr ` set old"
  proof
    fix a
    assume "a \<in> ni_Addr ` set cur"
    with st obtain was where "at_addr old a = Some was" by auto
    with at_addr_None [of old a] show "a \<in> ni_Addr ` set old" by (cases "a \<in> ni_Addr ` set old") auto
  qed
  with sub have "set (map ni_Addr old) = set (map ni_Addr cur)" by auto
  with assms have addrs: "map ni_Addr old = map ni_Addr cur"
    by (simp add: in_order_def sorted_distinct_set_unique)
  have "inst_state (the (at_addr old a)) = inst_state (the (at_addr cur a))" if "a \<in> set (map ni_Addr cur)" for a
  proof -
    from that obtain i where i: "i \<in> set cur" "ni_Addr i = a" by auto
    with assms(2) have "at_addr cur a = Some i" by (auto simp: in_order_def at_addr_mem)
    with st [OF i(1)] i(2) show ?thesis by auto
  qed
  with assms addrs show "inst_states old = inst_states cur"
    by (simp add: states_by_addr in_order_def)
next
  assume eq: "inst_states old = inst_states cur"
  then have "set (inst_states old) = set (inst_states cur)" by simp
  then have sets: "(\<lambda>i. (ni_Addr i, inst_state i)) ` set old = (\<lambda>i. (ni_Addr i, inst_state i)) ` set cur"
    by (simp add: inst_states_def)
  have "\<exists>was. at_addr old (ni_Addr i) = Some was \<and> inst_state was = inst_state i" if "i \<in> set cur" for i
  proof -
    from that sets have "(ni_Addr i, inst_state i) \<in> (\<lambda>i. (ni_Addr i, inst_state i)) ` set old" by auto
    then obtain was where "was \<in> set old" "ni_Addr was = ni_Addr i" "inst_state was = inst_state i" by auto
    with assms(1) at_addr_mem [of old was] show ?thesis by (auto simp: in_order_def)
  qed
  moreover have "ni_Addr ` set old \<subseteq> ni_Addr ` set cur"
  proof
    fix a
    assume "a \<in> ni_Addr ` set old"
    then have "a \<in> fst ` ((\<lambda>i. (ni_Addr i, inst_state i)) ` set old)" by (auto simp: image_iff)
    then show "a \<in> ni_Addr ` set cur" unfolding sets by auto
  qed
  ultimately show "instanceDiff old cur = []" by (simp add: instanceDiff_Nil)
qed

section \<open>Subscribers\<close>

text \<open>
  What happens to a service of a client: a push, the answer of a look-up (both of them
  lists converted by \<^verbatim>\<open>convert\<close>, in the order of the addresses), a new subscriber.
\<close>

datatype sevent = Pushed "ninst list" | Looked "ninst list" | Subscribed

fun sv_step :: "sevent \<Rightarrow> service \<Rightarrow> service" where
  "sv_step (Pushed l) s = snd (observe l True s)"
| "sv_step (Looked l) s = snd (observe l False s)"
| "sv_step Subscribed s = Subscribe s"

definition new_service :: service where
  "new_service = \<lparr>sv_seen = False, sv_known = [], sv_subs = []\<rparr>"

text \<open>The list of the last event that says anything: an empty answer of a look-up does not.\<close>

definition sv_says :: "sevent \<Rightarrow> ninst list \<Rightarrow> ninst list" where
  "sv_says e l = (case e of Pushed n \<Rightarrow> by_addr n | Looked n \<Rightarrow> if n = [] then l else by_addr n | Subscribed \<Rightarrow> l)"

definition sv_inv :: "ninst list \<Rightarrow> service \<Rightarrow> bool" where
  "sv_inv l s \<longleftrightarrow> sv_known s = l \<and> in_order l \<and> list_all (\<lambda>h. inst_states h = inst_states l) (sv_subs s) \<and>
     (sv_seen s \<or> l = [])"

lemma sv_inv_observe:
  assumes "sv_inv l s" and "pushed \<or> n \<noteq> [] \<or> \<not> sv_seen s"
  shows "sv_inv (by_addr n) (snd (observe n pushed s))"
proof (cases "instanceDiff (sv_known s) (by_addr n) = [] \<and> sv_seen s")
  case True
  with assms(1) have "inst_states l = inst_states (by_addr n)"
    using instanceDiff_exact [of l "by_addr n"] in_order_by_addr by (simp add: sv_inv_def)
  with True assms show ?thesis
    by (auto simp: sv_inv_def observe_def Let_def in_order_by_addr)
next
  case False
  with assms show ?thesis
    by (auto simp: sv_inv_def observe_def Let_def in_order_by_addr list_all_iff)
qed

lemma sv_inv_step: "sv_inv l s \<Longrightarrow> sv_inv (sv_says e l) (sv_step e s)"
proof (cases e)
  case (Pushed n)
  moreover assume "sv_inv l s"
  ultimately show ?thesis using sv_inv_observe [of l s True n] by (simp add: sv_says_def)
next
  case (Looked n)
  moreover assume inv: "sv_inv l s"
  moreover have "sv_inv l (snd (observe n False s))" if "n = []"
    using inv that sv_inv_observe [of l s False n] by (cases "sv_seen s") (auto simp: sv_inv_def observe_def by_addr_Nil)
  ultimately show ?thesis using sv_inv_observe [of l s False n] by (simp add: sv_says_def)
next
  case Subscribed
  moreover assume "sv_inv l s"
  ultimately show ?thesis by (simp add: sv_says_def sv_inv_def Subscribe_def)
qed

lemma sv_inv_run: "sv_inv l s \<Longrightarrow> sv_inv (fold sv_says es l) (fold sv_step es s)"
  by (induction es arbitrary: l s) (simp_all add: sv_inv_step)

lemma usable_of_states:
  "map ni_Addr (filter usable l) = map fst (filter (\<lambda>(a, w, h, e). h \<and> e \<and> w > 0) (inst_states l))"
  by (induction l) (simp_all add: inst_states_def usable_def inst_state_def)

lemma usable_states: "inst_states l = inst_states m \<Longrightarrow> map ni_Addr (filter usable l) = map ni_Addr (filter usable m)"
  by (simp only: usable_of_states)

text \<open>
  A change of the metadata alone is no change of the list: subscribers keep the old one.
\<close>

lemma subscriber_misses_metadata:
  "let i = \<lparr>ni_Addr = ''10.2.0.7:8888'', ni_Weight = 10, ni_Healthy = True, ni_Enabled = True, ni_Metadata = Map.empty\<rparr>;
       j = i\<lparr>ni_Metadata := [''dev-tag'' \<mapsto> ''alice'']\<rparr>;
       s = fold sv_step [Pushed [i], Subscribed, Pushed [j]] new_service
   in sv_known s = [j] \<and> sv_subs s = [[i]]"
  by (simp add: Let_def new_service_def observe_def Subscribe_def by_addr_def at_addr_def instanceDiff_def inst_state_def)

section \<open>The instances a request can get\<close>

definition in_pods :: "('ip, 'net) addr_lib \<Rightarrow> 'net list \<Rightarrow> string \<Rightarrow> bool" where
  "in_pods L nets a \<longleftrightarrow> (\<exists>host port ip. SplitHostPort a = Some (host, port) \<and> al_ip L host = Some ip \<and> inBaselineNet L nets ip)"

definition on_tunnel :: "('ip, 'net) addr_lib \<Rightarrow> 'net list \<Rightarrow> string \<Rightarrow> bool" where
  "on_tunnel L nets a \<longleftrightarrow> (\<exists>host port p ip. SplitHostPort a = Some (host, port) \<and> parse_int64 port = Some p \<and>
     20000 \<le> p \<and> p < 32000 \<and> al_ip L host = Some ip \<and> \<not> inBaselineNet L nets ip)"

lemma allowBaseline_in_pods: "nets \<noteq> [] \<Longrightarrow> allowBaseline L (Some nets) a \<longleftrightarrow> in_pods L nets a"
  by (auto simp: allowBaseline_def in_pods_def split: option.splits)

lemma allowTakeover_on_tunnel: "nets \<noteq> [] \<Longrightarrow> allowTakeover L (Some nets) a \<longleftrightarrow> on_tunnel L nets a"
  by (auto simp: allowTakeover_def on_tunnel_def TakeoverPortMin_def TakeoverPortMax_def split: option.splits)

lemma takeover_new_inst: "takeover (new_inst i) \<longleftrightarrow> tag_meta i \<noteq> []"
  by (auto simp: takeover_def new_inst_def tag_meta_def split: option.split)

lemma ValidTag_nonempty: "ValidTag t \<Longrightarrow> t \<noteq> []"
  by (auto simp: ValidTag_def)

definition well_placed :: "('ip, 'net) addr_lib \<Rightarrow> 'net list \<Rightarrow> inst \<Rightarrow> bool" where
  "well_placed L nets i \<longleftrightarrow> (if takeover i then on_tunnel L nets (addr i) else in_pods L nets (addr i))"

lemma mergeInstances_well_placed:
  "nets \<noteq> [] \<Longrightarrow> i \<in> set (mergeInstances L base takeovers (Some nets)) \<Longrightarrow> well_placed L nets i"
  by (auto simp: mergeInstances_def well_placed_def takeover_new_inst allowBaseline_in_pods allowTakeover_on_tunnel
      dest: ValidTag_nonempty) (simp_all add: new_inst_def)

text \<open>
  When the second client could not be made, nothing is checked: an instance outside the
  network of the Pods is used, although routing is on and the guard is there.
\<close>

lemma no_watcher_no_guard:
  "let L = \<lparr>al_ip = (\<lambda>h. Some h), al_in = (\<lambda>n ip. take (length n) ip = n)\<rparr>;
       rogue = \<lparr>ni_Addr = ''10.9.0.9:8888'', ni_Weight = 10, ni_Healthy = True, ni_Enabled = True, ni_Metadata = Map.empty\<rparr>
   in \<not> allowBaseline L (Some [''10.2.'']) (ni_Addr rogue) \<and>
      fst (Resolve L (Some [''10.2.'']) ''order'' (Inr [rogue]) new_service None) =
        Inr \<lparr>cacheable = True, cache_key = ''order'', instances = [new_inst rogue]\<rparr>"
proof -
  have "SplitHostPort ''10.9.0.9:8888'' = Some (''10.9.0.9'', ''8888'')" by code_simp
  then show ?thesis
    by (simp add: Let_def allowBaseline_def inBaselineNet_def Resolve_def Instances_def Lookup_def usable_def)
qed

text \<open>
  The results a client of tagged routing can be told of. \<open>reg\<close> and \<open>treg\<close>: what has been
  registered under a name, in the group of the services and in that of the takeovers;
  \<open>made\<close>: the second client could be made.
\<close>

definition answered :: "string + ninst list \<Rightarrow> ninst set" where
  "answered answer = (case answer of Inl e \<Rightarrow> {} | Inr l \<Rightarrow> {i \<in> set l. usable i})"

definition resolved ::
  "('ip, 'net) addr_lib \<Rightarrow> 'net list \<Rightarrow> (string \<Rightarrow> ninst set) \<Rightarrow> (string \<Rightarrow> ninst set) \<Rightarrow> bool \<Rightarrow> result \<Rightarrow> bool" where
  "resolved L nets reg treg made r \<longleftrightarrow>
     (\<exists>desc answer s wanswer ws. answered answer \<subseteq> reg desc \<and> answered wanswer \<subseteq> treg desc \<and>
        fst (Resolve L (Some nets) desc answer s (if made then Some (wanswer, ws) else None)) = Inr r)"

text \<open>Where an instance comes from, and where it is.\<close>

definition sourced ::
  "('ip, 'net) addr_lib \<Rightarrow> 'net list \<Rightarrow> (string \<Rightarrow> ninst set) \<Rightarrow> (string \<Rightarrow> ninst set) \<Rightarrow> bool \<Rightarrow> string \<Rightarrow> inst \<Rightarrow> bool" where
  "sourced L nets reg treg made k i \<longleftrightarrow>
     (\<exists>n. usable n \<and> i = new_inst n \<and>
        (if made then n \<in> reg k \<and> \<not> takeover i \<and> in_pods L nets (addr i) \<or> n \<in> treg k \<and> takeover i \<and> on_tunnel L nets (addr i)
         else n \<in> reg k))"

lemma Lookup_answered: "Lookup answer s = (Inr l, s') \<Longrightarrow> set l \<subseteq> answered answer \<and> (\<forall>n \<in> set l. usable n)"
  by (auto simp: Lookup_def answered_def Let_def split: sum.splits)

lemma mergeInstances_sourced:
  assumes "nets \<noteq> []" and "set base \<subseteq> reg k" and "set ts \<subseteq> treg k" and "\<forall>n \<in> set base \<union> set ts. usable n"
    and "i \<in> set (mergeInstances L base ts (Some nets))"
  shows "sourced L nets reg treg True k i"
proof -
  from assms(5) consider n where "n \<in> set base" "i = new_inst n" "tag_meta n = []" "allowBaseline L (Some nets) (ni_Addr n)"
    | n where "n \<in> set ts" "i = new_inst n" "ValidTag (tag_meta n)" "allowTakeover L (Some nets) (ni_Addr n)"
    by (auto simp: mergeInstances_def)
  then show ?thesis
  proof cases
    case 1
    then have "\<not> takeover i" "in_pods L nets (addr i)"
      using allowBaseline_in_pods [OF assms(1), of L] by (simp_all add: takeover_new_inst) (simp add: new_inst_def)
    with 1 assms(2,4) show ?thesis unfolding sourced_def by (intro exI [of _ n]) auto
  next
    case 2
    then have "takeover i" "on_tunnel L nets (addr i)"
      using allowTakeover_on_tunnel [OF assms(1), of L] ValidTag_nonempty by (simp_all add: takeover_new_inst) (simp add: new_inst_def)
    with 2 assms(3,4) show ?thesis unfolding sourced_def by (intro exI [of _ n]) auto
  qed
qed

lemma Resolve_sourced:
  assumes nets: "nets \<noteq> []" and ans: "answered answer \<subseteq> reg desc" "answered wanswer \<subseteq> treg desc"
    and r: "fst (Resolve L (Some nets) desc answer s (if made then Some (wanswer, ws) else None)) = Inr r"
  shows "cacheable r \<and> cache_key r = desc \<and> (\<forall>i \<in> set (instances r). sourced L nets reg treg made desc i)"
proof (cases made)
  case False
  obtain l s' where l: "Lookup answer s = (Inr l, s')" and i: "instances r = map new_inst l" "cacheable r" "cache_key r = desc"
    using r False by (auto simp: Resolve_def Instances_def split: prod.splits sum.splits if_splits)
  from Lookup_answered [OF l] ans(1) i False show ?thesis by (auto simp: sourced_def)
next
  case True
  obtain l s' w ws' where l: "Lookup answer s = (Inr l, s')" and w: "Lookup wanswer ws = (w, ws')"
    and i: "instances r = mergeInstances L l (case w of Inl _ \<Rightarrow> [] | Inr t \<Rightarrow> t) (Some nets)" "cacheable r" "cache_key r = desc"
    using r True by (auto simp: Resolve_def Let_def split: prod.splits sum.splits if_splits)
  let ?t = "case w of Inl _ \<Rightarrow> [] | Inr t \<Rightarrow> t"
  have t: "set ?t \<subseteq> treg desc \<and> (\<forall>n \<in> set ?t. usable n)"
    using Lookup_answered [of wanswer ws] w ans(2) by (cases w) auto
  have "sourced L nets reg treg True desc x" if "x \<in> set (instances r)" for x
    by (rule mergeInstances_sourced [OF nets _ _ _ that [unfolded i(1)]]) (use t Lookup_answered [OF l] ans(1) in auto)
  with i True show ?thesis by simp
qed

lemma resolved_sourced:
  "nets \<noteq> [] \<Longrightarrow> resolved L nets reg treg made r \<Longrightarrow>
     cacheable r \<and> (\<forall>i \<in> set (instances r). sourced L nets reg treg made (cache_key r) i)"
  unfolding resolved_def by (elim exE conjE) (drule (3) Resolve_sourced, blast)

fun event_result :: "bevent \<Rightarrow> result" where
  "event_result (Change r) = r"
| "event_result (Gone r) = r"
| "event_result (Request r _ _) = r"

lemma told_from_event:
  "told k es known = Some ins \<Longrightarrow>
     known = Some ins \<or> (\<exists>e\<in>set es. cache_key (event_result e) = k \<and> instances (event_result e) = ins)"
proof (induction es arbitrary: known)
  case (Cons e es)
  from Cons.IH [OF Cons.prems [unfolded told.simps]] show ?case
    by (cases e) (auto split: if_splits)
qed simp

text \<open>The list the balancer goes by for a request.\<close>

lemma going_by:
  assumes "told k es None = x" and "\<forall>e\<in>set es. P (cache_key (event_result e)) (instances (event_result e))" and "P k (instances r)"
  obtains ins where "x = Some ins \<or> x = None \<and> ins = instances r" and "P k ins"
  using assms told_from_event [of k es None] by (cases x) fastforce+

text \<open>
  What a service calls: from a takeover, the tunnels; with tagged routing on and its second
  client made, the Pods and the tunnels of tags.
\<close>

lemma takeover_calls_tunnels:
  assumes "inTakeover m cfg" and "m = Some mk"
    and "resolve_with (client_resolver False m cfg env watcher guard) L desc answer s wanswer ws = Inr r"
  shows "\<exists>a. tm_Services mk desc = Some a \<and> map addr (instances r) = [a]"
  using assms by (auto simp: client_resolver_def resolve_with_def takeover_Resolve_def split: option.splits)

lemma routed_calls_placed:
  assumes "\<not> inTakeover m cfg" and "devroute_Enabled env m (sc_devroute cfg)" and "nets \<noteq> []"
    and "resolve_with (client_resolver False m cfg env True nets) L desc answer s wanswer ws = Inr r"
    and "i \<in> set (instances r)"
  shows "well_placed L nets i"
proof -
  from assms have "fst (Resolve L (Some nets) desc answer s (if True then Some (wanswer, ws) else None)) = Inr r"
    by (simp add: client_resolver_def resolve_with_def)
  from Resolve_sourced [where reg = "\<lambda>_. UNIV" and treg = "\<lambda>_. UNIV", OF assms(3) subset_UNIV subset_UNIV this] assms(5)
  show ?thesis by (auto simp: sourced_def well_placed_def)
qed

section \<open>Changes of tags\<close>

text \<open>An address and its tag as the signature has them.\<close>

definition tag_part :: "inst \<Rightarrow> string" where
  "tag_part i = addr i @ ''='' @ (case dev_tag i of None \<Rightarrow> [] | Some t \<Rightarrow> t)"

definition plain_addr :: "string \<Rightarrow> bool" where
  "plain_addr a \<longleftrightarrow> CHR ''='' \<notin> set a \<and> CHR '';'' \<notin> set a"

lemma tagSignature_eq:
  assumes sig: "tagSignature p = tagSignature n"
    and parts: "p \<noteq> []" "n \<noteq> []" "\<forall>i\<in>set p \<union> set n. CHR '';'' \<notin> set (tag_part i)"
  shows "mset (map tag_part p) = mset (map tag_part n)"
proof -
  have go: "split_on CHR '';'' (tagSignature l) = sort (map tag_part l)"
    if "l \<noteq> []" and "\<forall>i\<in>set l. CHR '';'' \<notin> set (tag_part i)" for l
  proof -
    have "tagSignature l = go_join '';'' (sort (map tag_part l))"
      by (simp add: tagSignature_def tag_part_def [abs_def])
    moreover have "sort (map tag_part l) \<noteq> []" using that(1) by simp
    ultimately show ?thesis using that(2) by (simp add: split_on_go_join)
  qed
  have "sort (map tag_part p) = sort (map tag_part n)" using sig parts go [of p] go [of n] by auto
  then show ?thesis by (metis mset_sort)
qed

lemma with_tag_parts:
  assumes "t \<noteq> []" and "\<forall>i\<in>set l. plain_addr (addr i)"
  shows "map addr (with_tag t l) =
    map (takeWhile (\<lambda>c. c \<noteq> CHR ''='')) (filter (\<lambda>s. tl (dropWhile (\<lambda>c. c \<noteq> CHR ''='') s) = t) (map tag_part l))"
proof -
  have first: "takeWhile (\<lambda>c. c \<noteq> CHR ''='') (tag_part i) = addr i"
    and rest: "(tl (dropWhile (\<lambda>c. c \<noteq> CHR ''='') (tag_part i)) = t) = (dev_tag i = Some t \<and> t \<noteq> [])"
    if "i \<in> set l" for i
  proof -
    have free: "c \<in> set (addr i) \<Longrightarrow> c \<noteq> CHR ''=''" for c using assms(2) that by (auto simp: plain_addr_def)
    show "takeWhile (\<lambda>c. c \<noteq> CHR ''='') (tag_part i) = addr i"
      unfolding tag_part_def by (subst takeWhile_append2) (use free in simp_all)
    have "dropWhile (\<lambda>c. c \<noteq> CHR ''='') (tag_part i) = ''='' @ (case dev_tag i of None \<Rightarrow> [] | Some t \<Rightarrow> t)"
      unfolding tag_part_def by (subst dropWhile_append2) (use free in simp_all)
    then show "(tl (dropWhile (\<lambda>c. c \<noteq> CHR ''='') (tag_part i)) = t) = (dev_tag i = Some t \<and> t \<noteq> [])"
      using assms(1) by (cases "dev_tag i") auto
  qed
  have "filter (\<lambda>s. tl (dropWhile (\<lambda>c. c \<noteq> CHR ''='') s) = t) (map tag_part l) = map tag_part (with_tag t l)"
    unfolding filter_map comp_def with_tag_def by (rule arg_cong [OF filter_cong]) (simp_all add: rest)
  moreover have "map (takeWhile (\<lambda>c. c \<noteq> CHR ''='')) (map tag_part (with_tag t l)) = map addr (with_tag t l)"
    unfolding map_map by (rule map_cong) (simp_all add: with_tag_def first)
  ultimately show ?thesis by simp
qed

lemma mset_map_filter: "mset xs = mset ys \<Longrightarrow> mset (map f (filter P xs)) = mset (map f (filter P ys))"
  by simp

text \<open>A change that is not seen leaves every tag its instances.\<close>

lemma unseen_change_keeps_tags:
  assumes "\<not> diffWithTags differs p n" and "p \<noteq> []" and "n \<noteq> []" and "t \<noteq> []"
    and plain: "\<forall>i\<in>set p \<union> set n. plain_addr (addr i) \<and> (\<forall>t. dev_tag i = Some t \<longrightarrow> CHR '';'' \<notin> set t)"
  shows "mset (map addr (with_tag t p)) = mset (map addr (with_tag t n))"
proof -
  have "\<forall>i\<in>set p \<union> set n. CHR '';'' \<notin> set (tag_part i)"
    using plain by (auto simp: tag_part_def plain_addr_def split: option.split)
  with assms have "mset (map tag_part p) = mset (map tag_part n)" by (intro tagSignature_eq) (auto simp: diffWithTags_def)
  then have "mset (map (takeWhile (\<lambda>c. c \<noteq> CHR ''='')) (filter (\<lambda>s. tl (dropWhile (\<lambda>c. c \<noteq> CHR ''='') s) = t) (map tag_part p))) =
      mset (map (takeWhile (\<lambda>c. c \<noteq> CHR ''='')) (filter (\<lambda>s. tl (dropWhile (\<lambda>c. c \<noteq> CHR ''='') s) = t) (map tag_part n)))"
    by (rule mset_map_filter)
  moreover have "\<forall>i\<in>set p. plain_addr (addr i)" and "\<forall>i\<in>set n. plain_addr (addr i)" using plain by auto
  ultimately show ?thesis by (simp only: with_tag_parts [OF assms(4)])
qed

section \<open>Properties\<close>

text \<open>
  C25. With tagged routing on and the network of the Pods known, whatever changes and requests
  came before, a request goes to an instance that was registered in Nacos under the name of
  its service and could take requests when it was read. When the client of the takeover
  group could be made, that instance has no tag and is in the network of the Pods, or is a
  takeover instance of the service whose tag the request carries, on the ports of the tunnels
  and outside that network. When that client could not be made, no address is checked: it
  is any instance of the service's own group, one with a tag only for a request that carries
  the tag.
\<close>

theorem only_pods_and_tunnels:
  assumes base: "kitex_balancer base"
    and nets: "nets \<noteq> []"
    and events: "\<forall>e\<in>set es. resolved L nets reg treg made (event_result e)"
    and answers: "answered answer \<subseteq> reg desc" "answered wanswer \<subseteq> treg desc"
    and r: "fst (Resolve L (Some nets) desc answer s (if made then Some (wanswer, ws) else None)) = Inr r"
    and got: "request base r tagv rnd (brun base es empty_balancer) = (Some i, b)"
  shows "\<exists>n. usable n \<and> i = new_inst n \<and>
    (if made then
       n \<in> reg desc \<and> \<not> takeover i \<and> in_pods L nets (addr i) \<or>
       n \<in> treg desc \<and> on_tunnel L nets (addr i) \<and> (\<exists>t\<in>set (Tags tagv). dev_tag i = Some t)
     else n \<in> reg desc \<and> (takeover i \<longrightarrow> (\<exists>t\<in>set (Tags tagv). dev_tag i = Some t)))"
proof -
  let ?P = "\<lambda>k l. \<forall>i\<in>set l. sourced L nets reg treg made k i"
  from Resolve_sourced [where reg = reg and treg = treg and desc = desc, OF nets answers r] have r': "cacheable r" "cache_key r = desc" "?P desc (instances r)" by auto
  obtain ins where ins: "told desc es None = Some ins \<or> told desc es None = None \<and> ins = instances r"
    and placed: "?P desc ins"
    by (rule going_by [of desc es _ ?P r]) (use events r' nets in \<open>auto dest: resolved_sourced\<close>)
  from routing_picks [OF base r'(1) ins [folded r'(2)] got]
  have "i \<in> set ins \<and> (takeover i \<longrightarrow> (\<exists>t\<in>set (Tags tagv). dev_tag i = Some t))" by auto
  with placed show ?thesis by (fastforce simp: sourced_def split: if_splits)
qed

theorem only_pods_and_tunnels_witness:
  "let L = \<lparr>al_ip = (\<lambda>h. Some h), al_in = (\<lambda>n ip. take (length n) ip = n)\<rparr>;
       pod = \<lparr>ni_Addr = ''10.2.0.7:8888'', ni_Weight = 10, ni_Healthy = True, ni_Enabled = True, ni_Metadata = Map.empty\<rparr>;
       alice = \<lparr>ni_Addr = ''10.9.0.1:20001'', ni_Weight = 10, ni_Healthy = True, ni_Enabled = True,
         ni_Metadata = [''dev-tag'' \<mapsto> ''alice'']\<rparr>;
       rogue = \<lparr>ni_Addr = ''10.9.0.9:8888'', ni_Weight = 10, ni_Healthy = True, ni_Enabled = True, ni_Metadata = Map.empty\<rparr>;
       r = \<lparr>cacheable = True, cache_key = ''order'', instances = map new_inst [pod, alice]\<rparr>
   in fst (Resolve L (Some [''10.2.'']) ''order'' (Inr [pod, rogue]) new_service (Some (Inr [alice], new_service))) = Inr r \<and>
      fst (request equal_weights r (Some ''alice'') 0 (brun equal_weights [Change r] empty_balancer)) = Some (new_inst alice) \<and>
      on_tunnel L [''10.2.''] (addr (new_inst alice)) \<and> tag_meta alice = ''alice''"
proof -
  let ?L = "\<lparr>al_ip = (\<lambda>h. Some h), al_in = (\<lambda>n ip. take (length n) ip = n)\<rparr>"
  let ?pod = "\<lparr>ni_Addr = ''10.2.0.7:8888'', ni_Weight = 10, ni_Healthy = True, ni_Enabled = True, ni_Metadata = Map.empty\<rparr>"
  let ?alice = "\<lparr>ni_Addr = ''10.9.0.1:20001'', ni_Weight = 10, ni_Healthy = True, ni_Enabled = True,
     ni_Metadata = [''dev-tag'' \<mapsto> ''alice'']\<rparr>"
  let ?rogue = "\<lparr>ni_Addr = ''10.9.0.9:8888'', ni_Weight = 10, ni_Healthy = True, ni_Enabled = True, ni_Metadata = Map.empty\<rparr>"
  let ?r = "\<lparr>cacheable = True, cache_key = ''order'', instances = map new_inst [?pod, ?alice]\<rparr>"
  have port: "parse_int64 ''20001'' = Some 20001"
    by (simp add: parse_int64_def parse_int_def parse_nat_def char_digit_def)
  have sp: "SplitHostPort ''10.2.0.7:8888'' = Some (''10.2.0.7'', ''8888'')" by code_simp
  have sa: "SplitHostPort ''10.9.0.1:20001'' = Some (''10.9.0.1'', ''20001'')" by code_simp
  have sr: "SplitHostPort ''10.9.0.9:8888'' = Some (''10.9.0.9'', ''8888'')" by code_simp
  have tag: "ValidTag ''alice''" by code_simp
  have tags: "Tags (Some ''alice'') = [''alice'']" by code_simp
  have r: "fst (Resolve ?L (Some [''10.2.'']) ''order'' (Inr [?pod, ?rogue]) new_service (Some (Inr [?alice], new_service))) = Inr ?r"
    by (simp add: Let_def Resolve_def Lookup_def usable_def mergeInstances_def tag_meta_def allowBaseline_def allowTakeover_def
        inBaselineNet_def TakeoverPortMin_def TakeoverPortMax_def port tag sp sa sr)
  let ?reg = "\<lambda>_. {?pod, ?rogue}" and ?treg = "\<lambda>_. {?alice}"
  have ans: "answered (Inr [?pod, ?rogue]) \<subseteq> ?reg ''order''" "answered (Inr [?alice]) \<subseteq> ?treg ''order''"
    by (auto simp: answered_def)
  have r2: "fst (Resolve ?L (Some [''10.2.'']) ''order'' (Inr [?pod, ?rogue]) new_service (if True then Some (Inr [?alice], new_service) else None)) = Inr ?r"
    using r by simp
  have ev: "\<forall>e\<in>set [Change ?r]. resolved ?L [''10.2.''] ?reg ?treg True (event_result e)"
  proof -
    have "resolved ?L [''10.2.''] ?reg ?treg True ?r"
      unfolding resolved_def by (intro exI conjI) (rule ans(1), rule ans(2), rule r2)
    then show ?thesis by simp
  qed
  obtain g b where g: "request equal_weights ?r (Some ''alice'') 0 (brun equal_weights [Change ?r] empty_balancer) = (g, b)" by fastforce
  have got: "g = Some (new_inst ?alice)"
    using g by (auto simp: request_def GetPicker_def brun_def Rebalance_def note_active_def empty_balancer_def build_def Let_def
        takeover_def new_inst_def tags with_tag_def)
  from only_pods_and_tunnels [OF equal.kitex_balancer_axioms _ ev ans r2, of "Some ''alice''" 0 "new_inst ?alice" b] g got
  have "on_tunnel ?L [''10.2.''] (addr (new_inst ?alice))" by (auto simp: takeover_new_inst tag_meta_def)
  with r g got show ?thesis unfolding Let_def by (intro conjI) (simp_all add: tag_meta_def)
qed

text \<open>
  A subscriber always holds the list of now. After any pushes, answers and
  subscriptions, what is known of a service is the last list that said anything, in the
  order of the addresses, and the list each subscriber was called with last has the same
  instances in the same states, so the same ones can take requests.
\<close>

lemma subscribers_current:
  "let l = fold sv_says es []; s = fold sv_step es new_service
   in sv_known s = l \<and> in_order l \<and>
      list_all (\<lambda>held. inst_states held = inst_states l \<and>
        map ni_Addr (filter usable held) = map ni_Addr (filter usable l)) (sv_subs s)"
proof -
  have "sv_inv [] new_service" by (simp add: sv_inv_def new_service_def in_order_def)
  from sv_inv_run [OF this, of es] show ?thesis
    unfolding Let_def sv_inv_def list_all_iff using usable_states by blast
qed

end
