(* ===== verification/Runtime.thy ===== *)
theory Runtime
  imports Discovery
begin

text \<open>
  Starting and stopping a service (\<^verbatim>\<open>kitexx/runtime.go\<close>, \<^verbatim>\<open>kitexx/kitexx.go\<close>,
  \<^verbatim>\<open>kitexx/shutdown.go\<close>, \<^verbatim>\<open>hertzx/hertzx.go\<close>): what is opened in which order, the hooks
  that close it, and what happens between the start of a server and its end. Whether a
  connection can be opened, a port listened on or Nacos told is an argument.
\<close>

section \<open>Shutdown hooks\<close>

datatype hook_end = HookOk | HookErr | HookPanic

type_synonym 'w hook = "string \<times> ('w \<Rightarrow> hook_end \<times> 'w)"

definition OnShutdown :: "string \<Rightarrow> ('w \<Rightarrow> hook_end \<times> 'w) \<Rightarrow> 'w hook list \<Rightarrow> 'w hook list" where
  "OnShutdown name fn hooks = hooks @ [(name, fn)]"

fun run_hooks :: "'w hook list \<Rightarrow> 'w \<Rightarrow> (string \<times> hook_end) list \<times> 'w" where
  "run_hooks [] w = ([], w)"
| "run_hooks ((name, fn) # hs) w =
     (case fn w of (e, w') \<Rightarrow> (case run_hooks hs w' of (ends, w'') \<Rightarrow> ((name, e) # ends, w'')))"

text \<open>Every hook runs, the last registered first; none is left for a second call.\<close>

definition RunShutdownHooks :: "'w hook list \<Rightarrow> 'w \<Rightarrow> ((string \<times> hook_end) list \<times> 'w) \<times> 'w hook list" where
  "RunShutdownHooks hooks w = (run_hooks (rev hooks) w, [])"

lemma run_hooks_all: "map fst (fst (run_hooks hs w)) = map fst hs"
proof (induction hs arbitrary: w)
  case (Cons h hs)
  obtain name fn where h: "h = (name, fn)" by fastforce
  obtain e w' where "fn w = (e, w')" by fastforce
  moreover obtain ends w'' where "run_hooks hs w' = (ends, w'')" by fastforce
  ultimately show ?case using h Cons.IH [of w'] by simp
qed simp

section \<open>What a runtime opens\<close>

datatype resource = Tracing | Metrics | MySQL | DelayedTasks | Redis | IdLease | OutboxRelay | Kafka | Report

text \<open>The switches of the configuration.\<close>

record run_conf =
  rc_otel :: bool
  rc_metrics :: bool
  rc_mysql :: bool
  rc_delay :: bool
  rc_redis :: bool
  rc_kafka :: bool
  rc_outbox :: bool
  rc_centrifugo :: bool
  rc_report :: bool
  rc_s3 :: bool
  rc_takeover :: bool   \<comment> \<open>\<open>inTakeover\<close> of this process and this service\<close>

text \<open>
  What can fail on the way: \<open>answer step\<close> is its error. Metrics that cannot be served are a
  warning.
\<close>

datatype open_step = Bootstrapping | ServingMetrics | OpeningMySQL | CreatingTables | OpeningRedis | OpeningID | OpeningKafka | OpeningCentrifugo | OpeningReport | OpeningS3 | OpeningProviders

record runtime =
  rt_hooks :: "resource list"       \<comment> \<open>in the order of \<open>OnShutdown\<close>\<close>
  rt_starters :: "resource list"    \<comment> \<open>in the order of \<open>OnStart\<close>\<close>
  rt_db :: bool
  rt_redis :: bool
  rt_kafka :: bool

type_synonym answers = "open_step \<Rightarrow> string option"

definition opened :: "answers \<Rightarrow> open_step \<Rightarrow> (runtime \<Rightarrow> runtime) \<Rightarrow> runtime \<Rightarrow> string + runtime" where
  "opened ans step upd rt = (case ans step of Some e \<Rightarrow> Inl e | None \<Rightarrow> Inr (upd rt))"

definition hooked :: "resource \<Rightarrow> runtime \<Rightarrow> runtime" where
  "hooked r rt = rt\<lparr>rt_hooks := rt_hooks rt @ [r]\<rparr>"

definition Bootstrap :: "run_conf \<Rightarrow> answers \<Rightarrow> runtime \<Rightarrow> string + runtime" where
  "Bootstrap c ans rt = opened ans Bootstrapping (if rc_otel c then hooked Tracing else id) rt"

definition serveMetrics :: "run_conf \<Rightarrow> answers \<Rightarrow> runtime \<Rightarrow> runtime" where
  "serveMetrics c ans rt = (if rc_metrics c \<and> ans ServingMetrics = None then hooked Metrics rt else rt)"

definition openMySQL :: "run_conf \<Rightarrow> answers \<Rightarrow> runtime \<Rightarrow> string + runtime" where
  "openMySQL c ans rt =
     (if \<not> rc_mysql c then Inr rt else opened ans OpeningMySQL (\<lambda>rt. hooked MySQL (rt\<lparr>rt_db := True\<rparr>)) rt)"

definition openDelay :: "run_conf \<Rightarrow> runtime \<Rightarrow> runtime" where
  "openDelay c rt =
     (if \<not> rt_db rt \<or> \<not> rc_delay c then rt
      else hooked DelayedTasks (rt\<lparr>rt_starters := rt_starters rt @ [DelayedTasks]\<rparr>))"

definition openRedis :: "run_conf \<Rightarrow> answers \<Rightarrow> runtime \<Rightarrow> string + runtime" where
  "openRedis c ans rt =
     (if \<not> rc_redis c then Inr rt else opened ans OpeningRedis (\<lambda>rt. hooked Redis (rt\<lparr>rt_redis := True\<rparr>)) rt)"

definition openID :: "answers \<Rightarrow> runtime \<Rightarrow> string + runtime" where
  "openID ans rt = opened ans OpeningID (hooked IdLease) rt"

definition with_outbox :: "run_conf \<Rightarrow> runtime \<Rightarrow> runtime" where
  "with_outbox c rt =
     (if rt_db rt \<and> rc_outbox c \<and> \<not> rc_takeover c
      then hooked OutboxRelay (rt\<lparr>rt_starters := rt_starters rt @ [OutboxRelay]\<rparr>) else rt)"

definition openKafka :: "run_conf \<Rightarrow> answers \<Rightarrow> runtime \<Rightarrow> string + runtime" where
  "openKafka c ans rt =
     (if \<not> rc_kafka c then Inr rt
      else opened ans OpeningKafka (\<lambda>rt. hooked Kafka (with_outbox c (rt\<lparr>rt_kafka := True\<rparr>))) rt)"

definition openOther :: "bool \<Rightarrow> open_step \<Rightarrow> answers \<Rightarrow> (runtime \<Rightarrow> runtime) \<Rightarrow> runtime \<Rightarrow> string + runtime" where
  "openOther on step ans upd rt = (if \<not> on then Inr rt else opened ans step upd rt)"

definition and_then :: "string + runtime \<Rightarrow> (runtime \<Rightarrow> string + runtime) \<Rightarrow> string + runtime" where
  "and_then r f = (case r of Inl e \<Rightarrow> Inl e | Inr x \<Rightarrow> f x)"

definition new_runtime :: runtime where
  "new_runtime = \<lparr>rt_hooks = [], rt_starters = [], rt_db = False, rt_redis = False, rt_kafka = False\<rparr>"

text \<open>
  \<^verbatim>\<open>NewRuntime\<close>: everything in its order; the first error ends it. \<^verbatim>\<open>applyTakeover\<close> has
  switched the metrics off by then.
\<close>

definition NewRuntime :: "run_conf \<Rightarrow> answers \<Rightarrow> string + runtime" where
  "NewRuntime c ans =
     (let c = (if rc_takeover c then c\<lparr>rc_metrics := False\<rparr> else c)
      in and_then (Bootstrap c ans new_runtime) (\<lambda>rt.
         and_then (openMySQL c ans (serveMetrics c ans rt)) (\<lambda>rt.
         and_then (opened ans CreatingTables id rt) (\<lambda>rt.
         and_then (openRedis c ans (openDelay c rt)) (\<lambda>rt.
         and_then (openID ans rt) (\<lambda>rt.
         and_then (openKafka c ans rt) (\<lambda>rt.
         and_then (openOther (rc_centrifugo c) OpeningCentrifugo ans id rt) (\<lambda>rt.
         and_then (openOther (rc_report c) OpeningReport ans (hooked Report) rt) (\<lambda>rt.
         and_then (openOther (rc_s3 c) OpeningS3 ans id rt) (\<lambda>rt.
           opened ans OpeningProviders id rt))))))))))"

section \<open>Starting and stopping\<close>

datatype run_event = Gated | Starting resource | NotStarting resource | Consuming | Listening | Registered | Deregistered | Waited int | Closed | Drained int | Stopped resource | NacosClosed

definition hook_events :: "resource list \<Rightarrow> run_event list" where
  "hook_events hooks = map Stopped (rev hooks)"

text \<open>
  \<^verbatim>\<open>RunStarters\<close>: what was registered with \<open>OnStart\<close>, up to the first error. The starter of
  the delayed tasks starts nothing in a takeover or when no handler was registered.
\<close>

fun RunStarters :: "(resource \<Rightarrow> bool) \<Rightarrow> (resource \<Rightarrow> string option) \<Rightarrow> resource list \<Rightarrow> string option \<times> run_event list" where
  "RunStarters quiet err [] = (None, [])"
| "RunStarters quiet err (r # rs) =
     (if quiet r then (case RunStarters quiet err rs of (e, tr) \<Rightarrow> (e, NotStarting r # tr))
      else case err r of
          Some e \<Rightarrow> (Some e, [])
        | None \<Rightarrow> (case RunStarters quiet err rs of (e, tr) \<Rightarrow> (e, Starting r # tr)))"

text \<open>
  What happens to an RPC server: the error of the check of the idempotency store, of the
  gate, of a starter, of the consumers. \<open>serve\<close> is Kitex's \<^verbatim>\<open>Run\<close>, given what the registry
  does when it is told to leave.
\<close>

record rpc_start =
  rs_store :: "string option"
  rs_gate :: "string option"
  rs_starter :: "resource \<Rightarrow> string option"
  rs_handlers :: bool
  rs_consumers :: "string option"

definition delayed_Deregister :: "int \<Rightarrow> run_event list" where
  "delayed_Deregister wait = Deregistered # (if wait > 0 then [Waited wait] else [])"

type_synonym kitex_run = "run_event list \<Rightarrow> string option \<times> run_event list"

definition Run_server :: "kitex_run \<Rightarrow> bool \<Rightarrow> int \<Rightarrow> runtime \<Rightarrow> string option \<times> run_event list" where
  "Run_server serve registry wait rt =
     (case serve (if registry then delayed_Deregister wait else []) of
        (e, tr) \<Rightarrow> (e, tr @ hook_events (rt_hooks rt) @ [NacosClosed]))"

definition Runtime_Run :: "run_conf \<Rightarrow> rpc_start \<Rightarrow> kitex_run \<Rightarrow> bool \<Rightarrow> int \<Rightarrow> runtime \<Rightarrow> string option \<times> run_event list" where
  "Runtime_Run c s serve registry wait rt =
     (case rs_store s of
        Some e \<Rightarrow> (Some e, [])
      | None \<Rightarrow>
          (case rs_gate s of
             Some e \<Rightarrow> (Some e, [])
           | None \<Rightarrow>
               (case RunStarters (\<lambda>r. r = DelayedTasks \<and> (rc_takeover c \<or> \<not> rs_handlers s)) (rs_starter s) (rt_starters rt) of
                  (Some e, tr) \<Rightarrow> (Some e, Gated # tr)
                | (None, tr) \<Rightarrow>
                    if rt_kafka rt \<and> \<not> rc_takeover c then
                      (case rs_consumers s of
                         Some e \<Rightarrow> (Some e, Gated # tr)
                       | None \<Rightarrow> (case Run_server serve registry wait rt of (e, tr') \<Rightarrow> (e, Gated # tr @ Consuming # tr')))
                    else (case Run_server serve registry wait rt of (e, tr') \<Rightarrow> (e, Gated # tr @ tr')))))"

text \<open>\<^verbatim>\<open>run\<close> of a gateway: what stopped it, and what failed.\<close>

datatype stop = Signalled | ServerFailed string

record gate_run =
  gr_addr :: "string option"
  gr_gate :: "string option"
  gr_port :: "string option"
  gr_listening :: "string option"
  gr_register :: "string option"
  gr_stop :: stop
  gr_deregister :: "string option"
  gr_wait :: int
  gr_drain :: int

definition hertz_run :: "bool \<Rightarrow> bool \<Rightarrow> gate_run \<Rightarrow> resource list \<Rightarrow> string option \<times> run_event list" where
  "hertz_run registry registers g hooks =
     (case gr_addr g of Some e \<Rightarrow> (Some e, [])
      | None \<Rightarrow>
     (case gr_gate g of Some e \<Rightarrow> (Some e, hook_events hooks)
      | None \<Rightarrow>
     (case gr_port g of Some e \<Rightarrow> (Some e, Gated # hook_events hooks)
      | None \<Rightarrow>
     (case gr_listening g of Some e \<Rightarrow> (Some e, Gated # hook_events hooks)
      | None \<Rightarrow>
     (case (if registry then gr_register g else None) of
        Some e \<Rightarrow> (Some e, Gated # Listening # Closed # hook_events hooks)
      | None \<Rightarrow>
          let reg = (if registry \<and> registers then [Registered] else []);
              err = (case gr_stop g of Signalled \<Rightarrow> None | ServerFailed e \<Rightarrow> Some e);
              left = (if registry \<and> registers then [Deregistered] else []);
              wait = (if registry \<and> registers \<and> gr_deregister g = None \<and> gr_wait g > 0 \<and> err = None then [Waited (gr_wait g)] else []);
              close = (if err = None then [Closed, Drained (gr_drain g)] else [])
          in (err, Gated # Listening # reg @ left @ wait @ close @ hook_events hooks))))))"

section \<open>The order of the hooks\<close>

definition hook_if :: "bool \<Rightarrow> resource \<Rightarrow> resource list" where
  "hook_if b r = (if b then [r] else [])"

lemma and_then_Inr: "and_then r f = Inr y \<longleftrightarrow> (\<exists>x. r = Inr x \<and> f x = Inr y)"
  by (cases r) (simp_all add: and_then_def)

lemma opened_Inr: "opened ans step upd rt = Inr rt' \<longleftrightarrow> ans step = None \<and> rt' = upd rt"
  by (auto simp: opened_def split: option.split)

lemma openOther_Inr: "openOther on step ans upd rt = Inr rt' \<longleftrightarrow> (if on then ans step = None \<and> rt' = upd rt else rt' = rt)"
  by (auto simp: openOther_def opened_Inr)

definition hooks_of :: "run_conf \<Rightarrow> bool \<Rightarrow> resource list" where
  "hooks_of c metrics =
     hook_if (rc_otel c) Tracing @ hook_if (metrics \<and> rc_metrics c \<and> \<not> rc_takeover c) Metrics @
     hook_if (rc_mysql c) MySQL @ hook_if (rc_mysql c \<and> rc_delay c) DelayedTasks @ hook_if (rc_redis c) Redis @ [IdLease] @
     hook_if (rc_kafka c \<and> rc_mysql c \<and> rc_outbox c \<and> \<not> rc_takeover c) OutboxRelay @ hook_if (rc_kafka c) Kafka @
     hook_if (rc_report c) Report"

definition starters_of :: "run_conf \<Rightarrow> resource list" where
  "starters_of c = hook_if (rc_mysql c \<and> rc_delay c) DelayedTasks @
     hook_if (rc_kafka c \<and> rc_mysql c \<and> rc_outbox c \<and> \<not> rc_takeover c) OutboxRelay"

text \<open>A step adds its hooks and starters and sets its flags.\<close>

definition grown :: "resource list \<Rightarrow> resource list \<Rightarrow> bool \<Rightarrow> bool \<Rightarrow> bool \<Rightarrow> runtime" where
  "grown hooks starters db redis kafka =
     \<lparr>rt_hooks = hooks, rt_starters = starters, rt_db = db, rt_redis = redis, rt_kafka = kafka\<rparr>"

lemma grown_steps:
  "new_runtime = grown [] [] False False False"
  "hooked r (grown h st db rd ka) = grown (h @ [r]) st db rd ka"
  "serveMetrics c ans (grown h st db rd ka) = grown (h @ hook_if (ans ServingMetrics = None \<and> rc_metrics c) Metrics) st db rd ka"
  "openDelay c (grown h st db rd ka) = grown (h @ hook_if (db \<and> rc_delay c) DelayedTasks) (st @ hook_if (db \<and> rc_delay c) DelayedTasks) db rd ka"
  "with_outbox c (grown h st db rd ka) = grown (h @ hook_if (db \<and> rc_outbox c \<and> \<not> rc_takeover c) OutboxRelay)
     (st @ hook_if (db \<and> rc_outbox c \<and> \<not> rc_takeover c) OutboxRelay) db rd ka"
  by (simp_all add: new_runtime_def grown_def hooked_def serveMetrics_def openDelay_def with_outbox_def hook_if_def)

lemma Bootstrap_grown:
  "Bootstrap c ans (grown h st db rd ka) = Inr rt \<Longrightarrow> rt = grown (h @ hook_if (rc_otel c) Tracing) st db rd ka"
  by (auto simp: Bootstrap_def opened_Inr grown_steps hook_if_def split: if_splits)

lemma openMySQL_grown:
  "openMySQL c ans (grown h st False rd ka) = Inr rt \<Longrightarrow> rt = grown (h @ hook_if (rc_mysql c) MySQL) st (rc_mysql c) rd ka"
  by (auto simp: openMySQL_def opened_Inr grown_def hooked_def hook_if_def split: if_splits)

lemma openRedis_grown:
  "openRedis c ans (grown h st db False ka) = Inr rt \<Longrightarrow> rt = grown (h @ hook_if (rc_redis c) Redis) st db (rc_redis c) ka"
  by (auto simp: openRedis_def opened_Inr grown_def hooked_def hook_if_def split: if_splits)

lemma openKafka_grown:
  "openKafka c ans (grown h st db rd False) = Inr rt \<Longrightarrow>
     rt = grown (h @ hook_if (rc_kafka c \<and> db \<and> rc_outbox c \<and> \<not> rc_takeover c) OutboxRelay @ hook_if (rc_kafka c) Kafka)
       (st @ hook_if (rc_kafka c \<and> db \<and> rc_outbox c \<and> \<not> rc_takeover c) OutboxRelay) db rd (rc_kafka c)"
  by (auto simp: openKafka_def opened_Inr grown_def hooked_def with_outbox_def hook_if_def split: if_splits)

lemma NewRuntime_grown:
  assumes "NewRuntime c ans = Inr rt"
  shows "rt = grown (hooks_of c (ans ServingMetrics = None)) (starters_of c) (rc_mysql c) (rc_redis c) (rc_kafka c)"
proof -
  let ?c = "if rc_takeover c then c\<lparr>rc_metrics := False\<rparr> else c"
  from assms obtain r1 r2 r3 r4 r5 r6 r7 r8 where
    1: "Bootstrap ?c ans new_runtime = Inr r1" and 2: "openMySQL ?c ans (serveMetrics ?c ans r1) = Inr r2"
    and 3: "openRedis ?c ans (openDelay ?c r2) = Inr r3" and 4: "openID ans r3 = Inr r4" and 5: "openKafka ?c ans r4 = Inr r5"
    and 6: "openOther (rc_centrifugo ?c) OpeningCentrifugo ans id r5 = Inr r6"
    and 7: "openOther (rc_report ?c) OpeningReport ans (hooked Report) r6 = Inr r7"
    and 8: "openOther (rc_s3 ?c) OpeningS3 ans id r7 = Inr r8" and 9: "opened ans OpeningProviders id r8 = Inr rt"
    unfolding NewRuntime_def Let_def and_then_Inr by (fastforce simp: opened_Inr)
  note r1 = Bootstrap_grown [OF 1 [unfolded grown_steps(1)]]
  note r2 = openMySQL_grown [OF 2 [unfolded r1 grown_steps(3)]]
  note r3 = openRedis_grown [OF 3 [unfolded r2 grown_steps(4)]]
  from 4 r3 have r4: "r4 = hooked IdLease r3" by (simp add: openID_def opened_Inr)
  note r5 = openKafka_grown [OF 5 [unfolded r4 r3 grown_steps(2)]]
  from 6 7 8 9 have "rt = (if rc_report ?c then hooked Report r5 else r5)"
    by (auto simp: openOther_Inr opened_Inr split: if_splits)
  then show ?thesis
    unfolding r5 by (cases "rc_takeover c") (auto simp: grown_steps hooks_of_def starters_of_def hook_if_def)
qed

section \<open>Stopping the workers\<close>

text \<open>
  What runs beside the requests: the consumers of events, the relay of the outbox, the
  delayed tasks. Their handlers may use whatever the service has opened.
\<close>

datatype worker = Consumers | Relay | TaskRunner

fun worker_of :: "resource \<Rightarrow> worker option" where
  "worker_of DelayedTasks = Some TaskRunner"
| "worker_of OutboxRelay = Some Relay"
| "worker_of Kafka = Some Consumers"
| "worker_of _ = None"

text \<open>
  What a hook does. Kafka's waits fifteen seconds for the consumers and closes the client
  whether they are done or not (\<open>in_time\<close>).
\<close>

record stopping =
  sd_todo :: "resource list"
  sd_running :: "worker list"
  sd_closed :: "resource list"

definition run_hook :: "bool \<Rightarrow> resource \<Rightarrow> stopping \<Rightarrow> stopping" where
  "run_hook in_time r s =
     s\<lparr>sd_running := (case worker_of r of
           None \<Rightarrow> sd_running s
         | Some w \<Rightarrow> if w = Consumers \<and> \<not> in_time then sd_running s else filter (\<lambda>v. v \<noteq> w) (sd_running s)),
       sd_closed := (if r \<in> {MySQL, Redis, Kafka, Report, IdLease, Tracing, Metrics} then r # sd_closed s else sd_closed s)\<rparr>"

inductive stop_step :: "bool \<Rightarrow> stopping \<Rightarrow> stopping \<Rightarrow> bool" for in_time where
  hook: "sd_todo s = r # todo \<Longrightarrow> stop_step in_time s (run_hook in_time r (s\<lparr>sd_todo := todo\<rparr>))"

inductive_cases stop_stepE: "stop_step in_time s t"

inductive stop_reach :: "bool \<Rightarrow> resource list \<Rightarrow> worker list \<Rightarrow> stopping \<Rightarrow> bool" for in_time hooks ws where
  start: "stop_reach in_time hooks ws \<lparr>sd_todo = rev hooks, sd_running = ws, sd_closed = []\<rparr>"
| step: "stop_reach in_time hooks ws s \<Longrightarrow> stop_step in_time s t \<Longrightarrow> stop_reach in_time hooks ws t"

text \<open>What has been done, in its order.\<close>

definition done_hooks :: "bool \<Rightarrow> resource list \<Rightarrow> worker list \<Rightarrow> resource list \<Rightarrow> stopping" where
  "done_hooks in_time past ws todo = fold (run_hook in_time) past \<lparr>sd_todo = todo, sd_running = ws, sd_closed = []\<rparr>"

lemma run_hook_todo: "run_hook in_time r (s\<lparr>sd_todo := t\<rparr>) = (run_hook in_time r s)\<lparr>sd_todo := t\<rparr>"
  by (cases s, cases r) (simp_all add: run_hook_def)

lemma fold_run_hook_todo: "fold (run_hook in_time) past (s\<lparr>sd_todo := t\<rparr>) = (fold (run_hook in_time) past s)\<lparr>sd_todo := t\<rparr>"
  by (induction past arbitrary: s) (simp_all add: run_hook_todo)

lemma sd_todo_fold: "sd_todo (fold (run_hook in_time) past s) = sd_todo s"
  by (induction past arbitrary: s) (simp_all add: run_hook_def)

lemma stop_reach_done: "stop_reach in_time hooks ws s \<Longrightarrow> \<exists>past todo. rev hooks = past @ todo \<and> s = done_hooks in_time past ws todo"
proof (induction rule: stop_reach.induct)
  case start
  show ?case by (intro exI [of _ "[]"] exI [of _ "rev hooks"]) (simp add: done_hooks_def)
next
  case (step s t)
  then obtain past todo where s: "rev hooks = past @ todo" "s = done_hooks in_time past ws todo" by blast
  from step.hyps(2) obtain r rest where r: "sd_todo s = r # rest" "t = run_hook in_time r (s\<lparr>sd_todo := rest\<rparr>)"
    by (auto elim: stop_stepE)
  have "todo = r # rest" using s(2) r(1) by (simp add: done_hooks_def sd_todo_fold)
  moreover have "t = done_hooks in_time (past @ [r]) ws rest"
    using r(2) s(2) fold_run_hook_todo [where s = "\<lparr>sd_todo = todo, sd_running = ws, sd_closed = []\<rparr>" and t = rest]
    by (simp add: done_hooks_def)
  ultimately show ?case using s(1) by (intro exI [of _ "past @ [r]"] exI [of _ rest]) simp
qed

lemma stop_reach_prefix: "rev hooks = past @ todo \<Longrightarrow> stop_reach in_time hooks ws (done_hooks in_time past ws todo)"
proof (induction past arbitrary: todo rule: rev_induct)
  case Nil
  then show ?case using stop_reach.start [of in_time hooks ws] by (simp add: done_hooks_def)
next
  case (snoc r past)
  then have r: "stop_reach in_time hooks ws (done_hooks in_time past ws (r # todo))" by simp
  have "sd_todo (done_hooks in_time past ws (r # todo)) = r # todo" by (simp add: done_hooks_def sd_todo_fold)
  from stop_reach.step [OF r stop_step.hook [OF this]] show ?case
    using fold_run_hook_todo [where s = "\<lparr>sd_todo = r # todo, sd_running = ws, sd_closed = []\<rparr>" and t = todo]
    by (simp add: done_hooks_def)
qed

lemma done_running:
  "w \<in> set (sd_running (fold (run_hook in_time) past s)) \<longleftrightarrow>
     w \<in> set (sd_running s) \<and> (\<forall>r\<in>set past. worker_of r = Some w \<longrightarrow> w = Consumers \<and> \<not> in_time)"
  by (induction past arbitrary: s) (auto simp: run_hook_def split: option.split)

lemma done_closed:
  "r \<in> set (sd_closed (fold (run_hook in_time) past s)) \<longleftrightarrow>
     r \<in> set (sd_closed s) \<or> r \<in> set past \<and> r \<notin> {DelayedTasks, OutboxRelay}"
proof (induction past arbitrary: s)
  case (Cons x past)
  then show ?case by (cases x) (auto simp: run_hook_def)
qed simp

text \<open>A worker that uses a closed resource is one whose hook comes after the resource's.\<close>

lemma stop_reach_worker:
  assumes "stop_reach in_time hooks ws s" and "w \<in> set (sd_running s)" and "r \<in> set (sd_closed s)"
  obtains past todo where "rev hooks = past @ todo" and "w \<in> set ws" and "r \<in> set past"
    and "\<forall>h\<in>set past. worker_of h = Some w \<longrightarrow> w = Consumers \<and> \<not> in_time"
  using stop_reach_done [OF assms(1)] assms(2,3) that
  by (auto simp: done_hooks_def done_running done_closed)

text \<open>The workers a runtime has: those of its starters, and the consumers.\<close>

definition workers_of :: "run_conf \<Rightarrow> worker list" where
  "workers_of c = List.map_filter worker_of (starters_of c) @ (if rc_kafka c \<and> \<not> rc_takeover c then [Consumers] else [])"

lemma prefix_contains:
  assumes "l = pre @ x # post" and "x \<notin> set pre" and "l = past @ todo" and "x \<in> set past"
  shows "set pre \<subseteq> set past"
proof -
  from assms(4) obtain u v where "past = u @ x # v" "x \<notin> set u" by (meson split_list_first)
  with assms have "pre @ x # post = u @ x # (v @ todo)" by simp
  with assms(2) \<open>x \<notin> set u\<close> have "pre = u" by (simp add: sep_split)
  with \<open>past = u @ x # v\<close> show ?thesis by auto
qed

lemma rev_hook_if [simp]: "rev (hook_if b r) = hook_if b r"
  by (simp add: hook_if_def)

lemma set_hook_if [simp]: "x \<in> set (hook_if b r) \<longleftrightarrow> b \<and> x = r"
  by (auto simp: hook_if_def)

definition before_mysql :: "run_conf \<Rightarrow> resource list" where
  "before_mysql c = hook_if (rc_report c) Report @ hook_if (rc_kafka c) Kafka @
     hook_if (rc_kafka c \<and> rc_mysql c \<and> rc_outbox c \<and> \<not> rc_takeover c) OutboxRelay @ [IdLease] @
     hook_if (rc_redis c) Redis @ hook_if (rc_mysql c \<and> rc_delay c) DelayedTasks"

definition before_redis :: "run_conf \<Rightarrow> resource list" where
  "before_redis c = hook_if (rc_report c) Report @ hook_if (rc_kafka c) Kafka @
     hook_if (rc_kafka c \<and> rc_mysql c \<and> rc_outbox c \<and> \<not> rc_takeover c) OutboxRelay @ [IdLease]"

lemma stop_order_mysql: "rev (hooks_of c m) = before_mysql c @ hook_if (rc_mysql c) MySQL @
    hook_if (m \<and> rc_metrics c \<and> \<not> rc_takeover c) Metrics @ hook_if (rc_otel c) Tracing"
  by (simp add: hooks_of_def before_mysql_def)

lemma stop_order_redis: "\<exists>rest. rev (hooks_of c m) = before_redis c @ hook_if (rc_redis c) Redis @ rest \<and> Redis \<notin> set rest"
  unfolding stop_order_mysql by (intro exI conjI) (auto simp: before_mysql_def before_redis_def)

lemma set_before_mysql: "MySQL \<notin> set (before_mysql c)"
  by (simp add: before_mysql_def)

lemma set_before_redis: "Redis \<notin> set (before_redis c)"
  by (simp add: before_redis_def)

lemma worker_hook:
  "w \<in> set (workers_of c) \<Longrightarrow> \<exists>u\<in>set (before_mysql c). worker_of u = Some w"
  by (auto simp: workers_of_def starters_of_def before_mysql_def List.map_filter_def hook_if_def split: if_splits)

lemma consumers_hook: "Consumers \<in> set (workers_of c) \<Longrightarrow> Kafka \<in> set (before_redis c)"
  by (auto simp: workers_of_def starters_of_def before_redis_def List.map_filter_def hook_if_def split: if_splits)

text \<open>Once a resource has been closed, the hooks before its own have run.\<close>

lemma past_mysql: "rev (hooks_of c m) = past @ todo \<Longrightarrow> MySQL \<in> set past \<Longrightarrow> set (before_mysql c) \<subseteq> set past"
proof -
  assume p: "rev (hooks_of c m) = past @ todo" "MySQL \<in> set past"
  then have "MySQL \<in> set (rev (hooks_of c m))" by simp
  then have "rc_mysql c" unfolding stop_order_mysql by (auto simp: before_mysql_def)
  then show ?thesis
    using prefix_contains [OF _ set_before_mysql p(1) p(2)] stop_order_mysql [of c m] by (simp add: hook_if_def)
qed

lemma past_redis: "rev (hooks_of c m) = past @ todo \<Longrightarrow> Redis \<in> set past \<Longrightarrow> set (before_redis c) \<subseteq> set past"
proof -
  assume p: "rev (hooks_of c m) = past @ todo" "Redis \<in> set past"
  from stop_order_redis [of c m] obtain rest where
    rest: "rev (hooks_of c m) = before_redis c @ hook_if (rc_redis c) Redis @ rest" "Redis \<notin> set rest" by blast
  from p have "Redis \<in> set (rev (hooks_of c m))" by simp
  then have "rc_redis c" unfolding rest(1) using rest(2) by (auto simp: set_before_redis)
  with rest(1) show ?thesis
    using prefix_contains [OF _ set_before_redis p(1) p(2)] by (simp add: hook_if_def)
qed

text \<open>
  The other way round: the client of Kafka is closed while the relay runs, and Redis and Kafka
  while the delayed tasks do.
\<close>

definition full_conf :: run_conf where
  "full_conf = \<lparr>rc_otel = False, rc_metrics = False, rc_mysql = True, rc_delay = True, rc_redis = True, rc_kafka = True,
     rc_outbox = True, rc_centrifugo = False, rc_report = False, rc_s3 = False, rc_takeover = False\<rparr>"

lemma full_conf_runs: "NewRuntime full_conf (\<lambda>_. None) = Inr (grown [MySQL, DelayedTasks, Redis, IdLease, OutboxRelay, Kafka] [DelayedTasks, OutboxRelay] True True True)"
  by code_simp

text \<open>
  A start that fails after the runtime was made returns before the hooks: the relay and the
  delayed tasks run on, the number of the instance stays leased.
\<close>

lemma failed_start_keeps_all:
  "rs_store s = None \<Longrightarrow> rs_gate s = None \<Longrightarrow> rs_starter s = (\<lambda>_. None) \<Longrightarrow> rs_handlers s \<Longrightarrow> rs_consumers s = Some e \<Longrightarrow>
     Runtime_Run full_conf s serve registry wait (grown [MySQL, DelayedTasks, Redis, IdLease, OutboxRelay, Kafka] [DelayedTasks, OutboxRelay] True True True) =
       (Some e, [Gated, Starting DelayedTasks, Starting OutboxRelay])"
  by (simp add: Runtime_Run_def full_conf_def grown_def)

lemma relay_outlives_kafka:
  "\<exists>s. stop_reach True [MySQL, DelayedTasks, Redis, IdLease, OutboxRelay, Kafka] (workers_of full_conf) s \<and>
     Relay \<in> set (sd_running s) \<and> Kafka \<in> set (sd_closed s)"
proof -
  let ?s = "done_hooks True [Kafka] (workers_of full_conf) [OutboxRelay, IdLease, Redis, DelayedTasks, MySQL]"
  have "stop_reach True [MySQL, DelayedTasks, Redis, IdLease, OutboxRelay, Kafka] (workers_of full_conf) ?s"
    by (rule stop_reach_prefix) simp
  moreover have "Relay \<in> set (sd_running ?s) \<and> Kafka \<in> set (sd_closed ?s)" by code_simp
  ultimately show ?thesis by blast
qed

lemma tasks_outlive_redis:
  "\<exists>s. stop_reach True [MySQL, DelayedTasks, Redis, IdLease, OutboxRelay, Kafka] (workers_of full_conf) s \<and>
     TaskRunner \<in> set (sd_running s) \<and> Redis \<in> set (sd_closed s) \<and> Kafka \<in> set (sd_closed s)"
proof -
  let ?s = "done_hooks True [Kafka, OutboxRelay, IdLease, Redis] (workers_of full_conf) [DelayedTasks, MySQL]"
  have "stop_reach True [MySQL, DelayedTasks, Redis, IdLease, OutboxRelay, Kafka] (workers_of full_conf) ?s"
    by (rule stop_reach_prefix) simp
  moreover have "TaskRunner \<in> set (sd_running ?s) \<and> Redis \<in> set (sd_closed ?s) \<and> Kafka \<in> set (sd_closed ?s)" by code_simp
  ultimately show ?thesis by blast
qed

section \<open>The server of Kitex\<close>

text \<open>
  What the code relies on: the server does nothing but serve and leave, and when it ends
  without an error it has left the registry before it closed its listener.
\<close>

definition server_event :: "run_event \<Rightarrow> bool" where
  "server_event e \<longleftrightarrow> e = Listening \<or> e = Registered \<or> e = Closed \<or> (\<exists>n. e = Drained n)"

locale kitex_server =
  fixes serve :: kitex_run
  assumes only_serves: "e \<in> set (snd (serve leave)) \<Longrightarrow> e \<in> set leave \<or> server_event e"
    and leaves_first: "fst (serve leave) = None \<Longrightarrow> \<exists>a b. snd (serve leave) = a @ leave @ Closed # b \<and> Closed \<notin> set a"
begin

lemma starts_nothing: "Consuming \<notin> set (snd (Run_server serve registry wait rt)) \<and> (\<forall>r. Starting r \<notin> set (snd (Run_server serve registry wait rt)))"
proof -
  let ?l = "if registry then delayed_Deregister wait else []"
  obtain e0 tr0 where s: "serve ?l = (e0, tr0)" by fastforce
  have "x \<in> set ?l \<Longrightarrow> x = Deregistered \<or> (\<exists>n. x = Waited n)" for x by (auto simp: delayed_Deregister_def split: if_splits)
  with only_serves [of _ ?l] s have "x \<in> set tr0 \<Longrightarrow> x = Deregistered \<or> (\<exists>n. x = Waited n) \<or> server_event x" for x by auto
  then have "Consuming \<notin> set tr0 \<and> (\<forall>r. Starting r \<notin> set tr0)" by (fastforce simp: server_event_def)
  with s show ?thesis by (auto simp: Run_server_def hook_events_def)
qed

lemma stops_in_order:
  assumes "Run_server serve True wait rt = (None, tr)"
  shows "\<exists>a b. tr = a @ [Deregistered] @ (if wait > 0 then [Waited wait] else []) @ [Closed] @ b @ map Stopped (rev (rt_hooks rt)) @ [NacosClosed] \<and>
    Closed \<notin> set a"
proof -
  obtain e0 tr0 where s: "serve (delayed_Deregister wait) = (e0, tr0)" by fastforce
  with assms have "fst (serve (delayed_Deregister wait)) = None" by (simp add: Run_server_def)
  from leaves_first [OF this] s obtain a b where "tr0 = a @ delayed_Deregister wait @ Closed # b" "Closed \<notin> set a" by auto
  with s assms show ?thesis by (intro exI [of _ a] exI [of _ b]) (auto simp: Run_server_def hook_events_def delayed_Deregister_def)
qed

end

text \<open>A server that is listed, leaves, closes and gives its requests fifteen seconds.\<close>

definition plain_serve :: kitex_run where
  "plain_serve leave = (None, [Listening, Registered] @ leave @ [Closed, Drained 15000])"

interpretation plain: kitex_server plain_serve
proof unfold_locales
  fix e leave
  assume "e \<in> set (snd (plain_serve leave))"
  then show "e \<in> set leave \<or> server_event e" by (auto simp: plain_serve_def server_event_def)
next
  fix leave
  show "\<exists>a b. snd (plain_serve leave) = a @ leave @ Closed # b \<and> Closed \<notin> set a"
    by (intro exI [of _ "[Listening, Registered]"] exI [of _ "[Drained 15000]"]) (simp add: plain_serve_def)
qed

definition no_hook :: "run_event \<Rightarrow> bool" where
  "no_hook e \<longleftrightarrow> (case e of Stopped _ \<Rightarrow> False | _ \<Rightarrow> True)"

text \<open>What a gateway's run has done before the hooks.\<close>

definition ordered_stop :: "bool \<Rightarrow> gate_run \<Rightarrow> string option \<Rightarrow> run_event list \<Rightarrow> bool" where
  "ordered_stop listed g e pre \<longleftrightarrow> list_all no_hook pre \<and>
    (Registered \<in> set pre \<longrightarrow> (\<exists>a b. pre = a @ [Registered, Deregistered] @ b \<and> Listening \<in> set a \<and> Closed \<notin> set a)) \<and>
    (e = None \<longrightarrow> pre = Gated # Listening #
       (if listed then Registered # Deregistered # (if gr_deregister g = None \<and> gr_wait g > 0 then [Waited (gr_wait g)] else []) else []) @
       [Closed, Drained (gr_drain g)])"

lemma ordered_start: "e \<noteq> None \<Longrightarrow> list_all no_hook pre \<Longrightarrow> Registered \<notin> set pre \<Longrightarrow> ordered_stop listed g e pre"
  unfolding ordered_stop_def by blast

text \<open>A gateway that came to run.\<close>

definition ran_events :: "bool \<Rightarrow> gate_run \<Rightarrow> run_event list" where
  "ran_events listed g = Gated # Listening # (if listed then [Registered] else []) @ (if listed then [Deregistered] else []) @
     (if listed \<and> gr_deregister g = None \<and> gr_wait g > 0 \<and> gr_stop g = Signalled then [Waited (gr_wait g)] else []) @
     (if gr_stop g = Signalled then [Closed, Drained (gr_drain g)] else [])"

lemma hertz_ran:
  assumes "gr_addr g = None" "gr_gate g = None" "gr_port g = None" "gr_listening g = None" "registry \<longrightarrow> gr_register g = None"
  shows "hertz_run registry registers g hooks = (case gr_stop g of Signalled \<Rightarrow> None | ServerFailed e \<Rightarrow> Some e,
    ran_events (registry \<and> registers) g @ map Stopped (rev hooks))"
proof -
  have r: "(if registry then gr_register g else None) = None" using assms(5) by simp
  show ?thesis
    using assms(1-4) unfolding hertz_run_def r by (cases "gr_stop g") (simp_all add: Let_def hook_events_def ran_events_def)
qed

lemma ordered_ran: "e = None \<longleftrightarrow> gr_stop g = Signalled \<Longrightarrow> ordered_stop listed g e (ran_events listed g)"
proof (cases listed)
  case True
  let ?rest = "(if gr_deregister g = None \<and> gr_wait g > 0 \<and> gr_stop g = Signalled then [Waited (gr_wait g)] else []) @
    (if gr_stop g = Signalled then [Closed, Drained (gr_drain g)] else [])"
  have "\<exists>a b. ran_events listed g = a @ [Registered, Deregistered] @ b \<and> Listening \<in> set a \<and> Closed \<notin> set a"
    using True by (intro exI [of _ "[Gated, Listening]"] exI [of _ ?rest]) (simp add: ran_events_def)
  moreover have "list_all no_hook (ran_events listed g)" by (simp add: ran_events_def no_hook_def)
  moreover assume "e = None \<longleftrightarrow> gr_stop g = Signalled"
  then have "e = None \<longrightarrow> ran_events listed g = Gated # Listening #
      (if listed then Registered # Deregistered # (if gr_deregister g = None \<and> gr_wait g > 0 then [Waited (gr_wait g)] else []) else []) @
      [Closed, Drained (gr_drain g)]"
    using True by (simp add: ran_events_def)
  ultimately show ?thesis unfolding ordered_stop_def by blast
next
  case False
  moreover assume "e = None \<longleftrightarrow> gr_stop g = Signalled"
  ultimately show ?thesis by (simp add: ordered_stop_def ran_events_def no_hook_def)
qed

lemma hertz_stopped:
  assumes addr: "gr_addr g = None" and run: "hertz_run registry registers g hooks = (e, tr)"
  shows "\<exists>pre. tr = pre @ map Stopped (rev hooks) \<and> ordered_stop (registry \<and> registers) g e pre"
proof -
  note simps = hertz_run_def hook_events_def addr
  consider (gate) x where "gr_gate g = Some x" | (port) x where "gr_gate g = None" "gr_port g = Some x"
    | (listen) x where "gr_gate g = None" "gr_port g = None" "gr_listening g = Some x"
    | (refused) x where "gr_gate g = None" "gr_port g = None" "gr_listening g = None" "registry" "gr_register g = Some x"
    | (ran) "gr_gate g = None" "gr_port g = None" "gr_listening g = None" "registry \<longrightarrow> gr_register g = None"
    by (metis option.exhaust)
  then show ?thesis
  proof cases
    case gate
    with run have "e = Some x \<and> tr = [] @ map Stopped (rev hooks)" by (simp add: simps)
    then show ?thesis by (intro exI [of _ "[]"]) (simp add: ordered_start)
  next
    case port
    with run have "e = Some x \<and> tr = [Gated] @ map Stopped (rev hooks)" by (simp add: simps)
    then show ?thesis by (intro exI [of _ "[Gated]"]) (simp add: ordered_start no_hook_def)
  next
    case listen
    with run have "e = Some x \<and> tr = [Gated] @ map Stopped (rev hooks)" by (simp add: simps)
    then show ?thesis by (intro exI [of _ "[Gated]"]) (simp add: ordered_start no_hook_def)
  next
    case refused
    with run have "e = Some x \<and> tr = [Gated, Listening, Closed] @ map Stopped (rev hooks)" by (simp add: simps)
    then show ?thesis by (intro exI [of _ "[Gated, Listening, Closed]"]) (simp add: ordered_start no_hook_def)
  next
    case ran
    from hertz_ran [OF addr ran, of registers hooks] run
    have "e = (case gr_stop g of Signalled \<Rightarrow> None | ServerFailed e \<Rightarrow> Some e) \<and>
        tr = ran_events (registry \<and> registers) g @ map Stopped (rev hooks)" by simp
    moreover from this have "e = None \<longleftrightarrow> gr_stop g = Signalled" by (cases "gr_stop g") simp_all
    ultimately show ?thesis using ordered_ran [of e g "registry \<and> registers"] by (intro exI conjI) auto
  qed
qed

section \<open>Properties\<close>

text \<open>
  C22. The database outlives its users. However a service is configured, while it stops the
  database is closed only when the delayed tasks and the relay of the outbox have ended and
  the consumers have too, unless they missed the fifteen seconds they are given; and the
  consumers end before Redis is closed.
\<close>

theorem database_outlives_workers:
  assumes rt: "NewRuntime c ans = Inr rt"
    and reach: "stop_reach in_time (rt_hooks rt) (workers_of c) s"
    and run: "w \<in> set (sd_running s)" and "in_time \<or> w \<noteq> Consumers"
  shows "MySQL \<notin> set (sd_closed s) \<and> (w = Consumers \<longrightarrow> Redis \<notin> set (sd_closed s) \<and> Kafka \<notin> set (sd_closed s))"
proof -
  have hooks: "rt_hooks rt = hooks_of c (ans ServingMetrics = None)" using NewRuntime_grown [OF rt] by (simp add: grown_def)
  show ?thesis
  proof (intro conjI impI notI)
    assume "MySQL \<in> set (sd_closed s)"
    with stop_reach_worker [OF reach run] obtain past todo where
      h: "rev (rt_hooks rt) = past @ todo" "w \<in> set (workers_of c)" "MySQL \<in> set past"
        "\<forall>h\<in>set past. worker_of h = Some w \<longrightarrow> w = Consumers \<and> \<not> in_time" by blast
    with past_mysql [of c _ past todo] worker_hook [OF h(2)] hooks show False using assms(4) by fastforce
  next
    assume w: "w = Consumers" and "Redis \<in> set (sd_closed s)"
    with stop_reach_worker [OF reach run] obtain past todo where
      h: "rev (rt_hooks rt) = past @ todo" "w \<in> set (workers_of c)" "Redis \<in> set past"
        "\<forall>h\<in>set past. worker_of h = Some w \<longrightarrow> w = Consumers \<and> \<not> in_time" by blast
    with past_redis [of c _ past todo] consumers_hook [of c] hooks w show False using assms(4) by fastforce
  next
    assume w: "w = Consumers" and "Kafka \<in> set (sd_closed s)"
    with stop_reach_worker [OF reach run] obtain past todo where
      "Kafka \<in> set past" "\<forall>h\<in>set past. worker_of h = Some w \<longrightarrow> w = Consumers \<and> \<not> in_time" by blast
    with w show False using assms(4) by fastforce
  qed
qed

theorem database_outlives_workers_witness:
  "MySQL \<notin> set (sd_closed (done_hooks True [Kafka, OutboxRelay] (workers_of full_conf) [IdLease, Redis, DelayedTasks, MySQL]))"
proof -
  have reach: "stop_reach True (rt_hooks (grown [MySQL, DelayedTasks, Redis, IdLease, OutboxRelay, Kafka] [DelayedTasks, OutboxRelay] True True True))
      (workers_of full_conf) (done_hooks True [Kafka, OutboxRelay] (workers_of full_conf) [IdLease, Redis, DelayedTasks, MySQL])"
    by (rule stop_reach_prefix) (simp add: grown_def)
  have "TaskRunner \<in> set (sd_running (done_hooks True [Kafka, OutboxRelay] (workers_of full_conf) [IdLease, Redis, DelayedTasks, MySQL]))"
    by code_simp
  from database_outlives_workers [OF full_conf_runs reach this] show ?thesis by simp
qed

text \<open>
  A gateway stops without losing a request. Once its address is known, however its
  start or its run ends, all the hooks run, once, last of all; it is listed in Nacos only
  after it listens, and leaves the list whatever stopped it; told to stop, it leaves, waits
  for the callers, closes the listener and drains before the hooks.
\<close>

lemma gateway_stops_in_order:
  assumes "gr_addr g = None" and run: "hertz_run registry registers g hooks = (e, tr)"
  shows "\<exists>pre. tr = pre @ map Stopped (rev hooks) \<and> list_all no_hook pre \<and>
    (Registered \<in> set pre \<longrightarrow> (\<exists>a b. pre = a @ [Registered, Deregistered] @ b \<and> Listening \<in> set a \<and> Closed \<notin> set a)) \<and>
    (e = None \<longrightarrow> pre = Gated # Listening #
       (if registry \<and> registers then Registered # Deregistered # (if gr_deregister g = None \<and> gr_wait g > 0 then [Waited (gr_wait g)] else []) else []) @
       [Closed, Drained (gr_drain g)])"
  using hertz_stopped [OF assms] unfolding ordered_stop_def by blast

theorem gateway_stops_in_order_witness:
  "let g = \<lparr>gr_addr = None, gr_gate = None, gr_port = None, gr_listening = None, gr_register = None, gr_stop = Signalled,
         gr_deregister = None, gr_wait = 3000, gr_drain = 15000\<rparr>
   in snd (hertz_run True True g [MySQL, Redis]) =
        [Gated, Listening, Registered, Deregistered, Waited 3000, Closed, Drained 15000, Stopped Redis, Stopped MySQL]"
proof -
  let ?g = "\<lparr>gr_addr = None, gr_gate = None, gr_port = None, gr_listening = None, gr_register = None, gr_stop = Signalled,
    gr_deregister = None, gr_wait = 3000, gr_drain = 15000\<rparr>"
  obtain e tr where r: "hertz_run True True ?g [MySQL, Redis] = (e, tr)" by fastforce
  then have "e = None" by (simp add: hertz_run_def Let_def)
  with gateway_stops_in_order [OF _ r] r show ?thesis by auto
qed

text \<open>
  A takeover runs no worker. The instance on a developer's machine starts neither the
  delayed tasks nor the relay of the outbox nor the consumers, and serves no metrics,
  whatever its configuration switches on; \<open>serve\<close> is Kitex's server.
\<close>

lemma takeover_starts_nothing:
  assumes "rc_takeover c" and rt: "NewRuntime c ans = Inr rt"
    and serve: "kitex_server serve"
    and run: "Runtime_Run c s serve registry wait rt = (e, tr)"
  shows "Consuming \<notin> set tr \<and> (\<forall>r. Starting r \<notin> set tr) \<and> Metrics \<notin> set (rt_hooks rt)"
proof -
  have rt': "rt = grown (hooks_of c (ans ServingMetrics = None)) (starters_of c) (rc_mysql c) (rc_redis c) (rc_kafka c)"
    by (rule NewRuntime_grown [OF rt])
  have st: "RunStarters (\<lambda>r. r = DelayedTasks \<and> (rc_takeover c \<or> \<not> rs_handlers s)) (rs_starter s) (rt_starters rt) =
      (None, map NotStarting (starters_of c))"
    using assms(1) by (simp add: rt' grown_def starters_of_def hook_if_def)
  obtain e' tr' where sv: "Run_server serve registry wait rt = (e', tr')" by fastforce
  with kitex_server.starts_nothing [OF serve, of registry wait rt]
  have "Consuming \<notin> set tr' \<and> (\<forall>r. Starting r \<notin> set tr')" by simp
  then have "Consuming \<notin> set tr \<and> (\<forall>r. Starting r \<notin> set tr)"
    using run sv st assms(1) by (auto simp: Runtime_Run_def split: option.splits)
  then show ?thesis using assms(1) by (simp add: rt' grown_def hooks_of_def)
qed

theorem takeover_starts_nothing_witness:
  "let c = full_conf\<lparr>rc_takeover := True\<rparr>;
       s = \<lparr>rs_store = None, rs_gate = None, rs_starter = (\<lambda>_. None), rs_handlers = True, rs_consumers = None\<rparr>;
       rt = grown [MySQL, DelayedTasks, Redis, IdLease, Kafka] [DelayedTasks] True True True
   in NewRuntime c (\<lambda>_. None) = Inr rt \<and>
      Consuming \<notin> set (snd (Runtime_Run c s plain_serve True 3000 rt))"
proof -
  let ?c = "full_conf\<lparr>rc_takeover := True\<rparr>"
  let ?s = "\<lparr>rs_store = None, rs_gate = None, rs_starter = (\<lambda>_. None), rs_handlers = True, rs_consumers = None\<rparr>"
  let ?rt = "grown [MySQL, DelayedTasks, Redis, IdLease, Kafka] [DelayedTasks] True True True"
  have c: "rc_takeover ?c" by simp
  have rt: "NewRuntime ?c (\<lambda>_. None) = Inr ?rt" by code_simp
  obtain e tr where run: "Runtime_Run ?c ?s plain_serve True 3000 ?rt = (e, tr)" by fastforce
  from takeover_starts_nothing [OF c rt plain.kitex_server_axioms run] run rt show ?thesis by simp
qed

end
