(* ===== verification/ReleaseCheck.thy ===== *)
theory ReleaseCheck
  imports Targets Delayx Outbox IdlDeps Runtime
begin

text \<open>
  The checks of a release (\<^verbatim>\<open>verifyx/verify.go\<close>, \<^verbatim>\<open>kitexx/verify.go\<close>): a list of
  checks against what has just been deployed, each tried again for a while, the framework's
  own checks, and the exit code of the process that runs them. Times are milliseconds. A
  check is given the time, the end of its context and the world, and answers with an
  outcome, the time it took and the world it leaves.
\<close>

section \<open>The runner\<close>

datatype check_outcome = Passed | Refused string | Panicked

type_synonym 'w check_run = "int \<Rightarrow> int \<Rightarrow> 'w \<Rightarrow> check_outcome \<times> nat \<times> 'w"

record 'w check =
  ck_Name :: string
  ck_Run :: "'w check_run option"

record verify_opts =
  vo_Timeout :: int
  vo_RetryFor :: int
  vo_RetryEvery :: int

definition vo_timeout :: "verify_opts \<Rightarrow> int" where
  "vo_timeout o' = (if vo_Timeout o' \<le> 0 then 30000 else vo_Timeout o')"

definition vo_every :: "verify_opts \<Rightarrow> int" where
  "vo_every o' = (if vo_RetryEvery o' \<le> 0 then 10000 else vo_RetryEvery o')"

lemma vo_every_pos: "0 < vo_every o'"
  by (simp add: vo_every_def)

text \<open>The caller's context: the time it ends, if it does. A wait is cut short by its end.\<close>

definition ctx_over :: "int option \<Rightarrow> int \<Rightarrow> bool" where
  "ctx_over ctx t \<longleftrightarrow> (case ctx of None \<Rightarrow> False | Some e \<Rightarrow> e \<le> t)"

definition ctx_min :: "int option \<Rightarrow> int \<Rightarrow> int" where
  "ctx_min ctx t = (case ctx of None \<Rightarrow> t | Some e \<Rightarrow> min t e)"

lemma ctx_min_later: "\<not> ctx_over ctx t \<Longrightarrow> t < u \<Longrightarrow> t < ctx_min ctx u"
  by (cases ctx) (simp_all add: ctx_over_def ctx_min_def)

text \<open>
  A check until it passes, the context is over or the next try would come too late: the last
  check_outcome, the number of tries, the time and the world.
\<close>

function try_check :: "verify_opts \<Rightarrow> int option \<Rightarrow> 'w check_run \<Rightarrow> int \<Rightarrow> nat \<Rightarrow> int \<Rightarrow> 'w \<Rightarrow> check_outcome \<times> nat \<times> int \<times> 'w" where
  "try_check o' ctx run start n nw w =
     (case run nw (ctx_min ctx (nw + vo_timeout o')) w of
        (r, d, w1) \<Rightarrow>
          let t = nw + int d
          in if r = Passed \<or> ctx_over ctx t \<or> t - start + vo_every o' > vo_RetryFor o' then (r, Suc n, t, w1)
             else try_check o' ctx run start (Suc n) (ctx_min ctx (t + vo_every o')) w1)"
  by pat_completeness auto

termination
proof (relation "measure (\<lambda>(o', ctx, run, start, n, nw, w). nat (start + vo_RetryFor o' - nw))", goal_cases)
  case (2 o' ctx run start n nw w r y d w1 t)
  then have "nw \<le> t" "\<not> ctx_over ctx t" "t + vo_every o' \<le> start + vo_RetryFor o'" by simp_all
  moreover from this have "t < ctx_min ctx (t + vo_every o')" using ctx_min_later vo_every_pos by simp
  moreover have "0 < vo_every o'" by (rule vo_every_pos)
  ultimately show ?case by simp
qed simp

declare try_check.simps [simp del]

text \<open>Every check, in order; \<open>Inl\<close>: one without a name or a function ends it at once.\<close>

fun run_checks :: "verify_opts \<Rightarrow> int option \<Rightarrow> 'w check list \<Rightarrow> int \<Rightarrow> 'w \<Rightarrow> (unit + string list) \<times> int \<times> 'w" where
  "run_checks o' ctx [] nw w = (Inr [], nw, w)"
| "run_checks o' ctx (c # cs) nw w =
     (case ck_Run c of
        None \<Rightarrow> (Inl (), nw, w)
      | Some run \<Rightarrow>
          if ck_Name c = [] then (Inl (), nw, w)
          else case try_check o' ctx run nw 0 nw w of
              (r, n, t, w1) \<Rightarrow>
                (case run_checks o' ctx cs t w1 of
                   (rest, t2, w2) \<Rightarrow> (map_sum id (\<lambda>names. if r = Passed then names else ck_Name c # names) rest, t2, w2)))"

datatype verify_error = BadCheck | ChecksFailed nat nat "string list"

definition verify_Run :: "verify_opts \<Rightarrow> int option \<Rightarrow> 'w check list \<Rightarrow> int \<Rightarrow> 'w \<Rightarrow> verify_error option \<times> int \<times> 'w" where
  "verify_Run o' ctx cs nw w =
     (case run_checks o' ctx cs nw w of
        (Inl _, t, w1) \<Rightarrow> (Some BadCheck, t, w1)
      | (Inr names, t, w1) \<Rightarrow> (if names = [] then None else Some (ChecksFailed (length names) (length cs) names), t, w1))"

section \<open>The framework's checks\<close>

text \<open>What the checks ask, and how long each takes.\<close>

record 'w probes =
  pb_ping_db :: "int \<Rightarrow> 'w \<Rightarrow> string option"
  pb_whoami :: "int \<Rightarrow> 'w \<Rightarrow> string + string \<times> string"
  pb_dirty :: "int \<Rightarrow> 'w \<Rightarrow> string + int"
  pb_ping_redis :: "int \<Rightarrow> 'w \<Rightarrow> string option"
  pb_outbox :: "int \<Rightarrow> 'w \<Rightarrow> string + outbox_row list"
  pb_due_tasks :: "int \<Rightarrow> 'w \<Rightarrow> string + task list"
  pb_failed_tasks :: "int \<Rightarrow> 'w \<Rightarrow> string + task list"
  pb_nacos :: "int \<Rightarrow> 'w \<Rightarrow> string option"
  pb_lookup :: "'w lookup"
  pb_instances :: "string \<Rightarrow> int \<Rightarrow> 'w \<Rightarrow> string + nat"
  pb_get :: "string \<Rightarrow> int \<Rightarrow> 'w \<Rightarrow> string option"
  pb_took :: "string \<Rightarrow> int \<Rightarrow> 'w \<Rightarrow> nat"

definition refuse_error :: "string option \<Rightarrow> check_outcome" where
  "refuse_error e = (case e of None \<Rightarrow> Passed | Some m \<Rightarrow> Refused m)"

definition migrations_check :: "'w probes \<Rightarrow> int \<Rightarrow> 'w \<Rightarrow> check_outcome" where
  "migrations_check P nw w =
     (case pb_dirty P nw w of Inl _ \<Rightarrow> Passed | Inr n \<Rightarrow> if n \<noteq> 0 then Refused ''schema_migrations is dirty'' else Passed)"

text \<open>With a database of its own, the connection must be on it, with its account.\<close>

definition mysql_check :: "'w probes \<Rightarrow> resolution \<Rightarrow> int \<Rightarrow> 'w \<Rightarrow> check_outcome" where
  "mysql_check P res nw w =
     (case pb_ping_db P nw w of
        Some e \<Rightarrow> Refused e
      | None \<Rightarrow>
          if rs_rule res = RuleService then
            (case pb_whoami P nw w of
               Inl e \<Rightarrow> Refused e
             | Inr (db, user) \<Rightarrow>
                 if db \<noteq> sq_DB (rs_target res) \<or> \<not> has_prefix user (sq_User (rs_target res) @ ''@'') then Refused ''another database''
                 else migrations_check P nw w)
          else migrations_check P nw w)"

definition outbox_check :: "'w probes \<Rightarrow> string \<Rightarrow> int \<Rightarrow> 'w \<Rightarrow> check_outcome" where
  "outbox_check P service nw w =
     (case pb_outbox P nw w of
        Inl _ \<Rightarrow> Passed
      | Inr rs \<Rightarrow>
          let n = length (filter (\<lambda>r. Service r = service \<and> SentAt r = None \<and> CreatedAt r < nw - 120000) rs)
          in if n > 0 then Refused (show_nat n @ '' events are still unpublished'') else Passed)"

text \<open>
  \<open>sp\<close>: the kinds the scheduler has handlers for. Without any, \<^verbatim>\<open>Overdue\<close> and
  \<^verbatim>\<open>FailedCount\<close> ask the table nothing and answer 0.
\<close>

definition delay_check :: "'w probes \<Rightarrow> specs \<Rightarrow> int \<Rightarrow> 'w \<Rightarrow> check_outcome" where
  "delay_check P sp nw w =
     (case (if kinds_all sp = [] then Inr [] else pb_due_tasks P nw w) of
        Inl _ \<Rightarrow> Passed
      | Inr due \<Rightarrow>
          if overdue sp nw due > 120000 then Refused ''a due task waits''
          else case (if kinds_all sp = [] then Inr [] else pb_failed_tasks P nw w) of
              Inl e \<Rightarrow> Refused e
            | Inr rs \<Rightarrow> if failedCount sp rs > 0 then Refused ''delayed tasks failed for good'' else Passed)"

definition idl_check :: "'w probes \<Rightarrow> idl_deps \<Rightarrow> int \<Rightarrow> 'w \<Rightarrow> check_outcome \<times> 'w" where
  "idl_check P d nw w =
     (case pb_nacos P nw w of
        Some e \<Rightarrow> (Refused e, w)
      | None \<Rightarrow> (case unmet d (pb_lookup P) w of ((u, _), w1) \<Rightarrow> (if u \<noteq> [] then Refused ''dependencies are not met'' else Passed, w1)))"

text \<open>Every two seconds until an instance is there or twenty seconds have passed.\<close>

function nacos_wait :: "'w probes \<Rightarrow> string \<Rightarrow> int \<Rightarrow> int \<Rightarrow> 'w \<Rightarrow> check_outcome \<times> int" where
  "nacos_wait P service deadline nw w =
     (case pb_instances P service nw w of
        Inr n \<Rightarrow> if 0 < n then (Passed, nw)
          else if nw > deadline then (Refused ''no healthy instance registered in Nacos'', nw)
          else nacos_wait P service deadline (nw + 2000) w
      | Inl e \<Rightarrow> if nw > deadline then (Refused e, nw) else nacos_wait P service deadline (nw + 2000) w)"
  by pat_completeness auto

termination by (relation "measure (\<lambda>(P, service, deadline, nw, w). nat (deadline + 1 - nw))") auto

declare nacos_wait.simps [simp del]

definition nacos_check :: "'w probes \<Rightarrow> string \<Rightarrow> int \<Rightarrow> 'w \<Rightarrow> check_outcome \<times> nat" where
  "nacos_check P service nw w =
     (case pb_nacos P nw w of
        Some e \<Rightarrow> (Refused e, 0)
      | None \<Rightarrow> (case nacos_wait P service (nw + 20000) nw w of (r, t) \<Rightarrow> (r, nat (t - nw))))"

text \<open>Fifteen times, two seconds apart, while the context lasts.\<close>

fun gateway_tries :: "'w probes \<Rightarrow> string \<Rightarrow> nat \<Rightarrow> int \<Rightarrow> int \<Rightarrow> string \<Rightarrow> 'w \<Rightarrow> check_outcome \<times> int" where
  "gateway_tries P base 0 until nw e w = (Refused e, nw)"
| "gateway_tries P base (Suc k) until nw e w =
     (case pb_get P (base @ ''/ping'') nw w of
        None \<Rightarrow> (Passed, nw)
      | Some e' \<Rightarrow>
          if until \<le> nw + 2000 then (Refused e', max nw until)
          else gateway_tries P base k until (nw + 2000) e' w)"

definition gateway_check :: "'w probes \<Rightarrow> string \<Rightarrow> int \<Rightarrow> int \<Rightarrow> 'w \<Rightarrow> check_outcome \<times> nat" where
  "gateway_check P base nw until w = (case gateway_tries P (trim_right_slash base) 15 until nw [] w of (r, t) \<Rightarrow> (r, nat (t - nw)))"

text \<open>The runtime as far as the checks look at it.\<close>

record verified =
  vf_conf :: svc_conf
  vf_db :: "resolution option"
  vf_redis :: bool
  vf_kafka :: bool
  vf_outbox :: bool
  vf_delay :: "specs option"
  vf_deps :: idl_deps
  vf_registry_off :: bool
  vf_base :: string

definition asking :: "'w probes \<Rightarrow> string \<Rightarrow> (int \<Rightarrow> 'w \<Rightarrow> check_outcome) \<Rightarrow> 'w check" where
  "asking P name f = \<lparr>ck_Name = name, ck_Run = Some (\<lambda>nw until w. (f nw w, pb_took P name nw w, w))\<rparr>"

definition frameworkChecks :: "'w probes \<Rightarrow> verified \<Rightarrow> 'w check list" where
  "frameworkChecks P v =
     (case vf_db v of None \<Rightarrow> [] | Some res \<Rightarrow> [asking P ''mysql'' (mysql_check P res)]) @
     (if vf_redis v then [asking P ''redis'' (\<lambda>nw w. refuse_error (pb_ping_redis P nw w))] else []) @
     (if vf_kafka v \<and> vf_db v \<noteq> None \<and> vf_outbox v then [asking P ''outbox'' (outbox_check P (sc_name (vf_conf v)))] else []) @
     (case vf_delay v of None \<Rightarrow> [] | Some sp \<Rightarrow> [asking P ''delay'' (delay_check P sp)]) @
     (if \<not> vf_registry_off v \<and> \<not> Empty (vf_deps v) \<and> d_Deps (vf_deps v) \<noteq> [] then
        [\<lparr>ck_Name = ''idl-deps'', ck_Run = Some (\<lambda>nw until w. case idl_check P (vf_deps v) nw w of (r, w1) \<Rightarrow> (r, pb_took P ''idl-deps'' nw w, w1))\<rparr>]
      else []) @
     (if \<not> vf_registry_off v \<and> Registers (vf_conf v) then
        [\<lparr>ck_Name = ''nacos'', ck_Run = Some (\<lambda>nw until w. case nacos_check P (sc_name (vf_conf v)) nw w of (r, d) \<Rightarrow> (r, d, w))\<rparr>]
      else []) @
     (if vf_base v \<noteq> [] then
        [\<lparr>ck_Name = ''gateway-ping'', ck_Run = Some (\<lambda>nw until w. case gateway_check P (vf_base v) nw until w of (r, d) \<Rightarrow> (r, d, w))\<rparr>]
      else [])"

definition release_opts :: verify_opts where
  "release_opts = \<lparr>vo_Timeout = 30000, vo_RetryFor = 120000, vo_RetryEvery = 10000\<rparr>"

text \<open>The exit code, the hooks run afterwards.\<close>

definition RunVerify :: "'w probes \<Rightarrow> verified \<Rightarrow> 'w check list \<Rightarrow> 'w hook list \<Rightarrow> int \<Rightarrow> 'w \<Rightarrow> int \<times> 'w" where
  "RunVerify P v own hooks nw w =
     (case verify_Run release_opts None (frameworkChecks P v @ own) nw w of
        (e, _, w1) \<Rightarrow> (if e = None then 0 else 1, snd (fst (RunShutdownHooks hooks w1))))"

definition VerifyFlag :: "string list \<Rightarrow> bool" where
  "VerifyFlag args \<longleftrightarrow> ''--verify'' \<in> set (drop 1 args)"

definition GatewayURL :: "(string \<Rightarrow> 'a option) \<Rightarrow> ('a \<Rightarrow> int) \<Rightarrow> env \<Rightarrow> string \<Rightarrow> string" where
  "GatewayURL resolve port e a0 =
     (if e ''VERIFY_BASE_URL'' \<noteq> [] then e ''VERIFY_BASE_URL''
      else case ListenAddr resolve a0 of
          Inl _ \<Rightarrow> ''http://127.0.0.1:8080''
        | Inr a \<Rightarrow> ''http://127.0.0.1:'' @ show_int (port a))"

section \<open>The client of a check\<close>

text \<open>
  The gateway's own address and what goes with each request. \<open>canon\<close>: the canonical form of
  a header's name; \<open>dflt\<close>: the headers set for every client.
\<close>

record verify_gateway =
  gw_BaseURL :: string
  gw_Token :: string
  gw_Headers :: "(string \<times> string) list"

definition SetDefaultHeaders :: "(string \<times> string) list \<Rightarrow> (string \<times> string) list option" where
  "SetDefaultHeaders h = (if h = [] then None else Some h)"

definition NewGateway :: "env \<Rightarrow> string \<Rightarrow> verify_gateway" where
  "NewGateway e fallback =
     (let base = trim_right_slash (e ''VERIFY_BASE_URL'')
      in \<lparr>gw_BaseURL = (if base = [] then trim_right_slash fallback else base), gw_Token = [], gw_Headers = []\<rparr>)"

type_synonym header_map = "string \<Rightarrow> string option"

definition put_headers :: "(string \<Rightarrow> string) \<Rightarrow> (string \<times> string) list \<Rightarrow> header_map \<Rightarrow> header_map" where
  "put_headers canon hs m = fold (\<lambda>(k, x) m. m(canon k \<mapsto> x)) hs m"

definition setHeaders :: "(string \<Rightarrow> string) \<Rightarrow> (string \<times> string) list option \<Rightarrow> verify_gateway \<Rightarrow> header_map \<Rightarrow> header_map" where
  "setHeaders canon dflt g m = put_headers canon (gw_Headers g) (put_headers canon (case dflt of None \<Rightarrow> [] | Some d \<Rightarrow> d) m)"

datatype call_error = NotSent string | HttpCode int string | NotEnvelope string | EnvelopeCode int string

text \<open>\<open>http\<close>: method, address, headers and body of a request to its status and body, of which a megabyte is read.\<close>

type_synonym http_call = "string \<Rightarrow> string \<Rightarrow> header_map \<Rightarrow> string \<Rightarrow> string + int \<times> string"

definition truncate_body :: "string \<Rightarrow> string" where
  "truncate_body b = (let s = trim_space b in if length s > 200 then take 200 s @ [CHR 0xE2, CHR 0x80, CHR 0xA6] else s)"

definition gateway_do :: "http_call \<Rightarrow> string \<Rightarrow> string \<Rightarrow> header_map \<Rightarrow> string \<Rightarrow> call_error + string" where
  "gateway_do http meth url m body =
     (case http meth url m body of
        Inl e \<Rightarrow> Inl (NotSent e)
      | Inr (code, b) \<Rightarrow>
          let raw = take 1048576 b in if code \<noteq> 200 then Inl (HttpCode code (truncate_body raw)) else Inr raw)"

definition gateway_Get ::
  "http_call \<Rightarrow> (string \<Rightarrow> string) \<Rightarrow> (string \<times> string) list option \<Rightarrow> verify_gateway \<Rightarrow> string \<Rightarrow> call_error + string" where
  "gateway_Get http canon dflt g path =
     gateway_do http ''GET'' (gw_BaseURL g @ path) (setHeaders canon dflt g Map.empty) []"

text \<open>\<open>parse\<close>: the code, the message and the data of an envelope. The error of a code keeps the envelope.\<close>

definition gateway_Post ::
  "http_call \<Rightarrow> (string \<Rightarrow> string) \<Rightarrow> (string \<Rightarrow> (int \<times> string \<times> string) option) \<Rightarrow> (string \<times> string) list option \<Rightarrow> verify_gateway \<Rightarrow>
     string \<Rightarrow> string \<Rightarrow> (int \<times> string \<times> string) option \<times> call_error option" where
  "gateway_Post http canon parse dflt g path body =
     (let m = setHeaders canon dflt g (Map.empty(canon ''Content-Type'' \<mapsto> ''application/json''));
          m = (if gw_Token g \<noteq> [] then m(canon ''Authorization'' \<mapsto> ''Bearer '' @ gw_Token g) else m)
      in case gateway_do http ''POST'' (gw_BaseURL g @ path) m body of
           Inl e \<Rightarrow> (None, Some e)
         | Inr raw \<Rightarrow>
             (case parse raw of
                None \<Rightarrow> (None, Some (NotEnvelope (truncate_body raw)))
              | Some (code, msg, data) \<Rightarrow> (Some (code, msg, data), if code \<noteq> 0 then Some (EnvelopeCode code msg) else None)))"

text \<open>A check that assigns its own headers keeps those of the edge, unless it names the same.\<close>

lemma put_headers_other: "\<forall>(k, x) \<in> set hs. canon k \<noteq> h \<Longrightarrow> put_headers canon hs m h = m h"
  by (induction hs arbitrary: m) (auto simp: put_headers_def)

lemma default_header_kept:
  assumes "\<forall>(k, x) \<in> set (gw_Headers g). canon k \<noteq> h" and "put_headers canon d m h = Some x"
  shows "setHeaders canon (SetDefaultHeaders d) g m h = Some x"
proof -
  have "setHeaders canon (SetDefaultHeaders d) g m h = put_headers canon d m h"
    using put_headers_other [OF assms(1)] by (simp add: setHeaders_def SetDefaultHeaders_def)
  with assms(2) show ?thesis by simp
qed

section \<open>What the runner promises\<close>

text \<open>A check that comes right in time passes.\<close>

lemma try_check_in_time:
  assumes "\<forall>t dl w. T \<le> t \<longrightarrow> fst (run t dl w) = Passed" and "\<forall>t dl w. int (fst (snd (run t dl w))) \<le> D"
    and "T + D + vo_every o' \<le> start + vo_RetryFor o'" and "ctx = None"
  shows "fst (try_check o' ctx run start n nw w) = Passed \<and> nw \<le> fst (snd (snd (try_check o' ctx run start n nw w)))"
  using assms
proof (induction o' ctx run start n nw w rule: try_check.induct)
  case (1 o' ctx run start n nw w)
  obtain r d w1 where r: "run nw (ctx_min ctx (nw + vo_timeout o')) w = (r, d, w1)"
    by (cases "run nw (ctx_min ctx (nw + vo_timeout o')) w") auto
  have d: "int d \<le> D" using "1.prems"(2) r by (metis fst_conv snd_conv)
  have over: "\<not> ctx_over ctx x" "ctx_min ctx x = x" for x using "1.prems"(4) by (simp_all add: ctx_over_def ctx_min_def)
  show ?case
  proof (cases "r = Passed")
    case True
    with r show ?thesis by (simp add: try_check.simps [of o' ctx run start n nw w] Let_def)
  next
    case False
    then have "\<not> T \<le> nw" using "1.prems"(1) r by (metis fst_conv)
    with d "1.prems"(3) have go: "\<not> nw + int d - start + vo_every o' > vo_RetryFor o'" by linarith
    have ev: "0 < vo_every o'" by (simp add: vo_every_def)
    have eq: "try_check o' ctx run start n nw w = try_check o' ctx run start (Suc n) (ctx_min ctx (nw + int d + vo_every o')) w1"
      using False r go over by (simp add: try_check.simps [of o' ctx run start n nw w] Let_def)
    have "\<not> (r = Passed \<or> ctx_over ctx (nw + int d) \<or> vo_RetryFor o' < nw + int d - start + vo_every o')"
      using False go over by simp
    from "1.IH" [OF r [symmetric] refl refl this "1.prems"] eq ev over(2) show ?thesis by simp
  qed
qed

lemma try_check_time: "nw \<le> fst (snd (snd (try_check o' ctx run start n nw w)))"
proof (induction o' ctx run start n nw w rule: try_check.induct)
  case (1 o' ctx run start n nw w)
  obtain r d w1 where r: "run nw (ctx_min ctx (nw + vo_timeout o')) w = (r, d, w1)"
    by (cases "run nw (ctx_min ctx (nw + vo_timeout o')) w") auto
  show ?case
  proof (cases "r = Passed \<or> ctx_over ctx (nw + int d) \<or> vo_RetryFor o' < nw + int d - start + vo_every o'")
    case True
    with r show ?thesis by (auto simp: try_check.simps [of o' ctx run start n nw w] Let_def)
  next
    case False
    then have "nw \<le> ctx_min ctx (nw + int d + vo_every o')"
      by (auto simp: ctx_min_def ctx_over_def vo_every_def split: option.splits)
    with "1.IH" [OF r [symmetric] refl refl False] False r show ?thesis
      by (auto simp: try_check.simps [of o' ctx run start n nw w] Let_def)
  qed
qed

text \<open>
  The tries of a run. The checks are run by the same runner on a world that carries, beside
  the checks' own, a record of the tries so far: the place of the check in the list, the
  time and the world of the try, and its outcome.
\<close>

type_synonym 'w tries = "(nat \<times> int \<times> 'w \<times> check_outcome) list"

definition logged_run :: "nat \<Rightarrow> 'w check_run \<Rightarrow> ('w \<times> 'w tries) check_run" where
  "logged_run i run t dl wl = (case run t dl (fst wl) of (r, d, w') \<Rightarrow> (r, d, (w', snd wl @ [(i, t, fst wl, r)])))"

definition logged :: "nat \<times> 'w check \<Rightarrow> ('w \<times> 'w tries) check" where
  "logged ic = \<lparr>ck_Name = ck_Name (snd ic), ck_Run = map_option (logged_run (fst ic)) (ck_Run (snd ic))\<rparr>"

text \<open>A check ends with the outcome of its last try, and each try is one of the check.\<close>

definition tries_of :: "verify_opts \<Rightarrow> int option \<Rightarrow> 'w check_run \<Rightarrow> nat \<Rightarrow> int \<Rightarrow> int \<Rightarrow> 'w tries \<Rightarrow> bool" where
  "tries_of o' ctx run i from til T \<longleftrightarrow>
     (\<forall>(j, t, x, q) \<in> set T. j = i \<and> from \<le> t \<and> t \<le> til \<and> q = fst (run t (ctx_min ctx (t + vo_timeout o')) x))"

lemma try_check_logged:
  assumes "try_check o' ctx run start n nw w = (r, n', t, w')"
  shows "\<exists>T. try_check o' ctx (logged_run i run) start n nw (w, L) = (r, n', t, (w', L @ T)) \<and>
    (\<exists>t0 x. (i, t0, x, r) \<in> set T) \<and> tries_of o' ctx run i nw t T"
  using assms
proof (induction o' ctx run start n nw w arbitrary: L rule: try_check.induct)
  case (1 o' ctx run start n nw w)
  obtain r1 d w1 where r: "run nw (ctx_min ctx (nw + vo_timeout o')) w = (r1, d, w1)"
    by (cases "run nw (ctx_min ctx (nw + vo_timeout o')) w") auto
  let ?t = "nw + int d"
  have lr: "logged_run i run nw (ctx_min ctx (nw + vo_timeout o')) (w, L) = (r1, d, (w1, L @ [(i, nw, w, r1)]))"
    by (simp add: logged_run_def r)
  show ?case
  proof (cases "r1 = Passed \<or> ctx_over ctx ?t \<or> ?t - start + vo_every o' > vo_RetryFor o'")
    case True
    with r lr "1.prems" show ?thesis
      by (intro exI [of _ "[(i, nw, w, r1)]"])
        (simp add: try_check.simps [of o' ctx run start n nw w] try_check.simps [of o' ctx _ start n nw "(w, L)"] Let_def tries_of_def)
  next
    case False
    let ?nw = "ctx_min ctx (?t + vo_every o')"
    have rec: "try_check o' ctx run start (Suc n) ?nw w1 = (r, n', t, w')"
      using "1.prems" False r by (simp add: try_check.simps [of o' ctx run start n nw w] Let_def)
    from "1.IH" [OF r [symmetric] refl refl False rec] obtain T where
      T: "try_check o' ctx (logged_run i run) start (Suc n) ?nw (w1, L @ [(i, nw, w, r1)]) = (r, n', t, (w', (L @ [(i, nw, w, r1)]) @ T))"
        "\<exists>t0 x. (i, t0, x, r) \<in> set T" "tries_of o' ctx run i ?nw t T" by blast
    have later: "nw \<le> ?nw" using False by (auto simp: ctx_min_def ctx_over_def vo_every_def split: option.splits)
    moreover have "?nw \<le> t" using try_check_time [of ?nw o' ctx run start "Suc n" w1] rec by simp
    ultimately have "tries_of o' ctx run i nw t ((i, nw, w, r1) # T)"
      using T(3) r unfolding tries_of_def by fastforce
    moreover have "try_check o' ctx (logged_run i run) start n nw (w, L) = (r, n', t, (w', L @ (i, nw, w, r1) # T))"
      using False lr T(1) by (simp add: try_check.simps [of o' ctx _ start n nw "(w, L)"] Let_def)
    ultimately show ?thesis using T(2) by (intro exI [of _ "(i, nw, w, r1) # T"]) auto
  qed
qed

definition passed_try :: "verify_opts \<Rightarrow> int option \<Rightarrow> int \<Rightarrow> int \<Rightarrow> 'w tries \<Rightarrow> nat \<Rightarrow> 'w check \<Rightarrow> bool" where
  "passed_try o' ctx from til T i c \<longleftrightarrow>
     (\<exists>run t x. ck_Run c = Some run \<and> (i, t, x, Passed) \<in> set T \<and> from \<le> t \<and> t \<le> til \<and>
        fst (run t (ctx_min ctx (t + vo_timeout o')) x) = Passed)"

lemma passed_try_more:
  "passed_try o' ctx f u T i c \<Longrightarrow> set T \<subseteq> set T' \<Longrightarrow> f' \<le> f \<Longrightarrow> u \<le> u' \<Longrightarrow> passed_try o' ctx f' u' T' i c"
  unfolding passed_try_def by (meson order_trans subsetD)

lemma run_checks_logged:
  assumes "run_checks o' ctx cs nw w = (Inr [], t, w')"
  shows "nw \<le> t \<and> (\<exists>T. run_checks o' ctx (map logged (enumerate k cs)) nw (w, L) = (Inr [], t, (w', L @ T)) \<and>
    (\<forall>(i, c) \<in> set (enumerate k cs). passed_try o' ctx nw t T i c))"
  using assms
proof (induction cs arbitrary: nw w k L)
  case (Cons b cs)
  from Cons.prems obtain run where run: "ck_Run b = Some run" "ck_Name b \<noteq> []" by (auto split: option.splits if_split_asm)
  obtain r n t1 w1 where tr: "try_check o' ctx run nw 0 nw w = (r, n, t1, w1)" by (cases "try_check o' ctx run nw 0 nw w") auto
  obtain rest t2 w2 where rest: "run_checks o' ctx cs t1 w1 = (rest, t2, w2)" by (cases "run_checks o' ctx cs t1 w1") auto
  from Cons.prems run tr rest have ok: "r = Passed" "rest = Inr []" "t2 = t" "w2 = w'" by (cases rest; cases "r = Passed"; simp)+
  have t1: "nw \<le> t1" using try_check_time [of nw o' ctx run nw 0 w] tr by simp
  from try_check_logged [OF tr, of k L] ok(1) obtain T1 t0 x where
    T1: "try_check o' ctx (logged_run k run) nw 0 nw (w, L) = (Passed, n, t1, (w1, L @ T1))"
      "(k, t0, x, Passed) \<in> set T1" "tries_of o' ctx run k nw t1 T1" by blast
  from Cons.IH [of t1 w1 "Suc k" "L @ T1"] rest ok obtain T2 where t2: "t1 \<le> t" and
    T2: "run_checks o' ctx (map logged (enumerate (Suc k) cs)) t1 (w1, L @ T1) = (Inr [], t, (w', L @ T1 @ T2))"
      "\<forall>(i, c) \<in> set (enumerate (Suc k) cs). passed_try o' ctx t1 t T2 i c" by auto
  have "nw \<le> t0 \<and> t0 \<le> t1 \<and> Passed = fst (run t0 (ctx_min ctx (t0 + vo_timeout o')) x)"
    using T1(2,3) unfolding tries_of_def by fastforce
  then have "passed_try o' ctx nw t1 T1 k b" unfolding passed_try_def using run(1) T1(2) by (metis (no_types))
  then have here: "passed_try o' ctx nw t (T1 @ T2) k b" by (rule passed_try_more) (use t2 in auto)
  have "passed_try o' ctx nw t (T1 @ T2) i c" if "(i, c) \<in> set (enumerate (Suc k) cs)" for i c
  proof -
    from T2(2) that have "passed_try o' ctx t1 t T2 i c" by blast
    then show ?thesis by (rule passed_try_more) (use t1 in auto)
  qed
  moreover have "run_checks o' ctx (map logged (enumerate k (b # cs))) nw (w, L) = (Inr [], t, (w', L @ T1 @ T2))"
    using run T1(1) T2(1) by (simp add: logged_def)
  ultimately show ?case using here t1 t2 by (intro conjI exI [of _ "T1 @ T2"]) auto
qed simp

lemma run_checks_in_time:
  assumes "\<forall>c \<in> set cs. ck_Name c \<noteq> [] \<and> (\<exists>run. ck_Run c = Some run \<and> (\<forall>t dl w. T \<le> t \<longrightarrow> fst (run t dl w) = Passed) \<and>
      (\<forall>t dl w. int (fst (snd (run t dl w))) \<le> D))"
    and "T + D + vo_every o' \<le> nw + vo_RetryFor o'"
  shows "fst (run_checks o' None cs nw w) = Inr []"
  using assms
proof (induction cs arbitrary: nw w)
  case (Cons c cs)
  then obtain run where run: "ck_Run c = Some run" "ck_Name c \<noteq> []" "\<forall>t dl w. T \<le> t \<longrightarrow> fst (run t dl w) = Passed"
    "\<forall>t dl w. int (fst (snd (run t dl w))) \<le> D" by auto
  obtain r n t w1 where tr: "try_check o' None run nw 0 nw w = (r, n, t, w1)" by (cases "try_check o' None run nw 0 nw w") auto
  with try_check_in_time [OF run(3,4) Cons.prems(2) refl, of 0 nw w] have "r = Passed" "nw \<le> t" by simp_all
  moreover have "fst (run_checks o' None cs t w1) = Inr []" using Cons.IH [of t w1] Cons.prems \<open>nw \<le> t\<close> by auto
  moreover obtain rest t2 w2 where "run_checks o' None cs t w1 = (rest, t2, w2)" by (cases "run_checks o' None cs t w1") auto
  ultimately show ?case using run tr by simp
qed simp

section \<open>A release\<close>

lemma verify_Run_None: "verify_Run o' ctx cs nw w = (None, t, w') \<Longrightarrow> run_checks o' ctx cs nw w = (Inr [], t, w')"
  by (auto simp: verify_Run_def split: prod.splits sum.splits if_split_asm)

lemma RunVerify_zero:
  "fst (RunVerify P v own hooks nw w) = 0 \<longleftrightarrow> fst (verify_Run release_opts None (frameworkChecks P v @ own) nw w) = None"
  by (auto simp: RunVerify_def split: prod.splits)

lemma RunVerify_all_in:
  assumes "fst (run_checks release_opts None (frameworkChecks P v @ own) nw w) = Inr []"
  shows "fst (RunVerify P v own hooks nw w) = 0"
  using assms unfolding RunVerify_zero verify_Run_def
  by (cases "run_checks release_opts None (frameworkChecks P v @ own) nw w") simp

lemma verify_Run_logged:
  assumes "verify_Run o' ctx cs nw w = (None, t, w')"
  shows "\<exists>T. verify_Run o' ctx (map logged (enumerate 0 cs)) nw (w, []) = (None, t, (w', T)) \<and>
    (\<forall>i < length cs. passed_try o' ctx nw t T i (cs ! i))"
proof -
  from run_checks_logged [OF verify_Run_None [OF assms], of 0 "[]"] obtain T where
    T: "run_checks o' ctx (map logged (enumerate 0 cs)) nw (w, []) = (Inr [], t, (w', T))"
      "\<forall>(i, c) \<in> set (enumerate 0 cs). passed_try o' ctx nw t T i c" by auto
  have "passed_try o' ctx nw t T i (cs ! i)" if "i < length cs" for i
  proof -
    have "(i, cs ! i) \<in> set (enumerate 0 cs)" using that by (simp add: in_set_enumerate_eq)
    with T(2) show ?thesis by blast
  qed
  with T(1) show ?thesis by (auto simp: verify_Run_def)
qed

lemma mysql_check_passed:
  "mysql_check P res nw w = Passed \<Longrightarrow>
     pb_ping_db P nw w = None \<and> (\<forall>n. pb_dirty P nw w = Inr n \<longrightarrow> n = 0) \<and>
     (rs_rule res = RuleService \<longrightarrow>
        (\<exists>user. pb_whoami P nw w = Inr (sq_DB (rs_target res), user) \<and> has_prefix user (sq_User (rs_target res) @ ''@'')))"
  by (auto simp: mysql_check_def migrations_check_def split: option.splits sum.splits if_split_asm)

text \<open>Before the service has registered its handlers, the check of the delayed tasks passes whatever the table holds.\<close>

lemma delay_check_blind: "kinds_all sp = [] \<Longrightarrow> delay_check P sp nw w = Passed"
  by (simp add: delay_check_def overdue_def failedCount_def)

text \<open>With the handlers known it sees a task that has waited.\<close>

lemma delay_check_sees:
  assumes "kinds_all sp \<noteq> []" and "pb_due_tasks P nw w = Inr rs" and "overdue sp nw rs > 120000"
  shows "delay_check P sp nw w \<noteq> Passed"
  using assms by (simp add: delay_check_def)

text \<open>
  C23. A release that is passed works. When the process that verifies a release exits with
  0, then among the tries its runner made, of each check of the framework and of each of the
  service (known by its place in the list), there is one that passed, begun between the
  start of the run and its end. Where the service has a database, the passed try of the
  check of MySQL, which is the first, found the database answering and no migration failed
  half way; and where the database is the service's own, the connection was on that database
  with the account of the service.
\<close>

theorem release_passed_works:
  assumes zero: "fst (RunVerify P v own hooks nw w) = 0"
  shows "\<exists>til w1 T. verify_Run release_opts None (frameworkChecks P v @ own) nw w = (None, til, w1) \<and>
    verify_Run release_opts None (map logged (enumerate 0 (frameworkChecks P v @ own))) nw (w, []) = (None, til, (w1, T)) \<and>
    (\<forall>i < length (frameworkChecks P v @ own). \<exists>run t x. ck_Run ((frameworkChecks P v @ own) ! i) = Some run \<and>
       (i, t, x, Passed) \<in> set T \<and> nw \<le> t \<and> t \<le> til \<and> fst (run t (t + 30000) x) = Passed) \<and>
    (\<forall>res. vf_db v = Some res \<longrightarrow>
       (\<exists>t x. (0, t, x, Passed) \<in> set T \<and> nw \<le> t \<and> t \<le> til \<and>
          pb_ping_db P t x = None \<and> (\<forall>n. pb_dirty P t x = Inr n \<longrightarrow> n = 0) \<and>
          (rs_rule res = RuleService \<longrightarrow> (\<exists>user. pb_whoami P t x = Inr (sq_DB (rs_target res), user) \<and>
             has_prefix user (sq_User (rs_target res) @ ''@'')))))"
proof -
  let ?cs = "frameworkChecks P v @ own"
  obtain til w1 where run: "verify_Run release_opts None ?cs nw w = (None, til, w1)"
    using zero unfolding RunVerify_zero by (cases "verify_Run release_opts None ?cs nw w") auto
  from verify_Run_logged [OF run] obtain T where
    T: "verify_Run release_opts None (map logged (enumerate 0 ?cs)) nw (w, []) = (None, til, (w1, T))"
      "\<forall>i < length ?cs. passed_try release_opts None nw til T i (?cs ! i)" by blast
  have opts: "ctx_min None (t + vo_timeout release_opts) = t + 30000" for t by (simp add: ctx_min_def vo_timeout_def release_opts_def)
  note each = T(2) [unfolded passed_try_def opts]
  have "\<exists>t x. (0, t, x, Passed) \<in> set T \<and> nw \<le> t \<and> t \<le> til \<and> pb_ping_db P t x = None \<and> (\<forall>n. pb_dirty P t x = Inr n \<longrightarrow> n = 0) \<and>
      (rs_rule res = RuleService \<longrightarrow> (\<exists>user. pb_whoami P t x = Inr (sq_DB (rs_target res), user) \<and>
         has_prefix user (sq_User (rs_target res) @ ''@'')))" if db: "vf_db v = Some res" for res
  proof -
    obtain rest where cs: "?cs = asking P ''mysql'' (mysql_check P res) # rest" using db by (simp add: frameworkChecks_def)
    from each cs obtain t x where t: "(0, t, x, Passed) \<in> set T" "nw \<le> t" "t \<le> til" "mysql_check P res t x = Passed"
      unfolding cs by (elim allE [of _ 0]) (auto simp: asking_def)
    from mysql_check_passed [OF t(4)] t(1-3) show ?thesis by (intro exI [of _ t] exI [of _ x]) auto
  qed
  with run T(1) each show ?thesis by (intro exI conjI) auto
qed

text \<open>
  C14. A release is not failed for being a little late. When from some moment on every check
  passes, no try takes longer than \<open>D\<close>, and the two come to no more than 110 seconds from
  the start, the process exits with 0, whatever failed before.
\<close>

theorem release_is_waited_for:
  assumes "\<forall>c \<in> set (frameworkChecks P v @ own). ck_Name c \<noteq> [] \<and>
      (\<exists>run. ck_Run c = Some run \<and> (\<forall>t dl x. nw + T \<le> t \<longrightarrow> fst (run t dl x) = Passed) \<and> (\<forall>t dl x. int (fst (snd (run t dl x))) \<le> D))"
    and "T + D \<le> 110000"
  shows "fst (RunVerify P v own hooks nw w) = 0"
proof -
  have "(nw + T) + D + vo_every release_opts \<le> nw + vo_RetryFor release_opts"
    using assms(2) by (simp add: release_opts_def vo_every_def)
  from run_checks_in_time [OF assms(1) this] show ?thesis by (rule RunVerify_all_in)
qed

definition sample_probes :: "unit probes" where
  "sample_probes = \<lparr>pb_ping_db = (\<lambda>t w. if t < 20000 then Some ''starting'' else None),
     pb_whoami = (\<lambda>t w. Inr (''tenant_a_member'', ''tenant_a_member@10.0.0.1'')), pb_dirty = (\<lambda>t w. Inr 0),
     pb_ping_redis = (\<lambda>t w. None), pb_outbox = (\<lambda>t w. Inr []), pb_due_tasks = (\<lambda>t w. Inr []), pb_failed_tasks = (\<lambda>t w. Inr []),
     pb_nacos = (\<lambda>t w. None), pb_lookup = (\<lambda>s w. (Inr [], w)), pb_instances = (\<lambda>s t w. Inr 1), pb_get = (\<lambda>u t w. None),
     pb_took = (\<lambda>s t w. 5)\<rparr>"

definition sample_verified :: verified where
  "sample_verified = \<lparr>vf_conf = \<lparr>sc_name = ''ser-member'', sc_nacos_addrs = [], sc_register = None, sc_metrics = False, sc_devroute = None\<rparr>,
     vf_db = Some \<lparr>rs_target = \<lparr>sq_Addr = ''db-a:3306'', sq_DB = ''tenant_a_member'', sq_User = ''tenant_a_member'', sq_Password = ''pw'', sq_Params = []\<rparr>,
       rs_rule = RuleService, rs_domain = ''member'', rs_reason = None\<rparr>,
     vf_redis = False, vf_kafka = False, vf_outbox = False, vf_delay = None, vf_deps = \<lparr>d_Commit = [], d_Self = [], d_SelfGen = 0, d_Deps = []\<rparr>,
     vf_registry_off = True, vf_base = []\<rparr>"

lemma sample_mysql_check: "20000 \<le> t \<Longrightarrow> mysql_check sample_probes (the (vf_db sample_verified)) t x = Passed"
  by (simp add: mysql_check_def migrations_check_def sample_probes_def sample_verified_def)

lemma sample_in_time:
  "c \<in> set (frameworkChecks sample_probes sample_verified @ []) \<Longrightarrow> ck_Name c \<noteq> [] \<and>
     (\<exists>run. ck_Run c = Some run \<and> (\<forall>t dl x. 0 + 20000 \<le> t \<longrightarrow> fst (run t dl x) = Passed) \<and> (\<forall>t dl x. int (fst (snd (run t dl x))) \<le> 5))"
  using sample_mysql_check by (simp add: frameworkChecks_def asking_def sample_verified_def) (simp add: sample_probes_def)

theorem release_is_waited_for_witness: "fst (RunVerify sample_probes sample_verified [] [] 0 ()) = 0"
  using sample_in_time by (intro release_is_waited_for [where T = 20000 and D = 5]) auto

theorem release_passed_works_witness:
  "\<exists>til w1 T t x user. verify_Run release_opts None (map logged (enumerate 0 (frameworkChecks sample_probes sample_verified))) 0 ((), []) =
       (None, til, (w1, T)) \<and>
     (0, t, x, Passed) \<in> set T \<and> pb_ping_db sample_probes t x = None \<and> pb_whoami sample_probes t x = Inr (''tenant_a_member'', user)"
proof -
  have "fst (run_checks release_opts None (frameworkChecks sample_probes sample_verified @ []) 0 ()) = Inr []"
    using sample_in_time by (intro run_checks_in_time [where T = 20000 and D = 5]) (auto simp: release_opts_def vo_every_def)
  then have zero: "fst (RunVerify sample_probes sample_verified [] [] 0 ()) = 0" by (rule RunVerify_all_in)
  have own: "\<exists>res. vf_db sample_verified = Some res \<and> rs_rule res = RuleService \<and> sq_DB (rs_target res) = ''tenant_a_member''"
    by (simp add: sample_verified_def)
  from release_passed_works [OF zero] own show ?thesis by (elim exE conjE) (simp; blast)
qed

end
