(* ===== verification/Idempotency.thy ===== *)
theory Idempotency
  imports Redis
begin

text \<open>
  The idempotency middleware of \<^verbatim>\<open>kitexx/idempotency.go\<close> and the outgoing
  request-id check of \<^verbatim>\<open>kitexx/requestid.go\<close>. A call of the middleware is one
  function from the world (Redis and whatever the handler changes) to an answer and the
  next world; the handler is a parameter, Redis is the \<open>exec\<close> of \<open>Redis\<close>, and the JSON
  encoding of a result is the pair \<open>marshal\<close>, \<open>unmarshal\<close>.
\<close>

section \<open>Codes, keys and the marker\<close>

definition CodeRequestInProgress :: int where "CodeRequestInProgress = 1002"
definition CodeRequestIDRequired :: int where "CodeRequestIDRequired = 1003"
definition CodeIdempotencyUnavailable :: int where "CodeIdempotencyUnavailable = 5002"

text \<open>24 hours, in milliseconds.\<close>

definition IdempotencyTTL :: int where "IdempotencyTTL = 24 * 3600 * 1000"

definition pending :: string where "pending = CHR 0x00 # ''pending''"

definition idempotencyKey :: "string \<Rightarrow> string \<Rightarrow> int option \<Rightarrow> string \<Rightarrow> string" where
  "idempotencyKey service meth uid requestID =
     (let key = ''idem:'' @ service @ '':'' @ meth @ '':'' @ requestID
      in case uid of None \<Rightarrow> key | Some u \<Rightarrow> key @ '':u'' @ show_int u)"

section \<open>The middleware\<close>

text \<open>
  What the handler did: an error, a business code left in the RPCInfo (with a nil error),
  a result, or a panic that unwinds through the middleware.
\<close>

datatype 'r hres = HErr string | HBiz int | HOk 'r | HPanic

datatype 'r answer = Err string | Biz int | Reply 'r | Panicked

fun answer_of :: "'r hres \<Rightarrow> 'r answer" where
  "answer_of (HErr e) = Err e"
| "answer_of (HBiz c) = Biz c"
| "answer_of (HOk r) = Reply r"
| "answer_of HPanic = Panicked"

text \<open>The branch of a request whose key is taken: read what is kept and hand it back.\<close>

definition replay_kept ::
  "'w exec \<Rightarrow> (string \<Rightarrow> 'r option) \<Rightarrow> string \<Rightarrow> 'w \<Rightarrow> 'r answer \<times> 'w" where
  "replay_kept exec unmarshal key w =
     (case r_get exec key w of
        (Inl e, w') \<Rightarrow> (Biz CodeIdempotencyUnavailable, w')
      | (Inr None, w') \<Rightarrow> (Biz CodeRequestInProgress, w')
      | (Inr (Some kept), w') \<Rightarrow>
          if kept = pending then (Biz CodeRequestInProgress, w')
          else (case unmarshal kept of
                  None \<Rightarrow> (Biz CodeIdempotencyUnavailable, w')
                | Some r \<Rightarrow> (Reply r, w')))"

text \<open>The branch of the request that claimed the key: run the handler and keep its result.\<close>

definition run_claimed ::
  "'w exec \<Rightarrow> ('r \<Rightarrow> string option) \<Rightarrow> string \<Rightarrow> ('w \<Rightarrow> 'r hres \<times> 'w) \<Rightarrow> 'w \<Rightarrow> 'r answer \<times> 'w" where
  "run_claimed exec marshal key nxt w =
     (case nxt w of
        (HErr e, w1) \<Rightarrow> (Err e, snd (r_del exec [key] w1))
      | (HBiz c, w1) \<Rightarrow> (Biz c, snd (r_del exec [key] w1))
      | (HPanic, w1) \<Rightarrow> (Panicked, w1)
      | (HOk r, w1) \<Rightarrow>
          (case marshal r of
             None \<Rightarrow> (Reply r, w1)
           | Some data \<Rightarrow> (Reply r, snd (r_set exec key data IdempotencyTTL w1))))"

text \<open>
  \<open>rid\<close> is \<open>None\<close> when the request has no \<^verbatim>\<open>request_id\<close> field. The handler is
  given the request id its downstream writes must carry (\<^verbatim>\<open>WithRequestID\<close>).
\<close>

definition idempotency ::
  "'w exec option \<Rightarrow> ('r \<Rightarrow> string option) \<Rightarrow> (string \<Rightarrow> 'r option) \<Rightarrow>
   string \<Rightarrow> string \<Rightarrow> int option \<Rightarrow> string option \<Rightarrow>
   (string option \<Rightarrow> 'w \<Rightarrow> 'r hres \<times> 'w) \<Rightarrow> 'w \<Rightarrow> 'r answer \<times> 'w" where
  "idempotency rdb marshal unmarshal service meth uid rid nxt w =
     (case rid of
        None \<Rightarrow> map_prod answer_of id (nxt None w)
      | Some i \<Rightarrow>
          if i = [] then (Biz CodeRequestIDRequired, w)
          else (case rdb of
             None \<Rightarrow> (Biz CodeIdempotencyUnavailable, w)
           | Some exec \<Rightarrow>
               (let key = idempotencyKey service meth uid i
                in case r_setnx exec key pending IdempotencyTTL w of
                     (Inl e, w1) \<Rightarrow> (Biz CodeIdempotencyUnavailable, w1)
                   | (Inr False, w1) \<Rightarrow> replay_kept exec unmarshal key w1
                   | (Inr True, w1) \<Rightarrow> run_claimed exec marshal key (nxt (Some i)) w1)))"

text \<open>
  The same request sent again and again, each time after a while (\<open>tick\<close> lets time pass in
  the world) and with whatever handler is deployed.
\<close>

fun idempotency_retries ::
  "(int \<Rightarrow> 'w \<Rightarrow> 'w) \<Rightarrow> 'w exec \<Rightarrow> ('r \<Rightarrow> string option) \<Rightarrow> (string \<Rightarrow> 'r option) \<Rightarrow>
   string \<Rightarrow> string \<Rightarrow> int option \<Rightarrow> string \<Rightarrow>
   (int \<times> (string option \<Rightarrow> 'w \<Rightarrow> 'r hres \<times> 'w)) list \<Rightarrow> 'w \<Rightarrow> 'r answer list \<times> 'w" where
  "idempotency_retries tick exec marshal unmarshal service meth uid i [] w = ([], w)"
| "idempotency_retries tick exec marshal unmarshal service meth uid i ((d, nxt) # nxts) w =
     (case idempotency (Some exec) marshal unmarshal service meth uid (Some i) nxt (tick d w) of
        (a, w1) \<Rightarrow>
          (case idempotency_retries tick exec marshal unmarshal service meth uid i nxts w1 of
             (as, w2) \<Rightarrow> (a # as, w2)))"

text \<open>
  The start-up check. A service is its methods, each with whether its request has a
  \<^verbatim>\<open>request_id\<close> field.
\<close>

definition idempotentMethods :: "(string \<times> bool) list list \<Rightarrow> string list" where
  "idempotentMethods svcs = sort (map fst (filter snd (concat svcs)))"

definition checkIdempotencyStore :: "'w exec option \<Rightarrow> (string \<times> bool) list list \<Rightarrow> string list + unit" where
  "checkIdempotencyStore rdb svcs =
     (if rdb \<noteq> None then Inr ()
      else if idempotentMethods svcs = [] then Inr ()
      else Inl (idempotentMethods svcs))"

section \<open>Outgoing calls: the request id of the scope\<close>

text \<open>
  \<^verbatim>\<open>WithRequestID\<close> opens a scope for the request being handled; \<open>made\<close> holds the
  \<^verbatim>\<open>"<service>.<method> <id>"\<close> of the downstream calls already made in it.
\<close>

record requestScope =
  scope_id :: string
  made :: "string set"

definition WithRequestID :: "requestScope option \<Rightarrow> string \<Rightarrow> requestScope option" where
  "WithRequestID ctx i = (if i = [] then ctx else Some \<lparr>scope_id = i, made = {}\<rparr>)"

definition RequestID :: "requestScope option \<Rightarrow> string" where
  "RequestID ctx = (case ctx of None \<Rightarrow> [] | Some sc \<Rightarrow> scope_id sc)"

definition SubRequestID :: "requestScope option \<Rightarrow> string \<Rightarrow> string" where
  "SubRequestID ctx part = (if RequestID ctx = [] then [] else RequestID ctx @ '':'' @ part)"

datatype refusal = NoRequestID | NotDerived | SecondCall

definition call_key :: "string \<Rightarrow> string \<Rightarrow> string \<Rightarrow> string" where
  "call_key service meth i = service @ ''.'' @ meth @ '' '' @ i"

fun call_failed :: "'r hres \<Rightarrow> bool" where
  "call_failed (HErr e) = True"
| "call_failed (HBiz c) = True"
| "call_failed (HOk r) = False"
| "call_failed HPanic = False"

definition derived :: "string \<Rightarrow> string \<Rightarrow> bool" where
  "derived sid i \<longleftrightarrow> i = sid \<or> has_prefix i (sid @ '':'')"

text \<open>
  One outgoing call: refused before it is sent, or sent with what the service answered.
  A failed call is taken off \<open>made\<close> again; a panic leaves it there.
\<close>

definition clientRequestID ::
  "string \<Rightarrow> string \<Rightarrow> string option \<Rightarrow> ('w \<Rightarrow> 'r hres \<times> 'w) \<Rightarrow>
   requestScope option \<Rightarrow> 'w \<Rightarrow> (refusal + 'r hres) \<times> requestScope option \<times> 'w" where
  "clientRequestID service meth rid nxt ctx w =
     (case rid of
        None \<Rightarrow> (case nxt w of (h, w') \<Rightarrow> (Inr h, ctx, w'))
      | Some i \<Rightarrow>
          if i = [] then (Inl NoRequestID, ctx, w)
          else (case ctx of
             None \<Rightarrow> (case nxt w of (h, w') \<Rightarrow> (Inr h, ctx, w'))
           | Some sc \<Rightarrow>
               if \<not> derived (scope_id sc) i then (Inl NotDerived, ctx, w)
               else let key = call_key service meth i
                    in if key \<in> made sc then (Inl SecondCall, ctx, w)
                       else (case nxt w of (h, w') \<Rightarrow>
                          (Inr h,
                           Some (sc\<lparr>made := (if call_failed h then made sc else insert key (made sc))\<rparr>),
                           w'))))"

text \<open>
  The calls of one request in order: \<open>(service, method, request_id, service's behaviour)\<close>.
  The log keeps the key of every call that was sent and what came back.
\<close>

fun client_calls ::
  "(string \<times> string \<times> string \<times> ('w \<Rightarrow> 'r hres \<times> 'w)) list \<Rightarrow> requestScope option \<Rightarrow> 'w \<Rightarrow>
   (string \<times> string \<times> string \<times> 'r hres) list" where
  "client_calls [] ctx w = []"
| "client_calls ((service, meth, i, nxt) # cs) ctx w =
     (case clientRequestID service meth (Some i) nxt ctx w of
        (Inl _, ctx', w') \<Rightarrow> client_calls cs ctx' w'
      | (Inr h, ctx', w') \<Rightarrow> (service, meth, i, h) # client_calls cs ctx' w')"

section \<open>Keys\<close>

text \<open>
  Two logins never share a key: the last \<open>:u\<close> part is the uid, and no shorter suffix of a
  key can be taken for one.
\<close>

lemma idempotencyKey_split:
  "idempotencyKey s m (Some u) i = (''idem:'' @ s @ '':'' @ m @ '':'' @ i @ '':u'') @ show_int u"
  by (simp add: idempotencyKey_def Let_def)

lemma suffix_after_colon:
  assumes "x @ CHR '':'' # a = y @ CHR '':'' # b"
    and "CHR '':'' \<notin> set a" and "CHR '':'' \<notin> set b"
  shows "a = b"
proof -
  have "rev a @ CHR '':'' # rev x = rev b @ CHR '':'' # rev y"
    using arg_cong [OF assms(1), of rev] by simp
  then have "rev a = rev b" using assms(2,3) by (subst (asm) colon_split) auto
  then show ?thesis by simp
qed

lemma idempotencyKey_uid:
  assumes "idempotencyKey s m (Some u) i = idempotencyKey s' m' (Some v) j"
  shows "u = v"
proof -
  have "(''idem:'' @ s @ '':'' @ m @ '':'' @ i) @ CHR '':'' # CHR ''u'' # show_int u
      = (''idem:'' @ s' @ '':'' @ m' @ '':'' @ j) @ CHR '':'' # CHR ''u'' # show_int v"
    using assms by (simp add: idempotencyKey_def Let_def)
  then have "CHR ''u'' # show_int u = CHR ''u'' # show_int v"
    by (rule suffix_after_colon) auto
  then show ?thesis by simp
qed

lemma pending_nonempty [simp]: "pending \<noteq> []"
  by (simp add: pending_def)

lemma run_claimed_answer: "fst (run_claimed exec marshal key h w) = answer_of (fst (h w))"
  by (auto simp: run_claimed_def split: prod.splits hres.splits option.splits)

section \<open>The calls of one scope\<close>

lemma client_calls_inv:
  shows "(\<forall>(s, m, i, h) \<in> set (client_calls calls (Some sc) w). derived (scope_id sc) i) \<and>
    (\<forall>(s, m, i, h) \<in> set (client_calls calls (Some sc) w). \<not> call_failed h \<longrightarrow> call_key s m i \<notin> made sc) \<and>
    distinct (map (\<lambda>(s, m, i, h). call_key s m i)
      (filter (\<lambda>(s, m, i, h). \<not> call_failed h) (client_calls calls (Some sc) w)))"
proof (induction calls arbitrary: sc w)
  case Nil
  then show ?case by simp
next
  case (Cons c cs)
  obtain s m i nxt where c: "c = (s, m, i, nxt)" by (cases c)
  obtain h w' where n: "nxt w = (h, w')" by (cases "nxt w")
  show ?case
  proof (cases "i = [] \<or> \<not> derived (scope_id sc) i \<or> call_key s m i \<in> made sc")
    case True
    then have "client_calls (c # cs) (Some sc) w = client_calls cs (Some sc) w"
      by (auto simp: c clientRequestID_def Let_def)
    with Cons.IH [of sc w] show ?thesis by simp
  next
    case False
    let ?sc = "sc\<lparr>made := (if call_failed h then made sc else insert (call_key s m i) (made sc))\<rparr>"
    from False have "client_calls (c # cs) (Some sc) w = (s, m, i, h) # client_calls cs (Some ?sc) w'"
      by (auto simp: c n clientRequestID_def Let_def)
    with Cons.IH [of ?sc w'] False show ?thesis by (auto split: if_splits)
  qed
qed

section \<open>One call on a taken key\<close>

text \<open>
  What a call on a taken key may answer: the kept result, \<open>1002\<close> while there is none yet,
  or \<open>5002\<close> when the store fails or the kept result does not decode.
\<close>

definition kept_answer :: "(string \<Rightarrow> 'r option) \<Rightarrow> string option \<Rightarrow> 'r answer \<Rightarrow> bool" where
  "kept_answer unmarshal v a \<longleftrightarrow> a = Biz CodeIdempotencyUnavailable \<or>
     (case v of
        None \<Rightarrow> a = Biz CodeRequestInProgress
      | Some kept \<Rightarrow> if kept = pending then a = Biz CodeRequestInProgress
          else (\<exists>r. unmarshal kept = Some r \<and> a = Reply r))"

context redis_server
begin

lemma replay_kept_cases:
  assumes "replay_kept exec unmarshal key w = (a, w')"
  shows "store w' = store w \<and> kept_answer unmarshal (kv (store w) key) a"
proof -
  obtain r w1 where g: "r_get exec key w = (r, w1)" by (cases "r_get exec key w")
  from get_store [OF g] have st: "store w1 = store w" .
  show ?thesis
  proof (cases r)
    case (Inl e)
    with assms g st show ?thesis by (simp add: replay_kept_def kept_answer_def)
  next
    case (Inr v)
    with g get_ok have "v = kv (store w) key" by blast
    with assms g st Inr show ?thesis
      by (auto simp: replay_kept_def kept_answer_def split: option.splits if_splits)
  qed
qed

text \<open>A call on a taken key never reaches the handler and leaves the store alone.\<close>

lemma idempotency_taken:
  assumes i: "i \<noteq> []" and taken: "has_key (store w) (idempotencyKey service meth uid i)"
    and call: "idempotency (Some exec) marshal unmarshal service meth uid (Some i) nxt w = (a, w')"
  shows "store w' = store w"
    and "\<And>nxt'. idempotency (Some exec) marshal unmarshal service meth uid (Some i) nxt' w = (a, w')"
    and "kept_answer unmarshal (kv (store w) (idempotencyKey service meth uid i)) a"
proof -
  let ?key = "idempotencyKey service meth uid i"
  obtain b w1 where sn: "r_setnx exec ?key pending IdempotencyTTL w = (b, w1)"
    by (cases "r_setnx exec ?key pending IdempotencyTTL w")
  from setnx_taken [OF taken sn] have b: "b \<noteq> Inr True" and st: "store w1 = store w" by auto
  have eq: "idempotency (Some exec) marshal unmarshal service meth uid (Some i) n w =
      (case b of Inl e \<Rightarrow> (Biz CodeIdempotencyUnavailable, w1)
               | Inr _ \<Rightarrow> replay_kept exec unmarshal ?key w1)" for n
    using i sn b by (auto simp: idempotency_def Let_def split: sum.splits bool.splits)
  show "\<And>nxt'. idempotency (Some exec) marshal unmarshal service meth uid (Some i) nxt' w = (a, w')"
    using call eq by simp
  have *: "(a, w') = (case b of Inl e \<Rightarrow> (Biz CodeIdempotencyUnavailable, w1)
               | Inr _ \<Rightarrow> replay_kept exec unmarshal ?key w1)"
    using call eq by simp
  have "store w' = store w \<and> kept_answer unmarshal (kv (store w) ?key) a"
  proof (cases b)
    case (Inl e)
    with * st show ?thesis by (simp add: kept_answer_def)
  next
    case (Inr x)
    with * have "replay_kept exec unmarshal ?key w1 = (a, w')" by simp
    from replay_kept_cases [OF this] st show ?thesis by simp
  qed
  then show "store w' = store w" "kept_answer unmarshal (kv (store w) ?key) a" by simp_all
qed

text \<open>A run of retries while the key lives: every answer comes from what is kept.\<close>

lemma retries_taken:
  assumes i: "i \<noteq> []" and clock: "\<And>d v. store (tick d v) = pass_time d (store v)"
    and kept: "kv (store w) (idempotencyKey service meth uid i) = Some v"
    and left: "ttl (store w) (idempotencyKey service meth uid i) = Some t"
    and pauses: "\<forall>(d, n) \<in> set nxts. 0 \<le> d" "sum_list (map fst nxts) < t"
    and run: "idempotency_retries tick exec marshal unmarshal service meth uid i nxts w = (as, w')"
  shows "store w' = fold pass_time (map fst nxts) (store w) \<and> (\<forall>a \<in> set as. kept_answer unmarshal (Some v) a)"
  using kept left pauses run
proof (induction nxts arbitrary: w as t)
  case Nil
  then show ?case by simp
next
  case (Cons p ns)
  obtain d n where p: "p = (d, n)" by (cases p)
  let ?key = "idempotencyKey service meth uid i"
  obtain a w1 where c: "idempotency (Some exec) marshal unmarshal service meth uid (Some i) n (tick d w) = (a, w1)"
    by fastforce
  obtain as' where r: "idempotency_retries tick exec marshal unmarshal service meth uid i ns w1 = (as', w')"
    and as: "as = a # as'"
    using Cons.prems(5) c p by (auto split: prod.splits)
  have "0 \<le> sum_list (map fst ns)" using Cons.prems(3) by (intro sum_list_nonneg) auto
  with Cons.prems(4) p have d: "d < t" "sum_list (map fst ns) < t - d" by simp_all
  have st: "store (tick d w) = pass_time d (store w)" by (rule clock)
  have k: "kv (store (tick d w)) ?key = Some v" "ttl (store (tick d w)) ?key = Some (t - d)"
    using pass_time_kept [OF Cons.prems(2) d(1)] Cons.prems(1) st by simp_all
  note t = idempotency_taken [OF i has_key_kv [OF k(1)] c]
  from t(1) k have k1: "kv (store w1) ?key = Some v" "ttl (store w1) ?key = Some (t - d)" by simp_all
  have "\<forall>(d, n) \<in> set ns. 0 \<le> d" using Cons.prems(3) by simp
  from Cons.IH [OF k1 this d(2) r] t(1) t(3) k(1) st as p show ?case by auto
qed

text \<open>Which handlers the retries carry makes no difference: none of them is reached.\<close>

lemma retries_ignore_handlers:
  assumes i: "i \<noteq> []" and clock: "\<And>d v. store (tick d v) = pass_time d (store v)"
    and kept: "kv (store w) (idempotencyKey service meth uid i) = Some v"
    and left: "ttl (store w) (idempotencyKey service meth uid i) = Some t"
    and pauses: "\<forall>(d, n) \<in> set nxts. 0 \<le> d" "sum_list (map fst nxts) < t"
    and same: "map fst nxts = map fst nxts'"
  shows "idempotency_retries tick exec marshal unmarshal service meth uid i nxts w
       = idempotency_retries tick exec marshal unmarshal service meth uid i nxts' w"
  using same kept left pauses
proof (induction nxts arbitrary: w nxts' t)
  case Nil
  then show ?case by simp
next
  case (Cons p ns)
  let ?key = "idempotencyKey service meth uid i"
  obtain d n where p: "p = (d, n)" by (cases p)
  with Cons.prems(1) obtain n' ns' where q: "nxts' = (d, n') # ns'" "map fst ns = map fst ns'"
    by (cases nxts') auto
  obtain a w1 where c: "idempotency (Some exec) marshal unmarshal service meth uid (Some i) n (tick d w) = (a, w1)"
    by fastforce
  have "0 \<le> sum_list (map fst ns)" using Cons.prems(4) by (intro sum_list_nonneg) auto
  with Cons.prems(5) p have d: "d < t" "sum_list (map fst ns) < t - d" by simp_all
  have k: "kv (store (tick d w)) ?key = Some v" "ttl (store (tick d w)) ?key = Some (t - d)"
    using pass_time_kept [OF Cons.prems(3) d(1)] Cons.prems(2) clock by simp_all
  note t = idempotency_taken [OF i has_key_kv [OF k(1)] c]
  from t(1) k have k1: "kv (store w1) ?key = Some v" "ttl (store w1) ?key = Some (t - d)" by simp_all
  have "\<forall>(d, n) \<in> set ns. 0 \<le> d" using Cons.prems(4) by simp
  from Cons.IH [OF q(2) k1 this d(2)] c t(2) [of n'] p q(1) show ?case by (simp split: prod.splits)
qed

text \<open>
  After a first call that answered a result, the key holds the result with the whole time to
  live, or the marker with what the handler left of it.
\<close>

lemma first_call_keeps:
  assumes i: "i \<noteq> []"
    and free: "\<not> has_key (store w) (idempotencyKey service meth uid i)"
    and call: "idempotency (Some exec) marshal unmarshal service meth uid (Some i) nxt w = (Reply r, w1)"
    and frame: "\<And>v. kv (store (snd (nxt (Some i) v))) (idempotencyKey service meth uid i)
        = kv (pass_time (took v) (store v)) (idempotencyKey service meth uid i) \<and>
      ttl (store (snd (nxt (Some i) v))) (idempotencyKey service meth uid i)
        = ttl (pass_time (took v) (store v)) (idempotencyKey service meth uid i)"
    and short: "\<And>v. 0 \<le> took v \<and> took v < IdempotencyTTL"
  shows "\<exists>v t. kv (store w1) (idempotencyKey service meth uid i) = Some v \<and>
    ttl (store w1) (idempotencyKey service meth uid i) = Some t \<and> 0 < t \<and> t \<le> IdempotencyTTL \<and>
    (v = pending \<or> (marshal r = Some v \<and> t = IdempotencyTTL))"
proof -
  let ?key = "idempotencyKey service meth uid i"
  have pos: "IdempotencyTTL > 0" by (simp add: IdempotencyTTL_def)
  obtain b w0 where sn: "r_setnx exec ?key pending IdempotencyTTL w = (b, w0)"
    by (cases "r_setnx exec ?key pending IdempotencyTTL w")
  have b: "b = Inr True"
  proof (cases b)
    case (Inr x)
    with sn free setnx_false [of ?key pending IdempotencyTTL w w0] show ?thesis by (cases x) auto
  qed (use call i sn in \<open>auto simp: idempotency_def Let_def\<close>)
  with sn setnx_true have s0: "store w0 = set_key ?key pending IdempotencyTTL (store w)" by blast
  then have st0: "kv (store w0) ?key = Some pending" "ttl (store w0) ?key = Some IdempotencyTTL"
    using pos by simp_all
  obtain w2 where n: "nxt (Some i) w0 = (HOk r, w2)"
    and w1: "w1 = (case marshal r of None \<Rightarrow> w2
               | Some data \<Rightarrow> snd (r_set exec ?key data IdempotencyTTL w2))"
    using call i sn b
    by (auto simp: idempotency_def run_claimed_def Let_def split: prod.splits hres.splits option.splits)
  have k2: "kv (store w2) ?key = Some pending" "ttl (store w2) ?key = Some (IdempotencyTTL - took w0)"
    using frame [of w0] n pass_time_kept [OF st0(2), of "took w0"] short [of w0] st0(1) by simp_all
  show ?thesis
  proof (cases "marshal r")
    case None
    with w1 k2 short [of w0] show ?thesis by simp
  next
    case (Some data)
    obtain u w3 where s: "r_set exec ?key data IdempotencyTTL w2 = (u, w3)"
      by (cases "r_set exec ?key data IdempotencyTTL w2")
    from set_store [OF s] k2 Some w1 s pos short [of w0] show ?thesis by auto
  qed
qed

text \<open>A call on a free key runs its handler, or the store refuses.\<close>

lemma idempotency_free:
  assumes "i \<noteq> []" and "\<not> has_key (store w) (idempotencyKey service meth uid i)"
  shows "fst (idempotency (Some exec) marshal unmarshal service meth uid (Some i) nxt w) = Biz CodeIdempotencyUnavailable \<or>
    (\<exists>v. fst (idempotency (Some exec) marshal unmarshal service meth uid (Some i) nxt w) = answer_of (fst (nxt (Some i) v)))"
proof -
  let ?key = "idempotencyKey service meth uid i"
  obtain b w0 where sn: "r_setnx exec ?key pending IdempotencyTTL w = (b, w0)"
    by (cases "r_setnx exec ?key pending IdempotencyTTL w")
  show ?thesis
  proof (cases b)
    case (Inl e)
    with sn assms(1) show ?thesis by (simp add: idempotency_def Let_def)
  next
    case (Inr x)
    with sn assms(2) setnx_false [of ?key pending IdempotencyTTL w w0] have "x" by (cases x) auto
    with Inr sn assms(1) run_claimed_answer [of exec marshal ?key "nxt (Some i)" w0] show ?thesis
      by (auto simp: idempotency_def Let_def)
  qed
qed

end

section \<open>Properties\<close>


lemma show_nat_not_pending [simp]: "show_nat n \<noteq> pending"
proof
  assume "show_nat n = pending"
  moreover have "char_digit CHR 0x00 = None" by (simp add: char_digit_def)
  ultimately show False
    using set_show_nat [of "CHR 0x00" n] char_digit_digit_char by (force simp: pending_def)
qed



text \<open>
  A request that failed can be tried again. When the handler of a claimed request
  returns an error or a business code and the store answers, the key is gone afterwards,
  and the retry reaches the handler: its answer is the answer of the handler it carries.
\<close>

lemma idempotency_failure_frees:
  assumes redis: "redis_server exec store"
    and id: "i \<noteq> []"
    and up: "\<And>cs v. \<exists>rs v'. exec cs v = (Inr rs, v')"
    and free: "\<not> has_key (store w) (idempotencyKey service meth uid i)"
    and fails: "\<And>v. \<exists>v'. nxt (Some i) v = (HErr e, v') \<or> nxt (Some i) v = (HBiz c, v')"
    and first: "idempotency (Some exec) marshal unmarshal service meth uid (Some i) nxt w = (a, w1)"
  shows "(a = Err e \<or> a = Biz c) \<and> \<not> has_key (store w1) (idempotencyKey service meth uid i) \<and>
    (\<forall>nxt'. \<exists>v. fst (idempotency (Some exec) marshal unmarshal service meth uid (Some i) nxt' w1)
       = answer_of (fst (nxt' (Some i) v)))"
proof -
  let ?key = "idempotencyKey service meth uid i"
  have claim: "\<exists>v'. r_setnx exec ?key pending IdempotencyTTL v = (Inr True, v')"
    if "\<not> has_key (store v) ?key" for v
    using that by (rule redis_server.setnx_free [OF redis up])
  obtain w0 where sn: "r_setnx exec ?key pending IdempotencyTTL w = (Inr True, w0)"
    using claim [OF free] by blast
  obtain h w2 where n: "nxt (Some i) w0 = (h, w2)" and h: "h = HErr e \<or> h = HBiz c"
    using fails [of w0] by auto
  obtain k w3 where d: "r_del exec [?key] w2 = (Inr k, w3)"
    using redis_server.del_up [OF redis up] by blast
  have a: "(a, w1) = (answer_of h, w3)"
    using first id sn n h d by (auto simp: idempotency_def run_claimed_def Let_def)
  have gone: "\<not> has_key (store w3) ?key"
    using redis_server.del_ok [OF redis d] by simp
  have "\<exists>v. fst (idempotency (Some exec) marshal unmarshal service meth uid (Some i) nxt' w3)
       = answer_of (fst (nxt' (Some i) v))" for nxt'
  proof -
    obtain v where v: "r_setnx exec ?key pending IdempotencyTTL w3 = (Inr True, v)"
      using claim [OF gone] by blast
    show ?thesis
      using v id run_claimed_answer [of exec marshal ?key "nxt' (Some i)" v]
      by (auto simp: idempotency_def Let_def)
  qed
  with a h gone show ?thesis by auto
qed

theorem idempotency_failure_frees_witness:
  "\<not> has_key (snd (idempotency (Some live_exec) (\<lambda>r. Some (show_nat r)) parse_nat
      ''pay'' ''Debit'' (Some 7) (Some ''r1'') (\<lambda>_ w. (HErr ''db'', w)) empty_rstate))
    (idempotencyKey ''pay'' ''Debit'' (Some 7) ''r1'')"
proof -
  have free: "\<not> has_key empty_rstate (idempotencyKey ''pay'' ''Debit'' (Some 7) ''r1'')"
    by (simp add: has_key_def empty_rstate_def)
  show ?thesis
    using idempotency_failure_frees [where c = 0 and marshal = "\<lambda>r. Some (show_nat r)" and unmarshal = parse_nat,
        OF live.redis_server_axioms _ live_up free _ prod.collapse [symmetric],
        where nxt = "\<lambda>_ w. (HErr ''db'', w)" and e = "''db''"]
    by simp
qed


text \<open>
  A result that cannot be kept, or a panic, locks its request id for a day. When the
  handler panics, or succeeds with a result that does not encode, the key keeps the
  in-progress marker with its 24 hours to live, and every further call with that id is
  answered 1002 whatever handler it carries: it does not run again. (The comment in the
  code says a retry will run again.)
\<close>

lemma idempotency_unkept_blocks:
  assumes redis: "redis_server exec store"
    and id: "i \<noteq> []"
    and up: "\<And>cs v. \<exists>rs v'. exec cs v = (Inr rs, v')"
    and free: "\<not> has_key (store w) (idempotencyKey service meth uid i)"
    and frame: "\<And>v. store (snd (nxt (Some i) v)) = store v"
    and lost: "\<And>v. fst (nxt (Some i) v) = HPanic \<or> (\<exists>r. fst (nxt (Some i) v) = HOk r \<and> marshal r = None)"
    and first: "idempotency (Some exec) marshal unmarshal service meth uid (Some i) nxt w = (a, w1)"
  shows "kv (store w1) (idempotencyKey service meth uid i) = Some pending \<and>
    ttl (store w1) (idempotencyKey service meth uid i) = Some IdempotencyTTL \<and>
    (\<forall>nxt'. fst (idempotency (Some exec) marshal unmarshal service meth uid (Some i) nxt' w1)
       = Biz CodeRequestInProgress)"
proof -
  let ?key = "idempotencyKey service meth uid i"
  obtain w0 where sn: "r_setnx exec ?key pending IdempotencyTTL w = (Inr True, w0)"
    using redis_server.setnx_free [OF redis up free] by blast
  have st0: "store w0 = set_key ?key pending IdempotencyTTL (store w)"
    using redis_server.setnx_true [OF redis sn] by simp
  have w1: "w1 = snd (nxt (Some i) w0)"
    using first id sn lost [of w0]
    by (auto simp: idempotency_def run_claimed_def Let_def split: prod.splits hres.splits option.splits)
  then have st1: "store w1 = store w0" using frame by simp
  have taken: "has_key (store w1) ?key" and k: "kv (store w1) ?key = Some pending"
    using st0 st1 by simp_all
  obtain w2 where sn2: "r_setnx exec ?key pending IdempotencyTTL w1 = (Inr False, w2)"
    using redis_server.call1_up [OF redis up, of "SETNX ?key pending IdempotencyTTL" w1] taken
    by (auto simp: r_setnx_def call1_def)
  obtain w3 where g: "r_get exec ?key w2 = (Inr (Some pending), w3)"
    using redis_server.call1_up [OF redis up, of "GET ?key" w2] redis_server.setnx_false [OF redis sn2] k
    by (auto simp: r_get_def call1_def)
  have "idempotency (Some exec) marshal unmarshal service meth uid (Some i) nxt' w1
      = (Biz CodeRequestInProgress, w3)" for nxt'
    using id sn2 g by (simp add: idempotency_def replay_kept_def Let_def)
  with k st0 st1 show ?thesis by (simp add: IdempotencyTTL_def)
qed

theorem idempotency_unkept_blocks_witness:
  "fst (idempotency (Some live_exec) (\<lambda>_. None) parse_nat ''pay'' ''Debit'' None (Some ''r1'')
      (\<lambda>_ w. (HOk 6, w))
      (snd (idempotency (Some live_exec) (\<lambda>_. None) parse_nat ''pay'' ''Debit'' None (Some ''r1'')
        (\<lambda>_ w. (HOk 5, w)) empty_rstate))) = Biz CodeRequestInProgress"
proof -
  have free: "\<not> has_key empty_rstate (idempotencyKey ''pay'' ''Debit'' None ''r1'')"
    by (simp add: has_key_def empty_rstate_def)
  show ?thesis
    using idempotency_unkept_blocks [where marshal = "\<lambda>_. None" and unmarshal = parse_nat,
        OF live.redis_server_axioms _ live_up free _ _ prod.collapse [symmetric],
        where nxt = "\<lambda>_ w. (HOk 5, w)"]
    by simp
qed

text \<open>
  Two logged-in callers never share a kept answer: whatever the services, methods and
  request ids, keys of different uids differ.
\<close>

lemma idempotencyKey_separates_logins:
  assumes "u \<noteq> v"
  shows "idempotencyKey s m (Some u) i \<noteq> idempotencyKey s' m' (Some v) j"
  using assms idempotencyKey_uid by blast

theorem idempotencyKey_separates_logins_witness:
  "idempotencyKey ''pay'' ''Debit'' (Some 7) ''a'' \<noteq> idempotencyKey ''pay'' ''Debit'' (Some 8) ''a:u7''"
  by (rule idempotencyKey_separates_logins) simp

text \<open>
  A caller without a login can name a login's key: the request id \<open>i\<close> followed by
  \<open>:u\<close> and the uid, sent without a login, has the key of that login's request \<open>i\<close>. So
  once the login's call is kept, the anonymous caller is answered with its result.
\<close>

lemma idempotencyKey_anonymous_collision:
  assumes redis: "redis_server exec store"
    and kept: "kv (store w) (idempotencyKey s m (Some u) i) = Some d" "d \<noteq> pending" "unmarshal d = Some r"
    and up: "\<And>cs v. \<exists>rs v'. exec cs v = (Inr rs, v')"
  shows "fst (idempotency (Some exec) marshal unmarshal s m None (Some (i @ '':u'' @ show_int u)) nxt w) = Reply r"
proof -
  let ?key = "idempotencyKey s m (Some u) i"
  have key: "idempotencyKey s m None (i @ CHR '':'' # CHR ''u'' # show_int u) = ?key"
    by (simp add: idempotencyKey_def Let_def)
  obtain w1 where sn: "r_setnx exec ?key pending IdempotencyTTL w = (Inr False, w1)"
    using redis_server.call1_up [OF redis up, of "SETNX ?key pending IdempotencyTTL" w] kept(1)
    by (auto simp: r_setnx_def call1_def has_key_def)
  obtain w2 where g: "r_get exec ?key w1 = (Inr (Some d), w2)"
    using redis_server.call1_up [OF redis up, of "GET ?key" w1] redis_server.setnx_false [OF redis sn] kept(1)
    by (auto simp: r_get_def call1_def)
  show ?thesis
    using sn g kept by (simp add: idempotency_def replay_kept_def Let_def key)
qed

text \<open>
  Downstream writes of a request are its own and happen once. Of the calls a request
  with id \<open>sid\<close> makes, in any order and with any answers, every one that is sent carries
  \<open>sid\<close> or an id derived from it, and no two that succeeded have the same target and id.
\<close>

lemma client_calls_once:
  assumes "log = client_calls calls (WithRequestID ctx sid) w" and "sid \<noteq> []"
  shows "(\<forall>(s, m, i, h) \<in> set log. derived sid i) \<and>
    distinct (map (\<lambda>(s, m, i, h). call_key s m i) (filter (\<lambda>(s, m, i, h). \<not> call_failed h) log))"
proof -
  from client_calls_inv [of calls "\<lparr>scope_id = sid, made = {}\<rparr>" w]
  show ?thesis using assms by (simp add: WithRequestID_def)
qed

theorem client_calls_once_witness:
  "distinct (map (\<lambda>(s, m, i, h). call_key s m i)
    (filter (\<lambda>(s, m, i, h). \<not> call_failed h)
      (client_calls [(''w'', ''Debit'', ''r1'', \<lambda>w. (HErr ''x'', w)), (''w'', ''Debit'', ''r1'', \<lambda>w. (HOk 1, w)),
        (''w'', ''Debit'', ''r1'', \<lambda>w. (HOk 2, w)), (''w'', ''Debit'', ''r1:fee'', \<lambda>w. (HOk (3::nat), w))]
        (WithRequestID None ''r1'') ())))"
  by (rule client_calls_once [THEN conjunct2, OF refl]) simp

end
