(* ===== verification/Kafkax.thy ===== *)
theory Kafkax
  imports Redis
begin

text \<open>
  The event bus of \<^verbatim>\<open>kafkax\<close>: processing one record with the dedupe check and the
  retries (\<^verbatim>\<open>kafkax.go\<close>), and the dead-letter tool (\<^verbatim>\<open>dlq.go\<close>). Kafka itself is
  outside: records arrive as lists, producing a record is a parameter that may fail, and a
  commit is the map of offsets handed to it. The handler is a parameter on the world \<open>'w\<close>,
  Redis is the \<open>exec\<close> of \<open>Redis\<close>, and decoding the envelope yields the event id.
\<close>

section \<open>Configuration\<close>

record kconfig =
  k_enabled :: bool
  k_source :: string
  k_role :: string
  k_max_retries :: int
  k_dedupe_enabled :: "bool option"
  k_dedupe_ttl :: int

definition dedupe_enabled_or_default :: "kconfig \<Rightarrow> bool" where
  "dedupe_enabled_or_default c = (case k_dedupe_enabled c of None \<Rightarrow> True | Some b \<Rightarrow> b)"

text \<open>24 hours, in milliseconds.\<close>

definition dedupe_ttl :: "kconfig \<Rightarrow> int" where
  "dedupe_ttl c = (if k_dedupe_ttl c = 0 then 24 * 3600000 else k_dedupe_ttl c)"

definition SourceName :: "kconfig \<Rightarrow> string" where
  "SourceName c = (let s = trim_space (k_source c) in if s \<noteq> [] then s else ''static'')"

definition RoleName :: "kconfig \<Rightarrow> string" where
  "RoleName c = (let r = trim_space (k_role c) in if r \<noteq> [] then r else ''tenant'')"

definition retries :: "kconfig \<Rightarrow> nat" where
  "retries c = (if k_max_retries c > 0 then nat (k_max_retries c) else 3)"

datatype kconfig_error = BadSource string | BadRole string

definition kafka_validate :: "kconfig \<Rightarrow> kconfig_error + unit" where
  "kafka_validate c =
     (if \<not> k_enabled c then Inr ()
      else if SourceName c \<noteq> ''static'' \<and> SourceName c \<noteq> ''platform'' then Inl (BadSource (k_source c))
      else if RoleName c \<noteq> ''tenant'' \<and> RoleName c \<noteq> ''platform'' then Inl (BadRole (k_role c))
      else Inr ())"

section \<open>Records and events\<close>

record krecord =
  topic :: string
  rkey :: string
  rvalue :: string
  headers :: "(string \<times> string) list"
  partition :: int
  offset :: int
  timestamp :: int

definition DLQSuffix :: string where "DLQSuffix = ''.dlq''"

section \<open>Processing one record\<close>

text \<open>
  \<open>seen\<close> claims the event id; the answer is whether it was handled before and the key to
  forget (empty when there is none). \<open>rdb = None\<close>: no dedupe.
\<close>

definition dedupe_key :: "string \<Rightarrow> string \<Rightarrow> string \<Rightarrow> string" where
  "dedupe_key service tpc i = ''dedupe:'' @ service @ '':'' @ tpc @ '':'' @ i"

definition seen :: "'w exec option \<Rightarrow> kconfig \<Rightarrow> string \<Rightarrow> string \<Rightarrow> string \<Rightarrow> 'w \<Rightarrow> (bool \<times> string) \<times> 'w" where
  "seen rdb c service tpc i w =
     (case rdb of
        None \<Rightarrow> ((False, []), w)
      | Some exec \<Rightarrow>
          if i = [] then ((False, []), w)
          else let key = dedupe_key service tpc i
               in case r_setnx exec key ''1'' (dedupe_ttl c) w of
                    (Inl e, w') \<Rightarrow> ((False, []), w')
                  | (Inr ok, w') \<Rightarrow> ((\<not> ok, key), w'))"

definition forget :: "'w exec option \<Rightarrow> string \<Rightarrow> 'w \<Rightarrow> 'w" where
  "forget rdb key w =
     (if key = [] then w else case rdb of None \<Rightarrow> w | Some exec \<Rightarrow> snd (r_del exec [key] w))"

text \<open>
  The retry loop. \<open>h\<close> is the handler with its panics turned into errors, \<open>over\<close> whether the
  context has ended, asked after a failed attempt. The result is \<open>None\<close> when handled, or the
  last error; \<open>err\<close> is the error so far.
\<close>

fun try_handler ::
  "'w exec option \<Rightarrow> string \<Rightarrow> ('w \<Rightarrow> string option \<times> 'w) \<Rightarrow> ('w \<Rightarrow> bool) \<Rightarrow>
   nat \<Rightarrow> string option \<Rightarrow> 'w \<Rightarrow> string option \<times> 'w" where
  "try_handler rdb key h over 0 err w = (err, forget rdb key w)"
| "try_handler rdb key h over (Suc n) err w =
     (case h w of
        (None, w') \<Rightarrow> (None, w')
      | (Some e, w') \<Rightarrow>
          if over w' then (Some e, forget rdb key w')
          else try_handler rdb key h over n (Some e) w')"

definition process ::
  "'w exec option \<Rightarrow> kconfig \<Rightarrow> string \<Rightarrow> (string \<Rightarrow> string option) \<Rightarrow>
   (krecord \<Rightarrow> 'w \<Rightarrow> string option \<times> 'w) \<Rightarrow> ('w \<Rightarrow> bool) \<Rightarrow> krecord \<Rightarrow> 'w \<Rightarrow> string option \<times> 'w" where
  "process rdb c service event_id h over r w =
     (case event_id (rvalue r) of
        None \<Rightarrow> (Some ''event is not an envelope'', w)
      | Some i \<Rightarrow>
          (case seen rdb c service (topic r) i w of
             ((dup, key), w1) \<Rightarrow>
               if dup then (None, w1)
               else try_handler rdb key (h r) over (retries c) None w1))"

text \<open>Whether the id of a record is taken, so that it is skipped as handled before.\<close>

definition taken_before :: "'w exec option \<Rightarrow> kconfig \<Rightarrow> string \<Rightarrow> (string \<Rightarrow> string option) \<Rightarrow> krecord \<Rightarrow> 'w \<Rightarrow> bool" where
  "taken_before rdb c service event_id r w =
     (case event_id (rvalue r) of None \<Rightarrow> False | Some i \<Rightarrow> fst (fst (seen rdb c service (topic r) i w)))"

section \<open>Parking\<close>

definition park_record :: "string \<Rightarrow> krecord \<Rightarrow> string \<Rightarrow> krecord" where
  "park_record service r e = r\<lparr>topic := topic r @ DLQSuffix,
     headers := headers r @ [(''error'', e), (''source-topic'', topic r), (''consumer'', service)]\<rparr>"

text \<open>
  What the consumer does with a record: nothing more when it is done or the service is
  stopping, otherwise a copy goes to the dead-letter topic (\<open>produce\<close> may fail: it is lost).
\<close>

definition handle_record ::
  "'w exec option \<Rightarrow> kconfig \<Rightarrow> string \<Rightarrow> (string \<Rightarrow> string option) \<Rightarrow>
   (krecord \<Rightarrow> 'w \<Rightarrow> string option \<times> 'w) \<Rightarrow> ('w \<Rightarrow> bool) \<Rightarrow> (krecord \<Rightarrow> 'w \<Rightarrow> 'w) \<Rightarrow> krecord \<Rightarrow> 'w \<Rightarrow> 'w" where
  "handle_record rdb c service event_id h over produce r w =
     (case process rdb c service event_id h over r w of
        (None, w') \<Rightarrow> w'
      | (Some e, w') \<Rightarrow> if over w' then w' else produce (park_record service r e) w')"

section \<open>The dead-letter tool\<close>

fun consumer_header :: "(string \<times> string) list \<Rightarrow> string" where
  "consumer_header [] = []"
| "consumer_header ((k, v) # hs) = (if k = ''consumer'' then v else consumer_header hs)"

definition consumerOf :: "krecord \<Rightarrow> string" where
  "consumerOf r = consumer_header (headers r)"

definition parkedHere :: "string \<Rightarrow> krecord \<Rightarrow> bool" where
  "parkedHere service r \<longleftrightarrow> consumerOf r = [] \<or> consumerOf r = service"

definition dlqTopics :: "string list \<Rightarrow> string list" where
  "dlqTopics subs = sort (map (\<lambda>t. t @ DLQSuffix) subs)"

text \<open>
  \<open>show_off\<close> renders \<^verbatim>\<open>topic@offset\<close>. The record the handler sees again has the headers the
  park added taken off and where it came from put on.
\<close>

definition rebuild_record :: "string \<Rightarrow> krecord \<Rightarrow> krecord" where
  "rebuild_record source r = r\<lparr>topic := source,
     headers := filter (\<lambda>(k, v). k \<notin> {''error'', ''source-topic'', ''consumer'', ''replayed-from''}) (headers r)
       @ [(''replayed-from'', topic r @ ''@'' @ show_int (offset r))]\<rparr>"

definition replayRecord ::
  "(krecord \<Rightarrow> 'w \<Rightarrow> string option \<times> 'w) \<Rightarrow> string \<Rightarrow> krecord \<Rightarrow> 'w \<Rightarrow> string option \<times> 'w" where
  "replayRecord proc source r w = proc (rebuild_record source r) w"

text \<open>The consumer's own processing is what a replay runs.\<close>

definition replay_with ::
  "'w exec option \<Rightarrow> kconfig \<Rightarrow> string \<Rightarrow> (string \<Rightarrow> string option) \<Rightarrow> (krecord \<Rightarrow> 'w \<Rightarrow> string option \<times> 'w) \<Rightarrow> ('w \<Rightarrow> bool) \<Rightarrow>
   string \<Rightarrow> krecord \<Rightarrow> 'w \<Rightarrow> string option \<times> 'w" where
  "replay_with rdb c service event_id h over source = replayRecord (process rdb c service event_id h over) source"

text \<open>
  One partition of a full replay, records in offset order: the offset to commit (one past
  the last message done), the numbers replayed and skipped, the first error, the world.
\<close>

record replay_sum =
  s_done :: "int option"
  s_replayed :: nat
  s_skipped :: nat
  s_error :: "(krecord \<times> string) option"

definition no_sum :: replay_sum where
  "no_sum = \<lparr>s_done = None, s_replayed = 0, s_skipped = 0, s_error = None\<rparr>"

fun replay_partition ::
  "string \<Rightarrow> (krecord \<Rightarrow> 'w \<Rightarrow> string option \<times> 'w) \<Rightarrow> krecord list \<Rightarrow> replay_sum \<Rightarrow> 'w \<Rightarrow> replay_sum \<times> 'w" where
  "replay_partition service run [] s w = (s, w)"
| "replay_partition service run (r # rs) s w =
     (if \<not> parkedHere service r
      then replay_partition service run rs
             (s\<lparr>s_skipped := Suc (s_skipped s), s_done := Some (offset r + 1)\<rparr>) w
      else (case run r w of
              (Some e, w') \<Rightarrow> (s\<lparr>s_error := Some (r, e)\<rparr>, w')
            | (None, w') \<Rightarrow> replay_partition service run rs
                (s\<lparr>s_replayed := Suc (s_replayed s), s_done := Some (offset r + 1)\<rparr>) w'))"

definition partitions_of :: "krecord list \<Rightarrow> int list" where
  "partitions_of recs = sorted_list_of_set (partition ` set recs)"

definition partition_records :: "krecord list \<Rightarrow> int \<Rightarrow> krecord list" where
  "partition_records recs p = sort_key offset (filter (\<lambda>r. partition r = p) recs)"

fun replay_partitions ::
  "string \<Rightarrow> (krecord \<Rightarrow> 'w \<Rightarrow> string option \<times> 'w) \<Rightarrow> krecord list \<Rightarrow> int list \<Rightarrow> 'w \<Rightarrow>
   (int \<times> replay_sum) list \<times> 'w" where
  "replay_partitions service run recs [] w = ([], w)"
| "replay_partitions service run recs (p # ps) w =
     (case replay_partition service run (partition_records recs p) no_sum w of
        (s, w1) \<Rightarrow> (case replay_partitions service run recs ps w1 of
          (ss, w2) \<Rightarrow> ((p, s) # ss, w2)))"

definition done_map :: "(int \<times> replay_sum) list \<Rightarrow> (int \<times> int) list" where
  "done_map ss = concat (map (\<lambda>(p, s). case s_done s of None \<Rightarrow> [] | Some d \<Rightarrow> [(p, d)]) ss)"

definition first_error :: "(int \<times> replay_sum) list \<Rightarrow> (krecord \<times> string) option" where
  "first_error ss = (case filter (\<lambda>(p, s). s_error s \<noteq> None) ss of [] \<Rightarrow> None | (p, s) # _ \<Rightarrow> s_error s)"

datatype dlq_error =
    Usage | NotSubscribed string | BadOffset string | NotPending int | ParkedBy string
  | StillFailing nat krecord string | PendingFailed string | CommitFailed | UnknownCommand string

datatype dlq_out =
    Listed "(string \<times> krecord list) list"
  | Shown krecord
  | NothingPending
  | Dropped nat "(int \<times> int) list"
  | ReplayedAll "(int \<times> replay_sum) list" "(int \<times> int) list"
  | ReplayedOne krecord "(int \<times> int) list"

text \<open>
  \<open>commit\<close> hands the offsets to Kafka and says whether that went through. An empty map is not
  sent.
\<close>

definition dlqCommit :: "((int \<times> int) list \<Rightarrow> 'w \<Rightarrow> bool \<times> 'w) \<Rightarrow> (int \<times> int) list \<Rightarrow> 'w \<Rightarrow> bool \<times> 'w" where
  "dlqCommit commit at w = (if at = [] then (True, w) else commit at w)"

definition replayAll ::
  "string \<Rightarrow> (krecord \<Rightarrow> 'w \<Rightarrow> string option \<times> 'w) \<Rightarrow> ((int \<times> int) list \<Rightarrow> 'w \<Rightarrow> bool \<times> 'w) \<Rightarrow>
   krecord list \<Rightarrow> 'w \<Rightarrow> (dlq_error + dlq_out) \<times> 'w" where
  "replayAll service run commit recs w =
     (case replay_partitions service run recs (partitions_of recs) w of
        (ss, w1) \<Rightarrow>
          (case dlqCommit commit (done_map ss) w1 of
             (ok, w2) \<Rightarrow>
               if \<not> ok then (Inl CommitFailed, w2)
               else (case first_error ss of
                  Some (r, e) \<Rightarrow> (Inl (StillFailing (length (filter (\<lambda>(p, s). s_error s \<noteq> None) ss)) r e), w2)
                | None \<Rightarrow> (Inr (ReplayedAll ss (done_map ss)), w2))))"

definition replayOne ::
  "string \<Rightarrow> (krecord \<Rightarrow> 'w \<Rightarrow> string option \<times> 'w) \<Rightarrow> ((int \<times> int) list \<Rightarrow> 'w \<Rightarrow> bool \<times> 'w) \<Rightarrow>
   krecord list \<Rightarrow> int \<Rightarrow> 'w \<Rightarrow> (dlq_error + dlq_out) \<times> 'w" where
  "replayOne service run commit recs off w =
     (case find (\<lambda>r. offset r = off) recs of
        None \<Rightarrow> (Inl (NotPending off), w)
      | Some r \<Rightarrow>
          if \<not> parkedHere service r then (Inl (ParkedBy (consumerOf r)), w)
          else (case run r w of
             (Some e, w1) \<Rightarrow> (Inl (StillFailing 1 r e), w1)
           | (None, w1) \<Rightarrow>
               if \<exists>q \<in> set recs. partition q = partition r \<and> offset q < offset r \<and> parkedHere service q
               then (Inr (ReplayedOne r []), w1)
               else (case dlqCommit commit [(partition r, offset r + 1)] w1 of
                  (ok, w2) \<Rightarrow> if ok then (Inr (ReplayedOne r [(partition r, offset r + 1)]), w2)
                             else (Inl CommitFailed, w2))))"

text \<open>\<^verbatim>\<open>done[p]\<close> of a drop: one past the largest offset of each partition.\<close>

definition drop_map :: "krecord list \<Rightarrow> (int \<times> int) list" where
  "drop_map recs = map (\<lambda>p. (p, fold max (map (\<lambda>r. offset r + 1) (filter (\<lambda>r. partition r = p) recs)) 0))
     (partitions_of recs)"

text \<open>
  The command line. \<open>subs\<close> are the subscribed topics, \<open>pend t\<close> the pending records of a
  dead-letter topic (\<open>None\<close>: reading them failed), \<open>run source\<close> one replay of a record of that
  source topic.
\<close>

fun list_pending :: "(string \<Rightarrow> krecord list option) \<Rightarrow> string list \<Rightarrow> dlq_error + (string \<times> krecord list) list" where
  "list_pending pend [] = Inr []"
| "list_pending pend (t # ts) =
     (case pend t of
        None \<Rightarrow> Inl (PendingFailed t)
      | Some recs \<Rightarrow> (case list_pending pend ts of Inl e \<Rightarrow> Inl e | Inr l \<Rightarrow> Inr ((t, recs) # l)))"

definition DLQ ::
  "string \<Rightarrow> string list \<Rightarrow> (string \<Rightarrow> krecord list option) \<Rightarrow>
   (string \<Rightarrow> krecord \<Rightarrow> 'w \<Rightarrow> string option \<times> 'w) \<Rightarrow>
   (string \<Rightarrow> (int \<times> int) list \<Rightarrow> 'w \<Rightarrow> bool \<times> 'w) \<Rightarrow> string list \<Rightarrow> 'w \<Rightarrow> (dlq_error + dlq_out) \<times> 'w" where
  "DLQ service subs pend run commit args w =
     (case args of
        [] \<Rightarrow> (Inl Usage, w)
      | cmd # rest \<Rightarrow>
          if cmd = ''list'' then (map_sum id Listed (list_pending pend (dlqTopics subs)), w)
          else if cmd = ''show'' then
            (case rest of
               t # o1 # _ \<Rightarrow>
                 (case parse_int64 o1 of
                    None \<Rightarrow> (Inl (BadOffset o1), w)
                  | Some off \<Rightarrow>
                      (let dlq = trim_suffix t DLQSuffix @ DLQSuffix
                       in case pend dlq of
                            None \<Rightarrow> (Inl (PendingFailed dlq), w)
                          | Some recs \<Rightarrow>
                              (case find (\<lambda>r. offset r = off) recs of
                                 None \<Rightarrow> (Inl (NotPending off), w)
                               | Some r \<Rightarrow> (Inr (Shown r), w))))
             | _ \<Rightarrow> (Inl Usage, w))
          else if cmd = ''replay'' \<or> cmd = ''drop'' then
            (case rest of
               [] \<Rightarrow> (Inl Usage, w)
             | t # opt \<Rightarrow>
                 let source = trim_suffix t DLQSuffix; dlq = source @ DLQSuffix
                 in if source \<notin> set subs then (Inl (NotSubscribed source), w)
                    else (case (case opt of [] \<Rightarrow> Inr None
                                | o1 # _ \<Rightarrow> (case parse_int64 o1 of None \<Rightarrow> Inl (BadOffset o1) | Some off \<Rightarrow> Inr (Some off))) of
                       Inl e \<Rightarrow> (Inl e, w)
                     | Inr only \<Rightarrow>
                         (case pend dlq of
                            None \<Rightarrow> (Inl (PendingFailed dlq), w)
                          | Some recs \<Rightarrow>
                             if recs = [] then (Inr NothingPending, w)
                             else if cmd = ''drop'' then
                               (case dlqCommit (commit dlq) (drop_map recs) w of
                                  (ok, w1) \<Rightarrow> (if ok then Inr (Dropped (length recs) (drop_map recs)) else Inl CommitFailed, w1))
                             else (case only of
                                 Some off \<Rightarrow> replayOne service (run source) (commit dlq) recs off w
                               | None \<Rightarrow> replayAll service (run source) (commit dlq) recs w)))
             )
          else (Inl (UnknownCommand cmd), w))"

section \<open>Reading the pending records\<close>

text \<open>
  Per partition, the tool group's committed offset (negative or absent: nothing committed)
  and the end offset give the range still pending.
\<close>

definition pending_ranges :: "(int \<times> int) list \<Rightarrow> (int \<Rightarrow> int option) \<Rightarrow> (int \<times> int \<times> int) list" where
  "pending_ranges ends committed = concat (map (\<lambda>(p, en).
     (let from = (case committed p of Some c \<Rightarrow> if c \<ge> 0 then c else 0 | None \<Rightarrow> 0)
      in if from < en then [(p, from, en)] else [])) ends)"

text \<open>
  The poll loop: each poll is a list of records; it ends when every wanted partition has been
  read to its end, or at the first empty poll (or when no poll is left: the time is up).
\<close>

fun poll_loop :: "(int \<Rightarrow> int option) \<Rightarrow> int set \<Rightarrow> int set \<Rightarrow> krecord list list \<Rightarrow> krecord list" where
  "poll_loop want wanted fin [] = []"
| "poll_loop want wanted fin (poll # polls) =
     (if wanted \<subseteq> fin then []
      else let out = filter (\<lambda>r. case want (partition r) of None \<Rightarrow> False | Some e \<Rightarrow> offset r < e) poll;
               fin' = fin \<union> {partition r | r. r \<in> set poll \<and>
                  (case want (partition r) of None \<Rightarrow> True | Some e \<Rightarrow> offset r + 1 \<ge> e)}
           in if poll = [] then [] else out @ poll_loop want wanted fin' polls)"

definition dlqPending :: "(int \<times> int \<times> int) list \<Rightarrow> krecord list list \<Rightarrow> krecord list" where
  "dlqPending ranges polls =
     (let want = map_of (map (\<lambda>(p, from, en). (p, en)) ranges)
      in sort_key timestamp (poll_loop want (fst ` set ranges) {} polls))"

section \<open>The calls of a replay\<close>

text \<open>The messages a replay ran, each with the world it was run in.\<close>

fun partition_calls :: "string \<Rightarrow> (krecord \<Rightarrow> 'w \<Rightarrow> string option \<times> 'w) \<Rightarrow> krecord list \<Rightarrow> 'w \<Rightarrow> (krecord \<times> 'w) list" where
  "partition_calls service run [] w = []"
| "partition_calls service run (r # rs) w =
     (if \<not> parkedHere service r then partition_calls service run rs w
      else (r, w) # (case run r w of (Some e, w') \<Rightarrow> [] | (None, w') \<Rightarrow> partition_calls service run rs w'))"

fun replay_calls :: "string \<Rightarrow> (krecord \<Rightarrow> 'w \<Rightarrow> string option \<times> 'w) \<Rightarrow> krecord list \<Rightarrow> int list \<Rightarrow> 'w \<Rightarrow> (krecord \<times> 'w) list" where
  "replay_calls service run recs [] w = []"
| "replay_calls service run recs (p # ps) w =
     partition_calls service run (partition_records recs p) w @
     replay_calls service run recs ps (snd (replay_partition service run (partition_records recs p) no_sum w))"

text \<open>The worlds in which a handler is called for one record, attempt by attempt.\<close>

fun handler_calls :: "('w \<Rightarrow> string option \<times> 'w) \<Rightarrow> ('w \<Rightarrow> bool) \<Rightarrow> nat \<Rightarrow> 'w \<Rightarrow> 'w list" where
  "handler_calls h over 0 w = []"
| "handler_calls h over (Suc n) w =
     w # (case h w of (None, w') \<Rightarrow> [] | (Some e, w') \<Rightarrow> if over w' then [] else handler_calls h over n w')"

text \<open>
  A record was done by its handler: the id was free, and in one of the attempts made then
  the handler returned without an error.
\<close>

definition done_by_handler ::
  "'w exec option \<Rightarrow> kconfig \<Rightarrow> string \<Rightarrow> (string \<Rightarrow> string option) \<Rightarrow> (krecord \<Rightarrow> 'w \<Rightarrow> string option \<times> 'w) \<Rightarrow> ('w \<Rightarrow> bool) \<Rightarrow>
   krecord \<Rightarrow> 'w \<Rightarrow> bool" where
  "done_by_handler rdb c service event_id h over r w =
     (case event_id (rvalue r) of
        None \<Rightarrow> False
      | Some i \<Rightarrow>
          \<not> fst (fst (seen rdb c service (topic r) i w)) \<and>
          list_ex (\<lambda>v. fst (h r v) = None) (handler_calls (h r) over (retries c) (snd (seen rdb c service (topic r) i w))))"

lemma try_handler_calls:
  "try_handler rdb key h over n err w = (None, w') \<Longrightarrow> 0 < n \<or> err \<noteq> None \<Longrightarrow>
     list_ex (\<lambda>v. fst (h v) = None) (handler_calls h over n w)"
proof (induction n arbitrary: err w)
  case (Suc n)
  obtain x v where h: "h w = (x, v)" by fastforce
  with Suc show ?case by (cases x) (auto split: if_splits)
qed auto

lemma process_done:
  assumes "fst (process rdb c service event_id h over r w) = None"
  shows "taken_before rdb c service event_id r w \<or> done_by_handler rdb c service event_id h over r w"
proof -
  from assms obtain i where i: "event_id (rvalue r) = Some i" by (cases "event_id (rvalue r)") (simp_all add: process_def)
  obtain d k w1 where s: "seen rdb c service (topic r) i w = ((d, k), w1)" by (metis surj_pair)
  show ?thesis
  proof (cases d)
    case False
    with assms i s have "fst (try_handler rdb k (h r) over (retries c) None w1) = None" by (simp add: process_def)
    then have "try_handler rdb k (h r) over (retries c) None w1 = (None, snd (try_handler rdb k (h r) over (retries c) None w1))"
      by (simp add: prod_eq_iff)
    from try_handler_calls [OF this] i s False show ?thesis by (simp add: done_by_handler_def retries_def)
  qed (use i s in \<open>simp add: taken_before_def\<close>)
qed

section \<open>Lemmas on the replay\<close>

lemma replay_partition_split:
  assumes "replay_partition service run rs s0 w = (s, w')"
  shows "\<exists>fin rest. rs = fin @ rest \<and>
    (\<forall>r \<in> set fin. parkedHere service r \<longrightarrow> (\<exists>v. (r, v) \<in> set (partition_calls service run rs w) \<and> fst (run r v) = None)) \<and>
    s_done s = (if fin = [] then s_done s0 else Some (offset (last fin) + 1)) \<and>
    (rest = [] \<and> s_error s = s_error s0 \<or>
     (\<exists>q rest' e v. rest = q # rest' \<and> (q, v) \<in> set (partition_calls service run rs w) \<and> fst (run q v) = Some e \<and>
        s_error s = Some (q, e)))"
  using assms
proof (induction rs arbitrary: s0 w)
  case Nil
  then show ?case by (intro exI [of _ "[]"]) simp
next
  case (Cons r rs)
  have step: "?case" if run: "replay_partition service run rs (s0\<lparr>s_replayed := a, s_skipped := b, s_done := Some (offset r + 1)\<rparr>) v = (s, w')"
      and ok: "parkedHere service r \<longrightarrow> (\<exists>v. (r, v) \<in> set (partition_calls service run (r # rs) w) \<and> fst (run r v) = None)"
      and sub: "set (partition_calls service run rs v) \<subseteq> set (partition_calls service run (r # rs) w)" for a b v
  proof -
    from Cons.IH [OF run] obtain fin rest where split: "rs = fin @ rest"
      "\<forall>r \<in> set fin. parkedHere service r \<longrightarrow> (\<exists>u. (r, u) \<in> set (partition_calls service run rs v) \<and> fst (run r u) = None)"
      and d: "s_done s = (if fin = [] then s_done (s0\<lparr>s_replayed := a, s_skipped := b, s_done := Some (offset r + 1)\<rparr>)
        else Some (offset (last fin) + 1))"
      and rest: "rest = [] \<and> s_error s = s_error (s0\<lparr>s_replayed := a, s_skipped := b, s_done := Some (offset r + 1)\<rparr>) \<or>
       (\<exists>q rest' e u. rest = q # rest' \<and> (q, u) \<in> set (partition_calls service run rs v) \<and> fst (run q u) = Some e \<and> s_error s = Some (q, e))"
      by (elim exE conjE) (rule that)
    have "s_done s = (if r # fin = [] then s_done s0 else Some (offset (last (r # fin)) + 1))"
      using d by simp
    moreover have "rest = [] \<and> s_error s = s_error s0 \<or>
       (\<exists>q rest' e u. rest = q # rest' \<and> (q, u) \<in> set (partition_calls service run (r # rs) w) \<and> fst (run q u) = Some e \<and> s_error s = Some (q, e))"
      using rest sub by (simp del: partition_calls.simps) blast
    moreover have "r # rs = (r # fin) @ rest" using split by simp
    moreover have "\<forall>x \<in> set (r # fin). parkedHere service x \<longrightarrow> (\<exists>u. (x, u) \<in> set (partition_calls service run (r # rs) w) \<and> fst (run x u) = None)"
    proof (intro ballI impI)
      fix x
      assume "x \<in> set (r # fin)" and here: "parkedHere service x"
      then have "x = r \<or> x \<in> set fin" by simp
      then show "\<exists>u. (x, u) \<in> set (partition_calls service run (r # rs) w) \<and> fst (run x u) = None"
      proof
        assume "x = r"
        with ok here show ?thesis by blast
      next
        assume "x \<in> set fin"
        with split(2) here sub show ?thesis by blast
      qed
    qed
    ultimately show ?thesis
      by (intro exI [of _ "r # fin"] exI [of _ rest] conjI)
  qed
  show ?case
  proof (cases "parkedHere service r")
    case False
    show ?thesis
      by (rule step [where a = "s_replayed s0" and b = "Suc (s_skipped s0)" and v = w])
        (use False Cons.prems in simp_all)
  next
    case True
    obtain x v where run: "run r w = (x, v)" by (cases "run r w")
    show ?thesis
    proof (cases x)
      case None
      have "\<exists>v. (r, v) \<in> set (partition_calls service run (r # rs) w) \<and> fst (run r v) = None"
        using True None run by (intro exI [of _ w]) simp
      moreover have "set (partition_calls service run rs v) \<subseteq> set (partition_calls service run (r # rs) w)"
        using True None run by auto
      ultimately show ?thesis
        by (intro step [where a = "Suc (s_replayed s0)" and b = "s_skipped s0" and v = v])
          (use True None run Cons.prems in simp_all)
    next
      case (Some e)
      with run True have "fst (run r w) = Some e" "(r, w) \<in> set (partition_calls service run (r # rs) w)" by simp_all
      moreover have "s_error s = Some (r, e)" "s_done s = s_done s0"
        using True Some run Cons.prems by auto
      ultimately show ?thesis
        by (intro exI [of _ "[]"] exI [of _ "r # rs"] conjI) auto
    qed
  qed
qed

lemma replay_partitions_in:
  assumes "replay_partitions service run recs ps w = (ss, w')" and "(p, s) \<in> set ss"
  shows "\<exists>v v'. replay_partition service run (partition_records recs p) no_sum v = (s, v') \<and>
    set (partition_calls service run (partition_records recs p) v) \<subseteq> set (replay_calls service run recs ps w)"
  using assms
proof (induction ps arbitrary: w ss)
  case Nil
  then show ?case by simp
next
  case (Cons q ps)
  obtain s1 w1 where one: "replay_partition service run (partition_records recs q) no_sum w = (s1, w1)" by fastforce
  obtain ss1 where rest: "replay_partitions service run recs ps w1 = (ss1, w')" and ss: "ss = (q, s1) # ss1"
    using Cons.prems(1) one by (auto split: prod.splits)
  show ?case
  proof (cases "(p, s) = (q, s1)")
    case True
    with one show ?thesis by auto
  next
    case False
    with Cons.prems(2) ss have "(p, s) \<in> set ss1" by auto
    from Cons.IH [OF rest this] one show ?thesis by auto
  qed
qed

lemma in_done_map: "(p, d) \<in> set (done_map ss) \<Longrightarrow> \<exists>s. (p, s) \<in> set ss \<and> s_done s = Some d"
  by (auto simp: done_map_def split: option.splits prod.splits)

lemma set_partition_records [simp]: "set (partition_records recs p) = {r \<in> set recs. partition r = p}"
  by (auto simp: partition_records_def)

lemma sorted_partition_records: "sorted (map offset (partition_records recs p))"
  by (simp add: partition_records_def)

text \<open>
  A committed position is one past a record; everything at or before that record is done,
  everything after it starts with a failure.
\<close>

lemma replay_position:
  assumes "replay_partition service run (partition_records recs p) no_sum w = (s, w')" and "s_done s = Some d"
    and "r \<in> set recs" and "partition r = p"
    and "distinct (map offset (partition_records recs p))"
  shows "(offset r < d \<longrightarrow> parkedHere service r \<longrightarrow>
      (\<exists>v. (r, v) \<in> set (partition_calls service run (partition_records recs p) w) \<and> fst (run r v) = None)) \<and>
    (d \<le> offset r \<longrightarrow> (\<exists>q e v. s_error s = Some (q, e) \<and> q \<in> set recs \<and> partition q = p \<and>
       (q, v) \<in> set (partition_calls service run (partition_records recs p) w) \<and> fst (run q v) = Some e \<and> d \<le> offset q \<and> offset q \<le> offset r))"
proof -
  from replay_partition_split [OF assms(1)] obtain fin rest where
    split: "partition_records recs p = fin @ rest" and
    fin: "\<forall>r \<in> set fin. parkedHere service r \<longrightarrow>
      (\<exists>v. (r, v) \<in> set (partition_calls service run (partition_records recs p) w) \<and> fst (run r v) = None)" and
    d: "s_done s = (if fin = [] then s_done no_sum else Some (offset (last fin) + 1))" and
    rest: "rest = [] \<and> s_error s = s_error no_sum \<or> (\<exists>q rest' e v. rest = q # rest' \<and>
      (q, v) \<in> set (partition_calls service run (partition_records recs p) w) \<and> fst (run q v) = Some e \<and> s_error s = Some (q, e))"
    by (elim exE conjE) (rule that)
  from d assms(2) have ne: "fin \<noteq> []" and d: "d = offset (last fin) + 1" by (auto simp: no_sum_def split: if_splits)
  have so: "sorted_wrt (<) (map offset (fin @ rest))"
    using sorted_partition_records [of recs p] assms(5) by (simp add: strict_sorted_iff split)
  have le: "offset q \<le> offset (last fin)" if "q \<in> set fin" for q
    using so that ne
    by (cases fin rule: rev_cases) (auto simp: sorted_wrt_append less_imp_le)
  have gt: "offset (last fin) < offset q" if "q \<in> set rest" for q
    using so that ne by (auto simp: sorted_wrt_append)
  have r: "r \<in> set fin \<or> r \<in> set rest"
    using assms(3,4) split set_partition_records [of recs p] by auto
  show ?thesis
  proof (cases "r \<in> set fin")
    case True
    with le d fin show ?thesis by force
  next
    case False
    with r have rr: "r \<in> set rest" by simp
    with rest obtain q rest' e v where q: "rest = q # rest'"
      "(q, v) \<in> set (partition_calls service run (partition_records recs p) w)" "fst (run q v) = Some e" "s_error s = Some (q, e)"
      by auto
    have "q \<in> set recs \<and> partition q = p"
      using split q(1) set_partition_records [of recs p] by auto
    moreover have "offset q \<le> offset r"
      using so rr q(1) by (auto simp: sorted_wrt_append less_imp_le)
    moreover have "d \<le> offset q" "d \<le> offset r" using gt q(1) rr d by fastforce+
    ultimately show ?thesis using q by auto
  qed
qed

section \<open>Lemmas on processing\<close>

lemma dedupe_key_nonempty [simp]: "dedupe_key service tpc i \<noteq> []"
  by (simp add: dedupe_key_def)

text \<open>A record whose key is taken is done without its handler, as long as Redis answers.\<close>

lemma process_taken:
  assumes redis: "redis_server exec store" and up: "\<And>cs v. \<exists>rs v'. exec cs v = (Inr rs, v')"
    and ev: "event_id (rvalue r) = Some i" "i \<noteq> []"
    and taken: "has_key (store w) (dedupe_key service (topic r) i)"
  shows "\<exists>w'. \<forall>h. process (Some exec) c service event_id h over r w = (None, w')"
proof -
  let ?key = "dedupe_key service (topic r) i"
  obtain w' where "r_setnx exec ?key ''1'' (dedupe_ttl c) w = (Inr False, w')"
    using redis_server.call1_up [OF redis up, of "SETNX ?key ''1'' (dedupe_ttl c)" w] taken
    by (auto simp: r_setnx_def call1_def)
  then have "\<forall>h. process (Some exec) c service event_id h over r w = (None, w')"
    using ev by (simp add: process_def seen_def Let_def)
  then show ?thesis by blast
qed

text \<open>A failing record forgets its key.\<close>

lemma try_handler_forgets:
  assumes redis: "redis_server exec store" and up: "\<And>cs v. \<exists>rs v'. exec cs v = (Inr rs, v')"
    and "key \<noteq> []" and "try_handler (Some exec) key h over n err w = (Some e, w')"
  shows "\<not> has_key (store w') key"
  using assms(4)
proof (induction n arbitrary: err w)
  have gone: "\<not> has_key (store (forget (Some exec) key v)) key" for v
  proof -
    obtain n v' where "r_del exec [key] v = (Inr n, v')"
      using redis_server.del_up [OF redis up] by blast
    with redis_server.del_ok [OF redis this] assms(3) show ?thesis by (simp add: forget_def)
  qed
  {
    case 0
    with gone show ?case by auto
  next
    case (Suc n)
    with gone show ?case by (auto split: prod.splits option.splits if_splits)
  }
qed

text \<open>A handled record keeps its key, when the handler does not touch it.\<close>

lemma try_handler_keeps:
  assumes "\<And>v. has_key (store v) key \<Longrightarrow> has_key (store (snd (h v))) key"
    and "has_key (store w) key"
    and "try_handler rdb key h over n (Some e0) w = (None, w') \<or> (0 < n \<and> try_handler rdb key h over n None w = (None, w'))"
  shows "has_key (store w') key"
  using assms(2,3)
proof (induction n arbitrary: e0 w)
  case 0
  then show ?case by simp
next
  case (Suc n)
  obtain x v where h: "h w = (x, v)" by (cases "h w")
  with assms(1) [OF Suc.prems(1)] have k: "has_key (store v) key" by simp
  show ?case
  proof (cases x)
    case None
    with Suc.prems h k show ?thesis by auto
  next
    case (Some e)
    with Suc.prems(2) h have "try_handler rdb key h over n (Some e) v = (None, w')"
      by (auto split: if_splits)
    with Suc.IH [OF k] show ?thesis by blast
  qed
qed

lemma retries_pos [simp]: "0 < retries c"
  by (simp add: retries_def)

section \<open>Properties\<close>

text \<open>A parked record at an offset of partition 0, for the instances below.\<close>

definition sample_record :: "int \<Rightarrow> krecord" where
  "sample_record off = \<lparr>topic = ''t.dlq'', rkey = ''k'', rvalue = ''e1'',
     headers = [(''consumer'', ''svc'')], partition = 0, offset = off, timestamp = off\<rparr>"

definition sample_config :: kconfig where
  "sample_config = \<lparr>k_enabled = True, k_source = [], k_role = [], k_max_retries = 0,
     k_dedupe_enabled = None, k_dedupe_ttl = 0\<rparr>"

text \<open>
  C7. A full replay of the dead letters marks done only what it finished. The replay runs the
  messages through the consumer's own processing. When it commits position \<open>d\<close> for a
  partition, every pending message of this service in that partition below \<open>d\<close> was run in
  this replay, and either its handler, called on the record rebuilt from it, returned
  without an error in one of the attempts, or, with deduplication, its event id was taken
  and it was skipped; and every pending message at or above \<open>d\<close> comes at or after a message
  of the partition that this replay ran and that failed, which it reports. (Offsets are
  unique within a partition. That an id may be taken by a handler that crashed is the
  finding \<open>crash_in_handler_loses_event\<close>.)
\<close>

theorem replayAll_commits_only_handled:
  assumes "replay_partitions service (replay_with rdb c service event_id h over source) recs (partitions_of recs) w = (ss, w')"
    and "(p, d) \<in> set (done_map ss)"
    and "r \<in> set recs" and "partition r = p"
    and "distinct (map offset (partition_records recs p))"
  shows "(offset r < d \<and> parkedHere service r \<longrightarrow>
      (\<exists>v. (r, v) \<in> set (replay_calls service (replay_with rdb c service event_id h over source) recs (partitions_of recs) w) \<and>
        (done_by_handler rdb c service event_id h over (rebuild_record source r) v \<or>
         taken_before rdb c service event_id (rebuild_record source r) v))) \<and>
    (d \<le> offset r \<longrightarrow> (\<exists>q e v. q \<in> set recs \<and> partition q = p \<and> d \<le> offset q \<and> offset q \<le> offset r \<and>
       (q, v) \<in> set (replay_calls service (replay_with rdb c service event_id h over source) recs (partitions_of recs) w) \<and> fst (replay_with rdb c service event_id h over source q v) = Some e \<and>
       (\<exists>s. (p, s) \<in> set ss \<and> s_error s = Some (q, e))))"
proof -
  from in_done_map [OF assms(2)] obtain s where s: "(p, s) \<in> set ss" "s_done s = Some d" by blast
  from replay_partitions_in [OF assms(1) s(1)] obtain v v' where
    v: "replay_partition service (replay_with rdb c service event_id h over source) (partition_records recs p) no_sum v = (s, v')"
    and sub: "set (partition_calls service (replay_with rdb c service event_id h over source) (partition_records recs p) v)
      \<subseteq> set (replay_calls service (replay_with rdb c service event_id h over source) recs (partitions_of recs) w)" by blast
  have "fst (replay_with rdb c service event_id h over source q u) = None \<Longrightarrow> done_by_handler rdb c service event_id h over (rebuild_record source q) u \<or>
      taken_before rdb c service event_id (rebuild_record source q) u" for q u
    using process_done [of rdb c service event_id h over "rebuild_record source q" u] by (auto simp: replay_with_def replayRecord_def)
  with replay_position [OF v s(2) assms(3-5)] s(1) sub show ?thesis by blast
qed

lemma replayAll_commits_only_handled_witness:
  "let h = \<lambda>r (w::nat). (if offset r = 7 then Some ''bad'' else None, Suc w);
       run = replay_with None sample_config ''svc'' Some h (\<lambda>_. False) ''t'';
       recs = [sample_record 9, sample_record 5, sample_record 7]
   in \<exists>ss w'. replay_partitions ''svc'' run recs (partitions_of recs) 0 = (ss, w') \<and> done_map ss = [(0, 6)] \<and>
     (\<exists>v. (sample_record 5, v) \<in> set (replay_calls ''svc'' run recs (partitions_of recs) 0) \<and>
       done_by_handler None sample_config ''svc'' Some h (\<lambda>_. False) (rebuild_record ''t'' (sample_record 5)) v)"
proof -
  let ?h = "\<lambda>r (w::nat). (if offset r = 7 then Some ''bad'' else None, Suc w)"
  let ?run = "replay_with None sample_config ''svc'' Some ?h (\<lambda>_. False) ''t''"
  let ?recs = "[sample_record 9, sample_record 5, sample_record 7]"
  obtain ss w' where v: "replay_partitions ''svc'' ?run ?recs (partitions_of ?recs) 0 = (ss, w')" by fastforce
  have "done_map (fst (replay_partitions ''svc'' ?run ?recs (partitions_of ?recs) 0)) = [(0, 6)]" by code_simp
  with v have d: "done_map ss = [(0, 6)]" by simp
  have dist: "distinct (map offset (partition_records ?recs 0))" by code_simp
  have "\<exists>v. (sample_record 5, v) \<in> set (replay_calls ''svc'' ?run ?recs (partitions_of ?recs) 0) \<and>
      (done_by_handler None sample_config ''svc'' Some ?h (\<lambda>_. False) (rebuild_record ''t'' (sample_record 5)) v \<or>
       taken_before None sample_config ''svc'' Some (rebuild_record ''t'' (sample_record 5)) v)"
    using replayAll_commits_only_handled [OF v, of 0 6 "sample_record 5"] d dist
    by (simp add: sample_record_def parkedHere_def consumerOf_def)
  moreover have "\<not> taken_before None sample_config ''svc'' Some (rebuild_record ''t'' (sample_record 5)) v" for v :: nat
    by (simp add: taken_before_def seen_def)
  ultimately show ?thesis using v d unfolding Let_def by blast
qed

text \<open>
  Dropping with an offset drops everything. The command line of a drop accepts an offset
  (its usage line says so) and ignores it: with any valid offset it does what a drop
  without one does.
\<close>

lemma dlq_drop_ignores_offset:
  assumes "parse_int64 o1 = Some off"
  shows "DLQ service subs pend run commit [''drop'', t, o1] w = DLQ service subs pend run commit [''drop'', t] w"
  using assms by (simp add: DLQ_def Let_def split: option.split)

text \<open>
  An event is handled once. With Redis answering, after a record was handled (and the
  handler left the event's dedupe key alone), a second delivery of the same event is done
  without running any handler; after a record failed all its attempts, its key is gone, so
  that a replay runs it.
\<close>

lemma process_dedupes:
  assumes redis: "redis_server exec store" and up: "\<And>cs v. \<exists>rs v'. exec cs v = (Inr rs, v')"
    and ev: "event_id (rvalue r) = Some i" "i \<noteq> []"
    and free: "\<not> has_key (store w) (dedupe_key service (topic r) i)"
    and frame: "\<And>v. has_key (store v) (dedupe_key service (topic r) i) \<Longrightarrow>
      has_key (store (snd (h r v))) (dedupe_key service (topic r) i)"
    and run: "process (Some exec) c service event_id h over r w = (res, w')"
  shows "case res of
      None \<Rightarrow> (\<forall>q. topic q = topic r \<and> rvalue q = rvalue r \<longrightarrow>
        (\<exists>w''. \<forall>h'. process (Some exec) c service event_id h' over q w' = (None, w'')))
    | Some e \<Rightarrow> \<not> has_key (store w') (dedupe_key service (topic r) i)"
proof -
  let ?key = "dedupe_key service (topic r) i"
  obtain w1 where sn: "r_setnx exec ?key ''1'' (dedupe_ttl c) w = (Inr True, w1)"
    using redis_server.setnx_free [OF redis up free] by blast
  have k1: "has_key (store w1) ?key"
    using redis_server.setnx_true [OF redis sn] by simp
  have t: "try_handler (Some exec) ?key (h r) over (retries c) None w1 = (res, w')"
    using run ev sn by (simp add: process_def seen_def Let_def)
  show ?thesis
  proof (cases res)
    case None
    with try_handler_keeps [where h = "h r" and n = "retries c", OF frame k1] t
    have "has_key (store w') ?key" by auto
    then have "\<exists>w''. \<forall>h'. process (Some exec) c service event_id h' over q w' = (None, w'')"
      if "topic q = topic r \<and> rvalue q = rvalue r" for q
      using process_taken [OF redis up, where r = q and event_id = event_id and i = i] ev that by simp
    with None show ?thesis by simp
  next
    case (Some e)
    with try_handler_forgets [OF redis up _ t [unfolded Some]] show ?thesis by simp
  qed
qed

lemma process_dedupes_witness:
  "\<exists>w''. \<forall>h'. process (Some live_exec) sample_config ''svc'' Some h' (\<lambda>_. False) (sample_record 5)
     (set_key ''dedupe:svc:t.dlq:e1'' ''1'' 86400000 empty_rstate) = (None, w'')"
proof -
  let ?r = "sample_record 5" and ?h = "\<lambda>r w. (None, w)"
  have ev: "Some (rvalue ?r) = Some ''e1''" "''e1'' \<noteq> []" by (simp_all add: sample_record_def)
  have key: "dedupe_key ''svc'' (topic ?r) ''e1'' = ''dedupe:svc:t.dlq:e1''"
    by (simp add: dedupe_key_def sample_record_def)
  have free: "\<not> has_key empty_rstate (dedupe_key ''svc'' (topic ?r) ''e1'')"
    by (simp add: has_key_def empty_rstate_def)
  have run: "process (Some live_exec) sample_config ''svc'' Some ?h (\<lambda>_. False) ?r empty_rstate
      = (None, set_key ''dedupe:svc:t.dlq:e1'' ''1'' 86400000 empty_rstate)"
    using free key
    by (simp add: process_def seen_def Let_def ev r_setnx_def call1_def live_exec_def sample_config_def
        dedupe_ttl_def retries_def numeral_3_eq_3)
  show ?thesis
    using process_dedupes [OF live.redis_server_axioms live_up ev free _ run] by simp
qed

text \<open>
  A crash during a handler loses the event. The dedupe key is written before the
  handler runs. If the process dies after that, wherever the handler was, and the record is
  delivered again while the key lives, it is done as a duplicate and no handler runs: the
  event is handled zero times, not at least once.
\<close>

lemma crash_in_handler_loses_event:
  assumes redis: "redis_server exec store" and up: "\<And>cs v. \<exists>rs v'. exec cs v = (Inr rs, v')"
    and ev: "event_id (rvalue r) = Some i" "i \<noteq> []"
    and claimed: "seen (Some exec) c service (topic r) i w = ((False, key), w1)"
    and crash: "store w2 = store w1"
  shows "\<exists>w'. \<forall>h. process (Some exec) c service event_id h over r w2 = (None, w')"
proof -
  let ?key = "dedupe_key service (topic r) i"
  obtain b where sn: "r_setnx exec ?key ''1'' (dedupe_ttl c) w = (Inr b, w1)"
    using redis_server.call1_up [OF redis up, of "SETNX ?key ''1'' (dedupe_ttl c)" w] claimed ev
    by (auto simp: seen_def Let_def r_setnx_def call1_def split: if_splits)
  with claimed ev have "b = True" by (simp add: seen_def Let_def)
  with sn have "has_key (store w1) ?key"
    using redis_server.setnx_true [OF redis] by fastforce
  with crash show ?thesis using process_taken [OF redis up, where event_id = event_id and r = r and i = i] ev by simp
qed

lemma crash_in_handler_loses_event_witness:
  "\<exists>w'. \<forall>h. process (Some live_exec) sample_config ''svc'' Some h (\<lambda>_. False) (sample_record 5)
     (set_key ''dedupe:svc:t.dlq:e1'' ''1'' 86400000 empty_rstate) = (None, w')"
proof -
  let ?r = "sample_record 5"
  have ev: "Some (rvalue ?r) = Some ''e1''" "''e1'' \<noteq> []" by (simp_all add: sample_record_def)
  have "seen (Some live_exec) sample_config ''svc'' (topic ?r) ''e1'' empty_rstate
      = ((False, ''dedupe:svc:t.dlq:e1''), set_key ''dedupe:svc:t.dlq:e1'' ''1'' 86400000 empty_rstate)"
    by (simp add: seen_def dedupe_key_def sample_record_def Let_def r_setnx_def call1_def live_exec_def
        sample_config_def dedupe_ttl_def has_key_def empty_rstate_def)
  from crash_in_handler_loses_event [OF live.redis_server_axioms live_up,
      where event_id = Some and r = ?r and i = "''e1''", OF ev this refl] show ?thesis .
qed

text \<open>
  A parked record comes back as it was. A record copied to the dead-letter topic,
  wherever it lands there, belongs to the service that parked it, and the record the replay
  rebuilds from it has the source's topic, key, value and headers, with one header added
  that says where it was replayed from. (The source record carries none of the four headers
  the tool uses.)
\<close>

lemma park_rebuild_roundtrip:
  assumes "\<forall>(k, v) \<in> set (headers r). k \<notin> {''error'', ''source-topic'', ''consumer'', ''replayed-from''}"
    and "d = (park_record service r e)\<lparr>partition := p, offset := off, timestamp := ts\<rparr>"
  shows "parkedHere service d \<and> topic d = topic r @ ''.dlq'' \<and>
    rebuild_record (trim_suffix (topic d) DLQSuffix) d
      = r\<lparr>partition := p, offset := off, timestamp := ts,
          headers := headers r @ [(''replayed-from'', topic d @ ''@'' @ show_int off)]\<rparr>"
proof -
  have "consumer_header (hs @ [(''error'', e), (''source-topic'', t), (''consumer'', service)]) = service"
    if "\<forall>(k, v) \<in> set hs. k \<notin> {''error'', ''source-topic'', ''consumer'', ''replayed-from''}" for hs t
    using that by (induction hs rule: consumer_header.induct) auto
  from this [OF assms(1)] have "parkedHere service d"
    by (simp add: assms(2) parkedHere_def consumerOf_def park_record_def)
  moreover have "filter (\<lambda>(k, v). k \<notin> {''error'', ''source-topic'', ''consumer'', ''replayed-from''}) (headers r) = headers r"
    using assms(1) by (intro filter_True) auto
  ultimately show ?thesis
    by (simp add: assms(2) rebuild_record_def park_record_def DLQSuffix_def
        trim_suffix_append [of _ "''.dlq''", simplified])
qed

lemma park_rebuild_roundtrip_witness:
  "parkedHere ''svc'' (park_record ''svc'' (sample_record 5\<lparr>topic := ''t'', headers := [(''trace'', ''x'')]\<rparr>) ''bad'')"
  using park_rebuild_roundtrip [OF _ refl,
      where r = "sample_record 5\<lparr>topic := ''t'', headers := [(''trace'', ''x'')]\<rparr>" and service = "''svc''"
        and e = "''bad''" and p = 0 and off = 5 and ts = 5]
  by (simp add: sample_record_def park_record_def)

end
