(* ===== verification/Consumer.thy ===== *)
theory Consumer
  imports Kafkax
begin

text \<open>
  Publishing an event and the loop that consumes a topic (\<^verbatim>\<open>kafkax/kafkax.go\<close>): the
  records of a poll one after the other, then the commit. One partition, with its log, what
  the group has committed, and the one consumer Kafka gives it to at a time, which may
  stop, crash, or lose the partition. What happens to one record is in the theory
  \<open>Kafkax\<close>; the Kafka client is outside.
\<close>

section \<open>Publishing\<close>

record bus_event =
  ev_ID :: string
  ev_Type :: string
  ev_Tenant :: string
  ev_Time :: int
  ev_Data :: string

text \<open>
  \<open>marshal\<close> encodes the payload, \<open>envelope\<close> the event; the record goes to \<open>produce\<close>, which
  picks the partition and may fail. The offset and the time stamp are the broker's.
\<close>

definition publish_record :: "string \<Rightarrow> string \<Rightarrow> string \<Rightarrow> string \<Rightarrow> krecord" where
  "publish_record tpc key eventType v =
     \<lparr>topic = tpc, rkey = key, rvalue = v, headers = [(''content-type'', ''application/json''), (''event-type'', eventType)],
      partition = 0, offset = 0, timestamp = 0\<rparr>"

definition Publish_event ::
  "('d \<Rightarrow> string + string) \<Rightarrow> (bus_event \<Rightarrow> string + string) \<Rightarrow> string \<Rightarrow> string \<Rightarrow> int \<Rightarrow> (krecord \<Rightarrow> 'w \<Rightarrow> string option \<times> 'w) \<Rightarrow>
   string \<Rightarrow> string \<Rightarrow> string \<Rightarrow> 'd \<Rightarrow> 'w \<Rightarrow> string option \<times> 'w" where
  "Publish_event marshal envelope tenant uuid ms produce tpc key eventType d w =
     (case marshal d of
        Inl e \<Rightarrow> (Some (''kafkax: encode '' @ eventType @ '': '' @ e), w)
      | Inr payload \<Rightarrow>
          (case envelope \<lparr>ev_ID = uuid, ev_Type = eventType, ev_Tenant = tenant, ev_Time = ms, ev_Data = payload\<rparr> of
             Inl e \<Rightarrow> (Some (''kafkax: encode envelope: '' @ e), w)
           | Inr v \<Rightarrow>
               (case produce (publish_record tpc key eventType v) w of
                  (Some e, w') \<Rightarrow> (Some (''kafkax: publish '' @ eventType @ '' to '' @ tpc @ '': '' @ e), w')
                | (None, w') \<Rightarrow> (None, w'))))"

section \<open>The consumers of a service\<close>

text \<open>
  One consumer for each subscription, in the order they were registered; the first that
  cannot be created stops those before it (\<open>create\<close> is the error of creating one).
\<close>

fun start_consumers :: "(string \<Rightarrow> string option) \<Rightarrow> string list \<Rightarrow> string option \<times> string list" where
  "start_consumers create [] = (None, [])"
| "start_consumers create (t # ts) =
     (case create t of
        Some e \<Rightarrow> (Some (''kafkax: consumer of '' @ t @ '': '' @ e), [])
      | None \<Rightarrow> (case start_consumers create ts of (r, l) \<Rightarrow> (r, t # l)))"

text \<open>What a poll brought: nothing more (the client is closed), or records and whether the commit after them succeeds.\<close>

record 'w poll =
  p_closed :: bool
  p_records :: "krecord list"
  p_commits :: bool
  p_meanwhile :: "'w \<Rightarrow> 'w"   \<comment> \<open>what happens in the world while polling\<close>

fun each_record ::
  "'w exec option \<Rightarrow> kconfig \<Rightarrow> string \<Rightarrow> (string \<Rightarrow> string option) \<Rightarrow> (krecord \<Rightarrow> 'w \<Rightarrow> string option \<times> 'w) \<Rightarrow> ('w \<Rightarrow> bool) \<Rightarrow>
   (krecord \<Rightarrow> 'w \<Rightarrow> 'w) \<Rightarrow> krecord list \<Rightarrow> 'w \<Rightarrow> 'w" where
  "each_record rdb c service event_id h over produce [] w = w"
| "each_record rdb c service event_id h over produce (r # rs) w =
     each_record rdb c service event_id h over produce rs (handle_record rdb c service event_id h over produce r w)"

text \<open>
  The loop: the world, the position after the records of the last poll, and what is
  committed. A commit under a context that has ended does not succeed.
\<close>

fun consume ::
  "'w exec option \<Rightarrow> kconfig \<Rightarrow> string \<Rightarrow> (string \<Rightarrow> string option) \<Rightarrow> (krecord \<Rightarrow> 'w \<Rightarrow> string option \<times> 'w) \<Rightarrow> ('w \<Rightarrow> bool) \<Rightarrow>
   (krecord \<Rightarrow> 'w \<Rightarrow> 'w) \<Rightarrow> 'w poll list \<Rightarrow> 'w \<times> nat \<times> nat \<Rightarrow> 'w \<times> nat \<times> nat" where
  "consume rdb c service event_id h over produce [] s = s"
| "consume rdb c service event_id h over produce (p # ps) (w, pos, com) =
     (let w1 = p_meanwhile p w
      in if p_closed p \<or> over w1 then (w1, pos, com)
         else let w2 = each_record rdb c service event_id h over produce (p_records p) w1;
                  pos2 = pos + length (p_records p)
              in consume rdb c service event_id h over produce ps (w2, pos2, if p_commits p \<and> \<not> over w2 then pos2 else com))"

section \<open>One partition\<close>

text \<open>
  What became of a record: the handler ran without an error, it was skipped as handled
  before, it was offered to the dead-letter topic, or it was left because the service is
  stopping.
\<close>

datatype kafka_outcome = HandledOnce | SkippedDup | ToDlq | LeftOpen

definition record_outcome ::
  "'w exec option \<Rightarrow> kconfig \<Rightarrow> string \<Rightarrow> (string \<Rightarrow> string option) \<Rightarrow> (krecord \<Rightarrow> 'w \<Rightarrow> string option \<times> 'w) \<Rightarrow> ('w \<Rightarrow> bool) \<Rightarrow>
   krecord \<Rightarrow> 'w \<Rightarrow> kafka_outcome" where
  "record_outcome rdb c service event_id h over r w =
     (case process rdb c service event_id h over r w of
        (None, w') \<Rightarrow> if taken_before rdb c service event_id r w then SkippedDup else HandledOnce
      | (Some e, w') \<Rightarrow> if over w' then LeftOpen else ToDlq)"

record 'w kpart =
  kp_log :: "krecord list"
  kp_committed :: nat
  kp_on :: bool            \<comment> \<open>a consumer has the partition\<close>
  kp_next :: nat           \<comment> \<open>the record it handles next\<close>
  kp_end :: nat            \<comment> \<open>the end of what it polled\<close>
  kp_world :: 'w
  kp_outs :: "(nat \<times> kafka_outcome) list"   \<comment> \<open>what became of each record handled, in order\<close>

definition new_part :: "'w \<Rightarrow> 'w kpart" where
  "new_part w = \<lparr>kp_log = [], kp_committed = 0, kp_on = False, kp_next = 0, kp_end = 0, kp_world = w, kp_outs = []\<rparr>"

inductive part_step ::
  "'w exec option \<Rightarrow> kconfig \<Rightarrow> string \<Rightarrow> (string \<Rightarrow> string option) \<Rightarrow> (krecord \<Rightarrow> 'w \<Rightarrow> string option \<times> 'w) \<Rightarrow> ('w \<Rightarrow> bool) \<Rightarrow>
   (krecord \<Rightarrow> 'w \<Rightarrow> 'w) \<Rightarrow> 'w kpart \<Rightarrow> 'w kpart \<Rightarrow> bool"
  for rdb c service event_id h over produce where
  Appended: "part_step rdb c service event_id h over produce S (S\<lparr>kp_log := kp_log S @ [r]\<rparr>)"
| Meanwhile: "(over (kp_world S) \<Longrightarrow> over w) \<Longrightarrow> part_step rdb c service event_id h over produce S (S\<lparr>kp_world := w\<rparr>)"
| Assigned: "\<not> kp_on S \<Longrightarrow>
    part_step rdb c service event_id h over produce S
      (S\<lparr>kp_on := True, kp_next := kp_committed S, kp_end := kp_committed S, kp_world := w\<rparr>)"
| Polled: "kp_on S \<Longrightarrow> kp_next S = kp_end S \<Longrightarrow> \<not> over (kp_world S) \<Longrightarrow> kp_end S \<le> n \<Longrightarrow> n \<le> length (kp_log S) \<Longrightarrow>
    part_step rdb c service event_id h over produce S (S\<lparr>kp_end := n\<rparr>)"
| Handles: "kp_on S \<Longrightarrow> kp_next S < kp_end S \<Longrightarrow>
    part_step rdb c service event_id h over produce S
      (S\<lparr>kp_world := handle_record rdb c service event_id h over produce (kp_log S ! kp_next S) (kp_world S),
         kp_outs := kp_outs S @ [(kp_next S, record_outcome rdb c service event_id h over (kp_log S ! kp_next S) (kp_world S))],
         kp_next := Suc (kp_next S)\<rparr>)"
| Commits: "kp_on S \<Longrightarrow> kp_next S = kp_end S \<Longrightarrow> \<not> over (kp_world S) \<Longrightarrow>
    part_step rdb c service event_id h over produce S (S\<lparr>kp_committed := kp_end S\<rparr>)"
| Gone: "part_step rdb c service event_id h over produce S (S\<lparr>kp_on := False, kp_world := w\<rparr>)"

inductive part_reach ::
  "'w exec option \<Rightarrow> kconfig \<Rightarrow> string \<Rightarrow> (string \<Rightarrow> string option) \<Rightarrow> (krecord \<Rightarrow> 'w \<Rightarrow> string option \<times> 'w) \<Rightarrow> ('w \<Rightarrow> bool) \<Rightarrow>
   (krecord \<Rightarrow> 'w \<Rightarrow> 'w) \<Rightarrow> 'w kpart \<Rightarrow> bool"
  for rdb c service event_id h over produce where
  PartNew: "part_reach rdb c service event_id h over produce (new_part w)"
| PartStep: "part_reach rdb c service event_id h over produce S \<Longrightarrow> part_step rdb c service event_id h over produce S T \<Longrightarrow>
    part_reach rdb c service event_id h over produce T"

section \<open>A context that has ended\<close>

text \<open>A context that has ended stays ended, whatever is called.\<close>

definition stays_over :: "'w exec option \<Rightarrow> (krecord \<Rightarrow> 'w \<Rightarrow> string option \<times> 'w) \<Rightarrow> ('w \<Rightarrow> bool) \<Rightarrow> (krecord \<Rightarrow> 'w \<Rightarrow> 'w) \<Rightarrow> bool" where
  "stays_over rdb h over produce \<longleftrightarrow>
     (\<forall>v. over v \<longrightarrow> (\<forall>r. over (snd (h r v)) \<and> over (produce r v)) \<and>
        (case rdb of None \<Rightarrow> True | Some exec \<Rightarrow> \<forall>cs. over (snd (exec cs v))))"

lemma exec_over: "stays_over (Some exec) h over produce \<Longrightarrow> over v \<Longrightarrow> over (snd (exec cs v))"
  by (simp add: stays_over_def)

lemma call_over:
  assumes "stays_over (Some exec) h over produce" and "over v"
  shows "over (snd (call1 exec c rd v))"
  using exec_over [OF assms, of "[c]"] by (cases "exec [c] v") (simp add: call1_def split: sum.splits)

lemma seen_over:
  assumes "stays_over rdb h over produce" and "over w"
  shows "over (snd (seen rdb c service t i w))"
proof (cases rdb)
  case (Some exec)
  let ?k = "dedupe_key service t i"
  obtain r w1 where s: "r_setnx exec ?k ''1'' (dedupe_ttl c) w = (r, w1)" by fastforce
  with call_over [of exec h over produce w "SETNX ?k ''1'' (dedupe_ttl c)" read_bool] assms Some have "over w1"
    by (simp add: r_setnx_def)
  with Some s assms(2) show ?thesis by (simp add: seen_def Let_def split: sum.splits)
qed (use assms in \<open>simp add: seen_def\<close>)

lemma forget_over:
  assumes "stays_over rdb h over produce" and "over w"
  shows "over (forget rdb key w)"
  using assms call_over [of _ h over produce w "DEL [key]" read_int]
  by (auto simp: forget_def r_del_def split: option.splits)

lemma try_handler_over:
  assumes r: "stays_over rdb h over produce"
  shows "over w \<Longrightarrow> over (snd (try_handler rdb key (h q) over n err w))"
proof (induction n arbitrary: err w)
  case 0
  with forget_over [OF r] show ?case by simp
next
  case (Suc n)
  from r Suc.prems have "over (snd (h q w))" by (simp add: stays_over_def)
  with Suc.IH forget_over [OF r] show ?case by (auto split: prod.splits option.splits)
qed

lemma process_over:
  assumes r: "stays_over rdb h over produce"
    and "over w"
  shows "over (snd (process rdb c service event_id h over q w))"
proof (cases "event_id (rvalue q)")
  case None
  with assms(2) show ?thesis by (simp add: process_def)
next
  case (Some i)
  obtain d k w1 where s: "seen rdb c service (topic q) i w = ((d, k), w1)" by (metis surj_pair)
  with seen_over [OF r assms(2), of c service "topic q" i] have "over w1" by simp
  with try_handler_over [OF r] Some s show ?thesis by (simp add: process_def)
qed

lemma handle_over:
  assumes r: "stays_over rdb h over produce"
    and w: "over w"
  shows "over (handle_record rdb c service event_id h over produce q w)"
  using process_over [OF r w, of c service event_id q] r by (auto simp: handle_record_def stays_over_def split: prod.splits option.splits)

lemma left_open_over:
  assumes "record_outcome rdb c service event_id h over q w = LeftOpen"
  shows "over (handle_record rdb c service event_id h over produce q w)"
  using assms by (auto simp: record_outcome_def handle_record_def split: prod.splits option.splits if_splits)

text \<open>What the outcomes mean.\<close>

lemma try_handler_ran: "try_handler rdb key h over n err w = (None, w') \<Longrightarrow> 0 < n \<or> err \<noteq> None \<Longrightarrow> \<exists>v. fst (h v) = None"
proof (induction n arbitrary: err w)
  case (Suc n)
  obtain x v where h: "h w = (x, v)" by fastforce
  show ?case
  proof (cases x)
    case None
    with h show ?thesis by (metis fst_conv)
  next
    case (Some e)
    with Suc h show ?thesis by (auto split: if_splits)
  qed
qed auto

lemma handled_ran:
  assumes "record_outcome rdb c service event_id h over q w = HandledOnce"
  shows "\<exists>v. fst (h q v) = None"
proof -
  from assms obtain w' where p: "process rdb c service event_id h over q w = (None, w')" and t: "\<not> taken_before rdb c service event_id q w"
    by (auto simp: record_outcome_def split: prod.splits option.splits if_splits)
  from p obtain i where i: "event_id (rvalue q) = Some i" by (cases "event_id (rvalue q)") (simp_all add: process_def)
  obtain d k w1 where s: "seen rdb c service (topic q) i w = ((d, k), w1)" by (metis surj_pair)
  with t i have "\<not> d" by (simp add: taken_before_def)
  with p i s have "try_handler rdb k (h q) over (retries c) None w1 = (None, w')" by (simp add: process_def)
  from try_handler_ran [OF this] show ?thesis by simp
qed

lemma skipped_dedupe:
  assumes "record_outcome rdb c service event_id h over q w = SkippedDup"
  shows "rdb \<noteq> None \<and> (\<exists>i. event_id (rvalue q) = Some i \<and> i \<noteq> [])"
  using assms by (auto simp: record_outcome_def taken_before_def seen_def split: prod.splits option.splits if_splits)

lemma dlq_offered:
  assumes "record_outcome rdb c service event_id h over q w = ToDlq"
  shows "\<exists>e v. handle_record rdb c service event_id h over produce q w = produce (park_record service q e) v \<and> \<not> over v"
  using assms by (auto simp: record_outcome_def handle_record_def split: prod.splits option.splits if_splits)

section \<open>What is committed is finished\<close>

definition finished :: "'w kpart \<Rightarrow> nat \<Rightarrow> bool" where
  "finished S i \<longleftrightarrow> (\<exists>out. (i, out) \<in> set (kp_outs S) \<and> out \<noteq> LeftOpen)"

definition outs_true :: "'w exec option \<Rightarrow> (string \<Rightarrow> string option) \<Rightarrow> (krecord \<Rightarrow> 'w \<Rightarrow> string option \<times> 'w) \<Rightarrow> 'w kpart \<Rightarrow> bool" where
  "outs_true rdb event_id h S \<longleftrightarrow>
     (\<forall>(i, out) \<in> set (kp_outs S). i < length (kp_log S) \<and>
        (out = HandledOnce \<longrightarrow> (\<exists>v. fst (h (kp_log S ! i) v) = None)) \<and>
        (out = SkippedDup \<longrightarrow> rdb \<noteq> None \<and> (\<exists>k. event_id (rvalue (kp_log S ! i)) = Some k \<and> k \<noteq> [])))"

definition part_inv :: "('w \<Rightarrow> bool) \<Rightarrow> 'w kpart \<Rightarrow> bool" where
  "part_inv over S \<longleftrightarrow> (\<forall>i < kp_committed S. finished S i) \<and> kp_committed S \<le> length (kp_log S) \<and>
     (kp_on S \<longrightarrow> kp_next S \<le> kp_end S \<and> kp_end S \<le> length (kp_log S)) \<and>
     (kp_on S \<and> \<not> over (kp_world S) \<longrightarrow> (\<forall>i < kp_next S. finished S i))"

lemma outs_true_step:
  assumes "part_step rdb c service event_id h over produce S T" and "outs_true rdb event_id h S" and "part_inv over S"
  shows "outs_true rdb event_id h T"
  using assms(1)
proof cases
  case (Appended r)
  with assms(2) show ?thesis by (force simp: outs_true_def nth_append)
next
  case Handles
  let ?o = "record_outcome rdb c service event_id h over (kp_log S ! kp_next S) (kp_world S)"
  have "kp_next S < length (kp_log S)" using Handles assms(3) by (simp add: part_inv_def)
  with Handles assms(2) handled_ran [of rdb c service event_id h over "kp_log S ! kp_next S" "kp_world S"]
    skipped_dedupe [of rdb c service event_id h over "kp_log S ! kp_next S" "kp_world S"]
  show ?thesis by (auto simp: outs_true_def)
qed (use assms(2) in \<open>simp_all add: outs_true_def\<close>)

lemma part_inv_step:
  assumes step: "part_step rdb c service event_id h over produce S T" and inv: "part_inv over S"
    and r: "stays_over rdb h over produce"
  shows "part_inv over T"
  using step
proof cases
  case Handles
  let ?q = "kp_log S ! kp_next S"
  have f: "finished T i" if "i < Suc (kp_next S)" "\<not> over (kp_world T)" for i
  proof (cases "i = kp_next S")
    case True
    with that(2) Handles left_open_over [of rdb c service event_id h over ?q "kp_world S" produce] show ?thesis
      by (auto simp: finished_def)
  next
    case False
    from that(2) Handles handle_over [OF r, of "kp_world S" c service event_id ?q] have "\<not> over (kp_world S)" by auto
    with inv False that(1) Handles(2) have "finished S i" by (simp add: part_inv_def)
    with Handles(1) show ?thesis by (auto simp: finished_def)
  qed
  have "finished T i" if "finished S i" for i using that Handles(1) by (auto simp: finished_def)
  with inv f Handles show ?thesis by (simp add: part_inv_def)
qed (use inv in \<open>auto simp: part_inv_def finished_def\<close>)

lemma part_reach_inv:
  assumes "part_reach rdb c service event_id h over produce S"
    and r: "stays_over rdb h over produce"
  shows "part_inv over S \<and> outs_true rdb event_id h S"
  using assms(1)
proof induction
  case (PartNew w)
  show ?case by (simp add: part_inv_def outs_true_def new_part_def)
next
  case (PartStep S T)
  with part_inv_step [OF PartStep.hyps(2) _ r] outs_true_step [OF PartStep.hyps(2)] show ?case by simp
qed

text \<open>
  C9. The consumer commits only what is finished. However polls, handlers, failures,
  crashes, shutdowns and changes of the owner interleave: every record below the committed
  offset of a partition had its handler return without an error, or was offered to the
  dead-letter topic, or, with deduplication, was skipped because its event id was taken. A
  record a shutdown interrupted is not among them. (A context that has ended stays ended.)
\<close>

theorem consumer_commits_finished:
  assumes "part_reach rdb c service event_id h over produce S" and "i < kp_committed S"
    and "stays_over rdb h over produce"
  shows "i < length (kp_log S) \<and>
    ((i, HandledOnce) \<in> set (kp_outs S) \<and> (\<exists>v. fst (h (kp_log S ! i) v) = None) \<or>
     (i, ToDlq) \<in> set (kp_outs S) \<or>
     (i, SkippedDup) \<in> set (kp_outs S) \<and> rdb \<noteq> None \<and> (\<exists>k. event_id (rvalue (kp_log S ! i)) = Some k \<and> k \<noteq> []))"
proof -
  from part_reach_inv [OF assms(1,3)] have inv: "part_inv over S" and o1: "outs_true rdb event_id h S" by simp_all
  from inv assms(2) obtain out where out: "(i, out) \<in> set (kp_outs S)" "out \<noteq> LeftOpen"
    by (auto simp: part_inv_def finished_def)
  from bspec [OF o1 [unfolded outs_true_def] out(1)] out show ?thesis by (cases out) auto
qed

section \<open>The loop does these steps\<close>

text \<open>Polls that bring the log from a position on, without a gap.\<close>

fun polls_log :: "('w \<Rightarrow> bool) \<Rightarrow> krecord list \<Rightarrow> nat \<Rightarrow> 'w poll list \<Rightarrow> bool" where
  "polls_log over lg pos [] = True"
| "polls_log over lg pos (p # ps) \<longleftrightarrow>
     pos + length (p_records p) \<le> length lg \<and> p_records p = take (length (p_records p)) (drop pos lg) \<and>
     (\<forall>v. over v \<longrightarrow> over (p_meanwhile p v)) \<and> polls_log over lg (pos + length (p_records p)) ps"

lemma each_record_reaches:
  assumes "part_reach rdb c service event_id h over produce S" and "kp_on S"
    and "kp_end S = kp_next S + length rs" and "rs = take (length rs) (drop (kp_next S) (kp_log S))" and "kp_end S \<le> length (kp_log S)"
  shows "\<exists>T. part_reach rdb c service event_id h over produce T \<and> kp_on T \<and> kp_log T = kp_log S \<and> kp_committed T = kp_committed S \<and>
    kp_next T = kp_end S \<and> kp_end T = kp_end S \<and>
    kp_world T = each_record rdb c service event_id h over produce rs (kp_world S)"
  using assms
proof (induction rs arbitrary: S)
  case Nil
  then show ?case by auto
next
  case (Cons r rs)
  have lt: "kp_next S < kp_end S" "kp_next S < length (kp_log S)" using Cons.prems(3,5) by simp_all
  from Cons.prems(4) have "r # rs = take (Suc (length rs)) (drop (kp_next S) (kp_log S))" by simp
  also have "drop (kp_next S) (kp_log S) = kp_log S ! kp_next S # drop (Suc (kp_next S)) (kp_log S)"
    using lt(2) by (simp add: Cons_nth_drop_Suc)
  finally have r: "r = kp_log S ! kp_next S" "rs = take (length rs) (drop (Suc (kp_next S)) (kp_log S))" by simp_all
  from part_reach.PartStep [OF Cons.prems(1) part_step.Handles [OF Cons.prems(2) lt(1)]]
  obtain U where U: "part_reach rdb c service event_id h over produce U" "kp_on U" "kp_log U = kp_log S"
    "kp_committed U = kp_committed S" "kp_next U = Suc (kp_next S)" "kp_end U = kp_end S"
    "kp_world U = handle_record rdb c service event_id h over produce r (kp_world S)"
    using Cons.prems(2) r(1) by fastforce
  have "kp_end U = kp_next U + length rs" "rs = take (length rs) (drop (kp_next U) (kp_log U))" "kp_end U \<le> length (kp_log U)"
    using U Cons.prems(3,5) r(2) by simp_all
  from Cons.IH [OF U(1,2) this] U show ?case by auto
qed

lemma consume_reaches:
  assumes "part_reach rdb c service event_id h over produce S" and "kp_on S" and "kp_next S = kp_end S"
    and "polls_log over (kp_log S) (kp_end S) ps"
    and "consume rdb c service event_id h over produce ps (kp_world S, kp_end S, kp_committed S) = (w, pos, com)"
  shows "\<exists>T. part_reach rdb c service event_id h over produce T \<and> kp_on T \<and> kp_log T = kp_log S \<and>
    kp_world T = w \<and> kp_next T = pos \<and> kp_committed T = com"
  using assms
proof (induction ps arbitrary: S)
  case Nil
  then show ?case by auto
next
  case (Cons p ps)
  let ?w1 = "p_meanwhile p (kp_world S)"
  have m: "over (kp_world S) \<Longrightarrow> over ?w1" using Cons.prems(4) by simp
  define S1 where "S1 = S\<lparr>kp_world := ?w1\<rparr>"
  have r1: "part_reach rdb c service event_id h over produce S1"
    unfolding S1_def by (rule part_reach.PartStep [OF Cons.prems(1)], rule part_step.Meanwhile, rule m)
  show ?case
  proof (cases "p_closed p \<or> over ?w1")
    case True
    with Cons.prems have "w = ?w1" "pos = kp_end S" "com = kp_committed S" by (auto simp: Let_def)
    with r1 Cons.prems(2,3) show ?thesis by (intro exI [of _ S1]) (simp add: S1_def)
  next
    case False
    let ?n = "kp_end S + length (p_records p)"
    define S2 where "S2 = S1\<lparr>kp_end := ?n\<rparr>"
    have fit: "?n \<le> length (kp_log S)" "p_records p = take (length (p_records p)) (drop (kp_end S) (kp_log S))"
      using Cons.prems(4) by simp_all
    have "part_step rdb c service event_id h over produce S1 (S1\<lparr>kp_end := ?n\<rparr>)"
      by (rule part_step.Polled) (use Cons.prems(2,3) False fit(1) in \<open>simp_all add: S1_def\<close>)
    with r1 have r2: "part_reach rdb c service event_id h over produce S2" unfolding S2_def by (rule part_reach.PartStep)
    have "kp_on S2" "kp_end S2 = kp_next S2 + length (p_records p)"
      "p_records p = take (length (p_records p)) (drop (kp_next S2) (kp_log S2))" "kp_end S2 \<le> length (kp_log S2)"
      using Cons.prems(2,3) fit by (simp_all add: S1_def S2_def)
    from each_record_reaches [OF r2 this] obtain T where T: "part_reach rdb c service event_id h over produce T" "kp_on T"
      "kp_log T = kp_log S" "kp_committed T = kp_committed S" "kp_next T = ?n" "kp_end T = ?n"
      "kp_world T = each_record rdb c service event_id h over produce (p_records p) ?w1"
      by (auto simp: S1_def S2_def)
    define U where "U = (if p_commits p \<and> \<not> over (kp_world T) then T\<lparr>kp_committed := kp_end T\<rparr> else T)"
    have "part_reach rdb c service event_id h over produce U"
      unfolding U_def using part_reach.PartStep [OF T(1) part_step.Commits] T(1,2,5,6) by simp
    moreover have "kp_on U" "kp_next U = kp_end U" "kp_log U = kp_log S" "kp_end U = ?n" "kp_world U = kp_world T"
      "kp_committed U = (if p_commits p \<and> \<not> over (kp_world T) then ?n else kp_committed S)"
      using T by (simp_all add: U_def)
    moreover from this have "polls_log over (kp_log U) (kp_end U) ps" using Cons.prems(4) by simp
    moreover have "consume rdb c service event_id h over produce ps (kp_world U, kp_end U, kp_committed U) = (w, pos, com)"
      using Cons.prems(5) False T(7) \<open>kp_world U = kp_world T\<close> \<open>kp_end U = ?n\<close>
        \<open>kp_committed U = (if p_commits p \<and> \<not> over (kp_world T) then ?n else kp_committed S)\<close> by (simp add: Let_def)
    ultimately show ?thesis using Cons.IH [of U] by simp
  qed
qed

section \<open>Runs\<close>

definition ex_record :: "string \<Rightarrow> krecord" where
  "ex_record v = publish_record ''orders'' ''k'' ''order.paid'' v"

theorem consumer_commits_finished_witness:
  "\<exists>S. part_reach None sample_config ''svc'' Some (\<lambda>r w. (None, Suc w)) (\<lambda>_. False) (\<lambda>r w. w) S \<and> kp_committed S = 1 \<and>
    ((0, HandledOnce) \<in> set (kp_outs S) \<or> (0, ToDlq) \<in> set (kp_outs S))"
proof -
  let ?h = "\<lambda>r (w::nat). (None :: string option, Suc w)" and ?p = "\<lambda>r (w::nat). w" and ?r = "ex_record ''e1''"
  let ?poll = "\<lparr>p_closed = False, p_records = [?r], p_commits = True, p_meanwhile = (\<lambda>v. v)\<rparr>"
  have n: "part_reach None sample_config ''svc'' Some ?h (\<lambda>_. False) ?p (new_part (0::nat))" by (rule part_reach.PartNew)
  have "part_step None sample_config ''svc'' Some ?h (\<lambda>_. False) ?p (new_part (0::nat)) ((new_part (0::nat))\<lparr>kp_log := kp_log (new_part (0::nat)) @ [?r]\<rparr>)"
    by (rule part_step.Appended)
  note part_reach.PartStep [OF n this]
  from part_reach.PartStep [OF this part_step.Assigned [where w = 0]]
  have r: "part_reach None sample_config ''svc'' Some ?h (\<lambda>_. False) ?p
      \<lparr>kp_log = [?r], kp_committed = 0, kp_on = True, kp_next = 0, kp_end = 0, kp_world = 0, kp_outs = []\<rparr>"
    by (simp add: new_part_def)
  have c: "consume None sample_config ''svc'' Some ?h (\<lambda>_. False) ?p [?poll] (0, 0, 0) = (1, 1, 1)"
    by (simp add: handle_record_def process_def seen_def sample_config_def retries_def numeral_3_eq_3 Let_def)
  from consume_reaches [OF r, of "[?poll]" 1 1 1] c
  obtain S where S: "part_reach None sample_config ''svc'' Some ?h (\<lambda>_. False) ?p S" "kp_committed S = 1" by auto
  from consumer_commits_finished [OF S(1), of 0] S show ?thesis by (auto simp: stays_over_def)
qed

text \<open>
  A shutdown in the middle of a poll does not end it. The records after the one that was
  interrupted are still run: a claim under the ended context fails, so they run unclaimed. A
  handler that does not look at the context handles them, before the one that was
  interrupted, and as nothing is committed, handles them again after the restart,
  deduplication notwithstanding.
\<close>

type_synonym ex_world = "rstate \<times> bool \<times> string list"

fun is_del :: "cmd \<Rightarrow> bool" where
  "is_del (DEL ks) = True"
| "is_del _ = False"

definition ex_exec :: "ex_world exec" where
  "ex_exec cs w = (case w of (r, ended, did) \<Rightarrow>
     if ended \<and> (\<forall>ks \<in> set cs. \<not> is_del ks) then (Inl RedisDown, w) else (case run_cmds cs r of (rs, r') \<Rightarrow> (Inr rs, (r', ended, did))))"

definition ex_handler :: "bool \<Rightarrow> krecord \<Rightarrow> ex_world \<Rightarrow> string option \<times> ex_world" where
  "ex_handler stops r w = (case w of (s, ended, did) \<Rightarrow>
     if stops \<and> rvalue r = ''e1'' then (Some ''context canceled'', (s, True, did)) else (None, (s, ended, did @ [rvalue r])))"

lemma shutdown_runs_the_rest:
  "let poll = \<lparr>p_closed = False, p_records = [ex_record ''e1'', ex_record ''e2''], p_commits = True, p_meanwhile = (\<lambda>v. v)\<rparr>;
       run = (\<lambda>stops. consume (Some ex_exec) sample_config ''svc'' Some (ex_handler stops) (\<lambda>w. fst (snd w)) (\<lambda>r w. w) [poll]);
       (w1, pos1, com1) = run True ((empty_rstate, False, []), 0, 0);
       (w2, pos2, com2) = run False ((fst w1, False, snd (snd w1)), com1, com1)
   in snd (snd w1) = [''e2''] \<and> com1 = 0 \<and> snd (snd w2) = [''e2'', ''e1'', ''e2''] \<and> com2 = 2"
  by code_simp

end
