(* ===== verification/Authx.thy ===== *)
theory Authx
  imports Redis Config
begin

text \<open>
  The login state of \<^verbatim>\<open>authx/authx.go\<close>: configuration and keys, the session keys in
  Redis, the issuer (login, refresh, logout, revoke) and the verifier. Redis is the
  \<open>exec\<close> of \<open>Redis\<close>. The JWT library, SHA-256, Ed25519 and the JSON of a refresh record
  are parameters (\<open>auth_env\<close>), the JWT library under the laws of the locale
  \<open>jwt_library\<close>; random identifiers are arguments. Times are in milliseconds, the
  expiry of a token in seconds.
\<close>

section \<open>Realms, configuration and keys\<close>

definition lower_letter :: "char \<Rightarrow> bool" where
  "lower_letter c = (let n = of_char c :: nat in 97 \<le> n \<and> n \<le> 122)"

definition digit :: "char \<Rightarrow> bool" where
  "digit c = (let n = of_char c :: nat in 48 \<le> n \<and> n \<le> 57)"

text \<open>\<^verbatim>\<open>^[a-z][a-z0-9_]{0,31}$\<close>\<close>

definition Valid :: "string \<Rightarrow> bool" where
  "Valid r = (case r of
      [] \<Rightarrow> False
    | c # cs \<Rightarrow> lower_letter c \<and> length cs \<le> 31 \<and>
        list_all (\<lambda>d. lower_letter d \<or> digit d \<or> d = CHR ''_'') cs)"

record auth_config =
  a_enabled :: bool
  PrivateKey :: string
  PublicKeys :: "string list"
  Secret :: string
  Issuer :: string
  Realm :: string
  AccessTTL :: int
  RefreshTTL :: int
  SingleSession :: "bool option"

definition issuer :: "auth_config \<Rightarrow> string" where
  "issuer c = (if Issuer c = [] then ''sportsbook'' else Issuer c)"

definition singleSession :: "auth_config \<Rightarrow> bool" where
  "singleSession c = (case SingleSession c of None \<Rightarrow> True | Some b \<Rightarrow> b)"

text \<open>15 minutes and 30 days.\<close>

definition access_ttl :: "auth_config \<Rightarrow> int" where
  "access_ttl c = dur_or (AccessTTL c) (15 * 60000)"

definition refresh_ttl :: "auth_config \<Rightarrow> int" where
  "refresh_ttl c = dur_or (RefreshTTL c) (30 * 24 * 3600000)"

text \<open>Signing and verifying keys; \<open>ed_public\<close> gives the public key of a seed.\<close>

datatype key = HmacKey string | EdPrivate string | EdPublic string

record auth_keys =
  k_secret :: "key option"
  k_private :: "key option"
  k_kid :: string
  k_public :: "string \<Rightarrow> key option"

datatype auth_error =
    BadSecret | BadPrivate | BadPublic string | NoSigningKey | NoVerifyingKey | NoRealm | BadRealm string
  | NoRedis | InvalidToken | Revoked string | RefreshInvalid | RefreshReplayed
  | StoreFailed redis_err | SignFailed

fun load_public ::
  "(string \<Rightarrow> string option) \<Rightarrow> (string \<Rightarrow> string) \<Rightarrow> string list \<Rightarrow> (string \<Rightarrow> key option) \<Rightarrow>
   auth_error + (string \<Rightarrow> key option)" where
  "load_public b64 KeyID [] m = Inr m"
| "load_public b64 KeyID (x # xs) m =
     (let s = trim_space x
      in if s = [] then load_public b64 KeyID xs m
         else (case b64 s of
            Some raw \<Rightarrow> if length raw = 32 then load_public b64 KeyID xs (m(KeyID raw \<mapsto> EdPublic raw))
                        else Inl (BadPublic s)
          | None \<Rightarrow> Inl (BadPublic s)))"

definition loadKeys ::
  "(string \<Rightarrow> string option) \<Rightarrow> (string \<Rightarrow> string) \<Rightarrow> (string \<Rightarrow> string) \<Rightarrow> auth_config \<Rightarrow> auth_error + auth_keys" where
  "loadKeys b64 KeyID ed_public c =
     (let s = trim_space (Secret c); p = trim_space (PrivateKey c)
      in if s \<noteq> [] \<and> length s < 32 then Inl BadSecret
         else (let sec = (if s = [] then None else Some (HmacKey s))
               in if p = [] then
                    map_sum id (\<lambda>m. \<lparr>k_secret = sec, k_private = None, k_kid = [], k_public = m\<rparr>)
                      (load_public b64 KeyID (PublicKeys c) Map.empty)
                  else (case b64 p of
                     None \<Rightarrow> Inl BadPrivate
                   | Some seed \<Rightarrow>
                       if length seed \<noteq> 32 then Inl BadPrivate
                       else (let pub = ed_public seed
                             in map_sum id (\<lambda>m. \<lparr>k_secret = sec, k_private = Some (EdPrivate seed),
                                    k_kid = KeyID pub, k_public = m\<rparr>)
                                  (load_public b64 KeyID (PublicKeys c) [KeyID pub \<mapsto> EdPublic pub])))))"

definition auth_validate ::
  "(auth_config \<Rightarrow> auth_error + auth_keys) \<Rightarrow> bool \<Rightarrow> auth_config \<Rightarrow> auth_error + unit" where
  "auth_validate load verifier c =
     (if \<not> a_enabled c then Inr ()
      else (case load c of
          Inl e \<Rightarrow> Inl e
        | Inr k \<Rightarrow>
            if \<not> verifier \<and> k_private k = None \<and> k_secret k = None then Inl NoSigningKey
            else if verifier \<and> k_public k = Map.empty \<and> k_secret k = None then Inl NoVerifyingKey
            else if verifier \<and> Realm c = [] then Inl NoRealm
            else if verifier \<and> \<not> Valid (Realm c) then Inl (BadRealm (Realm c))
            else Inr ()))"

section \<open>Keys in Redis\<close>

definition keySession :: "string \<Rightarrow> int \<Rightarrow> string" where
  "keySession realm uid = ''auth:sess:'' @ realm @ '':'' @ show_int uid"

definition keySessionSet :: "string \<Rightarrow> int \<Rightarrow> string" where
  "keySessionSet realm uid = ''auth:sessions:'' @ realm @ '':'' @ show_int uid"

definition keyRefresh :: "string \<Rightarrow> string" where "keyRefresh h = ''auth:rt:'' @ h"
definition keyUsed :: "string \<Rightarrow> string" where "keyUsed h = ''auth:rtused:'' @ h"
definition keyBlacklist :: "string \<Rightarrow> string" where "keyBlacklist jti = ''auth:bl:'' @ jti"
definition keySessionAlive :: "string \<Rightarrow> string" where "keySessionAlive sid = ''auth:sid:'' @ sid"
definition keyEnded :: "string \<Rightarrow> string" where "keyEnded sid = ''auth:ended:'' @ sid"

lemmas auth_keys = keySession_def keySessionSet_def keyRefresh_def keyUsed_def keyBlacklist_def
  keySessionAlive_def keyEnded_def

lemma auth_keys_differ [simp, key_simps]:
  "keySession r u \<noteq> keySessionSet r' u'" "keySessionSet r u \<noteq> keySession r' u'"
  "keySession r u \<noteq> keyRefresh h" "keyRefresh h \<noteq> keySession r u"
  "keySession r u \<noteq> keyUsed h" "keyUsed h \<noteq> keySession r u"
  "keySession r u \<noteq> keyBlacklist j" "keyBlacklist j \<noteq> keySession r u"
  "keySession r u \<noteq> keySessionAlive s" "keySessionAlive s \<noteq> keySession r u"
  "keySession r u \<noteq> keyEnded s" "keyEnded s \<noteq> keySession r u"
  "keySessionSet r u \<noteq> keyRefresh h" "keyRefresh h \<noteq> keySessionSet r u"
  "keySessionSet r u \<noteq> keyUsed h" "keyUsed h \<noteq> keySessionSet r u"
  "keySessionSet r u \<noteq> keyBlacklist j" "keyBlacklist j \<noteq> keySessionSet r u"
  "keySessionSet r u \<noteq> keySessionAlive s" "keySessionAlive s \<noteq> keySessionSet r u"
  "keySessionSet r u \<noteq> keyEnded s" "keyEnded s \<noteq> keySessionSet r u"
  "keyRefresh h \<noteq> keyUsed h'" "keyUsed h' \<noteq> keyRefresh h"
  "keyRefresh h \<noteq> keyBlacklist j" "keyBlacklist j \<noteq> keyRefresh h"
  "keyRefresh h \<noteq> keySessionAlive s" "keySessionAlive s \<noteq> keyRefresh h"
  "keyRefresh h \<noteq> keyEnded s" "keyEnded s \<noteq> keyRefresh h"
  "keyUsed h \<noteq> keyBlacklist j" "keyBlacklist j \<noteq> keyUsed h"
  "keyUsed h \<noteq> keySessionAlive s" "keySessionAlive s \<noteq> keyUsed h"
  "keyUsed h \<noteq> keyEnded s" "keyEnded s \<noteq> keyUsed h"
  "keyBlacklist j \<noteq> keySessionAlive s" "keySessionAlive s \<noteq> keyBlacklist j"
  "keyBlacklist j \<noteq> keyEnded s" "keyEnded s \<noteq> keyBlacklist j"
  "keySessionAlive s \<noteq> keyEnded s'" "keyEnded s' \<noteq> keySessionAlive s"
  by (simp_all add: auth_keys)

lemma auth_keys_inject [simp, key_simps]:
  "keyRefresh h = keyRefresh h' \<longleftrightarrow> h = h'" "keyUsed h = keyUsed h' \<longleftrightarrow> h = h'"
  "keyBlacklist j = keyBlacklist j' \<longleftrightarrow> j = j'"
  "keySessionAlive s = keySessionAlive s' \<longleftrightarrow> s = s'" "keyEnded s = keyEnded s' \<longleftrightarrow> s = s'"
  by (simp_all add: auth_keys)

section \<open>Tokens\<close>

record claims =
  c_iss :: string
  c_sub :: string
  c_jti :: string
  c_exp :: "int option"   \<comment> \<open>seconds\<close>
  c_realm :: string
  c_sid :: string

record refresh_record =
  r_realm :: string
  r_uid :: int
  r_sid :: string

record identity =
  id_realm :: string
  id_uid :: int
  id_sid :: string
  id_jti :: string
  id_exp :: int

record 'tok tokens =
  AccessToken :: 'tok
  RefreshToken :: string
  AccessExpiresIn :: int
  RefreshExpiresIn :: int

text \<open>
  What the code is given: Redis, SHA-256 in hex, the JSON of a refresh record, and the JWT
  library. \<open>jwt_sign alg kid key claims\<close>; \<open>jwt_parse methods keyfunc issuer leeway now token\<close>,
  where the key function answers for an algorithm and a \<^verbatim>\<open>kid\<close> header.
\<close>

type_synonym 'tok jwt_sign_fun = "string \<Rightarrow> string \<Rightarrow> key \<Rightarrow> claims \<Rightarrow> 'tok option"
type_synonym 'tok jwt_parse_fun =
  "string list \<Rightarrow> (string \<Rightarrow> string \<Rightarrow> key option) \<Rightarrow> string \<Rightarrow> int \<Rightarrow> int \<Rightarrow> 'tok \<Rightarrow> claims option"

record ('s, 'tok) auth_env =
  e_exec :: "'s exec"
  hashToken :: "string \<Rightarrow> string"
  marshal_rec :: "refresh_record \<Rightarrow> string"
  unmarshal_rec :: "string \<Rightarrow> refresh_record option"
  jwt_sign :: "'tok jwt_sign_fun"
  jwt_parse :: "'tok jwt_parse_fun"

text \<open>The key function of \<^verbatim>\<open>parse\<close>: which key an algorithm and a key id may use.\<close>

definition keyfunc :: "auth_keys \<Rightarrow> string \<Rightarrow> string \<Rightarrow> key option" where
  "keyfunc k alg kid =
     (if alg = ''EdDSA'' then k_public k kid
      else if alg = ''HS256'' then k_secret k
      else None)"

definition parse_token ::
  "('s, 'tok) auth_env \<Rightarrow> auth_keys \<Rightarrow> string \<Rightarrow> int \<Rightarrow> int \<Rightarrow> 'tok \<Rightarrow> auth_error + claims" where
  "parse_token e k iss leeway now tok =
     (case jwt_parse e [''EdDSA'', ''HS256''] (keyfunc k) iss leeway now tok of
        None \<Rightarrow> Inl InvalidToken
      | Some c \<Rightarrow> Inr c)"

section \<open>The issuer\<close>

text \<open>Several commands in one transaction or pipeline.\<close>

definition pipe :: "'s exec \<Rightarrow> cmd list \<Rightarrow> 's \<Rightarrow> (auth_error + reply list) \<times> 's" where
  "pipe exec cs s =
     (case exec cs s of
        (Inl x, s') \<Rightarrow> (Inl (StoreFailed x), s')
      | (Inr rs, s') \<Rightarrow> (Inr rs, s'))"

definition endSession ::
  "('s, 'tok) auth_env \<Rightarrow> auth_config \<Rightarrow> string \<Rightarrow> string \<Rightarrow> 's \<Rightarrow> (auth_error + unit) \<times> 's" where
  "endSession e cfg sid reason s =
     (case pipe (e_exec e) (DEL [keySessionAlive sid] #
             (if reason \<noteq> [] then [SETNX (keyEnded sid) reason (refresh_ttl cfg)] else [])) s of
        (Inl x, s') \<Rightarrow> (Inl x, s')
      | (Inr _, s') \<Rightarrow> (Inr (), s'))"

definition issue ::
  "('s, 'tok) auth_env \<Rightarrow> auth_config \<Rightarrow> auth_keys \<Rightarrow> int \<Rightarrow> string \<Rightarrow> string \<Rightarrow> string \<Rightarrow> int \<Rightarrow> string \<Rightarrow> 's \<Rightarrow>
   (auth_error + 'tok tokens) \<times> 's" where
  "issue e cfg k now jti refresh realm uid sid s =
     (let c = \<lparr>c_iss = issuer cfg, c_sub = show_int uid, c_jti = jti,
               c_exp = Some ((now + access_ttl cfg) div 1000), c_realm = realm, c_sid = sid\<rparr>;
          signed = (case k_private k of
              Some p \<Rightarrow> jwt_sign e ''EdDSA'' (k_kid k) p c
            | None \<Rightarrow> (case k_secret k of Some q \<Rightarrow> jwt_sign e ''HS256'' [] q c | None \<Rightarrow> None))
      in case signed of
           None \<Rightarrow> (Inl SignFailed, s)
         | Some access \<Rightarrow>
             (case r_set (e_exec e) (keyRefresh (hashToken e refresh))
                     (marshal_rec e \<lparr>r_realm = realm, r_uid = uid, r_sid = sid\<rparr>) (refresh_ttl cfg) s of
                (Inl x, s') \<Rightarrow> (Inl (StoreFailed x), s')
              | (Inr _, s') \<Rightarrow>
                  (Inr \<lparr>AccessToken = access, RefreshToken = refresh,
                        AccessExpiresIn = access_ttl cfg div 1000,
                        RefreshExpiresIn = refresh_ttl cfg div 1000\<rparr>, s')))"

text \<open>
  A login first ends the session the principal has (\<open>single_session\<close>; a failed read of it
  is passed over), then starts one.
\<close>

definition end_previous ::
  "('s, 'tok) auth_env \<Rightarrow> auth_config \<Rightarrow> string \<Rightarrow> int \<Rightarrow> 's \<Rightarrow> (auth_error + unit) \<times> 's" where
  "end_previous e cfg realm uid s =
     (if singleSession cfg then
        (case r_get (e_exec e) (keySession realm uid) s of
           (Inr (Some old), s1) \<Rightarrow>
             if old \<noteq> [] then
               (case endSession e cfg old ''replaced'' s1 of
                  (Inl x, s2) \<Rightarrow> (Inl x, s2)
                | (Inr _, s2) \<Rightarrow> (Inr (), snd (r_srem (e_exec e) (keySessionSet realm uid) old s2)))
             else (Inr (), s1)
         | (_, s1) \<Rightarrow> (Inr (), s1))
      else (Inr (), s))"

definition start_session ::
  "('s, 'tok) auth_env \<Rightarrow> auth_config \<Rightarrow> string \<Rightarrow> int \<Rightarrow> string \<Rightarrow> 's \<Rightarrow> (auth_error + reply list) \<times> 's" where
  "start_session e cfg realm uid sid =
     pipe (e_exec e)
       [SET (keySession realm uid) sid (refresh_ttl cfg),
        SADD (keySessionSet realm uid) sid,
        PEXPIRE (keySessionSet realm uid) (refresh_ttl cfg),
        SET (keySessionAlive sid) (show_int uid) (refresh_ttl cfg)]"

definition Login ::
  "('s, 'tok) auth_env \<Rightarrow> auth_config \<Rightarrow> auth_keys \<Rightarrow> int \<Rightarrow> string \<Rightarrow> string \<Rightarrow> string \<Rightarrow> string \<Rightarrow> int \<Rightarrow> 's \<Rightarrow>
   (auth_error + 'tok tokens) \<times> 's" where
  "Login e cfg k now sid jti refresh realm uid s =
     (case end_previous e cfg realm uid s of
        (Inl x, s1) \<Rightarrow> (Inl x, s1)
      | (Inr _, s1) \<Rightarrow>
          (case start_session e cfg realm uid sid s1 of
             (Inl x, s2) \<Rightarrow> (Inl x, s2)
           | (Inr _, s2) \<Rightarrow> issue e cfg k now jti refresh realm uid sid s2))"

fun end_all ::
  "('s, 'tok) auth_env \<Rightarrow> auth_config \<Rightarrow> string \<Rightarrow> string list \<Rightarrow> 's \<Rightarrow> (auth_error + unit) \<times> 's" where
  "end_all e cfg reason [] s = (Inr (), s)"
| "end_all e cfg reason (sid # sids) s =
     (case endSession e cfg sid reason s of
        (Inl x, s') \<Rightarrow> (Inl x, s')
      | (Inr _, s') \<Rightarrow> end_all e cfg reason sids s')"

text \<open>A failed read of the session set is an empty set.\<close>

definition RevokeAll ::
  "('s, 'tok) auth_env \<Rightarrow> auth_config \<Rightarrow> string \<Rightarrow> int \<Rightarrow> string \<Rightarrow> 's \<Rightarrow> (auth_error + unit) \<times> 's" where
  "RevokeAll e cfg realm uid reason s =
     (case r_smembers (e_exec e) (keySessionSet realm uid) s of
        (r, s1) \<Rightarrow>
          (case end_all e cfg reason (case r of Inr sids \<Rightarrow> sids | Inl _ \<Rightarrow> []) s1 of
             (Inl x, s2) \<Rightarrow> (Inl x, s2)
           | (Inr _, s2) \<Rightarrow>
               (case r_del (e_exec e) [keySession realm uid, keySessionSet realm uid] s2 of
                  (Inl x, s3) \<Rightarrow> (Inl (StoreFailed x), s3)
                | (Inr _, s3) \<Rightarrow> (Inr (), s3))))"

definition revoked :: "('s, 'tok) auth_env \<Rightarrow> string \<Rightarrow> 's \<Rightarrow> auth_error \<times> 's" where
  "revoked e sid s =
     (case r_get (e_exec e) (keyEnded sid) s of
        (Inr (Some reason), s') \<Rightarrow> (Revoked reason, s')
      | (_, s') \<Rightarrow> (Revoked [], s'))"

fun RevokeReason :: "auth_error option \<Rightarrow> string" where
  "RevokeReason (Some (Revoked r)) = r"
| "RevokeReason _ = []"

text \<open>
  A refresh in its two halves: \<open>refresh_lookup\<close> reads the record and the session,
  \<open>refresh_rotate\<close> retires the token and issues the next pair.
\<close>

definition refresh_lookup ::
  "('s, 'tok) auth_env \<Rightarrow> auth_config \<Rightarrow> string \<Rightarrow> 's \<Rightarrow> (auth_error + string \<times> refresh_record) \<times> 's" where
  "refresh_lookup e cfg refresh s =
     (let h = hashToken e refresh
      in case r_get (e_exec e) (keyRefresh h) s of
           (Inl x, s1) \<Rightarrow> (Inl (StoreFailed x), s1)
         | (Inr None, s1) \<Rightarrow>
             (case r_get (e_exec e) (keyUsed h) s1 of
                (r, s2) \<Rightarrow>
                  (case r of
                     Inr (Some used) \<Rightarrow>
                       if used \<noteq> [] then
                         (Inl RefreshReplayed,
                          (case unmarshal_rec e used of
                             None \<Rightarrow> s2
                           | Some rec \<Rightarrow> snd (RevokeAll e cfg (r_realm rec) (r_uid rec) ''refresh_replayed'' s2)))
                       else (Inl RefreshInvalid, s2)
                   | _ \<Rightarrow> (Inl RefreshInvalid, s2)))
         | (Inr (Some raw), s1) \<Rightarrow>
             (case unmarshal_rec e raw of
                None \<Rightarrow> (Inl RefreshInvalid, s1)
              | Some rec \<Rightarrow>
                  (case r_exists (e_exec e) (keySessionAlive (r_sid rec)) s1 of
                     (r, s2) \<Rightarrow>
                       if (case r of Inr n \<Rightarrow> n | Inl _ \<Rightarrow> 0) = 0
                       then (case revoked e (r_sid rec) (snd (r_del (e_exec e) [keyRefresh h] s2)) of (x, s3) \<Rightarrow> (Inl x, s3))
                       else (Inr (raw, rec), s2))))"

definition refresh_rotate ::
  "('s, 'tok) auth_env \<Rightarrow> auth_config \<Rightarrow> auth_keys \<Rightarrow> int \<Rightarrow> string \<Rightarrow> string \<Rightarrow> string \<Rightarrow>
   string \<times> refresh_record \<Rightarrow> 's \<Rightarrow> (auth_error + 'tok tokens) \<times> 's" where
  "refresh_rotate e cfg k now jti nxt refresh found s =
     (case found of
        (raw, rec) \<Rightarrow>
          (let h = hashToken e refresh
           in case pipe (e_exec e) [DEL [keyRefresh h], SET (keyUsed h) raw (refresh_ttl cfg)] s of
                (Inl x, s1) \<Rightarrow> (Inl x, s1)
              | (Inr _, s1) \<Rightarrow> issue e cfg k now jti nxt (r_realm rec) (r_uid rec) (r_sid rec) s1))"

definition Refresh ::
  "('s, 'tok) auth_env \<Rightarrow> auth_config \<Rightarrow> auth_keys \<Rightarrow> int \<Rightarrow> string \<Rightarrow> string \<Rightarrow> string \<Rightarrow> 's \<Rightarrow>
   (auth_error + 'tok tokens) \<times> 's" where
  "Refresh e cfg k now jti nxt refresh s =
     (case refresh_lookup e cfg refresh s of
        (Inl x, s1) \<Rightarrow> (Inl x, s1)
      | (Inr found, s1) \<Rightarrow> refresh_rotate e cfg k now jti nxt refresh found s1)"

text \<open>
  Logout: the session of the refresh token first, then the access token (when there is one)
  is blacklisted for the rest of its life.
\<close>

definition logout_session ::
  "('s, 'tok) auth_env \<Rightarrow> auth_config \<Rightarrow> string \<Rightarrow> 's \<Rightarrow> (auth_error + unit) \<times> 's" where
  "logout_session e cfg refresh s =
     (let h = hashToken e refresh
      in case r_get (e_exec e) (keyRefresh h) s of
           (Inr (Some raw), s1) \<Rightarrow>
             (case unmarshal_rec e raw of
                None \<Rightarrow> (Inr (), snd (r_del (e_exec e) [keyRefresh h] s1))
              | Some rec \<Rightarrow>
                  (case endSession e cfg (r_sid rec) ''logout'' s1 of
                     (Inl x, s2) \<Rightarrow> (Inl x, s2)
                   | (Inr _, s2) \<Rightarrow>
                       (case r_get (e_exec e) (keySession (r_realm rec) (r_uid rec)) s2 of
                          (r, s3) \<Rightarrow>
                            (let cur = (case r of Inr (Some v) \<Rightarrow> v | _ \<Rightarrow> []);
                                 s4 = (if cur = r_sid rec
                                       then snd (r_del (e_exec e) [keySession (r_realm rec) (r_uid rec)] s3) else s3);
                                 s5 = snd (r_srem (e_exec e) (keySessionSet (r_realm rec) (r_uid rec)) (r_sid rec) s4)
                             in (Inr (), snd (r_del (e_exec e) [keyRefresh h] s5))))))
         | (_, s1) \<Rightarrow> (Inr (), s1))"

definition blacklist ::
  "('s, 'tok) auth_env \<Rightarrow> auth_config \<Rightarrow> auth_keys \<Rightarrow> int \<Rightarrow> 'tok option \<Rightarrow> 's \<Rightarrow> 's" where
  "blacklist e cfg k now access s =
     (case access of
        None \<Rightarrow> s
      | Some tok \<Rightarrow>
          (case parse_token e k (issuer cfg) 0 now tok of
             Inl _ \<Rightarrow> s
           | Inr c \<Rightarrow>
               (case c_exp c of
                  None \<Rightarrow> s
                | Some ex \<Rightarrow>
                    if ex * 1000 - now > 0
                    then snd (r_set (e_exec e) (keyBlacklist (c_jti c)) ''1'' (ex * 1000 - now) s)
                    else s)))"

definition Logout ::
  "('s, 'tok) auth_env \<Rightarrow> auth_config \<Rightarrow> auth_keys \<Rightarrow> int \<Rightarrow> string \<Rightarrow> 'tok option \<Rightarrow> 's \<Rightarrow> (auth_error + unit) \<times> 's" where
  "Logout e cfg k now refresh access s =
     (case logout_session e cfg refresh s of
        (Inl x, s1) \<Rightarrow> (Inl x, s1)
      | (Inr _, s1) \<Rightarrow> (Inr (), blacklist e cfg k now access s1))"

section \<open>The verifier\<close>

definition identity_of :: "claims \<Rightarrow> (auth_error + identity)" where
  "identity_of c =
     (case parse_int64 (c_sub c) of
        None \<Rightarrow> Inl InvalidToken
      | Some uid \<Rightarrow>
          if uid \<le> 0 then Inl InvalidToken
          else Inr \<lparr>id_realm = c_realm c, id_uid = uid, id_sid = c_sid c, id_jti = c_jti c,
                    id_exp = (case c_exp c of None \<Rightarrow> 0 | Some x \<Rightarrow> x)\<rparr>)"

definition Verify ::
  "('s, 'tok) auth_env \<Rightarrow> auth_config \<Rightarrow> auth_keys \<Rightarrow> int \<Rightarrow> 'tok \<Rightarrow> 's \<Rightarrow> (auth_error + identity) \<times> 's" where
  "Verify e cfg k now tok s =
     (case parse_token e k (issuer cfg) 0 now tok of
        Inl x \<Rightarrow> (Inl x, s)
      | Inr c \<Rightarrow>
          if c_realm c \<noteq> Realm cfg then (Inl InvalidToken, s)
          else (case identity_of c of
             Inl x \<Rightarrow> (Inl x, s)
           | Inr who \<Rightarrow>
               (case pipe (e_exec e) [EXISTS (keyBlacklist (c_jti c)), EXISTS (keySessionAlive (c_sid c))] s of
                  (Inl x, s1) \<Rightarrow> (Inl x, s1)
                | (Inr rs, s1) \<Rightarrow>
                    (case map read_int rs of
                       [Some bl, Some alive] \<Rightarrow>
                         if bl > 0 then (Inl (Revoked ''logout''), s1)
                         else if alive = 0 then (case revoked e (c_sid c) s1 of (x, s2) \<Rightarrow> (Inl x, s2))
                         else (Inr who, s1)
                     | _ \<Rightarrow> (Inl (StoreFailed RedisProto), s1)))))"

text \<open>\<^verbatim>\<open>TokenChecker.Check\<close>: signature and claims alone, with 30 seconds of leeway.\<close>

definition Check ::
  "('s, 'tok) auth_env \<Rightarrow> auth_keys \<Rightarrow> string \<Rightarrow> int \<Rightarrow> 'tok \<Rightarrow> auth_error + identity" where
  "Check e k iss now tok =
     (case parse_token e k iss 30 now tok of
        Inl x \<Rightarrow> Inl x
      | Inr c \<Rightarrow> identity_of c)"

definition NewTokenChecker ::
  "(auth_config \<Rightarrow> auth_error + auth_keys) \<Rightarrow> string list \<Rightarrow> string \<Rightarrow> auth_error + auth_keys \<times> string" where
  "NewTokenChecker load publicKeys iss =
     (let c = \<lparr>a_enabled = False, PrivateKey = [], PublicKeys = publicKeys, Secret = [], Issuer = iss,
               Realm = [], AccessTTL = 0, RefreshTTL = 0, SingleSession = None\<rparr>
      in case load c of
           Inl x \<Rightarrow> Inl x
         | Inr k \<Rightarrow> if k_public k = Map.empty then Inl NoVerifyingKey else Inr (k, issuer c))"

definition BearerToken :: "string \<Rightarrow> string" where
  "BearerToken header =
     (if length header > 7 \<and> to_lower (take 7 header) = ''bearer '' then trim_space (drop 7 header) else [])"

section \<open>The JWT library\<close>

text \<open>
  What the code relies on: a token that parses was signed with the verifying key the key
  function gave for its header, by a permitted method, for the issuer asked for, and has not
  expired (leeway included); and a token just signed parses back to its claims for whoever
  holds the matching key. \<open>verifies alg key token claims\<close> says the token's signature over
  the claims checks under the key.
\<close>

locale jwt_library =
  fixes parse :: "string list \<Rightarrow> (string \<Rightarrow> string \<Rightarrow> key option) \<Rightarrow> string \<Rightarrow> int \<Rightarrow> int \<Rightarrow> 'tok \<Rightarrow> claims option"
    and sign :: "string \<Rightarrow> string \<Rightarrow> key \<Rightarrow> claims \<Rightarrow> 'tok option"
    and verifies :: "string \<Rightarrow> key \<Rightarrow> 'tok \<Rightarrow> claims \<Rightarrow> bool"
    and pub :: "key \<Rightarrow> key"
  assumes parse_sound: "parse ms kf iss leeway now tok = Some c \<Longrightarrow>
      \<exists>alg kid key ex. alg \<in> set ms \<and> kf alg kid = Some key \<and> verifies alg key tok c \<and>
        c_iss c = iss \<and> c_exp c = Some ex \<and> now < (ex + leeway) * 1000"
    and sign_parse: "sign alg kid key c = Some tok \<Longrightarrow> alg \<in> set ms \<Longrightarrow> kf alg kid = Some (pub key) \<Longrightarrow>
      c_iss c = iss \<Longrightarrow> c_exp c = Some ex \<Longrightarrow> now < (ex + leeway) * 1000 \<Longrightarrow>
      parse ms kf iss leeway now tok = Some c"
begin

lemma keyfunc_cases:
  assumes "parse [''EdDSA'', ''HS256''] (keyfunc k) iss leeway now tok = Some c"
  shows "(\<exists>kid key. k_public k kid = Some key \<and> verifies ''EdDSA'' key tok c) \<or>
    (\<exists>key. k_secret k = Some key \<and> verifies ''HS256'' key tok c)"
  using parse_sound [OF assms] by (auto simp: keyfunc_def split: if_splits)

lemma parse_expiry:
  assumes "parse ms kf iss leeway now tok = Some c"
  shows "\<exists>ex. c_exp c = Some ex \<and> now < (ex + leeway) * 1000 \<and> c_iss c = iss"
  using parse_sound [OF assms] by blast

end

text \<open>
  Symbolic tokens: the claims under the key that verifies them. They stand in for the
  library in the instances.
\<close>

datatype sym_token = Sym string string key claims

fun sym_pub :: "key \<Rightarrow> key" where
  "sym_pub (EdPrivate x) = EdPublic x"
| "sym_pub k = k"

definition sym_sign :: "string \<Rightarrow> string \<Rightarrow> key \<Rightarrow> claims \<Rightarrow> sym_token option" where
  "sym_sign alg kid k c = Some (Sym alg kid (sym_pub k) c)"

fun sym_parse :: "string list \<Rightarrow> (string \<Rightarrow> string \<Rightarrow> key option) \<Rightarrow> string \<Rightarrow> int \<Rightarrow> int \<Rightarrow> sym_token \<Rightarrow> claims option" where
  "sym_parse ms kf iss leeway now (Sym alg kid k c) =
     (if alg \<in> set ms \<and> kf alg kid = Some k \<and> c_iss c = iss \<and>
         (case c_exp c of None \<Rightarrow> False | Some ex \<Rightarrow> now < (ex + leeway) * 1000)
      then Some c else None)"

fun sym_verifies :: "string \<Rightarrow> key \<Rightarrow> sym_token \<Rightarrow> claims \<Rightarrow> bool" where
  "sym_verifies alg k (Sym alg' kid k' c') c \<longleftrightarrow> alg = alg' \<and> k = k' \<and> c = c'"

interpretation sym: jwt_library sym_parse sym_sign sym_verifies sym_pub
proof
  show "\<exists>alg kid key ex. alg \<in> set ms \<and> kf alg kid = Some key \<and> sym_verifies alg key tok c \<and>
      c_iss c = iss \<and> c_exp c = Some ex \<and> now < (ex + leeway) * 1000"
    if "sym_parse ms kf iss leeway now tok = Some c" for ms kf iss leeway now tok c
    using that by (cases tok) (auto split: if_splits option.splits)
  show "sym_parse ms kf iss leeway now tok = Some c"
    if "sym_sign alg kid key c = Some tok" "alg \<in> set ms" "kf alg kid = Some (sym_pub key)"
      "c_iss c = iss" "c_exp c = Some ex" "now < (ex + leeway) * 1000" for ms kf iss leeway now tok c alg kid key ex
    using that by (auto simp: sym_sign_def)
qed

section \<open>Lemmas on the store\<close>

text \<open>What a session's end leaves: no session, and the reason unless one is recorded.\<close>

definition ended_store :: "auth_config \<Rightarrow> string \<Rightarrow> string \<Rightarrow> rstate \<Rightarrow> rstate" where
  "ended_store cfg sid reason r =
     (let r' = del_key (keySessionAlive sid) r
      in if reason \<noteq> [] \<and> \<not> has_key r' (keyEnded sid) then set_key (keyEnded sid) reason (refresh_ttl cfg) r' else r')"

lemma ended_store_alive [simp]:
  "has_key (ended_store cfg sid reason r) (keySessionAlive x) \<longleftrightarrow> x \<noteq> sid \<and> has_key r (keySessionAlive x)"
  by (auto simp: ended_store_def Let_def)

lemma ended_store_reason [simp]:
  "kv (ended_store cfg sid reason r) (keyEnded x) =
     (if x = sid \<and> reason \<noteq> [] \<and> \<not> has_key r (keyEnded x) then Some reason else kv r (keyEnded x))"
  by (auto simp: ended_store_def Let_def)

lemma ended_store_has_reason [simp]:
  "has_key (ended_store cfg sid reason r) (keyEnded x) \<longleftrightarrow> (x = sid \<and> reason \<noteq> []) \<or> has_key r (keyEnded x)"
  by (auto simp: ended_store_def Let_def)

lemma ended_store_other:
  assumes "k \<noteq> keySessionAlive sid" and "k \<noteq> keyEnded sid"
  shows "kv (ended_store cfg sid reason r) k = kv r k" and "sets (ended_store cfg sid reason r) k = sets r k"
    and "ttl (ended_store cfg sid reason r) k = ttl r k"
  using assms by (auto simp: ended_store_def Let_def)

lemma pipe_ok:
  assumes "redis_server exec store" and "pipe exec cs s = (Inr rs, s')"
  shows "run_cmds cs (store s) = (rs, store s')"
proof -
  from assms(2) have "exec cs s = (Inr rs, s')"
    by (auto simp: pipe_def split: prod.splits sum.splits)
  with redis_server.exec_ok [OF assms(1)] show ?thesis by blast
qed

lemma endSession_ok:
  assumes "redis_server (e_exec e) store" and "endSession e cfg sid reason s = (Inr u, s')"
  shows "store s' = ended_store cfg sid reason (store s)"
proof -
  from assms(2) obtain rs where "pipe (e_exec e) (DEL [keySessionAlive sid] #
      (if reason \<noteq> [] then [SETNX (keyEnded sid) reason (refresh_ttl cfg)] else [])) s = (Inr rs, s')"
    by (auto simp: endSession_def split: prod.splits sum.splits)
  from pipe_ok [OF assms(1) this] show ?thesis
    by (auto simp: ended_store_def Let_def split: if_splits)
qed

abbreviation end_sessions :: "auth_config \<Rightarrow> string \<Rightarrow> string list \<Rightarrow> rstate \<Rightarrow> rstate" where
  "end_sessions cfg reason \<equiv> fold (\<lambda>sid. ended_store cfg sid reason)"

lemma end_sessions_alive [simp]:
  "has_key (end_sessions cfg reason sids r) (keySessionAlive x) \<longleftrightarrow> x \<notin> set sids \<and> has_key r (keySessionAlive x)"
  by (induction sids arbitrary: r) auto

lemma end_sessions_has_reason [simp]:
  "has_key (end_sessions cfg reason sids r) (keyEnded x) \<longleftrightarrow>
     (x \<in> set sids \<and> reason \<noteq> []) \<or> has_key r (keyEnded x)"
  by (induction sids arbitrary: r) auto

lemma end_sessions_reason [simp]:
  "kv (end_sessions cfg reason sids r) (keyEnded x) =
     (if x \<in> set sids \<and> reason \<noteq> [] \<and> \<not> has_key r (keyEnded x) then Some reason else kv r (keyEnded x))"
  by (induction sids arbitrary: r) auto

lemma end_sessions_other:
  assumes "\<And>sid. k \<noteq> keySessionAlive sid" and "\<And>sid. k \<noteq> keyEnded sid"
  shows "kv (end_sessions cfg reason sids r) k = kv r k" and "sets (end_sessions cfg reason sids r) k = sets r k"
  using assms by (induction sids arbitrary: r) (simp_all add: ended_store_other)

lemma end_all_ok:
  assumes "redis_server (e_exec e) store" and "end_all e cfg reason sids s = (Inr u, s')"
  shows "store s' = end_sessions cfg reason sids (store s)"
  using assms(2)
proof (induction sids arbitrary: s)
  case Nil
  then show ?case by simp
next
  case (Cons sid sids)
  then obtain v where v: "endSession e cfg sid reason s = (Inr (), v)" "end_all e cfg reason sids v = (Inr u, s')"
    by (auto split: prod.splits sum.splits)
  from Cons.IH [OF v(2)] endSession_ok [OF assms(1) v(1)] show ?case by simp
qed

text \<open>The principal's sessions after \<open>RevokeAll\<close>.\<close>

definition revoked_store :: "auth_config \<Rightarrow> string \<Rightarrow> int \<Rightarrow> string \<Rightarrow> rstate \<Rightarrow> rstate" where
  "revoked_store cfg realm uid reason r =
     del_key (keySessionSet realm uid) (del_key (keySession realm uid)
       (end_sessions cfg reason (sets r (keySessionSet realm uid)) r))"

lemma RevokeAll_ok:
  assumes redis: "redis_server (e_exec e) store"
    and read: "r_smembers (e_exec e) (keySessionSet realm uid) s = (Inr sids, s1)"
    and run: "RevokeAll e cfg realm uid reason s = (Inr u, s')"
  shows "store s' = revoked_store cfg realm uid reason (store s)"
proof -
  from redis_server.smembers_ok [OF redis read]
  have sids: "sids = sets (store s) (keySessionSet realm uid)" and s1: "store s1 = store s" by simp_all
  from run read obtain s2 n where e: "end_all e cfg reason sids s1 = (Inr (), s2)"
    and d: "r_del (e_exec e) [keySession realm uid, keySessionSet realm uid] s2 = (Inr n, s')"
    by (auto simp: RevokeAll_def split: prod.splits sum.splits)
  from end_all_ok [OF redis e] redis_server.del_ok [OF redis d] sids s1 show ?thesis
    by (simp add: revoked_store_def)
qed

section \<open>A server that answers\<close>

abbreviation redis_up :: "('s, 'tok) auth_env \<Rightarrow> bool" where
  "redis_up e \<equiv> (\<forall>cs v. \<exists>rs v'. e_exec e cs v = (Inr rs, v'))"

lemma pipe_up:
  assumes "redis_server (e_exec e) store" and "redis_up e"
  shows "\<exists>s'. pipe (e_exec e) cs s = (Inr (fst (run_cmds cs (store s))), s') \<and> store s' = snd (run_cmds cs (store s))"
proof -
  obtain rs s' where x: "e_exec e cs s = (Inr rs, s')" using assms(2) by blast
  with redis_server.exec_ok [OF assms(1) this] show ?thesis by (simp add: pipe_def)
qed

lemma get_up:
  assumes "redis_server (e_exec e) store" and "redis_up e"
  shows "\<exists>s'. r_get (e_exec e) k s = (Inr (kv (store s) k), s') \<and> store s' = store s"
  using redis_server.call1_up [OF assms(1), of "GET k" s] assms(2)
  by (auto simp: r_get_def call1_def split: option.splits)

lemma set_up:
  assumes "redis_server (e_exec e) store" and "redis_up e"
  shows "\<exists>s'. r_set (e_exec e) k v t s = (Inr (), s') \<and> store s' = set_key k v t (store s)"
  using redis_server.call1_up [OF assms(1), of "SET k v t" s] assms(2)
  by (auto simp: r_set_def call1_def)

lemma del_up':
  assumes "redis_server (e_exec e) store" and "redis_up e"
  shows "\<exists>n s'. r_del (e_exec e) ks s = (Inr n, s') \<and> store s' = fold del_key ks (store s)"
  using redis_server.call1_up [OF assms(1), of "DEL ks" s] assms(2)
  by (auto simp: r_del_def call1_def)

lemma exists_up:
  assumes "redis_server (e_exec e) store" and "redis_up e"
  shows "\<exists>s'. r_exists (e_exec e) k s = (Inr (if has_key (store s) k then 1 else 0), s') \<and> store s' = store s"
  using redis_server.call1_up [OF assms(1), of "EXISTS k" s] assms(2)
  by (auto simp: r_exists_def call1_def)

lemma smembers_up:
  assumes "redis_server (e_exec e) store" and "redis_up e"
  shows "\<exists>s'. r_smembers (e_exec e) k s = (Inr (sets (store s) k), s') \<and> store s' = store s"
  using redis_server.call1_up [OF assms(1), of "SMEMBERS k" s] assms(2)
  by (auto simp: r_smembers_def call1_def)

lemma srem_up:
  assumes "redis_server (e_exec e) store" and "redis_up e"
  shows "\<exists>n s'. r_srem (e_exec e) k m s = (Inr n, s') \<and>
    store s' = (store s)\<lparr>sets := (sets (store s))(k := filter (\<lambda>x. x \<noteq> m) (sets (store s) k))\<rparr>"
  using redis_server.call1_up [OF assms(1), of "SREM k m" s] assms(2)
  by (auto simp: r_srem_def call1_def)

lemma endSession_up:
  assumes "redis_server (e_exec e) store" and "redis_up e"
  shows "\<exists>s'. endSession e cfg sid reason s = (Inr (), s') \<and> store s' = ended_store cfg sid reason (store s)"
proof -
  obtain s' where x: "endSession e cfg sid reason s = (Inr (), s')"
    using pipe_up [OF assms, of "DEL [keySessionAlive sid] #
      (if reason \<noteq> [] then [SETNX (keyEnded sid) reason (refresh_ttl cfg)] else [])" s]
    by (auto simp: endSession_def)
  with endSession_ok [OF assms(1) x] show ?thesis by blast
qed

lemma end_all_up:
  assumes "redis_server (e_exec e) store" and "redis_up e"
  shows "\<exists>s'. end_all e cfg reason sids s = (Inr (), s')"
proof (induction sids arbitrary: s)
  case Nil
  then show ?case by simp
next
  case (Cons sid sids)
  obtain v where "endSession e cfg sid reason s = (Inr (), v)"
    using endSession_up [OF assms] by blast
  with Cons.IH [of v] show ?case by simp
qed

lemma RevokeAll_up:
  assumes "redis_server (e_exec e) store" and "redis_up e"
  shows "\<exists>s'. RevokeAll e cfg realm uid reason s = (Inr (), s') \<and>
    store s' = revoked_store cfg realm uid reason (store s)"
proof -
  obtain s1 where s1: "r_smembers (e_exec e) (keySessionSet realm uid) s
      = (Inr (sets (store s) (keySessionSet realm uid)), s1)"
    using smembers_up [OF assms] by blast
  obtain s2 where s2: "end_all e cfg reason (sets (store s) (keySessionSet realm uid)) s1 = (Inr (), s2)"
    using end_all_up [OF assms] by blast
  obtain n s' where "r_del (e_exec e) [keySession realm uid, keySessionSet realm uid] s2 = (Inr n, s')"
    using del_up' [OF assms] by blast
  with s1 s2 have "RevokeAll e cfg realm uid reason s = (Inr (), s')" by (simp add: RevokeAll_def)
  with RevokeAll_ok [OF assms(1) s1 this] show ?thesis by blast
qed

section \<open>Lemmas on tokens\<close>

lemma Verify_ok:
  assumes redis: "redis_server (e_exec e) store" and run: "Verify e cfg k now tok s = (Inr who, s')"
  obtains c where "jwt_parse e [''EdDSA'', ''HS256''] (keyfunc k) (issuer cfg) 0 now tok = Some c"
    and "c_realm c = Realm cfg" and "identity_of c = Inr who"
    and "\<not> has_key (store s) (keyBlacklist (c_jti c))" and "has_key (store s) (keySessionAlive (c_sid c))"
proof -
  from run obtain c where parse: "jwt_parse e [''EdDSA'', ''HS256''] (keyfunc k) (issuer cfg) 0 now tok = Some c"
    and realm: "c_realm c = Realm cfg" and "identity_of c = Inr who"
    by (auto simp: Verify_def parse_token_def split: option.splits if_splits sum.splits prod.splits list.splits)
  moreover from run parse realm \<open>identity_of c = Inr who\<close> obtain rs s1 where
    p: "pipe (e_exec e) [EXISTS (keyBlacklist (c_jti c)), EXISTS (keySessionAlive (c_sid c))] s = (Inr rs, s1)"
    by (auto simp: Verify_def parse_token_def split: sum.splits prod.splits)
  moreover from pipe_ok [OF redis p] have "rs = [RInt (if has_key (store s) (keyBlacklist (c_jti c)) then 1 else 0),
      RInt (if has_key (store s) (keySessionAlive (c_sid c)) then 1 else 0)]"
    by auto
  ultimately show thesis
    using run that by (auto simp: Verify_def parse_token_def split: if_splits prod.splits)
qed

lemma identity_of_ok:
  assumes "identity_of c = Inr who"
  shows "id_realm who = c_realm c \<and> id_sid who = c_sid c \<and> id_jti who = c_jti c \<and> 0 < id_uid who \<and>
    parse_int64 (c_sub c) = Some (id_uid who) \<and> (c_exp c = Some ex \<longrightarrow> id_exp who = ex)"
  using assms by (auto simp: identity_of_def split: option.splits if_splits)

lemma Verify_dead:
  assumes redis: "redis_server (e_exec e) store" and dead: "\<not> has_key (store s) (keySessionAlive sid)"
    and "fst (Verify e cfg k now tok s) = Inr who"
  shows "id_sid who \<noteq> sid"
proof -
  obtain s' where "Verify e cfg k now tok s = (Inr who, s')"
    using assms(3) by (cases "Verify e cfg k now tok s") simp
  from Verify_ok [OF redis this] identity_of_ok dead show ?thesis by metis
qed

section \<open>Lemmas on the issuer\<close>

lemma issue_ok:
  assumes redis: "redis_server (e_exec e) store"
    and run: "issue e cfg k now jti refresh realm uid sid s = (Inr t, s')"
  shows "store s' = set_key (keyRefresh (hashToken e refresh))
      (marshal_rec e \<lparr>r_realm = realm, r_uid = uid, r_sid = sid\<rparr>) (refresh_ttl cfg) (store s)"
    and "k_private k = Some p \<Longrightarrow> jwt_sign e ''EdDSA'' (k_kid k) p
      \<lparr>c_iss = issuer cfg, c_sub = show_int uid, c_jti = jti, c_exp = Some ((now + access_ttl cfg) div 1000),
       c_realm = realm, c_sid = sid\<rparr> = Some (AccessToken t)"
    and "RefreshToken t = refresh"
  using run by (auto simp: issue_def Let_def split: option.splits prod.splits sum.splits
      dest: redis_server.set_ok [OF redis])

text \<open>The store after the previous session's end, and after the new one's start.\<close>

definition previous_ended :: "auth_config \<Rightarrow> string \<Rightarrow> int \<Rightarrow> rstate \<Rightarrow> rstate" where
  "previous_ended cfg realm uid r =
     (case kv r (keySession realm uid) of
        None \<Rightarrow> r
      | Some old \<Rightarrow>
          if singleSession cfg \<and> old \<noteq> [] then
            (let r' = ended_store cfg old ''replaced'' r
             in r'\<lparr>sets := (sets r')(keySessionSet realm uid := filter (\<lambda>x. x \<noteq> old) (sets r' (keySessionSet realm uid)))\<rparr>)
          else r)"

definition started :: "auth_config \<Rightarrow> string \<Rightarrow> int \<Rightarrow> string \<Rightarrow> rstate \<Rightarrow> rstate" where
  "started cfg realm uid sid r = snd (run_cmds
     [SET (keySession realm uid) sid (refresh_ttl cfg), SADD (keySessionSet realm uid) sid,
      PEXPIRE (keySessionSet realm uid) (refresh_ttl cfg),
      SET (keySessionAlive sid) (show_int uid) (refresh_ttl cfg)] r)"

lemma started_sets [simp]: "sid \<in> set (sets (started cfg realm uid sid r) (keySessionSet realm uid))"
  by (simp add: started_def)

lemma started_sets_subset:
  "set (sets (started cfg realm uid sid r) (keySessionSet realm uid)) \<subseteq> insert sid (set (sets r (keySessionSet realm uid)))"
  by (auto simp: started_def)

lemma started_session [simp]: "kv (started cfg realm uid sid r) (keySession realm uid) = Some sid"
  by (simp add: started_def)

lemma has_key_sets [simp]:
  "x \<noteq> k \<Longrightarrow> has_key (r\<lparr>sets := (sets r)(k := xs)\<rparr>) x = has_key r x"
  "x \<noteq> k \<Longrightarrow> has_key (r\<lparr>sets := (sets r)(k := xs), ttl := t\<rparr>) x = has_key r x"
  by (simp_all add: has_key_def)

lemma has_key_expire_key [simp]: "has_key (expire_key k t r) x = has_key r x"
  by (simp add: has_key_def)

lemma started_alive [simp]:
  "has_key (started cfg realm uid sid r) (keySessionAlive x) \<longleftrightarrow> x = sid \<or> has_key r (keySessionAlive x)"
  unfolding has_key_def by (auto simp: started_def)

lemma started_ended [simp]: "kv (started cfg realm uid sid r) (keyEnded x) = kv r (keyEnded x)"
  by (auto simp: started_def)

lemma started_blacklist [simp]:
  "has_key (started cfg realm uid sid r) (keyBlacklist x) = has_key r (keyBlacklist x)"
  unfolding has_key_def by (auto simp: started_def)

lemma end_previous_up:
  assumes "redis_server (e_exec e) store" and "redis_up e"
  shows "\<exists>s'. end_previous e cfg realm uid s = (Inr (), s') \<and> store s' = previous_ended cfg realm uid (store s)"
proof -
  obtain s1 where s1: "r_get (e_exec e) (keySession realm uid) s = (Inr (kv (store s) (keySession realm uid)), s1)"
    "store s1 = store s" using get_up [OF assms] by blast
  show ?thesis
  proof (cases "kv (store s) (keySession realm uid)")
    case None
    with s1 show ?thesis by (simp add: end_previous_def previous_ended_def)
  next
    case (Some old)
    obtain s2 where s2: "endSession e cfg old ''replaced'' s1 = (Inr (), s2)"
      "store s2 = ended_store cfg old ''replaced'' (store s1)" using endSession_up [OF assms] by blast
    obtain n s3 where "r_srem (e_exec e) (keySessionSet realm uid) old s2 = (Inr n, s3)"
      "store s3 = (store s2)\<lparr>sets := (sets (store s2))(keySessionSet realm uid :=
         filter (\<lambda>x. x \<noteq> old) (sets (store s2) (keySessionSet realm uid)))\<rparr>"
      using srem_up [OF assms] by blast
    with Some s1 s2 show ?thesis by (simp add: end_previous_def previous_ended_def Let_def)
  qed
qed

lemma Login_ok:
  assumes redis: "redis_server (e_exec e) store" and up: "redis_up e"
    and run: "Login e cfg k now sid jti refresh realm uid s = (Inr t, s')"
  obtains s2 where "store s2 = started cfg realm uid sid (previous_ended cfg realm uid (store s))"
    and "issue e cfg k now jti refresh realm uid sid s2 = (Inr t, s')"
proof -
  obtain s1 where s1: "end_previous e cfg realm uid s = (Inr (), s1)"
    "store s1 = previous_ended cfg realm uid (store s)" using end_previous_up [OF redis up] by blast
  obtain rs s2 where "start_session e cfg realm uid sid s1 = (Inr rs, s2)"
    "store s2 = started cfg realm uid sid (store s1)"
    using pipe_up [OF redis up] unfolding start_session_def started_def by blast
  with s1 run that show thesis by (simp add: Login_def)
qed

lemma previous_ended_blacklist [simp]:
  "has_key (previous_ended cfg realm uid r) (keyBlacklist x) = has_key r (keyBlacklist x)"
  by (auto simp: previous_ended_def Let_def ended_store_def split: option.split)

text \<open>A refresh that succeeds has retired the token and kept its record.\<close>

lemma Refresh_ok:
  assumes redis: "redis_server (e_exec e) store"
    and run: "Refresh e cfg k now jti nxt refresh s = (Inr t, s')"
  obtains raw rec s2 where "kv (store s) (keyRefresh (hashToken e refresh)) = Some raw"
    and "unmarshal_rec e raw = Some rec" and "has_key (store s) (keySessionAlive (r_sid rec))"
    and "store s2 = set_key (keyUsed (hashToken e refresh)) raw (refresh_ttl cfg)
      (del_key (keyRefresh (hashToken e refresh)) (store s))"
    and "issue e cfg k now jti nxt (r_realm rec) (r_uid rec) (r_sid rec) s2 = (Inr t, s')"
proof -
  from run obtain raw rec s1 where look: "refresh_lookup e cfg refresh s = (Inr (raw, rec), s1)"
    and rot: "refresh_rotate e cfg k now jti nxt refresh (raw, rec) s1 = (Inr t, s')"
    by (auto simp: Refresh_def split: prod.splits sum.splits)
  from look obtain v r where g: "r_get (e_exec e) (keyRefresh (hashToken e refresh)) s = (Inr (Some raw), v)"
    and u: "unmarshal_rec e raw = Some rec"
    and x: "r_exists (e_exec e) (keySessionAlive (r_sid rec)) v = (r, s1)"
    and r: "(case r of Inr n \<Rightarrow> n | Inl _ \<Rightarrow> 0) \<noteq> 0"
    by (auto simp: refresh_lookup_def Let_def split: prod.splits sum.splits option.splits if_splits)
  from redis_server.get_ok [OF redis g] have gv: "kv (store s) (keyRefresh (hashToken e refresh)) = Some raw" "store v = store s"
    by simp_all
  from r obtain n where n: "r = Inr n" "n \<noteq> 0" by (cases r) auto
  with redis_server.exists_ok [OF redis, OF x [unfolded n(1)]] gv
  have alive: "has_key (store s) (keySessionAlive (r_sid rec))" and s1: "store s1 = store s"
    by (auto split: if_splits)
  from rot obtain rs s2 where p: "pipe (e_exec e) [DEL [keyRefresh (hashToken e refresh)],
        SET (keyUsed (hashToken e refresh)) raw (refresh_ttl cfg)] s1 = (Inr rs, s2)"
    and i: "issue e cfg k now jti nxt (r_realm rec) (r_uid rec) (r_sid rec) s2 = (Inr t, s')"
    by (auto simp: refresh_rotate_def Let_def split: prod.splits sum.splits)
  from pipe_ok [OF redis p] s1 have "store s2 = set_key (keyUsed (hashToken e refresh)) raw (refresh_ttl cfg)
      (del_key (keyRefresh (hashToken e refresh)) (store s))" by auto
  with gv u alive i that show thesis by blast
qed

section \<open>An instance\<close>

text \<open>Symbolic tokens, records as colon-separated text, on any server.\<close>

definition demo_marshal :: "refresh_record \<Rightarrow> string" where
  "demo_marshal r = r_realm r @ CHR '':'' # show_int (r_uid r) @ CHR '':'' # r_sid r"

definition demo_unmarshal :: "string \<Rightarrow> refresh_record option" where
  "demo_unmarshal s = (case split_on CHR '':'' s of
      [a, b, c] \<Rightarrow> (case parse_int b of None \<Rightarrow> None | Some u \<Rightarrow> Some \<lparr>r_realm = a, r_uid = u, r_sid = c\<rparr>)
    | _ \<Rightarrow> None)"

definition demo_env :: "'s exec \<Rightarrow> ('s, sym_token) auth_env" where
  "demo_env exec = \<lparr>e_exec = exec, hashToken = (\<lambda>t. CHR ''#'' # t), marshal_rec = demo_marshal,
     unmarshal_rec = demo_unmarshal, jwt_sign = sym_sign, jwt_parse = sym_parse\<rparr>"

definition demo_cfg :: auth_config where
  "demo_cfg = \<lparr>a_enabled = True, PrivateKey = [], PublicKeys = [], Secret = [], Issuer = [],
     Realm = ''member'', AccessTTL = 0, RefreshTTL = 0, SingleSession = None\<rparr>"

definition demo_keys :: auth_keys where
  "demo_keys = \<lparr>k_secret = None, k_private = Some (EdPrivate ''s''), k_kid = ''kid'',
     k_public = [''kid'' \<mapsto> EdPublic ''s'']\<rparr>"

lemma demo_redis: "redis_server (e_exec (demo_env live_exec)) (\<lambda>r. r)"
  by (simp add: demo_env_def live.redis_server_axioms)

lemma demo_up: "redis_up (demo_env live_exec)"
  by (simp add: demo_env_def live_up)

lemma demo_jwt: "jwt_library (jwt_parse (demo_env exec)) (jwt_sign (demo_env exec)) sym_verifies sym_pub"
  by (simp add: demo_env_def sym.jwt_library_axioms)

text \<open>A member logged in.\<close>

definition demo_login :: "rstate" where
  "demo_login = snd (Login (demo_env live_exec) demo_cfg demo_keys 0 ''S1'' ''J1'' ''R1'' ''member'' 7 empty_rstate)"

definition demo_token :: "string \<Rightarrow> string \<Rightarrow> sym_token" where
  "demo_token sid jti = Sym ''EdDSA'' ''kid'' (EdPublic ''s'') \<lparr>c_iss = ''sportsbook'', c_sub = ''7'',
     c_jti = jti, c_exp = Some 900, c_realm = ''member'', c_sid = sid\<rparr>"

section \<open>Properties\<close>

text \<open>
  C3. A verified token is genuine and live. Whenever a gateway accepts an access token,
  the token is for the gateway's realm and a positive user, has not expired, its signature
  checks under a public key the gateway is configured with (or, only when a legacy secret
  is configured, under that secret), its session is alive in Redis and its id is not
  blacklisted.
\<close>

theorem verify_sound:
  assumes redis: "redis_server (e_exec e) store"
    and jwt: "jwt_library (jwt_parse e) (jwt_sign e) verifies pub"
    and run: "Verify e cfg k now tok s = (Inr who, s')"
  shows "id_realm who = Realm cfg \<and> 0 < id_uid who \<and> now < id_exp who * 1000 \<and>
    has_key (store s) (keySessionAlive (id_sid who)) \<and> \<not> has_key (store s) (keyBlacklist (id_jti who)) \<and>
    (\<exists>c. identity_of c = Inr who \<and> c_iss c = issuer cfg \<and>
      ((\<exists>kid key. k_public k kid = Some key \<and> verifies ''EdDSA'' key tok c) \<or>
       (\<exists>key. k_secret k = Some key \<and> verifies ''HS256'' key tok c)))"
proof -
  from Verify_ok [OF redis run] obtain c where
    parse: "jwt_parse e [''EdDSA'', ''HS256''] (keyfunc k) (issuer cfg) 0 now tok = Some c"
    and c: "c_realm c = Realm cfg" "identity_of c = Inr who"
    and live: "\<not> has_key (store s) (keyBlacklist (c_jti c))" "has_key (store s) (keySessionAlive (c_sid c))" .
  obtain ex where ex: "c_exp c = Some ex" "now < (ex + 0) * 1000" "c_iss c = issuer cfg"
    using jwt_library.parse_expiry [OF jwt, OF parse] by (elim exE conjE) (rule that)
  have who: "id_realm who = c_realm c" "id_sid who = c_sid c" "id_jti who = c_jti c" "0 < id_uid who" "id_exp who = ex"
    using identity_of_ok [OF c(2), of ex] ex(1) by simp_all
  have key: "\<exists>c. identity_of c = Inr who \<and> c_iss c = issuer cfg \<and>
      ((\<exists>kid key. k_public k kid = Some key \<and> verifies ''EdDSA'' key tok c) \<or>
       (\<exists>key. k_secret k = Some key \<and> verifies ''HS256'' key tok c))"
    using jwt_library.keyfunc_cases [OF jwt, OF parse] c(2) ex(3) by blast
  show ?thesis using who c(1) live ex(2) key by simp
qed

lemma verify_sound_witness:
  "has_key demo_login (keySessionAlive ''S1'')"
proof -
  have "fst (Verify (demo_env live_exec) demo_cfg demo_keys 0 (demo_token ''S1'' ''J1'') demo_login)
      = Inr \<lparr>id_realm = ''member'', id_uid = 7, id_sid = ''S1'', id_jti = ''J1'', id_exp = 900\<rparr>"
    by code_simp
  then have "Verify (demo_env live_exec) demo_cfg demo_keys 0 (demo_token ''S1'' ''J1'') demo_login
      = (Inr \<lparr>id_realm = ''member'', id_uid = 7, id_sid = ''S1'', id_jti = ''J1'', id_exp = 900\<rparr>,
         snd (Verify (demo_env live_exec) demo_cfg demo_keys 0 (demo_token ''S1'' ''J1'') demo_login))"
    by (rule surjective_pairing [THEN trans, OF arg_cong2 [where f = Pair, OF _ refl]])
  from verify_sound [OF demo_redis demo_jwt this] show ?thesis by simp
qed

text \<open>
  Revoking all sessions kills them. When the session set could be read and the
  revocation reports no error, every session of the principal is gone from Redis, with the
  given reason recorded unless an earlier reason was (the first reason is kept), and from
  then on no token of such a session verifies at any gateway, whatever its keys and time.
\<close>

lemma revokeAll_ends_every_session:
  assumes redis: "redis_server (e_exec e) store"
    and read: "r_smembers (e_exec e) (keySessionSet realm uid) s = (Inr sids, s1)"
    and run: "RevokeAll e cfg realm uid reason s = (Inr u, s')"
    and sid: "sid \<in> set (sets (store s) (keySessionSet realm uid))"
  shows "\<not> has_key (store s') (keySessionAlive sid) \<and> \<not> has_key (store s') (keySession realm uid) \<and>
    \<not> has_key (store s') (keySessionSet realm uid) \<and>
    (reason \<noteq> [] \<longrightarrow> kv (store s') (keyEnded sid) =
      (if has_key (store s) (keyEnded sid) then kv (store s) (keyEnded sid) else Some reason)) \<and>
    (\<forall>v vcfg k now tok who. store v = store s' \<and> fst (Verify e vcfg k now tok v) = Inr who \<longrightarrow> id_sid who \<noteq> sid)"
proof -
  note s' = RevokeAll_ok [OF redis read run]
  have dead: "\<not> has_key (store s') (keySessionAlive sid)"
    using sid by (simp add: s' revoked_store_def)
  moreover have "\<forall>v vcfg k now tok who. store v = store s' \<and> fst (Verify e vcfg k now tok v) = Inr who \<longrightarrow> id_sid who \<noteq> sid"
    using Verify_dead [OF redis] dead by metis
  ultimately show ?thesis using sid by (simp add: s' revoked_store_def)
qed

lemma revokeAll_ends_every_session_witness:
  "\<exists>s'. RevokeAll (demo_env live_exec) demo_cfg ''member'' 7 ''disabled'' demo_login = (Inr (), s') \<and>
     kv s' (keyEnded ''S1'') = Some ''disabled''"
proof -
  obtain s' where run: "RevokeAll (demo_env live_exec) demo_cfg ''member'' 7 ''disabled'' demo_login = (Inr (), s')"
    using RevokeAll_up [OF demo_redis demo_up] by blast
  have read: "r_smembers (e_exec (demo_env live_exec)) (keySessionSet ''member'' 7) demo_login
      = (Inr (sets demo_login (keySessionSet ''member'' 7)), demo_login)"
    by (simp add: demo_env_def r_smembers_def call1_def live_exec_def)
  have sid: "''S1'' \<in> set (sets demo_login (keySessionSet ''member'' 7))" by code_simp
  have "\<not> has_key demo_login (keyEnded ''S1'')" by code_simp
  with revokeAll_ends_every_session [OF demo_redis read run sid] run show ?thesis by simp
qed

text \<open>
  A revocation during a Redis hiccup forgets the sessions instead of ending them. When
  the read of the session set fails and the rest goes through, \<^verbatim>\<open>RevokeAll\<close> reports
  success with every session still alive and the session set deleted, so that no later
  revocation can find them.
\<close>

lemma revokeAll_outage_keeps_sessions:
  assumes redis: "redis_server (e_exec e) store"
    and read: "r_smembers (e_exec e) (keySessionSet realm uid) s = (Inl x, s1)"
    and run: "RevokeAll e cfg realm uid reason s = (Inr u, s')"
  shows "sets (store s') (keySessionSet realm uid) = [] \<and>
    (\<forall>sid. has_key (store s') (keySessionAlive sid) \<longleftrightarrow> has_key (store s) (keySessionAlive sid))"
proof -
  from redis_server.smembers_store [OF redis read] have "store s1 = store s" .
  moreover from run read obtain n where
    "r_del (e_exec e) [keySession realm uid, keySessionSet realm uid] s1 = (Inr n, s')"
    by (auto simp: RevokeAll_def split: prod.splits sum.splits)
  ultimately have "store s' = del_key (keySessionSet realm uid) (del_key (keySession realm uid) (store s))"
    using redis_server.del_ok [OF redis] by fastforce
  then show ?thesis by simp
qed

lemma revokeAll_outage_keeps_sessions_witness:
  "\<exists>s'. RevokeAll (demo_env mem_exec) demo_cfg ''member'' 7 ''disabled'' ([DownBefore], demo_login) = (Inr (), s') \<and>
     has_key (snd s') (keySessionAlive ''S1'')"
proof -
  let ?e = "demo_env mem_exec :: (fault list \<times> rstate, sym_token) auth_env"
  have redis: "redis_server (e_exec ?e) snd" by (simp add: demo_env_def mem.redis_server_axioms)
  have read: "r_smembers (e_exec ?e) (keySessionSet ''member'' 7) ([DownBefore], demo_login)
      = (Inl RedisDown, ([], demo_login))"
    by (simp add: demo_env_def r_smembers_def call1_def)
  obtain s' where run: "RevokeAll ?e demo_cfg ''member'' 7 ''disabled'' ([DownBefore], demo_login) = (Inr (), s')"
    by (simp add: RevokeAll_def read) (simp add: demo_env_def r_del_def call1_def)
  have "has_key demo_login (keySessionAlive ''S1'')" by code_simp
  with revokeAll_outage_keeps_sessions [OF redis read run] run show ?thesis by auto
qed

text \<open>
  One session per principal. With Redis answering and single sessions on, a login by a
  principal who already has a session ends that session with the reason \<^verbatim>\<open>replaced\<close>
  (unless a reason was recorded before) and leaves the new one as the current and only new
  member of the session set; from then on no token of the old session verifies at any
  gateway.
\<close>

lemma login_replaces_session:
  assumes redis: "redis_server (e_exec e) store" and up: "redis_up e"
    and single: "singleSession cfg"
    and old: "kv (store s) (keySession realm uid) = Some old" "old \<noteq> []" "old \<noteq> sid"
    and run: "Login e cfg k now sid jti refresh realm uid s = (Inr t, s')"
  shows "\<not> has_key (store s') (keySessionAlive old) \<and> has_key (store s') (keySessionAlive sid) \<and>
    kv (store s') (keySession realm uid) = Some sid \<and>
    sid \<in> set (sets (store s') (keySessionSet realm uid)) \<and> old \<notin> set (sets (store s') (keySessionSet realm uid)) \<and>
    kv (store s') (keyEnded old) = (if has_key (store s) (keyEnded old) then kv (store s) (keyEnded old) else Some ''replaced'') \<and>
    (\<forall>v vcfg vk vnow tok who. store v = store s' \<and> fst (Verify e vcfg vk vnow tok v) = Inr who \<longrightarrow> id_sid who \<noteq> old)"
proof -
  obtain s2 where s2: "store s2 = started cfg realm uid sid (previous_ended cfg realm uid (store s))"
    and issue: "issue e cfg k now jti refresh realm uid sid s2 = (Inr t, s')"
    by (rule Login_ok [OF redis up run])
  note s' = issue_ok(1) [OF redis issue]
  have prev: "previous_ended cfg realm uid (store s) = (let r' = ended_store cfg old ''replaced'' (store s)
      in r'\<lparr>sets := (sets r')(keySessionSet realm uid := filter (\<lambda>x. x \<noteq> old) (sets r' (keySessionSet realm uid)))\<rparr>)"
    using single old by (simp add: previous_ended_def)
  have dead: "\<not> has_key (store s') (keySessionAlive old)"
    using old(3) by (simp add: s' s2 prev Let_def)
  moreover have "old \<notin> set (sets (store s') (keySessionSet realm uid))"
    using started_sets_subset [of cfg realm uid sid "previous_ended cfg realm uid (store s)"] old(3)
    by (auto simp: s' s2 prev Let_def)
  moreover have "\<forall>v vcfg vk vnow tok who. store v = store s' \<and> fst (Verify e vcfg vk vnow tok v) = Inr who \<longrightarrow> id_sid who \<noteq> old"
    using Verify_dead [OF redis] dead by metis
  ultimately show ?thesis by (simp add: s' s2 prev Let_def)
qed

lemma login_replaces_session_witness:
  "\<exists>t s'. Login (demo_env live_exec) demo_cfg demo_keys 0 ''S2'' ''J2'' ''R2'' ''member'' 7 demo_login = (Inr t, s') \<and>
     kv s' (keyEnded ''S1'') = Some ''replaced''"
proof -
  have "is_ok (fst (Login (demo_env live_exec) demo_cfg demo_keys 0 ''S2'' ''J2'' ''R2'' ''member'' 7 demo_login))"
    by code_simp
  then obtain t s' where run: "Login (demo_env live_exec) demo_cfg demo_keys 0 ''S2'' ''J2'' ''R2'' ''member'' 7 demo_login
      = (Inr t, s')" by (cases "Login (demo_env live_exec) demo_cfg demo_keys 0 ''S2'' ''J2'' ''R2'' ''member'' 7 demo_login")
        (auto simp: is_ok_iff)
  have single: "singleSession demo_cfg" by code_simp
  have old: "kv demo_login (keySession ''member'' 7) = Some ''S1''" by code_simp
  have fresh: "\<not> has_key demo_login (keyEnded ''S1'')" by code_simp
  from login_replaces_session [OF demo_redis demo_up single old _ _ run] fresh
  have "kv s' (keyEnded ''S1'') = Some ''replaced''" by simp
  with run show ?thesis by blast
qed

text \<open>
  A token just issued is accepted. With Redis answering, the access token a login hands
  out verifies at every gateway of its realm that has the issuer's public key and the same
  issuer name, until it expires, as long as the store is as the login left it; the identity
  is the principal that logged in, its session and the token's id.
\<close>

lemma login_token_verifies:
  assumes redis: "redis_server (e_exec e) store" and up: "redis_up e"
    and jwt: "jwt_library (jwt_parse e) (jwt_sign e) verifies pub"
    and run: "Login e cfg k now sid jti refresh realm uid s = (Inr t, s')"
    and uid: "0 < uid" "uid < 2 ^ 63" and jti: "\<not> has_key (store s) (keyBlacklist jti)"
    and keys: "k_private k = Some p" "k_public vk (k_kid k) = Some (pub p)"
    and gateway: "issuer vcfg = issuer cfg" "Realm vcfg = realm"
    and "store v = store s'" and time: "vnow < (now + access_ttl cfg) div 1000 * 1000"
  shows "fst (Verify e vcfg vk vnow (AccessToken t) v) =
    Inr \<lparr>id_realm = realm, id_uid = uid, id_sid = sid, id_jti = jti, id_exp = (now + access_ttl cfg) div 1000\<rparr>"
proof -
  obtain s2 where s2: "store s2 = started cfg realm uid sid (previous_ended cfg realm uid (store s))"
    and issue: "issue e cfg k now jti refresh realm uid sid s2 = (Inr t, s')"
    by (rule Login_ok [OF redis up run])
  note s' = issue_ok(1) [OF redis issue]
  let ?c = "\<lparr>c_iss = issuer cfg, c_sub = show_int uid, c_jti = jti, c_exp = Some ((now + access_ttl cfg) div 1000),
       c_realm = realm, c_sid = sid\<rparr>"
  have "jwt_sign e ''EdDSA'' (k_kid k) p ?c = Some (AccessToken t)"
    by (rule issue_ok(2) [OF redis issue keys(1)])
  from jwt_library.sign_parse [OF jwt, OF this, of "[''EdDSA'', ''HS256'']" "keyfunc vk" "issuer vcfg" _ vnow 0]
  have parse: "jwt_parse e [''EdDSA'', ''HS256''] (keyfunc vk) (issuer vcfg) 0 vnow (AccessToken t) = Some ?c"
    using keys(2) gateway(1) time by (simp add: keyfunc_def)
  have who: "identity_of ?c = Inr \<lparr>id_realm = realm, id_uid = uid, id_sid = sid, id_jti = jti,
      id_exp = (now + access_ttl cfg) div 1000\<rparr>"
    using uid by (simp add: identity_of_def)
  have bl: "\<not> has_key (store v) (keyBlacklist jti)" and alive: "has_key (store v) (keySessionAlive sid)"
    using jti by (simp_all add: \<open>store v = store s'\<close> s' s2)
  obtain v' where "pipe (e_exec e) [EXISTS (keyBlacklist jti), EXISTS (keySessionAlive sid)] v = (Inr [RInt 0, RInt 1], v')"
    using pipe_up [OF redis up, of "[EXISTS (keyBlacklist jti), EXISTS (keySessionAlive sid)]" v] bl alive by auto
  then show ?thesis using gateway(2) parse who by (simp add: Verify_def parse_token_def)
qed

lemma login_token_verifies_witness:
  "\<exists>t s'. Login (demo_env live_exec) demo_cfg demo_keys 0 ''S1'' ''J1'' ''R1'' ''member'' 7 empty_rstate = (Inr t, s') \<and>
     fst (Verify (demo_env live_exec) demo_cfg demo_keys 899999 (AccessToken t) s') =
       Inr \<lparr>id_realm = ''member'', id_uid = 7, id_sid = ''S1'', id_jti = ''J1'', id_exp = 900\<rparr>"
proof -
  have "is_ok (fst (Login (demo_env live_exec) demo_cfg demo_keys 0 ''S1'' ''J1'' ''R1'' ''member'' 7 empty_rstate))"
    by code_simp
  then obtain t s' where run: "Login (demo_env live_exec) demo_cfg demo_keys 0 ''S1'' ''J1'' ''R1'' ''member'' 7 empty_rstate
      = (Inr t, s')" by (cases "Login (demo_env live_exec) demo_cfg demo_keys 0 ''S1'' ''J1'' ''R1'' ''member'' 7 empty_rstate")
        (auto simp: is_ok_iff)
  have ttl: "access_ttl demo_cfg = 900000" by code_simp
  have "fst (Verify (demo_env live_exec) demo_cfg demo_keys 899999 (AccessToken t) s') =
       Inr \<lparr>id_realm = ''member'', id_uid = 7, id_sid = ''S1'', id_jti = ''J1'', id_exp = (0 + access_ttl demo_cfg) div 1000\<rparr>"
    by (rule login_token_verifies [OF demo_redis demo_up, OF demo_jwt, OF run, where p = "EdPrivate ''s''"])
      (simp_all add: ttl demo_keys_def has_key_def empty_rstate_def, simp add: demo_cfg_def)
  with run show ?thesis by (simp add: ttl)
qed

text \<open>
  C21. A stolen refresh token is noticed. With Redis answering, after a refresh token was
  exchanged for the next pair, presenting it again answers \<^verbatim>\<open>ErrRefreshReplayed\<close> and
  ends every session in the principal's session set, as long as the store is as the first
  refresh left it. (The two tokens have different hashes, and an empty text is no record.)
\<close>

theorem refresh_replay_revokes:
  assumes redis: "redis_server (e_exec e) store" and up: "redis_up e"
    and codec: "unmarshal_rec e [] = None" and hashes: "hashToken e nxt \<noteq> hashToken e refresh"
    and rec: "kv (store s) (keyRefresh (hashToken e refresh)) = Some raw" "unmarshal_rec e raw = Some rec"
    and run: "Refresh e cfg k now jti nxt refresh s = (Inr t, s1)"
    and same: "store v = store s1"
  shows "\<exists>v'. Refresh e cfg k' now' jti' nxt' refresh v = (Inl RefreshReplayed, v') \<and>
    (\<forall>sid \<in> set (sets (store v) (keySessionSet (r_realm rec) (r_uid rec))). \<not> has_key (store v') (keySessionAlive sid))"
proof -
  let ?h = "hashToken e refresh"
  obtain raw' s2 and rec' :: refresh_record where r: "kv (store s) (keyRefresh ?h) = Some raw'"
    and s2: "store s2 = set_key (keyUsed ?h) raw' (refresh_ttl cfg) (del_key (keyRefresh ?h) (store s))"
    and issue: "issue e cfg k now jti nxt (r_realm rec') (r_uid rec') (r_sid rec') s2 = (Inr t, s1)"
    by (rule Refresh_ok [OF redis run]) (rule that)
  have raw: "raw' = raw" "raw \<noteq> []" using r rec codec by auto
  have gone: "kv (store v) (keyRefresh ?h) = None" and used: "kv (store v) (keyUsed ?h) = Some raw"
    using hashes by (simp_all add: same issue_ok(1) [OF redis issue] s2 raw)
  obtain v1 where v1: "r_get (e_exec e) (keyRefresh ?h) v = (Inr None, v1)" "store v1 = store v"
    using get_up [OF redis up, of "keyRefresh ?h" v] gone by auto
  obtain v2 where v2: "r_get (e_exec e) (keyUsed ?h) v1 = (Inr (Some raw), v2)" "store v2 = store v"
    using get_up [OF redis up, of "keyUsed ?h" v1] used v1 by auto
  obtain v' where v': "RevokeAll e cfg (r_realm rec) (r_uid rec) ''refresh_replayed'' v2 = (Inr (), v')"
    "store v' = revoked_store cfg (r_realm rec) (r_uid rec) ''refresh_replayed'' (store v2)"
    using RevokeAll_up [OF redis up] by blast
  have "Refresh e cfg k' now' jti' nxt' refresh v = (Inl RefreshReplayed, v')"
    using v1(1) v2(1) v'(1) rec(2) raw(2) by (simp add: Refresh_def refresh_lookup_def Let_def)
  then show ?thesis using v'(2) v2(2) by (auto simp: revoked_store_def)
qed

lemma refresh_replay_revokes_witness:
  "\<exists>t s1 v'. Refresh (demo_env live_exec) demo_cfg demo_keys 1 ''J2'' ''R2'' ''R1'' demo_login = (Inr t, s1) \<and>
     Refresh (demo_env live_exec) demo_cfg demo_keys 2 ''J3'' ''R3'' ''R1'' s1 = (Inl RefreshReplayed, v')"
proof -
  have "is_ok (fst (Refresh (demo_env live_exec) demo_cfg demo_keys 1 ''J2'' ''R2'' ''R1'' demo_login))"
    by code_simp
  then obtain t s1 where run: "Refresh (demo_env live_exec) demo_cfg demo_keys 1 ''J2'' ''R2'' ''R1'' demo_login = (Inr t, s1)"
    by (cases "Refresh (demo_env live_exec) demo_cfg demo_keys 1 ''J2'' ''R2'' ''R1'' demo_login") (auto simp: is_ok_iff)
  have codec: "unmarshal_rec (demo_env live_exec) [] = None" by code_simp
  have hashes: "hashToken (demo_env live_exec) ''R2'' \<noteq> hashToken (demo_env live_exec) ''R1''" by code_simp
  have raw: "kv demo_login (keyRefresh (hashToken (demo_env live_exec) ''R1'')) = Some ''member:7:S1''" by code_simp
  have rec: "unmarshal_rec (demo_env live_exec) ''member:7:S1'' = Some \<lparr>r_realm = ''member'', r_uid = 7, r_sid = ''S1''\<rparr>"
    by code_simp
  from refresh_replay_revokes [OF demo_redis demo_up codec hashes raw rec run refl] run show ?thesis by blast
qed

text \<open>
  A Redis hiccup during a refresh logs the user out. When the record was read and the
  check of the session fails, \<^verbatim>\<open>Refresh\<close> answers that the session was revoked
  although it is as alive as before, and (when Redis answers the delete) the refresh token
  is gone: the session lives on and cannot be refreshed.
\<close>

lemma refresh_outage_ends_login:
  assumes redis: "redis_server (e_exec e) store"
    and read: "r_get (e_exec e) (keyRefresh (hashToken e refresh)) s = (Inr (Some raw), s1)"
    and rec: "unmarshal_rec e raw = Some rec"
    and outage: "r_exists (e_exec e) (keySessionAlive (r_sid rec)) s1 = (Inl x, s2)"
  shows "\<exists>reason s'. Refresh e cfg k now jti nxt refresh s = (Inl (Revoked reason), s') \<and>
    (\<forall>sid. has_key (store s') (keySessionAlive sid) \<longleftrightarrow> has_key (store s) (keySessionAlive sid)) \<and>
    (\<forall>n s3. r_del (e_exec e) [keyRefresh (hashToken e refresh)] s2 = (Inr n, s3) \<longrightarrow>
       \<not> has_key (store s') (keyRefresh (hashToken e refresh)))"
proof -
  let ?h = "hashToken e refresh"
  obtain d s3 where del: "r_del (e_exec e) [keyRefresh ?h] s2 = (d, s3)" by (cases "r_del (e_exec e) [keyRefresh ?h] s2")
  obtain g s4 where get: "r_get (e_exec e) (keyEnded (r_sid rec)) s3 = (g, s4)"
    by (cases "r_get (e_exec e) (keyEnded (r_sid rec)) s3")
  define reason where "reason = (case g of Inr (Some v) \<Rightarrow> v | _ \<Rightarrow> [])"
  have "revoked e (r_sid rec) s3 = (Revoked reason, s4)"
    using get by (auto simp: revoked_def reason_def split: sum.split option.split)
  then have out: "Refresh e cfg k now jti nxt refresh s = (Inl (Revoked reason), s4)"
    using read rec outage del by (simp add: Refresh_def refresh_lookup_def Let_def)
  have "store s2 = store s"
    using redis_server.get_store [OF redis read] redis_server.exists_store [OF redis outage] by simp
  moreover have "store s4 = store s3" by (rule redis_server.get_store [OF redis get])
  ultimately have "\<forall>sid. has_key (store s4) (keySessionAlive sid) \<longleftrightarrow> has_key (store s) (keySessionAlive sid)"
    using redis_server.del_store [OF redis del] by auto
  moreover have "\<not> has_key (store s4) (keyRefresh ?h)" if "d = Inr n" for n
    using redis_server.del_ok [OF redis del [unfolded that]] \<open>store s4 = store s3\<close> by simp
  ultimately show ?thesis using out del by (intro exI [of _ reason] exI [of _ s4]) auto
qed

lemma refresh_outage_ends_login_witness:
  "\<exists>reason s'. Refresh (demo_env mem_exec) demo_cfg demo_keys 1 ''J2'' ''R2'' ''R1'' ([Up, DownBefore], demo_login)
      = (Inl (Revoked reason), s') \<and> has_key (snd s') (keySessionAlive ''S1'') \<and>
     \<not> has_key (snd s') (keyRefresh (hashToken (demo_env mem_exec) ''R1''))"
proof -
  let ?e = "demo_env mem_exec :: (fault list \<times> rstate, sym_token) auth_env"
  have redis: "redis_server (e_exec ?e) snd" by (simp add: demo_env_def mem.redis_server_axioms)
  have raw: "kv demo_login (keyRefresh (hashToken ?e ''R1'')) = Some ''member:7:S1''" by code_simp
  have rec: "unmarshal_rec ?e ''member:7:S1'' = Some \<lparr>r_realm = ''member'', r_uid = 7, r_sid = ''S1''\<rparr>" by code_simp
  have read: "r_get (e_exec ?e) (keyRefresh (hashToken ?e ''R1'')) ([Up, DownBefore], demo_login)
      = (Inr (Some ''member:7:S1''), ([DownBefore], demo_login))"
    using raw by (simp add: demo_env_def r_get_def call1_def)
  have outage: "r_exists (e_exec ?e) (keySessionAlive (r_sid \<lparr>r_realm = ''member'', r_uid = 7, r_sid = ''S1''\<rparr>))
      ([DownBefore], demo_login) = (Inl RedisDown, ([], demo_login))"
    by (simp add: demo_env_def r_exists_def call1_def)
  have del: "\<exists>n s3. r_del (e_exec ?e) [keyRefresh (hashToken ?e ''R1'')] ([], demo_login) = (Inr n, s3)"
    by (simp add: demo_env_def r_del_def call1_def)
  have alive: "has_key demo_login (keySessionAlive ''S1'')" by code_simp
  from refresh_outage_ends_login [OF redis read rec outage] alive del show ?thesis by fastforce
qed

end
