(* ===== verification/Identity.thy ===== *)
theory Identity
  imports Authx Base64
begin

text \<open>
  Who is calling an RPC service (\<^verbatim>\<open>kitexx/svcidentity.go\<close>, \<^verbatim>\<open>kitexx/callers.go\<close>,
  \<^verbatim>\<open>kitexx/identity.go\<close>): the caller's service proved by a token of the cluster, the
  methods it may call, and the login the call claims, proved by the user's access token.
  The three middlewares are functions from a call to a \<open>rpc_verdict\<close>, and run one after the other
  (\<open>rpc_chain\<close>). The environment is the function \<open>env\<close>; the clock is an argument
  (milliseconds); the cluster's key document is what an HTTP request answered.
\<close>

section \<open>A call\<close>

text \<open>
  The names in the RPC information and the values in the metainfo. \<open>r_verified\<close> is the value
  under \<^verbatim>\<open>verifiedCallerKey\<close>, empty without one.
\<close>

record rpc =
  r_method :: string
  r_from :: string
  r_svctoken :: string
  r_verified :: string
  r_UID :: "string option"
  r_REALM :: string
  r_SID :: string
  r_UTOKEN :: string

datatype rpc_verdict = Refuse int | Next rpc

definition CodeForbidden :: int where "CodeForbidden = 1007"
definition CodeUnauthenticated :: int where "CodeUnauthenticated = 1004"

text \<open>What a handler reads.\<close>

definition UID :: "rpc \<Rightarrow> int option" where
  "UID c = (case r_UID c of None \<Rightarrow> None
     | Some v \<Rightarrow> (case parse_int64 v of None \<Rightarrow> None | Some u \<Rightarrow> if u > 0 then Some u else None))"

definition LoginUID :: "rpc \<Rightarrow> int + int" where
  "LoginUID c = (case UID c of None \<Rightarrow> Inl CodeUnauthenticated | Some u \<Rightarrow> Inr u)"

definition CheckMemberUID :: "rpc \<Rightarrow> int \<Rightarrow> int option" where
  "CheckMemberUID c uid =
     (if r_REALM c \<noteq> ''member'' then None
      else case UID c of None \<Rightarrow> None | Some cur \<Rightarrow> if cur \<noteq> uid then Some CodeForbidden else None)"

definition RequireRealm :: "rpc \<Rightarrow> string list \<Rightarrow> int option" where
  "RequireRealm c realms =
     (if UID c = None then Some CodeUnauthenticated
      else if r_REALM c \<in> set realms then None else Some CodeForbidden)"

definition WithIdentity :: "identity \<Rightarrow> rpc \<Rightarrow> rpc" where
  "WithIdentity who c = c\<lparr>r_UID := Some (show_int (id_uid who)), r_REALM := id_realm who, r_SID := id_sid who\<rparr>"

definition WithToken :: "string \<Rightarrow> rpc \<Rightarrow> rpc" where
  "WithToken tok c = c\<lparr>r_UTOKEN := tok\<rparr>"

text \<open>A mode: the configured one, else the environment's, else off.\<close>

definition modeOf :: "(string \<Rightarrow> string) \<Rightarrow> string \<Rightarrow> string \<Rightarrow> string" where
  "modeOf env conf name =
     (let m = trim_space conf; m = (if m = [] then trim_space (env name) else m)
      in if m = [] then ''off'' else m)"

definition validMode :: "string \<Rightarrow> bool" where
  "validMode m \<longleftrightarrow> m \<in> {''off'', ''log'', ''enforce''}"

section \<open>The token of a service\<close>

record svc_config =
  s_Mode :: string
  s_Dir :: string
  s_Audience :: string
  s_Issuer :: string
  s_JWKSURL :: string
  s_Namespaces :: "string list"

definition svc_mode :: "(string \<Rightarrow> string) \<Rightarrow> svc_config \<Rightarrow> string" where
  "svc_mode env c = modeOf env (s_Mode c) ''SERVICE_IDENTITY''"

definition svc_dir :: "svc_config \<Rightarrow> string" where
  "svc_dir c = (if s_Dir c \<noteq> [] then s_Dir c else ''/var/run/secrets/sportsbook'')"

definition svc_audience :: "svc_config \<Rightarrow> string" where
  "svc_audience c = (if s_Audience c \<noteq> [] then s_Audience c else ''sportsbook-rpc'')"

definition svc_issuer :: "svc_config \<Rightarrow> string" where
  "svc_issuer c = (if s_Issuer c \<noteq> [] then s_Issuer c else ''https://kubernetes.default.svc.cluster.local'')"

definition jwksURL :: "svc_config \<Rightarrow> string" where
  "jwksURL c = (if s_JWKSURL c \<noteq> [] then s_JWKSURL c else ''https://kubernetes.default.svc/openid/v1/jwks'')"

text \<open>\<open>None\<close> is any namespace.\<close>

definition svc_namespaces :: "(string \<Rightarrow> string) \<Rightarrow> svc_config \<Rightarrow> string list option" where
  "svc_namespaces env c =
     (let l = (if s_Namespaces c \<noteq> [] then s_Namespaces c
               else filter (\<lambda>s. s \<noteq> []) (map trim_space (split_on CHR '','' (env ''SERVICE_IDENTITY_NAMESPACES''))))
      in if l = [] then None else Some l)"

text \<open>The client's side: the projected token file, read again after a minute.\<close>

record token_file =
  tf_tok :: string
  tf_read :: "int option"

definition tf_get :: "int \<Rightarrow> string option \<Rightarrow> token_file \<Rightarrow> string \<times> token_file" where
  "tf_get now file f =
     (if (case tf_read f of None \<Rightarrow> False | Some t \<Rightarrow> now - t < 60000) \<and> tf_tok f \<noteq> [] then (tf_tok f, f)
      else let g = (case file of None \<Rightarrow> f | Some b \<Rightarrow> f\<lparr>tf_tok := trim_space b, tf_read := Some now\<rparr>)
           in (tf_tok g, g))"

definition clientServiceToken :: "int \<Rightarrow> string option \<Rightarrow> token_file \<Rightarrow> rpc \<Rightarrow> rpc \<times> token_file" where
  "clientServiceToken now file f c =
     (case tf_get now file f of (tok, g) \<Rightarrow> (if tok \<noteq> [] then c\<lparr>r_svctoken := tok\<rparr> else c, g))"

text \<open>
  In takeover mode (\<open>marker\<close>: the service taken over and the path of the marker) the server
  checks nothing and the client reads the token beside the marker. Directories carry no
  trailing slash.
\<close>

definition takeoverIdentity :: "string \<Rightarrow> (string \<times> string) option \<Rightarrow> svc_config \<Rightarrow> svc_config \<times> string" where
  "takeoverIdentity service marker cfg =
     (case marker of
        Some (s, path) \<Rightarrow>
          if s = service then (cfg\<lparr>s_Mode := ''off''\<rparr>, path @ ''.rpc-token'') else (cfg, svc_dir cfg @ ''/rpc-token'')
      | None \<Rightarrow> (cfg, svc_dir cfg @ ''/rpc-token''))"

section \<open>The cluster's public keys\<close>

datatype rsa_key = Rsa string string   \<comment> \<open>modulus and exponent, as bytes\<close>

text \<open>\<open>RawURLEncoding\<close>: the alphabet with \<^verbatim>\<open>-\<close> and \<^verbatim>\<open>_\<close>.\<close>

definition raw_url_decode :: "string \<Rightarrow> string option" where
  "raw_url_decode s =
     (if CHR ''+'' \<in> set s \<or> CHR ''/'' \<in> set s then None
      else raw_decode (map (\<lambda>c. if c = CHR ''-'' then CHR ''+'' else if c = CHR ''_'' then CHR ''/'' else c) s))"

record jwk =
  Kty :: string
  Kid :: string
  N_part :: string
  E_part :: string

record jwks =
  j_keys :: "(string \<times> rsa_key) list"
  j_fetched :: "int option"
  j_tried :: "int option"

fun rsa_keys :: "jwk list \<Rightarrow> (string \<times> rsa_key) list" where
  "rsa_keys [] = []"
| "rsa_keys (k # ks) =
     (if Kty k \<noteq> ''RSA'' then rsa_keys ks
      else case (raw_url_decode (N_part k), raw_url_decode (E_part k)) of
          (Some n, Some e) \<Rightarrow> (Kid k, Rsa n e) # rsa_keys ks
        | _ \<Rightarrow> rsa_keys ks)"

text \<open>A later key of the same id replaces an earlier one.\<close>

definition key_of :: "(string \<times> rsa_key) list \<Rightarrow> string \<Rightarrow> rsa_key option" where
  "key_of ks kid = map_of (rev ks) kid"

text \<open>\<open>doc\<close>: the keys the request answered, \<open>None\<close> when it failed or did not decode.\<close>

definition fetch :: "int \<Rightarrow> jwk list option \<Rightarrow> jwks \<Rightarrow> jwks option" where
  "fetch now doc j =
     (case doc of
        None \<Rightarrow> None
      | Some ks \<Rightarrow> if rsa_keys ks = [] then None else Some (j\<lparr>j_keys := rsa_keys ks, j_fetched := Some now\<rparr>))"

definition longer_than :: "int \<Rightarrow> int \<Rightarrow> int option \<Rightarrow> bool" where
  "longer_than d now t \<longleftrightarrow> (case t of None \<Rightarrow> True | Some x \<Rightarrow> now - x > d)"

definition wants_fetch :: "int \<Rightarrow> string \<Rightarrow> jwks \<Rightarrow> bool" where
  "wants_fetch now kid j \<longleftrightarrow>
     (key_of (j_keys j) kid = None \<or> longer_than 600000 now (j_fetched j)) \<and> longer_than 30000 now (j_tried j)"

definition jwks_key :: "int \<Rightarrow> jwk list option \<Rightarrow> string \<Rightarrow> jwks \<Rightarrow> rsa_key option \<times> jwks" where
  "jwks_key now doc kid j =
     (let j' = (if wants_fetch now kid j
                then (let t = j\<lparr>j_tried := Some now\<rparr> in case fetch now doc t of None \<Rightarrow> t | Some u \<Rightarrow> u)
                else j)
      in (key_of (j_keys j') kid, j'))"

section \<open>Checking the token of a caller\<close>

text \<open>
  The JWT library on a ServiceAccount token: the \<^verbatim>\<open>kid\<close> of its header (\<open>None\<close> when it
  does not parse or is not RS256), and its subject when the signature, issuer, audience and
  expiry check under a key.
\<close>

record svc_jwt =
  header_kid :: "string \<Rightarrow> string option"
  subject_of :: "rsa_key \<Rightarrow> string \<Rightarrow> string \<Rightarrow> int \<Rightarrow> string \<Rightarrow> string option"

definition service_account :: "string \<Rightarrow> (string \<times> string) option" where
  "service_account sub =
     (if \<not> has_prefix sub ''system:serviceaccount:'' then None
      else case cut (drop 22 sub) '':'' of
          None \<Rightarrow> None
        | Some (ns, name) \<Rightarrow> if ns = [] \<or> name = [] then None else Some (ns, name))"

definition svc_check ::
  "svc_jwt \<Rightarrow> svc_config \<Rightarrow> int \<Rightarrow> jwk list option \<Rightarrow> string \<Rightarrow> jwks \<Rightarrow> (string \<times> string) option \<times> jwks" where
  "svc_check J cfg now doc tok j =
     (case header_kid J tok of
        None \<Rightarrow> (None, j)
      | Some kid \<Rightarrow>
          (case jwks_key now doc kid j of
             (None, j') \<Rightarrow> (None, j')
           | (Some k, j') \<Rightarrow>
               (case subject_of J k (svc_issuer cfg) (svc_audience cfg) now tok of
                  None \<Rightarrow> (None, j')
                | Some sub \<Rightarrow> (service_account sub, j'))))"

datatype svc_error = BadSvcMode string | NoCA | NoClusterKeys

text \<open>At start: \<open>None\<close> for off; \<open>ca\<close> says whether the certificate could be read.\<close>

definition ServiceIdentityCheck ::
  "(string \<Rightarrow> string) \<Rightarrow> svc_config \<Rightarrow> bool \<Rightarrow> int \<Rightarrow> jwk list option \<Rightarrow> svc_error + jwks option" where
  "ServiceIdentityCheck env cfg ca now doc =
     (let mode = svc_mode env cfg; j = \<lparr>j_keys = [], j_fetched = None, j_tried = None\<rparr>
      in if mode = ''off'' then Inr None
         else if mode \<notin> {''log'', ''enforce''} then Inl (BadSvcMode mode)
         else if \<not> ca \<and> has_prefix (jwksURL cfg) ''https://kubernetes.default'' then Inl NoCA
         else case fetch now doc j of
             None \<Rightarrow> if mode = ''enforce'' then Inl NoClusterKeys else Inr (Some j)
           | Some j' \<Rightarrow> Inr (Some j'))"

datatype svc_result = SvcOk | SvcNoToken | SvcBadToken | SvcWrongNamespace | SvcMismatch

definition svc_result_of ::
  "svc_jwt \<Rightarrow> (string \<Rightarrow> string) \<Rightarrow> svc_config \<Rightarrow> int \<Rightarrow> jwk list option \<Rightarrow> rpc \<Rightarrow> jwks \<Rightarrow> svc_result \<times> string \<times> jwks" where
  "svc_result_of J env cfg now doc c j =
     (if r_svctoken c = [] then (SvcNoToken, [], j)
      else case svc_check J cfg now doc (r_svctoken c) j of
          (None, j') \<Rightarrow> (SvcBadToken, [], j')
        | (Some (ns, n), j') \<Rightarrow>
            if (case svc_namespaces env cfg of None \<Rightarrow> False | Some l \<Rightarrow> ns \<notin> set l) then (SvcWrongNamespace, [], j')
            else if n \<noteq> r_from c then (SvcMismatch, n, j') else (SvcOk, n, j'))"

text \<open>The middleware; off passes every call through.\<close>

definition svc_identity ::
  "svc_jwt \<Rightarrow> (string \<Rightarrow> string) \<Rightarrow> svc_config \<Rightarrow> int \<Rightarrow> jwk list option \<Rightarrow> rpc \<Rightarrow> jwks \<Rightarrow> rpc_verdict \<times> jwks" where
  "svc_identity J env cfg now doc c j =
     (if svc_mode env cfg = ''off'' then (Next c, j)
      else case svc_result_of J env cfg now doc c j of
          (SvcOk, n, j') \<Rightarrow> (Next (c\<lparr>r_verified := n\<rparr>), j')
        | (_, n, j') \<Rightarrow> (if svc_mode env cfg = ''enforce'' then Refuse CodeForbidden else Next c, j'))"

section \<open>Who may call which method\<close>

record caller_rule =
  Methods :: "string list"
  Allow :: "string list"

record callers_config =
  ca_Default :: string
  ca_Rules :: "caller_rule list"

definition DefaultPolicy :: "(string \<Rightarrow> string) \<Rightarrow> callers_config \<Rightarrow> string" where
  "DefaultPolicy env c =
     (let d = trim_space (ca_Default c); d = (if d = [] then trim_space (env ''CALLERS_DEFAULT'') else d)
      in if d = [] then ''allow'' else d)"

definition callers_Enabled :: "(string \<Rightarrow> string) \<Rightarrow> callers_config \<Rightarrow> bool" where
  "callers_Enabled env c \<longleftrightarrow> ca_Rules c \<noteq> [] \<or> DefaultPolicy env c \<noteq> ''allow''"

datatype callers_error = BadDefault string | RuleIncomplete nat | RuleEmptyMethod nat

fun validate_rules :: "nat \<Rightarrow> caller_rule list \<Rightarrow> callers_error option" where
  "validate_rules i [] = None"
| "validate_rules i (r # rs) =
     (if Methods r = [] \<or> Allow r = [] then Some (RuleIncomplete i)
      else if list_ex (\<lambda>m. trim_space m = []) (Methods r) then Some (RuleEmptyMethod i)
      else validate_rules (Suc i) rs)"

definition callers_Validate :: "(string \<Rightarrow> string) \<Rightarrow> callers_config \<Rightarrow> callers_error option" where
  "callers_Validate env c =
     (if DefaultPolicy env c \<notin> {''allow'', ''log'', ''deny''} then Some (BadDefault (DefaultPolicy env c))
      else validate_rules 0 (ca_Rules c))"

definition Covers :: "callers_config \<Rightarrow> string \<Rightarrow> bool" where
  "Covers c meth \<longleftrightarrow> list_ex (\<lambda>r. list_ex (\<lambda>m. m = meth \<or> m = ''*'') (Methods r)) (ca_Rules c)"

text \<open>The map from a method to the callers it admits; \<open>None\<close>: in no rule.\<close>

definition allowed :: "caller_rule list \<Rightarrow> string \<Rightarrow> string list option" where
  "allowed rs m = (let l = filter (\<lambda>r. m \<in> set (Methods r)) rs in if l = [] then None else Some (concat (map Allow l)))"

definition admits :: "string list option \<Rightarrow> string \<Rightarrow> bool" where
  "admits s x \<longleftrightarrow> (case s of None \<Rightarrow> False | Some l \<Rightarrow> x \<in> set l)"

definition caller_name :: "rpc \<Rightarrow> string" where
  "caller_name c = (if r_verified c \<noteq> [] then r_verified c else r_from c)"

definition Callers :: "(string \<Rightarrow> string) \<Rightarrow> string \<Rightarrow> callers_config \<Rightarrow> rpc \<Rightarrow> rpc_verdict" where
  "Callers env self cfg c =
     (let policy = DefaultPolicy env cfg; rs = ca_Rules cfg; from = caller_name c;
          here = allowed rs (r_method c); all = allowed rs ''*''
      in if list_all (\<lambda>r. Methods r = []) rs \<and> policy = ''allow'' then Next c
         else if self \<noteq> [] \<and> from = self then Next c
         else if here \<noteq> None \<or> all \<noteq> None then
           (if admits here from \<or> admits here ''*'' \<or> (from \<noteq> [] \<and> (admits all from \<or> admits all ''*'')) then Next c
            else Refuse CodeForbidden)
         else if policy = ''deny'' then Refuse CodeForbidden
         else Next c)"

section \<open>The login a call claims\<close>

record identity_config =
  i_Mode :: string
  i_PublicKeys :: "string list"
  i_Issuer :: string
  i_RequireLogin :: string
  i_Gateways :: "(string \<times> string) list"
  i_Anonymous :: "string list"

definition i_mode :: "(string \<Rightarrow> string) \<Rightarrow> identity_config \<Rightarrow> string" where
  "i_mode env c = modeOf env (i_Mode c) ''IDENTITY_CHECK''"

definition requireLogin :: "(string \<Rightarrow> string) \<Rightarrow> identity_config \<Rightarrow> string" where
  "requireLogin env c = modeOf env (i_RequireLogin c) ''IDENTITY_REQUIRE_LOGIN''"

definition i_publicKeys :: "(string \<Rightarrow> string) \<Rightarrow> identity_config \<Rightarrow> string list" where
  "i_publicKeys env c =
     (if i_PublicKeys c \<noteq> [] then i_PublicKeys c
      else let v = trim_space (env ''AUTH_JWT_PUBLIC_KEY'') in if v \<noteq> [] then [v] else [])"

datatype identity_error =
    BadIdentityMode string | BadRequireLogin string | NeedsMode string | BadGateway string string | BadPair string
  | NoGateways | EmptyAnonymous | NoChecker auth_error

text \<open>The gateways and the realm each logs in; a later entry of a name replaces an earlier one.\<close>

fun add_gateways :: "(string \<times> string) list \<Rightarrow> (string \<times> string) list \<Rightarrow> identity_error + (string \<times> string) list" where
  "add_gateways [] out = Inr out"
| "add_gateways ((name, realm) # gs) out =
     (let n = trim_space name; r = trim_space realm
      in if n = [] \<or> \<not> Valid r then Inl (BadGateway n r) else add_gateways gs ((n, r) # out))"

fun env_pairs :: "string list \<Rightarrow> identity_error + (string \<times> string) list" where
  "env_pairs [] = Inr []"
| "env_pairs (p # ps) =
     (if trim_space p = [] then env_pairs ps
      else case cut p ''='' of
          None \<Rightarrow> Inl (BadPair p)
        | Some (name, realm) \<Rightarrow>
            (case add_gateways [(name, realm)] [] of
               Inl e \<Rightarrow> Inl e
             | Inr g \<Rightarrow> map_sum id (\<lambda>l. l @ g) (env_pairs ps)))"

definition gateways :: "(string \<Rightarrow> string) \<Rightarrow> identity_config \<Rightarrow> identity_error + (string \<times> string) list" where
  "gateways env c =
     (if i_Gateways c \<noteq> [] then add_gateways (i_Gateways c) []
      else env_pairs (split_on CHR '','' (env ''IDENTITY_GATEWAYS'')))"

text \<open>What the middleware keeps: the gateways, the anonymous methods, the keys and the issuer.\<close>

record checker =
  ck_gateways :: "(string \<times> string) list"
  ck_anonymous :: "string list"
  ck_keys :: auth_keys
  ck_issuer :: string

definition IdentityCheck ::
  "(string \<Rightarrow> string) \<Rightarrow> (auth_config \<Rightarrow> auth_error + auth_keys) \<Rightarrow> identity_config \<Rightarrow> identity_error + checker option" where
  "IdentityCheck env load c =
     (let mode = i_mode env c; rl = requireLogin env c;
          gws = (if rl = ''off'' then Inr [] else
             if mode = ''off'' \<or> (rl = ''enforce'' \<and> mode \<noteq> ''enforce'') then Inl (NeedsMode rl)
             else case gateways env c of
                 Inl e \<Rightarrow> Inl e
               | Inr g \<Rightarrow> if g = [] then Inl NoGateways else Inr g)
      in if \<not> validMode mode then Inl (BadIdentityMode mode)
         else if \<not> validMode rl then Inl (BadRequireLogin rl)
         else if mode = ''off'' \<and> rl = ''off'' then Inr None
         else case gws of
             Inl e \<Rightarrow> Inl e
           | Inr g \<Rightarrow>
               if list_ex (\<lambda>m. trim_space m = []) (i_Anonymous c) then Inl EmptyAnonymous
               else (case NewTokenChecker load (i_publicKeys env c) (i_Issuer c) of
                   Inl e \<Rightarrow> Inl (NoChecker e)
                 | Inr (k, iss) \<Rightarrow>
                     Inr (Some \<lparr>ck_gateways = g, ck_anonymous = map trim_space (i_Anonymous c), ck_keys = k, ck_issuer = iss\<rparr>)))"

datatype login_result = LoginOk | LoginNoToken | LoginBadToken | LoginMismatch | LoginRealmMismatch

definition login_result_of ::
  "('s, string) auth_env \<Rightarrow> checker \<Rightarrow> int \<Rightarrow> string \<Rightarrow> rpc \<Rightarrow> login_result" where
  "login_result_of e ck now claimed c =
     (if r_UTOKEN c = [] then LoginNoToken
      else case Check e (ck_keys ck) (ck_issuer ck) now (r_UTOKEN c) of
          Inl x \<Rightarrow> LoginBadToken
        | Inr who \<Rightarrow>
            if show_int (id_uid who) \<noteq> claimed \<or> id_realm who \<noteq> r_REALM c \<or> id_sid who \<noteq> r_SID c then LoginMismatch
            else if (case map_of (ck_gateways ck) (caller_name c) of None \<Rightarrow> False | Some r \<Rightarrow> r_REALM c \<noteq> r)
            then LoginRealmMismatch else LoginOk)"

definition identity_call ::
  "('s, string) auth_env \<Rightarrow> checker \<Rightarrow> string \<Rightarrow> string \<Rightarrow> int \<Rightarrow> rpc \<Rightarrow> rpc_verdict" where
  "identity_call e ck mode rl now c =
     (case r_UID c of
        None \<Rightarrow>
          if map_of (ck_gateways ck) (caller_name c) = None \<or> r_method c \<in> set (ck_anonymous ck) \<or> ''*'' \<in> set (ck_anonymous ck)
          then Next c else if rl = ''enforce'' then Refuse CodeUnauthenticated else Next c
      | Some claimed \<Rightarrow>
          if claimed = [] then
            (if map_of (ck_gateways ck) (caller_name c) = None \<or> r_method c \<in> set (ck_anonymous ck) \<or> ''*'' \<in> set (ck_anonymous ck)
             then Next c else if rl = ''enforce'' then Refuse CodeUnauthenticated else Next c)
          else (case login_result_of e ck now claimed c of
              LoginOk \<Rightarrow> Next c
            | LoginRealmMismatch \<Rightarrow> if rl = ''enforce'' then Refuse CodeUnauthenticated else Next c
            | _ \<Rightarrow> if mode = ''enforce'' then Refuse CodeUnauthenticated else Next c))"

section \<open>The chain of a server\<close>

text \<open>
  The three in the order of \<^verbatim>\<open>NewServer\<close> (\<^verbatim>\<open>kitexx/kitexx.go\<close>): \<open>ck\<close> is
  \<open>None\<close> when the login check is off.
\<close>

definition rpc_chain ::
  "svc_jwt \<Rightarrow> ('s, string) auth_env \<Rightarrow> (string \<Rightarrow> string) \<Rightarrow> string \<Rightarrow> svc_config \<Rightarrow> callers_config \<Rightarrow> identity_config \<Rightarrow>
   checker option \<Rightarrow> int \<Rightarrow> jwk list option \<Rightarrow> rpc \<Rightarrow> jwks \<Rightarrow> rpc_verdict \<times> jwks" where
  "rpc_chain J e env self scfg ccfg icfg ck now doc c j =
     (case svc_identity J env scfg now doc c j of
        (Refuse n, j') \<Rightarrow> (Refuse n, j')
      | (Next c1, j') \<Rightarrow>
          ((case Callers env self ccfg c1 of
              Refuse n \<Rightarrow> Refuse n
            | Next c2 \<Rightarrow>
                (case ck of None \<Rightarrow> Next c2
                 | Some k \<Rightarrow> identity_call e k (i_mode env icfg) (requireLogin env icfg) now c2)), j'))"

section \<open>Lemmas\<close>

lemma Callers_Next: "Callers env self cfg c = Next c' \<Longrightarrow> c' = c"
  by (auto simp: Callers_def Let_def split: if_splits)

lemma identity_call_Next: "identity_call e ck mode rl now c = Next c' \<Longrightarrow> c' = c"
  by (auto simp: identity_call_def split: option.splits if_splits login_result.splits)

text \<open>What a call that passes the service check in force carries.\<close>

lemma svc_identity_enforced:
  assumes "svc_mode env cfg = ''enforce''" and "svc_identity J env cfg now doc c j = (Next c', j')"
  shows "c' = c\<lparr>r_verified := r_from c\<rparr> \<and>
    (\<exists>kid k sub ns. header_kid J (r_svctoken c) = Some kid \<and> jwks_key now doc kid j = (Some k, j') \<and>
      subject_of J k (svc_issuer cfg) (svc_audience cfg) now (r_svctoken c) = Some sub \<and>
      service_account sub = Some (ns, r_from c) \<and>
      (case svc_namespaces env cfg of None \<Rightarrow> True | Some l \<Rightarrow> ns \<in> set l))"
proof -
  obtain r n j1 where r: "svc_result_of J env cfg now doc c j = (r, n, j1)" by (cases "svc_result_of J env cfg now doc c j")
  with assms have ok: "r = SvcOk" "c' = c\<lparr>r_verified := n\<rparr>" "j' = j1"
    by (auto simp: svc_identity_def split: svc_result.splits)
  from r ok(1) obtain ns where chk: "svc_check J cfg now doc (r_svctoken c) j = (Some (ns, n), j1)"
    and n: "n = r_from c" and ns: "case svc_namespaces env cfg of None \<Rightarrow> True | Some l \<Rightarrow> ns \<in> set l"
    by (auto simp: svc_result_of_def split: if_splits prod.splits option.splits)
  from chk show ?thesis using ok(2,3) n ns
    by (auto simp: svc_check_def split: option.splits prod.splits)
qed

text \<open>What a call that passes the login check in force claims.\<close>

lemma identity_call_enforced:
  assumes "identity_call e ck ''enforce'' ''enforce'' now c = Next c'"
  shows "(if r_UID c = None \<or> r_UID c = Some []
     then map_of (ck_gateways ck) (caller_name c) = None \<or> r_method c \<in> set (ck_anonymous ck) \<or> ''*'' \<in> set (ck_anonymous ck)
     else \<exists>who. Check e (ck_keys ck) (ck_issuer ck) now (r_UTOKEN c) = Inr who \<and> r_UID c = Some (show_int (id_uid who)) \<and>
       r_REALM c = id_realm who \<and> r_SID c = id_sid who \<and>
       (\<forall>r. map_of (ck_gateways ck) (caller_name c) = Some r \<longrightarrow> r_REALM c = r))"
proof (cases "r_UID c = None \<or> r_UID c = Some []")
  case True
  with assms show ?thesis by (auto simp: identity_call_def split: if_splits)
next
  case False
  then obtain cl where cl: "r_UID c = Some cl" "cl \<noteq> []" by auto
  with assms have "login_result_of e ck now cl c = LoginOk"
    by (auto simp: identity_call_def split: login_result.splits)
  with cl show ?thesis
    by (auto simp: login_result_of_def split: if_splits sum.splits option.splits)
qed

lemma Check_uid:
  assumes "Check e k iss now tok = Inr who"
  shows "0 < id_uid who \<and> id_uid who < 2 ^ 63"
proof -
  from assms obtain c where "identity_of c = Inr who" by (auto simp: Check_def split: sum.splits)
  then show ?thesis
    by (auto simp: identity_of_def parse_int64_def split: option.splits if_splits)
qed

lemma UID_claim:
  assumes "0 < u" and "u < 2 ^ 63" and "r_UID c = Some (show_int u)"
  shows "UID c = Some u"
  using assms by (simp add: UID_def)

text \<open>
  A member's login only acts on the member: once a call with a claim has passed the login
  check in force, \<open>CheckMemberUID\<close> accepts exactly the uid the token is for.
\<close>

lemma member_acts_on_itself:
  assumes "identity_call e ck ''enforce'' ''enforce'' now c = Next c'"
    and "r_UID c = Some v" and "v \<noteq> []" and "r_REALM c = ''member''"
  shows "\<exists>who. Check e (ck_keys ck) (ck_issuer ck) now (r_UTOKEN c) = Inr who \<and> id_realm who = ''member'' \<and>
    (CheckMemberUID c uid = None \<longleftrightarrow> uid = id_uid who)"
proof -
  from identity_call_enforced [OF assms(1)] assms(2,3,4) obtain who where
    w: "Check e (ck_keys ck) (ck_issuer ck) now (r_UTOKEN c) = Inr who" "r_UID c = Some (show_int (id_uid who))"
      "id_realm who = ''member''" by auto
  from UID_claim [of "id_uid who" c] Check_uid [OF w(1)] w(2) have "UID c = Some (id_uid who)" by simp
  with w assms(4) show ?thesis by (auto simp: CheckMemberUID_def)
qed

text \<open>
  Unless the service check is in force, the name of the gateway is the caller's own word: a
  caller without a token that calls itself anything but a gateway claims no login and passes.
\<close>

lemma unproven_name_skips_login:
  assumes "svc_mode env cfg = ''log''" and "r_svctoken c = []" and "r_verified c = []"
    and "map_of (ck_gateways ck) (r_from c) = None" and "r_UID c = None"
  shows "\<exists>c1. svc_identity J env cfg now doc c j = (Next c1, j) \<and> identity_call e ck ''enforce'' ''enforce'' now c1 = Next c1"
  using assms by (simp add: svc_identity_def svc_result_of_def identity_call_def caller_name_def)

text \<open>A caller without a name passes a method whose rule allows anybody, and no other guarded one.\<close>

lemma unnamed_caller_admitted:
  assumes "allowed (ca_Rules cfg) (r_method c) = Some l" and "''*'' \<in> set l" and "caller_name c = []"
  shows "Callers env self cfg c = Next c"
  using assms by (auto simp: Callers_def Let_def admits_def)

lemma allowed_listed: "allowed rs m = Some l \<Longrightarrow> \<not> list_all (\<lambda>r. Methods r = []) rs"
  by (fastforce simp: allowed_def Let_def list_all_iff filter_empty_conv split: if_splits)

lemma unnamed_caller_refused:
  assumes "allowed (ca_Rules cfg) (r_method c) = Some l" and "''*'' \<notin> set l" and "[] \<notin> set l"
    and "caller_name c = []"
  shows "Callers env self cfg c = Refuse CodeForbidden"
proof -
  from allowed_listed [OF assms(1)] assms show ?thesis by (auto simp: Callers_def Let_def admits_def)
qed

text \<open>Who passes the rules.\<close>

lemma Callers_passes:
  assumes "Callers env self cfg c = Next c'" and "allowed (ca_Rules cfg) (r_method c) = Some l"
  shows "caller_name c = self \<or> (\<exists>r \<in> set (ca_Rules cfg).
     (r_method c \<in> set (Methods r) \<or> ''*'' \<in> set (Methods r)) \<and> (caller_name c \<in> set (Allow r) \<or> ''*'' \<in> set (Allow r)))"
proof -
  from allowed_listed [OF assms(2)] assms have "caller_name c = self \<or> admits (Some l) (caller_name c) \<or> admits (Some l) ''*'' \<or>
      admits (allowed (ca_Rules cfg) ''*'') (caller_name c) \<or> admits (allowed (ca_Rules cfg) ''*'') ''*''"
    by (auto simp: Callers_def Let_def split: if_splits)
  with assms(2) show ?thesis
    by (auto simp: admits_def allowed_def Let_def split: if_splits)
qed

section \<open>Reading the cluster's keys\<close>

text \<open>A run of lookups: when, what a request would answer, and the key id asked for.\<close>

fun lookups :: "(int \<times> jwk list option \<times> string) list \<Rightarrow> jwks \<Rightarrow> int list \<times> jwks" where
  "lookups [] j = ([], j)"
| "lookups ((now, doc, kid) # ls) j =
     (case lookups ls (snd (jwks_key now doc kid j)) of
        (ts, j') \<Rightarrow> ((if wants_fetch now kid j then [now] else []) @ ts, j'))"

lemma jwks_key_tried:
  "j_tried (snd (jwks_key now doc kid j)) = (if wants_fetch now kid j then Some now else j_tried j)"
  by (auto simp: jwks_key_def Let_def fetch_def split: option.splits)

text \<open>Requests are more than half a minute apart.\<close>

fun spaced :: "int \<Rightarrow> int list \<Rightarrow> bool" where
  "spaced d [] = True"
| "spaced d [t] = True"
| "spaced d (t # u # ts) = (u - t > d \<and> spaced d (u # ts))"

lemma lookups_spaced:
  shows "spaced 30000 (fst (lookups ls j)) \<and>
    (\<forall>t ts x. fst (lookups ls j) = t # ts \<longrightarrow> j_tried j = Some x \<longrightarrow> t - x > 30000)"
proof (induction ls arbitrary: j)
  case Nil
  then show ?case by simp
next
  case (Cons l ls)
  obtain now doc kid where l: "l = (now, doc, kid)" by (cases l)
  let ?j = "snd (jwks_key now doc kid j)"
  obtain ts j' where r: "lookups ls ?j = (ts, j')" by (cases "lookups ls ?j")
  from Cons have IH: "spaced 30000 ts \<and> (\<forall>t us x. ts = t # us \<longrightarrow> j_tried ?j = Some x \<longrightarrow> t - x > 30000)"
    using Cons.IH [of ?j] r by simp
  show ?case
  proof (cases "wants_fetch now kid j")
    case True
    then have "\<forall>x. j_tried j = Some x \<longrightarrow> now - x > 30000" by (auto simp: wants_fetch_def longer_than_def)
    moreover have "spaced 30000 (now # ts)" using IH True by (cases ts) (auto simp: jwks_key_tried)
    ultimately show ?thesis using True r by (simp add: l)
  next
    case False
    with IH r show ?thesis by (simp add: l jwks_key_tried)
  qed
qed

lemma spaced_length:
  "spaced d ts \<Longrightarrow> 0 \<le> d \<Longrightarrow> \<forall>t \<in> set ts. a \<le> t \<and> t \<le> b \<Longrightarrow> ts \<noteq> [] \<Longrightarrow>
     (int (length ts) - 1) * (d + 1) \<le> b - hd ts"
proof (induction d ts rule: spaced.induct)
  case (3 d t u ts)
  then have "(int (length (u # ts)) - 1) * (d + 1) \<le> b - u" and "u - t \<ge> d + 1" by simp_all
  then show ?case by (simp add: algebra_simps)
qed simp_all

lemma lookups_times: "set (fst (lookups ls j)) \<subseteq> fst ` set ls"
  by (induction ls j rule: lookups.induct) (force simp: case_prod_beta)+

section \<open>An instance\<close>

text \<open>
  Tokens that are their own contents: a service token is its subject, the access token
  \<^verbatim>\<open>T7\<close> is a login of member 7.
\<close>

definition demo_jwt_svc :: svc_jwt where
  "demo_jwt_svc = \<lparr>header_kid = (\<lambda>t. Some ''k''), subject_of = (\<lambda>k iss aud now t. Some t)\<rparr>"

definition demo_string_env :: "(rstate, string) auth_env" where
  "demo_string_env = \<lparr>e_exec = live_exec, hashToken = (\<lambda>t. t), marshal_rec = demo_marshal, unmarshal_rec = demo_unmarshal,
     jwt_sign = (\<lambda>alg kid k c. None),
     jwt_parse = (\<lambda>ms kf iss leeway now t. if t = ''T7'' then Some \<lparr>c_iss = iss, c_sub = ''7'', c_jti = ''J'',
       c_exp = Some 900, c_realm = ''member'', c_sid = ''S''\<rparr> else None)\<rparr>"

definition demo_svc_config :: svc_config where
  "demo_svc_config = \<lparr>s_Mode = ''enforce'', s_Dir = [], s_Audience = [], s_Issuer = [], s_JWKSURL = [], s_Namespaces = [''prod'']\<rparr>"

definition demo_callers :: callers_config where
  "demo_callers = \<lparr>ca_Default = ''deny'', ca_Rules = [\<lparr>Methods = [''Debit''], Allow = [''ser-api'']\<rparr>]\<rparr>"

definition demo_identity :: identity_config where
  "demo_identity = \<lparr>i_Mode = ''enforce'', i_PublicKeys = [], i_Issuer = [], i_RequireLogin = ''enforce'',
     i_Gateways = [(''ser-api'', ''member'')], i_Anonymous = []\<rparr>"

definition demo_checker :: checker where
  "demo_checker = \<lparr>ck_gateways = [(''ser-api'', ''member'')], ck_anonymous = [], ck_keys = demo_keys, ck_issuer = ''sportsbook''\<rparr>"

definition demo_call :: "string \<Rightarrow> rpc" where
  "demo_call uid = \<lparr>r_method = ''Debit'', r_from = ''ser-api'', r_svctoken = ''system:serviceaccount:prod:ser-api'',
     r_verified = [], r_UID = Some uid, r_REALM = ''member'', r_SID = ''S'', r_UTOKEN = ''T7''\<rparr>"

definition demo_jwks :: jwks where
  "demo_jwks = \<lparr>j_keys = [(''k'', Rsa ''n'' ''e'')], j_fetched = Some 0, j_tried = None\<rparr>"

section \<open>Properties\<close>

text \<open>
  C4. A handler runs for a proven caller and a proven login only. With the service check, the
  login check and the need of a login in force, a call that passes the chain of a server
  carries a token of the cluster, checked with one of its published keys, for a service
  account of an allowed namespace whose name is the caller's; that caller is the service
  itself or one its rules admit for the method, where the method has rules; and either the
  call claims no login, and then does not come from a gateway or asks for an anonymous
  method, or its access token verifies and is for exactly the user, realm and session
  claimed, of the realm the gateway logs in. What the handler reads as the user is the
  token's.
\<close>

theorem rpc_chain_authentic:
  assumes "svc_mode env scfg = ''enforce''" and "i_mode env icfg = ''enforce''" and "requireLogin env icfg = ''enforce''"
    and "rpc_chain J e env self scfg ccfg icfg (Some ck) now doc c j = (Next c', j')"
  shows "r_verified c' = r_from c \<and> r_method c' = r_method c \<and>
    (\<exists>kid k sub ns. key_of (j_keys j') kid = Some k \<and>
      subject_of J k (svc_issuer scfg) (svc_audience scfg) now (r_svctoken c) = Some sub \<and>
      service_account sub = Some (ns, r_from c) \<and>
      (case svc_namespaces env scfg of None \<Rightarrow> True | Some l \<Rightarrow> ns \<in> set l)) \<and>
    (allowed (ca_Rules ccfg) (r_method c) \<noteq> None \<longrightarrow> caller_name c' = self \<or>
      (\<exists>r \<in> set (ca_Rules ccfg). (r_method c \<in> set (Methods r) \<or> ''*'' \<in> set (Methods r)) \<and>
        (caller_name c' \<in> set (Allow r) \<or> ''*'' \<in> set (Allow r)))) \<and>
    (if r_UID c = None \<or> r_UID c = Some []
     then map_of (ck_gateways ck) (caller_name c') = None \<or> r_method c \<in> set (ck_anonymous ck) \<or> ''*'' \<in> set (ck_anonymous ck)
     else \<exists>who. Check e (ck_keys ck) (ck_issuer ck) now (r_UTOKEN c) = Inr who \<and> UID c' = Some (id_uid who) \<and>
       r_REALM c' = id_realm who \<and> r_SID c' = id_sid who \<and>
       (\<forall>r. map_of (ck_gateways ck) (caller_name c') = Some r \<longrightarrow> id_realm who = r))"
proof -
  obtain c1 c2 where s: "svc_identity J env scfg now doc c j = (Next c1, j')"
    and cl': "Callers env self ccfg c1 = Next c2" and i': "identity_call e ck ''enforce'' ''enforce'' now c2 = Next c'"
    using assms(2-4) by (auto simp: rpc_chain_def split: prod.splits rpc_verdict.splits)
  have c2: "c2 = c1" using Callers_Next [OF cl'] .
  note cl = cl' [unfolded c2] and i = i' [unfolded c2]
  have c': "c' = c1" using identity_call_Next [OF i] .
  note sv = svc_identity_enforced [OF assms(1) s]
  then have c1: "c1 = c\<lparr>r_verified := r_from c\<rparr>" ..
  have key: "\<exists>kid k sub ns. key_of (j_keys j') kid = Some k \<and>
      subject_of J k (svc_issuer scfg) (svc_audience scfg) now (r_svctoken c) = Some sub \<and>
      service_account sub = Some (ns, r_from c) \<and>
      (case svc_namespaces env scfg of None \<Rightarrow> True | Some l \<Rightarrow> ns \<in> set l)"
    using sv by (auto simp: jwks_key_def Let_def)
  have rules: "allowed (ca_Rules ccfg) (r_method c) \<noteq> None \<longrightarrow> caller_name c1 = self \<or>
      (\<exists>r \<in> set (ca_Rules ccfg). (r_method c \<in> set (Methods r) \<or> ''*'' \<in> set (Methods r)) \<and>
        (caller_name c1 \<in> set (Allow r) \<or> ''*'' \<in> set (Allow r)))"
    using Callers_passes [OF cl] by (auto simp: c1)
  note lg = identity_call_enforced [OF i]
  show ?thesis
  proof (cases "r_UID c = None \<or> r_UID c = Some []")
    case True
    with lg key rules show ?thesis by (simp add: c' c1)
  next
    case False
    with lg obtain who where w: "Check e (ck_keys ck) (ck_issuer ck) now (r_UTOKEN c) = Inr who"
      "r_UID c1 = Some (show_int (id_uid who))" "r_REALM c1 = id_realm who" "r_SID c1 = id_sid who"
      "\<forall>r. map_of (ck_gateways ck) (caller_name c1) = Some r \<longrightarrow> id_realm who = r"
      by (auto simp: c1)
    from Check_uid [OF w(1)] w(2) have "UID c1 = Some (id_uid who)" by (simp add: UID_claim)
    with False w key rules show ?thesis by (auto simp: c' c1)
  qed
qed

theorem rpc_chain_authentic_witness:
  "\<exists>who. Check demo_string_env demo_keys ''sportsbook'' 5 ''T7'' = Inr who \<and>
     UID (demo_call ''7'' \<lparr>r_verified := ''ser-api''\<rparr>) = Some (id_uid who)"
proof -
  have u: "\<not> (r_UID (demo_call ''7'') = None \<or> r_UID (demo_call ''7'') = Some [])" by (simp add: demo_call_def)
  have f: "ck_keys demo_checker = demo_keys" "ck_issuer demo_checker = ''sportsbook''" "r_UTOKEN (demo_call ''7'') = ''T7''"
    by (simp_all add: demo_checker_def demo_call_def)
  have m: "svc_mode (\<lambda>_. []) demo_svc_config = ''enforce''" "i_mode (\<lambda>_. []) demo_identity = ''enforce''"
    "requireLogin (\<lambda>_. []) demo_identity = ''enforce''" by code_simp+
  have "rpc_chain demo_jwt_svc demo_string_env (\<lambda>_. []) ''ser-wallet'' demo_svc_config demo_callers demo_identity
      (Some demo_checker) 5 None (demo_call ''7'') demo_jwks
    = (Next (demo_call ''7'' \<lparr>r_verified := ''ser-api''\<rparr>), demo_jwks)" by code_simp
  from rpc_chain_authentic [OF m this, unfolded if_not_P [OF u] f] show ?thesis by blast
qed

text \<open>
  Whatever tokens arrive, the cluster is not flooded. In any run of key lookups between
  two times, with any key ids, answers and failures, the number of requests for the
  cluster's keys is at most one more than the span divided by half a minute.
\<close>

lemma jwks_requests_bounded:
  assumes "\<forall>l \<in> set ls. a \<le> fst l \<and> fst l \<le> b"
  shows "fst (lookups ls j) \<noteq> [] \<longrightarrow> (int (length (fst (lookups ls j))) - 1) * 30001 \<le> b - a"
proof
  assume ne: "fst (lookups ls j) \<noteq> []"
  have "\<forall>t \<in> set (fst (lookups ls j)). a \<le> t \<and> t \<le> b"
    using assms lookups_times [of ls j] by force
  with spaced_length [of 30000 "fst (lookups ls j)" a b] lookups_spaced [of ls j] ne
  show "(int (length (fst (lookups ls j))) - 1) * 30001 \<le> b - a"
    by (cases "fst (lookups ls j)") force+
qed

theorem jwks_requests_bounded_witness:
  "(int (length (fst (lookups [(0, None, ''x''), (1000, None, ''y''), (31000, None, ''x''), (40000, None, ''z'')] demo_jwks))) - 1)
     * 30001 \<le> 40000 - 0"
proof -
  have "fst (lookups [(0, None, ''x''), (1000, None, ''y''), (31000, None, ''x''), (40000, None, ''z'')] demo_jwks) = [0, 31000]"
    by code_simp
  with jwks_requests_bounded [of "[(0, None, ''x''), (1000, None, ''y''), (31000, None, ''x''), (40000, None, ''z'')]" 0 40000 demo_jwks]
  show ?thesis by simp
qed

end
