(* ===== verification/Perm.thy ===== *)
theory Perm
  imports Identity "HOL-Library.Product_Lexorder"
begin

text \<open>
  The login and permission checks of a gateway (\<^verbatim>\<open>hertzx/auth.go\<close>,
  \<^verbatim>\<open>hertzx/perm.go\<close>): which operations need a login, the permission points of a
  login and their cache. The parsed OpenAPI document is an argument, as is the loader, an RPC
  to the account service. The cache shared by concurrent requests, role changes and
  invalidations is a step relation (\<open>pstep\<close>).
\<close>

section \<open>Numbers in keys\<close>

text \<open>
  \<^verbatim>\<open>itoa\<close> on an int64. The loop runs while the number is positive, where signed and
  unsigned division agree.
\<close>

function itoa_loop :: "64 word \<Rightarrow> string \<Rightarrow> string" where
  "itoa_loop n acc = (if 0 < sint n then itoa_loop (n div 10) (digit_char (unat (n mod 10)) # acc) else acc)"
  by pat_completeness auto

termination
proof (relation "measure (\<lambda>(n, acc). unat n)")
  fix n :: "64 word" and acc :: string
  assume "0 < sint n"
  then have "n \<noteq> 0" by auto
  then have "0 < unat n" by (simp add: unat_gt_0)
  then show "((n div 10, digit_char (unat (n mod 10)) # acc), n, acc) \<in> measure (\<lambda>(n, acc). unat n)"
    by (simp add: unat_div)
qed simp

declare itoa_loop.simps [simp del]

definition itoa :: "64 word \<Rightarrow> string" where
  "itoa n = (if n = 0 then ''0''
     else let neg = sint n < 0; s = itoa_loop (if neg then - n else n) [] in if neg then CHR ''-'' # s else s)"

section \<open>Lemmas on signed numbers\<close>

lemma sint64: "sint (w :: 64 word) = (if uint w < 2 ^ 63 then uint w else uint w - 2 ^ 64)"
proof (cases "uint w < 2 ^ 63")
  case True
  have "signed_take_bit 63 (uint w) = uint w"
    by (rule signed_take_bit_int_eq_self) (use True uint_ge_0 [of w] in linarith)+
  with True show ?thesis by (simp add: sint_uint)
next
  case False
  have "uint w < 2 ^ 64" using uint_lt2p [of w] by simp
  then have "take_bit 64 (uint w + 2 ^ 63) = uint w + 2 ^ 63 - 2 ^ 64"
    using False unfolding take_bit_eq_mod by (intro int_mod_pos_eq [where q = 1]) simp_all
  with False show ?thesis by (simp add: sint_uint signed_take_bit_eq_take_bit_shift)
qed

lemma uint64_neg: "w \<noteq> 0 \<Longrightarrow> uint (- w :: 64 word) = 2 ^ 64 - uint w"
proof -
  assume "w \<noteq> 0"
  then have "0 < uint w" using uint_ge_0 [of w] by (metis order_le_less uint_0_iff)
  moreover have "uint w < 2 ^ 64" using uint_lt2p [of w] by simp
  ultimately have "- uint w mod 2 ^ 64 = 2 ^ 64 - uint w" by (intro int_mod_pos_eq [where q = "- 1"]) simp_all
  then show ?thesis by (simp add: uint_word_ariths(4))
qed

lemma sint64_pos: "0 < sint (n :: 64 word) \<Longrightarrow> uint n < 2 ^ 63 \<and> 0 < uint n"
  using uint_lt2p [of n] by (auto simp: sint64 split: if_splits)

lemma sint64_div: "uint (n :: 64 word) < 2 ^ 63 \<Longrightarrow> sint (n div 10) = uint n div 10"
proof -
  assume "uint n < 2 ^ 63"
  moreover have "uint n div 10 \<le> uint n" using zdiv_mono2 [of "uint n" 1 10] by simp
  ultimately have "uint n div 10 < 2 ^ 63" by (rule order_le_less_trans [rotated])
  then show ?thesis by (simp add: sint64 uint_div)
qed

lemma itoa_loop_show: "0 < sint n \<Longrightarrow> itoa_loop n acc = show_nat (nat (uint n)) @ acc"
proof (induction n acc rule: itoa_loop.induct)
  case (1 n acc)
  have lt: "uint n < 2 ^ 63" and pos: "0 < uint n"
    using "1.prems" sint64_pos by blast+
  have q: "uint (n div 10) = uint n div 10" by (simp add: uint_div)
  have r: "unat (n mod 10) = nat (uint n) mod 10"
    unfolding unat_eq_nat_uint uint_mod using nat_mod_distrib [of "uint n" 10] by simp
  have d: "sint (n div 10) = uint n div 10"
    by (rule sint64_div [OF lt])
  have nd: "nat (uint n div 10) = nat (uint n) div 10" by (simp add: nat_div_distrib)
  have step: "itoa_loop n acc = itoa_loop (n div 10) (digit_char (nat (uint n) mod 10) # acc)"
    using "1.prems" unfolding r [symmetric] by (subst itoa_loop.simps) (simp only: if_True)
  show ?case
  proof (cases "uint n < 10")
    case True
    have "\<not> 0 < sint (n div 10)" unfolding d using True pos by simp
    then have e: "itoa_loop (n div 10) x = x" for x by (subst itoa_loop.simps) (simp only: if_False)
    have m: "nat (uint n) < 10" using True by arith
    then have "show_nat (nat (uint n)) = [digit_char (nat (uint n))]" by (subst show_nat.simps) (simp only: if_True)
    with m show ?thesis unfolding step e by simp
  next
    case False
    have g: "0 < sint (n div 10)" unfolding d using False by simp
    have m: "\<not> nat (uint n) < 10" using False by arith
    have s: "show_nat (nat (uint n)) = show_nat (nat (uint n) div 10) @ [digit_char (nat (uint n) mod 10)]"
      using m by (subst show_nat.simps) (simp only: if_False)
    show ?thesis using "1.IH" [OF "1.prems" g] unfolding step s r q nd by simp
  qed
qed

lemma itoa_loop_stop: "sint n \<le> 0 \<Longrightarrow> itoa_loop n acc = acc"
  by (subst itoa_loop.simps) simp

lemma itoa_text:
  "itoa n = (if sint n = - (2 ^ 63) then ''-'' else show_int (sint n))"
proof -
  have ub: "uint n < 2 ^ 64" using uint_lt2p [of n] by simp
  have lb: "0 \<le> uint n" by simp
  consider "n = 0" | "0 < sint n" | "n \<noteq> 0" "sint n < 0" "sint n \<noteq> - (2 ^ 63)" | "sint n = - (2 ^ 63)"
    using signed_eq_0_iff [of n] by fastforce
  then show ?thesis
  proof cases
    case 1
    have "show_nat 0 = ''0''" by code_simp
    with 1 show ?thesis by (simp add: itoa_def show_int_def)
  next
    case 2
    moreover have "n \<noteq> 0" using 2 by auto
    moreover have "sint n = uint n" using 2 ub by (auto simp: sint64 split: if_splits)
    ultimately show ?thesis by (simp add: itoa_def itoa_loop_show show_int_def)
  next
    case 3
    have big: "2 ^ 63 < uint n" using 3 ub lb by (auto simp: sint64 split: if_splits)
    then have m: "sint (- n) = 2 ^ 64 - uint n" using uint64_neg [OF 3(1)] ub by (simp add: sint64)
    have s: "sint n = uint n - 2 ^ 64" using big by (simp add: sint64)
    have "itoa_loop (- n) [] = show_nat (nat (2 ^ 64 - uint n))"
      using itoa_loop_show [of "- n" "[]"] m ub uint64_neg [OF 3(1)] by simp
    with 3 show ?thesis unfolding itoa_def show_int_def by (simp add: Let_def s)
  next
    case 4
    have "\<not> uint n < 2 ^ 63"
    proof
      assume "uint n < 2 ^ 63"
      then have "sint n = uint n" by (simp add: sint64)
      then have "0 \<le> sint n" by simp
      with 4 show False by simp
    qed
    then have u: "uint n = 2 ^ 63" using 4 by (simp add: sint64)
    then have n0: "n \<noteq> 0" by auto
    have "sint (- n) = - (2 ^ 63)" using uint64_neg [OF n0] u by (simp add: sint64)
    with 4 n0 show ?thesis by (simp add: itoa_def itoa_loop_stop Let_def)
  qed
qed

section \<open>The document\<close>

text \<open>
  An operation as the two readers of the document see it: its \<^verbatim>\<open>security\<close> (\<open>None\<close>: not
  there), summary, tags and \<^verbatim>\<open>x-permission\<close>.
\<close>

record operation =
  op_path :: string
  op_method :: string
  op_security :: "string list option"
  op_summary :: string
  op_tags :: "string list"
  op_permission :: string

record permission_point =
  pp_Name :: string
  pp_Summary :: string
  pp_Tag :: string
  pp_Method :: string
  pp_Path :: string

definition publicOperations :: "operation list \<Rightarrow> string list" where
  "publicOperations ops = map (\<lambda>p. to_upper (op_method p) @ '' '' @ op_path p) (filter (\<lambda>p. op_security p = Some []) ops)"

text \<open>By tag, then name, then path; ties in the order of the document.\<close>

definition PermissionPoints :: "operation list \<Rightarrow> permission_point list" where
  "PermissionPoints ops =
     sort_key (\<lambda>p. (pp_Tag p, pp_Name p, pp_Path p))
       (map (\<lambda>p. \<lparr>pp_Name = op_permission p, pp_Summary = op_summary p,
            pp_Tag = (case op_tags p of [] \<Rightarrow> [] | t # ts \<Rightarrow> t), pp_Method = to_upper (op_method p), pp_Path = op_path p\<rparr>)
         (filter (\<lambda>p. op_permission p \<noteq> []) ops))"

section \<open>Requests\<close>

record web =
  w_method :: string
  w_path :: string
  w_authorization :: string
  w_ctx :: rpc

datatype perm_answer = Abort int int string | Serve web   \<comment> \<open>status, code, reason\<close>

definition RequireLogin ::
  "('s, string) auth_env \<Rightarrow> auth_config \<Rightarrow> auth_keys \<Rightarrow> operation list \<Rightarrow> string list \<Rightarrow> int \<Rightarrow> web \<Rightarrow> 's \<Rightarrow> perm_answer \<times> 's" where
  "RequireLogin e cfg k ops publicPaths now q s =
     (let public = publicOperations ops @ publicPaths; token = BearerToken (w_authorization q)
      in if isFrameworkPath (w_path q) \<or> w_method q @ '' '' @ w_path q \<in> set public \<or> w_path q \<in> set public
         then (Serve q, s)
         else if token = [] then (Abort 401 1004 [], s)
         else case Verify e cfg k now token s of
             (Inl (Revoked r), s') \<Rightarrow> (Abort 401 1005 r, s')
           | (Inl x, s') \<Rightarrow> (Abort 401 1004 [], s')
           | (Inr who, s') \<Rightarrow> (Serve (q\<lparr>w_ctx := WithToken token (WithIdentity who (w_ctx q))\<rparr>), s'))"

section \<open>Permission points\<close>

text \<open>Exactly, by \<^verbatim>\<open>*\<close>, or by a \<^verbatim>\<open>prefix.*\<close>.\<close>

fun Allowed :: "string list \<Rightarrow> string \<Rightarrow> bool" where
  "Allowed [] required = False"
| "Allowed (p # ps) required =
     (if p = required \<or> p = ''*'' then True
      else if has_suffix p ''.*'' \<and> has_prefix required (trim_suffix p ''*'') then True
      else Allowed ps required)"

type_synonym entries = "string \<Rightarrow> (string list \<times> int) option"

definition perm_key :: "string \<Rightarrow> 64 word \<Rightarrow> string" where
  "perm_key realm uid = realm @ '':'' @ itoa uid"

text \<open>\<^verbatim>\<open>Points\<close> of one caller alone: from the cache, or loaded and kept.\<close>

definition Points ::
  "int \<Rightarrow> (string \<Rightarrow> 64 word \<Rightarrow> 'w \<Rightarrow> (string + string list) \<times> 'w) \<Rightarrow> string \<Rightarrow> 64 word \<Rightarrow> int \<Rightarrow>
   entries \<times> 'w \<Rightarrow> (string + string list) \<times> entries \<times> 'w" where
  "Points life load realm uid now st =
     (case st of (es, w) \<Rightarrow>
        case (case es (perm_key realm uid) of None \<Rightarrow> None | Some (pts, ex) \<Rightarrow> if now < ex then Some pts else None) of
          Some pts \<Rightarrow> (Inr pts, es, w)
        | None \<Rightarrow>
            (case load realm uid w of
               (Inl e, w') \<Rightarrow> (Inl e, es, w')
             | (Inr pts, w') \<Rightarrow> (Inr pts, es(perm_key realm uid \<mapsto> (pts, now + life)), w')))"

definition required_point :: "operation list \<Rightarrow> string \<Rightarrow> string \<Rightarrow> string option" where
  "required_point ops meth path =
     map_of (rev (map (\<lambda>p. (pp_Method p @ '' '' @ pp_Path p, pp_Name p)) (PermissionPoints ops))) (meth @ '' '' @ path)"

definition RequirePermission ::
  "operation list \<Rightarrow> int \<Rightarrow> (string \<Rightarrow> 64 word \<Rightarrow> 'w \<Rightarrow> (string + string list) \<times> 'w) \<Rightarrow> int \<Rightarrow> web \<Rightarrow>
   entries \<times> 'w \<Rightarrow> perm_answer \<times> entries \<times> 'w" where
  "RequirePermission ops life load now q st =
     (case required_point ops (w_method q) (w_path q) of
        None \<Rightarrow> (Serve q, st)
      | Some point \<Rightarrow>
          (case UID (w_ctx q) of
             None \<Rightarrow> (Abort 401 1004 [], st)
           | Some uid \<Rightarrow>
               (case Points life load (r_REALM (w_ctx q)) (word_of_int uid) now st of
                  (Inl e, st') \<Rightarrow> (Abort 503 5001 [], st')
                | (Inr pts, st') \<Rightarrow> if Allowed pts point then (Serve q, st') else (Abort 403 1007 point, st'))))"

definition Invalidate :: "string \<Rightarrow> 64 word \<Rightarrow> entries \<Rightarrow> entries" where
  "Invalidate realm uid es = es(perm_key realm uid := None)"

definition InvalidateAll :: "entries \<Rightarrow> entries" where
  "InvalidateAll es = Map.empty"

section \<open>The cache under concurrent requests\<close>

text \<open>
  Requests that missed the cache have asked the account service: \<open>p_loads\<close> holds what it
  answered each (\<open>id\<close>, key, points), not yet kept. \<open>p_roles\<close> is what the account service
  says a login may do.
\<close>

record pstate =
  p_entries :: entries
  p_loads :: "(nat \<times> string \<times> string list) list"
  p_roles :: "string \<Rightarrow> string list"
  p_now :: int

datatype pevent =
    PHit string "string list"   \<comment> \<open>a request answered from the cache\<close>
  | PLoad nat string            \<comment> \<open>the account service answers a request that missed\<close>
  | PKeep nat                   \<comment> \<open>the request keeps what it got\<close>
  | PRoles string "string list" \<comment> \<open>the roles of a login change\<close>
  | PInvalidate string
  | PInvalidateAll
  | PTime int

definition p_cached :: "pstate \<Rightarrow> string \<Rightarrow> string list option" where
  "p_cached st key = (case p_entries st key of None \<Rightarrow> None | Some (pts, ex) \<Rightarrow> if p_now st < ex then Some pts else None)"

inductive pstep :: "int \<Rightarrow> pstate \<Rightarrow> pevent \<Rightarrow> pstate \<Rightarrow> bool" for life where
  hit: "p_cached st key = Some pts \<Longrightarrow> pstep life st (PHit key pts) st"
| load: "p_cached st key = None \<Longrightarrow>
    pstep life st (PLoad i key) (st\<lparr>p_loads := (i, key, p_roles st key) # p_loads st\<rparr>)"
| keep: "p_loads st = xs @ (i, key, pts) # ys \<Longrightarrow>
    pstep life st (PKeep i) (st\<lparr>p_loads := xs @ ys, p_entries := (p_entries st)(key \<mapsto> (pts, p_now st + life))\<rparr>)"
| roles: "pstep life st (PRoles key pts) (st\<lparr>p_roles := (p_roles st)(key := pts)\<rparr>)"
| invalidate: "pstep life st (PInvalidate key) (st\<lparr>p_entries := (p_entries st)(key := None)\<rparr>)"
| invalidate_all: "pstep life st PInvalidateAll (st\<lparr>p_entries := InvalidateAll (p_entries st)\<rparr>)"
| time: "0 \<le> d \<Longrightarrow> pstep life st (PTime d) (st\<lparr>p_now := p_now st + d\<rparr>)"

inductive_cases pstep_hitE: "pstep life st (PHit key pts) st'"

inductive psteps :: "int \<Rightarrow> pstate \<Rightarrow> pevent list \<Rightarrow> pstate \<Rightarrow> bool" for life where
  none: "psteps life st [] st"
| more: "pstep life st e st1 \<Longrightarrow> psteps life st1 es st2 \<Longrightarrow> psteps life st (e # es) st2"

inductive_cases psteps_ConsE: "psteps life st (e # es) st2"
inductive_cases psteps_NilE: "psteps life st [] st2"

section \<open>Lemmas on permissions\<close>

lemma Allowed_iff:
  "Allowed held r \<longleftrightarrow> r \<in> set held \<or> ''*'' \<in> set held \<or> (\<exists>pre. pre @ ''.*'' \<in> set held \<and> has_prefix r (pre @ ''.''))"
proof (induction held)
  case Nil
  then show ?case by simp
next
  case (Cons p ps)
  have "has_suffix p ''.*'' \<and> has_prefix r (trim_suffix p ''*'') \<longleftrightarrow> (\<exists>pre. pre @ ''.*'' = p \<and> has_prefix r (pre @ ''.''))"
  proof
    assume a: "has_suffix p ''.*'' \<and> has_prefix r (trim_suffix p ''*'')"
    then obtain pre where p: "p = pre @ ''.*''" by (auto simp: has_suffix_iff)
    then have "trim_suffix p ''*'' = pre @ ''.''" using trim_suffix_append [of "pre @ ''.''" "''*''"] by simp
    with a p show "\<exists>pre. pre @ ''.*'' = p \<and> has_prefix r (pre @ ''.'')" by auto
  next
    assume "\<exists>pre. pre @ ''.*'' = p \<and> has_prefix r (pre @ ''.'')"
    then obtain pre where p: "p = pre @ ''.*''" and r: "has_prefix r (pre @ ''.'')" by auto
    then have "trim_suffix p ''*'' = pre @ ''.''" using trim_suffix_append [of "pre @ ''.''" "''*''"] by simp
    with p r show "has_suffix p ''.*'' \<and> has_prefix r (trim_suffix p ''*'')" by (auto simp: has_suffix_iff)
  qed
  with Cons.IH show ?case by auto
qed

text \<open>
  A request is guarded by the text of its path: an operation whose path has a parameter is in
  the document under its template, which no request has, and is served without a check.
\<close>

lemma path_parameter_unguarded:
  assumes "\<forall>p \<in> set (PermissionPoints ops). pp_Path p \<noteq> w_path q" and "CHR '' '' \<notin> set (w_method q)"
    and "\<forall>p \<in> set (PermissionPoints ops). CHR '' '' \<notin> set (pp_Method p)"
  shows "RequirePermission ops life load now q st = (Serve q, st)"
proof -
  have "m @ '' '' @ x = n @ '' '' @ y \<longleftrightarrow> m = n \<and> x = y"
    if "CHR '' '' \<notin> set m" "CHR '' '' \<notin> set n" for m n x y :: string
    using sep_split [OF that] by simp
  with assms have "w_method q @ '' '' @ w_path q \<notin> (\<lambda>p. pp_Method p @ '' '' @ pp_Path p) ` set (PermissionPoints ops)"
    by (metis (no_types, lifting) imageE)
  then have "required_point ops (w_method q) (w_path q) = None"
    unfolding required_point_def map_of_eq_None_iff by (simp add: image_image)
  then show ?thesis by (simp add: RequirePermission_def)
qed

text \<open>The keys of the document, which are distinct in a map of maps, and the point under one.\<close>

definition op_key :: "operation \<Rightarrow> string" where
  "op_key p = to_upper (op_method p) @ '' '' @ op_path p"

lemma required_point_op:
  assumes "distinct (map op_key ops)" and "p \<in> set ops" and "op_permission p \<noteq> []"
  shows "required_point ops (to_upper (op_method p)) (op_path p) = Some (op_permission p)"
proof -
  let ?pt = "\<lambda>p. \<lparr>pp_Name = op_permission p, pp_Summary = op_summary p,
    pp_Tag = (case op_tags p of [] \<Rightarrow> [] | t # ts \<Rightarrow> t), pp_Method = to_upper (op_method p), pp_Path = op_path p\<rparr>"
  let ?kv = "\<lambda>q. (pp_Method q @ '' '' @ pp_Path q, pp_Name q)" and ?guarded = "filter (\<lambda>p. op_permission p \<noteq> []) ops"
  have k: "(\<lambda>q. fst (?kv q)) \<circ> ?pt = op_key" by (rule ext) (simp add: op_key_def)
  have "distinct (map op_key ?guarded)" using assms(1) by (rule distinct_map_filter)
  then have "distinct (map (\<lambda>q. fst (?kv q)) (map ?pt ?guarded))" unfolding map_map k .
  then have "distinct (map (\<lambda>q. fst (?kv q)) (PermissionPoints ops))"
    unfolding PermissionPoints_def distinct_map [of "\<lambda>q. fst (?kv q)"] by simp
  then have "distinct (map fst (rev (map ?kv (PermissionPoints ops))))" by (simp add: rev_map [symmetric] comp_def)
  moreover have "?kv (?pt p) \<in> set (rev (map ?kv (PermissionPoints ops)))"
    using assms(2,3) unfolding PermissionPoints_def by (force simp: image_iff)
  ultimately show ?thesis unfolding required_point_def by (intro map_of_is_SomeI) auto
qed

lemma required_point_none:
  assumes "\<forall>p \<in> set ops. op_permission p \<noteq> [] \<longrightarrow> op_key p \<noteq> meth @ '' '' @ path"
  shows "required_point ops meth path = None"
proof -
  have "pp_Method q @ '' '' @ pp_Path q \<noteq> meth @ '' '' @ path" if "q \<in> set (PermissionPoints ops)" for q
    using that assms unfolding PermissionPoints_def by (auto simp: op_key_def)
  then show ?thesis unfolding required_point_def map_of_eq_None_iff by fastforce
qed

text \<open>A login's key names its realm and its uid.\<close>

lemma perm_key_uid: "0 < u \<Longrightarrow> u < 2 ^ 63 \<Longrightarrow> uint (word_of_int u :: 64 word) = u"
  by (simp add: uint_word_of_int)

text \<open>What a cached or loaded answer is.\<close>

lemma Points_ok:
  assumes "Points life load realm uid now (es, w) = (Inr pts, es', w')"
  shows "(\<exists>ex. es (perm_key realm uid) = Some (pts, ex) \<and> now < ex) \<or> load realm uid w = (Inr pts, w')"
  using assms by (auto simp: Points_def split: option.splits prod.splits sum.splits if_splits)

lemma RequireLogin_Serve:
  assumes "RequireLogin e cfg k ops publicPaths now q s = (Serve q', s')"
  shows "w_method q' = w_method q \<and> w_path q' = w_path q \<and>
    (w_ctx q' = w_ctx q \<or> (\<exists>who. Verify e cfg k now (BearerToken (w_authorization q)) s = (Inr who, s') \<and>
      r_UID (w_ctx q') = Some (show_int (id_uid who)) \<and> r_REALM (w_ctx q') = id_realm who))"
  using assms
  by (auto simp: RequireLogin_def Let_def WithToken_def WithIdentity_def split: if_splits prod.splits sum.splits auth_error.splits)

lemma Verify_uid:
  assumes "Verify e cfg k now tok s = (Inr who, s')"
  shows "0 < id_uid who \<and> id_uid who < 2 ^ 63"
proof -
  from assms obtain c where "identity_of c = Inr who"
    by (auto simp: Verify_def Let_def split: sum.splits prod.splits if_splits list.splits option.splits)
  then show ?thesis by (auto simp: identity_of_def parse_int64_def split: option.splits if_splits)
qed

section \<open>Lemmas on the cache\<close>

text \<open>Everything kept or under way for a key is what the account service says.\<close>

definition p_fresh :: "string \<Rightarrow> pstate \<Rightarrow> bool" where
  "p_fresh key st \<longleftrightarrow> (\<forall>pts ex. p_entries st key = Some (pts, ex) \<longrightarrow> pts = p_roles st key) \<and>
     (\<forall>i pts. (i, key, pts) \<in> set (p_loads st) \<longrightarrow> pts = p_roles st key)"

lemma p_fresh_step:
  assumes "pstep life st e st'" and "p_fresh key st" and "\<And>pts. e \<noteq> PRoles key pts"
  shows "p_fresh key st' \<and> p_roles st' key = p_roles st key"
  using assms by (induction rule: pstep.induct) (auto simp: p_fresh_def InvalidateAll_def)

lemma p_fresh_steps:
  assumes "psteps life st es st'" and "p_fresh key st" and "\<forall>e \<in> set es. \<forall>pts. e \<noteq> PRoles key pts"
  shows "p_fresh key st' \<and> p_roles st' key = p_roles st key"
  using assms
proof (induction rule: psteps.induct)
  case (none st)
  then show ?case by simp
next
  case (more st e st1 es st2)
  with p_fresh_step [of life st e st1 key] show ?case by auto
qed

section \<open>An instance\<close>

text \<open>One guarded operation, and a request of member 7.\<close>

definition demo_ops :: "operation list" where
  "demo_ops = [\<lparr>op_path = ''/ban'', op_method = ''post'', op_security = Some [''bearer''], op_summary = [], op_tags = [],
     op_permission = ''member.ban''\<rparr>]"

definition demo_web :: "rpc \<Rightarrow> web" where
  "demo_web c = \<lparr>w_method = ''POST'', w_path = ''/ban'', w_authorization = ''Bearer T7'', w_ctx = c\<rparr>"

definition no_ctx :: rpc where
  "no_ctx = \<lparr>r_method = [], r_from = [], r_svctoken = [], r_verified = [], r_UID = None, r_REALM = [], r_SID = [], r_UTOKEN = []\<rparr>"

definition member_ctx :: rpc where
  "member_ctx = WithToken ''T7'' (WithIdentity \<lparr>id_realm = ''member'', id_uid = 7, id_sid = ''S'', id_jti = ''J'', id_exp = 900\<rparr> no_ctx)"

definition alive_store :: rstate where
  "alive_store = set_key (keySessionAlive ''S'') ''7'' 0 empty_rstate"

section \<open>Properties\<close>

text \<open>
  The hand-written number text is the decimal one. For every int64 but the smallest,
  \<open>itoa\<close> ends and gives the decimal digits with the sign; the smallest, whose negation
  overflows, gives a lone minus sign.
\<close>

lemma itoa_show_int:
  "itoa n = (if sint n = - (2 ^ 63) then ''-'' else show_int (sint n))"
  by (rule itoa_text)

text \<open>
  C29. A guarded operation is served to those who may do it only, where its path is written
  out. When a request whose method and path are those of an operation with a permission
  point, letter by letter, is served, the access token of the request verified, the handler's
  user is the token's, and the login holds the point (itself, a prefix with a star, or the
  star), as the cache within its time or the account service says. A request that has the
  method and path of no such operation is not looked at: among them are those of an operation
  whose path has a parameter, which is in the document under its template.
\<close>

theorem gateway_guarded:
  assumes "RequireLogin e cfg k ops publicPaths now q s = (Serve q1, s')"
    and "RequirePermission ops life load now q1 (es, w) = (Serve q2, st')"
    and "UID (w_ctx q) = None" and keys: "distinct (map op_key ops)"
  shows "(\<forall>p \<in> set ops. op_permission p \<noteq> [] \<and> w_method q = to_upper (op_method p) \<and> w_path q = op_path p \<longrightarrow>
      (\<exists>who pts. Verify e cfg k now (BearerToken (w_authorization q)) s = (Inr who, s') \<and>
        UID (w_ctx q2) = Some (id_uid who) \<and> r_REALM (w_ctx q2) = id_realm who \<and>
        (op_permission p \<in> set pts \<or> ''*'' \<in> set pts \<or>
           (\<exists>pre. pre @ ''.*'' \<in> set pts \<and> has_prefix (op_permission p) (pre @ ''.''))) \<and>
        ((\<exists>ex. es (id_realm who @ '':'' @ show_int (id_uid who)) = Some (pts, ex) \<and> now < ex) \<or>
         (\<exists>w'. load (id_realm who) (word_of_int (id_uid who)) w = (Inr pts, w'))))) \<and>
    ((\<forall>p \<in> set ops. op_permission p \<noteq> [] \<longrightarrow> op_key p \<noteq> w_method q @ '' '' @ w_path q) \<longrightarrow> q2 = q1 \<and> st' = (es, w))"
proof (intro conjI ballI impI; (elim conjE)?)
  note l = RequireLogin_Serve [OF assms(1)]
  fix p assume p: "p \<in> set ops" "op_permission p \<noteq> []" "w_method q = to_upper (op_method p)" "w_path q = op_path p"
  have point: "required_point ops (w_method q) (w_path q) = Some (op_permission p)"
    unfolding p(3,4) by (rule required_point_op [OF keys p(1,2)])
  from assms(2) point l have u: "UID (w_ctx q1) \<noteq> None" and q2: "q2 = q1"
    by (auto simp: RequirePermission_def split: option.splits prod.splits sum.splits if_splits)
  with l assms(3) obtain who where v: "Verify e cfg k now (BearerToken (w_authorization q)) s = (Inr who, s')"
    and c: "r_UID (w_ctx q1) = Some (show_int (id_uid who))" "r_REALM (w_ctx q1) = id_realm who" by auto
  from Verify_uid [OF v] have r: "0 < id_uid who" "id_uid who < 2 ^ 63" by auto
  then have uid: "UID (w_ctx q1) = Some (id_uid who)" using c(1) by (rule UID_claim)
  have key: "perm_key (id_realm who) (word_of_int (id_uid who)) = id_realm who @ '':'' @ show_int (id_uid who)"
    using r perm_key_uid [OF r] by (simp add: perm_key_def itoa_text sint64)
  obtain es' w' where st': "st' = (es', w')" by (cases st')
  from assms(2) point l uid c(2) st' obtain pts where
    "Points life load (id_realm who) (word_of_int (id_uid who)) now (es, w) = (Inr pts, es', w')" and "Allowed pts (op_permission p)"
    by (auto simp: RequirePermission_def split: option.splits prod.splits sum.splits if_splits)
  with Points_ok v uid c(2) key q2 show "\<exists>who pts. Verify e cfg k now (BearerToken (w_authorization q)) s = (Inr who, s') \<and>
        UID (w_ctx q2) = Some (id_uid who) \<and> r_REALM (w_ctx q2) = id_realm who \<and>
        (op_permission p \<in> set pts \<or> ''*'' \<in> set pts \<or>
           (\<exists>pre. pre @ ''.*'' \<in> set pts \<and> has_prefix (op_permission p) (pre @ ''.''))) \<and>
        ((\<exists>ex. es (id_realm who @ '':'' @ show_int (id_uid who)) = Some (pts, ex) \<and> now < ex) \<or>
         (\<exists>w'. load (id_realm who) (word_of_int (id_uid who)) w = (Inr pts, w')))"
    unfolding Allowed_iff by metis
next
  assume "\<forall>p \<in> set ops. op_permission p \<noteq> [] \<longrightarrow> op_key p \<noteq> w_method q @ '' '' @ w_path q"
  then have "required_point ops (w_method q1) (w_path q1) = None"
    using RequireLogin_Serve [OF assms(1)] by (simp add: required_point_none)
  then show "q2 = q1" "st' = (es, w)" using assms(2) by (simp_all add: RequirePermission_def)
qed

theorem gateway_guarded_witness:
  "\<exists>who pts. fst (Verify demo_string_env demo_cfg demo_keys 5 ''T7'' alive_store) = Inr who \<and>
    (''member.ban'' \<in> set pts \<or> ''*'' \<in> set pts \<or> (\<exists>pre. pre @ ''.*'' \<in> set pts \<and> has_prefix ''member.ban'' (pre @ ''.'')))"
proof -
  let ?op = "\<lparr>op_path = ''/ban'', op_method = ''post'', op_security = Some [''bearer''], op_summary = [], op_tags = [],
     op_permission = ''member.ban''\<rparr>"
  have tok: "BearerToken ''Bearer T7'' = ''T7''" by code_simp
  have f: "fst (RequireLogin demo_string_env demo_cfg demo_keys demo_ops [] 5 (demo_web no_ctx) alive_store)
      = Serve (demo_web member_ctx)" by code_simp
  then obtain s' where l: "RequireLogin demo_string_env demo_cfg demo_keys demo_ops [] 5 (demo_web no_ctx) alive_store
      = (Serve (demo_web member_ctx), s')" by (metis prod.collapse)
  have r: "required_point demo_ops ''POST'' ''/ban'' = Some ''member.ban''" by code_simp
  have u: "UID member_ctx = Some 7" "UID no_ctx = None" by code_simp+
  have p: "RequirePermission demo_ops 30000 (\<lambda>realm uid w. (Inr [''member.*''], w)) 5 (demo_web member_ctx) (Map.empty, ())
      = (Serve (demo_web member_ctx), (\<lambda>_. None)(perm_key (r_REALM member_ctx) 7 \<mapsto> ([''member.*''], 30005)), ())"
  proof -
    have "Allowed [''member.*''] ''member.ban''" by code_simp
    with r u show ?thesis by (simp add: RequirePermission_def demo_web_def Points_def)
  qed
  have no: "UID (w_ctx (demo_web no_ctx)) = None" using u by (simp add: demo_web_def)
  have d: "distinct (map op_key demo_ops)" "?op \<in> set demo_ops" by (simp_all add: demo_ops_def)
  have up: "to_upper ''post'' = ''POST''" by code_simp
  from bspec [OF conjunct1 [OF gateway_guarded [OF l p no d(1)]] d(2)] up tok show ?thesis
    by (fastforce simp: demo_web_def)
qed

text \<open>
  After an invalidation the change holds. When no request is waiting for the account
  service's answer about a login, an invalidation of that login makes every later answer from
  the cache, until its roles change again, the points it has then.
\<close>

lemma permissions_fresh_after_invalidate:
  assumes "pstep life st (PInvalidate key) st1" and "\<forall>(i, key', pts) \<in> set (p_loads st). key' \<noteq> key"
    and "psteps life st1 es st2" and "\<forall>e \<in> set es. \<forall>pts. e \<noteq> PRoles key pts"
    and "pstep life st2 (PHit key pts) st3"
  shows "pts = p_roles st1 key"
proof -
  from assms(1,2) have "p_fresh key st1" by (cases rule: pstep.cases) (auto simp: p_fresh_def)
  with p_fresh_steps assms(3,4) have "p_fresh key st2" "p_roles st2 key = p_roles st1 key" by blast+
  with assms(5) show ?thesis
    by (auto elim!: pstep_hitE simp: p_cached_def p_fresh_def split: option.splits if_splits)
qed

theorem permissions_fresh_after_invalidate_witness:
  "[''new''] = p_roles \<lparr>p_entries = Map.empty, p_loads = [], p_roles = (\<lambda>_. [''new'']), p_now = 0\<rparr> ''member:7''"
proof -
  let ?s0 = "\<lparr>p_entries = [''member:7'' \<mapsto> ([''old''], 30000)], p_loads = [], p_roles = (\<lambda>_. [''new'']), p_now = 0\<rparr>"
  let ?s1 = "\<lparr>p_entries = Map.empty, p_loads = [], p_roles = (\<lambda>_. [''new'']), p_now = 0\<rparr>"
  let ?s2 = "\<lparr>p_entries = Map.empty, p_loads = [(1, ''member:7'', [''new''])], p_roles = (\<lambda>_. [''new'']), p_now = 0\<rparr>"
  let ?s3 = "\<lparr>p_entries = [''member:7'' \<mapsto> ([''new''], 30000)], p_loads = [], p_roles = (\<lambda>_. [''new'']), p_now = 0\<rparr>"
  have "pstep 30000 ?s0 (PInvalidate ''member:7'') ?s1" using pstep.invalidate [of 30000 ?s0 "''member:7''"] by simp
  moreover have "psteps 30000 ?s1 [PLoad 1 ''member:7'', PKeep 1] ?s3"
  proof -
    have "pstep 30000 ?s1 (PLoad 1 ''member:7'') ?s2" using pstep.load [of ?s1 "''member:7''" 30000 1] by (simp add: p_cached_def)
    moreover have "pstep 30000 ?s2 (PKeep 1) ?s3" using pstep.keep [of ?s2 "[]" 1 "''member:7''" "[''new'']" "[]" 30000] by simp
    ultimately show ?thesis by (blast intro: psteps.intros)
  qed
  moreover have "pstep 30000 ?s3 (PHit ''member:7'' [''new'']) ?s3" by (rule pstep.hit) (simp add: p_cached_def)
  ultimately show ?thesis
    using permissions_fresh_after_invalidate [of 30000 ?s0 "''member:7''" ?s1 "[PLoad 1 ''member:7'', PKeep 1]" ?s3 "[''new'']" ?s3]
    by simp
qed

text \<open>
  A request under way can undo an invalidation. A request that missed the cache and was
  answered before a role change keeps the old points after the invalidation, and later
  requests are answered from them for the time of an entry.
\<close>

lemma invalidate_race_keeps_old_points:
  "\<exists>st. psteps 30000 \<lparr>p_entries = Map.empty, p_loads = [], p_roles = (\<lambda>_. old), p_now = 0\<rparr>
      [PLoad 1 key, PRoles key new, PInvalidate key, PKeep 1, PTime 29999, PHit key old] st \<and> p_roles st key = new"
proof -
  let ?s0 = "\<lparr>p_entries = Map.empty, p_loads = [], p_roles = (\<lambda>_. old), p_now = 0\<rparr>"
  let ?s1 = "?s0\<lparr>p_loads := [(1, key, old)]\<rparr>"
  let ?s2 = "?s1\<lparr>p_roles := (\<lambda>_. old)(key := new)\<rparr>"
  let ?s4 = "?s2\<lparr>p_loads := [], p_entries := [key \<mapsto> (old, 30000)]\<rparr>"
  let ?s5 = "?s4\<lparr>p_now := 29999\<rparr>"
  have "pstep 30000 ?s0 (PLoad 1 key) ?s1" using pstep.load [of ?s0 key 30000 1] by (simp add: p_cached_def)
  moreover have "pstep 30000 ?s1 (PRoles key new) ?s2" using pstep.roles [of 30000 ?s1 key new] by simp
  moreover have "pstep 30000 ?s2 (PInvalidate key) ?s2" using pstep.invalidate [of 30000 ?s2 key] by simp
  moreover have "pstep 30000 ?s2 (PKeep 1) ?s4" using pstep.keep [of ?s2 "[]" 1 key old "[]" 30000] by simp
  moreover have "pstep 30000 ?s4 (PTime 29999) ?s5" using pstep.time [of 29999 30000 ?s4] by simp
  moreover have "pstep 30000 ?s5 (PHit key old) ?s5" by (rule pstep.hit) (simp add: p_cached_def)
  ultimately have "psteps 30000 ?s0 [PLoad 1 key, PRoles key new, PInvalidate key, PKeep 1, PTime 29999, PHit key old] ?s5"
    by (blast intro: psteps.intros)
  moreover have "p_roles ?s5 key = new" by simp
  ultimately show ?thesis by blast
qed

end
