(* ===== verification/Password.thy ===== *)
theory Password
  imports Base64
begin

text \<open>
  Password hashes (\<^verbatim>\<open>authx/password.go\<close>): the policy, the PHC string with its
  parameters, and the check of a password against a stored one. Argon2id is the argument
  \<open>idkey\<close> (password, salt, rounds, memory, threads, length), under the locale \<open>argon2\<close>; as its
  documentation says it panics on no rounds or no threads. A result \<open>None\<close> is that panic.
\<close>

section \<open>Policy and parameters\<close>

definition MinPasswordLen :: nat where "MinPasswordLen = 8"

text \<open>True: the password meets the policy.\<close>

definition CheckPasswordPolicy :: "string \<Rightarrow> bool" where
  "CheckPasswordPolicy pw \<longleftrightarrow> \<not> (length pw < MinPasswordLen \<or> trim_space pw \<noteq> pw)"

definition argonTime :: nat where "argonTime = 3"
definition argonMemory :: nat where "argonMemory = 64 * 1024"
definition argonThreads :: nat where "argonThreads = 2"
definition argonKeyLen :: nat where "argonKeyLen = 32"
definition argonMaxMemory :: nat where "argonMaxMemory = 256 * 1024"

type_synonym idkey = "string \<Rightarrow> string \<Rightarrow> nat \<Rightarrow> nat \<Rightarrow> nat \<Rightarrow> nat \<Rightarrow> string"

definition argonKey :: "idkey \<Rightarrow> string \<Rightarrow> string \<Rightarrow> nat \<Rightarrow> nat \<Rightarrow> nat \<Rightarrow> nat \<Rightarrow> string option" where
  "argonKey idkey pw salt t m p n = (if t = 0 \<or> p = 0 then None else Some (idkey pw salt t m p n))"

section \<open>The string\<close>

definition HashPassword :: "idkey \<Rightarrow> string \<Rightarrow> string \<Rightarrow> string option" where
  "HashPassword idkey salt pw =
     map_option (\<lambda>key. ''$argon2id$v=19$m='' @ show_nat argonMemory @ '',t='' @ show_nat argonTime @ '',p='' @ show_nat argonThreads
        @ ''$'' @ raw_encode salt @ ''$'' @ raw_encode key)
       (argonKey idkey pw salt argonTime argonMemory argonThreads argonKeyLen)"

text \<open>
  \<^verbatim>\<open>fmt.Sscanf\<close> with the format \<^verbatim>\<open>m=%d,t=%d,p=%d\<close>: spaces but no line end may stand before
  a number, a number out of range is an error, and what follows the last number is ignored.
\<close>

fun skip_space :: "string \<Rightarrow> string option" where
  "skip_space [] = Some []"
| "skip_space (c # s) = (if c = CHR 0x0A then None else if is_space c then skip_space s else Some (c # s))"

definition scan_uint :: "nat \<Rightarrow> string \<Rightarrow> (nat \<times> string) option" where
  "scan_uint bits s =
     (case skip_space s of
        None \<Rightarrow> None
      | Some t \<Rightarrow>
          (case parse_nat (takeWhile (\<lambda>c. char_digit c \<noteq> None) t) of
             None \<Rightarrow> None
           | Some n \<Rightarrow> if n < 2 ^ bits then Some (n, dropWhile (\<lambda>c. char_digit c \<noteq> None) t) else None))"

definition scan_lit :: "string \<Rightarrow> string \<Rightarrow> string option" where
  "scan_lit l s = (if has_prefix s l then Some (drop (length l) s) else None)"

definition scan_params :: "string \<Rightarrow> (nat \<times> nat \<times> nat) option" where
  "scan_params s =
     (case scan_lit ''m='' s of None \<Rightarrow> None | Some s1 \<Rightarrow>
      case scan_uint 32 s1 of None \<Rightarrow> None | Some (m, s2) \<Rightarrow>
      case scan_lit '',t='' s2 of None \<Rightarrow> None | Some s3 \<Rightarrow>
      case scan_uint 32 s3 of None \<Rightarrow> None | Some (t, s4) \<Rightarrow>
      case scan_lit '',p='' s4 of None \<Rightarrow> None | Some s5 \<Rightarrow>
      case scan_uint 8 s5 of None \<Rightarrow> None | Some (p, s6) \<Rightarrow> Some (m, t, p))"

definition VerifyPasswordHash :: "idkey \<Rightarrow> string \<Rightarrow> string \<Rightarrow> bool option" where
  "VerifyPasswordHash idkey phc pw =
     (let parts = split_on CHR ''$'' phc
      in if length parts \<noteq> 6 \<or> parts ! 1 \<noteq> ''argon2id'' then Some False
         else case scan_params (parts ! 3) of
             None \<Rightarrow> Some False
           | Some (m, t, p) \<Rightarrow>
               if m > argonMaxMemory \<or> t > 10 \<or> p = 0 then Some False
               else (case raw_decode (parts ! 4) of
                   None \<Rightarrow> Some False
                 | Some salt \<Rightarrow>
                     (case raw_decode (parts ! 5) of
                        None \<Rightarrow> Some False
                      | Some want \<Rightarrow> map_option (\<lambda>got. got = want) (argonKey idkey pw salt t m p (length want)))))"

section \<open>Argon2id\<close>

text \<open>The key has the length asked for.\<close>

locale argon2 =
  fixes idkey :: idkey
  assumes key_length: "length (idkey pw salt t m p n) = n"
begin

lemma key_nonempty: "0 < n \<Longrightarrow> idkey pw salt t m p n \<noteq> []"
  using key_length [of pw salt t m p n] by auto

end

text \<open>A function of that length which tells short passwords apart.\<close>

definition demo_idkey :: idkey where
  "demo_idkey pw salt t m p n = take n (pw @ salt @ replicate n CHR ''.'')"

interpretation demo: argon2 demo_idkey
  by unfold_locales (simp add: demo_idkey_def)

section \<open>Lemmas\<close>

lemma takeWhile_digits: "takeWhile (\<lambda>c. char_digit c \<noteq> None) (show_nat n @ c # s) = show_nat n"
  and dropWhile_digits: "dropWhile (\<lambda>c. char_digit c \<noteq> None) (show_nat n @ c # s) = c # s"
  if "char_digit c = None"
proof -
  have "\<forall>x \<in> set (show_nat n). char_digit x \<noteq> None" using set_show_nat by fastforce
  with that show "takeWhile (\<lambda>c. char_digit c \<noteq> None) (show_nat n @ c # s) = show_nat n"
    and "dropWhile (\<lambda>c. char_digit c \<noteq> None) (show_nat n @ c # s) = c # s" by simp_all
qed

lemma digits_only: "\<forall>x \<in> set (show_nat n). \<exists>y. char_digit x = Some y"
  using set_show_nat by fastforce

lemma skip_space_digits: "skip_space (show_nat n @ s) = Some (show_nat n @ s)"
proof -
  obtain c cs where c: "show_nat n = c # cs" by (cases "show_nat n") auto
  then obtain d where d: "d < 10" "c = digit_char d" using set_show_nat [of c n] by auto
  then have "char_digit c = Some d" by simp
  moreover have "char_digit CHR 0x0A = None" by (simp add: char_digit_def)
  moreover have "char_digit c = None" if "is_space c"
    using that unfolding is_space_def char_digit_def Let_def by (elim disjE) simp_all
  ultimately have "c \<noteq> CHR 0x0A" "\<not> is_space c" by (metis option.distinct(1))+
  with c show ?thesis by simp
qed

text \<open>A number followed by something else, or at the end, is read back.\<close>

lemma scan_uint_show: "n < 2 ^ bits \<Longrightarrow> char_digit c = None \<Longrightarrow> scan_uint bits (show_nat n @ c # s) = Some (n, c # s)"
  and scan_uint_show_end: "n < 2 ^ bits \<Longrightarrow> scan_uint bits (show_nat n) = Some (n, [])"
proof -
  show "scan_uint bits (show_nat n @ c # s) = Some (n, c # s)" if "n < 2 ^ bits" "char_digit c = None"
    unfolding scan_uint_def skip_space_digits option.case takeWhile_digits [OF that(2)] dropWhile_digits [OF that(2)]
    using that(1) by simp
  have s: "skip_space (show_nat n) = Some (show_nat n)" using skip_space_digits [of n "[]"] by simp
  show "scan_uint bits (show_nat n) = Some (n, [])" if "n < 2 ^ bits"
    using that digits_only [of n] by (simp add: scan_uint_def s takeWhile_eq_all_conv [THEN iffD2])
qed

lemma scan_params_show:
  assumes "m < 2 ^ 32" and "t < 2 ^ 32" and "p < 2 ^ 8"
  shows "scan_params (''m='' @ show_nat m @ '',t='' @ show_nat t @ '',p='' @ show_nat p) = Some (m, t, p)"
proof -
  have comma: "char_digit CHR '','' = None" by (simp add: char_digit_def)
  show ?thesis
    using scan_uint_show [OF assms(1) comma] scan_uint_show [OF assms(2) comma] scan_uint_show_end [OF assms(3)]
    by (simp add: scan_params_def scan_lit_def)
qed

lemma dollar_show: "CHR ''$'' \<notin> set (show_nat n)"
proof
  assume "CHR ''$'' \<in> set (show_nat n)"
  then obtain d where "d < 10" "CHR ''$'' = digit_char d" using set_show_nat by blast
  then have "char_digit CHR ''$'' = Some d" by simp
  then show False by (simp add: char_digit_def)
qed

lemma dollar_encode: "CHR ''$'' \<notin> set (raw_encode s)"
  using raw_encode_plain by blast

text \<open>The parts of a string with these parameters.\<close>

lemma phc_parts:
  "split_on CHR ''$'' (''$argon2id$v=19$m='' @ show_nat m @ '',t='' @ show_nat t @ '',p='' @ show_nat p
      @ ''$'' @ raw_encode salt @ ''$'' @ raw_encode key)
   = [[], ''argon2id'', ''v=19'', ''m='' @ show_nat m @ '',t='' @ show_nat t @ '',p='' @ show_nat p, raw_encode salt, raw_encode key]"
proof -
  have d: "CHR ''$'' \<notin> set (''m='' @ show_nat m @ '',t='' @ show_nat t @ '',p='' @ show_nat p)"
    using dollar_show by simp
  have "split_on CHR ''$'' ((''m='' @ show_nat m @ '',t='' @ show_nat t @ '',p='' @ show_nat p) @ CHR ''$'' # raw_encode salt @ CHR ''$'' # raw_encode key)
      = [''m='' @ show_nat m @ '',t='' @ show_nat t @ '',p='' @ show_nat p, raw_encode salt, raw_encode key]"
    unfolding split_on_append [OF d] split_on_append [OF dollar_encode] split_on_no_sep [OF dollar_encode] ..
  then show ?thesis by simp
qed

text \<open>A stored string with no rounds in it panics instead of not matching.\<close>

lemma zero_rounds_panic:
  "VerifyPasswordHash idkey (''$argon2id$v=19$m='' @ show_nat 8 @ '',t='' @ show_nat 0 @ '',p='' @ show_nat 1
      @ ''$'' @ raw_encode salt @ ''$'' @ raw_encode key) pw = None"
proof -
  have s: "scan_params (''m='' @ show_nat 8 @ '',t='' @ show_nat 0 @ '',p='' @ show_nat 1) = Some (8, 0, 1)"
    by (rule scan_params_show) simp_all
  show ?thesis
    unfolding VerifyPasswordHash_def phc_parts Let_def by (simp add: s [simplified] argonMaxMemory_def argonKey_def)
qed

text \<open>The policy counts bytes: three characters of three bytes each are enough.\<close>

lemma policy_counts_bytes:
  "CheckPasswordPolicy (concat (replicate 3 [CHR 0xE4, CHR 0xB8, CHR 0xAD]))"
  by (simp add: CheckPasswordPolicy_def MinPasswordLen_def trim_space_def is_space_def numeral_eq_Suc)

section \<open>Properties\<close>

text \<open>
  C31. A stored hash verifies its own password. What \<open>HashPassword\<close> makes of a password and a
  salt is read back with its parameters, salt and key: checking it never panics and answers
  true exactly for the passwords with the same key, its own first of all.
\<close>

theorem password_roundtrip:
  assumes "argon2 idkey"
  shows "\<exists>phc. HashPassword idkey salt pw = Some phc \<and> VerifyPasswordHash idkey phc pw = Some True \<and>
    VerifyPasswordHash idkey phc pw' =
      Some (idkey pw' salt argonTime argonMemory argonThreads argonKeyLen = idkey pw salt argonTime argonMemory argonThreads argonKeyLen)"
proof -
  let ?key = "idkey pw salt argonTime argonMemory argonThreads argonKeyLen"
  let ?phc = "''$argon2id$v=19$m='' @ show_nat argonMemory @ '',t='' @ show_nat argonTime @ '',p='' @ show_nat argonThreads
        @ ''$'' @ raw_encode salt @ ''$'' @ raw_encode ?key"
  have h: "HashPassword idkey salt pw = Some ?phc"
    by (simp add: HashPassword_def argonKey_def argonTime_def argonThreads_def)
  have s: "scan_params (''m='' @ show_nat argonMemory @ '',t='' @ show_nat argonTime @ '',p='' @ show_nat argonThreads)
      = Some (argonMemory, argonTime, argonThreads)"
    by (rule scan_params_show) (simp_all add: argonMemory_def argonTime_def argonThreads_def)
  have n: "length ?key = argonKeyLen" using argon2.key_length [OF assms] .
  have "VerifyPasswordHash idkey ?phc x = Some (idkey x salt argonTime argonMemory argonThreads argonKeyLen = ?key)" for x
    unfolding VerifyPasswordHash_def phc_parts Let_def
    by (simp add: s [simplified] n) (simp add: argonMemory_def argonTime_def argonThreads_def argonMaxMemory_def argonKey_def)
  with h show ?thesis by auto
qed

theorem password_roundtrip_witness:
  "\<exists>phc. HashPassword demo_idkey ''salt'' ''hunter22'' = Some phc \<and> VerifyPasswordHash demo_idkey phc ''hunter23'' = Some False"
proof -
  have "demo_idkey ''hunter23'' ''salt'' argonTime argonMemory argonThreads argonKeyLen
      \<noteq> demo_idkey ''hunter22'' ''salt'' argonTime argonMemory argonThreads argonKeyLen"
    by (simp add: demo_idkey_def argonKeyLen_def)
  with password_roundtrip [OF demo.argon2_axioms, of "''salt''" "''hunter22''" "''hunter23''"] show ?thesis by auto
qed

end
