(* ===== verification/Nacos.thy ===== *)
theory Nacos
  imports Prelude
begin

text \<open>
  The configuration centre (\<^verbatim>\<open>nacosx\<close>): comparing two versions of a configuration and
  hiding the secrets in what is logged (\<^verbatim>\<open>diff.go\<close>), a configuration that follows its
  changes (\<^verbatim>\<open>value.go\<close>), and what is logged of an outage (\<^verbatim>\<open>outage.go\<close>). The
  parsers of JSON and YAML are arguments.
\<close>

section \<open>Secrets in a configuration\<close>

definition secretWords :: "string list" where
  "secretWords = [''password'', ''passwd'', ''pwd'', ''secret'', ''token'', ''credential'', ''private'', ''apikey'', ''accesskey'', ''signature'']"

definition after_last_dot :: "string \<Rightarrow> string" where
  "after_last_dot s = (if CHR ''.'' \<in> set s then rev (takeWhile (\<lambda>c. c \<noteq> CHR ''.'') (rev s)) else s)"

definition isSecret :: "string \<Rightarrow> bool" where
  "isSecret name =
     (let n = to_lower (filter (\<lambda>c. c \<noteq> CHR ''_'' \<and> c \<noteq> CHR ''-'') name); last = after_last_dot name; l = to_lower last
      in list_ex (contains n) secretWords \<or>
         l = ''key'' \<or> has_suffix l ''_key'' \<or> has_suffix l ''-key'' \<or> has_suffix last ''Key'')"

text \<open>The parts of a list between quotes.\<close>

definition quoted_parts :: "string \<Rightarrow> string list" where
  "quoted_parts s = filter (\<lambda>p. p \<noteq> []) (split_on CHR 0x22 s)"

definition mask_value :: "string \<Rightarrow> string \<Rightarrow> string" where
  "mask_value key v =
     (if isSecret key then ''***''
      else if has_prefix v ''['' \<and> list_ex (\<lambda>p. length p < 40 \<and> isSecret p) (quoted_parts v) then ''***''
      else v)"

section \<open>The difference of two versions\<close>

text \<open>A flattened document is the list of its keys with their values, each key once.\<close>

datatype change_op = Added | Removed | Changed

record value_change =
  Op :: change_op
  Key :: string
  From :: string
  To :: string

definition diff_cur :: "(string \<times> string) list \<Rightarrow> string \<times> string \<Rightarrow> value_change option" where
  "diff_cur old = (\<lambda>(k, t). case map_of old k of
      None \<Rightarrow> Some \<lparr>Op = Added, Key = k, From = [], To = mask_value k t\<rparr>
    | Some f \<Rightarrow> if f \<noteq> t then Some \<lparr>Op = Changed, Key = k, From = mask_value k f, To = mask_value k t\<rparr> else None)"

definition diff_old :: "(string \<times> string) list \<Rightarrow> string \<times> string \<Rightarrow> value_change option" where
  "diff_old cur = (\<lambda>(k, f). if map_of cur k = None then Some \<lparr>Op = Removed, Key = k, From = mask_value k f, To = []\<rparr> else None)"

definition diff :: "(string \<times> string) list \<Rightarrow> (string \<times> string) list \<Rightarrow> value_change list" where
  "diff old cur = sort_key Key (List.map_filter (diff_cur old) cur @ List.map_filter (diff_old cur) old)"

text \<open>A configuration as a record of the log shows it: sorted, secrets hidden.\<close>

definition settings_shown :: "(string \<times> string) list \<Rightarrow> (string \<times> string) list" where
  "settings_shown s = map (\<lambda>(k, v). (k, mask_value k v)) (sort_key fst s)"

section \<open>Flattening a document\<close>

text \<open>A parsed document: objects, and everything else by its text (\<^verbatim>\<open>leaf\<close>).\<close>

datatype doc = Obj "(string \<times> doc) list" | Leaf string

definition join :: "string \<Rightarrow> string \<Rightarrow> string" where
  "join prefix k = (if prefix = [] then k else prefix @ ''.'' @ k)"

fun walk :: "string \<Rightarrow> doc \<Rightarrow> (string \<times> string) list" where
  "walk prefix (Obj fs) = concat (map (\<lambda>(k, d). walk (join prefix k) d) fs)"
| "walk prefix (Leaf v) = [(if prefix = [] then ''(value)'' else prefix, v)]"

definition flatten :: "doc \<Rightarrow> (string \<times> string) list" where
  "flatten d = walk [] d"

section \<open>A configuration that follows its changes\<close>

text \<open>
  \<open>strict\<close> and \<open>lenient\<close> parse a text, the first refusing keys the program does not know;
  \<open>validate\<close> is the configuration's own check.
\<close>

record 'a codec =
  strict :: "string \<Rightarrow> string + 'a"
  lenient :: "string \<Rightarrow> string + 'a"
  validate :: "'a \<Rightarrow> string option"
  flat :: "string \<Rightarrow> (string \<times> string) list"

text \<open>The new version and what was unknown in it, or why it is refused.\<close>

definition decode :: "'a codec \<Rightarrow> string \<Rightarrow> string + 'a \<times> string option" where
  "decode C s =
     (let r = (case strict C s of
          Inr a \<Rightarrow> Inr (a, None)
        | Inl e \<Rightarrow> (case lenient C s of Inl e' \<Rightarrow> Inl e' | Inr a \<Rightarrow> Inr (a, Some e)))
      in case r of
          Inl e \<Rightarrow> Inl e
        | Inr (a, u) \<Rightarrow> (case validate C a of None \<Rightarrow> Inr (a, u) | Some e \<Rightarrow> Inl e))"

definition isBlank :: "string \<Rightarrow> bool" where
  "isBlank s \<longleftrightarrow> trim_space s = []"

record 'a cvalue =
  cv_cur :: 'a
  cv_doc :: "(string \<times> string) list"
  cv_text :: string
  cv_hooks :: nat   \<comment> \<open>how many hooks are registered\<close>

definition value_load :: "'a codec \<Rightarrow> string \<Rightarrow> string + 'a cvalue" where
  "value_load C s =
     (if isBlank s then Inl ''empty''
      else case decode C s of
          Inl e \<Rightarrow> Inl e
        | Inr (a, u) \<Rightarrow> Inr \<lparr>cv_cur = a, cv_doc = flat C s, cv_text = s, cv_hooks = 0\<rparr>)"

definition OnChange :: "'a cvalue \<Rightarrow> 'a cvalue" where
  "OnChange v = v\<lparr>cv_hooks := cv_hooks v + 1\<rparr>"

datatype 'a value_log = Emptied | Rejected string | SameValues | ConfigChanged "value_change list" | UnknownKeys string
  | HookCall nat 'a 'a

text \<open>A hook that panics is logged and the next one is called, so every hook gets its call.\<close>

definition value_changed :: "'a codec \<Rightarrow> string \<Rightarrow> 'a cvalue \<Rightarrow> 'a cvalue \<times> 'a value_log list" where
  "value_changed C s v =
     (if isBlank s then (v, [Emptied])
      else case decode C s of
          Inl e \<Rightarrow> (v, [Rejected e])
        | Inr (a, u) \<Rightarrow>
            (let changes = diff (cv_doc v) (flat C s)
             in (v\<lparr>cv_cur := a, cv_doc := flat C s, cv_text := s\<rparr>,
                 (if changes = [] then SameValues else ConfigChanged changes) #
                 (case u of None \<Rightarrow> [] | Some e \<Rightarrow> [UnknownKeys e]) @
                 map (\<lambda>i. HookCall i (cv_cur v) a) [0..<cv_hooks v])))"

fun value_run :: "'a codec \<Rightarrow> string list \<Rightarrow> 'a cvalue \<Rightarrow> 'a cvalue \<times> 'a value_log list" where
  "value_run C [] v = (v, [])"
| "value_run C (s # ss) v =
     (case value_changed C s v of (v1, l1) \<Rightarrow> (case value_run C ss v1 of (v2, l2) \<Rightarrow> (v2, l1 @ l2)))"

section \<open>An outage in the log\<close>

definition lostSigns :: "string list" where
  "lostSigns = [''fail to connect server'', ''request stream error'', ''client not connected'']"

definition remindEvery :: int where "remindEvery = 30000"

record outage =
  o_down :: bool
  o_since :: int
  o_reminded :: int
  o_suppressed :: nat
  o_unhealthy :: "nat list"   \<comment> \<open>the clients whose connection is down\<close>

datatype outage_log = Lost string | Still int nat | Restored int nat

definition clipTo :: "string \<Rightarrow> nat \<Rightarrow> string" where
  "clipTo s n = (if length s \<le> n then s else take n s @ ''...'')"

definition outage_begin :: "int \<Rightarrow> string \<Rightarrow> outage \<Rightarrow> outage \<times> outage_log list" where
  "outage_begin now cause s =
     (if o_down s then (s, [])
      else (s\<lparr>o_down := True, o_since := now, o_reminded := now, o_suppressed := 0\<rparr>,
            [Lost (clipTo (takeWhile (\<lambda>c. c \<noteq> CHR 0x0A) cause) 300)]))"

text \<open>Is a record of the client library left out?\<close>

definition swallow :: "int \<Rightarrow> string \<Rightarrow> outage \<Rightarrow> bool \<times> outage \<times> outage_log list" where
  "swallow now msg s =
     (if \<not> o_down s \<and> \<not> list_ex (contains msg) lostSigns then (False, s, [])
      else case outage_begin now msg s of (s', l) \<Rightarrow> (True, s'\<lparr>o_suppressed := o_suppressed s' + 1\<rparr>, l))"

definition report :: "int \<Rightarrow> nat \<Rightarrow> bool \<Rightarrow> int \<Rightarrow> outage \<Rightarrow> outage \<times> outage_log list" where
  "report now c healthy grace s =
     (if \<not> healthy then
        (case outage_begin now [] (s\<lparr>o_unhealthy := List.insert c (o_unhealthy s)\<rparr>) of
           (s', l) \<Rightarrow>
             if now - o_reminded s' \<ge> remindEvery
             then (s'\<lparr>o_reminded := now\<rparr>, l @ [Still (now - o_since s') (o_suppressed s')]) else (s', l))
      else let s' = s\<lparr>o_unhealthy := removeAll c (o_unhealthy s)\<rparr>
           in if o_down s' \<and> o_unhealthy s' = [] \<and> now - o_since s' > grace
              then (s'\<lparr>o_down := False\<rparr>, [Restored (now - o_since s') (o_suppressed s')]) else (s', []))"

definition outage_forget :: "nat \<Rightarrow> outage \<Rightarrow> outage" where
  "outage_forget c s = s\<lparr>o_unhealthy := removeAll c (o_unhealthy s)\<rparr>"

datatype outage_event = SdkRecord int string | Report int nat bool int | Forget nat

fun outage_step :: "outage_event \<Rightarrow> outage \<Rightarrow> outage \<times> outage_log list" where
  "outage_step (SdkRecord now msg) s = snd (swallow now msg s)"
| "outage_step (Report now c healthy grace) s = report now c healthy grace s"
| "outage_step (Forget c) s = (outage_forget c s, [])"

fun outage_run :: "outage_event list \<Rightarrow> outage \<Rightarrow> outage_log list" where
  "outage_run [] s = []"
| "outage_run (e # es) s = (case outage_step e s of (s', l) \<Rightarrow> l @ outage_run es s')"

section \<open>Lemmas\<close>

lemma map_filter_keys: "(\<And>p c. f p = Some c \<Longrightarrow> Key c = fst p) \<Longrightarrow> map Key (List.map_filter f xs) = map fst (filter (\<lambda>p. f p \<noteq> None) xs)"
  by (induction xs) (auto simp: List.map_filter_def)

lemma diff_cur_key: "diff_cur old p = Some c \<Longrightarrow> Key c = fst p"
  and diff_old_key: "diff_old cur p = Some c \<Longrightarrow> Key c = fst p"
  by (auto simp: diff_cur_def diff_old_def split: prod.splits option.splits if_splits)

lemma diff_set: "set (diff old cur) = {c. \<exists>p \<in> set cur. diff_cur old p = Some c} \<union> {c. \<exists>p \<in> set old. diff_old cur p = Some c}"
  by (force simp: diff_def List.map_filter_def image_iff)

lemma diff_sorted: "sorted (map Key (diff old cur))"
  by (simp add: diff_def)

lemma diff_distinct:
  assumes "distinct (map fst old)" and "distinct (map fst cur)"
  shows "distinct (map Key (diff old cur))"
proof -
  have keys: "map Key (List.map_filter (diff_cur old) cur) = map fst (filter (\<lambda>p. diff_cur old p \<noteq> None) cur)"
    "map Key (List.map_filter (diff_old cur) old) = map fst (filter (\<lambda>p. diff_old cur p \<noteq> None) old)"
    by (rule map_filter_keys, erule diff_cur_key, rule map_filter_keys, erule diff_old_key)
  have "set (map fst (filter (\<lambda>p. diff_cur old p \<noteq> None) cur)) \<inter> set (map fst (filter (\<lambda>p. diff_old cur p \<noteq> None) old)) = {}"
    using map_of_eq_None_iff [of cur] by (force simp: diff_old_def split: if_splits)
  then have "distinct (map Key (List.map_filter (diff_cur old) cur @ List.map_filter (diff_old cur) old))"
    unfolding map_append keys using assms distinct_map_filter by (auto simp: distinct_map_filter)
  then show ?thesis by (simp only: diff_def distinct_map distinct_sort set_sort)
qed

text \<open>What is said about a key.\<close>

definition entry_of :: "string \<Rightarrow> string option \<Rightarrow> string option \<Rightarrow> value_change option" where
  "entry_of k f t = (case (f, t) of
      (None, None) \<Rightarrow> None
    | (None, Some t) \<Rightarrow> Some \<lparr>Op = Added, Key = k, From = [], To = mask_value k t\<rparr>
    | (Some f, None) \<Rightarrow> Some \<lparr>Op = Removed, Key = k, From = mask_value k f, To = []\<rparr>
    | (Some f, Some t) \<Rightarrow> if f = t then None else Some \<lparr>Op = Changed, Key = k, From = mask_value k f, To = mask_value k t\<rparr>)"

lemma entry_of_key: "entry_of k f t = Some c \<Longrightarrow> Key c = k"
  by (auto simp: entry_of_def split: option.splits if_splits)

lemma diff_entries:
  assumes "distinct (map fst old)" and "distinct (map fst cur)"
  shows "c \<in> set (diff old cur) \<longleftrightarrow> entry_of (Key c) (map_of old (Key c)) (map_of cur (Key c)) = Some c"
proof
  assume "c \<in> set (diff old cur)"
  then consider p where "p \<in> set cur" "diff_cur old p = Some c" | p where "p \<in> set old" "diff_old cur p = Some c"
    unfolding diff_set by blast
  then show "entry_of (Key c) (map_of old (Key c)) (map_of cur (Key c)) = Some c"
  proof cases
    case 1
    obtain k t where p: "p = (k, t)" by (cases p)
    have k: "Key c = k" using diff_cur_key [OF 1(2)] p by simp
    have "map_of cur k = Some t" using 1(1) assms(2) p by simp
    with 1(2) show ?thesis unfolding k by (simp add: p diff_cur_def entry_of_def split: option.splits if_splits)
  next
    case 2
    obtain k f where p: "p = (k, f)" by (cases p)
    have k: "Key c = k" using diff_old_key [OF 2(2)] p by simp
    have "map_of old k = Some f" using 2(1) assms(1) p by simp
    with 2(2) show ?thesis unfolding k by (simp add: p diff_old_def entry_of_def split: if_splits)
  qed
next
  assume e: "entry_of (Key c) (map_of old (Key c)) (map_of cur (Key c)) = Some c"
  show "c \<in> set (diff old cur)"
  proof (cases "map_of cur (Key c)")
    case None
    with e obtain f where f: "map_of old (Key c) = Some f" by (auto simp: entry_of_def split: option.splits)
    then have "(Key c, f) \<in> set old" by (rule map_of_SomeD)
    moreover have "diff_old cur (Key c, f) = Some c" using e f None by (simp add: entry_of_def diff_old_def)
    ultimately show ?thesis unfolding diff_set by blast
  next
    case (Some t)
    then have "(Key c, t) \<in> set cur" by (rule map_of_SomeD)
    moreover have "diff_cur old (Key c, t) = Some c"
      using e Some by (auto simp: entry_of_def diff_cur_def split: option.splits if_splits)
    ultimately show ?thesis unfolding diff_set by blast
  qed
qed

text \<open>Two sorted lists of changes of the same set are the same.\<close>

lemma diff_determined:
  assumes "distinct (map fst old)" "distinct (map fst cur)" "distinct (map fst old')" "distinct (map fst cur')"
    and "set (diff old cur) = set (diff old' cur')"
  shows "diff old cur = diff old' cur'"
proof (rule map_sorted_distinct_set_unique [where f = Key])
  show "inj_on Key (set (diff old cur) \<union> set (diff old' cur'))"
    using diff_distinct [OF assms(1,2)] assms(5) by (simp add: distinct_map)
qed (use assms diff_sorted diff_distinct in simp_all)

section \<open>Properties\<close>

text \<open>
  A record of a change says exactly what changed. The changes of two versions are sorted
  by key, each key once, and hold an entry for a key exactly when its value differs: added,
  removed or changed, with the values as they may be shown. No entry means the same
  configuration.
\<close>

lemma diff_exact:
  assumes "distinct (map fst old)" and "distinct (map fst cur)"
  shows "sorted (map Key (diff old cur)) \<and> distinct (map Key (diff old cur)) \<and>
    Key ` set (diff old cur) = {k. map_of old k \<noteq> map_of cur k} \<and>
    (diff old cur = [] \<longleftrightarrow> map_of old = map_of cur) \<and>
    {c. entry_of (Key c) (map_of old (Key c)) (map_of cur (Key c)) = Some c} = set (diff old cur)"
proof -
  note e = diff_entries [OF assms]
  have some: "(\<exists>c. entry_of k f t = Some c) \<longleftrightarrow> f \<noteq> t" for k f t
    by (auto simp: entry_of_def split: option.splits)
  have keys: "Key ` set (diff old cur) = {k. map_of old k \<noteq> map_of cur k}"
  proof (intro equalityI subsetI)
    fix k assume "k \<in> Key ` set (diff old cur)"
    then obtain c where "k = Key c" "entry_of k (map_of old k) (map_of cur k) = Some c" using e by blast
    with some [of k "map_of old k" "map_of cur k"] show "k \<in> {k. map_of old k \<noteq> map_of cur k}" by blast
  next
    fix k assume "k \<in> {k. map_of old k \<noteq> map_of cur k}"
    with some obtain c where c: "entry_of k (map_of old k) (map_of cur k) = Some c" by blast
    with entry_of_key [OF c] e [of c] show "k \<in> Key ` set (diff old cur)" by force
  qed
  then have "diff old cur = [] \<longleftrightarrow> map_of old = map_of cur" by (auto simp: fun_eq_iff)
  with keys diff_sorted diff_distinct [OF assms] e show ?thesis by auto
qed

text \<open>
  No secret is in the record of a change. Two pairs of versions that differ in the values
  of secret keys only, and have the same keys and the same keys unchanged, give the same
  record.
\<close>

lemma diff_hides_secrets:
  assumes "distinct (map fst old)" "distinct (map fst cur)" "distinct (map fst old')" "distinct (map fst cur')"
    and "\<forall>k. map_of old' k = map_of old k \<or> (isSecret k \<and> map_of old' k \<noteq> None \<and> map_of old k \<noteq> None)"
    and "\<forall>k. map_of cur' k = map_of cur k \<or> (isSecret k \<and> map_of cur' k \<noteq> None \<and> map_of cur k \<noteq> None)"
    and "\<forall>k. map_of old' k = map_of cur' k \<longleftrightarrow> map_of old k = map_of cur k"
  shows "diff old' cur' = diff old cur"
proof -
  have "entry_of k (map_of old' k) (map_of cur' k) = entry_of k (map_of old k) (map_of cur k)" for k
  proof (cases "isSecret k")
    case False
    have "map_of old' k = map_of old k" using assms(5) False by blast
    moreover have "map_of cur' k = map_of cur k" using assms(6) False by blast
    ultimately show ?thesis by simp
  next
    case True
    then have m: "mask_value k v = ''***''" for v by (simp add: mask_value_def)
    have "(map_of old' k = None) = (map_of old k = None)" using assms(5) [rule_format, of k] by auto
    moreover have "(map_of cur' k = None) = (map_of cur k = None)" using assms(6) [rule_format, of k] by auto
    moreover have "(map_of old' k = map_of cur' k) = (map_of old k = map_of cur k)" using assms(7) by blast
    ultimately show ?thesis
      by (cases "map_of old k"; cases "map_of cur k"; cases "map_of old' k"; cases "map_of cur' k") (simp_all add: entry_of_def m)
  qed
  then have "set (diff old' cur') = set (diff old cur)"
    by (intro set_eqI) (simp only: diff_entries [OF assms(1,2)] diff_entries [OF assms(3,4)])
  then show ?thesis by (rule diff_determined [OF assms(3,4,1,2)])
qed

theorem diff_exact_witness:
  "diff [(''a'', ''1''), (''b'', ''2'')] [(''b'', ''2''), (''a'', ''1'')] = []"
  using diff_exact [of "[(''a'', ''1''), (''b'', ''2'')]" "[(''b'', ''2''), (''a'', ''1'')]"] by (simp add: fun_eq_iff)

theorem diff_hides_secrets_witness:
  "diff [(''db.password'', ''old''), (''level'', ''60'')] [(''db.password'', ''new''), (''level'', ''80'')]
   = diff [(''db.password'', ''hunter2''), (''level'', ''60'')] [(''db.password'', ''hunter3''), (''level'', ''80'')]"
proof -
  have "isSecret ''db.password''" by code_simp
  then show ?thesis
    by (intro diff_hides_secrets) simp_all
qed

section \<open>Following a configuration\<close>

text \<open>The versions among the texts that are put into effect, and the calls of a hook in a log.\<close>

fun accepted :: "'a codec \<Rightarrow> string list \<Rightarrow> 'a list" where
  "accepted C [] = []"
| "accepted C (s # ss) =
     (if isBlank s then accepted C ss
      else case decode C s of Inl e \<Rightarrow> accepted C ss | Inr (a, u) \<Rightarrow> a # accepted C ss)"

fun calls_of :: "nat \<Rightarrow> 'a value_log list \<Rightarrow> ('a \<times> 'a) list" where
  "calls_of i [] = []"
| "calls_of i (HookCall j a b # l) = (if j = i then (a, b) # calls_of i l else calls_of i l)"
| "calls_of i (_ # l) = calls_of i l"

lemma calls_of_append [simp]: "calls_of i (l @ m) = calls_of i l @ calls_of i m"
  by (induction i l rule: calls_of.induct) auto

lemma calls_of_hooks: "calls_of i (map (\<lambda>j. HookCall j a b) js) = map (\<lambda>_. (a, b)) (filter (\<lambda>j. j = i) js)"
  by (induction js) auto

lemma filter_upt_one: "i < n \<Longrightarrow> filter (\<lambda>j. j = i) [0..<n] = [i]"
  by (induction n) (auto simp: less_Suc_eq filter_empty_conv)

lemma value_changed_ok:
  assumes "\<not> isBlank s" and "decode C s = Inr (a, u)"
  shows "cv_cur (fst (value_changed C s v)) = a \<and> cv_hooks (fst (value_changed C s v)) = cv_hooks v \<and>
    (i < cv_hooks v \<longrightarrow> calls_of i (snd (value_changed C s v)) = [(cv_cur v, a)])"
  using assms by (auto simp: value_changed_def Let_def calls_of_hooks filter_upt_one split: option.splits)

lemma value_changed_refused:
  assumes "isBlank s \<or> (\<exists>e. decode C s = Inl e)"
  shows "fst (value_changed C s v) = v \<and> calls_of i (snd (value_changed C s v)) = []"
  using assms by (auto simp: value_changed_def)

lemma accepted_valid: "a \<in> set (accepted C ss) \<Longrightarrow> validate C a = None"
  by (induction ss) (auto simp: decode_def Let_def split: if_splits sum.splits option.splits prod.splits)

text \<open>
  A bad change never takes effect, and a hook misses none. Whatever texts arrive, in any
  order, the version in effect is the last one that parsed and passed its own check, or the
  one from the start; and every registered hook was called once for each version that took
  effect, in order, with the version before it.
\<close>

lemma value_follows:
  assumes "i < cv_hooks v"
  shows "cv_cur (fst (value_run C ss v)) = last (cv_cur v # accepted C ss) \<and>
    calls_of i (snd (value_run C ss v)) = zip (cv_cur v # accepted C ss) (accepted C ss) \<and>
    list_all (\<lambda>a. validate C a = None) (accepted C ss)"
proof -
  have "cv_cur (fst (value_run C ss v)) = last (cv_cur v # accepted C ss) \<and>
    calls_of i (snd (value_run C ss v)) = zip (cv_cur v # accepted C ss) (accepted C ss)"
    using assms
  proof (induction ss arbitrary: v)
    case Nil
    then show ?case by simp
  next
    case (Cons s ss)
    obtain v1 l1 where s: "value_changed C s v = (v1, l1)" by (cases "value_changed C s v")
    obtain v2 l2 where r: "value_run C ss v1 = (v2, l2)" by (cases "value_run C ss v1")
    show ?case
    proof (cases "isBlank s \<or> (\<exists>e. decode C s = Inl e)")
      case True
      from value_changed_refused [OF True, of v i] s have v1: "v1 = v" "calls_of i l1 = []" by simp_all
      from True have "accepted C (s # ss) = accepted C ss" by auto
      with Cons.IH [OF Cons.prems] v1 r s show ?thesis by simp
    next
      case False
      then obtain a u where d: "\<not> isBlank s" "decode C s = Inr (a, u)" by (cases "decode C s") auto
      from value_changed_ok [OF d, of v i] s Cons.prems
      have "cv_cur v1 = a" "cv_hooks v1 = cv_hooks v" "calls_of i l1 = [(cv_cur v, a)]" by simp_all
      with Cons.IH [of v1] Cons.prems d r s show ?thesis by simp
    qed
  qed
  then show ?thesis using accepted_valid [of _ C ss] by (auto simp: list_all_iff)
qed

theorem value_follows_witness:
  "cv_cur (fst (value_run \<lparr>strict = (\<lambda>s. case parse_nat s of None \<Rightarrow> Inl ''no number'' | Some n \<Rightarrow> Inr n),
       lenient = (\<lambda>s. Inl ''no number''), validate = (\<lambda>n. if n > 100 then Some ''too large'' else None), flat = (\<lambda>s. [(''(value)'', s)])\<rparr>
     [''7'', ''x'', ''500'', ''8'', '' ''] \<lparr>cv_cur = 1, cv_doc = [], cv_text = ''1'', cv_hooks = 1\<rparr>)) = 8"
proof -
  let ?C = "\<lparr>strict = (\<lambda>s. case parse_nat s of None \<Rightarrow> Inl ''no number'' | Some n \<Rightarrow> Inr n),
       lenient = (\<lambda>s. Inl ''no number''), validate = (\<lambda>n. if n > 100 then Some ''too large'' else None), flat = (\<lambda>s. [(''(value)'', s)])\<rparr>
       :: nat codec"
  have "accepted ?C [''7'', ''x'', ''500'', ''8'', '' ''] = [7, 8]" by code_simp
  with value_follows [of 0 "\<lparr>cv_cur = 1, cv_doc = [], cv_text = ''1'', cv_hooks = 1\<rparr>" ?C "[''7'', ''x'', ''500'', ''8'', '' '']"]
  show ?thesis by simp
qed

section \<open>The log of an outage\<close>

text \<open>Losses and restorations take turns; reminders come while the connection is lost.\<close>

fun alternates :: "bool \<Rightarrow> outage_log list \<Rightarrow> bool" where
  "alternates d [] = True"
| "alternates d (Lost c # l) = (\<not> d \<and> alternates True l)"
| "alternates d (Still t n # l) = (d \<and> alternates True l)"
| "alternates d (Restored t n # l) = (d \<and> alternates False l)"

lemma outage_step_log:
  "outage_step e s = (s', l) \<Longrightarrow> alternates (o_down s') m \<Longrightarrow> alternates (o_down s) (l @ m)"
  by (cases e) (auto simp: swallow_def report_def outage_begin_def outage_forget_def Let_def split: if_splits)

text \<open>
  The log of an outage reads in order. Whatever the client library logs and whatever the
  clients report, in any order, "connection lost" and "connection restored" take turns,
  starting from the state the process is in, and a reminder comes only in between.
\<close>

lemma outage_log_alternates: "alternates (o_down s) (outage_run es s)"
proof (induction es arbitrary: s)
  case Nil
  then show ?case by simp
next
  case (Cons e es)
  obtain s' l where st: "outage_step e s = (s', l)" by (cases "outage_step e s")
  from outage_step_log [OF st Cons.IH] show ?case by (simp add: st)
qed

end
