(* ===== verification/ConfigWatch.thy ===== *)
theory ConfigWatch
  imports Nacos "HOL-Library.Sublist"
begin

text \<open>
  One configuration followed for all who asked for it (\<^verbatim>\<open>nacosx/config.go\<close>): reading it,
  the one listener of the SDK, who is told of a change and what of it is logged, and the
  file that stands in for it without a server. MD5, the file system and the SDK are
  arguments. What a \<^verbatim>\<open>Value\<close> makes of the texts it is told is in the theory \<^verbatim>\<open>Nacos\<close>.
\<close>

section \<open>A configuration and those who follow it\<close>

record subscriber =
  sub_id :: nat
  sub_quiet :: bool

record watch =
  w_dataID :: string
  w_group :: string
  w_listening :: bool
  w_sum :: string
  w_content :: string
  w_subs :: "subscriber list"

definition new_watch :: "string \<Rightarrow> string \<Rightarrow> watch" where
  "new_watch dataID grp =
     \<lparr>w_dataID = dataID, w_group = grp, w_listening = False, w_sum = [], w_content = [], w_subs = []\<rparr>"

text \<open>
  What the file system, the client of the SDK and the server answer now, and how a
  configuration is named in an error.
\<close>

datatype file_read = FileText string | NoFile | FileError string

record centre =
  off_line :: bool
  read_file :: "string \<Rightarrow> file_read"
  config_client :: "string option"
  get_config :: "string \<Rightarrow> string \<Rightarrow> string + string"
  listen_config :: "string \<Rightarrow> string \<Rightarrow> string option"
  place :: "string \<Rightarrow> string \<Rightarrow> string"

definition fetch_config :: "centre \<Rightarrow> watch \<Rightarrow> string + string" where
  "fetch_config E w =
     (if w_dataID w = [] then Inl ''nacosx: the data id is empty''
      else if off_line E then
        (case read_file E (w_dataID w) of
           FileText b \<Rightarrow> Inr b
         | NoFile \<Rightarrow> Inr []
         | FileError e \<Rightarrow> Inl (''nacosx: '' @ e))
      else case config_client E of
          Some e \<Rightarrow> Inl e
        | None \<Rightarrow> (case get_config E (w_dataID w) (w_group w) of
            Inl e \<Rightarrow> Inl (''nacosx: read '' @ place E (w_dataID w) (w_group w) @ '': '' @ e)
          | Inr c \<Rightarrow> Inr c))"

definition Get_config :: "centre \<Rightarrow> string \<Rightarrow> string \<Rightarrow> string + string" where
  "Get_config E dataID grp = fetch_config E (new_watch dataID grp)"

definition listen :: "centre \<Rightarrow> watch \<Rightarrow> string option" where
  "listen E w =
     (if off_line E then None
      else case config_client E of
          Some e \<Rightarrow> Some e
        | None \<Rightarrow> map_option (\<lambda>e. ''nacosx: listen to '' @ place E (w_dataID w) (w_group w) @ '': '' @ e)
            (listen_config E (w_dataID w) (w_group w)))"

definition checksum :: "(string \<Rightarrow> string) \<Rightarrow> string \<Rightarrow> string" where
  "checksum md5 c = (if c = [] then [] else md5 c)"

definition short_sum :: "string \<Rightarrow> string" where
  "short_sum s = (if s = [] then ''(none)'' else take 8 s)"

section \<open>Telling the followers\<close>

text \<open>
  What happens, in order: the record of a change (the two checksums, the length), what a
  follower is given when it starts and what it is told, and the record of a handler that
  panicked.
\<close>

datatype watch_event = ConfigGone string string | ConfigNew string string nat
  | Started nat string | Told nat string | HandlerPanicked nat

definition deliver :: "(nat \<Rightarrow> string \<Rightarrow> bool) \<Rightarrow> string \<Rightarrow> subscriber \<Rightarrow> watch_event list" where
  "deliver panics c u = Told (sub_id u) c # (if panics (sub_id u) c then [HandlerPanicked (sub_id u)] else [])"

definition change_record :: "watch \<Rightarrow> string \<Rightarrow> string \<Rightarrow> watch_event list" where
  "change_record w s c =
     (if list_ex (\<lambda>u. \<not> sub_quiet u) (w_subs w)
      then [if c = [] then ConfigGone (short_sum (w_sum w)) (short_sum s)
            else ConfigNew (short_sum (w_sum w)) (short_sum s) (length c)]
      else [])"

definition watch_apply :: "(string \<Rightarrow> string) \<Rightarrow> (nat \<Rightarrow> string \<Rightarrow> bool) \<Rightarrow> string \<Rightarrow> watch \<Rightarrow> watch \<times> watch_event list" where
  "watch_apply md5 panics c w =
     (let s = checksum md5 c
      in if s = w_sum w then (w, [])
         else (w\<lparr>w_content := c, w_sum := s\<rparr>,
               change_record w s c @ concat (map (deliver panics c) (w_subs w))))"

text \<open>A follower is added with what was just read; the first one starts the listener.\<close>

definition follow_with :: "(string \<Rightarrow> string) \<Rightarrow> (nat \<Rightarrow> string \<Rightarrow> bool) \<Rightarrow> string option \<Rightarrow> subscriber \<Rightarrow> string \<Rightarrow> watch
    \<Rightarrow> (string + string) \<times> watch \<times> watch_event list" where
  "follow_with md5 panics listening u c w =
     (if w_listening w then
        (case watch_apply md5 panics c w of (w1, l) \<Rightarrow> (Inr c, w1\<lparr>w_subs := w_subs w1 @ [u]\<rparr>, l))
      else
        (let w1 = w\<lparr>w_content := c, w_sum := checksum md5 c\<rparr>
         in case listening of
              Some e \<Rightarrow> (Inl e, w1, [])
            | None \<Rightarrow> (Inr c, w1\<lparr>w_listening := True, w_subs := w_subs w1 @ [u]\<rparr>, [])))"

definition follow :: "(string \<Rightarrow> string) \<Rightarrow> (nat \<Rightarrow> string \<Rightarrow> bool) \<Rightarrow> centre \<Rightarrow> subscriber \<Rightarrow> watch
    \<Rightarrow> (string + string) \<times> watch \<times> watch_event list" where
  "follow md5 panics E u w =
     (case fetch_config E w of
        Inl e \<Rightarrow> (Inl e, w, [])
      | Inr c \<Rightarrow> follow_with md5 panics (listen E w) u c w)"

fun without_sub :: "nat \<Rightarrow> subscriber list \<Rightarrow> subscriber list" where
  "without_sub i [] = []"
| "without_sub i (u # us) = (if sub_id u = i then us else u # without_sub i us)"

definition unfollow :: "nat \<Rightarrow> watch \<Rightarrow> watch" where
  "unfollow i w = w\<lparr>w_subs := without_sub i (w_subs w)\<rparr>"

text \<open>The listener: what the server says now is preferred to what was pushed.\<close>

definition changed_content :: "centre \<Rightarrow> string \<Rightarrow> watch \<Rightarrow> string" where
  "changed_content E pushed w =
     (if off_line E then pushed else case fetch_config E w of Inl e \<Rightarrow> pushed | Inr c \<Rightarrow> c)"

definition changed :: "(string \<Rightarrow> string) \<Rightarrow> (nat \<Rightarrow> string \<Rightarrow> bool) \<Rightarrow> centre \<Rightarrow> string \<Rightarrow> watch \<Rightarrow> watch \<times> watch_event list" where
  "changed md5 panics E pushed w = watch_apply md5 panics (changed_content E pushed w) w"

section \<open>The client\<close>

record config_client_state =
  cc_closed :: bool
  cc_watches :: "string \<rightharpoonup> watch"

definition watch_key :: "string \<Rightarrow> string \<Rightarrow> string" where
  "watch_key grp dataID = grp @ [CHR 0x00] @ dataID"

definition client_follow :: "(string \<Rightarrow> string) \<Rightarrow> (nat \<Rightarrow> string \<Rightarrow> bool) \<Rightarrow> centre \<Rightarrow> string \<Rightarrow> string \<Rightarrow> subscriber
    \<Rightarrow> config_client_state \<Rightarrow> (string + string) \<times> config_client_state \<times> watch_event list" where
  "client_follow md5 panics E dataID grp u c =
     (if cc_closed c then (Inl ''nacosx: the client is closed'', c, [])
      else
        (let k = watch_key grp dataID;
             w = (case cc_watches c k of Some w \<Rightarrow> w | None \<Rightarrow> new_watch dataID grp)
         in case follow md5 panics E u w of
              (r, w1, l) \<Rightarrow> (r, c\<lparr>cc_watches := (cc_watches c)(k \<mapsto> w1)\<rparr>, l)))"

text \<open>
  A value: it follows, quietly, and lets go again when its first version is of no use.
\<close>

definition Watch_value :: "(string \<Rightarrow> string) \<Rightarrow> (nat \<Rightarrow> string \<Rightarrow> bool) \<Rightarrow> centre \<Rightarrow> 'a codec \<Rightarrow> string \<Rightarrow> string \<Rightarrow> nat
    \<Rightarrow> config_client_state \<Rightarrow> (string + 'a cvalue) \<times> config_client_state \<times> watch_event list" where
  "Watch_value md5 panics E C dataID grp i c =
     (case client_follow md5 panics E dataID grp \<lparr>sub_id = i, sub_quiet = True\<rparr> c of
        (Inl e, c1, l) \<Rightarrow> (Inl e, c1, l)
      | (Inr s, c1, l) \<Rightarrow>
          (case value_load C s of
             Inl e \<Rightarrow> (Inl e, c1\<lparr>cc_watches := (cc_watches c1)(watch_key grp dataID :=
                          map_option (unfollow i) (cc_watches c1 (watch_key grp dataID)))\<rparr>, l)
           | Inr v \<Rightarrow> (Inr v, c1, l)))"

section \<open>The file of an offline configuration\<close>

text \<open>What was last seen of the file: when it was changed and how long it is, or that it is not there.\<close>

definition poll_tick :: "(int \<times> nat) option \<Rightarrow> (int \<times> nat) option \<Rightarrow> (int \<times> nat) option \<times> bool" where
  "poll_tick seen stat =
     (case stat of
        None \<Rightarrow> (case seen of None \<Rightarrow> (None, False) | Some _ \<Rightarrow> (None, True))
      | Some f \<Rightarrow> if seen = Some f then (seen, False) else (Some f, True))"

text \<open>One tick: only when the file looks different is it read, and what was read handed on.\<close>

definition poll_file :: "(string \<Rightarrow> string) \<Rightarrow> (nat \<Rightarrow> string \<Rightarrow> bool) \<Rightarrow> centre \<Rightarrow> (int \<times> nat) option \<Rightarrow> (int \<times> nat) option \<times> watch
    \<Rightarrow> ((int \<times> nat) option \<times> watch) \<times> watch_event list" where
  "poll_file md5 panics E stat s =
     (case poll_tick (fst s) stat of
        (seen, False) \<Rightarrow> ((seen, snd s), [])
      | (seen, True) \<Rightarrow>
          (case fetch_config E (snd s) of
             Inl e \<Rightarrow> ((seen, snd s), [])
           | Inr c \<Rightarrow> (case changed md5 panics E c (snd s) of (w, l) \<Rightarrow> ((seen, w), l))))"

section \<open>Changes, pushes and followers in any order\<close>

text \<open>
  The listener of a push and a call of \<^verbatim>\<open>follow\<close> hold the lock of the watch from the
  reading to the end; the configuration may change on the server at any moment, also in
  between. \<open>h_past\<close>: the contents it has had, the last the one of now. Pushes may arrive
  late, more than once and in any order, so any content of the past may be pushed.
  \<open>h_misread\<close>: a listener could not read, and believed its push.
\<close>

datatype hold = ByPush string | ByFollow subscriber string

fun held :: "hold \<Rightarrow> string" where
  "held (ByPush c) = c"
| "held (ByFollow u c) = c"

record hub =
  h_past :: "string list"
  h_watch :: watch
  h_busy :: "hold option"
  h_misread :: bool
  h_log :: "watch_event list"

definition new_hub :: "string \<Rightarrow> string \<Rightarrow> string \<Rightarrow> hub" where
  "new_hub dataID grp c =
     \<lparr>h_past = [c], h_watch = new_watch dataID grp, h_busy = None, h_misread = False, h_log = []\<rparr>"

text \<open>What a follower was given and told, in order.\<close>

fun views :: "nat \<Rightarrow> watch_event list \<Rightarrow> string list" where
  "views i [] = []"
| "views i (Started j c # l) = (if j = i then c # views i l else views i l)"
| "views i (Told j c # l) = (if j = i then c # views i l else views i l)"
| "views i (_ # l) = views i l"

abbreviation sub_ids :: "watch \<Rightarrow> nat list" where
  "sub_ids w \<equiv> map sub_id (w_subs w)"

text \<open>A server that answers, answers with the content of now.\<close>

definition honest :: "centre \<Rightarrow> hub \<Rightarrow> bool" where
  "honest E S \<longleftrightarrow> \<not> off_line E \<and>
     (case get_config E (w_dataID (h_watch S)) (w_group (h_watch S)) of Inl e \<Rightarrow> True | Inr c \<Rightarrow> c = last (h_past S))"

inductive hub_step :: "(string \<Rightarrow> string) \<Rightarrow> (nat \<Rightarrow> string \<Rightarrow> bool) \<Rightarrow> hub \<Rightarrow> hub \<Rightarrow> bool" for md5 panics where
  Publishes: "hub_step md5 panics S (S\<lparr>h_past := h_past S @ [c]\<rparr>)"
| PushReads: "h_busy S = None \<Longrightarrow> w_listening (h_watch S) \<Longrightarrow> p \<in> set (h_past S) \<Longrightarrow> honest E S \<Longrightarrow>
    hub_step md5 panics S (S\<lparr>h_busy := Some (ByPush (changed_content E p (h_watch S))),
      h_misread := h_misread S \<or> isl (fetch_config E (h_watch S))\<rparr>)"
| PushApplies: "h_busy S = Some (ByPush c) \<Longrightarrow> watch_apply md5 panics c (h_watch S) = (w, l) \<Longrightarrow>
    hub_step md5 panics S (S\<lparr>h_watch := w, h_busy := None, h_log := h_log S @ l\<rparr>)"
| FollowReads: "h_busy S = None \<Longrightarrow> honest E S \<Longrightarrow> fetch_config E (h_watch S) = Inr c \<Longrightarrow>
    sub_id u \<notin> set (sub_ids (h_watch S)) \<Longrightarrow> views (sub_id u) (h_log S) = [] \<Longrightarrow>
    hub_step md5 panics S (S\<lparr>h_busy := Some (ByFollow u c)\<rparr>)"
| FollowEnds: "h_busy S = Some (ByFollow u c) \<Longrightarrow>
    follow_with md5 panics listening u c (h_watch S) = (r, w, l) \<Longrightarrow>
    hub_step md5 panics S (S\<lparr>h_watch := w, h_busy := None,
      h_log := h_log S @ l @ (case r of Inl e \<Rightarrow> [] | Inr c \<Rightarrow> [Started (sub_id u) c])\<rparr>)"
| Unfollows: "h_busy S = None \<Longrightarrow> hub_step md5 panics S (S\<lparr>h_watch := unfollow i (h_watch S)\<rparr>)"

inductive hub_reach :: "(string \<Rightarrow> string) \<Rightarrow> (nat \<Rightarrow> string \<Rightarrow> bool) \<Rightarrow> hub \<Rightarrow> bool" for md5 panics where
  HubNew: "hub_reach md5 panics (new_hub dataID grp c)"
| HubStep: "hub_reach md5 panics S \<Longrightarrow> hub_step md5 panics S T \<Longrightarrow> hub_reach md5 panics T"

section \<open>What the steps keep\<close>

lemma views_append [simp]: "views i (l @ m) = views i l @ views i m"
  by (induction i l rule: views.induct) auto

lemma views_deliver [simp]: "views i (deliver panics c u) = (if sub_id u = i then [c] else [])"
  by (simp add: deliver_def)

lemma views_delivered:
  "distinct (map sub_id us) \<Longrightarrow>
     views i (concat (map (deliver panics c) us)) = (if i \<in> set (map sub_id us) then [c] else [])"
  by (induction us) auto

lemma views_record [simp]: "views i (change_record w s c) = []"
  by (simp add: change_record_def)

lemma views_apply:
  assumes "watch_apply md5 panics c w = (w1, l)" and "distinct (sub_ids w)"
  shows "views i l = (if checksum md5 c \<noteq> w_sum w \<and> i \<in> set (sub_ids w) then [c] else [])"
  using assms views_delivered [of "w_subs w" i panics c] by (auto simp: watch_apply_def Let_def split: if_splits)

lemma watch_apply_watch:
  assumes "watch_apply md5 panics c w = (w1, l)"
  shows "w_subs w1 = w_subs w \<and> w_listening w1 = w_listening w \<and> w_sum w1 = checksum md5 c \<and>
    w_content w1 = (if checksum md5 c = w_sum w then w_content w else c)"
  using assms by (auto simp: watch_apply_def Let_def split: if_splits)

lemma without_sub_ids: "set (map sub_id (without_sub i us)) \<subseteq> set (map sub_id us)"
  by (induction us) auto

lemma without_sub_distinct: "distinct (map sub_id us) \<Longrightarrow> distinct (map sub_id (without_sub i us))"
proof (induction us)
  case (Cons u us)
  with without_sub_ids [of i us] show ?case by auto
qed simp

lemma checksum_inj:
  assumes "inj_on md5 V" and "\<And>c. md5 c \<noteq> []" and "c \<in> V" and "d \<in> V" and "checksum md5 c = checksum md5 d"
  shows "c = d"
proof -
  from assms(2,5) have "c = [] \<longleftrightarrow> d = []" by (metis checksum_def)
  then have "c = d \<or> md5 c = md5 d" using assms(5) by (cases "c = []") (simp_all add: checksum_def)
  with assms(1,3,4) show ?thesis by (auto dest: inj_onD)
qed

lemma subseq_before_new:
  assumes "subseq vs (ys @ [c])" and "vs = [] \<or> last vs \<noteq> c"
  shows "subseq vs ys"
proof -
  from assms(1) obtain v1 v2 where v: "vs = v1 @ v2" "subseq v1 ys" "subseq v2 [c]"
    unfolding subseq_append_iff by blast
  then have "v2 = [] \<or> v2 = [c]" by (cases v2) (auto split: if_splits)
  with assms(2) v show ?thesis by auto
qed

lemma subseq_one_more:
  assumes "subseq vs (take k past)" and "k > 0" and "k \<le> length past" and "past ! (k - 1) = c" and "vs = [] \<or> last vs \<noteq> c"
  shows "subseq (vs @ [c]) (take k past)"
proof -
  obtain j where k: "k = Suc j" using assms(2) by (cases k) auto
  then have t: "take k past = take j past @ [c]"
    using assms(3,4) by (simp add: take_Suc_conv_app_nth)
  with assms(1,5) have "subseq vs (take j past)" by (simp add: subseq_before_new)
  with t show ?thesis by simp
qed

lemma fetch_online:
  assumes "honest E S" and "fetch_config E (h_watch S) = Inr c"
  shows "c = last (h_past S)"
  using assms by (auto simp: honest_def fetch_config_def split: if_splits option.splits sum.splits)

text \<open>
  Who follows has been given the content the watch knows; nobody was told what was not
  once the configuration, nor the same content twice in a row.
\<close>

definition hub_ok :: "(string \<Rightarrow> string) \<Rightarrow> hub \<Rightarrow> bool" where
  "hub_ok md5 S \<longleftrightarrow> h_past S \<noteq> [] \<and> distinct (sub_ids (h_watch S)) \<and>
     (w_subs (h_watch S) \<noteq> [] \<longrightarrow> w_listening (h_watch S)) \<and>
     (w_listening (h_watch S) \<longrightarrow> w_sum (h_watch S) = checksum md5 (w_content (h_watch S)) \<and>
        w_content (h_watch S) \<in> set (h_past S)) \<and>
     (\<forall>i \<in> set (sub_ids (h_watch S)). views i (h_log S) \<noteq> [] \<and> last (views i (h_log S)) = w_content (h_watch S)) \<and>
     (\<forall>i. distinct_adj (views i (h_log S)) \<and> set (views i (h_log S)) \<subseteq> set (h_past S)) \<and>
     (case h_busy S of
        None \<Rightarrow> True
      | Some (ByPush c) \<Rightarrow> c \<in> set (h_past S) \<and> w_listening (h_watch S)
      | Some (ByFollow u c) \<Rightarrow> c \<in> set (h_past S) \<and> sub_id u \<notin> set (sub_ids (h_watch S)) \<and> views (sub_id u) (h_log S) = [])"

lemma hub_okD:
  assumes "hub_ok md5 S"
  shows "h_past S \<noteq> []" "distinct (sub_ids (h_watch S))"
    "w_subs (h_watch S) \<noteq> [] \<Longrightarrow> w_listening (h_watch S)"
    "w_listening (h_watch S) \<Longrightarrow> w_sum (h_watch S) = checksum md5 (w_content (h_watch S))"
    "w_listening (h_watch S) \<Longrightarrow> w_content (h_watch S) \<in> set (h_past S)"
    "i \<in> set (sub_ids (h_watch S)) \<Longrightarrow> views i (h_log S) \<noteq> []"
    "i \<in> set (sub_ids (h_watch S)) \<Longrightarrow> last (views i (h_log S)) = w_content (h_watch S)"
    "distinct_adj (views i (h_log S))" "set (views i (h_log S)) \<subseteq> set (h_past S)"
    "h_busy S = Some (ByPush c) \<Longrightarrow> c \<in> set (h_past S)" "h_busy S = Some (ByPush c) \<Longrightarrow> w_listening (h_watch S)"
    "h_busy S = Some (ByFollow u c) \<Longrightarrow> c \<in> set (h_past S)"
    "h_busy S = Some (ByFollow u c) \<Longrightarrow> sub_id u \<notin> set (sub_ids (h_watch S))"
    "h_busy S = Some (ByFollow u c) \<Longrightarrow> views (sub_id u) (h_log S) = []"
  using assms unfolding hub_ok_def by auto

text \<open>What telling the followers a content of the past does, the checksums telling versions apart.\<close>

lemma apply_keeps:
  assumes ok: "hub_ok md5 S" and inj: "inj_on md5 (set (h_past S))" and ne: "\<And>c. md5 c \<noteq> []"
    and c: "c \<in> set (h_past S)" and li: "w_listening (h_watch S)"
    and ap: "watch_apply md5 panics c (h_watch S) = (w, l)"
  shows "w_content w = c \<and> w_sum w = checksum md5 c \<and>
    views i l = (if c \<noteq> w_content (h_watch S) \<and> i \<in> set (sub_ids (h_watch S)) then [c] else [])"
proof -
  note s = hub_okD(4) [OF ok li] and m = hub_okD(5) [OF ok li]
  have eq: "checksum md5 c = w_sum (h_watch S) \<longleftrightarrow> c = w_content (h_watch S)"
    using checksum_inj [OF inj ne c m] s by auto
  from watch_apply_watch [OF ap] eq have "w_content w = c \<and> w_sum w = checksum md5 c" by (simp split: if_splits)
  moreover from views_apply [OF ap hub_okD(2) [OF ok], of i] eq
  have "views i l = (if c \<noteq> w_content (h_watch S) \<and> i \<in> set (sub_ids (h_watch S)) then [c] else [])" by simp
  ultimately show ?thesis by simp
qed

lemma tell_keeps:
  assumes ok: "hub_ok md5 S" and inj: "inj_on md5 (set (h_past S))" and ne: "\<And>c. md5 c \<noteq> []"
    and c: "c \<in> set (h_past S)" and li: "w_listening (h_watch S)"
    and ap: "watch_apply md5 panics c (h_watch S) = (w, l)"
  shows "hub_ok md5 (S\<lparr>h_watch := w, h_busy := None, h_log := h_log S @ l\<rparr>)"
proof -
  note k = apply_keeps [OF ok inj ne c li ap] and w = watch_apply_watch [OF ap] and d = hub_okD [OF ok]
  have v: "views i (h_log S @ l) = views i (h_log S) @
      (if c \<noteq> w_content (h_watch S) \<and> i \<in> set (sub_ids (h_watch S)) then [c] else [])" for i
    using k [of i] by simp
  have told: "views i (h_log S @ l) \<noteq> [] \<and> last (views i (h_log S @ l)) = c" if "i \<in> set (sub_ids (h_watch S))" for i
    using d(6,7) [OF that] that by (simp only: v) auto
  have adj: "distinct_adj (views i (h_log S @ l))" for i
    using d(6,7,8) [of i] by (simp only: v) (auto simp: distinct_adj_append_iff)
  have past: "set (views i (h_log S @ l)) \<subseteq> set (h_past S)" for i
    using d(9) [of i] c by (simp only: v) auto
  from k w have "w_content w = c" "w_sum w = checksum md5 c" "w_subs w = w_subs (h_watch S)" "w_listening w"
    using li by simp_all
  with told adj past d(1,2) c show ?thesis unfolding hub_ok_def by simp
qed

lemma join_keeps:
  assumes ok: "hub_ok md5 S" and li: "w_listening (h_watch S)" and c: "w_content (h_watch S) = c"
    and u: "sub_id u \<notin> set (sub_ids (h_watch S))" "views (sub_id u) (h_log S) = []" and idle: "h_busy S = None"
  shows "hub_ok md5 (S\<lparr>h_watch := (h_watch S)\<lparr>w_subs := w_subs (h_watch S) @ [u]\<rparr>, h_busy := None,
    h_log := h_log S @ [Started (sub_id u) c]\<rparr>)"
proof -
  note d = hub_okD [OF ok]
  have "views i (h_log S @ [Started (sub_id u) c]) = (if i = sub_id u then [c] else views i (h_log S))" for i
    using u(2) by simp
  with d(1,2,4-9) li c u(1) idle show ?thesis unfolding hub_ok_def by auto
qed

lemma first_keeps:
  assumes ok: "hub_ok md5 S" and li: "\<not> w_listening (h_watch S)" and c: "c \<in> set (h_past S)"
  shows "hub_ok md5 (S\<lparr>h_watch := (h_watch S)\<lparr>w_content := c, w_sum := checksum md5 c, w_listening := b\<rparr>, h_busy := None\<rparr>)"
proof -
  note d = hub_okD [OF ok]
  from d(3) li have "w_subs (h_watch S) = []" by auto
  with d(1,8,9) c show ?thesis unfolding hub_ok_def by auto
qed

lemma changed_content_past:
  assumes "honest E S" and "p \<in> set (h_past S)"
  shows "changed_content E p (h_watch S) \<in> set (h_past S)"
proof (cases "fetch_config E (h_watch S)")
  case (Inr c)
  with fetch_online [OF assms(1) Inr] assms show ?thesis
    by (auto simp: changed_content_def honest_def intro!: last_in_set)
qed (use assms in \<open>simp add: changed_content_def honest_def\<close>)

lemma hub_ok_step:
  assumes "hub_step md5 panics S T" and ok: "hub_ok md5 S" and inj: "inj_on md5 (set (h_past T))" and ne: "\<And>c. md5 c \<noteq> []"
  shows "hub_ok md5 T"
  using assms(1)
proof cases
  case (Publishes c)
  with ok show ?thesis unfolding hub_ok_def by (auto split: option.splits hold.splits)
next
  case (PushReads p E)
  with ok changed_content_past [of E S p] show ?thesis unfolding hub_ok_def by auto
next
  case (PushApplies c w l)
  with inj have "inj_on md5 (set (h_past S))" by simp
  from tell_keeps [OF ok this ne hub_okD(10,11) [OF ok PushApplies(2)] PushApplies(3)] PushApplies(1)
  show ?thesis by simp
next
  case (FollowReads E c u)
  from fetch_online [OF FollowReads(3,4)] hub_okD(1) [OF ok] have "c \<in> set (h_past S)" by simp
  with FollowReads ok show ?thesis unfolding hub_ok_def by auto
next
  case (FollowEnds u c listening r w l)
  note f = hub_okD(12,13,14) [OF ok FollowEnds(2)]
  show ?thesis
  proof (cases "w_listening (h_watch S)")
    case True
    obtain w1 l1 where ap: "watch_apply md5 panics c (h_watch S) = (w1, l1)" by fastforce
    with FollowEnds(3) True have r: "r = Inr c" "w = w1\<lparr>w_subs := w_subs w1 @ [u]\<rparr>" "l = l1"
      by (auto simp: follow_with_def)
    from inj FollowEnds(1) have i: "inj_on md5 (set (h_past S))" by simp
    note k = apply_keeps [OF ok i ne f(1) True ap, of "sub_id u"] and ws = watch_apply_watch [OF ap]
    from k f(2,3) have v: "views (sub_id u) (h_log S @ l1) = []" by simp
    have "hub_ok md5 ((S\<lparr>h_watch := w1, h_busy := None, h_log := h_log S @ l1\<rparr>)\<lparr>h_watch := w1\<lparr>w_subs := w_subs w1 @ [u]\<rparr>,
        h_busy := None, h_log := (h_log S @ l1) @ [Started (sub_id u) c]\<rparr>)"
      using join_keeps [OF tell_keeps [OF ok i ne f(1) True ap], of c u] True k ws f(2) v by simp
    with r FollowEnds(1) show ?thesis by simp
  next
    case False
    note n = first_keeps [OF ok False f(1)]
    show ?thesis
    proof (cases listening)
      case None
      with FollowEnds(3) False have r: "r = Inr c" "l = []"
        "w = (h_watch S)\<lparr>w_content := c, w_sum := checksum md5 c, w_listening := True, w_subs := w_subs (h_watch S) @ [u]\<rparr>"
        by (auto simp: follow_with_def Let_def)
      from join_keeps [OF n [of True], of c u] f(2,3) r FollowEnds(1) show ?thesis by simp
    next
      case (Some e)
      with FollowEnds(3) False have "r = Inl e" "l = []" "w = (h_watch S)\<lparr>w_content := c, w_sum := checksum md5 c, w_listening := False\<rparr>"
        by (auto simp: follow_with_def Let_def)
      with n [of False] FollowEnds(1) show ?thesis by simp
    qed
  qed
next
  case (Unfollows i)
  note d = hub_okD [OF ok]
  have "without_sub i (w_subs (h_watch S)) \<noteq> [] \<Longrightarrow> w_subs (h_watch S) \<noteq> []" by auto
  with Unfollows d(1-9) without_sub_ids [of i "w_subs (h_watch S)"] without_sub_distinct [OF d(2), of i]
  show ?thesis unfolding hub_ok_def unfollow_def by auto
qed

text \<open>
  As long as no listener had to believe its push: all that anybody was told is, in this
  order, part of the past up to some moment, and who holds the lock holds the content of
  that moment.
\<close>

definition hub_order :: "hub \<Rightarrow> bool" where
  "hub_order S \<longleftrightarrow> h_misread S \<or>
     (\<exists>k \<le> length (h_past S). (\<forall>i. subseq (views i (h_log S)) (take k (h_past S))) \<and>
        (case h_busy S of None \<Rightarrow> True | Some a \<Rightarrow> 0 < k \<and> h_past S ! (k - 1) = held a))"

lemma hub_order_reads:
  assumes "hub_order S" and "h_past S \<noteq> []" and "held a = last (h_past S)"
  shows "hub_order (S\<lparr>h_busy := Some a\<rparr>)"
proof -
  have "subseq v (h_past S)" if "subseq v (take k (h_past S))" for v k
    using subseq_rev_drop_many [OF that, of "drop k (h_past S)"] by simp
  with assms(1) have "h_misread S \<or> (\<forall>i. subseq (views i (h_log S)) (h_past S))" unfolding hub_order_def by blast
  with assms(2,3) show ?thesis
    unfolding hub_order_def by (auto intro!: exI [of _ "length (h_past S)"] simp: last_conv_nth)
qed

lemma hub_order_tells:
  assumes "hub_order S" and busy: "h_busy S = Some a"
    and v: "\<And>i. views i l = [] \<or> (views i l = [held a] \<and> (views i (h_log S) = [] \<or> last (views i (h_log S)) \<noteq> held a))"
  shows "hub_order (S\<lparr>h_watch := w, h_busy := None, h_log := h_log S @ l\<rparr>)"
proof (cases "h_misread S")
  case False
  with assms(1) busy obtain k where k: "k \<le> length (h_past S)" "\<And>i. subseq (views i (h_log S)) (take k (h_past S))"
    "0 < k" "h_past S ! (k - 1) = held a" unfolding hub_order_def by auto
  have "subseq (views i (h_log S) @ views i l) (take k (h_past S))" for i
    using v [of i] subseq_one_more [OF k(2) k(3) k(1) k(4), of i] k(2) [of i] by auto
  with k(1) show ?thesis unfolding hub_order_def by (auto intro!: exI [of _ k])
qed (simp add: hub_order_def)

lemma hub_order_step:
  assumes "hub_step md5 panics S T" and ok: "hub_ok md5 S" and ord: "hub_order S"
    and inj: "inj_on md5 (set (h_past T))" and ne: "\<And>c. md5 c \<noteq> []"
  shows "hub_order T"
  using assms(1)
proof cases
  case (Publishes c)
  show ?thesis
  proof (cases "h_misread S")
    case False
    with ord obtain k where k: "k \<le> length (h_past S)" "\<forall>i. subseq (views i (h_log S)) (take k (h_past S))"
      "case h_busy S of None \<Rightarrow> True | Some a \<Rightarrow> 0 < k \<and> h_past S ! (k - 1) = held a" unfolding hub_order_def by blast
    then have "take k (h_past S @ [c]) = take k (h_past S)" "0 < k \<Longrightarrow> (h_past S @ [c]) ! (k - 1) = h_past S ! (k - 1)"
      by (cases k; simp add: nth_append)+
    with k Publishes show ?thesis unfolding hub_order_def by (intro disjI2 exI [of _ k]) (auto split: option.splits)
  qed (use Publishes in \<open>simp add: hub_order_def\<close>)
next
  case (PushReads p E)
  show ?thesis
  proof (cases "fetch_config E (h_watch S)")
    case (Inl e)
    with PushReads(1) show ?thesis by (simp add: hub_order_def)
  next
    case (Inr c)
    with fetch_online [OF PushReads(5) Inr] PushReads(5) have "held (ByPush (changed_content E p (h_watch S))) = last (h_past S)"
      by (simp add: changed_content_def honest_def)
    from hub_order_reads [OF ord hub_okD(1) [OF ok] this] Inr PushReads(1) show ?thesis by simp
  qed
next
  case (PushApplies c w l)
  from inj PushApplies(1) have i: "inj_on md5 (set (h_past S))" by simp
  note k = apply_keeps [OF ok i ne hub_okD(10,11) [OF ok PushApplies(2)] PushApplies(3)]
  have "hub_order (S\<lparr>h_watch := w, h_busy := None, h_log := h_log S @ l\<rparr>)"
    using k hub_okD(7) [OF ok] by (intro hub_order_tells [OF ord PushApplies(2)]) auto
  with PushApplies(1) show ?thesis by simp
next
  case (FollowReads E c u)
  from hub_order_reads [OF ord hub_okD(1) [OF ok], of "ByFollow u c"] fetch_online [OF FollowReads(3,4)] FollowReads(1)
  show ?thesis by simp
next
  case (FollowEnds u c listening r w l)
  note f = hub_okD(12,13,14) [OF ok FollowEnds(2)]
  let ?l = "l @ (case r of Inl e \<Rightarrow> [] | Inr c \<Rightarrow> [Started (sub_id u) c])"
  have "views i ?l = [] \<or> (views i ?l = [held (ByFollow u c)] \<and>
      (views i (h_log S) = [] \<or> last (views i (h_log S)) \<noteq> held (ByFollow u c)))" for i
  proof (cases "w_listening (h_watch S)")
    case True
    obtain w1 l1 where ap: "watch_apply md5 panics c (h_watch S) = (w1, l1)" by fastforce
    with FollowEnds(3) True have r: "r = Inr c" "l = l1" by (auto simp: follow_with_def)
    from inj FollowEnds(1) have j: "inj_on md5 (set (h_past S))" by simp
    from apply_keeps [OF ok j ne f(1) True ap, of i] r f(2,3) hub_okD(7) [OF ok, of i] show ?thesis by auto
  next
    case False
    with FollowEnds(3) have "l = []" "r = Inr c \<or> (\<exists>e. r = Inl e)"
      by (auto simp: follow_with_def Let_def split: option.splits)
    with f(3) show ?thesis by (cases "i = sub_id u") auto
  qed
  from hub_order_tells [OF ord FollowEnds(2), of ?l w, OF this] FollowEnds(1) show ?thesis by simp
next
  case (Unfollows i)
  with ord show ?thesis by (simp add: hub_order_def)
qed

lemma hub_step_past:
  assumes "hub_step md5 panics S T"
  shows "set (h_past S) \<subseteq> set (h_past T)"
  using assms by cases auto

lemma hub_reach_inv:
  assumes "hub_reach md5 panics S" and ne: "\<And>c. md5 c \<noteq> []" and "inj_on md5 (set (h_past S))"
  shows "hub_ok md5 S \<and> hub_order S"
  using assms(1,3)
proof induction
  case (HubNew dataID grp c)
  show ?case by (auto simp: hub_ok_def hub_order_def new_hub_def new_watch_def)
next
  case (HubStep S T)
  from inj_on_subset [OF HubStep.prems hub_step_past [OF HubStep.hyps(2)]] HubStep.IH
  have "hub_ok md5 S" "hub_order S" by simp_all
  with hub_ok_step [OF HubStep.hyps(2) _ HubStep.prems ne] hub_order_step [OF HubStep.hyps(2) _ _ HubStep.prems ne]
  show ?case by simp
qed

section \<open>Everybody hears of the changes in order\<close>

text \<open>
  C37. Those who follow a configuration hear of its changes one after the other and in order.
  However the changes on the server, late, repeated or overtaking pushes, subscriptions and
  departures interleave, everybody who follows has been given last the content the watch
  knows; nobody is told the same content twice in a row, or anything the configuration never
  was; and as long as the listener could read what the server says instead of believing its
  push, what each follower was told is a subsequence of what the configuration was, in that
  order. MD5 is taken to tell the versions of this configuration apart.
\<close>

theorem followers_in_order:
  assumes "hub_reach md5 panics S" and "\<And>c. md5 c \<noteq> []" and "inj_on md5 (set (h_past S))"
  shows "(i \<in> set (sub_ids (h_watch S)) \<longrightarrow> views i (h_log S) \<noteq> [] \<and> last (views i (h_log S)) = w_content (h_watch S)) \<and>
    distinct_adj (views i (h_log S)) \<and> set (views i (h_log S)) \<subseteq> set (h_past S) \<and>
    (\<not> h_misread S \<longrightarrow> subseq (views i (h_log S)) (h_past S))"
proof -
  from hub_reach_inv [OF assms] have ok: "hub_ok md5 S" and ord: "hub_order S" by simp_all
  have "subseq (views i (h_log S)) (h_past S)" if "\<not> h_misread S"
  proof -
    from ord that obtain k where "subseq (views i (h_log S)) (take k (h_past S))" unfolding hub_order_def by blast
    from subseq_rev_drop_many [OF this, of "drop k (h_past S)"] show ?thesis by simp
  qed
  with hub_okD(6-9) [OF ok, of i] show ?thesis by simp
qed

text \<open>The listener of a push, from the reading to the end, when the server answers.\<close>

lemma changed_reaches:
  assumes "hub_reach md5 panics S" and "h_busy S = None" and "w_listening (h_watch S)" and "p \<in> set (h_past S)" and "honest E S"
    and "changed md5 panics E p (h_watch S) = (w, l)"
  shows "hub_reach md5 panics (S\<lparr>h_misread := h_misread S \<or> isl (fetch_config E (h_watch S)), h_watch := w, h_busy := None,
    h_log := h_log S @ l\<rparr>)"
proof -
  from hub_reach.HubStep [OF assms(1) hub_step.PushReads [OF assms(2-5)]]
  have "hub_reach md5 panics (S\<lparr>h_busy := Some (ByPush (changed_content E p (h_watch S))),
      h_misread := h_misread S \<or> isl (fetch_config E (h_watch S))\<rparr>)" .
  from hub_reach.HubStep [OF this hub_step.PushApplies] assms(6) show ?thesis by (simp add: changed_def)
qed

lemma value_run_cur: "cv_cur (fst (value_run C ss v)) = last (cv_cur v # accepted C ss)"
proof (induction ss arbitrary: v)
  case (Cons s ss)
  obtain v1 l1 where s: "value_changed C s v = (v1, l1)" by fastforce
  obtain v2 l2 where r: "value_run C ss v1 = (v2, l2)" by fastforce
  show ?case
  proof (cases "isBlank s \<or> (\<exists>e. decode C s = Inl e)")
    case True
    with value_changed_refused [OF True, of v] s Cons.IH [of v] r show ?thesis by auto
  next
    case False
    then obtain a u where d: "\<not> isBlank s" "decode C s = Inr (a, u)" by (cases "decode C s") auto
    with value_changed_ok [OF d, of v] s Cons.IH [of v1] r show ?thesis by simp
  qed
qed simp

lemma value_load_accepted: "value_load C s = Inr v \<Longrightarrow> accepted C [s] = [cv_cur v]"
  by (auto simp: value_load_def split: if_splits sum.splits)

lemma accepted_append: "accepted C (ss @ ts) = accepted C ss @ accepted C ts"
  by (induction ss) (auto split: sum.splits)

text \<open>
  C38. The configuration in effect is the one the server has. Whatever happened before, once
  the listener of any push, however old, has run while the server answered, the last text a
  value was told is the content of the server; the version in effect is the last of all it
  was told that parsed and passed its own check; so when the content of the server does,
  that is the version in effect.
\<close>

theorem configuration_in_effect:
  assumes "hub_reach md5 panics S" and "\<And>c. md5 c \<noteq> []" and "inj_on md5 (set (h_past S))"
    and "h_busy S = None" and "p \<in> set (h_past S)" and "honest E S" and "fetch_config E (h_watch S) = Inr c"
    and "i \<in> set (sub_ids (h_watch S))" and "value_load C (hd (views i (h_log S))) = Inr v"
    and "changed md5 panics E p (h_watch S) = (w, l)"
  shows "last (views i (h_log S @ l)) = last (h_past S) \<and>
    cv_cur (fst (value_run C (tl (views i (h_log S @ l))) v)) = last (accepted C (views i (h_log S @ l))) \<and>
    (\<forall>a u. \<not> isBlank (last (h_past S)) \<and> decode C (last (h_past S)) = Inr (a, u) \<longrightarrow>
       cv_cur (fst (value_run C (tl (views i (h_log S @ l))) v)) = a)"
proof -
  let ?vs = "views i (h_log S @ l)"
  note ok = hub_reach_inv [OF assms(1-3), THEN conjunct1]
  from assms(8) hub_okD(3) [OF ok] have li: "w_listening (h_watch S)" by (cases "w_subs (h_watch S)") auto
  have c: "changed_content E p (h_watch S) = last (h_past S)"
    using assms(6,7) fetch_online [OF assms(6,7)] by (simp add: changed_content_def honest_def)
  with assms(10) have ap: "watch_apply md5 panics (last (h_past S)) (h_watch S) = (w, l)" by (simp add: changed_def)
  have "last (h_past S) \<in> set (h_past S)" using hub_okD(1) [OF ok] by simp
  note k = apply_keeps [OF ok assms(3,2) this li ap, of i]
  from k hub_okD(6,7) [OF ok assms(8)] assms(8) have l: "last ?vs = last (h_past S)" by auto
  have vs: "hd ?vs # tl ?vs = ?vs" "hd ?vs = hd (views i (h_log S))" using hub_okD(6) [OF ok assms(8)] by simp_all
  have "accepted C (hd ?vs # tl ?vs) = accepted C [hd ?vs] @ accepted C (tl ?vs)"
    using accepted_append [of C "[hd ?vs]" "tl ?vs"] by (simp only: append_Cons append_Nil)
  with value_load_accepted [OF assms(9)] vs have acc: "accepted C ?vs = cv_cur v # accepted C (tl ?vs)"
    by (simp only: append_Cons append_Nil)
  with value_run_cur [of C "tl ?vs" v] have cur: "cv_cur (fst (value_run C (tl ?vs) v)) = last (accepted C ?vs)" by simp
  have "last (accepted C ?vs) = a" if "\<not> isBlank (last (h_past S))" "decode C (last (h_past S)) = Inr (a, u)" for a u
  proof -
    have "?vs = butlast ?vs @ [last (h_past S)]" using l vs(1) append_butlast_last_id [of ?vs] by (metis list.distinct(1))
    with accepted_append [of C "butlast ?vs" "[last (h_past S)]"] that show ?thesis by simp
  qed
  with l cur show ?thesis by auto
qed

section \<open>Values that cannot be used, and files\<close>

text \<open>A value whose first version is of no use does not go on following.\<close>

lemma without_sub_gone: "distinct (map sub_id us) \<Longrightarrow> i \<notin> set (map sub_id (without_sub i us))"
  by (induction us) auto

lemma follow_distinct:
  assumes "follow md5 panics E u w = (Inr c, w1, l)" and "distinct (sub_ids w)" and "sub_id u \<notin> set (sub_ids w)"
  shows "distinct (sub_ids w1)"
proof -
  from assms(1) have f: "follow_with md5 panics (listen E w) u c w = (Inr c, w1, l)"
    by (auto simp: follow_def follow_with_def Let_def split: sum.splits if_splits prod.splits option.splits)
  obtain w2 l2 where ap: "watch_apply md5 panics c w = (w2, l2)" by fastforce
  from f watch_apply_watch [OF ap] ap have "w_subs w1 = w_subs w @ [u]"
    by (auto simp: follow_with_def Let_def split: if_splits option.splits)
  with assms(2,3) show ?thesis by simp
qed

lemma refused_value_leaves:
  assumes "Watch_value md5 panics E C dataID grp i c = (Inl e, c1, l)"
    and "\<And>w. cc_watches c (watch_key grp dataID) = Some w \<Longrightarrow> distinct (sub_ids w) \<and> i \<notin> set (sub_ids w)"
    and "cc_watches c1 (watch_key grp dataID) = Some w1"
  shows "i \<notin> set (sub_ids w1)"
proof -
  let ?k = "watch_key grp dataID" and ?u = "\<lparr>sub_id = i, sub_quiet = True\<rparr>"
  define w where "w = (case cc_watches c ?k of Some w \<Rightarrow> w | None \<Rightarrow> new_watch dataID grp)"
  have w: "distinct (sub_ids w)" "i \<notin> set (sub_ids w)"
    using assms(2) by (auto simp: w_def new_watch_def split: option.splits)
  show ?thesis
  proof (cases "cc_closed c")
    case True
    with assms show ?thesis by (auto simp: Watch_value_def client_follow_def)
  next
    case False
    obtain r w2 l2 where f: "follow md5 panics E ?u w = (r, w2, l2)" by (metis prod_cases3)
    with False have cf: "client_follow md5 panics E dataID grp ?u c = (r, c\<lparr>cc_watches := (cc_watches c)(?k \<mapsto> w2)\<rparr>, l2)"
      by (simp add: client_follow_def w_def Let_def)
    show ?thesis
    proof (cases r)
      case (Inl e')
      with assms(1,3) cf have "w1 = w2" by (simp add: Watch_value_def) (auto simp: fun_upd_same)
      moreover from f Inl have "w_subs w2 = w_subs w"
        by (auto simp: follow_def follow_with_def Let_def split: sum.splits if_splits prod.splits option.splits)
      ultimately show ?thesis using w by simp
    next
      case (Inr s)
      with f follow_distinct [of md5 panics E ?u w s w2 l2] w have d: "distinct (sub_ids w2)" by simp
      from assms(1,3) cf Inr have "w1 = unfollow i w2"
        by (auto simp: Watch_value_def split: sum.splits)
      with without_sub_gone [OF d] show ?thesis by (simp add: unfollow_def)
    qed
  qed
qed

text \<open>A file that looks different at a tick, and can be read, is in effect after it.\<close>

lemma edited_file_followed:
  assumes "off_line E" and "stat \<noteq> seen" and "fetch_config E w = Inr b" and "w_sum w = checksum md5 (w_content w)"
    and "\<And>c. md5 c \<noteq> []" and "inj_on md5 {w_content w, b}" and "distinct (sub_ids w)"
    and "poll_file md5 panics E stat (seen, w) = ((seen1, w1), l)"
  shows "seen1 = stat \<and> w_content w1 = b \<and>
    views i l = (if b \<noteq> w_content w \<and> i \<in> set (sub_ids w) then [b] else [])"
proof -
  have t: "poll_tick seen stat = (stat, True)"
    using assms(2) by (auto simp: poll_tick_def split: option.splits)
  from assms(1,3,8) t have ap: "watch_apply md5 panics b w = (w1, l)" and s: "seen1 = stat"
    by (auto simp: poll_file_def changed_def changed_content_def split: prod.splits)
  have eq: "checksum md5 b = w_sum w \<longleftrightarrow> b = w_content w"
    using checksum_inj [OF assms(6,5), of b "w_content w"] assms(4) by auto
  with watch_apply_watch [OF ap] views_apply [OF ap assms(7), of i] s show ?thesis by auto
qed

section \<open>A run\<close>

text \<open>A server with a content, and one that does not answer.\<close>

definition server_with :: "string \<Rightarrow> centre" where
  "server_with c = \<lparr>off_line = False, read_file = (\<lambda>_. NoFile), config_client = None, get_config = (\<lambda>_ _. Inr c),
     listen_config = (\<lambda>_ _. None), place = (\<lambda>d g. d)\<rparr>"

definition server_down :: centre where
  "server_down = (server_with [])\<lparr>get_config := (\<lambda>_ _. Inl ''no connection'')\<rparr>"

definition ex_watch :: "string \<Rightarrow> watch" where
  "ex_watch c = \<lparr>w_dataID = ''max.yaml'', w_group = ''shop'', w_listening = True, w_sum = CHR ''m'' # c, w_content = c,
     w_subs = [\<lparr>sub_id = 1, sub_quiet = True\<rparr>]\<rparr>"

definition ex_hub :: "string list \<Rightarrow> string \<Rightarrow> bool \<Rightarrow> watch_event list \<Rightarrow> hub" where
  "ex_hub past c mis log = \<lparr>h_past = past, h_watch = ex_watch c, h_busy = None, h_misread = mis, h_log = log\<rparr>"

lemma ex_followed: "hub_reach (Cons CHR ''m'') (\<lambda>_ _. False) (ex_hub [''7''] ''7'' False [Started 1 ''7''])"
proof -
  let ?u = "\<lparr>sub_id = 1, sub_quiet = True\<rparr>" and ?S = "new_hub ''max.yaml'' ''shop'' ''7''"
  have f: "fetch_config (server_with ''7'') (h_watch ?S) = Inr ''7''" and h: "honest (server_with ''7'') ?S"
    by (simp_all add: fetch_config_def server_with_def new_hub_def new_watch_def honest_def)
  have "hub_reach (Cons CHR ''m'') (\<lambda>_ _. False) (?S\<lparr>h_busy := Some (ByFollow ?u ''7'')\<rparr>)"
    by (rule hub_reach.HubStep [OF hub_reach.HubNew hub_step.FollowReads [OF _ h f]]) (simp_all add: new_hub_def new_watch_def)
  from hub_reach.HubStep [OF this hub_step.FollowEnds [of _ ?u "''7''" _ _ None "Inr ''7''" "ex_watch ''7''" "[]"]]
  show ?thesis
    by (simp add: follow_with_def new_hub_def new_watch_def ex_watch_def ex_hub_def checksum_def Let_def)
qed

lemma ex_publish:
  "hub_reach m p (ex_hub past c mis log) \<Longrightarrow> hub_reach m p (ex_hub (past @ [d]) c mis log)"
  using hub_reach.HubStep [OF _ hub_step.Publishes [of m p _ d]] by (fastforce simp: ex_hub_def)

lemma ex_push_unread:
  assumes "hub_reach (Cons CHR ''m'') (\<lambda>_ _. False) (ex_hub past c mis log)" and "d \<in> set past" and "d \<noteq> c" and "d \<noteq> []"
  shows "hub_reach (Cons CHR ''m'') (\<lambda>_ _. False) (ex_hub past d True (log @ [Told 1 d]))"
proof -
  have c: "changed (Cons CHR ''m'') (\<lambda>_ _. False) server_down d (ex_watch c) = (ex_watch d, [Told 1 d])"
    using assms(3,4) by (simp add: changed_def changed_content_def fetch_config_def server_down_def server_with_def ex_watch_def
        watch_apply_def checksum_def change_record_def deliver_def)
  have "fetch_config server_down (ex_watch c) = Inl (''nacosx: read '' @ ''max.yaml'' @ '': '' @ ''no connection'')"
    by (simp add: fetch_config_def server_down_def server_with_def ex_watch_def)
  with changed_reaches [OF assms(1) _ _ _ _, of d server_down "ex_watch d" "[Told 1 d]"] c assms(2)
  show ?thesis by (simp add: ex_hub_def honest_def server_down_def server_with_def) (simp add: ex_watch_def)
qed

text \<open>
  When the server cannot be asked, a listener believes its push: of two pushes that
  overtook each other the older one wins, and stays.
\<close>

lemma unread_push_goes_back:
  "\<exists>S. hub_reach (Cons CHR ''m'') (\<lambda>_ _. False) S \<and> h_past S = [''7'', ''8'', ''9''] \<and>
     views 1 (h_log S) = [''7'', ''9'', ''8''] \<and> w_content (h_watch S) = ''8'' \<and> h_busy S = None"
proof -
  have "hub_reach (Cons CHR ''m'') (\<lambda>_ _. False) (ex_hub [''7'', ''8'', ''9''] ''7'' False [Started 1 ''7''])"
    using ex_publish [OF ex_publish [OF ex_followed, of "''8''"], of "''9''"] by simp
  from ex_push_unread [OF ex_push_unread [OF this, of "''9''"], of "''8''"]
  have "hub_reach (Cons CHR ''m'') (\<lambda>_ _. False) (ex_hub [''7'', ''8'', ''9''] ''8'' True [Started 1 ''7'', Told 1 ''9'', Told 1 ''8''])"
    by simp
  then show ?thesis by (intro exI conjI) (assumption, simp_all add: ex_hub_def ex_watch_def)
qed

theorem followers_in_order_witness:
  "distinct_adj (views 1 [Started 1 ''7'', Told 1 ''9'']) \<and>
   hub_reach (Cons CHR ''m'') (\<lambda>_ _. False) (ex_hub [''7'', ''9''] ''9'' True [Started 1 ''7'', Told 1 ''9''])"
proof -
  have "hub_reach (Cons CHR ''m'') (\<lambda>_ _. False) (ex_hub [''7'', ''9''] ''7'' False [Started 1 ''7''])"
    using ex_publish [OF ex_followed, of "''9''"] by simp
  from ex_push_unread [OF this, of "''9''"]
  have r: "hub_reach (Cons CHR ''m'') (\<lambda>_ _. False) (ex_hub [''7'', ''9''] ''9'' True [Started 1 ''7'', Told 1 ''9''])" by simp
  from followers_in_order [OF r, of 1] r show ?thesis by (simp add: ex_hub_def)
qed

theorem configuration_in_effect_witness:
  "cv_cur (fst (value_run \<lparr>strict = (\<lambda>s. case parse_nat s of None \<Rightarrow> Inl ''no number'' | Some n \<Rightarrow> Inr n),
       lenient = (\<lambda>s. Inl ''no number''), validate = (\<lambda>n. if n > 100 then Some ''too large'' else None), flat = (\<lambda>s. [(''(value)'', s)])\<rparr>
     [''8''] \<lparr>cv_cur = 7, cv_doc = [(''(value)'', ''7'')], cv_text = ''7'', cv_hooks = 0\<rparr>)) = 8"
proof -
  let ?C = "\<lparr>strict = (\<lambda>s. case parse_nat s of None \<Rightarrow> Inl ''no number'' | Some n \<Rightarrow> Inr n),
       lenient = (\<lambda>s. Inl ''no number''), validate = (\<lambda>n. if n > 100 then Some ''too large'' else None), flat = (\<lambda>s. [(''(value)'', s)])\<rparr>
       :: nat codec"
  let ?S = "ex_hub [''7'', ''8''] ''7'' False [Started 1 ''7'']"
  have r: "hub_reach (Cons CHR ''m'') (\<lambda>_ _. False) ?S"
    using ex_publish [OF ex_followed, of "''8''"] by simp
  have h: "honest (server_with ''8'') ?S" and f: "fetch_config (server_with ''8'') (h_watch ?S) = Inr ''8''"
    by (simp_all add: honest_def fetch_config_def server_with_def ex_hub_def ex_watch_def)
  have v: "value_load ?C ''7'' = Inr \<lparr>cv_cur = 7, cv_doc = [(''(value)'', ''7'')], cv_text = ''7'', cv_hooks = 0\<rparr>"
    and d: "\<not> isBlank ''8''" "decode ?C ''8'' = Inr (8, None)" by code_simp+
  have c: "changed (Cons CHR ''m'') (\<lambda>_ _. False) (server_with ''8'') ''7'' (h_watch ?S) = (ex_watch ''8'', [Told 1 ''8''])"
    by (simp add: changed_def changed_content_def fetch_config_def server_with_def ex_hub_def ex_watch_def watch_apply_def
        checksum_def change_record_def deliver_def)
  have i: "1 \<in> set (sub_ids (h_watch ?S))" and p: "''7'' \<in> set (h_past ?S)" and b: "h_busy ?S = None"
    and vs: "views 1 (h_log ?S) = [''7'']" and la: "last (h_past ?S) = ''8''" "h_log ?S = [Started 1 ''7'']"
    by (simp_all add: ex_hub_def ex_watch_def)
  have vs2: "tl (views 1 (h_log ?S @ [Told 1 ''8''])) = [''8'']" unfolding la by simp
  from vs v have v': "value_load ?C (hd (views 1 (h_log ?S))) = Inr \<lparr>cv_cur = 7, cv_doc = [(''(value)'', ''7'')], cv_text = ''7'', cv_hooks = 0\<rparr>"
    by (simp only: list.sel)
  have ne: "\<And>c. CHR ''m'' # c \<noteq> []" and inj: "inj_on (Cons CHR ''m'') (set (h_past ?S))" by (simp_all add: inj_on_def)
  note e = configuration_in_effect [OF r ne inj b p h f i v' c, unfolded vs2 la(1), THEN conjunct2, THEN conjunct2]
  from e [rule_format, OF conjI, OF d] show ?thesis .
qed

end
