(* ===== verification/Jobx.thy ===== *)
theory Jobx
  imports Redis
begin

text \<open>
  Scheduled jobs, \<^verbatim>\<open>jobx/jobx.go\<close>: the check of a service's list of jobs, the list it
  prints, and one run of a job under the lock that keeps two runs apart. \<^verbatim>\<open>Execute\<close> is a
  function of the world; runs of one job that overlap are a step relation with a clock.
  The parser of cron schedules is a parameter. Times are in milliseconds.
\<close>

section \<open>Jobs and their list\<close>

text \<open>How the function of a job ended.\<close>

datatype job_end = Done | Failed string | Panics string

text \<open>
  \<open>j_Run\<close> is \<^verbatim>\<open>None\<close> when the job has no function. The function says how it ended and
  whether the deadline of its context had passed by then.
\<close>

record 'w job =
  j_Name :: string
  j_Schedule :: string
  j_Timeout :: int
  j_Description :: string
  j_Run :: "('w \<Rightarrow> (job_end \<times> bool) \<times> 'w) option"

record job_spec =
  sp_Name :: string
  sp_Schedule :: string
  sp_TimeoutSeconds :: int
  sp_Description :: string

definition defaultTimeout :: int where "defaultTimeout = 10 * 60000"
definition lockTTLSlack :: int where "lockTTLSlack = 60000"

definition job_timeout :: "'w job \<Rightarrow> int" where
  "job_timeout j = (if j_Timeout j > 0 then j_Timeout j else defaultTimeout)"

definition lower_alnum :: "char \<Rightarrow> bool" where
  "lower_alnum c = (let n = of_char c :: nat in (97 \<le> n \<and> n \<le> 122) \<or> (48 \<le> n \<and> n \<le> 57))"

text \<open>
  The pattern: one letter or digit, then nothing or at most 61 letters, digits and dashes
  with a letter or digit after them. \<open>butlast\<close> is the run of the middle, which is tried at
  every length.
\<close>

definition nameRE :: "string \<Rightarrow> bool" where
  "nameRE s = (case s of
      [] \<Rightarrow> False
    | c # r \<Rightarrow> lower_alnum c \<and>
        (r = [] \<or> (length (butlast r) \<le> 61 \<and> list_all (\<lambda>x. lower_alnum x \<or> x = CHR ''-'') (butlast r)
                  \<and> lower_alnum (last r))))"

datatype job_error = BadName string | Twice string | BadSchedule string string string | NoRun string
  | NoJob string "string list" | JobLock redis_err | JobLocked | TimedOut string int string | JobFailed string

fun validate_from :: "(string \<Rightarrow> string option) \<Rightarrow> string list \<Rightarrow> 'w job list \<Rightarrow> job_error option" where
  "validate_from cron_error seen [] = None"
| "validate_from cron_error seen (j # js) =
     (if \<not> nameRE (j_Name j) then Some (BadName (j_Name j))
      else if j_Name j \<in> set seen then Some (Twice (j_Name j))
      else (case cron_error (j_Schedule j) of
          Some e \<Rightarrow> Some (BadSchedule (j_Name j) (j_Schedule j) e)
        | None \<Rightarrow> if j_Run j = None then Some (NoRun (j_Name j))
                  else validate_from cron_error (j_Name j # seen) js))"

definition Validate :: "(string \<Rightarrow> string option) \<Rightarrow> 'w job list \<Rightarrow> job_error option" where
  "Validate cron_error jobs = validate_from cron_error [] jobs"

definition Specs :: "'w job list \<Rightarrow> job_spec list" where
  "Specs jobs = map (\<lambda>j. \<lparr>sp_Name = j_Name j, sp_Schedule = j_Schedule j,
     sp_TimeoutSeconds = job_timeout j div 1000, sp_Description = j_Description j\<rparr>) jobs"

definition WriteList :: "(string \<Rightarrow> string option) \<Rightarrow> 'w job list \<Rightarrow> job_error + job_spec list" where
  "WriteList cron_error jobs = (case Validate cron_error jobs of Some e \<Rightarrow> Inl e | None \<Rightarrow> Inr (Specs jobs))"

definition Find :: "'w job list \<Rightarrow> string \<Rightarrow> job_error + 'w job" where
  "Find jobs name = (case find (\<lambda>j. j_Name j = name) jobs of
      Some j \<Rightarrow> Inr j | None \<Rightarrow> Inl (NoJob name (map j_Name jobs)))"

section \<open>One run\<close>

definition jobKey :: "string \<Rightarrow> string \<Rightarrow> string" where
  "jobKey service name = ''job:'' @ service @ '':'' @ name"

definition runSafely :: "('w \<Rightarrow> (job_end \<times> bool) \<times> 'w) \<Rightarrow> 'w \<Rightarrow> (string option \<times> bool) \<times> 'w" where
  "runSafely f w = (case f w of
      ((Done, late), w') \<Rightarrow> ((None, late), w')
    | ((Failed e, late), w') \<Rightarrow> ((Some e, late), w')
    | ((Panics p, late), w') \<Rightarrow> ((Some (''job panicked: '' @ p), late), w'))"

text \<open>What the process exits with: an error after the deadline is a timeout.\<close>

definition run_result :: "'w job \<Rightarrow> string option \<Rightarrow> bool \<Rightarrow> job_error option" where
  "run_result j err late = (case err of
      None \<Rightarrow> None
    | Some e \<Rightarrow> Some (if late then TimedOut (j_Name j) (job_timeout j) e else JobFailed e))"

text \<open>
  Taking the lock and giving it back: the value is the id of the run, and the lock lives
  for the timeout and a minute; it is given back with a plain DEL.
\<close>

definition job_claim :: "'w exec \<Rightarrow> string \<Rightarrow> string \<Rightarrow> int \<Rightarrow> 'w \<Rightarrow> (redis_err + bool) \<times> 'w" where
  "job_claim exec key runID lasts w = r_setnx exec key runID (lasts + lockTTLSlack) w"

definition job_release :: "'w exec \<Rightarrow> string \<Rightarrow> 'w \<Rightarrow> 'w" where
  "job_release exec key w = snd (r_del exec [key] w)"

definition run_job :: "'w job \<Rightarrow> 'w \<Rightarrow> job_error option \<times> 'w" where
  "run_job j w = (case j_Run j of
      None \<Rightarrow> (None, w)
    | Some f \<Rightarrow> (case runSafely f w of ((err, late), w') \<Rightarrow> (run_result j err late, w')))"

definition Execute ::
  "(string \<Rightarrow> string option) \<Rightarrow> string \<Rightarrow> 'w job list \<Rightarrow> string \<Rightarrow> 'w exec option \<Rightarrow> string \<Rightarrow> 'w \<Rightarrow>
   job_error option \<times> 'w" where
  "Execute cron_error service jobs name lock runID w =
     (case Validate cron_error jobs of
        Some e \<Rightarrow> (Some e, w)
      | None \<Rightarrow>
         (case Find jobs name of
            Inl e \<Rightarrow> (Some e, w)
          | Inr j \<Rightarrow>
             (case lock of
                None \<Rightarrow> run_job j w
              | Some exec \<Rightarrow>
                 (let key = jobKey service (j_Name j)
                  in case job_claim exec key runID (job_timeout j) w of
                       (Inl e, w1) \<Rightarrow> (Some (JobLock e), w1)
                     | (Inr False, w1) \<Rightarrow> (Some JobLocked, w1)
                     | (Inr True, w1) \<Rightarrow>
                         (case run_job j w1 of (r, w2) \<Rightarrow> (r, job_release exec key w2))))))"

section \<open>Runs that overlap\<close>

text \<open>
  The runs of one job on any number of machines: the live keys, a clock, when the lock of
  the job runs out, the start of every run at work, and the ids used so far. \<open>overran\<close>
  records that a run was still at work when its time and the minute after it were over.
\<close>

record jstate =
  j_keys :: rstate
  j_clock :: int
  j_due :: int
  j_working :: "(string \<times> int) list"
  j_used :: "string set"
  overran :: bool

datatype jevent =
    Starts string   \<comment> \<open>a process of the CronJob, with its run id\<close>
  | Ends string     \<comment> \<open>the function returned, failed or panicked\<close>
  | Killed string   \<comment> \<open>the process went away, or Redis did not answer its DEL\<close>
  | Passes nat      \<comment> \<open>time\<close>

fun jstep :: "string \<Rightarrow> int \<Rightarrow> jevent \<Rightarrow> jstate \<Rightarrow> jstate" where
  "jstep key lasts (Starts i) st =
     (if i \<in> j_used st then st
      else (case job_claim live_exec key i lasts (j_keys st) of
          (Inr True, k) \<Rightarrow> st\<lparr>j_keys := k, j_due := j_clock st + lasts + lockTTLSlack,
             j_working := (i, j_clock st) # j_working st, j_used := insert i (j_used st)\<rparr>
        | (_, k) \<Rightarrow> st\<lparr>j_keys := k, j_used := insert i (j_used st)\<rparr>))"
| "jstep key lasts (Ends i) st =
     (if i \<in> fst ` set (j_working st)
      then st\<lparr>j_working := filter (\<lambda>(x, t). x \<noteq> i) (j_working st),
              j_keys := job_release live_exec key (j_keys st)\<rparr>
      else st)"
| "jstep key lasts (Killed i) st = st\<lparr>j_working := filter (\<lambda>(x, t). x \<noteq> i) (j_working st)\<rparr>"
| "jstep key lasts (Passes d) st =
     (let now = j_clock st + int d
      in st\<lparr>j_clock := now,
            j_keys := (if j_due st \<le> now then del_key key (j_keys st) else j_keys st),
            overran := (overran st \<or> list_ex (\<lambda>(x, t). t + lasts + lockTTLSlack \<le> now) (j_working st))\<rparr>)"

definition jobs_init :: jstate where
  "jobs_init = \<lparr>j_keys = empty_rstate, j_clock = 0, j_due = 0, j_working = [], j_used = {}, overran = False\<rparr>"

inductive jreachable :: "string \<Rightarrow> int \<Rightarrow> jstate \<Rightarrow> bool" for key lasts where
  init: "jreachable key lasts jobs_init"
| step: "jreachable key lasts st \<Longrightarrow> jreachable key lasts (jstep key lasts ev st)"

definition jrun :: "string \<Rightarrow> int \<Rightarrow> jevent list \<Rightarrow> jstate \<Rightarrow> jstate" where
  "jrun key lasts es st = fold (jstep key lasts) es st"

section \<open>The list of jobs\<close>

text \<open>A valid list, said at once: names are Kubernetes names, each used once, and every job can run.\<close>

lemma validate_from_None:
  "validate_from cron_error seen js = None \<longleftrightarrow>
     (\<forall>j \<in> set js. nameRE (j_Name j) \<and> j_Name j \<notin> set seen \<and> cron_error (j_Schedule j) = None \<and> j_Run j \<noteq> None) \<and>
     distinct (map j_Name js)"
proof (induction js arbitrary: seen)
  case (Cons a js)
  then show ?case by (auto split: option.splits simp: image_iff)
qed simp

lemma Validate_None:
  "Validate cron_error js = None \<longleftrightarrow>
     (\<forall>j \<in> set js. nameRE (j_Name j) \<and> cron_error (j_Schedule j) = None \<and> j_Run j \<noteq> None) \<and>
     distinct (map j_Name js)"
  by (simp add: Validate_def validate_from_None)

text \<open>
  The pattern is the rule for a label of a host name: one to 63 letters, digits and dashes,
  with no dash at either end.
\<close>

lemma nameRE_label:
  "nameRE s \<longleftrightarrow> s \<noteq> [] \<and> length s \<le> 63 \<and> list_all (\<lambda>x. lower_alnum x \<or> x = CHR ''-'') s \<and>
     hd s \<noteq> CHR ''-'' \<and> last s \<noteq> CHR ''-''"
proof (cases s)
  case (Cons c r)
  have dash: "\<not> lower_alnum CHR ''-''" by (simp add: lower_alnum_def)
  show ?thesis
  proof (cases "r = []")
    case True
    with Cons dash show ?thesis by (auto simp: nameRE_def)
  next
    case False
    then obtain m l where r: "r = m @ [l]" by (metis append_butlast_last_id)
    with Cons dash show ?thesis by (auto simp: nameRE_def)
  qed
qed (simp add: nameRE_def)

lemma Find_Inr: "Find js name = Inr j \<Longrightarrow> j \<in> set js \<and> j_Name j = name"
  by (auto simp: Find_def find_Some_iff split: option.splits)

section \<open>One run\<close>

context redis_server
begin

lemma claim_true: "job_claim exec key i lasts w = (Inr True, w') \<Longrightarrow>
    \<not> has_key (store w) key \<and> store w' = set_key key i (lasts + lockTTLSlack) (store w)"
  unfolding job_claim_def by (rule setnx_true)

lemma release_frees:
  assumes "\<And>cs v. \<exists>rs v'. exec cs v = (Inr rs, v')"
  shows "\<not> has_key (store (job_release exec key w)) key"
proof -
  obtain n w' where "r_del exec [key] w = (Inr n, w')" using del_up [OF assms] by blast
  then show ?thesis using del_ok by (fastforce simp: job_release_def)
qed

end

section \<open>The invariant of overlapping runs\<close>

lemma claim_live: "job_claim live_exec key i lasts k =
    (if has_key k key then (Inr False, k) else (Inr True, set_key key i (lasts + lockTTLSlack) k))"
  by (simp add: job_claim_def r_setnx_def call1_def live_exec_def)

lemma job_release_live [simp]: "job_release live_exec key k = del_key key k"
  by (simp add: job_release_def r_del_def call1_def live_exec_def)

definition jinv :: "string \<Rightarrow> int \<Rightarrow> jstate \<Rightarrow> bool" where
  "jinv key lasts st \<longleftrightarrow> sets (j_keys st) key = [] \<and>
     (overran st \<or> j_working st = [] \<or>
       (\<exists>i t. j_working st = [(i, t)] \<and> kv (j_keys st) key = Some i \<and> j_due st = t + lasts + lockTTLSlack))"

lemma jinv_step: "jinv key lasts st \<Longrightarrow> jinv key lasts (jstep key lasts ev st)"
  by (cases ev) (auto simp: jinv_def claim_live has_key_def Let_def split: if_splits)

lemma jinv_reachable: "jreachable key lasts st \<Longrightarrow> jinv key lasts st"
proof (induction rule: jreachable.induct)
  case init
  show ?case by (simp add: jinv_def jobs_init_def empty_rstate_def)
next
  case (step st ev)
  from jinv_step [OF this(2)] show ?case .
qed

lemma jrun_reachable: "jreachable key lasts st \<Longrightarrow> jreachable key lasts (jrun key lasts es st)"
  unfolding jrun_def by (induction es arbitrary: st) (simp_all add: jreachable.step del: jstep.simps)

section \<open>Properties\<close>

text \<open>
  A job runs once at a time, and a run leaves nothing behind. With the lock free, Redis
  answering and a function that leaves the lock alone, Execute runs the job named: what it
  exits with is how the function ended, a panic and a timeout included, and afterwards the
  lock is free. While the lock is taken it answers ErrLocked and changes nothing.
\<close>

lemma job_executes:
  assumes redis: "redis_server exec store"
    and up: "\<And>cs v. \<exists>rs v'. exec cs v = (Inr rs, v')"
    and valid: "Validate cron_error jobs = None"
    and j: "j \<in> set jobs" "j_Run j = Some f"
  shows "case Execute cron_error service jobs (j_Name j) (Some exec) i w of (r, w') \<Rightarrow>
    if has_key (store w) (jobKey service (j_Name j)) then r = Some JobLocked \<and> store w' = store w
    else (\<exists>w1. store w1 = set_key (jobKey service (j_Name j)) i (job_timeout j + lockTTLSlack) (store w) \<and>
           r = run_result j (fst (fst (runSafely f w1))) (snd (fst (runSafely f w1))) \<and>
           \<not> has_key (store w') (jobKey service (j_Name j)))"
proof -
  let ?key = "jobKey service (j_Name j)"
  have "Find jobs (j_Name j) = Inr j"
  proof -
    have d: "distinct (map j_Name jobs)" using valid by (simp add: Validate_None)
    obtain x where x: "find (\<lambda>x. j_Name x = j_Name j) jobs = Some x"
      using j(1) by (metis (mono_tags, lifting) find_None_iff not_None_eq)
    then have "x \<in> set jobs" "j_Name x = j_Name j" by (auto simp: find_Some_iff)
    with d j(1) have "x = j" by (auto simp: distinct_map dest: inj_onD)
    with x show ?thesis by (simp add: Find_def)
  qed
  with valid have ex: "Execute cron_error service jobs (j_Name j) (Some exec) i w =
      (case job_claim exec ?key i (job_timeout j) w of
         (Inl e, w1) \<Rightarrow> (Some (JobLock e), w1)
       | (Inr False, w1) \<Rightarrow> (Some JobLocked, w1)
       | (Inr True, w1) \<Rightarrow> (case run_job j w1 of (r, w2) \<Rightarrow> (r, job_release exec ?key w2)))"
    by (simp add: Execute_def Let_def)
  show ?thesis
  proof (cases "has_key (store w) ?key")
    case True
    then obtain w1 where c: "job_claim exec ?key i (job_timeout j) w = (Inr False, w1)"
      using redis_server.call1_up [OF redis up, of "SETNX ?key i (job_timeout j + lockTTLSlack)" w]
      by (auto simp: job_claim_def r_setnx_def call1_def)
    then have "store w1 = store w"
      using redis_server.setnx_false [OF redis] by (auto simp: job_claim_def)
    with True c ex show ?thesis by simp
  next
    case False
    obtain w1 where c: "job_claim exec ?key i (job_timeout j) w = (Inr True, w1)"
      using redis_server.setnx_free [OF redis up False] unfolding job_claim_def by blast
    obtain err late w2 where f: "runSafely f w1 = ((err, late), w2)" by (metis surj_pair)
    with j(2) have r: "run_job j w1 = (run_result j err late, w2)" by (simp add: run_job_def)
    show ?thesis
      using False c ex r f redis_server.claim_true [OF redis c] redis_server.release_frees [OF redis up]
      by auto
  qed
qed

text \<open>
  Runs of one job do not overlap, as long as none is at work longer than its
  timeout and the minute after it. In every state that starts, ends, killed processes and
  time can reach in which no run overran, at most one run is at work, and the lock is its.
\<close>

lemma job_runs_exclusive:
  assumes "jreachable key lasts st" and "\<not> overran st"
  shows "length (j_working st) \<le> 1 \<and> (\<forall>(i, t) \<in> set (j_working st). kv (j_keys st) key = Some i)"
  using jinv_reachable [OF assms(1)] assms(2) by (auto simp: jinv_def)

text \<open>
  Two runs of a job, one ended and one at work; and a job that panics.
\<close>

theorem job_runs_exclusive_witness:
  "let st = jrun ''job:pay:sweep'' 1000 [Starts ''a'', Starts ''b'', Passes 500, Ends ''a'', Starts ''c''] jobs_init
   in length (j_working st) \<le> 1 \<and> kv (j_keys st) ''job:pay:sweep'' = Some ''c''"
proof -
  let ?st = "jrun ''job:pay:sweep'' 1000 [Starts ''a'', Starts ''b'', Passes 500, Ends ''a'', Starts ''c''] jobs_init"
  have st: "\<not> overran ?st" "(''c'', 500) \<in> set (j_working ?st)"
    by (simp_all add: jrun_def jobs_init_def claim_live has_key_def empty_rstate_def Let_def lockTTLSlack_def)
  show ?thesis
    using job_runs_exclusive [OF jrun_reachable [OF jreachable.init] st(1)] st(2) by (auto simp: Let_def)
qed

lemma job_executes_witness:
  "\<not> has_key (snd (Execute (\<lambda>_. None) ''pay'' [\<lparr>j_Name = ''sweep'', j_Schedule = ''0 3 * * *'', j_Timeout = 0,
      j_Description = [], j_Run = Some (\<lambda>w. ((Panics ''nil map'', False), w))\<rparr>] ''sweep'' (Some live_exec) ''r1'' empty_rstate))
    ''job:pay:sweep''"
proof -
  let ?j = "\<lparr>j_Name = ''sweep'', j_Schedule = ''0 3 * * *'', j_Timeout = 0,
      j_Description = [], j_Run = Some (\<lambda>w :: rstate. ((Panics ''nil map'', False), w))\<rparr>"
  have v: "Validate (\<lambda>_. None) [?j] = None"
    by (simp add: Validate_def nameRE_def lower_alnum_def)
  have "case Execute (\<lambda>_. None) ''pay'' [?j] (j_Name ?j) (Some live_exec) ''r1'' empty_rstate of (r, w') \<Rightarrow>
    \<not> has_key w' (jobKey ''pay'' (j_Name ?j))"
    using job_executes [OF live.redis_server_axioms live_up v, of ?j, where service = "''pay''" and i = "''r1''" and w = empty_rstate]
    by (auto simp: has_key_def empty_rstate_def)
  then show ?thesis by (simp add: jobKey_def split: prod.splits)
qed

text \<open>
  One overrun is enough for later runs to overlap. The lock is deleted without a look at
  whose it is: a run that outlives its lock frees, when it ends, the lock of the run after
  it, and a third run starts beside the second, which has just begun.
\<close>

lemma job_overrun_frees_next:
  assumes "distinct [a, b, c]" and "0 \<le> lasts"
  shows "let st = jrun key lasts [Starts a, Passes (nat (lasts + lockTTLSlack)), Starts b, Ends a, Starts c] jobs_init
    in j_working st = [(c, j_clock st), (b, j_clock st)]"
  using assms by (auto simp: jrun_def jobs_init_def claim_live has_key_def empty_rstate_def Let_def lockTTLSlack_def)

end
