(* ===== verification/Pagex.thy ===== *)
theory Pagex
  imports Prelude
begin

text \<open>
  Paging, \<^verbatim>\<open>pagex/pagex.go\<close>: the page, size and offset a query uses for what a request
  asked. The numbers keep their widths: an \<^verbatim>\<open>int32\<close> is a \<^typ>\<open>32 word\<close> read with
  \<open>sint\<close>, the offset an \<^verbatim>\<open>int\<close> of 64 bits.
\<close>

record pager =
  Page :: "32 word"
  PageSize :: "32 word"

definition DefaultSize :: "32 word" where "DefaultSize = 20"
definition MaxSize :: "32 word" where "MaxSize = 100"

text \<open>\<open>None\<close> is a nil interface or one that holds a nil pointer (\<^verbatim>\<open>isNil\<close>).\<close>

definition asked :: "pager option \<Rightarrow> 32 word \<times> 32 word" where
  "asked p = (case p of None \<Rightarrow> (0, 0) | Some q \<Rightarrow> (Page q, PageSize q))"

definition Normalize :: "pager option \<Rightarrow> 32 word \<times> 32 word \<times> 64 word" where
  "Normalize p =
     (let page = fst (asked p); sz = snd (asked p);
          page1 = (if sint page < 1 then 1 else page);
          sz1 = (if sint sz < 1 then DefaultSize else sz);
          sz2 = (if sint MaxSize < sint sz1 then MaxSize else sz1)
      in (page1, sz2, scast (page1 - 1) * scast sz2))"

section \<open>Properties\<close>

lemma sint_small [simp]: "sint (1 :: 32 word) = 1" "sint DefaultSize = 20" "sint MaxSize = 100"
  by (simp_all add: DefaultSize_def MaxSize_def sint_uint signed_take_bit_eq_take_bit_minus take_bit_eq_mod)

text \<open>The offset, at its width, is the product of the numbers themselves.\<close>

lemma offset_exact:
  fixes page sz :: "32 word"
  assumes "1 \<le> sint page" and "1 \<le> sint sz" and "sint sz \<le> 100"
  shows "sint (scast (page - 1) * scast sz :: 64 word) = (sint page - 1) * sint sz"
proof -
  have lo: "sint page < 2 ^ 31" using sint_lt [of page] by simp
  have p1: "sint (page - 1) = sint page - 1"
    using assms(1) lo by (simp add: sint_word_ariths signed_take_bit_int_eq_self)
  have w1: "sint (scast (page - 1) :: 64 word) = sint page - 1"
    using p1 by (simp add: sint_up_scast is_up)
  have w2: "sint (scast sz :: 64 word) = sint sz"
    by (simp add: sint_up_scast is_up)
  have "0 \<le> (sint page - 1) * sint sz" using assms by simp
  moreover have "(sint page - 1) * sint sz \<le> 2 ^ 31 * 100"
    using assms lo by (intro mult_mono) auto
  ultimately show ?thesis
    by (simp add: sint_word_ariths w1 w2 signed_take_bit_int_eq_self)
qed

text \<open>
  What a query is given is in bounds. Whatever a request asks, the page is at
  least 1, the size between 1 and 100, and the offset is the exact product, with no
  wrap-around at any width.
\<close>

lemma page_bounds:
  "case Normalize p of (page, sz, offset) \<Rightarrow>
     1 \<le> sint page \<and> 1 \<le> sint sz \<and> sint sz \<le> 100 \<and> sint offset = (sint page - 1) * sint sz"
  by (auto simp: Normalize_def Let_def offset_exact)

text \<open>
  The pages of one size partition a list: the row of index \<open>n\<close> is on the page asked for
  exactly when that page is \<open>n div size + 1\<close>.
\<close>

lemma page_holds:
  assumes "Normalize p = (page, sz, offset)" and "0 \<le> n"
  shows "sint offset \<le> n \<and> n < sint offset + sint sz \<longleftrightarrow> sint page = n div sint sz + 1"
proof -
  have b: "1 \<le> sint page" "1 \<le> sint sz" "sint offset = (sint page - 1) * sint sz"
    using page_bounds [of p] assms(1) by auto
  have m: "0 \<le> n mod sint sz" "n mod sint sz < sint sz" using b(2) by simp_all
  have "n div sint sz = sint page - 1 \<longleftrightarrow> (sint page - 1) * sint sz \<le> n \<and> n < (sint page - 1) * sint sz + sint sz"
  proof
    assume "n div sint sz = sint page - 1"
    with m show "(sint page - 1) * sint sz \<le> n \<and> n < (sint page - 1) * sint sz + sint sz"
      using div_mult_mod_eq [of n "sint sz"] by simp
  next
    assume "(sint page - 1) * sint sz \<le> n \<and> n < (sint page - 1) * sint sz + sint sz"
    then show "n div sint sz = sint page - 1"
      by (intro int_div_pos_eq [where r = "n - (sint page - 1) * sint sz"]) (auto simp: mult.commute)
  qed
  with b(3) show ?thesis by auto
qed

end
