(* ===== verification/Utf8.thy ===== *)
theory Utf8
  imports Prelude
begin

text \<open>
  Go's package \<^verbatim>\<open>unicode/utf8\<close> on bytes, as far as the components use it: the length of
  the encoding a string starts with, valid strings, the replacement of invalid bytes
  (\<^verbatim>\<open>strings.ToValidUTF8\<close>) and where a character starts.
\<close>

definition byte_in :: "nat \<Rightarrow> nat \<Rightarrow> char \<Rightarrow> bool" where
  "byte_in lo hi c = (let n = of_char c :: nat in lo \<le> n \<and> n \<le> hi)"

definition cont_byte :: "char \<Rightarrow> bool" where "cont_byte c = byte_in 0x80 0xBF c"

text \<open>\<^verbatim>\<open>utf8.RuneStart\<close>.\<close>

definition RuneStart :: "char \<Rightarrow> bool" where "RuneStart c = (\<not> cont_byte c)"

text \<open>
  How many bytes the character at the head takes, 0 when the head is not a valid encoding
  (too long a form, a surrogate, beyond U+10FFFF, or cut off).
\<close>

definition two_ok :: "char \<Rightarrow> char \<Rightarrow> bool" where
  "two_ok a b \<longleftrightarrow> byte_in 0xC2 0xDF a \<and> cont_byte b"

definition three_ok :: "char \<Rightarrow> char \<Rightarrow> char \<Rightarrow> bool" where
  "three_ok a b c \<longleftrightarrow> cont_byte b \<and> cont_byte c \<and>
     (byte_in 0xE0 0xE0 a \<and> byte_in 0xA0 0xBF b \<or> byte_in 0xE1 0xEC a \<or>
      byte_in 0xED 0xED a \<and> byte_in 0x80 0x9F b \<or> byte_in 0xEE 0xEF a)"

definition four_ok :: "char \<Rightarrow> char \<Rightarrow> char \<Rightarrow> char \<Rightarrow> bool" where
  "four_ok a b c d \<longleftrightarrow> cont_byte b \<and> cont_byte c \<and> cont_byte d \<and>
     (byte_in 0xF0 0xF0 a \<and> byte_in 0x90 0xBF b \<or> byte_in 0xF1 0xF3 a \<or>
      byte_in 0xF4 0xF4 a \<and> byte_in 0x80 0x8F b)"

fun rune_len :: "string \<Rightarrow> nat" where
  "rune_len [] = 0"
| "rune_len (a # r) =
     (if byte_in 0 0x7F a then 1
      else case r of
          [] \<Rightarrow> 0
        | b # r2 \<Rightarrow>
            if two_ok a b then 2
            else case r2 of
                [] \<Rightarrow> 0
              | c # r3 \<Rightarrow>
                  if three_ok a b c then 3
                  else case r3 of [] \<Rightarrow> 0 | d # _ \<Rightarrow> if four_ok a b c d then 4 else 0)"

function valid_utf8 :: "string \<Rightarrow> bool" where
  "valid_utf8 s = (if s = [] then True else if rune_len s = 0 then False else valid_utf8 (drop (rune_len s) s))"
  by auto
termination by (relation "measure length") auto

declare valid_utf8.simps [simp del]

text \<open>\<^verbatim>\<open>strings.ToValidUTF8\<close>: each run of invalid bytes becomes one replacement; \<open>bad\<close>
  says that the byte before belongs to such a run.\<close>

function to_valid :: "bool \<Rightarrow> string \<Rightarrow> string \<Rightarrow> string" where
  "to_valid bad repl s =
     (if s = [] then []
      else if 0 < rune_len s then take (rune_len s) s @ to_valid False repl (drop (rune_len s) s)
      else (if bad then [] else repl) @ to_valid True repl (tl s))"
  by auto
termination by (relation "measure (\<lambda>(bad, repl, s). length s)") auto

declare to_valid.simps [simp del]

definition ToValidUTF8 :: "string \<Rightarrow> string \<Rightarrow> string" where
  "ToValidUTF8 s repl = to_valid False repl s"

section \<open>Lemmas\<close>

lemma byte_disjoint: "byte_in lo hi c \<Longrightarrow> hi < lo' \<Longrightarrow> \<not> byte_in lo' hi' c"
  by (auto simp: byte_in_def Let_def)

lemma two_ok_no_ascii: "two_ok a b \<Longrightarrow> \<not> byte_in 0 0x7F a"
  by (auto simp: two_ok_def byte_in_def Let_def)

lemma three_ok_starts: "three_ok a b c \<Longrightarrow> \<not> byte_in 0 0x7F a \<and> \<not> two_ok a d"
  by (auto simp: three_ok_def two_ok_def byte_in_def Let_def)

lemma four_ok_starts: "four_ok a b c d \<Longrightarrow> \<not> byte_in 0 0x7F a \<and> \<not> two_ok a e \<and> \<not> three_ok a f g"
  by (auto simp: four_ok_def three_ok_def two_ok_def byte_in_def Let_def)

lemma rune_len_le: "rune_len s \<le> length s"
  by (cases s rule: rune_len.cases) (auto split: list.splits)

lemma rune_len_append: "0 < rune_len s \<Longrightarrow> rune_len (s @ t) = rune_len s"
  by (cases s rule: rune_len.cases) (auto split: list.splits if_splits)

text \<open>The bytes of a character after its first are continuation bytes.\<close>

lemma rune_len_cont:
  assumes "0 < i" and "i < rune_len s"
  shows "cont_byte (s ! i)"
proof (cases s)
  case (Cons a r)
  with assms show ?thesis
    by (auto simp: two_ok_def three_ok_def four_ok_def less_Suc_eq numeral_eq_Suc split: list.splits if_splits)
qed (use assms in simp)

lemma rune_len_first: "0 < rune_len s \<Longrightarrow> rune_len (take (rune_len s) s) = rune_len s"
  by (cases s rule: rune_len.cases) (auto split: list.splits if_splits)

lemma rune_len_take:
  assumes "rune_len s \<le> n" and "0 < rune_len s"
  shows "rune_len (take n s) = rune_len s"
proof -
  have "take n s = take (rune_len s) s @ take (n - rune_len s) (drop (rune_len s) s)"
    using assms(1) by (metis le_add_diff_inverse take_add)
  then show ?thesis
    using rune_len_append [of "take (rune_len s) s"] rune_len_first [OF assms(2)] assms(2) by simp
qed

lemma valid_Nil [simp]: "valid_utf8 []"
  by (subst valid_utf8.simps) simp

lemma valid_iff: "s \<noteq> [] \<Longrightarrow> valid_utf8 s \<longleftrightarrow> 0 < rune_len s \<and> valid_utf8 (drop (rune_len s) s)"
  by (subst valid_utf8.simps) simp

lemma valid_append: "valid_utf8 s \<Longrightarrow> valid_utf8 t \<Longrightarrow> valid_utf8 (s @ t)"
proof (induction s rule: valid_utf8.induct)
  case (1 s)
  show ?case
  proof (cases "s = []")
    case False
    then have l: "0 < rune_len s" "valid_utf8 (drop (rune_len s) s)"
      using "1.prems"(1) valid_iff by blast+
    have "valid_utf8 (drop (rune_len s) s @ t)" using "1.IH" False l "1.prems"(2) by simp
    moreover have "drop (rune_len (s @ t)) (s @ t) = drop (rune_len s) s @ t"
      using l(1) by (simp add: rune_len_append rune_len_le)
    ultimately show ?thesis
      using False l(1) valid_iff [of "s @ t"] by (simp add: rune_len_append)
  qed (use 1 in simp)
qed

text \<open>A valid string cut where a character starts is valid.\<close>

lemma valid_take:
  "valid_utf8 s \<Longrightarrow> n \<le> length s \<Longrightarrow> n = length s \<or> RuneStart (s ! n) \<Longrightarrow> valid_utf8 (take n s)"
proof (induction s arbitrary: n rule: valid_utf8.induct)
  case (1 s)
  let ?l = "rune_len s"
  show ?case
  proof (cases "s = [] \<or> n = 0")
    case True
    then show ?thesis by auto
  next
    case False
    then have l: "0 < ?l" "valid_utf8 (drop ?l s)"
      using "1.prems"(1) valid_iff by blast+
    have n: "?l \<le> n"
    proof (rule ccontr)
      assume "\<not> ?l \<le> n"
      with False have "cont_byte (s ! n)" by (intro rune_len_cont) auto
      moreover have "n < length s" using \<open>\<not> ?l \<le> n\<close> rune_len_le [of s] by simp
      ultimately show False using "1.prems"(3) by (simp add: RuneStart_def)
    qed
    have "valid_utf8 (take (n - ?l) (drop ?l s))"
    proof (rule "1.IH")
      show "s \<noteq> []" "?l \<noteq> 0" "valid_utf8 (drop ?l s)" using False l by auto
      show "n - ?l \<le> length (drop ?l s)" using "1.prems"(2) by simp
      show "n - ?l = length (drop ?l s) \<or> RuneStart (drop ?l s ! (n - ?l))"
        using "1.prems"(2,3) n rune_len_le [of s] by auto
    qed
    with l n False show ?thesis
      using valid_iff [of "take n s"] by (simp add: rune_len_take drop_take)
  qed
qed

lemma valid_first:
  assumes "0 < rune_len s"
  shows "valid_utf8 (take (rune_len s) s)"
proof -
  have "s \<noteq> []" using assms by auto
  moreover have "rune_len (take (rune_len s) s) = rune_len s" using assms by (simp add: rune_len_take)
  ultimately show ?thesis using assms valid_iff [of "take (rune_len s) s"] by simp
qed

lemma to_valid_Nil [simp]: "to_valid bad repl [] = []"
  by (subst to_valid.simps) simp

lemma to_valid_ok: "0 < rune_len s \<Longrightarrow> to_valid bad repl s = take (rune_len s) s @ to_valid False repl (drop (rune_len s) s)"
  by (subst to_valid.simps) auto

lemma to_valid_bad: "s \<noteq> [] \<Longrightarrow> rune_len s = 0 \<Longrightarrow> to_valid bad repl s = (if bad then [] else repl) @ to_valid True repl (tl s)"
  by (subst to_valid.simps) simp

lemma valid_to_valid: "valid_utf8 repl \<Longrightarrow> valid_utf8 (to_valid bad repl s)"
proof (induction bad repl s rule: to_valid.induct)
  case (1 bad repl s)
  show ?case
  proof (cases "s = []")
    case False
    show ?thesis
    proof (cases "0 < rune_len s")
      case True
      with 1 False show ?thesis by (simp add: to_valid_ok valid_append valid_first)
    next
      case bad: False
      with 1 False show ?thesis by (simp add: to_valid_bad valid_append)
    qed
  qed simp
qed

lemma to_valid_id: "valid_utf8 s \<Longrightarrow> to_valid bad repl s = s"
proof (induction bad repl s rule: to_valid.induct)
  case (1 bad repl s)
  show ?case
  proof (cases "s = []")
    case False
    then have "0 < rune_len s" "valid_utf8 (drop (rune_len s) s)"
      using "1.prems" valid_iff by blast+
    with 1 False show ?thesis by (simp add: to_valid_ok)
  qed simp
qed

end
