(* ===== verification/AuditLog.thy ===== *)
theory AuditLog
  imports Utf8 "HOL-Library.Multiset" "HOL-Library.Sublist"
begin

text \<open>
  The audit log of a back office, \<^verbatim>\<open>hertzx/audit.go\<close>: which operations are recorded, the
  middleware that makes an entry of a call, what of the bodies an entry keeps, and the sink
  that stores entries in batches behind the request. Go's JSON and form parsers are
  parameters.
\<close>

section \<open>Which operations\<close>

record doc_op =
  do_Summary :: string
  do_Permission :: string
  do_Audit :: "bool option"
  do_Sensitive :: bool

record auditOp =
  ao_title :: string
  ao_permission :: string
  ao_sensitive :: bool

definition audited :: "doc_op \<Rightarrow> bool" where
  "audited op = (case do_Audit op of Some b \<Rightarrow> b
     | None \<Rightarrow> do_Permission op \<noteq> [] \<and> \<not> has_suffix (do_Permission op) ''.view'')"

definition audit_op :: "doc_op \<Rightarrow> auditOp" where
  "audit_op op = \<lparr>ao_title = do_Summary op, ao_permission = do_Permission op, ao_sensitive = do_Sensitive op\<rparr>"

text \<open>\<open>paths\<close> is the document: its paths and, for each, its methods.\<close>

definition audited_of :: "(string \<times> (string \<times> doc_op) list) list \<Rightarrow> (string \<times> auditOp) list" where
  "audited_of paths = concat (map (\<lambda>(path, ops).
     map (\<lambda>(m, op). (to_upper m @ '' '' @ path, audit_op op)) (filter (\<lambda>(m, op). audited op) ops)) paths)"

definition auditedOperations :: "(string \<times> (string \<times> doc_op) list) list option \<Rightarrow> string \<Rightarrow> auditOp option" where
  "auditedOperations doc = (case doc of None \<Rightarrow> Map.empty | Some paths \<Rightarrow> map_of (rev (audited_of paths)))"

section \<open>What an entry keeps\<close>

datatype jval = JNull | JBool bool | JNum string | JStr string | JList "jval list" | JObj "(string \<times> jval) list"

definition secret_words :: "string list" where
  "secret_words = [''password'', ''passwd'', ''secret'', ''token'', ''key'', ''otp'', ''pin'', ''card'', ''credential'',
     ''authorization'', ''cookie'', ''session'', ''signature'', ''ticket'', ''idno'', ''id_no'', ''idnumber'', ''id_number'',
     ''identity'', ''bank'', ''_account'', ''accountno'', ''account_no'', ''crypto'', ''walletaddress'', ''wallet_address'']"

text \<open>
  The case folding of \<^verbatim>\<open>(?i)\<close>: besides the capital letters, the long s (U+017F) is an
  s and the Kelvin sign (U+212A) a k.
\<close>

fun fold_case :: "string \<Rightarrow> string" where
  "fold_case [] = []"
| "fold_case (a # r) =
     (if a = CHR 0xC5 \<and> take 1 r = [CHR 0xBF] then CHR ''s'' # fold_case (drop 1 r)
      else if a = CHR 0xE2 \<and> take 2 r = [CHR 0x84, CHR 0xAA] then CHR ''k'' # fold_case (drop 2 r)
      else lower_char a # fold_case r)"

definition secretKey :: "string \<Rightarrow> bool" where
  "secretKey k = list_ex (contains (fold_case k)) secret_words"

fun redactValue :: "jval \<Rightarrow> jval" where
  "redactValue (JObj m) = JObj (map (\<lambda>(k, v). (k, if secretKey k then JStr ''***'' else redactValue v)) m)"
| "redactValue (JList xs) = JList (map redactValue xs)"
| "redactValue v = v"

text \<open>\<open>query\<close> is \<^verbatim>\<open>url.ParseQuery\<close>: the keys with their values.\<close>

definition parseForm :: "(string \<Rightarrow> (string \<times> string list) list option) \<Rightarrow> string \<Rightarrow> jval option" where
  "parseForm query body =
     (if \<not> contains body ''='' \<or> \<not> valid_utf8 body then None
      else case query body of
          None \<Rightarrow> None
        | Some q \<Rightarrow> if q = [] then None
            else Some (JObj (map (\<lambda>(k, vs). (k, if length vs = 1 then JStr (hd vs) else JList (map JStr vs))) q)))"

text \<open>The loop that moves the cut back to the start of a character.\<close>

fun cut_back :: "string \<Rightarrow> nat \<Rightarrow> nat" where
  "cut_back s 0 = 0"
| "cut_back s (Suc n) = (if RuneStart (s ! Suc n) then Suc n else cut_back s n)"

text \<open>U+FFFD, and the mark with its ellipsis, in UTF-8.\<close>

definition replacement :: string where "replacement = [CHR 0xEF, CHR 0xBF, CHR 0xBD]"
definition AuditTruncated :: string where "AuditTruncated = [CHR 0xE2, CHR 0x80, CHR 0xA6] @ ''[truncated]''"

definition cutUTF8 :: "string \<Rightarrow> nat \<Rightarrow> string \<Rightarrow> string" where
  "cutUTF8 s limit m =
     (let s1 = ToValidUTF8 s replacement
      in if length s1 \<le> limit then s1 else take (cut_back s1 (limit - length m)) s1 @ m)"

definition auditBodyLimit :: nat where "auditBodyLimit = 4096"
definition auditUALimit :: nat where "auditUALimit = 255"

text \<open>
  \<open>decode\<close> is the JSON decoder on the body: the first value, and whether more follows;
  \<open>encode\<close> is \<^verbatim>\<open>json.Marshal\<close>.
\<close>

definition Redact ::
  "(string \<Rightarrow> (jval \<times> bool) option) \<Rightarrow> (string \<Rightarrow> (string \<times> string list) list option) \<Rightarrow> (jval \<Rightarrow> string option) \<Rightarrow>
   string \<Rightarrow> string" where
  "Redact decode query encode body =
     (if body = [] then []
      else
        (let size = show_int (int (length body));
             v = (case decode body of Some (x, False) \<Rightarrow> Some x | _ \<Rightarrow> parseForm query body)
         in case v of
              None \<Rightarrow> ''<non-JSON body, '' @ size @ '' bytes, not recorded>''
            | Some x \<Rightarrow>
                (case encode (redactValue x) of
                   None \<Rightarrow> ''<body, '' @ size @ '' bytes, not recorded>''
                 | Some b \<Rightarrow> cutUTF8 b auditBodyLimit AuditTruncated)))"

section \<open>The middleware\<close>

record audit_entry =
  ae_Time :: int
  ae_Realm :: string
  ae_UID :: int
  ae_Action :: string
  ae_Method :: string
  ae_Path :: string
  ae_Permission :: string
  ae_Request :: string
  ae_Response :: string
  ae_Status :: int
  ae_Code :: int
  ae_Msg :: string
  ae_TraceID :: string
  ae_ClientIP :: string
  ae_UserAgent :: string
  ae_DeviceID :: string
  ae_DurationMS :: int

text \<open>What the middleware reads of a request and of its context, and of the answer.\<close>

record audit_request =
  aq_Method :: string
  aq_Path :: string
  aq_Body :: string
  aq_Realm :: string
  aq_UID :: "int option"
  aq_TraceID :: string
  aq_ClientIP :: string
  aq_UserAgent :: string
  aq_DeviceID :: string

record audit_answer =
  aa_Status :: int
  aa_Body :: string
  aa_Trace :: string

definition AuditSensitiveResponse :: string where
  "AuditSensitiveResponse = ''[sensitive response not recorded]''"

definition audit_entry_of ::
  "(string \<Rightarrow> string) \<Rightarrow> (string \<Rightarrow> (int \<times> string) option) \<Rightarrow> auditOp \<Rightarrow> audit_request \<Rightarrow> audit_answer \<Rightarrow> int \<Rightarrow> int \<Rightarrow> audit_entry" where
  "audit_entry_of redact envelope op q a start took =
     \<lparr>ae_Time = start, ae_Realm = aq_Realm q,
      ae_UID = (case aq_UID q of None \<Rightarrow> 0 | Some u \<Rightarrow> u),
      ae_Action = ao_title op, ae_Method = aq_Method q, ae_Path = aq_Path q, ae_Permission = ao_permission op,
      ae_Request = redact (aq_Body q),
      ae_Response = (if ao_sensitive op then AuditSensitiveResponse else redact (aa_Body a)),
      ae_Status = aa_Status a,
      ae_Code = (case envelope (aa_Body a) of None \<Rightarrow> - 1 | Some (c, m) \<Rightarrow> c),
      ae_Msg = (case envelope (aa_Body a) of None \<Rightarrow> [] | Some (c, m) \<Rightarrow> m),
      ae_TraceID = (if aq_TraceID q = [] then aa_Trace a else aq_TraceID q),
      ae_ClientIP = aq_ClientIP q, ae_UserAgent = cutUTF8 (aq_UserAgent q) auditUALimit [],
      ae_DeviceID = aq_DeviceID q, ae_DurationMS = took\<rparr>"

text \<open>
  One call: the entries given to the sink. \<open>nxt\<close> is the rest of the chain; it answers
  \<open>None\<close> when the handler panics, which unwinds the middleware.
\<close>

definition Audit ::
  "(string \<Rightarrow> auditOp option) \<Rightarrow> (string \<Rightarrow> string) \<Rightarrow> (string \<Rightarrow> (int \<times> string) option) \<Rightarrow>
   (audit_request \<Rightarrow> 'w \<Rightarrow> audit_answer option \<times> 'w) \<Rightarrow> audit_request \<Rightarrow> int \<Rightarrow> int \<Rightarrow> 'w \<Rightarrow>
   audit_answer option \<times> audit_entry list \<times> 'w" where
  "Audit ops redact envelope nxt q start took w =
     (case nxt q w of
        (a, w') \<Rightarrow>
          (a, (case ops (aq_Method q @ '' '' @ aq_Path q) of
                 None \<Rightarrow> []
               | Some op \<Rightarrow> (case a of None \<Rightarrow> [] | Some r \<Rightarrow> [audit_entry_of redact envelope op q r start took])), w'))"

section \<open>The sink\<close>

datatype drop_reason = SinkClosed | QueueFull | StoreError | StoreDown

definition auditStoreDownAfter :: nat where "auditStoreDownAfter = 3"

text \<open>
  Entry by entry: what was dropped and why. \<open>put\<close> is the store; it says whether it stored
  the batch.
\<close>

fun store_each :: "('e list \<Rightarrow> 'w \<Rightarrow> bool \<times> 'w) \<Rightarrow> nat \<Rightarrow> 'e list \<Rightarrow> 'w \<Rightarrow> ('e \<times> drop_reason) list \<times> 'w" where
  "store_each put failed [] w = ([], w)"
| "store_each put failed (e # es) w =
     (if failed \<ge> auditStoreDownAfter then (map (\<lambda>x. (x, StoreDown)) (e # es), w)
      else case put [e] w of
          (True, w') \<Rightarrow> store_each put 0 es w'
        | (False, w') \<Rightarrow> apfst ((#) (e, StoreError)) (store_each put (failed + 1) es w'))"

definition flush :: "('e list \<Rightarrow> 'w \<Rightarrow> bool \<times> 'w) \<Rightarrow> 'e list \<Rightarrow> 'w \<Rightarrow> ('e \<times> drop_reason) list \<times> 'w" where
  "flush put batch w =
     (if batch = [] then ([], w)
      else case put batch w of
          (True, w1) \<Rightarrow> ([], w1)
        | (False, w1) \<Rightarrow>
            (case put batch w1 of
               (True, w2) \<Rightarrow> ([], w2)
             | (False, w2) \<Rightarrow>
                 if length batch > 1 then store_each put 0 batch w2
                 else ([(hd batch, StoreError)], w2)))"

text \<open>
  The sink with its queue of a thousand and its worker, which takes what is waiting, at
  most a hundred, and stores it. \<open>k_given\<close> are the entries given so far, in order;
  \<open>k_stored\<close> is what the store has: the batches of the calls it answered with success.
\<close>

record 'e sink =
  k_queue :: "'e list"
  k_batch :: "'e list"
  k_closed :: bool
  k_given :: "'e list"
  k_stored :: "'e list"
  k_dropped :: "('e \<times> drop_reason) list"

datatype 'e sink_event =
    Give 'e
  | Takes nat              \<comment> \<open>the worker takes entries into its batch\<close>
  | Flushes "bool list"    \<comment> \<open>it stores the batch; what each call of the store answers\<close>
  | Closes

text \<open>The store: what its calls are going to answer, and what it has.\<close>

fun scripted :: "'e list \<Rightarrow> bool list \<times> 'e list \<Rightarrow> bool \<times> bool list \<times> 'e list" where
  "scripted b ([], has) = (False, ([], has))"
| "scripted b (x # xs, has) = (x, (xs, if x then has @ b else has))"

fun sink_step :: "'e sink_event \<Rightarrow> 'e sink \<Rightarrow> 'e sink" where
  "sink_step (Give e) st =
     (let st = st\<lparr>k_given := k_given st @ [e]\<rparr>
      in if k_closed st then st\<lparr>k_dropped := k_dropped st @ [(e, SinkClosed)]\<rparr>
         else if length (k_queue st) < 1000 then st\<lparr>k_queue := k_queue st @ [e]\<rparr>
         else st\<lparr>k_dropped := k_dropped st @ [(e, QueueFull)]\<rparr>)"
| "sink_step (Takes n) st =
     (if k_batch st = [] then st\<lparr>k_batch := take (min n 100) (k_queue st), k_queue := drop (min n 100) (k_queue st)\<rparr>
      else st)"
| "sink_step (Flushes answers) st =
     (case flush scripted (k_batch st) (answers, k_stored st) of
        (dr, _, has) \<Rightarrow> st\<lparr>k_batch := [], k_stored := has, k_dropped := k_dropped st @ dr\<rparr>)"
| "sink_step Closes st = st\<lparr>k_closed := True\<rparr>"

definition NewAsyncSink :: "'e sink" where
  "NewAsyncSink = \<lparr>k_queue = [], k_batch = [], k_closed = False, k_given = [], k_stored = [], k_dropped = []\<rparr>"

inductive sink_reachable :: "'e sink \<Rightarrow> bool" where
  new: "sink_reachable NewAsyncSink"
| step: "sink_reachable st \<Longrightarrow> sink_reachable (sink_step ev st)"

section \<open>Lemmas on the texts\<close>

lemma ascii_valid: "list_all (byte_in 0 0x7F) s \<Longrightarrow> valid_utf8 s"
proof (induction s)
  case (Cons c s)
  then show ?case using valid_iff [of "c # s"] by simp
qed simp

lemma valid_replacement: "valid_utf8 replacement" and valid_mark: "valid_utf8 AuditTruncated"
  by code_simp+

lemma cut_back_le: "cut_back s n \<le> n"
  by (induction s n rule: cut_back.induct) (auto intro: le_SucI)

lemma cut_back_start: "cut_back s n = 0 \<or> RuneStart (s ! cut_back s n)"
  by (induction s n rule: cut_back.induct) auto

text \<open>A cut text is valid and no longer than the limit, and a valid text that fits stays.\<close>

lemma cutUTF8_valid:
  assumes "valid_utf8 m" and "length m \<le> limit"
  shows "valid_utf8 (cutUTF8 s limit m) \<and> length (cutUTF8 s limit m) \<le> limit"
proof -
  let ?s = "ToValidUTF8 s replacement" and ?n = "cut_back (ToValidUTF8 s replacement) (limit - length m)"
  have ok: "valid_utf8 ?s" by (simp add: ToValidUTF8_def valid_to_valid valid_replacement)
  show ?thesis
  proof (cases "length ?s \<le> limit")
    case True
    with ok show ?thesis by (simp add: cutUTF8_def Let_def)
  next
    case False
    have n: "?n \<le> limit - length m" by (rule cut_back_le)
    with False have "?n \<le> length ?s" by simp
    then have "valid_utf8 (take ?n ?s)"
      using valid_take [OF ok] cut_back_start [of ?s "limit - length m"] by (cases "?n = 0") auto
    with False n assms show ?thesis by (simp add: cutUTF8_def Let_def valid_append)
  qed
qed

lemma cutUTF8_id: "valid_utf8 s \<Longrightarrow> length s \<le> limit \<Longrightarrow> cutUTF8 s limit m = s"
  by (simp add: cutUTF8_def ToValidUTF8_def to_valid_id)

lemma length_show_nat: "n < 10 ^ k \<Longrightarrow> 0 < k \<Longrightarrow> length (show_nat n) \<le> k"
proof (induction n arbitrary: k rule: show_nat.induct)
  case (1 n)
  show ?case
  proof (cases "n < 10")
    case True
    with "1.prems" show ?thesis by (subst show_nat.simps) simp
  next
    case False
    obtain j where k: "k = Suc j" using "1.prems"(2) by (cases k) auto
    have "0 < j" using "1.prems"(1) False k by (cases j) auto
    with k have j: "k = Suc j" "0 < j" by simp_all
    with "1.prems" have "n div 10 < 10 ^ j" by (simp add: less_mult_imp_div_less mult.commute)
    with "1.IH" False j have "length (show_nat (n div 10)) \<le> j" by blast
    with False j show ?thesis by (subst show_nat.simps) simp
  qed
qed

lemma show_nat_ascii: "list_all (byte_in 0 0x7F) (show_nat n)"
proof -
  have "list_all (\<lambda>d. byte_in 0 0x7F (digit_char d)) [0..<10]" by code_simp
  then show ?thesis using set_show_nat [of _ n] by (fastforce simp: list_all_iff)
qed

lemma size_note: "list_all (byte_in 0 0x7F) (''<non-JSON body, '' @ show_int (int k) @ '' bytes, not recorded>'')"
  "list_all (byte_in 0 0x7F) (''<body, '' @ show_int (int k) @ '' bytes, not recorded>'')"
proof -
  have "list_all (byte_in 0 0x7F) ''<non-JSON body, ''" "list_all (byte_in 0 0x7F) ''<body, ''"
    "list_all (byte_in 0 0x7F) '' bytes, not recorded>''" by code_simp+
  then show "list_all (byte_in 0 0x7F) (''<non-JSON body, '' @ show_int (int k) @ '' bytes, not recorded>'')"
    and "list_all (byte_in 0 0x7F) (''<body, '' @ show_int (int k) @ '' bytes, not recorded>'')"
    by (simp_all add: show_int_def show_nat_ascii)
qed

text \<open>The value a body is read as.\<close>

definition body_value ::
  "(string \<Rightarrow> (jval \<times> bool) option) \<Rightarrow> (string \<Rightarrow> (string \<times> string list) list option) \<Rightarrow> string \<Rightarrow> jval option" where
  "body_value decode query body = (case decode body of Some (x, False) \<Rightarrow> Some x | _ \<Rightarrow> parseForm query body)"

lemma Redact_value:
  "Redact decode query encode body =
     (if body = [] then []
      else case body_value decode query body of
          None \<Rightarrow> ''<non-JSON body, '' @ show_int (int (length body)) @ '' bytes, not recorded>''
        | Some x \<Rightarrow> (case encode (redactValue x) of
              None \<Rightarrow> ''<body, '' @ show_int (int (length body)) @ '' bytes, not recorded>''
            | Some b \<Rightarrow> cutUTF8 b auditBodyLimit AuditTruncated))"
  unfolding Redact_def body_value_def Let_def by (rule refl)

text \<open>Two values that differ at most in what stands under the keys of a kind.\<close>

inductive agree_but :: "(string \<Rightarrow> bool) \<Rightarrow> jval \<Rightarrow> jval \<Rightarrow> bool" for hidden where
  same: "agree_but hidden v v"
| items: "list_all2 (agree_but hidden) xs ys \<Longrightarrow> agree_but hidden (JList xs) (JList ys)"
| fields: "list_all2 (\<lambda>a b. fst a = fst b \<and> (hidden (fst a) \<or> agree_but hidden (snd a) (snd b))) m n \<Longrightarrow>
    agree_but hidden (JObj m) (JObj n)"

lemma agree_redacted:
  assumes "agree_but hidden v w" and "\<And>k. hidden k \<Longrightarrow> secretKey k"
  shows "redactValue v = redactValue w"
  using assms(1)
proof (induction rule: agree_but.induct)
  case (items xs ys)
  then have "map redactValue xs = map redactValue ys"
    by (induction rule: list_all2_induct) auto
  then show ?case by simp
next
  case (fields m n)
  then have "map (\<lambda>(k, v). (k, if secretKey k then JStr ''***'' else redactValue v)) m
    = map (\<lambda>(k, v). (k, if secretKey k then JStr ''***'' else redactValue v)) n"
    by (induction rule: list_all2_induct) (use assms(2) in auto)
  then show ?case by simp
qed simp

text \<open>A word in ASCII letters, in any case and anywhere in a key, is found.\<close>

definition ascii :: "char \<Rightarrow> bool" where
  "ascii c \<longleftrightarrow> (of_char c :: nat) < 128"

lemma ascii_not: "ascii c \<Longrightarrow> c \<noteq> CHR 0xC5 \<and> c \<noteq> CHR 0xBF \<and> c \<noteq> CHR 0xE2 \<and> c \<noteq> CHR 0x84 \<and> c \<noteq> CHR 0xAA"
  by (auto simp: ascii_def)

lemma fold_case_ascii: "list_all ascii w \<Longrightarrow> fold_case (w @ s) = to_lower w @ fold_case s"
  by (induction w) (auto simp: to_lower_def dest: ascii_not)

lemma fold_case_around:
  assumes "ascii c"
  shows "fold_case (pre @ c # s) = fold_case pre @ fold_case (c # s)"
proof (induction pre rule: fold_case.induct)
  case (2 a r)
  have "take 1 (r @ c # s) = [CHR 0xBF] \<longleftrightarrow> take 1 r = [CHR 0xBF]"
    using ascii_not [OF assms] by (cases r) auto
  moreover have "take 2 (r @ c # s) = [CHR 0x84, CHR 0xAA] \<longleftrightarrow> take 2 r = [CHR 0x84, CHR 0xAA]"
  proof (cases r)
    case (Cons x r')
    then show ?thesis using ascii_not [OF assms] by (cases r') (auto simp: numeral_2_eq_2)
  qed (use ascii_not [OF assms] in \<open>auto simp: numeral_2_eq_2\<close>)
  moreover have "take 1 r = [CHR 0xBF] \<Longrightarrow> drop 1 (r @ c # s) = drop 1 r @ c # s" by (cases r) auto
  moreover have "take 2 r = [CHR 0x84, CHR 0xAA] \<Longrightarrow> drop 2 (r @ c # s) = drop 2 r @ c # s"
    by (cases r; cases "tl r") (auto simp: numeral_2_eq_2)
  ultimately show ?case using 2 by auto
qed simp

lemma contains_infix: "contains (a @ p @ b) p"
proof (induction a)
  case Nil
  have "has_prefix (p @ b) p" by (rule has_prefix_append)
  then show ?case by (cases "p @ b") (simp_all add: has_prefix_iff)
qed simp

lemma secretKey_word:
  assumes "to_lower w \<in> set secret_words"
  shows "secretKey (pre @ w @ post)"
proof -
  have words: "list_all (\<lambda>x. x \<noteq> [] \<and> list_all ascii x) secret_words" by code_simp
  have lower: "ascii (lower_char c) \<Longrightarrow> ascii c" for c
    by (auto simp: ascii_def lower_char_def Let_def split: if_splits)
  from assms words have "to_lower w \<noteq> []" "list_all ascii (to_lower w)" unfolding list_all_iff by blast+
  then obtain c w' where w: "w = c # w'" and asc: "list_all ascii w"
    using lower by (cases w) (auto simp: to_lower_def list_all_iff)
  have "fold_case (pre @ w @ post) = fold_case pre @ to_lower w @ fold_case post"
    using fold_case_around [of c pre "w' @ post"] fold_case_ascii [OF asc, of post] asc w by simp
  then have "contains (fold_case (pre @ w @ post)) (to_lower w)" by (simp add: contains_infix)
  with assms show ?thesis by (auto simp: secretKey_def list_ex_iff)
qed

text \<open>
  A JSON body that breaks off is read as a form when it holds an equals sign: what stands
  before the sign is a key, and its text is kept, whatever secrets are in it. (\<open>query\<close> gives
  what \<^verbatim>\<open>url.ParseQuery\<close> does for a text without \<^verbatim>\<open>&\<close>, \<^verbatim>\<open>;\<close>, \<^verbatim>\<open>%\<close> and \<^verbatim>\<open>+\<close>.)
\<close>

lemma broken_json_keeps_secret:
  "let body = CHR ''{'' # CHR 0x22 # ''password'' @ CHR 0x22 # '':'' @ CHR 0x22 # ''hunter2'' @ CHR 0x22 # '',a='';
       query = \<lambda>b. Some [(takeWhile (\<lambda>c. c \<noteq> CHR ''='') b, [tl (dropWhile (\<lambda>c. c \<noteq> CHR ''='') b)])];
       encode = \<lambda>v. (case v of JObj [(k, JStr x)] \<Rightarrow> Some (k @ '':'' @ x) | _ \<Rightarrow> None)
   in contains (Redact (\<lambda>_. None) query encode body) ''hunter2''"
  by code_simp

lemma Redact_agree:
  assumes "b1 \<noteq> []" and "b2 \<noteq> []" and hidden: "\<And>k. hidden k \<Longrightarrow> secretKey k"
  shows "(body_value decode query b1 = Some v1 \<and> body_value decode query b2 = Some v2 \<and> agree_but hidden v1 v2 \<and>
      encode (redactValue v1) \<noteq> None \<longrightarrow> Redact decode query encode b1 = Redact decode query encode b2) \<and>
    (body_value decode query b1 = None \<and> body_value decode query b2 = None \<and> length b1 = length b2 \<longrightarrow>
      Redact decode query encode b1 = Redact decode query encode b2)"
  using assms(1,2) agree_redacted [OF _ hidden, of hidden v1 v2] by (auto simp: Redact_value)

section \<open>Lemmas on the middleware\<close>

lemma audit_one_entry:
  assumes "nxt q w = (a, w')"
  shows "Audit ops redact envelope nxt q start took w = (a, es, w'') \<Longrightarrow>
    w'' = w' \<and> length es = (if ops (aq_Method q @ '' '' @ aq_Path q) \<noteq> None \<and> a \<noteq> None then 1 else 0)"
  using assms by (auto simp: Audit_def split: option.splits)

text \<open>A handler that panics leaves no entry, although its operation is audited.\<close>

lemma audit_panic_no_entry:
  "nxt q w = (None, w') \<Longrightarrow> Audit ops redact envelope nxt q start took w = (None, [], w')"
  by (simp add: Audit_def split: option.split)

text \<open>
  The path of the request is looked up among the paths of the document: an operation whose
  path has a parameter is never found, so no call of it is recorded.
\<close>

lemma audit_path_parameter_missed:
  "let op = \<lparr>do_Summary = ''disable'', do_Permission = ''member.disable'', do_Audit = None, do_Sensitive = False\<rparr>;
       ops = auditedOperations (Some [(''/members/{id}'', [(''put'', op)])])
   in audited op \<and> ops ''PUT /members/{id}'' \<noteq> None \<and> ops ''PUT /members/7'' = None"
  by code_simp

section \<open>Lemmas on the sink\<close>

lemma store_each_mset:
  "store_each scripted failed es (xs, has) = (dr, xs', has') \<Longrightarrow>
     \<exists>st. has' = has @ st \<and> mset es = mset st + mset (map fst dr) \<and> subseq st es"
proof (induction es arbitrary: failed xs has dr)
  case (Cons e es)
  show ?case
  proof (cases "failed \<ge> auditStoreDownAfter")
    case True
    with Cons.prems show ?thesis by (auto simp: multiset.map_comp comp_def)
  next
    case False
    show ?thesis
    proof (cases "xs \<noteq> [] \<and> hd xs")
      case True
      then obtain ys where "xs = True # ys" by (cases xs) auto
      with False Cons.prems have "store_each scripted 0 es (ys, has @ [e]) = (dr, xs', has')" by simp
      from Cons.IH [OF this] obtain st where "has' = (has @ [e]) @ st" "mset es = mset st + mset (map fst dr)" "subseq st es" by blast
      then show ?thesis by (intro exI [of _ "e # st"]) auto
    next
      case no: False
      then obtain ys where "scripted [e] (xs, has) = (False, ys, has)" by (cases xs) auto
      with False Cons.prems obtain dr' where dr: "dr = (e, StoreError) # dr'" "store_each scripted (failed + 1) es (ys, has) = (dr', xs', has')"
        by (cases "store_each scripted (failed + 1) es (ys, has)") auto
      from Cons.IH [OF dr(2)] obtain st where "has' = has @ st" "mset es = mset st + mset (map fst dr')" "subseq st es" by blast
      with dr(1) show ?thesis by (intro exI [of _ st]) auto
    qed
  qed
qed auto

lemma scripted_answer:
  "scripted b (xs, has) = (r, ys, has') \<Longrightarrow> has' = (if r then has @ b else has)"
  by (cases xs) auto

lemma flush_mset:
  assumes "flush scripted b (xs, has) = (dr, xs', has')"
  shows "\<exists>st. has' = has @ st \<and> mset b = mset st + mset (map fst dr) \<and> subseq st b"
proof -
  obtain r1 ys1 h1 where 1: "scripted b (xs, has) = (r1, ys1, h1)" by (metis surj_pair)
  obtain r2 ys2 h2 where 2: "scripted b (ys1, h1) = (r2, ys2, h2)" by (metis surj_pair)
  note has = scripted_answer [OF 1] scripted_answer [OF 2]
  consider "b = []" | "b \<noteq> []" "r1" | "b \<noteq> []" "\<not> r1" "r2" | "\<not> r1" "\<not> r2" "length b > 1" | e where "\<not> r1" "\<not> r2" "b = [e]"
    by (cases b rule: list.exhaust; cases "tl b") auto
  then show ?thesis
  proof cases
    case 1
    with assms show ?thesis by (auto simp: flush_def)
  next
    case 4
    with assms 1 2 has have "store_each scripted 0 b (ys2, has) = (dr, xs', has')" by (cases b) (auto simp: flush_def)
    then show ?thesis by (rule store_each_mset)
  qed (use assms 1 2 has in \<open>auto simp: flush_def\<close>)
qed

definition sink_inv :: "'e sink \<Rightarrow> bool" where
  "sink_inv st \<longleftrightarrow>
     mset (k_given st) = mset (k_stored st) + mset (map fst (k_dropped st)) + mset (k_batch st) + mset (k_queue st) \<and>
     subseq (k_stored st @ k_batch st @ k_queue st) (k_given st) \<and>
     length (k_queue st) \<le> 1000 \<and> length (k_batch st) \<le> 100"

lemma sink_inv_step: "sink_inv st \<Longrightarrow> sink_inv (sink_step ev st)"
proof (cases ev)
  case (Give e)
  assume inv: "sink_inv st"
  then have "subseq ((k_stored st @ k_batch st @ k_queue st) @ [e]) (k_given st @ [e])"
    by (intro list_emb_append_mono) (auto simp: sink_inv_def)
  moreover have "subseq (k_stored st @ k_batch st @ k_queue st) (k_given st @ [e])"
    using inv by (auto simp: sink_inv_def intro: subseq_order.trans list_emb_append2)
  ultimately show ?thesis
    using inv Give by (auto simp: sink_inv_def Let_def)
next
  case (Takes n)
  assume inv: "sink_inv st"
  let ?n = "min n 100"
  have "mset (take ?n (k_queue st)) + mset (drop ?n (k_queue st)) = mset (k_queue st)"
    by (metis append_take_drop_id mset_append)
  with inv Takes show ?thesis by (auto simp: sink_inv_def)
next
  case (Flushes answers)
  assume inv: "sink_inv st"
  obtain dr r has where f: "flush scripted (k_batch st) (answers, k_stored st) = (dr, r, has)" by (metis surj_pair)
  from flush_mset [OF f] obtain ok where m: "has = k_stored st @ ok" "mset (k_batch st) = mset ok + mset (map fst dr)"
    "subseq ok (k_batch st)" by blast
  have "subseq (k_stored st @ ok @ k_queue st) (k_stored st @ k_batch st @ k_queue st)"
    using m by (intro list_emb_append_mono) auto
  then have "subseq (k_stored st @ ok @ k_queue st) (k_given st)"
    using inv by (auto simp: sink_inv_def intro: subseq_order.trans)
  with inv Flushes f m show ?thesis by (auto simp: sink_inv_def)
next
  case Closes
  assume "sink_inv st"
  with Closes show ?thesis by (simp add: sink_inv_def)
qed

lemma sink_inv_reachable: "sink_reachable st \<Longrightarrow> sink_inv st"
proof (induction rule: sink_reachable.induct)
  case new
  show ?case by (simp add: sink_inv_def NewAsyncSink_def)
next
  case (step st ev)
  from sink_inv_step [OF step(2)] show ?case .
qed

lemma fold_sink_reachable: "sink_reachable st \<Longrightarrow> sink_reachable (fold sink_step evs st)"
  by (induction evs arbitrary: st) (simp_all add: sink_reachable.step del: sink_step.simps)

text \<open>A store that refuses the batches with a bad entry in them, and no others; its world is what it has.\<close>

definition refusing :: "('e \<Rightarrow> bool) \<Rightarrow> 'e list \<Rightarrow> 'e list \<Rightarrow> bool \<times> 'e list" where
  "refusing good b has = (if list_all good b then (True, has @ b) else (False, has))"

text \<open>Never three bad entries in a row, with \<open>n\<close> bad ones just before.\<close>

fun spread :: "('e \<Rightarrow> bool) \<Rightarrow> nat \<Rightarrow> 'e list \<Rightarrow> bool" where
  "spread good n [] = True"
| "spread good n (e # es) = (if good e then spread good 0 es else n + 1 < 3 \<and> spread good (n + 1) es)"

lemma store_each_refusing:
  "spread good n es \<Longrightarrow> n < 3 \<Longrightarrow>
   store_each (refusing good) n es has = (map (\<lambda>e. (e, StoreError)) (filter (\<lambda>e. \<not> good e) es), has @ filter good es)"
  by (induction good n es arbitrary: has rule: spread.induct) (auto simp: refusing_def auditStoreDownAfter_def)

section \<open>Properties\<close>

text \<open>
  C35. No entry is lost without a trace. In every state the sink can reach, whatever the
  store answers and whenever it is closed, each entry given to it is stored, dropped with a
  counted reason, in the worker's batch or in the queue, exactly once; what is stored is in
  the order it was given; and at most a thousand entries wait.
\<close>

theorem audit_entries_accounted:
  assumes "sink_reachable st"
  shows "mset (k_given st) = mset (k_stored st) + mset (map fst (k_dropped st)) + mset (k_batch st) + mset (k_queue st) \<and>
    subseq (k_stored st) (k_given st) \<and> length (k_queue st) \<le> 1000"
proof -
  from sink_inv_reachable [OF assms] have inv: "sink_inv st" .
  moreover have "subseq (k_stored st) (k_stored st @ k_batch st @ k_queue st)" by (rule prefix_imp_subseq) simp
  ultimately show ?thesis by (auto simp: sink_inv_def intro: subseq_order.trans)
qed

theorem audit_entries_accounted_witness:
  "let st = fold sink_step [Give (1 :: nat), Give 2, Takes 2, Give 3, Flushes [False, False, True, False], Closes, Give 4] NewAsyncSink
   in k_stored st = [1] \<and> k_dropped st = [(2, StoreError), (4, SinkClosed)] \<and> k_queue st = [3] \<and>
      mset (k_given st) = mset (k_stored st) + mset (map fst (k_dropped st)) + mset (k_batch st) + mset (k_queue st)"
proof -
  let ?st = "fold sink_step [Give (1 :: nat), Give 2, Takes 2, Give 3, Flushes [False, False, True, False], Closes, Give 4] NewAsyncSink"
  have st: "?st = \<lparr>k_queue = [3], k_batch = [], k_closed = True, k_given = [1, 2, 3, 4], k_stored = [1],
      k_dropped = [(2, StoreError), (4, SinkClosed)]\<rparr>"
    by (simp add: NewAsyncSink_def flush_def auditStoreDownAfter_def)
  have "sink_reachable ?st" by (rule fold_sink_reachable [OF sink_reachable.new])
  from audit_entries_accounted [OF this, THEN conjunct1] show ?thesis
    unfolding st Let_def by simp
qed

text \<open>
  A refused entry does not take the others with it. When the store refuses exactly the
  batches that hold a bad entry, and no three bad entries come in a row, every good entry
  of a batch is stored and the bad ones, and only they, are dropped.
\<close>

lemma audit_refused_entry_alone:
  assumes "spread good 0 b"
  shows "flush (refusing good) b has = (map (\<lambda>e. (e, StoreError)) (filter (\<lambda>e. \<not> good e) b), has @ filter good b)"
proof (cases "list_all good b")
  case True
  then show ?thesis
    by (cases b) (auto simp: flush_def refusing_def list_all_iff filter_empty_conv)
next
  case False
  then obtain e es where b: "b = e # es" by (cases b) auto
  show ?thesis
  proof (cases "es = []")
    case True
    with b False show ?thesis by (simp add: flush_def refusing_def)
  next
    case es: False
    have "refusing good b h = (False, h)" for h using False by (simp add: refusing_def)
    with b es store_each_refusing [OF assms, of has] show ?thesis
      by (simp add: flush_def del: store_each.simps filter.simps)
  qed
qed

theorem audit_refused_entry_alone_witness:
  "flush (refusing (\<lambda>n. n \<noteq> 3)) [1, 3, 3, 5 :: nat] [] = ([(3, StoreError), (3, StoreError)], [1, 5])"
  using audit_refused_entry_alone [of "\<lambda>n. n \<noteq> 3" "[1, 3, 3, 5 :: nat]" "[]"] by simp

text \<open>
  C36. No value of a secret key reaches the audit log. Two bodies read as values that differ
  only in what stands under keys with one of the words of the policy in them (credentials,
  identity documents, bank, payment and crypto accounts), in any case of letters, anywhere in
  the key and at any depth, leave the same text; and of a body that cannot be read nothing
  but its size is kept. Keys themselves are kept as they are, and a body is read as JSON when
  it is one value of it, else as a form when it can be: a JSON body that breaks off and has
  an equals sign in it is read as a form, with what stands before the sign as a key.
\<close>

theorem audit_hides_secrets:
  assumes "b1 \<noteq> []" and "b2 \<noteq> []"
  shows "(body_value decode query b1 = Some v1 \<and> body_value decode query b2 = Some v2 \<and>
      agree_but (\<lambda>k. \<exists>pre w post. k = pre @ w @ post \<and> to_lower w \<in> set [''password'', ''passwd'', ''secret'', ''token'', ''key'',
        ''otp'', ''pin'', ''credential'', ''authorization'', ''cookie'', ''session'', ''signature'', ''ticket'',
        ''card'', ''idno'', ''id_no'', ''idnumber'', ''id_number'', ''identity'',
        ''bank'', ''_account'', ''accountno'', ''account_no'', ''crypto'', ''walletaddress'', ''wallet_address'']) v1 v2 \<and>
      encode (redactValue v1) \<noteq> None \<longrightarrow> Redact decode query encode b1 = Redact decode query encode b2) \<and>
    (body_value decode query b1 = None \<and> body_value decode query b2 = None \<and> length b1 = length b2 \<longrightarrow>
      Redact decode query encode b1 = Redact decode query encode b2)"
proof (rule Redact_agree [OF assms], elim exE conjE)
  have words: "\<forall>x \<in> set [''password'', ''passwd'', ''secret'', ''token'', ''key'',
        ''otp'', ''pin'', ''credential'', ''authorization'', ''cookie'', ''session'', ''signature'', ''ticket'',
        ''card'', ''idno'', ''id_no'', ''idnumber'', ''id_number'', ''identity'',
        ''bank'', ''_account'', ''accountno'', ''account_no'', ''crypto'', ''walletaddress'', ''wallet_address'']. x \<in> set secret_words"
    by code_simp
  fix k pre w post
  assume k: "k = pre @ w @ post" and w: "to_lower w \<in> set [''password'', ''passwd'', ''secret'', ''token'', ''key'',
        ''otp'', ''pin'', ''credential'', ''authorization'', ''cookie'', ''session'', ''signature'', ''ticket'',
        ''card'', ''idno'', ''id_no'', ''idnumber'', ''id_number'', ''identity'',
        ''bank'', ''_account'', ''accountno'', ''account_no'', ''crypto'', ''walletaddress'', ''wallet_address'']"
  show "secretKey k" unfolding k by (rule secretKey_word [OF bspec [OF words w]])
qed

theorem audit_hides_secrets_witness:
  "let decode = \<lambda>b. if length b > 9 then Some (JList [JObj [(''User'', JStr ''a''), (''bankCardNo'', JStr b)]], False) else None;
       encode = \<lambda>v. (case v of JList [JObj m] \<Rightarrow> Some (concat (map fst m)) | _ \<Rightarrow> None)
   in Redact decode (\<lambda>_. None) encode ''4111-1111-1111-1111'' = Redact decode (\<lambda>_. None) encode ''5500-0000-0000'' "
proof -
  let ?d = "\<lambda>b. if length b > 9 then Some (JList [JObj [(''User'', JStr ''a''), (''bankCardNo'', JStr b)]], False) else None"
  let ?e = "\<lambda>v. (case v of JList [JObj m] \<Rightarrow> Some (concat (map fst m)) | _ \<Rightarrow> None)"
  let ?v = "\<lambda>x. JList [JObj [(''User'', JStr ''a''), (''bankCardNo'', JStr x)]]"
  have key: "\<exists>pre w post. ''bankCardNo'' = pre @ w @ post \<and> to_lower w \<in> set [''password'', ''passwd'', ''secret'', ''token'', ''key'',
        ''otp'', ''pin'', ''credential'', ''authorization'', ''cookie'', ''session'', ''signature'', ''ticket'',
        ''card'', ''idno'', ''id_no'', ''idnumber'', ''id_number'', ''identity'',
        ''bank'', ''_account'', ''accountno'', ''account_no'', ''crypto'', ''walletaddress'', ''wallet_address'']"
    by (rule exI [of _ "''bank''"], rule exI [of _ "''Card''"], rule exI [of _ "''No''"]) code_simp
  have agree: "agree_but hidden (?v x) (?v y)" if "hidden ''bankCardNo''" for x y hidden
    using that by (intro agree_but.items) (simp add: agree_but.same agree_but.fields)
  have e: "?e (redactValue (?v x)) \<noteq> None" for x by simp
  have b: "body_value ?d (\<lambda>_. None) ''4111-1111-1111-1111'' = Some (?v ''4111-1111-1111-1111'')"
    "body_value ?d (\<lambda>_. None) ''5500-0000-0000'' = Some (?v ''5500-0000-0000'')"
    by (simp_all add: body_value_def)
  have ne: "''4111-1111-1111-1111'' \<noteq> []" "''5500-0000-0000'' \<noteq> []" by simp_all
  note hides = audit_hides_secrets [OF ne, THEN conjunct1, THEN mp]
  have "Redact ?d (\<lambda>_. None) ?e ''4111-1111-1111-1111'' = Redact ?d (\<lambda>_. None) ?e ''5500-0000-0000''"
    by (rule hides, intro conjI, rule b(1), rule b(2), rule agree, rule key, rule e)
  then show ?thesis by (simp only: Let_def)
qed

text \<open>
  What an entry keeps of a body fits its column. Whatever the body and whatever the
  parsers make of it, the text kept is valid UTF-8 of at most 4096 bytes (for a body of
  less than \<open>10^19\<close> bytes, which is every body).
\<close>

lemma audit_text_bounds:
  assumes "length body < 10 ^ 19"
  shows "valid_utf8 (Redact decode query encode body) \<and> length (Redact decode query encode body) \<le> 4096"
proof -
  let ?n = "int (length body)"
  have size: "length (show_int ?n) \<le> 19"
    using length_show_nat [OF assms] by (simp add: show_int_def)
  have note_ok: "valid_utf8 (''<non-JSON body, '' @ show_int ?n @ '' bytes, not recorded>'')"
    "valid_utf8 (''<body, '' @ show_int ?n @ '' bytes, not recorded>'')"
    by (rule ascii_valid, rule size_note)+
  have "valid_utf8 (cutUTF8 b auditBodyLimit AuditTruncated) \<and> length (cutUTF8 b auditBodyLimit AuditTruncated) \<le> 4096" for b
    using cutUTF8_valid [OF valid_mark, of auditBodyLimit b] by (simp add: auditBodyLimit_def AuditTruncated_def)
  with note_ok size show ?thesis
    by (auto simp: Redact_value split: option.splits)
qed

theorem audit_text_bounds_witness:
  "length (Redact (\<lambda>_. None) (\<lambda>_. None) (\<lambda>_. None) [CHR 0xC3, CHR ''a'']) \<le> 4096"
  using audit_text_bounds [of "[CHR 0xC3, CHR ''a'']" "\<lambda>_. None" "\<lambda>_. None" "\<lambda>_. None"] by simp

end
