(* ===== verification/Lock.thy ===== *)
theory Lock
  imports Redis Config
begin

text \<open>
  The lock across replicas of \<^verbatim>\<open>redisx/lock.go\<close>: \<^verbatim>\<open>WithLock\<close> as one function (the
  wait for the key, the work, the release) and as a system of concurrent callers of one
  name, each with its keeper in the background. Redis is the \<open>exec\<close> of \<open>Redis\<close>; times are
  in milliseconds. In the function the work and its keeper are one parameter \<open>hold\<close>, which
  says how the work ended and whether the keeper found the lock lost; a step of the keeper
  is \<open>keeper_tick\<close>.
\<close>

section \<open>Keys, options and scripts\<close>

text \<open>\<open>ns\<close> is the namespace of the client: the service it was opened for, or empty.\<close>

definition keyOf :: "string \<Rightarrow> string \<Rightarrow> string \<Rightarrow> string" where
  "keyOf ns kind name = (if ns \<noteq> [] then kind @ '':'' @ ns @ '':'' @ name else kind @ '':'' @ name)"

record lockOptions =
  wait :: int
  retry :: int

definition retryEvery :: "lockOptions \<Rightarrow> int" where
  "retryEvery o1 = (if retry o1 > 0 then retry o1 else 50)"

definition extendScript :: "lua_test \<times> lua_then" where "extendScript = (GetEquals, CallPexpire)"
definition releaseScript :: "lua_test \<times> lua_then" where "releaseScript = (GetEquals, CallDel)"

definition metricLabel :: "string \<Rightarrow> string" where
  "metricLabel name =
     (let pre = takeWhile (\<lambda>c. c \<noteq> CHR '':'' \<and> c \<noteq> CHR ''/'') name
      in if pre \<noteq> [] then pre else name)"

definition lock_ttl :: "int \<Rightarrow> int" where
  "lock_ttl life = (if life < 1000 then 10000 else life)"

section \<open>WithLock as a function\<close>

datatype lock_error = NeedsRedis | NeedsName | LockStore redis_err | ErrLocked string | CtxDone
  | ErrLockLost "string option" | WorkError string

text \<open>
  The wait for the key. \<open>now\<close> is the time at which an attempt begins, \<open>ended\<close> whether the
  context is over by a time. Time passes in the call to Redis and in the pause: in the world
  an attempt leads to, \<open>lag\<close> says how long its call took and by how much the timer of the
  pause after it was late.
\<close>

definition answered_at :: "('s \<Rightarrow> nat \<times> nat) \<Rightarrow> int \<Rightarrow> 's \<Rightarrow> int" where
  "answered_at lag now s = now + int (fst (lag s))"

definition next_try_at :: "('s \<Rightarrow> nat \<times> nat) \<Rightarrow> lockOptions \<Rightarrow> int \<Rightarrow> 's \<Rightarrow> int" where
  "next_try_at lag o1 now s = answered_at lag now s + retryEvery o1 + int (snd (lag s))"

function acquire ::
  "'s exec \<Rightarrow> ('s \<Rightarrow> nat \<times> nat) \<Rightarrow> string \<Rightarrow> string \<Rightarrow> string \<Rightarrow> int \<Rightarrow> lockOptions \<Rightarrow> (int \<Rightarrow> bool) \<Rightarrow> int \<Rightarrow> int \<Rightarrow> 's \<Rightarrow>
   (lock_error + unit) \<times> 's" where
  "acquire exec lag name key token life o1 ended deadline now s =
     (case r_setnx exec key token life s of
        (Inl e, s') \<Rightarrow> (Inl (LockStore e), s')
      | (Inr True, s') \<Rightarrow> (Inr (), s')
      | (Inr False, s') \<Rightarrow>
          if wait o1 = 0 \<or> answered_at lag now s' > deadline then (Inl (ErrLocked name), s')
          else if ended (next_try_at lag o1 now s') then (Inl CtxDone, s')
          else acquire exec lag name key token life o1 ended deadline (next_try_at lag o1 now s') s')"
  by pat_completeness auto

termination
  by (relation "measure (\<lambda>(exec, lag, name, key, token, life, o1, ended, deadline, now, s). nat (deadline + 1 - now))")
    (auto simp: retryEvery_def answered_at_def next_try_at_def)

declare acquire.simps [simp del]

datatype kept = Kept | Hiccup | Gone

definition keeper_tick :: "'s exec \<Rightarrow> string \<Rightarrow> string \<Rightarrow> int \<Rightarrow> 's \<Rightarrow> kept \<times> 's" where
  "keeper_tick exec key token life s =
     (case r_eval exec extendScript key token life s of
        (Inl e, s') \<Rightarrow> (Hiccup, s')
      | (Inr n, s') \<Rightarrow> (if n = 0 then Gone else Kept, s'))"

definition release :: "'s exec \<Rightarrow> string \<Rightarrow> string \<Rightarrow> 's \<Rightarrow> 's" where
  "release exec key token s = snd (r_eval exec releaseScript key token 0 s)"

definition WithLock ::
  "'s exec option \<Rightarrow> ('s \<Rightarrow> nat \<times> nat) \<Rightarrow> string \<Rightarrow> string \<Rightarrow> int \<Rightarrow> lockOptions \<Rightarrow> string \<Rightarrow> (int \<Rightarrow> bool) \<Rightarrow> int \<Rightarrow>
   ('s \<Rightarrow> (string option \<times> bool) \<times> 's) \<Rightarrow> 's \<Rightarrow> (lock_error + unit) \<times> 's" where
  "WithLock rdb lag ns name life o1 token ended start hold s =
     (case rdb of
        None \<Rightarrow> (Inl NeedsRedis, s)
      | Some exec \<Rightarrow>
          if name = [] then (Inl NeedsName, s)
          else (let key = keyOf ns ''lock'' name
                in case acquire exec lag name key token (lock_ttl life) o1 ended (start + wait o1) start s of
                     (Inl e, s1) \<Rightarrow> (Inl e, s1)
                   | (Inr _, s1) \<Rightarrow>
                       (case hold s1 of
                          ((err, lost), s2) \<Rightarrow>
                            if lost then (Inl (ErrLockLost err), s2)
                            else ((case err of None \<Rightarrow> Inr () | Some e \<Rightarrow> Inl (WorkError e)),
                                  release exec key token s2))))"

section \<open>Concurrent callers of one lock\<close>

text \<open>
  A call is idle, at work with its token (its keeper ticking), at work after its keeper
  found the lock gone, or unwound by a panic of the work: the call is over, but nothing has
  told its keeper, which goes on. \<open>expired\<close> records that the key ran out (or was deleted by
  hand) while a call held it.
\<close>

datatype phase = Idle | Running string | LostIt string | Unwound string

record lstate =
  store :: rstate
  phase_of :: "nat \<Rightarrow> phase"
  used :: "string set"
  expired :: bool

datatype levent =
    Acquire nat string    \<comment> \<open>one attempt, with the call's random token\<close>
  | Tick nat bool         \<comment> \<open>the call's keeper; whether Redis answered\<close>
  | Return nat            \<comment> \<open>the work returned\<close>
  | Panic nat             \<comment> \<open>the work panicked\<close>
  | Expire                \<comment> \<open>the key's time ran out\<close>

definition set_phase :: "nat \<Rightarrow> phase \<Rightarrow> lstate \<Rightarrow> lstate" where
  "set_phase p x st = st\<lparr>phase_of := (phase_of st)(p := x)\<rparr>"

fun lstep :: "string \<Rightarrow> int \<Rightarrow> levent \<Rightarrow> lstate \<Rightarrow> lstate" where
  "lstep key life (Acquire p tok) st =
     (if phase_of st p \<noteq> Idle \<or> tok \<in> used st then st
      else (case r_setnx live_exec key tok life (store st) of
          (Inr True, s') \<Rightarrow> set_phase p (Running tok) (st\<lparr>store := s', used := insert tok (used st)\<rparr>)
        | (_, s') \<Rightarrow> st\<lparr>store := s'\<rparr>))"
| "lstep key life (Tick p up) st =
     (case phase_of st p of
        Running tok \<Rightarrow>
          if \<not> up then st
          else (case keeper_tick live_exec key tok life (store st) of
              (Gone, s') \<Rightarrow> set_phase p (LostIt tok) (st\<lparr>store := s'\<rparr>)
            | (_, s') \<Rightarrow> st\<lparr>store := s'\<rparr>)
      | Unwound tok \<Rightarrow>
          if \<not> up then st
          else (case keeper_tick live_exec key tok life (store st) of
              (Gone, s') \<Rightarrow> set_phase p Idle (st\<lparr>store := s'\<rparr>)
            | (_, s') \<Rightarrow> st\<lparr>store := s'\<rparr>)
      | _ \<Rightarrow> st)"
| "lstep key life (Return p) st =
     (case phase_of st p of
        Running tok \<Rightarrow> set_phase p Idle (st\<lparr>store := release live_exec key tok (store st)\<rparr>)
      | LostIt tok \<Rightarrow> set_phase p Idle st
      | _ \<Rightarrow> st)"
| "lstep key life (Panic p) st =
     (case phase_of st p of
        Running tok \<Rightarrow> set_phase p (Unwound tok) st
      | LostIt tok \<Rightarrow> set_phase p Idle st
      | _ \<Rightarrow> st)"
| "lstep key life Expire st = st\<lparr>store := del_key key (store st), expired := True\<rparr>"

definition lock_init :: lstate where
  "lock_init = \<lparr>store = empty_rstate, phase_of = (\<lambda>_. Idle), used = {}, expired = False\<rparr>"

inductive lreachable :: "string \<Rightarrow> int \<Rightarrow> lstate \<Rightarrow> bool" for key life where
  init: "lreachable key life lock_init"
| step: "lreachable key life st \<Longrightarrow> lreachable key life (lstep key life ev st)"

fun at_work :: "phase \<Rightarrow> bool" where
  "at_work (Running tok) = True"
| "at_work (LostIt tok) = True"
| "at_work _ = False"

fun token_of :: "phase \<Rightarrow> string option" where
  "token_of Idle = None"
| "token_of (Running tok) = Some tok"
| "token_of (LostIt tok) = Some tok"
| "token_of (Unwound tok) = Some tok"

section \<open>Lemmas on one call\<close>

lemma setnx_live: "r_setnx live_exec key tok life s =
    (if has_key s key then (Inr False, s) else (Inr True, set_key key tok life s))"
  by (simp add: r_setnx_def call1_def live_exec_def)

lemma keeper_live: "keeper_tick live_exec key tok life s =
    (if kv s key = Some tok then (Kept, expire_key key life s) else (Gone, s))"
  by (auto simp: keeper_tick_def r_eval_def extendScript_def call1_def live_exec_def has_key_def)

lemma release_live: "release live_exec key tok s = (if kv s key = Some tok then del_key key s else s)"
  by (auto simp: release_def r_eval_def releaseScript_def call1_def live_exec_def)

text \<open>A server that counts the calls made to it.\<close>

definition counted_calls :: "'s exec \<Rightarrow> (nat \<times> 's) exec" where
  "counted_calls exec cs = (\<lambda>(n, s). case exec cs s of (r, s') \<Rightarrow> (r, (Suc n, s')))"

lemma setnx_counted:
  "r_setnx (counted_calls exec) k t l (n, s) = (case r_setnx exec k t l s of (r, s') \<Rightarrow> (r, (Suc n, s')))"
  by (simp add: r_setnx_def call1_def counted_calls_def split: prod.splits sum.splits)

text \<open>
  The clock of the attempts: attempt \<open>i\<close> (from 0) begins at \<open>try_at\<close>, its call takes \<open>took i\<close>
  and the pause after it is \<open>late i\<close> too long.
\<close>

fun try_at :: "int \<Rightarrow> (nat \<Rightarrow> nat) \<Rightarrow> (nat \<Rightarrow> nat) \<Rightarrow> int \<Rightarrow> nat \<Rightarrow> int" where
  "try_at pause took late start 0 = start"
| "try_at pause took late start (Suc i) = try_at pause took late start i + int (took i) + pause + int (late i)"

definition lag_of :: "(nat \<Rightarrow> nat) \<Rightarrow> (nat \<Rightarrow> nat) \<Rightarrow> nat \<times> 's \<Rightarrow> nat \<times> nat" where
  "lag_of took late s = (took (fst s - 1), late (fst s - 1))"

lemma try_at_grows: "start + int i * pause \<le> try_at pause took late start i"
  by (induction i) (auto simp: algebra_simps)

lemma acquire_attempts:
  assumes "acquire (counted_calls exec) (lag_of took late) name key token life o1 ended deadline
      (try_at (retryEvery o1) took late start m) (m, s) = (r, (n, s'))"
  shows "\<exists>l. n = Suc l \<and> m \<le> l \<and> (wait o1 = 0 \<longrightarrow> l = m) \<and>
    (m < l \<longrightarrow> try_at (retryEvery o1) took late start (l - 1) + int (took (l - 1)) \<le> deadline) \<and>
    (r = Inl (ErrLocked name) \<longrightarrow> wait o1 = 0 \<or> deadline < try_at (retryEvery o1) took late start l + int (took l)) \<and>
    (r = Inl CtxDone \<longrightarrow> ended (try_at (retryEvery o1) took late start (Suc l)))"
  using assms
proof (induction "nat (deadline + 1 - try_at (retryEvery o1) took late start m)" arbitrary: m s rule: less_induct)
  case (less m s)
  let ?at = "try_at (retryEvery o1) took late start"
  obtain a s1 where a: "r_setnx exec key token life s = (a, s1)" by fastforce
  have t: "answered_at (lag_of took late) (?at m) (Suc m, s1) = ?at m + int (took m)"
    "next_try_at (lag_of took late) o1 (?at m) (Suc m, s1) = ?at (Suc m)"
    by (simp_all add: answered_at_def next_try_at_def lag_of_def)
  show ?case
  proof (cases "a = Inr False \<and> \<not> (wait o1 = 0 \<or> ?at m + int (took m) > deadline) \<and> \<not> ended (?at (Suc m))")
    case False
    then have "n = Suc m \<and> (r = Inl (ErrLocked name) \<longrightarrow> wait o1 = 0 \<or> deadline < ?at m + int (took m)) \<and>
        (r = Inl CtxDone \<longrightarrow> ended (?at (Suc m)))"
      using less.prems a
      by (subst (asm) acquire.simps) (auto simp: setnx_counted t simp del: try_at.simps split: sum.splits bool.splits if_splits)
    then show ?thesis by (intro exI [where x = m]) auto
  next
    case True
    then have rec: "acquire (counted_calls exec) (lag_of took late) name key token life o1 ended deadline (?at (Suc m)) (Suc m, s1)
        = (r, (n, s'))"
      using less.prems a by (subst (asm) acquire.simps) (simp add: setnx_counted t del: try_at.simps)
    have "nat (deadline + 1 - ?at (Suc m)) < nat (deadline + 1 - ?at m)"
      using True by (auto simp: retryEvery_def)
    from less.hyps [OF this rec] True show ?thesis
      by (elim exE) (metis Suc_leD diff_Suc_1 le_eq_less_or_eq lessI linorder_not_less)
  qed
qed

section \<open>The invariant\<close>

definition linv :: "string \<Rightarrow> lstate \<Rightarrow> bool" where
  "linv key st \<longleftrightarrow>
     (\<forall>p tok. token_of (phase_of st p) = Some tok \<longrightarrow> tok \<in> used st) \<and>
     (\<forall>p q tok. token_of (phase_of st p) = Some tok \<longrightarrow> token_of (phase_of st q) = Some tok \<longrightarrow> p = q) \<and>
     (\<forall>p tok. \<not> expired st \<longrightarrow> token_of (phase_of st p) = Some tok \<longrightarrow> kv (store st) key = Some tok) \<and>
     sets (store st) key = []"

lemma linv_step: "linv key st \<Longrightarrow> linv key (lstep key life ev st)"
proof (cases ev)
  case (Acquire p tok)
  assume "linv key st"
  with Acquire show ?thesis
    by (auto simp: linv_def setnx_live set_phase_def has_key_def split: if_splits)
next
  case (Tick p up)
  assume "linv key st"
  with Tick show ?thesis
    by (cases "phase_of st p"; auto simp: linv_def keeper_live set_phase_def split: if_splits;
        metis token_of.simps)
next
  case (Return p)
  assume inv: "linv key st"
  show ?thesis
  proof (cases "phase_of st p")
    case (Running tok)
    then have tok: "token_of (phase_of st p) = Some tok" by simp
    have "expired st" if "token_of (phase_of st q) = Some tok'" "q \<noteq> p" for q tok'
      using inv tok that unfolding linv_def by (metis option.inject)
    then have "token_of (phase_of st q) = None" if "\<not> expired st" "q \<noteq> p" for q
      using that by (meson not_None_eq)
    with inv Running Return show ?thesis
      by (auto simp: linv_def release_live set_phase_def split: if_splits)
  qed (use inv Return in \<open>auto simp: linv_def set_phase_def\<close>)
next
  case (Panic p)
  assume "linv key st"
  with Panic show ?thesis
    by (cases "phase_of st p"; auto simp: linv_def set_phase_def split: if_splits;
        metis token_of.simps)
next
  case Expire
  assume "linv key st"
  with Expire show ?thesis by (auto simp: linv_def)
qed

lemma linv_reachable: "lreachable key life st \<Longrightarrow> linv key st"
proof (induction rule: lreachable.induct)
  case init
  then show ?case by (simp add: linv_def lock_init_def empty_rstate_def)
next
  case (step st ev)
  then show ?case by (simp add: linv_step del: lstep.simps)
qed

lemma at_work_token: "at_work x \<Longrightarrow> \<exists>tok. token_of x = Some tok"
  by (cases x) auto

definition lrun :: "string \<Rightarrow> int \<Rightarrow> levent list \<Rightarrow> lstate \<Rightarrow> lstate" where
  "lrun key life es st = fold (lstep key life) es st"

lemma lrun_reachable: "lreachable key life st \<Longrightarrow> lreachable key life (lrun key life es st)"
  unfolding lrun_def by (induction es arbitrary: st) (simp_all add: lreachable.step del: lstep.simps)

text \<open>While an unwound call's keeper has the key, no step but expiry takes it away.\<close>

definition stuck :: "string \<Rightarrow> nat \<Rightarrow> string \<Rightarrow> lstate \<Rightarrow> bool" where
  "stuck key p tok st \<longleftrightarrow> linv key st \<and> phase_of st p = Unwound tok \<and> kv (store st) key = Some tok"

lemma stuck_step:
  assumes "stuck key p tok st" and "ev \<noteq> Expire"
  shows "stuck key p tok (lstep key life ev st) \<and>
    (\<forall>q t. phase_of (lstep key life ev st) q = Running t \<longrightarrow> phase_of st q = Running t)"
proof -
  have inv: "linv key (lstep key life ev st)"
    using assms(1) linv_step by (simp add: stuck_def del: lstep.simps)
  have p: "phase_of st p = Unwound tok" "token_of (phase_of st p) = Some tok" "kv (store st) key = Some tok"
    using assms(1) by (simp_all add: stuck_def)
  have other: "t \<noteq> tok" if "token_of (phase_of st q) = Some t" "q \<noteq> p" for q t
    using assms(1) p(2) that unfolding stuck_def linv_def by metis
  show ?thesis
  proof (cases ev)
    case (Acquire q t)
    with p inv show ?thesis by (auto simp: stuck_def setnx_live has_key_def)
  next
    case (Tick q up)
    with p inv other [of q] show ?thesis
      by (cases "phase_of st q") (auto simp: stuck_def keeper_live set_phase_def split: if_splits)
  next
    case (Return q)
    show ?thesis
    proof (cases "q = p")
      case True
      with Return p inv show ?thesis by (simp add: stuck_def)
    next
      case False
      with Return p inv other [of q] show ?thesis
        by (cases "phase_of st q") (auto simp: stuck_def release_live set_phase_def split: if_splits)
    qed
  next
    case (Panic q)
    with p inv show ?thesis
      by (cases "phase_of st q") (auto simp: stuck_def set_phase_def split: if_splits)
  next
    case Expire
    with assms(2) show ?thesis by simp
  qed
qed

lemma stuck_run:
  assumes "stuck key p tok st" and "Expire \<notin> set es"
  shows "stuck key p tok (lrun key life es st) \<and>
    (\<forall>q t. phase_of (lrun key life es st) q = Running t \<longrightarrow> phase_of st q = Running t)"
  using assms
proof (induction es arbitrary: st)
  case Nil
  then show ?case by (simp add: lrun_def)
next
  case (Cons ev es)
  from Cons.prems have "stuck key p tok (lstep key life ev st)"
    and prev: "\<forall>q t. phase_of (lstep key life ev st) q = Running t \<longrightarrow> phase_of st q = Running t"
    using stuck_step [of key p tok st ev life] by auto
  with Cons.IH [of "lstep key life ev st"] Cons.prems(2) show ?case
    by (simp add: lrun_def del: lstep.simps)
qed

text \<open>
  The keeper treats an unanswered renewal as a hiccup, however many there are: when Redis is
  unreachable for one holder until the key runs out, a second call starts while the first is
  still at work with a live context.
\<close>

lemma lock_outage_two_holders:
  "let st = lrun ''lock:svc:x'' 10000 [Acquire 0 ''a'', Tick 0 False, Tick 0 False, Tick 0 False, Expire, Acquire 1 ''b''] lock_init
   in phase_of st 0 = Running ''a'' \<and> phase_of st 1 = Running ''b''"
  by code_simp

section \<open>Properties\<close>

text \<open>
  C5. One holder at a time. In every state the concurrent calls of a lock can reach, at
  most one call is at work as long as the key has not run out under its holder; and a call
  that ends, whatever happened to its key, never takes the key from the call that holds it
  now.
\<close>

theorem lock_exclusive:
  assumes "lreachable key life st"
  shows "(\<not> expired st \<and> at_work (phase_of st p) \<and> at_work (phase_of st q) \<longrightarrow> p = q) \<and>
    (p \<noteq> q \<and> phase_of st q = Running tok \<and> kv (store st) key = Some tok \<longrightarrow>
       kv (store (lstep key life (Return p) st)) key = Some tok)"
proof -
  from linv_reachable [OF assms] have inv: "linv key st" .
  then have "p = q" if "\<not> expired st" "at_work (phase_of st p)" "at_work (phase_of st q)"
    using that at_work_token unfolding linv_def by (metis option.inject)
  moreover have "kv (store (lstep key life (Return p) st)) key = Some tok"
    if "p \<noteq> q" "phase_of st q = Running tok" "kv (store st) key = Some tok"
  proof -
    have "t \<noteq> tok" if "phase_of st p = Running t" for t
      using inv \<open>p \<noteq> q\<close> \<open>phase_of st q = Running tok\<close> that unfolding linv_def by (metis token_of.simps(2))
    with that(3) show ?thesis
      by (cases "phase_of st p") (auto simp: release_live set_phase_def)
  qed
  ultimately show ?thesis by blast
qed

lemma lock_exclusive_witness:
  "\<not> at_work (phase_of (lrun ''lock:x'' 10000 [Acquire 0 ''a'', Acquire 1 ''b''] lock_init) 1)"
proof -
  let ?st = "lrun ''lock:x'' 10000 [Acquire 0 ''a'', Acquire 1 ''b''] lock_init"
  have r: "lreachable ''lock:x'' 10000 ?st" by (rule lrun_reachable [OF lreachable.init])
  have "\<not> expired ?st" "at_work (phase_of ?st 0)" by code_simp+
  with lock_exclusive [OF r, of 0 1 "''a''"] show ?thesis by auto
qed

text \<open>
  A panic in the work keeps the lock for good. When the work panics while its call
  holds the key (the panic unwinds \<^verbatim>\<open>WithLock\<close>, and whoever recovers it lives on), the
  keeper is not stopped: it renews the key on every tick, so that whatever happens short of
  the key running out, the key stays with the dead call and no other call gets the lock.
\<close>

lemma lock_panic_keeps_lock:
  assumes reach: "lreachable key life st" and "phase_of st p = Running tok" and "kv (store st) key = Some tok"
    and "Expire \<notin> set es"
  shows "kv (store (lrun key life (Panic p # es) st)) key = Some tok \<and>
    phase_of (lrun key life (Panic p # es) st) p = Unwound tok \<and>
    (\<forall>q t. phase_of (lrun key life (Panic p # es) st) q = Running t \<longrightarrow> q \<noteq> p \<and> phase_of st q = Running t)"
proof -
  let ?st = "lstep key life (Panic p) st"
  have "lreachable key life ?st" by (rule lreachable.step [OF reach])
  then have "linv key ?st" by (rule linv_reachable)
  then have s: "stuck key p tok ?st" using assms(2,3) by (simp add: stuck_def set_phase_def)
  have run: "lrun key life (Panic p # es) st = lrun key life es ?st" by (simp add: lrun_def del: lstep.simps)
  from stuck_run [OF s assms(4), of life] have
    end_st: "stuck key p tok (lrun key life es ?st)" and
    prev: "\<And>q t. phase_of (lrun key life es ?st) q = Running t \<Longrightarrow> phase_of ?st q = Running t" by auto
  have "q \<noteq> p \<and> phase_of st q = Running t" if "phase_of (lrun key life es ?st) q = Running t" for q t
    using prev [OF that] assms(2) by (auto simp: set_phase_def split: if_splits)
  with end_st run show ?thesis by (simp add: stuck_def del: lstep.simps)
qed

lemma lock_panic_keeps_lock_witness:
  "phase_of (lrun ''lock:x'' 10000 (Panic 0 # [Tick 0 True, Tick 0 True, Acquire 1 ''b'']) 
     (lrun ''lock:x'' 10000 [Acquire 0 ''a''] lock_init)) 0 = Unwound ''a''"
proof -
  let ?st = "lrun ''lock:x'' 10000 [Acquire 0 ''a''] lock_init"
  have r: "lreachable ''lock:x'' 10000 ?st" by (rule lrun_reachable [OF lreachable.init])
  have "phase_of ?st 0 = Running ''a''" "kv (store ?st) ''lock:x'' = Some ''a''" by code_simp+
  from lock_panic_keeps_lock [OF r this, of "[Tick 0 True, Tick 0 True, Acquire 1 ''b'']"] show ?thesis by simp
qed

text \<open>
  C28. The wait for a lock ends. However long each call to Redis takes before it returns,
  however late the timers fire and however long the holder stays, a call with a wait of \<open>W\<close>
  that tries every \<open>p\<close> makes at most \<open>W div p + 2\<close> attempts (one when it does not wait).
  Its last attempt, when it is not the first, begins at most one pause (with what its timer
  was late) after the deadline, so that it is over when the call of that attempt is. It
  says that the lock is held only when it did not wait, or when its last answer came after
  the deadline, and that its context is over only when it was.
\<close>

theorem lock_wait_ends:
  assumes "0 \<le> wait o1"
  shows "case acquire (counted_calls exec) (lag_of took late) name key token life o1 ended (start + wait o1) start (0, s) of
    (r, n, s') \<Rightarrow>
      0 < n \<and> int n \<le> (if wait o1 = 0 then 1 else wait o1 div retryEvery o1 + 2) \<and>
      (1 < n \<longrightarrow> try_at (retryEvery o1) took late start (n - 1) \<le> start + wait o1 + retryEvery o1 + int (late (n - 2))) \<and>
      (r = Inl (ErrLocked name) \<longrightarrow>
         wait o1 = 0 \<or> start + wait o1 < try_at (retryEvery o1) took late start (n - 1) + int (took (n - 1))) \<and>
      (r = Inl CtxDone \<longrightarrow> ended (try_at (retryEvery o1) took late start n))"
proof -
  let ?at = "try_at (retryEvery o1) took late start"
  obtain r n s' where run: "acquire (counted_calls exec) (lag_of took late) name key token life o1 ended
      (start + wait o1) start (0, s) = (r, (n, s'))"
    by (metis surj_pair)
  have pos: "0 < retryEvery o1" by (simp add: retryEvery_def)
  have "?at 0 = start" by simp
  from acquire_attempts [where m = 0 and took = took and late = late and start = start, unfolded try_at.simps(1), OF run]
  obtain l where l: "n = Suc l" "wait o1 = 0 \<longrightarrow> l = 0"
    "0 < l \<longrightarrow> ?at (l - 1) + int (took (l - 1)) \<le> start + wait o1"
    "r = Inl (ErrLocked name) \<longrightarrow> wait o1 = 0 \<or> start + wait o1 < ?at l + int (took l)"
    "r = Inl CtxDone \<longrightarrow> ended (?at (Suc l))" by auto
  have "int l - 1 \<le> wait o1 div retryEvery o1" if "0 < l"
  proof -
    have "(int l - 1) * retryEvery o1 \<le> wait o1"
      using l(3) that try_at_grows [of start "l - 1" "retryEvery o1" took late] by (simp add: of_nat_diff)
    then have "((int l - 1) * retryEvery o1) div retryEvery o1 \<le> wait o1 div retryEvery o1"
      using pos by (intro zdiv_mono1) auto
    with pos show ?thesis by simp
  qed
  moreover have "0 \<le> wait o1 div retryEvery o1" using assms pos by (simp add: pos_imp_zdiv_nonneg_iff)
  ultimately have "int n \<le> wait o1 div retryEvery o1 + 2" using l(1) by (cases "l = 0") auto
  moreover have "?at l \<le> start + wait o1 + retryEvery o1 + int (late (l - 1))" if "0 < l"
    using l(3) that by (cases l) auto
  ultimately show ?thesis using l run by auto
qed

text \<open>A Redis that takes 70 ms for a call, waited for with a wait of 120 ms.\<close>

theorem lock_wait_ends_witness:
  "fst (snd (acquire (counted_calls live_exec) (lag_of (\<lambda>_. 70) (\<lambda>_. 1)) ''x'' ''lock:x'' ''b'' 10000 \<lparr>wait = 120, retry = 0\<rparr> (\<lambda>_. False) 120 0
     (0, set_key ''lock:x'' ''a'' 10000 empty_rstate))) \<le> 4"
  using lock_wait_ends [of "\<lparr>wait = 120, retry = 0\<rparr>", where name = "''x''" and exec = live_exec and key = "''lock:x''"
      and token = "''b''" and life = 10000 and ended = "\<lambda>_. False" and start = 0 and took = "\<lambda>_. 70" and late = "\<lambda>_. 1"
      and s = "set_key ''lock:x'' ''a'' 10000 empty_rstate"]
  by (auto simp: retryEvery_def split: prod.splits)

end
