(* ===== verification/Migrate.thy ===== *)
theory Migrate
  imports Lock
begin

text \<open>
  The schema migration of a service, \<^verbatim>\<open>kitexx/migrate.go\<close>: how column types are read and
  compared, when a change of type narrows, the plan for the tables of the service's models,
  and \<^verbatim>\<open>AutoMigrate\<close>, which carries a plan out under the lock of \<open>Lock\<close>. GORM, which
  alters the tables, and the parser of decimal fractions are parameters. Identifiers and
  types are ASCII.
\<close>

section \<open>Column types\<close>

definition assoc_rank :: "(string \<times> nat) list \<Rightarrow> string \<Rightarrow> nat" where
  "assoc_rank tbl s = (case map_of tbl s of None \<Rightarrow> 0 | Some n \<Rightarrow> n)"

definition intRank :: "string \<Rightarrow> nat" where
  "intRank = assoc_rank [(''tinyint'', 1), (''smallint'', 2), (''mediumint'', 3), (''int'', 4), (''integer'', 4), (''bigint'', 5)]"

definition textRank :: "string \<Rightarrow> nat" where
  "textRank = assoc_rank [(''tinytext'', 1), (''text'', 2), (''mediumtext'', 3), (''longtext'', 4),
     (''tinyblob'', 1), (''blob'', 2), (''mediumblob'', 3), (''longblob'', 4)]"

definition sized :: "string \<Rightarrow> bool" where
  "sized s \<longleftrightarrow> s \<in> set [''varchar'', ''char'', ''varbinary'', ''binary'']"

fun int_params :: "string list \<Rightarrow> int list option" where
  "int_params [] = Some []"
| "int_params (p # ps) = (case parse_int64 (trim_space p) of None \<Rightarrow> None | Some n \<Rightarrow> map_option ((#) n) (int_params ps))"

definition splitType :: "string \<Rightarrow> string \<times> int list \<times> string" where
  "splitType t =
     (case index_byte (CHR ''('') t of
        None \<Rightarrow> (case go_fields t of [] \<Rightarrow> ([], [], []) | f # fs \<Rightarrow> (f, [], go_join '' '' fs))
      | Some i \<Rightarrow>
          (case index_byte (CHR '')'') t of
             None \<Rightarrow> (trim_space (take i t), [], [])
           | Some j \<Rightarrow>
               if j < i then (trim_space (take i t), [], [])
               else (trim_space (take i t),
                     (case int_params (split_on (CHR '','') (take (j - (i + 1)) (drop (i + 1) t))) of None \<Rightarrow> [] | Some ns \<Rightarrow> ns),
                     trim_space (drop (j + 1) t))))"

definition normalizeType :: "string \<Rightarrow> string" where
  "normalizeType t =
     (let t1 = go_join '' '' (go_fields (to_lower (trim_space t)));
          t2 = replace_str '' ('' ''('' (replace_str '' ,'' '','' (replace_str '', '' '','' t1))
      in if t2 = ''bool'' \<or> t2 = ''boolean'' then ''tinyint(1)''
         else (case splitType t2 of (base, params, rest) \<Rightarrow>
                 if intRank base > 0 \<and> \<not> (base = ''tinyint'' \<and> params = [1])
                 then trim_space (base @ '' '' @ rest) else t2))"

definition narrows :: "string \<Rightarrow> string \<Rightarrow> bool" where
  "narrows have want =
     (case (splitType have, splitType want) of
        ((hb, hp, hr), (wb, wp, wr)) \<Rightarrow>
          if sized hb \<and> sized wb then length hp = 1 \<and> length wp = 1 \<and> hd wp < hd hp
          else if intRank hb > 0 \<and> intRank wb > 0 then
            (if intRank wb < intRank hb then True else \<not> contains hr ''unsigned'' \<and> contains wr ''unsigned'')
          else if (hb = ''decimal'' \<or> hb = ''numeric'') \<and> (wb = ''decimal'' \<or> wb = ''numeric'') then
            (if length hp = 2 \<and> length wp = 2 then hd wp < hd hp \<or> wp ! 1 < hp ! 1 else False)
          else if textRank hb > 0 \<and> textRank wb > 0 then textRank wb < textRank hb
          else textRank hb > 0 \<and> sized wb)"

text \<open>The words of a type tag, with its collation taken out.\<close>

fun collate_loop :: "string list \<Rightarrow> string \<Rightarrow> string list \<times> string" where
  "collate_loop [] coll = ([], coll)"
| "collate_loop (f # fs) coll =
     (if to_lower f = ''collate'' then
        (case fs of [] \<Rightarrow> ([], coll) | x # r \<Rightarrow> collate_loop r (to_lower x))
      else if to_lower f = ''character'' then
        (case fs of
           x # y # r \<Rightarrow> if to_lower x = ''set'' then collate_loop r coll
                        else (case collate_loop fs coll of (k, c) \<Rightarrow> (f # k, c))
         | _ \<Rightarrow> (case collate_loop fs coll of (k, c) \<Rightarrow> (f # k, c)))
      else if to_lower f = ''charset'' then
        (case fs of [] \<Rightarrow> ([], coll) | x # r \<Rightarrow> collate_loop r coll)
      else (case collate_loop fs coll of (k, c) \<Rightarrow> (f # k, c)))"

definition splitCollate :: "string \<Rightarrow> string \<times> string" where
  "splitCollate t = (case collate_loop (go_fields (trim_space t)) [] of (k, c) \<Rightarrow> (go_join '' '' k, c))"

section \<open>Models and tables\<close>

text \<open>A field of a model as GORM reads it: its tag's type and default, and what GORM derives.\<close>

record gfield =
  g_Name :: string
  g_DBName :: string
  g_Ignore :: bool
  g_Type :: string
  g_NotNull :: bool
  g_PrimaryKey :: bool
  g_Default :: "string option"

record gmodel =
  gm_Name :: string
  gm_Table :: string
  gm_Fields :: "gfield list"
  gm_Indexes :: "string list"

record columnInfo =
  ci_Type :: string
  ci_Nullable :: bool
  ci_Default :: "string option"
  ci_Collation :: string

record tableSnapshot =
  ts_columns :: "string \<Rightarrow> columnInfo option"
  ts_indexes :: "string list"

type_synonym schemaSnapshot = "string \<Rightarrow> tableSnapshot option"

text \<open>The rows of the two queries.\<close>

record col_row =
  cr_Table :: string
  cr_Column :: string
  cr_Type :: string
  cr_Nullable :: string
  cr_Default :: "string option"
  cr_Collation :: "string option"

definition column_of :: "col_row \<Rightarrow> columnInfo" where
  "column_of r = \<lparr>ci_Type = normalizeType (cr_Type r), ci_Nullable = (to_lower (cr_Nullable r) = ''yes''),
     ci_Default = cr_Default r, ci_Collation = (case cr_Collation r of None \<Rightarrow> [] | Some c \<Rightarrow> to_lower c)\<rparr>"

definition add_column :: "col_row \<Rightarrow> schemaSnapshot \<Rightarrow> schemaSnapshot" where
  "add_column r snap =
     (let t = to_lower (cr_Table r);
          ts = (case snap t of None \<Rightarrow> \<lparr>ts_columns = Map.empty, ts_indexes = []\<rparr> | Some x \<Rightarrow> x)
      in snap(t \<mapsto> ts\<lparr>ts_columns := (ts_columns ts)(to_lower (cr_Column r) \<mapsto> column_of r)\<rparr>))"

definition add_index :: "string \<times> string \<Rightarrow> schemaSnapshot \<Rightarrow> schemaSnapshot" where
  "add_index i snap = (case snap (to_lower (fst i)) of None \<Rightarrow> snap
     | Some ts \<Rightarrow> snap(to_lower (fst i) \<mapsto> ts\<lparr>ts_indexes := to_lower (snd i) # ts_indexes ts\<rparr>))"

definition schema_of :: "col_row list \<Rightarrow> (string \<times> string) list \<Rightarrow> schemaSnapshot" where
  "schema_of cols idx = fold add_index idx (fold add_column cols Map.empty)"

text \<open>
  The database as the code uses it through GORM: the queries of the columns and of the
  indexes of a list of tables, GORM's \<^verbatim>\<open>AutoMigrate\<close> of a list of models, and its
  \<^verbatim>\<open>AlterColumn\<close>. \<open>q_number\<close>: both texts are numbers to \<^verbatim>\<open>strconv.ParseFloat\<close>, and equal.
\<close>

record 'w gorm =
  q_number :: "string \<Rightarrow> string \<Rightarrow> bool"
  q_columns :: "string list \<Rightarrow> 'w \<Rightarrow> (string + col_row list) \<times> 'w"
  q_indexes :: "string list \<Rightarrow> 'w \<Rightarrow> (string + (string \<times> string) list) \<times> 'w"
  q_migrate :: "gmodel list \<Rightarrow> 'w \<Rightarrow> string option \<times> 'w"
  q_alter :: "gmodel \<Rightarrow> string \<Rightarrow> 'w \<Rightarrow> string option \<times> 'w"

definition snapshot :: "'w gorm \<Rightarrow> string list \<Rightarrow> 'w \<Rightarrow> (string + schemaSnapshot) \<times> 'w" where
  "snapshot db tables w =
     (if tables = [] then (Inr Map.empty, w)
      else case q_columns db tables w of
          (Inl e, w1) \<Rightarrow> (Inl (''read columns: '' @ e), w1)
        | (Inr cols, w1) \<Rightarrow>
            (case q_indexes db tables w1 of
               (Inl e, w2) \<Rightarrow> (Inl (''read indexes: '' @ e), w2)
             | (Inr idx, w2) \<Rightarrow> (Inr (schema_of cols idx), w2)))"

section \<open>The plan\<close>

record tablePlan =
  tp_model :: gmodel
  tp_before :: "tableSnapshot option"
  tp_create :: bool
  tp_addColumns :: "string list"
  tp_addIndexes :: "string list"
  tp_alterColumns :: "string list"
  tp_narrowing :: "string list"
  tp_collate :: "string list"

definition changes :: "tablePlan \<Rightarrow> bool" where
  "changes p \<longleftrightarrow> tp_create p \<or> tp_addColumns p \<noteq> [] \<or> tp_addIndexes p \<noteq> [] \<or> tp_alterColumns p \<noteq> []"

definition plan_changed :: "tablePlan list \<Rightarrow> tablePlan list" where
  "plan_changed ps = filter changes ps"

datatype migrate_error = NoDB | ModelError string | NoTypes string "string list" | ReadError string
  | Narrowing "string list" | GormError string | CollationError string string string | MigrateLock lock_error
  | FrameworkMissing "string list" | CreateError string string

definition refuseNarrowing :: "tablePlan list \<Rightarrow> migrate_error option" where
  "refuseNarrowing ps = (let all = concat (map tp_narrowing ps) in if all = [] then None else Some (Narrowing all))"

definition nullability :: "bool \<Rightarrow> string" where
  "nullability b = (if b then ''NULL'' else ''NOT NULL'')"

definition defaultText :: "string option \<Rightarrow> string" where
  "defaultText d = (case d of None \<Rightarrow> ''(none)'' | Some s \<Rightarrow> [CHR 0x27] @ s @ [CHR 0x27])"

definition sameDefault :: "(string \<Rightarrow> string \<Rightarrow> bool) \<Rightarrow> string option \<Rightarrow> string option \<Rightarrow> bool" where
  "sameDefault same_number a b =
     (case (a, b) of
        (Some x, Some y) \<Rightarrow> x = y \<or> same_number (trim_space x) (trim_space y)
      | _ \<Rightarrow> a = None \<and> b = None)"

definition trim_quotes :: "string \<Rightarrow> string" where
  "trim_quotes s = (let q = \<lambda>c. c = CHR 0x27 \<or> c = CHR 0x22 in rev (dropWhile q (rev (dropWhile q s))))"

definition arrow :: "string \<Rightarrow> string \<Rightarrow> string \<Rightarrow> string" where
  "arrow name have want = name @ '': '' @ have @ '' -> '' @ want"

definition to_migrate :: "gfield \<Rightarrow> bool" where
  "to_migrate f \<longleftrightarrow> g_DBName f \<noteq> [] \<and> \<not> g_Ignore f"

definition checkModel :: "gmodel \<Rightarrow> migrate_error option" where
  "checkModel m =
     (let missing = map g_Name (filter (\<lambda>f. to_migrate f \<and> trim_space (g_Type f) = []) (gm_Fields m))
      in if missing = [] then None else Some (NoTypes (gm_Name m) missing))"

text \<open>One field against its table.\<close>

definition plan_field :: "(string \<Rightarrow> string \<Rightarrow> bool) \<Rightarrow> tableSnapshot \<Rightarrow> gfield \<Rightarrow> tablePlan \<Rightarrow> tablePlan" where
  "plan_field same_number ts f p =
     (if \<not> to_migrate f then p
      else case ts_columns ts (to_lower (g_DBName f)) of
          None \<Rightarrow> p\<lparr>tp_addColumns := tp_addColumns p @ [g_DBName f]\<rparr>
        | Some col \<Rightarrow>
            (let (typeTag, wantCollation) = splitCollate (g_Type f);
                 want = normalizeType typeTag;
                 name = gm_Table (tp_model p) @ ''.'' @ g_DBName f;
                 wantNullable = (\<not> (g_NotNull f \<or> g_PrimaryKey f))
             in if want \<noteq> ci_Type col then
                  p\<lparr>tp_alterColumns := tp_alterColumns p @ [arrow (g_DBName f) (ci_Type col) want],
                    tp_narrowing := tp_narrowing p @ (if narrows (ci_Type col) want then [arrow name (ci_Type col) want] else [])\<rparr>
                else if wantCollation \<noteq> [] \<and> ci_Collation col \<noteq> [] \<and> wantCollation \<noteq> ci_Collation col then
                  (let p = p\<lparr>tp_alterColumns := tp_alterColumns p @
                              [arrow (g_DBName f) (''collate '' @ ci_Collation col) wantCollation]\<rparr>
                   in if \<not> has_suffix wantCollation ''_bin''
                      then p\<lparr>tp_narrowing := tp_narrowing p @ [arrow name (''collate '' @ ci_Collation col) wantCollation
                               @ '' (only a *_bin collation is applied automatically)'']\<rparr>
                      else p\<lparr>tp_collate := tp_collate p @ [g_Name f]\<rparr>)
                else if wantNullable \<noteq> ci_Nullable col then
                  p\<lparr>tp_alterColumns := tp_alterColumns p @
                     [arrow (g_DBName f) (nullability (ci_Nullable col)) (nullability wantNullable)]\<rparr>
                else (case (g_Default f, ci_Default col) of
                    (Some d, Some x) \<Rightarrow>
                      (let w = trim_quotes (trim_space d)
                       in if \<not> sameDefault same_number (Some w) (Some x)
                          then p\<lparr>tp_alterColumns := tp_alterColumns p @
                                  [arrow (g_DBName f) (''default '' @ defaultText (Some x)) (defaultText (Some w))]\<rparr>
                          else p)
                  | _ \<Rightarrow> p)))"

definition empty_plan :: "gmodel \<Rightarrow> tablePlan" where
  "empty_plan m = \<lparr>tp_model = m, tp_before = None, tp_create = False, tp_addColumns = [], tp_addIndexes = [],
     tp_alterColumns = [], tp_narrowing = [], tp_collate = []\<rparr>"

definition plan_table :: "(string \<Rightarrow> string \<Rightarrow> bool) \<Rightarrow> schemaSnapshot \<Rightarrow> gmodel \<Rightarrow> tablePlan" where
  "plan_table same_number snap m =
     (case snap (to_lower (gm_Table m)) of
        None \<Rightarrow> (empty_plan m)\<lparr>tp_create := True\<rparr>
      | Some ts \<Rightarrow>
          (fold (plan_field same_number ts) (gm_Fields m) ((empty_plan m)\<lparr>tp_before := Some ts\<rparr>))
            \<lparr>tp_addIndexes := sort (filter (\<lambda>i. to_lower i \<notin> set (ts_indexes ts)) (gm_Indexes m))\<rparr>)"

text \<open>The models as parsed; the first that does not parse, or lacks a type, ends it.\<close>

fun check_models :: "(string + gmodel) list \<Rightarrow> migrate_error + gmodel list" where
  "check_models [] = Inr []"
| "check_models (Inl e # ms) = Inl (ModelError e)"
| "check_models (Inr m # ms) =
     (case checkModel m of
        Some e \<Rightarrow> Inl e
      | None \<Rightarrow> (case check_models ms of Inl e \<Rightarrow> Inl e | Inr r \<Rightarrow> Inr (m # r)))"

definition migratePlan :: "'w gorm \<Rightarrow> (string + gmodel) list \<Rightarrow> 'w \<Rightarrow> (migrate_error + tablePlan list) \<times> 'w" where
  "migratePlan db models w =
     (case check_models models of
        Inl e \<Rightarrow> (Inl e, w)
      | Inr ms \<Rightarrow>
          (case snapshot db (map gm_Table ms) w of
             (Inl e, w') \<Rightarrow> (Inl (ReadError e), w')
           | (Inr snap, w') \<Rightarrow> (Inr (map (plan_table (q_number db) snap) ms), w')))"

section \<open>AutoMigrate\<close>

text \<open>The collations, table by table and field by field, to the first error.\<close>

fun alter_collations :: "'w gorm \<Rightarrow> (gmodel \<times> string) list \<Rightarrow> 'w \<Rightarrow> migrate_error option \<times> 'w" where
  "alter_collations db [] w = (None, w)"
| "alter_collations db ((m, f) # r) w =
     (case q_alter db m f w of
        (Some e, w') \<Rightarrow> (Some (CollationError (gm_Table m) f e), w')
      | (None, w') \<Rightarrow> alter_collations db r w')"

definition apply_plan :: "'w gorm \<Rightarrow> tablePlan list \<Rightarrow> 'w \<Rightarrow> migrate_error option \<times> 'w" where
  "apply_plan db todo w =
     (case q_migrate db (map tp_model todo) w of
        (Some e, w1) \<Rightarrow> (Some (GormError e), w1)
      | (None, w1) \<Rightarrow> alter_collations db (concat (map (\<lambda>p. map (Pair (tp_model p)) (tp_collate p)) todo)) w1)"

text \<open>What runs under the lock: plan again, refuse, apply, read back.\<close>

definition migrate_run :: "'w gorm \<Rightarrow> (string + gmodel) list \<Rightarrow> 'w \<Rightarrow> migrate_error option \<times> 'w" where
  "migrate_run db models w =
     (case migratePlan db models w of
        (Inl e, w1) \<Rightarrow> (Some e, w1)
      | (Inr ps, w1) \<Rightarrow>
          (case refuseNarrowing ps of
             Some e \<Rightarrow> (Some e, w1)
           | None \<Rightarrow>
               if plan_changed ps = [] then (None, w1)
               else (case apply_plan db (plan_changed ps) w1 of
                   (Some e, w2) \<Rightarrow> (Some e, w2)
                 | (None, w2) \<Rightarrow>
                     (case snapshot db (map (gm_Table \<circ> tp_model) (plan_changed ps)) w2 of
                        (Inl e, w3) \<Rightarrow> (Some (ReadError e), w3)
                      | (Inr _, w3) \<Rightarrow> (None, w3)))))"

text \<open>\<^verbatim>\<open>Config.AutoMigrateOn\<close> of \<^verbatim>\<open>mysqlx\<close>.\<close>

definition AutoMigrateOn :: "bool \<Rightarrow> bool option \<Rightarrow> string \<Rightarrow> bool" where
  "AutoMigrateOn takeover setting env =
     (if takeover then False else case setting of Some b \<Rightarrow> b | None \<Rightarrow> env = ''local'' \<or> env = ''dev'')"

text \<open>
  A change of the schema under the lock of all of them; without Redis it runs unlocked. A
  lock lost meanwhile is no error: the statements have run or not, and stay.
\<close>

definition under_lock ::
  "'w exec option \<Rightarrow> ('w \<Rightarrow> nat \<times> nat) \<Rightarrow> string \<Rightarrow> string \<Rightarrow> (int \<Rightarrow> bool) \<Rightarrow> int \<Rightarrow> ('w \<Rightarrow> bool) \<Rightarrow> (migrate_error \<Rightarrow> string) \<Rightarrow>
   ('w \<Rightarrow> migrate_error option \<times> 'w) \<Rightarrow> 'w \<Rightarrow> migrate_error option \<times> 'w" where
  "under_lock rdb lag ns token ended start lost say run w =
     (case rdb of
        None \<Rightarrow> run w
      | Some exec \<Rightarrow>
          (case WithLock (Some exec) lag ns ''auto-migrate'' 120000 \<lparr>wait = 300000, retry = 0\<rparr> token ended start
                  (\<lambda>s. case run s of (e, s') \<Rightarrow> ((map_option say e, lost s'), s')) w of
             (Inl (ErrLockLost _), w2) \<Rightarrow> (None, w2)
           | (Inl e, w2) \<Rightarrow> (Some (MigrateLock e), w2)
           | (Inr _, w2) \<Rightarrow> (None, w2)))"

text \<open>
  \<open>db = None\<close>: MySQL is not configured. \<open>rdb\<close>, \<open>lag\<close>, \<open>ns\<close>, \<open>token\<close>, \<open>ended\<close> and \<open>start\<close> are
  those of \<open>WithLock\<close>; \<open>lost\<close> says whether the keeper found the lock gone, and \<open>say\<close> is the
  text of an error.
\<close>

definition AutoMigrate ::
  "'w gorm option \<Rightarrow> bool \<Rightarrow> bool \<Rightarrow> 'w exec option \<Rightarrow> ('w \<Rightarrow> nat \<times> nat) \<Rightarrow> string \<Rightarrow> string \<Rightarrow> (int \<Rightarrow> bool) \<Rightarrow> int \<Rightarrow> ('w \<Rightarrow> bool) \<Rightarrow>
   (migrate_error \<Rightarrow> string) \<Rightarrow> (string + gmodel) list \<Rightarrow> 'w \<Rightarrow> migrate_error option \<times> 'w" where
  "AutoMigrate mysql verify on rdb lag ns token ended start lost say models w =
     (case mysql of
        None \<Rightarrow> (Some NoDB, w)
      | Some db \<Rightarrow>
          if models = [] then (None, w)
          else if verify then (None, w)
          else (case migratePlan db models w of
              (Inl e, w1) \<Rightarrow> (Some e, w1)
            | (Inr ps, w1) \<Rightarrow>
                if \<not> on then (None, w1)
                else if plan_changed ps = [] then (None, w1)
                else (case refuseNarrowing ps of
                    Some e \<Rightarrow> (Some e, w1)
                  | None \<Rightarrow>
                     under_lock rdb lag ns token ended start lost say (migrate_run db models) w1)))"

section \<open>The framework's own tables\<close>

text \<open>The statements \<^verbatim>\<open>kafkax.OutboxDDL\<close>, \<^verbatim>\<open>delayx.DDL\<close> and \<^verbatim>\<open>kafkax.OutboxServiceColumn\<close>.\<close>

datatype ddl = OutboxDDL | DelayDDL | OutboxServiceColumn

text \<open>The database: its tables, the column \<open>service\<close> of its outbox, and a statement run on it.\<close>

record 'w fwdb =
  has_table :: "string \<Rightarrow> 'w \<Rightarrow> bool"
  has_service :: "'w \<Rightarrow> bool"
  run_ddl :: "ddl \<Rightarrow> 'w \<Rightarrow> (nat option \<times> string) option \<times> 'w"

text \<open>\<open>IsCode\<close>: an error with its MySQL number, when it is one of the server's.\<close>

definition IsCode :: "nat option \<times> string \<Rightarrow> nat list \<Rightarrow> bool" where
  "IsCode e codes = (case fst e of None \<Rightarrow> False | Some n \<Rightarrow> n \<in> set codes)"

definition wanted_tables :: "bool \<Rightarrow> bool option \<Rightarrow> bool option \<Rightarrow> (string \<times> ddl) list" where
  "wanted_tables kafka outbox delay =
     (if kafka \<and> (case outbox of None \<Rightarrow> True | Some b \<Rightarrow> b) then [(''outbox'', OutboxDDL)] else []) @
     (if (case delay of None \<Rightarrow> True | Some b \<Rightarrow> b) then [(''delayed_task'', DelayDDL)] else [])"

definition lacks_column :: "'w fwdb \<Rightarrow> (string \<times> ddl) list \<Rightarrow> 'w \<Rightarrow> bool" where
  "lacks_column db want w \<longleftrightarrow> ''outbox'' \<in> fst ` set want \<and> has_table db ''outbox'' w \<and> \<not> has_service db w"

definition missing_tables :: "'w fwdb \<Rightarrow> (string \<times> ddl) list \<Rightarrow> 'w \<Rightarrow> string list" where
  "missing_tables db want w = concat (map (\<lambda>(n, d). if \<not> has_table db n w then [n]
     else if n = ''outbox'' \<and> \<not> has_service db w then [''outbox.service''] else []) want)"

fun create_tables :: "'w fwdb \<Rightarrow> (string \<times> ddl) list \<Rightarrow> 'w \<Rightarrow> migrate_error option \<times> 'w" where
  "create_tables db [] w = (None, w)"
| "create_tables db ((n, d) # r) w =
     (if has_table db n w then create_tables db r w
      else case run_ddl db d w of
          (Some e, w') \<Rightarrow> (Some (CreateError n (snd e)), w')
        | (None, w') \<Rightarrow> create_tables db r w')"

definition create_framework :: "'w fwdb \<Rightarrow> bool \<Rightarrow> (string \<times> ddl) list \<Rightarrow> 'w \<Rightarrow> migrate_error option \<times> 'w" where
  "create_framework db outboxColumn want w =
     (if outboxColumn \<and> \<not> has_service db w then
        (case run_ddl db OutboxServiceColumn w of
           (Some e, w') \<Rightarrow> if IsCode e [1060, 1061] then create_tables db want w'
                          else (Some (CreateError ''outbox.service'' (snd e)), w')
         | (None, w') \<Rightarrow> create_tables db want w')
      else create_tables db want w)"

definition EnsureFrameworkTables ::
  "'w fwdb option \<Rightarrow> (string \<times> ddl) list \<Rightarrow> bool \<Rightarrow> 'w exec option \<Rightarrow> ('w \<Rightarrow> nat \<times> nat) \<Rightarrow> string \<Rightarrow> string \<Rightarrow> (int \<Rightarrow> bool) \<Rightarrow> int \<Rightarrow>
   ('w \<Rightarrow> bool) \<Rightarrow> (migrate_error \<Rightarrow> string) \<Rightarrow> 'w \<Rightarrow> migrate_error option \<times> 'w" where
  "EnsureFrameworkTables mysql want on rdb lag ns token ended start lost say w =
     (case mysql of
        None \<Rightarrow> (None, w)
      | Some db \<Rightarrow>
          if want = [] then (None, w)
          else if missing_tables db want w = [] then (None, w)
          else if \<not> on then (Some (FrameworkMissing (missing_tables db want w)), w)
          else under_lock rdb lag ns token ended start lost say (create_framework db (lacks_column db want w) want) w)"

section \<open>What a plan says\<close>

text \<open>A field and a table that are as the model says.\<close>

definition field_matches :: "(string \<Rightarrow> string \<Rightarrow> bool) \<Rightarrow> tableSnapshot \<Rightarrow> gfield \<Rightarrow> bool" where
  "field_matches same_number ts f \<longleftrightarrow>
     (\<exists>col. ts_columns ts (to_lower (g_DBName f)) = Some col \<and>
        normalizeType (fst (splitCollate (g_Type f))) = ci_Type col \<and>
        (snd (splitCollate (g_Type f)) \<noteq> [] \<and> ci_Collation col \<noteq> [] \<longrightarrow> snd (splitCollate (g_Type f)) = ci_Collation col) \<and>
        ci_Nullable col = (\<not> (g_NotNull f \<or> g_PrimaryKey f)) \<and>
        (\<forall>d x. g_Default f = Some d \<and> ci_Default col = Some x \<longrightarrow>
           sameDefault same_number (Some (trim_quotes (trim_space d))) (Some x)))"

definition table_matches :: "(string \<Rightarrow> string \<Rightarrow> bool) \<Rightarrow> schemaSnapshot \<Rightarrow> gmodel \<Rightarrow> bool" where
  "table_matches same_number snap m \<longleftrightarrow>
     (\<exists>ts. snap (to_lower (gm_Table m)) = Some ts \<and>
        (\<forall>f \<in> set (gm_Fields m). to_migrate f \<longrightarrow> field_matches same_number ts f) \<and>
        (\<forall>i \<in> set (gm_Indexes m). to_lower i \<in> set (ts_indexes ts)))"

definition quiet :: "tablePlan \<Rightarrow> bool" where
  "quiet p \<longleftrightarrow> tp_addColumns p = [] \<and> tp_alterColumns p = []"

lemma plan_field_quiet:
  "quiet (plan_field sn ts f p) \<longleftrightarrow> quiet p \<and> (to_migrate f \<longrightarrow> field_matches sn ts f)"
  by (auto simp: quiet_def plan_field_def field_matches_def Let_def split: prod.splits option.splits)

lemma plan_field_keeps [simp]:
  "tp_create (plan_field sn ts f p) = tp_create p" "tp_addIndexes (plan_field sn ts f p) = tp_addIndexes p"
  "tp_model (plan_field sn ts f p) = tp_model p" "tp_before (plan_field sn ts f p) = tp_before p"
  by (simp_all add: plan_field_def Let_def split: prod.splits option.splits)

lemma plan_fields_quiet:
  "quiet (fold (plan_field sn ts) fs p) \<longleftrightarrow> quiet p \<and> (\<forall>f \<in> set fs. to_migrate f \<longrightarrow> field_matches sn ts f)"
  by (induction fs arbitrary: p) (auto simp: plan_field_quiet)

lemma plan_fields_keep:
  "tp_create (fold (plan_field sn ts) fs p) = tp_create p \<and> tp_model (fold (plan_field sn ts) fs p) = tp_model p"
  by (induction fs arbitrary: p) simp_all

lemma plan_field_narrowing:
  "(tp_narrowing p \<noteq> [] \<longrightarrow> tp_alterColumns p \<noteq> []) \<Longrightarrow>
   tp_narrowing (plan_field sn ts f p) \<noteq> [] \<longrightarrow> tp_alterColumns (plan_field sn ts f p) \<noteq> []"
  by (auto simp: plan_field_def Let_def split: prod.splits option.splits)

lemma plan_table_changes: "\<not> changes (plan_table sn snap m) \<longleftrightarrow> table_matches sn snap m"
proof (cases "snap (to_lower (gm_Table m))")
  case None
  then show ?thesis by (simp add: plan_table_def changes_def table_matches_def)
next
  case (Some ts)
  let ?p = "fold (plan_field sn ts) (gm_Fields m) ((empty_plan m)\<lparr>tp_before := Some ts\<rparr>)"
  have q: "quiet ?p \<longleftrightarrow> (\<forall>f \<in> set (gm_Fields m). to_migrate f \<longrightarrow> field_matches sn ts f)"
  proof -
    have "quiet ((empty_plan m)\<lparr>tp_before := Some ts\<rparr>)" by (simp add: quiet_def empty_plan_def)
    then show ?thesis by (simp add: plan_fields_quiet)
  qed
  have c: "\<not> tp_create ?p" by (simp add: plan_fields_keep empty_plan_def)
  have i: "sort (filter (\<lambda>i. to_lower i \<notin> set (ts_indexes ts)) (gm_Indexes m)) = [] \<longleftrightarrow>
      (\<forall>i \<in> set (gm_Indexes m). to_lower i \<in> set (ts_indexes ts))"
    by (metis (mono_tags, lifting) filter_empty_conv set_empty set_sort)
  from q c i Some show ?thesis
    by (auto simp: plan_table_def changes_def table_matches_def quiet_def)
qed

section \<open>What column types hold\<close>













section \<open>What runs changes\<close>

text \<open>\<open>tables\<close> is the schema of the database in the world; reading it and Redis leave it alone.\<close>

definition leaves :: "('w \<Rightarrow> 't) \<Rightarrow> ('a \<Rightarrow> 'w \<Rightarrow> 'b \<times> 'w) \<Rightarrow> bool" where
  "leaves tables f \<longleftrightarrow> (\<forall>a w. tables (snd (f a w)) = tables w)"

lemma leavesD: "leaves tables f \<Longrightarrow> f a w = (b, w') \<Longrightarrow> tables w' = tables w"
  unfolding leaves_def by (metis snd_conv)

lemma call1_snd: "snd (call1 exec c rd s) = snd (exec [c] s)"
  by (auto simp: call1_def split: prod.splits sum.splits list.splits)

lemma acquire_frame:
  assumes "leaves tables exec"
    and "acquire exec lag name key token life o1 ended deadline now w = (r, w')"
  shows "tables w' = tables w"
  using assms
proof (induction exec lag name key token life o1 ended deadline now w rule: acquire.induct)
  case (1 exec lag name key token life o1 ended deadline now w)
  obtain a w1 where a: "r_setnx exec key token life w = (a, w1)" by fastforce
  then have w1: "tables w1 = tables w"
    using "1.prems"(1) call1_snd unfolding leaves_def r_setnx_def by (metis snd_conv)
  show ?case
  proof (cases "a = Inr False \<and> \<not> (wait o1 = 0 \<or> answered_at lag now w1 > deadline) \<and> \<not> ended (next_try_at lag o1 now w1)")
    case False
    then show ?thesis
      using "1.prems"(2) a w1 by (subst (asm) acquire.simps) (auto split: sum.splits bool.splits if_splits)
  next
    case True
    then have "acquire exec lag name key token life o1 ended deadline (next_try_at lag o1 now w1) w1 = (r, w')"
      using "1.prems"(2) a by (subst (asm) acquire.simps) simp
    with "1.IH" [OF a [symmetric]] True "1.prems"(1) w1 show ?thesis by auto
  qed
qed

lemma snapshot_frame:
  assumes "leaves tables (q_columns db)" and "leaves tables (q_indexes db)"
  shows "leaves tables (snapshot db)"
  unfolding leaves_def
proof (intro allI)
  fix ts w
  obtain a w1 where a: "q_columns db ts w = (a, w1)" by fastforce
  obtain b w2 where b: "q_indexes db ts w1 = (b, w2)" by fastforce
  from leavesD [OF assms(1) a] leavesD [OF assms(2) b] a b
  show "tables (snd (snapshot db ts w)) = tables w"
    by (simp add: snapshot_def split: sum.split)
qed

lemma migratePlan_frame:
  assumes "leaves tables (q_columns db)" and "leaves tables (q_indexes db)" and "migratePlan db models w = (r, w')"
  shows "tables w' = tables w"
  using assms(3) leavesD [OF snapshot_frame [OF assms(1,2)]]
  by (fastforce simp: migratePlan_def split: sum.splits prod.splits)

lemma acquire_not_lost: "fst (acquire exec lag name key token life o1 ended deadline now w) \<noteq> Inl (ErrLockLost x)"
proof (induction exec lag name key token life o1 ended deadline now w rule: acquire.induct)
  case (1 exec lag name key token life o1 ended deadline now w)
  obtain a w1 where a: "r_setnx exec key token life w = (a, w1)" by fastforce
  show ?case
  proof (cases "a = Inr False \<and> \<not> (wait o1 = 0 \<or> answered_at lag now w1 > deadline) \<and> \<not> ended (next_try_at lag o1 now w1)")
    case False
    then show ?thesis using a by (subst acquire.simps) (auto split: sum.splits bool.splits if_splits)
  next
    case True
    with "1.IH" [OF a [symmetric], of False] a show ?thesis by (subst acquire.simps) simp
  qed
qed

text \<open>What a run under the lock changed was changed by the run itself, after the lock was taken.\<close>

lemma under_lock_runs:
  assumes redis: "leaves tables exec"
    and lock: "under_lock (Some exec) lag ns token ended start lost say run w = (r, w')"
  shows "tables w' = tables w \<and> r \<noteq> None \<or> (\<exists>w2 w3 e. acquire exec lag ''auto-migrate'' (keyOf ns ''lock'' ''auto-migrate'') token 120000
      \<lparr>wait = 300000, retry = 0\<rparr> ended (start + 300000) start w = (Inr (), w2) \<and> tables w2 = tables w \<and>
    run w2 = (e, w3) \<and> tables w' = tables w3 \<and> (r = None \<longrightarrow> e = None \<or> lost w3))"
proof -
  let ?key = "keyOf ns ''lock'' ''auto-migrate''"
  obtain b w2 where b: "acquire exec lag ''auto-migrate'' ?key token 120000 \<lparr>wait = 300000, retry = 0\<rparr> ended
      (start + 300000) start w = (b, w2)" by fastforce
  have w2: "tables w2 = tables w" by (rule acquire_frame [OF redis b])
  obtain e w3 where e: "run w2 = (e, w3)" by fastforce
  have rel: "tables (release exec ?key token w3) = tables w3"
    using redis unfolding leaves_def release_def r_eval_def call1_snd by blast
  show ?thesis
    using lock b w2 e rel acquire_not_lost [of exec lag "''auto-migrate''" ?key token 120000 "\<lparr>wait = 300000, retry = 0\<rparr>" ended "start + 300000" start w]
    by (cases b) (auto simp: under_lock_def WithLock_def lock_ttl_def Let_def split: if_splits option.splits lock_error.splits)
qed

lemma under_lock_changes:
  assumes "leaves tables exec" and "under_lock (Some exec) lag ns token ended start lost say run w = (r, w')"
    and "tables w' \<noteq> tables w"
  shows "\<exists>w2 w3 e. acquire exec lag ''auto-migrate'' (keyOf ns ''lock'' ''auto-migrate'') token 120000
      \<lparr>wait = 300000, retry = 0\<rparr> ended (start + 300000) start w = (Inr (), w2) \<and> tables w2 = tables w \<and>
    run w2 = (e, w3) \<and> tables w' = tables w3"
  using under_lock_runs [OF assms(1,2)] assms(3) by blast

text \<open>When \<open>migrate_run\<close> changes the schema, a plan that refuses nothing was applied.\<close>

lemma migrate_run_changes:
  assumes q: "leaves tables (q_columns db)" "leaves tables (q_indexes db)"
    and run: "migrate_run db models w = (r, w')" and changed: "tables w' \<noteq> tables w"
  shows "\<exists>ps w1. migratePlan db models w = (Inr ps, w1) \<and> tables w1 = tables w \<and>
    concat (map tp_narrowing ps) = [] \<and> plan_changed ps \<noteq> [] \<and> tables w' = tables (snd (apply_plan db (plan_changed ps) w1))"
proof -
  obtain a w1 where a: "migratePlan db models w = (a, w1)" by fastforce
  then have w1: "tables w1 = tables w" by (rule migratePlan_frame [OF q])
  obtain ps where ps: "a = Inr ps" "refuseNarrowing ps = None" "plan_changed ps \<noteq> []"
    using run a w1 changed by (cases a) (auto simp: migrate_run_def split: option.splits if_splits)
  obtain e w2 where e: "apply_plan db (plan_changed ps) w1 = (e, w2)" by fastforce
  have "tables w' = tables w2"
  proof (cases e)
    case (Some x)
    with run a ps e show ?thesis by (simp add: migrate_run_def)
  next
    case None
    obtain b w3 where b: "snapshot db (map (gm_Table \<circ> tp_model) (plan_changed ps)) w2 = (b, w3)" by fastforce
    have "tables w3 = tables w2" by (rule leavesD [OF snapshot_frame [OF q] b])
    with run a ps e None b show ?thesis by (cases b) (auto simp: migrate_run_def)
  qed
  with a w1 ps e show ?thesis by (auto simp: refuseNarrowing_def Let_def split: if_splits)
qed

section \<open>What the framework's tables need\<close>

text \<open>
  MySQL as the code relies on it: a statement drops nothing and makes no other table, one that succeeded has made its
  table (the outbox with its column) or its column, and a duplicate column is there.
\<close>

definition fw_tables :: "'w fwdb \<Rightarrow> 'w \<Rightarrow> (string \<Rightarrow> bool) \<times> bool" where
  "fw_tables db w = (\<lambda>n. has_table db n w, has_service db w)"

definition ddl_lawful :: "'w fwdb \<Rightarrow> bool" where
  "ddl_lawful db \<longleftrightarrow>
     (\<forall>d w n. has_table db n w \<longrightarrow> has_table db n (snd (run_ddl db d w))) \<and>
     (\<forall>d w. has_service db w \<longrightarrow> has_service db (snd (run_ddl db d w))) \<and>
     (\<forall>w w'. run_ddl db OutboxDDL w = (None, w') \<longrightarrow> has_table db ''outbox'' w' \<and> has_service db w') \<and>
     (\<forall>w w'. run_ddl db DelayDDL w = (None, w') \<longrightarrow> has_table db ''delayed_task'' w') \<and>
     (\<forall>w. has_table db ''outbox'' (snd (run_ddl db DelayDDL w)) \<longrightarrow> has_table db ''outbox'' w) \<and>
     (\<forall>w r w'. run_ddl db OutboxServiceColumn w = (r, w') \<and> (r = None \<or> (\<exists>e. r = Some e \<and> IsCode e [1060, 1061])) \<longrightarrow> has_service db w')"

lemma missing_tables_none:
  "missing_tables db want w = [] \<longleftrightarrow>
   (\<forall>(n, d) \<in> set want. has_table db n w \<and> (n = ''outbox'' \<longrightarrow> has_service db w))"
  by (auto simp: missing_tables_def split: if_splits)

lemma fw_tables_missing: "fw_tables db w = fw_tables db w' \<Longrightarrow> missing_tables db want w = missing_tables db want w'"
  by (auto simp: missing_tables_def fw_tables_def fun_eq_iff cong: if_cong)

lemma ddl_lawful_made:
  assumes "ddl_lawful db" and "run_ddl db d w = (None, w')"
  shows "d = OutboxDDL \<Longrightarrow> has_table db ''outbox'' w' \<and> has_service db w'"
    and "d = DelayDDL \<Longrightarrow> has_table db ''delayed_task'' w'"
  using assms unfolding ddl_lawful_def by blast+

lemma create_tables_there:
  assumes "ddl_lawful db" and "set want \<subseteq> {(''outbox'', OutboxDDL), (''delayed_task'', DelayDDL)}"
    and "create_tables db want w = (None, w')"
    and "''outbox'' \<in> fst ` set want \<longrightarrow> has_table db ''outbox'' w \<longrightarrow> has_service db w"
  shows "missing_tables db want w' = [] \<and> (\<forall>n. has_table db n w \<longrightarrow> has_table db n w') \<and>
    (has_service db w \<longrightarrow> has_service db w')"
  using assms
proof (induction db want w rule: create_tables.induct)
  case (1 db w)
  then show ?case by (simp add: missing_tables_none)
next
  case (2 db n d r w)
  show ?case
  proof (cases "has_table db n w")
    case True
    with 2 show ?thesis by (auto simp: missing_tables_none)
  next
    case False
    then obtain w1 where w1: "run_ddl db d w = (None, w1)" "create_tables db r w1 = (None, w')"
      using "2.prems"(3) by (auto split: prod.splits option.splits)
    have keeps: "\<forall>m. has_table db m w \<longrightarrow> has_table db m w1" "has_service db w \<longrightarrow> has_service db w1"
      using "2.prems"(1) w1(1) unfolding ddl_lawful_def by (metis snd_conv)+
    have made: "has_table db n w1" "n = ''outbox'' \<longrightarrow> has_service db w1"
      using "2.prems"(2) ddl_lawful_made [OF "2.prems"(1) w1(1)] by auto
    have "''outbox'' \<in> fst ` set r \<longrightarrow> has_table db ''outbox'' w1 \<longrightarrow> has_service db w1"
    proof (cases "n = ''outbox''")
      case True
      with made show ?thesis by blast
    next
      case False
      then have "d = DelayDDL" using "2.prems"(2) by auto
      then have "has_table db ''outbox'' w1 \<longrightarrow> has_table db ''outbox'' w"
        using "2.prems"(1) w1(1) unfolding ddl_lawful_def by (metis snd_conv)
      with "2.prems"(4) keeps show ?thesis by simp
    qed
    then have ih: "missing_tables db r w' = [] \<and> (\<forall>m. has_table db m w1 \<longrightarrow> has_table db m w') \<and>
        (has_service db w1 \<longrightarrow> has_service db w')"
      using "2.IH"(2) [OF False w1(1) [symmetric] refl "2.prems"(1) _ w1(2)] "2.prems"(2) by simp
    then have "missing_tables db ((n, d) # r) w' = []"
      using made unfolding missing_tables_none by simp
    with ih keeps show ?thesis by blast
  qed
qed

lemma create_framework_there:
  assumes law: "ddl_lawful db" and want: "set want \<subseteq> {(''outbox'', OutboxDDL), (''delayed_task'', DelayDDL)}"
    and run: "create_framework db (lacks_column db want w0) want w = (None, w')"
    and same: "fw_tables db w = fw_tables db w0"
  shows "missing_tables db want w' = []"
proof (cases "lacks_column db want w0 \<and> \<not> has_service db w")
  case True
  obtain e w1 where e: "run_ddl db OutboxServiceColumn w = (e, w1)" by fastforce
  with run True have ok: "e = None \<or> (\<exists>x. e = Some x \<and> IsCode x [1060, 1061])" and w1: "create_tables db want w1 = (None, w')"
    by (auto simp: create_framework_def split: option.splits if_splits)
  from law e ok have "has_service db w1" unfolding ddl_lawful_def by blast
  with create_tables_there [OF law want w1] show ?thesis by blast
next
  case False
  then have w1: "create_tables db want w = (None, w')" using run by (auto simp: create_framework_def)
  have "''outbox'' \<in> fst ` set want \<longrightarrow> has_table db ''outbox'' w \<longrightarrow> has_service db w"
    using False same by (auto simp: fw_tables_def lacks_column_def fun_eq_iff)
  with create_tables_there [OF law want w1] show ?thesis by blast
qed

section \<open>An empty database\<close>

text \<open>Redis and a count of the migrations, and a model of one table the database lacks.\<close>

definition sample_exec :: "(rstate \<times> nat) exec" where
  "sample_exec cs w = (case live_exec cs (fst w) of (r, s) \<Rightarrow> (r, (s, snd w)))"

definition sample_db :: "(rstate \<times> nat) gorm" where
  "sample_db = \<lparr>q_number = (=), q_columns = \<lambda>_ w. (Inr [], w), q_indexes = \<lambda>_ w. (Inr [], w),
     q_migrate = \<lambda>_ w. (None, (fst w, Suc (snd w))), q_alter = \<lambda>_ _ w. (None, w)\<rparr>"

definition sample_model :: gmodel where
  "sample_model = \<lparr>gm_Name = ''User'', gm_Table = ''users'', gm_Fields = [], gm_Indexes = []\<rparr>"

lemma sample_leaves: "leaves snd (q_columns sample_db)" "leaves snd (q_indexes sample_db)" "leaves snd sample_exec"
  by (simp_all add: leaves_def sample_db_def sample_exec_def split: prod.split)

text \<open>A database as a list of table names and the column, beside Redis.\<close>

definition sample_fw_exec :: "(rstate \<times> string list \<times> bool) exec" where
  "sample_fw_exec cs w = (case live_exec cs (fst w) of (r, s) \<Rightarrow> (r, (s, snd w)))"

definition sample_fwdb :: "(rstate \<times> string list \<times> bool) fwdb" where
  "sample_fwdb = \<lparr>has_table = \<lambda>n w. n \<in> set (fst (snd w)), has_service = \<lambda>w. snd (snd w),
     run_ddl = \<lambda>d w. (None, case d of OutboxDDL \<Rightarrow> (fst w, ''outbox'' # fst (snd w), True)
        | DelayDDL \<Rightarrow> (fst w, ''delayed_task'' # fst (snd w), snd (snd w))
        | OutboxServiceColumn \<Rightarrow> (fst w, fst (snd w), True))\<rparr>"

lemma sample_fw_lawful: "ddl_lawful sample_fwdb" "leaves (fw_tables sample_fwdb) sample_fw_exec"
  by (auto simp: ddl_lawful_def sample_fwdb_def leaves_def fw_tables_def sample_fw_exec_def split: ddl.split prod.split)

section \<open>Properties\<close>

text \<open>
  C10. A schema changes only where it may, only as planned and, with Redis, only after the
  lock was taken. When AutoMigrate changed the tables, it was on and not a verification; a
  plan was made of the tables as they were that narrows nothing and differs somewhere; and
  the tables are as GORM left them when it was handed the models of exactly the tables that
  differ. With Redis the plan was made and applied right after the call had got the lock of
  all of them; without Redis, as the code warns, it was made and applied with no lock.
\<close>

theorem migrate_guarded:
  assumes q: "leaves tables (q_columns db)" "leaves tables (q_indexes db)"
    and redis: "\<And>exec. rdb = Some exec \<Longrightarrow> leaves tables exec"
    and run: "AutoMigrate (Some db) verify (AutoMigrateOn takeover setting env) rdb lag ns token ended start lost say models w = (r, w')"
    and changed: "tables w' \<noteq> tables w"
  shows "\<not> verify \<and> \<not> takeover \<and> (setting = Some True \<or> setting = None \<and> (env = ''local'' \<or> env = ''dev'')) \<and>
    (\<exists>w1 w2 ps w3.
      (case rdb of
         None \<Rightarrow> w2 = w1
       | Some exec \<Rightarrow> acquire exec lag ''auto-migrate'' (keyOf ns ''lock'' ''auto-migrate'') token 120000 \<lparr>wait = 300000, retry = 0\<rparr>
           ended (start + 300000) start w1 = (Inr (), w2)) \<and>
      migratePlan db models w2 = (Inr ps, w3) \<and> tables w3 = tables w \<and>
      concat (map tp_narrowing ps) = [] \<and> plan_changed ps \<noteq> [] \<and>
      tables w' = tables (snd (apply_plan db (plan_changed ps) w3)))"
proof -
  obtain a w1 where a: "migratePlan db models w = (a, w1)" by fastforce
  have w1: "tables w1 = tables w" by (rule migratePlan_frame [OF q a])
  have on: "\<not> verify" "AutoMigrateOn takeover setting env"
    and lock: "under_lock rdb lag ns token ended start lost say (migrate_run db models) w1 = (r, w')"
    using run changed a w1 by (auto simp: AutoMigrate_def split: if_splits sum.splits option.splits)
  have "\<exists>w2 w3 e. (case rdb of None \<Rightarrow> w2 = w1
       | Some exec \<Rightarrow> acquire exec lag ''auto-migrate'' (keyOf ns ''lock'' ''auto-migrate'') token 120000 \<lparr>wait = 300000, retry = 0\<rparr>
           ended (start + 300000) start w1 = (Inr (), w2)) \<and> tables w2 = tables w1 \<and>
      migrate_run db models w2 = (e, w3) \<and> tables w' = tables w3"
  proof (cases rdb)
    case None
    with lock show ?thesis by (auto simp: under_lock_def)
  next
    case (Some exec)
    with under_lock_changes [OF redis [OF Some] lock [unfolded Some]] changed w1 show ?thesis by simp
  qed
  then obtain w2 w3 e where b: "case rdb of None \<Rightarrow> w2 = w1
       | Some exec \<Rightarrow> acquire exec lag ''auto-migrate'' (keyOf ns ''lock'' ''auto-migrate'') token 120000 \<lparr>wait = 300000, retry = 0\<rparr>
           ended (start + 300000) start w1 = (Inr (), w2)"
    and w2: "tables w2 = tables w1" and e: "migrate_run db models w2 = (e, w3)" and w3: "tables w' = tables w3"
    by blast
  from migrate_run_changes [OF q e] changed w1 w2 w3 obtain ps w4 where p:
    "migratePlan db models w2 = (Inr ps, w4)" "tables w4 = tables w" "concat (map tp_narrowing ps) = []"
    "plan_changed ps \<noteq> []" "tables w' = tables (snd (apply_plan db (plan_changed ps) w4))" by auto
  have "\<not> takeover \<and> (setting = Some True \<or> setting = None \<and> (env = ''local'' \<or> env = ''dev''))"
    using on(2) by (auto simp: AutoMigrateOn_def split: if_splits option.splits)
  with on(1) b p show ?thesis by blast
qed

text \<open>With Redis and without, on a database that lacks the one table.\<close>

theorem migrate_guarded_witness:
  "(\<exists>w1 w2 ps w3. acquire sample_exec (\<lambda>_. (0, 0)) ''auto-migrate'' (keyOf ''shop'' ''lock'' ''auto-migrate'') ''t'' 120000
       \<lparr>wait = 300000, retry = 0\<rparr> (\<lambda>_. False) 300000 0 w1 = (Inr (), w2) \<and>
     migratePlan sample_db [Inr sample_model] w2 = (Inr ps, w3) \<and> plan_changed ps \<noteq> []) \<and>
   (\<exists>w2 ps w3. migratePlan sample_db [Inr sample_model] w2 = (Inr ps, w3) \<and> snd w3 = 0 \<and>
     plan_changed ps \<noteq> [] \<and> snd (snd (apply_plan sample_db (plan_changed ps) w3)) = 1)"
proof
  let ?run = "AutoMigrate (Some sample_db) False (AutoMigrateOn False None ''dev'') (Some sample_exec) (\<lambda>_. (0, 0)) ''shop'' ''t''
    (\<lambda>_. False) 0 (\<lambda>_. False) (\<lambda>_. []) [Inr sample_model] (empty_rstate, 0)"
  obtain r w where run: "?run = (r, w)" by (metis surj_pair)
  have "snd (snd ?run) = 1" by code_simp
  then have "snd w \<noteq> snd (empty_rstate, 0)" using run by simp
  from migrate_guarded [OF sample_leaves(1,2) _ run this] sample_leaves(3)
  show "\<exists>w1 w2 ps w3. acquire sample_exec (\<lambda>_. (0, 0)) ''auto-migrate'' (keyOf ''shop'' ''lock'' ''auto-migrate'') ''t'' 120000
       \<lparr>wait = 300000, retry = 0\<rparr> (\<lambda>_. False) 300000 0 w1 = (Inr (), w2) \<and>
     migratePlan sample_db [Inr sample_model] w2 = (Inr ps, w3) \<and> plan_changed ps \<noteq> []"
    by (simp; elim conjE exE) (intro exI conjI; assumption)
next
  let ?run = "AutoMigrate (Some sample_db) False (AutoMigrateOn False None ''dev'') None (\<lambda>_. (0, 0)) ''shop'' ''t''
    (\<lambda>_. False) 0 (\<lambda>_. False) (\<lambda>_. []) [Inr sample_model] (empty_rstate, 0)"
  obtain r w where run: "?run = (r, w)" by (metis surj_pair)
  have "snd (snd ?run) = 1" by code_simp
  then have w: "snd w = 1" using run by simp
  then have "snd w \<noteq> snd (empty_rstate, 0)" by simp
  from migrate_guarded [OF sample_leaves(1,2) _ run this] w
  show "\<exists>w2 ps w3. migratePlan sample_db [Inr sample_model] w2 = (Inr ps, w3) \<and> snd w3 = 0 \<and>
     plan_changed ps \<noteq> [] \<and> snd (snd (apply_plan sample_db (plan_changed ps) w3)) = 1"
    by (simp; elim conjE exE) (intro exI conjI; simp)
qed

text \<open>
  A service that starts has the framework's tables. When EnsureFrameworkTables returns no
  error (and its lock was not lost), every table the configuration needs is there, the
  outbox with its service column; and where the schema may not change it changes nothing.
\<close>

lemma framework_tables_there:
  assumes law: "ddl_lawful db" and redis: "leaves (fw_tables db) exec"
    and run: "EnsureFrameworkTables (Some db) (wanted_tables kafka outbox delay) on (Some exec) lag ns token ended start
      (\<lambda>_. False) say w = (r, w')"
  shows "(r = None \<longrightarrow> missing_tables db (wanted_tables kafka outbox delay) w' = []) \<and> (\<not> on \<longrightarrow> w' = w)"
proof (intro conjI impI)
  let ?want = "wanted_tables kafka outbox delay"
  assume r: "r = None"
  show "missing_tables db ?want w' = []"
  proof (cases "?want = [] \<or> missing_tables db ?want w = [] \<or> \<not> on")
    case True
    with run r show ?thesis by (auto simp: EnsureFrameworkTables_def missing_tables_none split: if_splits)
  next
    case False
    then have "under_lock (Some exec) lag ns token ended start (\<lambda>_. False) say
        (create_framework db (lacks_column db ?want w) ?want) w = (r, w')"
      using run by (simp add: EnsureFrameworkTables_def)
    from under_lock_runs [OF redis this] r obtain w2 w3 where
      w2: "fw_tables db w2 = fw_tables db w" and "create_framework db (lacks_column db ?want w) ?want w2 = (None, w3)"
      and w3: "fw_tables db w' = fw_tables db w3" by auto
    moreover have "set ?want \<subseteq> {(''outbox'', OutboxDDL), (''delayed_task'', DelayDDL)}"
      by (auto simp: wanted_tables_def)
    ultimately have "missing_tables db ?want w3 = []" by (intro create_framework_there [OF law])
    then show ?thesis using fw_tables_missing [OF w3] by simp
  qed
next
  assume "\<not> on"
  with run show "w' = w" by (auto simp: EnsureFrameworkTables_def split: if_splits)
qed

lemma framework_tables_there_witness:
  "fst (snd (snd (EnsureFrameworkTables (Some sample_fwdb) (wanted_tables True None None) True (Some sample_fw_exec) (\<lambda>_. (0, 0)) ''shop'' ''t''
     (\<lambda>_. False) 0 (\<lambda>_. False) (\<lambda>_. []) (empty_rstate, [], False)))) \<noteq> []"
proof -
  let ?run = "EnsureFrameworkTables (Some sample_fwdb) (wanted_tables True None None) True (Some sample_fw_exec) (\<lambda>_. (0, 0)) ''shop'' ''t''
     (\<lambda>_. False) 0 (\<lambda>_. False) (\<lambda>_. []) (empty_rstate, [], False)"
  have r: "fst ?run = None" by code_simp
  obtain w where run: "?run = (None, w)" using r by (metis prod.collapse)
  from framework_tables_there [OF sample_fw_lawful run]
  have "missing_tables sample_fwdb (wanted_tables True None None) w = []" by simp
  then have "''outbox'' \<in> set (fst (snd w))"
    by (auto simp: missing_tables_none wanted_tables_def sample_fwdb_def)
  with run show ?thesis by auto
qed

text \<open>
  A plan is exact. For a model, the plan changes nothing exactly when its table exists
  and every column the model migrates is there with the model's type, collation (when both
  state one), nullability and default (when both state one), and every index is there.
\<close>

lemma plan_exact:
  "\<not> changes (plan_table same_number snap m) \<longleftrightarrow> table_matches same_number snap m"
  by (rule plan_table_changes)



end
