(* ===== verification/Guard.thy ===== *)
theory Guard
  imports Redis Config
begin

text \<open>
  What a gateway and a service refuse: request rates and body sizes
  (\<^verbatim>\<open>kitexx/guard.go\<close>, \<^verbatim>\<open>hertzx/guard.go\<close>) and the limits of one RPC instance
  (\<^verbatim>\<open>kitexx/limits.go\<close>). The rate counts in Redis, the \<open>exec\<close> of \<open>Redis\<close>, and in
  the process when Redis is absent or does not answer. Times are milliseconds.
\<close>

section \<open>Rates and sizes\<close>

record rate =
  N :: int
  Window :: int
  is_set :: bool

definition Off :: "rate \<Rightarrow> bool" where "Off r \<longleftrightarrow> N r \<le> 0 \<or> Window r \<le> 0"

definition ParseRate :: "string \<Rightarrow> string + rate" where
  "ParseRate x =
     (let s = trim_space (to_lower x) in
      if s = [] \<or> s = ''off'' \<or> s = ''0'' then Inr \<lparr>N = 0, Window = 0, is_set = True\<rparr>
      else case cut s ''/'' of
          None \<Rightarrow> Inl ''form''
        | Some (n, unit) \<Rightarrow>
            (case parse_int64 (trim_space n) of
               None \<Rightarrow> Inl ''count''
             | Some c \<Rightarrow>
                 if c \<le> 0 then Inl ''count''
                 else let u = trim_space unit in
                   if u \<in> set [''s'', ''sec'', ''second''] then Inr \<lparr>N = c, Window = 1000, is_set = True\<rparr>
                   else if u \<in> set [''m'', ''min'', ''minute''] then Inr \<lparr>N = c, Window = 60000, is_set = True\<rparr>
                   else if u \<in> set [''h'', ''hour''] then Inr \<lparr>N = c, Window = 3600000, is_set = True\<rparr>
                   else Inl ''unit''))"

definition RateString :: "rate \<Rightarrow> string" where
  "RateString r =
     (if Off r then ''off''
      else show_int (N r) @ ''/'' @
        (if Window r = 1000 then ''s'' else if Window r = 60000 then ''m'' else if Window r = 3600000 then ''h''
         else show_int (Window r) @ ''ms''))"

definition ParseSize :: "string \<Rightarrow> string + int" where
  "ParseSize s =
     (let t = trim_space (to_lower s);
          (mult, u) = (if has_suffix t ''k'' then (1024, trim_suffix t ''k'')
                       else if has_suffix t ''m'' then (1024 * 1024, trim_suffix t ''m'') else (1, t))
      in case parse_int64 (trim_space u) of
           None \<Rightarrow> Inl s
         | Some n \<Rightarrow> if n \<le> 0 \<or> n > 64 * 1024 * 1024 div mult then Inl s else Inr (n * mult))"

record guard_config =
  MaxBodyBytes :: int
  g_Timeout :: int
  g_PerIP :: rate

definition MaxBody :: "guard_config \<Rightarrow> int" where
  "MaxBody g = (if MaxBodyBytes g > 0 then MaxBodyBytes g else 1024 * 1024)"

definition RequestTimeout :: "guard_config \<Rightarrow> int" where
  "RequestTimeout g = dur_or (g_Timeout g) 10000"

definition PerIP :: "guard_config \<Rightarrow> rate" where
  "PerIP g = (if is_set (g_PerIP g) then g_PerIP g else \<lparr>N = 600, Window = 60000, is_set = True\<rparr>)"

section \<open>Counting\<close>

text \<open>The windows counted in the process: key, start, count.\<close>

type_synonym local_windows = "(string \<times> int \<times> int) list"

definition window_start :: "rate \<Rightarrow> int \<Rightarrow> int" where
  "window_start r now = now - now mod Window r"

definition window_left :: "rate \<Rightarrow> int \<Rightarrow> int" where
  "window_left r now = window_start r now + Window r - now"

definition rate_key :: "string \<Rightarrow> string \<Rightarrow> int \<Rightarrow> string" where
  "rate_key service key start = ''rl:'' @ service @ '':'' @ key @ '':'' @ show_int (start div 1000)"

definition sweep :: "int \<Rightarrow> local_windows \<Rightarrow> local_windows" where
  "sweep now l = (if length l > 10000 then filter (\<lambda>(k, st, n). \<not> now - st > 3600000) l else l)"

definition set_window :: "string \<Rightarrow> int \<times> int \<Rightarrow> local_windows \<Rightarrow> local_windows" where
  "set_window key w l = (key, w) # filter (\<lambda>(k, v). k \<noteq> key) l"

definition over_local :: "string \<Rightarrow> rate \<Rightarrow> int \<Rightarrow> local_windows \<Rightarrow> int \<times> local_windows" where
  "over_local key r now l =
     (let start = window_start r now;
          (n, l') = (case map_of l key of
                       Some (st, n) \<Rightarrow> if st = start then (n, l) else (0, sweep now l)
                     | None \<Rightarrow> (0, sweep now l))
      in (if n + 1 > N r then window_left r now else 0, set_window key (start, n + 1) l'))"

text \<open>\<^verbatim>\<open>over\<close>: 0, or the time until the window ends.\<close>

definition over :: "'w exec option \<Rightarrow> string \<Rightarrow> string \<Rightarrow> rate \<Rightarrow> int \<Rightarrow> local_windows \<Rightarrow> 'w \<Rightarrow> int \<times> local_windows \<times> 'w" where
  "over rdb service key r now l w =
     (let here = (\<lambda>w'. case over_local key r now l of (x, l') \<Rightarrow> (x, l', w'))
      in case rdb of
           None \<Rightarrow> here w
         | Some exec \<Rightarrow>
             (let rk = rate_key service key (window_start r now)
              in case exec [INCR rk, PEXPIRE rk (Window r + 1000)] w of
                   (Inr [RInt n, RInt _], w') \<Rightarrow> (if n > N r then window_left r now else 0, l, w')
                 | (_, w') \<Rightarrow> here w'))"

definition retry_after :: "int \<Rightarrow> int" where
  "retry_after retry = (let secs = (retry + 999) div 1000 in if secs < 1 then 1 else secs)"

section \<open>The middleware\<close>

text \<open>429 with Retry-After, 413, or the handler runs with a deadline.\<close>

datatype verdict = TooMany int | BodyTooLarge | Run int

text \<open>
  \<open>handle\<close>: \<open>routes\<close> and \<open>bodies\<close> are the limits of the document by method and path,
  \<open>dbg\<close> the debug timeout when a tag of the request is active.
\<close>

definition guard_handle ::
  "'w exec option \<Rightarrow> string \<Rightarrow> guard_config \<Rightarrow> (string \<Rightarrow> rate option) \<Rightarrow> (string \<Rightarrow> int option) \<Rightarrow> int option \<Rightarrow>
   int \<Rightarrow> string \<Rightarrow> string \<Rightarrow> string \<Rightarrow> int \<Rightarrow> local_windows \<Rightarrow> 'w \<Rightarrow> verdict \<times> local_windows \<times> 'w" where
  "guard_handle rdb service cfg routes bodies dbg now meth path ip body l w =
     (let route = meth @ '' '' @ path;
          count = (\<lambda>key r l w. if Off r then (0, l, w) else over rdb service key r now l w);
          (x1, l1, w1) = (if isFrameworkPath path then (0, l, w) else count (''ip:'' @ ip) (PerIP cfg) l w)
      in if x1 > 0 then (TooMany (retry_after x1), l1, w1)
         else let (x2, l2, w2) =
                (if isFrameworkPath path then (0, l1, w1)
                 else case routes route of
                     None \<Rightarrow> (0, l1, w1)
                   | Some r \<Rightarrow> count (''route:'' @ path @ '':'' @ ip) r l1 w1)
              in if x2 > 0 then (TooMany (retry_after x2), l2, w2)
                 else if body > (case bodies route of Some b \<Rightarrow> b | None \<Rightarrow> MaxBody cfg) then (BodyTooLarge, l2, w2)
                 else (Run (case dbg of Some d \<Rightarrow> d | None \<Rightarrow> RequestTimeout cfg), l2, w2))"

text \<open>After the handler: 504 when the deadline passed and nothing was written.\<close>

definition timed_out :: "bool \<Rightarrow> nat \<Rightarrow> bool" where
  "timed_out deadline written \<longleftrightarrow> deadline \<and> written = 0"

section \<open>Limits of an instance\<close>

record limits_config =
  MaxInFlight :: int
  MaxQPS :: int
  MaxConnections :: int

definition inFlight_cap :: "limits_config \<Rightarrow> int" where
  "inFlight_cap c = (if MaxInFlight c < 0 then 0 else if MaxInFlight c = 0 then 1000 else MaxInFlight c)"

definition connections_cap :: "limits_config \<Rightarrow> int" where
  "connections_cap c = (if MaxConnections c \<le> 0 then 10000 else MaxConnections c)"

definition perWindow :: "limits_config \<Rightarrow> int" where
  "perWindow c = (if MaxQPS c div 10 < 1 then 1 else MaxQPS c div 10)"

text \<open>\<^verbatim>\<open>take\<close> on the slot and count of the window of 100 ms.\<close>

definition take_slot :: "limits_config \<Rightarrow> int \<Rightarrow> int \<times> int \<Rightarrow> bool \<times> (int \<times> int)" where
  "take_slot c now wc =
     (let slot = now div 100;
          (win, count) = (if slot \<noteq> fst wc then (slot, 0) else wc)
      in if count \<ge> perWindow c then (False, (win, count)) else (True, (win, count + 1)))"

text \<open>
  The requests of an instance: a request adds itself to the counter and is over the cap or
  not, takes a place in the window, runs, and leaves. Each is an atomic step of the code (an
  atomic add, a mutex); without a cap the counter is not touched.
\<close>

datatype req = Outside | OverCap | Admitted | Running | Gone

record lim_state =
  lims_count :: int
  lims_req :: "nat \<Rightarrow> req"
  lims_window :: "int \<times> int"

datatype lim_event =
    Arrive nat      \<comment> \<open>the add, and the comparison with the cap\<close>
  | Take nat int    \<comment> \<open>the rate, at a time\<close>
  | Leave nat       \<comment> \<open>the subtraction: refused, or the handler returned\<close>

fun lim_step :: "limits_config \<Rightarrow> lim_event \<Rightarrow> lim_state \<Rightarrow> lim_state" where
  "lim_step c (Arrive p) st =
     (if lims_req st p \<noteq> Outside then st
      else if inFlight_cap c > 0
      then st\<lparr>lims_count := lims_count st + 1,
              lims_req := (lims_req st)(p := (if lims_count st + 1 > inFlight_cap c then OverCap else Admitted))\<rparr>
      else st\<lparr>lims_req := (lims_req st)(p := Admitted)\<rparr>)"
| "lim_step c (Take p now) st =
     (if lims_req st p \<noteq> Admitted then st
      else if MaxQPS c > 0
      then (case take_slot c now (lims_window st) of
              (ok, win) \<Rightarrow> st\<lparr>lims_window := win, lims_req := (lims_req st)(p := (if ok then Running else OverCap))\<rparr>)
      else st\<lparr>lims_req := (lims_req st)(p := Running)\<rparr>)"
| "lim_step c (Leave p) st =
     (if lims_req st p = OverCap \<or> lims_req st p = Running
      then st\<lparr>lims_count := (if inFlight_cap c > 0 then lims_count st - 1 else lims_count st),
              lims_req := (lims_req st)(p := Gone)\<rparr>
      else st)"

definition lim_init :: lim_state where
  "lim_init = \<lparr>lims_count = 0, lims_req = (\<lambda>_. Outside), lims_window = (0, 0)\<rparr>"

inductive lim_reachable :: "limits_config \<Rightarrow> lim_state \<Rightarrow> bool" for c where
  linit: "lim_reachable c lim_init"
| lnext: "lim_reachable c st \<Longrightarrow> lim_reachable c (lim_step c e st)"

section \<open>Lemmas\<close>

definition in_count :: "lim_state \<Rightarrow> nat set" where
  "in_count st = {p. lims_req st p \<in> {OverCap, Admitted, Running}}"

definition in_handler :: "lim_state \<Rightarrow> nat set" where
  "in_handler st = {p. lims_req st p \<in> {Admitted, Running}}"

definition lim_inv :: "limits_config \<Rightarrow> lim_state \<Rightarrow> bool" where
  "lim_inv c st \<longleftrightarrow> finite (in_count st) \<and> lims_count st = int (card (in_count st)) \<and>
     int (card (in_handler st)) \<le> inFlight_cap c"

lemma in_handler_sub: "in_handler st \<subseteq> in_count st"
  by (auto simp: in_handler_def in_count_def)

lemma lim_inv_step:
  assumes cap: "inFlight_cap c > 0" and inv: "lim_inv c st"
  shows "lim_inv c (lim_step c e st)"
proof -
  have fin: "finite (in_count st)" "finite (in_handler st)"
    using inv in_handler_sub [of st] by (auto simp: lim_inv_def intro: finite_subset)
  have le: "card (in_handler st) \<le> card (in_count st)"
    using fin(1) in_handler_sub by (rule card_mono)
  have cnt: "lims_count st = int (card (in_count st))" "int (card (in_handler st)) \<le> inFlight_cap c"
    using inv by (simp_all add: lim_inv_def)
  show ?thesis
  proof (cases e)
    case (Arrive p)
    show ?thesis
    proof (cases "lims_req st p = Outside")
      case True
      let ?x = "if lims_count st + 1 > inFlight_cap c then OverCap else Admitted"
      let ?st = "lim_step c e st"
      have out: "p \<notin> in_count st" "p \<notin> in_handler st" using True by (simp_all add: in_count_def in_handler_def)
      have "in_count ?st = insert p (in_count st)"
        "in_handler ?st = (if ?x = Admitted then insert p (in_handler st) else in_handler st)"
        using True Arrive cap by (auto simp: in_count_def in_handler_def)
      then show ?thesis
        using True Arrive cap cnt fin out le by (auto simp: lim_inv_def)
    qed (simp add: Arrive inv)
  next
    case (Take p now)
    show ?thesis
    proof (cases "lims_req st p = Admitted")
      case True
      let ?st = "lim_step c e st"
      have "in_count ?st = in_count st" "in_handler ?st \<subseteq> in_handler st" "lims_count ?st = lims_count st"
        using True Take by (auto simp: in_count_def in_handler_def split: prod.splits if_splits)
      then show ?thesis
        using cnt fin card_mono [of "in_handler st" "in_handler ?st"] by (auto simp: lim_inv_def)
    qed (simp add: Take inv)
  next
    case (Leave p)
    show ?thesis
    proof (cases "lims_req st p = OverCap \<or> lims_req st p = Running")
      case True
      let ?st = "lim_step c e st"
      have "in_count ?st = in_count st - {p}" "in_handler ?st \<subseteq> in_handler st" "lims_count ?st = lims_count st - 1"
        and p: "p \<in> in_count st"
        using True Leave cap by (auto simp: in_count_def in_handler_def)
      moreover have "card (in_count st) \<ge> 1" using p fin(1) by (metis One_nat_def Suc_leI card_gt_0_iff empty_iff)
      ultimately show ?thesis
        using cnt fin card_mono [of "in_handler st" "in_handler ?st"] by (auto simp: lim_inv_def of_nat_diff)
    qed (simp add: Leave inv)
  qed
qed

text \<open>No more requests than the cap are in the handler at any time.\<close>

lemma limits_in_flight:
  assumes "inFlight_cap c > 0" and "lim_reachable c st"
  shows "int (card {p. lims_req st p = Running}) \<le> inFlight_cap c"
proof -
  have "lim_inv c st"
    using assms(2)
  proof (induction rule: lim_reachable.induct)
    case linit
    then show ?case using assms(1) by (simp add: lim_inv_def lim_init_def in_count_def in_handler_def)
  next
    case (lnext st e)
    then show ?case by (simp add: lim_inv_step assms(1) del: lim_step.simps)
  qed
  moreover have "card {p. lims_req st p = Running} \<le> card (in_handler st)"
    using \<open>lim_inv c st\<close> finite_subset [OF in_handler_sub] by (intro card_mono) (auto simp: lim_inv_def in_handler_def)
  ultimately show ?thesis by (simp add: lim_inv_def)
qed

text \<open>
  A small \<^verbatim>\<open>max_qps\<close> is not a cap of requests per second: with 1, one request passes in each
  window of 100 ms, ten in a second.
\<close>

definition take_run :: "limits_config \<Rightarrow> int list \<Rightarrow> bool list" where
  "take_run c ts = fst (fold (\<lambda>t (out, wc). case take_slot c t wc of (ok, wc') \<Rightarrow> (out @ [ok], wc')) ts ([], (0, 0)))"

lemma small_qps_tenfold:
  "take_run \<lparr>MaxInFlight = 0, MaxQPS = 1, MaxConnections = 0\<rparr> [1000, 1100, 1200, 1300, 1400, 1500, 1600, 1700, 1800, 1900]
     = replicate 10 True"
  by code_simp

text \<open>A row of requests of one client and key.\<close>

fun over_seq :: "'w exec option \<Rightarrow> string \<Rightarrow> string \<Rightarrow> rate \<Rightarrow> int list \<Rightarrow> local_windows \<Rightarrow> 'w \<Rightarrow> int list" where
  "over_seq rdb service key r [] l w = []"
| "over_seq rdb service key r (t # ts) l w =
     (case over rdb service key r t l w of (x, l', w') \<Rightarrow> x # over_seq rdb service key r ts l' w')"

definition counted :: "string \<Rightarrow> nat \<Rightarrow> rstate \<Rightarrow> bool" where
  "counted rk k s \<longleftrightarrow> kv s rk = (if k = 0 then None else Some (show_int (int k)))"

lemma over_redis:
  assumes "redis_server exec store" and up: "\<And>cs v. \<exists>rs v'. exec cs v = (Inr rs, v')"
    and k: "counted (rate_key service key (window_start r t)) k (store w)"
  obtains w' where "over (Some exec) service key r t l w = (if int k < N r then 0 else window_left r t, l, w')"
    and "counted (rate_key service key (window_start r t)) (Suc k) (store w')"
proof -
  let ?rk = "rate_key service key (window_start r t)"
  obtain rs w' where e: "exec [INCR ?rk, PEXPIRE ?rk (Window r + 1000)] w = (Inr rs, w')" using up by blast
  have "run_cmds [INCR ?rk, PEXPIRE ?rk (Window r + 1000)] (store w) = (rs, store w')"
    by (rule redis_server.exec_ok [OF assms(1) e])
  then have eqs: "store w' = snd (run_cmds [INCR ?rk, PEXPIRE ?rk (Window r + 1000)] (store w))"
    "rs = fst (run_cmds [INCR ?rk, PEXPIRE ?rk (Window r + 1000)] (store w))" by simp_all
  have "\<exists>m. rs = [RInt (int k + 1), RInt m]" and "counted ?rk (Suc k) (store w')"
    using k unfolding counted_def eqs by (auto simp: add.commute split: if_splits)
  with e show thesis by (intro that [of w']) (auto simp: over_def Let_def)
qed

lemma over_seq_redis:
  assumes "redis_server exec store" and "\<And>cs v. \<exists>rs v'. exec cs v = (Inr rs, v')"
    and "list_all (\<lambda>t. window_start r t = start) ts"
    and "counted (rate_key service key start) k (store w)"
  shows "over_seq (Some exec) service key r ts l w
    = map (\<lambda>(i, t). if int i < N r then 0 else window_left r t) (zip [k..<k + length ts] ts)"
  using assms(3,4)
proof (induction ts arbitrary: k w)
  case (Cons t ts)
  then have t: "window_start r t = start" by simp
  obtain w' where w': "over (Some exec) service key r t l w = (if int k < N r then 0 else window_left r t, l, w')"
    "counted (rate_key service key start) (Suc k) (store w')"
    using over_redis [OF assms(1,2), of service key r t k w l] Cons.prems(2) unfolding t by metis
  have "[k..<k + length (t # ts)] = k # [Suc k..<Suc k + length ts]"
    using upt_conv_Cons [of k "k + length (t # ts)"] by (simp del: upt_Suc)
  with Cons.IH [of "Suc k" w'] Cons.prems(1) w' show ?case by simp
qed simp

lemma over_seq_local:
  assumes "list_all (\<lambda>t. window_start r t = start) ts"
    and "case map_of l key of None \<Rightarrow> k = 0 | Some (st, n) \<Rightarrow> (if st = start then n = int k else k = 0)"
  shows "over_seq None service key r ts l w
    = map (\<lambda>(i, t). if int i < N r then 0 else window_left r t) (zip [k..<k + length ts] ts)"
  using assms
proof (induction ts arbitrary: k l)
  case (Cons t ts)
  then have t: "window_start r t = start" by simp
  obtain l0 where l0: "(case map_of l key of
      Some (st, n) \<Rightarrow> if st = start then (n, l) else (0, sweep t l) | None \<Rightarrow> (0, sweep t l)) = (int k, l0)"
    using Cons.prems(2)
    by (cases "map_of l key"; cases "fst (the (map_of l key)) = start") (auto split: if_splits)
  define l' where "l' = set_window key (start, int k + 1) l0"
  have l': "over None service key r t l w = (if int k < N r then 0 else window_left r t, l', w)"
    using l0 by (simp add: over_def over_local_def Let_def t l'_def)
  have "map_of l' key = Some (start, int (Suc k))" by (simp add: l'_def set_window_def)
  note l' = l' this
  have "[k..<k + length (t # ts)] = k # [Suc k..<Suc k + length ts]"
    using upt_conv_Cons [of k "k + length (t # ts)"] by (simp del: upt_Suc)
  with Cons.IH [where l = l' and k = "Suc k"] Cons.prems(1) l' show ?case by simp
qed simp

lemma window_left_bounds: "0 < Window r \<Longrightarrow> 0 < window_left r t \<and> window_left r t \<le> Window r"
  by (simp add: window_left_def window_start_def pos_mod_bound)

section \<open>Properties\<close>

text \<open>
  The rate limit counts exactly. Of the requests that one key makes in one window, in the
  order they are counted, the first N pass and every later one is refused until the window
  ends (a positive time, at most the window): when Redis answers, shared by all replicas,
  and when a process counts alone. It starts from a window nobody has counted in yet.
\<close>

lemma rate_first_pass:
  assumes "redis_server exec store" and "\<And>cs v. \<exists>rs v'. exec cs v = (Inr rs, v')"
    and "0 < Window r" and "list_all (\<lambda>t. window_start r t = start) ts"
    and "kv (store w) (rate_key service key start) = None"
    and "\<forall>n. map_of l key \<noteq> Some (start, n)"
  shows "over_seq (Some exec) service key r ts l w
      = map (\<lambda>(i, t). if int i < N r then 0 else window_left r t) (zip [0..<length ts] ts) \<and>
    over_seq None service key r ts l w
      = map (\<lambda>(i, t). if int i < N r then 0 else window_left r t) (zip [0..<length ts] ts) \<and>
    (\<forall>t. 0 < window_left r t \<and> window_left r t \<le> Window r)"
proof (intro conjI allI)
  have "case map_of l key of None \<Rightarrow> (0::nat) = 0 | Some (st, n) \<Rightarrow> if st = start then n = int 0 else (0::nat) = 0"
    using assms(6) by (auto split: option.split)
  from over_seq_local [OF assms(4) this]
  show "over_seq None service key r ts l w
      = map (\<lambda>(i, t). if int i < N r then 0 else window_left r t) (zip [0..<length ts] ts)" by simp
  show "over_seq (Some exec) service key r ts l w
      = map (\<lambda>(i, t). if int i < N r then 0 else window_left r t) (zip [0..<length ts] ts)"
    using over_seq_redis [OF assms(1,2,4), where k = 0] assms(5) by (simp add: counted_def)
qed (use window_left_bounds [OF assms(3)] in simp_all)

theorem rate_first_pass_witness:
  "over_seq (Some live_exec) ''gw'' ''ip:10.0.0.9'' \<lparr>N = 2, Window = 60000, is_set = True\<rparr> [120000, 120500, 130000] [] empty_rstate
     = [0, 0, 50000]"
proof -
  let ?r = "\<lparr>N = 2, Window = 60000, is_set = True\<rparr>"
  have fresh: "list_all (\<lambda>t. window_start ?r t = 120000) [120000, 120500, 130000]"
    "kv empty_rstate (rate_key ''gw'' ''ip:10.0.0.9'' 120000) = None"
    by (simp_all add: window_start_def empty_rstate_def)
  have "over_seq (Some live_exec) ''gw'' ''ip:10.0.0.9'' ?r [120000, 120500, 130000] [] empty_rstate
      = map (\<lambda>(i, t). if int i < N ?r then 0 else window_left ?r t) (zip [0..<3] [120000, 120500, 130000])"
    using rate_first_pass [OF live.redis_server_axioms live_up _ fresh, of "[]"]
    by (simp del: over_seq.simps add: numeral_eq_Suc)
  then show ?thesis by (simp add: window_left_def window_start_def upt_rec)
qed

end
