(* ===== verification/ClientAddr.thy ===== *)
theory ClientAddr
  imports Prelude
begin

text \<open>
  The client's address (\<^verbatim>\<open>hertzx/clientip.go\<close>) and the edges that vouch for it
  (\<^verbatim>\<open>kitexx/client.go\<close>). Parsing and printing addresses and networks is Go's
  \<^verbatim>\<open>net\<close> package: the record \<open>net_lib\<close>, an argument. A request is its connection's
  address and its headers, in order.
\<close>

record ('ip, 'net) net_lib =
  ParseIP :: "string \<Rightarrow> 'ip option"
  ipString :: "'ip \<Rightarrow> string"
  unspecified :: "'ip \<Rightarrow> bool"
  inNet :: "'net \<Rightarrow> 'ip \<Rightarrow> bool"
  ParseNets :: "string list \<Rightarrow> 'net list option"
  SplitHost :: "string \<Rightarrow> string option"         \<comment> \<open>the host of \<^verbatim>\<open>host:port\<close>\<close>
  ParseAddr :: "string \<Rightarrow> 'ip option"            \<comment> \<open>\<^verbatim>\<open>netip.ParseAddr\<close>, unmapped and without a zone\<close>

record http_request =
  RemoteAddr :: "string option"
  Headers :: "(string \<times> string) list"

text \<open>\<^verbatim>\<open>PeekAll\<close>: the values of a header, whose name is compared without case.\<close>

definition PeekAll :: "http_request \<Rightarrow> string \<Rightarrow> string list" where
  "PeekAll q h = map snd (filter (\<lambda>(k, v). to_lower k = to_lower h) (Headers q))"

section \<open>The edges\<close>

record edge_config =
  ec_Name :: string
  ec_Keys :: "string list"
  ec_IPHeader :: string
  ec_PeerCIDRs :: "string list"

record edges_config =
  es_Required :: bool
  es_KeyHeader :: string
  es_IPHeader :: string
  es_List :: "edge_config list"

record 'net edge_rule =
  er_Name :: string
  er_Keys :: "string list"
  er_IPHeader :: string
  er_Peers :: "'net list"

record 'net edge_set =
  Required :: bool
  KeyHeader :: string
  IPHeader :: string
  EdgeList :: "'net edge_rule list"

definition Enabled :: "'net edge_set \<Rightarrow> bool" where "Enabled e \<longleftrightarrow> EdgeList e \<noteq> []"

definition header_char :: "char \<Rightarrow> bool" where
  "header_char c = (let n = of_char c :: nat in
     (97 \<le> n \<and> n \<le> 122) \<or> (65 \<le> n \<and> n \<le> 90) \<or> (48 \<le> n \<and> n \<le> 57) \<or> n = 45 \<or> n = 95 \<or> n = 46)"

definition validHeaderName :: "string \<Rightarrow> bool" where
  "validHeaderName s \<longleftrightarrow> s \<noteq> [] \<and> list_all header_char s"

definition edgeHeaderUnsettable :: "string \<Rightarrow> bool" where
  "edgeHeaderUnsettable h =
     (let l = to_lower h in
      has_prefix l ''x-edge-'' \<or> has_prefix l ''x-amz-'' \<or> l = ''x-real-ip'' \<or>
      has_prefix l ''cf-'' \<or> has_prefix l ''cloudfront-'' \<or> has_prefix l ''x-forwarded-'' \<or> l = ''host'' \<or> l = ''via'')"

definition edge_name_char :: "char \<Rightarrow> bool" where
  "edge_name_char c = (let n = of_char c :: nat in (97 \<le> n \<and> n \<le> 122) \<or> (48 \<le> n \<and> n \<le> 57) \<or> n = 45)"

datatype edge_error = BadHeader string | SameHeader | NothingListed | BadName string | NameTwice string
  | ShortKey string | SharedKey string | NoKey string | BadCidr string

text \<open>The keys of one edge, against all keys so far.\<close>

fun edge_keys :: "string \<Rightarrow> string list \<Rightarrow> string list \<Rightarrow> string list \<Rightarrow> edge_error + string list \<times> string list" where
  "edge_keys name [] ks all = Inr (ks, all)"
| "edge_keys name (k0 # rest) ks all =
     (let k = trim_space k0 in
      if k = [] then edge_keys name rest ks all
      else if length k < 16 then Inl (ShortKey name)
      else if k \<in> set all then Inl (SharedKey name)
      else edge_keys name rest (ks @ [k]) (all @ [k]))"

fun edge_rules ::
  "('ip, 'net) net_lib \<Rightarrow> string \<Rightarrow> string \<Rightarrow> edge_config list \<Rightarrow> string list \<Rightarrow> string list \<Rightarrow> 'net edge_rule list \<Rightarrow>
   edge_error + 'net edge_rule list" where
  "edge_rules L kh ih [] names all out = Inr out"
| "edge_rules L kh ih (e # es) names all out =
     (let name = trim_space (ec_Name e) in
      if \<not> (1 \<le> length name \<and> length name \<le> 32 \<and> list_all edge_name_char name) then Inl (BadName (ec_Name e))
      else if name \<in> set names then Inl (NameTwice name)
      else let own = trim_space (ec_IPHeader e); h = (if own = [] then ih else own) in
        if own \<noteq> [] \<and> \<not> validHeaderName own then Inl (BadHeader (ec_IPHeader e))
        else if to_lower h = to_lower kh then Inl SameHeader
        else case edge_keys name (ec_Keys e) [] all of
            Inl x \<Rightarrow> Inl x
          | Inr (ks, all') \<Rightarrow>
              if ks = [] then Inl (NoKey name)
              else case ParseNets L (ec_PeerCIDRs e) of
                  None \<Rightarrow> Inl (BadCidr name)
                | Some nets \<Rightarrow> edge_rules L kh ih es (name # names) all'
                    (out @ [\<lparr>er_Name = name, er_Keys = ks, er_IPHeader = h, er_Peers = nets\<rparr>]))"

definition EdgeSet :: "('ip, 'net) net_lib \<Rightarrow> edges_config \<Rightarrow> edge_error + 'net edge_set" where
  "EdgeSet L cfg =
     (let k0 = trim_space (es_KeyHeader cfg); i0 = trim_space (es_IPHeader cfg);
          kh = (if k0 = [] then ''X-CDN-Key'' else k0); ih = (if i0 = [] then ''X-CDN-Client-IP'' else i0)
      in if \<not> validHeaderName kh \<or> edgeHeaderUnsettable kh then Inl (BadHeader kh)
         else if \<not> validHeaderName ih \<or> edgeHeaderUnsettable ih then Inl (BadHeader ih)
         else if to_lower kh = to_lower ih then Inl SameHeader
         else if es_Required cfg \<and> es_List cfg = [] then Inl NothingListed
         else case edge_rules L kh ih (es_List cfg) [] [] [] of
             Inl e \<Rightarrow> Inl e
           | Inr rs \<Rightarrow> Inr \<lparr>Required = es_Required cfg, KeyHeader = kh, IPHeader = ih, EdgeList = rs\<rparr>)"

text \<open>\<^verbatim>\<open>Match\<close> looks at every key; the first one that is equal decides.\<close>

definition Match :: "'net edge_set \<Rightarrow> string \<Rightarrow> 'net edge_rule option" where
  "Match e presented = find (\<lambda>x. presented \<in> set (er_Keys x)) (EdgeList e)"

definition SelfHeaders :: "'net edge_set \<Rightarrow> (string \<times> string) list" where
  "SelfHeaders e =
     (case find (\<lambda>x. er_Keys x \<noteq> []) (EdgeList e) of
        None \<Rightarrow> []
      | Some x \<Rightarrow> [(KeyHeader e, hd (er_Keys x)), (er_IPHeader x, ''127.0.0.1'')])"

text \<open>\<^verbatim>\<open>DeviceConfig.Canonical\<close>.\<close>

definition Canonical :: "string list \<Rightarrow> string \<Rightarrow> string option" where
  "Canonical types v = find (\<lambda>t. to_lower t = to_lower (trim_space v)) types"

section \<open>The address of a request\<close>

definition inAny :: "('ip, 'net) net_lib \<Rightarrow> 'net list \<Rightarrow> 'ip \<Rightarrow> bool" where
  "inAny L nets ip \<longleftrightarrow> list_ex (\<lambda>n. inNet L n ip) nets"

definition isTrusted :: "('ip, 'net) net_lib \<Rightarrow> 'net list \<Rightarrow> 'ip \<Rightarrow> bool" where
  "isTrusted L trusted ip \<longleftrightarrow> unspecified L ip \<or> inAny L trusted ip"

text \<open>The entries from right to left; \<open>client\<close> is the best so far.\<close>

fun scan :: "('ip, 'net) net_lib \<Rightarrow> 'net list \<Rightarrow> string \<Rightarrow> string list \<Rightarrow> string" where
  "scan L trusted client [] = client"
| "scan L trusted client (e # es) =
     (case ParseIP L (trim_space e) of
        None \<Rightarrow> client
      | Some ip \<Rightarrow> if \<not> isTrusted L trusted ip then ipString L ip else scan L trusted (ipString L ip) es)"

definition xff_entries :: "http_request \<Rightarrow> string list" where
  "xff_entries q = concat (map (split_on CHR '','') (PeekAll q ''X-Forwarded-For''))"

definition forwardedIP :: "('ip, 'net) net_lib \<Rightarrow> 'net list \<Rightarrow> http_request \<Rightarrow> string" where
  "forwardedIP L trusted q =
     (case RemoteAddr q of
        None \<Rightarrow> []
      | Some a \<Rightarrow>
          let peer = (case SplitHost L (trim_space a) of Some h \<Rightarrow> h | None \<Rightarrow> trim_space a)
          in case ParseIP L peer of
               None \<Rightarrow> peer
             | Some ip \<Rightarrow>
                 if \<not> isTrusted L trusted ip then peer
                 else scan L trusted peer (rev (xff_entries q)))"

definition parseEdgeIP :: "('ip, 'net) net_lib \<Rightarrow> string \<Rightarrow> string option" where
  "parseEdgeIP L x =
     (let s = trim_space x in
      if s = [] then None
      else let addr = (case ParseAddr L s of
                   Some a \<Rightarrow> Some a
                 | None \<Rightarrow> (case SplitHost L s of None \<Rightarrow> None | Some h \<Rightarrow> ParseAddr L h))
           in case addr of
                None \<Rightarrow> None
              | Some a \<Rightarrow> if unspecified L a then None else Some (ipString L a))"

datatype edge_outcome = EdgeNone | EdgeBadKey | EdgeBadIP | EdgeOK | EdgePeerOutside

record edge_result =
  r_edge :: string
  r_ip :: string
  r_outcome :: edge_outcome
  r_peer :: string

definition no_edge :: "edge_outcome \<Rightarrow> edge_result" where
  "no_edge o1 = \<lparr>r_edge = [], r_ip = [], r_outcome = o1, r_peer = []\<rparr>"

definition edgeOf :: "('ip, 'net) net_lib \<Rightarrow> 'net list \<Rightarrow> 'net edge_set \<Rightarrow> http_request \<Rightarrow> edge_result" where
  "edgeOf L trusted edges q =
     (if \<not> Enabled edges then no_edge EdgeNone
      else case PeekAll q (KeyHeader edges) of
          [] \<Rightarrow> no_edge EdgeNone
        | [k] \<Rightarrow>
            (case Match edges k of
               None \<Rightarrow> no_edge EdgeBadKey
             | Some e \<Rightarrow>
                 (case PeekAll q (er_IPHeader e) of
                    [v] \<Rightarrow>
                      (case parseEdgeIP L v of
                         None \<Rightarrow> \<lparr>r_edge = er_Name e, r_ip = [], r_outcome = EdgeBadIP, r_peer = []\<rparr>
                       | Some ip \<Rightarrow>
                           let peer = forwardedIP L trusted q;
                               outside = (er_Peers e \<noteq> [] \<and>
                                 (case ParseIP L peer of None \<Rightarrow> True | Some p \<Rightarrow> \<not> inAny L (er_Peers e) p))
                           in \<lparr>r_edge = er_Name e, r_ip = ip,
                               r_outcome = (if outside then EdgePeerOutside else EdgeOK),
                               r_peer = (if outside then peer else [])\<rparr>)
                  | _ \<Rightarrow> \<lparr>r_edge = er_Name e, r_ip = [], r_outcome = EdgeBadIP, r_peer = []\<rparr>))
        | _ \<Rightarrow> no_edge EdgeBadKey)"

definition ClientIP :: "('ip, 'net) net_lib \<Rightarrow> 'net list \<Rightarrow> 'net edge_set \<Rightarrow> http_request \<Rightarrow> string" where
  "ClientIP L trusted edges q =
     (let r = edgeOf L trusted edges q in if r_ip r \<noteq> [] then r_ip r else forwardedIP L trusted q)"

text \<open>
  The middleware: refused, or passed on with the edge's name and without the key header.
  \<open>framework\<close>: the path is one of the framework's own.
\<close>

definition Edge :: "('ip, 'net) net_lib \<Rightarrow> 'net list \<Rightarrow> 'net edge_set \<Rightarrow> bool \<Rightarrow> http_request \<Rightarrow> (string \<times> http_request) option" where
  "Edge L trusted edges framework q =
     (let r = edgeOf L trusted edges q;
          q' = q\<lparr>Headers := filter (\<lambda>(k, v). to_lower k \<noteq> to_lower (KeyHeader edges)) (Headers q)\<rparr>
      in if Required edges \<and> r_ip r = [] \<and> \<not> framework then None else Some (r_edge r, q'))"

section \<open>Lemmas\<close>

lemma scan_trusted_suffix:
  assumes "list_all (\<lambda>p. \<exists>ip. ParseIP L (trim_space p) = Some ip \<and> isTrusted L trusted ip) ps"
    and "ParseIP L (trim_space a) = Some ip" and "\<not> isTrusted L trusted ip"
  shows "scan L trusted client (ps @ a # junk) = ipString L ip"
  using assms(1)
proof (induction ps arbitrary: client)
  case Nil
  then show ?case using assms(2,3) by simp
next
  case (Cons p ps)
  then show ?case by auto
qed

text \<open>Every key of a compiled set is long enough and belongs to one edge.\<close>

definition keys_ok :: "string list \<Rightarrow> 'net edge_rule list \<Rightarrow> bool" where
  "keys_ok all rs \<longleftrightarrow> all = concat (map er_Keys rs) \<and> distinct all \<and> list_all (\<lambda>k. 16 \<le> length k) all"

lemma edge_keys_ok:
  assumes "edge_keys name ks0 ks all = Inr (ks', all')" and "distinct all" and "list_all (\<lambda>k. 16 \<le> length k) all"
    and "all = before @ ks"
  shows "all' = before @ ks' \<and> distinct all' \<and> list_all (\<lambda>k. 16 \<le> length k) all'"
  using assms
proof (induction ks0 arbitrary: ks all)
  case Nil
  then show ?case by auto
next
  case (Cons k0 rest)
  show ?case
  proof (cases "trim_space k0 = []")
    case True
    with Cons show ?thesis by simp
  next
    case False
    let ?k = "trim_space k0"
    from Cons.prems(1) False have step: "edge_keys name rest (ks @ [?k]) (all @ [?k]) = Inr (ks', all')"
      and "\<not> length ?k < 16" "?k \<notin> set all" by (auto simp: Let_def split: if_splits)
    show ?thesis
      by (rule Cons.IH [OF step]) (use Cons.prems(2-4) \<open>\<not> length ?k < 16\<close> \<open>?k \<notin> set all\<close> in auto)
  qed
qed

lemma edge_rules_ok:
  assumes "edge_rules L kh ih es names all out = Inr rs" and "keys_ok all out"
  shows "keys_ok (concat (map er_Keys rs)) rs"
  using assms
proof (induction es arbitrary: names all out)
  case Nil
  then show ?case by (auto simp: keys_ok_def)
next
  case (Cons e es)
  obtain name h ks all' nets where
    ks: "edge_keys name (ec_Keys e) [] all = Inr (ks, all')" and
    step: "edge_rules L kh ih es (name # names) all'
      (out @ [\<lparr>er_Name = name, er_Keys = ks, er_IPHeader = h, er_Peers = nets\<rparr>]) = Inr rs"
    using Cons.prems(1) by (auto simp: Let_def split: if_splits sum.splits prod.splits option.splits)
  have "keys_ok all' (out @ [\<lparr>er_Name = name, er_Keys = ks, er_IPHeader = h, er_Peers = nets\<rparr>])"
  proof -
    from Cons.prems(2) have all: "distinct all" "list_all (\<lambda>k. 16 \<le> length k) all" "concat (map er_Keys out) = all"
      by (auto simp: keys_ok_def)
    from edge_keys_ok [OF ks all(1,2), of all] have "all' = all @ ks" "distinct all'" "list_all (\<lambda>k. 16 \<le> length k) all'"
      by auto
    then show ?thesis by (simp add: keys_ok_def all(3))
  qed
  from Cons.IH [OF step this] show ?case .
qed

lemma EdgeSet_keys:
  assumes "EdgeSet L cfg = Inr e"
  shows "keys_ok (concat (map er_Keys (EdgeList e))) (EdgeList e)"
proof -
  obtain kh ih rs where "edge_rules L kh ih (es_List cfg) [] [] [] = Inr rs" "EdgeList e = rs"
    using assms by (auto simp: EdgeSet_def Let_def split: if_splits sum.splits)
  with edge_rules_ok [of L kh ih "es_List cfg" "[]" "[]" "[]" rs] show ?thesis by (simp add: keys_ok_def)
qed

lemma key_of_one_edge:
  assumes "distinct (concat (map er_Keys rs))" and "e \<in> set rs" "e' \<in> set rs" and "k \<in> set (er_Keys e)" "k \<in> set (er_Keys e')"
  shows "e = e'"
  using assms
proof (induction rs)
  case (Cons r rs)
  then have dis: "set (er_Keys r) \<inter> (\<Union>x \<in> set rs. set (er_Keys x)) = {}" and d: "distinct (concat (map er_Keys rs))"
    by simp_all
  consider "e = r" "e' = r" | "e = r" "e' \<in> set rs" | "e' = r" "e \<in> set rs" | "e \<in> set rs" "e' \<in> set rs"
    using Cons.prems(2,3) by auto
  then show ?case
  proof cases
    case 4
    then show ?thesis using Cons.IH [OF d] Cons.prems(4,5) by blast
  qed (use dis Cons.prems(4,5) in blast)+
qed simp

lemma edgeOf_matched:
  assumes "r_edge (edgeOf L trusted edges q) \<noteq> []"
  shows "\<exists>k e. PeekAll q (KeyHeader edges) = [k] \<and> Match edges k = Some e \<and> er_Name e = r_edge (edgeOf L trusted edges q)"
proof (cases "PeekAll q (KeyHeader edges)")
  case Nil
  with assms show ?thesis by (simp add: edgeOf_def no_edge_def split: if_splits)
next
  case (Cons k ks)
  show ?thesis
  proof (cases ks)
    case Nil
    show ?thesis
    proof (cases "Match edges k")
      case None
      with assms Cons Nil show ?thesis by (simp add: edgeOf_def no_edge_def split: if_splits)
    next
      case (Some e)
      with assms Cons Nil show ?thesis
        by (simp add: edgeOf_def no_edge_def Let_def split: if_splits list.split option.split)
    qed
  next
    case (Cons k' ks')
    with assms \<open>PeekAll q (KeyHeader edges) = k # ks\<close> show ?thesis
      by (simp add: edgeOf_def no_edge_def split: if_splits)
  qed
qed

section \<open>Properties\<close>

text \<open>
  C27. The client's address cannot be forged. An edge is credited with a request only when
  the request carries exactly one key header and its value is a key of that edge, of at
  least sixteen bytes and of no other edge. A request no edge vouches for is judged by its
  connection: a peer that is no trusted proxy is the client itself; behind trusted proxies
  the client is the rightmost address of X-Forwarded-For that is no trusted proxy, whatever
  a client put to the left of it, in the same header or in headers before.
\<close>

theorem client_ip_unforgeable:
  assumes compiled: "EdgeSet L cfg = Inr edges"
  shows "(r_edge (edgeOf L trusted edges q) \<noteq> [] \<longrightarrow>
      (\<exists>k e. PeekAll q (KeyHeader edges) = [k] \<and> e \<in> set (EdgeList edges) \<and> k \<in> set (er_Keys e) \<and>
         er_Name e = r_edge (edgeOf L trusted edges q) \<and> 16 \<le> length k \<and>
         (\<forall>e' \<in> set (EdgeList edges). k \<in> set (er_Keys e') \<longrightarrow> e' = e))) \<and>
    (r_ip (edgeOf L trusted edges q) = [] \<and> RemoteAddr q = Some a \<and> SplitHost L (trim_space a) = Some peer \<and>
       ParseIP L peer = Some pip \<longrightarrow>
       (\<not> isTrusted L trusted pip \<longrightarrow> ClientIP L trusted edges q = peer) \<and>
       (isTrusted L trusted pip \<longrightarrow> (\<forall>junk c cip ps. xff_entries q = junk @ c # ps \<and>
          ParseIP L (trim_space c) = Some cip \<and> \<not> isTrusted L trusted cip \<and>
          list_all (\<lambda>p. \<exists>ip. ParseIP L (trim_space p) = Some ip \<and> isTrusted L trusted ip) ps
          \<longrightarrow> ClientIP L trusted edges q = ipString L cip)))"
proof (intro conjI impI allI)
  assume "r_edge (edgeOf L trusted edges q) \<noteq> []"
  from edgeOf_matched [OF this] obtain k e where k: "PeekAll q (KeyHeader edges) = [k]" "Match edges k = Some e"
    "er_Name e = r_edge (edgeOf L trusted edges q)" by blast
  then have e: "e \<in> set (EdgeList edges)" "k \<in> set (er_Keys e)" by (auto simp: Match_def find_Some_iff)
  from EdgeSet_keys [OF compiled] have "distinct (concat (map er_Keys (EdgeList edges)))"
    "list_all (\<lambda>k. 16 \<le> length k) (concat (map er_Keys (EdgeList edges)))" by (simp_all add: keys_ok_def)
  with e have "16 \<le> length k" "\<forall>e' \<in> set (EdgeList edges). k \<in> set (er_Keys e') \<longrightarrow> e' = e"
    by (auto simp: list_all_iff dest: key_of_one_edge)
  with k e show "\<exists>k e. PeekAll q (KeyHeader edges) = [k] \<and> e \<in> set (EdgeList edges) \<and> k \<in> set (er_Keys e) \<and>
      er_Name e = r_edge (edgeOf L trusted edges q) \<and> 16 \<le> length k \<and>
      (\<forall>e' \<in> set (EdgeList edges). k \<in> set (er_Keys e') \<longrightarrow> e' = e)" by blast
qed (auto simp: ClientIP_def Let_def forwardedIP_def scan_trusted_suffix)

text \<open>Addresses as themselves, networks as prefixes: enough to run an example.\<close>

definition demo_net :: "(string, string) net_lib" where
  "demo_net = \<lparr>ParseIP = (\<lambda>s. if s = [] \<or> CHR '':'' \<in> set s then None else Some s), ipString = (\<lambda>s. s),
     unspecified = (\<lambda>s. s = ''0.0.0.0''), inNet = (\<lambda>n s. has_prefix s n), ParseNets = Some,
     SplitHost = (\<lambda>s. map_option fst (case split_on CHR '':'' s of [h, p] \<Rightarrow> Some (h, p) | _ \<Rightarrow> None)),
     ParseAddr = (\<lambda>s. if s = [] \<or> CHR '':'' \<in> set s then None else Some s)\<rparr>"

theorem client_ip_unforgeable_witness:
  "(case EdgeSet demo_net \<lparr>es_Required = False, es_KeyHeader = [], es_IPHeader = [],
      es_List = [\<lparr>ec_Name = ''cf'', ec_Keys = [''0123456789abcdef''], ec_IPHeader = [], ec_PeerCIDRs = []\<rparr>]\<rparr> of
     Inl e \<Rightarrow> False
   | Inr edges \<Rightarrow>
       ClientIP demo_net [''10.''] edges
         \<lparr>RemoteAddr = Some ''10.0.0.2:443'',
          Headers = [(''X-Forwarded-For'', ''203.0.113.1''), (''x-forwarded-for'', ''198.51.100.7, 10.0.0.9'')]\<rparr>
       = ''198.51.100.7'')"
proof -
  let ?cfg = "\<lparr>es_Required = False, es_KeyHeader = [], es_IPHeader = [],
      es_List = [\<lparr>ec_Name = ''cf'', ec_Keys = [''0123456789abcdef''], ec_IPHeader = [], ec_PeerCIDRs = []\<rparr>]\<rparr>"
  let ?q = "\<lparr>RemoteAddr = Some ''10.0.0.2:443'',
      Headers = [(''X-Forwarded-For'', ''203.0.113.1''), (''x-forwarded-for'', ''198.51.100.7, 10.0.0.9'')]\<rparr>"
  let ?e = "\<lparr>Required = False, KeyHeader = ''X-CDN-Key'', IPHeader = ''X-CDN-Client-IP'',
      EdgeList = [\<lparr>er_Name = ''cf'', er_Keys = [''0123456789abcdef''], er_IPHeader = ''X-CDN-Client-IP'', er_Peers = []\<rparr>]\<rparr>"
  have set: "EdgeSet demo_net ?cfg = Inr ?e" by code_simp
  have peer: "r_ip (edgeOf demo_net [''10.''] ?e ?q) = [] \<and> RemoteAddr ?q = Some ''10.0.0.2:443'' \<and>
      SplitHost demo_net (trim_space ''10.0.0.2:443'') = Some ''10.0.0.2'' \<and> ParseIP demo_net ''10.0.0.2'' = Some ''10.0.0.2''"
    by code_simp
  have trusted: "isTrusted demo_net [''10.''] ''10.0.0.2''" by code_simp
  have own: "ParseIP demo_net (trim_space '' 10.0.0.9'') = Some ''10.0.0.9''" "isTrusted demo_net [''10.''] ''10.0.0.9''"
    by code_simp+
  have "xff_entries ?q = [''203.0.113.1''] @ ''198.51.100.7'' # ['' 10.0.0.9'']" by code_simp
  moreover have "ParseIP demo_net (trim_space ''198.51.100.7'') = Some ''198.51.100.7''"
    "\<not> isTrusted demo_net [''10.''] ''198.51.100.7''" by code_simp+
  ultimately have entries: "xff_entries ?q = [''203.0.113.1''] @ ''198.51.100.7'' # ['' 10.0.0.9''] \<and>
      ParseIP demo_net (trim_space ''198.51.100.7'') = Some ''198.51.100.7'' \<and>
      \<not> isTrusted demo_net [''10.''] ''198.51.100.7'' \<and>
      list_all (\<lambda>p. \<exists>ip. ParseIP demo_net (trim_space p) = Some ip \<and> isTrusted demo_net [''10.''] ip) ['' 10.0.0.9'']"
    using own by auto
  have "ClientIP demo_net [''10.''] ?e ?q = ipString demo_net ''198.51.100.7''"
    by (rule client_ip_unforgeable [OF set, THEN conjunct2, THEN mp, OF peer, THEN conjunct2, THEN mp, OF trusted,
        THEN spec, THEN spec, THEN spec, THEN spec, THEN mp, OF entries])
  also have "ipString demo_net ''198.51.100.7'' = ''198.51.100.7''" by code_simp
  finally have "ClientIP demo_net [''10.''] ?e ?q = ''198.51.100.7''" .
  then show ?thesis unfolding set by simp
qed

end
