(* ===== verification/Respond.thy ===== *)
theory Respond
  imports Perm Guard ClientAddr
begin

text \<open>
  Answers: how a service's business error and a refused request reach the client
  (\<^verbatim>\<open>kitexx/validate.go\<close>, \<^verbatim>\<open>hertzx/respond.go\<close>, \<^verbatim>\<open>hertzx/bind.go\<close>, the
  level of an RPC's log record in \<^verbatim>\<open>kitexx/kitexx.go\<close>). What Kitex does with a
  business error between the two is the locale \<open>kitex_errors\<close>.
\<close>

section \<open>Errors\<close>

text \<open>
  A Go error: a business error of Kitex, any other, or one that wraps another.
  \<^verbatim>\<open>errors.As\<close> and \<^verbatim>\<open>kerrors.FromBizStatusError\<close> find the first business error.
\<close>

record biz =
  b_code :: int
  b_msg :: string
  b_extra :: "string \<Rightarrow> string option"

datatype go_error = BizStatus biz | Plain string | Wrapped string go_error

fun as_biz :: "go_error \<Rightarrow> biz option" where
  "as_biz (BizStatus b) = Some b"
| "as_biz (Plain _) = None"
| "as_biz (Wrapped _ e) = as_biz e"

definition NewBizStatusError :: "int \<Rightarrow> string \<Rightarrow> go_error" where
  "NewBizStatusError c m = BizStatus \<lparr>b_code = c, b_msg = m, b_extra = Map.empty\<rparr>"

section \<open>A service answers\<close>

text \<open>
  The RPC information of a call, when there is one: the business error set in it.
  \<^verbatim>\<open>BizError\<close> returns the error a middleware returns, and the information after it.
\<close>

type_synonym rpcinfo = "biz option option"

definition BizError :: "go_error \<Rightarrow> rpcinfo \<Rightarrow> go_error option \<times> rpcinfo" where
  "BizError e ri =
     (case as_biz e of
        None \<Rightarrow> (Some e, ri)
      | Some b \<Rightarrow> (case ri of None \<Rightarrow> (Some e, ri) | Some _ \<Rightarrow> (None, Some (Some b))))"

definition bizCode :: "go_error option \<Rightarrow> rpcinfo \<Rightarrow> int option" where
  "bizCode err ri =
     (case err of
        Some e \<Rightarrow> map_option b_code (as_biz e)
      | None \<Rightarrow> (case ri of Some (Some b) \<Rightarrow> Some (b_code b) | _ \<Rightarrow> None))"

definition serviceFault :: "int \<Rightarrow> bool" where
  "serviceFault code \<longleftrightarrow> code \<ge> 5000 \<and> code \<le> 5999"

datatype log_level = Info | Warn | Error

definition rpc_level :: "go_error option \<Rightarrow> rpcinfo \<Rightarrow> log_level" where
  "rpc_level err ri =
     (case bizCode err ri of
        Some c \<Rightarrow> if serviceFault c then Warn else Info
      | None \<Rightarrow> if err \<noteq> None then Error else Info)"

section \<open>Messages of a refused request\<close>

definition snake :: "string \<Rightarrow> string" where
  "snake s = trim_suffix (snake_from None s) ''_''"

text \<open>\<^verbatim>\<open>validatorMsg\<close>: the field and the rule. The expressions' \<open>.\<close> is any byte but a newline.\<close>

definition validatorMsg :: "string \<Rightarrow> (string \<times> string) option" where
  "validatorMsg s =
     (if \<not> has_prefix s ''field '' then None
      else let r = drop 6 s; w = takeWhile word_char r
        in case dropWhile word_char r of
            [] \<Rightarrow> None
          | c # rule \<Rightarrow> if w \<noteq> [] \<and> c = CHR '' '' \<and> CHR 0x0A \<notin> set rule then Some (w, rule) else None)"

definition echo_rules :: "string list" where
  "echo_rules = [''pattern'', ''prefix'', ''suffix'', ''contains'', ''not_contains'', ''in'', ''not_in'', ''const'',
     ''elem'', ''key'', ''value'']"

definition echoedValue :: "string \<Rightarrow> string option" where
  "echoedValue rule =
     map_option (\<lambda>r. r @ '' rule failed'') (find (\<lambda>r. has_prefix rule (r @ '' rule failed, current value: '') \<and>
        CHR 0x0A \<notin> set rule) echo_rules)"

definition FriendlyValidation :: "string \<Rightarrow> string" where
  "FriendlyValidation msg =
     (case validatorMsg (trim_space msg) of
        None \<Rightarrow> msg
      | Some (f, rule) \<Rightarrow> snake f @ '': '' @ (case echoedValue rule of Some r \<Rightarrow> r | None \<Rightarrow> rule))"

text \<open>
  The middleware. \<open>invalid\<close>: what the request's \<^verbatim>\<open>IsValid\<close> says, if it has one. The
  handler's own business error is moved into the RPC information by Kitex.
\<close>

definition CodeBadParam :: int where "CodeBadParam = 1001"

definition ValidationMiddleware ::
  "('req \<Rightarrow> string option) \<Rightarrow> ('req \<Rightarrow> rpcinfo \<Rightarrow> 'w \<Rightarrow> (go_error option \<times> rpcinfo) \<times> 'w) \<Rightarrow>
   'req \<Rightarrow> rpcinfo \<Rightarrow> 'w \<Rightarrow> (go_error option \<times> rpcinfo) \<times> 'w" where
  "ValidationMiddleware invalid next_ep req ri w =
     (case invalid req of
        Some e \<Rightarrow> (BizError (NewBizStatusError CodeBadParam (FriendlyValidation e)) ri, w)
      | None \<Rightarrow> next_ep req ri w)"

text \<open>Hertz's errors of a request it cannot bind. A text for a client, in the code's own words.\<close>

datatype client_text = Text string | FieldNotAccepted string | BadFormat string | MsgUpstream | Missing string
  | TooBig | TooOften | TimedOut | NotViaEdge

text \<open>\<^verbatim>\<open>vdMsg\<close>: the leftmost match.\<close>

fun vdMsg :: "string \<Rightarrow> string option" where
  "vdMsg [] = None"
| "vdMsg (c # s) =
     (let w = takeWhile word_char (dropWhile re_space (drop 18 (c # s)))
      in if has_prefix (c # s) ''invalid parameter:'' \<and> w \<noteq> [] then Some w else vdMsg s)"

definition bindMsg :: "string \<Rightarrow> string option" where
  "bindMsg s =
     (case find (\<lambda>p. has_prefix s (''bind '' @ p @ '' failed,'')) [''body'', ''query'', ''path'', ''header'', ''form''] of
        None \<Rightarrow> None
      | Some p \<Rightarrow>
          let r = dropWhile re_space (drop (length (''bind '' @ p @ '' failed,'')) s)
          in if has_prefix r ''err='' \<and> CHR 0x0A \<notin> set r then Some (drop 4 r) else None)"

definition FriendlyBind :: "string \<Rightarrow> client_text" where
  "FriendlyBind m =
     (let msg = trim_space m in
      case vdMsg msg of
        Some f \<Rightarrow> FieldNotAccepted (snake f)
      | None \<Rightarrow> (case bindMsg msg of Some r \<Rightarrow> BadFormat (trim_space r) | None \<Rightarrow> Text msg))"

section \<open>The gateway answers\<close>

datatype 'd answer_data = NoData | Reason string | Data 'd

record 'd web_answer =
  a_status :: int
  a_code :: int
  a_msg :: client_text
  a_data :: "'d answer_data"

definition statusOf :: "int \<Rightarrow> int" where
  "statusOf code = (if code = 1004 \<or> code = 1005 then 401 else if code = 1007 then 403 else 200)"

definition bizExtra :: "go_error \<Rightarrow> string \<Rightarrow> string option" where
  "bizExtra e = (case as_biz e of Some b \<Rightarrow> b_extra b | None \<Rightarrow> Map.empty)"

definition CodeOf :: "go_error \<Rightarrow> int \<times> client_text" where
  "CodeOf e = (case as_biz e of Some b \<Rightarrow> (b_code b, Text (b_msg b)) | None \<Rightarrow> (5001, MsgUpstream))"

definition Fail :: "go_error \<Rightarrow> 'd web_answer" where
  "Fail e =
     (case CodeOf e of
        (code, msg) \<Rightarrow> \<lparr>a_status = statusOf code, a_code = code, a_msg = msg,
          a_data = (if code = 1005 then Reason (case bizExtra e ''reason'' of Some r \<Rightarrow> r | None \<Rightarrow> []) else NoData)\<rparr>)"

definition FailCode :: "int \<Rightarrow> client_text \<Rightarrow> 'd web_answer" where
  "FailCode code msg = \<lparr>a_status = statusOf code, a_code = code, a_msg = msg, a_data = NoData\<rparr>"

text \<open>\<open>empty\<close>: the data is nil or a struct without fields (\<^verbatim>\<open>isEmptyStruct\<close>).\<close>

datatype 'd go_value = Nil | Ptr "'d go_value" | Struct nat 'd | Other 'd

fun isEmptyStruct :: "'d go_value \<Rightarrow> bool" where
  "isEmptyStruct Nil = True"
| "isEmptyStruct (Ptr v) = isEmptyStruct v"
| "isEmptyStruct (Struct n _) = (n = 0)"
| "isEmptyStruct (Other _) = False"

definition OK :: "'d go_value \<Rightarrow> 'd go_value web_answer" where
  "OK v = \<lparr>a_status = 200, a_code = 0, a_msg = Text [], a_data = (if isEmptyStruct v then NoData else Data v)\<rparr>"

definition Bind :: "string option \<Rightarrow> 'd web_answer option" where
  "Bind err = map_option (\<lambda>e. \<lparr>a_status = 200, a_code = 1001, a_msg = FriendlyBind e, a_data = NoData\<rparr>) err"

section \<open>Between the two\<close>

text \<open>
  What the client's call returns, by what the last middleware of the service returned and
  left in the RPC information: a business error set there arrives as it is, an error
  returned is an error of the transport.
\<close>

locale kitex_errors =
  fixes deliver :: "go_error option \<times> rpcinfo \<Rightarrow> go_error option"
  assumes answered: "deliver (None, Some (Some b)) = Some (BizStatus b)"
    and fine: "deliver (None, Some None) = None"
    and failed: "\<exists>e'. deliver (Some e, ri) = Some e' \<and> as_biz e' = None"
begin

lemma refused: "deliver (BizError (NewBizStatusError c m) (Some x)) = Some (NewBizStatusError c m)"
  by (simp add: BizError_def NewBizStatusError_def answered)

lemma broken: "as_biz e = None \<Longrightarrow> \<exists>e'. deliver (BizError e ri) = Some e' \<and> as_biz e' = None"
  by (simp add: BizError_def failed)

end

text \<open>Kitex over TTHeader, with its text for a transport error.\<close>

definition ttheader :: "go_error option \<times> rpcinfo \<Rightarrow> go_error option" where
  "ttheader r = (case r of (Some e, _) \<Rightarrow> Some (Plain ''remote or network error'')
     | (None, Some (Some b)) \<Rightarrow> Some (BizStatus b) | (None, _) \<Rightarrow> None)"

interpretation tth: kitex_errors ttheader
  by unfold_locales (simp_all add: ttheader_def)

section \<open>Lemmas\<close>

lemma Fail_biz: "as_biz e = Some b \<Longrightarrow>
  Fail e = \<lparr>a_status = statusOf (b_code b), a_code = b_code b, a_msg = Text (b_msg b),
    a_data = (if b_code b = 1005 then Reason (case b_extra b ''reason'' of Some r \<Rightarrow> r | None \<Rightarrow> []) else NoData)\<rparr>"
  by (simp add: Fail_def CodeOf_def bizExtra_def)

lemma Fail_other: "as_biz e = None \<Longrightarrow> Fail e = \<lparr>a_status = 200, a_code = 5001, a_msg = MsgUpstream, a_data = NoData\<rparr>"
  by (simp add: Fail_def CodeOf_def statusOf_def)

lemma Fail_new: "Fail (NewBizStatusError c m) = \<lparr>a_status = statusOf c, a_code = c, a_msg = Text m,
    a_data = (if c = 1005 then Reason [] else NoData)\<rparr>"
  by (simp add: Fail_biz NewBizStatusError_def)

text \<open>\<^verbatim>\<open>strings.TrimSpace\<close> of a text that begins with no space.\<close>

definition trim_right :: "string \<Rightarrow> string" where
  "trim_right s = rev (dropWhile is_space (rev s))"

lemma dropWhile_stop: "\<not> P d \<Longrightarrow> dropWhile P (xs @ d # t) = dropWhile P xs @ d # t"
  by (induction xs) auto

lemma trim_right_keeps: "\<not> is_space d \<Longrightarrow> trim_right (s @ d # v) = s @ d # trim_right v"
  by (simp add: trim_right_def dropWhile_stop)

lemma trim_space_left: "\<not> is_space c \<Longrightarrow> trim_space (c # s) = trim_right (c # s)"
  by (simp add: trim_space_def trim_right_def)

lemma trim_right_prefix: "\<exists>t. v = trim_right v @ t"
proof -
  have "rev v = takeWhile is_space (rev v) @ dropWhile is_space (rev v)" by simp
  then show ?thesis unfolding trim_right_def by (metis rev_append rev_rev_ident)
qed

lemma trim_right_space: "d \<in> set v \<Longrightarrow> \<not> is_space d \<Longrightarrow> trim_right (c # v) = c # trim_right v"
proof -
  assume "d \<in> set v" "\<not> is_space d"
  then obtain a b where "v = a @ d # b" by (meson split_list)
  with \<open>\<not> is_space d\<close> show ?thesis using trim_right_keeps [of d "c # a" b] trim_right_keeps [of d a b] by simp
qed

lemma takeWhile_field:
  "\<forall>c \<in> set f. word_char c \<Longrightarrow>
   takeWhile word_char (f @ CHR '' '' # r) = f \<and> dropWhile word_char (f @ CHR '' '' # r) = CHR '' '' # r"
  by (induction f) (auto simp: word_char_def)

lemma validatorMsg_field:
  "f \<noteq> [] \<Longrightarrow> \<forall>c \<in> set f. word_char c \<Longrightarrow>
   validatorMsg (''field '' @ f @ '' '' @ r) = (if CHR 0x0A \<in> set r then None else Some (f, r))"
  using takeWhile_field [of f r] by (simp add: validatorMsg_def)

lemma find_only: "x \<in> set xs \<Longrightarrow> \<forall>y \<in> set xs. P y \<longleftrightarrow> y = x \<Longrightarrow> find P xs = Some x"
  by (induction xs) auto

lemma echo_rules_words: "r \<in> set echo_rules \<Longrightarrow> CHR '' '' \<notin> set r \<and> CHR 0x0A \<notin> set r"
  by (auto simp: echo_rules_def)

lemma echoedValue_rule:
  assumes "rule \<in> set echo_rules" and "CHR 0x0A \<notin> set v"
  shows "echoedValue (rule @ '' rule failed, current value: '' @ v) = Some (rule @ '' rule failed'')"
proof -
  have "has_prefix (rule @ '' rule failed, current value: '' @ v) (r @ '' rule failed, current value: '') \<longleftrightarrow> r = rule"
    if "r \<in> set echo_rules" for r
  proof
    assume "has_prefix (rule @ '' rule failed, current value: '' @ v) (r @ '' rule failed, current value: '')"
    then obtain t where "rule @ '' rule failed, current value: '' @ v = r @ '' rule failed, current value: '' @ t"
      unfolding has_prefix_iff by auto
    then show "r = rule" using echo_rules_words [OF that] echo_rules_words [OF assms(1)]
      by (simp add: sep_split)
  qed (simp add: has_prefix_iff)
  with assms echo_rules_words [OF assms(1)] show ?thesis
    unfolding echoedValue_def by (subst find_only [where x = rule]) auto
qed

section \<open>Properties\<close>

text \<open>
  C17. A service's refusal reaches the client. Whatever code a middleware of a service
  refuses with, the gateway's Fail answers that code with its message, as 401 for 1004 and
  1005, 403 for 1007 and 200 for every other; a request that fails validation is answered
  with 1001 and the message without its handler running; and an error that is no business
  error, whatever wraps it, is 5001.
\<close>

theorem refusal_reaches_client:
  assumes "kitex_errors deliver"
  shows "(\<exists>e. deliver (BizError (NewBizStatusError c m) (Some x)) = Some e \<and> a_code (Fail e :: 'd web_answer) = c \<and>
      a_msg (Fail e :: 'd web_answer) = Text m \<and> a_status (Fail e :: 'd web_answer) = (if c \<in> {1004, 1005} then 401 else if c = 1007 then 403 else 200)) \<and>
    (invalid req = Some why \<longrightarrow> (\<exists>r e. ValidationMiddleware invalid next_ep req (Some x) w = (r, w) \<and> deliver r = Some e \<and>
       (Fail e :: 'd web_answer) = \<lparr>a_status = 200, a_code = 1001, a_msg = Text (FriendlyValidation why), a_data = NoData\<rparr>)) \<and>
    (as_biz e0 = None \<longrightarrow> (\<exists>e. deliver (BizError e0 ri) = Some e \<and>
       (Fail e :: 'd web_answer) = \<lparr>a_status = 200, a_code = 5001, a_msg = MsgUpstream, a_data = NoData\<rparr>))"
proof (intro conjI impI)
  note r = kitex_errors.refused [OF assms] and b = kitex_errors.broken [OF assms]
  show "\<exists>e. deliver (BizError (NewBizStatusError c m) (Some x)) = Some e \<and> a_code (Fail e :: 'd web_answer) = c \<and>
      a_msg (Fail e :: 'd web_answer) = Text m \<and> a_status (Fail e :: 'd web_answer) = (if c \<in> {1004, 1005} then 401 else if c = 1007 then 403 else 200)"
    by (simp add: r Fail_new statusOf_def)
  show "\<exists>r e. ValidationMiddleware invalid next_ep req (Some x) w = (r, w) \<and> deliver r = Some e \<and>
       (Fail e :: 'd web_answer) = \<lparr>a_status = 200, a_code = 1001, a_msg = Text (FriendlyValidation why), a_data = NoData\<rparr>"
    if "invalid req = Some why"
    using that r by (simp add: ValidationMiddleware_def Fail_new statusOf_def CodeBadParam_def)
  show "\<exists>e. deliver (BizError e0 ri) = Some e \<and>
       (Fail e :: 'd web_answer) = \<lparr>a_status = 200, a_code = 5001, a_msg = MsgUpstream, a_data = NoData\<rparr>" if "as_biz e0 = None"
    using b [OF that] Fail_other by blast
qed

theorem refusal_reaches_client_witness:
  "\<exists>e. ttheader (BizError (NewBizStatusError 1007 ''no'') (Some None)) = Some e \<and> a_status (Fail e :: unit web_answer) = 403"
proof -
  have "\<exists>e. ttheader (BizError (NewBizStatusError 1007 ''no'') (Some None)) = Some e \<and> a_code (Fail e :: unit web_answer) = 1007 \<and>
      a_msg (Fail e :: unit web_answer) = Text ''no'' \<and> a_status (Fail e :: unit web_answer) = 403"
    using refusal_reaches_client [OF tth.kitex_errors_axioms, THEN conjunct1, of 1007 "''no''" None] by simp
  then show ?thesis by blast
qed

text \<open>
  A refused value stays out of the message. For a rule about the text of a field
  (a pattern, a prefix, a list of values and so on), the message names the field and the
  rule and ends there, whatever value without a line break was refused.
\<close>

lemma validation_hides_value:
  assumes "rule \<in> set echo_rules" and "f \<noteq> []" and "\<forall>c \<in> set f. word_char c" and "CHR 0x0A \<notin> set v"
    and "d \<in> set v" and "\<not> is_space d"
  shows "FriendlyValidation (''field '' @ f @ '' '' @ rule @ '' rule failed, current value: '' @ v) =
    snake f @ '': '' @ rule @ '' rule failed''"
proof -
  let ?v = "trim_right v"
  obtain t where "v = ?v @ t" using trim_right_prefix by blast
  with assms(4) have nl: "CHR 0x0A \<notin> set ?v" by (metis Un_iff set_append)
  have "\<not> is_space (CHR '':'')" "\<not> is_space (CHR ''f'')" by (simp_all add: is_space_def)
  then have "trim_space (''field '' @ f @ '' '' @ rule @ '' rule failed, current value: '' @ v) =
      ''field '' @ f @ '' '' @ rule @ '' rule failed, current value: '' @ ?v"
    using trim_right_keeps [of "CHR '':''" "''field '' @ f @ '' '' @ rule @ '' rule failed, current value''" "'' '' @ v"]
      trim_right_space [OF assms(5,6), of "CHR '' ''"] by (simp add: trim_space_left)
  moreover have "CHR 0x0A \<notin> set rule" using assms(1) by (auto simp: echo_rules_def)
  moreover have "echoedValue (rule @ '' rule failed, current value: '' @ ?v) = Some (rule @ '' rule failed'')"
    by (rule echoedValue_rule [OF assms(1) nl])
  ultimately show ?thesis
    using validatorMsg_field [OF assms(2,3), of "rule @ '' rule failed, current value: '' @ ?v"] nl
    by (simp add: FriendlyValidation_def)
qed

theorem validation_hides_value_witness:
  "FriendlyValidation ''field PassWord pattern rule failed, current value: hunter 2'' = ''pass_word: pattern rule failed''"
proof -
  have "snake ''PassWord'' = ''pass_word''" by code_simp
  moreover have "\<forall>c \<in> set ''PassWord''. word_char c" by (simp add: word_char_def)
  moreover have "''pattern'' \<in> set echo_rules" by (simp add: echo_rules_def)
  ultimately show ?thesis
    using validation_hides_value [of "''pattern''" "''PassWord''" "''hunter 2''" "CHR ''h''"] by (simp add: is_space_def)
qed

text \<open>
  A value with a line break is not left out: the message is no match of the first
  expression, and goes out as it is.
\<close>

lemma validation_shows_lines:
  assumes "\<not> is_space d" and "f \<noteq> []" and "\<forall>c \<in> set f. word_char c"
  shows "FriendlyValidation (''field '' @ f @ '' '' @ rule @ '' rule failed, current value: '' @ v @ CHR 0x0A # u @ [d]) =
    ''field '' @ f @ '' '' @ rule @ '' rule failed, current value: '' @ v @ CHR 0x0A # u @ [d]"
proof -
  let ?r = "rule @ '' rule failed, current value: '' @ v @ CHR 0x0A # u @ [d]"
  have "\<not> is_space (CHR ''f'')" by (simp add: is_space_def)
  then have "trim_space (''field '' @ f @ '' '' @ ?r) = ''field '' @ f @ '' '' @ ?r"
    using trim_right_keeps [OF assms(1), of "''field '' @ f @ '' '' @ rule @ '' rule failed, current value: '' @ v @ CHR 0x0A # u" "[]"]
    by (simp add: trim_space_left trim_right_def)
  with validatorMsg_field [OF assms(2,3), of ?r] show ?thesis by (simp add: FriendlyValidation_def)
qed

text \<open>
  One code, one status, for the codes of a login. An answer of the login check, of the
  permission check (unless the account service fails) and of Fail and FailCode has the
  status its code stands for. The code 5001 has two: the permission check answers it as 503,
  Fail as 200.
\<close>

lemma one_code_one_status:
  "a_status (Fail e :: 'd web_answer) = statusOf (a_code (Fail e :: 'd web_answer)) \<and>
   a_status (FailCode c m :: 'd web_answer) = statusOf (a_code (FailCode c m :: 'd web_answer)) \<and>
   (RequireLogin env cfg k ops public now q s = (Abort st code why, s') \<longrightarrow> st = statusOf code) \<and>
   (RequirePermission ops life load now q x = (Abort st' code' why', x') \<longrightarrow>
      (if code' = 5001 then st' = 503 \<and> st' \<noteq> a_status (Fail (Plain []) :: 'd web_answer) else st' = statusOf code'))"
proof (intro conjI impI)
  show "a_status (Fail e :: 'd web_answer) = statusOf (a_code (Fail e :: 'd web_answer))"
    by (cases "as_biz e") (simp_all add: Fail_biz Fail_other statusOf_def)
  show "a_status (FailCode c m :: 'd web_answer) = statusOf (a_code (FailCode c m :: 'd web_answer))"
    by (simp add: FailCode_def)
  show "st = statusOf code" if "RequireLogin env cfg k ops public now q s = (Abort st code why, s')"
    using that by (auto simp: RequireLogin_def Let_def statusOf_def split: if_splits prod.splits sum.splits auth_error.splits)
  show "if code' = 5001 then st' = 503 \<and> st' \<noteq> a_status (Fail (Plain []) :: 'd web_answer) else st' = statusOf code'"
    if "RequirePermission ops life load now q x = (Abort st' code' why', x')"
    using that by (auto simp: RequirePermission_def statusOf_def Fail_other split: if_splits option.splits prod.splits sum.splits)
qed

end
