(* ===== verification/Gateway.thy ===== *)
theory Gateway
  imports Respond Devroute Idempotency
begin

text \<open>
  A request through a gateway (\<^verbatim>\<open>hertzx/hertzx.go\<close>, \<^verbatim>\<open>hertzx/client.go\<close>,
  \<^verbatim>\<open>hertzx/requestid.go\<close>): the middlewares of \<^verbatim>\<open>New\<close> in their order, over the
  parts of \<open>ClientAddr\<close>, \<open>Guard\<close>, \<open>Devroute\<close> and \<open>Idempotency\<close>, what of a request is
  put into the context its handler gets, and what becomes of the handler's answer. The CORS
  package, the JSON decoder and the tracing library are parameters; metrics and log records
  change nothing else and are left out, but for a record's level.
\<close>

section \<open>Requests and answers\<close>

record gate_request =
  gq_http :: http_request
  gq_method :: string
  gq_path :: string
  gq_body :: string

definition GetHeader :: "http_request \<Rightarrow> string \<Rightarrow> string" where
  "GetHeader q h = (case PeekAll q h of [] \<Rightarrow> [] | v # _ \<Rightarrow> v)"

datatype 'd gate_body = Empty_body | Json "'d web_answer" | Raw string

record 'd gate_answer =
  ga_status :: int
  ga_body :: "'d gate_body"
  ga_retry :: "int option"
  ga_trace :: string

text \<open>What the middlewares put into the context: the values every RPC carries, the request's id, its deadline.\<close>

record gate_ctx =
  gx_meta :: "string \<Rightarrow> string option"
  gx_scope :: "requestScope option"
  gx_deadline :: int

section \<open>The client\<close>

record client_info =
  cl_Device :: string
  cl_DeviceID :: string
  cl_IP :: string
  cl_Edge :: string

definition put_value :: "string \<Rightarrow> string \<Rightarrow> (string \<Rightarrow> string option) \<Rightarrow> string \<Rightarrow> string option" where
  "put_value k v m = (if v \<noteq> [] then m(k \<mapsto> v) else m)"

definition WithClient :: "(string \<Rightarrow> string option) \<Rightarrow> client_info \<Rightarrow> string \<Rightarrow> string option" where
  "WithClient m c = put_value ''EDGE'' (cl_Edge c) (put_value ''CLIENT_IP'' (cl_IP c)
     (put_value ''DEVICE_ID'' (cl_DeviceID c) (put_value ''DEVICE'' (cl_Device c) m)))"

definition meta_value :: "(string \<Rightarrow> string option) \<Rightarrow> string \<Rightarrow> string" where
  "meta_value m k = (case m k of None \<Rightarrow> [] | Some v \<Rightarrow> v)"

definition ClientOf :: "(string \<Rightarrow> string option) \<Rightarrow> client_info" where
  "ClientOf m = \<lparr>cl_Device = meta_value m ''DEVICE'', cl_DeviceID = meta_value m ''DEVICE_ID'',
     cl_IP = meta_value m ''CLIENT_IP'', cl_Edge = meta_value m ''EDGE''\<rparr>"

definition device_id_char :: "char \<Rightarrow> bool" where
  "device_id_char c \<longleftrightarrow> word_char c \<or> c \<in> set ''.:-''"

definition deviceIDRe :: "string \<Rightarrow> bool" where
  "deviceIDRe s \<longleftrightarrow> 1 \<le> length s \<and> length s \<le> 128 \<and> list_all device_id_char s"

record client_config =
  cc_Types :: "string list"
  cc_Required :: bool

definition refuseParam :: "client_text \<Rightarrow> 'd gate_answer" where
  "refuseParam m = \<lparr>ga_status = 200, ga_body = Json \<lparr>a_status = 200, a_code = 1001, a_msg = m, a_data = NoData\<rparr>,
     ga_retry = None, ga_trace = []\<rparr>"

definition client_device :: "client_config \<Rightarrow> bool \<Rightarrow> string \<Rightarrow> client_text + string" where
  "client_device cfg framework header =
     (if cc_Types cfg = [] then Inr []
      else let raw = trim_space header in
        case Canonical (cc_Types cfg) raw of
          Some d \<Rightarrow> Inr d
        | None \<Rightarrow>
            if raw \<noteq> [] \<and> \<not> framework then Inl (FieldNotAccepted ''X-Device-Type'')
            else if cc_Required cfg \<and> \<not> framework then Inl (Missing ''X-Device-Type'')
            else Inr [])"

definition client_device_id :: "bool \<Rightarrow> string \<Rightarrow> client_text + string" where
  "client_device_id framework header =
     (let i = trim_space header in
      if i = [] then Inr []
      else if deviceIDRe i then Inr i
      else if framework then Inr [] else Inl (FieldNotAccepted ''X-Device-Id''))"

definition Client_mw :: "client_config \<Rightarrow> string \<Rightarrow> string \<Rightarrow> gate_request \<Rightarrow> client_text + client_info" where
  "Client_mw cfg ip edge q =
     (let framework = isFrameworkPath (gq_path q) in
      case client_device cfg framework (GetHeader (gq_http q) ''X-Device-Type'') of
        Inl e \<Rightarrow> Inl e
      | Inr d \<Rightarrow>
          (case client_device_id framework (GetHeader (gq_http q) ''X-Device-Id'') of
             Inl e \<Rightarrow> Inl e
           | Inr i \<Rightarrow> Inr \<lparr>cl_Device = d, cl_DeviceID = i, cl_IP = ip, cl_Edge = edge\<rparr>))"

section \<open>The other middlewares\<close>

text \<open>\<open>request_id\<close>: the body's \<^verbatim>\<open>request_id\<close> when it is JSON.\<close>

definition RequestID_mw :: "(string \<Rightarrow> string option) \<Rightarrow> string \<Rightarrow> requestScope option" where
  "RequestID_mw request_id body =
     (let b = dropWhile (\<lambda>c. c \<in> {CHR '' '', CHR 0x09, CHR 0x0D, CHR 0x0A}) body in
      if b = [] \<or> hd b \<noteq> CHR ''{'' then None
      else case request_id b of None \<Rightarrow> None | Some i \<Rightarrow> WithRequestID None i)"

definition id_char :: "char \<Rightarrow> bool" where
  "id_char c \<longleftrightarrow> word_char c \<or> c = CHR ''-''"

definition looksLikeID :: "string \<Rightarrow> bool" where
  "looksLikeID s \<longleftrightarrow> 8 \<le> length s \<and> length s \<le> 64 \<and> list_all id_char s"

text \<open>The id of \<^verbatim>\<open>RequestLog\<close>: of the trace (\<open>span\<close>, empty when off), of the caller, or a new one.\<close>

definition request_trace :: "string \<Rightarrow> string \<Rightarrow> string \<Rightarrow> string" where
  "request_trace span header fresh = (if span \<noteq> [] then span else if looksLikeID header then header else fresh)"

definition http_level :: "int \<Rightarrow> log_level" where
  "http_level status = (if status \<ge> 500 then Error else if status \<ge> 400 then Warn else Info)"

text \<open>\<open>dev\<close>: tagged routing is on.\<close>

definition DevTag :: "bool \<Rightarrow> http_request \<Rightarrow> string option" where
  "DevTag dev q = (if \<not> dev then None
     else case ParseTags (GetHeader q ''X-Dev-Tag'') of None \<Rightarrow> None | Some ts \<Rightarrow> WithTags None ts)"

section \<open>The chain\<close>

record ('ip, 'net, 'w) gateway =
  gw_net :: "('ip, 'net) net_lib"
  gw_trusted :: "'net list"
  gw_edges :: "'net edge_set"
  gw_redis :: "'w exec option"
  gw_service :: string
  gw_guard :: guard_config
  gw_routes :: "string \<Rightarrow> rate option"
  gw_bodies :: "string \<Rightarrow> int option"
  gw_client :: client_config
  gw_dev :: bool
  gw_debug :: int
  gw_active :: "string list \<Rightarrow> bool"
  gw_request_id :: "string \<Rightarrow> string option"

definition json_answer :: "int \<Rightarrow> int \<Rightarrow> client_text \<Rightarrow> int option \<Rightarrow> 'd gate_answer" where
  "json_answer status code m retry = \<lparr>ga_status = status,
     ga_body = Json \<lparr>a_status = status, a_code = code, a_msg = m, a_data = NoData\<rparr>, ga_retry = retry, ga_trace = []\<rparr>"

definition gate_meta :: "bool \<Rightarrow> string \<Rightarrow> http_request \<Rightarrow> string \<Rightarrow> string option" where
  "gate_meta dev trace h = (case DevTag dev h of None \<Rightarrow> Map.empty | Some t \<Rightarrow> [''DEV_TAG'' \<mapsto> t])(''TRACE_ID'' \<mapsto> trace)"

definition gate_edge :: "('ip, 'net, 'w) gateway \<Rightarrow> gate_request \<Rightarrow> (string \<times> http_request) option" where
  "gate_edge g q = (if Enabled (gw_edges g)
     then Edge (gw_net g) (gw_trusted g) (gw_edges g) (isFrameworkPath (gq_path q)) (gq_http q) else Some ([], gq_http q))"

definition gate_debug :: "('ip, 'net, 'w) gateway \<Rightarrow> http_request \<Rightarrow> int option" where
  "gate_debug g h = (if gw_dev g \<and> gw_debug g > 0 \<and> gw_active g (Tags (DevTag (gw_dev g) h)) then Some (gw_debug g) else None)"

text \<open>
  What comes before the handler, from \<^verbatim>\<open>Edge\<close> to \<^verbatim>\<open>RequestID\<close>: an answer, or
  the context and the request for the handler.
\<close>

definition admit ::
  "('ip, 'net, 'w) gateway \<Rightarrow> string \<Rightarrow> int \<Rightarrow> gate_request \<Rightarrow> local_windows \<Rightarrow> 'w \<Rightarrow>
   ('d gate_answer + gate_ctx \<times> gate_request) \<times> local_windows \<times> 'w" where
  "admit g trace now q l w =
     (let ip = ClientIP (gw_net g) (gw_trusted g) (gw_edges g) (gq_http q)
      in case gate_edge g q of
           None \<Rightarrow> (Inl (json_answer 403 1011 NotViaEdge None), l, w)
         | Some (edge, h) \<Rightarrow>
             (case guard_handle (gw_redis g) (gw_service g) (gw_guard g) (gw_routes g) (gw_bodies g) (gate_debug g (gq_http q)) now
                     (gq_method q) (gq_path q) ip (int (length (gq_body q))) l w of
                (TooMany secs, l', w') \<Rightarrow> (Inl (json_answer 429 1008 TooOften (Some secs)), l', w')
              | (BodyTooLarge, l', w') \<Rightarrow> (Inl (json_answer 413 1001 TooBig None), l', w')
              | (Run timeout, l', w') \<Rightarrow>
                  (case Client_mw (gw_client g) ip edge (q\<lparr>gq_http := h\<rparr>) of
                     Inl e \<Rightarrow> (Inl (refuseParam e), l', w')
                   | Inr cl \<Rightarrow> (Inr (\<lparr>gx_meta = WithClient (gate_meta (gw_dev g) trace (gq_http q)) cl,
                        gx_scope = RequestID_mw (gw_request_id g) (gq_body q), gx_deadline = now + timeout\<rparr>, q\<lparr>gq_http := h\<rparr>), l', w'))))"

text \<open>
  How a handler ends: it returned or panicked, with the response as it then is, and whether
  its deadline had passed. \<open>written\<close> is the length of the body.
\<close>

datatype 'd handler_end = Returned "'d gate_answer" bool | Panicked "'d gate_answer"

fun written :: "'d gate_body \<Rightarrow> nat" where
  "written Empty_body = 0"
| "written (Json _) = 1"
| "written (Raw s) = length s"

text \<open>
  The response is one object: each middleware and the handler write into what is there. It
  begins as Hertz makes it, with the header \<^verbatim>\<open>RequestLog\<close> sets before it calls on.
\<close>

definition logged_response :: "string \<Rightarrow> 'd gate_answer" where
  "logged_response trace = \<lparr>ga_status = 200, ga_body = Empty_body, ga_retry = None, ga_trace = trace\<rparr>"

definition write_answer :: "'d gate_answer \<Rightarrow> 'd gate_answer \<Rightarrow> 'd gate_answer" where
  "write_answer r a = a\<lparr>ga_status := ga_status r, ga_body := ga_body r,
     ga_retry := (case ga_retry r of None \<Rightarrow> ga_retry a | Some n \<Rightarrow> Some n)\<rparr>"

definition after_handler :: "'d handler_end \<Rightarrow> 'd gate_answer" where
  "after_handler r =
     (case r of
        Returned a late \<Rightarrow> if timed_out late (written (ga_body a)) then write_answer (json_answer 504 1010 TimedOut None) a else a
      | Panicked a \<Rightarrow> a\<lparr>ga_status := 500\<rparr>)"

definition serve_request ::
  "('ip, 'net, 'w) gateway \<Rightarrow> (gate_request \<Rightarrow> 'd gate_answer option) \<Rightarrow> string \<Rightarrow> string \<Rightarrow> int \<Rightarrow>
   (gate_ctx \<Rightarrow> gate_request \<Rightarrow> 'd gate_answer \<Rightarrow> 'w \<Rightarrow> 'd handler_end \<times> 'w) \<Rightarrow>
   gate_request \<Rightarrow> local_windows \<Rightarrow> 'w \<Rightarrow> 'd gate_answer \<times> local_windows \<times> 'w" where
  "serve_request g cors span fresh now handler q l w =
     (case cors q of
        Some a \<Rightarrow> (a, l, w)
      | None \<Rightarrow>
          (let trace = request_trace span (GetHeader (gq_http q) ''X-Trace-Id'') fresh;
               a = logged_response trace
           in case admit g trace now q l w of
             (Inl r, l', w') \<Rightarrow> (write_answer r a, l', w')
           | (Inr (ctx, q'), l', w') \<Rightarrow>
               (case handler ctx q' a w' of (r, w'') \<Rightarrow> (after_handler r, l', w''))))"

section \<open>Lemmas\<close>

lemma client_values [simp]:
  "ClientOf (WithClient (m(''TRACE_ID'' \<mapsto> t)) c) = ClientOf (WithClient m c)"
  by (simp add: ClientOf_def WithClient_def put_value_def meta_value_def)


lemma WithClient_other:
  "k \<notin> {''DEVICE'', ''DEVICE_ID'', ''CLIENT_IP'', ''EDGE''} \<Longrightarrow> WithClient m c k = m k"
  by (simp add: WithClient_def put_value_def)







lemma admit_passed:
  assumes "admit g trace now q l w = (Inr (ctx, q'), l', w')"
  obtains edge h t cl where "gate_edge g q = Some (edge, h)"
    and "guard_handle (gw_redis g) (gw_service g) (gw_guard g) (gw_routes g) (gw_bodies g) (gate_debug g (gq_http q)) now (gq_method q)
       (gq_path q) (ClientIP (gw_net g) (gw_trusted g) (gw_edges g) (gq_http q)) (int (length (gq_body q))) l w = (Run t, l', w')"
    and "Client_mw (gw_client g) (ClientIP (gw_net g) (gw_trusted g) (gw_edges g) (gq_http q)) edge (q\<lparr>gq_http := h\<rparr>) = Inr cl"
    and "ctx = \<lparr>gx_meta = WithClient (gate_meta (gw_dev g) trace (gq_http q)) cl,
       gx_scope = RequestID_mw (gw_request_id g) (gq_body q), gx_deadline = now + t\<rparr>"
    and "q' = q\<lparr>gq_http := h\<rparr>"
proof (cases "gate_edge g q")
  case None
  with assms show ?thesis by (simp add: admit_def Let_def)
next
  case (Some p)
  obtain edge h where p: "gate_edge g q = Some (edge, h)" using Some by (cases p) simp
  obtain v l1 w1 where v: "guard_handle (gw_redis g) (gw_service g) (gw_guard g) (gw_routes g) (gw_bodies g) (gate_debug g (gq_http q)) now
      (gq_method q) (gq_path q) (ClientIP (gw_net g) (gw_trusted g) (gw_edges g) (gq_http q)) (int (length (gq_body q))) l w = (v, l1, w1)"
    by (metis surj_pair)
  obtain t where t: "v = Run t" using assms p v by (cases v) (simp_all add: admit_def Let_def)
  obtain cl where cl: "Client_mw (gw_client g) (ClientIP (gw_net g) (gw_trusted g) (gw_edges g) (gq_http q)) edge (q\<lparr>gq_http := h\<rparr>) = Inr cl"
    using assms p v t
    by (cases "Client_mw (gw_client g) (ClientIP (gw_net g) (gw_trusted g) (gw_edges g) (gq_http q)) edge (q\<lparr>gq_http := h\<rparr>)")
      (simp_all add: admit_def Let_def)
  show ?thesis using assms p v t cl by (intro that [of edge h t cl]) (simp_all add: admit_def Let_def)
qed

lemma admit_trace: "admit g t now q l w = (Inr (ctx, q'), l', w') \<Longrightarrow> gx_meta ctx ''TRACE_ID'' = Some t"
  by (erule admit_passed) (simp add: WithClient_other gate_meta_def)

text \<open>The refusals: each status with its business code.\<close>

lemma admit_refused:
  assumes "admit g t now q l w = (d, l', w')" and "d = Inl r"
  shows "\<exists>c m. ga_body r = Json \<lparr>a_status = ga_status r, a_code = c, a_msg = m, a_data = NoData\<rparr> \<and>
    (ga_status r, c) \<in> {(403, 1011), (413, 1001), (429, 1008), (200, 1001)}"
proof (cases "gate_edge g q")
  case None
  with assms show ?thesis by (auto simp: admit_def Let_def json_answer_def)
next
  case (Some p)
  obtain edge h where p: "gate_edge g q = Some (edge, h)" using Some by (cases p) simp
  obtain v l1 w1 where v: "guard_handle (gw_redis g) (gw_service g) (gw_guard g) (gw_routes g) (gw_bodies g) (gate_debug g (gq_http q)) now
      (gq_method q) (gq_path q) (ClientIP (gw_net g) (gw_trusted g) (gw_edges g) (gq_http q)) (int (length (gq_body q))) l w = (v, l1, w1)"
    by (metis surj_pair)
  show ?thesis
  proof (cases v)
    case (Run t')
    with assms p v show ?thesis
      by (cases "Client_mw (gw_client g) (ClientIP (gw_net g) (gw_trusted g) (gw_edges g) (gq_http q)) edge (q\<lparr>gq_http := h\<rparr>)")
        (auto simp: admit_def Let_def refuseParam_def)
  qed (use assms p v in \<open>auto simp: admit_def Let_def json_answer_def\<close>)
qed

text \<open>A handler that leaves the header alone, as those of the services do.\<close>

fun ending :: "'d handler_end \<Rightarrow> 'd gate_answer" where
  "ending (Returned a late) = a"
| "ending (Panicked a) = a"

definition keeps_trace :: "(gate_ctx \<Rightarrow> gate_request \<Rightarrow> 'd gate_answer \<Rightarrow> 'w \<Rightarrow> 'd handler_end \<times> 'w) \<Rightarrow> bool" where
  "keeps_trace handler \<longleftrightarrow> (\<forall>ctx q a w. ga_trace (ending (fst (handler ctx q a w))) = ga_trace a)"

lemma after_handler_trace: "ga_trace (after_handler r) = ga_trace (ending r)"
  by (cases r) (simp_all add: after_handler_def write_answer_def)

text \<open>A gateway without edges and Redis that lists one device type, and a request of a phone.\<close>

definition sample_gateway :: "(string, string, unit) gateway" where
  "sample_gateway = \<lparr>gw_net = demo_net, gw_trusted = [''10.''], gw_edges = \<lparr>Required = False, KeyHeader = ''X-K'', IPHeader = ''X-I'', EdgeList = []\<rparr>,
     gw_redis = None, gw_service = ''shop'', gw_guard = \<lparr>MaxBodyBytes = 0, g_Timeout = 0, g_PerIP = \<lparr>N = 0, Window = 0, is_set = True\<rparr>\<rparr>,
     gw_routes = Map.empty, gw_bodies = Map.empty, gw_client = \<lparr>cc_Types = [''iOS''], cc_Required = True\<rparr>, gw_dev = False,
     gw_debug = 0, gw_active = (\<lambda>_. False), gw_request_id = (\<lambda>_. Some ''r1'')\<rparr>"

definition sample_request :: "string \<Rightarrow> gate_request" where
  "sample_request device = \<lparr>gq_http = \<lparr>RemoteAddr = Some ''1.2.3.4:5'', Headers = [(''X-Device-Type'', device)]\<rparr>,
     gq_method = ''POST'', gq_path = ''/v1/pay'', gq_body = ''{}''\<rparr>"

section \<open>Properties\<close>



text \<open>
  C16. Every answer can be traced, and a panic is an answer. Past CORS, and with a handler
  that does not write the header itself, an answer carries an id of the allowed form, the
  one its handler had in its context. A refused request gets, without its handler, one of
  403 with the code 1011, 413 with 1001, 429 with 1008 and 200 with 1001. A panic is
  answered as 500; a handler that wrote nothing until its deadline as 504 with the code
  1010; and any other end of a handler is answered with what it wrote.
\<close>

theorem answers_traced:
  assumes "cors q = None" and "looksLikeID fresh" and "span = [] \<or> looksLikeID span" and keeps: "keeps_trace handler"
    and run: "serve_request g cors span fresh now handler q l w = (a :: 'd gate_answer, l', w')"
  shows "looksLikeID (ga_trace a) \<and>
    (case admit g (ga_trace a) now q l w of
       (Inl r, l1, w1) \<Rightarrow> ga_status a = ga_status r \<and> ga_body a = ga_body r \<and> ga_retry a = ga_retry r \<and> w' = w1 \<and>
         (\<exists>c m. ga_body a = Json \<lparr>a_status = ga_status a, a_code = c, a_msg = m, a_data = NoData\<rparr> \<and>
            (ga_status a, c) \<in> {(403, 1011), (413, 1001), (429, 1008), (200, 1001)})
     | (Inr (ctx, q'), l1, w1) \<Rightarrow>
         (case handler ctx q' (logged_response (ga_trace a)) w1 of
            (r, w2) \<Rightarrow> gx_meta ctx ''TRACE_ID'' = Some (ga_trace a) \<and> w' = w2 \<and>
              (case r of
                 Panicked x \<Rightarrow> ga_status a = 500 \<and> http_level (ga_status a) = Error
               | Returned x late \<Rightarrow>
                   if late \<and> written (ga_body x) = 0 then
                     ga_status a = 504 \<and> ga_body a = Json \<lparr>a_status = 504, a_code = 1010, a_msg = TimedOut, a_data = NoData\<rparr>
                   else a = x)))"
proof -
  define t where "t = request_trace span (GetHeader (gq_http q) ''X-Trace-Id'') fresh"
  have id: "looksLikeID t" using assms(2,3) by (auto simp: t_def request_trace_def)
  obtain d l1 w1 where d: "(admit g t now q l w :: ('d gate_answer + _) \<times> _) = (d, l1, w1)" by (metis surj_pair)
  show ?thesis
  proof (cases d)
    case (Inl r)
    have "a = write_answer r (logged_response t)" "w' = w1"
      using run unfolding serve_request_def assms(1) option.case t_def [symmetric] Let_def d Inl by simp_all
    then have "ga_trace a = t" "ga_status a = ga_status r" "ga_body a = ga_body r" "ga_retry a = ga_retry r" "w' = w1"
      by (simp_all add: write_answer_def logged_response_def split: option.split)
    with admit_refused [OF d Inl] show ?thesis using d Inl id by simp
  next
    case (Inr p)
    then obtain ctx q' where p: "(admit g t now q l w :: ('d gate_answer + _) \<times> _) = (Inr (ctx, q'), l1, w1)" using d by (cases p) simp
    have m: "gx_meta ctx ''TRACE_ID'' = Some t" by (rule admit_trace [OF p])
    obtain r w2 where r: "handler ctx q' (logged_response t) w1 = (r, w2)" by fastforce
    have a: "a = after_handler r" "w' = w2"
      using run unfolding serve_request_def assms(1) option.case t_def [symmetric] Let_def p by (simp_all add: r)
    have "ga_trace (ending (fst (handler ctx q' (logged_response t) w1))) = ga_trace (logged_response t :: 'd gate_answer)"
      using keeps unfolding keeps_trace_def by blast
    then have "ga_trace a = t" unfolding a after_handler_trace r by (simp add: logged_response_def)
    with m id p r a show ?thesis
      by (cases r) (auto simp: after_handler_def write_answer_def timed_out_def http_level_def json_answer_def)
  qed
qed

theorem answers_traced_witness:
  "looksLikeID (ga_trace (fst (serve_request sample_gateway (\<lambda>_. None) [] ''t0000001'' 5
     (\<lambda>_ _ a w. (Panicked a :: unit handler_end, w)) (sample_request ''ios'') [] ())))"
proof -
  let ?h = "\<lambda>_ _ a w. (Panicked a :: unit handler_end, w)"
  obtain a l w where r: "serve_request sample_gateway (\<lambda>_. None) [] ''t0000001'' 5 ?h (sample_request ''ios'') [] () = (a, l, w)"
    by (metis surj_pair)
  have "looksLikeID ''t0000001''" "keeps_trace ?h" by code_simp (simp add: keeps_trace_def)
  from answers_traced [OF refl this(1) _ this(2) r] r show ?thesis by simp
qed

end
