(* ===== verification/Cache.thy ===== *)
theory Cache
  imports Lock
begin

text \<open>
  The read-through cache of \<^verbatim>\<open>redisx/cache.go\<close>: one \<^verbatim>\<open>Get\<close>, \<^verbatim>\<open>Set\<close> or
  \<^verbatim>\<open>Del\<close> as a function (the loader, the JSON of a value and the jitter are parameters),
  and the sharing of a loader between the concurrent callers of a process
  (\<^verbatim>\<open>flight\<close>) as a step relation. Times are in milliseconds.
\<close>

section \<open>Configuration\<close>

record 'e cache_cfg =
  ns :: string
  c_name :: string
  c_ttl :: int
  notFound :: "'e option"
  negativeTTL :: int

definition NewCache :: "string \<Rightarrow> string \<Rightarrow> int \<Rightarrow> 'e cache_cfg" where
  "NewCache service name life = \<lparr>ns = service, c_name = name,
     c_ttl = (if life \<le> 0 then 300000 else life), notFound = None, negativeTTL = 0\<rparr>"

definition Negative :: "'e \<Rightarrow> int \<Rightarrow> 'e cache_cfg \<Rightarrow> 'e cache_cfg" where
  "Negative e life c = c\<lparr>notFound := Some e,
     negativeTTL := (if life \<le> 0 then max (c_ttl c div 10) 5000 else life)\<rparr>"

definition tombstone :: string where "tombstone = CHR 0x00 # ''nf''"

definition cache_key :: "'e cache_cfg \<Rightarrow> string \<Rightarrow> string" where
  "cache_key c i = keyOf (ns c) ''cache'' (c_name c @ '':'' @ i)"

section \<open>One operation\<close>

datatype 'e get_error = NotFoundKept 'e | Loader 'e | EncodeFailed

text \<open>
  A \<^verbatim>\<open>Get\<close> that no other caller of the process has under way: read, on a miss load, and
  keep what was loaded (or that there is nothing). An unreadable entry is a miss. The value
  comes back with the error when it cannot be encoded.
\<close>

definition keep_loaded ::
  "'w exec option \<Rightarrow> 'e cache_cfg \<Rightarrow> ('v \<Rightarrow> string option) \<Rightarrow> (int \<Rightarrow> int) \<Rightarrow> string \<Rightarrow> 'e + 'v \<Rightarrow> 'w \<Rightarrow>
   ('e get_error option \<times> 'v option) \<times> 'w" where
  "keep_loaded rdb c marshal jitter key r w =
     (case r of
        Inl e \<Rightarrow>
          ((Some (Loader e), None),
           (case rdb of
              None \<Rightarrow> w
            | Some exec \<Rightarrow> if notFound c = Some e then snd (r_set exec key tombstone (negativeTTL c) w) else w))
      | Inr v \<Rightarrow>
          (case rdb of
             None \<Rightarrow> ((None, Some v), w)
           | Some exec \<Rightarrow>
               (case marshal v of
                  None \<Rightarrow> ((Some EncodeFailed, Some v), w)
                | Some b \<Rightarrow> ((None, Some v), snd (r_set exec key b (jitter (c_ttl c)) w)))))"

definition cache_Get ::
  "'w exec option \<Rightarrow> 'e cache_cfg \<Rightarrow> ('v \<Rightarrow> string option) \<Rightarrow> (string \<Rightarrow> 'v option) \<Rightarrow> (int \<Rightarrow> int) \<Rightarrow>
   ('w \<Rightarrow> ('e + 'v) \<times> 'w) \<Rightarrow> string \<Rightarrow> 'w \<Rightarrow> ('e get_error option \<times> 'v option) \<times> 'w" where
  "cache_Get rdb c marshal unmarshal jitter load i w =
     (let key = cache_key c i;
          miss = (\<lambda>w1. case load w1 of (r, w2) \<Rightarrow> keep_loaded rdb c marshal jitter key r w2)
      in case rdb of
           None \<Rightarrow> miss w
         | Some exec \<Rightarrow>
             (case r_get exec key w of
                (Inl _, w1) \<Rightarrow>
                  (case load w1 of
                     (Inl e, w2) \<Rightarrow> ((Some (Loader e), None), w2)
                   | (Inr v, w2) \<Rightarrow> ((None, Some v), w2))
              | (Inr None, w1) \<Rightarrow> miss w1
              | (Inr (Some raw), w1) \<Rightarrow>
                  (case (if raw = tombstone then notFound c else None) of
                     Some e \<Rightarrow> ((Some (NotFoundKept e), None), w1)
                   | None \<Rightarrow>
                       (case unmarshal raw of
                          Some v \<Rightarrow> ((None, Some v), w1)
                        | None \<Rightarrow> miss w1))))"

definition cache_Set ::
  "'w exec option \<Rightarrow> 'e cache_cfg \<Rightarrow> ('v \<Rightarrow> string option) \<Rightarrow> (int \<Rightarrow> int) \<Rightarrow> string \<Rightarrow> 'v \<Rightarrow> 'w \<Rightarrow> bool \<times> 'w" where
  "cache_Set rdb c marshal jitter i v w =
     (case rdb of
        None \<Rightarrow> (True, w)
      | Some exec \<Rightarrow>
          (case marshal v of
             None \<Rightarrow> (False, w)
           | Some b \<Rightarrow> apfst is_ok (r_set exec (cache_key c i) b (jitter (c_ttl c)) w)))"

definition cache_Del :: "'w exec option \<Rightarrow> 'e cache_cfg \<Rightarrow> string list \<Rightarrow> 'w \<Rightarrow> 'w" where
  "cache_Del rdb c ids w =
     (case rdb of
        None \<Rightarrow> w
      | Some exec \<Rightarrow> if ids = [] then w else snd (r_del exec (map (cache_key c) ids) w))"

section \<open>The callers of one process\<close>

text \<open>
  \<open>flight\<close> maps an id to the call under way, \<open>result\<close> holds what a call's loader returned
  once its waiters may go on. A caller whose read of Redis failed loads for itself, outside
  the flight. Of the others one leads a call, leaves it when its loader has returned and the
  waiters were let go, but the id is still in the table, waits for one, has its answer, or
  was unwound by a panic of the loader.
\<close>

datatype 'r caller = Away | Bypassing string | Leading string nat | Leaving string nat 'r | Waiting string nat | Answered 'r | Unwinding

record 'r fstate =
  flight :: "string \<Rightarrow> nat option"
  result :: "nat \<Rightarrow> 'r option"
  calls :: nat
  callers :: "nat \<Rightarrow> 'r caller"

datatype 'r fevent =
    Miss nat string        \<comment> \<open>a caller missed the cache for the id\<close>
  | ReadFailed nat string  \<comment> \<open>a caller's read of Redis failed\<close>
  | Loaded nat 'r          \<comment> \<open>the caller's loader returned; \<^verbatim>\<open>wg.Done\<close> of its call\<close>
  | Removed nat            \<comment> \<open>\<^verbatim>\<open>flight.Delete\<close>\<close>
  | LoadPanic nat          \<comment> \<open>the caller's loader panicked\<close>
  | Wake nat               \<comment> \<open>a waiter goes on\<close>

fun fstep :: "'r fevent \<Rightarrow> 'r fstate \<Rightarrow> 'r fstate" where
  "fstep (Miss p i) st =
     (if callers st p \<noteq> Away then st
      else (case flight st i of
          Some c \<Rightarrow> st\<lparr>callers := (callers st)(p := Waiting i c)\<rparr>
        | None \<Rightarrow> st\<lparr>flight := (flight st)(i := Some (calls st)), calls := Suc (calls st),
                    callers := (callers st)(p := Leading i (calls st))\<rparr>))"
| "fstep (ReadFailed p i) st =
     (if callers st p \<noteq> Away then st else st\<lparr>callers := (callers st)(p := Bypassing i)\<rparr>)"
| "fstep (Loaded p r) st =
     (case callers st p of
        Leading i c \<Rightarrow> st\<lparr>result := (result st)(c := Some r), callers := (callers st)(p := Leaving i c r)\<rparr>
      | Bypassing i \<Rightarrow> st\<lparr>callers := (callers st)(p := Answered r)\<rparr>
      | _ \<Rightarrow> st)"
| "fstep (Removed p) st =
     (case callers st p of
        Leaving i c r \<Rightarrow> st\<lparr>flight := (flight st)(i := None), callers := (callers st)(p := Answered r)\<rparr>
      | _ \<Rightarrow> st)"
| "fstep (LoadPanic p) st =
     (case callers st p of
        Leading i c \<Rightarrow> st\<lparr>callers := (callers st)(p := Unwinding)\<rparr>
      | Bypassing i \<Rightarrow> st\<lparr>callers := (callers st)(p := Unwinding)\<rparr>
      | _ \<Rightarrow> st)"
| "fstep (Wake p) st =
     (case callers st p of
        Waiting i c \<Rightarrow>
          (case result st c of
             None \<Rightarrow> st
           | Some r \<Rightarrow> st\<lparr>callers := (callers st)(p := Answered r)\<rparr>)
      | _ \<Rightarrow> st)"

definition flight_init :: "'r fstate" where
  "flight_init = \<lparr>flight = Map.empty, result = Map.empty, calls = 0, callers = (\<lambda>_. Away)\<rparr>"

inductive freachable :: "'r fstate \<Rightarrow> bool" where
  init: "freachable flight_init"
| step: "freachable st \<Longrightarrow> freachable (fstep ev st)"

definition frun :: "'r fevent list \<Rightarrow> 'r fstate \<Rightarrow> 'r fstate" where
  "frun es st = fold fstep es st"

lemma frun_Nil [simp]: "frun [] st = st"
  and frun_Cons: "frun (ev # es) st = frun es (fstep ev st)"
  and frun_append: "frun (es @ es') st = frun es' (frun es st)"
  by (simp_all add: frun_def)

lemma frun_snoc: "frun (es @ [ev]) st = fstep ev (frun es st)"
  by (simp add: frun_append frun_Cons)

lemma frun_reachable: "freachable st \<Longrightarrow> freachable (frun es st)"
  unfolding frun_def by (induction es arbitrary: st) (simp_all add: freachable.step del: fstep.simps)

text \<open>Who runs the loader of an id, and who has an id in the table.\<close>

fun loading :: "string \<Rightarrow> 'r caller \<Rightarrow> bool" where
  "loading i (Bypassing j) = (j = i)"
| "loading i (Leading j c) = (j = i)"
| "loading i _ = False"

fun holds :: "'r caller \<Rightarrow> (string \<times> nat) option" where
  "holds (Leading i c) = Some (i, c)"
| "holds (Leaving i c r) = Some (i, c)"
| "holds _ = None"

section \<open>The invariant\<close>

definition finv :: "'r fstate \<Rightarrow> bool" where
  "finv st \<longleftrightarrow>
     (\<forall>p i c. holds (callers st p) = Some (i, c) \<longrightarrow> flight st i = Some c) \<and>
     (\<forall>p q i j c. holds (callers st p) = Some (i, c) \<longrightarrow> holds (callers st q) = Some (j, c) \<longrightarrow> p = q) \<and>
     (\<forall>p i c. callers st p = Leading i c \<longrightarrow> result st c = None) \<and>
     (\<forall>i c. flight st i = Some c \<longrightarrow> c < calls st) \<and>
     (\<forall>i j c. flight st i = Some c \<longrightarrow> flight st j = Some c \<longrightarrow> i = j) \<and>
     (\<forall>p i c. callers st p = Waiting i c \<longrightarrow> c < calls st \<and> (\<forall>j. flight st j = Some c \<longrightarrow> j = i)) \<and>
     (\<forall>c. calls st \<le> c \<longrightarrow> result st c = None)"

lemma finv_hold: "finv st \<Longrightarrow> holds (callers st p) = Some (i, c) \<Longrightarrow> flight st i = Some c"
  and finv_one: "finv st \<Longrightarrow> holds (callers st p) = Some (i, c) \<Longrightarrow> holds (callers st q) = Some (j, c) \<Longrightarrow> p = q"
  and finv_lead: "finv st \<Longrightarrow> callers st p = Leading i c \<Longrightarrow> result st c = None"
  and finv_flight: "finv st \<Longrightarrow> flight st i = Some c \<Longrightarrow> c < calls st"
  and finv_id: "finv st \<Longrightarrow> flight st i = Some c \<Longrightarrow> flight st j = Some c \<Longrightarrow> i = j"
  and finv_wait: "finv st \<Longrightarrow> callers st p = Waiting i c \<Longrightarrow> c < calls st \<and> (\<forall>j. flight st j = Some c \<longrightarrow> j = i)"
  and finv_fresh: "finv st \<Longrightarrow> calls st \<le> c \<Longrightarrow> result st c = None"
  unfolding finv_def by blast+

lemma finvI:
  assumes "\<And>p i c. holds (callers st p) = Some (i, c) \<Longrightarrow> flight st i = Some c"
    and "\<And>p q i j c. holds (callers st p) = Some (i, c) \<Longrightarrow> holds (callers st q) = Some (j, c) \<Longrightarrow> p = q"
    and "\<And>p i c. callers st p = Leading i c \<Longrightarrow> result st c = None"
    and "\<And>i c. flight st i = Some c \<Longrightarrow> c < calls st"
    and "\<And>i j c. flight st i = Some c \<Longrightarrow> flight st j = Some c \<Longrightarrow> i = j"
    and "\<And>p i c. callers st p = Waiting i c \<Longrightarrow> c < calls st \<and> (\<forall>j. flight st j = Some c \<longrightarrow> j = i)"
    and "\<And>c. calls st \<le> c \<Longrightarrow> result st c = None"
  shows "finv st"
  unfolding finv_def using assms by blast

text \<open>Each kind of step, on the state it changes.\<close>

lemma finv_lead_step:
  assumes inv: "finv st" and away: "callers st p = Away" and none: "flight st i = None"
  shows "finv (st\<lparr>flight := (flight st)(i := Some (calls st)), calls := Suc (calls st),
    callers := (callers st)(p := Leading i (calls st))\<rparr>)" (is "finv ?st")
proof (rule finvI)
  have nl: "holds (callers st q) \<noteq> Some (j, calls st)" for q j
    using finv_hold [OF inv, of q j "calls st"] finv_flight [OF inv, of j "calls st"] by auto
  show "flight ?st j = Some c" if "holds (callers ?st q) = Some (j, c)" for q j c
    using that none finv_hold [OF inv, of q j c] by (auto split: if_splits)
  show "q = q'" if "holds (callers ?st q) = Some (j, c)" "holds (callers ?st q') = Some (j', c)" for q q' j j' c
    using that nl finv_one [OF inv, of q j c q' j'] by (auto split: if_splits)
  show "result ?st c = None" if "callers ?st q = Leading j c" for q j c
    using that finv_lead [OF inv, of q j c] finv_fresh [OF inv, of "calls st"] by (auto split: if_splits)
  show "c < calls ?st" if "flight ?st j = Some c" for j c
    using that finv_flight [OF inv, of j c] by (auto split: if_splits)
  show "j = j'" if "flight ?st j = Some c" "flight ?st j' = Some c" for j j' c
    using that finv_id [OF inv, of j c j'] finv_flight [OF inv, of j c] finv_flight [OF inv, of j' c]
    by (auto split: if_splits)
  show "c < calls ?st \<and> (\<forall>j'. flight ?st j' = Some c \<longrightarrow> j' = j)" if "callers ?st q = Waiting j c" for q j c
    using that finv_wait [OF inv, of q j c] by (auto split: if_splits)
  show "result ?st c = None" if "calls ?st \<le> c" for c
    using that finv_fresh [OF inv, of c] by simp
qed

text \<open>A caller that holds nothing goes somewhere else: to wait for a call in the table, or anywhere but that.\<close>

lemma finv_move_step:
  assumes inv: "finv st" and x: "holds x = None" and w: "\<And>i c. x = Waiting i c \<Longrightarrow> flight st i = Some c"
  shows "finv (st\<lparr>callers := (callers st)(p := x)\<rparr>)" (is "finv ?st")
proof (rule finvI)
  show "flight ?st j = Some c" if "holds (callers ?st q) = Some (j, c)" for q j c
    using that x finv_hold [OF inv, of q j c] by (auto split: if_splits)
  show "q = q'" if "holds (callers ?st q) = Some (j, c)" "holds (callers ?st q') = Some (j', c)" for q q' j j' c
    using that x finv_one [OF inv, of q j c q' j'] by (auto split: if_splits)
  show "result ?st c = None" if "callers ?st q = Leading j c" for q j c
    using that x finv_lead [OF inv, of q j c] by (auto split: if_splits)
  show "c < calls ?st" if "flight ?st j = Some c" for j c
    using that finv_flight [OF inv, of j c] by simp
  show "j = j'" if "flight ?st j = Some c" "flight ?st j' = Some c" for j j' c
    using that finv_id [OF inv, of j c j'] by simp
  show "c < calls ?st \<and> (\<forall>j'. flight ?st j' = Some c \<longrightarrow> j' = j)" if "callers ?st q = Waiting j c" for q j c
  proof (cases "q = p")
    case True
    then have f: "flight st j = Some c" using that w by simp
    with finv_flight [OF inv f] finv_id [OF inv _ f] show ?thesis by auto
  next
    case False
    with that finv_wait [OF inv, of q j c] show ?thesis by simp
  qed
  show "result ?st c = None" if "calls ?st \<le> c" for c
    using that finv_fresh [OF inv, of c] by simp
qed

lemma finv_loaded_step:
  assumes inv: "finv st" and lead: "callers st p = Leading i c"
  shows "finv (st\<lparr>result := (result st)(c := Some r), callers := (callers st)(p := Leaving i c r)\<rparr>)" (is "finv ?st")
proof (rule finvI)
  have h: "holds (callers st p) = Some (i, c)" using lead by simp
  have c: "flight st i = Some c" by (rule finv_hold [OF inv h])
  show "flight ?st j = Some c'" if "holds (callers ?st q) = Some (j, c')" for q j c'
    using that c finv_hold [OF inv, of q j c'] by (auto split: if_splits)
  show "q = q'" if "holds (callers ?st q) = Some (j, c')" "holds (callers ?st q') = Some (j', c')" for q q' j j' c'
    using that finv_one [OF inv, of q j c' q' j'] finv_one [OF inv h, of q j] finv_one [OF inv h, of q' j'] by (auto split: if_splits)
  show "result ?st c' = None" if "callers ?st q = Leading j c'" for q j c'
    using that finv_lead [OF inv, of q j c'] finv_one [OF inv h, of q j] by (auto split: if_splits)
  show "c' < calls ?st" if "flight ?st j = Some c'" for j c'
    using that finv_flight [OF inv, of j c'] by simp
  show "j = j'" if "flight ?st j = Some c'" "flight ?st j' = Some c'" for j j' c'
    using that finv_id [OF inv, of j c' j'] by simp
  show "c' < calls ?st \<and> (\<forall>j'. flight ?st j' = Some c' \<longrightarrow> j' = j)" if "callers ?st q = Waiting j c'" for q j c'
    using that finv_wait [OF inv, of q j c'] by (auto split: if_splits)
  show "result ?st c' = None" if "calls ?st \<le> c'" for c'
    using that finv_fresh [OF inv, of c'] finv_flight [OF inv c] by auto
qed

lemma finv_removed_step:
  assumes inv: "finv st" and leave: "callers st p = Leaving i c r"
  shows "finv (st\<lparr>flight := (flight st)(i := None), callers := (callers st)(p := Answered r)\<rparr>)" (is "finv ?st")
proof (rule finvI)
  have h: "holds (callers st p) = Some (i, c)" using leave by simp
  have c: "flight st i = Some c" by (rule finv_hold [OF inv h])
  show "flight ?st j = Some c'" if "holds (callers ?st q) = Some (j, c')" for q j c'
    using that c finv_hold [OF inv, of q j c'] finv_one [OF inv h, of q j] by (auto split: if_splits)
  show "q = q'" if "holds (callers ?st q) = Some (j, c')" "holds (callers ?st q') = Some (j', c')" for q q' j j' c'
    using that finv_one [OF inv, of q j c' q' j'] by (auto split: if_splits)
  show "result ?st c' = None" if "callers ?st q = Leading j c'" for q j c'
    using that finv_lead [OF inv, of q j c'] by (auto split: if_splits)
  show "c' < calls ?st" if "flight ?st j = Some c'" for j c'
    using that finv_flight [OF inv, of j c'] by (auto split: if_splits)
  show "j = j'" if "flight ?st j = Some c'" "flight ?st j' = Some c'" for j j' c'
    using that finv_id [OF inv, of j c' j'] by (auto split: if_splits)
  show "c' < calls ?st \<and> (\<forall>j'. flight ?st j' = Some c' \<longrightarrow> j' = j)" if "callers ?st q = Waiting j c'" for q j c'
    using that finv_wait [OF inv, of q j c'] by (auto split: if_splits)
  show "result ?st c' = None" if "calls ?st \<le> c'" for c'
    using that finv_fresh [OF inv, of c'] by simp
qed

lemma finv_step: "finv st \<Longrightarrow> finv (fstep ev st)"
  by (cases ev)
    (auto split: caller.split option.split intro!: finv_lead_step finv_move_step finv_loaded_step finv_removed_step)

lemma finv_reachable: "freachable st \<Longrightarrow> finv st"
proof (induction rule: freachable.induct)
  case init
  then show ?case by (simp add: finv_def flight_init_def)
next
  case (step st ev)
  then show ?case by (simp add: finv_step del: fstep.simps)
qed

lemma finv_frun: "finv st \<Longrightarrow> finv (frun es st)"
  by (induction es arbitrary: st) (simp_all add: frun_Cons finv_step del: fstep.simps)

section \<open>Outside the flight\<close>

lemma bypassing_step: "callers (fstep ev st) q = Bypassing i \<Longrightarrow> callers st q = Bypassing i \<or> ev = ReadFailed q i"
  by (cases ev) (auto split: if_splits caller.splits option.splits)

lemma bypassing_failed: "callers (frun es flight_init) q = Bypassing i \<Longrightarrow> ReadFailed q i \<in> set es"
proof (induction es rule: rev_induct)
  case Nil
  then show ?case by (simp add: flight_init_def)
next
  case (snoc ev es)
  then show ?case using bypassing_step [of ev "frun es flight_init" q i] by (auto simp: frun_snoc simp del: fstep.simps)
qed

section \<open>A waiter's answer\<close>

text \<open>What has become of a call and of one of its waiters since it was under way.\<close>

definition call_end :: "'r fevent list \<Rightarrow> nat \<Rightarrow> string \<Rightarrow> nat \<Rightarrow> nat \<Rightarrow> 'r fstate \<Rightarrow> bool" where
  "call_end es p i c q st \<longleftrightarrow> finv st \<and> c < calls st \<and>
     (callers st q = Waiting i c \<or> (\<exists>r. callers st q = Answered r \<and> result st c = Some r)) \<and>
     (callers st p = Leading i c \<and> result st c = None \<or>
      (\<exists>r. (callers st p = Leaving i c r \<or> callers st p = Answered r) \<and> result st c = Some r \<and> Loaded p r \<in> set es) \<or>
      callers st p = Unwinding \<and> result st c = None \<and> (\<forall>s j. holds (callers st s) \<noteq> Some (j, c)))"

lemma call_end_step:
  assumes "call_end es p i c q st"
  shows "call_end (es @ [ev]) p i c q (fstep ev st)"
proof -
  have inv: "finv st" and lt: "c < calls st" using assms by (simp_all add: call_end_def)
  have inv': "finv (fstep ev st)" by (rule finv_step [OF inv])
  have one: "s = p" if "callers st p = Leading i c" "callers st s = Leading j c" for s j
    using finv_one [OF inv, of p i c s j] that by simp
  have set: "result st c = None" if "callers st s = Leading j c" for s j by (rule finv_lead [OF inv that])
  have uniq: "holds (callers st s) = Some (j, c) \<Longrightarrow> s = p" if "callers st p = Leading i c" for s j
    using finv_one [OF inv, of p i c s j] that by simp
  show ?thesis
  proof (cases ev)
    case (Miss s j)
    with assms inv' show ?thesis by (auto simp: call_end_def split: option.splits)
  next
    case (ReadFailed s j)
    with assms inv' show ?thesis by (auto simp: call_end_def)
  next
    case (Loaded s r)
    show ?thesis
    proof (cases "callers st s")
      case (Leading j c')
      then have h: "holds (callers st s) = Some (j, c')" by simp
      have sq: "s \<noteq> q" using assms Leading by (auto simp: call_end_def)
      show ?thesis
      proof (cases "s = p")
        case True
        then have "callers st p = Leading i c" "callers st q = Waiting i c" "j = i" "c' = c"
          using assms Leading by (auto simp: call_end_def)
        with Loaded True inv' lt sq show ?thesis by (simp add: call_end_def)
      next
        case False
        have "c' \<noteq> c"
        proof
          assume "c' = c"
          with h have hc: "holds (callers st s) = Some (j, c)" by simp
          from assms consider "callers st p = Leading i c" | r where "result st c = Some r"
            | "\<forall>s j. holds (callers st s) \<noteq> Some (j, c)" by (auto simp: call_end_def)
          then show False
          proof cases
            case 1
            with uniq [OF _ hc] False show False by blast
          next
            case 2
            with set [of s j] Leading \<open>c' = c\<close> show False by simp
          next
            case 3
            with hc show False by blast
          qed
        qed
        with Loaded Leading False inv' sq assms show ?thesis by (auto simp: call_end_def)
      qed
    next
      case (Bypassing j)
      with Loaded assms inv' show ?thesis unfolding call_end_def by auto
    qed (use Loaded assms in \<open>auto simp: call_end_def\<close>)
  next
    case (Removed s)
    with assms inv' show ?thesis by (cases "callers st s") (auto simp: call_end_def)
  next
    case (LoadPanic s)
    with assms inv' uniq show ?thesis by (cases "callers st s") (auto simp: call_end_def)
  next
    case (Wake s)
    with assms inv' show ?thesis by (cases "callers st s") (auto simp: call_end_def split: option.splits)
  qed
qed

lemma call_end_run:
  assumes "freachable st" and "callers st p = Leading i c" and "callers st q = Waiting i c"
  shows "call_end es p i c q (frun es st)"
proof (induction es rule: rev_induct)
  case Nil
  have inv: "finv st" by (rule finv_reachable [OF assms(1)])
  with assms finv_lead [OF inv assms(2)] finv_wait [OF inv assms(3)] show ?case by (simp add: call_end_def)
next
  case (snoc ev es)
  then show ?case unfolding frun_snoc by (rule call_end_step)
qed

section \<open>A call whose leader is gone\<close>

definition wedged :: "string \<Rightarrow> nat \<Rightarrow> 'r fstate \<Rightarrow> bool" where
  "wedged i c st \<longleftrightarrow> finv st \<and> flight st i = Some c \<and> result st c = None \<and> (\<forall>q j. holds (callers st q) \<noteq> Some (j, c))"

lemma wedged_panic:
  assumes inv: "finv st" and lead: "callers st p = Leading i c"
  shows "wedged i c (fstep (LoadPanic p) st)"
proof -
  have h: "holds (callers st p) = Some (i, c)" using lead by simp
  show ?thesis
    using lead finv_hold [OF inv h] finv_lead [OF inv lead] finv_one [OF inv h] finv_move_step [OF inv, of Unwinding p]
    by (fastforce simp: wedged_def)
qed

lemma wedged_step:
  assumes w: "wedged i c st"
  shows "wedged i c (fstep ev st) \<and> (\<forall>q. callers st q = Waiting i c \<longrightarrow> callers (fstep ev st) q = Waiting i c)"
proof -
  have inv: "finv st" and fl: "flight st i = Some c" and res: "result st c = None" and nl: "\<And>q j. holds (callers st q) \<noteq> Some (j, c)"
    using w by (auto simp: wedged_def)
  have lt: "c < calls st" by (rule finv_flight [OF inv fl])
  have inv': "finv (fstep ev st)" by (rule finv_step [OF inv])
  show ?thesis
  proof (cases ev)
    case (Miss p j)
    with fl nl inv' lt res show ?thesis by (auto simp: wedged_def split: option.splits)
  next
    case (ReadFailed p j)
    with fl nl inv' res show ?thesis by (auto simp: wedged_def)
  next
    case (Loaded p r)
    with fl nl inv' res nl [of p] show ?thesis by (cases "callers st p") (auto simp: wedged_def)
  next
    case (Removed p)
    show ?thesis
    proof (cases "callers st p")
      case (Leaving j c' r)
      with nl [of p] have "c' \<noteq> c" by auto
      with finv_hold [OF inv, of p j c'] Leaving fl have "j \<noteq> i" by auto
      with Removed Leaving fl nl inv' res show ?thesis by (auto simp: wedged_def)
    qed (use Removed w in simp_all)
  next
    case (LoadPanic p)
    with fl nl inv' res show ?thesis by (cases "callers st p") (auto simp: wedged_def)
  next
    case (Wake p)
    with fl nl inv' res show ?thesis by (cases "callers st p") (auto simp: wedged_def split: option.splits)
  qed
qed

lemma wedged_run:
  "wedged i c st \<Longrightarrow> wedged i c (frun es st) \<and> (\<forall>q. callers st q = Waiting i c \<longrightarrow> callers (frun es st) q = Waiting i c)"
proof (induction es arbitrary: st)
  case Nil
  then show ?case by simp
next
  case (Cons ev es)
  with wedged_step [of i c st ev] show ?case by (simp add: frun_Cons del: fstep.simps)
qed

section \<open>Properties\<close>

text \<open>
  C33. One loader per key at a time, as long as Redis can be read. While a caller of a process
  leads the call for an id, whoever else runs a loader of that id is one whose own read of
  Redis failed (it loads for itself, and there may be many); the call is led by this caller
  only; a caller that misses the id waits for that call; and a caller that waits for it is
  answered with what this caller's loader returned, and with nothing else.
\<close>

theorem cache_single_flight:
  assumes lead: "callers (frun es flight_init) p = Leading i c"
  shows "(\<forall>q. loading i (callers (frun es flight_init) q) \<and> q \<noteq> p \<longrightarrow>
      callers (frun es flight_init) q = Bypassing i \<and> ReadFailed q i \<in> set es) \<and>
    (\<forall>q j. callers (frun es flight_init) q = Leading j c \<longrightarrow> q = p) \<and>
    (\<forall>q. callers (frun es flight_init) q = Away \<longrightarrow> callers (frun (es @ [Miss q i]) flight_init) q = Waiting i c) \<and>
    (\<forall>q es' r. callers (frun es flight_init) q = Waiting i c \<and> callers (frun (es @ es') flight_init) q = Answered r \<longrightarrow>
       Loaded p r \<in> set es')"
proof -
  let ?st = "frun es flight_init :: 'a fstate"
  have reach: "freachable ?st" by (rule frun_reachable [OF freachable.init])
  then have inv: "finv ?st" by (rule finv_reachable)
  have h: "holds (callers ?st p) = Some (i, c)" using lead by simp
  have fl: "flight ?st i = Some c" by (rule finv_hold [OF inv h])
  have only: "q = p" if "callers ?st q = Leading i c'" for q c'
  proof -
    have "holds (callers ?st q) = Some (i, c')" using that by simp
    from finv_hold [OF inv this] fl have "c' = c" by simp
    with finv_one [OF inv h, of q i] that show ?thesis by simp
  qed
  have "callers ?st q = Bypassing i \<and> ReadFailed q i \<in> set es" if "loading i (callers ?st q) \<and> q \<noteq> p" for q
    using that only [of q] bypassing_failed [of es q i] by (cases "callers ?st q") auto
  moreover have "q = p" if "callers ?st q = Leading j c" for q j
    using finv_one [OF inv h, of q j] that by simp
  moreover have "Loaded p r \<in> set es'" if "callers ?st q = Waiting i c \<and> callers (frun (es @ es') flight_init) q = Answered r" for q es' r
    using call_end_run [OF reach lead, of q es'] that by (auto simp: call_end_def frun_append)
  ultimately show ?thesis using fl by (auto simp: frun_snoc)
qed

lemma cache_single_flight_witness:
  "callers (frun ([ReadFailed 2 ''7'', Miss 0 ''7''] @ [Miss 1 ''7'']) (flight_init :: nat fstate)) 1 = Waiting ''7'' 0"
proof -
  have "callers (frun [ReadFailed 2 ''7'', Miss 0 ''7''] (flight_init :: nat fstate)) 0 = Leading ''7'' 0" by code_simp
  from cache_single_flight [OF this] have "callers (frun [ReadFailed 2 ''7'', Miss 0 ''7''] (flight_init :: nat fstate)) 1 = Away \<longrightarrow>
      callers (frun ([ReadFailed 2 ''7'', Miss 0 ''7''] @ [Miss 1 ''7'']) (flight_init :: nat fstate)) 1 = Waiting ''7'' 0" by blast
  moreover have "callers (frun [ReadFailed 2 ''7'', Miss 0 ''7''] (flight_init :: nat fstate)) 1 = Away" by code_simp
  ultimately show ?thesis by blast
qed

text \<open>While Redis cannot be read, every caller of one id runs its loader.\<close>

lemma cache_outage_all_load:
  "callers (frun (map (\<lambda>p. ReadFailed p i) [0..<n]) (flight_init :: 'r fstate)) q = (if q < n then Bypassing i else Away)"
  by (induction n) (auto simp: frun_append frun_Cons, simp add: flight_init_def)

text \<open>
  A panic in a loader wedges its key. When the loader of an id panics, its call stays
  in the table without a result for the life of the process: whatever happens afterwards,
  every caller that was waiting for the id waits on, and every caller that misses it later
  waits as well.
\<close>

lemma cache_panic_wedges_key:
  assumes "freachable st" and "callers st p = Leading i c"
  shows "(\<forall>q. callers st q = Waiting i c \<longrightarrow> callers (frun (LoadPanic p # es) st) q = Waiting i c) \<and>
    (\<forall>q es'. callers (frun (LoadPanic p # es) st) q = Away \<longrightarrow>
       callers (frun (LoadPanic p # es @ Miss q i # es') st) q = Waiting i c)"
proof -
  have inv: "finv st" by (rule finv_reachable [OF assms(1)])
  let ?st = "frun (LoadPanic p # es) st"
  have w: "wedged i c (fstep (LoadPanic p) st)" by (rule wedged_panic [OF inv assms(2)])
  have wr: "wedged i c ?st" unfolding frun_Cons using wedged_run [OF w] by blast
  have "callers ?st q = Waiting i c" if "callers st q = Waiting i c" for q
  proof -
    have "callers (fstep (LoadPanic p) st) q = Waiting i c" using that assms(2) by auto
    then show ?thesis unfolding frun_Cons using wedged_run [OF w] by blast
  qed
  moreover have "callers (frun (LoadPanic p # es @ Miss q i # es') st) q = Waiting i c" if "callers ?st q = Away" for q es'
  proof -
    have "callers (fstep (Miss q i) ?st) q = Waiting i c" using that wr by (auto simp: wedged_def)
    moreover have "wedged i c (fstep (Miss q i) ?st)" using wedged_step [OF wr] by blast
    ultimately have "callers (frun es' (fstep (Miss q i) ?st)) q = Waiting i c" using wedged_run by blast
    then show ?thesis by (simp add: frun_def del: fstep.simps)
  qed
  ultimately show ?thesis by blast
qed

lemma cache_panic_wedges_key_witness:
  "callers (frun (LoadPanic 0 # [] @ Miss 1 ''7'' # [Wake 1, Wake 1]) (frun [Miss 0 ''7''] (flight_init :: nat fstate))) 1
     = Waiting ''7'' 0"
proof -
  let ?st = "frun [Miss 0 ''7''] (flight_init :: nat fstate)"
  have r: "freachable ?st" by (rule frun_reachable [OF freachable.init])
  have "callers ?st 0 = Leading ''7'' 0" by code_simp
  from cache_panic_wedges_key [OF r this, of "[]"] have
    "callers (frun (LoadPanic 0 # []) ?st) 1 = Away \<longrightarrow>
      callers (frun (LoadPanic 0 # [] @ Miss 1 ''7'' # [Wake 1, Wake 1]) ?st) 1 = Waiting ''7'' 0" by blast
  moreover have "callers (frun (LoadPanic 0 # []) ?st) 1 = Away" by code_simp
  ultimately show ?thesis by blast
qed

end
