(* ===== verification/Idx.thy ===== *)
theory Idx
  imports Redis
begin

unbundle bit_operations_syntax

text \<open>
  The unique numbers of \<^verbatim>\<open>idx/idx.go\<close>: the layout of an id, the generator (one
  function from its state and the readings of the clock to an id), the instance number
  (leased in Redis, from the environment, or a hash of the host name) and its renewal.
  Milliseconds are since the epoch of the package, 2026-01-01; a reading of the clock is a
  whole number, and the list of readings is what \<^verbatim>\<open>time.Since\<close> answers in turn.
\<close>

section \<open>Layout\<close>

definition timeBits :: nat where "timeBits = 41"
definition lowBits :: nat where "lowBits = 12"
definition totalBits :: nat where "totalBits = timeBits + lowBits"
definition MaxID :: int where "MaxID = 2 ^ totalBits - 1"
definition leaseTTL :: int where "leaseTTL = 90000"
definition DefaultInstanceBits :: int where "DefaultInstanceBits = 5"

text \<open>\<open>id.instance_bits\<close>, 0 when it is not set.\<close>

definition instanceBits :: "int \<Rightarrow> int" where
  "instanceBits b = (if b = 0 then DefaultInstanceBits else b)"

definition idx_validate :: "int \<Rightarrow> bool" where
  "idx_validate b \<longleftrightarrow> \<not> (instanceBits b < 1 \<or> instanceBits b > 10)"

record generator =
  inst :: int
  lastMs :: int
  seq :: int
  iBits :: nat
  sBits :: nat
  unleased :: bool

definition maxInstance :: "generator \<Rightarrow> int" where "maxInstance g = 2 ^ iBits g - 1"
definition maxSeq :: "generator \<Rightarrow> int" where "maxSeq g = 2 ^ sBits g - 1"

definition make_id :: "int \<Rightarrow> generator \<Rightarrow> int" where
  "make_id now g = push_bit lowBits now OR push_bit (sBits g) (inst g) OR seq g"

section \<open>Next\<close>

datatype 'a next_result = ErrNoInstance | NoMoreReadings | Made 'a

text \<open>
  One id. A reading before the last one used is waited out and replaced by it. When the
  sequence of the millisecond is used up, readings are taken until one is later.
\<close>

definition Next :: "generator \<Rightarrow> int list \<Rightarrow> (int \<times> generator \<times> int list) next_result" where
  "Next g clock =
     (if unleased g then ErrNoInstance
      else (case clock of
          [] \<Rightarrow> NoMoreReadings
        | t # rest \<Rightarrow>
            (let now = (if t < lastMs g then lastMs g else t)
             in if now = lastMs g then
                  (let s = seq g + 1
                   in if s > maxSeq g then
                        (case dropWhile (\<lambda>r. r \<le> lastMs g) rest of
                           [] \<Rightarrow> NoMoreReadings
                         | r # rest' \<Rightarrow>
                             (let g' = g\<lparr>seq := 0, lastMs := r\<rparr> in Made (make_id r g', g', rest')))
                      else (let g' = g\<lparr>seq := s\<rparr> in Made (make_id now g', g', rest)))
                else (let g' = g\<lparr>seq := 0, lastMs := now\<rparr> in Made (make_id now g', g', rest)))))"

fun take_ids :: "nat \<Rightarrow> generator \<Rightarrow> int list \<Rightarrow> int list" where
  "take_ids 0 g clock = []"
| "take_ids (Suc n) g clock =
     (case Next g clock of
        Made (i, g', clock') \<Rightarrow> i # take_ids n g' clock'
      | _ \<Rightarrow> [])"

text \<open>What an id says of itself: its millisecond and its instance.\<close>

definition id_ms :: "int \<Rightarrow> int" where "id_ms i = drop_bit lowBits i"

definition id_instance :: "int \<Rightarrow> int \<Rightarrow> int" where
  "id_instance i b = (let k = (if b = 0 then DefaultInstanceBits else b)
     in drop_bit (lowBits - nat k) i AND (push_bit (nat k) 1 - 1))"

section \<open>The instance number\<close>

definition renewScript :: "lua_test \<times> lua_then" where "renewScript = (GetFind, CallPexpire)"
definition idx_releaseScript :: "lua_test \<times> lua_then" where "idx_releaseScript = (GetFind, CallDel)"

definition idx_key :: "string \<Rightarrow> int \<Rightarrow> string" where
  "idx_key service n = ''idx:'' @ service @ '':'' @ show_int n"

datatype idx_error = BadBits int | LeaseStore redis_err | AllLeased | BadEnv string

text \<open>The first number of the list that is free.\<close>

fun lease_from :: "'s exec \<Rightarrow> string \<Rightarrow> string \<Rightarrow> int list \<Rightarrow> 's \<Rightarrow> (idx_error + int) \<times> 's" where
  "lease_from exec service val [] s = (Inl AllLeased, s)"
| "lease_from exec service val (n # ns) s =
     (case r_setnx exec (idx_key service n) val leaseTTL s of
        (Inl e, s') \<Rightarrow> (Inl (LeaseStore e), s')
      | (Inr True, s') \<Rightarrow> (Inr n, s')
      | (Inr False, s') \<Rightarrow> lease_from exec service val ns s')"

definition lease :: "'s exec \<Rightarrow> string \<Rightarrow> string \<Rightarrow> string \<Rightarrow> int \<Rightarrow> 's \<Rightarrow> (idx_error + int) \<times> 's" where
  "lease exec service host token maxi s =
     lease_from exec service (host @ ''/'' @ token) [0..maxi] s"

text \<open>
  One renewal: a lost lease is taken again, or another number is leased; when none is free,
  or Redis does not answer, the generator goes on with the number it has.
\<close>

definition keep_tick :: "'s exec \<Rightarrow> string \<Rightarrow> string \<Rightarrow> string \<Rightarrow> generator \<Rightarrow> 's \<Rightarrow> generator \<times> 's" where
  "keep_tick exec service host token g s =
     (case r_eval exec renewScript (idx_key service (inst g)) token leaseTTL s of
        (Inl e, s1) \<Rightarrow> (g, s1)
      | (Inr n, s1) \<Rightarrow>
          if n \<noteq> 0 then (g, s1)
          else (case r_setnx exec (idx_key service (inst g)) (host @ ''/'' @ token) leaseTTL s1 of
             (Inl e, s2) \<Rightarrow> (g, s2)
           | (Inr True, s2) \<Rightarrow> (g, s2)
           | (Inr False, s2) \<Rightarrow>
               (case lease exec service host token (maxInstance g) s2 of
                  (Inl e, s3) \<Rightarrow> (g, s3)
                | (Inr m, s3) \<Rightarrow> (g\<lparr>inst := m\<rparr>, s3))))"

definition idx_Close :: "'s exec option \<Rightarrow> string \<Rightarrow> string \<Rightarrow> generator \<Rightarrow> 's \<Rightarrow> (redis_err + unit) \<times> 's" where
  "idx_Close rdb service token g s =
     (case rdb of
        None \<Rightarrow> (Inr (), s)
      | Some exec \<Rightarrow>
          (case r_eval exec idx_releaseScript (idx_key service (inst g)) token 0 s of
             (Inl e, s') \<Rightarrow> (Inl e, s')
           | (Inr n, s') \<Rightarrow> (Inr (), s')))"

text \<open>\<^verbatim>\<open>hash/fnv\<close>: FNV-1a of 32 bits.\<close>

definition fnv32a :: "string \<Rightarrow> 32 word" where
  "fnv32a s = fold (\<lambda>c h. (h XOR word_of_nat (of_char c)) * 16777619) s 2166136261"

definition new_generator :: "int \<Rightarrow> generator" where
  "new_generator b = \<lparr>inst = 0, lastMs = 0, seq = 0, iBits = nat (instanceBits b),
     sBits = lowBits - nat (instanceBits b), unleased = False\<rparr>"

definition idx_New ::
  "'s exec option \<Rightarrow> string \<Rightarrow> int \<Rightarrow> bool \<Rightarrow> string \<Rightarrow> string \<Rightarrow> string \<Rightarrow> 's \<Rightarrow> (idx_error + generator) \<times> 's" where
  "idx_New rdb service b isLocal env host token s =
     (if \<not> idx_validate b then (Inl (BadBits b), s)
      else (let g = new_generator b
            in case rdb of
                 Some exec \<Rightarrow>
                   (case lease exec service host token (maxInstance g) s of
                      (Inl e, s') \<Rightarrow> (Inl e, s')
                    | (Inr n, s') \<Rightarrow> (Inr (g\<lparr>inst := n\<rparr>), s'))
               | None \<Rightarrow>
                   if env \<noteq> [] then
                     (case parse_int64 env of
                        None \<Rightarrow> (Inl (BadEnv env), s)
                      | Some n \<Rightarrow> if n < 0 \<or> n > maxInstance g then (Inl (BadEnv env), s)
                                 else (Inr (g\<lparr>inst := n\<rparr>), s))
                   else if \<not> isLocal then (Inr (g\<lparr>unleased := True\<rparr>), s)
                   else (Inr (g\<lparr>inst := uint (fnv32a host) AND maxInstance g\<rparr>), s)))"

section \<open>Lemmas on the layout\<close>

text \<open>A generator as \<open>New\<close> makes it: the split adds up and the instance fits.\<close>

definition gen_ok :: "generator \<Rightarrow> bool" where
  "gen_ok g \<longleftrightarrow> iBits g + sBits g = lowBits \<and> 0 \<le> inst g \<and> inst g \<le> maxInstance g \<and>
     0 \<le> seq g \<and> seq g \<le> maxSeq g \<and> 0 \<le> lastMs g"

lemma or_disjoint_int:
  fixes a b :: int
  assumes "0 \<le> b" and "b < 2 ^ n"
  shows "push_bit n a OR b = a * 2 ^ n + b"
proof -
  have "take_bit n b = b" using assms by (simp add: take_bit_int_eq_self)
  moreover have "bit (take_bit n b) k \<Longrightarrow> k < n" for k by (simp add: bit_take_bit_iff)
  ultimately have "\<not> bit (push_bit n a) k \<or> \<not> bit b k" for k
    by (metis bit_push_bit_iff not_le)
  then have "push_bit n a + b = push_bit n a OR b" by (simp add: disjunctive_add)
  then show ?thesis by (simp add: push_bit_eq_mult)
qed

lemma make_id_eq:
  assumes "gen_ok g"
  shows "make_id now g = now * 2 ^ lowBits + (inst g * 2 ^ sBits g + seq g)"
    and "0 \<le> inst g * 2 ^ sBits g + seq g" and "inst g * 2 ^ sBits g + seq g < 2 ^ lowBits"
proof -
  have s: "0 \<le> seq g" "seq g < 2 ^ sBits g" and i: "0 \<le> inst g" "inst g < 2 ^ iBits g"
    using assms by (auto simp: gen_ok_def maxSeq_def maxInstance_def)
  have low: "push_bit (sBits g) (inst g) OR seq g = inst g * 2 ^ sBits g + seq g"
    by (rule or_disjoint_int [OF s])
  show ge: "0 \<le> inst g * 2 ^ sBits g + seq g" using s i by simp
  have "inst g * 2 ^ sBits g + seq g < (inst g + 1) * 2 ^ sBits g" using s by (simp add: algebra_simps)
  also have "\<dots> \<le> 2 ^ iBits g * 2 ^ sBits g" using i by (intro mult_right_mono) simp_all
  also have "\<dots> = (2::int) ^ lowBits" using assms by (simp add: gen_ok_def flip: power_add)
  finally show lt: "inst g * 2 ^ sBits g + seq g < 2 ^ lowBits" .
  show "make_id now g = now * 2 ^ lowBits + (inst g * 2 ^ sBits g + seq g)"
    using or_disjoint_int [OF ge lt, of now] low by (simp add: make_id_def or.assoc)
qed

lemma id_ms_make:
  assumes "gen_ok g"
  shows "id_ms (make_id now g) = now"
  using make_id_eq [OF assms] by (simp add: id_ms_def drop_bit_eq_div)

lemma id_instance_make:
  assumes "gen_ok g" and "0 < iBits g"
  shows "id_instance (make_id now g) (int (iBits g)) = inst g"
proof -
  have s: "0 \<le> seq g" "seq g < 2 ^ sBits g" and i: "0 \<le> inst g" "inst g < 2 ^ iBits g"
    using assms by (auto simp: gen_ok_def maxSeq_def maxInstance_def)
  have bits: "lowBits - iBits g = sBits g" "(2::int) ^ lowBits = 2 ^ iBits g * 2 ^ sBits g"
    using assms(1) by (auto simp: gen_ok_def simp flip: power_add)
  have "make_id now g = (now * 2 ^ iBits g + inst g) * 2 ^ sBits g + seq g"
    using make_id_eq(1) [OF assms(1), of now] bits(2) by (simp add: algebra_simps)
  then have "drop_bit (sBits g) (make_id now g) = now * 2 ^ iBits g + inst g"
    using s by (simp add: drop_bit_eq_div)
  moreover have "(now * 2 ^ iBits g + inst g) AND (push_bit (iBits g) 1 - 1) = inst g"
    using i by (simp add: push_bit_eq_mult flip: mask_eq_exp_minus_1 take_bit_eq_mask)
      (simp add: take_bit_eq_mod)
  ultimately show ?thesis using assms(2) bits(1) by (simp add: id_instance_def Let_def)
qed

section \<open>Lemmas on Next\<close>

text \<open>Later in time, or later in the same millisecond.\<close>

definition after :: "generator \<Rightarrow> generator \<Rightarrow> bool" where
  "after g' g \<longleftrightarrow> lastMs g < lastMs g' \<or> (lastMs g = lastMs g' \<and> seq g < seq g')"

lemma Next_ok:
  assumes ok: "gen_ok g" and made: "Next g clock = Made (i, g', clock')"
  shows "gen_ok g' \<and> inst g' = inst g \<and> iBits g' = iBits g \<and> sBits g' = sBits g \<and>
    i = make_id (lastMs g') g' \<and> after g' g \<and> set clock' \<subseteq> set clock \<and>
    (lastMs g' = lastMs g \<or> lastMs g' \<in> set clock)"
proof -
  obtain t rest where c: "clock = t # rest" using made by (cases clock) (auto simp: Next_def split: if_splits)
  define now where "now = (if t < lastMs g then lastMs g else t)"
  have now: "lastMs g \<le> now" by (simp add: now_def)
  consider (later) "now \<noteq> lastMs g" | (same) "now = lastMs g" "seq g + 1 \<le> maxSeq g" | (full) "now = lastMs g" "seq g + 1 > maxSeq g"
    by linarith
  then show ?thesis
  proof cases
    case later
    then have "g' = g\<lparr>seq := 0, lastMs := now\<rparr>" "i = make_id now g'" "clock' = rest"
      using made c by (auto simp: Next_def Let_def now_def split: if_splits)
    with later now ok c show ?thesis
      by (auto simp: gen_ok_def maxInstance_def maxSeq_def after_def now_def split: if_splits)
  next
    case same
    then have "g' = g\<lparr>seq := seq g + 1\<rparr>" "i = make_id now g'" "clock' = rest"
      using made c by (auto simp: Next_def Let_def now_def split: if_splits)
    with same ok c show ?thesis by (auto simp: gen_ok_def maxInstance_def maxSeq_def after_def)
  next
    case full
    then obtain r where d: "dropWhile (\<lambda>r. r \<le> lastMs g) rest = r # clock'"
      and g': "g' = g\<lparr>seq := 0, lastMs := r\<rparr>" "i = make_id r g'"
      using made c by (auto simp: Next_def Let_def now_def split: if_splits list.splits)
    have "lastMs g < r" using hd_dropWhile [of "\<lambda>r. r \<le> lastMs g" rest] d by auto
    moreover have "set (r # clock') \<subseteq> set rest" using d set_dropWhileD by (metis subsetI)
    ultimately show ?thesis using g' ok c by (auto simp: gen_ok_def maxInstance_def maxSeq_def after_def)
  qed
qed

lemma after_less:
  assumes "gen_ok g" and "gen_ok g'" and "inst g' = inst g" and "sBits g' = sBits g" and "after g' g"
  shows "make_id (lastMs g) g < make_id (lastMs g') g'"
proof (cases "lastMs g < lastMs g'")
  case True
  then have "(lastMs g + 1) * 2 ^ lowBits \<le> lastMs g' * 2 ^ lowBits" by (intro mult_right_mono) simp_all
  with make_id_eq(1) [OF assms(1), of "lastMs g"] make_id_eq(1) [OF assms(2), of "lastMs g'"]
    make_id_eq(2,3) [OF assms(1)] make_id_eq(2,3) [OF assms(2)]
  show ?thesis by (simp add: algebra_simps)
next
  case False
  with assms show ?thesis by (simp add: after_def make_id_eq(1))
qed

lemma take_ids_bounds:
  assumes "gen_ok g" and "i \<in> set (take_ids n g clock)"
  shows "make_id (lastMs g) g < i \<and> id_ms i \<in> insert (lastMs g) (set clock) \<and> 0 \<le> id_ms i \<and>
    (0 < iBits g \<longrightarrow> id_instance i (int (iBits g)) = inst g) \<and>
    i < (id_ms i + 1) * 2 ^ lowBits"
  using assms
proof (induction n arbitrary: g clock)
  case 0
  then show ?case by simp
next
  case (Suc n)
  from Suc.prems(2) obtain j g' clock' where m: "Next g clock = Made (j, g', clock')"
    and i: "i = j \<or> i \<in> set (take_ids n g' clock')"
    by (cases "Next g clock") (auto split: prod.splits)
  from Next_ok [OF Suc.prems(1) m] have ok: "gen_ok g'" and same: "inst g' = inst g" "iBits g' = iBits g" "sBits g' = sBits g"
    and j: "j = make_id (lastMs g') g'" and aft: "after g' g" and cl: "set clock' \<subseteq> set clock"
    and ms: "lastMs g' = lastMs g \<or> lastMs g' \<in> set clock" by blast+
  have less: "make_id (lastMs g) g < j" using after_less [OF Suc.prems(1) ok same(1,3) aft] j by simp
  from i show ?case
  proof
    assume ij: "i = j"
    have "id_ms i = lastMs g'" using ij j id_ms_make [OF ok] by simp
    moreover have "0 < iBits g \<longrightarrow> id_instance i (int (iBits g)) = inst g"
      using ij j same id_instance_make [OF ok, of "lastMs g'"] by simp
    moreover have "i < (lastMs g' + 1) * 2 ^ lowBits"
      using ij j make_id_eq(1) [OF ok, of "lastMs g'"] make_id_eq(3) [OF ok] by (simp add: algebra_simps)
    ultimately show ?thesis using ij less ms ok by (simp add: gen_ok_def)
  next
    assume "i \<in> set (take_ids n g' clock')"
    from Suc.IH [OF ok this] j less cl ms same show ?thesis by auto
  qed
qed

text \<open>
  A renewal that moves the generator to another number can take the order away: with the
  clock standing still, an id made after the move is smaller than one made before.
\<close>

lemma idx_move_goes_back:
  "case Next (new_generator 5\<lparr>inst := 9\<rparr>) [1000] of
     Made (i, g, _) \<Rightarrow> (case Next (g\<lparr>inst := 2\<rparr>) [1000] of Made (j, _, _) \<Rightarrow> j < i | _ \<Rightarrow> False)
   | _ \<Rightarrow> False"
  by code_simp

section \<open>Properties\<close>

text \<open>
  C8. Ids only grow. However the clock reads, forwards, standing still or back, the ids a
  generator makes in a row (with its instance number unchanged) are strictly increasing, so
  that no two are the same; and as long as the readings stay within 41 bits, every id is
  between 0 and 2^53 - 1, exact in a JavaScript number.
\<close>

theorem idx_strictly_increasing:
  assumes "gen_ok g"
  shows "sorted_wrt (<) (take_ids n g clock) \<and>
    (lastMs g < 2 ^ timeBits \<and> (\<forall>t \<in> set clock. t < 2 ^ timeBits) \<longrightarrow>
       (\<forall>i \<in> set (take_ids n g clock). 0 \<le> i \<and> i \<le> MaxID))"
proof (intro conjI impI ballI)
  show "sorted_wrt (<) (take_ids n g clock)"
    using assms
  proof (induction n arbitrary: g clock)
    case 0
    then show ?case by simp
  next
    case (Suc n)
    show ?case
    proof (cases "Next g clock")
      case (Made x)
      obtain i g' clock' where x: "x = (i, g', clock')" by (cases x)
      with Made have m: "Next g clock = Made (i, g', clock')" by simp
      from Next_ok [OF Suc.prems m] have "gen_ok g'" "i = make_id (lastMs g') g'" by blast+
      with Suc.IH [of g' clock'] take_ids_bounds [of g'] m show ?thesis by simp
    qed simp_all
  qed
next
  fix i assume bound: "lastMs g < 2 ^ timeBits \<and> (\<forall>t \<in> set clock. t < 2 ^ timeBits)"
    and i: "i \<in> set (take_ids n g clock)"
  note b = take_ids_bounds [OF assms i]
  from b bound have ms: "0 \<le> id_ms i" "id_ms i + 1 \<le> 2 ^ timeBits" by auto
  have "(id_ms i + 1) * 2 ^ lowBits \<le> 2 ^ timeBits * 2 ^ lowBits" using ms(2) by (intro mult_right_mono) simp_all
  with b have "i < 2 ^ timeBits * 2 ^ lowBits" by linarith
  then show "i \<le> MaxID" by (simp add: MaxID_def totalBits_def power_add)
  have "0 \<le> make_id (lastMs g) g"
    using make_id_eq(1) [OF assms, of "lastMs g"] make_id_eq(2) [OF assms] assms by (simp add: gen_ok_def)
  with b show "0 \<le> i" by simp
qed

lemma idx_strictly_increasing_witness:
  "take_ids 4 (new_generator 10) [5, 3, 5, 5, 9] = [20480, 20481, 20482, 20483] \<and>
   sorted_wrt (<) (take_ids 4 (new_generator 10) [5, 3, 5, 5, 9])"
proof -
  have "gen_ok (new_generator 10)" by code_simp
  from idx_strictly_increasing [OF this, of 4 "[5, 3, 5, 5, 9]"]
  have "sorted_wrt (<) (take_ids 4 (new_generator 10) [5, 3, 5, 5, 9])" by simp
  moreover have "take_ids 4 (new_generator 10) [5, 3, 5, 5, 9] = [20480, 20481, 20482, 20483]" by code_simp
  ultimately show ?thesis by blast
qed

text \<open>
  Ids say where and when they were made, and never meet. Reading back an id gives the
  instance number of its generator and a millisecond its clock read; so two generators of
  one split with different instance numbers never make the same id, whatever their clocks.
\<close>

lemma idx_instances_disjoint:
  assumes "gen_ok g" and "gen_ok h" and "0 < iBits g" and "iBits h = iBits g"
  shows "(\<forall>i \<in> set (take_ids n g clock). id_instance i (int (iBits g)) = inst g \<and> id_ms i \<in> insert (lastMs g) (set clock)) \<and>
    (inst g \<noteq> inst h \<longrightarrow> set (take_ids n g clock) \<inter> set (take_ids m h clock') = {})"
  using take_ids_bounds [OF assms(1)] take_ids_bounds [OF assms(2)] assms(3,4) by (metis disjoint_iff)

lemma idx_instances_disjoint_witness:
  "set (take_ids 3 (new_generator 5\<lparr>inst := 1\<rparr>) [5, 5, 5]) \<inter> set (take_ids 3 (new_generator 5\<lparr>inst := 2\<rparr>) [5, 5, 5]) = {}"
proof -
  have "gen_ok (new_generator 5\<lparr>inst := 1\<rparr>)" "gen_ok (new_generator 5\<lparr>inst := 2\<rparr>)"
    "0 < iBits (new_generator 5\<lparr>inst := 1\<rparr>)" "iBits (new_generator 5\<lparr>inst := 2\<rparr>) = iBits (new_generator 5\<lparr>inst := 1\<rparr>)"
    by code_simp+
  from idx_instances_disjoint [OF this] show ?thesis by simp
qed

end
