(* ===== verification/Money.thy ===== *)
theory Money
  imports Complex_Main Prelude
begin

text \<open>
  Money of \<^verbatim>\<open>moneyx/money.go\<close>: a decimal amount and a currency, the scale of a
  currency, parsing, arithmetic, rounding, splitting and allocating. A decimal is its value,
  a rational number. The decimal library (\<^verbatim>\<open>shopspring/decimal\<close>) is not part of the
  repository: its functions are the record \<open>decimal_lib\<close>, argument of the operations that
  use them, and what it documents is the locale \<open>decimals\<close>, interpreted at the end of the
  lemmas on functions that compute.
\<close>

section \<open>The decimal library\<close>

text \<open>
  \<open>d_parse\<close> gives the value and the exponent of a numeral; addition, subtraction,
  multiplication and comparison are exact and written on the values.
\<close>

record decimal_lib =
  d_div :: "rat \<Rightarrow> rat \<Rightarrow> rat"
  d_truncate :: "rat \<Rightarrow> int \<Rightarrow> rat"
  d_round :: "rat \<Rightarrow> int \<Rightarrow> rat"
  d_round_down :: "rat \<Rightarrow> int \<Rightarrow> rat"
  d_round_up :: "rat \<Rightarrow> int \<Rightarrow> rat"
  d_round_bank :: "rat \<Rightarrow> int \<Rightarrow> rat"
  d_parse :: "string \<Rightarrow> (rat \<times> int) option"
  d_fixed :: "rat \<Rightarrow> int \<Rightarrow> string"

text \<open>\<open>x\<close> has at most \<open>s\<close> decimals.\<close>

definition on_grid :: "nat \<Rightarrow> rat \<Rightarrow> bool" where
  "on_grid s x \<longleftrightarrow> of_int \<lfloor>x * 10 ^ s\<rfloor> = x * 10 ^ s"

section \<open>Currencies and money\<close>

type_synonym scale_table = "string \<Rightarrow> int option"

definition iso_scales :: scale_table where
  "iso_scales = map_of (
     map (\<lambda>c. (c, 0)) [''BIF'', ''CLP'', ''DJF'', ''GNF'', ''ISK'', ''JPY'', ''KMF'', ''KRW'', ''PYG'',
       ''RWF'', ''UGX'', ''UYI'', ''VND'', ''VUV'', ''XAF'', ''XOF'', ''XPF''] @
     map (\<lambda>c. (c, 3)) [''BHD'', ''IQD'', ''JOD'', ''KWD'', ''LYD'', ''OMR'', ''TND''] @
     [(''CLF'', 4), (''UYW'', 4), (''BTC'', 8), (''ETH'', 8), (''USDT'', 6), (''USDC'', 6)])"

definition Scale :: "scale_table \<Rightarrow> string \<Rightarrow> int" where
  "Scale sc c = (case sc (to_upper c) of Some s \<Rightarrow> s | None \<Rightarrow> 2)"

definition RegisterCurrency :: "string \<Rightarrow> int \<Rightarrow> scale_table \<Rightarrow> scale_table" where
  "RegisterCurrency code s sc = sc(to_upper code \<mapsto> s)"

record money =
  Amount :: rat
  Currency :: string

datatype rounding = RoundHalfUp | RoundDown | RoundUp | RoundHalfEven

datatype money_error = ErrCurrencyMismatch string string | ErrScale string | ErrBadAmount string | ErrCurrency string
  | ZeroParts | NegativeWeight | ZeroWeights

definition normCurrency :: "string \<Rightarrow> money_error + string" where
  "normCurrency c = (let c = to_upper (trim_space c) in
     if length c < 3 \<or> length c > 8 then Inl (ErrCurrency c) else Inr c)"

definition round_with :: "decimal_lib \<Rightarrow> rat \<Rightarrow> int \<Rightarrow> rounding \<Rightarrow> rat" where
  "round_with L d s mode =
     (case mode of
        RoundDown \<Rightarrow> d_round_down L d s
      | RoundUp \<Rightarrow> d_round_up L d s
      | RoundHalfEven \<Rightarrow> d_round_bank L d s
      | RoundHalfUp \<Rightarrow> d_round L d s)"

definition FromDecimal :: "decimal_lib \<Rightarrow> scale_table \<Rightarrow> rat \<Rightarrow> string \<Rightarrow> rounding \<Rightarrow> money_error + money" where
  "FromDecimal L sc d cur mode =
     (case normCurrency cur of
        Inl e \<Rightarrow> Inl e
      | Inr c \<Rightarrow> Inr \<lparr>Amount = round_with L d (Scale sc c) mode, Currency = c\<rparr>)"

definition Parse :: "decimal_lib \<Rightarrow> scale_table \<Rightarrow> string \<Rightarrow> string \<Rightarrow> money_error + money" where
  "Parse L sc amount cur =
     (case normCurrency cur of
        Inl e \<Rightarrow> Inl e
      | Inr c \<Rightarrow>
          (case d_parse L (trim_space amount) of
             None \<Rightarrow> Inl (ErrBadAmount amount)
           | Some (d, ex) \<Rightarrow>
               if - ex > Scale sc c \<and> d \<noteq> d_truncate L d (Scale sc c) then Inl (ErrScale amount)
               else Inr \<lparr>Amount = d_truncate L d (Scale sc c), Currency = c\<rparr>))"

definition Zero :: "string \<Rightarrow> money" where
  "Zero cur = \<lparr>Amount = 0, Currency = (case normCurrency cur of Inl _ \<Rightarrow> [] | Inr c \<Rightarrow> c)\<rparr>"

text \<open>\<^verbatim>\<open>Of\<close>: an IDL value is its two strings, or nil.\<close>

definition Of :: "decimal_lib \<Rightarrow> scale_table \<Rightarrow> (string \<times> string) option \<Rightarrow> money_error + money" where
  "Of L sc m = (case m of None \<Rightarrow> Inl (ErrBadAmount ''money is required'') | Some (a, c) \<Rightarrow> Parse L sc a c)"

definition String :: "decimal_lib \<Rightarrow> scale_table \<Rightarrow> money \<Rightarrow> string" where
  "String L sc m = d_fixed L (Amount m) (Scale sc (Currency m))"

definition Parts :: "decimal_lib \<Rightarrow> scale_table \<Rightarrow> money \<Rightarrow> string \<times> string" where
  "Parts L sc m = (String L sc m, Currency m)"

definition Display :: "decimal_lib \<Rightarrow> scale_table \<Rightarrow> money \<Rightarrow> string" where
  "Display L sc m = String L sc m @ '' '' @ Currency m"

definition IsZero :: "money \<Rightarrow> bool" where "IsZero m \<longleftrightarrow> Amount m = 0"
definition IsNegative :: "money \<Rightarrow> bool" where "IsNegative m \<longleftrightarrow> Amount m < 0"
definition IsPositive :: "money \<Rightarrow> bool" where "IsPositive m \<longleftrightarrow> Amount m > 0"
definition Neg :: "money \<Rightarrow> money" where "Neg m = m\<lparr>Amount := - Amount m\<rparr>"
definition Abs :: "money \<Rightarrow> money" where "Abs m = m\<lparr>Amount := \<bar>Amount m\<bar>\<rparr>"

definition same :: "money \<Rightarrow> money \<Rightarrow> money_error option" where
  "same m n = (if Currency m \<noteq> Currency n then Some (ErrCurrencyMismatch (Currency m) (Currency n)) else None)"

definition Add :: "money \<Rightarrow> money \<Rightarrow> money_error + money" where
  "Add m n = (case same m n of Some e \<Rightarrow> Inl e | None \<Rightarrow> Inr \<lparr>Amount = Amount m + Amount n, Currency = Currency m\<rparr>)"

definition Sub :: "money \<Rightarrow> money \<Rightarrow> money_error + money" where
  "Sub m n = (case same m n of Some e \<Rightarrow> Inl e | None \<Rightarrow> Inr \<lparr>Amount = Amount m - Amount n, Currency = Currency m\<rparr>)"

definition Equal :: "money \<Rightarrow> money \<Rightarrow> bool" where
  "Equal m n \<longleftrightarrow> Currency m = Currency n \<and> Amount m = Amount n"

definition Cmp :: "money \<Rightarrow> money \<Rightarrow> money_error + int" where
  "Cmp m n = (case same m n of Some e \<Rightarrow> Inl e
     | None \<Rightarrow> Inr (if Amount m < Amount n then -1 else if Amount m > Amount n then 1 else 0))"

definition Mul :: "decimal_lib \<Rightarrow> scale_table \<Rightarrow> money \<Rightarrow> rat \<Rightarrow> rounding \<Rightarrow> money" where
  "Mul L sc m rate mode = m\<lparr>Amount := round_with L (Amount m * rate) (Scale sc (Currency m)) mode\<rparr>"

definition MulString :: "decimal_lib \<Rightarrow> scale_table \<Rightarrow> money \<Rightarrow> string \<Rightarrow> rounding \<Rightarrow> money_error + money" where
  "MulString L sc m rate mode =
     (case d_parse L (trim_space rate) of
        None \<Rightarrow> Inl (ErrBadAmount rate)
      | Some (r, _) \<Rightarrow> Inr (Mul L sc m r mode))"

section \<open>Split and Allocate\<close>

text \<open>\<^verbatim>\<open>decimal.New(1, -scale)\<close>: the smallest unit.\<close>

definition unit_of :: "int \<Rightarrow> rat" where
  "unit_of s = (if s \<ge> 0 then 1 / 10 ^ nat s else 10 ^ nat (- s))"

text \<open>
  The end of both: the remainder is handed out a unit at a time to the first parts, as many
  as \<^verbatim>\<open>IntPart\<close> (the whole part, towards zero) says but at most one each.
\<close>

definition int_part :: "rat \<Rightarrow> int" where
  "int_part x = (if x < 0 then - \<lfloor>- x\<rfloor> else \<lfloor>x\<rfloor>)"

definition hand_out :: "decimal_lib \<Rightarrow> rat \<Rightarrow> rat \<Rightarrow> rat list \<Rightarrow> rat list" where
  "hand_out L unit rem out =
     (let step = (if rem < 0 then - unit else unit);
          units = int_part (d_div L \<bar>rem\<bar> unit);
          k = nat (min units (int (length out)))
      in map (\<lambda>x. x + step) (take k out) @ drop k out)"

definition Split :: "decimal_lib \<Rightarrow> scale_table \<Rightarrow> money \<Rightarrow> int \<Rightarrow> money_error + money list" where
  "Split L sc m n =
     (if n \<le> 0 then Inl ZeroParts
      else let s = Scale sc (Currency m);
               base = d_truncate L (d_div L (Amount m) (of_int n)) s;
               rem = Amount m - base * of_int n
           in Inr (map (\<lambda>x. \<lparr>Amount = x, Currency = Currency m\<rparr>)
                (hand_out L (unit_of s) rem (replicate (nat n) base))))"

text \<open>The weights and their total are \<^verbatim>\<open>int64\<close>: the total wraps.\<close>

definition wrap64 :: "int \<Rightarrow> int" where
  "wrap64 x = (x + 2 ^ 63) mod 2 ^ 64 - 2 ^ 63"

fun total_weights :: "int \<Rightarrow> int list \<Rightarrow> int option" where
  "total_weights acc [] = Some acc"
| "total_weights acc (w # ws) = (if w < 0 then None else total_weights (wrap64 (acc + w)) ws)"

definition Allocate :: "decimal_lib \<Rightarrow> scale_table \<Rightarrow> money \<Rightarrow> int list \<Rightarrow> money_error + money list" where
  "Allocate L sc m ws =
     (case total_weights 0 ws of
        None \<Rightarrow> Inl NegativeWeight
      | Some tot \<Rightarrow>
          if tot = 0 then Inl ZeroWeights
          else let s = Scale sc (Currency m);
                   out = map (\<lambda>w. d_truncate L (d_div L (Amount m * of_int w) (of_int tot)) s) ws;
                   rem = Amount m - sum_list out
               in Inr (map (\<lambda>x. \<lparr>Amount = x, Currency = Currency m\<rparr>) (hand_out L (unit_of s) rem out)))"

section \<open>What the library documents\<close>

text \<open>
  \<^verbatim>\<open>Div\<close> gives the nearest number of sixteen decimals, \<^verbatim>\<open>Truncate\<close> drops the
  decimals beyond the scale, the roundings give a number of the scale, and a number of the
  scale printed with \<^verbatim>\<open>StringFixed\<close> reads back as itself.
\<close>

locale decimals =
  fixes L :: decimal_lib
  assumes div_grid: "b \<noteq> 0 \<Longrightarrow> on_grid 16 (d_div L a b)"
    and div_near: "b \<noteq> 0 \<Longrightarrow> \<bar>d_div L a b - a / b\<bar> \<le> 1 / (2 * 10 ^ 16)"
    and truncate_law: "0 \<le> s \<Longrightarrow> d_truncate L x s = sgn x * (of_int \<lfloor>\<bar>x\<bar> * 10 ^ nat s\<rfloor> / 10 ^ nat s)"
    and fixed_law: "0 \<le> s \<Longrightarrow> on_grid (nat s) x \<Longrightarrow> d_parse L (trim_space (d_fixed L x s)) = Some (x, - s)"

section \<open>Numbers of a scale\<close>

lemma on_gridI: "x * 10 ^ s = of_int k \<Longrightarrow> on_grid s x"
  by (simp add: on_grid_def)

lemma on_gridE:
  assumes "on_grid s x"
  obtains k where "x = of_int k / 10 ^ s"
proof (rule that)
  have "x * 10 ^ s = of_int \<lfloor>x * 10 ^ s\<rfloor>" by (rule assms [unfolded on_grid_def, symmetric])
  then show "x = of_int \<lfloor>x * 10 ^ s\<rfloor> / 10 ^ s" by (simp add: field_simps)
qed

lemma on_grid_mono:
  assumes "on_grid s x" and "s \<le> t"
  shows "on_grid t x"
proof -
  obtain k where "x = of_int k / 10 ^ s" using assms(1) by (rule on_gridE)
  moreover obtain u where "t = s + u" using assms(2) le_Suc_ex by blast
  ultimately have "x * 10 ^ t = of_int (k * 10 ^ u)"
    by (simp add: power_add)
  then show ?thesis by (rule on_gridI)
qed

lemma on_grid_diff: "on_grid s x \<Longrightarrow> on_grid s y \<Longrightarrow> on_grid s (x - y)"
  by (elim on_gridE) (simp add: on_grid_def diff_divide_distrib [symmetric] flip: of_int_diff)

lemma on_grid_minus: "on_grid s x \<Longrightarrow> on_grid s (- x)"
  by (elim on_gridE) (simp add: on_grid_def flip: of_int_minus)

lemma on_grid_mult_int: "on_grid s x \<Longrightarrow> on_grid s (x * of_int n)"
  by (elim on_gridE) (simp add: on_grid_def flip: of_int_mult)

lemma on_grid_sum: "(\<And>x. x \<in> set xs \<Longrightarrow> on_grid s x) \<Longrightarrow> on_grid s (sum_list xs)"
proof (induction xs)
  case Nil
  then show ?case by (simp add: on_grid_def)
next
  case (Cons x xs)
  then have "on_grid s (x - (- sum_list xs))" by (intro on_grid_diff on_grid_minus) auto
  then show ?case by simp
qed

text \<open>Two numbers of a scale less than a unit apart are equal.\<close>

lemma grid_eq:
  assumes "on_grid s x" and "on_grid s y" and "\<bar>x - y\<bar> < 1 / 10 ^ s"
  shows "x = y"
proof -
  obtain j k where x: "x = of_int j / 10 ^ s" and y: "y = of_int k / 10 ^ s"
    using assms(1,2) by (elim on_gridE)
  have "\<bar>x - y\<bar> * 10 ^ s < 1" using assms(3) by (simp add: field_simps)
  also have "\<bar>x - y\<bar> * 10 ^ s = \<bar>(x - y) * 10 ^ s\<bar>" by (simp add: abs_mult)
  also have "(x - y) * 10 ^ s = of_int (j - k)" by (simp add: x y field_simps)
  finally have "\<bar>j - k\<bar> < 1" by (simp flip: of_int_abs of_int_less_1_iff)
  then show ?thesis by (simp add: x y)
qed

context decimals
begin

text \<open>A division whose quotient has at most sixteen decimals is exact.\<close>

lemma div_exact:
  assumes "b \<noteq> 0" and "on_grid 16 (a / b)"
  shows "d_div L a b = a / b"
proof (rule grid_eq)
  show "on_grid 16 (d_div L a b)" by (rule div_grid [OF assms(1)])
  have "\<bar>d_div L a b - a / b\<bar> \<le> 1 / (2 * 10 ^ 16)" by (rule div_near [OF assms(1)])
  also have "\<dots> < 1 / 10 ^ 16" by simp
  finally show "\<bar>d_div L a b - a / b\<bar> < 1 / 10 ^ 16" .
qed (rule assms(2))

text \<open>Division does not pass a number of a scale of at most sixteen.\<close>

lemma div_ge:
  assumes "b \<noteq> 0" and "on_grid 16 f" and "f \<le> a / b"
  shows "f \<le> d_div L a b"
proof (rule ccontr)
  assume less: "\<not> f \<le> d_div L a b"
  have "\<bar>f - d_div L a b\<bar> < 1 / 10 ^ 16"
    using less assms(3) div_near [OF assms(1), of a] by linarith
  then have "f = d_div L a b" by (rule grid_eq [OF assms(2) div_grid [OF assms(1)]])
  with less show False by simp
qed

lemma div_le:
  assumes "b \<noteq> 0" and "on_grid 16 f" and "a / b \<le> f"
  shows "d_div L a b \<le> f"
proof (rule ccontr)
  assume less: "\<not> d_div L a b \<le> f"
  have "\<bar>f - d_div L a b\<bar> < 1 / 10 ^ 16"
    using less assms(3) div_near [OF assms(1), of a] by linarith
  then have "f = d_div L a b" by (rule grid_eq [OF assms(2) div_grid [OF assms(1)]])
  with less show False by simp
qed

lemma truncate_grid: "0 \<le> s \<Longrightarrow> on_grid (nat s) (d_truncate L x s)"
  by (cases x "0::rat" rule: linorder_cases) (simp_all add: truncate_law on_grid_def flip: of_int_minus)

lemma truncate_nonneg:
  assumes "0 \<le> s" and "0 \<le> x"
  shows "0 \<le> d_truncate L x s \<and> d_truncate L x s \<le> x \<and> x < d_truncate L x s + 1 / 10 ^ nat s"
proof -
  have "d_truncate L x s = of_int \<lfloor>x * 10 ^ nat s\<rfloor> / 10 ^ nat s"
    using assms by (cases "x = 0") (simp_all add: truncate_law)
  moreover have "of_int \<lfloor>x * 10 ^ nat s\<rfloor> \<le> x * 10 ^ nat s" "x * 10 ^ nat s < of_int \<lfloor>x * 10 ^ nat s\<rfloor> + 1"
    by (rule of_int_floor_le, rule floor_correct [THEN conjunct2, simplified])
  moreover have "0 \<le> \<lfloor>x * 10 ^ nat s\<rfloor>" using assms by simp
  ultimately show ?thesis by (simp add: pos_divide_le_eq pos_less_divide_eq add_divide_distrib [symmetric])
qed

lemma truncate_neg: "0 \<le> s \<Longrightarrow> d_truncate L (- x) s = - d_truncate L x s"
  by (simp add: truncate_law sgn_minus)

end

section \<open>Shares\<close>

lemma on_grid_int: "on_grid s (of_int k)"
  by (rule on_gridI [where k = "k * 10 ^ s"]) simp

lemma grid_ge:
  assumes "on_grid s x" and "on_grid s y" and "x - 1 / 10 ^ s < y"
  shows "x \<le> y"
proof (rule ccontr)
  assume "\<not> x \<le> y"
  with assms(3) have "\<bar>x - y\<bar> < 1 / 10 ^ s" by linarith
  with grid_eq [OF assms(1,2)] have "x = y" .
  with \<open>\<not> x \<le> y\<close> show False by simp
qed

lemma floor_grid:
  fixes x :: rat
  obtains f where "on_grid s f" and "f \<le> x" and "x < f + 1 / 10 ^ s" and "0 \<le> x \<longrightarrow> 0 \<le> f"
proof (rule that)
  let ?f = "of_int \<lfloor>x * 10 ^ s\<rfloor> / 10 ^ s :: rat"
  show "on_grid s ?f" by (simp add: on_grid_def)
  show "?f \<le> x" by (simp add: pos_divide_le_eq)
  have "x * 10 ^ s < of_int \<lfloor>x * 10 ^ s\<rfloor> + 1" by linarith
  then show "x < ?f + 1 / 10 ^ s" by (simp add: pos_less_divide_eq add_divide_distrib [symmetric])
  show "0 \<le> x \<longrightarrow> 0 \<le> ?f" by simp
qed

lemma ceiling_grid:
  fixes x :: rat
  obtains c where "on_grid s c" and "x \<le> c" and "c < x + 1 / 10 ^ s" and "x \<le> 0 \<longrightarrow> c \<le> 0"
proof -
  obtain f where "on_grid s f" "f \<le> - x" "- x < f + 1 / 10 ^ s" "0 \<le> - x \<longrightarrow> 0 \<le> f"
    by (rule floor_grid [of s "- x"])
  then show thesis by (intro that [of "- f"]) (auto simp: on_grid_minus)
qed

context decimals
begin

text \<open>A quotient cut to the scale is less than a unit off, from either side.\<close>

lemma share_near:
  assumes s: "0 \<le> s" "s \<le> 16" and b: "b \<noteq> 0"
  shows "\<bar>d_truncate L (d_div L a b) s - a / b\<bar> < 1 / 10 ^ nat s"
proof -
  let ?y = "d_div L a b" and ?t = "d_truncate L (d_div L a b) s"
  have le: "nat s \<le> 16" using s by simp
  obtain f where f: "on_grid (nat s) f" "f \<le> a / b" "a / b < f + 1 / 10 ^ nat s" "0 \<le> a / b \<longrightarrow> 0 \<le> f"
    by (rule floor_grid [of "nat s" "a / b"])
  obtain c where c: "on_grid (nat s) c" "a / b \<le> c" "c < a / b + 1 / 10 ^ nat s" "a / b \<le> 0 \<longrightarrow> c \<le> 0"
    by (rule ceiling_grid [of "nat s" "a / b"])
  have y: "f \<le> ?y" "?y \<le> c"
    using div_ge [OF b on_grid_mono [OF f(1) le] f(2)] div_le [OF b on_grid_mono [OF c(1) le] c(2)] .
  have t: "on_grid (nat s) ?t" by (rule truncate_grid [OF s(1)])
  have "f \<le> ?t \<and> ?t \<le> c"
  proof (cases "0 \<le> a / b")
    case True
    with f(4) y(1) have "0 \<le> ?y" by simp
    from truncate_nonneg [OF s(1) this] have "?t \<le> ?y" "?y < ?t + 1 / 10 ^ nat s" by simp_all
    with y have "f - 1 / 10 ^ nat s < ?t" "?t \<le> c" by linarith+
    with grid_ge [OF f(1) t] show ?thesis by simp
  next
    case False
    with c(4) y(2) have "0 \<le> - ?y" by simp
    from truncate_nonneg [OF s(1) this] have "?y \<le> ?t" "?t < ?y + 1 / 10 ^ nat s"
      using truncate_neg [OF s(1), of ?y] by linarith+
    with y have "?t - 1 / 10 ^ nat s < c" "f \<le> ?t" by linarith+
    with grid_ge [OF t c(1)] show ?thesis by simp
  qed
  with f(3) c(3) show ?thesis by linarith
qed

lemma hand_out_sum:
  assumes s: "0 \<le> s" "s \<le> 16" and rem: "on_grid (nat s) rem" "\<bar>rem\<bar> \<le> of_nat (length out) / 10 ^ nat s"
  shows "sum_list (hand_out L (unit_of s) rem out) = sum_list out + rem"
proof -
  let ?P = "10 ^ nat s :: rat"
  obtain j where j: "rem = of_int j / ?P" using rem(1) by (rule on_gridE)
  have u: "unit_of s = 1 / ?P" using s by (simp add: unit_of_def)
  have q: "\<bar>rem\<bar> / unit_of s = of_int \<bar>j\<bar>" by (simp add: u j)
  have "d_div L \<bar>rem\<bar> (unit_of s) = of_int \<bar>j\<bar>"
    using div_exact [of "unit_of s" "\<bar>rem\<bar>"] on_grid_int [of 16 "\<bar>j\<bar>"] unfolding q by (simp add: u)
  then have units: "int_part (d_div L \<bar>rem\<bar> (unit_of s)) = \<bar>j\<bar>" by (simp add: int_part_def flip: of_int_abs)
  have "(of_int \<bar>j\<bar> :: rat) \<le> of_nat (length out)"
    using rem(2) by (simp add: j divide_le_cancel)
  then have le: "\<bar>j\<bar> \<le> int (length out)" by linarith
  define st where "st = (if rem < 0 then - unit_of s else unit_of s)"
  define k where "k = nat \<bar>j\<bar>"
  have "hand_out L (unit_of s) rem out = map (\<lambda>x. x + st) (take k out) @ drop k out"
    using le unfolding hand_out_def units Let_def st_def k_def by (simp add: min_def)
  moreover have "sum_list (map (\<lambda>x. x + st) (take k out)) = sum_list (take k out) + of_nat k * st"
    using le by (simp add: sum_list_addf sum_list_triv k_def)
  moreover have "of_nat k * st = rem"
    by (cases "j < 0") (simp_all add: st_def k_def u j divide_less_0_iff)
  moreover have "sum_list out = sum_list (take k out) + sum_list (drop k out)"
    by (metis append_take_drop_id sum_list_append)
  ultimately show ?thesis by simp
qed

lemma in_hand_out: "x \<in> set (hand_out L u rem out) \<Longrightarrow>
    \<exists>y \<in> set out. x = y \<or> x = y + (if rem < 0 then - u else u)"
  by (fastforce simp: hand_out_def Let_def dest: in_set_takeD in_set_dropD)

lemma length_hand_out [simp]: "length (hand_out L u rem out) = length out"
  by (simp add: hand_out_def Let_def)

lemma grid_hand_out:
  assumes "0 \<le> s" and "\<And>y. y \<in> set out \<Longrightarrow> on_grid (nat s) y" and "x \<in> set (hand_out L (unit_of s) rem out)"
  shows "on_grid (nat s) x"
proof -
  have u: "on_grid (nat s) (unit_of s)" using assms(1) by (simp add: unit_of_def on_grid_def)
  from in_hand_out [OF assms(3)] obtain y where "y \<in> set out" "x = y \<or> x = y + (if rem < 0 then - unit_of s else unit_of s)"
    by blast
  with assms(2) on_grid_diff [of "nat s" y "unit_of s"] on_grid_diff [OF _ on_grid_minus [OF u], of y] u
  show ?thesis by (auto split: if_splits)
qed

end

lemma sum_list_near:
  fixes f g :: "'a \<Rightarrow> rat"
  assumes "\<And>w. \<bar>f w - g w\<bar> \<le> u"
  shows "\<bar>sum_list (map f ws) - sum_list (map g ws)\<bar> \<le> of_nat (length ws) * u"
proof (induction ws)
  case (Cons w ws)
  with assms [of w] show ?case by (simp add: algebra_simps)
qed simp

lemma sum_shares: "sum_list (map (\<lambda>w. a * of_int w / t) ws) = a * of_int (sum_list ws) / (t :: rat)"
  by (induction ws) (simp_all add: distrib_left add_divide_distrib)

context decimals
begin

lemma Split_exact:
  assumes s: "Scale sc (Currency m) = s" "0 \<le> s" "s \<le> 16" and grid: "on_grid (nat s) (Amount m)" and n: "0 < n"
  obtains ps where "Split L sc m n = Inr ps" and "length ps = nat n" and "sum_list (map Amount ps) = Amount m"
    and "\<forall>p \<in> set ps. Currency p = Currency m \<and> on_grid (nat s) (Amount p)"
    and "\<forall>p \<in> set ps. \<forall>q \<in> set ps. \<bar>Amount p - Amount q\<bar> \<le> 1 / 10 ^ nat s"
proof -
  define base where "base = d_truncate L (d_div L (Amount m) (of_int n)) s"
  define rem where "rem = Amount m - base * of_int n"
  define xs where "xs = hand_out L (unit_of s) rem (replicate (nat n) base)"
  have bg: "on_grid (nat s) base" unfolding base_def by (rule truncate_grid [OF s(2)])
  then have rg: "on_grid (nat s) rem" unfolding rem_def by (intro on_grid_diff on_grid_mult_int grid)
  have "\<bar>base - Amount m / of_int n\<bar> < 1 / 10 ^ nat s"
    unfolding base_def using n by (intro share_near s) simp
  then have "\<bar>base - Amount m / of_int n\<bar> * of_int n \<le> of_int n / 10 ^ nat s"
    using n by (simp add: field_simps)
  moreover have "\<bar>base - Amount m / of_int n\<bar> * of_int n = \<bar>rem\<bar>"
    using n by (simp add: rem_def abs_if field_simps)
  ultimately have small: "\<bar>rem\<bar> \<le> of_nat (length (replicate (nat n) base)) / 10 ^ nat s" using n by simp
  have "sum_list xs = Amount m"
    using hand_out_sum [OF s(2,3) rg small] n by (simp add: xs_def rem_def sum_list_replicate)
  moreover have "on_grid (nat s) x" if "x \<in> set xs" for x
    using grid_hand_out [OF s(2) _ that [unfolded xs_def]] bg by simp
  moreover have "\<bar>x - y\<bar> \<le> 1 / 10 ^ nat s" if "x \<in> set xs" "y \<in> set xs" for x y
    using in_hand_out [OF that(1) [unfolded xs_def]] in_hand_out [OF that(2) [unfolded xs_def]] s(2)
    by (auto simp: unit_of_def)
  moreover have "Split L sc m n = Inr (map (\<lambda>x. \<lparr>Amount = x, Currency = Currency m\<rparr>) xs)"
    using n by (simp add: Split_def Let_def s(1) xs_def rem_def base_def)
  ultimately show thesis using n by (intro that) (auto simp: comp_def xs_def)
qed

lemma Allocate_exact:
  assumes s: "Scale sc (Currency m) = s" "0 \<le> s" "s \<le> 16" and grid: "on_grid (nat s) (Amount m)"
    and tot: "total_weights 0 ws = Some (sum_list ws)" "0 < sum_list ws"
  obtains ps where "Allocate L sc m ws = Inr ps" and "length ps = length ws" and "sum_list (map Amount ps) = Amount m"
    and "\<forall>p \<in> set ps. Currency p = Currency m \<and> on_grid (nat s) (Amount p)"
proof -
  let ?t = "of_int (sum_list ws) :: rat"
  define share where "share = (\<lambda>w. d_truncate L (d_div L (Amount m * of_int w) ?t) s)"
  define rem where "rem = Amount m - sum_list (map share ws)"
  define xs where "xs = hand_out L (unit_of s) rem (map share ws)"
  have sg: "on_grid (nat s) (share w)" for w unfolding share_def by (rule truncate_grid [OF s(2)])
  then have rg: "on_grid (nat s) rem" unfolding rem_def by (intro on_grid_diff on_grid_sum grid) auto
  have near: "\<bar>share w - Amount m * of_int w / ?t\<bar> \<le> 1 / 10 ^ nat s" for w
    unfolding share_def using tot(2) by (intro less_imp_le share_near s) simp
  have "\<bar>sum_list (map share ws) - sum_list (map (\<lambda>w. Amount m * of_int w / ?t) ws)\<bar> \<le> of_nat (length ws) / 10 ^ nat s"
    using sum_list_near [of share, OF near, of ws] by simp
  also have "sum_list (map (\<lambda>w. Amount m * of_int w / ?t) ws) = Amount m * ?t / ?t"
    by (rule sum_shares)
  also have "\<dots> = Amount m" using tot(2) by simp
  finally have small: "\<bar>rem\<bar> \<le> of_nat (length (map share ws)) / 10 ^ nat s" by (simp add: rem_def abs_minus_commute)
  have "sum_list xs = Amount m"
    using hand_out_sum [OF s(2,3) rg small] by (simp add: xs_def rem_def)
  moreover have "on_grid (nat s) x" if "x \<in> set xs" for x
    using grid_hand_out [OF s(2) _ that [unfolded xs_def]] sg by auto
  moreover have "Allocate L sc m ws = Inr (map (\<lambda>x. \<lparr>Amount = x, Currency = Currency m\<rparr>) xs)"
    using tot by (simp add: Allocate_def Let_def s(1) xs_def rem_def share_def)
  ultimately show thesis by (intro that) (auto simp: comp_def xs_def)
qed

text \<open>What \<^verbatim>\<open>Parts\<close> gives, \<^verbatim>\<open>Of\<close> reads back.\<close>

lemma Of_Parts:
  assumes "normCurrency (Currency m) = Inr (Currency m)" and "0 \<le> Scale sc (Currency m)"
    and "on_grid (nat (Scale sc (Currency m))) (Amount m)"
  shows "Of L sc (Some (Parts L sc m)) = Inr m"
proof -
  obtain k where "Amount m = of_int k / 10 ^ nat (Scale sc (Currency m))" using assms(3) by (rule on_gridE)
  then have "d_truncate L (Amount m) (Scale sc (Currency m)) = Amount m"
    using assms(2) by (cases k "0::int" rule: linorder_cases) (simp_all add: truncate_law flip: of_int_minus)
  then show ?thesis
    using assms by (simp add: Of_def Parts_def String_def Parse_def fixed_law)
qed

end

lemma total_weights_sum:
  assumes "list_all (\<lambda>w. 0 \<le> w) ws" and "0 \<le> acc" and "acc + sum_list ws < 2 ^ 63"
  shows "total_weights acc ws = Some (acc + sum_list ws)"
  using assms
proof (induction ws arbitrary: acc)
  case (Cons w ws)
  then have "0 \<le> sum_list ws" by (intro sum_list_nonneg) (simp add: list_all_iff)
  with Cons.prems have "wrap64 (acc + w) = acc + w" by (simp add: wrap64_def)
  with Cons show ?case by (simp add: add.assoc)
qed simp

section \<open>The contract on functions that compute\<close>

definition half_away :: "nat \<Rightarrow> rat \<Rightarrow> rat" where
  "half_away s x = sgn x * (of_int \<lfloor>\<bar>x\<bar> * 10 ^ s + 1 / 2\<rfloor> / 10 ^ s)"

definition toward_zero :: "nat \<Rightarrow> rat \<Rightarrow> rat" where
  "toward_zero s x = sgn x * (of_int \<lfloor>\<bar>x\<bar> * 10 ^ s\<rfloor> / 10 ^ s)"

definition away_from_zero :: "nat \<Rightarrow> rat \<Rightarrow> rat" where
  "away_from_zero s x = sgn x * (of_int \<lceil>\<bar>x\<bar> * 10 ^ s\<rceil> / 10 ^ s)"

definition half_even :: "nat \<Rightarrow> rat \<Rightarrow> rat" where
  "half_even s x = (let u = \<bar>x\<bar> * 10 ^ s; f = \<lfloor>u\<rfloor>; d = u - of_int f
     in sgn x * (of_int (if d < 1 / 2 \<or> (d = 1 / 2 \<and> even f) then f else f + 1) / 10 ^ s))"

text \<open>A numeral: an optional minus, digits, and a point with the decimals when there are any.\<close>

definition fixed_digits :: "nat \<Rightarrow> nat \<Rightarrow> string" where
  "fixed_digits s u = (let ds = show_nat u in replicate (Suc s - length ds) (digit_char 0) @ ds)"

definition point_at :: "nat \<Rightarrow> string \<Rightarrow> string" where
  "point_at s ds = (if s = 0 then ds else take (length ds - s) ds @ CHR ''.'' # drop (length ds - s) ds)"

definition fixed_string :: "nat \<Rightarrow> rat \<Rightarrow> string" where
  "fixed_string s x = (if x < 0 then ''-'' else []) @ point_at s (fixed_digits s (nat \<lfloor>\<bar>x\<bar> * 10 ^ s + 1 / 2\<rfloor>))"

definition parse_unsigned :: "string \<Rightarrow> (rat \<times> int) option" where
  "parse_unsigned t = (case split_on CHR ''.'' t of
      [w] \<Rightarrow> map_option (\<lambda>n. (of_nat n, 0)) (parse_nat w)
    | [w, f] \<Rightarrow> map_option (\<lambda>n. (of_nat n / 10 ^ length f, - int (length f))) (parse_nat (w @ f))
    | _ \<Rightarrow> None)"

definition parse_decimal :: "string \<Rightarrow> (rat \<times> int) option" where
  "parse_decimal t = (case t of
      [] \<Rightarrow> None
    | c # cs \<Rightarrow> if c = CHR ''-'' then map_option (\<lambda>(x, e). (- x, e)) (parse_unsigned cs) else parse_unsigned t)"

definition go_decimals :: decimal_lib where
  "go_decimals = \<lparr>d_div = (\<lambda>a b. half_away 16 (a / b)), d_truncate = (\<lambda>x s. toward_zero (nat s) x),
     d_round = (\<lambda>x s. half_away (nat s) x), d_round_down = (\<lambda>x s. toward_zero (nat s) x),
     d_round_up = (\<lambda>x s. away_from_zero (nat s) x), d_round_bank = (\<lambda>x s. half_even (nat s) x),
     d_parse = parse_decimal, d_fixed = (\<lambda>x s. fixed_string (nat s) x)\<rparr>"

lemma half_away_near: "\<bar>half_away s x - x\<bar> \<le> 1 / (2 * 10 ^ s)"
proof -
  let ?k = "of_int \<lfloor>\<bar>x\<bar> * 10 ^ s + 1 / 2\<rfloor> :: rat"
  have k: "\<bar>?k - \<bar>x\<bar> * 10 ^ s\<bar> \<le> 1 / 2" by linarith
  have "?k / 10 ^ s - \<bar>x\<bar> = (?k - \<bar>x\<bar> * 10 ^ s) / 10 ^ s" by (simp add: diff_divide_distrib)
  then have "\<bar>?k / 10 ^ s - \<bar>x\<bar>\<bar> = \<bar>?k - \<bar>x\<bar> * 10 ^ s\<bar> / \<bar>10 ^ s\<bar>" by (simp only: abs_divide)
  then have "\<bar>?k / 10 ^ s - \<bar>x\<bar>\<bar> = \<bar>?k - \<bar>x\<bar> * 10 ^ s\<bar> / 10 ^ s" by simp
  also have "\<dots> \<le> 1 / (2 * 10 ^ s)" using k by (simp add: field_simps)
  finally have near: "\<bar>?k / 10 ^ s - \<bar>x\<bar>\<bar> \<le> 1 / (2 * 10 ^ s)" .
  show ?thesis
  proof (cases x "0::rat" rule: linorder_cases)
    case less
    then have "half_away s x - x = - (?k / 10 ^ s - \<bar>x\<bar>)" by (simp add: half_away_def)
    with near show ?thesis by (simp only: abs_minus_cancel)
  next
    case greater
    then have "half_away s x - x = ?k / 10 ^ s - \<bar>x\<bar>" by (simp add: half_away_def)
    with near show ?thesis by simp
  qed (simp add: half_away_def)
qed

lemma half_away_grid: "on_grid s (half_away s x)"
  by (cases x "0::rat" rule: linorder_cases) (simp_all add: half_away_def on_grid_def flip: of_int_minus)

lemma digits_val_zeros: "digits_val 0 (replicate k (digit_char 0) @ ds) = digits_val 0 ds"
  by (induction k) simp_all

lemma parse_fixed_digits: "parse_nat (fixed_digits s u) = Some u"
  by (simp add: fixed_digits_def parse_nat_def Let_def digits_val_zeros digits_val_show_nat)

lemma length_fixed_digits: "s < length (fixed_digits s u)"
  by (simp add: fixed_digits_def Let_def)

lemma set_fixed_digits: "c \<in> set (fixed_digits s u) \<Longrightarrow> \<exists>d<10. c = digit_char d"
  by (auto simp: fixed_digits_def Let_def split: if_splits dest: set_show_nat intro: exI [of _ 0])

lemma digit_char_plain: "d < 10 \<Longrightarrow> digit_char d \<noteq> CHR ''.'' \<and> \<not> is_space (digit_char d)"
proof -
  assume "d < 10"
  then have n: "of_char (digit_char d) = (48 + d :: nat)" by (simp add: digit_char_def)
  have "(of_char CHR ''.'' :: nat) = 46" by simp
  with n have "digit_char d \<noteq> CHR ''.''" by auto
  with n show ?thesis by (simp add: is_space_def Let_def)
qed

lemma parse_point_at:
  "parse_unsigned (point_at s (fixed_digits s u)) = Some (of_nat u / 10 ^ s, - int s)"
proof -
  let ?ds = "fixed_digits s u"
  have no: "CHR ''.'' \<notin> set ?ds" using set_fixed_digits digit_char_plain by metis
  show ?thesis
  proof (cases "s = 0")
    case True
    with no show ?thesis by (simp add: point_at_def parse_unsigned_def split_on_no_sep parse_fixed_digits)
  next
    case False
    let ?w = "take (length ?ds - s) ?ds" and ?f = "drop (length ?ds - s) ?ds"
    have "CHR ''.'' \<notin> set ?w" "CHR ''.'' \<notin> set ?f" using no by (meson in_set_takeD in_set_dropD)+
    then have "split_on CHR ''.'' (?w @ CHR ''.'' # ?f) = [?w, ?f]"
      by (simp add: split_on_append split_on_no_sep)
    moreover have "length ?f = s" using length_fixed_digits [of s u] by simp
    ultimately show ?thesis
      using False by (simp add: point_at_def parse_unsigned_def parse_fixed_digits)
  qed
qed

lemma trim_fixed_string: "trim_space (fixed_string s x) = fixed_string s x"
proof (rule trim_space_no_space, rule ballI)
  fix c assume "c \<in> set (fixed_string s x)"
  then have "c \<in> {CHR ''-'', CHR ''.''} \<or> c \<in> set (fixed_digits s (nat \<lfloor>\<bar>x\<bar> * 10 ^ s + 1 / 2\<rfloor>))"
    by (auto simp: fixed_string_def point_at_def split: if_splits dest: in_set_takeD in_set_dropD)
  then show "\<not> is_space c"
  proof
    assume "c \<in> {CHR ''-'', CHR ''.''}"
    then show ?thesis by (auto simp: is_space_def)
  next
    assume "c \<in> set (fixed_digits s (nat \<lfloor>\<bar>x\<bar> * 10 ^ s + 1 / 2\<rfloor>))"
    then show ?thesis using set_fixed_digits digit_char_plain by blast
  qed
qed

lemma point_at_hd:
  assumes "point_at s (fixed_digits s u) = c # cs"
  shows "c \<noteq> CHR ''-''"
proof -
  have "c = hd (fixed_digits s u)"
    using assms length_fixed_digits [of s u] by (cases "fixed_digits s u") (auto simp: point_at_def take_Cons' split: if_splits)
  moreover have "fixed_digits s u \<noteq> []" using length_fixed_digits [of s u] by auto
  ultimately have "c \<in> set (fixed_digits s u)" by simp
  then obtain d where "d < 10" "c = digit_char d" using set_fixed_digits by blast
  then show ?thesis by simp
qed

lemma parse_fixed_string:
  assumes "on_grid s x"
  shows "parse_decimal (fixed_string s x) = Some (x, - int s)"
proof -
  obtain k where x: "x = of_int k / 10 ^ s" using assms by (rule on_gridE)
  have "\<lfloor>\<bar>x\<bar> * 10 ^ s + 1 / 2\<rfloor> = \<bar>k\<bar>" by (simp add: x floor_eq_iff flip: of_int_abs)
  then have str: "fixed_string s x = (if x < 0 then ''-'' else []) @ point_at s (fixed_digits s (nat \<bar>k\<bar>))"
    by (simp add: fixed_string_def)
  have val: "of_nat (nat \<bar>k\<bar>) / 10 ^ s = \<bar>x\<bar>" by (simp add: x)
  show ?thesis
  proof (cases "x < 0")
    case True
    then show ?thesis using parse_point_at [of s "nat \<bar>k\<bar>"] val by (simp add: str parse_decimal_def)
  next
    case False
    obtain c cs where c: "point_at s (fixed_digits s (nat \<bar>k\<bar>)) = c # cs"
      using length_fixed_digits [of s "nat \<bar>k\<bar>"] by (cases "point_at s (fixed_digits s (nat \<bar>k\<bar>))") (auto simp: point_at_def split: if_splits)
    with point_at_hd [OF c] False parse_point_at [of s "nat \<bar>k\<bar>"] val show ?thesis
      by (simp add: str parse_decimal_def)
  qed
qed

interpretation go: decimals go_decimals
proof
  fix a b :: rat assume "b \<noteq> 0"
  show "on_grid 16 (d_div go_decimals a b)" by (simp add: go_decimals_def half_away_grid)
  show "\<bar>d_div go_decimals a b - a / b\<bar> \<le> 1 / (2 * 10 ^ 16)"
    unfolding go_decimals_def decimal_lib.select_convs by (rule half_away_near)
next
  fix s :: int and x :: rat assume "0 \<le> s"
  show "d_truncate go_decimals x s = sgn x * (of_int \<lfloor>\<bar>x\<bar> * 10 ^ nat s\<rfloor> / 10 ^ nat s)"
    by (simp add: go_decimals_def toward_zero_def)
  assume "on_grid (nat s) x"
  with \<open>0 \<le> s\<close> show "d_parse go_decimals (trim_space (d_fixed go_decimals x s)) = Some (x, - s)"
    by (simp add: go_decimals_def trim_fixed_string parse_fixed_string)
qed

section \<open>Properties\<close>

text \<open>
  C34. Splitting loses and makes nothing. For a currency of at most sixteen decimals and an
  amount of that scale, \<^verbatim>\<open>Split\<close> into n > 0 parts gives n amounts of the currency and its
  scale that add up to the amount exactly, no two more than a smallest unit apart; and
  \<^verbatim>\<open>Allocate\<close> by weights that are not negative, not all zero and add up within an int64
  gives one amount per weight, which add up exactly. Negative amounts are no exception.
\<close>

theorem shares_add_up:
  assumes "decimals L" and "0 \<le> Scale sc (Currency m)" and "Scale sc (Currency m) \<le> 16"
    and "on_grid (nat (Scale sc (Currency m))) (Amount m)"
    and "0 < n" and "list_all (\<lambda>w. 0 \<le> w) ws" and "0 < sum_list ws" and "sum_list ws < 2 ^ 63"
  shows "(\<exists>ps. Split L sc m n = Inr ps \<and> length ps = nat n \<and> sum_list (map Amount ps) = Amount m \<and>
       (\<forall>p \<in> set ps. Currency p = Currency m \<and> on_grid (nat (Scale sc (Currency m))) (Amount p)) \<and>
       (\<forall>p \<in> set ps. \<forall>q \<in> set ps. \<bar>Amount p - Amount q\<bar> \<le> 1 / 10 ^ nat (Scale sc (Currency m)))) \<and>
     (\<exists>ps. Allocate L sc m ws = Inr ps \<and> length ps = length ws \<and> sum_list (map Amount ps) = Amount m \<and>
       (\<forall>p \<in> set ps. Currency p = Currency m \<and> on_grid (nat (Scale sc (Currency m))) (Amount p)))"
proof
  note lib = assms(1) and grid = assms(2-4)
  show "\<exists>ps. Split L sc m n = Inr ps \<and> length ps = nat n \<and> sum_list (map Amount ps) = Amount m \<and>
       (\<forall>p \<in> set ps. Currency p = Currency m \<and> on_grid (nat (Scale sc (Currency m))) (Amount p)) \<and>
       (\<forall>p \<in> set ps. \<forall>q \<in> set ps. \<bar>Amount p - Amount q\<bar> \<le> 1 / 10 ^ nat (Scale sc (Currency m)))"
    using decimals.Split_exact [OF lib refl grid assms(5)] by metis
  have "total_weights 0 ws = Some (sum_list ws)"
    using total_weights_sum [OF assms(6), of 0] assms(8) by simp
  from decimals.Allocate_exact [OF lib refl grid this assms(7)]
  show "\<exists>ps. Allocate L sc m ws = Inr ps \<and> length ps = length ws \<and> sum_list (map Amount ps) = Amount m \<and>
       (\<forall>p \<in> set ps. Currency p = Currency m \<and> on_grid (nat (Scale sc (Currency m))) (Amount p))"
    by metis
qed

theorem shares_add_up_witness:
  "(\<exists>ps. Split go_decimals iso_scales \<lparr>Amount = -1001 / 100, Currency = ''USD''\<rparr> 3 = Inr ps \<and>
      sum_list (map Amount ps) = -1001 / 100) \<and>
   (\<exists>ps. Allocate go_decimals iso_scales \<lparr>Amount = -1001 / 100, Currency = ''USD''\<rparr> [70, 20, 10] = Inr ps \<and>
      sum_list (map Amount ps) = -1001 / 100)"
proof -
  let ?m = "\<lparr>Amount = -1001 / 100, Currency = ''USD''\<rparr>"
  have sc: "Scale iso_scales (Currency ?m) = 2" by code_simp
  have "on_grid 2 (-1001 / 100)" by (rule on_gridI [where k = "-1001"]) simp
  then show ?thesis
    using shares_add_up [OF go.decimals_axioms, of iso_scales ?m 3 "[70, 20, 10]"] unfolding sc by auto
qed

text \<open>
  A registered currency of eighteen decimals does not have this: the division is exact to
  sixteen only, and at most one unit a part is handed out. One ether in three parts.
\<close>

lemma split_eighteen_decimals:
  "case Split go_decimals (RegisterCurrency ''ETH'' 18 iso_scales) \<lparr>Amount = 1, Currency = ''ETH''\<rparr> 3 of
     Inl e \<Rightarrow> False
   | Inr ps \<Rightarrow> sum_list (map Amount ps) = 999999999999999903 / 10 ^ 18"
  by code_simp

text \<open>The remainder goes to the first parts, also to one whose weight is zero.\<close>

lemma allocate_to_zero_weight:
  "\<exists>ps. Allocate go_decimals iso_scales \<lparr>Amount = 1 / 20, Currency = ''USD''\<rparr> [0, 1, 1] = Inr ps \<and>
     map Amount ps = [1 / 100, 1 / 50, 1 / 50]"
proof -
  have sc: "Scale iso_scales ''USD'' = 2" by code_simp
  have tot: "total_weights 0 [0, 1, 1] = Some 2" by code_simp
  have none: "d_truncate go_decimals (d_div go_decimals 0 2) 2 = 0" by code_simp
  have share: "d_truncate go_decimals (d_div go_decimals (1 / 20) 2) 2 = 1 / 50" by code_simp
  have rest: "hand_out go_decimals (unit_of 2) (1 / 100) [0, 1 / 50, 1 / 50] = [1 / 100, 1 / 50, 1 / 50]" by code_simp
  show ?thesis
    by (simp add: Allocate_def Let_def sc tot none share rest del: total_weights.simps)
qed

end
