(* ===== verification/ServiceWatch.thy ===== *)
theory ServiceWatch
  imports Discovery
begin

text \<open>
  The services that are alive, on record (\<^verbatim>\<open>nacosx/services.go\<close>): the watch over every
  service of a namespace, the overview, the records of what changes, and the rows of the
  table on the console. The SDK of Nacos is an argument; the drawing of the table is left
  out.
\<close>

section \<open>The overview\<close>

record service_state =
  st_Name :: string
  st_Alive :: nat
  st_Instances :: "string list"
  st_Unusable :: nat

definition alive_count :: "ninst list \<Rightarrow> nat" where
  "alive_count l = length (filter usable l)"

definition state_of :: "string \<times> ninst list \<Rightarrow> service_state" where
  "state_of p =
     \<lparr>st_Name = fst p, st_Alive = alive_count (snd p), st_Instances = sort (map ni_Addr (filter usable (snd p))),
      st_Unusable = length (filter (\<lambda>i. \<not> usable i) (snd p))\<rparr>"

text \<open>
  What is known: for each service its instances by address. A Go map by name is the list of
  its entries in the order of the names.
\<close>

type_synonym known_services = "(string \<times> ninst list) list"

definition known_of :: "string \<Rightarrow> known_services \<Rightarrow> ninst list" where
  "known_of name k = (case map_of k name of None \<Rightarrow> [] | Some l \<Rightarrow> l)"

fun put_known :: "string \<Rightarrow> ninst list \<Rightarrow> known_services \<Rightarrow> known_services" where
  "put_known name cur [] = [(name, cur)]"
| "put_known name cur ((n, l) # k) =
     (if n = name then (n, cur) # k
      else if name < n then (name, cur) # (n, l) # k
      else (n, l) # put_known name cur k)"

definition overview :: "known_services \<Rightarrow> service_state list" where
  "overview k = filter (\<lambda>s. st_Alive s \<noteq> 0) (map state_of k)"

definition Counts :: "service_state list \<Rightarrow> nat \<times> nat" where
  "Counts ov = (length ov, sum_list (map st_Alive ov))"

section \<open>The watch\<close>

datatype record_kind = ServiceOnline | ServiceOffline | InstancesDiffer

record service_record =
  sr_kind :: record_kind
  sr_name :: string
  sr_alive :: nat
  sr_counts :: "nat \<times> nat"
  sr_changes :: "change list"
  sr_overview :: "service_state list"

record service_watch =
  sw_subscribed :: "string list"
  sw_known :: known_services
  sw_ready :: bool

definition new_service_watch :: service_watch where
  "new_service_watch = \<lparr>sw_subscribed = [], sw_known = [], sw_ready = False\<rparr>"

text \<open>The instances of a service as Nacos pushed them.\<close>

definition service_update :: "string \<Rightarrow> ninst list \<Rightarrow> service_watch \<Rightarrow> service_watch \<times> service_record option" where
  "service_update name l w =
     (let cur = by_addr l; old = known_of name (sw_known w); known = put_known name cur (sw_known w);
          changes = instanceDiff old cur; w' = w\<lparr>sw_known := known\<rparr>; before = alive_count old; after = alive_count cur
      in if \<not> sw_ready w \<or> changes = [] then (w', None)
         else (w', Some
           \<lparr>sr_kind = (if before = 0 \<and> after > 0 then ServiceOnline else if before > 0 \<and> after = 0 then ServiceOffline
                       else InstancesDiffer),
            sr_name = name, sr_alive = after, sr_counts = Counts (overview known), sr_changes = changes,
            sr_overview = overview known\<rparr>))"

text \<open>
  The names of a page of the list: those not subscribed to are; the first that cannot be
  ends the round. Returned are the names subscribed to and the error.
\<close>

fun subscribe_new :: "(string \<Rightarrow> string option) \<Rightarrow> string list \<Rightarrow> string list \<Rightarrow> string list \<times> string option" where
  "subscribe_new sub [] had = ([], None)"
| "subscribe_new sub (n # ns) had =
     (if n \<in> set had then subscribe_new sub ns had
      else case sub n of
          Some e \<Rightarrow> ([], Some (''subscribe to '' @ n @ '': '' @ e))
        | None \<Rightarrow> (case subscribe_new sub ns (n # had) of (l, r) \<Rightarrow> (n # l, r)))"

definition list_pageSize :: nat where "list_pageSize = 100"

text \<open>
  A round, over what the server answers to page after page; \<open>None\<close> when the pages given are
  all full and the round would ask for another.
\<close>

fun list_round :: "(string \<Rightarrow> string option) \<Rightarrow> (string + string list) list \<Rightarrow> string list \<Rightarrow> (string list \<times> string option) option" where
  "list_round sub [] had = None"
| "list_round sub (Inl e # pages) had = Some ([], Some e)"
| "list_round sub (Inr doms # pages) had =
     (case subscribe_new sub doms had of
        (l, Some e) \<Rightarrow> Some (l, Some e)
      | (l, None) \<Rightarrow>
          if length doms < list_pageSize then Some (l, None)
          else map_option (\<lambda>(l', r). (l @ l', r)) (list_round sub pages (l @ had)))"

text \<open>When the watch starts, and when it does not.\<close>

definition starts_watching :: "bool \<Rightarrow> int \<Rightarrow> bool \<Rightarrow> bool \<Rightarrow> bool" where
  "starts_watching offline every shut started \<longleftrightarrow> \<not> (offline \<or> every \<le> 0) \<and> \<not> (shut \<or> started)"

text \<open>
  The watch as it runs: rounds, pushes, and the first overview, from which on every change
  is recorded.
\<close>

datatype watch_step = Round "string \<Rightarrow> string option" "(string + string list) list" | InstancesPushed string "ninst list" | FirstOverview

datatype watch_record = AliveNow "service_state list" "nat \<times> nat" | OfService service_record

definition run_watch_step :: "watch_step \<Rightarrow> service_watch \<times> watch_record list \<Rightarrow> service_watch \<times> watch_record list" where
  "run_watch_step e s =
     (case e of
        Round sub pages \<Rightarrow>
          (case list_round sub pages (sw_subscribed (fst s)) of
             None \<Rightarrow> s
           | Some (l, r) \<Rightarrow> ((fst s)\<lparr>sw_subscribed := l @ sw_subscribed (fst s)\<rparr>, snd s))
      | InstancesPushed name l \<Rightarrow>
          (case service_update name l (fst s) of
             (w, None) \<Rightarrow> (w, snd s)
           | (w, Some r) \<Rightarrow> (w, snd s @ [OfService r]))
      | FirstOverview \<Rightarrow>
          if sw_ready (fst s) then s
          else ((fst s)\<lparr>sw_ready := True\<rparr>,
                snd s @ [AliveNow (overview (sw_known (fst s))) (Counts (overview (sw_known (fst s))))]))"

definition watched_services :: "watch_step list \<Rightarrow> service_watch \<times> watch_record list" where
  "watched_services es = fold run_watch_step es (new_service_watch, [])"

section \<open>The rows of a report\<close>

text \<open>
  A line of the table: an instance that is as it was, came, changed (what it is and was), or went,
  whether this process registered it, and how many more cannot take requests.
\<close>

datatype report_line = LineSame string bool | LineCame string bool | LineDiffers string "rat \<times> bool \<times> bool" "(rat \<times> bool \<times> bool) option" bool | LineWent string | LineUnusable nat

definition mark_of :: "change list \<Rightarrow> string \<Rightarrow> change option" where
  "mark_of cs a = find (\<lambda>c. change_addr c = a) (rev cs)"

definition instance_line :: "bool \<Rightarrow> change list \<Rightarrow> (string \<Rightarrow> bool) \<Rightarrow> string \<Rightarrow> report_line" where
  "instance_line mine cs this a =
     (case (if mine then mark_of cs a else None) of
        None \<Rightarrow> LineSame a (this a)
      | Some (Added i) \<Rightarrow> LineCame a (this a)
      | Some (Changed i was) \<Rightarrow> LineDiffers a (inst_state i) (Some was) (this a)
      | Some (Removed i) \<Rightarrow> LineDiffers a (inst_state i) None (this a))"

fun gone_line :: "change \<Rightarrow> report_line list" where
  "gone_line (Removed i) = [LineWent (ni_Addr i)]"
| "gone_line _ = []"

definition gone :: "change list \<Rightarrow> report_line list" where
  "gone cs = concat (map gone_line cs)"

definition service_row :: "string \<Rightarrow> change list \<Rightarrow> (string \<Rightarrow> bool) \<Rightarrow> service_state \<Rightarrow> string \<times> nat \<times> report_line list" where
  "service_row name cs this s =
     (st_Name s, st_Alive s,
      map (\<lambda>a. instance_line (st_Name s = name) cs (\<lambda>a. this (st_Name s @ ''@'' @ a)) a) (st_Instances s) @
      (if st_Name s = name then gone cs else []) @
      (if st_Unusable s > 0 then [LineUnusable (st_Unusable s)] else []))"

definition report_rows :: "string \<Rightarrow> change list \<Rightarrow> (string \<Rightarrow> bool) \<Rightarrow> service_state list \<Rightarrow> (string \<times> nat \<times> report_line list) list" where
  "report_rows name cs this ov =
     (let rs = map (service_row name cs this) ov
      in if name \<notin> st_Name ` set ov \<and> name \<noteq> [] \<and> cs \<noteq> []
         then sort_key fst (rs @ [(name, 0, gone cs)]) else rs)"

section \<open>What is known stays in the order of the names\<close>

lemma put_known_names: "set (map fst (put_known name cur k)) = insert name (set (map fst k))"
  by (induction k rule: put_known.induct [of _ name cur]) auto

lemma put_known_sorted: "sorted_wrt (<) (map fst k) \<Longrightarrow> sorted_wrt (<) (map fst (put_known name cur k))"
proof (induction k)
  case (Cons p k)
  obtain n l where p: "p = (n, l)" by (cases p)
  from Cons p have IH: "sorted_wrt (<) (map fst (put_known name cur k))" and n: "\<forall>m \<in> set (map fst k). n < m" by simp_all
  show ?case
  proof (cases "n = name \<or> name < n")
    case True
    with Cons.prems p n show ?thesis by (auto intro: less_trans)
  next
    case False
    then have "n < name" by (metis less_linear)
    with n IH p put_known_names [of name cur k] show ?thesis by auto
  qed
qed simp

lemma known_put_same [simp]: "known_of name (put_known name cur k) = cur"
  by (induction k rule: put_known.induct [of _ name cur]) (auto simp: known_of_def)

lemma known_put_other: "m \<noteq> name \<Longrightarrow> known_of m (put_known name cur k) = known_of m k"
  by (induction k rule: put_known.induct [of _ name cur]) (auto simp: known_of_def)

lemma put_known_others: "filter (\<lambda>p. fst p \<noteq> name) (put_known name cur k) = filter (\<lambda>p. fst p \<noteq> name) k"
  by (induction k rule: put_known.induct [of _ name cur]) auto

lemma overview_others:
  "filter (\<lambda>s. st_Name s \<noteq> name) (overview (put_known name cur k)) = filter (\<lambda>s. st_Name s \<noteq> name) (overview k)"
proof -
  have "filter (\<lambda>s. st_Name s \<noteq> name) (overview m) = filter (\<lambda>s. st_Alive s \<noteq> 0) (map state_of (filter (\<lambda>p. fst p \<noteq> name) m))" for m
    by (simp add: overview_def filter_map o_def state_of_def conj_commute)
  then show ?thesis by (simp add: put_known_others)
qed

lemma listed_alive:
  assumes "sorted_wrt (<) (map fst k)"
  shows "name \<in> st_Name ` set (overview k) \<longleftrightarrow> alive_count (known_of name k) > 0"
proof -
  from assms have d: "distinct (map fst k)" using strict_sorted_iff by blast
  have e: "name \<in> st_Name ` set (overview k) \<longleftrightarrow> (\<exists>m. (name, m) \<in> set k \<and> alive_count m \<noteq> 0)"
    by (induction k) (auto simp: overview_def state_of_def)
  have m: "(name, m) \<in> set k \<longleftrightarrow> map_of k name = Some m" for m using map_of_eq_Some_iff [OF d] by simp
  show ?thesis unfolding e m by (cases "map_of k name") (simp_all add: known_of_def alive_count_def)
qed

lemma overview_sorted: "sorted_wrt (<) (map fst k) \<Longrightarrow> sorted_wrt (<) (map st_Name (overview k))"
proof -
  assume s: "sorted_wrt (<) (map fst k)"
  have "map st_Name (overview k) = map fst (filter (\<lambda>p. alive_count (snd p) \<noteq> 0) k)"
    by (induction k) (auto simp: overview_def state_of_def)
  with s show ?thesis by (simp add: sorted_wrt_map sorted_wrt_filter)
qed

text \<open>Lists that are alike to a caller make the same overview.\<close>

lemma state_of_states: "inst_states l = inst_states m \<Longrightarrow> state_of (n, l) = state_of (n, m)"
proof -
  assume e: "inst_states l = inst_states m"
  have u: "length (filter (\<lambda>i. \<not> usable i) l) = length (filter (\<lambda>(a, w, h, e). \<not> (h \<and> e \<and> w > 0)) (inst_states l))" for l
    by (induction l) (auto simp: inst_states_def usable_def inst_state_def)
  have "length (filter usable l) = length (filter usable m)" using arg_cong [OF usable_states [OF e], of length] by simp
  with usable_states [OF e] u [of l] u [of m] e show ?thesis by (simp add: state_of_def alive_count_def)
qed

lemma overview_unchanged:
  assumes "sorted_wrt (<) (map fst k)" and "inst_states (known_of name k) = inst_states cur"
  shows "overview (put_known name cur k) = overview k"
  using assms
proof (induction k)
  case Nil
  then have "cur = []" by (cases cur) (simp_all add: known_of_def inst_states_def)
  then show ?case by (simp add: overview_def state_of_def alive_count_def)
next
  case (Cons p k)
  obtain n l where p: "p = (n, l)" by (cases p)
  consider "n = name" | "name < n" | "n < name" by (metis less_linear)
  then show ?case
  proof cases
    case 1
    with Cons.prems p have "state_of (name, l) = state_of (name, cur)"
      by (intro state_of_states) (simp add: known_of_def)
    with 1 p show ?thesis by (simp add: overview_def)
  next
    case 2
    with Cons.prems(1) p have "name \<notin> fst ` set (p # k)" by auto
    then have "map_of (p # k) name = None" by (rule iffD2 [OF map_of_eq_None_iff])
    then have "known_of name (p # k) = []" by (simp only: known_of_def option.case)
    with Cons.prems(2) have "cur = []" by (cases cur) (simp_all add: inst_states_def)
    moreover from 2 have "n \<noteq> name" by auto
    ultimately show ?thesis using 2 p by (simp add: overview_def state_of_def alive_count_def)
  next
    case 3
    then have "known_of name (p # k) = known_of name k" using p by (auto simp: known_of_def)
    with Cons.prems p have "inst_states (known_of name k) = inst_states cur" by simp
    with 3 p Cons show ?thesis by (auto simp: overview_def)
  qed
qed

section \<open>What is on record\<close>

text \<open>
  A record fits what was on record before: it names a service that came, went, or is alive
  as it was alive before; of every other service it repeats what was said; its counts are
  those of its overview.
\<close>

definition record_fits :: "service_state list \<Rightarrow> service_record \<Rightarrow> bool" where
  "record_fits ov r \<longleftrightarrow>
     (let was = sr_name r \<in> st_Name ` set ov; is = sr_name r \<in> st_Name ` set (sr_overview r)
      in case sr_kind r of
           ServiceOnline \<Rightarrow> \<not> was \<and> is
         | ServiceOffline \<Rightarrow> was \<and> \<not> is
         | InstancesDiffer \<Rightarrow> was = is) \<and>
     filter (\<lambda>s. st_Name s \<noteq> sr_name r) (sr_overview r) = filter (\<lambda>s. st_Name s \<noteq> sr_name r) ov \<and>
     sr_changes r \<noteq> [] \<and> sr_counts r = Counts (sr_overview r)"

fun log_fits :: "service_state list \<Rightarrow> watch_record list \<Rightarrow> bool" where
  "log_fits ov [] = True"
| "log_fits ov (OfService r # l) = (record_fits ov r \<and> log_fits (sr_overview r) l)"
| "log_fits ov (AliveNow _ _ # l) = False"

fun last_overview :: "service_state list \<Rightarrow> watch_record list \<Rightarrow> service_state list" where
  "last_overview ov [] = ov"
| "last_overview ov (OfService r # l) = last_overview (sr_overview r) l"
| "last_overview ov (AliveNow o1 _ # l) = last_overview o1 l"

lemma log_fits_snoc: "log_fits ov (l @ [OfService r]) \<longleftrightarrow> log_fits ov l \<and> record_fits (last_overview ov l) r"
  by (induction ov l rule: log_fits.induct) auto

lemma last_overview_snoc: "last_overview ov (l @ [OfService r]) = sr_overview r"
  by (induction ov l rule: last_overview.induct) auto

definition watch_inv :: "service_watch \<times> watch_record list \<Rightarrow> bool" where
  "watch_inv s \<longleftrightarrow> sorted_wrt (<) (map fst (sw_known (fst s))) \<and> (\<forall>n. in_order (known_of n (sw_known (fst s)))) \<and>
     (if sw_ready (fst s)
      then \<exists>ov l. snd s = AliveNow ov (Counts ov) # l \<and> log_fits ov l \<and> last_overview ov l = overview (sw_known (fst s))
      else snd s = [])"

lemma update_fits:
  assumes "service_update name l w = (w1, Some r)" and k: "sorted_wrt (<) (map fst (sw_known w))"
  shows "record_fits (overview (sw_known w)) r \<and> sr_overview r = overview (sw_known w1) \<and> sw_ready w1 = sw_ready w"
proof -
  note a = listed_alive [OF k, of name] and b = listed_alive [OF put_known_sorted [OF k, of name "by_addr l"], of name]
  from assms(1) have r: "sr_name r = name" "sr_overview r = overview (put_known name (by_addr l) (sw_known w))"
    "sr_overview r = overview (sw_known w1)" "sr_changes r \<noteq> []" "sr_counts r = Counts (sr_overview r)" "sw_ready w1 = sw_ready w"
    "sr_kind r = (if alive_count (known_of name (sw_known w)) = 0 \<and> alive_count (by_addr l) > 0 then ServiceOnline
       else if alive_count (known_of name (sw_known w)) > 0 \<and> alive_count (by_addr l) = 0 then ServiceOffline else InstancesDiffer)"
    by (auto simp: service_update_def Let_def split: if_splits)
  with a b overview_others [of name "by_addr l" "sw_known w"] show ?thesis
    by (simp add: record_fits_def Let_def)
qed

lemma update_silent:
  assumes "service_update name l w = (w1, None)" and k: "sorted_wrt (<) (map fst (sw_known w))"
    and o1: "\<And>n. in_order (known_of n (sw_known w))" and "sw_ready w"
  shows "overview (sw_known w1) = overview (sw_known w)"
proof -
  from assms(1,4) have "instanceDiff (known_of name (sw_known w)) (by_addr l) = []" "sw_known w1 = put_known name (by_addr l) (sw_known w)"
    by (auto simp: service_update_def Let_def split: if_splits)
  with instanceDiff_exact [OF o1 in_order_by_addr, of name l] overview_unchanged [OF k, of name "by_addr l"]
  show ?thesis by simp
qed

lemma update_known: "fst (service_update name l w) = w\<lparr>sw_known := put_known name (by_addr l) (sw_known w)\<rparr>"
  by (simp add: service_update_def Let_def)

lemma watch_inv_step:
  assumes inv: "watch_inv s"
  shows "watch_inv (run_watch_step e s)"
proof (cases e)
  case (Round sub pages)
  with inv show ?thesis by (auto simp: run_watch_step_def watch_inv_def split: option.splits)
next
  case FirstOverview
  with inv show ?thesis by (auto simp: run_watch_step_def watch_inv_def)
next
  case (InstancesPushed name l)
  obtain w1 r where u: "service_update name l (fst s) = (w1, r)" by fastforce
  from inv have k: "sorted_wrt (<) (map fst (sw_known (fst s)))" and o1: "\<And>n. in_order (known_of n (sw_known (fst s)))"
    by (simp_all add: watch_inv_def)
  from u update_known [of name l "fst s"] have w1: "w1 = (fst s)\<lparr>sw_known := put_known name (by_addr l) (sw_known (fst s))\<rparr>" by simp
  have k1: "sorted_wrt (<) (map fst (sw_known w1))" using put_known_sorted [OF k] w1 by simp
  have o2: "in_order (known_of n (sw_known w1))" for n
    using o1 [of n] in_order_by_addr w1 by (cases "n = name") (simp_all add: known_put_other)
  show ?thesis
  proof (cases r)
    case None
    with u update_silent [of name l "fst s" w1] k o1 have "sw_ready (fst s) \<Longrightarrow> overview (sw_known w1) = overview (sw_known (fst s))" by blast
    with None u InstancesPushed inv k1 o2 w1 show ?thesis by (simp add: run_watch_step_def watch_inv_def)
  next
    case (Some r1)
    with u have u1: "service_update name l (fst s) = (w1, Some r1)" by simp
    note f = update_fits [OF u1 k]
    from u1 have "sw_ready (fst s)" by (auto simp: service_update_def Let_def split: if_splits)
    with inv obtain ov lg where lg: "snd s = AliveNow ov (Counts ov) # lg" "log_fits ov lg" "last_overview ov lg = overview (sw_known (fst s))"
      by (auto simp: watch_inv_def)
    with f have "log_fits ov (lg @ [OfService r1])" "last_overview ov (lg @ [OfService r1]) = overview (sw_known w1)"
      by (simp_all add: log_fits_snoc last_overview_snoc)
    with u1 InstancesPushed lg(1) k1 o2 f \<open>sw_ready (fst s)\<close> show ?thesis by (simp add: run_watch_step_def watch_inv_def)
  qed
qed

lemma watch_inv_run: "watch_inv s \<Longrightarrow> watch_inv (fold run_watch_step es s)"
  by (induction es arbitrary: s) (simp_all add: watch_inv_step)

text \<open>The list of a service that was pushed last.\<close>

definition last_pushed :: "string \<Rightarrow> watch_step list \<Rightarrow> ninst list" where
  "last_pushed name es = fold (\<lambda>e l. case e of InstancesPushed n m \<Rightarrow> if n = name then by_addr m else l | _ \<Rightarrow> l) es []"

lemma known_pushed:
  "known_of name (sw_known (fst (fold run_watch_step es s))) =
     fold (\<lambda>e l. case e of InstancesPushed n m \<Rightarrow> if n = name then by_addr m else l | _ \<Rightarrow> l) es (known_of name (sw_known (fst s)))"
proof (induction es arbitrary: s)
  case (Cons e es)
  have "known_of name (sw_known (fst (run_watch_step e s))) =
      (case e of InstancesPushed n m \<Rightarrow> if n = name then by_addr m else known_of name (sw_known (fst s)) | _ \<Rightarrow> known_of name (sw_known (fst s)))"
  proof (cases e)
    case (InstancesPushed n m)
    with update_known [of n m "fst s"] show ?thesis
      by (auto simp: run_watch_step_def known_put_other split: prod.splits option.splits)
  qed (auto simp: run_watch_step_def split: option.splits)
  with Cons.IH show ?case by simp
qed simp

text \<open>
  The last record always says how things are. Before the first overview nothing is written;
  from then on, whatever is pushed and whatever rounds are made, every record tells of one
  service that came, went or changed, repeats what was said of all others, and the overview
  on record last is the one of the instances that were pushed last of each service, by name.
\<close>

lemma services_on_record:
  "case watched_services es of (w, recs) \<Rightarrow>
     known_of name (sw_known w) = last_pushed name es \<and>
     (name \<in> st_Name ` set (overview (sw_known w)) \<longleftrightarrow> filter usable (last_pushed name es) \<noteq> []) \<and>
     sorted_wrt (<) (map st_Name (overview (sw_known w))) \<and>
     (if sw_ready w
      then \<exists>ov l. recs = AliveNow ov (Counts ov) # l \<and> log_fits ov l \<and> last_overview ov l = overview (sw_known w)
      else recs = [])"
proof -
  have "watch_inv (new_service_watch, [])"
    by (simp add: watch_inv_def new_service_watch_def known_of_def in_order_def)
  from watch_inv_run [OF this, of es] have i: "watch_inv (watched_services es)" by (simp add: watched_services_def)
  then have k: "sorted_wrt (<) (map fst (sw_known (fst (watched_services es))))" by (simp add: watch_inv_def)
  have n: "known_of name (sw_known (fst (watched_services es))) = last_pushed name es"
    using known_pushed [of name es "(new_service_watch, [])"]
    by (simp add: watched_services_def last_pushed_def new_service_watch_def known_of_def)
  from listed_alive [OF k, of name] n have "name \<in> st_Name ` set (overview (sw_known (fst (watched_services es)))) \<longleftrightarrow> filter usable (last_pushed name es) \<noteq> []"
    by (simp add: alive_count_def)
  with i n overview_sorted [OF k] show ?thesis by (simp add: case_prod_beta watch_inv_def)
qed

section \<open>Rounds\<close>

text \<open>
  A round that ends well has subscribed to every service it was shown, once, and to none
  that was subscribed to before.
\<close>

lemma subscribe_new_ok:
  "subscribe_new sub ns had = (l, None) \<Longrightarrow>
     distinct l \<and> set l \<inter> set had = {} \<and> set ns \<subseteq> set l \<union> set had \<and> set l \<subseteq> set ns"
proof (induction sub ns had arbitrary: l rule: subscribe_new.induct)
  case (2 sub n ns had)
  show ?case
  proof (cases "n \<in> set had")
    case True
    with 2 show ?thesis by auto
  next
    case False
    with "2.prems" obtain l1 where l: "sub n = None" "subscribe_new sub ns (n # had) = (l1, None)" "l = n # l1"
      by (auto split: option.splits prod.splits)
    from "2.IH"(2) [OF False l(1) l(2)] l(3) False show ?thesis by auto
  qed
qed simp

lemma list_round_covers:
  assumes "list_round sub (map Inr pages) had = Some (l, None)"
  shows "\<exists>asked \<le> length pages. distinct l \<and> set l \<inter> set had = {} \<and> set (concat (take asked pages)) \<subseteq> set l \<union> set had \<and>
    (\<forall>p \<in> set (butlast (take asked pages)). length p \<ge> list_pageSize) \<and> asked > 0 \<and> length (pages ! (asked - 1)) < list_pageSize"
  using assms
proof (induction pages arbitrary: had l)
  case (Cons p pages)
  obtain l1 r1 where s: "subscribe_new sub p had = (l1, r1)" by fastforce
  with Cons.prems have r1: "r1 = None" by (cases r1) auto
  note a = subscribe_new_ok [OF s [unfolded r1]]
  show ?case
  proof (cases "length p < list_pageSize")
    case True
    with Cons.prems s r1 have "l = l1" by simp
    with a True show ?thesis by (intro exI [of _ 1]) auto
  next
    case False
    with Cons.prems s r1 obtain l2 where l2: "list_round sub (map Inr pages) (l1 @ had) = Some (l2, None)" "l = l1 @ l2"
      by auto
    from Cons.IH [OF l2(1)] obtain k where k: "k \<le> length pages" "distinct l2" "set l2 \<inter> set (l1 @ had) = {}"
      "set (concat (take k pages)) \<subseteq> set l2 \<union> set (l1 @ had)" "\<forall>p \<in> set (butlast (take k pages)). length p \<ge> list_pageSize"
      "k > 0" "length (pages ! (k - 1)) < list_pageSize" by blast
    then have "take k pages \<noteq> []" by auto
    with k a False l2(2) show ?thesis by (intro exI [of _ "Suc k"]) (auto simp: nth_Cons')
  qed
qed simp

text \<open>
  A service that cannot be subscribed to ends the round: what is listed after it is not
  reached, in this round or, while that lasts, in any other.
\<close>

lemma failing_service_hides_the_rest:
  assumes "sub n = Some e" and "n \<notin> set had" and "\<And>m. m \<in> set before \<Longrightarrow> m \<in> set had"
  shows "list_round sub (Inr (before @ n # after) # pages) had = Some ([], Some (''subscribe to '' @ n @ '': '' @ e))"
proof -
  have "subscribe_new sub (before @ n # after) had = ([], Some (''subscribe to '' @ n @ '': '' @ e))"
    using assms by (induction before) auto
  then show ?thesis by simp
qed

section \<open>What the table shows\<close>

text \<open>
  An instance that can no longer take requests has no line of its own: what changed is not
  marked, and of a service that is gone because of it the row is empty.
\<close>

lemma lost_instance_unmarked:
  "let i = \<lparr>ni_Addr = ''10.0.0.5:8888'', ni_Weight = 10, ni_Healthy = True, ni_Enabled = True, ni_Metadata = Map.empty\<rparr>;
       j = i\<lparr>ni_Healthy := False\<rparr>;
       s = watched_services [InstancesPushed ''ser-user'' [i], FirstOverview, InstancesPushed ''ser-user'' [j]]
   in case last (snd s) of
        OfService r \<Rightarrow> sr_kind r = ServiceOffline \<and> sr_changes r = [Changed j (inst_state i)] \<and>
          report_rows (sr_name r) (sr_changes r) (\<lambda>_. False) (sr_overview r) = [(''ser-user'', 0, [])]
      | _ \<Rightarrow> False"
  by (simp add: Let_def watched_services_def run_watch_step_def service_update_def new_service_watch_def known_of_def by_addr_def
      at_addr_def instanceDiff_def inst_state_def alive_count_def usable_def overview_def state_of_def Counts_def report_rows_def gone_def)

lemma find_in: "find P l = Some c \<Longrightarrow> c \<in> set l \<and> P c"
  by (induction l) (auto split: if_splits)

lemma instanceDiff_set:
  "c \<in> set (instanceDiff old cur) \<longleftrightarrow>
     (\<exists>i\<in>set cur. case at_addr old (ni_Addr i) of None \<Rightarrow> c = Added i
        | Some was \<Rightarrow> inst_state was \<noteq> inst_state i \<and> c = Changed i (inst_state was)) \<or>
     (\<exists>i\<in>set old. at_addr cur (ni_Addr i) = None \<and> c = Removed i)"
proof -
  have "(\<exists>i\<in>set cur. c \<in> set (case at_addr old (ni_Addr i) of None \<Rightarrow> [Added i]
        | Some was \<Rightarrow> if inst_state was \<noteq> inst_state i then [Changed i (inst_state was)] else [])) \<longleftrightarrow>
      (\<exists>i\<in>set cur. case at_addr old (ni_Addr i) of None \<Rightarrow> c = Added i
        | Some was \<Rightarrow> inst_state was \<noteq> inst_state i \<and> c = Changed i (inst_state was))"
    by (intro bex_cong refl) (auto split: option.split)
  moreover have "c \<in> set (instanceDiff old cur) \<longleftrightarrow>
     (\<exists>i\<in>set cur. c \<in> set (case at_addr old (ni_Addr i) of None \<Rightarrow> [Added i]
        | Some was \<Rightarrow> if inst_state was \<noteq> inst_state i then [Changed i (inst_state was)] else [])) \<or>
     (\<exists>i\<in>set old. at_addr cur (ni_Addr i) = None \<and> c = Removed i)"
    unfolding instanceDiff_def set_sort set_append set_concat set_map set_filter by blast
  ultimately show ?thesis by simp
qed

text \<open>An instance that came and can take requests is marked so.\<close>

lemma came_marked:
  assumes "in_order cur" and "i \<in> set (filter usable cur)" and "at_addr old (ni_Addr i) = None" and "name \<noteq> []"
    and "s \<in> set ov" and "s = state_of (name, cur)"
  shows "\<exists>lines. (name, st_Alive s, lines) \<in> set (report_rows name (instanceDiff old cur) this ov) \<and>
    LineCame (ni_Addr i) (this (name @ ''@'' @ ni_Addr i)) \<in> set lines"
proof -
  let ?cs = "instanceDiff old cur" and ?mine = "\<lambda>a. this (name @ ''@'' @ a)"
  have here: "name \<in> st_Name ` set ov" using assms(5,6) by (force simp: state_of_def)
  have row: "service_row name ?cs this s \<in> set (report_rows name ?cs this ov)"
    using assms(5) here by (simp add: report_rows_def Let_def)
  have c: "Added i \<in> set ?cs" using assms(2,3) unfolding instanceDiff_set by force
  have u: "c = Added i" if c: "c \<in> set ?cs" "change_addr c = ni_Addr i" for c
    using c(1) unfolding instanceDiff_set
  proof (elim disjE bexE)
    fix j
    assume j: "j \<in> set cur" "case at_addr old (ni_Addr j) of None \<Rightarrow> c = Added j
        | Some was \<Rightarrow> inst_state was \<noteq> inst_state j \<and> c = Changed j (inst_state was)"
    then have "ni_Addr j = ni_Addr i" using c(2) by (auto split: option.splits)
    with at_addr_mem [of cur j] at_addr_mem [of cur i] assms(1,2) j(1) have "j = i" by (auto simp: in_order_def)
    with j(2) assms(3) show ?thesis by simp
  next
    fix j
    assume "j \<in> set old" "at_addr cur (ni_Addr j) = None \<and> c = Removed j"
    with c(2) have "j \<in> set old" "ni_Addr j = ni_Addr i" by simp_all
    then have "ni_Addr i \<in> ni_Addr ` set old" by (metis imageI)
    with assms(3) at_addr_None [of old "ni_Addr i"] show ?thesis by simp
  qed
  have "mark_of ?cs (ni_Addr i) = Some (Added i)"
  proof (cases "mark_of ?cs (ni_Addr i)")
    case None
    with c show ?thesis by (auto simp: mark_of_def find_None_iff)
  next
    case (Some d)
    then have "d \<in> set ?cs" "change_addr d = ni_Addr i" unfolding mark_of_def by (auto dest: find_in)
    with u Some show ?thesis by simp
  qed
  then have "instance_line True ?cs ?mine (ni_Addr i) = LineCame (ni_Addr i) (?mine (ni_Addr i))" by (simp add: instance_line_def)
  moreover have "ni_Addr i \<in> set (st_Instances s)" "st_Name s = name" using assms(2,6) by (simp_all add: state_of_def)
  ultimately show ?thesis using row by (intro exI [of _ "snd (snd (service_row name ?cs this s))"]) (force simp: service_row_def)
qed

end
