(* ===== verification/DocsPage.thy ===== *)
theory DocsPage
  imports Prelude
begin

text \<open>
  The documentation page of \<^verbatim>\<open>hertzx/docs.go\<close>: the fetch hook its script installs
  (the token of a login kept in the browser and attached to the requests of the page), and
  what \<^verbatim>\<open>ServeDocs\<close> mounts: the document with the device headers of
  \<^verbatim>\<open>hertzx/docs_client.go\<close>, as YAML and as JSON. The server's answers are a parameter; header names compare
  without case, as the browser's \<^verbatim>\<open>Headers\<close> do.
\<close>

section \<open>Headers, requests and answers\<close>

type_synonym headers = "string \<Rightarrow> string option"

definition h_get :: "headers \<Rightarrow> string \<Rightarrow> string option" where
  "h_get h n = h (to_lower n)"

definition h_set :: "headers \<Rightarrow> string \<Rightarrow> string \<Rightarrow> headers" where
  "h_set h n v = h(to_lower n \<mapsto> v)"

text \<open>A value in a condition of JavaScript: null and the empty string are false.\<close>

definition truthy :: "string option \<Rightarrow> bool" where
  "truthy v \<longleftrightarrow> v \<noteq> None \<and> v \<noteq> Some []"

record web_request =
  url :: string
  req_headers :: headers

text \<open>
  The body of an answer as JSON, when it is: its \<^verbatim>\<open>data.access_token\<close> when that is a
  string, and its \<^verbatim>\<open>code\<close>.
\<close>

record doc_answer =
  access_token :: "string option"
  code :: "int option"

section \<open>The fetch hook\<close>

text \<open>\<open>tok\<close> is the entry of the page in \<^verbatim>\<open>localStorage\<close>.\<close>

definition remember :: "doc_answer option \<Rightarrow> string option \<Rightarrow> string option" where
  "remember d tok =
     (case d of
        None \<Rightarrow> tok
      | Some a \<Rightarrow>
          (let tok' = (case access_token a of Some t \<Rightarrow> Some t | None \<Rightarrow> tok)
           in if code a = Some 1004 \<or> code a = Some 1005 then None else tok'))"

definition sameOrigin :: "string \<Rightarrow> web_request \<Rightarrow> bool" where
  "sameOrigin origin req = has_prefix (url req) origin"

definition hook_headers :: "string \<Rightarrow> string option \<Rightarrow> headers \<Rightarrow> headers" where
  "hook_headers device tok h =
     (let h1 = (if truthy tok \<and> \<not> truthy (h_get h ''Authorization'')
                then h_set h ''Authorization'' (''Bearer '' @ the tok) else h)
      in if device \<noteq> [] \<and> \<not> truthy (h_get h1 ''X-Device-Type'')
         then h_set h1 ''X-Device-Type'' device else h1)"

definition hook_request :: "string \<Rightarrow> string \<Rightarrow> string option \<Rightarrow> web_request \<Rightarrow> web_request" where
  "hook_request origin device tok req =
     (if sameOrigin origin req then req\<lparr>req_headers := hook_headers device tok (req_headers req)\<rparr> else req)"

text \<open>One fetch: what is sent, and the token afterwards.\<close>

definition hook_fetch ::
  "string \<Rightarrow> string \<Rightarrow> (web_request \<Rightarrow> doc_answer option) \<Rightarrow> web_request \<Rightarrow> string option \<Rightarrow> web_request \<times> string option" where
  "hook_fetch origin device orig req tok =
     (let sent = hook_request origin device tok req
      in (sent, if sameOrigin origin req then remember (orig sent) tok else tok))"

section \<open>The document as a tree\<close>

text \<open>
  What \<^verbatim>\<open>yaml.Unmarshal\<close> makes of a document: scalars, lists, maps whose keys are all
  strings (\<^verbatim>\<open>map[string]any\<close>) and maps with other keys (\<^verbatim>\<open>map[any]any\<close>). \<open>YOther\<close>
  is a float or a time, with the text \<^verbatim>\<open>fmt.Sprint\<close> gives it.
\<close>

datatype yval =
    YNil | YBool bool | YInt int | YStr string | YOther string
  | YList "yval list"
  | YMap "(string \<times> yval) list"
  | YMapAny "(yval \<times> yval) list"

text \<open>\<^verbatim>\<open>fmt.Sprint\<close> of a key, which is never a list or a map.\<close>

fun sprint :: "yval \<Rightarrow> string" where
  "sprint YNil = ''<nil>''"
| "sprint (YBool b) = (if b then ''true'' else ''false'')"
| "sprint (YInt i) = show_int i"
| "sprint (YStr s) = s"
| "sprint (YOther t) = t"
| "sprint _ = []"

text \<open>A map in the order it is ranged over; a later entry of a key replaces the earlier one.\<close>

definition put_entry :: "string \<times> 'v \<Rightarrow> (string \<times> 'v) list \<Rightarrow> (string \<times> 'v) list" where
  "put_entry e m = filter (\<lambda>x. fst x \<noteq> fst e) m @ [e]"

fun normalize :: "yval \<Rightarrow> yval" where
  "normalize (YMap m) = YMap (map (\<lambda>(k, x). (k, normalize x)) m)"
| "normalize (YMapAny m) = YMap (fold put_entry (map (\<lambda>(k, x). (sprint k, normalize x)) m) [])"
| "normalize (YList xs) = YList (map normalize xs)"
| "normalize v = v"

text \<open>\<open>marshal\<close> is \<^verbatim>\<open>json.Marshal\<close>, \<open>unmarshal\<close> is \<^verbatim>\<open>yaml.Unmarshal\<close>.\<close>

definition yamlToJSON :: "(string \<Rightarrow> 'e + yval) \<Rightarrow> (yval \<Rightarrow> 'e + string) \<Rightarrow> string \<Rightarrow> 'e + string" where
  "yamlToJSON unmarshal marshal spec = (case unmarshal spec of Inl e \<Rightarrow> Inl e | Inr v \<Rightarrow> marshal (normalize v))"

text \<open>\<open>title_of\<close> is \<^verbatim>\<open>yaml.Unmarshal\<close> into the struct that holds \<^verbatim>\<open>info.title\<close>.\<close>

definition specTitle :: "(string \<Rightarrow> string option) \<Rightarrow> string \<Rightarrow> string" where
  "specTitle title_of spec = (case title_of spec of None \<Rightarrow> [] | Some t \<Rightarrow> trim_space t)"

section \<open>The device headers in the document\<close>

text \<open>A \<^verbatim>\<open>yaml.Node\<close>: the content of a mapping is its keys and values in turn.\<close>

datatype ykind = DocumentNode | SequenceNode | MappingNode | ScalarNode | AliasNode

datatype ynode = Node (kind: ykind) (tag: string) (ival: string) (content: "ynode list")

definition scalarNode :: "string \<Rightarrow> ynode" where
  "scalarNode v = Node ScalarNode [] v []"

definition refNode :: "string \<Rightarrow> ynode" where
  "refNode ref = Node MappingNode [] [] [scalarNode ''$ref'', scalarNode ref]"

definition headerParam :: "string \<Rightarrow> bool \<Rightarrow> string \<Rightarrow> ynode option \<Rightarrow> ynode" where
  "headerParam name required description enum =
     Node MappingNode [] []
       [scalarNode ''name'', scalarNode name, scalarNode ''in'', scalarNode ''header'',
        scalarNode ''required'', Node ScalarNode ''!!bool'' (if required then ''true'' else ''false'') [],
        scalarNode ''description'', scalarNode description,
        scalarNode ''schema'', Node MappingNode [] []
          ([scalarNode ''type'', scalarNode ''string''] @ (case enum of None \<Rightarrow> [] | Some e \<Rightarrow> [scalarNode ''enum'', e]))]"

definition isHTTPMethod :: "string \<Rightarrow> bool" where
  "isHTTPMethod s \<longleftrightarrow> s \<in> set [''get'', ''post'', ''put'', ''patch'', ''delete'', ''head'', ''options'']"

fun entry_in :: "string \<Rightarrow> ynode list \<Rightarrow> ynode option" where
  "entry_in key (k # v # r) = (if ival k = key then Some v else entry_in key r)"
| "entry_in key _ = None"

definition mapEntry :: "ynode option \<Rightarrow> string \<Rightarrow> ynode option" where
  "mapEntry m key = (case m of None \<Rightarrow> None
     | Some n \<Rightarrow> if kind n = MappingNode then entry_in key (content n) else None)"

text \<open>
  The code changes the value of an entry in place; here the change is applied to the first
  entry of the key, which is the one \<^verbatim>\<open>mapEntry\<close> finds.
\<close>

fun change_entry :: "string \<Rightarrow> (ynode \<Rightarrow> ynode) \<Rightarrow> ynode list \<Rightarrow> ynode list" where
  "change_entry key f (k # v # r) = (if ival k = key then k # f v # r else k # v # change_entry key f r)"
| "change_entry key f r = r"

definition append_content :: "ynode list \<Rightarrow> ynode \<Rightarrow> ynode" where
  "append_content xs n = Node (kind n) (tag n) (ival n) (content n @ xs)"

definition with_content :: "(ynode list \<Rightarrow> ynode list) \<Rightarrow> ynode \<Rightarrow> ynode" where
  "with_content f n = Node (kind n) (tag n) (ival n) (f (content n))"

text \<open>The entry of a key changed by \<open>f\<close>, added as an empty node of a kind first when it is missing.\<close>

definition at_entry :: "string \<Rightarrow> ykind \<Rightarrow> (ynode \<Rightarrow> ynode) \<Rightarrow> ynode \<Rightarrow> ynode" where
  "at_entry key kd f n =
     (case mapEntry (Some n) key of
        None \<Rightarrow> append_content [scalarNode key, f (Node kd [] [] [])] n
      | Some _ \<Rightarrow> with_content (change_entry key f) n)"

definition device_refs :: "ynode list" where
  "device_refs = [refNode ''#/components/parameters/XDeviceType'', refNode ''#/components/parameters/XDeviceId'']"

definition doc_operation :: "ynode \<Rightarrow> ynode" where
  "doc_operation op = at_entry ''parameters'' SequenceNode (append_content device_refs) op"

fun doc_methods :: "ynode list \<Rightarrow> ynode list" where
  "doc_methods (k # op # r) =
     k # (if \<not> isHTTPMethod (ival k) \<or> kind op \<noteq> MappingNode then op else doc_operation op) # doc_methods r"
| "doc_methods r = r"

fun doc_paths :: "ynode list \<Rightarrow> ynode list" where
  "doc_paths (k # item # r) =
     k # (if isFrameworkPath (ival k) \<or> kind item \<noteq> MappingNode then item else with_content doc_methods item) # doc_paths r"
| "doc_paths r = r"

text \<open>The descriptions are texts in Chinese, here parameters.\<close>

definition device_params :: "string \<Rightarrow> string \<Rightarrow> string list \<Rightarrow> bool \<Rightarrow> ynode list" where
  "device_params about_type about_id types required =
     [scalarNode ''XDeviceType'', headerParam ''X-Device-Type'' required about_type
        (Some (Node SequenceNode [] [] (map scalarNode types))),
      scalarNode ''XDeviceId'', headerParam ''X-Device-Id'' False about_id None]"

definition device_top :: "string \<Rightarrow> string \<Rightarrow> string list \<Rightarrow> bool \<Rightarrow> ynode \<Rightarrow> ynode" where
  "device_top about_type about_id types required n =
     (let n1 = (case mapEntry (Some n) ''paths'' of
            None \<Rightarrow> n
          | Some p \<Rightarrow> if kind p = MappingNode then with_content (change_entry ''paths'' (with_content doc_paths)) n else n)
      in at_entry ''components'' MappingNode
           (at_entry ''parameters'' MappingNode (append_content (device_params about_type about_id types required))) n1)"

definition withDeviceHeaders ::
  "string \<Rightarrow> string \<Rightarrow> (string \<Rightarrow> 'e + ynode) \<Rightarrow> (ynode \<Rightarrow> 'e + string) \<Rightarrow> string \<Rightarrow> string list \<Rightarrow> bool \<Rightarrow> 'e + string" where
  "withDeviceHeaders about_type about_id parse encode spec types required =
     (case parse spec of
        Inl e \<Rightarrow> Inl e
      | Inr doc \<Rightarrow>
          (case content doc of
             [] \<Rightarrow> Inr spec
           | n # r \<Rightarrow>
               if kind doc \<noteq> DocumentNode \<or> kind n \<noteq> MappingNode then Inr spec
               else encode (Node (kind doc) (tag doc) (ival doc) (device_top about_type about_id types required n # r))))"

section \<open>What is mounted\<close>

text \<open>
  \<open>page\<close> is the page with its title and the first device type filled in; \<open>suffix\<close> is what
  the title ends in. A document the device headers cannot be added to is served as it is.
\<close>

datatype docs_route = OpenapiYaml string | OpenapiJson string | DocsHtml string | ScalarJs

definition ServeDocs ::
  "bool \<Rightarrow> string \<Rightarrow> string \<Rightarrow> string list \<Rightarrow> (string \<Rightarrow> 'e + string) \<Rightarrow> (string \<Rightarrow> 'e + string) \<Rightarrow>
   (string \<Rightarrow> string option) \<Rightarrow> (string \<Rightarrow> string \<Rightarrow> string) \<Rightarrow> string \<Rightarrow> docs_route list" where
  "ServeDocs enabled service suffix types add_headers to_json title_of page spec =
     (if \<not> enabled \<or> spec = [] then []
      else
        (let device = (case types of [] \<Rightarrow> [] | t # _ \<Rightarrow> t);
             spec1 = (if types = [] then spec else case add_headers spec of Inl _ \<Rightarrow> spec | Inr s \<Rightarrow> s);
             title = (if specTitle title_of spec1 = [] then service else specTitle title_of spec1)
         in [OpenapiYaml spec1] @ (case to_json spec1 of Inl _ \<Rightarrow> [] | Inr j \<Rightarrow> [OpenapiJson j]) @
            [DocsHtml (page (title @ suffix) device), ScalarJs]))"

section \<open>Lemmas on the document\<close>

text \<open>A place in a tree: the entries and the items that lead to it.\<close>

datatype ystep = Key yval | Index nat

fun yat :: "yval \<Rightarrow> ystep list \<Rightarrow> yval option" where
  "yat v [] = Some v"
| "yat (YMap m) (Key (YStr k) # p) = (case map_of m k of None \<Rightarrow> None | Some x \<Rightarrow> yat x p)"
| "yat (YMapAny m) (Key k # p) = (case map_of m k of None \<Rightarrow> None | Some x \<Rightarrow> yat x p)"
| "yat (YList xs) (Index i # p) = (if i < length xs then yat (xs ! i) p else None)"
| "yat _ _ = None"

fun text_step :: "ystep \<Rightarrow> ystep" where
  "text_step (Key k) = Key (YStr (sprint k))"
| "text_step (Index i) = Index i"

text \<open>What JSON can hold, and trees no map of which has two keys with the same text.\<close>

fun json_value :: "yval \<Rightarrow> bool" where
  "json_value (YMapAny m) = False"
| "json_value (YMap m) = (distinct (map fst m) \<and> (\<forall>e \<in> set m. json_value (snd e)))"
| "json_value (YList xs) = (\<forall>x \<in> set xs. json_value x)"
| "json_value _ = True"

fun keys_apart :: "yval \<Rightarrow> bool" where
  "keys_apart (YMapAny m) = (distinct (map (sprint \<circ> fst) m) \<and> (\<forall>e \<in> set m. keys_apart (snd e)))"
| "keys_apart (YMap m) = (distinct (map fst m) \<and> (\<forall>e \<in> set m. keys_apart (snd e)))"
| "keys_apart (YList xs) = (\<forall>x \<in> set xs. keys_apart x)"
| "keys_apart _ = True"

lemma put_entry_new: "fst e \<notin> fst ` set m \<Longrightarrow> put_entry e m = m @ [e]"
  by (cases e) (force simp: put_entry_def filter_id_conv)

lemma fold_put_entry:
  "distinct (map fst (m @ es)) \<Longrightarrow> fold put_entry es m = m @ es"
  by (induction es arbitrary: m) (simp_all add: put_entry_new)

lemma put_entry_distinct: "distinct (map fst m) \<Longrightarrow> distinct (map fst (put_entry e m))"
  by (induction m) (auto simp: put_entry_def)

lemma fold_put_entry_distinct: "distinct (map fst m) \<Longrightarrow> distinct (map fst (fold put_entry es m))"
  by (induction es arbitrary: m) (simp_all add: put_entry_distinct)

lemma set_fold_put_entry: "set (fold put_entry es m) \<subseteq> set m \<union> set es"
proof (induction es arbitrary: m)
  case (Cons e es)
  have "set (put_entry e m) \<subseteq> set m \<union> {e}" by (auto simp: put_entry_def)
  with Cons [of "put_entry e m"] show ?case by auto
qed simp

lemma normalize_any:
  assumes "distinct (map (sprint \<circ> fst) m)"
  shows "normalize (YMapAny m) = YMap (map (\<lambda>(k, x). (sprint k, normalize x)) m)"
  using assms fold_put_entry [of "[]" "map (\<lambda>(k, x). (sprint k, normalize x)) m"]
  by (simp add: case_prod_unfold comp_def)

text \<open>String keys only, whatever the document, as long as the maps read have distinct keys.\<close>

fun maps_ok :: "yval \<Rightarrow> bool" where
  "maps_ok (YMapAny m) = (\<forall>e \<in> set m. maps_ok (snd e))"
| "maps_ok (YMap m) = (distinct (map fst m) \<and> (\<forall>e \<in> set m. maps_ok (snd e)))"
| "maps_ok (YList xs) = (\<forall>x \<in> set xs. maps_ok x)"
| "maps_ok _ = True"

lemma normalize_json: "maps_ok v \<Longrightarrow> json_value (normalize v)"
proof (induction v rule: normalize.induct)
  case (1 m)
  then show ?case by (fastforce simp: case_prod_unfold comp_def)
next
  case (2 m)
  let ?es = "map (\<lambda>(k, x). (sprint k, normalize x)) m"
  have "json_value (snd e)" if "e \<in> set (fold put_entry ?es [])" for e
    using that set_fold_put_entry [of ?es "[]"] 2 by fastforce
  then show ?case using fold_put_entry_distinct [of "[]" ?es] by simp
qed auto

lemma normalize_id: "json_value v \<Longrightarrow> normalize v = v"
proof (induction v rule: normalize.induct)
  case (1 m)
  then have "map (\<lambda>(k, x). (k, normalize x)) m = m"
    by (intro map_idI) force
  then show ?case by simp
next
  case (3 xs)
  then show ?case by (simp add: map_idI)
qed auto

lemma map_of_text:
  assumes "distinct (map (sprint \<circ> fst) m)" and "map_of m k = Some x"
  shows "map_of (map (\<lambda>(k, x). (sprint k, normalize x)) m) (sprint k) = Some (normalize x)"
  using assms by (intro map_of_is_SomeI) (force simp: case_prod_unfold comp_def dest: map_of_SomeD)+

lemma normalize_at:
  "keys_apart v \<Longrightarrow> yat v p = Some x \<Longrightarrow> yat (normalize v) (map text_step p) = Some (normalize x)"
proof (induction v p arbitrary: x rule: yat.induct)
  case (2 m k p)
  then obtain y where y: "map_of m k = Some y" "yat y p = Some x" by (auto split: option.splits)
  then have "keys_apart y" using "2.prems"(1) by (auto dest!: map_of_SomeD)
  with 2 y show ?case by (simp add: map_of_map)
next
  case (3 m k p)
  then obtain y where y: "map_of m k = Some y" "yat y p = Some x" by (auto split: option.splits)
  then have "keys_apart y" using "3.prems"(1) by (auto dest!: map_of_SomeD)
  moreover have "distinct (map (sprint \<circ> fst) m)" using "3.prems"(1) by simp
  ultimately show ?case
    using 3 y map_of_text [of m k y] by (simp add: normalize_any del: normalize.simps(2))
next
  case (4 xs i p)
  then show ?case by (auto split: if_splits)
qed auto

text \<open>Content with a value for every key.\<close>

definition entries_ok :: "ynode \<Rightarrow> bool" where
  "entries_ok n \<longleftrightarrow> kind n = MappingNode \<and> even (length (content n))"

lemma empty_mapping [simp]: "entries_ok (Node MappingNode [] [] [])" "mapEntry (Some (Node MappingNode [] [] [])) key = None"
  by (simp_all add: entries_ok_def mapEntry_def)

lemma kind_append_content [simp]: "kind (append_content xs n) = kind n"
  and content_append_content [simp]: "content (append_content xs n) = content n @ xs"
  and kind_with_content [simp]: "kind (with_content f n) = kind n"
  and content_with_content [simp]: "content (with_content f n) = f (content n)"
  by (simp_all add: append_content_def with_content_def)

lemma ival_scalarNode [simp]: "ival (scalarNode v) = v"
  by (simp add: scalarNode_def)

lemma entry_in_append:
  "even (length xs) \<Longrightarrow> entry_in key (xs @ ys) = (case entry_in key xs of None \<Rightarrow> entry_in key ys | Some v \<Rightarrow> Some v)"
  by (induction key xs rule: entry_in.induct) auto

lemma entry_in_change: "entry_in key (change_entry key f xs) = map_option f (entry_in key xs)"
  by (induction key f xs rule: change_entry.induct) auto

lemma entry_in_change_other: "key \<noteq> key' \<Longrightarrow> entry_in key (change_entry key' f xs) = entry_in key xs"
  by (induction key' f xs rule: change_entry.induct) auto

lemma length_change_entry [simp]: "length (change_entry key f xs) = length xs"
  by (induction key f xs rule: change_entry.induct) auto

lemma entry_in_doc_methods:
  "entry_in m (doc_methods xs) = (case entry_in m xs of None \<Rightarrow> None
     | Some op \<Rightarrow> Some (if \<not> isHTTPMethod m \<or> kind op \<noteq> MappingNode then op else doc_operation op))"
  by (induction xs rule: doc_methods.induct) auto

lemma entry_in_doc_paths:
  "entry_in p (doc_paths xs) = (case entry_in p xs of None \<Rightarrow> None
     | Some item \<Rightarrow> Some (if isFrameworkPath p \<or> kind item \<noteq> MappingNode then item else with_content doc_methods item))"
  by (induction xs rule: doc_paths.induct) auto

lemma mapEntry_at_entry:
  assumes "entries_ok n"
  shows "mapEntry (Some (at_entry key kd f n)) key
    = Some (f (case mapEntry (Some n) key of None \<Rightarrow> Node kd [] [] [] | Some v \<Rightarrow> v))"
  using assms by (auto simp: at_entry_def mapEntry_def entries_ok_def entry_in_append entry_in_change split: option.splits)

lemma mapEntry_at_entry_other:
  assumes "entries_ok n" and "key \<noteq> key'"
  shows "mapEntry (Some (at_entry key' kd f n)) key = mapEntry (Some n) key"
  using assms by (auto simp: at_entry_def mapEntry_def entries_ok_def entry_in_append entry_in_change_other split: option.splits)

lemma entries_ok_with_content:
  "entries_ok n \<Longrightarrow> entries_ok (with_content (change_entry key f) n)"
  by (simp add: entries_ok_def)

text \<open>The operation of a method on a path of a document, and the parameters it lists.\<close>

definition operation_at :: "ynode \<Rightarrow> string \<Rightarrow> string \<Rightarrow> ynode option" where
  "operation_at n path m = mapEntry (mapEntry (mapEntry (Some n) ''paths'') path) m"

definition parameters_of :: "ynode \<Rightarrow> ynode list" where
  "parameters_of op = (case mapEntry (Some op) ''parameters'' of None \<Rightarrow> [] | Some v \<Rightarrow> content v)"

text \<open>The parameter components of a document.\<close>

definition component_parameter :: "ynode \<Rightarrow> string \<Rightarrow> ynode option" where
  "component_parameter n name = mapEntry (mapEntry (mapEntry (Some n) ''components'') ''parameters'') name"

lemma parameters_of_doc_operation: "entries_ok op \<Longrightarrow> parameters_of (doc_operation op) = parameters_of op @ device_refs"
  by (auto simp: parameters_of_def doc_operation_def mapEntry_at_entry split: option.splits)

lemma operation_at_device_top:
  assumes "entries_ok n" and "operation_at n path m = Some op"
  shows "operation_at (device_top ta ai types required n) path m
    = Some (if isFrameworkPath path \<or> \<not> isHTTPMethod m \<or> kind op \<noteq> MappingNode then op else doc_operation op)"
proof -
  obtain ps item where ps: "mapEntry (Some n) ''paths'' = Some ps" "kind ps = MappingNode"
    and item: "entry_in path (content ps) = Some item" "kind item = MappingNode" "entry_in m (content item) = Some op"
    using assms(2) by (auto simp: operation_at_def mapEntry_def split: option.splits if_splits)
  let ?n1 = "with_content (change_entry ''paths'' (with_content doc_paths)) n"
  have "mapEntry (Some ?n1) ''paths'' = Some (with_content doc_paths ps)"
    using ps by (auto simp: mapEntry_def entry_in_change split: if_splits)
  then have "mapEntry (Some (device_top ta ai types required n)) ''paths'' = Some (with_content doc_paths ps)"
    using ps entries_ok_with_content [OF assms(1)] by (simp add: device_top_def Let_def mapEntry_at_entry_other)
  then show ?thesis
    using ps item by (auto simp: operation_at_def mapEntry_def entry_in_doc_paths entry_in_doc_methods)
qed

lemma component_parameter_device_top:
  assumes "entries_ok n"
    and comp: "\<And>c. mapEntry (Some n) ''components'' = Some c \<Longrightarrow> entries_ok c"
    and params: "\<And>c q. mapEntry (Some n) ''components'' = Some c \<Longrightarrow> mapEntry (Some c) ''parameters'' = Some q \<Longrightarrow> entries_ok q"
    and free: "component_parameter n name = None"
  shows "component_parameter (device_top ta ai types required n) name = entry_in name (device_params ta ai types required)"
proof -
  let ?f = "append_content (device_params ta ai types required)"
  define n1 where "n1 = (case mapEntry (Some n) ''paths'' of
      None \<Rightarrow> n
    | Some p \<Rightarrow> if kind p = MappingNode then with_content (change_entry ''paths'' (with_content doc_paths)) n else n)"
  have n1: "device_top ta ai types required n
      = at_entry ''components'' MappingNode (at_entry ''parameters'' MappingNode ?f) n1"
    unfolding device_top_def Let_def n1_def by (rule refl)
  have ok1: "entries_ok n1"
    using assms(1) entries_ok_with_content [OF assms(1)] by (simp add: n1_def split: option.split)
  have same: "mapEntry (Some n1) ''components'' = mapEntry (Some n) ''components''"
    by (simp add: n1_def mapEntry_def entry_in_change_other split: option.split)
  define c where "c = (case mapEntry (Some n) ''components'' of None \<Rightarrow> Node MappingNode [] [] [] | Some v \<Rightarrow> v)"
  have c_ok: "entries_ok c"
    by (cases "mapEntry (Some n) ''components''") (simp_all add: c_def comp)
  define q where "q = (case mapEntry (Some c) ''parameters'' of None \<Rightarrow> Node MappingNode [] [] [] | Some v \<Rightarrow> v)"
  have q_ok: "entries_ok q"
  proof (cases "mapEntry (Some n) ''components''")
    case None
    then show ?thesis by (simp add: q_def c_def)
  next
    case (Some x)
    then show ?thesis
      by (cases "mapEntry (Some x) ''parameters''") (simp_all add: q_def c_def params)
  qed
  have q_free: "entry_in name (content q) = None"
  proof (cases "mapEntry (Some n) ''components''")
    case None
    then show ?thesis by (simp add: q_def c_def)
  next
    case (Some x)
    then have c: "c = x" by (simp add: c_def)
    show ?thesis
    proof (cases "mapEntry (Some x) ''parameters''")
      case None
      with c show ?thesis by (simp add: q_def)
    next
      case (Some y)
      with c have "q = y" by (simp add: q_def)
      with free Some \<open>mapEntry (Some n) ''components'' = Some x\<close> q_ok show ?thesis
        by (simp add: component_parameter_def mapEntry_def [of "Some y"] entries_ok_def)
    qed
  qed
  have "mapEntry (Some (device_top ta ai types required n)) ''components'' = Some (at_entry ''parameters'' MappingNode ?f c)"
    using n1 mapEntry_at_entry [OF ok1] same by (simp add: c_def)
  moreover have "mapEntry (Some (at_entry ''parameters'' MappingNode ?f c)) ''parameters'' = Some (?f q)"
    using mapEntry_at_entry [OF c_ok] by (simp add: q_def)
  ultimately show ?thesis
    using q_ok q_free by (simp add: component_parameter_def mapEntry_def entries_ok_def entry_in_append)
qed

section \<open>Properties\<close>

lemma names_differ: "to_lower ''X-Device-Type'' \<noteq> to_lower ''Authorization''"
  by code_simp

text \<open>
  The token is for everything that starts like the page's origin. A request to an
  address that does not start with the origin leaves as it was and its answer cannot change
  the token, and an \<^verbatim>\<open>Authorization\<close> the reader filled in is never replaced. But any
  address that merely begins with the origin's text gets the token, another host among
  them: with the origin \<^verbatim>\<open>https://gw\<close>, so does \<^verbatim>\<open>https://gw.evil.example/\<close>.
\<close>

lemma docs_token_by_prefix:
  "(\<not> has_prefix (url req) origin \<longrightarrow> hook_fetch origin device orig req tok = (req, tok)) \<and>
   (truthy (h_get (req_headers req) ''Authorization'') \<longrightarrow>
      h_get (req_headers (fst (hook_fetch origin device orig req tok))) ''Authorization''
        = h_get (req_headers req) ''Authorization'') \<and>
   h_get (req_headers (fst (hook_fetch origin device orig
       \<lparr>url = origin @ ''.evil.example/'', req_headers = Map.empty\<rparr> (Some (CHR ''t'' # t))))) ''Authorization''
     = Some (''Bearer t'' @ t)"
  using names_differ
  by (simp add: hook_fetch_def hook_request_def sameOrigin_def hook_headers_def h_get_def h_set_def Let_def truthy_def)

lemma docs_token_by_prefix_witness:
  "hook_fetch ''https://gw'' [] (\<lambda>_. Some \<lparr>access_token = None, code = Some 1004\<rparr>)
     \<lparr>url = ''http://other/'', req_headers = Map.empty\<rparr> (Some ''t'')
   = (\<lparr>url = ''http://other/'', req_headers = Map.empty\<rparr>, Some ''t'')"
  using docs_token_by_prefix [of "\<lparr>url = ''http://other/'', req_headers = Map.empty\<rparr>" "''https://gw''" "[]"
      "\<lambda>_. Some \<lparr>access_token = None, code = Some 1004\<rparr>" "Some ''t''"]
  by simp

text \<open>
  C39. The JSON document holds what the YAML document holds. Whatever tree is read, what is
  handed to the encoder has string keys only and each once, at every depth; a tree that has
  them already stays as it is; and when no two keys of a map have the same text, what the
  tree holds at a place is found at the place with the keys' texts.
\<close>

theorem normalize_typed:
  assumes "maps_ok v"
  shows "json_value (normalize v) \<and> (json_value v \<longrightarrow> normalize v = v) \<and>
    (\<forall>p x. keys_apart v \<longrightarrow> yat v p = Some x \<longrightarrow> yat (normalize v) (map text_step p) = Some (normalize x))"
  using normalize_json [OF assms] normalize_id normalize_at by blast

theorem normalize_typed_witness:
  "let v = YMap [(''responses'', YMapAny [(YInt 200, YList [YStr ''ok'']), (YStr ''default'', YNil)])]
   in json_value (normalize v) \<and>
      yat (normalize v) [Key (YStr ''responses''), Key (YStr ''200''), Index 0] = Some (YStr ''ok'')"
proof -
  let ?v = "YMap [(''responses'', YMapAny [(YInt 200, YList [YStr ''ok'']), (YStr ''default'', YNil)])]"
  have n: "show_int 200 = ''200''" by code_simp
  have ok: "maps_ok ?v" "keys_apart ?v" by (simp_all add: n)
  have at: "yat ?v [Key (YStr ''responses''), Key (YInt 200), Index 0] = Some (YStr ''ok'')" by simp
  have "json_value (normalize ?v) \<and>
      yat (normalize ?v) (map text_step [Key (YStr ''responses''), Key (YInt 200), Index 0]) = Some (normalize (YStr ''ok''))"
    using normalize_typed [OF ok(1)] ok(2) at by blast
  then show ?thesis by (simp add: n Let_def)
qed

text \<open>
  Every operation of the served document says which headers the gateway reads. With a
  document whose parameter components, if any, are a mapping without the two names,
  each operation outside the framework's own paths refers to both parameters after those it
  listed, the two references lead to the parameters added, the device type's with the
  configured types and whether it is required, and the operations of the framework's paths
  are as they were.
\<close>

lemma device_headers_documented:
  assumes ok: "entries_ok n"
    and comp: "\<And>c. mapEntry (Some n) ''components'' = Some c \<Longrightarrow> entries_ok c"
    and params: "\<And>c q. mapEntry (Some n) ''components'' = Some c \<Longrightarrow> mapEntry (Some c) ''parameters'' = Some q \<Longrightarrow> entries_ok q"
    and free: "component_parameter n ''XDeviceType'' = None" "component_parameter n ''XDeviceId'' = None"
    and op: "operation_at n path m = Some op" "isHTTPMethod m" "entries_ok op"
  shows "(\<exists>op'. operation_at (device_top ta ai types required n) path m = Some op' \<and>
      (if isFrameworkPath path then op' = op else parameters_of op' = parameters_of op @ device_refs)) \<and>
    component_parameter (device_top ta ai types required n) ''XDeviceType''
      = Some (headerParam ''X-Device-Type'' required ta (Some (Node SequenceNode [] [] (map scalarNode types)))) \<and>
    component_parameter (device_top ta ai types required n) ''XDeviceId''
      = Some (headerParam ''X-Device-Id'' False ai None)"
  using operation_at_device_top [OF ok op(1), of ta ai types required] op(2,3)
    component_parameter_device_top [OF ok comp params free(1), where ta = ta and ai = ai and types = types and required = required]
    component_parameter_device_top [OF ok comp params free(2), where ta = ta and ai = ai and types = types and required = required]
    parameters_of_doc_operation [OF op(3)]
  by (simp add: entries_ok_def device_params_def)

theorem device_headers_documented_witness:
  "let s = scalarNode; mapping = Node MappingNode [] [];
       doc = mapping [s ''paths'', mapping [s ''/v1/orders'', mapping [s ''get'', mapping [s ''summary'', s ''list'']]]]
   in \<exists>op. operation_at (device_top [] [] [''PC'', ''iOS''] True doc) ''/v1/orders'' ''get'' = Some op \<and>
        parameters_of op = device_refs"
proof -
  let ?s = scalarNode and ?m = "Node MappingNode [] []"
  let ?op = "?m [?s ''summary'', ?s ''list'']"
  let ?doc = "?m [?s ''paths'', ?m [?s ''/v1/orders'', ?m [?s ''get'', ?op]]]"
  have f: "\<not> isFrameworkPath ''/v1/orders''" by (simp add: isFrameworkPath_def)
  show ?thesis
    using device_headers_documented [of ?doc "''/v1/orders''" "''get''" ?op "[]" "[]" "[''PC'', ''iOS'']" True] f
    by (simp add: entries_ok_def mapEntry_def component_parameter_def operation_at_def isHTTPMethod_def parameters_of_def Let_def)
qed

end
