(* ===== verification/DocsThemes.thy ===== *)
theory DocsThemes
  imports Prelude
begin

text \<open>
  The colour themes of the documentation page: the style sheets in
  \<^verbatim>\<open>hertzx/docs/scalar.js\<close> (the bundle that \<^verbatim>\<open>hertzx/docs.go\<close> embeds and
  serves), its table of themes and the function that picks one. A style sheet is the list
  of its rules in order, a value the list of its texts and of the \<^verbatim>\<open>var(--...)\<close> it
  reads; \<open>Scalar n\<close> is the custom property \<^verbatim>\<open>--scalar-n\<close>. Comments and line
  breaks are dropped. The definitions keep the minified names of the bundle; a sheet of
  more than 150 lines is in parts.
\<close>

section \<open>Style sheets\<close>

datatype css_name = Scalar string | Prop string
datatype css_part = Txt string | Var css_name

type_synonym css_decl = "css_name \<times> css_part list"

text \<open>A rule with its selectors, an at-rule with declarations, an at-rule with rules.\<close>

datatype css_rule =
    Rule "string list" "css_decl list"
  | AtDecls string "css_decl list"
  | AtRules string "css_rule list"

type_synonym stylesheet = "css_rule list"

section \<open>The themes\<close>


definition Rin :: stylesheet where
  "Rin = [
    Rule ['':root'']
      [(Scalar ''text-decoration'', [Txt ''underline'']),
       (Scalar ''text-decoration-hover'', [Txt ''underline''])],
    Rule [''.dark-mode'']
      [(Scalar ''background-1'', [Txt ''#131313'']),
       (Scalar ''background-2'', [Txt ''#1d1d1d'']),
       (Scalar ''background-3'', [Txt ''#272727'']),
       (Scalar ''background-card'', [Txt ''#1d1d1d'']),
       (Scalar ''color-1'', [Txt ''rgba(255, 255, 255, 0.9)'']),
       (Scalar ''color-2'', [Txt ''rgba(255, 255, 255, 0.62)'']),
       (Scalar ''color-3'', [Txt ''rgba(255, 255, 255, 0.44)'']),
       (Scalar ''color-accent'', [Var (Scalar ''color-1'')]),
       (Scalar ''background-accent'', [Var (Scalar ''background-3'')]),
       (Scalar ''border-color'', [Txt ''#2a2b2a''])],
    Rule [''.light-mode'', ''.light-mode .dark-mode'']
      [(Scalar ''background-1'', [Txt ''#f9f9f9'']),
       (Scalar ''background-2'', [Txt ''#f1f1f1'']),
       (Scalar ''background-3'', [Txt ''#e7e7e7'']),
       (Scalar ''background-card'', [Txt ''#fff'']),
       (Scalar ''color-1'', [Txt ''#1b1b1b'']),
       (Scalar ''color-2'', [Txt ''#6d6d6d'']),
       (Scalar ''color-3'', [Txt ''#8e8e8e'']),
       (Scalar ''color-accent'', [Var (Scalar ''color-1'')]),
       (Scalar ''background-accent'', [Var (Scalar ''background-3'')]),
       (Scalar ''border-color'', [Txt ''rgba(0, 0, 0, 0.1)''])],
    Rule [''.t-doc__sidebar'']
      [(Scalar ''color-green'', [Var (Scalar ''color-1'')]),
       (Scalar ''color-red'', [Var (Scalar ''color-1'')]),
       (Scalar ''color-yellow'', [Var (Scalar ''color-1'')]),
       (Scalar ''color-blue'', [Var (Scalar ''color-1'')]),
       (Scalar ''color-orange'', [Var (Scalar ''color-1'')]),
       (Scalar ''color-purple'', [Var (Scalar ''color-1'')]),
       (Scalar ''color-query'', [Var (Scalar ''color-1'')])],
    Rule [''.light-mode .t-doc__sidebar'', ''.dark-mode .t-doc__sidebar'']
      [(Scalar ''sidebar-background-1'', [Var (Scalar ''background-1'')]),
       (Scalar ''sidebar-color-1'', [Var (Scalar ''color-1'')]),
       (Scalar ''sidebar-color-2'', [Var (Scalar ''color-2'')]),
       (Scalar ''sidebar-border-color'', [Var (Scalar ''border-color'')]),
       (Scalar ''sidebar-item-hover-background'', [Var (Scalar ''background-2'')]),
       (Scalar ''sidebar-item-hover-color'', [Txt ''currentColor'']),
       (Scalar ''sidebar-item-active-background'', [Var (Scalar ''background-accent'')]),
       (Scalar ''sidebar-color-active'', [Var (Scalar ''color-accent'')]),
       (Scalar ''sidebar-search-background'', [Txt ''transparent'']),
       (Scalar ''sidebar-search-color'', [Var (Scalar ''color-3'')]),
       (Scalar ''sidebar-search-border-color'', [Var (Scalar ''border-color'')])],
    Rule [''.light-mode .dark-mode'', ''.light-mode'']
      [(Scalar ''color-green'', [Txt ''#069061'']),
       (Scalar ''color-red'', [Txt ''#ef0006'']),
       (Scalar ''color-yellow'', [Txt ''#edbe20'']),
       (Scalar ''color-blue'', [Txt ''#0071bb'']),
       (Scalar ''color-orange'', [Txt ''#fb892c'']),
       (Scalar ''color-purple'', [Txt ''#5203d1'']),
       (Scalar ''color-query'', [Txt ''#007b80'']),
       (Scalar ''button-1'', [Txt ''rgba(0, 0, 0, 1)'']),
       (Scalar ''button-1-hover'', [Txt ''rgba(0, 0, 0, 0.8)'']),
       (Scalar ''button-1-color'', [Txt ''#fff''])],
    Rule [''.dark-mode'']
      [(Scalar ''color-green'', [Txt ''#00b648'']),
       (Scalar ''color-red'', [Txt ''#dd2f2c'']),
       (Scalar ''color-yellow'', [Txt ''#ffc90d'']),
       (Scalar ''color-blue'', [Txt ''#4eb3ec'']),
       (Scalar ''color-orange'', [Txt ''#ff8d4d'']),
       (Scalar ''color-purple'', [Txt ''#b191f9'']),
       (Scalar ''color-query'', [Txt ''#65d4cf'']),
       (Scalar ''button-1'', [Txt ''rgba(255, 255, 255, 1)'']),
       (Scalar ''button-1-hover'', [Txt ''rgba(255, 255, 255, 0.9)'']),
       (Scalar ''button-1-color'', [Txt ''black''])],
    Rule [''.scalar-api-client__item'', ''.scalar-card'', ''.dark-mode .dark-mode.scalar-card'']
      [(Scalar ''background-1'', [Var (Scalar ''background-card'')]),
       (Scalar ''background-2'', [Var (Scalar ''background-1'')]),
       (Scalar ''background-3'', [Var (Scalar ''background-1'')])],
    Rule [''.dark-mode .dark-mode.scalar-card'']
      [(Scalar ''background-3'', [Var (Scalar ''background-3'')])],
    Rule [''.light-mode *::selection'']
      [(Prop ''background-color'', [Txt ''color-mix(in srgb, '', Var (Scalar ''color-blue''), Txt '', transparent 70%)''])],
    Rule [''.dark-mode *::selection'']
      [(Prop ''background-color'', [Txt ''color-mix(in srgb, '', Var (Scalar ''color-blue''), Txt '', transparent 50%)''])]]"

definition zin_1 :: stylesheet where
  "zin_1 = [
    Rule ['':root'']
      [(Scalar ''text-decoration'', [Txt ''underline'']),
       (Scalar ''text-decoration-hover'', [Txt ''underline''])],
    Rule [''.light-mode'']
      [(Scalar ''background-1'', [Txt ''#f0f2f5'']),
       (Scalar ''background-2'', [Txt ''#eaecf0'']),
       (Scalar ''background-3'', [Txt ''#e0e2e6'']),
       (Scalar ''border-color'', [Txt ''rgb(213 213 213)'']),
       (Scalar ''color-1'', [Txt ''rgb(9, 9, 11)'']),
       (Scalar ''color-2'', [Txt ''rgb(105, 105, 112)'']),
       (Scalar ''color-3'', [Txt ''rgba(25, 25, 28, 0.5)'']),
       (Scalar ''color-accent'', [Var (Scalar ''color-1'')]),
       (Scalar ''background-accent'', [Txt ''#8ab4f81f''])],
    Rule [''.light-mode .scalar-card.dark-mode'', ''.dark-mode'']
      [(Scalar ''background-1'', [Txt ''#000e23'']),
       (Scalar ''background-2'', [Txt ''#01132e'']),
       (Scalar ''background-3'', [Txt ''#03193b'']),
       (Scalar ''border-color'', [Txt ''#2e394c'']),
       (Scalar ''color-1'', [Txt ''#fafafa'']),
       (Scalar ''color-2'', [Txt ''rgb(161, 161, 170)'']),
       (Scalar ''color-3'', [Txt ''rgba(255, 255, 255, 0.533)'']),
       (Scalar ''color-accent'', [Var (Scalar ''color-1'')]),
       (Scalar ''background-accent'', [Txt ''#8ab4f81f'']),
       (Scalar ''code-language-color-supersede'', [Var (Scalar ''color-1'')])],
    Rule [''.light-mode .t-doc__sidebar'', ''.dark-mode .t-doc__sidebar'']
      [(Scalar ''sidebar-background-1'', [Var (Scalar ''background-1'')]),
       (Scalar ''sidebar-color-1'', [Var (Scalar ''color-1'')]),
       (Scalar ''sidebar-color-2'', [Var (Scalar ''color-2'')]),
       (Scalar ''sidebar-border-color'', [Var (Scalar ''border-color'')]),
       (Scalar ''sidebar-item-hover-background'', [Var (Scalar ''background-2'')]),
       (Scalar ''sidebar-item-hover-color'', [Txt ''currentColor'']),
       (Scalar ''sidebar-item-active-background'', [Var (Scalar ''background-3'')]),
       (Scalar ''sidebar-color-active'', [Var (Scalar ''color-accent'')]),
       (Scalar ''sidebar-search-background'', [Txt ''rgba(255, 255, 255, 0.1)'']),
       (Scalar ''sidebar-search-border-color'', [Var (Scalar ''border-color'')]),
       (Scalar ''sidebar-search-color'', [Var (Scalar ''color-3'')]),
       (Prop ''z-index'', [Txt ''1''])],
    Rule [''.light-mode .t-doc__sidebar'']
      [(Scalar ''sidebar-search-background'', [Txt ''white''])],
    Rule [''.light-mode'']
      [(Scalar ''color-green'', [Txt ''#069061'']),
       (Scalar ''color-red'', [Txt ''#ef0006'']),
       (Scalar ''color-yellow'', [Txt ''#edbe20'']),
       (Scalar ''color-blue'', [Txt ''#006db5'']),
       (Scalar ''color-orange'', [Txt ''#fb892c'']),
       (Scalar ''color-purple'', [Txt ''#5203d1'']),
       (Scalar ''color-query'', [Txt ''#007b80'']),
       (Scalar ''button-1'', [Txt ''rgba(0, 0, 0, 1)'']),
       (Scalar ''button-1-hover'', [Txt ''rgba(0, 0, 0, 0.8)'']),
       (Scalar ''button-1-color'', [Txt ''#fff''])],
    Rule [''.dark-mode'']
      [(Scalar ''color-green'', [Txt ''rgba(69, 255, 165, 0.823)'']),
       (Scalar ''color-red'', [Txt ''#ff8589'']),
       (Scalar ''color-yellow'', [Txt ''#ffcc4d'']),
       (Scalar ''color-blue'', [Txt ''#6bc1fe'']),
       (Scalar ''color-orange'', [Txt ''#f98943'']),
       (Scalar ''color-purple'', [Txt ''#b191f9'']),
       (Scalar ''color-query'', [Txt ''#79e2da'']),
       (Scalar ''button-1'', [Txt ''rgba(255, 255, 255, 1)'']),
       (Scalar ''button-1-hover'', [Txt ''rgba(255, 255, 255, 0.9)'']),
       (Scalar ''button-1-color'', [Txt ''black''])],
    AtRules ''@keyframes headerbackground'' [
      Rule [''from'']
        [(Prop ''background'', [Txt ''transparent'']),
         (Prop ''backdrop-filter'', [Txt ''none''])],
      Rule [''to'']
        [(Prop ''background'', [Var (Scalar ''header-background-1'')]),
         (Prop ''backdrop-filter'', [Txt ''blur(12px)''])]],
    Rule [''.light-mode .t-doc__header'', ''.dark-mode .t-doc__header'']
      [(Prop ''animation'', [Txt ''headerbackground forwards'']),
       (Prop ''animation-timeline'', [Txt ''scroll()'']),
       (Prop ''animation-range'', [Txt ''0px 200px''])],
    Rule [''.dark-mode .t-doc .layout-content'']
      [(Prop ''background'', [Txt ''transparent''])],
    Rule [''.dark-mode h2.t-editor__heading'', ''.dark-mode .t-editor__page-title h1'', ''.dark-mode h1.section-header:not(::selection)'', ''.dark-mode .markdown h1'', ''.dark-mode .markdown h2'', ''.dark-mode .markdown h3'', ''.dark-mode .markdown h4'', ''.dark-mode .markdown h5'', ''.dark-mode .markdown h6'']
      [(Prop ''-webkit-text-fill-color'', [Txt ''transparent'']),
       (Prop ''background-image'', [Txt ''linear-gradient(to right bottom, rgb(255, 255, 255) 30%, rgba(255, 255, 255, 0.38))'']),
       (Prop ''-webkit-background-clip'', [Txt ''text'']),
       (Prop ''background-clip'', [Txt ''text''])]]"

definition zin_2 :: stylesheet where
  "zin_2 = [
    Rule [''.section-flare-item:nth-of-type(1)'']
      [(Prop ''--c1'', [Txt ''#ffffff'']),
       (Prop ''--c2'', [Txt ''#babfd8'']),
       (Prop ''--c3'', [Txt ''#2e8bb2'']),
       (Prop ''--c4'', [Txt ''#1a8593'']),
       (Prop ''--c5'', [Txt ''#0a143e'']),
       (Prop ''--c6'', [Txt ''#0a0f52'']),
       (Prop ''--c7'', [Txt ''#2341b8'']),
       (Prop ''--solid'', [Var (Prop ''--c1''), Txt '', '', Var (Prop ''--c2''), Txt '', '', Var (Prop ''--c3''), Txt '', '', Var (Prop ''--c4''), Txt '', '', Var (Prop ''--c5''), Txt '', '', Var (Prop ''--c6''), Txt '', '', Var (Prop ''--c7'')]),
       (Prop ''--solid-wrap'', [Var (Prop ''--solid''), Txt '', '', Var (Prop ''--c1'')]),
       (Prop ''--trans'', [Var (Prop ''--c1''), Txt '', transparent, '', Var (Prop ''--c2''), Txt '', transparent, '', Var (Prop ''--c3''), Txt '', transparent, '', Var (Prop ''--c4''), Txt '', transparent, '', Var (Prop ''--c5''), Txt '', transparent, '', Var (Prop ''--c6''), Txt '', transparent, '', Var (Prop ''--c7'')]),
       (Prop ''--trans-wrap'', [Var (Prop ''--trans''), Txt '', transparent, '', Var (Prop ''--c1'')]),
       (Prop ''background'', [Txt ''radial-gradient(circle, '', Var (Prop ''--trans''), Txt ''), conic-gradient(from 180deg, '', Var (Prop ''--trans-wrap''), Txt ''), radial-gradient(circle, '', Var (Prop ''--trans''), Txt ''), conic-gradient('', Var (Prop ''--solid-wrap''), Txt '')'']),
       (Prop ''width'', [Txt ''70vw'']),
       (Prop ''height'', [Txt ''700px'']),
       (Prop ''border-radius'', [Txt ''50%'']),
       (Prop ''filter'', [Txt ''blur(100px)'']),
       (Prop ''z-index'', [Txt ''0'']),
       (Prop ''right'', [Txt ''0'']),
       (Prop ''position'', [Txt ''absolute'']),
       (Prop ''transform'', [Txt ''rotate(-45deg)'']),
       (Prop ''top'', [Txt ''-300px'']),
       (Prop ''opacity'', [Txt ''0.3''])],
    Rule [''.section-flare-item:nth-of-type(3)'']
      [(Prop ''--star-color'', [Txt ''#6b9acc'']),
       (Prop ''--star-color2'', [Txt ''#446b8d'']),
       (Prop ''--star-color3'', [Txt ''#3e5879'']),
       (Prop ''background-image'', [Txt ''radial-gradient(2px 2px at 20px 30px, '', Var (Prop ''--star-color2''), Txt '', rgba(0, 0, 0, 0)), radial-gradient(2px 2px at 40px 70px, '', Var (Prop ''--star-color''), Txt '', rgba(0, 0, 0, 0)), radial-gradient(2px 2px at 50px 160px, '', Var (Prop ''--star-color3''), Txt '', rgba(0, 0, 0, 0)), radial-gradient(2px 2px at 90px 40px, '', Var (Prop ''--star-color''), Txt '', rgba(0, 0, 0, 0)), radial-gradient(2px 2px at 130px 80px, '', Var (Prop ''--star-color''), Txt '', rgba(0, 0, 0, 0)), radial-gradient(2px 2px at 160px 120px, '', Var (Prop ''--star-color3''), Txt '', rgba(0, 0, 0, 0))'']),
       (Prop ''background-repeat'', [Txt ''repeat'']),
       (Prop ''background-size'', [Txt ''200px 200px'']),
       (Prop ''width'', [Txt ''100%'']),
       (Prop ''height'', [Txt ''100%'']),
       (Prop ''mask-image'', [Txt ''radial-gradient(ellipse at 100% 0%, black 40%, transparent 70%)''])],
    Rule [''.section-flare'']
      [(Prop ''top'', [Txt ''-150px !important'']),
       (Prop ''height'', [Txt ''100vh'']),
       (Prop ''background'', [Txt ''linear-gradient(#000, '', Var (Scalar ''background-1''), Txt '')'']),
       (Prop ''width'', [Txt ''100vw'']),
       (Prop ''overflow-x'', [Txt ''hidden''])],
    Rule [''.light-mode .section-flare'']
      [(Prop ''display'', [Txt ''none''])],
    Rule [''.light-mode .scalar-card'']
      [(Scalar ''background-1'', [Txt ''#fff'']),
       (Scalar ''background-2'', [Txt ''#fff'']),
       (Scalar ''background-3'', [Txt ''#fff''])],
    Rule [''*::selection'']
      [(Prop ''background-color'', [Txt ''color-mix(in srgb, '', Var (Scalar ''color-blue''), Txt '', transparent 60%)''])],
    AtRules ''@media (max-width: 1000px)'' [
      Rule [''.light-mode .t-doc__sidebar'', ''.dark-mode .t-doc__sidebar'']
        [(Scalar ''sidebar-background-1'', [Var (Scalar ''background-1'')])],
      Rule [''.light-mode .t-doc__header'', ''.dark-mode .t-doc__header'']
        [(Prop ''animation'', [Txt ''none'']),
         (Prop ''background'', [Var (Scalar ''header-background-1'')]),
         (Prop ''backdrop-filter'', [Txt ''blur(12px)''])]]]"

definition zin :: stylesheet where
  "zin = zin_1 @ zin_2"

definition Bin_1 :: stylesheet where
  "Bin_1 = [
    Rule ['':root'']
      [(Scalar ''text-decoration'', [Txt ''underline'']),
       (Scalar ''text-decoration-hover'', [Txt ''underline''])],
    Rule [''.light-mode'']
      [(Scalar ''color-1'', [Txt ''rgb(9, 9, 11)'']),
       (Scalar ''color-2'', [Txt ''rgb(109, 109, 117)'']),
       (Scalar ''color-3'', [Txt ''rgba(25, 25, 28, 0.5)'']),
       (Scalar ''color-accent'', [Var (Scalar ''color-1'')]),
       (Scalar ''background-1'', [Txt ''#fff'']),
       (Scalar ''background-2'', [Txt ''#f4f4f5'']),
       (Scalar ''background-3'', [Txt ''#e3e3e6'']),
       (Scalar ''background-accent'', [Txt ''#8ab4f81f'']),
       (Scalar ''border-color'', [Txt ''rgb(228, 228, 231)'']),
       (Scalar ''code-language-color-supersede'', [Var (Scalar ''color-1'')])],
    Rule [''.dark-mode'']
      [(Scalar ''color-1'', [Txt ''#fafafa'']),
       (Scalar ''color-2'', [Txt ''rgb(161, 161, 170)'']),
       (Scalar ''color-3'', [Txt ''rgba(255, 255, 255, 0.533)'']),
       (Scalar ''color-accent'', [Var (Scalar ''color-1'')]),
       (Scalar ''background-1'', [Txt ''#09090b'']),
       (Scalar ''background-2'', [Txt ''#18181b'']),
       (Scalar ''background-3'', [Txt ''#2c2c30'']),
       (Scalar ''background-accent'', [Txt ''#8ab4f81f'']),
       (Scalar ''border-color'', [Txt ''rgba(255, 255, 255, 0.16)'']),
       (Scalar ''code-language-color-supersede'', [Var (Scalar ''color-1'')])],
    Rule [''.light-mode .t-doc__sidebar'', ''.dark-mode .t-doc__sidebar'']
      [(Scalar ''sidebar-background-1'', [Var (Scalar ''background-1'')]),
       (Scalar ''sidebar-color-1'', [Var (Scalar ''color-1'')]),
       (Scalar ''sidebar-color-2'', [Var (Scalar ''color-2'')]),
       (Scalar ''sidebar-border-color'', [Var (Scalar ''border-color'')]),
       (Scalar ''sidebar-item-hover-color'', [Txt ''currentColor'']),
       (Scalar ''sidebar-item-hover-background'', [Var (Scalar ''background-2'')]),
       (Scalar ''sidebar-item-active-background'', [Var (Scalar ''background-3'')]),
       (Scalar ''sidebar-color-active'', [Var (Scalar ''color-accent'')]),
       (Scalar ''sidebar-search-background'', [Txt ''transparent'']),
       (Scalar ''sidebar-search-border-color'', [Var (Scalar ''border-color'')]),
       (Scalar ''sidebar-search-color'', [Var (Scalar ''color-3'')])],
    Rule [''.light-mode .t-doc__sidebar'']
      [(Scalar ''sidebar-item-active-background'', [Var (Scalar ''background-2'')])],
    Rule [''.light-mode'']
      [(Scalar ''color-green'', [Txt ''#069061'']),
       (Scalar ''color-red'', [Txt ''#ef0006'']),
       (Scalar ''color-yellow'', [Txt ''#edbe20'']),
       (Scalar ''color-blue'', [Txt ''#0072bd'']),
       (Scalar ''color-orange'', [Txt ''#fb892c'']),
       (Scalar ''color-purple'', [Txt ''#5203d1'']),
       (Scalar ''color-query'', [Txt ''#007b80'']),
       (Scalar ''button-1'', [Txt ''rgba(0, 0, 0, 1)'']),
       (Scalar ''button-1-hover'', [Txt ''rgba(0, 0, 0, 0.8)'']),
       (Scalar ''button-1-color'', [Txt ''#fff''])],
    Rule [''.dark-mode'']
      [(Scalar ''color-green'', [Txt ''rgba(69, 255, 165, 0.823)'']),
       (Scalar ''color-red'', [Txt ''#ff8589'']),
       (Scalar ''color-yellow'', [Txt ''#ffcc4d'']),
       (Scalar ''color-blue'', [Txt ''#6bc1fe'']),
       (Scalar ''color-orange'', [Txt ''#f98943'']),
       (Scalar ''color-purple'', [Txt ''#b191f9'']),
       (Scalar ''color-query'', [Txt ''#79e2da'']),
       (Scalar ''button-1'', [Txt ''rgba(255, 255, 255, 1)'']),
       (Scalar ''button-1-hover'', [Txt ''rgba(255, 255, 255, 0.9)'']),
       (Scalar ''button-1-color'', [Txt ''black''])],
    Rule [''.dark-mode h2.t-editor__heading'', ''.dark-mode .t-editor__page-title h1'', ''.dark-mode h1.section-header:not(::selection)'', ''.dark-mode .markdown h1'', ''.dark-mode .markdown h2'', ''.dark-mode .markdown h3'', ''.dark-mode .markdown h4'', ''.dark-mode .markdown h5'', ''.dark-mode .markdown h6'']
      [(Prop ''-webkit-text-fill-color'', [Txt ''transparent'']),
       (Prop ''background-image'', [Txt ''linear-gradient(to right bottom, rgb(255, 255, 255) 30%, rgba(255, 255, 255, 0.38))'']),
       (Prop ''-webkit-background-clip'', [Txt ''text'']),
       (Prop ''background-clip'', [Txt ''text''])],
    Rule [''.examples .scalar-card-footer'']
      [(Scalar ''background-3'', [Txt ''transparent'']),
       (Prop ''padding-top'', [Txt ''0''])],
    Rule [''.section-flare'']
      [(Prop ''width'', [Txt ''100vw'']),
       (Prop ''height'', [Txt ''550px'']),
       (Prop ''position'', [Txt ''absolute''])],
    Rule [''.section-flare-item:nth-of-type(1)'']
      [(Prop ''position'', [Txt ''absolute'']),
       (Prop ''width'', [Txt ''100vw'']),
       (Prop ''height'', [Txt ''550px'']),
       (Prop ''--stripesDark'', [Txt ''repeating-linear-gradient(100deg, #000 0%, #000 7%, transparent 10%, transparent 12%, #000 16%)'']),
       (Prop ''--rainbow'', [Txt ''repeating-linear-gradient(100deg, #fff 10%, #fff 16%, #fff 22%, #fff 30%)'']),
       (Prop ''background-image'', [Var (Prop ''--stripesDark''), Txt '', '', Var (Prop ''--rainbow'')]),
       (Prop ''background-size'', [Txt ''300%, 200%'']),
       (Prop ''background-position'', [Txt ''50% 50%, 50% 50%'']),
       (Prop ''filter'', [Txt ''invert(100%)'']),
       (Prop ''-webkit-mask-image'', [Txt ''radial-gradient(ellipse at 100% 0%, black 40%, transparent 70%)'']),
       (Prop ''mask-image'', [Txt ''radial-gradient(ellipse at 100% 0%, black 40%, transparent 70%)'']),
       (Prop ''pointer-events'', [Txt ''none'']),
       (Prop ''opacity'', [Txt ''0.07''])],
    Rule [''.dark-mode .section-flare-item:nth-of-type(1)'']
      [(Prop ''background-image'', [Var (Prop ''--stripesDark''), Txt '', '', Var (Prop ''--rainbow'')]),
       (Prop ''filter'', [Txt ''opacity(50%) saturate(200%)'']),
       (Prop ''opacity'', [Txt ''0.25'']),
       (Prop ''height'', [Txt ''350px''])],
    Rule [''.section-flare-item:nth-of-type(1):after'']
      [(Prop ''content'', [Txt ''\"\"'']),
       (Prop ''position'', [Txt ''absolute'']),
       (Prop ''top'', [Txt ''0'']),
       (Prop ''right'', [Txt ''0'']),
       (Prop ''bottom'', [Txt ''0'']),
       (Prop ''left'', [Txt ''0'']),
       (Prop ''background-image'', [Var (Prop ''--stripesDark''), Txt '', '', Var (Prop ''--rainbow'')]),
       (Prop ''background-size'', [Txt ''200%, 100%'']),
       (Prop ''background-attachment'', [Txt ''fixed'']),
       (Prop ''mix-blend-mode'', [Txt ''difference''])],
    Rule [''.dark-mode .section-flare:after'']
      [(Prop ''background-image'', [Var (Prop ''--stripesDark''), Txt '', '', Var (Prop ''--rainbow'')])]]"

definition Bin_2 :: stylesheet where
  "Bin_2 = [
    Rule [''.section-flare-item:nth-of-type(2)'']
      [(Prop ''--star-color'', [Txt ''#fff'']),
       (Prop ''--star-color2'', [Txt ''#fff'']),
       (Prop ''--star-color3'', [Txt ''#fff'']),
       (Prop ''width'', [Txt ''100%'']),
       (Prop ''height'', [Txt ''100%'']),
       (Prop ''position'', [Txt ''absolute'']),
       (Prop ''background-image'', [Txt ''radial-gradient(2px 2px at 20px 30px, '', Var (Prop ''--star-color2''), Txt '', rgba(0, 0, 0, 0)), radial-gradient(2px 2px at 40px 70px, '', Var (Prop ''--star-color''), Txt '', rgba(0, 0, 0, 0)), radial-gradient(2px 2px at 50px 160px, '', Var (Prop ''--star-color3''), Txt '', rgba(0, 0, 0, 0)), radial-gradient(2px 2px at 90px 40px, '', Var (Prop ''--star-color''), Txt '', rgba(0, 0, 0, 0)), radial-gradient(2px 2px at 130px 80px, '', Var (Prop ''--star-color''), Txt '', rgba(0, 0, 0, 0)), radial-gradient(2px 2px at 160px 120px, '', Var (Prop ''--star-color3''), Txt '', rgba(0, 0, 0, 0))'']),
       (Prop ''background-repeat'', [Txt ''repeat'']),
       (Prop ''background-size'', [Txt ''200px 200px'']),
       (Prop ''mask-image'', [Txt ''radial-gradient(ellipse at 100% 0%, black 40%, transparent 70%)'']),
       (Prop ''opacity'', [Txt ''0.2''])],
    Rule [''.light-mode *::selection'']
      [(Prop ''background-color'', [Txt ''color-mix(in srgb, '', Var (Scalar ''color-blue''), Txt '', transparent 70%)''])],
    Rule [''.dark-mode *::selection'']
      [(Prop ''background-color'', [Txt ''color-mix(in srgb, '', Var (Scalar ''color-blue''), Txt '', transparent 50%)''])],
    Rule [''.light-mode .t-doc__header'', ''.dark-mode .t-doc__header'']
      [(Prop ''animation'', [Txt ''headerbackground forwards'']),
       (Prop ''animation-timeline'', [Txt ''scroll()'']),
       (Prop ''animation-range'', [Txt ''0px 200px''])],
    AtRules ''@keyframes headerbackground'' [
      Rule [''from'']
        [(Prop ''background'', [Txt ''transparent'']),
         (Prop ''backdrop-filter'', [Txt ''none''])],
      Rule [''to'']
        [(Prop ''background'', [Var (Scalar ''header-background-1'')]),
         (Prop ''backdrop-filter'', [Txt ''blur(12px)''])]],
    AtRules ''@supports (-webkit-hyphens: none)'' [
      Rule [''.section-flare'']
        [(Prop ''display'', [Txt ''none''])]],
    Rule [''.light-mode .t-doc .layout-content'', ''.dark-mode .t-doc .layout-content'']
      [(Prop ''background'', [Txt ''transparent''])]]"

definition Bin :: stylesheet where
  "Bin = Bin_1 @ Bin_2"

definition Vin :: stylesheet where
  "Vin = [
    Rule ['':root'']
      [(Scalar ''text-decoration'', [Txt ''underline'']),
       (Scalar ''text-decoration-hover'', [Txt ''underline''])],
    Rule [''.light-mode'']
      [(Scalar ''background-1'', [Txt ''#fff'']),
       (Scalar ''background-2'', [Txt ''#f6f6f6'']),
       (Scalar ''background-3'', [Txt ''#e7e7e7'']),
       (Scalar ''background-accent'', [Txt ''#8ab4f81f'']),
       (Scalar ''color-1'', [Txt ''#1b1b1b'']),
       (Scalar ''color-2'', [Txt ''#707070'']),
       (Scalar ''color-3'', [Txt ''#8e8e8e'']),
       (Scalar ''color-accent'', [Txt ''#0099ff'']),
       (Scalar ''border-color'', [Txt ''#dfdfdf''])],
    Rule [''.dark-mode'']
      [(Scalar ''background-1'', [Txt ''#0f0f0f'']),
       (Scalar ''background-2'', [Txt ''#1a1a1a'']),
       (Scalar ''background-3'', [Txt ''#272727'']),
       (Scalar ''color-1'', [Txt ''#e7e7e7'']),
       (Scalar ''color-2'', [Txt ''#a4a4a4'']),
       (Scalar ''color-3'', [Txt ''#797979'']),
       (Scalar ''color-accent'', [Txt ''#00aeff'']),
       (Scalar ''background-accent'', [Txt ''#3ea6ff1f'']),
       (Scalar ''border-color'', [Txt ''#2d2d2d''])],
    Rule [''.light-mode'', ''.dark-mode'']
      [(Scalar ''sidebar-background-1'', [Var (Scalar ''background-1'')]),
       (Scalar ''sidebar-color-1'', [Var (Scalar ''color-1'')]),
       (Scalar ''sidebar-color-2'', [Var (Scalar ''color-2'')]),
       (Scalar ''sidebar-border-color'', [Var (Scalar ''border-color'')]),
       (Scalar ''sidebar-item-hover-background'', [Var (Scalar ''background-2'')]),
       (Scalar ''sidebar-item-hover-color'', [Var (Scalar ''sidebar-color-2'')]),
       (Scalar ''sidebar-item-active-background'', [Var (Scalar ''background-2'')]),
       (Scalar ''sidebar-color-active'', [Var (Scalar ''sidebar-color-1'')]),
       (Scalar ''sidebar-indent-border'', [Var (Scalar ''sidebar-border-color'')]),
       (Scalar ''sidebar-indent-border-hover'', [Var (Scalar ''sidebar-border-color'')]),
       (Scalar ''sidebar-indent-border-active'', [Var (Scalar ''sidebar-border-color'')]),
       (Scalar ''sidebar-search-background'', [Txt ''color-mix(in srgb, '', Var (Scalar ''background-2''), Txt '', '', Var (Scalar ''background-1''), Txt '')'']),
       (Scalar ''sidebar-search-color'', [Var (Scalar ''color-3'')]),
       (Scalar ''sidebar-search-border-color'', [Var (Scalar ''border-color'')])],
    Rule [''.light-mode'']
      [(Scalar ''color-green'', [Txt ''#069061'']),
       (Scalar ''color-red'', [Txt ''#ef0006'']),
       (Scalar ''color-yellow'', [Txt ''#edbe20'']),
       (Scalar ''color-blue'', [Txt ''#0072bd'']),
       (Scalar ''color-orange'', [Txt ''#ff5800'']),
       (Scalar ''color-purple'', [Txt ''#5203d1'']),
       (Scalar ''color-query'', [Txt ''#007b80'']),
       (Scalar ''link-color'', [Var (Scalar ''color-1'')]),
       (Scalar ''link-color-hover'', [Var (Scalar ''link-color'')]),
       (Scalar ''button-1'', [Txt ''rgba(0, 0, 0, 1)'']),
       (Scalar ''button-1-hover'', [Txt ''rgba(0, 0, 0, 0.8)'']),
       (Scalar ''button-1-color'', [Txt ''#fff'']),
       (Scalar ''tooltip-background'', [Txt ''color-mix(in srgb, '', Var (Scalar ''background-1''), Txt '', transparent 10%)'']),
       (Scalar ''tooltip-color'', [Var (Scalar ''color-1'')]),
       (Scalar ''color-alert'', [Txt ''color-mix(in srgb, '', Var (Scalar ''color-orange''), Txt '', '', Var (Scalar ''color-1''), Txt '' 20%)'']),
       (Scalar ''color-danger'', [Txt ''color-mix(in srgb, '', Var (Scalar ''color-red''), Txt '', '', Var (Scalar ''color-1''), Txt '' 20%)'']),
       (Scalar ''background-alert'', [Txt ''color-mix(in srgb, '', Var (Scalar ''color-orange''), Txt '', '', Var (Scalar ''background-1''), Txt '' 95%)'']),
       (Scalar ''background-danger'', [Txt ''color-mix(in srgb, '', Var (Scalar ''color-red''), Txt '', '', Var (Scalar ''background-1''), Txt '' 95%)''])],
    Rule [''.dark-mode'']
      [(Scalar ''color-green'', [Txt ''#00b648'']),
       (Scalar ''color-red'', [Txt ''#dc1b19'']),
       (Scalar ''color-yellow'', [Txt ''#ffc90d'']),
       (Scalar ''color-blue'', [Txt ''#4eb3ec'']),
       (Scalar ''color-orange'', [Txt ''#ff8d4d'']),
       (Scalar ''color-purple'', [Txt ''#b191f9'']),
       (Scalar ''color-query'', [Txt ''#65d4cf'']),
       (Scalar ''link-color'', [Var (Scalar ''color-1'')]),
       (Scalar ''link-color-hover'', [Var (Scalar ''link-color'')]),
       (Scalar ''button-1'', [Txt ''rgba(255, 255, 255, 1)'']),
       (Scalar ''button-1-hover'', [Txt ''rgba(255, 255, 255, 0.9)'']),
       (Scalar ''button-1-color'', [Txt ''black'']),
       (Scalar ''tooltip-background'', [Txt ''color-mix(in srgb, '', Var (Scalar ''background-1''), Txt '', #fff 10%)'']),
       (Scalar ''tooltip-color'', [Txt ''color-mix(in srgb, #fff, transparent 5%)'']),
       (Scalar ''color-danger'', [Txt ''color-mix(in srgb, '', Var (Scalar ''color-red''), Txt '', '', Var (Scalar ''background-1''), Txt '' 20%)'']),
       (Scalar ''background-alert'', [Txt ''color-mix(in srgb, '', Var (Scalar ''color-orange''), Txt '', '', Var (Scalar ''background-1''), Txt '' 95%)'']),
       (Scalar ''background-danger'', [Txt ''color-mix(in srgb, '', Var (Scalar ''color-red''), Txt '', '', Var (Scalar ''background-1''), Txt '' 95%)''])],
    AtRules ''@supports (color: color(display-p3 1 1 1))'' [
      Rule [''.light-mode'']
        [(Scalar ''color-accent'', [Txt ''color(display-p3 0 0.6 1 / 1)'']),
         (Scalar ''color-green'', [Txt ''color(display-p3 0.023529 0.564706 0.380392 / 1)'']),
         (Scalar ''color-red'', [Txt ''color(display-p3 0.937255 0 0.023529 / 1)'']),
         (Scalar ''color-yellow'', [Txt ''color(display-p3 0.929412 0.745098 0.12549 / 1)'']),
         (Scalar ''color-blue'', [Txt ''color(display-p3 0 0.447059 0.741176 / 1)'']),
         (Scalar ''color-orange'', [Txt ''color(display-p3 1 0.4 0.02)'']),
         (Scalar ''color-purple'', [Txt ''color(display-p3 0.321569 0.011765 0.819608 / 1)''])],
      Rule [''.dark-mode'']
        [(Scalar ''color-accent'', [Txt ''color(display-p3 0.07 0.67 1)'']),
         (Scalar ''color-green'', [Txt ''color(display-p3 0 0.713725 0.282353 / 1)'']),
         (Scalar ''color-red'', [Txt ''color(display-p3 0.862745 0.105882 0.098039 / 1)'']),
         (Scalar ''color-yellow'', [Txt ''color(display-p3 1 0.788235 0.05098 / 1)'']),
         (Scalar ''color-blue'', [Txt ''color(display-p3 0.305882 0.701961 0.92549 / 1)'']),
         (Scalar ''color-orange'', [Txt ''color(display-p3 1 0.552941 0.301961 / 1)'']),
         (Scalar ''color-purple'', [Txt ''color(display-p3 0.694118 0.568627 0.976471 / 1)''])]]]"

definition Hin :: stylesheet where
  "Hin = [
    Rule [''.light-mode'']
      [(Scalar ''color-1'', [Txt ''#1b1b1b'']),
       (Scalar ''color-2'', [Txt ''#707070'']),
       (Scalar ''color-3'', [Txt ''#8e8e8e'']),
       (Scalar ''color-accent'', [Txt ''#f06292'']),
       (Scalar ''background-1'', [Txt ''#fff'']),
       (Scalar ''background-2'', [Txt ''#f6f6f6'']),
       (Scalar ''background-3'', [Txt ''#e7e7e7'']),
       (Scalar ''border-color'', [Txt ''rgba(0, 0, 0, 0.1)''])],
    Rule [''.dark-mode'']
      [(Scalar ''color-1'', [Txt ''rgba(255, 255, 255, 0.9)'']),
       (Scalar ''color-2'', [Txt ''rgba(156, 163, 175, 1)'']),
       (Scalar ''color-3'', [Txt ''rgba(255, 255, 255, 0.44)'']),
       (Scalar ''color-accent'', [Txt ''#f06292'']),
       (Scalar ''background-1'', [Txt ''#111728'']),
       (Scalar ''background-2'', [Txt ''#1e293b'']),
       (Scalar ''background-3'', [Txt ''#334155'']),
       (Scalar ''background-accent'', [Txt ''#f062921f'']),
       (Scalar ''border-color'', [Txt ''rgba(255, 255, 255, 0.1)''])],
    Rule [''.light-mode .t-doc__sidebar'', ''.dark-mode .t-doc__sidebar'']
      [(Scalar ''sidebar-background-1'', [Var (Scalar ''background-1'')]),
       (Scalar ''sidebar-color-1'', [Var (Scalar ''color-1'')]),
       (Scalar ''sidebar-color-2'', [Var (Scalar ''color-2'')]),
       (Scalar ''sidebar-border-color'', [Var (Scalar ''border-color'')]),
       (Scalar ''sidebar-item-hover-background'', [Var (Scalar ''background-2'')]),
       (Scalar ''sidebar-item-hover-color'', [Txt ''currentColor'']),
       (Scalar ''sidebar-item-active-background'', [Txt ''#f062921f'']),
       (Scalar ''sidebar-color-active'', [Var (Scalar ''color-accent'')]),
       (Scalar ''sidebar-search-background'', [Txt ''transparent'']),
       (Scalar ''sidebar-search-color'', [Var (Scalar ''color-3'')]),
       (Scalar ''sidebar-search-border-color'', [Var (Scalar ''border-color'')])],
    Rule [''.light-mode'']
      [(Scalar ''button-1'', [Txt ''rgb(49 53 56)'']),
       (Scalar ''button-1-color'', [Txt ''#fff'']),
       (Scalar ''button-1-hover'', [Txt ''rgb(28 31 33)'']),
       (Scalar ''color-green'', [Txt ''#069061'']),
       (Scalar ''color-red'', [Txt ''#ef0006'']),
       (Scalar ''color-yellow'', [Txt ''#edbe20'']),
       (Scalar ''color-blue'', [Txt ''#0072bd'']),
       (Scalar ''color-orange'', [Txt ''#fb892c'']),
       (Scalar ''color-purple'', [Txt ''#5203d1'']),
       (Scalar ''color-query'', [Txt ''#007b80'']),
       (Scalar ''scrollbar-color'', [Txt ''rgba(0, 0, 0, 0.18)'']),
       (Scalar ''scrollbar-color-active'', [Txt ''rgba(0, 0, 0, 0.36)''])],
    Rule [''.dark-mode'']
      [(Scalar ''button-1'', [Txt ''#f6f6f6'']),
       (Scalar ''button-1-color'', [Txt ''#000'']),
       (Scalar ''button-1-hover'', [Txt ''#e7e7e7'']),
       (Scalar ''color-green'', [Txt ''#a3ffa9'']),
       (Scalar ''color-red'', [Txt ''#ffa3a3'']),
       (Scalar ''color-yellow'', [Txt ''#fffca3'']),
       (Scalar ''color-blue'', [Txt ''#a5d6ff'']),
       (Scalar ''color-orange'', [Txt ''#e2ae83'']),
       (Scalar ''color-purple'', [Txt ''#d2a8ff'']),
       (Scalar ''color-query'', [Txt ''#a5f3df'']),
       (Scalar ''scrollbar-color'', [Txt ''rgba(255, 255, 255, 0.24)'']),
       (Scalar ''scrollbar-color-active'', [Txt ''rgba(255, 255, 255, 0.48)''])],
    Rule [''.section-flare'']
      [(Prop ''width'', [Txt ''100%'']),
       (Prop ''height'', [Txt ''400px'']),
       (Prop ''position'', [Txt ''absolute''])],
    Rule [''.section-flare-item:first-of-type:before'']
      [(Prop ''content'', [Txt ''\"\"'']),
       (Prop ''position'', [Txt ''absolute'']),
       (Prop ''top'', [Txt ''0'']),
       (Prop ''right'', [Txt ''0'']),
       (Prop ''bottom'', [Txt ''0'']),
       (Prop ''left'', [Txt ''0'']),
       (Prop ''--stripes'', [Txt ''repeating-linear-gradient(100deg, #fff 0%, #fff 0%, transparent 2%, transparent 12%, #fff 17%)'']),
       (Prop ''--stripesDark'', [Txt ''repeating-linear-gradient(100deg, #000 0%, #000 0%, transparent 10%, transparent 12%, #000 17%)'']),
       (Prop ''--rainbow'', [Txt ''repeating-linear-gradient(100deg, #60a5fa 10%, #e879f9 16%, #5eead4 22%, #60a5fa 30%)'']),
       (Prop ''contain'', [Txt ''strict'']),
       (Prop ''contain-intrinsic-size'', [Txt ''100vw 40vh'']),
       (Prop ''background-image'', [Var (Prop ''--stripesDark''), Txt '', '', Var (Prop ''--rainbow'')]),
       (Prop ''background-size'', [Txt ''300%, 200%'']),
       (Prop ''background-position'', [Txt ''50% 50%, 50% 50%'']),
       (Prop ''filter'', [Txt ''opacity(20%) saturate(200%)'']),
       (Prop ''-webkit-mask-image'', [Txt ''radial-gradient(ellipse at 100% 0%, black 40%, transparent 70%)'']),
       (Prop ''mask-image'', [Txt ''radial-gradient(ellipse at 100% 0%, black 40%, transparent 70%)'']),
       (Prop ''pointer-events'', [Txt ''none''])],
    Rule [''.section-flare-item:first-of-type:after'']
      [(Prop ''content'', [Txt ''\"\"'']),
       (Prop ''position'', [Txt ''absolute'']),
       (Prop ''top'', [Txt ''0'']),
       (Prop ''right'', [Txt ''0'']),
       (Prop ''bottom'', [Txt ''0'']),
       (Prop ''left'', [Txt ''0'']),
       (Prop ''background-image'', [Var (Prop ''--stripes''), Txt '', '', Var (Prop ''--rainbow'')]),
       (Prop ''background-size'', [Txt ''200%, 100%'']),
       (Prop ''background-attachment'', [Txt ''fixed'']),
       (Prop ''mix-blend-mode'', [Txt ''difference'']),
       (Prop ''background-image'', [Var (Prop ''--stripesDark''), Txt '', '', Var (Prop ''--rainbow'')]),
       (Prop ''pointer-events'', [Txt ''none''])],
    Rule [''.light-mode .section-flare-item:first-of-type:after'', ''.light-mode .section-flare-item:first-of-type:before'']
      [(Prop ''background-image'', [Var (Prop ''--stripes''), Txt '', '', Var (Prop ''--rainbow'')]),
       (Prop ''filter'', [Txt ''opacity(4%) saturate(200%)''])]]"

definition Uin :: stylesheet where
  "Uin = [
    Rule [''.light-mode'']
      [(Prop ''color-scheme'', [Txt ''light'']),
       (Scalar ''color-1'', [Txt ''#1c1e21'']),
       (Scalar ''color-2'', [Txt ''#707070'']),
       (Scalar ''color-3'', [Txt ''#8e8e8e'']),
       (Scalar ''color-disabled'', [Txt ''#b4b1b1'']),
       (Scalar ''color-ghost'', [Txt ''#a7a7a7'']),
       (Scalar ''color-accent'', [Txt ''#2f8555'']),
       (Scalar ''background-1'', [Txt ''#fff'']),
       (Scalar ''background-2'', [Txt ''#f5f5f5'']),
       (Scalar ''background-3'', [Txt ''#ededed'']),
       (Scalar ''background-4'', [Txt ''rgba(0, 0, 0, 0.06)'']),
       (Scalar ''background-accent'', [Txt ''#2f85551f'']),
       (Scalar ''border-color'', [Txt ''rgba(0, 0, 0, 0.1)'']),
       (Scalar ''scrollbar-color'', [Txt ''rgba(0, 0, 0, 0.18)'']),
       (Scalar ''scrollbar-color-active'', [Txt ''rgba(0, 0, 0, 0.36)'']),
       (Scalar ''lifted-brightness'', [Txt ''1'']),
       (Scalar ''backdrop-brightness'', [Txt ''1'']),
       (Scalar ''shadow-1'', [Txt ''0 1px 3px 0 rgba(0, 0, 0, 0.11)'']),
       (Scalar ''shadow-2'', [Txt ''rgba(0, 0, 0, 0.08) 0px 13px 20px 0px, rgba(0, 0, 0, 0.08) 0px 3px 8px 0px, #eeeeed 0px 0 0 1px'']),
       (Scalar ''button-1'', [Txt ''rgb(49 53 56)'']),
       (Scalar ''button-1-color'', [Txt ''#fff'']),
       (Scalar ''button-1-hover'', [Txt ''rgb(28 31 33)'']),
       (Scalar ''color-green'', [Txt ''#007300'']),
       (Scalar ''color-red'', [Txt ''#af272b'']),
       (Scalar ''color-yellow'', [Txt ''#b38200'']),
       (Scalar ''color-blue'', [Txt ''#33788f'']),
       (Scalar ''color-orange'', [Txt ''#fb892c'']),
       (Scalar ''color-purple'', [Txt ''#5203d1'']),
       (Scalar ''color-query'', [Txt ''#00766f''])],
    Rule [''.dark-mode'']
      [(Prop ''color-scheme'', [Txt ''dark'']),
       (Scalar ''color-1'', [Txt ''rgba(255, 255, 255, 0.9)'']),
       (Scalar ''color-2'', [Txt ''rgba(255, 255, 255, 0.62)'']),
       (Scalar ''color-3'', [Txt ''rgba(255, 255, 255, 0.44)'']),
       (Scalar ''color-disabled'', [Txt ''rgba(255, 255, 255, 0.34)'']),
       (Scalar ''color-ghost'', [Txt ''rgba(255, 255, 255, 0.26)'']),
       (Scalar ''color-accent'', [Txt ''#27c2a0'']),
       (Scalar ''background-1'', [Txt ''#1b1b1d'']),
       (Scalar ''background-2'', [Txt ''#242526'']),
       (Scalar ''background-3'', [Txt ''#3b3b3b'']),
       (Scalar ''background-4'', [Txt ''rgba(255, 255, 255, 0.06)'']),
       (Scalar ''background-accent'', [Txt ''#27c2a01f'']),
       (Scalar ''border-color'', [Txt ''rgba(255, 255, 255, 0.1)'']),
       (Scalar ''scrollbar-color'', [Txt ''rgba(255, 255, 255, 0.24)'']),
       (Scalar ''scrollbar-color-active'', [Txt ''rgba(255, 255, 255, 0.48)'']),
       (Scalar ''lifted-brightness'', [Txt ''1.45'']),
       (Scalar ''backdrop-brightness'', [Txt ''0.5'']),
       (Scalar ''shadow-1'', [Txt ''0 1px 3px 0 rgb(0, 0, 0, 0.1)'']),
       (Scalar ''shadow-2'', [Txt ''rgba(15, 15, 15, 0.2) 0px 3px 6px, rgba(15, 15, 15, 0.4) 0px 9px 24px, 0 0 0 1px rgba(255, 255, 255, 0.1)'']),
       (Scalar ''button-1'', [Txt ''#f6f6f6'']),
       (Scalar ''button-1-color'', [Txt ''#000'']),
       (Scalar ''button-1-hover'', [Txt ''#e7e7e7'']),
       (Scalar ''color-green'', [Txt ''#26b226'']),
       (Scalar ''color-red'', [Txt ''#fb565b'']),
       (Scalar ''color-yellow'', [Txt ''#ffc426'']),
       (Scalar ''color-blue'', [Txt ''#6ecfef'']),
       (Scalar ''color-orange'', [Txt ''#ff8d4d'']),
       (Scalar ''color-purple'', [Txt ''#b191f9'']),
       (Scalar ''color-query'', [Txt ''#5fdbc5''])]]"

definition Win_1 :: stylesheet where
  "Win_1 = [
    Rule [''.light-mode'']
      [(Scalar ''color-1'', [Txt ''#1b1b1b'']),
       (Scalar ''color-2'', [Txt ''#707070'']),
       (Scalar ''color-3'', [Txt ''#8e8e8e'']),
       (Scalar ''color-accent'', [Txt ''#7070ff'']),
       (Scalar ''background-1'', [Txt ''#fff'']),
       (Scalar ''background-2'', [Txt ''#f6f6f6'']),
       (Scalar ''background-3'', [Txt ''#e7e7e7'']),
       (Scalar ''background-accent'', [Txt ''#7070ff1f'']),
       (Scalar ''border-color'', [Txt ''rgba(0, 0, 0, 0.1)'']),
       (Scalar ''code-language-color-supersede'', [Var (Scalar ''color-3'')])],
    Rule [''.dark-mode'']
      [(Scalar ''color-1'', [Txt ''#f7f8f8'']),
       (Scalar ''color-2'', [Txt ''rgb(180, 188, 208)'']),
       (Scalar ''color-3'', [Txt ''#b4bcd099'']),
       (Scalar ''color-accent'', [Txt ''#828fff'']),
       (Scalar ''background-1'', [Txt ''#000212'']),
       (Scalar ''background-2'', [Txt ''#0d0f1e'']),
       (Scalar ''background-3'', [Txt ''#232533'']),
       (Scalar ''background-accent'', [Txt ''#8ab4f81f'']),
       (Scalar ''border-color'', [Txt ''#313245'']),
       (Scalar ''code-language-color-supersede'', [Var (Scalar ''color-3'')])],
    Rule [''.light-mode .t-doc__sidebar'']
      [(Scalar ''sidebar-background-1'', [Var (Scalar ''background-1'')]),
       (Scalar ''sidebar-item-hover-color'', [Txt ''currentColor'']),
       (Scalar ''sidebar-item-hover-background'', [Var (Scalar ''background-2'')]),
       (Scalar ''sidebar-item-active-background'', [Var (Scalar ''background-accent'')]),
       (Scalar ''sidebar-border-color'', [Var (Scalar ''border-color'')]),
       (Scalar ''sidebar-color-1'', [Var (Scalar ''color-1'')]),
       (Scalar ''sidebar-color-2'', [Var (Scalar ''color-2'')]),
       (Scalar ''sidebar-color-active'', [Var (Scalar ''color-accent'')]),
       (Scalar ''sidebar-search-background'', [Txt ''rgba(0, 0, 0, 0.05)'']),
       (Scalar ''sidebar-search-border-color'', [Txt ''1px solid rgba(0, 0, 0, 0.05)'']),
       (Scalar ''sidebar-search-color'', [Var (Scalar ''color-3'')]),
       (Scalar ''background-2'', [Txt ''rgba(0, 0, 0, 0.03)''])],
    Rule [''.dark-mode .t-doc__sidebar'']
      [(Scalar ''sidebar-background-1'', [Var (Scalar ''background-1'')]),
       (Scalar ''sidebar-item-hover-color'', [Txt ''currentColor'']),
       (Scalar ''sidebar-item-hover-background'', [Var (Scalar ''background-2'')]),
       (Scalar ''sidebar-item-active-background'', [Txt ''rgba(255, 255, 255, 0.1)'']),
       (Scalar ''sidebar-border-color'', [Var (Scalar ''border-color'')]),
       (Scalar ''sidebar-color-1'', [Var (Scalar ''color-1'')]),
       (Scalar ''sidebar-color-2'', [Var (Scalar ''color-2'')]),
       (Scalar ''sidebar-color-active'', [Var (Scalar ''color-accent'')]),
       (Scalar ''sidebar-search-background'', [Txt ''rgba(255, 255, 255, 0.1)'']),
       (Scalar ''sidebar-search-border-color'', [Txt ''1px solid rgba(255, 255, 255, 0.05)'']),
       (Scalar ''sidebar-search-color'', [Var (Scalar ''color-3'')])],
    Rule [''.light-mode'']
      [(Scalar ''color-green'', [Txt ''#069061'']),
       (Scalar ''color-red'', [Txt ''#ef0006'']),
       (Scalar ''color-yellow'', [Txt ''#edbe20'']),
       (Scalar ''color-blue'', [Txt ''#0072bd'']),
       (Scalar ''color-orange'', [Txt ''#fb892c'']),
       (Scalar ''color-purple'', [Txt ''#5203d1'']),
       (Scalar ''color-query'', [Txt ''#007b80'']),
       (Scalar ''button-1'', [Txt ''rgba(0, 0, 0, 1)'']),
       (Scalar ''button-1-hover'', [Txt ''rgba(0, 0, 0, 0.8)'']),
       (Scalar ''button-1-color'', [Txt ''#fff''])],
    Rule [''.dark-mode'']
      [(Scalar ''color-green'', [Txt ''#00b648'']),
       (Scalar ''color-red'', [Txt ''#dc1b19'']),
       (Scalar ''color-yellow'', [Txt ''#ffc90d'']),
       (Scalar ''color-blue'', [Txt ''#4eb3ec'']),
       (Scalar ''color-orange'', [Txt ''#ff8d4d'']),
       (Scalar ''color-purple'', [Txt ''#b191f9'']),
       (Scalar ''color-query'', [Txt ''#65d4cf'']),
       (Scalar ''button-1'', [Txt ''rgba(255, 255, 255, 1)'']),
       (Scalar ''button-1-hover'', [Txt ''rgba(255, 255, 255, 0.9)'']),
       (Scalar ''button-1-color'', [Txt ''black''])],
    Rule [''.dark-mode h2.t-editor__heading'', ''.dark-mode .t-editor__page-title h1'', ''.dark-mode h1.section-header:not(::selection)'', ''.dark-mode .markdown h1'', ''.dark-mode .markdown h2'', ''.dark-mode .markdown h3'', ''.dark-mode .markdown h4'', ''.dark-mode .markdown h5'', ''.dark-mode .markdown h6'']
      [(Prop ''-webkit-text-fill-color'', [Txt ''transparent'']),
       (Prop ''background-image'', [Txt ''linear-gradient(to right bottom, rgb(255, 255, 255) 30%, rgba(255, 255, 255, 0.38))'']),
       (Prop ''-webkit-background-clip'', [Txt ''text'']),
       (Prop ''background-clip'', [Txt ''text''])],
    Rule [''.sidebar-search'']
      [(Prop ''backdrop-filter'', [Txt ''blur(12px)''])],
    AtRules ''@keyframes headerbackground'' [
      Rule [''from'']
        [(Prop ''background'', [Txt ''transparent'']),
         (Prop ''backdrop-filter'', [Txt ''none''])],
      Rule [''to'']
        [(Prop ''background'', [Var (Scalar ''header-background-1'')]),
         (Prop ''backdrop-filter'', [Txt ''blur(12px)''])]],
    Rule [''.dark-mode .scalar-card'']
      [(Prop ''background'', [Txt ''rgba(255, 255, 255, 0.05) !important''])],
    Rule [''.dark-mode .scalar-card *'']
      [(Scalar ''background-2'', [Txt ''transparent !important'']),
       (Scalar ''background-1'', [Txt ''transparent !important''])],
    Rule [''.light-mode .dark-mode.scalar-card *'', ''.light-mode .dark-mode.scalar-card'']
      [(Scalar ''background-1'', [Txt ''#0d0f1e !important'']),
       (Scalar ''background-2'', [Txt ''#0d0f1e !important'']),
       (Scalar ''background-3'', [Txt ''#191b29 !important''])],
    Rule [''.light-mode .dark-mode.scalar-card'']
      [(Prop ''background'', [Txt ''#191b29 !important''])],
    Rule [''.badge'']
      [(Prop ''box-shadow'', [Txt ''0 0 0 1px '', Var (Scalar ''border-color'')]),
       (Prop ''margin-right'', [Txt ''6px''])],
    Rule [''.table-row.required-parameter .table-row-item:nth-of-type(2):after'']
      [(Prop ''background'', [Txt ''transparent'']),
       (Prop ''box-shadow'', [Txt ''none''])],
    Rule [''.section-flare'']
      [(Prop ''width'', [Txt ''100vw'']),
       (Prop ''background'', [Txt ''radial-gradient(ellipse 80% 50% at 50% -20%, rgba(120, 119, 198, 0.3), transparent)'']),
       (Prop ''height'', [Txt ''100vh''])],
    Rule [''.light-mode *::selection'']
      [(Prop ''background-color'', [Txt ''color-mix(in srgb, '', Var (Scalar ''color-accent''), Txt '', transparent 70%)''])],
    Rule [''.dark-mode *::selection'']
      [(Prop ''background-color'', [Txt ''color-mix(in srgb, '', Var (Scalar ''color-accent''), Txt '', transparent 50%)''])]]"

definition Win_2 :: stylesheet where
  "Win_2 = [
    Rule [''.light-mode .t-doc .layout-content'', ''.dark-mode .t-doc .layout-content'']
      [(Prop ''background'', [Txt ''transparent''])]]"

definition Win :: stylesheet where
  "Win = Win_1 @ Win_2"

definition Gin :: stylesheet where
  "Gin = [
    Rule [''.light-mode'']
      [(Prop ''color-scheme'', [Txt ''light'']),
       (Scalar ''color-1'', [Txt ''#322b3b'']),
       (Scalar ''color-2'', [Txt ''#645676'']),
       (Scalar ''color-3'', [Txt ''#9789a9'']),
       (Scalar ''color-accent'', [Txt ''#40b4c4'']),
       (Scalar ''background-1'', [Txt ''#fff'']),
       (Scalar ''background-2'', [Txt ''#f4f2f7'']),
       (Scalar ''background-3'', [Txt ''#cfc7dc'']),
       (Scalar ''background-accent'', [Txt ''#f3fafb'']),
       (Scalar ''border-color'', [Txt ''#e4e0eb''])],
    Rule [''.dark-mode'']
      [(Prop ''color-scheme'', [Txt ''dark'']),
       (Scalar ''color-1'', [Txt ''#fff'']),
       (Scalar ''color-2'', [Txt ''#b8b6ba'']),
       (Scalar ''color-3'', [Txt ''#706c74'']),
       (Scalar ''color-accent'', [Txt ''#ed78c2'']),
       (Scalar ''background-1'', [Txt ''#27212e'']),
       (Scalar ''background-2'', [Txt ''#322c39'']),
       (Scalar ''background-3'', [Txt ''#4c4059'']),
       (Scalar ''background-accent'', [Txt ''#eb64b91f'']),
       (Scalar ''border-color'', [Txt ''rgba(255, 255, 255, 0.1)''])],
    Rule [''.light-mode .t-doc__sidebar'']
      [(Scalar ''sidebar-background-1'', [Var (Scalar ''background-1'')]),
       (Scalar ''sidebar-item-hover-color'', [Txt ''currentColor'']),
       (Scalar ''sidebar-item-hover-background'', [Var (Scalar ''background-2'')]),
       (Scalar ''sidebar-item-active-background'', [Var (Scalar ''background-accent'')]),
       (Scalar ''sidebar-border-color'', [Var (Scalar ''border-color'')]),
       (Scalar ''sidebar-color-1'', [Var (Scalar ''color-1'')]),
       (Scalar ''sidebar-color-2'', [Var (Scalar ''color-2'')]),
       (Scalar ''sidebar-color-active'', [Var (Scalar ''color-accent'')]),
       (Scalar ''sidebar-search-background'', [Var (Scalar ''background-2'')]),
       (Scalar ''sidebar-search-border-color'', [Var (Scalar ''sidebar-border-color'')]),
       (Scalar ''sidebar-search--color'', [Var (Scalar ''color-3'')])],
    Rule [''.dark-mode .t-doc__sidebar'']
      [(Scalar ''sidebar-background-1'', [Var (Scalar ''background-1'')]),
       (Scalar ''sidebar-item-hover-color'', [Txt ''currentColor'']),
       (Scalar ''sidebar-item-hover-background'', [Var (Scalar ''background-2'')]),
       (Scalar ''sidebar-item-active-background'', [Var (Scalar ''background-accent'')]),
       (Scalar ''sidebar-border-color'', [Var (Scalar ''border-color'')]),
       (Scalar ''sidebar-color-1'', [Var (Scalar ''color-1'')]),
       (Scalar ''sidebar-color-2'', [Var (Scalar ''color-2'')]),
       (Scalar ''sidebar-color-active'', [Var (Scalar ''color-accent'')]),
       (Scalar ''sidebar-search-background'', [Var (Scalar ''background-2'')]),
       (Scalar ''sidebar-search-border-color'', [Txt ''#514c56'']),
       (Scalar ''sidebar-search--color'', [Var (Scalar ''color-3'')])],
    Rule [''.light-mode'']
      [(Scalar ''button-1'', [Txt ''rgb(49 53 56)'']),
       (Scalar ''button-1-color'', [Txt ''#fff'']),
       (Scalar ''button-1-hover'', [Txt ''rgb(28 31 33)'']),
       (Scalar ''color-green'', [Txt ''#74dfc4'']),
       (Scalar ''color-red'', [Txt ''#d887f5'']),
       (Scalar ''color-yellow'', [Txt ''#ffe261'']),
       (Scalar ''color-blue'', [Txt ''#40b4c4'']),
       (Scalar ''color-orange'', [Txt ''#ff52bf'']),
       (Scalar ''color-purple'', [Txt ''#91889b'']),
       (Scalar ''color-query'', [Txt ''#7860a8'']),
       (Scalar ''scrollbar-color'', [Txt ''rgba(0, 0, 0, 0.18)'']),
       (Scalar ''scrollbar-color-active'', [Txt ''rgba(0, 0, 0, 0.36)''])],
    Rule [''.dark-mode'']
      [(Scalar ''button-1'', [Txt ''#f6f6f6'']),
       (Scalar ''button-1-color'', [Txt ''#27212e'']),
       (Scalar ''button-1-hover'', [Txt ''#e7e7e7'']),
       (Scalar ''color-green'', [Txt ''#74dfc4'']),
       (Scalar ''color-red'', [Txt ''#d887f5'']),
       (Scalar ''color-yellow'', [Txt ''#ffe261'']),
       (Scalar ''color-blue'', [Txt ''#40b4c4'']),
       (Scalar ''color-orange'', [Txt ''#ff52bf'']),
       (Scalar ''color-purple'', [Txt ''#91889b'']),
       (Scalar ''color-query'', [Txt ''#b8a2e3'']),
       (Scalar ''scrollbar-color'', [Txt ''rgba(255, 255, 255, 0.24)'']),
       (Scalar ''scrollbar-color-active'', [Txt ''rgba(255, 255, 255, 0.48)''])],
    Rule ['':root'']
      [(Scalar ''radius'', [Txt ''2px'']),
       (Scalar ''radius-lg'', [Txt ''3px'']),
       (Scalar ''radius-xl'', [Txt ''4px''])],
    AtRules ''@supports (color: color(display-p3 1 1 1))'' [
      Rule [''.light-mode'']
        [(Scalar ''color-accent'', [Txt ''color(display-p3 0.25098 0.705882 0.768627 / 1)'']),
         (Scalar ''color-green'', [Txt ''color(display-p3 0.454902 0.87451 0.768627 / 1)'']),
         (Scalar ''color-red'', [Txt ''color(display-p3 0.847059 0.529412 0.960784 / 1)'']),
         (Scalar ''color-yellow'', [Txt ''color(display-p3 1 0.886275 0.380392 / 1)'']),
         (Scalar ''color-blue'', [Txt ''color(display-p3 0.25098 0.705882 0.768627 / 1)'']),
         (Scalar ''color-orange'', [Txt ''color(display-p3 1 0.321569 0.74902 / 1)'']),
         (Scalar ''color-purple'', [Txt ''color(display-p3 0.568627 0.533333 0.607843 / 1)'']),
         (Scalar ''color-query'', [Txt ''color(display-p3 0.470588 0.376471 0.658824 / 1)''])],
      Rule [''.dark-mode'']
        [(Scalar ''color-accent'', [Txt ''color(display-p3 0.929412 0.470588 0.760784 / 1)'']),
         (Scalar ''color-green'', [Txt ''color(display-p3 0.454902 0.87451 0.768627 / 1)'']),
         (Scalar ''color-red'', [Txt ''color(display-p3 0.847059 0.529412 0.960784 / 1)'']),
         (Scalar ''color-yellow'', [Txt ''color(display-p3 1 0.886275 0.380392 / 1)'']),
         (Scalar ''color-blue'', [Txt ''color(display-p3 0.25098 0.705882 0.768627 / 1)'']),
         (Scalar ''color-orange'', [Txt ''color(display-p3 1 0.321569 0.74902 / 1)'']),
         (Scalar ''color-purple'', [Txt ''color(display-p3 0.568627 0.533333 0.607843 / 1)'']),
         (Scalar ''color-query'', [Txt ''color(display-p3 0.721569 0.635294 0.890196 / 1)''])]]]"

definition Kin :: stylesheet where
  "Kin = [
    Rule ['':root'']
      [(Scalar ''text-decoration'', [Txt ''underline'']),
       (Scalar ''text-decoration-hover'', [Txt ''underline''])],
    Rule [''.light-mode'']
      [(Scalar ''background-1'', [Txt ''#f9f6f0'']),
       (Scalar ''background-2'', [Txt ''#f2efe8'']),
       (Scalar ''background-3'', [Txt ''#e9e7e2'']),
       (Scalar ''border-color'', [Txt ''rgba(203, 165, 156, 0.6)'']),
       (Scalar ''color-1'', [Txt ''#b24c41'']),
       (Scalar ''color-2'', [Txt ''#b24c41'']),
       (Scalar ''color-3'', [Txt ''#b24c41'']),
       (Scalar ''color-accent'', [Txt ''#b24c41'']),
       (Scalar ''background-accent'', [Txt ''#dcbfa81f'']),
       (Scalar ''code-language-color-supersede'', [Var (Scalar ''color-1'')])],
    Rule [''.dark-mode'']
      [(Scalar ''background-1'', [Txt ''#140507'']),
       (Scalar ''background-2'', [Txt ''#20090c'']),
       (Scalar ''background-3'', [Txt ''#321116'']),
       (Scalar ''border-color'', [Txt ''#3c3031'']),
       (Scalar ''color-1'', [Txt ''rgba(255, 255, 255, 0.9)'']),
       (Scalar ''color-2'', [Txt ''rgba(255, 255, 255, 0.62)'']),
       (Scalar ''color-3'', [Txt ''rgba(255, 255, 255, 0.44)'']),
       (Scalar ''color-accent'', [Txt ''rgba(255, 255, 255, 0.9)'']),
       (Scalar ''background-accent'', [Txt ''#441313'']),
       (Scalar ''code-language-color-supersede'', [Var (Scalar ''color-1'')])],
    Rule [''.light-mode .t-doc__sidebar'', ''.dark-mode .t-doc__sidebar'']
      [(Scalar ''sidebar-background-1'', [Var (Scalar ''background-1'')]),
       (Scalar ''sidebar-color-1'', [Var (Scalar ''color-1'')]),
       (Scalar ''sidebar-color-2'', [Var (Scalar ''color-2'')]),
       (Scalar ''sidebar-border-color'', [Var (Scalar ''border-color'')]),
       (Scalar ''sidebar-item-hover-color'', [Txt ''currentColor'']),
       (Scalar ''sidebar-item-hover-background'', [Var (Scalar ''background-2'')]),
       (Scalar ''sidebar-item-active-background'', [Var (Scalar ''background-3'')]),
       (Scalar ''sidebar-color-active'', [Var (Scalar ''color-accent'')]),
       (Scalar ''sidebar-search-background'', [Txt ''rgba(255, 255, 255, 0.1)'']),
       (Scalar ''sidebar-search-color'', [Var (Scalar ''color-3'')]),
       (Scalar ''sidebar-search-border-color'', [Var (Scalar ''border-color'')]),
       (Prop ''z-index'', [Txt ''1''])],
    Rule [''.light-mode'']
      [(Scalar ''color-green'', [Txt ''#09533a'']),
       (Scalar ''color-red'', [Txt ''#aa181d'']),
       (Scalar ''color-yellow'', [Txt ''#ab8d2b'']),
       (Scalar ''color-blue'', [Txt ''#19689a'']),
       (Scalar ''color-orange'', [Txt ''#b26c34'']),
       (Scalar ''color-purple'', [Txt ''#4c2191'']),
       (Scalar ''color-query'', [Txt ''#086566'']),
       (Scalar ''button-1'', [Txt ''rgba(0, 0, 0, 1)'']),
       (Scalar ''button-1-hover'', [Txt ''rgba(0, 0, 0, 0.8)'']),
       (Scalar ''button-1-color'', [Txt ''#fff''])],
    Rule [''.dark-mode'']
      [(Scalar ''color-green'', [Txt ''rgba(69, 255, 165, 0.823)'']),
       (Scalar ''color-red'', [Txt ''#ff8589'']),
       (Scalar ''color-yellow'', [Txt ''#ffcc4d'']),
       (Scalar ''color-blue'', [Txt ''#6bc1fe'']),
       (Scalar ''color-orange'', [Txt ''#f98943'']),
       (Scalar ''color-purple'', [Txt ''#b191f9'']),
       (Scalar ''color-query'', [Txt ''#79e2da'']),
       (Scalar ''button-1'', [Txt ''rgba(255, 255, 255, 1)'']),
       (Scalar ''button-1-hover'', [Txt ''rgba(255, 255, 255, 0.9)'']),
       (Scalar ''button-1-color'', [Txt ''black''])],
    Rule [''.dark-mode h2.t-editor__heading'', ''.dark-mode .t-editor__page-title h1'', ''.dark-mode h1.section-header:not(::selection)'', ''.dark-mode .markdown h1'', ''.dark-mode .markdown h2'', ''.dark-mode .markdown h3'', ''.dark-mode .markdown h4'', ''.dark-mode .markdown h5'', ''.dark-mode .markdown h6'']
      [(Prop ''-webkit-text-fill-color'', [Txt ''transparent'']),
       (Prop ''background-image'', [Txt ''linear-gradient(to right bottom, rgb(255, 255, 255) 30%, rgba(255, 255, 255, 0.38))'']),
       (Prop ''-webkit-background-clip'', [Txt ''text'']),
       (Prop ''background-clip'', [Txt ''text''])],
    Rule [''.light-mode .t-doc__sidebar'']
      [(Scalar ''sidebar-search-background'', [Txt ''white''])],
    Rule [''.examples .scalar-card-footer'']
      [(Scalar ''background-3'', [Txt ''transparent'']),
       (Prop ''padding-top'', [Txt ''0''])],
    Rule [''.section-flare'']
      [(Prop ''overflow-x'', [Txt ''hidden'']),
       (Prop ''height'', [Txt ''100vh'']),
       (Prop ''left'', [Txt ''initial''])],
    Rule [''.section-flare-item:nth-of-type(1)'']
      [(Prop ''background'', [Txt ''#d25019'']),
       (Prop ''position'', [Txt ''relative'']),
       (Prop ''top'', [Txt ''-150px'']),
       (Prop ''right'', [Txt ''-400px'']),
       (Prop ''width'', [Txt ''80vw'']),
       (Prop ''height'', [Txt ''500px'']),
       (Prop ''margin-top'', [Txt ''-150px'']),
       (Prop ''border-radius'', [Txt ''50%'']),
       (Prop ''filter'', [Txt ''blur(100px)'']),
       (Prop ''z-index'', [Txt ''0''])],
    Rule [''.light-mode .section-flare'']
      [(Prop ''display'', [Txt ''none''])],
    Rule [''*::selection'']
      [(Prop ''background-color'', [Txt ''color-mix(in srgb, '', Var (Scalar ''color-red''), Txt '', transparent 75%)''])],
    Rule [''.dark-mode .t-doc .layout-content'']
      [(Prop ''background'', [Txt ''transparent''])]]"

definition qin :: stylesheet where
  "qin = [
    Rule [''.light-mode'']
      [(Prop ''color-scheme'', [Txt ''light'']),
       (Scalar ''color-1'', [Txt ''#000000'']),
       (Scalar ''color-2'', [Txt ''#000000'']),
       (Scalar ''color-3'', [Txt ''#000000'']),
       (Scalar ''color-accent'', [Txt ''#645b0f'']),
       (Scalar ''background-1'', [Txt ''#ccc9b3'']),
       (Scalar ''background-2'', [Txt ''#c2bfaa'']),
       (Scalar ''background-3'', [Txt ''#b8b5a1'']),
       (Scalar ''background-accent'', [Txt ''#000000'']),
       (Scalar ''border-color'', [Txt ''rgba(0, 0, 0, 0.2)'']),
       (Scalar ''scrollbar-color'', [Txt ''rgba(0, 0, 0, 0.18)'']),
       (Scalar ''scrollbar-color-active'', [Txt ''rgba(0, 0, 0, 0.36)'']),
       (Scalar ''lifted-brightness'', [Txt ''1'']),
       (Scalar ''backdrop-brightness'', [Txt ''1'']),
       (Scalar ''shadow-1'', [Txt ''0 1px 3px 0 rgba(0, 0, 0, 0.11)'']),
       (Scalar ''shadow-2'', [Txt ''rgba(0, 0, 0, 0.08) 0px 13px 20px 0px, rgba(0, 0, 0, 0.08) 0px 3px 8px 0px, '', Var (Scalar ''border-color''), Txt '' 0px 0 0 1px'']),
       (Scalar ''button-1'', [Txt ''rgb(49 53 56)'']),
       (Scalar ''button-1-color'', [Txt ''#fff'']),
       (Scalar ''button-1-hover'', [Txt ''rgb(28 31 33)'']),
       (Scalar ''color-red'', [Txt ''#b91c1c'']),
       (Scalar ''color-orange'', [Txt ''#a16207'']),
       (Scalar ''color-green'', [Txt ''#047857'']),
       (Scalar ''color-blue'', [Txt ''#1841b5'']),
       (Scalar ''color-orange'', [Txt ''#c2410c'']),
       (Scalar ''color-purple'', [Txt ''#6d28d9'']),
       (Scalar ''color-query'', [Txt ''#0f766e''])],
    Rule [''.dark-mode'']
      [(Prop ''color-scheme'', [Txt ''dark'']),
       (Scalar ''color-1'', [Txt ''#fffef3'']),
       (Scalar ''color-2'', [Txt ''#fffef3'']),
       (Scalar ''color-3'', [Txt ''#fffef3'']),
       (Scalar ''color-accent'', [Txt ''#c3b531'']),
       (Scalar ''background-1'', [Txt ''#313332'']),
       (Scalar ''background-2'', [Txt ''#393b3a'']),
       (Scalar ''background-3'', [Txt ''#414342'']),
       (Scalar ''background-accent'', [Txt ''#fffef3'']),
       (Scalar ''border-color'', [Txt ''#505452'']),
       (Scalar ''scrollbar-color'', [Txt ''rgba(255, 255, 255, 0.24)'']),
       (Scalar ''scrollbar-color-active'', [Txt ''rgba(255, 255, 255, 0.48)'']),
       (Scalar ''lifted-brightness'', [Txt ''1.45'']),
       (Scalar ''backdrop-brightness'', [Txt ''0.5'']),
       (Scalar ''shadow-1'', [Txt ''0 1px 3px 0 rgba(0, 0, 0, 0.11)'']),
       (Scalar ''shadow-2'', [Txt ''rgba(15, 15, 15, 0.2) 0px 3px 6px, rgba(15, 15, 15, 0.4) 0px 9px 24px, 0 0 0 1px rgba(255, 255, 255, 0.1)'']),
       (Scalar ''button-1'', [Txt ''#f6f6f6'']),
       (Scalar ''button-1-color'', [Txt ''#000'']),
       (Scalar ''button-1-hover'', [Txt ''#e7e7e7'']),
       (Scalar ''color-green'', [Txt ''#00b648'']),
       (Scalar ''color-red'', [Txt ''#dc1b19'']),
       (Scalar ''color-yellow'', [Txt ''#ffc90d'']),
       (Scalar ''color-blue'', [Txt ''#4eb3ec'']),
       (Scalar ''color-orange'', [Txt ''#ff8d4d'']),
       (Scalar ''color-purple'', [Txt ''#b191f9'']),
       (Scalar ''color-query'', [Txt ''#5eead4''])],
    Rule [''.light-mode .t-doc__sidebar'', ''.dark-mode .t-doc__sidebar'']
      [(Scalar ''sidebar-background-1'', [Var (Scalar ''background-1'')]),
       (Scalar ''sidebar-color-1'', [Var (Scalar ''color-1'')]),
       (Scalar ''sidebar-color-2'', [Var (Scalar ''color-2'')]),
       (Scalar ''sidebar-border-color'', [Var (Scalar ''border-color'')]),
       (Scalar ''sidebar-item-hover-background'', [Var (Scalar ''background-2'')]),
       (Scalar ''sidebar-item-hover-color'', [Txt ''currentColor'']),
       (Scalar ''sidebar-item-active-background'', [Var (Scalar ''background-3'')]),
       (Scalar ''sidebar-color-active'', [Var (Scalar ''color-1'')]),
       (Scalar ''sidebar-search-background'', [Txt ''transparent'']),
       (Scalar ''sidebar-search-color'', [Var (Scalar ''color-3'')]),
       (Scalar ''sidebar-search-border-color'', [Var (Scalar ''border-color'')])],
    Rule [''*::selection'']
      [(Prop ''background-color'', [Txt ''color-mix(in srgb, '', Var (Scalar ''color-accent''), Txt '', transparent 80%)''])]]"

definition Jin :: stylesheet where
  "Jin = [
    Rule [''.light-mode'']
      [(Scalar ''background-1'', [Txt ''#fff'']),
       (Scalar ''background-2'', [Txt ''#f5f6f8'']),
       (Scalar ''background-3'', [Txt ''#eceef1'']),
       (Scalar ''color-1'', [Txt ''#1b1b1b'']),
       (Scalar ''color-2'', [Txt ''#707070'']),
       (Scalar ''color-3'', [Txt ''#8e8e8e'']),
       (Scalar ''color-accent'', [Txt ''#5469d4'']),
       (Scalar ''background-accent'', [Txt ''#5469d41f'']),
       (Scalar ''border-color'', [Txt ''rgba(215, 215, 206, 0.68)''])],
    Rule [''.dark-mode'']
      [(Scalar ''background-1'', [Txt ''#15171c'']),
       (Scalar ''background-2'', [Txt ''#1c1e24'']),
       (Scalar ''background-3'', [Txt ''#22252b'']),
       (Scalar ''color-1'', [Txt ''#fafafa'']),
       (Scalar ''color-2'', [Txt ''#c9ced8'']),
       (Scalar ''color-3'', [Txt ''#8c99ad'']),
       (Scalar ''color-accent'', [Txt ''#5469d4'']),
       (Scalar ''background-accent'', [Txt ''#5469d41f'']),
       (Scalar ''border-color'', [Txt ''#3f4145''])],
    Rule [''.light-mode .t-doc__sidebar'', ''.dark-mode .t-doc__sidebar'']
      [(Scalar ''sidebar-background-1'', [Var (Scalar ''background-1'')]),
       (Scalar ''sidebar-color-1'', [Var (Scalar ''color-1'')]),
       (Scalar ''sidebar-color-2'', [Var (Scalar ''color-2'')]),
       (Scalar ''sidebar-border-color'', [Var (Scalar ''border-color'')]),
       (Scalar ''sidebar-item-hover-color'', [Txt ''currentColor'']),
       (Scalar ''sidebar-item-hover-background'', [Var (Scalar ''background-3'')]),
       (Scalar ''sidebar-item-active-background'', [Var (Scalar ''background-accent'')]),
       (Scalar ''sidebar-color-active'', [Var (Scalar ''color-accent'')]),
       (Scalar ''sidebar-search-background'', [Var (Scalar ''background-1'')]),
       (Scalar ''sidebar-search-color'', [Var (Scalar ''color-3'')]),
       (Scalar ''sidebar-search-border-color'', [Var (Scalar ''border-color'')])],
    Rule [''.light-mode'']
      [(Scalar ''color-green'', [Txt ''#17803d'']),
       (Scalar ''color-red'', [Txt ''#e10909'']),
       (Scalar ''color-yellow'', [Txt ''#edbe20'']),
       (Scalar ''color-blue'', [Txt ''#1763a6'']),
       (Scalar ''color-orange'', [Txt ''#e25b09'']),
       (Scalar ''color-purple'', [Txt ''#5c3993'']),
       (Scalar ''color-query'', [Txt ''#147873'']),
       (Scalar ''button-1'', [Txt ''rgba(0, 0, 0, 1)'']),
       (Scalar ''button-1-hover'', [Txt ''rgba(0, 0, 0, 0.8)'']),
       (Scalar ''button-1-color'', [Txt ''#fff''])],
    Rule [''.dark-mode'']
      [(Scalar ''color-green'', [Txt ''#30a159'']),
       (Scalar ''color-red'', [Txt ''#dc1b19'']),
       (Scalar ''color-yellow'', [Txt ''#eec644'']),
       (Scalar ''color-blue'', [Txt ''#468bc7'']),
       (Scalar ''color-orange'', [Txt ''#f07528'']),
       (Scalar ''color-purple'', [Txt ''#7a59b1'']),
       (Scalar ''color-query'', [Txt ''#4ac6b7'']),
       (Scalar ''button-1'', [Txt ''rgba(255, 255, 255, 1)'']),
       (Scalar ''button-1-hover'', [Txt ''rgba(255, 255, 255, 0.9)'']),
       (Scalar ''button-1-color'', [Txt ''black''])],
    Rule [''.light-mode *::selection'']
      [(Prop ''background-color'', [Txt ''color-mix(in srgb, '', Var (Scalar ''color-accent''), Txt '', transparent 70%)''])],
    Rule [''.dark-mode *::selection'']
      [(Prop ''background-color'', [Txt ''color-mix(in srgb, '', Var (Scalar ''color-accent''), Txt '', transparent 50%)''])]]"

definition Yin :: stylesheet where
  "Yin = [
    Rule [''.light-mode'']
      [(Scalar ''background-1'', [Txt ''#f3f3ee'']),
       (Scalar ''background-2'', [Txt ''#e8e8e3'']),
       (Scalar ''background-3'', [Txt ''#e4e4df'']),
       (Scalar ''border-color'', [Txt ''rgba(215, 215, 206, 0.85)'']),
       (Scalar ''color-1'', [Txt ''#1b1b1b'']),
       (Scalar ''color-2'', [Txt ''#676767'']),
       (Scalar ''color-3'', [Txt ''#8e8e8e'']),
       (Scalar ''color-accent'', [Txt ''#1763a6'']),
       (Scalar ''background-accent'', [Txt ''#1f648e1f''])],
    Rule [''.dark-mode'']
      [(Scalar ''background-1'', [Txt ''#09090b'']),
       (Scalar ''background-2'', [Txt ''#18181b'']),
       (Scalar ''background-3'', [Txt ''#2c2c30'']),
       (Scalar ''border-color'', [Txt ''rgba(255, 255, 255, 0.17)'']),
       (Scalar ''color-1'', [Txt ''#fafafa'']),
       (Scalar ''color-2'', [Txt ''rgb(161, 161, 170)'']),
       (Scalar ''color-3'', [Txt ''rgba(255, 255, 255, 0.533)'']),
       (Scalar ''color-accent'', [Txt ''#4eb3ec'']),
       (Scalar ''background-accent'', [Txt ''#8ab4f81f''])],
    Rule [''.light-mode .t-doc__sidebar'', ''.dark-mode .t-doc__sidebar'']
      [(Scalar ''sidebar-background-1'', [Var (Scalar ''background-1'')]),
       (Scalar ''sidebar-color-1'', [Var (Scalar ''color-1'')]),
       (Scalar ''sidebar-color-2'', [Var (Scalar ''color-2'')]),
       (Scalar ''sidebar-border-color'', [Var (Scalar ''border-color'')]),
       (Scalar ''sidebar-item-hover-background'', [Var (Scalar ''background-2'')]),
       (Scalar ''sidebar-item-hover-color'', [Txt ''currentColor'']),
       (Scalar ''sidebar-item-active-background'', [Var (Scalar ''background-3'')]),
       (Scalar ''sidebar-color-active'', [Var (Scalar ''color-1'')]),
       (Scalar ''sidebar-search-background'', [Var (Scalar ''background-1'')]),
       (Scalar ''sidebar-search-border-color'', [Var (Scalar ''border-color'')]),
       (Scalar ''sidebar-search-color'', [Var (Scalar ''color-3'')])],
    Rule [''.light-mode'']
      [(Scalar ''color-green'', [Txt ''#17803d'']),
       (Scalar ''color-red'', [Txt ''#e10909'']),
       (Scalar ''color-yellow'', [Txt ''#edbe20'']),
       (Scalar ''color-blue'', [Txt ''#1763a6'']),
       (Scalar ''color-orange'', [Txt ''#e25b09'']),
       (Scalar ''color-purple'', [Txt ''#5c3993'']),
       (Scalar ''color-query'', [Txt ''#147873'']),
       (Scalar ''button-1'', [Txt ''rgba(0, 0, 0, 1)'']),
       (Scalar ''button-1-hover'', [Txt ''rgba(0, 0, 0, 0.8)'']),
       (Scalar ''button-1-color'', [Txt ''#fff''])],
    Rule [''.dark-mode'']
      [(Scalar ''color-green'', [Txt ''#30a159'']),
       (Scalar ''color-red'', [Txt ''#dc1b19'']),
       (Scalar ''color-yellow'', [Txt ''#eec644'']),
       (Scalar ''color-blue'', [Txt ''#3e86c5'']),
       (Scalar ''color-orange'', [Txt ''#f07528'']),
       (Scalar ''color-purple'', [Txt ''#7a59b1'']),
       (Scalar ''color-query'', [Txt ''#4ac6b7'']),
       (Scalar ''button-1'', [Txt ''rgba(255, 255, 255, 1)'']),
       (Scalar ''button-1-hover'', [Txt ''rgba(255, 255, 255, 0.9)'']),
       (Scalar ''button-1-color'', [Txt ''black''])],
    Rule [''.dark-mode h2.t-editor__heading'', ''.dark-mode .t-editor__page-title h1'', ''.dark-mode h1.section-header:not(::selection)'', ''.dark-mode .markdown h1'', ''.dark-mode .markdown h2'', ''.dark-mode .markdown h3'', ''.dark-mode .markdown h4'', ''.dark-mode .markdown h5'', ''.dark-mode .markdown h6'']
      [(Prop ''-webkit-text-fill-color'', [Txt ''transparent'']),
       (Prop ''background-image'', [Txt ''linear-gradient(to right bottom, rgb(255, 255, 255) 30%, rgba(255, 255, 255, 0.38))'']),
       (Prop ''-webkit-background-clip'', [Txt ''text'']),
       (Prop ''background-clip'', [Txt ''text''])],
    Rule [''.light-mode *::selection'']
      [(Prop ''background-color'', [Txt ''color-mix(in srgb, '', Var (Scalar ''color-accent''), Txt '', transparent 70%)''])],
    Rule [''.dark-mode *::selection'']
      [(Prop ''background-color'', [Txt ''color-mix(in srgb, '', Var (Scalar ''color-accent''), Txt '', transparent 50%)''])]]"

definition Xin :: stylesheet where
  "Xin = [
    Rule [''.light-mode'']
      [(Prop ''color-scheme'', [Txt ''light'']),
       (Scalar ''color-1'', [Txt ''#584c27'']),
       (Scalar ''color-2'', [Txt ''#616161'']),
       (Scalar ''color-3'', [Txt ''#a89f84'']),
       (Scalar ''color-accent'', [Txt ''#b58900'']),
       (Scalar ''background-1'', [Txt ''#fdf6e3'']),
       (Scalar ''background-2'', [Txt ''#eee8d5'']),
       (Scalar ''background-3'', [Txt ''#ddd6c1'']),
       (Scalar ''background-accent'', [Txt ''#b589001f'']),
       (Scalar ''border-color'', [Txt ''#ded8c8'']),
       (Scalar ''scrollbar-color'', [Txt ''rgba(0, 0, 0, 0.18)'']),
       (Scalar ''scrollbar-color-active'', [Txt ''rgba(0, 0, 0, 0.36)'']),
       (Scalar ''lifted-brightness'', [Txt ''1'']),
       (Scalar ''backdrop-brightness'', [Txt ''1'']),
       (Scalar ''shadow-1'', [Txt ''0 1px 3px 0 rgba(0, 0, 0, 0.11)'']),
       (Scalar ''shadow-2'', [Txt ''rgba(0, 0, 0, 0.08) 0px 13px 20px 0px, rgba(0, 0, 0, 0.08) 0px 3px 8px 0px, #eeeeed 0px 0 0 1px'']),
       (Scalar ''button-1'', [Txt ''rgb(49 53 56)'']),
       (Scalar ''button-1-color'', [Txt ''#fff'']),
       (Scalar ''button-1-hover'', [Txt ''rgb(28 31 33)'']),
       (Scalar ''color-red'', [Txt ''#b91c1c'']),
       (Scalar ''color-orange'', [Txt ''#a16207'']),
       (Scalar ''color-green'', [Txt ''#047857'']),
       (Scalar ''color-blue'', [Txt ''#1d4ed8'']),
       (Scalar ''color-orange'', [Txt ''#c2410c'']),
       (Scalar ''color-purple'', [Txt ''#6d28d9'']),
       (Scalar ''color-query'', [Txt ''#007f78''])],
    Rule [''.dark-mode'']
      [(Prop ''color-scheme'', [Txt ''dark'']),
       (Scalar ''color-1'', [Txt ''#fff'']),
       (Scalar ''color-2'', [Txt ''#cccccc'']),
       (Scalar ''color-3'', [Txt ''#6d8890'']),
       (Scalar ''color-accent'', [Txt ''#007acc'']),
       (Scalar ''background-1'', [Txt ''#00212b'']),
       (Scalar ''background-2'', [Txt ''#012b36'']),
       (Scalar ''background-3'', [Txt ''#004052'']),
       (Scalar ''background-accent'', [Txt ''#015a6f'']),
       (Scalar ''border-color'', [Txt ''#2f4851'']),
       (Scalar ''scrollbar-color'', [Txt ''rgba(255, 255, 255, 0.24)'']),
       (Scalar ''scrollbar-color-active'', [Txt ''rgba(255, 255, 255, 0.48)'']),
       (Scalar ''lifted-brightness'', [Txt ''1.45'']),
       (Scalar ''backdrop-brightness'', [Txt ''0.5'']),
       (Scalar ''shadow-1'', [Txt ''0 1px 3px 0 rgb(0, 0, 0, 0.1)'']),
       (Scalar ''shadow-2'', [Txt ''rgba(15, 15, 15, 0.2) 0px 3px 6px, rgba(15, 15, 15, 0.4) 0px 9px 24px, 0 0 0 1px rgba(255, 255, 255, 0.1)'']),
       (Scalar ''button-1'', [Txt ''#f6f6f6'']),
       (Scalar ''button-1-color'', [Txt ''#000'']),
       (Scalar ''button-1-hover'', [Txt ''#e7e7e7'']),
       (Scalar ''color-green'', [Txt ''#00b648'']),
       (Scalar ''color-red'', [Txt ''#dc1b19'']),
       (Scalar ''color-yellow'', [Txt ''#ffc90d'']),
       (Scalar ''color-blue'', [Txt ''#4eb3ec'']),
       (Scalar ''color-orange'', [Txt ''#ff8d4d'']),
       (Scalar ''color-purple'', [Txt ''#b191f9'']),
       (Scalar ''color-query'', [Txt ''#7bdac7''])],
    Rule [''.light-mode .t-doc__sidebar'']
      [(Scalar ''sidebar-background-1'', [Var (Scalar ''background-1'')]),
       (Scalar ''sidebar-item-hover-color'', [Txt ''currentColor'']),
       (Scalar ''sidebar-item-hover-background'', [Var (Scalar ''background-2'')]),
       (Scalar ''sidebar-item-active-background'', [Var (Scalar ''background-accent'')]),
       (Scalar ''sidebar-border-color'', [Var (Scalar ''border-color'')]),
       (Scalar ''sidebar-color-1'', [Var (Scalar ''color-1'')]),
       (Scalar ''sidebar-color-2'', [Var (Scalar ''color-2'')]),
       (Scalar ''sidebar-color-active'', [Var (Scalar ''color-accent'')]),
       (Scalar ''sidebar-search-background'', [Var (Scalar ''background-2'')]),
       (Scalar ''sidebar-search-border-color'', [Var (Scalar ''sidebar-search-background'')]),
       (Scalar ''sidebar-search--color'', [Var (Scalar ''color-3'')])],
    Rule [''.dark-mode .t-doc__sidebar'']
      [(Scalar ''sidebar-background-1'', [Var (Scalar ''background-1'')]),
       (Scalar ''sidebar-item-hover-color'', [Txt ''currentColor'']),
       (Scalar ''sidebar-item-hover-background'', [Var (Scalar ''background-2'')]),
       (Scalar ''sidebar-item-active-background'', [Var (Scalar ''background-accent'')]),
       (Scalar ''sidebar-border-color'', [Var (Scalar ''border-color'')]),
       (Scalar ''sidebar-color-1'', [Var (Scalar ''color-1'')]),
       (Scalar ''sidebar-color-2'', [Var (Scalar ''color-2'')]),
       (Scalar ''sidebar-color-active'', [Var (Scalar ''sidebar-color-1'')]),
       (Scalar ''sidebar-search-background'', [Var (Scalar ''background-2'')]),
       (Scalar ''sidebar-search-border-color'', [Var (Scalar ''sidebar-search-background'')]),
       (Scalar ''sidebar-search--color'', [Var (Scalar ''color-3'')])],
    Rule [''*::selection'']
      [(Prop ''background-color'', [Txt ''color-mix(in srgb, '', Var (Scalar ''color-accent''), Txt '', transparent 70%)''])]]"

definition fallbackTheme :: stylesheet where
  "fallbackTheme = [
    Rule ['':root'']
      [(Scalar ''text-decoration'', [Txt ''underline'']),
       (Scalar ''text-decoration-hover'', [Txt ''underline''])],
    Rule [''.light-mode'']
      [(Scalar ''background-1'', [Txt ''#fff'']),
       (Scalar ''background-2'', [Txt ''#f6f6f6'']),
       (Scalar ''background-3'', [Txt ''#e7e7e7'']),
       (Scalar ''background-accent'', [Txt ''#8ab4f81f'']),
       (Scalar ''color-1'', [Txt ''#1b1b1b'']),
       (Scalar ''color-2'', [Txt ''#707070'']),
       (Scalar ''color-3'', [Txt ''#8e8e8e'']),
       (Scalar ''color-accent'', [Txt ''#0099ff'']),
       (Scalar ''border-color'', [Txt ''#dfdfdf''])],
    Rule [''.dark-mode'']
      [(Scalar ''background-1'', [Txt ''#0f0f0f'']),
       (Scalar ''background-2'', [Txt ''#1a1a1a'']),
       (Scalar ''background-3'', [Txt ''#272727'']),
       (Scalar ''color-1'', [Txt ''#e7e7e7'']),
       (Scalar ''color-2'', [Txt ''#a4a4a4'']),
       (Scalar ''color-3'', [Txt ''#797979'']),
       (Scalar ''color-accent'', [Txt ''#00aeff'']),
       (Scalar ''background-accent'', [Txt ''#3ea6ff1f'']),
       (Scalar ''border-color'', [Txt ''#2d2d2d''])],
    Rule [''.light-mode'', ''.dark-mode'']
      [(Scalar ''sidebar-background-1'', [Var (Scalar ''background-1'')]),
       (Scalar ''sidebar-color-1'', [Var (Scalar ''color-1'')]),
       (Scalar ''sidebar-color-2'', [Var (Scalar ''color-2'')]),
       (Scalar ''sidebar-border-color'', [Var (Scalar ''border-color'')]),
       (Scalar ''sidebar-item-hover-background'', [Var (Scalar ''background-2'')]),
       (Scalar ''sidebar-item-hover-color'', [Var (Scalar ''sidebar-color-2'')]),
       (Scalar ''sidebar-item-active-background'', [Var (Scalar ''background-2'')]),
       (Scalar ''sidebar-color-active'', [Var (Scalar ''sidebar-color-1'')]),
       (Scalar ''sidebar-indent-border'', [Var (Scalar ''sidebar-border-color'')]),
       (Scalar ''sidebar-indent-border-hover'', [Var (Scalar ''sidebar-border-color'')]),
       (Scalar ''sidebar-indent-border-active'', [Var (Scalar ''sidebar-border-color'')]),
       (Scalar ''sidebar-search-background'', [Txt ''color-mix(in srgb, '', Var (Scalar ''background-2''), Txt '', '', Var (Scalar ''background-1''), Txt '')'']),
       (Scalar ''sidebar-search-color'', [Var (Scalar ''color-3'')]),
       (Scalar ''sidebar-search-border-color'', [Var (Scalar ''border-color'')])],
    Rule [''.light-mode'']
      [(Scalar ''color-green'', [Txt ''#069061'']),
       (Scalar ''color-red'', [Txt ''#ef0006'']),
       (Scalar ''color-yellow'', [Txt ''#edbe20'']),
       (Scalar ''color-blue'', [Txt ''#0072bd'']),
       (Scalar ''color-orange'', [Txt ''#ff5800'']),
       (Scalar ''color-purple'', [Txt ''#5203d1'']),
       (Scalar ''color-query'', [Txt ''#007b80'']),
       (Scalar ''link-color'', [Var (Scalar ''color-1'')]),
       (Scalar ''link-color-hover'', [Var (Scalar ''link-color'')]),
       (Scalar ''button-1'', [Txt ''rgba(0, 0, 0, 1)'']),
       (Scalar ''button-1-hover'', [Txt ''rgba(0, 0, 0, 0.8)'']),
       (Scalar ''button-1-color'', [Txt ''#fff'']),
       (Scalar ''tooltip-background'', [Txt ''color-mix(in srgb, '', Var (Scalar ''background-1''), Txt '', transparent 10%)'']),
       (Scalar ''tooltip-color'', [Var (Scalar ''color-1'')]),
       (Scalar ''color-alert'', [Txt ''color-mix(in srgb, '', Var (Scalar ''color-orange''), Txt '', '', Var (Scalar ''color-1''), Txt '' 20%)'']),
       (Scalar ''color-danger'', [Txt ''color-mix(in srgb, '', Var (Scalar ''color-red''), Txt '', '', Var (Scalar ''color-1''), Txt '' 20%)'']),
       (Scalar ''background-alert'', [Txt ''color-mix(in srgb, '', Var (Scalar ''color-orange''), Txt '', '', Var (Scalar ''background-1''), Txt '' 95%)'']),
       (Scalar ''background-danger'', [Txt ''color-mix(in srgb, '', Var (Scalar ''color-red''), Txt '', '', Var (Scalar ''background-1''), Txt '' 95%)''])],
    Rule [''.dark-mode'']
      [(Scalar ''color-green'', [Txt ''#00b648'']),
       (Scalar ''color-red'', [Txt ''#dc1b19'']),
       (Scalar ''color-yellow'', [Txt ''#ffc90d'']),
       (Scalar ''color-blue'', [Txt ''#4eb3ec'']),
       (Scalar ''color-orange'', [Txt ''#ff8d4d'']),
       (Scalar ''color-purple'', [Txt ''#b191f9'']),
       (Scalar ''color-query'', [Txt ''#65d4cf'']),
       (Scalar ''link-color'', [Var (Scalar ''color-1'')]),
       (Scalar ''link-color-hover'', [Var (Scalar ''link-color'')]),
       (Scalar ''button-1'', [Txt ''rgba(255, 255, 255, 1)'']),
       (Scalar ''button-1-hover'', [Txt ''rgba(255, 255, 255, 0.9)'']),
       (Scalar ''button-1-color'', [Txt ''black'']),
       (Scalar ''tooltip-background'', [Txt ''color-mix(in srgb, '', Var (Scalar ''background-1''), Txt '', #fff 10%)'']),
       (Scalar ''tooltip-color'', [Txt ''color-mix(in srgb, #fff, transparent 5%)'']),
       (Scalar ''color-danger'', [Txt ''color-mix(in srgb, '', Var (Scalar ''color-red''), Txt '', '', Var (Scalar ''background-1''), Txt '' 20%)'']),
       (Scalar ''background-alert'', [Txt ''color-mix(in srgb, '', Var (Scalar ''color-orange''), Txt '', '', Var (Scalar ''background-1''), Txt '' 95%)'']),
       (Scalar ''background-danger'', [Txt ''color-mix(in srgb, '', Var (Scalar ''color-red''), Txt '', '', Var (Scalar ''background-1''), Txt '' 95%)''])],
    AtRules ''@supports (color: color(display-p3 1 1 1))'' [
      Rule [''.light-mode'']
        [(Scalar ''color-accent'', [Txt ''color(display-p3 0 0.6 1 / 1)'']),
         (Scalar ''color-green'', [Txt ''color(display-p3 0.023529 0.564706 0.380392 / 1)'']),
         (Scalar ''color-red'', [Txt ''color(display-p3 0.937255 0 0.023529 / 1)'']),
         (Scalar ''color-yellow'', [Txt ''color(display-p3 0.929412 0.745098 0.12549 / 1)'']),
         (Scalar ''color-blue'', [Txt ''color(display-p3 0 0.447059 0.741176 / 1)'']),
         (Scalar ''color-orange'', [Txt ''color(display-p3 1 0.4 0.02)'']),
         (Scalar ''color-purple'', [Txt ''color(display-p3 0.321569 0.011765 0.819608 / 1)''])],
      Rule [''.dark-mode'']
        [(Scalar ''color-accent'', [Txt ''color(display-p3 0.07 0.67 1)'']),
         (Scalar ''color-green'', [Txt ''color(display-p3 0 0.713725 0.282353 / 1)'']),
         (Scalar ''color-red'', [Txt ''color(display-p3 0.862745 0.105882 0.098039 / 1)'']),
         (Scalar ''color-yellow'', [Txt ''color(display-p3 1 0.788235 0.05098 / 1)'']),
         (Scalar ''color-blue'', [Txt ''color(display-p3 0.305882 0.701961 0.92549 / 1)'']),
         (Scalar ''color-orange'', [Txt ''color(display-p3 1 0.552941 0.301961 / 1)'']),
         (Scalar ''color-purple'', [Txt ''color(display-p3 0.694118 0.568627 0.976471 / 1)''])]]]"

section \<open>The table of themes\<close>

definition Qin :: "string list" where
  "Qin = [''alternate'', ''default'', ''moon'', ''purple'', ''solarized'', ''bluePlanet'', ''deepSpace'', ''saturn'',
     ''kepler'', ''elysiajs'', ''fastify'', ''mars'', ''laserwave'', ''none'']"

definition bQ :: "(string \<times> stylesheet) list" where
  "bQ = [(''default'', Vin), (''alternate'', Rin), (''moon'', qin), (''purple'', Jin), (''solarized'', Xin),
     (''bluePlanet'', zin), (''deepSpace'', Bin), (''saturn'', Yin), (''kepler'', Win), (''mars'', Kin),
     (''laserwave'', Gin), (''elysiajs'', Hin), (''fastify'', Uin)]"

text \<open>
  The style sheet of a theme by name (empty: the default one), with the fonts and within a
  cascade layer when asked. A name without an entry gets the fallback sheet.
\<close>

definition theme_sheet :: "string \<Rightarrow> stylesheet" where
  "theme_sheet e = (case map_of bQ (if e = [] then ''default'' else e) of
      Some t \<Rightarrow> t
    | None \<Rightarrow> fallbackTheme)"


section \<open>What an element sees\<close>

text \<open>
  The declarations that reach an element: those of the rules one of whose selectors it
  matches, in order, going into the at-rules whose condition holds. Among rules of one
  specificity the later declaration wins; \<^verbatim>\<open>.light-mode\<close>, \<^verbatim>\<open>.dark-mode\<close> and
  \<^verbatim>\<open>:root\<close> have the same.
\<close>

fun rule_decls :: "(string \<Rightarrow> bool) \<Rightarrow> (string \<Rightarrow> bool) \<Rightarrow> css_rule \<Rightarrow> css_decl list" where
  "rule_decls cond matches (Rule sels ds) = (if list_ex matches sels then ds else [])"
| "rule_decls cond matches (AtDecls a ds) = []"
| "rule_decls cond matches (AtRules a rs) =
     (if cond a then concat (map (rule_decls cond matches) rs) else [])"

definition sheet_decls :: "(string \<Rightarrow> bool) \<Rightarrow> (string \<Rightarrow> bool) \<Rightarrow> stylesheet \<Rightarrow> css_decl list" where
  "sheet_decls cond matches rs = concat (map (rule_decls cond matches) rs)"

definition declared :: "css_decl list \<Rightarrow> css_name \<Rightarrow> css_part list option" where
  "declared ds n = map_of (rev ds) n"

lemma declared_in: "declared ds n = Some ps \<Longrightarrow> n \<in> fst ` set ds"
  by (auto simp: declared_def dest!: map_of_SomeD intro: rev_image_eqI)

text \<open>
  The computed value of a custom property: every \<^verbatim>\<open>var\<close> replaced by the value of its
  property. \<open>None\<close> is the guaranteed-invalid value: a property that is nowhere declared,
  or one that needs itself (\<open>path\<close> holds the properties being computed). Each step into a
  property takes one more of the finitely many declared ones.
\<close>

function (sequential) computed ::
  "(css_name \<times> css_part list) list \<Rightarrow> css_name list \<Rightarrow> css_name \<Rightarrow> string option"
  and computed_parts ::
  "(css_name \<times> css_part list) list \<Rightarrow> css_name list \<Rightarrow> css_part list \<Rightarrow> string option" where
  "computed ds path n =
     (if n \<in> set path then None
      else (case declared ds n of
          None \<Rightarrow> None
        | Some ps \<Rightarrow> computed_parts ds (n # path) ps))"
| "computed_parts ds path [] = Some []"
| "computed_parts ds path (Txt s # ps) = map_option ((@) s) (computed_parts ds path ps)"
| "computed_parts ds path (Var n # ps) =
     (case computed ds path n of
        None \<Rightarrow> None
      | Some s \<Rightarrow> map_option ((@) s) (computed_parts ds path ps))"
  by pat_completeness auto

termination
proof (relation "measures [\<lambda>x. case x of
      Inl (ds, path, n) \<Rightarrow> card (fst ` set ds - set path)
    | Inr (ds, path, ps) \<Rightarrow> card (fst ` set ds - set path),
    \<lambda>x. case x of Inl _ \<Rightarrow> 0 | Inr (ds, path, ps) \<Rightarrow> Suc (length ps)]", goal_cases)
  case 1
  show ?case by simp
next
  case (2 ds path n ps)
  then have "n \<in> fst ` set ds - set path" using declared_in by blast
  then have "fst ` set ds - set (n # path) \<subset> fst ` set ds - set path" by auto
  then show ?case by (simp add: psubset_card_mono)
qed auto

definition mode_matches :: "string \<Rightarrow> string \<Rightarrow> bool" where
  "mode_matches mode sel \<longleftrightarrow> sel = mode \<or> sel = '':root''"

section \<open>Sheets that stand on their own\<close>

text \<open>
  The at-rules with rules of a sheet; which of them apply is the browser's (its support of a
  colour space, the width of the window).
\<close>

fun rule_ats :: "css_rule \<Rightarrow> string list" where
  "rule_ats (Rule sels ds) = []"
| "rule_ats (AtDecls a ds) = []"
| "rule_ats (AtRules a rs) = a # concat (map rule_ats rs)"

definition sheet_ats :: "stylesheet \<Rightarrow> string list" where
  "sheet_ats rs = remdups (concat (map rule_ats rs))"






lemma declared_append: "declared es n = Some ps \<Longrightarrow> declared (ds @ es) n = Some ps"
  by (simp add: declared_def map_add_def)


text \<open>Only the at-rules of a sheet matter.\<close>

lemma rule_decls_cong: "(\<And>a. a \<in> set (rule_ats r) \<Longrightarrow> c a = d a) \<Longrightarrow> rule_decls c M r = rule_decls d M r"
proof (induction r)
  case (AtRules a rs)
  have "rule_decls c M x = rule_decls d M x" if "x \<in> set rs" for x
    using that AtRules.prems by (intro AtRules.IH) auto
  then have eq: "map (rule_decls c M) rs = map (rule_decls d M) rs" by simp
  have "c a = d a" by (rule AtRules.prems) simp
  then show ?case by (simp only: rule_decls.simps eq)
qed simp_all

lemma sheet_decls_on: "sheet_decls c M rs = sheet_decls (\<lambda>a. a \<in> set (filter c (sheet_ats rs))) M rs"
proof -
  have "rule_decls c M r = rule_decls (\<lambda>a. a \<in> set (filter c (sheet_ats rs))) M r" if "r \<in> set rs" for r
    using that by (intro rule_decls_cong) (auto simp: sheet_ats_def)
  then show ?thesis unfolding sheet_decls_def by (metis (no_types, lifting) map_eq_conv)
qed

lemma filter_subseqs: "filter c xs \<in> set (subseqs xs)"
  by (induction xs) (auto simp: Let_def)




















section \<open>Properties\<close>



text \<open>
  Two gaps, in every browser. In the alternate theme a card within a dark card sets its
  third background to itself, so that the property has no value whatever the page declared
  before; and the default theme declares an alert colour of its own in the light mode only:
  the dark mode is left with whatever other style sheets give it.
\<close>

lemma every_browser:
  assumes "list_all (\<lambda>on. P (sheet_decls (\<lambda>a. a \<in> set on) M rs)) (subseqs (sheet_ats rs))"
  shows "P (sheet_decls cond M rs)"
  using assms filter_subseqs [of cond "sheet_ats rs"] unfolding list_all_iff by (subst sheet_decls_on) blast

lemma docs_theme_gaps:
  "computed (page @ sheet_decls cond
       (\<lambda>s. s \<in> set [''.dark-mode .dark-mode.scalar-card'', ''.scalar-card'', ''.dark-mode'']) (theme_sheet ''alternate''))
     [] (Scalar ''background-3'') = None \<and>
   computed (sheet_decls cond (mode_matches ''.light-mode'') (theme_sheet ''default'')) [] (Scalar ''color-alert'') \<noteq> None \<and>
   computed (sheet_decls cond (mode_matches ''.dark-mode'') (theme_sheet ''default'')) [] (Scalar ''color-alert'') = None"
proof (intro conjI)
  have "list_all (\<lambda>on. declared (sheet_decls (\<lambda>a. a \<in> set on)
       (\<lambda>s. s \<in> set [''.dark-mode .dark-mode.scalar-card'', ''.scalar-card'', ''.dark-mode'']) (theme_sheet ''alternate''))
     (Scalar ''background-3'') = Some [Var (Scalar ''background-3'')]) (subseqs (sheet_ats (theme_sheet ''alternate'')))"
    by code_simp
  note self = every_browser [where P = "\<lambda>ds. declared ds (Scalar ''background-3'') = Some [Var (Scalar ''background-3'')]", OF this]
  from declared_append [OF self, of page cond]
  show "computed (page @ sheet_decls cond
       (\<lambda>s. s \<in> set [''.dark-mode .dark-mode.scalar-card'', ''.scalar-card'', ''.dark-mode'']) (theme_sheet ''alternate''))
     [] (Scalar ''background-3'') = None"
    by simp
next
  have "list_all (\<lambda>on. computed (sheet_decls (\<lambda>a. a \<in> set on) (mode_matches ''.light-mode'') (theme_sheet ''default'')) []
     (Scalar ''color-alert'') \<noteq> None) (subseqs (sheet_ats (theme_sheet ''default'')))"
    by code_simp
  then show "computed (sheet_decls cond (mode_matches ''.light-mode'') (theme_sheet ''default'')) [] (Scalar ''color-alert'') \<noteq> None"
    by (rule every_browser)
next
  have "list_all (\<lambda>on. computed (sheet_decls (\<lambda>a. a \<in> set on) (mode_matches ''.dark-mode'') (theme_sheet ''default'')) []
     (Scalar ''color-alert'') = None) (subseqs (sheet_ats (theme_sheet ''default'')))"
    by code_simp
  then show "computed (sheet_decls cond (mode_matches ''.dark-mode'') (theme_sheet ''default'')) [] (Scalar ''color-alert'') = None"
    by (rule every_browser)
qed

end
