(* ===== verification/Spec2Isabelle.thy ===== *)
theory Spec2Isabelle
  imports Prelude Config NetAddr Takeover RedisConf Targets Report ObjectStore Push Outgoing Sampling ReleaseCheck Redis Table Idempotency Delayx Kafkax Consumer Outbox Webhook Httpx Authx Identity Perm Password Nacos ConfigWatch Jobx Pagex Utf8 AuditLog Lock Migrate IdlDeps Respond Gateway Cache Idx Money Devroute Discovery ServiceWatch Runtime Guard ClientAddr DocsPage DocsThemes
begin

text \<open>
  A model of \<^verbatim>\<open>devkit-common\<close>, the library the services of a platform share: the
  parts that keep state or decide something, with what makes them correct and where they
  are not. A service built on the library is a Kitex RPC server or a Hertz gateway; its
  runtime opens MySQL, Redis and Kafka from the configuration and hands them to the
  packages modelled here. Almost all the shared state lives in Redis and in two tables, and
  most of the promises are about what several replicas, retries and failures of those
  servers can do to it.

  \<^bold>\<open>Theories.\<close>
  \<^item> \<open>Prelude\<close>: Go's string functions and decimal numbers, results as sums, and the
    lemmas about them.
  \<^item> \<open>Table\<close>: a database table as a list of rows and the statements on it.
  \<^item> \<open>Config\<close> (\<^verbatim>\<open>config/duration.go\<close>, \<^verbatim>\<open>config/config.go\<close>): optional
    durations, the environment name, the directory and the files of a configuration and the
    expansion of their references. \<open>NetAddr\<close>: addresses of the form \<^verbatim>\<open>host:port\<close>, what a
    service listens on and registers.
  \<^item> \<open>Takeover\<close> (\<^verbatim>\<open>config/takeover.go\<close>, \<^verbatim>\<open>nacosx/nacosx.go\<close>): the marker of
    takeover mode, what it changes of a process, and who registers in Nacos.
  \<^item> \<open>RedisConf\<close> (\<^verbatim>\<open>redisx/redisx.go\<close>): the configuration of the connection.
  \<^item> \<open>Targets\<close> (\<^verbatim>\<open>kitexx/runtime.go\<close>, \<^verbatim>\<open>mysqlx/mysqlx.go\<close>): where the database, Redis,
    Kafka and the push server of a service are, with which account. \<open>Report\<close>
    (\<^verbatim>\<open>starrocksx/starrocksx.go\<close>): the report database, its check of statements and its
    rows. \<open>ObjectStore\<close> (\<^verbatim>\<open>s3x/s3x.go\<close>): the buckets of a service, its keys and its files,
    over the server (the locale \<open>object_server\<close>), with what a listing names and what it
    never names (the files right under the prefix). \<open>Push\<close> (\<^verbatim>\<open>centrifugox/centrifugox.go\<close>):
    calls of the push server and connection tokens.
  \<^item> \<open>Outgoing\<close> (\<^verbatim>\<open>kitexx/rpcclient.go\<close>, \<^verbatim>\<open>kitexx/runtime.go\<close>): the protections of an RPC
    client, over Kitex's retrying (the locale \<open>kitex_retry\<close>), and the rule on providers.
  \<^item> \<open>ReleaseCheck\<close> (\<^verbatim>\<open>verifyx/verify.go\<close>, \<^verbatim>\<open>kitexx/verify.go\<close>): the checks of what has
    just been deployed: the runner with the record of its tries (\<open>logged_run\<close>), the
    framework's checks and the exit code.
  \<^item> \<open>Sampling\<close> (\<^verbatim>\<open>zlog/sampling.go\<close>): the report of log records that were dropped.
  \<^item> \<open>Redis\<close>: the server as the code uses it. The locale \<open>redis_server\<close> states what an
    answered and a failed list of commands may have done; it is interpreted on a server that
    follows the documentation and fails on a schedule (\<open>mem\<close>) and on one that never fails
    (\<open>live\<close>). Every operation below takes the server as its argument \<open>exec\<close>. Time passes
    over its keys by \<open>pass_time\<close>, which takes away those whose time to live is up.
  \<^item> \<open>Idempotency\<close> (\<^verbatim>\<open>kitexx/idempotency.go\<close>, \<^verbatim>\<open>kitexx/requestid.go\<close>): the
    middleware that runs a request once, for retries within the 24 hours its key lives, and
    the check of outgoing request ids.
  \<^item> \<open>Delayx\<close> (\<^verbatim>\<open>delayx/delay.go\<close>): delayed tasks in a table shared by replicas: the
    statements on the table, and the service as a step relation (\<open>dstep\<close>, \<open>dreachable\<close>).
  \<^item> \<open>Kafkax\<close> (\<^verbatim>\<open>kafkax/kafkax.go\<close>, \<^verbatim>\<open>kafkax/dlq.go\<close>): processing an event with
    dedupe and retries, parking, and the dead-letter tool. \<open>Consumer\<close>: publishing, and
    the loop that polls, handles and commits, as a function that refines a step relation
    over one partition (\<open>part_step\<close>).
  \<^item> \<open>Outbox\<close> (\<^verbatim>\<open>kafkax/outbox.go\<close>): events written in a transaction and the relay
    that publishes them: one round as a function, and any number of replicas whose rounds
    interleave, roll back and crash as a step relation (\<open>ostep\<close>, \<open>oreachable\<close>).
  \<^item> \<open>Base64\<close>: the two encodings of bytes the code uses, with their round trips.
  \<^item> \<open>Webhook\<close> (\<^verbatim>\<open>webhookx/webhookx.go\<close>, \<^verbatim>\<open>httpx/callback.go\<close>): callbacks of
    providers, from the signature to the check for a redelivery and the handler.
  \<^item> \<open>Httpx\<close> (\<^verbatim>\<open>httpx\<close>): calls to external APIs: what is masked in logs, the
    addresses refused, the limits around an attempt, retries, and signing, which
    \<open>Webhook\<close> verifies.
  \<^item> \<open>Authx\<close> (\<^verbatim>\<open>authx/authx.go\<close>): login sessions and tokens. The JWT library is the
    locale \<open>jwt_library\<close>, interpreted on symbolic tokens.
  \<^item> \<open>Identity\<close> (\<^verbatim>\<open>kitexx/svcidentity.go\<close>, \<^verbatim>\<open>kitexx/callers.go\<close>,
    \<^verbatim>\<open>kitexx/identity.go\<close>): the caller of an RPC, the methods it may call, and the login
    it claims: the three middlewares and their chain, and the refresh of the cluster's keys.
  \<^item> \<open>Perm\<close> (\<^verbatim>\<open>hertzx/auth.go\<close>, \<^verbatim>\<open>hertzx/perm.go\<close>): the login and permission
    checks of a gateway, and the cache of permission points under concurrent requests
    (\<open>pstep\<close>).
  \<^item> \<open>Password\<close> (\<^verbatim>\<open>authx/password.go\<close>): stored password hashes, over Argon2id
    (the locale \<open>argon2\<close>).
  \<^item> \<open>Nacos\<close> (\<^verbatim>\<open>nacosx\<close>): the difference of two configurations and its secrets, a
    configuration that follows its changes, and the log of an outage. \<open>ConfigWatch\<close>
    (\<^verbatim>\<open>nacosx/config.go\<close>): one configuration followed for all who asked for it, with
    pushes, changes and followers in any order (\<open>hub_step\<close>).
  \<^item> \<open>Jobx\<close> (\<^verbatim>\<open>jobx/jobx.go\<close>): the list of a service's jobs, a run under its
    lock, and overlapping runs (\<open>jstep\<close>). \<open>Pagex\<close> (\<^verbatim>\<open>pagex/pagex.go\<close>): paging.
  \<^item> \<open>Lock\<close>, \<open>Cache\<close> (\<^verbatim>\<open>redisx/lock.go\<close>, \<^verbatim>\<open>redisx/cache.go\<close>): the lock across
    replicas and the read-through cache, each as a function and as concurrent callers. The
    wait of the lock counts the time its calls of Redis take and by how much its timers are
    late (\<open>lag\<close>); the callers of the cache share one loader while Redis answers and load
    each for itself while it does not (\<open>Bypassing\<close>).
  \<^item> \<open>Utf8\<close>, \<open>AuditLog\<close> (\<^verbatim>\<open>hertzx/audit.go\<close>): what of a request is kept in an
    audit entry, cut at a character, with the names whose values are hidden, and the queue
    of entries with its worker (\<open>sink_step\<close>).
  \<^item> \<open>Migrate\<close> (\<^verbatim>\<open>kitexx/migrate.go\<close>, \<^verbatim>\<open>mysqlx\<close>): the comparison of models with
    tables, what narrows a column, and the change of the schema, under the lock where the
    service has Redis and without it where it has not.
  \<^item> \<open>IdlDeps\<close> (\<^verbatim>\<open>kitexx/idldeps.go\<close>): the gate a service waits at for the services
    it calls, and the services of a release as they start (\<open>fleet_step\<close>).
  \<^item> \<open>Idx\<close> (\<^verbatim>\<open>idx/idx.go\<close>): unique ids, their layout, the leased instance number.
  \<^item> \<open>Money\<close> (\<^verbatim>\<open>moneyx/money.go\<close>): amounts, currencies, splitting and allocating.
    The decimal library is the locale \<open>decimals\<close>, interpreted on functions that compute.
  \<^item> \<open>Devroute\<close> (\<^verbatim>\<open>devroute\<close>): the tags of a request and the load balancer of tagged
    routing, over Kitex's own balancer (the locale \<open>kitex_balancer\<close>).
  \<^item> \<open>Discovery\<close> (\<^verbatim>\<open>nacosx/naming.go\<close>, \<^verbatim>\<open>kitexx/nacos.go\<close>,
    \<^verbatim>\<open>kitexx/devroute.go\<close>): what a client knows of the instances of a service, its
    subscribers (\<open>sv_step\<close>), and the resolver that decides which of them \<open>Devroute\<close>'s
    balancer is told of, with the second client for the tunnels of takeover mode and without
    it, where the addresses are not guarded. \<open>ServiceWatch\<close> (\<^verbatim>\<open>nacosx/services.go\<close>): the watch over
    all services, what it puts on record, and the rows of its table.
  \<^item> \<open>Runtime\<close> (\<^verbatim>\<open>kitexx/runtime.go\<close>, \<^verbatim>\<open>kitexx/kitexx.go\<close>,
    \<^verbatim>\<open>kitexx/shutdown.go\<close>, \<^verbatim>\<open>hertzx/hertzx.go\<close>): starting and stopping: what is opened
    and closed in which order, the workers while the hooks run (\<open>stop_step\<close>), and both
    servers (Kitex's is the locale \<open>kitex_server\<close>).
  \<^item> \<open>Respond\<close> (\<^verbatim>\<open>kitexx/validate.go\<close>, \<^verbatim>\<open>hertzx/respond.go\<close>,
    \<^verbatim>\<open>hertzx/bind.go\<close>): business errors from a service to the client of a gateway,
    over what Kitex does with them (the locale \<open>kitex_errors\<close>).
  \<^item> \<open>Gateway\<close> (\<^verbatim>\<open>hertzx/hertzx.go\<close>, \<^verbatim>\<open>hertzx/client.go\<close>): a request through
    the middlewares of a gateway, with the response the handler is given, which puts \<open>ClientAddr\<close>, \<open>Guard\<close>, \<open>Devroute\<close> and
    \<open>Idempotency\<close> together.
  \<^item> \<open>Guard\<close> (\<^verbatim>\<open>kitexx/guard.go\<close>, \<^verbatim>\<open>hertzx/guard.go\<close>, \<^verbatim>\<open>kitexx/limits.go\<close>):
    request rates, body sizes, the limits of an instance (\<open>lim_step\<close>).
  \<^item> \<open>ClientAddr\<close> (\<^verbatim>\<open>hertzx/clientip.go\<close>, \<^verbatim>\<open>kitexx/client.go\<close>): the address of a
    client behind proxies and the edges that vouch for it.
  \<^item> \<open>DocsPage\<close> (\<^verbatim>\<open>hertzx/docs.go\<close>, \<^verbatim>\<open>hertzx/docs_client.go\<close>) and
    \<open>DocsThemes\<close> (\<^verbatim>\<open>hertzx/docs/scalar.js\<close>): the fetch hook of the documentation page,
    the document it reads (as YAML with the device headers, and as JSON), and the style
    sheets of its themes, with the values a browser computes for them whatever its at-rules
    answer.

  \<^bold>\<open>How the code is rendered.\<close> A Go function that may fail returns a sum, \<open>Inl\<close> the
  error; a call of Redis, of a handler or of a loader threads the state of the world. Time,
  randomness and the clock are arguments. Concurrency is a step relation whose events are
  the code's own atomic steps (a statement on a table, a command of Redis, a lock held
  around a few lines), and the environment's (time passes, a key expires, a process
  crashes). Loops end by structural recursion, except the wait of the lock, which has a
  measure (each attempt begins later than the one before: a pause and the time of a call lie
  between them), and the computed value of a style
  property, which visits each property once. No definition uses fuel.

  \<^bold>\<open>What the lemmas show.\<close> For the components on Redis: what each operation leaves in the
  store, whichever calls fail, and from that the promise of the component (a request runs
  at most once, a revoked session never verifies, a lock has one holder until its key runs
  out). For the step relations: an invariant by rule induction, then the statements that
  follow from it. Where the code does not keep its promise, or only
  under a condition its documentation does not name, a lemma gives the run that shows it: a lost and a doubled task, a lock and a cache key held for good after a panic,
  sessions that survive a revocation, an event lost by a crash, a cache without Redis whose
  callers all load, a secret in a broken body that reaches the audit log.

  \<^bold>\<open>Parameters.\<close> Redis, Kafka's records, the JWT library, the decimal library, Kitex's
  balancer, Go's address parser, SHA-256, Ed25519, the JSON of values, handlers and loaders
  are arguments; their laws are hypotheses or locales, and every property with one is
  applied to a concrete instance in its witness. A signed request is one value for sender
  and receiver: that Hertz cleans the path of a request on arrival is outside the model, so
  the signatures of \<open>Httpx\<close> and \<open>Webhook\<close> speak of paths it leaves alone.

  \<^bold>\<open>Not modelled.\<close> Logging, tracing and metrics apart from \<open>Sampling\<close>: output for
  people and collectors, on which no other code relies. The connections of the drivers
  (GORM, franz-go, go-redis, the SDKs of S3, Nacos and Centrifugo, Kitex, Hertz): their
  contracts are the arguments and locales above. The loops of resty and of the Kafka client,
  the signing of S3 addresses and the console of Nacos: third-party code behind one call.
  Code generators, examples and test helpers. In \<^verbatim>\<open>scalar.js\<close>, the minified third-party
  viewer around its style sheets.
\<close>

end
